(* ===== verification/Prelude.thy ===== *)
theory Prelude
  imports Main "HOL-Library.Word"
begin

text \<open>
  Shared vocabulary of the development: the machine integers and byte strings of the Rust
  sources, results whose error carries a message (\<open>util::Error\<close>), the fixed-width integer
  codecs of the standard library (\<open>to_le_bytes\<close>, \<open>to_be_bytes\<close> and their inverses), checked slices
  (\<open>slice::get(a..b)\<close>), and the interface every wire codec of the program satisfies.
\<close>

unbundle bit_operations_syntax

type_synonym u8 = "8 word"
type_synonym u16 = "16 word"
type_synonym u32 = "32 word"
type_synonym u64 = "64 word"
type_synonym bytes = "8 word list"

text \<open>\<open>util::Result\<close>: the error is a message.\<close>

type_synonym 'a result = "string + 'a"

named_theorems codec_simps "round-trip and length facts of the byte-level codecs"

section \<open>Fixed-width integers as bytes\<close>

primrec le_bytes :: "nat \<Rightarrow> 'a::len word \<Rightarrow> bytes" where
  "le_bytes 0 w = []"
| "le_bytes (Suc n) w = ucast w # le_bytes n (drop_bit 8 w)"

primrec of_le :: "bytes \<Rightarrow> 'a::len word" where
  "of_le [] = 0"
| "of_le (b # bs) = ucast b OR push_bit 8 (of_le bs)"

definition be_bytes :: "nat \<Rightarrow> 'a::len word \<Rightarrow> bytes" where
  "be_bytes n w = rev (le_bytes n w)"

definition of_be :: "bytes \<Rightarrow> 'a::len word" where
  "of_be bs = of_le (rev bs)"

lemma length_le_bytes [simp, codec_simps]: "length (le_bytes n w) = n"
  by (induction n arbitrary: w) auto

lemma length_be_bytes [simp, codec_simps]: "length (be_bytes n w) = n"
  by (simp add: be_bytes_def)

lemma of_le_le_bytes_take: "of_le (le_bytes n w) = take_bit (8 * n) w"
proof (induction n arbitrary: w)
  case 0
  then show ?case by simp
next
  case (Suc n)
  have "ucast (ucast w :: u8) OR push_bit 8 (take_bit (8 * n) (drop_bit 8 w)) = take_bit (8 + 8 * n) w"
    by (rule bit_word_eqI) (auto simp: bit_simps)
  then show ?case by (simp add: Suc)
qed

lemma of_le_le_bytes [codec_simps]: "LENGTH('a) \<le> 8 * n \<Longrightarrow> of_le (le_bytes n w) = (w :: 'a::len word)"
  by (auto intro!: bit_word_eqI simp: of_le_le_bytes_take bit_take_bit_iff)

lemma of_be_be_bytes [codec_simps]: "LENGTH('a) \<le> 8 * n \<Longrightarrow> of_be (be_bytes n w) = (w :: 'a::len word)"
  by (simp add: of_be_def be_bytes_def of_le_le_bytes)

lemma drop_bit_of_le:
  assumes "8 * Suc (length bs) \<le> LENGTH('a)"
  shows "drop_bit 8 (of_le (b # bs) :: 'a::len word) = of_le bs"
    and "ucast (of_le (b # bs) :: 'a::len word) = b"
proof -
  have hi: "\<not> bit (of_le bs :: 'a word) m" if "8 * length bs \<le> m" for m
    using that
  proof (induction bs arbitrary: m)
    case Nil
    then show ?case by simp
  next
    case (Cons c cs)
    then show ?case by (auto simp: bit_simps dest: bit_imp_le_length)
  qed
  show "drop_bit 8 (of_le (b # bs) :: 'a word) = of_le bs"
  proof (rule bit_word_eqI)
    fix n
    have "\<not> bit b (8 + n)" using bit_imp_le_length [of b "8 + n"] by auto
    moreover have "8 * length bs \<le> n" if "LENGTH('a) \<le> 8 + n" using that assms by simp
    ultimately show "bit (drop_bit 8 (of_le (b # bs) :: 'a word)) n = bit (of_le bs :: 'a word) n"
      using hi [of n] by (cases "8 + n < LENGTH('a)") (auto simp: bit_simps)
  qed
  show "ucast (of_le (b # bs) :: 'a word) = b"
    using assms by (auto intro!: bit_word_eqI simp: bit_simps dest: bit_imp_le_length)
qed

lemma le_bytes_of_le [codec_simps]:
  "8 * length bs \<le> LENGTH('a) \<Longrightarrow> le_bytes (length bs) (of_le bs :: 'a::len word) = bs"
proof (induction bs)
  case Nil
  then show ?case by simp
next
  case (Cons b bs)
  then show ?case using drop_bit_of_le [of bs b, where 'a = 'a] by (simp del: of_le.simps)
qed

lemma be_bytes_of_be [codec_simps]:
  "8 * length bs \<le> LENGTH('a) \<Longrightarrow> be_bytes (length bs) (of_be bs :: 'a::len word) = bs"
  using le_bytes_of_le [of "rev bs", where 'a = 'a] by (simp add: be_bytes_def of_be_def)

lemma unat_u8_le: "unat (b :: u8) \<le> 255"
  using unsigned_less [of b, where 'a = nat] by simp

lemma unat_of_nat_u8: "n \<le> 255 \<Longrightarrow> unat (word_of_nat n :: u8) = n"
  by (simp add: unsigned_of_nat take_bit_nat_eq_self)

lemma and_push_bit_one: "(b AND push_bit n 1 \<noteq> (0 :: 'a::len word)) \<longleftrightarrow> bit b n"
proof -
  have "b AND push_bit n 1 = (if bit b n then push_bit n 1 else 0)"
    by (rule bit_word_eqI) (auto simp: bit_simps)
  then show ?thesis
    by (auto simp: bit_eq_iff [of _ "0 :: 'a word"] bit_simps dest: bit_imp_le_length)
qed

text \<open>Two bytes are equal when their eight bits are.\<close>

lemma u8_eqI:
  fixes a b :: u8
  assumes "bit a 0 = bit b 0" "bit a 1 = bit b 1" "bit a 2 = bit b 2" "bit a 3 = bit b 3"
    "bit a 4 = bit b 4" "bit a 5 = bit b 5" "bit a 6 = bit b 6" "bit a 7 = bit b 7"
  shows "a = b"
proof (rule bit_word_eqI)
  fix n assume "n < LENGTH(8)"
  then have "n = 0 \<or> n = 1 \<or> n = 2 \<or> n = 3 \<or> n = 4 \<or> n = 5 \<or> n = 6 \<or> n = 7" by auto
  then show "bit a n = bit b n" using assms by auto
qed

section \<open>Checked slices\<close>

text \<open>\<open>data.get(a..b)\<close>: \<open>None\<close> when the range is not inside the slice.\<close>

definition get_range :: "'a list \<Rightarrow> nat \<Rightarrow> nat \<Rightarrow> 'a list option" where
  "get_range xs a b = (if a \<le> b \<and> b \<le> length xs then Some (take (b - a) (drop a xs)) else None)"

text \<open>\<open>data.get(i)\<close>.\<close>

definition get_at :: "'a list \<Rightarrow> nat \<Rightarrow> 'a option" where
  "get_at xs i = (if i < length xs then Some (xs ! i) else None)"

lemma get_range_append [codec_simps]:
  "get_range (xs @ ys @ zs) (length xs) (length xs + length ys) = Some ys"
  by (simp add: get_range_def)

lemma get_range_SomeD: "get_range xs a b = Some ys \<Longrightarrow> a \<le> b \<and> b \<le> length xs \<and> length ys = b - a"
  by (auto simp: get_range_def split: if_splits)

lemma get_at_SomeD: "get_at xs i = Some x \<Longrightarrow> i < length xs \<and> x = xs ! i"
  by (auto simp: get_at_def split: if_splits)

section \<open>Splitting text\<close>

text \<open>\<open>str::split_once\<close> and \<open>str::split\<close> on one character.\<close>

fun split_once :: "'a \<Rightarrow> 'a list \<Rightarrow> ('a list \<times> 'a list) option" where
  "split_once c [] = None"
| "split_once c (x # xs) =
     (if x = c then Some ([], xs)
      else (case split_once c xs of None \<Rightarrow> None | Some (a, b) \<Rightarrow> Some (x # a, b)))"

primrec split_all :: "'a \<Rightarrow> 'a list \<Rightarrow> 'a list list" where
  "split_all c [] = [[]]"
| "split_all c (x # xs) =
     (let parts = split_all c xs in if x = c then [] # parts else (x # hd parts) # tl parts)"

lemma split_once_append: "c \<notin> set a \<Longrightarrow> split_once c (a @ c # b) = Some (a, b)"
  by (induction a) auto

lemma split_once_None: "split_once c xs = None \<longleftrightarrow> c \<notin> set xs"
  by (induction xs) (auto split: option.splits)

lemma split_once_Some: "split_once c xs = Some (a, b) \<Longrightarrow> xs = a @ c # b \<and> c \<notin> set a"
  by (induction xs arbitrary: a) (auto split: if_splits option.splits)

lemma split_all_parts: "split_all c xs \<noteq> [] \<and> (\<forall>part \<in> set (split_all c xs). set part \<subseteq> set xs)"
proof (induction xs)
  case (Cons x xs)
  then show ?case by (cases "split_all c xs") (auto simp: Let_def)
qed simp

lemma split_all_set: "part \<in> set (split_all c xs) \<Longrightarrow> set part \<subseteq> set xs"
  using split_all_parts [of c xs] by auto

lemma split_once_set: "split_once c xs = Some (a, b) \<Longrightarrow> set a \<subseteq> set xs \<and> set b \<subseteq> set xs"
  by (auto dest!: split_once_Some)

section \<open>The interface of a wire codec\<close>

text \<open>
  An encoder and a decoder of one message type. The provider promises that decoding an encoded
  well-formed message gives it back; a client gets that the encoding never confuses two
  well-formed messages and that whatever encoding it sees decodes.
\<close>

locale codec =
  fixes enc :: "'m \<Rightarrow> bytes"
    and dec :: "bytes \<Rightarrow> 'e + 'm"
    and wf :: "'m \<Rightarrow> bool"
  assumes dec_enc: "wf m \<Longrightarrow> dec (enc m) = Inr m"
begin

lemma enc_inj: "wf m \<Longrightarrow> wf m' \<Longrightarrow> enc m = enc m' \<Longrightarrow> m = m'"
  by (metis dec_enc sum.inject(2))

lemma dec_enc_not_error: "wf m \<Longrightarrow> dec (enc m) \<noteq> Inl e"
  by (simp add: dec_enc)

lemma dec_all: "(\<And>m. m \<in> set ms \<Longrightarrow> wf m) \<Longrightarrow> map (dec \<circ> enc) ms = map Inr ms"
  by (induction ms) (auto simp: dec_enc)

end

text \<open>
  A self-delimiting codec: the decoder reports how much it consumed, so a message can be
  followed by anything.
\<close>

locale prefix_codec =
  fixes enc :: "'m \<Rightarrow> bytes"
    and dec :: "bytes \<Rightarrow> 'e + 'm \<times> nat"
    and wf :: "'m \<Rightarrow> bool"
  assumes dec_prefix: "wf m \<Longrightarrow> dec (enc m @ rest) = Inr (m, length (enc m))"
begin

lemma prefix_free:
  assumes "wf m" "wf m'" "enc m @ r = enc m' @ r'"
  shows "m = m'" and "r = r'"
proof -
  have "Inr (m, length (enc m)) = (Inr (m', length (enc m')) :: 'e + 'm \<times> nat)"
    using assms by (metis dec_prefix)
  then show "m = m'" by simp
  with assms(3) show "r = r'" by simp
qed

lemma drop_rest: "wf m \<Longrightarrow> dec (enc m @ rest) = Inr (m', n) \<Longrightarrow> drop n (enc m @ rest) = rest"
  by (auto simp: dec_prefix)

end

sublocale prefix_codec \<subseteq> whole: codec enc "\<lambda>bs. map_sum id fst (dec bs)" wf
  by unfold_locales (use dec_prefix [of _ "[]"] in simp)

end
