(* ===== verification/Base64.thy ===== *)
theory Base64
  imports Prelude
begin

text \<open>
  \<open>crates/posh-term/src/base64.rs\<close>: standard-alphabet base64 as used for session keys and OSC 52.
  The encoder works on chunks of three bytes through a 24-bit integer; the decoder is the
  source's loop over the state \<open>(out, acc, bits, done)\<close>, with \<open>None\<close> on an invalid digit or data
  after padding. The lemmas show the round trip, the length of an encoding and that the decoder's
  accumulator never loses bits.
\<close>

section \<open>Encoding\<close>

text \<open>The source's 64-byte alphabet.\<close>

definition ALPHABET :: bytes where
  "ALPHABET = map (\<lambda>i. word_of_nat i)
     ([65..<91] @ [97..<123] @ [48..<58] @ [43, 47])"

definition b64_digit :: "u32 \<Rightarrow> u8" where
  "b64_digit n = ALPHABET ! unat (n AND 0x3f)"

definition b64_word :: "u8 \<Rightarrow> u8 \<Rightarrow> u8 \<Rightarrow> u32" where
  "b64_word a b c = push_bit 16 (ucast a) OR push_bit 8 (ucast b) OR ucast c"

fun encode :: "bytes \<Rightarrow> bytes" where
  "encode [] = []"
| "encode [a] =
     (let n = b64_word a 0 0 in [b64_digit (drop_bit 18 n), b64_digit (drop_bit 12 n), 0x3d, 0x3d])"
| "encode [a, b] =
     (let n = b64_word a b 0
      in [b64_digit (drop_bit 18 n), b64_digit (drop_bit 12 n), b64_digit (drop_bit 6 n), 0x3d])"
| "encode (a # b # c # rest) =
     (let n = b64_word a b c
      in [b64_digit (drop_bit 18 n), b64_digit (drop_bit 12 n), b64_digit (drop_bit 6 n), b64_digit n]
         @ encode rest)"

section \<open>Decoding\<close>

definition decode_digit :: "u8 \<Rightarrow> u32 option" where
  "decode_digit b =
     (if 65 \<le> b \<and> b \<le> 90 then Some (ucast (b - 65))
      else if 97 \<le> b \<and> b \<le> 122 then Some (ucast (b - 97) + 26)
      else if 48 \<le> b \<and> b \<le> 57 then Some (ucast (b - 48) + 52)
      else if b = 43 then Some 62
      else if b = 47 then Some 63
      else None)"

text \<open>\<open>u8::is_ascii_whitespace\<close>: space, tab, line feed, form feed, carriage return.\<close>

definition is_ascii_whitespace :: "u8 \<Rightarrow> bool" where
  "is_ascii_whitespace b \<longleftrightarrow> b \<in> {0x20, 0x09, 0x0a, 0x0c, 0x0d}"

fun decode_loop :: "bytes \<Rightarrow> bytes \<Rightarrow> u32 \<Rightarrow> nat \<Rightarrow> bool \<Rightarrow> bytes option" where
  "decode_loop [] out acc bits fin = Some out"
| "decode_loop (b # bs) out acc bits fin =
     (if is_ascii_whitespace b then decode_loop bs out acc bits fin
      else if b = 0x3d then decode_loop bs out acc bits True
      else if fin then None
      else (case decode_digit b of
          None \<Rightarrow> None
        | Some d \<Rightarrow>
            let acc' = push_bit 6 acc OR d; bits' = bits + 6
            in if bits' \<ge> 8
               then decode_loop bs (out @ [ucast (drop_bit (bits' - 8) acc')])
                      (acc' AND mask (bits' - 8)) (bits' - 8) fin
               else decode_loop bs out acc' bits' fin))"

definition decode :: "bytes \<Rightarrow> bytes option" where
  "decode bs = decode_loop bs [] 0 0 False"

section \<open>Digits\<close>

lemma length_ALPHABET: "length ALPHABET = 64"
  by (simp add: ALPHABET_def)

lemma b64_digit_bound: "unat (n AND 0x3f :: u32) < 64"
proof -
  have "n AND 0x3f = take_bit 6 n" by (simp add: take_bit_eq_mask mask_numeral)
  then show ?thesis using take_bit_nat_less_exp [of 6 "unat n"] by (simp add: unsigned_take_bit_eq)
qed

lemma alphabet_digits:
  "\<forall>i<64. (let b = ALPHABET ! i in \<not> is_ascii_whitespace b \<and> b \<noteq> 0x3d \<and> decode_digit b = Some (word_of_nat i))"
  by code_simp

lemma decode_b64_digit:
  "\<not> is_ascii_whitespace (b64_digit n)" "b64_digit n \<noteq> 0x3d" "decode_digit (b64_digit n) = Some (take_bit 6 n)"
proof -
  have "n AND 0x3f = take_bit 6 n" by (simp add: take_bit_eq_mask mask_numeral)
  then show "\<not> is_ascii_whitespace (b64_digit n)" "b64_digit n \<noteq> 0x3d" "decode_digit (b64_digit n) = Some (take_bit 6 n)"
    using alphabet_digits b64_digit_bound [of n] by (simp_all add: b64_digit_def Let_def)
qed

section \<open>The round trip\<close>

text \<open>What the decoder's accumulator holds after two, three and four digits of a chunk.\<close>

definition acc2 :: "u32 \<Rightarrow> u32" where
  "acc2 n = push_bit 6 (take_bit 6 (drop_bit 18 n)) OR take_bit 6 (drop_bit 12 n)"

definition acc3 :: "u32 \<Rightarrow> u32" where
  "acc3 n = push_bit 6 (acc2 n AND mask 4) OR take_bit 6 (drop_bit 6 n)"

definition acc4 :: "u32 \<Rightarrow> u32" where
  "acc4 n = push_bit 6 (acc3 n AND mask 2) OR take_bit 6 n"

lemma chunk_bytes:
  "ucast (drop_bit 4 (acc2 (b64_word a b c))) = a"
  "ucast (drop_bit 2 (acc3 (b64_word a b c))) = b"
  "ucast (acc4 (b64_word a b c)) = c"
  unfolding b64_word_def acc2_def acc3_def acc4_def
  by (rule u8_eqI; auto simp: bit_simps bit_ucast_iff dest: bit_imp_le_length)+

lemma decode_loop_digit:
  "decode_loop (b64_digit n # bs) out acc bits False =
     (if bits + 6 \<ge> 8
      then decode_loop bs (out @ [ucast (drop_bit (bits - 2) (push_bit 6 acc OR take_bit 6 n))])
             ((push_bit 6 acc OR take_bit 6 n) AND mask (bits - 2)) (bits - 2) False
      else decode_loop bs out (push_bit 6 acc OR take_bit 6 n) (bits + 6) False)"
  by (simp add: decode_b64_digit Let_def)

lemma decode_loop_two:
  "decode_loop (b64_digit (drop_bit 18 n) # b64_digit (drop_bit 12 n) # bs) out 0 0 False
   = decode_loop bs (out @ [ucast (drop_bit 4 (acc2 n))]) (acc2 n AND mask 4) 4 False"
  by (simp add: decode_loop_digit acc2_def del: decode_loop.simps)

lemma decode_loop_three:
  "decode_loop (b64_digit (drop_bit 18 n) # b64_digit (drop_bit 12 n) # b64_digit (drop_bit 6 n) # bs) out 0 0 False
   = decode_loop bs (out @ [ucast (drop_bit 4 (acc2 n)), ucast (drop_bit 2 (acc3 n))]) (acc3 n AND mask 2) 2 False"
  by (simp only: decode_loop_two) (simp add: decode_loop_digit acc3_def del: decode_loop.simps)

lemma decode_loop_four:
  "decode_loop (b64_digit (drop_bit 18 n) # b64_digit (drop_bit 12 n) # b64_digit (drop_bit 6 n) # b64_digit n # bs) out 0 0 False
   = decode_loop bs (out @ [ucast (drop_bit 4 (acc2 n)), ucast (drop_bit 2 (acc3 n)), ucast (acc4 n)]) 0 0 False"
  by (simp only: decode_loop_three) (simp add: decode_loop_digit acc4_def del: decode_loop.simps)

lemma decode_loop_pad: "decode_loop (replicate k 0x3d) out acc bits fin = Some out"
  by (induction k arbitrary: fin) (simp_all add: is_ascii_whitespace_def)

text \<open>Decoding an encoding gives the bytes back, with the padding or without it.\<close>

lemma decode_loop_encode: "decode_loop (encode xs) out 0 0 False = Some (out @ xs)"
proof (induction xs arbitrary: out rule: encode.induct)
  case 1
  then show ?case by simp
next
  case (2 a)
  then show ?case using decode_loop_pad [of 2]
    by (simp add: Let_def decode_loop_two chunk_bytes numeral_2_eq_2 del: decode_loop.simps)
next
  case (3 a b)
  then show ?case using decode_loop_pad [of 1]
    by (simp add: Let_def decode_loop_three chunk_bytes del: decode_loop.simps)
next
  case (4 a b c rest)
  then show ?case by (simp add: Let_def decode_loop_four chunk_bytes del: decode_loop.simps)
qed

lemma decode_loop_encode_trimmed:
  "decode_loop (takeWhile (\<lambda>b. b \<noteq> 0x3d) (encode xs)) out 0 0 False = Some (out @ xs)"
proof (induction xs arbitrary: out rule: encode.induct)
  case 1
  then show ?case by simp
next
  case (2 a)
  then show ?case
    by (simp add: Let_def decode_b64_digit decode_loop_two chunk_bytes del: decode_loop.simps(2))
next
  case (3 a b)
  then show ?case
    by (simp add: Let_def decode_b64_digit decode_loop_three chunk_bytes del: decode_loop.simps(2))
next
  case (4 a b c rest)
  then show ?case
    by (simp add: Let_def decode_b64_digit decode_loop_four chunk_bytes del: decode_loop.simps(2))
qed

lemma length_encode: "length (encode xs) = 4 * ((length xs + 2) div 3)"
proof (induction xs rule: encode.induct)
  case (4 a b c rest)
  have "(length (a # b # c # rest) + 2) div 3 = Suc ((length rest + 2) div 3)" by simp
  with 4 show ?case by (simp add: Let_def)
qed (simp_all add: Let_def)

lemma decode_encode: "decode (encode xs) = Some xs"
  by (simp add: decode_def decode_loop_encode)

text \<open>Every byte costs at least one digit: the decoder never produces more than it reads.\<close>

lemma decode_loop_length:
  "decode_loop bs out acc bits fin = Some r \<Longrightarrow> 8 * length r \<le> 8 * length out + bits + 6 * length bs"
  by (induction bs out acc bits fin rule: decode_loop.induct)
     (fastforce simp: Let_def split: if_splits option.splits)+

lemma decode_length: "decode bs = Some r \<Longrightarrow> 4 * length r \<le> 3 * length bs"
  using decode_loop_length [of bs "[]" 0 0 False r] by (simp add: decode_def)

end
