(* ===== verification/Crypto.thy ===== *)
theory Crypto
  imports Base64
begin

text \<open>
  \<open>crates/posh/src/remote/crypto.rs\<close>: printable keys, nonces, the anti-replay window and the
  datagram session. AES-128-GCM is a third-party crate: \<open>encrypt\<close> and \<open>decrypt\<close> are arguments of
  \<open>seal\<close> and \<open>open_dgram\<close> (already applied to the key), and the hypothesis \<open>aead_ok\<close> states what
  its documentation promises. \<open>fill_random\<close> (OS entropy) is not modelled. The window is refined to
  the set of accepted sequence numbers.
\<close>

definition KEY_LEN :: nat where "KEY_LEN = 16"
definition TAG_LEN :: nat where "TAG_LEN = 16"
definition NONCE_PREFIX_LEN :: nat where "NONCE_PREFIX_LEN = 8"
definition SEAL_OVERHEAD :: nat where "SEAL_OVERHEAD = NONCE_PREFIX_LEN + TAG_LEN"

definition DIRECTION_MASK :: u64 where "DIRECTION_MASK = push_bit 63 1"
definition SEQUENCE_MASK :: u64 where "SEQUENCE_MASK = NOT DIRECTION_MASK"

lemmas crypto_consts = KEY_LEN_def TAG_LEN_def NONCE_PREFIX_LEN_def SEAL_OVERHEAD_def

section \<open>Keys\<close>

text \<open>\<open>trim_end_matches(c)\<close> and the truncation to its length.\<close>

definition trim_end :: "u8 \<Rightarrow> bytes \<Rightarrow> bytes" where
  "trim_end c s = rev (dropWhile (\<lambda>b. b = c) (rev s))"

definition key_to_base64 :: "bytes \<Rightarrow> bytes" where
  "key_to_base64 k = trim_end 0x3d (encode k)"

definition key_from_base64 :: "bytes \<Rightarrow> bytes result" where
  "key_from_base64 s =
     (if length s \<noteq> 22 then Inl ''key must be 22 letters long''
      else (case decode s of
          None \<Rightarrow> Inl ''key must be well-formed base64''
        | Some bs \<Rightarrow> if length bs \<noteq> KEY_LEN then Inl ''key must decode to 16 bytes'' else Inr bs))"

section \<open>Nonces\<close>

datatype Direction = ToServer | ToClient

fun direction_bit :: "Direction \<Rightarrow> u64" where
  "direction_bit ToClient = DIRECTION_MASK"
| "direction_bit ToServer = 0"

definition nonce_bytes :: "u64 \<Rightarrow> bytes" where
  "nonce_bytes val = replicate 4 0 @ be_bytes 8 val"

section \<open>The anti-replay window\<close>

record ReplayWindow =
  highest :: u64
  bitmap :: u64
  initialized :: bool

definition window_new :: ReplayWindow where
  "window_new = \<lparr>highest = 0, bitmap = 0, initialized = False\<rparr>"

text \<open>\<open>check\<close> returns the new window; every error leaves it unchanged.\<close>

definition check :: "ReplayWindow \<Rightarrow> u64 \<Rightarrow> ReplayWindow result" where
  "check w seq =
     (if \<not> initialized w then Inr \<lparr>highest = seq, bitmap = 1, initialized = True\<rparr>
      else if seq > highest w then
        let shift = seq - highest w;
            bm = (if shift \<ge> 64 then 0 else push_bit (unat shift) (bitmap w))
        in Inr (w\<lparr>bitmap := bm OR 1, highest := seq\<rparr>)
      else let diff = highest w - seq in
        if diff \<ge> 64 then Inl ''sequence number too old''
        else if bitmap w AND push_bit (unat diff) 1 \<noteq> 0 then Inl ''replayed sequence number''
        else Inr (w\<lparr>bitmap := bitmap w OR push_bit (unat diff) 1\<rparr>))"

section \<open>Sessions\<close>

record Session =
  send_dir :: Direction
  next_seq :: u64
  replay :: ReplayWindow

definition session_new :: "Direction \<Rightarrow> Session" where
  "session_new dir = \<lparr>send_dir = dir, next_seq = 0, replay = window_new\<rparr>"

definition seal_val :: "Session \<Rightarrow> u64" where
  "seal_val s = direction_bit (send_dir s) OR (next_seq s AND SEQUENCE_MASK)"

definition seal :: "(bytes \<Rightarrow> bytes \<Rightarrow> bytes option) \<Rightarrow> Session \<Rightarrow> bytes \<Rightarrow> Session \<times> bytes result" where
  "seal encrypt s plaintext =
     (let val = seal_val s; s' = s\<lparr>next_seq := next_seq s + 1\<rparr>
      in case encrypt (nonce_bytes val) plaintext of
           None \<Rightarrow> (s', Inl ''encryption failed'')
         | Some ct \<Rightarrow> (s', Inr (be_bytes 8 val @ ct)))"

definition open_dgram ::
  "(bytes \<Rightarrow> bytes \<Rightarrow> bytes option) \<Rightarrow> Session \<Rightarrow> bytes \<Rightarrow> Session \<times> (u64 \<times> bytes) result" where
  "open_dgram decrypt s datagram =
     (if length datagram < SEAL_OVERHEAD then (s, Inl ''datagram too short'')
      else
        let val = of_be (take NONCE_PREFIX_LEN datagram);
            dir = (if val AND DIRECTION_MASK \<noteq> 0 then ToClient else ToServer)
        in if dir = send_dir s then (s, Inl ''wrong packet direction'')
           else case decrypt (nonce_bytes val) (drop NONCE_PREFIX_LEN datagram) of
                  None \<Rightarrow> (s, Inl ''authentication failed'')
                | Some pt \<Rightarrow>
                    let seq = val AND SEQUENCE_MASK
                    in case check (replay s) seq of
                         Inl e \<Rightarrow> (s, Inl e)
                       | Inr w \<Rightarrow> (s\<lparr>replay := w\<rparr>, Inr (seq, pt)))"

text \<open>What AES-GCM promises: decryption inverts encryption under the same nonce, and a
  ciphertext is the plaintext plus a 16-byte tag.\<close>

definition aead_ok :: "(bytes \<Rightarrow> bytes \<Rightarrow> bytes option) \<Rightarrow> (bytes \<Rightarrow> bytes \<Rightarrow> bytes option) \<Rightarrow> bool" where
  "aead_ok encrypt decrypt \<longleftrightarrow>
     (\<forall>n p c. encrypt n p = Some c \<longrightarrow> decrypt n c = Some p \<and> length c = length p + TAG_LEN)"

section \<open>Keys round-trip\<close>

lemma encode_no_pad_prefix:
  "\<exists>k. encode xs = takeWhile (\<lambda>b. b \<noteq> 0x3d) (encode xs) @ replicate k 0x3d"
proof (induction xs rule: encode.induct)
  case (2 a)
  then show ?case
    by (intro exI [of _ 2]) (simp add: Let_def decode_b64_digit numeral_2_eq_2)
next
  case (3 a b)
  then show ?case by (intro exI [of _ 1]) (simp add: Let_def decode_b64_digit)
next
  case (4 a b c rest)
  then obtain k where "encode rest = takeWhile (\<lambda>b. b \<noteq> 0x3d) (encode rest) @ replicate k 0x3d"
    by blast
  then show ?case by (intro exI [of _ k]) (simp add: Let_def decode_b64_digit)
qed simp

lemma trim_end_pad: "c \<notin> set xs \<Longrightarrow> trim_end c (xs @ replicate k c) = xs"
  by (cases xs rule: rev_cases) (auto simp: trim_end_def dropWhile_append)

lemma key_to_base64_digits: "key_to_base64 k = takeWhile (\<lambda>b. b \<noteq> 0x3d) (encode k)"
proof -
  obtain n where n: "encode k = takeWhile (\<lambda>b. b \<noteq> 0x3d) (encode k) @ replicate n 0x3d"
    using encode_no_pad_prefix by blast
  have "0x3d \<notin> set (takeWhile (\<lambda>b. b \<noteq> 0x3d) (encode k))" by (auto dest: set_takeWhileD)
  then show ?thesis unfolding key_to_base64_def by (subst n) (rule trim_end_pad)
qed

lemma length_encode_trimmed:
  "length (takeWhile (\<lambda>b. b \<noteq> 0x3d) (encode xs)) = (8 * length xs + 5) div 6"
proof (induction xs rule: encode.induct)
  case (4 a b c rest)
  have "(8 * length (a # b # c # rest) + 5) div 6 = 4 + (8 * length rest + 5) div 6" by simp
  with 4 show ?case by (simp add: Let_def decode_b64_digit)
qed (simp_all add: Let_def decode_b64_digit)

lemma key_roundtrip: "length k = KEY_LEN \<Longrightarrow> key_from_base64 (key_to_base64 k) = Inr k"
  by (simp add: key_from_base64_def key_to_base64_digits length_encode_trimmed decode_def
      decode_loop_encode_trimmed KEY_LEN_def)

lemma key_from_base64_length: "key_from_base64 s = Inr k \<Longrightarrow> length k = KEY_LEN \<and> length s = 22"
  by (auto simp: key_from_base64_def split: if_splits option.splits)

interpretation key_codec: codec key_to_base64 key_from_base64 "\<lambda>k. length k = KEY_LEN"
  by unfold_locales (rule key_roundtrip)

section \<open>The window refines a set of accepted sequence numbers\<close>

text \<open>
  The specification keeps the set of numbers accepted so far. A number is accepted when it is
  above everything seen, or at most 63 below the highest and not accepted before.
\<close>

definition spec_accepts :: "nat set \<Rightarrow> nat \<Rightarrow> bool" where
  "spec_accepts A n \<longleftrightarrow> A = {} \<or> Max A < n \<or> (Max A - n < 64 \<and> n \<notin> A)"

definition window_abs :: "ReplayWindow \<Rightarrow> nat set \<Rightarrow> bool" where
  "window_abs w A \<longleftrightarrow> finite A \<and> (initialized w \<longleftrightarrow> A \<noteq> {}) \<and>
     (A \<noteq> {} \<longrightarrow> unat (highest w) = Max A \<and>
       (\<forall>d<64. bit (bitmap w) d \<longleftrightarrow> d \<le> Max A \<and> Max A - d \<in> A))"

lemma window_abs_new: "window_abs window_new {}"
  by (simp add: window_abs_def window_new_def)

lemma unat_diff_le: "(a :: u64) \<le> b \<Longrightarrow> unat (b - a) = unat b - unat a"
  by (simp add: unat_sub)

lemma window_abs_first:
  "window_abs w A \<Longrightarrow> \<not> initialized w \<Longrightarrow>
   window_abs \<lparr>highest = seq, bitmap = 1, initialized = True\<rparr> (insert (unat seq) A)"
  by (auto simp: window_abs_def bit_simps bit_1_iff)

lemma window_abs_advance:
  assumes "window_abs w A" "initialized w" "highest w < seq"
  defines "shift \<equiv> seq - highest w"
  shows "window_abs (w\<lparr>bitmap := (if shift \<ge> 64 then 0 else push_bit (unat shift) (bitmap w)) OR 1,
           highest := seq\<rparr>) (insert (unat seq) A)"
proof -
  have A: "finite A" "A \<noteq> {}" and h: "unat (highest w) = Max A"
    and bm: "\<And>d. d < 64 \<Longrightarrow> bit (bitmap w) d \<longleftrightarrow> d \<le> Max A \<and> Max A - d \<in> A"
    using assms(1,2) by (auto simp: window_abs_def)
  have lt: "Max A < unat seq" using assms(3) h by (simp add: word_less_nat_alt)
  then have mx: "Max (insert (unat seq) A) = unat seq" using A by simp
  have sh: "unat shift = unat seq - Max A"
    unfolding shift_def using assms(3) h by (simp add: unat_diff_le)
  have big: "shift \<ge> 64 \<longleftrightarrow> 64 \<le> unat seq - Max A"
    using sh by (simp add: word_le_nat_alt)
  have mem: "unat seq - d \<in> insert (unat seq) A \<longleftrightarrow> d = 0 \<or> (unat seq - Max A \<le> d \<and> unat seq - d \<in> A)"
    if "d \<le> unat seq" for d
    using that lt A(1) by (auto dest: Max_ge)
  have "bit ((if shift \<ge> 64 then 0 else push_bit (unat shift) (bitmap w)) OR 1) d
        \<longleftrightarrow> d \<le> unat seq \<and> unat seq - d \<in> insert (unat seq) A" if "d < 64" for d
  proof (cases "d = 0 \<or> unat seq < d")
    case True
    then show ?thesis using that lt bm [of "d - unat shift"] sh
      by (auto simp: bit_simps bit_1_iff)
  next
    case False
    then have "bit (bitmap w) (d - unat shift) \<longleftrightarrow> d - unat shift \<le> Max A \<and> unat seq - d \<in> A"
      if "unat shift \<le> d" using bm [of "d - unat shift"] that \<open>d < 64\<close> sh lt by simp
    then show ?thesis using False that mem [of d] big sh lt
      by (auto simp: bit_simps bit_1_iff)
  qed
  then show ?thesis using A mx assms(2) by (simp add: window_abs_def)
qed

lemma window_abs_reorder:
  assumes "window_abs w A" "initialized w" "seq \<le> highest w"
    and "highest w - seq < 64"
  shows "window_abs (w\<lparr>bitmap := bitmap w OR push_bit (unat (highest w - seq)) 1\<rparr>) (insert (unat seq) A)"
proof -
  have A: "finite A" "A \<noteq> {}" and h: "unat (highest w) = Max A"
    using assms(1,2) by (auto simp: window_abs_def)
  have le: "unat seq \<le> Max A" using assms(3) h by (simp add: word_le_nat_alt)
  then have mx: "Max (insert (unat seq) A) = Max A" using A by (simp add: max_def)
  have sh: "unat (highest w - seq) = Max A - unat seq" using assms(3) h by (simp add: unat_diff_le)
  show ?thesis using assms(1,2) mx le sh
    by (auto simp: window_abs_def bit_simps bit_1_iff)
qed

lemma window_inside:
  assumes "window_abs w A" "initialized w" "seq \<le> highest w"
  shows "unat seq \<le> Max A" and "A \<noteq> {}"
    and "64 \<le> highest w - seq \<longleftrightarrow> 64 \<le> Max A - unat seq"
    and "highest w - seq < 64 \<Longrightarrow> bitmap w AND push_bit (unat (highest w - seq)) 1 \<noteq> 0 \<longleftrightarrow> unat seq \<in> A"
proof -
  have A: "finite A" "A \<noteq> {}" and h: "unat (highest w) = Max A"
    using assms(1,2) by (auto simp: window_abs_def)
  show le: "unat seq \<le> Max A" using assms(3) h by (simp add: word_le_nat_alt)
  show "A \<noteq> {}" by (rule A(2))
  have sh: "unat (highest w - seq) = Max A - unat seq" using assms(3) h by (simp add: unat_diff_le)
  show big: "64 \<le> highest w - seq \<longleftrightarrow> 64 \<le> Max A - unat seq"
    using sh by (simp add: word_le_nat_alt)
  show "bitmap w AND push_bit (unat (highest w - seq)) 1 \<noteq> 0 \<longleftrightarrow> unat seq \<in> A"
    if "highest w - seq < 64"
    unfolding and_push_bit_one sh using assms(1) A le big that by (auto simp: window_abs_def)
qed

text \<open>\<open>check\<close> accepts exactly what the specification accepts, and its new window stands for the
  set with the number added.\<close>

lemma check_Inr:
  assumes "window_abs w A" "check w seq = Inr w'"
  shows "spec_accepts A (unat seq)" and "window_abs w' (insert (unat seq) A)"
proof -
  consider (first) "\<not> initialized w" | (up) "initialized w" "highest w < seq"
    | (inside) "initialized w" "seq \<le> highest w" by fastforce
  then have "spec_accepts A (unat seq) \<and> window_abs w' (insert (unat seq) A)"
  proof cases
    case first
    then show ?thesis using assms window_abs_first [of w A seq]
      by (auto simp: check_def spec_accepts_def window_abs_def)
  next
    case up
    then have "spec_accepts A (unat seq)" using assms(1)
      by (auto simp: spec_accepts_def window_abs_def word_less_nat_alt)
    then show ?thesis using assms window_abs_advance [OF assms(1) up] up by (simp add: check_def Let_def)
  next
    case inside
    with assms(2) have small: "highest w - seq < 64"
      and unseen: "\<not> (bitmap w AND push_bit (unat (highest w - seq)) 1 \<noteq> 0)"
      and w': "w' = w\<lparr>bitmap := bitmap w OR push_bit (unat (highest w - seq)) 1\<rparr>"
      by (auto simp: check_def Let_def split: if_splits)
    from small have "\<not> 64 \<le> highest w - seq" by simp
    then show ?thesis
      using window_inside [OF assms(1) inside] window_abs_reorder [OF assms(1) inside small] small unseen
      unfolding w' spec_accepts_def by (metis not_le)
  qed
  then show "spec_accepts A (unat seq)" and "window_abs w' (insert (unat seq) A)" by auto
qed

lemma check_Inl:
  assumes "window_abs w A" "check w seq = Inl e"
  shows "\<not> spec_accepts A (unat seq)"
proof -
  from assms(2) have inside: "initialized w" "seq \<le> highest w"
    and why: "64 \<le> highest w - seq \<or> bitmap w AND push_bit (unat (highest w - seq)) 1 \<noteq> 0"
    by (auto simp: check_def Let_def not_less split: if_splits)
  show ?thesis
    using window_inside [OF assms(1) inside] why unfolding spec_accepts_def by (metis not_le)
qed

section \<open>Each number is accepted at most once\<close>

text \<open>A run of the window over a sequence of numbers: the accepted ones, in order.\<close>

fun check_run :: "ReplayWindow \<Rightarrow> u64 list \<Rightarrow> ReplayWindow \<times> u64 list" where
  "check_run w [] = (w, [])"
| "check_run w (n # ns) =
     (case check w n of
        Inl e \<Rightarrow> check_run w ns
      | Inr w' \<Rightarrow> (case check_run w' ns of (w'', acc) \<Rightarrow> (w'', n # acc)))"

lemma spec_accepts_fresh: "finite A \<Longrightarrow> spec_accepts A n \<Longrightarrow> n \<notin> A"
  by (auto simp: spec_accepts_def dest: Max_ge)

lemma check_run_abs:
  assumes "window_abs w A" "check_run w ns = (w', acc)"
  shows "window_abs w' (A \<union> unat ` set acc) \<and> distinct acc \<and> unat ` set acc \<inter> A = {}"
  using assms
proof (induction ns arbitrary: w A acc)
  case Nil
  then show ?case by simp
next
  case (Cons n ns)
  show ?case
  proof (cases "check w n")
    case (Inl e)
    with Cons show ?thesis by simp
  next
    case (Inr w1)
    obtain acc1 where acc1: "check_run w1 ns = (w', acc1)" "acc = n # acc1"
      using Cons.prems(2) Inr by (auto split: prod.splits)
    note ok = check_Inr [OF Cons.prems(1) Inr]
    have "unat n \<notin> A" using ok(1) Cons.prems(1) by (metis spec_accepts_fresh window_abs_def)
    moreover note Cons.IH [OF ok(2) acc1(1)]
    ultimately show ?thesis using acc1(2) by (auto simp: insert_commute)
  qed
qed

section \<open>Nonce values\<close>

lemma direction_bit_iff: "val AND DIRECTION_MASK \<noteq> 0 \<longleftrightarrow> bit val 63"
  unfolding DIRECTION_MASK_def by (rule and_push_bit_one)

lemma bit_DIRECTION_MASK: "bit DIRECTION_MASK n \<longleftrightarrow> n = 63"
  unfolding DIRECTION_MASK_def by (auto simp only: bit_push_bit_iff bit_1_iff possible_bit_word) auto

lemma sequence_mask_take: "val AND SEQUENCE_MASK = take_bit 63 val"
  unfolding SEQUENCE_MASK_def
  by (rule bit_word_eqI) (auto simp: bit_and_iff bit_not_iff bit_DIRECTION_MASK bit_take_bit_iff)

lemma bit_direction_bit: "bit (direction_bit d) n \<longleftrightarrow> d = ToClient \<and> n = 63"
  by (cases d) (auto simp: bit_DIRECTION_MASK)

lemma seal_val_parts:
  "bit (seal_val s) 63 \<longleftrightarrow> send_dir s = ToClient"
  "seal_val s AND SEQUENCE_MASK = take_bit 63 (next_seq s)"
  unfolding seal_val_def sequence_mask_take
  by (auto intro!: bit_word_eqI simp: bit_simps bit_direction_bit)

lemma seal_val_eqD:
  assumes "seal_val s = seal_val t"
  shows "send_dir s = send_dir t" and "take_bit 63 (next_seq s) = take_bit 63 (next_seq t)"
proof -
  have "(send_dir s = ToClient) = (send_dir t = ToClient)"
    using seal_val_parts(1) [of s] seal_val_parts(1) [of t] by (simp only: assms)
  then show "send_dir s = send_dir t" by (cases "send_dir s"; cases "send_dir t") auto
  show "take_bit 63 (next_seq s) = take_bit 63 (next_seq t)"
    unfolding seal_val_parts(2) [symmetric] by (simp only: assms)
qed

lemma nonce_bytes_inj:
  assumes "nonce_bytes v = nonce_bytes v'"
  shows "v = v'"
proof -
  from assms have "of_be (be_bytes 8 v) = (of_be (be_bytes 8 v') :: u64)" by (simp add: nonce_bytes_def)
  then show ?thesis by (simp add: of_be_be_bytes)
qed

section \<open>Sealing\<close>

text \<open>
  An endpoint seals and opens datagrams in any order. \<open>datagram_under\<close> is a plaintext encrypted under a given
  nonce, behind the eight bytes of the nonce that the peer needs.
\<close>

datatype session_op = SealOp bytes | OpenOp bytes

fun session_run ::
  "(bytes \<Rightarrow> bytes \<Rightarrow> bytes option) \<Rightarrow> (bytes \<Rightarrow> bytes \<Rightarrow> bytes option) \<Rightarrow> Session \<Rightarrow> session_op list \<Rightarrow> Session \<times> bytes result list" where
  "session_run encrypt decrypt s [] = (s, [])"
| "session_run encrypt decrypt s (SealOp p # ops) =
     (let (s', r) = seal encrypt s p; (s'', rs) = session_run encrypt decrypt s' ops in (s'', r # rs))"
| "session_run encrypt decrypt s (OpenOp d # ops) = session_run encrypt decrypt (fst (open_dgram decrypt s d)) ops"

fun sealed_texts :: "session_op list \<Rightarrow> bytes list" where
  "sealed_texts [] = []"
| "sealed_texts (SealOp p # ops) = p # sealed_texts ops"
| "sealed_texts (OpenOp d # ops) = sealed_texts ops"

definition datagram_under :: "(bytes \<Rightarrow> bytes \<Rightarrow> bytes option) \<Rightarrow> bytes \<Rightarrow> bytes \<Rightarrow> bytes result" where
  "datagram_under encrypt nonce plaintext =
     (case encrypt nonce plaintext of None \<Rightarrow> Inl ''encryption failed'' | Some ct \<Rightarrow> Inr (drop 4 nonce @ ct))"

definition nth_nonce :: "Direction \<Rightarrow> nat \<Rightarrow> bytes" where
  "nth_nonce dir i = nonce_bytes (seal_val \<lparr>send_dir = dir, next_seq = word_of_nat i, replay = window_new\<rparr>)"

lemma seal_under:
  "seal encrypt s p = (s\<lparr>next_seq := next_seq s + 1\<rparr>, datagram_under encrypt (nonce_bytes (seal_val s)) p)"
  by (simp add: seal_def datagram_under_def nonce_bytes_def Let_def split: option.split)

lemma open_keeps: "send_dir (fst (open_dgram decrypt s d)) = send_dir s \<and> next_seq (fst (open_dgram decrypt s d)) = next_seq s"
  by (simp add: open_dgram_def Let_def split: option.split sum.split)

lemma session_run_datagrams:
  assumes "send_dir s = dir" "next_seq s = word_of_nat k"
  shows "snd (session_run encrypt decrypt s ops)
    = map2 (datagram_under encrypt) (map (nth_nonce dir) [k..<k + length (sealed_texts ops)]) (sealed_texts ops)"
  using assms
proof (induction ops arbitrary: s k rule: sealed_texts.induct)
  case (2 p ops)
  let ?s = "s\<lparr>next_seq := next_seq s + 1\<rparr>"
  have n: "nonce_bytes (seal_val s) = nth_nonce dir k" using "2.prems" by (simp add: nth_nonce_def seal_val_def)
  have "snd (session_run encrypt decrypt ?s ops)
    = map2 (datagram_under encrypt) (map (nth_nonce dir) [Suc k..<Suc k + length (sealed_texts ops)]) (sealed_texts ops)"
    using "2.prems" by (intro "2.IH") simp_all
  then show ?case using n by (simp add: seal_under upt_conv_Cons split_def Let_def del: upt_Suc)
next
  case (3 d ops)
  then show ?case using open_keeps [of decrypt s d] by simp
qed simp

lemma take_bit_63_of_nat: "i < 2 ^ 63 \<Longrightarrow> unat (take_bit 63 (word_of_nat i :: u64)) = i"
  by (simp add: unsigned_take_bit_eq unsigned_of_nat take_bit_nat_eq_self)

lemma nth_nonce_eq:
  assumes "nth_nonce dir i = nth_nonce dir' j" "i < 2 ^ 63" "j < 2 ^ 63"
  shows "dir = dir' \<and> i = j"
proof -
  note eq = nonce_bytes_inj [OF assms(1) [unfolded nth_nonce_def]]
  have "take_bit 63 (word_of_nat i :: u64) = take_bit 63 (word_of_nat j)" using seal_val_eqD(2) [OF eq] by simp
  then have "i = j" using assms(2,3) by (metis take_bit_63_of_nat)
  then show ?thesis using seal_val_eqD(1) [OF eq] by simp
qed

lemma nth_nonces_distinct:
  assumes "m \<le> 2 ^ 63" "n \<le> 2 ^ 63"
  shows "distinct (map (nth_nonce ToServer) [0..<m] @ map (nth_nonce ToClient) [0..<n])"
  using assms by (auto simp: distinct_map inj_on_def dest!: nth_nonce_eq)

text \<open>
  The nonces of the two endpoints of a session, whatever each seals and opens: the same for every cipher, and
  different for every datagram.
\<close>

lemma session_nonces:
  assumes "length (sealed_texts ops) \<le> 2 ^ 63" "length (sealed_texts ops') \<le> 2 ^ 63"
  shows "\<exists>ns ns'. distinct (ns @ ns') \<and> length ns = length (sealed_texts ops) \<and> length ns' = length (sealed_texts ops')
    \<and> (\<forall>encrypt decrypt.
         snd (session_run encrypt decrypt (session_new ToServer) ops) = map2 (datagram_under encrypt) ns (sealed_texts ops)
       \<and> snd (session_run encrypt decrypt (session_new ToClient) ops') = map2 (datagram_under encrypt) ns' (sealed_texts ops'))"
proof (intro exI conjI allI)
  let ?ns = "\<lambda>dir ops. map (nth_nonce dir) [0..<length (sealed_texts ops)]"
  show "distinct (?ns ToServer ops @ ?ns ToClient ops')" using assms by (rule nth_nonces_distinct)
  show "snd (session_run encrypt decrypt (session_new ToServer) ops) = map2 (datagram_under encrypt) (?ns ToServer ops) (sealed_texts ops)"
    "snd (session_run encrypt decrypt (session_new ToClient) ops') = map2 (datagram_under encrypt) (?ns ToClient ops') (sealed_texts ops')"
    for encrypt decrypt using session_run_datagrams [where k = 0] by (simp_all add: session_new_def)
qed simp_all

section \<open>Opening\<close>

lemma seal_Inr:
  assumes "seal encrypt s p = (s', Inr d)"
  obtains c where "encrypt (nonce_bytes (seal_val s)) p = Some c" "d = be_bytes 8 (seal_val s) @ c"
  using assms by (auto simp: seal_def Let_def split: option.splits)

text \<open>A datagram of the peer opens to its payload and its sequence number, whenever the window
  takes the number.\<close>

lemma open_seal:
  assumes "aead_ok encrypt decrypt" "seal encrypt s p = (s', Inr d)" "send_dir r \<noteq> send_dir s"
    and "check (replay r) (take_bit 63 (next_seq s)) = Inr w"
  shows "open_dgram decrypt r d = (r\<lparr>replay := w\<rparr>, Inr (take_bit 63 (next_seq s), p))"
proof -
  obtain c where c: "encrypt (nonce_bytes (seal_val s)) p = Some c" "d = be_bytes 8 (seal_val s) @ c"
    by (rule seal_Inr [OF assms(2)])
  then have dec: "decrypt (nonce_bytes (seal_val s)) c = Some p" "length c = length p + TAG_LEN"
    using assms(1) by (auto simp: aead_ok_def)
  have "(if bit (seal_val s) 63 then ToClient else ToServer) = send_dir s"
    by (cases "send_dir s") (simp_all add: seal_val_parts)
  then show ?thesis
    using dec assms(3,4)
    by (simp add: open_dgram_def c(2) crypto_consts of_be_be_bytes direction_bit_iff Let_def seal_val_parts)
qed

text \<open>An endpoint rejects its own datagrams (reflection), whatever their content.\<close>

lemma open_reflected:
  assumes "seal encrypt s p = (s', Inr d)" "send_dir r = send_dir s"
  shows "fst (open_dgram decrypt r d) = r \<and> (\<exists>e. snd (open_dgram decrypt r d) = Inl e)"
proof -
  obtain c where c: "d = be_bytes 8 (seal_val s) @ c" by (rule seal_Inr [OF assms(1)])
  have "(if bit (seal_val s) 63 then ToClient else ToServer) = send_dir s"
    by (cases "send_dir s") (simp_all add: seal_val_parts)
  then show ?thesis
    using assms(2) by (simp add: open_dgram_def c crypto_consts of_be_be_bytes direction_bit_iff Let_def)
qed

text \<open>A run of arriving datagrams, with those that were accepted.\<close>

fun open_run :: "(bytes \<Rightarrow> bytes \<Rightarrow> bytes option) \<Rightarrow> Session \<Rightarrow> bytes list \<Rightarrow> Session \<times> bytes list" where
  "open_run decrypt s [] = (s, [])"
| "open_run decrypt s (d # ds) =
     (case open_dgram decrypt s d of
        (s', Inl e) \<Rightarrow> open_run decrypt s' ds
      | (s', Inr r) \<Rightarrow> (case open_run decrypt s' ds of (s'', acc) \<Rightarrow> (s'', d # acc)))"

definition dgram_val :: "bytes \<Rightarrow> u64" where
  "dgram_val d = of_be (take NONCE_PREFIX_LEN d)"

lemma open_Inl: "open_dgram decrypt s d = (s', Inl e) \<Longrightarrow> s' = s"
  by (auto simp: open_dgram_def Let_def split: if_splits option.splits sum.splits)

lemma open_Inr:
  assumes "open_dgram decrypt s d = (s', Inr (seq, pt))"
  shows "seq = take_bit 63 (dgram_val d)" and "bit (dgram_val d) 63 \<longleftrightarrow> send_dir s \<noteq> ToClient"
    and "\<exists>w. check (replay s) seq = Inr w \<and> s' = s\<lparr>replay := w\<rparr>"
    and "decrypt (nonce_bytes (dgram_val d)) (drop NONCE_PREFIX_LEN d) = Some pt"
    and "SEAL_OVERHEAD \<le> length d"
  using assms unfolding open_dgram_def dgram_val_def Let_def direction_bit_iff sequence_mask_take
  by (auto split: if_splits option.splits sum.splits) (metis (full_types) Direction.exhaust)+

text \<open>Sequence number and direction together are the whole nonce value.\<close>

lemma val_eqI:
  fixes v v' :: u64
  assumes "take_bit 63 v = take_bit 63 v'" "bit v 63 = bit v' 63"
  shows "v = v'"
proof (rule bit_word_eqI)
  fix n assume n: "n < LENGTH(64)"
  show "bit v n = bit v' n"
  proof (cases "n = 63")
    case True
    then show ?thesis using assms(2) by simp
  next
    case False
    then have "bit (take_bit 63 v) n = bit v n" "bit (take_bit 63 v') n = bit v' n"
      using n by (auto simp: bit_take_bit_iff)
    then show ?thesis using assms(1) by simp
  qed
qed

lemma open_run_abs:
  assumes "window_abs (replay s) A" "open_run decrypt s ds = (s', acc)"
  shows "window_abs (replay s') (A \<union> (\<lambda>d. unat (take_bit 63 (dgram_val d))) ` set acc)
       \<and> distinct (map (\<lambda>d. unat (take_bit 63 (dgram_val d))) acc)
       \<and> (\<lambda>d. unat (take_bit 63 (dgram_val d))) ` set acc \<inter> A = {}"
  using assms
proof (induction ds arbitrary: s A acc)
  case Nil
  then show ?case by simp
next
  case (Cons d ds)
  obtain s1 r where r: "open_dgram decrypt s d = (s1, r)" by (cases "open_dgram decrypt s d")
  show ?case
  proof (cases r)
    case (Inl e)
    then show ?thesis using Cons r open_Inl [of decrypt s d s1 e] by simp
  next
    case (Inr p)
    obtain seq pt where p: "p = (seq, pt)" by (cases p)
    note o = open_Inr [OF r [unfolded Inr p]]
    from o(3) obtain w where w: "check (replay s) seq = Inr w" "s1 = s\<lparr>replay := w\<rparr>" by blast
    obtain acc1 where acc1: "open_run decrypt s1 ds = (s', acc1)" "acc = d # acc1"
      using Cons.prems(2) r Inr by (auto split: prod.splits)
    note ok = check_Inr [OF Cons.prems(1) w(1)]
    have "unat seq \<notin> A" using ok(1) Cons.prems(1) by (metis spec_accepts_fresh window_abs_def)
    moreover have "window_abs (replay s1) (insert (unat seq) A)" using ok(2) w(2) by simp
    note Cons.IH [OF this acc1(1)]
    ultimately show ?thesis using acc1(2) o(1) by (auto simp: insert_commute)
  qed
qed

lemma open_at_most_once:
  "distinct (map dgram_val (snd (open_run decrypt (session_new dir) ds)))"
proof -
  obtain s' acc where r: "open_run decrypt (session_new dir) ds = (s', acc)" by fastforce
  have "window_abs (replay (session_new dir)) {}" by (simp add: session_new_def window_abs_new)
  from open_run_abs [OF this r]
  have "distinct (map (\<lambda>d. unat (take_bit 63 (dgram_val d))) acc)" by simp
  then have "distinct (map dgram_val acc)" by (auto simp: distinct_map inj_on_def)
  then show ?thesis using r by simp
qed

end
