(* ===== verification/Caps.thy ===== *)
theory Caps
  imports Prelude
begin

text \<open>
  \<open>crates/posh/src/remote/caps.rs\<close>: the TLV capability table behind the EXTENSION bit of both
  datagram directions. \<open>decode_table\<close> keeps the source's cursor \<open>at\<close> into the whole message and its
  three error returns; the lemmas show that it inverts \<open>encode_table\<close> with anything behind the
  table, that the reported length is inside the message, and that an accepted message is the
  encoding of the entries it was read as.
\<close>

definition FLAG_EXTENSION :: u8 where "FLAG_EXTENSION = 0x02"
definition CAP_PROTOCOL_VERSION :: u8 where "CAP_PROTOCOL_VERSION = 0"
definition CAP_EXIT_STATUS :: u8 where "CAP_EXIT_STATUS = 1"
definition PROTOCOL_VERSION :: u8 where "PROTOCOL_VERSION = 1"

record Cap =
  cap_id :: u8
  cap_payload :: bytes

definition encode_cap :: "Cap \<Rightarrow> bytes" where
  "encode_cap c = cap_id c # word_of_nat (length (cap_payload c)) # cap_payload c"

definition encode_table :: "Cap list \<Rightarrow> bytes" where
  "encode_table caps = word_of_nat (length caps) # concat (map encode_cap caps)"

fun decode_entries :: "bytes \<Rightarrow> nat \<Rightarrow> nat \<Rightarrow> Cap list \<Rightarrow> (Cap list \<times> nat) result" where
  "decode_entries data 0 at caps = Inr (caps, at)"
| "decode_entries data (Suc n) at caps =
     (case (get_at data at, get_at data (at + 1)) of
        (Some i, Some len) \<Rightarrow>
          (case get_range data (at + 2) (at + 2 + unat len) of
             None \<Rightarrow> Inl ''capability payload truncated''
           | Some p \<Rightarrow>
               decode_entries data n (at + 2 + unat len) (caps @ [\<lparr>cap_id = i, cap_payload = p\<rparr>]))
      | _ \<Rightarrow> Inl ''capability entry truncated'')"

definition decode_table :: "bytes \<Rightarrow> (Cap list \<times> nat) result" where
  "decode_table data =
     (case data of
        [] \<Rightarrow> Inl ''capability table truncated''
      | count # _ \<Rightarrow> decode_entries data (unat count) 1 [])"

definition own_table :: "Cap list \<Rightarrow> Cap list" where
  "own_table extra = \<lparr>cap_id = CAP_PROTOCOL_VERSION, cap_payload = [PROTOCOL_VERSION]\<rparr> # extra"

definition find_cap :: "Cap list \<Rightarrow> u8 \<Rightarrow> Cap option" where
  "find_cap caps i = find (\<lambda>c. cap_id c = i) caps"

text \<open>The encoder's \<open>debug_assert\<close>s: the table and every payload fit a length byte.\<close>

definition wf_table :: "Cap list \<Rightarrow> bool" where
  "wf_table caps \<longleftrightarrow> length caps \<le> 255 \<and> (\<forall>c \<in> set caps. length (cap_payload c) \<le> 255)"

section \<open>Round trip\<close>

lemma length_encode_cap [simp]: "length (encode_cap c) = 2 + length (cap_payload c)"
  by (simp add: encode_cap_def)

lemma decode_entry:
  assumes "data = pre @ encode_cap c @ rest" "length (cap_payload c) \<le> 255"
  shows "decode_entries data (Suc n) (length pre) acc
       = decode_entries data n (length pre + length (encode_cap c)) (acc @ [c])"
  using assms
  by (cases c) (simp add: encode_cap_def get_at_def get_range_def nth_append unat_of_nat_u8)

lemma decode_entries_concat:
  assumes "data = pre @ concat (map encode_cap cs) @ rest" "\<forall>c \<in> set cs. length (cap_payload c) \<le> 255"
  shows "decode_entries data (length cs) (length pre) acc
       = Inr (acc @ cs, length pre + length (concat (map encode_cap cs)))"
  using assms
proof (induction cs arbitrary: pre acc)
  case Nil
  then show ?case by simp
next
  case (Cons c cs)
  have "decode_entries data (length (c # cs)) (length pre) acc
      = decode_entries data (length cs) (length (pre @ encode_cap c)) (acc @ [c])"
    using decode_entry [of data pre c "concat (map encode_cap cs) @ rest"] Cons.prems by simp
  also have "\<dots> = Inr ((acc @ [c]) @ cs, length (pre @ encode_cap c) + length (concat (map encode_cap cs)))"
    using Cons.prems by (intro Cons.IH) simp_all
  finally show ?case by simp
qed

lemma decode_encode_table:
  "wf_table caps \<Longrightarrow> decode_table (encode_table caps @ rest) = Inr (caps, length (encode_table caps))"
  using decode_entries_concat [of "encode_table caps @ rest" "[word_of_nat (length caps)]" caps rest "[]"]
  by (simp add: decode_table_def encode_table_def wf_table_def unat_of_nat_u8 del: length_concat)

interpretation caps_codec: prefix_codec encode_table decode_table wf_table
  by unfold_locales (rule decode_encode_table)

section \<open>What the decoder accepts\<close>

text \<open>Whatever the peer sends, an accepted table lies inside the message and is the encoding of
  the entries returned.\<close>

lemma decode_entries_sound:
  assumes "decode_entries data n at acc = Inr (caps, used)" "at \<le> length data"
  shows "\<exists>cs. caps = acc @ cs \<and> length cs = n \<and> at \<le> used \<and> used \<le> length data
           \<and> take (used - at) (drop at data) = concat (map encode_cap cs)
           \<and> (\<forall>c \<in> set cs. length (cap_payload c) \<le> 255)"
  using assms
proof (induction data n at acc rule: decode_entries.induct)
  case (1 data at caps)
  then show ?case by simp
next
  case (2 data n at acc)
  from "2.prems"(1) obtain i len p where
    i: "get_at data at = Some i" and len: "get_at data (at + 1) = Some len"
    and p: "get_range data (at + 2) (at + 2 + unat len) = Some p"
    and rec: "decode_entries data n (at + 2 + unat len) (acc @ [\<lparr>cap_id = i, cap_payload = p\<rparr>]) = Inr (caps, used)"
    by (auto split: option.splits)
  let ?c = "\<lparr>cap_id = i, cap_payload = p\<rparr>" and ?m = "at + 2 + unat len"
  have le: "?m \<le> length data" "length p = unat len" using get_range_SomeD [OF p] by auto
  from "2.IH" [OF _ i len p rec] le obtain cs where
    cs: "caps = (acc @ [?c]) @ cs" "length cs = n" "?m \<le> used" "used \<le> length data"
      "take (used - ?m) (drop ?m data) = concat (map encode_cap cs)" "\<forall>c \<in> set cs. length (cap_payload c) \<le> 255"
    by auto
  have l255: "unat len \<le> 255" by (rule unat_u8_le)
  have "take (?m - at) (drop at data) = encode_cap ?c"
  proof -
    have "drop at data = i # drop (Suc at) data" "drop (Suc at) data = len # drop (at + 2) data"
      using get_at_SomeD [OF i] get_at_SomeD [OF len] by (auto simp: Cons_nth_drop_Suc)
    then show ?thesis using p le by (auto simp: get_range_def encode_cap_def split: if_splits)
  qed
  moreover have "take (used - at) (drop at data) = take (?m - at) (drop at data) @ take (used - ?m) (drop ?m data)"
  proof -
    have "used - at = (?m - at) + (used - ?m)" and "drop (?m - at) (drop at data) = drop ?m data"
      using cs(3) by (simp_all add: add.commute)
    then show ?thesis by (metis take_add)
  qed
  ultimately show ?case using cs le l255 by (intro exI [of _ "?c # cs"]) auto
qed

lemma decode_table_sound:
  assumes "decode_table data = Inr (caps, used)"
  shows "used \<le> length data" "take used data = encode_table caps" "wf_table caps"
proof -
  obtain count rest where d: "data = count # rest" and
    e: "decode_entries data (unat count) 1 [] = Inr (caps, used)"
    using assms by (auto simp: decode_table_def split: list.splits)
  have u: "unat count \<le> 255" by (rule unat_u8_le)
  from decode_entries_sound [OF e] d have
    r: "length caps = unat count" "1 \<le> used" "used \<le> length data"
      "take (used - 1) rest = concat (map encode_cap caps)" "\<forall>c \<in> set caps. length (cap_payload c) \<le> 255"
    by auto
  have "take used data = count # take (used - 1) rest" using r(2) d by (cases used) auto
  moreover have "word_of_nat (length caps) = count" using r(1) by simp
  ultimately show "take used data = encode_table caps" using r(4) by (simp add: encode_table_def)
  show "used \<le> length data" "wf_table caps" using r u by (auto simp: wf_table_def)
qed

lemma find_own_table:
  "find_cap (own_table extra) CAP_PROTOCOL_VERSION
   = Some \<lparr>cap_id = CAP_PROTOCOL_VERSION, cap_payload = [PROTOCOL_VERSION]\<rparr>"
  by (simp add: find_cap_def own_table_def)

end
