(* ===== verification/Fragment.thy ===== *)
theory Fragment
  imports Prelude "HOL-Library.Multiset"
begin

text \<open>
  \<open>crates/posh/src/remote/sync.rs\<close>, first part: fragmentation of an instruction into datagrams and
  its reassembly. \<open>frag_loop\<close> is the source's loop, which never ends for an empty chunk size and a
  non-empty payload (so it is a partial function); \<open>assembly_add\<close> is \<open>FragmentAssembly::add\<close>, with
  \<open>None\<close> for the panic of \<open>piece.unwrap()\<close>. The lemmas show that the wire form round-trips, that the
  loop returns the chunks of the payload, that an assembly stays bounded and never panics whatever
  arrives, and that on the fragments of real instructions it refines the set of received numbers.
\<close>

definition FRAG_HEADER_LEN :: nat where "FRAG_HEADER_LEN = 10"
definition FRAGMENT_CONTENTS_MAX :: nat where "FRAGMENT_CONTENTS_MAX = 1400 - 24 - 4 - FRAG_HEADER_LEN"
definition MAX_FRAGMENTS :: nat where "MAX_FRAGMENTS = 8192"

record Fragment =
  frag_id :: u64
  frag_num :: u16
  is_final :: bool
  contents :: bytes

section \<open>The wire form\<close>

definition to_bytes :: "Fragment \<Rightarrow> bytes" where
  "to_bytes f =
     (let combined = push_bit 15 (of_bool (is_final f)) OR (frag_num f AND 0x7fff)
      in be_bytes 8 (frag_id f) @ be_bytes 2 combined @ contents f)"

definition from_bytes :: "bytes \<Rightarrow> Fragment result" where
  "from_bytes data =
     (if length data < FRAG_HEADER_LEN then Inl ''fragment too short''
      else let combined = (of_be [data ! 8, data ! 9] :: u16)
           in Inr \<lparr>frag_id = of_be (take 8 data), frag_num = combined AND 0x7fff,
                   is_final = (combined AND 0x8000 \<noteq> 0), contents = drop FRAG_HEADER_LEN data\<rparr>)"

section \<open>Fragmenting\<close>

record Fragmenter =
  next_id :: u64

definition fragmenter_new :: Fragmenter where
  "fragmenter_new = \<lparr>next_id = 0\<rparr>"

partial_function (option) frag_loop ::
  "u64 \<Rightarrow> nat \<Rightarrow> u16 \<Rightarrow> bytes \<Rightarrow> Fragment list \<Rightarrow> Fragment list option" where
  "frag_loop i max_contents num rest out =
     (let n = min (length rest) max_contents;
          chunk = take n rest; tail = drop n rest;
          out' = out @ [\<lparr>frag_id = i, frag_num = num, is_final = (tail = []), contents = chunk\<rparr>]
      in if tail = [] then Some out' else frag_loop i max_contents (num + 1) tail out')"

definition make_fragments :: "Fragmenter \<Rightarrow> bytes \<Rightarrow> nat \<Rightarrow> (Fragmenter \<times> Fragment list) option" where
  "make_fragments fr payload max_contents =
     (let i = next_id fr + 1
      in map_option (Pair (fr\<lparr>next_id := i\<rparr>)) (frag_loop i max_contents 0 payload []))"

section \<open>Reassembly\<close>

record FragmentAssembly =
  current_id :: "u64 option"
  fragments :: "bytes option list"
  arrived :: nat
  total :: "nat option"

definition assembly_new :: FragmentAssembly where
  "assembly_new = \<lparr>current_id = None, fragments = [], arrived = 0, total = None\<rparr>"

text \<open>Draining the buffer: \<open>None\<close> where an \<open>unwrap\<close> meets a hole.\<close>

fun drain_pieces :: "bytes option list \<Rightarrow> bytes option" where
  "drain_pieces [] = Some []"
| "drain_pieces (None # ps) = None"
| "drain_pieces (Some p # ps) = map_option (append p) (drain_pieces ps)"

text \<open>\<open>Vec::resize\<close>.\<close>

definition resize :: "'a list \<Rightarrow> nat \<Rightarrow> 'a \<Rightarrow> 'a list" where
  "resize xs n x = take n xs @ replicate (n - length xs) x"

text \<open>A fragment of another id discards the partial assembly in progress.\<close>

definition assembly_switch :: "FragmentAssembly \<Rightarrow> u64 \<Rightarrow> FragmentAssembly" where
  "assembly_switch a i =
     (if current_id a \<noteq> Some i
      then \<lparr>current_id = Some i, fragments = [], arrived = 0, total = None\<rparr>
      else a)"

text \<open>Fragments that cannot belong to a well-formed instruction are dropped.\<close>

definition rejects :: "FragmentAssembly \<Rightarrow> Fragment \<Rightarrow> bool" where
  "rejects a frag \<longleftrightarrow>
     (let idx = unat (frag_num frag)
      in idx \<ge> MAX_FRAGMENTS
         \<or> (case total a of None \<Rightarrow> False | Some t \<Rightarrow> idx \<ge> t)
         \<or> (is_final frag \<and> (length (fragments a) > idx + 1
              \<or> (case total a of None \<Rightarrow> False | Some t \<Rightarrow> t \<noteq> idx + 1))))"

definition assembly_place :: "FragmentAssembly \<Rightarrow> Fragment \<Rightarrow> FragmentAssembly" where
  "assembly_place a frag =
     (let idx = unat (frag_num frag);
          fs = (if length (fragments a) \<le> idx then resize (fragments a) (idx + 1) None else fragments a);
          tot = (if is_final frag then Some (idx + 1) else total a)
      in if fs ! idx = None
         then a\<lparr>fragments := fs[idx := Some (contents frag)], arrived := arrived a + 1, total := tot\<rparr>
         else a\<lparr>fragments := fs, total := tot\<rparr>)"

definition assembly_finish :: "FragmentAssembly \<Rightarrow> (FragmentAssembly \<times> bytes option) option" where
  "assembly_finish a =
     (if total a = Some (arrived a) \<and> length (fragments a) = arrived a
      then (case drain_pieces (fragments a) of
              None \<Rightarrow> None
            | Some out \<Rightarrow>
                Some (a\<lparr>current_id := None, fragments := [], arrived := 0, total := None\<rparr>, Some out))
      else Some (a, None))"

definition assembly_add :: "FragmentAssembly \<Rightarrow> Fragment \<Rightarrow> (FragmentAssembly \<times> bytes option) option" where
  "assembly_add a0 frag =
     (let a = assembly_switch a0 (frag_id frag)
      in if rejects a frag then Some (a, None) else assembly_finish (assembly_place a frag))"

section \<open>The wire form round-trips\<close>

definition wf_fragment :: "Fragment \<Rightarrow> bool" where
  "wf_fragment f \<longleftrightarrow> unat (frag_num f) < 2 ^ 15"

lemma and_7fff: "w AND 0x7fff = (take_bit 15 w :: u16)"
  by (simp add: take_bit_eq_mask mask_numeral)

lemma and_8000: "(w AND 0x8000 \<noteq> (0 :: u16)) \<longleftrightarrow> bit w 15"
  using and_push_bit_one [of w 15] by simp

definition combined_of :: "Fragment \<Rightarrow> u16" where
  "combined_of f = push_bit 15 (of_bool (is_final f)) OR (frag_num f AND 0x7fff)"

lemma combined_parts:
  "combined_of f AND 0x7fff = take_bit 15 (frag_num f)"
  "combined_of f AND 0x8000 \<noteq> 0 \<longleftrightarrow> is_final f"
  unfolding and_7fff and_8000 combined_of_def
  by (rule bit_word_eqI, auto simp: bit_simps)

lemma from_to_bytes:
  assumes "wf_fragment f"
  shows "from_bytes (to_bytes f) = Inr f"
proof -
  have "length (be_bytes 2 (combined_of f)) = Suc (Suc 0)" by simp
  then obtain x y where xy: "be_bytes 2 (combined_of f) = [x, y]"
    by (auto simp only: length_Suc_conv length_0_conv)
  have c: "of_be [x, y] = combined_of f" using of_be_be_bytes [of 2 "combined_of f"] xy by simp
  have wire: "to_bytes f = be_bytes 8 (frag_id f) @ x # y # contents f"
    by (simp add: to_bytes_def combined_of_def [symmetric] xy)
  have num: "take_bit 15 (frag_num f) = frag_num f"
    using assms by (simp add: wf_fragment_def word_unat_eq_iff unsigned_take_bit_eq take_bit_nat_eq_self)
  show ?thesis
    unfolding from_bytes_def wire Let_def
    by (simp add: FRAG_HEADER_LEN_def nth_append c combined_parts num of_be_be_bytes)
qed

section \<open>The loop returns the chunks\<close>

fun chunks :: "nat \<Rightarrow> bytes \<Rightarrow> bytes list" where
  "chunks m xs = (if m = 0 \<or> length xs \<le> m then [xs] else take m xs # chunks m (drop m xs))"

declare chunks.simps [simp del]

lemma concat_chunks: "concat (chunks m xs) = xs"
  by (induction m xs rule: chunks.induct) (subst chunks.simps, auto)

lemma chunks_nonempty: "chunks m xs \<noteq> []"
  by (subst chunks.simps) simp

lemma chunk_bound: "0 < m \<Longrightarrow> c \<in> set (chunks m xs) \<Longrightarrow> length c \<le> m"
proof (induction m xs rule: chunks.induct)
  case (1 m xs)
  then show ?case by (subst (asm) (2) chunks.simps) (auto split: if_splits)
qed

text \<open>The fragments of an instruction: numbered chunks, the last one marked final.\<close>

definition frags_from :: "u64 \<Rightarrow> u16 \<Rightarrow> bytes list \<Rightarrow> Fragment list" where
  "frags_from i num cs =
     map (\<lambda>k. \<lparr>frag_id = i, frag_num = num + word_of_nat k, is_final = (Suc k = length cs), contents = cs ! k\<rparr>)
       [0..<length cs]"

lemma frags_from_Cons:
  "cs \<noteq> [] \<Longrightarrow> frags_from i num (c # cs) =
     \<lparr>frag_id = i, frag_num = num, is_final = False, contents = c\<rparr> # frags_from i (num + 1) cs"
proof -
  assume "cs \<noteq> []"
  have "[0..<length (c # cs)] = 0 # map Suc [0..<length cs]"
    by (simp add: map_Suc_upt upt_conv_Cons del: upt_Suc)
  then show ?thesis using \<open>cs \<noteq> []\<close> by (simp add: frags_from_def add.assoc del: upt_Suc)
qed

lemma frag_loop_chunks:
  "0 < m \<Longrightarrow> frag_loop i m num xs out = Some (out @ frags_from i num (chunks m xs))"
proof (induction m xs arbitrary: num out rule: chunks.induct)
  case (1 m xs)
  show ?case
  proof (cases "length xs \<le> m")
    case True
    then show ?thesis
      by (subst frag_loop.simps, subst chunks.simps) (simp add: Let_def frags_from_def)
  next
    case False
    then have "frag_loop i m num xs out =
        frag_loop i m (num + 1) (drop m xs)
          (out @ [\<lparr>frag_id = i, frag_num = num, is_final = False, contents = take m xs\<rparr>])"
      by (subst frag_loop.simps) (simp add: Let_def)
    also have "\<dots> = Some ((out @ [\<lparr>frag_id = i, frag_num = num, is_final = False, contents = take m xs\<rparr>])
        @ frags_from i (num + 1) (chunks m (drop m xs)))"
      using "1.IH" "1.prems" False by simp
    finally show ?thesis
      using False "1.prems" frags_from_Cons [OF chunks_nonempty [of m "drop m xs"], of i num "take m xs"]
      by (subst chunks.simps) simp
  qed
qed

text \<open>A zero chunk size never gets past the first byte: the loop does not end.\<close>

lemma frag_loop_zero_aux:
  assumes "frag_loop i m num xs out = Some r"
  shows "m = 0 \<longrightarrow> xs = []"
proof (rule frag_loop.raw_induct [where P = "\<lambda>i m num xs out r. m = 0 \<longrightarrow> xs = []", OF _ assms])
  fix f i m num rest out r
  assume IH: "\<And>i m num rest out r. f i m num rest out = Some r \<Longrightarrow> m = 0 \<longrightarrow> rest = []"
    and eq: "(let n = min (length rest) m; chunk = take n rest; tail = drop n rest;
          out' = out @ [\<lparr>frag_id = i, frag_num = num, is_final = (tail = []), contents = chunk\<rparr>]
      in if tail = [] then Some out' else f i m (num + 1) tail out') = Some r"
  show "m = 0 \<longrightarrow> rest = []"
  proof
    assume "m = 0"
    with eq have "rest = [] \<or> f i m (num + 1) rest (out @ [\<lparr>frag_id = i, frag_num = num, is_final = False, contents = []\<rparr>]) = Some r"
      by (auto simp: Let_def split: if_splits)
    then show "rest = []" using IH \<open>m = 0\<close> by blast
  qed
qed

lemma frag_loop_zero: "xs \<noteq> [] \<Longrightarrow> frag_loop i 0 num xs out = None"
  using frag_loop_zero_aux [of i 0 num xs out] by (cases "frag_loop i 0 num xs out") auto

lemma make_fragments_chunks:
  "0 < m \<Longrightarrow> make_fragments fr payload m =
     Some (fr\<lparr>next_id := next_id fr + 1\<rparr>, frags_from (next_id fr + 1) 0 (chunks m payload))"
  by (simp add: make_fragments_def Let_def frag_loop_chunks)

text \<open>The loop ends exactly when there is room for contents or nothing to send.\<close>

lemma make_fragments_ends: "(make_fragments fr payload m \<noteq> None) = (payload = [] \<or> 0 < m)"
proof (cases "0 < m")
  case False
  have "frag_loop i 0 num [] out \<noteq> None" for i num out by (subst frag_loop.simps) simp
  then show ?thesis using False by (cases "payload = []") (auto simp: make_fragments_def Let_def frag_loop_zero)
qed (simp add: make_fragments_chunks)

section \<open>An assembly stays bounded and never panics\<close>

definition count_some :: "'a option list \<Rightarrow> nat" where
  "count_some xs = length (filter (\<lambda>x. x \<noteq> None) xs)"

lemma count_some_le: "count_some xs \<le> length xs"
  by (simp add: count_some_def)

lemma count_some_full: "count_some xs = length xs \<longleftrightarrow> None \<notin> set xs"
  unfolding count_some_def by (metis (mono_tags, lifting) filter_True length_filter_less linorder_not_less nle_le)

lemma count_some_append [simp]: "count_some (xs @ ys) = count_some xs + count_some ys"
  by (simp add: count_some_def)

lemma count_some_replicate [simp]: "count_some (replicate n None) = 0"
  by (simp add: count_some_def)

lemma count_some_update:
  "i < length xs \<Longrightarrow> xs ! i = None \<Longrightarrow> count_some (xs[i := Some x]) = Suc (count_some xs)"
  by (simp add: upd_conv_take_nth_drop count_some_def)
     (subst id_take_nth_drop [of i xs], simp, simp)

lemma drain_full: "None \<notin> set ps \<Longrightarrow> drain_pieces ps = Some (concat (map the ps))"
  by (induction ps rule: drain_pieces.induct) auto

definition asm_inv :: "FragmentAssembly \<Rightarrow> bool" where
  "asm_inv a \<longleftrightarrow> length (fragments a) \<le> MAX_FRAGMENTS \<and> arrived a = count_some (fragments a)
     \<and> (\<forall>t. total a = Some t \<longrightarrow> length (fragments a) = t)
     \<and> (current_id a = None \<longrightarrow> fragments a = [] \<and> total a = None)"

lemma asm_inv_new: "asm_inv assembly_new"
  by (simp add: asm_inv_def assembly_new_def count_some_def MAX_FRAGMENTS_def)

lemma assembly_switch_inv: "asm_inv a \<Longrightarrow> asm_inv (assembly_switch a i) \<and> current_id (assembly_switch a i) = Some i"
  by (auto simp: assembly_switch_def asm_inv_def count_some_def)

lemma assembly_place_inv:
  assumes "asm_inv a" "current_id a = Some i" "\<not> rejects a f"
  shows "asm_inv (assembly_place a f)" and "current_id (assembly_place a f) = Some i"
proof -
  define idx where "idx = unat (frag_num f)"
  define fs where "fs = (if length (fragments a) \<le> idx then resize (fragments a) (idx + 1) None else fragments a)"
  define tot where "tot = (if is_final f then Some (idx + 1) else total a)"
  have fs: "idx < length fs" "length fs \<le> MAX_FRAGMENTS" "count_some fs = arrived a"
    using assms by (auto simp: fs_def idx_def resize_def asm_inv_def rejects_def Let_def)
  have tot: "length fs = t" if "tot = Some t" for t
    using that assms
    by (auto simp: tot_def idx_def rejects_def fs_def resize_def asm_inv_def Let_def split: option.splits if_splits)
  have place: "assembly_place a f =
      (if fs ! idx = None
       then a\<lparr>fragments := fs[idx := Some (contents f)], arrived := arrived a + 1, total := tot\<rparr>
       else a\<lparr>fragments := fs, total := tot\<rparr>)"
    by (simp add: assembly_place_def idx_def fs_def tot_def Let_def)
  show "asm_inv (assembly_place a f)"
    unfolding place using fs tot assms(2) by (auto simp: asm_inv_def count_some_update)
  show "current_id (assembly_place a f) = Some i" unfolding place using assms(2) by simp
qed

lemma assembly_finish_inv: "asm_inv a \<Longrightarrow> \<exists>a' r. assembly_finish a = Some (a', r) \<and> asm_inv a'"
proof -
  assume inv: "asm_inv a"
  have "drain_pieces (fragments a) = Some (concat (map the (fragments a)))" if "length (fragments a) = arrived a"
    using that inv count_some_full [of "fragments a"] by (simp add: asm_inv_def drain_full)
  then show ?thesis using inv by (auto simp: assembly_finish_def asm_inv_def count_some_def MAX_FRAGMENTS_def)
qed

lemma assembly_add_inv:
  assumes "asm_inv a"
  shows "\<exists>a' r. assembly_add a f = Some (a', r) \<and> asm_inv a'"
proof -
  let ?a = "assembly_switch a (frag_id f)"
  have a: "asm_inv ?a" "current_id ?a = Some (frag_id f)" using assembly_switch_inv [OF assms] by auto
  show ?thesis
  proof (cases "rejects ?a f")
    case True
    then show ?thesis using a by (simp add: assembly_add_def Let_def)
  next
    case False
    then show ?thesis
      using assembly_finish_inv [OF assembly_place_inv(1) [OF a False]] by (simp add: assembly_add_def Let_def)
  qed
qed

section \<open>Reassembly refines the set of received fragment numbers\<close>

text \<open>
  \<open>sent i\<close> are the chunks of instruction \<open>i\<close>. The specification remembers the instruction in
  progress and which of its numbers arrived, and delivers the payload when all of them did.
\<close>

definition valid_frag :: "(u64 \<Rightarrow> bytes list) \<Rightarrow> Fragment \<Rightarrow> bool" where
  "valid_frag sent f \<longleftrightarrow> (let cs = sent (frag_id f); k = unat (frag_num f) in
     k < length cs \<and> length cs \<le> MAX_FRAGMENTS \<and> contents f = cs ! k \<and> (is_final f \<longleftrightarrow> Suc k = length cs))"

definition spec_add ::
  "(u64 \<Rightarrow> bytes list) \<Rightarrow> (u64 \<times> nat set) option \<Rightarrow> Fragment \<Rightarrow> (u64 \<times> nat set) option \<times> bytes option" where
  "spec_add sent st f =
     (let i = frag_id f;
          R = insert (unat (frag_num f)) (case st of Some (j, R) \<Rightarrow> if j = i then R else {} | None \<Rightarrow> {})
      in if R = {0..<length (sent i)} then (None, Some (concat (sent i))) else (Some (i, R), None))"

definition high :: "nat set \<Rightarrow> nat" where
  "high R = (if R = {} then 0 else Suc (Max R))"

definition holds :: "bytes list \<Rightarrow> nat set \<Rightarrow> FragmentAssembly \<Rightarrow> bool" where
  "holds cs R a \<longleftrightarrow> R \<subseteq> {0..<length cs} \<and> arrived a = card R
     \<and> fragments a = map (\<lambda>k. if k \<in> R then Some (cs ! k) else None) [0..<high R]
     \<and> total a = (if length cs - 1 \<in> R \<and> cs \<noteq> [] then Some (length cs) else None)"

fun asm_rel :: "(u64 \<Rightarrow> bytes list) \<Rightarrow> FragmentAssembly \<Rightarrow> (u64 \<times> nat set) option \<Rightarrow> bool" where
  "asm_rel sent a None \<longleftrightarrow> current_id a = None"
| "asm_rel sent a (Some (i, R)) \<longleftrightarrow> current_id a = Some i \<and> holds (sent i) R a"

lemma high_insert: "finite R \<Longrightarrow> high (insert k R) = max (high R) (Suc k)"
  by (auto simp: high_def)

lemma high_le: "R \<subseteq> {0..<n} \<Longrightarrow> high R \<le> n"
proof (cases "R = {}")
  case False
  assume "R \<subseteq> {0..<n}"
  moreover then have "finite R" using finite_subset by blast
  ultimately have "Max R \<in> {0..<n}" using False Max_in by blast
  then show ?thesis by (simp add: high_def)
qed (simp add: high_def)

lemma high_full: "high {0..<n} = n"
  by (cases n) (auto simp: high_def Max_eq_iff intro!: Max_eqI)

lemma not_in_high: "finite R \<Longrightarrow> high R \<le> k \<Longrightarrow> k \<notin> R"
  by (auto simp: high_def split: if_splits dest: Max_ge)

lemma not_rejects:
  assumes "holds (sent (frag_id f)) R a" "valid_frag sent f"
  shows "\<not> rejects a f"
proof -
  have "high R \<le> length (sent (frag_id f))" using assms(1) high_le by (auto simp: holds_def)
  then show ?thesis using assms
    by (auto simp: holds_def valid_frag_def rejects_def Let_def split: if_splits)
qed

lemma place_fragments:
  assumes "R \<subseteq> {0..<n}" "n = length cs" "k < n"
  defines "fs \<equiv> map (\<lambda>k. if k \<in> R then Some (cs ! k) else None) [0..<high R]"
  defines "fs' \<equiv> (if length fs \<le> k then resize fs (k + 1) None else fs)"
  shows "fs' = map (\<lambda>j. if j \<in> R then Some (cs ! j) else None) [0..<high (insert k R)]"
    and "fs' ! k = (if k \<in> R then Some (cs ! k) else None)"
    and "fs'[k := Some (cs ! k)] = map (\<lambda>j. if j \<in> insert k R then Some (cs ! j) else None) [0..<high (insert k R)]"
proof -
  have fin: "finite R" using assms(1) finite_subset by blast
  show 1: "fs' = map (\<lambda>j. if j \<in> R then Some (cs ! j) else None) [0..<high (insert k R)]"
  proof (cases "high R \<le> k")
    case True
    then show ?thesis using fin
      by (auto intro!: nth_equalityI simp: fs'_def fs_def resize_def high_insert nth_append not_in_high max_def)
  next
    case False
    then have "high (insert k R) = high R" using fin by (simp add: high_insert)
    then show ?thesis using False by (simp add: fs'_def fs_def)
  qed
  have k: "k < high (insert k R)" using fin by (simp add: high_insert)
  show "fs' ! k = (if k \<in> R then Some (cs ! k) else None)" using k by (simp add: 1)
  show "fs'[k := Some (cs ! k)] = map (\<lambda>j. if j \<in> insert k R then Some (cs ! j) else None) [0..<high (insert k R)]"
  proof (rule nth_equalityI)
    fix i assume "i < length ((fs'[k := Some (cs ! k)]))"
    then show "fs'[k := Some (cs ! k)] ! i
        = map (\<lambda>j. if j \<in> insert k R then Some (cs ! j) else None) [0..<high (insert k R)] ! i"
      using k unfolding 1 by (cases "i = k") simp_all
  qed (simp add: 1)
qed

lemma place_holds:
  assumes "holds cs R a" "cs = sent (frag_id f)" "valid_frag sent f"
  shows "holds cs (insert (unat (frag_num f)) R) (assembly_place a f)"
proof -
  let ?k = "unat (frag_num f)"
  have R: "R \<subseteq> {0..<length cs}" and k: "?k < length cs" "contents f = cs ! ?k"
    "is_final f \<longleftrightarrow> Suc ?k = length cs"
    using assms by (auto simp: holds_def valid_frag_def Let_def)
  have fin: "finite R" using R finite_subset by blast
  note pf = place_fragments [OF R refl k(1)]
  have fr: "fragments a = map (\<lambda>k. if k \<in> R then Some (cs ! k) else None) [0..<high R]"
    using assms(1) by (simp add: holds_def)
  have tot: "(if is_final f then Some (?k + 1) else total a)
      = (if length cs - 1 \<in> insert ?k R \<and> cs \<noteq> [] then Some (length cs) else None)"
    using assms(1) k by (auto simp: holds_def)
  define fs where "fs = (if length (fragments a) \<le> ?k then resize (fragments a) (?k + 1) None else fragments a)"
  define tt where "tt = (if is_final f then Some (?k + 1) else total a)"
  have place: "assembly_place a f =
      (if fs ! ?k = None then a\<lparr>fragments := fs[?k := Some (contents f)], arrived := arrived a + 1, total := tt\<rparr>
       else a\<lparr>fragments := fs, total := tt\<rparr>)"
    unfolding assembly_place_def Let_def fs_def tt_def ..
  note pf' = pf [folded fr, folded fs_def] and tot' = tot [folded tt_def]
  have ar: "arrived a = card R" using assms(1) by (simp only: holds_def)
  have ins: "insert ?k R \<subseteq> {0..<length cs}" using R k(1) by simp
  show ?thesis
  proof (cases "?k \<in> R")
    case True
    then have "fs ! ?k \<noteq> None" using pf'(2) by simp
    then have p: "assembly_place a f = a\<lparr>fragments := fs, total := tt\<rparr>" unfolding place by (simp only: if_False)
    show ?thesis unfolding p holds_def using True pf'(1) tot' ar ins
      by (simp add: insert_absorb)
  next
    case False
    then have "fs ! ?k = None" using pf'(2) by simp
    then have p: "assembly_place a f = a\<lparr>fragments := fs[?k := Some (contents f)], arrived := arrived a + 1, total := tt\<rparr>"
      unfolding place by (simp only: if_True simp_thms)
    have "arrived a + 1 = card (insert ?k R)" using False fin ar by simp
    then show ?thesis unfolding p holds_def using pf'(3) tot' ins k(2)
      by simp
  qed
qed

lemma drain_map_Some: "drain_pieces (map (\<lambda>k. Some (g k)) ks) = Some (concat (map g ks))"
  by (induction ks) auto

lemma finish_holds:
  assumes "holds cs R a" "current_id a = Some i"
  shows "assembly_finish a =
    (if R = {0..<length cs} \<and> cs \<noteq> []
     then Some (a\<lparr>current_id := None, fragments := [], arrived := 0, total := None\<rparr>, Some (concat cs))
     else Some (a, None))"
proof -
  have R: "R \<subseteq> {0..<length cs}" using assms(1) by (simp add: holds_def)
  then have fin: "finite R" using finite_subset by blast
  have full: "card R = length cs \<longleftrightarrow> R = {0..<length cs}"
    using R card_subset_eq [of "{0..<length cs}" R] by auto
  show ?thesis
  proof (cases "R = {0..<length cs} \<and> cs \<noteq> []")
    case True
    then have "map (\<lambda>k. if k \<in> R then Some (cs ! k) else None) [0..<high R] = map (\<lambda>k. Some (cs ! k)) [0..<length cs]"
      by (auto simp: high_full)
    then have fr: "fragments a = map (\<lambda>k. Some (cs ! k)) [0..<length cs]" using assms(1) by (simp only: holds_def)
    have "drain_pieces (fragments a) = Some (concat cs)" and "length (fragments a) = length cs"
      unfolding fr drain_map_Some by (simp_all add: map_nth)
    moreover have "total a = Some (arrived a)" "arrived a = length cs"
      using assms(1) True by (auto simp: holds_def)
    ultimately show ?thesis using True by (simp add: assembly_finish_def)
  next
    case False
    have "total a = (if length cs - 1 \<in> R \<and> cs \<noteq> [] then Some (length cs) else None)" "arrived a = card R"
      using assms(1) by (simp_all only: holds_def)
    then have "total a \<noteq> Some (arrived a)" using False full by (metis option.distinct(1) option.inject)
    then show ?thesis unfolding assembly_finish_def if_not_P [OF False] by simp
  qed
qed

lemma assembly_add_refines:
  assumes "asm_rel sent a st" "valid_frag sent f"
  obtains a' where "assembly_add a f = Some (a', snd (spec_add sent st f))"
    and "asm_rel sent a' (fst (spec_add sent st f))"
proof -
  let ?i = "frag_id f" and ?cs = "sent (frag_id f)"
  let ?R = "case st of Some (j, R) \<Rightarrow> if j = ?i then R else {} | None \<Rightarrow> {}"
  let ?a = "assembly_switch a ?i"
  have "holds ?cs {} \<lparr>current_id = Some ?i, fragments = [], arrived = 0, total = None\<rparr>"
    by (simp add: holds_def high_def)
  then have sw: "holds ?cs ?R ?a" "current_id ?a = Some ?i"
    using assms(1) by (auto simp: assembly_switch_def split: option.splits)
  have ne: "?cs \<noteq> []" using assms(2) by (auto simp: valid_frag_def Let_def)
  note ok = not_rejects [OF sw(1) assms(2)] and pl = place_holds [where cs = ?cs, OF sw(1) refl assms(2)]
  have cur: "current_id (assembly_place ?a f) = Some ?i"
    using sw(2) by (simp add: assembly_place_def Let_def)
  show ?thesis
    using that ok pl ne finish_holds [OF pl cur] cur
    by (auto simp: assembly_add_def spec_add_def Let_def split: if_splits)
qed

text \<open>A run over arriving fragments, with the delivered payloads.\<close>

fun assembly_run :: "FragmentAssembly \<Rightarrow> Fragment list \<Rightarrow> (FragmentAssembly \<times> bytes list) option" where
  "assembly_run a [] = Some (a, [])"
| "assembly_run a (f # fs) =
     (case assembly_add a f of
        None \<Rightarrow> None
      | Some (a', r) \<Rightarrow>
          (case assembly_run a' fs of
             None \<Rightarrow> None
           | Some (a'', out) \<Rightarrow> Some (a'', (case r of None \<Rightarrow> out | Some p \<Rightarrow> p # out))))"

text \<open>Whatever arrives, in whatever order and however often: every payload delivered is a payload
  that was sent.\<close>

lemma assembly_run_safe:
  assumes "asm_rel sent a st" "\<forall>f \<in> set fs. valid_frag sent f"
  shows "\<exists>a' out. assembly_run a fs = Some (a', out) \<and> set out \<subseteq> (\<lambda>f. concat (sent (frag_id f))) ` set fs"
  using assms
proof (induction fs arbitrary: a st)
  case Nil
  then show ?case by simp
next
  case (Cons f fs)
  obtain a' where a': "assembly_add a f = Some (a', snd (spec_add sent st f))"
    "asm_rel sent a' (fst (spec_add sent st f))"
    using assembly_add_refines Cons.prems by (metis list.set_intros(1))
  from Cons.IH [OF a'(2)] Cons.prems obtain a'' out where
    "assembly_run a' fs = Some (a'', out)" "set out \<subseteq> (\<lambda>f. concat (sent (frag_id f))) ` set fs" by auto
  moreover have "snd (spec_add sent st f) = Some p \<Longrightarrow> p = concat (sent (frag_id f))" for p
    by (auto simp: spec_add_def Let_def split: if_splits)
  ultimately show ?case using a'(1) by (auto split: option.splits)
qed

text \<open>All fragments of one instruction, in any order without repetition, deliver its payload
  exactly once, on the last arrival.\<close>

lemma assembly_run_complete:
  assumes "asm_rel sent a (Some (i, R))" "\<forall>f \<in> set fs. valid_frag sent f \<and> frag_id f = i"
    and "distinct (map (\<lambda>f. unat (frag_num f)) fs)" "(\<lambda>f. unat (frag_num f)) ` set fs = {0..<length (sent i)} - R"
    and "R \<subset> {0..<length (sent i)}"
  shows "\<exists>a'. assembly_run a fs = Some (a', [concat (sent i)]) \<and> current_id a' = None"
  using assms
proof (induction fs arbitrary: a R)
  case Nil
  then show ?case by auto
next
  case (Cons f fs)
  let ?k = "unat (frag_num f)" and ?n = "length (sent i)"
  have f: "valid_frag sent f" "frag_id f = i" using Cons.prems(2) by auto
  obtain a' where a': "assembly_add a f = Some (a', snd (spec_add sent (Some (i, R)) f))"
    "asm_rel sent a' (fst (spec_add sent (Some (i, R)) f))"
    using assembly_add_refines [OF Cons.prems(1) f(1)] by blast
  have k: "?k \<notin> (\<lambda>f. unat (frag_num f)) ` set fs" using Cons.prems(3) by auto
  have "I = D - insert x S" if "insert x I = D - S" "x \<notin> I" for x :: nat and I D S using that by auto
  from this [of ?k "(\<lambda>f. unat (frag_num f)) ` set fs"]
  have rest: "(\<lambda>f. unat (frag_num f)) ` set fs = {0..<?n} - insert ?k R" using Cons.prems(4) k by simp
  show ?case
  proof (cases "insert ?k R = {0..<?n}")
    case True
    then have "fs = []" using rest by auto
    then show ?thesis using a' True f(2) by (simp add: spec_add_def)
  next
    case False
    then have rel: "asm_rel sent a' (Some (i, insert ?k R))" and out: "snd (spec_add sent (Some (i, R)) f) = None"
      using a'(2) f(2) by (auto simp: spec_add_def)
    have "insert ?k R \<subset> {0..<?n}" using False Cons.prems(4,5) by auto
    from Cons.IH [OF rel _ _ rest this] Cons.prems(2,3)
    show ?thesis using a'(1) out by auto
  qed
qed

section \<open>The fragments of a payload reassemble in any order\<close>

lemma length_chunks: "0 < m \<Longrightarrow> 0 < n \<Longrightarrow> length xs \<le> m * n \<Longrightarrow> length (chunks m xs) \<le> n"
proof (induction m xs arbitrary: n rule: chunks.induct)
  case (1 m xs)
  show ?case
  proof (cases "length xs \<le> m")
    case False
    then obtain k where k: "n = Suc k" "0 < k" using 1(2-4) by (cases n; cases "n - 1") auto
    have "length (chunks m (drop m xs)) \<le> k" using 1(1) [of k] 1(2,4) False k by simp
    then show ?thesis using False 1(2) k by (subst chunks.simps) simp
  qed (use 1 in \<open>subst chunks.simps; simp\<close>)
qed

lemma valid_frags_from:
  assumes "f \<in> set (frags_from i 0 cs)" "length cs \<le> MAX_FRAGMENTS"
  shows "valid_frag (\<lambda>_. cs) f" "frag_id f = i"
proof -
  obtain k where k: "k < length cs" "f = \<lparr>frag_id = i, frag_num = word_of_nat k, is_final = (Suc k = length cs), contents = cs ! k\<rparr>"
    using assms(1) by (auto simp: frags_from_def)
  have "unat (word_of_nat k :: u16) = k" using k(1) assms(2) by (simp add: unat_of_nat MAX_FRAGMENTS_def)
  then show "valid_frag (\<lambda>_. cs) f" "frag_id f = i" using k assms(2) by (auto simp: valid_frag_def)
qed

lemma frags_from_nums:
  "length cs \<le> MAX_FRAGMENTS \<Longrightarrow> map (\<lambda>f. unat (frag_num f)) (frags_from i 0 cs) = [0..<length cs]"
proof -
  assume "length cs \<le> MAX_FRAGMENTS"
  then have "unat (word_of_nat k :: u16) = k" if "k < length cs" for k
    using that by (simp add: unat_of_nat MAX_FRAGMENTS_def)
  then show ?thesis by (auto simp: frags_from_def intro: map_idI)
qed

lemma assembly_run_switch: "fs \<noteq> [] \<Longrightarrow> frag_id (hd fs) = i \<Longrightarrow> assembly_run (assembly_switch a i) fs = assembly_run a fs"
  by (cases fs) (simp_all add: assembly_add_def assembly_switch_def)

lemma fragments_any_order:
  assumes "make_fragments fr payload m = Some (fr', fs)" "0 < m" "length payload \<le> m * MAX_FRAGMENTS"
    and "current_id a \<noteq> Some (next_id fr + 1)" "mset gs = mset fs"
  shows "\<exists>a'. assembly_run a gs = Some (a', [payload]) \<and> current_id a' = None"
proof -
  let ?i = "next_id fr + 1" let ?cs = "chunks m payload"
  have fs: "fs = frags_from ?i 0 ?cs" using assms(1,2) make_fragments_chunks by simp
  have len: "length ?cs \<le> MAX_FRAGMENTS" using length_chunks [OF assms(2) _ assms(3)] by (simp add: MAX_FRAGMENTS_def)
  have set: "set gs = set fs" using assms(5) by (metis set_mset_mset)
  have "mset (map (\<lambda>f. unat (frag_num f)) gs) = mset (map (\<lambda>f. unat (frag_num f)) fs)"
    using assms(5) by simp
  then have nums: "mset (map (\<lambda>f. unat (frag_num f)) gs) = mset [0..<length ?cs]"
    unfolding fs frags_from_nums [OF len] .
  have "distinct (map (\<lambda>f. unat (frag_num f)) gs)" using nums by (metis distinct_upt mset_eq_imp_distinct_iff)
  moreover have "(\<lambda>f. unat (frag_num f)) ` set gs = {0..<length ?cs} - {}"
    using nums by (metis Diff_empty list.set_map set_mset_mset set_upt)
  moreover have "asm_rel (\<lambda>_. ?cs) (assembly_switch a ?i) (Some (?i, {}))"
    using assms(4) by (simp add: assembly_switch_def holds_def high_def)
  moreover have "\<forall>f \<in> set gs. valid_frag (\<lambda>_. ?cs) f \<and> frag_id f = ?i"
    using valid_frags_from [OF _ len] set fs by blast
  moreover have "{} \<subset> {0..<length ?cs}" using chunks_nonempty [of m payload] by auto
  ultimately have "\<exists>a'. assembly_run (assembly_switch a ?i) gs = Some (a', [concat ?cs]) \<and> current_id a' = None"
    by (intro assembly_run_complete [where R = "{}" and i = ?i and sent = "\<lambda>_. ?cs", simplified]) auto
  moreover have "gs \<noteq> []" using fs set chunks_nonempty [of m payload] by (auto simp: frags_from_def)
  moreover then have "frag_id (hd gs) = ?i" using valid_frags_from(2) [OF _ len] set fs hd_in_set by metis
  ultimately show ?thesis using assembly_run_switch concat_chunks by metis
qed

end
