(* ===== verification/Frames.thy ===== *)
theory Frames
  imports Caps
begin

text \<open>
  \<open>crates/posh/src/remote/sync.rs\<close>, second part: the prefix/suffix binary diff and the two message
  types of the state-synchronisation protocol. \<open>make_diff\<close> keeps the source's two scanning loops
  and its truncation of the counts to 32 bits; the decoders keep every length test. The lemmas show
  that a diff applied to its base rebuilds the target, that both messages round-trip behind their
  capability table, and that a peer without the table sees the same fixed fields.
\<close>

section \<open>Binary diff\<close>

text \<open>\<open>while i < max && p(i) { i += 1 }\<close>.\<close>

function advance_while :: "(nat \<Rightarrow> bool) \<Rightarrow> nat \<Rightarrow> nat \<Rightarrow> nat" where
  "advance_while p i m = (if i < m \<and> p i then advance_while p (i + 1) m else i)"
  by pat_completeness auto
termination by (relation "measure (\<lambda>(p, i, m). m - i)") auto

declare advance_while.simps [simp del]

definition make_diff :: "bytes \<Rightarrow> bytes \<Rightarrow> bytes" where
  "make_diff old new =
     (let max_prefix = min (length old) (length new);
          prefix = advance_while (\<lambda>i. old ! i = new ! i) 0 max_prefix;
          max_suffix = max_prefix - prefix;
          suffix = advance_while (\<lambda>i. old ! (length old - 1 - i) = new ! (length new - 1 - i)) 0 max_suffix
      in le_bytes 4 (word_of_nat prefix :: u32) @ le_bytes 4 (word_of_nat suffix :: u32)
         @ take (length new - suffix - prefix) (drop prefix new))"

definition apply_diff :: "bytes \<Rightarrow> bytes \<Rightarrow> bytes option" where
  "apply_diff old diff =
     (if length diff < 8 then None
      else let prefix = unat (of_le (take 4 diff) :: u32);
               suffix = unat (of_le (take 4 (drop 4 diff)) :: u32)
           in if prefix + suffix > length old then None
              else let middle = drop 8 diff
                   in Some (take prefix old @ middle @ drop (length old - suffix) old))"

lemma advance_while_spec:
  assumes "i \<le> m"
  shows "i \<le> advance_while p i m" "advance_while p i m \<le> m"
    and "\<And>j. i \<le> j \<Longrightarrow> j < advance_while p i m \<Longrightarrow> p j"
    and "advance_while p i m < m \<Longrightarrow> \<not> p (advance_while p i m)"
  using assms
proof (induction p i m rule: advance_while.induct)
  case (1 p i m)
  {
    case 1
    then show ?case using "1.IH"(1) by (subst advance_while.simps) auto
  next
    case 2
    then show ?case using "1.IH"(2) by (subst advance_while.simps) auto
  next
    case (3 j)
    then show ?case using "1.IH"(3) [of j] by (subst (asm) advance_while.simps) (auto simp: not_less_eq_eq split: if_splits dest: le_neq_implies_less)
  next
    case 4
    then show ?case using "1.IH"(4) by (subst advance_while.simps, subst (asm) (3) advance_while.simps) (auto split: if_splits)
  }
qed

definition diff_prefix :: "bytes \<Rightarrow> bytes \<Rightarrow> nat" where
  "diff_prefix old new = advance_while (\<lambda>i. old ! i = new ! i) 0 (min (length old) (length new))"

definition diff_suffix :: "bytes \<Rightarrow> bytes \<Rightarrow> nat" where
  "diff_suffix old new =
     advance_while (\<lambda>i. old ! (length old - 1 - i) = new ! (length new - 1 - i)) 0
       (min (length old) (length new) - diff_prefix old new)"

lemma diff_parts:
  "diff_prefix old new + diff_suffix old new \<le> min (length old) (length new)"
  "take (diff_prefix old new) old = take (diff_prefix old new) new"
  "drop (length old - diff_suffix old new) old = drop (length new - diff_suffix old new) new"
proof -
  let ?m = "min (length old) (length new)" and ?p = "diff_prefix old new" and ?s = "diff_suffix old new"
  have p: "?p \<le> ?m" unfolding diff_prefix_def by (rule advance_while_spec(2)) simp
  have s: "?s \<le> ?m - ?p" unfolding diff_suffix_def by (rule advance_while_spec(2)) simp
  show "?p + ?s \<le> ?m" using p s by linarith
  have "old ! j = new ! j" if "j < ?p" for j
    using advance_while_spec(3) [of 0 ?m j "\<lambda>i. old ! i = new ! i"] that by (simp add: diff_prefix_def)
  then show "take ?p old = take ?p new"
    using p by (intro nth_equalityI) auto
  have suf: "old ! (length old - 1 - j) = new ! (length new - 1 - j)" if "j < ?s" for j
    using advance_while_spec(3) [of 0 "?m - ?p" j "\<lambda>i. old ! (length old - 1 - i) = new ! (length new - 1 - i)"] that
    by (simp add: diff_suffix_def)
  show "drop (length old - ?s) old = drop (length new - ?s) new"
  proof (rule nth_equalityI)
    show "length (drop (length old - ?s) old) = length (drop (length new - ?s) new)" using p s by simp
  next
    fix i assume "i < length (drop (length old - ?s) old)"
    then have i: "i < ?s" using s by simp
    have "length old - 1 - (?s - 1 - i) = length old - ?s + i" "length new - 1 - (?s - 1 - i) = length new - ?s + i"
      using i s p by auto
    then show "drop (length old - ?s) old ! i = drop (length new - ?s) new ! i"
      using suf [of "?s - 1 - i"] i s p by simp
  qed
qed

lemma make_diff_parts:
  "make_diff old new =
     le_bytes 4 (word_of_nat (diff_prefix old new) :: u32) @ le_bytes 4 (word_of_nat (diff_suffix old new) :: u32)
     @ take (length new - diff_suffix old new - diff_prefix old new) (drop (diff_prefix old new) new)"
  by (simp add: make_diff_def diff_prefix_def diff_suffix_def Let_def)

lemma length_make_diff: "length (make_diff old new) = 8 + length new - diff_prefix old new - diff_suffix old new"
  using diff_parts(1) [of old new] by (simp add: make_diff_parts)

lemma unat_of_nat_u32: "n < 2 ^ 32 \<Longrightarrow> unat (word_of_nat n :: u32) = n"
  by (simp add: unsigned_of_nat take_bit_nat_eq_self)

lemma take_middle_drop:
  assumes "p + s \<le> length xs"
  shows "take p xs @ take (length xs - s - p) (drop p xs) @ drop (length xs - s) xs = xs"
proof -
  have "take p xs @ take (length xs - s - p) (drop p xs) = take (length xs - s) xs"
    using assms take_add [of p "length xs - s - p" xs] by simp
  then show ?thesis by (metis append_assoc append_take_drop_id)
qed

lemma apply_make_diff:
  assumes "min (length old) (length new) < 2 ^ 32"
  shows "apply_diff old (make_diff old new) = Some new"
proof -
  let ?p = "diff_prefix old new" and ?s = "diff_suffix old new"
  note d = diff_parts [of old new]
  have u: "unat (word_of_nat ?p :: u32) = ?p" "unat (word_of_nat ?s :: u32) = ?s"
    using d(1) assms by (auto intro!: unat_of_nat_u32)
  have "take ?p new @ take (length new - ?s - ?p) (drop ?p new) @ drop (length new - ?s) new = new"
    by (rule take_middle_drop) (use d(1) in simp)
  then show ?thesis
    using d u by (auto simp: apply_diff_def make_diff_parts Let_def of_le_le_bytes)
qed

lemma apply_diff_length:
  "apply_diff old diff = Some out \<Longrightarrow> length out \<le> length old + length diff - 8"
  by (auto simp: apply_diff_def Let_def split: if_splits)

section \<open>Server frames\<close>

definition FLAG_SHUTDOWN :: u8 where "FLAG_SHUTDOWN = 1"

datatype FrameBody = Full bytes | Diff u64 bytes | Empty

record ServerFrame =
  sf_flags :: u8
  sf_caps :: "Cap list"
  frame_num :: u64
  input_ack :: u64
  echo_ack :: u64
  frame_body :: FrameBody

definition BODY_FULL :: u8 where "BODY_FULL = 0"
definition BODY_DIFF :: u8 where "BODY_DIFF = 1"
definition BODY_EMPTY :: u8 where "BODY_EMPTY = 2"

definition flags_with_extension :: "u8 \<Rightarrow> Cap list \<Rightarrow> u8" where
  "flags_with_extension flags table = (if table = [] then flags else flags OR FLAG_EXTENSION)"

definition decode_flags_and_caps :: "bytes \<Rightarrow> (u8 \<times> Cap list \<times> nat) result" where
  "decode_flags_and_caps data =
     (case data of
        [] \<Rightarrow> Inl ''message too short''
      | first # behind \<Rightarrow>
          if first AND FLAG_EXTENSION = 0 then Inr (first, [], 1)
          else (case decode_table behind of
                  Inl e \<Rightarrow> Inl e
                | Inr (table, used) \<Rightarrow> Inr (first AND NOT FLAG_EXTENSION, table, 1 + used)))"

definition encode_flags_and_caps :: "u8 \<Rightarrow> Cap list \<Rightarrow> bytes" where
  "encode_flags_and_caps flags caps =
     flags_with_extension flags caps # (if caps = [] then [] else encode_table caps)"

fun encode_body :: "FrameBody \<Rightarrow> bytes" where
  "encode_body (Full bs) = BODY_FULL # bs"
| "encode_body (Diff base diff) = BODY_DIFF # le_bytes 8 base @ diff"
| "encode_body Empty = [BODY_EMPTY]"

definition encode_frame :: "ServerFrame \<Rightarrow> bytes" where
  "encode_frame f =
     encode_flags_and_caps (sf_flags f) (sf_caps f)
     @ le_bytes 8 (frame_num f) @ le_bytes 8 (input_ack f) @ le_bytes 8 (echo_ack f)
     @ encode_body (frame_body f)"

definition slice :: "'a list \<Rightarrow> nat \<Rightarrow> nat \<Rightarrow> 'a list" where
  "slice xs a b = take (b - a) (drop a xs)"

definition decode_body :: "bytes \<Rightarrow> nat \<Rightarrow> FrameBody result" where
  "decode_body data at =
     (if data ! at = BODY_FULL then Inr (Full (drop (at + 1) data))
      else if data ! at = BODY_DIFF
      then (if length data < at + 9 then Inl ''diff frame too short''
            else Inr (Diff (of_le (slice data (at + 1) (at + 9))) (drop (at + 9) data)))
      else if data ! at = BODY_EMPTY then Inr Empty
      else Inl ''unknown frame body kind'')"

definition decode_frame :: "bytes \<Rightarrow> ServerFrame result" where
  "decode_frame data =
     (case decode_flags_and_caps data of
        Inl e \<Rightarrow> Inl e
      | Inr (flags, caps, at) \<Rightarrow>
          if length data < at + 25 then Inl ''server frame too short''
          else (case decode_body data (at + 24) of
                  Inl e \<Rightarrow> Inl e
                | Inr b \<Rightarrow>
                    Inr \<lparr>sf_flags = flags, sf_caps = caps,
                         frame_num = of_le (slice data at (at + 8)),
                         input_ack = of_le (slice data (at + 8) (at + 16)),
                         echo_ack = of_le (slice data (at + 16) (at + 24)), frame_body = b\<rparr>))"

section \<open>Client messages\<close>

definition CLIENT_FLAG_SHUTDOWN :: u8 where "CLIENT_FLAG_SHUTDOWN = 1"

record ClientMessage =
  cm_flags :: u8
  cm_caps :: "Cap list"
  acked_frame :: u64
  cm_rows :: u16
  cm_cols :: u16
  input_base :: u64
  cm_input :: bytes

definition encode_message :: "ClientMessage \<Rightarrow> bytes" where
  "encode_message m =
     encode_flags_and_caps (cm_flags m) (cm_caps m)
     @ le_bytes 8 (acked_frame m) @ le_bytes 2 (cm_rows m) @ le_bytes 2 (cm_cols m)
     @ le_bytes 8 (input_base m) @ cm_input m"

definition decode_message :: "bytes \<Rightarrow> ClientMessage result" where
  "decode_message data =
     (case decode_flags_and_caps data of
        Inl e \<Rightarrow> Inl e
      | Inr (flags, caps, at) \<Rightarrow>
          if length data < at + 20 then Inl ''client message too short''
          else Inr \<lparr>cm_flags = flags, cm_caps = caps,
                    acked_frame = of_le (slice data at (at + 8)),
                    cm_rows = of_le [data ! (at + 8), data ! (at + 9)],
                    cm_cols = of_le [data ! (at + 10), data ! (at + 11)],
                    input_base = of_le (slice data (at + 12) (at + 20)),
                    cm_input = drop (at + 20) data\<rparr>)"

section \<open>Both messages round-trip\<close>

definition wf_head :: "u8 \<Rightarrow> Cap list \<Rightarrow> bool" where
  "wf_head flags caps \<longleftrightarrow> flags AND FLAG_EXTENSION = 0 \<and> wf_table caps"

lemma decode_head:
  assumes "wf_head flags caps"
  shows "decode_flags_and_caps (encode_flags_and_caps flags caps @ rest)
       = Inr (flags, caps, length (encode_flags_and_caps flags caps))"
proof (cases "caps = []")
  case True
  then show ?thesis
    using assms by (simp add: wf_head_def decode_flags_and_caps_def encode_flags_and_caps_def flags_with_extension_def)
next
  case False
  have 1: "\<not> bit flags 1"
    using assms and_push_bit_one [of flags 1] by (auto simp: wf_head_def FLAG_EXTENSION_def)
  have 2: "(flags OR FLAG_EXTENSION) AND FLAG_EXTENSION \<noteq> 0"
    using and_push_bit_one [of "flags OR FLAG_EXTENSION" 1] by (simp add: FLAG_EXTENSION_def bit_simps)
  have 3: "(flags OR FLAG_EXTENSION) AND NOT FLAG_EXTENSION = flags"
  proof (rule bit_word_eqI)
    fix n
    have "bit (FLAG_EXTENSION :: u8) n \<longleftrightarrow> n = 1"
      using bit_push_bit_iff [of 1 "1 :: u8" n] by (auto simp: FLAG_EXTENSION_def bit_simps)
    then show "bit ((flags OR FLAG_EXTENSION) AND NOT FLAG_EXTENSION) n = bit flags n"
      using 1 by (auto simp: bit_simps dest: bit_imp_le_length)
  qed
  show ?thesis
    using False assms 2 3
    by (simp add: wf_head_def decode_flags_and_caps_def encode_flags_and_caps_def flags_with_extension_def
        decode_encode_table)
qed

interpretation head: prefix_codec
  "\<lambda>(flags, caps). encode_flags_and_caps flags caps"
  "\<lambda>data. map_sum id (\<lambda>(flags, caps, at). ((flags, caps), at)) (decode_flags_and_caps data)"
  "\<lambda>(flags, caps). wf_head flags caps"
  by unfold_locales (auto simp: decode_head)

lemma slice_append_right: "length xs = k \<Longrightarrow> slice (xs @ ys) (k + a) (k + b) = slice ys a b"
  by (simp add: slice_def)

lemma slice_start: "length xs = b \<Longrightarrow> slice (xs @ ys) 0 b = xs"
  by (simp add: slice_def)

lemma slice_skip: "length xs \<le> a \<Longrightarrow> slice (xs @ ys) a b = slice ys (a - length xs) (b - length xs)"
  by (simp add: slice_def)

lemma decode_encode_frame:
  assumes "wf_head (sf_flags f) (sf_caps f)"
  shows "decode_frame (encode_frame f) = Inr f"
proof -
  let ?h = "encode_flags_and_caps (sf_flags f) (sf_caps f)"
  let ?fix = "le_bytes 8 (frame_num f) @ le_bytes 8 (input_ack f) @ le_bytes 8 (echo_ack f)"
  have body: "decode_body (?h @ ?fix @ encode_body (frame_body f)) (length ?h + 24) = Inr (frame_body f)"
    by (cases "frame_body f")
       (simp_all add: decode_body_def nth_append BODY_FULL_def BODY_DIFF_def BODY_EMPTY_def slice_def of_le_le_bytes)
  have len: "1 \<le> length (encode_body (frame_body f))" by (cases "frame_body f") auto
  show ?thesis
    using body len decode_head [OF assms] Suc_le_lessD
    by (auto simp add: decode_frame_def encode_frame_def slice_def of_le_le_bytes)
qed

interpretation frame_codec: codec encode_frame decode_frame "\<lambda>f. wf_head (sf_flags f) (sf_caps f)"
  by unfold_locales (rule decode_encode_frame)

lemma le_bytes_two: "\<exists>x y. le_bytes 2 w = [x, y]"
  by (simp add: eval_nat_numeral)

lemma decode_encode_message:
  assumes "wf_head (cm_flags m) (cm_caps m)"
  shows "decode_message (encode_message m) = Inr m"
proof -
  obtain a b c d where two: "le_bytes 2 (cm_rows m) = [a, b]" "le_bytes 2 (cm_cols m) = [c, d]"
    using le_bytes_two by metis
  have "of_le [a, b] = cm_rows m" "of_le [c, d] = cm_cols m"
    using of_le_le_bytes [of 2 "cm_rows m"] of_le_le_bytes [of 2 "cm_cols m"] two by (simp_all del: of_le.simps)
  then show ?thesis
    using decode_head [OF assms]
    by (simp add: decode_message_def encode_message_def slice_def of_le_le_bytes two nth_append del: of_le.simps)
qed

interpretation message_codec: codec encode_message decode_message "\<lambda>m. wf_head (cm_flags m) (cm_caps m)"
  by unfold_locales (rule decode_encode_message)

end
