(* ===== verification/Input_Stream.thy ===== *)
theory Input_Stream
  imports Frames
begin

text \<open>
  \<open>crates/posh/src/remote/sync.rs\<close>, third part: the reliable input stream (client \<open>InputOutbox\<close>,
  server \<open>InputInbox\<close>) and the echo-ack tracker. Offsets are 64-bit words. The step relation
  \<open>link_step\<close> runs both ends over a network that may lose, repeat and reorder every message and
  acknowledgement; its invariant gives exactly-once, in-order delivery.
\<close>

section \<open>The client's outbox\<close>

record InputOutbox =
  ob_base :: u64
  ob_buf :: bytes

definition outbox_new :: InputOutbox where
  "outbox_new = \<lparr>ob_base = 0, ob_buf = []\<rparr>"

definition outbox_push :: "InputOutbox \<Rightarrow> bytes \<Rightarrow> InputOutbox" where
  "outbox_push ob bs = ob\<lparr>ob_buf := ob_buf ob @ bs\<rparr>"

definition outbox_ack :: "InputOutbox \<Rightarrow> u64 \<Rightarrow> InputOutbox" where
  "outbox_ack ob until =
     (if until > ob_base ob
      then let n = min (unat (until - ob_base ob)) (length (ob_buf ob))
           in ob\<lparr>ob_buf := drop n (ob_buf ob), ob_base := ob_base ob + word_of_nat n\<rparr>
      else ob)"

definition end_offset :: "InputOutbox \<Rightarrow> u64" where
  "end_offset ob = ob_base ob + word_of_nat (length (ob_buf ob))"

definition pending :: "InputOutbox \<Rightarrow> bytes" where
  "pending ob = ob_buf ob"

definition outbox_is_empty :: "InputOutbox \<Rightarrow> bool" where
  "outbox_is_empty ob = (ob_buf ob = [])"

section \<open>The server's inbox\<close>

record InputInbox =
  ib_next :: u64

definition inbox_new :: InputInbox where
  "inbox_new = \<lparr>ib_next = 0\<rparr>"

definition accept :: "InputInbox \<Rightarrow> u64 \<Rightarrow> bytes \<Rightarrow> InputInbox \<times> bytes option" where
  "accept ib base data =
     (if base > ib_next ib then (ib, None)
      else let skip = unat (ib_next ib - base)
           in if skip \<ge> length data then (ib, None)
              else (ib\<lparr>ib_next := base + word_of_nat (length data)\<rparr>, Some (drop skip data)))"

section \<open>Echo acknowledgements\<close>

definition ECHO_TIMEOUT :: u64 where "ECHO_TIMEOUT = 50"

definition saturating_sub :: "'a::len word \<Rightarrow> 'a word \<Rightarrow> 'a word" where
  "saturating_sub a b = (if b \<le> a then a - b else 0)"

record EchoAck =
  ea_pending :: "(u64 \<times> u64) list"
  ea_acked :: u64

definition echo_new :: EchoAck where
  "echo_new = \<lparr>ea_pending = [], ea_acked = 0\<rparr>"

definition echo_record :: "EchoAck \<Rightarrow> u64 \<Rightarrow> u64 \<Rightarrow> EchoAck" where
  "echo_record e offset now =
     (let newest = (if ea_pending e = [] then ea_acked e else fst (last (ea_pending e)))
      in if offset > newest then e\<lparr>ea_pending := ea_pending e @ [(offset, now)]\<rparr> else e)"

fun update_loop :: "u64 \<Rightarrow> (u64 \<times> u64) list \<Rightarrow> u64 \<Rightarrow> bool \<Rightarrow> (u64 \<times> u64) list \<times> u64 \<times> bool" where
  "update_loop now [] acked changed = ([], acked, changed)"
| "update_loop now ((offset, at) # rest) acked changed =
     (if saturating_sub now at < ECHO_TIMEOUT then ((offset, at) # rest, acked, changed)
      else update_loop now rest offset True)"

definition echo_update :: "EchoAck \<Rightarrow> u64 \<Rightarrow> EchoAck \<times> bool" where
  "echo_update e now =
     (let (p, a, c) = update_loop now (ea_pending e) (ea_acked e) False
      in (\<lparr>ea_pending = p, ea_acked = a\<rparr>, c))"

definition wait_time :: "EchoAck \<Rightarrow> u64 \<Rightarrow> u64 option" where
  "wait_time e now =
     (case ea_pending e of [] \<Rightarrow> None | (_, at) # _ \<Rightarrow> Some (saturating_sub (at + ECHO_TIMEOUT) now))"

section \<open>Both ends over an unreliable network\<close>

text \<open>
  \<open>lk_pushed\<close> is every byte the user typed and \<open>lk_applied\<close> every byte written to the
  application. \<open>lk_msgs\<close> and \<open>lk_acks\<close> hold whatever was ever sent: a message may be delivered any
  number of times, in any order, or never.
\<close>

record Link =
  lk_box :: InputOutbox
  lk_inbox :: InputInbox
  lk_pushed :: bytes
  lk_applied :: bytes
  lk_msgs :: "(u64 \<times> bytes) list"
  lk_acks :: "u64 list"

definition link_new :: Link where
  "link_new = \<lparr>lk_box = outbox_new, lk_inbox = inbox_new, lk_pushed = [], lk_applied = [],
               lk_msgs = [], lk_acks = []\<rparr>"

definition link_push :: "bytes \<Rightarrow> Link \<Rightarrow> Link" where
  "link_push bs s = s\<lparr>lk_box := outbox_push (lk_box s) bs, lk_pushed := lk_pushed s @ bs\<rparr>"

definition link_send :: "Link \<Rightarrow> Link" where
  "link_send s = s\<lparr>lk_msgs := (ob_base (lk_box s), pending (lk_box s)) # lk_msgs s\<rparr>"

definition link_deliver :: "u64 \<times> bytes \<Rightarrow> Link \<Rightarrow> Link" where
  "link_deliver m s =
     (let (ib, new) = accept (lk_inbox s) (fst m) (snd m)
      in s\<lparr>lk_inbox := ib, lk_applied := lk_applied s @ (case new of None \<Rightarrow> [] | Some bs \<Rightarrow> bs)\<rparr>)"

definition link_send_ack :: "Link \<Rightarrow> Link" where
  "link_send_ack s = s\<lparr>lk_acks := ib_next (lk_inbox s) # lk_acks s\<rparr>"

definition link_ack :: "u64 \<Rightarrow> Link \<Rightarrow> Link" where
  "link_ack a s = s\<lparr>lk_box := outbox_ack (lk_box s) a\<rparr>"

inductive link_step :: "Link \<Rightarrow> Link \<Rightarrow> bool" where
  push: "link_step s (link_push bs s)"
| send: "link_step s (link_send s)"
| deliver: "m \<in> set (lk_msgs s) \<Longrightarrow> link_step s (link_deliver m s)"
| send_ack: "link_step s (link_send_ack s)"
| deliver_ack: "a \<in> set (lk_acks s) \<Longrightarrow> link_step s (link_ack a s)"

inductive link_reach :: "Link \<Rightarrow> bool" where
  init: "link_reach link_new"
| step: "link_reach s \<Longrightarrow> link_step s s' \<Longrightarrow> link_reach s'"

inductive_cases link_stepE: "link_step s s'"

section \<open>Exactly-once, in-order delivery\<close>

text \<open>Fewer than 2^64 bytes typed, so no offset wraps.\<close>

definition no_wrap :: "bytes \<Rightarrow> bool" where
  "no_wrap bs \<longleftrightarrow> length bs < 2 ^ 64"

lemma unat_of_nat_u64: "n < 2 ^ 64 \<Longrightarrow> unat (word_of_nat n :: u64) = n"
  by (simp add: unsigned_of_nat take_bit_nat_eq_self)

lemma unat_plus_of_nat: "unat (b :: u64) + n < 2 ^ 64 \<Longrightarrow> unat (b + word_of_nat n) = unat b + n"
  by (simp add: unat_word_ariths unat_of_nat_u64)

lemma unat_minus_le: "b \<le> a \<Longrightarrow> unat (a - b :: u64) = unat a - unat b"
  by (rule unat_sub)

text \<open>A message carries the bytes of the stream from its offset on.\<close>

definition carries :: "bytes \<Rightarrow> u64 \<times> bytes \<Rightarrow> bool" where
  "carries stream m \<longleftrightarrow> unat (fst m) + length (snd m) \<le> length stream
     \<and> snd m = take (length (snd m)) (drop (unat (fst m)) stream)"

definition link_inv :: "Link \<Rightarrow> bool" where
  "link_inv s \<longleftrightarrow>
     unat (ob_base (lk_box s)) \<le> unat (ib_next (lk_inbox s))
     \<and> unat (ib_next (lk_inbox s)) \<le> length (lk_pushed s)
     \<and> ob_buf (lk_box s) = drop (unat (ob_base (lk_box s))) (lk_pushed s)
     \<and> lk_applied s = take (unat (ib_next (lk_inbox s))) (lk_pushed s)
     \<and> (\<forall>m \<in> set (lk_msgs s). carries (lk_pushed s) m \<and> unat (fst m) \<le> unat (ib_next (lk_inbox s)))
     \<and> (\<forall>a \<in> set (lk_acks s). unat a \<le> unat (ib_next (lk_inbox s)))"

lemma carries_append: "carries s m \<Longrightarrow> carries (s @ t) m"
  by (auto simp: carries_def)

lemma link_inv_push: "link_inv s \<Longrightarrow> link_inv (link_push bs s)"
  by (auto simp: link_inv_def link_push_def outbox_push_def carries_append)

lemma link_inv_send: "link_inv s \<Longrightarrow> link_inv (link_send s)"
  by (auto simp: link_inv_def link_send_def pending_def carries_def)

lemma link_inv_send_ack: "link_inv s \<Longrightarrow> link_inv (link_send_ack s)"
  by (auto simp: link_inv_def link_send_ack_def)

lemma accept_carries:
  assumes "carries stream (base, data)" "no_wrap stream" "unat base \<le> unat (ib_next ib)" "unat (ib_next ib) \<le> length stream"
    and "accept ib base data = (ib', new)"
  shows "unat (ib_next ib) \<le> unat (ib_next ib')" and "unat (ib_next ib') = max (unat (ib_next ib)) (unat base + length data)"
    and "take (unat (ib_next ib')) stream = take (unat (ib_next ib)) stream @ (case new of None \<Rightarrow> [] | Some bs \<Rightarrow> bs)"
proof -
  let ?n = "unat (ib_next ib)"
  have le: "base \<le> ib_next ib" using assms(3) by (simp add: word_le_nat_alt)
  have skip: "unat (ib_next ib - base) = ?n - unat base" using unat_minus_le [OF le] .
  have end_off: "unat (base + word_of_nat (length data)) = unat base + length data"
    using assms(1,2) by (intro unat_plus_of_nat) (auto simp: carries_def no_wrap_def)
  have data: "data = take (length data) (drop (unat base) stream)" using assms(1) by (simp add: carries_def)
  show "unat (ib_next ib') = max ?n (unat base + length data)"
    using assms(3,5) le skip end_off by (auto simp: accept_def Let_def max_def split: if_splits)
  then show "?n \<le> unat (ib_next ib')" by simp
  show "take (unat (ib_next ib')) stream = take ?n stream @ (case new of None \<Rightarrow> [] | Some bs \<Rightarrow> bs)"
  proof (cases "?n - unat base \<ge> length data")
    case True
    then show ?thesis using assms(5) le skip by (auto simp: accept_def Let_def split: if_splits)
  next
    case False
    then have eq: "ib' = ib\<lparr>ib_next := base + word_of_nat (length data)\<rparr>" "new = Some (drop (?n - unat base) data)"
      using assms(5) le skip by (auto simp: accept_def Let_def split: if_splits)
    have "drop (?n - unat base) data = take (unat base + length data - ?n) (drop ?n stream)"
      by (subst data) (use assms(3) False in \<open>simp add: drop_take add.commute\<close>)
    then show ?thesis
      using eq end_off False take_add [of ?n "unat base + length data - ?n" stream] by simp
  qed
qed

lemma link_inv_deliver:
  assumes "link_inv s" "no_wrap (lk_pushed s)" "m \<in> set (lk_msgs s)"
  shows "link_inv (link_deliver m s)"
proof -
  obtain ib new where acc: "accept (lk_inbox s) (fst m) (snd m) = (ib, new)" by (cases "accept (lk_inbox s) (fst m) (snd m)")
  have m: "carries (lk_pushed s) (fst m, snd m)" "unat (fst m) \<le> unat (ib_next (lk_inbox s))"
    using assms(1,3) by (auto simp: link_inv_def)
  have "unat (ib_next (lk_inbox s)) \<le> length (lk_pushed s)" using assms(1) by (simp add: link_inv_def)
  note ac = accept_carries [OF m(1) assms(2) m(2) this acc]
  have "unat (ib_next ib) \<le> length (lk_pushed s)"
    using ac(2) m assms(1) by (simp add: carries_def link_inv_def)
  then show ?thesis
    using ac(1,3) acc assms(1) by (fastforce simp: link_inv_def link_deliver_def intro: order_trans)
qed

lemma outbox_ack_exact:
  assumes "ob_base ob < a" "unat a \<le> unat (ob_base ob) + length (ob_buf ob)"
  shows "outbox_ack ob a = ob\<lparr>ob_buf := drop (unat a - unat (ob_base ob)) (ob_buf ob), ob_base := a\<rparr>"
proof -
  have "unat (a - ob_base ob) = unat a - unat (ob_base ob)" using assms(1) by (simp add: unat_minus_le)
  then have "min (unat (a - ob_base ob)) (length (ob_buf ob)) = unat (a - ob_base ob)" using assms(2) by simp
  moreover have "ob_base ob + word_of_nat (unat (a - ob_base ob)) = a" by simp
  ultimately show ?thesis using assms(1) unat_minus_le [of "ob_base ob" a]
    by (simp only: outbox_ack_def Let_def if_True less_imp_le)
qed

lemma link_inv_ack:
  assumes "link_inv s" "a \<in> set (lk_acks s)"
  shows "link_inv (link_ack a s)"
proof (cases "a > ob_base (lk_box s)")
  case True
  have a: "unat a \<le> unat (ib_next (lk_inbox s))" "unat (ib_next (lk_inbox s)) \<le> length (lk_pushed s)"
    "unat (ob_base (lk_box s)) \<le> unat a"
    using assms True by (auto simp: link_inv_def word_less_nat_alt)
  then have "outbox_ack (lk_box s) a
      = (lk_box s)\<lparr>ob_buf := drop (unat a - unat (ob_base (lk_box s))) (ob_buf (lk_box s)), ob_base := a\<rparr>"
    using True assms(1) by (intro outbox_ack_exact) (auto simp: link_inv_def)
  then show ?thesis using a assms(1) by (auto simp: link_inv_def link_ack_def)
next
  case False
  then show ?thesis using assms(1) by (simp add: link_ack_def outbox_ack_def)
qed

lemma link_step_pushed: "link_step s s' \<Longrightarrow> \<exists>bs. lk_pushed s' = lk_pushed s @ bs"
  by (elim link_stepE)
     (auto simp: link_push_def link_send_def link_deliver_def link_send_ack_def link_ack_def split: prod.splits)

lemma link_step_inv: "link_step s s' \<Longrightarrow> link_inv s \<Longrightarrow> no_wrap (lk_pushed s) \<Longrightarrow> link_inv s'"
  by (erule link_stepE)
     (simp_all only: link_inv_push link_inv_send link_inv_send_ack link_inv_deliver link_inv_ack)

lemma link_reach_inv: "link_reach s \<Longrightarrow> no_wrap (lk_pushed s) \<Longrightarrow> link_inv s"
proof (induction rule: link_reach.induct)
  case init
  then show ?case by (simp add: link_inv_def link_new_def outbox_new_def inbox_new_def)
next
  case (step s s')
  have "no_wrap (lk_pushed s)" using link_step_pushed [OF step.hyps(2)] step.prems by (auto simp: no_wrap_def)
  then show ?case using step link_step_inv by blast
qed

text \<open>One undisturbed exchange synchronises both ends.\<close>

definition link_round :: "Link \<Rightarrow> Link" where
  "link_round s =
     (let s1 = link_send s; s2 = link_deliver (hd (lk_msgs s1)) s1; s3 = link_send_ack s2
      in link_ack (hd (lk_acks s3)) s3)"

lemma link_round_reach:
  assumes "link_reach s"
  shows "link_reach (link_round s)"
proof -
  let ?s1 = "link_send s"
  let ?s2 = "link_deliver (hd (lk_msgs ?s1)) ?s1"
  let ?s3 = "link_send_ack ?s2"
  have 1: "link_reach ?s1" using link_reach.step [OF assms link_step.send] .
  have "hd (lk_msgs ?s1) \<in> set (lk_msgs ?s1)" by (simp add: link_send_def)
  then have 2: "link_reach ?s2" by (rule link_reach.step [OF 1 link_step.deliver])
  have 3: "link_reach ?s3" using link_reach.step [OF 2 link_step.send_ack] .
  have "hd (lk_acks ?s3) \<in> set (lk_acks ?s3)" by (simp add: link_send_ack_def)
  then have "link_reach (link_ack (hd (lk_acks ?s3)) ?s3)" by (rule link_reach.step [OF 3 link_step.deliver_ack])
  then show ?thesis by (simp only: link_round_def Let_def)
qed

lemma link_round_syncs:
  assumes "link_inv s" "no_wrap (lk_pushed s)"
  shows "lk_applied (link_round s) = lk_pushed s" and "outbox_is_empty (lk_box (link_round s))"
    and "lk_pushed (link_round s) = lk_pushed s"
proof -
  define s1 where "s1 = link_send s"
  let ?m = "(ob_base (lk_box s), ob_buf (lk_box s))"
  define s2 where "s2 = link_deliver ?m s1"
  define s3 where "s3 = link_send_ack s2"
  have m: "hd (lk_msgs s1) = ?m" "?m \<in> set (lk_msgs s1)" by (simp_all add: s1_def link_send_def pending_def)
  have p: "lk_pushed s1 = lk_pushed s" "lk_pushed s2 = lk_pushed s" "lk_pushed s3 = lk_pushed s"
    "lk_inbox s1 = lk_inbox s" "lk_box s1 = lk_box s" "lk_box s2 = lk_box s" "lk_box s3 = lk_box s"
    "lk_inbox s3 = lk_inbox s2" "lk_applied s3 = lk_applied s2"
    by (simp_all add: s1_def s2_def s3_def link_send_def link_deliver_def link_send_ack_def split: prod.splits)
  have i1: "link_inv s1" unfolding s1_def by (rule link_inv_send [OF assms(1)])
  have i2: "link_inv s2" unfolding s2_def by (rule link_inv_deliver [OF i1 _ m(2)]) (simp add: p assms)
  have i3: "link_inv s3" unfolding s3_def by (rule link_inv_send_ack [OF i2])
  have c: "carries (lk_pushed s) ?m" "unat (fst ?m) \<le> unat (ib_next (lk_inbox s))" 
    "unat (ib_next (lk_inbox s)) \<le> length (lk_pushed s)"
    using i1 m(2) p unfolding link_inv_def by auto
  obtain ib new where acc: "accept (lk_inbox s) (ob_base (lk_box s)) (ob_buf (lk_box s)) = (ib, new)" by fastforce
  have ib: "lk_inbox s2 = ib" by (simp add: s2_def link_deliver_def p acc)
  have "unat (ib_next ib) = length (lk_pushed s)"
    using accept_carries(2) [OF c(1) assms(2) _ c(3) acc] c assms(1) by (simp add: link_inv_def)
  then have next_off: "unat (ib_next (lk_inbox s3)) = length (lk_pushed s)" using ib p by simp
  then have applied: "lk_applied s3 = lk_pushed s" using i3 p by (simp add: link_inv_def)
  have round: "link_round s = link_ack (ib_next (lk_inbox s3)) s3"
    by (simp add: link_round_def Let_def s1_def [symmetric] m(1) s2_def [symmetric] s3_def [symmetric])
       (simp add: s3_def link_send_ack_def)
  have i4: "link_inv (link_round s)"
    unfolding round by (rule link_inv_ack [OF i3]) (simp add: s3_def link_send_ack_def)
  show "lk_applied (link_round s) = lk_pushed s" "lk_pushed (link_round s) = lk_pushed s"
    using applied p by (simp_all add: round link_ack_def)
  have "unat (ob_base (lk_box (link_round s))) = length (lk_pushed s)"
  proof -
    let ?b = "ob_base (lk_box s)" and ?a = "ib_next (lk_inbox s3)"
    have len: "length (ob_buf (lk_box s)) = length (lk_pushed s) - unat ?b" "unat ?b \<le> length (lk_pushed s)"
      using assms(1) by (auto simp: link_inv_def)
    show ?thesis
    proof (cases "?a > ?b")
      case True
      then have "outbox_ack (lk_box s) ?a
          = (lk_box s)\<lparr>ob_buf := drop (unat ?a - unat ?b) (ob_buf (lk_box s)), ob_base := ?a\<rparr>"
        by (rule outbox_ack_exact) (use next_off len in simp)
      then show ?thesis using next_off p by (simp add: round link_ack_def)
    next
      case False
      then have "link_round s = s3" by (simp add: round link_ack_def outbox_ack_def p)
      then show ?thesis using next_off len(2) False p by (simp add: not_less word_le_nat_alt)
    qed
  qed
  then show "outbox_is_empty (lk_box (link_round s))"
    using i4 p by (simp add: link_inv_def outbox_is_empty_def round link_ack_def)
qed

section \<open>The echo ack is the newest offset past its grace period\<close>

datatype echo_event = EchoRecord u64 u64 | EchoUpdate u64

fun event_time :: "echo_event \<Rightarrow> u64" where
  "event_time (EchoRecord offset t) = t"
| "event_time (EchoUpdate t) = t"

fun echo_exec :: "echo_event \<Rightarrow> EchoAck \<Rightarrow> EchoAck" where
  "echo_exec (EchoRecord offset t) e = echo_record e offset t"
| "echo_exec (EchoUpdate t) e = fst (echo_update e t)"

definition recorded :: "echo_event list \<Rightarrow> (u64 \<times> u64) set" where
  "recorded evs = {(offset, t). EchoRecord offset t \<in> set evs}"

definition mature :: "u64 \<Rightarrow> u64 \<Rightarrow> bool" where
  "mature now t \<longleftrightarrow> unat t + 50 \<le> unat now"

lemma mature_iff: "\<not> saturating_sub now t < ECHO_TIMEOUT \<longleftrightarrow> mature now t"
  by (auto simp: saturating_sub_def ECHO_TIMEOUT_def mature_def word_less_nat_alt word_le_nat_alt unat_minus_le)

lemma mature_mono: "mature now t \<Longrightarrow> t' \<le> t \<Longrightarrow> mature now t'"
  by (simp add: mature_def word_le_nat_alt)

lemma mature_later: "mature now t \<Longrightarrow> now \<le> now' \<Longrightarrow> mature now' t"
  by (simp add: mature_def word_le_nat_alt)

lemma update_loop_parts:
  assumes "update_loop now p a c = (p', a', c')"
  shows "\<exists>q. p = q @ p' \<and> (\<forall>x \<in> set q. mature now (snd x)) \<and> (p' \<noteq> [] \<longrightarrow> \<not> mature now (snd (hd p')))
           \<and> a' = last (a # map fst q) \<and> c' = (c \<or> q \<noteq> [])"
  using assms
proof (induction now p a c rule: update_loop.induct)
  case (1 now acked changed)
  then show ?case by simp
next
  case (2 now offset at rest acked changed)
  show ?case
  proof (cases "mature now at")
    case True
    then obtain q where q: "rest = q @ p'" "\<forall>x \<in> set q. mature now (snd x)"
      "p' \<noteq> [] \<longrightarrow> \<not> mature now (snd (hd p'))" "a' = last (offset # map fst q)" "c' = True"
      using 2 mature_iff [of now at] by auto
    then show ?thesis using True by (intro exI [of _ "(offset, at) # q"]) auto
  next
    case False
    then show ?thesis using 2 mature_iff [of now at] by (intro exI [of _ "[]"]) auto
  qed
qed

text \<open>A recorded offset is acked, or stands behind a pending one that is as old.\<close>

definition covered :: "u64 \<Rightarrow> (u64 \<times> u64) list \<Rightarrow> u64 \<times> u64 \<Rightarrow> bool" where
  "covered a p x \<longleftrightarrow> fst x \<le> a \<or> (\<exists>y \<in> set p. fst x \<le> fst y \<and> snd y \<le> snd x)"

lemma covered_snoc: "covered a p x \<Longrightarrow> covered a (p @ [y]) x"
  by (auto simp: covered_def)

lemma covered_self: "covered a (p @ [x]) x"
  by (auto simp: covered_def)

definition echo_inv :: "(u64 \<times> u64) set \<Rightarrow> u64 \<Rightarrow> EchoAck \<Rightarrow> bool" where
  "echo_inv recs now e \<longleftrightarrow>
     sorted_wrt (<) (ea_acked e # map fst (ea_pending e)) \<and> sorted (map snd (ea_pending e))
     \<and> set (ea_pending e) \<subseteq> recs \<and> (\<forall>x \<in> recs. snd x \<le> now)
     \<and> (\<forall>x \<in> recs. covered (ea_acked e) (ea_pending e) x)
     \<and> (ea_acked e = 0 \<or> (\<exists>x \<in> recs. fst x = ea_acked e \<and> mature now (snd x)))"

lemma sorted_wrt_last: "sorted_wrt (<) (x # xs) \<Longrightarrow> y \<in> set (x # xs) \<Longrightarrow> (y :: 'a::order) \<le> last (x # xs)"
  by (induction xs arbitrary: x y) fastforce+

lemma sorted_wrt_snoc: "sorted_wrt (<) xs \<Longrightarrow> (\<And>x. x \<in> set xs \<Longrightarrow> x < y) \<Longrightarrow> sorted_wrt (<) (xs @ [y])"
  by (simp add: sorted_wrt_append)

lemma echo_record_inv:
  assumes "echo_inv recs now e" "now \<le> t"
  shows "echo_inv (insert (offset, t) recs) t (echo_record e offset t)"
proof -
  let ?newest = "last (ea_acked e # map fst (ea_pending e))"
  have newest: "(if ea_pending e = [] then ea_acked e else fst (last (ea_pending e))) = ?newest"
    by (simp add: last_map)
  have old: "\<forall>x \<in> recs. snd x \<le> t" using assms by (auto simp: echo_inv_def intro: order_trans)
  have mat: "ea_acked e = 0 \<or> (\<exists>x \<in> recs. fst x = ea_acked e \<and> mature t (snd x))"
    using assms by (auto simp: echo_inv_def intro: mature_later)
  show ?thesis
  proof (cases "offset > ?newest")
    case True
    then have e: "echo_record e offset t = e\<lparr>ea_pending := ea_pending e @ [(offset, t)]\<rparr>"
      using newest by (simp add: echo_record_def)
    have "sorted_wrt (<) (ea_acked e # map fst (ea_pending e))" using assms(1) by (simp add: echo_inv_def)
    then have "sorted_wrt (<) ((ea_acked e # map fst (ea_pending e)) @ [offset])"
      by (rule sorted_wrt_snoc) (meson True le_less_trans sorted_wrt_last \<open>sorted_wrt (<) (ea_acked e # map fst (ea_pending e))\<close>)
    moreover have "sorted (map snd (ea_pending e) @ [t])"
      using assms old by (auto simp: echo_inv_def sorted_append)
    moreover have "covered (ea_acked e) (ea_pending e @ [(offset, t)]) x" if "x \<in> insert (offset, t) recs" for x
      using that assms(1) covered_snoc covered_self unfolding echo_inv_def by blast
    ultimately show ?thesis using assms(1) old mat by (auto simp: e echo_inv_def)
  next
    case False
    then have e: "echo_record e offset t = e" using newest by (simp add: echo_record_def)
    have "?newest \<in> set (ea_acked e # map fst (ea_pending e))" by (rule last_in_set) simp
    moreover have "\<And>y. y \<in> set (ea_pending e) \<Longrightarrow> snd y \<le> t" using old assms(1) by (auto simp: echo_inv_def)
    ultimately have "covered (ea_acked e) (ea_pending e) (offset, t)"
      using False unfolding covered_def by (fastforce simp: not_less)
    then show ?thesis using assms(1) old mat by (auto simp: e echo_inv_def)
  qed
qed

lemma echo_update_inv:
  assumes "echo_inv recs now e" "now \<le> t"
  shows "echo_inv recs t (fst (echo_update e t))"
    and "\<forall>x \<in> recs. mature t (snd x) \<longrightarrow> fst x \<le> ea_acked (fst (echo_update e t))"
proof -
  obtain p' a' c' where u: "update_loop t (ea_pending e) (ea_acked e) False = (p', a', c')"
    using prod_cases3 by blast
  then have e: "fst (echo_update e t) = \<lparr>ea_pending = p', ea_acked = a'\<rparr>" by (simp add: echo_update_def)
  obtain q where q: "ea_pending e = q @ p'" "\<forall>x \<in> set q. mature t (snd x)"
    "p' \<noteq> [] \<longrightarrow> \<not> mature t (snd (hd p'))" "a' = last (ea_acked e # map fst q)"
    using update_loop_parts [OF u] by auto
  have so: "sorted_wrt (<) (ea_acked e # map fst q @ map fst p')" "sorted (map snd q @ map snd p')"
    using assms(1) q(1) by (auto simp: echo_inv_def)
  have ge: "y \<le> a'" if "y \<in> set (ea_acked e # map fst q)" for y
    unfolding q(4) by (rule sorted_wrt_last) (use so(1) that in \<open>auto simp: sorted_wrt_append\<close>)
  have a': "a' \<in> set (ea_acked e # map fst q)" unfolding q(4) by (rule last_in_set) simp
  have "sorted_wrt (<) (a' # map fst p')" using so(1) a' by (auto simp: sorted_wrt_append)
  moreover have "a' = 0 \<or> (\<exists>x \<in> recs. fst x = a' \<and> mature t (snd x))"
    using a' assms q(1,2) by (auto simp: echo_inv_def intro: mature_later)
  moreover have "covered a' p' x" if "x \<in> recs" for x
  proof -
    have "covered (ea_acked e) (q @ p') x" using assms(1) that q(1) by (simp add: echo_inv_def)
    then consider "fst x \<le> ea_acked e" | y where "y \<in> set q" "fst x \<le> fst y" | "covered a' p' x"
      by (auto simp: covered_def)
    then show ?thesis
    proof cases
      case 1
      then show ?thesis using ge [of "ea_acked e"] order_trans [of "fst x" "ea_acked e" a'] by (simp add: covered_def)
    next
      case 2
      then show ?thesis using ge [of "fst y"] order_trans [of "fst x" "fst y" a'] by (simp add: covered_def)
    qed
  qed
  moreover have "\<forall>x \<in> recs. snd x \<le> t" using assms by (auto simp: echo_inv_def intro: order_trans)
  ultimately show inv: "echo_inv recs t (fst (echo_update e t))"
    using assms(1) so(2) q(1) by (auto simp: e echo_inv_def sorted_append)
  have young: "\<not> mature t (snd y)" if "y \<in> set p'" for y
  proof -
    have "snd (hd p') \<le> snd y" using that so(2) by (cases p') (auto simp: sorted_append)
    then show ?thesis using q(3) that mature_mono by fastforce
  qed
  show "\<forall>x \<in> recs. mature t (snd x) \<longrightarrow> fst x \<le> ea_acked (fst (echo_update e t))"
  proof (intro ballI impI)
    fix x assume x: "x \<in> recs" "mature t (snd x)"
    have "covered a' p' x" using inv x(1) by (simp add: echo_inv_def e)
    then show "fst x \<le> ea_acked (fst (echo_update e t))"
      using young mature_mono [OF x(2)] unfolding covered_def e by (metis EchoAck.select_convs(2))
  qed
qed

lemma echo_run_inv:
  assumes "sorted (map event_time evs)" "echo_inv (recorded pre) now e" "\<forall>ev \<in> set evs. now \<le> event_time ev"
  shows "echo_inv (recorded (pre @ evs)) (last (now # map event_time evs)) (fold echo_exec evs e)"
  using assms
proof (induction evs arbitrary: pre now e)
  case Nil
  then show ?case by simp
next
  case (Cons ev evs)
  have "echo_inv (recorded (pre @ [ev])) (event_time ev) (echo_exec ev e)"
  proof (cases ev)
    case (EchoRecord offset t)
    then have "recorded (pre @ [ev]) = insert (offset, t) (recorded pre)" by (auto simp: recorded_def)
    then show ?thesis using EchoRecord Cons.prems echo_record_inv by simp
  next
    case (EchoUpdate t)
    then have "recorded (pre @ [ev]) = recorded pre" by (auto simp: recorded_def)
    then show ?thesis using EchoUpdate Cons.prems echo_update_inv by simp
  qed
  then show ?case using Cons.IH [of "pre @ [ev]"] Cons.prems by simp
qed

lemma echo_inv_new: "echo_inv (recorded []) 0 echo_new"
  by (simp add: echo_inv_def recorded_def echo_new_def)

text \<open>After any run with a monotone clock that ends in an update.\<close>

lemma echo_ack_spec:
  assumes "sorted (map event_time (evs @ [EchoUpdate now]))"
  shows "ea_acked (fold echo_exec (evs @ [EchoUpdate now]) echo_new)
       = Max (insert 0 {offset. \<exists>t. (offset, t) \<in> recorded evs \<and> mature now t})"
proof -
  define e where "e = fold echo_exec evs echo_new"
  define u where "u = last (0 # map event_time evs)"
  have "echo_inv (recorded ([] @ evs)) u e"
    unfolding e_def u_def by (rule echo_run_inv) (use assms echo_inv_new in \<open>auto simp: sorted_append\<close>)
  then have inv: "echo_inv (recorded evs) u e" by simp
  have "u \<le> now" using assms by (auto simp: u_def sorted_append last_map)
  note up = echo_update_inv [OF inv this]
  have fin: "finite (recorded evs)"
    by (rule finite_subset [of _ "(\<lambda>ev. case ev of EchoRecord o1 t \<Rightarrow> (o1, t) | EchoUpdate t \<Rightarrow> (0, t)) ` set evs"])
       (force simp: recorded_def image_iff split: echo_event.splits, simp)
  have "finite {offset. \<exists>t. (offset, t) \<in> recorded evs \<and> mature now t}"
    by (rule finite_subset [of _ "fst ` recorded evs"]) (auto simp: fin intro: rev_image_eqI)
  then have "Max (insert 0 {offset. \<exists>t. (offset, t) \<in> recorded evs \<and> mature now t})
      = ea_acked (fst (echo_update e now))"
    using up by (intro Max_eqI) (auto simp: echo_inv_def)
  then show ?thesis by (simp add: e_def)
qed

text \<open>Waiting as long as \<open>wait_time\<close> says matures the oldest entry, and not a millisecond less.\<close>

lemma wait_time_exact:
  assumes "ea_pending e = (offset, at) # rest" "unat at + 50 < 2 ^ 64" "wait_time e now = Some w" "unat now + unat w < 2 ^ 64"
  shows "snd (echo_update e (now + w))" and "w' < w \<Longrightarrow> \<not> snd (echo_update e (now + w'))"
proof -
  have at: "unat (at + 50) = unat at + 50" using assms(2) unat_plus_of_nat [of at 50] by simp
  have w: "unat w = unat at + 50 - unat now"
    using assms(1,3) at
    by (auto simp: wait_time_def saturating_sub_def ECHO_TIMEOUT_def unat_minus_le word_le_nat_alt split: if_splits)
  have changed: "snd (echo_update e t) \<longleftrightarrow> mature t at" for t
  proof -
    obtain p' a' c' where u: "update_loop t (ea_pending e) (ea_acked e) False = (p', a', c')"
      using prod_cases3 by blast
    then obtain q where "ea_pending e = q @ p'" "\<forall>x \<in> set q. mature t (snd x)"
      "p' \<noteq> [] \<longrightarrow> \<not> mature t (snd (hd p'))" "c' = (q \<noteq> [])"
      using update_loop_parts [OF u] by auto
    then show ?thesis using assms(1) u by (cases q) (auto simp: echo_update_def)
  qed
  have plus: "unat (now + v) = unat now + unat v" if "unat v \<le> unat w" for v
    using that assms(4) by (simp add: unat_word_ariths)
  show "snd (echo_update e (now + w))" using w plus [of w] by (simp add: changed mature_def)
  show "\<not> snd (echo_update e (now + w'))" if "w' < w"
    using that w plus [of w'] by (simp add: changed mature_def word_less_nat_alt)
qed

end
