(* ===== verification/State_Sync.thy ===== *)
theory State_Sync
  imports Input_Stream
begin

text \<open>
  The screen-state synchronisation protocol: the per-session state and event handlers of
  \<open>crates/posh/src/remote/server.rs\<close> (\<open>server_loop\<close> and its helpers) and the frame handling of
  \<open>crates/posh/src/remote/client.rs\<close>. What a handler learns from outside (the clock, the terminal's
  generation and dump, the transport's timers, the reaped exit status) is an argument; what it does
  to the pty is a list of actions. \<open>sync_step\<close> runs both ends over a network that may lose, repeat
  and reorder everything ever sent.
\<close>

definition HEARTBEAT_INTERVAL :: u64 where "HEARTBEAT_INTERVAL = 3000"
definition SEND_INTERVAL_MIN :: u64 where "SEND_INTERVAL_MIN = 20"
definition SHUTDOWN_GRACE :: u64 where "SHUTDOWN_GRACE = 10000"
definition CLIENT_SHUTDOWN_GRACE :: u64 where "CLIENT_SHUTDOWN_GRACE = 5000"
definition PEER_TIMEOUT :: u64 where "PEER_TIMEOUT = 60000"

section \<open>The server\<close>

record FrameState =
  fs_num :: u64
  fs_data :: bytes

record Server =
  sv_inbox :: InputInbox
  sv_echo :: EchoAck
  sv_current :: FrameState
  sv_acked_num :: u64
  sv_acked_data :: "bytes option"
  sv_outstanding :: "FrameState list"
  sv_last_gen :: u64
  sv_last_send :: u64
  sv_last_heard :: u64
  sv_client_size :: "u16 \<times> u16"
  sv_pty_open :: bool
  sv_shutdown :: bool
  sv_shutdown_at :: u64
  sv_exit_status :: "int option"
  sv_peer_wants_exit :: bool
  sv_force_ack :: bool
  sv_force_frame :: bool

definition server_new :: "u64 \<Rightarrow> u64 \<Rightarrow> u16 \<Rightarrow> u16 \<Rightarrow> Server" where
  "server_new gen now rows cols =
     \<lparr>sv_inbox = inbox_new, sv_echo = echo_new, sv_current = \<lparr>fs_num = 0, fs_data = []\<rparr>,
      sv_acked_num = 0, sv_acked_data = Some [], sv_outstanding = [],
      sv_last_gen = gen, sv_last_send = 0, sv_last_heard = now, sv_client_size = (rows, cols),
      sv_pty_open = True, sv_shutdown = False, sv_shutdown_at = 0, sv_exit_status = None,
      sv_peer_wants_exit = False, sv_force_ack = False, sv_force_frame = False\<rparr>"

text \<open>What a handler does to the pty and the shell.\<close>

datatype pty_action = SetSize u16 u16 | WritePty bytes | Hangup

definition handle_client_message :: "ClientMessage \<Rightarrow> u64 \<Rightarrow> Server \<Rightarrow> Server \<times> pty_action list" where
  "handle_client_message msg now st =
     (let resized = (cm_rows msg > 0 \<and> cm_cols msg > 0 \<and> (cm_rows msg, cm_cols msg) \<noteq> sv_client_size st);
          st1 = (if resized then st\<lparr>sv_client_size := (cm_rows msg, cm_cols msg)\<rparr> else st);
          acts1 = (if resized then [SetSize (cm_rows msg) (cm_cols msg)] else []);
          (ib, accepted) = accept (sv_inbox st1) (input_base msg) (cm_input msg)
      in case accepted of
           None \<Rightarrow> (st1\<lparr>sv_inbox := ib\<rparr>, acts1)
         | Some new_input \<Rightarrow>
             (st1\<lparr>sv_inbox := ib, sv_echo := echo_record (sv_echo st1) (ib_next ib) now, sv_force_ack := True\<rparr>,
              acts1 @ (if sv_pty_open st1 then [WritePty new_input] else [])))"

definition update_acks :: "ClientMessage \<Rightarrow> Server \<Rightarrow> Server" where
  "update_acks msg st =
     (if acked_frame msg \<le> sv_acked_num st \<or> acked_frame msg > fs_num (sv_current st) then st
      else st\<lparr>sv_acked_num := acked_frame msg,
              sv_acked_data :=
                (if acked_frame msg = fs_num (sv_current st) then Some (fs_data (sv_current st))
                 else map_option fs_data (find (\<lambda>f. fs_num f = acked_frame msg) (sv_outstanding st))),
              sv_outstanding := filter (\<lambda>f. fs_num f \<ge> acked_frame msg) (sv_outstanding st)\<rparr>)"

text \<open>One decoded client message, in the order of \<open>server_loop\<close>.\<close>

definition request_from_client :: "ClientMessage \<Rightarrow> u64 \<Rightarrow> Server \<Rightarrow> Server \<times> pty_action list" where
  "request_from_client msg now st =
     (if cm_flags msg AND CLIENT_FLAG_SHUTDOWN \<noteq> 0 \<and> \<not> sv_shutdown st
      then (st\<lparr>sv_shutdown := True, sv_shutdown_at := now, sv_force_frame := True\<rparr>,
            if sv_pty_open st then [Hangup] else [])
      else (st, []))"

definition on_client_message :: "ClientMessage \<Rightarrow> u64 \<Rightarrow> Server \<Rightarrow> Server \<times> pty_action list" where
  "on_client_message msg now st =
     (let st1 = st\<lparr>sv_last_heard := now,
                    sv_peer_wants_exit := sv_peer_wants_exit st \<or> find_cap (cm_caps msg) CAP_EXIT_STATUS \<noteq> None\<rparr>;
          (st2, acts) = handle_client_message msg now st1;
          (st3, acts') = request_from_client msg now st2
      in (update_acks msg st3, acts @ acts'))"

text \<open>The pty reached end of file: \<open>reaped\<close> is what \<open>try_reap\<close> gives.\<close>

definition on_pty_closed :: "u64 \<Rightarrow> int option \<Rightarrow> Server \<Rightarrow> Server" where
  "on_pty_closed now reaped st =
     (let st1 = st\<lparr>sv_pty_open := False\<rparr>
      in if sv_shutdown st1 then st1
         else st1\<lparr>sv_shutdown := True, sv_shutdown_at := now, sv_force_frame := True, sv_exit_status := reaped\<rparr>)"

text \<open>What one pass of the loop reads from outside.\<close>

record Env =
  en_now :: u64
  en_gen :: u64
  en_dump :: bytes
  en_send_interval :: u64
  en_rto :: u64
  en_has_remote :: bool
  en_reaped :: "int option"

definition since :: "u64 \<Rightarrow> u64 \<Rightarrow> u64" where
  "since now t = saturating_sub now t"

definition peer_active :: "Env \<Rightarrow> Server \<Rightarrow> bool" where
  "peer_active e st \<longleftrightarrow> en_has_remote e \<and> since (en_now e) (sv_last_heard st) < PEER_TIMEOUT"

datatype send_kind = SendNothing | SendFresh | SendAgain | SendEmpty

definition send_choice :: "Env \<Rightarrow> Server \<Rightarrow> send_kind" where
  "send_choice e st =
     (let dirty = (en_gen e \<noteq> sv_last_gen st); idle = since (en_now e) (sv_last_send st)
      in if (dirty \<or> sv_force_frame st) \<and> idle \<ge> en_send_interval e then SendFresh
         else if sv_acked_num st < fs_num (sv_current st) \<and> idle \<ge> en_rto e then SendAgain
         else if idle \<ge> HEARTBEAT_INTERVAL then SendEmpty
         else if sv_force_ack st \<and> sv_acked_num st \<ge> fs_num (sv_current st) then SendEmpty
         else SendNothing)"

definition take_snapshot :: "Env \<Rightarrow> Server \<Rightarrow> Server" where
  "take_snapshot e st =
     (let out = sv_outstanding st @ [sv_current st]
      in st\<lparr>sv_last_gen := en_gen e, sv_force_frame := False,
            sv_outstanding := (if length out > 8 then tl out else out),
            sv_current := \<lparr>fs_num = fs_num (sv_current st) + 1, fs_data = en_dump e\<rparr>\<rparr>)"

definition choose_body :: "Server \<Rightarrow> FrameBody" where
  "choose_body st =
     (let data = fs_data (sv_current st)
      in case sv_acked_data st of
           None \<Rightarrow> Full data
         | Some base \<Rightarrow>
             let diff = make_diff base data
             in if length diff + 8 < length data then Diff (sv_acked_num st) diff else Full data)"

definition frame_caps :: "Server \<Rightarrow> Cap list" where
  "frame_caps st =
     (case sv_exit_status st of
        Some code \<Rightarrow>
          if sv_shutdown st \<and> sv_peer_wants_exit st
          then own_table [\<lparr>cap_id = CAP_EXIT_STATUS, cap_payload = [word_of_int (max 0 (min 255 code))]\<rparr>]
          else []
      | None \<Rightarrow> [])"

definition make_frame :: "Server \<Rightarrow> FrameBody \<Rightarrow> ServerFrame" where
  "make_frame st b =
     \<lparr>sf_flags = (if sv_shutdown st then FLAG_SHUTDOWN else 0), sf_caps = frame_caps st,
      frame_num = fs_num (sv_current st), input_ack = ib_next (sv_inbox st),
      echo_ack = ea_acked (sv_echo st), frame_body = b\<rparr>"

definition produce :: "Env \<Rightarrow> Server \<Rightarrow> Server \<times> ServerFrame option" where
  "produce e st0 =
     (let (echo, advanced) = echo_update (sv_echo st0) (en_now e);
          st1 = st0\<lparr>sv_echo := echo, sv_force_ack := sv_force_ack st0 \<or> advanced\<rparr>
      in if \<not> peer_active e st1 then (st1, None)
         else let kind = send_choice e st1;
                  st2 = (if kind = SendFresh then take_snapshot e st1 else st1)
              in if kind = SendNothing then (st2, None)
                 else let b = (if kind = SendEmpty then Empty else choose_body st2);
                          st3 = st2\<lparr>sv_force_ack := False,
                                    sv_exit_status := (if sv_shutdown st2 \<and> sv_exit_status st2 = None
                                                       then en_reaped e else sv_exit_status st2)\<rparr>
                      in (st3\<lparr>sv_last_send := en_now e\<rparr>, Some (make_frame st3 b)))"

text \<open>The shutdown handshake is over: the final state is confirmed. \<open>Server_Loop\<close> has every exit of the loop.\<close>

definition final_confirmed :: "u64 \<Rightarrow> Server \<Rightarrow> bool" where
  "final_confirmed gen st \<longleftrightarrow>
     \<not> sv_force_frame st \<and> \<not> sv_force_ack st \<and> gen = sv_last_gen st
     \<and> sv_acked_num st \<ge> fs_num (sv_current st) \<and> ea_acked (sv_echo st) \<ge> ib_next (sv_inbox st)"

text \<open>The poll timeout while the peer is active, in milliseconds.\<close>

definition poll_timeout :: "Env \<Rightarrow> Server \<Rightarrow> u64" where
  "poll_timeout e st =
     (let d0 = sv_last_send st + HEARTBEAT_INTERVAL;
          d1 = (if sv_acked_num st < fs_num (sv_current st) then min d0 (sv_last_send st + en_rto e) else d0);
          d2 = (if en_gen e \<noteq> sv_last_gen st \<or> sv_force_frame st
                then min d1 (sv_last_send st + en_send_interval e) else d1);
          d3 = (if sv_force_ack st then min d2 (sv_last_send st + SEND_INTERVAL_MIN) else d2);
          d4 = (if sv_shutdown st then min d3 (sv_shutdown_at st + SHUTDOWN_GRACE) else d3);
          d5 = (case wait_time (sv_echo st) (en_now e) of None \<Rightarrow> d4 | Some w \<Rightarrow> min d4 (en_now e + w))
      in min (since d5 (en_now e)) 1000)"

section \<open>The client\<close>

record Client =
  cl_outbox :: InputOutbox
  cl_rows :: u16
  cl_cols :: u16
  cl_flags :: u8
  cl_applied_num :: u64
  cl_applied_data :: bytes
  cl_last_send :: u64
  cl_shutdown_requested :: bool
  cl_shutdown_requested_at :: u64
  cl_shutdown_seen :: bool
  cl_exit_status :: int

definition client_new :: "u16 \<Rightarrow> u16 \<Rightarrow> Client" where
  "client_new rows cols =
     \<lparr>cl_outbox = outbox_new, cl_rows = rows, cl_cols = cols, cl_flags = 0, cl_applied_num = 0,
      cl_applied_data = [], cl_last_send = 0, cl_shutdown_requested = False, cl_shutdown_requested_at = 0,
      cl_shutdown_seen = False, cl_exit_status = 0\<rparr>"

text \<open>\<open>apply_frame\<close> without the terminal it rebuilds from the applied bytes; the flag asks for an ack.\<close>

definition apply_frame :: "ServerFrame \<Rightarrow> Client \<Rightarrow> Client \<times> bool" where
  "apply_frame f st =
     (if frame_num f < cl_applied_num st then (st, True)
      else let applied = (\<lambda>bs. if frame_num f = cl_applied_num st then (st, True)
                               else (st\<lparr>cl_applied_num := frame_num f, cl_applied_data := bs\<rparr>, True))
           in case frame_body f of
                Empty \<Rightarrow> (st, False)
              | Full bs \<Rightarrow> applied bs
              | Diff base diff \<Rightarrow>
                  if base \<noteq> cl_applied_num st then (st, True)
                  else (case apply_diff (cl_applied_data st) diff of
                          None \<Rightarrow> (st, True)
                        | Some bs \<Rightarrow> applied bs))"

definition process_frame :: "ServerFrame \<Rightarrow> Client \<Rightarrow> Client \<times> bool" where
  "process_frame f st0 =
     (let st1 = st0\<lparr>cl_outbox := outbox_ack (cl_outbox st0) (input_ack f)\<rparr>;
          st2 = (if sf_flags f AND FLAG_SHUTDOWN \<noteq> 0
                 then let st' = st1\<lparr>cl_shutdown_seen := True\<rparr>
                      in case find_cap (sf_caps f) CAP_EXIT_STATUS of
                           None \<Rightarrow> st'
                         | Some cap \<Rightarrow> (case cap_payload cap of
                               [] \<Rightarrow> st'
                             | code # _ \<Rightarrow> st'\<lparr>cl_exit_status := uint code\<rparr>)
                 else st1)
      in apply_frame f st2)"

definition client_message :: "Client \<Rightarrow> ClientMessage" where
  "client_message st =
     \<lparr>cm_flags = cl_flags st,
      cm_caps = own_table [\<lparr>cap_id = CAP_EXIT_STATUS, cap_payload = []\<rparr>],
      acked_frame = cl_applied_num st, cm_rows = cl_rows st, cm_cols = cl_cols st,
      input_base = ob_base (cl_outbox st), cm_input = pending (cl_outbox st)\<rparr>"

definition client_input :: "bytes \<Rightarrow> Client \<Rightarrow> Client" where
  "client_input bs st = st\<lparr>cl_outbox := outbox_push (cl_outbox st) bs\<rparr>"

definition client_resize :: "u16 \<Rightarrow> u16 \<Rightarrow> Client \<Rightarrow> Client" where
  "client_resize rows cols st = st\<lparr>cl_rows := rows, cl_cols := cols\<rparr>"

definition request_shutdown :: "u64 \<Rightarrow> Client \<Rightarrow> Client" where
  "request_shutdown now st =
     (if cl_shutdown_requested st then st
      else st\<lparr>cl_shutdown_requested := True, cl_shutdown_requested_at := now,
              cl_flags := cl_flags st OR CLIENT_FLAG_SHUTDOWN\<rparr>)"

text \<open>The end of a pass of \<open>drive_client\<close>: whether a message goes out, and whether the loop ends.\<close>

definition client_sends :: "bool \<Rightarrow> u64 \<Rightarrow> u64 \<Rightarrow> Client \<Rightarrow> bool" where
  "client_sends send_now now rto st \<longleftrightarrow>
     send_now
     \<or> ((\<not> outbox_is_empty (cl_outbox st) \<or> cl_flags st \<noteq> 0) \<and> since now (cl_last_send st) \<ge> rto)
     \<or> since now (cl_last_send st) \<ge> HEARTBEAT_INTERVAL"

definition client_exit :: "u64 \<Rightarrow> Client \<Rightarrow> int option" where
  "client_exit now st =
     (if cl_shutdown_seen st then Some (cl_exit_status st)
      else if cl_shutdown_requested st \<and> since now (cl_shutdown_requested_at st) \<ge> CLIENT_SHUTDOWN_GRACE then Some 0
      else None)"

section \<open>Both ends over an unreliable network\<close>

text \<open>
  \<open>sy_frames\<close> and \<open>sy_msgs\<close> hold everything ever sent; \<open>sy_hist\<close> lists the screen states the server
  numbered, \<open>sy_typed\<close> the bytes the user typed and \<open>sy_written\<close> those the server accepted.
\<close>

record Sys =
  sy_server :: Server
  sy_client :: Client
  sy_frames :: "ServerFrame list"
  sy_msgs :: "ClientMessage list"
  sy_hist :: "bytes list"
  sy_typed :: bytes
  sy_written :: bytes

definition sys_new :: "u64 \<Rightarrow> u64 \<Rightarrow> u16 \<Rightarrow> u16 \<Rightarrow> Sys" where
  "sys_new gen now rows cols =
     \<lparr>sy_server = server_new gen now rows cols, sy_client = client_new rows cols, sy_frames = [], sy_msgs = [],
      sy_hist = [[]], sy_typed = [], sy_written = []\<rparr>"

definition sys_produce :: "Env \<Rightarrow> Sys \<Rightarrow> Sys" where
  "sys_produce e s =
     (let (sv, out) = produce e (sy_server s)
      in s\<lparr>sy_server := sv,
           sy_frames := (case out of None \<Rightarrow> sy_frames s | Some f \<Rightarrow> f # sy_frames s),
           sy_hist := (if fs_num (sv_current sv) = fs_num (sv_current (sy_server s)) then sy_hist s
                       else sy_hist s @ [fs_data (sv_current sv)])\<rparr>)"

definition sys_receive_frame :: "ServerFrame \<Rightarrow> Sys \<Rightarrow> Sys" where
  "sys_receive_frame f s = s\<lparr>sy_client := fst (process_frame f (sy_client s))\<rparr>"

definition sys_send_message :: "u64 \<Rightarrow> Sys \<Rightarrow> Sys" where
  "sys_send_message now s =
     s\<lparr>sy_msgs := client_message (sy_client s) # sy_msgs s, sy_client := (sy_client s)\<lparr>cl_last_send := now\<rparr>\<rparr>"

definition sys_receive_message :: "ClientMessage \<Rightarrow> u64 \<Rightarrow> Sys \<Rightarrow> Sys" where
  "sys_receive_message m now s =
     s\<lparr>sy_server := fst (on_client_message m now (sy_server s)),
       sy_written := sy_written s @ (case snd (accept (sv_inbox (sy_server s)) (input_base m) (cm_input m)) of
                                       None \<Rightarrow> [] | Some bs \<Rightarrow> bs)\<rparr>"

definition sys_type :: "bytes \<Rightarrow> Sys \<Rightarrow> Sys" where
  "sys_type bs s = s\<lparr>sy_client := client_input bs (sy_client s), sy_typed := sy_typed s @ bs\<rparr>"

inductive sync_step :: "Sys \<Rightarrow> Sys \<Rightarrow> bool" where
  produce: "sync_step s (sys_produce e s)"
| frame: "f \<in> set (sy_frames s) \<Longrightarrow> sync_step s (sys_receive_frame f s)"
| send: "sync_step s (sys_send_message now s)"
| message: "m \<in> set (sy_msgs s) \<Longrightarrow> sync_step s (sys_receive_message m now s)"
| typed: "sync_step s (sys_type bs s)"
| resize: "sync_step s (s\<lparr>sy_client := client_resize r c (sy_client s)\<rparr>)"
| quit: "sync_step s (s\<lparr>sy_client := request_shutdown now (sy_client s)\<rparr>)"
| closed: "sync_step s (s\<lparr>sy_server := on_pty_closed now reaped (sy_server s)\<rparr>)"

inductive sync_reach :: "Sys \<Rightarrow> bool" where
  init: "sync_reach (sys_new gen now rows cols)"
| step: "sync_reach s \<Longrightarrow> sync_step s s' \<Longrightarrow> sync_reach s'"

inductive_cases sync_stepE: "sync_step s s'"

section \<open>The cases of a production\<close>

definition ticked :: "Env \<Rightarrow> Server \<Rightarrow> Server" where
  "ticked e st = st\<lparr>sv_echo := fst (echo_update (sv_echo st) (en_now e)),
                    sv_force_ack := sv_force_ack st \<or> snd (echo_update (sv_echo st) (en_now e))\<rparr>"

definition sending :: "Env \<Rightarrow> Server \<Rightarrow> Server" where
  "sending e st = st\<lparr>sv_force_ack := False,
     sv_exit_status := (if sv_shutdown st \<and> sv_exit_status st = None then en_reaped e else sv_exit_status st)\<rparr>"

lemma produce_cases:
  assumes "produce e st = (st', out)"
  obtains (quiet) "st' = ticked e st" "out = None" "\<not> peer_active e (ticked e st) \<or> send_choice e (ticked e st) = SendNothing"
  | (fresh) "send_choice e (ticked e st) = SendFresh" "st' = (sending e (take_snapshot e (ticked e st)))\<lparr>sv_last_send := en_now e\<rparr>"
      "out = Some (make_frame (sending e (take_snapshot e (ticked e st))) (choose_body (take_snapshot e (ticked e st))))"
  | (again) "send_choice e (ticked e st) = SendAgain" "st' = (sending e (ticked e st))\<lparr>sv_last_send := en_now e\<rparr>"
      "out = Some (make_frame (sending e (ticked e st)) (choose_body (ticked e st)))"
  | (empty) "send_choice e (ticked e st) = SendEmpty" "st' = (sending e (ticked e st))\<lparr>sv_last_send := en_now e\<rparr>"
      "out = Some (make_frame (sending e (ticked e st)) Empty)"
proof -
  obtain echo adv where ech: "echo_update (sv_echo st) (en_now e) = (echo, adv)" by fastforce
  have t: "st\<lparr>sv_echo := echo, sv_force_ack := sv_force_ack st \<or> adv\<rparr> = ticked e st"
    by (simp add: ticked_def ech)
  note p = assms [unfolded produce_def ech prod.case Let_def t]
  show ?thesis
  proof (cases "peer_active e (ticked e st)")
    case False
    then have "st' = ticked e st" "out = None" using p by simp_all
    then show ?thesis using False by (intro quiet) simp_all
  next
    case True
    show ?thesis
    proof (cases "send_choice e (ticked e st)")
      case SendNothing
      then have "st' = ticked e st" "out = None" using p True by simp_all
      then show ?thesis using SendNothing by (intro quiet) simp_all
    next
      case SendFresh
      then show ?thesis using p True fresh by (simp add: sending_def cong: if_cong)
    next
      case SendAgain
      then show ?thesis using p True again by (simp add: sending_def cong: if_cong)
    next
      case SendEmpty
      then show ?thesis using p True empty by (simp add: sending_def cong: if_cong)
    qed
  qed
qed

lemma ticked_simps [simp]:
  "sv_inbox (ticked e st) = sv_inbox st" "sv_current (ticked e st) = sv_current st"
  "sv_acked_num (ticked e st) = sv_acked_num st" "sv_acked_data (ticked e st) = sv_acked_data st"
  "sv_outstanding (ticked e st) = sv_outstanding st" "sv_last_gen (ticked e st) = sv_last_gen st"
  "sv_last_send (ticked e st) = sv_last_send st" "sv_last_heard (ticked e st) = sv_last_heard st"
  "sv_force_frame (ticked e st) = sv_force_frame st" "sv_shutdown (ticked e st) = sv_shutdown st"
  "sv_peer_wants_exit (ticked e st) = sv_peer_wants_exit st"
  "sv_echo (ticked e st) = fst (echo_update (sv_echo st) (en_now e))"
  by (simp_all add: ticked_def)

lemma sending_simps [simp]:
  "sv_inbox (sending e st) = sv_inbox st" "sv_current (sending e st) = sv_current st"
  "sv_acked_num (sending e st) = sv_acked_num st" "sv_acked_data (sending e st) = sv_acked_data st"
  "sv_outstanding (sending e st) = sv_outstanding st" "sv_shutdown (sending e st) = sv_shutdown st"
  "sv_peer_wants_exit (sending e st) = sv_peer_wants_exit st" "sv_echo (sending e st) = sv_echo st"
  "sv_force_ack (sending e st) = False"
  by (simp_all add: sending_def)

lemma snapshot_simps [simp]:
  "sv_inbox (take_snapshot e st) = sv_inbox st" "sv_echo (take_snapshot e st) = sv_echo st"
  "sv_shutdown (take_snapshot e st) = sv_shutdown st" "sv_peer_wants_exit (take_snapshot e st) = sv_peer_wants_exit st"
  "sv_acked_num (take_snapshot e st) = sv_acked_num st" "sv_acked_data (take_snapshot e st) = sv_acked_data st"
  "sv_current (take_snapshot e st) = \<lparr>fs_num = fs_num (sv_current st) + 1, fs_data = en_dump e\<rparr>"
  by (simp_all add: take_snapshot_def Let_def)

lemma make_frame_simps [simp]:
  "frame_num (make_frame st b) = fs_num (sv_current st)" "input_ack (make_frame st b) = ib_next (sv_inbox st)"
  "frame_body (make_frame st b) = b" "echo_ack (make_frame st b) = ea_acked (sv_echo st)"
  "sf_flags (make_frame st b) = (if sv_shutdown st then FLAG_SHUTDOWN else 0)" "sf_caps (make_frame st b) = frame_caps st"
  by (simp_all add: make_frame_def)

section \<open>The input stream of the whole system is the reliable link\<close>

definition link_of :: "Sys \<Rightarrow> Link" where
  "link_of s = \<lparr>lk_box = cl_outbox (sy_client s), lk_inbox = sv_inbox (sy_server s), lk_pushed = sy_typed s,
                lk_applied = sy_written s, lk_msgs = map (\<lambda>m. (input_base m, cm_input m)) (sy_msgs s),
                lk_acks = map input_ack (sy_frames s)\<rparr>"

lemma update_acks_inbox [simp]: "sv_inbox (update_acks m st) = sv_inbox st"
  by (simp add: update_acks_def)

lemma on_client_message_inbox:
  "sv_inbox (fst (on_client_message m now st)) = fst (accept (sv_inbox st) (input_base m) (cm_input m))"
  by (auto simp: on_client_message_def handle_client_message_def request_from_client_def Let_def
      split: prod.splits option.splits)

lemma produce_inbox: "produce e st = (st', out) \<Longrightarrow>
    sv_inbox st' = sv_inbox st \<and> (\<forall>f. out = Some f \<longrightarrow> input_ack f = ib_next (sv_inbox st))"
  by (erule produce_cases) simp_all

lemma apply_frame_outbox [simp]: "cl_outbox (fst (apply_frame f st)) = cl_outbox st"
  by (auto simp: apply_frame_def Let_def split: FrameBody.splits option.splits)

lemma process_frame_outbox: "cl_outbox (fst (process_frame f st)) = outbox_ack (cl_outbox st) (input_ack f)"
  by (auto simp: process_frame_def Let_def split: option.splits list.splits)

lemma sync_step_link: "sync_step s s' \<Longrightarrow> link_of s' = link_of s \<or> link_step (link_of s) (link_of s')"
proof (erule sync_stepE)
  fix e assume s': "s' = sys_produce e s"
  obtain st' out where p: "produce e (sy_server s) = (st', out)" by fastforce
  note q = produce_inbox [OF p]
  show ?thesis
  proof (cases out)
    case None
    then show ?thesis using s' p q by (simp add: sys_produce_def link_of_def)
  next
    case (Some f)
    then have "link_of s' = link_send_ack (link_of s)"
      using s' p q by (simp add: sys_produce_def link_of_def link_send_ack_def)
    then show ?thesis using link_step.send_ack by metis
  qed
next
  fix f assume s': "s' = sys_receive_frame f s" "f \<in> set (sy_frames s)"
  then have "link_of s' = link_ack (input_ack f) (link_of s)" "input_ack f \<in> set (lk_acks (link_of s))"
    by (simp_all add: sys_receive_frame_def link_of_def link_ack_def process_frame_outbox)
  then show ?thesis using link_step.deliver_ack by metis
next
  fix now assume s': "s' = sys_send_message now s"
  then have "link_of s' = link_send (link_of s)"
    by (simp add: sys_send_message_def link_of_def link_send_def client_message_def)
  then show ?thesis using link_step.send by metis
next
  fix m now assume s': "s' = sys_receive_message m now s" "m \<in> set (sy_msgs s)"
  then have "link_of s' = link_deliver (input_base m, cm_input m) (link_of s)"
    "(input_base m, cm_input m) \<in> set (lk_msgs (link_of s))"
    by (auto simp: sys_receive_message_def link_of_def link_deliver_def on_client_message_inbox split: prod.splits)
  then show ?thesis using link_step.deliver by metis
next
  fix bs assume s': "s' = sys_type bs s"
  then have "link_of s' = link_push bs (link_of s)"
    by (simp add: sys_type_def link_of_def link_push_def client_input_def)
  then show ?thesis using link_step.push by metis
qed (auto simp: link_of_def client_resize_def request_shutdown_def on_pty_closed_def Let_def)

lemma sync_reach_link: "sync_reach s \<Longrightarrow> link_reach (link_of s)"
proof (induction rule: sync_reach.induct)
  case (init gen now rows cols)
  have "link_of (sys_new gen now rows cols) = link_new"
    by (simp add: link_of_def sys_new_def link_new_def server_new_def client_new_def)
  then show ?case using link_reach.init by simp
next
  case (step s s')
  then show ?case using sync_step_link link_reach.step by metis
qed

section \<open>The client's screen is always a screen the server had\<close>

text \<open>No frame number wraps and every dump fits the diff's 32-bit counts.\<close>

definition hist_fits :: "bytes list \<Rightarrow> bool" where
  "hist_fits h \<longleftrightarrow> length h \<le> 2 ^ 64 \<and> (\<forall>d \<in> set h. length d < 2 ^ 32)"

definition frame_ok :: "bytes list \<Rightarrow> ServerFrame \<Rightarrow> bool" where
  "frame_ok h f \<longleftrightarrow> unat (frame_num f) < length h
     \<and> (case frame_body f of
          Full d \<Rightarrow> d = h ! unat (frame_num f)
        | Diff base diff \<Rightarrow> unat base < length h \<and> apply_diff (h ! unat base) diff = Some (h ! unat (frame_num f))
        | Empty \<Rightarrow> True)"

definition state_ok :: "bytes list \<Rightarrow> FrameState \<Rightarrow> bool" where
  "state_ok h f \<longleftrightarrow> unat (fs_num f) < length h \<and> fs_data f = h ! unat (fs_num f)"

definition server_ok :: "bytes list \<Rightarrow> Server \<Rightarrow> bool" where
  "server_ok h st \<longleftrightarrow> length h = unat (fs_num (sv_current st)) + 1 \<and> state_ok h (sv_current st)
     \<and> (\<forall>f \<in> set (sv_outstanding st). state_ok h f)
     \<and> (\<forall>d. sv_acked_data st = Some d \<longrightarrow> d = h ! unat (sv_acked_num st))
     \<and> unat (sv_acked_num st) < length h"

definition sync_inv :: "Sys \<Rightarrow> bool" where
  "sync_inv s \<longleftrightarrow> server_ok (sy_hist s) (sy_server s)
     \<and> sv_acked_num (sy_server s) \<le> cl_applied_num (sy_client s)
     \<and> unat (cl_applied_num (sy_client s)) < length (sy_hist s)
     \<and> cl_applied_data (sy_client s) = sy_hist s ! unat (cl_applied_num (sy_client s))
     \<and> (\<forall>f \<in> set (sy_frames s). frame_ok (sy_hist s) f)
     \<and> (\<forall>m \<in> set (sy_msgs s). acked_frame m \<le> cl_applied_num (sy_client s))"

lemma hist_fits_append: "hist_fits (h @ g) \<Longrightarrow> hist_fits h"
  by (auto simp: hist_fits_def)

lemma frame_ok_append: "frame_ok h f \<Longrightarrow> frame_ok (h @ g) f"
  by (auto simp: frame_ok_def nth_append split: FrameBody.splits)

lemma state_ok_append: "state_ok h f \<Longrightarrow> state_ok (h @ g) f"
  by (auto simp: state_ok_def nth_append)

lemma frame_num_Suc: "length h = unat (n :: u64) + 1 \<Longrightarrow> hist_fits (h @ [d]) \<Longrightarrow> unat (n + 1) = length h"
  using unat_plus_of_nat [of n 1] by (simp add: hist_fits_def)

lemma take_snapshot_ok:
  assumes "server_ok h st" "hist_fits (h @ [en_dump e])"
  shows "server_ok (h @ [en_dump e]) (take_snapshot e st)"
proof -
  let ?h = "h @ [en_dump e]"
  have n: "unat (fs_num (sv_current st) + 1) = length h"
    using assms by (intro frame_num_Suc) (auto simp: server_ok_def)
  have "set (sv_outstanding (take_snapshot e st)) \<subseteq> set (sv_outstanding st) \<union> {sv_current st}"
  proof -
    have "set (tl xs) \<subseteq> set xs" for xs :: "FrameState list" by (cases xs) auto
    from this [of "sv_outstanding st @ [sv_current st]"] show ?thesis by (auto simp: take_snapshot_def Let_def)
  qed
  then have "\<forall>f \<in> set (sv_outstanding (take_snapshot e st)). state_ok ?h f"
    using assms(1) state_ok_append unfolding server_ok_def by blast
  moreover have "sv_current (take_snapshot e st) = \<lparr>fs_num = fs_num (sv_current st) + 1, fs_data = en_dump e\<rparr>"
    "sv_acked_num (take_snapshot e st) = sv_acked_num st" "sv_acked_data (take_snapshot e st) = sv_acked_data st"
    by (simp_all add: take_snapshot_def Let_def)
  ultimately show ?thesis
    using assms(1) n by (auto simp: server_ok_def state_ok_def nth_append)
qed

lemma choose_body_ok:
  assumes "server_ok h st" "hist_fits h" "frame_num f = fs_num (sv_current st)"
    and "frame_body f = Empty \<or> frame_body f = choose_body st"
  shows "frame_ok h f"
proof -
  have cur: "unat (fs_num (sv_current st)) < length h" "h ! unat (fs_num (sv_current st)) = fs_data (sv_current st)"
    "unat (sv_acked_num st) < length h"
    using assms(1) by (auto simp: server_ok_def state_ok_def)
  have "apply_diff b (make_diff b (fs_data (sv_current st))) = Some (fs_data (sv_current st))"
    if "sv_acked_data st = Some b" for b
  proof (rule apply_make_diff)
    have "b \<in> set h" using that assms(1) cur by (auto simp: server_ok_def)
    then show "min (length b) (length (fs_data (sv_current st))) < 2 ^ 32" using assms(2) by (auto simp: hist_fits_def)
  qed
  then show ?thesis
    using assms cur by (auto simp: frame_ok_def choose_body_def Let_def server_ok_def split: option.splits)
qed

definition core :: "Server \<Rightarrow> FrameState \<times> u64 \<times> bytes option \<times> FrameState list" where
  "core st = (sv_current st, sv_acked_num st, sv_acked_data st, sv_outstanding st)"

lemma core_cong:
  assumes "core st = core st'"
  shows "server_ok h st = server_ok h st'" "choose_body st = choose_body st'"
    "sv_current st = sv_current st'" "sv_acked_num st = sv_acked_num st'"
  using assms by (auto simp: core_def server_ok_def choose_body_def Let_def split: option.splits)

lemma take_snapshot_core: "core st = core st' \<Longrightarrow> core (take_snapshot e st) = core (take_snapshot e st')"
  by (simp add: core_def) (simp add: take_snapshot_def Let_def)

lemma core_ticked [simp]: "core (ticked e st) = core st"
  by (simp add: core_def)

lemma core_sending [simp]: "core (sending e st) = core st"
  by (simp add: core_def)

lemma core_last_send [simp]: "core (st\<lparr>sv_last_send := t\<rparr>) = core st"
  by (simp add: core_def)

lemma produce_core:
  assumes "produce e st = (st', out)"
  shows "core st' = core st \<or> core st' = core (take_snapshot e st)"
    and "out = Some f \<Longrightarrow> frame_num f = fs_num (sv_current st') \<and> (frame_body f = Empty \<or> frame_body f = choose_body st')"
proof -
  have "core st' = core st \<or> core st' = core (take_snapshot e (ticked e st))"
    using assms by (rule produce_cases) simp_all
  then show "core st' = core st \<or> core st' = core (take_snapshot e st)"
    using take_snapshot_core [of "ticked e st" st e] by simp
  assume "out = Some f"
  with assms show "frame_num f = fs_num (sv_current st') \<and> (frame_body f = Empty \<or> frame_body f = choose_body st')"
  proof (cases rule: produce_cases)
    case fresh
    then have "choose_body st' = choose_body (take_snapshot e (ticked e st))" by (intro core_cong(2)) simp
    then show ?thesis using fresh \<open>out = Some f\<close> by auto
  next
    case again
    then have "choose_body st' = choose_body (ticked e st)" by (intro core_cong(2)) simp
    then show ?thesis using again \<open>out = Some f\<close> by auto
  next
    case empty
    then show ?thesis using \<open>out = Some f\<close> by auto
  qed simp
qed

lemma sync_inv_produce:
  assumes "sync_inv s" "hist_fits (sy_hist (sys_produce e s))"
  shows "sync_inv (sys_produce e s)"
proof -
  let ?st = "sy_server s" and ?s' = "sys_produce e s"
  obtain st' out where p: "produce e ?st = (st', out)" by fastforce
  have new: "sy_server ?s' = st'" "sy_client ?s' = sy_client s" "sy_msgs ?s' = sy_msgs s"
    by (simp_all add: sys_produce_def p)
  have sok: "server_ok (sy_hist s) ?st" using assms(1) by (simp only: sync_inv_def)
  have ok: "server_ok (sy_hist ?s') st' \<and> (\<exists>g. sy_hist ?s' = sy_hist s @ g)"
  proof (cases "core st' = core ?st")
    case True
    then have h: "sy_hist ?s' = sy_hist s" by (simp add: sys_produce_def p core_cong(3) [OF True])
    show ?thesis unfolding h using sok core_cong(1) [OF True] by simp
  next
    case False
    then have c: "core st' = core (take_snapshot e ?st)" using produce_core(1) [OF p] by blast
    then have h: "sy_hist ?s' = sy_hist s @ [en_dump e]"
      by (simp add: sys_produce_def p core_cong(3) [OF c])
    have "server_ok (sy_hist s @ [en_dump e]) (take_snapshot e ?st)"
      using take_snapshot_ok [OF sok] assms(2) h by simp
    then show ?thesis unfolding h using core_cong(1) [OF c] by blast
  qed
  then obtain g where g: "sy_hist ?s' = sy_hist s @ g" by blast
  have "frame_ok (sy_hist ?s') f" if "f \<in> set (sy_frames ?s')" for f
  proof (cases "f \<in> set (sy_frames s)")
    case True
    then have "frame_ok (sy_hist s) f" using assms(1) by (simp add: sync_inv_def)
    then show ?thesis unfolding g by (rule frame_ok_append)
  next
    case False
    then have "out = Some f" using that by (auto simp: sys_produce_def p split: option.splits)
    from produce_core(2) [OF p this] choose_body_ok ok assms(2) show ?thesis by blast
  qed
  moreover have "sv_acked_num st' = sv_acked_num ?st"
    using produce_core(1) [OF p] by (auto simp: core_def take_snapshot_def Let_def)
  moreover have "unat (cl_applied_num (sy_client s)) < length (sy_hist s)" using assms(1) by (simp only: sync_inv_def)
  ultimately show ?thesis using ok assms(1) unfolding sync_inv_def new g by (simp add: nth_append)
qed

lemma apply_frame_cases:
  assumes "frame_ok h f" "cl_applied_data st = h ! unat (cl_applied_num st)" "unat (cl_applied_num st) < length h"
  defines "st' \<equiv> fst (apply_frame f st)"
  shows "cl_applied_num st \<le> cl_applied_num st'" "cl_applied_data st' = h ! unat (cl_applied_num st')"
    "unat (cl_applied_num st') < length h"
  using assms(1-3) unfolding st'_def
  by (auto simp: apply_frame_def frame_ok_def Let_def split: FrameBody.splits option.splits)

lemma process_frame_apply:
  "\<exists>st. fst (process_frame f st0) = fst (apply_frame f st) \<and> cl_applied_num st = cl_applied_num st0
     \<and> cl_applied_data st = cl_applied_data st0"
  unfolding process_frame_def Let_def by (auto split: option.splits list.splits)

lemma sync_inv_frame:
  assumes "sync_inv s" "f \<in> set (sy_frames s)"
  shows "sync_inv (sys_receive_frame f s)"
proof -
  let ?h = "sy_hist s" and ?cl = "sy_client s"
  have fr: "frame_ok ?h f" and cl: "cl_applied_data ?cl = ?h ! unat (cl_applied_num ?cl)"
    "unat (cl_applied_num ?cl) < length ?h"
    using assms by (auto simp: sync_inv_def)
  obtain st where st: "fst (process_frame f ?cl) = fst (apply_frame f st)"
    "cl_applied_num st = cl_applied_num ?cl" "cl_applied_data st = cl_applied_data ?cl"
    using process_frame_apply by blast
  note ac = apply_frame_cases [OF fr, of st, unfolded st(2,3), OF cl, folded st(1)]
  have "sv_acked_num (sy_server s) \<le> cl_applied_num ?cl" "\<forall>m \<in> set (sy_msgs s). acked_frame m \<le> cl_applied_num ?cl"
    using assms(1) unfolding sync_inv_def by blast+
  with ac(1) have "sv_acked_num (sy_server s) \<le> cl_applied_num (fst (process_frame f ?cl))"
    "\<forall>m \<in> set (sy_msgs s). acked_frame m \<le> cl_applied_num (fst (process_frame f ?cl))"
    by (auto intro: order_trans)
  with ac(2,3) assms(1) show ?thesis by (simp add: sync_inv_def sys_receive_frame_def)
qed

lemma handle_core: "core (fst (handle_client_message m now st)) = core st"
  by (auto simp: handle_client_message_def core_def Let_def split: prod.splits option.splits)

lemma request_core: "core (fst (request_from_client m now st)) = core st"
  by (simp add: request_from_client_def core_def)

text \<open>On the synchronisation state a message acts through \<open>update_acks\<close> alone.\<close>

lemma on_client_message_core:
  "\<exists>st'. fst (on_client_message m now st) = update_acks m st' \<and> core st' = core st"
proof -
  let ?st1 = "st\<lparr>sv_last_heard := now,
      sv_peer_wants_exit := sv_peer_wants_exit st \<or> find_cap (cm_caps m) CAP_EXIT_STATUS \<noteq> None\<rparr>"
  let ?st2 = "fst (handle_client_message m now ?st1)"
  let ?st3 = "fst (request_from_client m now ?st2)"
  have "fst (on_client_message m now st) = update_acks m ?st3"
    by (simp only: on_client_message_def Let_def case_prod_beta fst_conv)
  moreover have "core ?st3 = core st" unfolding request_core handle_core by (simp add: core_def)
  ultimately show ?thesis by blast
qed

lemma update_acks_ok:
  assumes "server_ok h st"
  shows "server_ok h (update_acks m st)"
    and "sv_acked_num (update_acks m st) = sv_acked_num st \<or> sv_acked_num (update_acks m st) = acked_frame m"
    and "sv_current (update_acks m st) = sv_current st"
proof -
  let ?a = "acked_frame m"
  have found: "d = h ! unat ?a"
    if "map_option fs_data (find (\<lambda>f. fs_num f = ?a) (sv_outstanding st)) = Some d" for d
    using that assms by (auto simp: server_ok_def state_ok_def find_Some_iff)
  show "server_ok h (update_acks m st)"
  proof (cases "?a \<le> sv_acked_num st \<or> ?a > fs_num (sv_current st)")
    case True
    then show ?thesis using assms by (simp add: update_acks_def)
  next
    case False
    then have "unat ?a \<le> unat (fs_num (sv_current st))" by (simp add: word_le_nat_alt not_less)
    then show ?thesis using False assms found
      by (auto simp: update_acks_def server_ok_def state_ok_def)
  qed
qed (auto simp: update_acks_def)

lemma sync_inv_message:
  assumes "sync_inv s" "m \<in> set (sy_msgs s)"
  shows "sync_inv (sys_receive_message m now s)"
proof -
  obtain st' where st': "fst (on_client_message m now (sy_server s)) = update_acks m st'" "core st' = core (sy_server s)"
    using on_client_message_core by blast
  have ok: "server_ok (sy_hist s) st'" using assms(1) core_cong(1) [OF st'(2)] by (simp add: sync_inv_def)
  have "sv_acked_num (update_acks m st') \<le> cl_applied_num (sy_client s)"
    using update_acks_ok(2) [OF ok, of m] core_cong(4) [OF st'(2)] assms by (auto simp: sync_inv_def)
  then show ?thesis using assms(1) update_acks_ok(1) [OF ok, of m] st'(1)
    by (simp add: sync_inv_def sys_receive_message_def)
qed

lemma sync_inv_send: "sync_inv s \<Longrightarrow> sync_inv (sys_send_message now s)"
  by (simp add: sync_inv_def sys_send_message_def client_message_def)

lemma core_on_pty_closed: "core (on_pty_closed now reaped st) = core st"
  by (simp add: on_pty_closed_def core_def Let_def)

lemma sync_inv_closed: "sync_inv s \<Longrightarrow> sync_inv (s\<lparr>sy_server := on_pty_closed now reaped (sy_server s)\<rparr>)"
  using core_cong(1,4) [OF core_on_pty_closed] by (simp add: sync_inv_def)

lemma sync_step_hist: "sync_step s s' \<Longrightarrow> \<exists>g. sy_hist s' = sy_hist s @ g"
  by (erule sync_stepE)
     (auto simp: sys_produce_def sys_receive_frame_def sys_send_message_def sys_receive_message_def sys_type_def
        split: prod.splits)

lemma sync_step_inv:
  assumes "sync_step s s'" "sync_inv s" "hist_fits (sy_hist s')"
  shows "sync_inv s'"
  using assms(1)
proof (rule sync_stepE)
  fix e assume "s' = sys_produce e s"
  then show ?thesis using sync_inv_produce assms by simp
qed (use assms(2) sync_inv_frame sync_inv_send sync_inv_message sync_inv_closed in
     \<open>auto simp: sync_inv_def sys_type_def client_input_def client_resize_def request_shutdown_def\<close>)

lemma sync_inv_new: "sync_inv (sys_new gen now r c)"
  by (simp add: sync_inv_def sys_new_def server_ok_def state_ok_def server_new_def client_new_def)

lemma sync_reach_inv: "sync_reach s \<Longrightarrow> hist_fits (sy_hist s) \<Longrightarrow> sync_inv s"
proof (induction rule: sync_reach.induct)
  case (init gen now r c)
  then show ?case by (simp add: sync_inv_new)
next
  case (step s s')
  obtain g where "sy_hist s' = sy_hist s @ g" using sync_step_hist [OF step.hyps(2)] by blast
  then have "hist_fits (sy_hist s)" using step.prems hist_fits_append by metis
  then show ?case using step sync_step_inv by blast
qed

lemma sync_inv_bounds:
  assumes "sync_inv s"
  shows "sv_acked_num (sy_server s) \<le> cl_applied_num (sy_client s)"
    and "cl_applied_num (sy_client s) \<le> fs_num (sv_current (sy_server s))"
    and "cl_applied_num (sy_client s) = fs_num (sv_current (sy_server s)) \<Longrightarrow>
         cl_applied_data (sy_client s) = fs_data (sv_current (sy_server s))"
  using assms by (auto simp: sync_inv_def server_ok_def state_ok_def word_le_nat_alt)

text \<open>Leaving by the handshake: the client shows the final screen.\<close>

lemma final_confirmed_synced:
  assumes "sync_inv s" "final_confirmed gen (sy_server s)"
  shows "cl_applied_num (sy_client s) = fs_num (sv_current (sy_server s))"
    and "cl_applied_data (sy_client s) = fs_data (sv_current (sy_server s))"
proof -
  show num: "cl_applied_num (sy_client s) = fs_num (sv_current (sy_server s))"
    using sync_inv_bounds(1,2) [OF assms(1)] assms(2) by (auto simp: final_confirmed_def)
  show "cl_applied_data (sy_client s) = fs_data (sv_current (sy_server s))"
    using sync_inv_bounds(3) [OF assms(1) num] .
qed

section \<open>Two undisturbed exchanges bring the client up to date\<close>

definition exchange :: "Env \<Rightarrow> u64 \<Rightarrow> Sys \<Rightarrow> Sys" where
  "exchange e now s =
     (case snd (produce e (sy_server s)) of
        None \<Rightarrow> sys_produce e s
      | Some f \<Rightarrow>
          let s1 = sys_send_message now (sys_receive_frame f (sys_produce e s))
          in sys_receive_message (hd (sy_msgs s1)) now s1)"

text \<open>The peer is reachable, the screen is still and the retransmission timer has run out.\<close>

definition resends :: "Env \<Rightarrow> Server \<Rightarrow> bool" where
  "resends e st \<longleftrightarrow> peer_active e st \<and> en_gen e = sv_last_gen st \<and> \<not> sv_force_frame st
     \<and> since (en_now e) (sv_last_send st) \<ge> en_rto e"

definition synced :: "Sys \<Rightarrow> bool" where
  "synced s \<longleftrightarrow> sv_acked_num (sy_server s) = fs_num (sv_current (sy_server s))
     \<and> cl_applied_num (sy_client s) = fs_num (sv_current (sy_server s))
     \<and> cl_applied_data (sy_client s) = fs_data (sv_current (sy_server s))"

lemma resends_choice:
  assumes "resends e st"
  shows "peer_active e (ticked e st)" "send_choice e (ticked e st) \<noteq> SendFresh"
    "sv_acked_num st < fs_num (sv_current st) \<Longrightarrow> send_choice e (ticked e st) = SendAgain"
  using assms by (auto simp: resends_def peer_active_def send_choice_def Let_def)

lemma produce_still:
  assumes "resends e st" "produce e st = (st', out)"
  shows "core st' = core st"
  using assms(2) by (rule produce_cases) (simp_all add: resends_choice [OF assms(1)])

lemma produce_resend:
  assumes "resends e st" "sv_acked_num st < fs_num (sv_current st)" "produce e st = (st', out)"
  shows "\<exists>f. out = Some f \<and> frame_num f = fs_num (sv_current st) \<and> frame_body f = choose_body st"
proof -
  have "choose_body (ticked e st) = choose_body st" by (rule core_cong(2)) simp
  with assms(3) show ?thesis
    by (cases rule: produce_cases) (simp_all add: resends_choice [OF assms(1)] assms(2))
qed

lemma synced_core:
  "core st = core (sy_server s) \<Longrightarrow> synced (s\<lparr>sy_server := st\<rparr>) = synced s"
  by (simp add: synced_def core_def)

lemma server_at_current:
  assumes "sync_inv s" "sv_acked_num (sy_server s) = fs_num (sv_current (sy_server s))"
  shows "synced s"
  using sync_inv_bounds [OF assms(1)] assms(2) by (simp add: synced_def)

lemma update_acks_to:
  assumes "acked_frame m \<le> fs_num (sv_current st)" "sv_acked_num st \<le> acked_frame m"
  shows "sv_acked_num (update_acks m st) = acked_frame m"
  using assms by (auto simp: update_acks_def not_less)

lemma exchange_reach: "sync_reach s \<Longrightarrow> sync_reach (exchange e now s)"
proof -
  assume r: "sync_reach s"
  have 1: "sync_reach (sys_produce e s)" by (rule sync_reach.step [OF r sync_step.produce])
  show ?thesis
  proof (cases "snd (produce e (sy_server s))")
    case None
    then show ?thesis using 1 by (simp add: exchange_def)
  next
    case (Some f)
    then have "f \<in> set (sy_frames (sys_produce e s))" by (auto simp: sys_produce_def split: prod.splits)
    then have 2: "sync_reach (sys_receive_frame f (sys_produce e s))" by (rule sync_reach.step [OF 1 sync_step.frame])
    let ?s1 = "sys_send_message now (sys_receive_frame f (sys_produce e s))"
    have 3: "sync_reach ?s1" by (rule sync_reach.step [OF 2 sync_step.send])
    have "hd (sy_msgs ?s1) \<in> set (sy_msgs ?s1)" by (simp add: sys_send_message_def)
    then have "sync_reach (sys_receive_message (hd (sy_msgs ?s1)) now ?s1)"
      by (rule sync_reach.step [OF 3 sync_step.message])
    then show ?thesis using Some by (simp add: exchange_def Let_def)
  qed
qed

text \<open>After one exchange the server's ack is the client's state; the screens did not move.\<close>

lemma exchange_effect:
  assumes "sync_inv s" "resends e (sy_server s)" "snd (produce e (sy_server s)) = Some f"
    and "sync_inv (exchange e now s)"
  shows "sv_current (sy_server (exchange e now s)) = sv_current (sy_server s)"
    and "sy_hist (exchange e now s) = sy_hist s"
    and "cl_applied_num (sy_client (exchange e now s)) = cl_applied_num (fst (process_frame f (sy_client s)))"
    and "sv_acked_num (sy_server (exchange e now s)) = cl_applied_num (fst (process_frame f (sy_client s)))"
proof -
  obtain st' where p: "produce e (sy_server s) = (st', Some f)" using assms(3) by (metis prod.collapse)
  have c: "core st' = core (sy_server s)" by (rule produce_still [OF assms(2) p])
  let ?cl = "fst (process_frame f (sy_client s))"
  let ?m = "client_message ?cl"
  have s1: "sys_produce e s = s\<lparr>sy_server := st', sy_frames := f # sy_frames s\<rparr>"
    using core_cong(3) [OF c] by (simp add: sys_produce_def p)
  have x: "sy_server (exchange e now s) = fst (on_client_message ?m now st')"
    "cl_applied_num (sy_client (exchange e now s)) = cl_applied_num ?cl"
    "sy_hist (exchange e now s) = sy_hist s"
    by (simp_all add: exchange_def assms(3) s1 Let_def sys_receive_message_def sys_send_message_def sys_receive_frame_def)
  then show "sy_hist (exchange e now s) = sy_hist s"
    "cl_applied_num (sy_client (exchange e now s)) = cl_applied_num ?cl" by simp_all
  obtain st'' where st'': "fst (on_client_message ?m now st') = update_acks ?m st''" "core st'' = core st'"
    using on_client_message_core by blast
  have cur: "sv_current st'' = sv_current (sy_server s)" "sv_acked_num st'' = sv_acked_num (sy_server s)"
    using c st''(2) by (simp_all add: core_def)
  have a: "acked_frame ?m = cl_applied_num ?cl" by (simp add: client_message_def)
  show cur': "sv_current (sy_server (exchange e now s)) = sv_current (sy_server s)"
    using x(1) st''(1) cur by (simp add: update_acks_def)
  have "cl_applied_num ?cl \<le> fs_num (sv_current st'')"
    using sync_inv_bounds(2) [OF assms(4)] x(2) cur cur' by simp
  moreover have "sv_acked_num st'' \<le> cl_applied_num ?cl"
  proof -
    have "sv_acked_num (sy_server (exchange e now s)) \<le> cl_applied_num ?cl"
      using sync_inv_bounds(1) [OF assms(4)] x(2) by simp
    moreover have "sv_acked_num st'' \<le> sv_acked_num (update_acks ?m st'')" by (auto simp: update_acks_def)
    ultimately show ?thesis using x(1) st''(1) by simp
  qed
  ultimately show "sv_acked_num (sy_server (exchange e now s)) = cl_applied_num ?cl"
    using update_acks_to [of ?m st''] a x(1) st''(1) by simp
qed

lemma process_choose_body:
  assumes "sync_inv s" "hist_fits (sy_hist s)" "sv_acked_num (sy_server s) < fs_num (sv_current (sy_server s))"
    and "frame_num f = fs_num (sv_current (sy_server s))" "frame_body f = choose_body (sy_server s)"
    and "sv_acked_num (sy_server s) = cl_applied_num (sy_client s)"
  shows "cl_applied_num (fst (process_frame f (sy_client s))) = fs_num (sv_current (sy_server s))"
proof -
  let ?h = "sy_hist s" and ?sv = "sy_server s"
  have ok: "server_ok ?h ?sv" using assms(1) by (simp add: sync_inv_def)
  have fok: "frame_ok ?h f" by (rule choose_body_ok [OF ok assms(2,4)]) (simp add: assms(5))
  obtain st where st: "fst (process_frame f (sy_client s)) = fst (apply_frame f st)"
    "cl_applied_num st = cl_applied_num (sy_client s)" "cl_applied_data st = cl_applied_data (sy_client s)"
    using process_frame_apply by blast
  have data: "cl_applied_data st = ?h ! unat (sv_acked_num ?sv)"
    using assms(1,6) st(3) by (simp add: sync_inv_def)
  have num: "frame_num f > cl_applied_num st" using assms(3,4,6) st(2) by simp
  have "frame_body f \<noteq> Empty" "\<And>b d. frame_body f = Diff b d \<Longrightarrow> b = sv_acked_num ?sv"
    unfolding assms(5) by (auto simp: choose_body_def Let_def split: option.splits if_splits)
  then have "cl_applied_num (fst (apply_frame f st)) = frame_num f"
    using num fok data assms(6) st(2)
    by (auto simp: apply_frame_def frame_ok_def Let_def split: FrameBody.splits option.splits)
  then show ?thesis using st(1) assms(4) by simp
qed

lemma process_frame_mono: "cl_applied_num st \<le> cl_applied_num (fst (process_frame f st))"
proof -
  have "cl_applied_num st' \<le> cl_applied_num (fst (apply_frame f st'))" for st'
    by (auto simp: apply_frame_def Let_def split: FrameBody.splits option.splits)
  then show ?thesis using process_frame_apply [of f st] by metis
qed

lemma exchange_still:
  assumes "sync_reach s" "hist_fits (sy_hist s)" "resends e (sy_server s)"
  shows "sv_current (sy_server (exchange e now s)) = sv_current (sy_server s)"
    and "sy_hist (exchange e now s) = sy_hist s" and "sync_inv (exchange e now s)"
    and "sv_acked_num (sy_server (exchange e now s)) = cl_applied_num (sy_client (exchange e now s))"
    and "sv_acked_num (sy_server s) = cl_applied_num (sy_client s) \<Longrightarrow> synced (exchange e now s)"
proof -
  let ?x = "exchange e now s" and ?sv = "sy_server s"
  have inv: "sync_inv s" by (rule sync_reach_inv [OF assms(1,2)])
  obtain st' out where p: "produce e ?sv = (st', out)" by fastforce
  have c: "core st' = core ?sv" by (rule produce_still [OF assms(3) p])
  show hist: "sy_hist ?x = sy_hist s"
    using p core_cong(3) [OF c]
    by (auto simp: exchange_def Let_def sys_receive_message_def sys_send_message_def sys_receive_frame_def sys_produce_def
        split: option.splits)
  show xinv: "sync_inv ?x" by (rule sync_reach_inv [OF exchange_reach [OF assms(1)]]) (simp add: hist assms(2))
  have "sv_current (sy_server ?x) = sv_current ?sv \<and> sv_acked_num (sy_server ?x) = cl_applied_num (sy_client ?x)
      \<and> (sv_acked_num ?sv = cl_applied_num (sy_client s) \<longrightarrow> synced ?x)"
  proof (cases out)
    case None
    then have x: "?x = s\<lparr>sy_server := st'\<rparr>"
      using p core_cong(3) [OF c] by (simp add: exchange_def sys_produce_def)
    have "\<not> sv_acked_num ?sv < fs_num (sv_current ?sv)"
      using produce_resend [OF assms(3) _ p] None by auto
    then have "sv_acked_num ?sv = fs_num (sv_current ?sv)" using sync_inv_bounds(1,2) [OF inv] by auto
    then have "synced ?x" using server_at_current [OF xinv] core_cong(3,4) [OF c] by (simp add: x)
    then show ?thesis using core_cong(3) [OF c] by (simp add: x synced_def)
  next
    case (Some f)
    then have f: "snd (produce e ?sv) = Some f" using p by simp
    note ef = exchange_effect [OF inv assms(3) f xinv]
    have "synced ?x" if eq: "sv_acked_num ?sv = cl_applied_num (sy_client s)"
    proof (rule server_at_current [OF xinv])
      show "sv_acked_num (sy_server ?x) = fs_num (sv_current (sy_server ?x))"
      proof (cases "sv_acked_num ?sv < fs_num (sv_current ?sv)")
        case True
        then show ?thesis
          using produce_resend [OF assms(3) True p] Some process_choose_body [OF inv assms(2) True _ _ eq] ef by auto
      next
        case False
        then have "fs_num (sv_current ?sv) \<le> cl_applied_num (sy_client s)" using eq by simp
        then have "fs_num (sv_current ?sv) \<le> cl_applied_num (sy_client ?x)"
          using process_frame_mono [of "sy_client s" f] ef(3) by simp
        then show ?thesis using sync_inv_bounds(2) [OF xinv] ef by simp
      qed
    qed
    then show ?thesis using ef by simp
  qed
  then show "sv_current (sy_server ?x) = sv_current ?sv"
    "sv_acked_num (sy_server ?x) = cl_applied_num (sy_client ?x)"
    "sv_acked_num ?sv = cl_applied_num (sy_client s) \<Longrightarrow> synced ?x" by simp_all
qed

lemma two_exchanges_sync:
  assumes "sync_reach s" "hist_fits (sy_hist s)"
    and "resends e (sy_server s)" "resends e' (sy_server (exchange e now s))"
  shows "synced (exchange e' now' (exchange e now s))"
    and "sv_current (sy_server (exchange e' now' (exchange e now s))) = sv_current (sy_server s)"
proof -
  note one = exchange_still [OF assms(1-3), of now]
  have "hist_fits (sy_hist (exchange e now s))" using one(2) assms(2) by simp
  note two = exchange_still [OF exchange_reach [OF assms(1)] this assms(4), of now']
  show "synced (exchange e' now' (exchange e now s))" using two(5) one(4) .
  show "sv_current (sy_server (exchange e' now' (exchange e now s))) = sv_current (sy_server s)"
    using two(1) one(1) by simp
qed

section \<open>What a frame tells the client\<close>

text \<open>Exit-status capabilities reach only peers that asked, and only during shutdown.\<close>

lemma produce_frame_fields:
  assumes "produce e st = (st', Some f)"
  shows "sf_flags f = (if sv_shutdown st then FLAG_SHUTDOWN else 0)"
    and "input_ack f = ib_next (sv_inbox st)" "echo_ack f = ea_acked (fst (echo_update (sv_echo st) (en_now e)))"
    and "sf_caps f \<noteq> [] \<Longrightarrow> sv_shutdown st \<and> sv_peer_wants_exit st"
    and "wf_head (sf_flags f) (sf_caps f)" and "sv_last_send st' = en_now e" "\<not> sv_force_ack st'"
proof -
  have caps: "frame_caps st'' \<noteq> [] \<Longrightarrow> sv_shutdown st'' \<and> sv_peer_wants_exit st''" "wf_table (frame_caps st'')" for st''
    by (auto simp: frame_caps_def own_table_def wf_table_def split: option.splits if_splits)
  have flags: "(if b then FLAG_SHUTDOWN else 0) AND FLAG_EXTENSION = 0" for b
    by (simp add: FLAG_SHUTDOWN_def FLAG_EXTENSION_def)
  show "sf_flags f = (if sv_shutdown st then FLAG_SHUTDOWN else 0)" "input_ack f = ib_next (sv_inbox st)"
    "echo_ack f = ea_acked (fst (echo_update (sv_echo st) (en_now e)))"
    "sf_caps f \<noteq> [] \<Longrightarrow> sv_shutdown st \<and> sv_peer_wants_exit st"
    "wf_head (sf_flags f) (sf_caps f)" "sv_last_send st' = en_now e" "\<not> sv_force_ack st'"
    using assms caps(1) [of "sending e (take_snapshot e (ticked e st))"] caps(1) [of "sending e (ticked e st)"]
    by (cases rule: produce_cases; simp add: wf_head_def caps(2) flags)+
qed

text \<open>The loop wakes for nothing: an input ack owed while a frame is in flight makes the poll
  return at once, although no branch of the production sends before the retransmission timer.\<close>

definition spin_server :: Server where
  "spin_server = (server_new 0 0 24 80)\<lparr>sv_current := \<lparr>fs_num = 1, fs_data = [65]\<rparr>, sv_force_ack := True,
      sv_outstanding := [\<lparr>fs_num = 0, fs_data = []\<rparr>], sv_last_send := 1000, sv_last_heard := 1000\<rparr>"

definition spin_env :: Env where
  "spin_env = \<lparr>en_now = 1100, en_gen = 0, en_dump = [65], en_send_interval = 250, en_rto = 1000,
               en_has_remote = True, en_reaped = None\<rparr>"

lemma poll_spins: "poll_timeout spin_env spin_server = 0 \<and> produce spin_env spin_server = (spin_server, None)"
  by (simp add: spin_env_def spin_server_def server_new_def poll_timeout_def produce_def echo_update_def echo_new_def
      peer_active_def since_def saturating_sub_def PEER_TIMEOUT_def send_choice_def HEARTBEAT_INTERVAL_def
      SEND_INTERVAL_MIN_def wait_time_def Let_def min_def)

text \<open>A quick connection, for runs on concrete times and screens.\<close>

definition sample_env :: "u64 \<Rightarrow> u64 \<Rightarrow> bytes \<Rightarrow> Env" where
  "sample_env now gen dump = \<lparr>en_now = now, en_gen = gen, en_dump = dump, en_send_interval = 20, en_rto = 1000,
     en_has_remote = True, en_reaped = None\<rparr>"

end
