(* ===== verification/Server_Loop.thy ===== *)
theory Server_Loop
  imports State_Sync
begin

text \<open>
  One pass of the loop of \<open>server_loop\<close> in \<open>crates/posh/src/remote/server.rs\<close>, from the timeouts at its top
  over the events that \<open>poll\<close> reports, the pty before the client's datagrams, and the production of a frame
  to the exits of the shutdown handshake; every way out of the loop is a value of \<open>leave_reason\<close>. The handlers
  are those of \<open>State_Sync\<close>. What the pass learns from the system is the record \<open>Pass\<close>.
\<close>

datatype poll_outcome = PollReady bool bool | PollInterrupted | PollFailed

datatype pty_read = PtyEof | PtyData bytes | PtyRetry | PtyError

text \<open>
  \<open>pa_top\<close> is the clock and the connection at the top of the pass, \<open>pa_send\<close> after the events; \<open>pa_responses\<close>
  what the terminal answers to the pty's data; \<open>pa_msgs\<close> the client messages received, with their times.
\<close>

record Pass =
  pa_top :: Env
  pa_usr1 :: bool
  pa_poll :: poll_outcome
  pa_pty :: pty_read
  pa_responses :: bytes
  pa_closed_at :: u64
  pa_msgs :: "(u64 \<times> ClientMessage) list"
  pa_send :: Env
  pa_end :: u64

text \<open>The two idle timeouts in milliseconds; 0 is never.\<close>

record Timeouts =
  network_tmout :: u64
  signal_tmout :: u64

section \<open>The loop\<close>

datatype leave_reason = NetworkTimeout | SignalTimeout | NoClient | PollFailure | FinalConfirmed | GraceOver

definition silent_for :: "u64 \<Rightarrow> u64 \<Rightarrow> Server \<Rightarrow> bool" where
  "silent_for tmout now st \<longleftrightarrow> tmout > 0 \<and> since now (sv_last_heard st) \<ge> tmout"

text \<open>The exits at the top: without a reachable client a closed shell leaves at once.\<close>

definition top_exit :: "Timeouts \<Rightarrow> Pass \<Rightarrow> Server \<Rightarrow> leave_reason option" where
  "top_exit tm p st =
     (let now = en_now (pa_top p)
      in if silent_for (network_tmout tm) now st then Some NetworkTimeout
         else if pa_usr1 p \<and> silent_for (signal_tmout tm) now st then Some SignalTimeout
         else if peer_active (pa_top p) st then None
         else if sv_shutdown st then Some NoClient
         else None)"

text \<open>The timeout handed to \<open>poll\<close>; \<open>-1\<close> waits for an event.\<close>

definition loop_timeout :: "Timeouts \<Rightarrow> Env \<Rightarrow> Server \<Rightarrow> int" where
  "loop_timeout tm e st =
     (if peer_active e st then uint (poll_timeout e st)
      else if network_tmout tm > 0 then uint (min (saturating_sub (sv_last_heard st + network_tmout tm) (en_now e)) 1000)
      else -1)"

definition on_pty_ready :: "Pass \<Rightarrow> Server \<Rightarrow> Server \<times> pty_action list" where
  "on_pty_ready p st =
     (case pa_pty p of
        PtyData bs \<Rightarrow> (st, if pa_responses p = [] then [] else [WritePty (pa_responses p)])
      | PtyRetry \<Rightarrow> (st, [])
      | PtyEof \<Rightarrow> (on_pty_closed (pa_closed_at p) (en_reaped (pa_top p)) st, [])
      | PtyError \<Rightarrow> (on_pty_closed (pa_closed_at p) (en_reaped (pa_top p)) st, []))"

fun receive_messages :: "(u64 \<times> ClientMessage) list \<Rightarrow> Server \<Rightarrow> Server \<times> pty_action list" where
  "receive_messages [] st = (st, [])"
| "receive_messages ((now, m) # ms) st =
     (let (st1, acts) = on_client_message m now st; (st2, acts') = receive_messages ms st1 in (st2, acts @ acts'))"

definition final_exit :: "u64 \<Rightarrow> u64 \<Rightarrow> Server \<Rightarrow> leave_reason option" where
  "final_exit now gen st =
     (if \<not> sv_shutdown st then None
      else if final_confirmed gen st then Some FinalConfirmed
      else if since now (sv_shutdown_at st) \<ge> SHUTDOWN_GRACE then Some GraceOver
      else None)"

text \<open>The pty is polled only while it is open.\<close>

definition pty_event :: "Pass \<Rightarrow> bool \<Rightarrow> Server \<Rightarrow> Server \<times> pty_action list" where
  "pty_event p ready st = (if sv_pty_open st \<and> ready then on_pty_ready p st else (st, []))"

definition datagram_event :: "Pass \<Rightarrow> bool \<Rightarrow> Server \<Rightarrow> Server \<times> pty_action list" where
  "datagram_event p ready st = (if ready then receive_messages (pa_msgs p) st else (st, []))"

definition server_pass ::
  "Timeouts \<Rightarrow> Pass \<Rightarrow> Server \<Rightarrow> (Server \<times> pty_action list \<times> ServerFrame option) \<times> leave_reason option" where
  "server_pass tm p st =
     (case top_exit tm p st of
        Some r \<Rightarrow> ((st, [], None), Some r)
      | None \<Rightarrow>
          (case pa_poll p of
             PollInterrupted \<Rightarrow> ((st, [], None), None)
           | PollFailed \<Rightarrow> ((st, [], None), Some PollFailure)
           | PollReady socket pty \<Rightarrow>
               let (st1, acts) = pty_event p pty st;
                   (st2, acts') = datagram_event p socket st1;
                   (st3, out) = produce (pa_send p) st2
               in ((st3, acts @ acts', out), final_exit (pa_end p) (en_gen (pa_send p)) st3)))"

text \<open>Behind the loop, a shell whose pty is still open is hung up.\<close>

definition leave_actions :: "Server \<Rightarrow> pty_action list" where
  "leave_actions st = (if sv_pty_open st then [Hangup] else [])"

section \<open>A pass of the server beside a client\<close>

text \<open>The same pass in the system of \<open>State_Sync\<close>, whose steps it is made of.\<close>

definition sys_messages :: "(u64 \<times> ClientMessage) list \<Rightarrow> Sys \<Rightarrow> Sys" where
  "sys_messages ms s = fold (\<lambda>(now, m). sys_receive_message m now) ms s"

definition sys_pass :: "Timeouts \<Rightarrow> Pass \<Rightarrow> Sys \<Rightarrow> Sys" where
  "sys_pass tm p s =
     (if top_exit tm p (sy_server s) \<noteq> None then s
      else case pa_poll p of
             PollReady socket pty \<Rightarrow>
               sys_produce (pa_send p)
                 ((if socket then sys_messages (pa_msgs p) else id) (s\<lparr>sy_server := fst (pty_event p pty (sy_server s))\<rparr>))
           | _ \<Rightarrow> s)"

lemma sys_messages_server: "sy_server (sys_messages ms s) = fst (receive_messages ms (sy_server s))"
  by (induction ms arbitrary: s) (auto simp: sys_messages_def sys_receive_message_def split_def Let_def)

lemma sys_pass_server: "sy_server (sys_pass tm p s) = fst (fst (server_pass tm p (sy_server s)))"
  by (auto simp: sys_pass_def server_pass_def datagram_event_def sys_messages_server sys_produce_def split_def Let_def
      split: option.split poll_outcome.split)

lemma sys_pass_client: "sy_client (sys_pass tm p s) = sy_client s"
proof -
  have "sy_client (sys_messages ms u) = sy_client u" for ms u
    by (induction ms arbitrary: u) (auto simp: sys_messages_def sys_receive_message_def)
  then show ?thesis by (auto simp: sys_pass_def sys_produce_def split_def Let_def split: poll_outcome.split)
qed

text \<open>The messages a pass receives are messages of the client.\<close>

definition from_client :: "Pass \<Rightarrow> Sys \<Rightarrow> bool" where
  "from_client p s \<longleftrightarrow> snd ` set (pa_msgs p) \<subseteq> set (sy_msgs s)"

lemma sys_messages_reach:
  "sync_reach s \<Longrightarrow> snd ` set ms \<subseteq> set (sy_msgs s) \<Longrightarrow> sync_reach (sys_messages ms s)"
proof (induction ms arbitrary: s)
  case (Cons x ms)
  obtain now m where x: "x = (now, m)" by (cases x)
  have "sync_reach (sys_receive_message m now s)"
    using Cons.prems x by (intro sync_reach.step [OF _ sync_step.message]) auto
  then show ?case using Cons x by (auto simp: sys_messages_def sys_receive_message_def)
qed (simp add: sys_messages_def)

lemma pty_event_reach: "sync_reach s \<Longrightarrow> sync_reach (s\<lparr>sy_server := fst (pty_event p ready (sy_server s))\<rparr>)"
proof -
  assume s: "sync_reach s"
  have same: "s\<lparr>sy_server := sy_server s\<rparr> = s" by simp
  have closed: "sync_reach (s\<lparr>sy_server := on_pty_closed now reaped (sy_server s)\<rparr>)" for now reaped
    by (rule sync_reach.step [OF s sync_step.closed])
  show ?thesis using s same closed by (auto simp: pty_event_def on_pty_ready_def split: pty_read.split)
qed

lemma sys_pass_reach:
  assumes "sync_reach s" "from_client p s"
  shows "sync_reach (sys_pass tm p s)"
proof (cases "top_exit tm p (sy_server s) \<noteq> None \<or> (\<forall>socket pty. pa_poll p \<noteq> PollReady socket pty)")
  case True
  then show ?thesis using assms(1) by (auto simp: sys_pass_def split: poll_outcome.split)
next
  case False
  then obtain socket pty where e: "top_exit tm p (sy_server s) = None" "pa_poll p = PollReady socket pty" by blast
  let ?s = "s\<lparr>sy_server := fst (pty_event p pty (sy_server s))\<rparr>"
  have 1: "sync_reach ?s" by (rule pty_event_reach [OF assms(1)])
  have "sync_reach (sys_messages (pa_msgs p) ?s)"
    using 1 assms(2) by (intro sys_messages_reach) (simp_all add: from_client_def)
  then have "sync_reach ((if socket then sys_messages (pa_msgs p) else id) ?s)" using 1 by simp
  then have "sync_reach (sys_produce (pa_send p) ((if socket then sys_messages (pa_msgs p) else id) ?s))"
    by (rule sync_reach.step [OF _ sync_step.produce])
  then show ?thesis using e by (simp add: sys_pass_def)
qed

text \<open>A run of the program: whole passes of the server, and the events of the client between them.\<close>

inductive loop_step :: "Timeouts \<Rightarrow> Sys \<Rightarrow> Sys \<Rightarrow> bool" for tm where
  pass: "from_client p s \<Longrightarrow> snd (server_pass tm p (sy_server s)) = None \<Longrightarrow> loop_step tm s (sys_pass tm p s)"
| frame: "f \<in> set (sy_frames s) \<Longrightarrow> loop_step tm s (sys_receive_frame f s)"
| send: "loop_step tm s (sys_send_message now s)"
| typed: "loop_step tm s (sys_type bs s)"
| resize: "loop_step tm s (s\<lparr>sy_client := client_resize r c (sy_client s)\<rparr>)"
| quit: "loop_step tm s (s\<lparr>sy_client := request_shutdown now (sy_client s)\<rparr>)"

inductive loop_reach :: "Timeouts \<Rightarrow> Sys \<Rightarrow> bool" for tm where
  init: "loop_reach tm (sys_new gen now rows cols)"
| step: "loop_reach tm s \<Longrightarrow> loop_step tm s s' \<Longrightarrow> loop_reach tm s'"

inductive_cases loop_stepE: "loop_step tm s s'"

lemma loop_reach_sync: "loop_reach tm s \<Longrightarrow> sync_reach s"
proof (induction rule: loop_reach.induct)
  case (init gen now rows cols)
  then show ?case by (rule sync_reach.init)
next
  case (step s s')
  then show ?case by (elim loop_stepE) (auto intro: sys_pass_reach sync_reach.step [OF _ sync_step.frame]
      sync_reach.step [OF _ sync_step.send] sync_reach.step [OF _ sync_step.typed] sync_reach.step [OF _ sync_step.resize]
      sync_reach.step [OF _ sync_step.quit])
qed

section \<open>Leaving\<close>

text \<open>Why a pass left.\<close>

definition leave_because :: "Timeouts \<Rightarrow> Pass \<Rightarrow> Sys \<Rightarrow> Sys \<Rightarrow> leave_reason \<Rightarrow> bool" where
  "leave_because tm p s s' r =
     (case r of
        NetworkTimeout \<Rightarrow> silent_for (network_tmout tm) (en_now (pa_top p)) (sy_server s)
      | SignalTimeout \<Rightarrow> pa_usr1 p \<and> silent_for (signal_tmout tm) (en_now (pa_top p)) (sy_server s)
      | NoClient \<Rightarrow> sv_shutdown (sy_server s) \<and> \<not> peer_active (pa_top p) (sy_server s)
      | PollFailure \<Rightarrow> pa_poll p = PollFailed
      | GraceOver \<Rightarrow> sv_shutdown (sy_server s') \<and> since (pa_end p) (sv_shutdown_at (sy_server s')) \<ge> SHUTDOWN_GRACE
      | FinalConfirmed \<Rightarrow> sv_shutdown (sy_server s') \<and> en_gen (pa_send p) = sv_last_gen (sy_server s')
          \<and> cl_applied_num (sy_client s') = fs_num (sv_current (sy_server s'))
          \<and> cl_applied_data (sy_client s') = fs_data (sv_current (sy_server s')))"

lemma pass_leaves:
  assumes "sync_reach s" "from_client p s" "hist_fits (sy_hist (sys_pass tm p s))"
    and "snd (server_pass tm p (sy_server s)) = Some r"
  shows "leave_because tm p s (sys_pass tm p s) r"
proof (cases "top_exit tm p (sy_server s)")
  case (Some q)
  then show ?thesis using assms(4)
    by (auto simp: server_pass_def leave_because_def top_exit_def Let_def split: if_splits)
next
  case None
  show ?thesis
  proof (cases "pa_poll p")
    case (PollReady socket pty)
    let ?s = "sys_pass tm p s"
    have f: "final_exit (pa_end p) (en_gen (pa_send p)) (sy_server ?s) = Some r"
      using assms(4) None PollReady unfolding sys_pass_server
      by (simp add: server_pass_def split_def Let_def)
    have inv: "sync_inv ?s" by (rule sync_reach_inv [OF sys_pass_reach [OF assms(1,2)] assms(3)])
    show ?thesis using f final_confirmed_synced [OF inv, of "en_gen (pa_send p)"]
      by (auto simp: leave_because_def final_exit_def final_confirmed_def split: if_splits)
  qed (use assms(4) None in \<open>auto simp: server_pass_def leave_because_def\<close>)
qed

section \<open>The shutdown flag before the final screen\<close>

text \<open>
  Between the end of the shell and the frame of the final screen, which waits for the send interval, an
  acknowledgement may be due: the echo acknowledgement of the last key advances, or input arrives. It goes out
  at once as an empty frame, with the shutdown flag.
\<close>

definition final_frame_waits :: "Env \<Rightarrow> Server \<Rightarrow> bool" where
  "final_frame_waits e st \<longleftrightarrow>
     sv_shutdown st \<and> sv_force_frame st \<and> peer_active e st \<and> sv_acked_num st \<ge> fs_num (sv_current st)
     \<and> since (en_now e) (sv_last_send st) < en_send_interval e"

definition ack_due :: "Env \<Rightarrow> Server \<Rightarrow> bool" where
  "ack_due e st \<longleftrightarrow> sv_force_ack st \<or> snd (echo_update (sv_echo st) (en_now e))"

lemma early_frame:
  assumes "final_frame_waits e st" "ack_due e st"
  shows "\<exists>st' f. produce e st = (st', Some f) \<and> frame_body f = Empty \<and> sf_flags f = FLAG_SHUTDOWN
    \<and> sv_force_frame st' \<and> fs_num (sv_current st') = fs_num (sv_current st)"
proof -
  have c: "send_choice e (ticked e st) = SendEmpty"
    using assms by (auto simp: final_frame_waits_def ack_due_def send_choice_def Let_def ticked_def)
  obtain st' out where p: "produce e st = (st', out)" by fastforce
  have a: "peer_active e (ticked e st)" using assms(1) by (simp add: final_frame_waits_def peer_active_def)
  show ?thesis using p assms(1) by (cases rule: produce_cases [OF p]) (auto simp: c a final_frame_waits_def sending_def)
qed

lemma flagged_frame_ends:
  assumes "frame_body f = Empty" "sf_flags f = FLAG_SHUTDOWN"
  shows "client_exit now (fst (process_frame f cl)) \<noteq> None
    \<and> cl_applied_num (fst (process_frame f cl)) = cl_applied_num cl \<and> cl_applied_data (fst (process_frame f cl)) = cl_applied_data cl"
  using assms by (auto simp: process_frame_def apply_frame_def client_exit_def FLAG_SHUTDOWN_def Let_def split: option.split list.split)

text \<open>
  A run of whole passes in which it happens, over a slow connection (a send interval of 250 ms): the user types
  Ctrl-D, the pass that reads it acknowledges it at once; the shell prints a last byte and closes its pty within
  the send interval; 50 ms after the key its echo acknowledgement advances, and the flagged frame goes out.
\<close>

definition slow_env :: "u64 \<Rightarrow> u64 \<Rightarrow> bytes \<Rightarrow> Env" where
  "slow_env now gen dump = (sample_env now gen dump)\<lparr>en_send_interval := 250\<rparr>"

definition slow_pass :: "u64 \<Rightarrow> u64 \<Rightarrow> bytes \<Rightarrow> bool \<Rightarrow> pty_read option \<Rightarrow> ClientMessage list \<Rightarrow> Pass" where
  "slow_pass now gen dump socket pty ms =
     \<lparr>pa_top = slow_env now gen dump, pa_usr1 = False, pa_poll = PollReady socket (pty \<noteq> None),
      pa_pty = (case pty of None \<Rightarrow> PtyRetry | Some r \<Rightarrow> r), pa_responses = [], pa_closed_at = now,
      pa_msgs = map (Pair now) ms, pa_send = slow_env now gen dump, pa_end = now\<rparr>"

definition never :: Timeouts where
  "never = \<lparr>network_tmout = 0, signal_tmout = 0\<rparr>"

definition prompt_shown :: Sys where
  "prompt_shown =
     (let s = sys_pass never (slow_pass 1000 1 [36] False (Some (PtyData [36])) []) (sys_new 0 990 24 80);
          s = sys_send_message 1050 (sys_receive_frame (hd (sy_frames s)) s)
      in sys_pass never (slow_pass 1100 1 [36] True None [hd (sy_msgs s)]) s)"

definition key_read :: Sys where
  "key_read =
     (let s = sys_send_message 1200 (sys_type [4] prompt_shown)
      in sys_pass never (slow_pass 1300 1 [36] True None [hd (sy_msgs s)]) s)"

definition shell_gone :: Sys where
  "shell_gone = sys_pass never (slow_pass 1330 2 [36, 32] False (Some PtyEof) [])
     (sys_pass never (slow_pass 1320 2 [36, 32] False (Some (PtyData [32])) []) key_read)"

abbreviation echo_pass :: Pass where
  "echo_pass \<equiv> slow_pass 1350 2 [36, 32] False None []"

lemma slow_pass_step:
  assumes "loop_reach never s" "set ms \<subseteq> set (sy_msgs s)" "snd (server_pass never (slow_pass now gen dump socket pty ms) (sy_server s)) = None"
  shows "loop_reach never (sys_pass never (slow_pass now gen dump socket pty ms) s)"
proof (rule loop_reach.step [OF assms(1) loop_step.pass [OF _ assms(3)]])
  show "from_client (slow_pass now gen dump socket pty ms) s" using assms(2) by (auto simp: from_client_def slow_pass_def)
qed

lemma prompt_shown_reach: "loop_reach never prompt_shown"
proof -
  let ?s = "sys_pass never (slow_pass 1000 1 [36] False (Some (PtyData [36])) []) (sys_new 0 990 24 80)"
  have 1: "loop_reach never ?s" by (rule slow_pass_step [OF loop_reach.init]) (simp, code_simp)
  have "sy_frames ?s \<noteq> []" by code_simp
  then have 2: "loop_reach never (sys_send_message 1050 (sys_receive_frame (hd (sy_frames ?s)) ?s))"
    by (intro loop_reach.step [OF _ loop_step.send] loop_reach.step [OF 1 loop_step.frame]) simp
  show ?thesis unfolding prompt_shown_def Let_def
    by (rule slow_pass_step [OF 2]) (simp add: sys_send_message_def, code_simp)
qed

lemma key_read_reach: "loop_reach never key_read"
proof -
  have "loop_reach never (sys_send_message 1200 (sys_type [4] prompt_shown))"
    by (intro loop_reach.step [OF _ loop_step.send] loop_reach.step [OF _ loop_step.typed] prompt_shown_reach)
  then show ?thesis unfolding key_read_def Let_def
    by (rule slow_pass_step) (simp add: sys_send_message_def, code_simp)
qed

lemma shell_gone_reach: "loop_reach never shell_gone"
  unfolding shell_gone_def
proof (intro slow_pass_step key_read_reach)
  show "snd (server_pass never (slow_pass 1320 2 [36, 32] False (Some (PtyData [32])) []) (sy_server key_read)) = None" by code_simp
  show "snd (server_pass never (slow_pass 1330 2 [36, 32] False (Some PtyEof) [])
     (sy_server (sys_pass never (slow_pass 1320 2 [36, 32] False (Some (PtyData [32])) []) key_read))) = None" by code_simp
qed simp_all

lemma shell_gone_state:
  "final_frame_waits (pa_send echo_pass) (sy_server shell_gone)" "ack_due (pa_send echo_pass) (sy_server shell_gone)"
  "cl_applied_data (sy_client shell_gone) = [36]" "loop_timeout never (slow_env 1330 2 [36, 32]) (sy_server shell_gone) = 20"
  by code_simp+

lemma echo_pass_frame:
  "server_pass never echo_pass (sy_server shell_gone)
   = ((fst (produce (pa_send echo_pass) (sy_server shell_gone)), [], snd (produce (pa_send echo_pass) (sy_server shell_gone))), None)"
  by code_simp

lemma early_quit:
  "\<exists>tm s p st' acts f. loop_reach tm s \<and> from_client p s \<and> server_pass tm p (sy_server s) = ((st', acts, Some f), None)
    \<and> sv_force_frame st' \<and> client_exit now (fst (process_frame f (sy_client s))) \<noteq> None
    \<and> cl_applied_data (fst (process_frame f (sy_client s))) \<noteq> en_dump (pa_send p)"
proof -
  obtain st' f where f: "produce (pa_send echo_pass) (sy_server shell_gone) = (st', Some f)" "frame_body f = Empty"
    "sf_flags f = FLAG_SHUTDOWN" "sv_force_frame st'"
    using early_frame [OF shell_gone_state(1,2)] by blast
  have "from_client echo_pass shell_gone" "en_dump (pa_send echo_pass) = [36, 32]"
    by (simp_all add: from_client_def slow_pass_def slow_env_def sample_env_def)
  moreover have "server_pass never echo_pass (sy_server shell_gone) = ((st', [], Some f), None)"
    using echo_pass_frame f(1) by simp
  ultimately show ?thesis
    using shell_gone_reach f(4) flagged_frame_ends [OF f(2,3), of now "sy_client shell_gone"] shell_gone_state(3)
    by (intro exI [of _ never] exI [of _ shell_gone] exI [of _ echo_pass] exI [of _ st'] exI [of _ "[]"] exI [of _ f]) simp
qed

text \<open>When that frame is lost, the run ends as it should: the final screen is sent, acknowledged, and the server leaves.\<close>

definition final_shown :: Sys where
  "final_shown =
     (let s = sys_pass never (slow_pass 1600 2 [36, 32] False None []) (sys_pass never echo_pass shell_gone)
      in sys_send_message 1650 (sys_receive_frame (hd (sy_frames s)) s))"

abbreviation final_pass :: Pass where
  "final_pass \<equiv> slow_pass 1700 2 [36, 32] True None [hd (sy_msgs final_shown)]"

lemma final_shown_reach: "loop_reach never final_shown"
proof -
  have 1: "loop_reach never (sys_pass never echo_pass shell_gone)"
    by (rule slow_pass_step [OF shell_gone_reach]) (simp_all add: echo_pass_frame)
  let ?s = "sys_pass never (slow_pass 1600 2 [36, 32] False None []) (sys_pass never echo_pass shell_gone)"
  have 2: "loop_reach never ?s" by (rule slow_pass_step [OF 1]) (simp, code_simp)
  have "sy_frames ?s \<noteq> []" by code_simp
  then show ?thesis unfolding final_shown_def Let_def
    by (intro loop_reach.step [OF _ loop_step.send] loop_reach.step [OF 2 loop_step.frame]) simp
qed

lemma final_pass_leaves:
  "from_client final_pass final_shown" "sy_hist (sys_pass never final_pass final_shown) = [[], [36], [36, 32]]"
  "snd (server_pass never final_pass (sy_server final_shown)) = Some FinalConfirmed"
proof -
  show "from_client final_pass final_shown"
    by (simp add: from_client_def slow_pass_def final_shown_def sys_send_message_def Let_def)
qed code_simp+

end
