(* ===== verification/Utf8.thy ===== *)
theory Utf8
  imports Prelude
begin

text \<open>
  Rust strings as their UTF-8 bytes: the encoding of one scalar value (\<open>String::push\<close>), validity,
  and \<open>String::from_utf8_lossy\<close>, which replaces each maximal ill-formed part by U+FFFD.
\<close>

definition scalar :: "nat \<Rightarrow> bool" where
  "scalar c \<longleftrightarrow> c < 0xD800 \<or> (0xE000 \<le> c \<and> c < 0x110000)"

text \<open>\<open>c as u8\<close>.\<close>

definition as_u8 :: "nat \<Rightarrow> u8" where
  "as_u8 n = word_of_nat n"

definition utf8_encode :: "nat \<Rightarrow> bytes" where
  "utf8_encode c =
     (if c < 0x80 then [as_u8 c]
      else if c < 0x800 then [as_u8 (0xC0 + c div 64), as_u8 (0x80 + c mod 64)]
      else if c < 0x10000
      then [as_u8 (0xE0 + c div 4096), as_u8 (0x80 + c div 64 mod 64), as_u8 (0x80 + c mod 64)]
      else [as_u8 (0xF0 + c div 262144), as_u8 (0x80 + c div 4096 mod 64),
            as_u8 (0x80 + c div 64 mod 64), as_u8 (0x80 + c mod 64)])"

definition is_cont :: "u8 \<Rightarrow> bool" where
  "is_cont b \<longleftrightarrow> 0x80 \<le> b \<and> b \<le> 0xBF"

text \<open>The allowed second bytes of three- and four-byte sequences.\<close>

definition second3 :: "u8 \<Rightarrow> u8 \<Rightarrow> bool" where
  "second3 b n = (if b = 0xE0 then 0xA0 \<le> n \<and> n \<le> 0xBF else if b = 0xED then 0x80 \<le> n \<and> n \<le> 0x9F else is_cont n)"

definition second4 :: "u8 \<Rightarrow> u8 \<Rightarrow> bool" where
  "second4 b n = (if b = 0xF0 then 0x90 \<le> n \<and> n \<le> 0xBF else if b = 0xF4 then 0x80 \<le> n \<and> n \<le> 0x8F else is_cont n)"

text \<open>One sequence at the front: whether it is well formed, and how many bytes it takes. Past the
  end a byte reads as 0, which continues nothing.\<close>

definition utf8_width :: "u8 \<Rightarrow> nat" where
  "utf8_width b =
     (if b < 0x80 then 1 else if 0xC2 \<le> b \<and> b \<le> 0xDF then 2 else if 0xE0 \<le> b \<and> b \<le> 0xEF then 3
      else if 0xF0 \<le> b \<and> b \<le> 0xF4 then 4 else 0)"

definition utf8_step :: "u8 \<Rightarrow> bytes \<Rightarrow> bool \<times> nat" where
  "utf8_step b rest =
     (let at = (\<lambda>k. if k < length rest then rest ! k else 0); w = utf8_width b
      in if w = 1 then (True, 1)
         else if w = 2 then (if is_cont (at 0) then (True, 2) else (False, 1))
         else if w = 3
         then (if \<not> second3 b (at 0) then (False, 1) else if is_cont (at 1) then (True, 3) else (False, 2))
         else if w = 4
         then (if \<not> second4 b (at 0) then (False, 1) else if \<not> is_cont (at 1) then (False, 2)
               else if is_cont (at 2) then (True, 4) else (False, 3))
         else (False, 1))"

lemma utf8_step_ok:
  "utf8_width b = 1 \<Longrightarrow> utf8_step b r = (True, 1)"
  "utf8_width b = 2 \<Longrightarrow> is_cont x \<Longrightarrow> utf8_step b (x # r) = (True, 2)"
  "utf8_width b = 3 \<Longrightarrow> second3 b x \<Longrightarrow> is_cont y \<Longrightarrow> utf8_step b (x # y # r) = (True, 3)"
  "utf8_width b = 4 \<Longrightarrow> second4 b x \<Longrightarrow> is_cont y \<Longrightarrow> is_cont z \<Longrightarrow> utf8_step b (x # y # z # r) = (True, 4)"
  by (simp_all add: utf8_step_def)

lemma utf8_step_pos: "0 < snd (utf8_step b rest)"
  by (simp add: utf8_step_def Let_def)

function from_utf8_lossy :: "bytes \<Rightarrow> bytes" where
  "from_utf8_lossy [] = []"
| "from_utf8_lossy (b # rest) =
     (let (ok, n) = utf8_step b rest
      in (if ok then take n (b # rest) else [0xEF, 0xBF, 0xBD]) @ from_utf8_lossy (drop n (b # rest)))"
  by pat_completeness auto
termination
proof (relation "measure length")
  fix b rest x ok n assume "x = utf8_step b rest" "(ok, n) = x"
  then show "(drop n (b # rest), b # rest) \<in> measure length"
    using utf8_step_pos [of b rest] by (metis diff_less drop_eq_Nil in_measure length_drop length_greater_0_conv linorder_not_le list.discI list.size(3) snd_conv)
qed simp

function utf8_valid :: "bytes \<Rightarrow> bool" where
  "utf8_valid [] = True"
| "utf8_valid (b # rest) = (let (ok, n) = utf8_step b rest in ok \<and> utf8_valid (drop n (b # rest)))"
  by pat_completeness auto
termination
proof (relation "measure length")
  fix b rest x ok n assume "x = utf8_step b rest" "(ok, n) = x"
  then show "(drop n (b # rest), b # rest) \<in> measure length"
    using utf8_step_pos [of b rest] by (metis diff_less drop_eq_Nil in_measure length_drop length_greater_0_conv linorder_not_le list.discI list.size(3) snd_conv)
qed simp

declare from_utf8_lossy.simps(2) [simp del] utf8_valid.simps(2) [simp del]

lemma lossy_valid: "utf8_valid bs \<Longrightarrow> from_utf8_lossy bs = bs"
proof (induction bs rule: utf8_valid.induct)
  case 1
  then show ?case by simp
next
  case (2 b rest)
  obtain ok n where s: "utf8_step b rest = (ok, n)" by fastforce
  then show ?case
    using 2 by (simp add: from_utf8_lossy.simps(2) utf8_valid.simps(2))
qed

lemma ascii_valid: "(\<And>b. b \<in> set bs \<Longrightarrow> b < 0x80) \<Longrightarrow> utf8_valid bs"
  by (induction bs) (auto simp: utf8_valid.simps(2) utf8_step_def utf8_width_def)

section \<open>Encoded scalars are well formed\<close>

lemma u8_of_nat_le [simp]:
  "k < 256 \<Longrightarrow> a \<le> as_u8 k \<longleftrightarrow> unat a \<le> k"
  "k < 256 \<Longrightarrow> as_u8 k \<le> a \<longleftrightarrow> k \<le> unat a"
  "k < 256 \<Longrightarrow> as_u8 k < a \<longleftrightarrow> k < unat a"
  by (auto simp: as_u8_def word_le_nat_alt word_less_nat_alt unat_of_nat_u8 word_unat_eq_iff)

lemma as_u8_eq: "k < 256 \<Longrightarrow> as_u8 k = a \<longleftrightarrow> k = unat a"
  by (auto simp: as_u8_def unat_of_nat_u8 word_unat_eq_iff)

lemma is_cont_mod: "is_cont (as_u8 (0x80 + k mod 64))"
  using mod_less_divisor [of 64 k] by (simp add: is_cont_def)

lemma utf8_step_encode:
  assumes "scalar c"
  shows "\<exists>b bs. utf8_encode c = b # bs \<and> utf8_step b (bs @ rest) = (True, length (b # bs))"
proof -
  have m: "\<And>k :: nat. k mod 64 < 64" by simp
  consider "c < 0x80" | "0x80 \<le> c" "c < 0x800" | "0x800 \<le> c" "c < 0x10000" | "0x10000 \<le> c" "c < 0x110000"
    using assms by (fastforce simp: scalar_def)
  then show ?thesis
  proof cases
    case 1
    then show ?thesis by (simp add: utf8_encode_def utf8_width_def utf8_step_ok)
  next
    case 2
    have "2 \<le> c div 64" "c div 64 < 32" using 2 by auto
    then show ?thesis using 2 is_cont_mod by (simp add: utf8_encode_def utf8_width_def utf8_step_ok)
  next
    case 3
    have d: "c div 4096 < 16" using 3 by auto
    have s: "second3 (as_u8 (0xE0 + c div 4096)) (as_u8 (0x80 + c div 64 mod 64))"
    proof -
      have e: "c div 64 = 64 * (c div 4096) + c div 64 mod 64"
        using mult_div_mod_eq [of 64 "c div 64"] by (simp add: div_mult2_eq [symmetric])
      have lo: "32 \<le> c div 64 mod 64" if "c div 4096 = 0"
        using e that 3(1) by simp
      have hi: "c div 64 mod 64 < 32" if "c div 4096 = 13"
      proof -
        have "c < 14 * 4096" using that by auto
        then have "c < 0xD800" using assms by (auto simp: scalar_def)
        then have "c div 64 < 864" by auto
        then show ?thesis using e that by simp
      qed
      show ?thesis
        using d lo hi m [of "c div 64"] unfolding second3_def is_cont_def
        by (cases "c div 4096 = 0"; cases "c div 4096 = 13") (simp_all add: as_u8_eq)
    qed
    then show ?thesis using 3 d is_cont_mod [of c] by (simp add: utf8_encode_def utf8_width_def utf8_step_ok)
  next
    case 4
    have d: "c div 262144 < 5" using 4 by auto
    have s: "second4 (as_u8 (0xF0 + c div 262144)) (as_u8 (0x80 + c div 4096 mod 64))"
    proof -
      have e: "c div 4096 = 64 * (c div 262144) + c div 4096 mod 64"
        using mult_div_mod_eq [of 64 "c div 4096"] by (simp add: div_mult2_eq [symmetric])
      have bounds: "16 \<le> c div 4096" "c div 4096 < 272" using 4 by auto
      have lo: "16 \<le> c div 4096 mod 64" if "c div 262144 = 0" using e that bounds by simp
      have hi: "c div 4096 mod 64 < 16" if "c div 262144 = 4" using e that bounds by simp
      show ?thesis
        using d lo hi m [of "c div 4096"] unfolding second4_def is_cont_def
        by (cases "c div 262144 = 0"; cases "c div 262144 = 4") (simp_all add: as_u8_eq)
    qed
    then show ?thesis using 4 d is_cont_mod [of c] is_cont_mod [of "c div 64"]
      by (simp add: utf8_encode_def utf8_width_def utf8_step_ok)
  qed
qed

lemma utf8_valid_encode: "scalar c \<Longrightarrow> utf8_valid (utf8_encode c @ rest) = utf8_valid rest"
  using utf8_step_encode [of c rest] by (auto simp: utf8_valid.simps(2))

lemma lossy_encode: "scalar c \<Longrightarrow> from_utf8_lossy (utf8_encode c @ rest) = utf8_encode c @ from_utf8_lossy rest"
  using utf8_step_encode [of c rest] by (auto simp: from_utf8_lossy.simps(2))

lemma utf8_step_True:
  assumes "utf8_step b rest = (True, n)"
  shows "(utf8_width b = 1 \<and> n = 1)
    \<or> (\<exists>x r. rest = x # r \<and> utf8_width b = 2 \<and> is_cont x \<and> n = 2)
    \<or> (\<exists>x y r. rest = x # y # r \<and> utf8_width b = 3 \<and> second3 b x \<and> is_cont y \<and> n = 3)
    \<or> (\<exists>x y z r. rest = x # y # z # r \<and> utf8_width b = 4 \<and> second4 b x \<and> is_cont y \<and> is_cont z \<and> n = 4)"
proof -
  have z: "\<not> is_cont 0" "\<not> second3 b 0" "\<not> second4 b 0" by (simp_all add: is_cont_def second3_def second4_def)
  consider "rest = []" | x where "rest = [x]" | x y where "rest = [x, y]" | x y w r where "rest = x # y # w # r"
    by (metis list.exhaust)
  then show ?thesis
    by cases (use assms z in \<open>auto simp: utf8_step_def Let_def split: if_split_asm\<close>)
qed

lemma utf8_step_local:
  assumes "utf8_step b rest = (True, n)"
  shows "n \<le> length (b # rest)" and "utf8_step b (take (n - 1) rest @ behind) = (True, n)"
  using utf8_step_True [OF assms] by (elim disjE exE conjE; hypsubst; simp add: utf8_step_ok)+

lemma lossy_is_valid: "utf8_valid (from_utf8_lossy bs)"
proof (induction bs rule: from_utf8_lossy.induct)
  case 1
  then show ?case by simp
next
  case (2 b rest)
  obtain ok n where s: "utf8_step b rest = (ok, n)" by fastforce
  note IH = "2.IH" [OF s [symmetric] refl]
  show ?case
  proof (cases ok)
    case True
    with s have l: "utf8_step b rest = (True, n)" by simp
    note loc = utf8_step_local(1) [OF l] utf8_step_local(2) [OF l, where behind = "from_utf8_lossy (drop n (b # rest))"]
    have "0 < n" using utf8_step_pos [of b rest] s by simp
    then have t: "take n (b # rest) = b # take (n - 1) rest" by (cases n) auto
    have "drop n (b # take (n - 1) rest @ from_utf8_lossy (drop n (b # rest))) = from_utf8_lossy (drop n (b # rest))"
      using loc(1) \<open>0 < n\<close> by (cases n) (auto simp: min_absorb2)
    then show ?thesis using s True loc(2) IH
      by (simp add: from_utf8_lossy.simps(2) utf8_valid.simps(2) t del: drop_Cons')
  next
    case False
    have "[0xEF, 0xBF, 0xBD] = utf8_encode 0xFFFD" by (simp add: utf8_encode_def as_u8_def)
    then show ?thesis using s False IH utf8_valid_encode [of "0xFFFD"]
      by (simp add: from_utf8_lossy.simps(2) scalar_def)
  qed
qed

section \<open>Reading one character back\<close>

text \<open>The first character of a well-formed string (\<open>from_utf8(s).chars().next()\<close>), \<open>None\<close> for an ill-formed
  or empty one.\<close>

definition char_value :: "bytes \<Rightarrow> nat" where
  "char_value bs =
     (let at = (\<lambda>k. unat (bs ! k))
      in if at 0 < 0x80 then at 0
         else if at 0 < 0xE0 then (at 0 - 0xC0) * 64 + (at 1 - 0x80)
         else if at 0 < 0xF0 then (at 0 - 0xE0) * 4096 + (at 1 - 0x80) * 64 + (at 2 - 0x80)
         else (at 0 - 0xF0) * 262144 + (at 1 - 0x80) * 4096 + (at 2 - 0x80) * 64 + (at 3 - 0x80))"

definition first_char :: "bytes \<Rightarrow> nat option" where
  "first_char bs = (if bs \<noteq> [] \<and> utf8_valid bs then Some (char_value bs) else None)"

lemma unat_as_u8: "k < 256 \<Longrightarrow> unat (as_u8 k) = k"
  by (simp add: as_u8_def unat_of_nat_u8)

lemma char_value_encode: "scalar c \<Longrightarrow> char_value (utf8_encode c) = c"
proof -
  assume c: "scalar c"
  then have m: "c < 0x110000" by (auto simp: scalar_def)
  have s: "c div 64 = 64 * (c div 4096) + c div 64 mod 64" "c = 64 * (c div 64) + c mod 64"
    "c div 4096 = 64 * (c div 262144) + c div 4096 mod 64"
    using mult_div_mod_eq [of 64 "c div 64"] mult_div_mod_eq [of 64 c] mult_div_mod_eq [of 64 "c div 4096"]
    by (simp_all add: div_mult2_eq [symmetric])
  consider "c < 0x80" | "0x80 \<le> c" "c < 0x800" | "0x800 \<le> c" "c < 0x10000" | "0x10000 \<le> c" using c by linarith
  then show ?thesis
  proof cases
    case 1
    then show ?thesis by (simp add: utf8_encode_def char_value_def unat_as_u8)
  next
    case 2
    then have "c div 64 < 32" by auto
    then show ?thesis using 2 s(2) by (simp add: utf8_encode_def char_value_def unat_as_u8 Let_def)
  next
    case 3
    then have "c div 4096 < 16" by auto
    moreover have "c div 4096 * 4096 + c div 64 mod 64 * 64 + c mod 64 = c" using s(1,2) by linarith
    ultimately show ?thesis using 3 by (simp add: utf8_encode_def char_value_def unat_as_u8 Let_def)
  next
    case 4
    then have "c div 262144 < 5" using m by auto
    moreover have "c div 262144 * 262144 + c div 4096 mod 64 * 4096 + c div 64 mod 64 * 64 + c mod 64 = c"
      using s by linarith
    ultimately show ?thesis using 4 by (simp add: utf8_encode_def char_value_def unat_as_u8 Let_def)
  qed
qed

lemma first_char_encode: "scalar c \<Longrightarrow> first_char (utf8_encode c) = Some c"
  using utf8_valid_encode [of c "[]"] char_value_encode [of c] utf8_step_encode [of c "[]"]
  by (auto simp: first_char_def)

end
