(* ===== verification/Util.thy ===== *)
theory Util
  imports Utf8
begin

text \<open>
  \<open>crates/posh/src/util.rs\<close>: the percent-encoding that turns a session name into a file name, and
  the charset checks. Session names are Rust strings, so UTF-8 byte strings; \<open>push_char\<close> is
  \<open>String::push\<close>. The lemmas show that an encoded name is a safe path component and that ASCII
  names come back; a non-ASCII name does not, because each of its bytes is pushed as a character.
\<close>

section \<open>Session names as file names\<close>

definition HEX :: bytes where
  "HEX = [48, 49, 50, 51, 52, 53, 54, 55, 56, 57, 65, 66, 67, 68, 69, 70]"

definition filename_safe :: "u8 \<Rightarrow> bool" where
  "filename_safe ch \<longleftrightarrow> ch \<noteq> 47 \<and> ch \<noteq> 92 \<and> ch \<noteq> 37 \<and> ch \<noteq> 0"

definition push_char :: "bytes \<Rightarrow> nat \<Rightarrow> bytes" where
  "push_char out c = out @ utf8_encode c"

definition encode_name_byte :: "bytes \<Rightarrow> u8 \<Rightarrow> bytes" where
  "encode_name_byte out b =
     (if filename_safe b then push_char out (unat b)
      else push_char (push_char (push_char out 37) (unat (HEX ! unat (drop_bit 4 b)))) (unat (HEX ! unat (b AND 0x0f))))"

definition encode_session_name :: "bytes \<Rightarrow> bytes" where
  "encode_session_name name = foldl encode_name_byte [] name"

text \<open>\<open>char::to_digit(16)\<close> on a byte read as a character.\<close>

definition to_digit16 :: "u8 \<Rightarrow> nat option" where
  "to_digit16 b =
     (if 48 \<le> b \<and> b \<le> 57 then Some (unat b - 48)
      else if 65 \<le> b \<and> b \<le> 70 then Some (unat b - 55)
      else if 97 \<le> b \<and> b \<le> 102 then Some (unat b - 87)
      else None)"

function decode_name_loop :: "bytes \<Rightarrow> nat \<Rightarrow> bytes \<Rightarrow> bytes" where
  "decode_name_loop bs i out =
     (if i < length bs
      then (if bs ! i = 37 \<and> i + 2 < length bs
            then (case (to_digit16 (bs ! (i + 1)), to_digit16 (bs ! (i + 2))) of
                    (Some hi, Some lo) \<Rightarrow> decode_name_loop bs (i + 3) (out @ [as_u8 (hi * 16 + lo)])
                  | _ \<Rightarrow> decode_name_loop bs (i + 1) (out @ [bs ! i]))
            else decode_name_loop bs (i + 1) (out @ [bs ! i]))
      else out)"
  by pat_completeness auto
termination by (relation "measure (\<lambda>(bs, i, out). length bs - i)") auto

declare decode_name_loop.simps [simp del]

definition decode_session_name :: "bytes \<Rightarrow> bytes" where
  "decode_session_name encoded = from_utf8_lossy (decode_name_loop encoded 0 [])"

section \<open>Charsets\<close>

definition first_field :: "'a \<Rightarrow> 'a list \<Rightarrow> 'a list" where
  "first_field c xs = (case split_once c xs of None \<Rightarrow> xs | Some (a, _) \<Rightarrow> a)"

definition ctype_locale :: "string option \<Rightarrow> string option \<Rightarrow> string option \<Rightarrow> string \<times> string" where
  "ctype_locale lc_all lc_ctype lang =
     (case find (\<lambda>(n, v). v \<noteq> None \<and> v \<noteq> Some []) [(''LC_ALL'', lc_all), (''LC_CTYPE'', lc_ctype), (''LANG'', lang)] of
        Some (n, Some v) \<Rightarrow> (n, v)
      | _ \<Rightarrow> ([], []))"

definition locale_charset :: "string \<Rightarrow> string" where
  "locale_charset value =
     (let v = first_field (CHR ''@'') value;
          cs = (case split_once (CHR ''.'') v of Some (_, cs) \<Rightarrow> cs | None \<Rightarrow> v)
      in if cs \<in> {'''', ''C'', ''POSIX'', ''ANSI_X3.4-1968''} then ''US-ASCII'' else cs)"

definition ascii_lower :: "char \<Rightarrow> char" where
  "ascii_lower c = (if 65 \<le> (of_char c :: nat) \<and> (of_char c :: nat) \<le> 90 then char_of ((of_char c :: nat) + 32) else c)"

definition eq_ignore_ascii_case :: "string \<Rightarrow> string \<Rightarrow> bool" where
  "eq_ignore_ascii_case a b \<longleftrightarrow> map ascii_lower a = map ascii_lower b"

definition charset_is_utf8 :: "string \<Rightarrow> bool" where
  "charset_is_utf8 charset \<longleftrightarrow> eq_ignore_ascii_case charset ''UTF-8'' \<or> eq_ignore_ascii_case charset ''utf8''"

text \<open>\<open>check_utf8_locale\<close>, with the three environment variables as arguments.\<close>

definition check_utf8_locale :: "string \<Rightarrow> string option \<Rightarrow> string option \<Rightarrow> string option \<Rightarrow> unit result" where
  "check_utf8_locale program lc_all lc_ctype lang =
     (let (name, value) = ctype_locale lc_all lc_ctype lang;
          charset = locale_charset value
      in if charset_is_utf8 charset then Inr ()
         else let var = (if name = [] then ''[no charset variables]'' else name @ ''='' @ value)
              in Inl (program @ '' needs a UTF-8 native locale to run.'' @ [char_of (10 :: nat), char_of (10 :: nat)]
                   @ ''Unfortunately, the environment ('' @ var @ '') specifies'' @ [char_of (10 :: nat)]
                   @ ''the character set '' @ [char_of (34 :: nat)] @ charset @ [char_of (34 :: nat)] @ ''.''))"

section \<open>An encoded name is one safe path component, and decodes\<close>

definition encode_byte :: "u8 \<Rightarrow> bytes" where
  "encode_byte b = encode_name_byte [] b"

lemma encode_name_byte_append: "encode_name_byte out b = out @ encode_byte b"
  by (simp add: encode_name_byte_def encode_byte_def push_char_def)

lemma encode_concat: "encode_session_name name = concat (map encode_byte name)"
proof -
  have "foldl encode_name_byte out name = out @ concat (map encode_byte name)" for out
    by (induction name arbitrary: out) (simp_all add: encode_name_byte_append)
  then show ?thesis by (simp add: encode_session_name_def)
qed

lemma utf8_encode_ascii: "b < 0x80 \<Longrightarrow> utf8_encode (unat b) = [b]"
  by (simp add: utf8_encode_def as_u8_def word_less_nat_alt)

lemma HEX_nth:
  assumes "n < 16"
  shows "HEX ! n < 0x80" "filename_safe (HEX ! n)" "to_digit16 (HEX ! n) = Some n"
proof -
  have "list_all (\<lambda>n. HEX ! n < 0x80 \<and> filename_safe (HEX ! n) \<and> to_digit16 (HEX ! n) = Some n) [0..<16]"
    by code_simp
  then show "HEX ! n < 0x80" "filename_safe (HEX ! n)" "to_digit16 (HEX ! n) = Some n"
    using assms by (simp_all add: list_all_iff)
qed

lemma nibbles: "unat (drop_bit 4 (b :: u8)) < 16" "unat (b AND 0x0f) < 16"
  "unat (drop_bit 4 b) * 16 + unat (b AND 0x0f) = unat b"
proof -
  have a: "b AND 0x0f = take_bit 4 b" by (simp add: take_bit_eq_mask mask_numeral)
  show "unat (drop_bit 4 b) < 16" using unat_u8_le [of b] by (simp only: unat_drop_bit_eq) (simp add: drop_bit_eq_div)
  show "unat (b AND 0x0f) < 16" by (simp only: a unsigned_take_bit_eq) (simp add: take_bit_eq_mod)
  show "unat (drop_bit 4 b) * 16 + unat (b AND 0x0f) = unat b"
    using unat_u8_le [of b] by (simp only: a unsigned_take_bit_eq unat_drop_bit_eq) (simp add: take_bit_eq_mod drop_bit_eq_div)
qed

lemma encode_byte_unsafe:
  "\<not> filename_safe b \<Longrightarrow> encode_byte b = [37, HEX ! unat (drop_bit 4 b), HEX ! unat (b AND 0x0f)]"
  using utf8_encode_ascii [of 37] by (simp add: encode_byte_def encode_name_byte_def push_char_def utf8_encode_ascii HEX_nth nibbles)

lemma encode_byte_safe: "filename_safe b \<Longrightarrow> encode_byte b = utf8_encode (unat b)"
  by (simp add: encode_byte_def encode_name_byte_def push_char_def)

lemma encode_byte_component: "x \<in> set (encode_byte b) \<Longrightarrow> x \<noteq> 47 \<and> x \<noteq> 92 \<and> x \<noteq> 0"
proof (cases "filename_safe b")
  case True
  assume x: "x \<in> set (encode_byte b)"
  show ?thesis
  proof (cases "b < 0x80")
    case True
    then show ?thesis using x \<open>filename_safe b\<close> by (simp add: encode_byte_safe utf8_encode_ascii filename_safe_def)
  next
    case False
    then have "0x80 \<le> unat b" "unat b \<le> 255" using unat_u8_le [of b] by (auto simp: word_less_nat_alt)
    then have "x = as_u8 (0xC0 + unat b div 64) \<or> x = as_u8 (0x80 + unat b mod 64)"
      using x \<open>filename_safe b\<close> by (auto simp: encode_byte_safe utf8_encode_def)
    moreover have "0xC0 + unat b div 64 < 256" "0x80 + unat b mod 64 < 256" using \<open>unat b \<le> 255\<close> by auto
    ultimately have "0x80 \<le> x" by auto
    then show ?thesis by auto
  qed
next
  case False
  assume "x \<in> set (encode_byte b)"
  then show ?thesis using False HEX_nth(2) nibbles by (auto simp: encode_byte_unsafe filename_safe_def)
qed

lemma encode_component: "x \<in> set (encode_session_name name) \<Longrightarrow> x \<noteq> 47 \<and> x \<noteq> 92 \<and> x \<noteq> 0"
  by (auto simp: encode_concat dest: encode_byte_component)

lemma encode_valid: "utf8_valid (encode_session_name name)"
proof -
  have "utf8_valid (encode_byte b @ rest) = utf8_valid rest" for b rest
  proof (cases "filename_safe b")
    case True
    then show ?thesis using unat_u8_le [of b] by (simp add: encode_byte_safe utf8_valid_encode scalar_def)
  next
    case False
    then show ?thesis
      using HEX_nth(1) nibbles
      by (simp add: encode_byte_unsafe utf8_valid.simps(2) utf8_step_def utf8_width_def)
  qed
  then show ?thesis by (induction name) (simp_all add: encode_concat)
qed

lemma decode_name_encode:
  assumes "\<forall>b \<in> set name. b < 0x80"
  shows "decode_name_loop (pre @ encode_session_name name) (length pre) out = out @ name"
  using assms
proof (induction name arbitrary: pre out)
  case Nil
  then show ?case by (subst decode_name_loop.simps) (simp add: encode_concat)
next
  case (Cons b name)
  let ?bs = "pre @ encode_session_name (b # name)"
  show ?case
  proof (cases "filename_safe b")
    case True
    then have bs: "?bs = (pre @ [b]) @ encode_session_name name"
      using Cons.prems by (simp add: encode_concat encode_byte_safe utf8_encode_ascii)
    have "?bs ! length pre = b" "b \<noteq> 37" "length pre < length ?bs" using True by (simp_all add: bs filename_safe_def)
    then have "decode_name_loop ?bs (length pre) out = decode_name_loop ?bs (length (pre @ [b])) (out @ [b])"
      by (subst decode_name_loop.simps) simp
    then show ?thesis using Cons.IH [of "pre @ [b]" "out @ [b]"] Cons.prems by (simp only: bs) simp
  next
    case False
    let ?e = "encode_byte b"
    have bs: "?bs = (pre @ ?e) @ encode_session_name name" by (simp add: encode_concat)
    have e: "?e = [37, HEX ! unat (drop_bit 4 b), HEX ! unat (b AND 0x0f)]" using False by (rule encode_byte_unsafe)
    have at: "?bs ! length pre = 37" "?bs ! (length pre + 1) = HEX ! unat (drop_bit 4 b)"
      "?bs ! (length pre + 2) = HEX ! unat (b AND 0x0f)" "length pre + 2 < length ?bs"
      by (simp_all add: bs e nth_append)
    have v: "as_u8 (unat (drop_bit 4 b) * 16 + unat (b AND 0x0f)) = b"
      by (simp only: nibbles(3)) (simp add: as_u8_def)
    have d: "to_digit16 (?bs ! (length pre + 1)) = Some (unat (drop_bit 4 b))"
      "to_digit16 (?bs ! (length pre + 2)) = Some (unat (b AND 0x0f))"
      unfolding at using HEX_nth(3) nibbles by blast+
    have "length pre < length ?bs" using at(4) by linarith
    then have "decode_name_loop ?bs (length pre) out = decode_name_loop ?bs (length pre + 3) (out @ [b])"
      using at(1,4) d v by (subst decode_name_loop.simps) (simp only: if_True simp_thms option.case prod.case)
    moreover have "length pre + 3 = length (pre @ ?e)" by (simp add: e)
    ultimately have "decode_name_loop ?bs (length pre) out = decode_name_loop ?bs (length (pre @ ?e)) (out @ [b])" by simp
    then show ?thesis using Cons.IH [of "pre @ ?e" "out @ [b]"] Cons.prems by (simp only: bs) simp
  qed
qed

lemma decode_encode_name:
  assumes "\<forall>b \<in> set name. b < 0x80"
  shows "decode_session_name (encode_session_name name) = name"
  using decode_name_encode [OF assms, of "[]" "[]"] assms
  by (simp add: decode_session_name_def lossy_valid ascii_valid)

lemma decode_encode_not_ascii: "decode_session_name (encode_session_name [0xC3, 0xA9]) = [0xC3, 0x83, 0xC2, 0xA9]"
  by code_simp

text \<open>Distinct names, ASCII or not, are distinct files.\<close>

lemma encode_byte_high:
  assumes "filename_safe b" "\<not> b < 0x80"
  shows "encode_byte b = [as_u8 (0xC0 + unat b div 64), as_u8 (0x80 + unat b mod 64)]"
  using assms unat_u8_le [of b] by (simp add: encode_byte_safe utf8_encode_def word_less_nat_alt)

lemma high_first: "0x80 \<le> as_u8 (0xC0 + unat (b :: u8) div 64)"
proof -
  have "0xC0 + unat b div 64 < 256" using unat_u8_le [of b] by auto
  then show ?thesis by simp
qed

lemma encode_byte_inj:
  assumes "encode_byte b @ r = encode_byte b' @ r'"
  shows "b = b' \<and> r = r'"
proof -
  have uns: "b = b'" if "HEX ! unat (drop_bit 4 b) = HEX ! unat (drop_bit 4 b')" "HEX ! unat (b AND 0x0f) = HEX ! unat (b' AND 0x0f)"
    for b b' :: u8
  proof -
    have "unat (drop_bit 4 b) = unat (drop_bit 4 b')" "unat (b AND 0x0f) = unat (b' AND 0x0f)"
      using that HEX_nth(3) nibbles by (metis option.inject)+
    then have "unat b = unat b'" using nibbles(3) by metis
    then show ?thesis by (simp add: word_unat_eq_iff)
  qed
  have hi: "b = b'" if "as_u8 (0xC0 + unat b div 64) = as_u8 (0xC0 + unat b' div 64)" "as_u8 (0x80 + unat b mod 64) = as_u8 (0x80 + unat b' mod 64)"
    for b b' :: u8
  proof -
    have bd: "0xC0 + unat b div 64 < 256" "0xC0 + unat b' div 64 < 256" "0x80 + unat b mod 64 < 256" "0x80 + unat b' mod 64 < 256"
      using unat_u8_le [of b] unat_u8_le [of b'] by auto
    then have "unat b div 64 = unat b' div 64" "unat b mod 64 = unat b' mod 64"
      using that by (simp_all only: as_u8_def word_unat_eq_iff unat_of_nat_u8 less_Suc_eq_le [symmetric])
    then have "unat b = unat b'" by (metis mult_div_mod_eq)
    then show ?thesis by (simp add: word_unat_eq_iff)
  qed
  have form: "encode_byte b = [b] \<and> b < 0x80 \<and> b \<noteq> 37
    \<or> (\<exists>x y. encode_byte b = [37, x, y]) \<and> \<not> filename_safe b
    \<or> (\<exists>x y. encode_byte b = [x, y] \<and> 0x80 \<le> x) \<and> filename_safe b \<and> \<not> b < 0x80" for b
    using encode_byte_unsafe [of b] encode_byte_high [of b] high_first [of b]
    by (cases "filename_safe b"; cases "b < 0x80") (auto simp: encode_byte_safe utf8_encode_ascii filename_safe_def)
  consider (safe) "filename_safe b" "b < 0x80" | (unsafe) "\<not> filename_safe b" | (high) "filename_safe b" "\<not> b < 0x80"
    by blast
  then show ?thesis
  proof cases
    case safe
    then show ?thesis using form [of b] form [of b'] assms by (auto simp: encode_byte_safe utf8_encode_ascii)
  next
    case unsafe
    then show ?thesis using form [of b'] assms uns [of b b'] by (auto simp: encode_byte_unsafe)
  next
    case high
    then show ?thesis using form [of b'] high_first [of b] assms hi [of b b'] by (auto simp: encode_byte_high)
  qed
qed

lemma encode_byte_nonempty: "encode_byte b \<noteq> []"
  by (cases "filename_safe b") (simp_all add: encode_byte_unsafe encode_byte_safe utf8_encode_def)

lemma encode_name_inj: "encode_session_name a = encode_session_name b \<Longrightarrow> a = b"
proof (induction a arbitrary: b)
  case Nil
  then show ?case
    by (cases b) (simp_all add: encode_concat encode_byte_nonempty)
next
  case (Cons x a)
  show ?case
  proof (cases b)
    case Nil
    then show ?thesis using Cons.prems by (simp add: encode_concat encode_byte_nonempty)
  next
    case (Cons y b')
    then have "encode_byte x @ encode_session_name a = encode_byte y @ encode_session_name b'"
      using Cons.prems by (simp add: encode_concat)
    then show ?thesis using encode_byte_inj Cons.IH Cons by blast
  qed
qed

end
