(* ===== verification/Ipc.thy ===== *)
theory Ipc
  imports Utf8
begin

text \<open>
  \<open>crates/posh/src/session/ipc.rs\<close>: the framed protocol between session daemons and clients, and its
  fixed payloads. \<open>next_frame\<close> is \<open>FrameBuffer::next\<close>, a loop that skips frames with unknown tags
  and ends because every turn moves \<open>head\<close>. The lemmas show that reassembly does not depend on how
  the byte stream was cut into reads, that encoded frames come out in order, that an oversized
  header is an error, and that what stays buffered is bounded.
\<close>

datatype Tag =
  Input | Output | Resize | Detach | DetachAll | Kill | Info | Init | History | Run | Ack | Exit

fun tag_byte :: "Tag \<Rightarrow> u8" where
  "tag_byte Input = 0"
| "tag_byte Output = 1"
| "tag_byte Resize = 2"
| "tag_byte Detach = 3"
| "tag_byte DetachAll = 4"
| "tag_byte Kill = 5"
| "tag_byte Info = 6"
| "tag_byte Init = 7"
| "tag_byte History = 8"
| "tag_byte Run = 9"
| "tag_byte Ack = 10"
| "tag_byte Exit = 11"

definition tag_from_u8 :: "u8 \<Rightarrow> Tag option" where
  "tag_from_u8 b =
     (if b = 0 then Some Input else if b = 1 then Some Output else if b = 2 then Some Resize
      else if b = 3 then Some Detach else if b = 4 then Some DetachAll else if b = 5 then Some Kill
      else if b = 6 then Some Info else if b = 7 then Some Init else if b = 8 then Some History
      else if b = 9 then Some Run else if b = 10 then Some Ack else if b = 11 then Some Exit
      else None)"

definition HEADER_LEN :: nat where "HEADER_LEN = 5"
definition MAX_FRAME_LEN :: nat where "MAX_FRAME_LEN = 64 * 1024 * 1024"

definition encode_history_format :: "bool \<Rightarrow> bytes" where
  "encode_history_format vt = [of_bool vt]"

definition decode_history_format :: "bytes \<Rightarrow> bool" where
  "decode_history_format payload \<longleftrightarrow> (case payload of [] \<Rightarrow> False | b # _ \<Rightarrow> b = 1)"

definition append_frame :: "bytes \<Rightarrow> Tag \<Rightarrow> bytes \<Rightarrow> bytes" where
  "append_frame buf tag payload = buf @ [tag_byte tag] @ le_bytes 4 (word_of_nat (length payload) :: u32) @ payload"

definition encode_frame :: "Tag \<Rightarrow> bytes \<Rightarrow> bytes" where
  "encode_frame tag payload = append_frame [] tag payload"

definition encode_resize :: "u16 \<Rightarrow> u16 \<Rightarrow> bytes" where
  "encode_resize rows cols = le_bytes 2 rows @ le_bytes 2 cols"

definition decode_resize :: "bytes \<Rightarrow> (u16 \<times> u16) option" where
  "decode_resize payload =
     (if length payload \<noteq> 4 then None
      else Some (of_le [payload ! 0, payload ! 1], of_le [payload ! 2, payload ! 3]))"

definition encode_exit :: "32 word \<Rightarrow> bytes" where
  "encode_exit code = le_bytes 4 code"

definition decode_exit :: "bytes \<Rightarrow> 32 word option" where
  "decode_exit payload = (if length payload = 4 then Some (of_le payload) else None)"

section \<open>Reassembly\<close>

record Frame =
  tag :: Tag
  payload :: bytes

record FrameBuffer =
  fb_buf :: bytes
  fb_head :: nat

definition buffer_new :: FrameBuffer where
  "buffer_new = \<lparr>fb_buf = [], fb_head = 0\<rparr>"

definition compact :: "FrameBuffer \<Rightarrow> FrameBuffer" where
  "compact fb = (if fb_head fb > 0 then fb\<lparr>fb_buf := drop (fb_head fb) (fb_buf fb), fb_head := 0\<rparr> else fb)"

definition feed :: "FrameBuffer \<Rightarrow> bytes \<Rightarrow> FrameBuffer" where
  "feed fb data = (let fb' = compact fb in fb'\<lparr>fb_buf := fb_buf fb' @ data\<rparr>)"

text \<open>The message of the length error, with the two numbers it prints.\<close>

datatype frame_error = TooLong nat nat

text \<open>The length a complete header announces.\<close>

definition announced :: "bytes \<Rightarrow> nat" where
  "announced avail = unat (of_le [avail ! 1, avail ! 2, avail ! 3, avail ! 4] :: u32)"

function next_frame :: "FrameBuffer \<Rightarrow> (frame_error + Frame option) \<times> FrameBuffer" where
  "next_frame fb =
     (let avail = drop (fb_head fb) (fb_buf fb)
      in if length avail < HEADER_LEN then (Inr None, fb)
         else let len = announced avail
              in if len > MAX_FRAME_LEN then (Inl (TooLong len MAX_FRAME_LEN), fb)
                 else if length avail < HEADER_LEN + len then (Inr None, fb)
                 else let fb' = fb\<lparr>fb_head := fb_head fb + (HEADER_LEN + len)\<rparr>
                      in case tag_from_u8 (avail ! 0) of
                           Some t \<Rightarrow> (Inr (Some \<lparr>tag = t, payload = take len (drop HEADER_LEN avail)\<rparr>), fb')
                         | None \<Rightarrow> next_frame fb')"
  by pat_completeness auto
termination
  by (relation "measure (\<lambda>fb. length (fb_buf fb) - fb_head fb)") (auto simp: HEADER_LEN_def)

declare next_frame.simps [simp del]

lemma next_frame_progress:
  "next_frame fb = (r, fb') \<Longrightarrow> fb_buf fb' = fb_buf fb \<and> fb_head fb \<le> fb_head fb'
     \<and> (fb_head fb \<le> length (fb_buf fb) \<longrightarrow> fb_head fb' \<le> length (fb_buf fb))
     \<and> (\<forall>f. r = Inr (Some f) \<longrightarrow> fb_head fb < fb_head fb' \<and> fb_head fb' \<le> length (fb_buf fb))"
proof (induction fb rule: next_frame.induct)
  case (1 fb)
  define avail where "avail = drop (fb_head fb) (fb_buf fb)"
  define len where "len = announced avail"
  let ?fb' = "fb\<lparr>fb_head := fb_head fb + (HEADER_LEN + len)\<rparr>"
  note eq = next_frame.simps [of fb, unfolded Let_def, folded avail_def, folded len_def]
  show ?case
  proof (cases "length avail < HEADER_LEN \<or> len > MAX_FRAME_LEN \<or> length avail < HEADER_LEN + len")
    case True
    then show ?thesis using "1.prems" eq by (auto split: if_splits)
  next
    case False
    then have fit: "fb_head fb + (HEADER_LEN + len) \<le> length (fb_buf fb)" by (auto simp: avail_def HEADER_LEN_def)
    have pos: "0 < HEADER_LEN" by (simp add: HEADER_LEN_def)
    show ?thesis
    proof (cases "tag_from_u8 (avail ! 0)")
      case None
      then have n: "next_frame ?fb' = (r, fb')" using "1.prems" eq False by simp
      have ih: "fb_buf fb' = fb_buf ?fb' \<and> fb_head ?fb' \<le> fb_head fb'
          \<and> (fb_head ?fb' \<le> length (fb_buf ?fb') \<longrightarrow> fb_head fb' \<le> length (fb_buf ?fb'))
          \<and> (\<forall>f. r = Inr (Some f) \<longrightarrow> fb_head ?fb' < fb_head fb' \<and> fb_head fb' \<le> length (fb_buf ?fb'))"
        using "1.IH" [OF avail_def _ len_def _ _ refl None n] False by simp
      then show ?thesis using fit by auto
    next
      case (Some t)
      then show ?thesis using "1.prems" eq False fit pos by auto
    qed
  qed
qed

lemma next_frame_shrinks:
  "next_frame fb = (Inr (Some f), fb') \<Longrightarrow> length (fb_buf fb') - fb_head fb' < length (fb_buf fb) - fb_head fb"
  using next_frame_progress [of fb "Inr (Some f)" fb'] by auto

text \<open>How the callers use it: feed one read, then take frames until there is none.\<close>

function take_frames :: "FrameBuffer \<Rightarrow> (frame_error option \<times> Frame list) \<times> FrameBuffer" where
  "take_frames fb =
     (case next_frame fb of
        (Inl e, fb') \<Rightarrow> ((Some e, []), fb')
      | (Inr None, fb') \<Rightarrow> ((None, []), fb')
      | (Inr (Some f), fb') \<Rightarrow> (let ((e, fs), fb'') = take_frames fb' in ((e, f # fs), fb'')))"
  by pat_completeness auto
termination
  by (relation "measure (\<lambda>fb. length (fb_buf fb) - fb_head fb)")
     (auto dest!: next_frame_shrinks [OF sym])

declare take_frames.simps [simp del]

fun read_all :: "FrameBuffer \<Rightarrow> bytes list \<Rightarrow> (frame_error option \<times> Frame list) \<times> FrameBuffer" where
  "read_all fb [] = ((None, []), fb)"
| "read_all fb (d # ds) =
     (case take_frames (feed fb d) of
        ((Some e, fs), fb') \<Rightarrow> ((Some e, fs), fb')
      | ((None, fs), fb') \<Rightarrow> (let ((e, gs), fb'') = read_all fb' ds in ((e, fs @ gs), fb'')))"

section \<open>The stream alone decides the frames\<close>

text \<open>The specification: cut the whole stream.\<close>

function cut_frames :: "bytes \<Rightarrow> (frame_error option \<times> Frame list) \<times> bytes" where
  "cut_frames xs =
     (if length xs < HEADER_LEN then ((None, []), xs)
      else let len = announced xs
           in if len > MAX_FRAME_LEN then ((Some (TooLong len MAX_FRAME_LEN), []), xs)
              else if length xs < HEADER_LEN + len then ((None, []), xs)
              else let ((e, fs), rest) = cut_frames (drop (HEADER_LEN + len) xs)
                   in ((e, (case tag_from_u8 (xs ! 0) of
                              None \<Rightarrow> fs
                            | Some t \<Rightarrow> \<lparr>tag = t, payload = take len (drop HEADER_LEN xs)\<rparr> # fs)), rest))"
  by pat_completeness auto
termination by (relation "measure length") (auto simp: HEADER_LEN_def)

declare cut_frames.simps [simp del]

definition avail :: "FrameBuffer \<Rightarrow> bytes" where
  "avail fb = drop (fb_head fb) (fb_buf fb)"

lemma avail_feed: "avail (feed fb d) = avail fb @ d"
  by (simp add: avail_def feed_def compact_def Let_def)

lemma head_feed: "fb_head (feed fb d) = 0"
  by (simp add: feed_def compact_def Let_def)

text \<open>One call of \<open>next\<close>, in terms of the cut.\<close>

lemma next_frame_cut:
  assumes "next_frame fb = (r, fb')"
  shows "case r of
      Inl e \<Rightarrow> cut_frames (avail fb) = ((Some e, []), avail fb')
    | Inr None \<Rightarrow> cut_frames (avail fb) = ((None, []), avail fb')
    | Inr (Some f) \<Rightarrow> cut_frames (avail fb)
        = (let ((e, fs), rest) = cut_frames (avail fb') in ((e, f # fs), rest))"
  using assms
proof (induction fb rule: next_frame.induct)
  case (1 fb)
  define xs where "xs = drop (fb_head fb) (fb_buf fb)"
  define len where "len = announced xs"
  let ?fb' = "fb\<lparr>fb_head := fb_head fb + (HEADER_LEN + len)\<rparr>"
  note eq = next_frame.simps [of fb, unfolded Let_def, folded xs_def, folded len_def]
  note ceq = cut_frames.simps [of xs, unfolded Let_def, folded len_def]
  have av: "avail fb = xs" "avail ?fb' = drop (HEADER_LEN + len) xs" by (simp_all add: avail_def xs_def add.commute)
  show ?case
  proof (cases "length xs < HEADER_LEN \<or> len > MAX_FRAME_LEN \<or> length xs < HEADER_LEN + len")
    case True
    then show ?thesis using "1.prems" eq ceq av by (auto split: if_splits)
  next
    case False
    show ?thesis
    proof (cases "tag_from_u8 (xs ! 0)")
      case None
      then have n: "next_frame ?fb' = (r, fb')" using "1.prems" eq False by simp
      have "cut_frames (avail fb) = cut_frames (avail ?fb')"
        using False None ceq av by (simp split: prod.splits)
      moreover note "1.IH" [OF xs_def _ len_def _ _ refl None n]
      ultimately show ?thesis using False by (simp split: sum.splits option.splits)
    next
      case (Some t)
      then show ?thesis using "1.prems" eq ceq False av by (auto split: prod.splits)
    qed
  qed
qed

lemma take_frames_cut: "cut_frames (avail fb) = (fst (take_frames fb), avail (snd (take_frames fb)))"
proof (induction fb rule: take_frames.induct)
  case (1 fb)
  obtain r fb1 where n: "next_frame fb = (r, fb1)" by fastforce
  note t = take_frames.simps [of fb, unfolded n]
  show ?case
  proof (cases r)
    case (Inl x)
    then show ?thesis using next_frame_cut [OF n] t by simp
  next
    case (Inr o1)
    show ?thesis
    proof (cases o1)
      case None
      then show ?thesis using next_frame_cut [OF n] t Inr by simp
    next
      case (Some f)
      have "cut_frames (avail fb1) = (fst (take_frames fb1), avail (snd (take_frames fb1)))"
        using "1.IH" n Inr Some by metis
      then show ?thesis using next_frame_cut [OF n] t Inr Some by (simp split: prod.splits)
    qed
  qed
qed

lemma announced_append: "\<not> length a < HEADER_LEN \<Longrightarrow> announced (a @ b) = announced a"
  by (simp add: announced_def HEADER_LEN_def nth_append)

lemma cut_append:
  assumes "cut_frames a = ((e, fs), r)"
  shows "cut_frames (a @ b) = (if e = None then (let ((e', gs), r') = cut_frames (r @ b) in ((e', fs @ gs), r'))
                               else ((e, fs), r @ b))"
  using assms
proof (induction a arbitrary: fs rule: cut_frames.induct)
  case (1 a)
  define len where "len = announced a"
  note eq = cut_frames.simps [of a, unfolded Let_def, folded len_def]
  have same: "(a @ b) ! 0 = a ! 0" "announced (a @ b) = len" if "\<not> length a < HEADER_LEN"
    using that announced_append [of a b] by (auto simp: nth_append len_def HEADER_LEN_def)
  consider (short) "length a < HEADER_LEN" | (long) "\<not> length a < HEADER_LEN" "len > MAX_FRAME_LEN"
    | (part) "\<not> length a < HEADER_LEN" "\<not> len > MAX_FRAME_LEN" "length a < HEADER_LEN + len"
    | (whole) "\<not> length a < HEADER_LEN" "\<not> len > MAX_FRAME_LEN" "\<not> length a < HEADER_LEN + len" by linarith
  then show ?case
  proof cases
    case short
    then show ?thesis using "1.prems" eq by (auto split: prod.splits)
  next
    case long
    then have "cut_frames (a @ b) = ((Some (TooLong len MAX_FRAME_LEN), []), a @ b)"
      using same by (subst cut_frames.simps) (simp add: Let_def)
    then show ?thesis using long "1.prems" eq by auto
  next
    case part
    then show ?thesis using "1.prems" eq by (auto split: prod.splits)
  next
    case whole
    obtain e1 gs r1 where c: "cut_frames (drop (HEADER_LEN + len) a) = ((e1, gs), r1)" by (metis prod.collapse)
    let ?cons = "\<lambda>gs. case tag_from_u8 (a ! 0) of None \<Rightarrow> gs
        | Some t \<Rightarrow> \<lparr>tag = t, payload = take len (drop HEADER_LEN a)\<rparr> # gs"
    have f: "e1 = e" "fs = ?cons gs" "r1 = r" using "1.prems" eq c whole by simp_all
    have "take len (drop HEADER_LEN (a @ b)) = take len (drop HEADER_LEN a)" using whole by simp
    moreover have "drop (HEADER_LEN + len) (a @ b) = drop (HEADER_LEN + len) a @ b" using whole by simp
    ultimately have "cut_frames (a @ b) = (let ((e', hs), r') = cut_frames (drop (HEADER_LEN + len) a @ b) in ((e', ?cons hs), r'))"
      using same [OF whole(1)] whole by (subst cut_frames.simps) (simp add: Let_def del: drop_append split: prod.splits option.splits)
    then show ?thesis
      using "1.IH" [OF whole(1) len_def whole(2,3) c [unfolded f(1) f(3)]] f by (auto split: prod.splits option.splits)
  qed
qed

lemma cut_none_again: "cut_frames a = ((None, fs), r) \<Longrightarrow> cut_frames r = ((None, []), r)"
proof (induction a arbitrary: fs rule: cut_frames.induct)
  case (1 a)
  define len where "len = announced a"
  note eq = cut_frames.simps [of a, unfolded Let_def, folded len_def]
  show ?case
  proof (cases "length a < HEADER_LEN \<or> len > MAX_FRAME_LEN \<or> length a < HEADER_LEN + len")
    case True
    then show ?thesis using "1.prems" eq by (auto split: if_splits)
  next
    case False
    obtain e1 gs r1 where c: "cut_frames (drop (HEADER_LEN + len) a) = ((e1, gs), r1)" by (metis prod.collapse)
    then have "e1 = None" "r1 = r" using "1.prems" eq False by simp_all
    then show ?thesis using "1.IH" [OF _ len_def] c False by simp
  qed
qed

text \<open>However the stream was cut into reads.\<close>

lemma read_all_cut:
  assumes "cut_frames (avail fb) = ((None, []), avail fb)" "read_all fb ds = ((e, fs), fb')"
  shows "fst (cut_frames (avail fb @ concat ds)) = (e, fs)"
    and "e = None \<Longrightarrow> cut_frames (avail fb @ concat ds) = ((None, fs), avail fb')"
proof -
  have "fst (cut_frames (avail fb @ concat ds)) = (e, fs)
      \<and> (e = None \<longrightarrow> cut_frames (avail fb @ concat ds) = ((None, fs), avail fb'))"
    using assms
  proof (induction ds arbitrary: fb fs)
    case Nil
    then show ?case by simp
  next
    case (Cons d ds)
    obtain e1 gs fb1 where t: "take_frames (feed fb d) = ((e1, gs), fb1)" by (metis prod.collapse)
    have c: "cut_frames (avail fb @ d) = ((e1, gs), avail fb1)"
      using take_frames_cut [of "feed fb d"] t by (simp add: avail_feed)
    show ?case
    proof (cases e1)
      case (Some x)
      then show ?thesis using Cons.prems t cut_append [OF c, of "concat ds"] by auto
    next
      case None
      obtain e2 hs fb2 where r: "read_all fb1 ds = ((e2, hs), fb2)" by (metis prod.collapse)
      have "cut_frames (avail fb1) = ((None, []), avail fb1)" using cut_none_again c None by simp
      moreover have "e2 = e" "fb2 = fb'" using Cons.prems(2) t r None by simp_all
      ultimately have ih: "fst (cut_frames (avail fb1 @ concat ds)) = (e, hs)"
        "e = None \<longrightarrow> cut_frames (avail fb1 @ concat ds) = ((None, hs), avail fb')"
        using Cons.IH [of fb1 hs] r by auto
      then show ?thesis using Cons.prems t r None cut_append [OF c, of "concat ds"] by (auto split: prod.splits)
    qed
  qed
  then show "fst (cut_frames (avail fb @ concat ds)) = (e, fs)"
    "e = None \<Longrightarrow> cut_frames (avail fb @ concat ds) = ((None, fs), avail fb')" by simp_all
qed

lemma cut_new: "cut_frames (avail buffer_new) = ((None, []), avail buffer_new)"
  by (subst cut_frames.simps) (simp add: buffer_new_def avail_def HEADER_LEN_def)

section \<open>Encoded frames come out\<close>

lemma tag_from_tag_byte: "tag_from_u8 (tag_byte t) = Some t"
  by (cases t) (simp_all add: tag_from_u8_def)

lemma tag_from_u8_Some: "tag_from_u8 b = Some t \<Longrightarrow> b = tag_byte t"
  by (auto simp: tag_from_u8_def split: if_splits)

definition wf_frame :: "Frame \<Rightarrow> bool" where
  "wf_frame f \<longleftrightarrow> length (payload f) \<le> MAX_FRAME_LEN"

definition frame_bytes :: "Frame \<Rightarrow> bytes" where
  "frame_bytes f = encode_frame (tag f) (payload f)"

lemma encode_frame_shape:
  assumes "length p \<le> MAX_FRAME_LEN"
  obtains a b c d where "encode_frame t p = tag_byte t # a # b # c # d # p"
    and "unat (of_le [a, b, c, d] :: u32) = length p"
proof -
  let ?w = "word_of_nat (length p) :: u32"
  obtain a b c d where l: "le_bytes 4 ?w = [a, b, c, d]"
    by (simp add: eval_nat_numeral)
  have "of_le [a, b, c, d] = ?w" using of_le_le_bytes [of 4 ?w] l by (simp del: of_le.simps)
  moreover have "unat ?w = length p"
    using assms by (simp add: MAX_FRAME_LEN_def unsigned_of_nat take_bit_nat_eq_self)
  ultimately show ?thesis using that l by (simp add: encode_frame_def append_frame_def del: of_le.simps)
qed

lemma cut_frame:
  assumes "wf_frame f"
  shows "cut_frames (frame_bytes f @ rest) = (let ((e, fs), r) = cut_frames rest in ((e, f # fs), r))"
proof -
  have len: "length (payload f) \<le> MAX_FRAME_LEN" using assms by (simp add: wf_frame_def)
  obtain a b c d where sh: "frame_bytes f = tag_byte (tag f) # a # b # c # d # payload f"
    "unat (of_le [a, b, c, d] :: u32) = length (payload f)"
    using encode_frame_shape [OF len, of "tag f"] by (metis frame_bytes_def)
  let ?x = "frame_bytes f @ rest"
  have an: "announced ?x = length (payload f)" using sh by (simp add: announced_def del: of_le.simps)
  have "length ?x \<ge> HEADER_LEN + length (payload f)" "drop (HEADER_LEN + length (payload f)) ?x = rest"
    "?x ! 0 = tag_byte (tag f)" "take (length (payload f)) (drop HEADER_LEN ?x) = payload f"
    by (simp_all add: sh HEADER_LEN_def eval_nat_numeral)
  then show ?thesis
    using an len by (subst cut_frames.simps) (simp add: Let_def tag_from_tag_byte split: prod.splits)
qed

lemma cut_nil: "cut_frames [] = ((None, []), [])"
  by (subst cut_frames.simps) (simp add: HEADER_LEN_def)

lemma cut_encoded: "\<forall>f \<in> set fs. wf_frame f \<Longrightarrow> cut_frames (concat (map frame_bytes fs)) = ((None, fs), [])"
  by (induction fs) (simp_all add: cut_nil cut_frame)

lemma read_all_frames:
  assumes "\<forall>f \<in> set fs. wf_frame f" "concat ds = concat (map frame_bytes fs)"
  shows "\<exists>fb. read_all buffer_new ds = ((None, fs), fb) \<and> avail fb = []"
proof -
  obtain e gs fb where r: "read_all buffer_new ds = ((e, gs), fb)" by (metis prod.collapse)
  have "cut_frames (avail buffer_new @ concat ds) = ((None, fs), [])"
    using cut_encoded [OF assms(1)] assms(2) by (simp add: avail_def buffer_new_def)
  then show ?thesis using read_all_cut [OF cut_new r] r by auto
qed

text \<open>What waits for more input is shorter than one maximal frame; an oversized header is refused
  before its payload is waited for.\<close>

lemma cut_rest_bound: "cut_frames a = ((None, fs), r) \<Longrightarrow> length r < HEADER_LEN + MAX_FRAME_LEN"
proof (induction a arbitrary: fs rule: cut_frames.induct)
  case (1 a)
  define len where "len = announced a"
  note eq = cut_frames.simps [of a, unfolded Let_def, folded len_def]
  show ?case
  proof (cases "length a < HEADER_LEN \<or> len > MAX_FRAME_LEN \<or> length a < HEADER_LEN + len")
    case True
    then show ?thesis using "1.prems" eq by (auto split: if_splits)
  next
    case False
    obtain e1 gs r1 where c: "cut_frames (drop (HEADER_LEN + len) a) = ((e1, gs), r1)" by (metis prod.collapse)
    then have "e1 = None" "r1 = r" using "1.prems" eq False by simp_all
    then show ?thesis using "1.IH" [OF _ len_def] c False by simp
  qed
qed

lemma cut_oversized:
  "HEADER_LEN \<le> length a \<Longrightarrow> announced a > MAX_FRAME_LEN \<Longrightarrow>
   cut_frames a = ((Some (TooLong (announced a) MAX_FRAME_LEN), []), a)"
  by (subst cut_frames.simps) (simp add: Let_def)

lemma decode_encode_resize: "decode_resize (encode_resize r c) = Some (r, c)"
proof -
  have "\<exists>x y. le_bytes 2 w = [x, y]" for w :: u16 by (simp add: eval_nat_numeral)
  then obtain a b x y where l: "le_bytes 2 r = [a, b]" "le_bytes 2 c = [x, y]" by metis
  then have "of_le [a, b] = r" "of_le [x, y] = c"
    using of_le_le_bytes [of 2 r] of_le_le_bytes [of 2 c] by (simp_all del: of_le.simps)
  then show ?thesis using l by (simp add: decode_resize_def encode_resize_def del: of_le.simps)
qed

lemma decode_encode_exit: "decode_exit (encode_exit code) = Some code"
  by (simp add: decode_exit_def encode_exit_def of_le_le_bytes)

lemma decode_encode_history: "decode_history_format (encode_history_format vt) = vt"
  by (simp add: decode_history_format_def encode_history_format_def)

section \<open>The session record\<close>

definition MAX_CMD_LEN :: nat where "MAX_CMD_LEN = 256"
definition MAX_CWD_LEN :: nat where "MAX_CWD_LEN = 256"
definition INFO_LEN :: nat where "INFO_LEN = 8 + 4 + 2 + 2 + MAX_CMD_LEN + MAX_CWD_LEN"

record SessionInfo =
  si_clients :: u64
  si_pid :: "32 word"
  si_cmd :: bytes
  si_cwd :: bytes

text \<open>\<open>str::split\<close> on one byte.\<close>

fun split_at :: "'a \<Rightarrow> 'a list \<Rightarrow> 'a list list" where
  "split_at c [] = [[]]"
| "split_at c (x # xs) =
     (if x = c then [] # split_at c xs
      else (case split_at c xs of [] \<Rightarrow> [[x]] | y # ys \<Rightarrow> (x # y) # ys))"

definition cmd_argv :: "SessionInfo \<Rightarrow> bytes list" where
  "cmd_argv si = filter (\<lambda>s. s \<noteq> []) (split_at 0 (si_cmd si))"

definition cmd_display :: "SessionInfo \<Rightarrow> bytes" where
  "cmd_display si = map (\<lambda>b. if b = 0 then 32 else b) (si_cmd si)"

text \<open>\<open>Vec::resize\<close> with zero bytes.\<close>

definition resize_zero :: "bytes \<Rightarrow> nat \<Rightarrow> bytes" where
  "resize_zero xs n = take n xs @ replicate (n - length xs) 0"

definition encode_info :: "SessionInfo \<Rightarrow> bytes" where
  "encode_info si =
     (let cmd_len = min (length (si_cmd si)) MAX_CMD_LEN;
          cwd_len = min (length (si_cwd si)) MAX_CWD_LEN;
          out1 = le_bytes 8 (si_clients si) @ le_bytes 4 (si_pid si)
                 @ le_bytes 2 (word_of_nat cmd_len :: u16) @ le_bytes 2 (word_of_nat cwd_len :: u16)
                 @ take cmd_len (si_cmd si);
          out2 = resize_zero out1 (16 + MAX_CMD_LEN) @ take cwd_len (si_cwd si)
      in resize_zero out2 INFO_LEN)"

definition part :: "'a list \<Rightarrow> nat \<Rightarrow> nat \<Rightarrow> 'a list" where
  "part xs a b = take (b - a) (drop a xs)"

definition decode_info :: "bytes \<Rightarrow> SessionInfo option" where
  "decode_info data =
     (if length data \<noteq> INFO_LEN then None
      else let cmd_len = min (unat (of_le (part data 12 14) :: u16)) MAX_CMD_LEN;
               cwd_len = min (unat (of_le (part data 14 16) :: u16)) MAX_CWD_LEN;
               cwd_start = 16 + MAX_CMD_LEN
           in Some \<lparr>si_clients = of_le (part data 0 8), si_pid = of_le (part data 8 12),
                    si_cmd = from_utf8_lossy (part data 16 (16 + cmd_len)),
                    si_cwd = from_utf8_lossy (part data cwd_start (cwd_start + cwd_len))\<rparr>)"

definition clip :: "nat \<Rightarrow> bytes \<Rightarrow> bytes" where
  "clip n s = from_utf8_lossy (take n s)"

lemma length_encode_info: "length (encode_info si) = INFO_LEN"
  by (simp add: encode_info_def resize_zero_def Let_def INFO_LEN_def)

lemma unat_of_nat_u16: "n \<le> 256 \<Longrightarrow> unat (word_of_nat n :: u16) = n"
  by (simp add: unsigned_of_nat take_bit_nat_eq_self)

lemma resize_zero_pad: "length xs \<le> n \<Longrightarrow> resize_zero xs n = xs @ replicate (n - length xs) 0"
  by (simp add: resize_zero_def)

text \<open>What comes back: the numbers, and both strings cut to their 256 bytes.\<close>

lemma decode_encode_info:
  "decode_info (encode_info si) = Some (si\<lparr>si_cmd := clip MAX_CMD_LEN (si_cmd si), si_cwd := clip MAX_CWD_LEN (si_cwd si)\<rparr>)"
proof -
  define c where "c = take MAX_CMD_LEN (si_cmd si)"
  define w where "w = take MAX_CWD_LEN (si_cwd si)"
  have lc: "length c \<le> 256" "min (length (si_cmd si)) MAX_CMD_LEN = length c" "take (length c) (si_cmd si) = c"
    by (auto simp: c_def MAX_CMD_LEN_def min_def)
  have lw: "length w \<le> 256" "min (length (si_cwd si)) MAX_CWD_LEN = length w" "take (length w) (si_cwd si) = w"
    by (auto simp: w_def MAX_CWD_LEN_def min_def)
  let ?a = "le_bytes 8 (si_clients si)" and ?b = "le_bytes 4 (si_pid si)"
  let ?m = "le_bytes 2 (word_of_nat (length c) :: u16)" and ?n = "le_bytes 2 (word_of_nat (length w) :: u16)"
  let ?z = "replicate (256 - length c) (0 :: u8)" and ?y = "replicate (256 - length w) (0 :: u8)"
  have e: "encode_info si = ?a @ ?b @ ?m @ ?n @ c @ ?z @ w @ ?y"
    using lc(1) lw(1) unfolding encode_info_def Let_def lc(2,3) lw(2,3)
    by (simp add: resize_zero_pad MAX_CMD_LEN_def MAX_CWD_LEN_def INFO_LEN_def)
  have p: "part (encode_info si) 0 8 = ?a" "part (encode_info si) 8 12 = ?b" "part (encode_info si) 12 14 = ?m"
    "part (encode_info si) 14 16 = ?n" "part (encode_info si) 16 (16 + length c) = c"
    "part (encode_info si) 272 (272 + length w) = w"
    using lc(1) lw(1) unfolding e by (simp_all add: part_def)
  have u: "unat (of_le ?m :: u16) = length c" "unat (of_le ?n :: u16) = length w"
    using lc(1) lw(1) by (simp_all add: of_le_le_bytes unat_of_nat_u16)
  show ?thesis
    using p u lc(1) lw(1) by (simp add: decode_info_def length_encode_info Let_def of_le_le_bytes MAX_CMD_LEN_def MAX_CWD_LEN_def
        clip_def c_def w_def)
qed

text \<open>Joining an argument vector with NUL keeps arguments with spaces apart.\<close>

fun join_nul :: "bytes list \<Rightarrow> bytes" where
  "join_nul [] = []"
| "join_nul [a] = a"
| "join_nul (a # b # args) = a @ 0 # join_nul (b # args)"

lemma split_at_prefix: "c \<notin> set a \<Longrightarrow> split_at c (a @ c # xs) = a # split_at c xs"
  by (induction a) auto

lemma split_at_none: "c \<notin> set a \<Longrightarrow> split_at c a = [a]"
  by (induction a) auto

lemma cmd_argv_join:
  assumes "\<forall>a \<in> set args. a \<noteq> [] \<and> 0 \<notin> set a" "si_cmd si = join_nul args"
  shows "cmd_argv si = args"
proof -
  have "filter (\<lambda>s. s \<noteq> []) (split_at 0 (join_nul args)) = args" using assms(1)
    by (induction args rule: join_nul.induct) (simp_all add: split_at_none split_at_prefix)
  then show ?thesis using assms(2) by (simp add: cmd_argv_def)
qed

end
