(* ===== verification/Target.thy ===== *)
theory Target
  imports Util
begin

text \<open>
  \<open>crates/posh/src/target.rs\<close>: the total grammar that reads a bare first argument as an attach
  target. \<open>parse\<close> keeps the rules in their order. The lemmas show that every well-formed target has
  an argument that names it, that what is parsed as a session part is never empty and has no colon,
  and that an IPv6 literal is a host.
\<close>

datatype Target =
    LocalSession string
  | Local "string option" string
  | Host "string option" string
  | RemoteSession "string option" string "string option" string

definition split_user :: "string \<Rightarrow> string option \<times> string" where
  "split_user s =
     (case split_once (CHR ''@'') s of
        Some (user, host) \<Rightarrow> if user \<noteq> [] \<and> host \<noteq> [] then (Some user, host) else (None, s)
      | None \<Rightarrow> (None, s))"

definition split_group :: "string \<Rightarrow> string option \<times> string" where
  "split_group s =
     (case split_once (CHR ''/'') s of
        Some (grp, session) \<Rightarrow> if grp \<noteq> [] \<and> session \<noteq> [] then (Some grp, session) else (None, s)
      | None \<Rightarrow> (None, s))"

definition colon_free :: "string \<Rightarrow> bool" where
  "colon_free s \<longleftrightarrow> CHR '':'' \<notin> set s"

fun strip_prefix :: "char \<Rightarrow> string \<Rightarrow> string option" where
  "strip_prefix c [] = None"
| "strip_prefix c (x # xs) = (if x = c then Some xs else None)"

text \<open>Rule 1: explicit local.\<close>

definition rule_local :: "string \<Rightarrow> Target option" where
  "rule_local arg =
     (case strip_prefix (CHR '':'') arg of
        None \<Rightarrow> None
      | Some rest \<Rightarrow>
          if rest \<noteq> [] \<and> colon_free rest then (let (grp, session) = split_group rest in Some (Local grp session))
          else if rest = [] then Some (LocalSession arg)
          else None)"

text \<open>Rule 2: bracketed host.\<close>

definition rule_bracket :: "string \<Rightarrow> Target option" where
  "rule_bracket arg =
     (case strip_prefix (CHR ''['') arg of
        None \<Rightarrow> None
      | Some inner \<Rightarrow>
          (case split_once (CHR '']'') inner of
             None \<Rightarrow> None
           | Some (host, suffix) \<Rightarrow>
               (case strip_prefix (CHR '':'') suffix of
                  Some session_part \<Rightarrow>
                    if session_part \<noteq> [] \<and> colon_free session_part
                    then (let (grp, session) = split_group session_part
                          in Some (RemoteSession None host grp session))
                    else Some (Host None host)
                | None \<Rightarrow> Some (Host None host))))"

text \<open>Rule 3: first-colon split; an empty session part is a trailing colon, one with a colon an IPv6
  literal.\<close>

definition rule_colon :: "string \<Rightarrow> Target option" where
  "rule_colon arg =
     (case split_once (CHR '':'') arg of
        None \<Rightarrow> None
      | Some (head, session_part) \<Rightarrow>
          if head \<noteq> [] \<and> session_part \<noteq> [] \<and> colon_free session_part
          then (let (user, host) = split_user head; (grp, session) = split_group session_part
                in Some (RemoteSession user host grp session))
          else (let raw = (if session_part = [] \<and> head \<noteq> [] then head else arg); (user, host) = split_user raw
                in Some (Host user host)))"

definition parse :: "string \<Rightarrow> Target" where
  "parse arg =
     (case rule_local arg of
        Some t \<Rightarrow> t
      | None \<Rightarrow>
          (case rule_bracket arg of
             Some t \<Rightarrow> t
           | None \<Rightarrow>
               (case rule_colon arg of
                  Some t \<Rightarrow> t
                | None \<Rightarrow>
                    if CHR ''@'' \<in> set arg \<or> CHR ''.'' \<in> set arg
                    then (let (user, host) = split_user arg in Host user host)
                    else LocalSession arg)))"

section \<open>Every well-formed target has a name\<close>

definition with_group :: "string option \<Rightarrow> string \<Rightarrow> string" where
  "with_group g s = (case g of None \<Rightarrow> s | Some g \<Rightarrow> g @ ''/'' @ s)"

definition bracketed :: "string \<Rightarrow> string" where
  "bracketed h = ''['' @ h @ '']''"

fun render :: "Target \<Rightarrow> string" where
  "render (LocalSession n) = n"
| "render (Local g s) = '':'' @ with_group g s"
| "render (Host None h) = bracketed h"
| "render (Host (Some u) h) = u @ ''@'' @ h"
| "render (RemoteSession None h g s) = bracketed h @ '':'' @ with_group g s"
| "render (RemoteSession (Some u) h g s) = u @ ''@'' @ h @ '':'' @ with_group g s"

definition wf_session :: "string option \<Rightarrow> string \<Rightarrow> bool" where
  "wf_session g s \<longleftrightarrow> s \<noteq> [] \<and> colon_free s
     \<and> (case g of
          None \<Rightarrow> (case split_once (CHR ''/'') s of None \<Rightarrow> True | Some (a, b) \<Rightarrow> a = [] \<or> b = [])
        | Some g \<Rightarrow> g \<noteq> [] \<and> colon_free g \<and> CHR ''/'' \<notin> set g)"

fun wf_target :: "Target \<Rightarrow> bool" where
  "wf_target (LocalSession n) \<longleftrightarrow> n = '':'' \<or> (colon_free n \<and> CHR ''@'' \<notin> set n \<and> CHR ''.'' \<notin> set n
     \<and> (case strip_prefix (CHR ''['') n of None \<Rightarrow> True | Some inner \<Rightarrow> CHR '']'' \<notin> set inner))"
| "wf_target (Local g s) \<longleftrightarrow> wf_session g s"
| "wf_target (Host None h) \<longleftrightarrow> CHR '']'' \<notin> set h"
| "wf_target (Host (Some u) h) \<longleftrightarrow> u \<noteq> [] \<and> h \<noteq> [] \<and> colon_free u \<and> colon_free h \<and> CHR ''@'' \<notin> set u \<and> hd u \<noteq> CHR ''[''"
| "wf_target (RemoteSession None h g s) \<longleftrightarrow> CHR '']'' \<notin> set h \<and> wf_session g s"
| "wf_target (RemoteSession (Some u) h g s) \<longleftrightarrow>
     u \<noteq> [] \<and> h \<noteq> [] \<and> colon_free u \<and> colon_free h \<and> CHR ''@'' \<notin> set u \<and> hd u \<noteq> CHR ''['' \<and> wf_session g s"

lemma split_group_with: "wf_session g s \<Longrightarrow> split_group (with_group g s) = (g, s)"
  by (auto simp: wf_session_def split_group_def with_group_def split_once_append split: option.splits)

lemma with_group_wf: "wf_session g s \<Longrightarrow> with_group g s \<noteq> [] \<and> colon_free (with_group g s)"
  by (auto simp: wf_session_def with_group_def colon_free_def split: option.splits)

lemma split_user_with: "u \<noteq> [] \<Longrightarrow> h \<noteq> [] \<Longrightarrow> CHR ''@'' \<notin> set u \<Longrightarrow> split_user (u @ CHR ''@'' # h) = (Some u, h)"
  by (simp add: split_user_def split_once_append)

lemma strip_hd: "u \<noteq> [] \<Longrightarrow> strip_prefix c (u @ xs) = (if hd u = c then Some (tl u @ xs) else None)"
  by (cases u) auto

lemma colon_free_hd: "colon_free u \<Longrightarrow> u \<noteq> [] \<Longrightarrow> hd u \<noteq> CHR '':''"
  by (cases u) (auto simp: colon_free_def)

lemma parse_render: "wf_target t \<Longrightarrow> parse (render t) = t"
proof (cases t)
  case (LocalSession n)
  assume wf: "wf_target t"
  show ?thesis
  proof (cases "n = '':''")
    case True
    then show ?thesis using LocalSession by (simp add: parse_def rule_local_def)
  next
    case False
    then have n: "colon_free n" "CHR ''@'' \<notin> set n" "CHR ''.'' \<notin> set n"
      "case strip_prefix (CHR ''['') n of None \<Rightarrow> True | Some inner \<Rightarrow> CHR '']'' \<notin> set inner"
      using wf LocalSession by auto
    have "rule_local n = None" using n(1) by (cases n) (auto simp: rule_local_def colon_free_def)
    moreover have "rule_bracket n = None"
      using n(4) by (auto simp: rule_bracket_def split_once_None [symmetric] split: option.splits)
    moreover have "rule_colon n = None" using n(1) split_once_None [of "CHR '':''" n] by (simp add: rule_colon_def colon_free_def)
    ultimately show ?thesis using n LocalSession by (simp add: parse_def)
  qed
next
  case (Local g s)
  assume "wf_target t"
  then show ?thesis using Local with_group_wf [of g s] split_group_with [of g s]
    by (simp add: parse_def rule_local_def)
next
  case (Host u h)
  assume wf: "wf_target t"
  show ?thesis
  proof (cases u)
    case None
    then show ?thesis using Host wf
      by (simp add: parse_def rule_local_def rule_bracket_def bracketed_def split_once_append)
  next
    case (Some u')
    then have u': "u' \<noteq> []" "h \<noteq> []" "colon_free u'" "colon_free h" "CHR ''@'' \<notin> set u'" "hd u' \<noteq> CHR ''[''"
      using Host wf by auto
    have "split_once (CHR '':'') (u' @ CHR ''@'' # h) = None"
      using u'(3,4) by (simp only: split_once_None) (auto simp: colon_free_def)
    then show ?thesis
      using u' colon_free_hd [OF u'(3,1)] Host Some
      by (simp add: parse_def rule_local_def rule_bracket_def rule_colon_def strip_hd split_user_with)
  qed
next
  case (RemoteSession u h g s)
  assume wf: "wf_target t"
  show ?thesis
  proof (cases u)
    case None
    then show ?thesis
      using RemoteSession wf with_group_wf [of g s] split_group_with [of g s]
      by (simp add: parse_def rule_local_def rule_bracket_def bracketed_def split_once_append)
  next
    case (Some u')
    then have u': "u' \<noteq> []" "h \<noteq> []" "colon_free u'" "colon_free h" "CHR ''@'' \<notin> set u'" "hd u' \<noteq> CHR ''[''" "wf_session g s"
      using RemoteSession wf by auto
    have "split_once (CHR '':'') ((u' @ CHR ''@'' # h) @ CHR '':'' # with_group g s) = Some (u' @ CHR ''@'' # h, with_group g s)"
      by (rule split_once_append) (use u' in \<open>auto simp: colon_free_def\<close>)
    then show ?thesis
      using u' colon_free_hd [OF u'(3,1)] RemoteSession Some with_group_wf [of g s] split_group_with [of g s]
      by (simp add: parse_def rule_local_def rule_bracket_def rule_colon_def strip_hd split_user_with)
  qed
qed

text \<open>Whatever the argument: a session part is never empty and never holds a colon.\<close>

fun session_of :: "Target \<Rightarrow> (string option \<times> string) option" where
  "session_of (Local g s) = Some (g, s)"
| "session_of (RemoteSession _ _ g s) = Some (g, s)"
| "session_of _ = None"

lemma split_group_wf:
  assumes "split_group x = (g, s)" "x \<noteq> []" "colon_free x"
  shows "wf_session g s" "with_group g s = x"
proof -
  have "wf_session g s \<and> with_group g s = x"
  proof (cases "split_once (CHR ''/'') x")
    case None
    then show ?thesis using assms by (simp add: split_group_def wf_session_def with_group_def)
  next
    case (Some ab)
    obtain a b where ab: "split_once (CHR ''/'') x = Some (a, b)" using Some by (cases ab) simp
    note x = split_once_Some [OF ab]
    show ?thesis
    proof (cases "a \<noteq> [] \<and> b \<noteq> []")
      case True
      then have "g = Some a" "s = b" using assms(1) ab by (simp_all add: split_group_def)
      then show ?thesis using True x assms(3) by (simp add: wf_session_def with_group_def colon_free_def)
    next
      case False
      then have "g = None" "s = x" using assms(1) ab by (auto simp: split_group_def)
      then show ?thesis using False ab assms(2,3) by (auto simp: wf_session_def with_group_def)
    qed
  qed
  then show "wf_session g s" "with_group g s = x" by simp_all
qed

lemma parse_session_wf: "session_of (parse arg) = Some (g, s) \<Longrightarrow> wf_session g s"
  using split_group_wf(1)
  by (auto simp: parse_def rule_local_def rule_bracket_def rule_colon_def Let_def
      split: option.splits if_splits prod.splits)

text \<open>An argument with two colons and no bracket in front is a host, with all its colons.\<close>

lemma parse_ipv6:
  assumes "2 \<le> count_list arg (CHR '':'')" "strip_prefix (CHR ''['') arg = None" "CHR ''@'' \<notin> set arg"
  shows "parse arg = Host None arg"
proof -
  obtain a b where ab: "split_once (CHR '':'') arg = Some (a, b)"
    using assms(1) split_once_None [of "CHR '':''" arg] by (cases "split_once (CHR '':'') arg") auto
  note s = split_once_Some [OF ab]
  have b: "\<not> colon_free b" "b \<noteq> []"
    using assms(1) s count_list_0_iff [of b "CHR '':''"] by (auto simp: colon_free_def)
  have u: "split_user arg = (None, arg)"
    using assms(3) split_once_None [of "CHR ''@''" arg] by (simp add: split_user_def)
  have "rule_local arg = None"
  proof (cases "strip_prefix (CHR '':'') arg")
    case (Some r)
    then have "a = []" "r = b" using s by (cases a; auto)+
    then show ?thesis using Some b by (simp add: rule_local_def)
  qed (simp add: rule_local_def)
  then show ?thesis using assms(2) ab b u by (simp add: parse_def rule_bracket_def rule_colon_def)
qed

end
