(* ===== verification/Client_Input.thy ===== *)
theory Client_Input
  imports Prelude
begin

text \<open>
  The byte-fed input filters: \<open>MouseFilter\<close> and the quit-sequence machine of
  \<open>crates/posh/src/remote/client.rs\<close>, \<open>DetachMatcher\<close> of \<open>crates/posh/src/session/client.rs\<close>, and
  \<open>strip_alt_screen_params\<close> and \<open>min_client_size\<close> of \<open>crates/posh/src/session/daemon.rs\<close>. The lemmas
  show that no filter depends on how the input was cut into reads, and that each one loses nothing
  but the sequences it is there to intercept.
\<close>

section \<open>Numbers in escape sequences\<close>

definition is_digit :: "u8 \<Rightarrow> bool" where
  "is_digit b \<longleftrightarrow> 48 \<le> b \<and> b \<le> 57"

definition digits_value :: "bytes \<Rightarrow> nat" where
  "digits_value bs = foldl (\<lambda>n b. 10 * n + (unat b - 48)) 0 bs"

text \<open>\<open>str::parse::<u32>()\<close> on a string of digits.\<close>

definition parse_u32 :: "bytes \<Rightarrow> nat option" where
  "parse_u32 bs = (if bs \<noteq> [] \<and> list_all is_digit bs \<and> digits_value bs < 2 ^ 32 then Some (digits_value bs) else None)"

fun split_on :: "u8 \<Rightarrow> bytes \<Rightarrow> bytes list" where
  "split_on c [] = [[]]"
| "split_on c (x # xs) =
     (if x = c then [] # split_on c xs else (x # hd (split_on c xs)) # tl (split_on c xs))"

section \<open>The wheel filter\<close>

definition MAX_MOUSE_SEQ :: nat where "MAX_MOUSE_SEQ = 32"

datatype MouseState = Ground | Esc | Bracket | Body

record MouseFilter =
  mf_state :: MouseState
  mf_pending :: bytes

definition mouse_filter_new :: MouseFilter where
  "mouse_filter_new = \<lparr>mf_state = Ground, mf_pending = []\<rparr>"

definition arrow_up :: "bool \<Rightarrow> bytes" where
  "arrow_up app_cursor_keys = (if app_cursor_keys then [0x1b, 79, 65] else [0x1b, 91, 65])"

definition arrow_down :: "bool \<Rightarrow> bytes" where
  "arrow_down app_cursor_keys = (if app_cursor_keys then [0x1b, 79, 66] else [0x1b, 91, 66])"

definition mouse_flush :: "MouseFilter \<times> bytes \<Rightarrow> MouseFilter \<times> bytes" where
  "mouse_flush s = (\<lparr>mf_state = Ground, mf_pending = []\<rparr>, snd s @ mf_pending (fst s))"

definition ground_step :: "u8 \<Rightarrow> MouseFilter \<times> bytes \<Rightarrow> MouseFilter \<times> bytes" where
  "ground_step b s =
     (if b = 0x1b then ((fst s)\<lparr>mf_pending := mf_pending (fst s) @ [b], mf_state := Esc\<rparr>, snd s)
      else (fst s, snd s @ [b]))"

text \<open>The complete sequence: its first field is the button code.\<close>

definition mouse_translate :: "bool \<Rightarrow> bytes \<Rightarrow> bytes" where
  "mouse_translate app_cursor_keys body =
     (case parse_u32 (hd (split_on 59 body)) of
        Some cb \<Rightarrow> if cb = 64 then arrow_up app_cursor_keys else if cb = 65 then arrow_down app_cursor_keys else []
      | None \<Rightarrow> [])"

definition mouse_step :: "bool \<Rightarrow> u8 \<Rightarrow> MouseFilter \<times> bytes \<Rightarrow> MouseFilter \<times> bytes" where
  "mouse_step app_cursor_keys b s =
     (let m = fst s; out = snd s
      in case mf_state m of
           Ground \<Rightarrow> ground_step b s
         | Esc \<Rightarrow>
             if b = 91 then (m\<lparr>mf_pending := mf_pending m @ [b], mf_state := Bracket\<rparr>, out)
             else ground_step b (mouse_flush s)
         | Bracket \<Rightarrow>
             if b = 60 then (m\<lparr>mf_pending := mf_pending m @ [b], mf_state := Body\<rparr>, out)
             else ground_step b (mouse_flush s)
         | Body \<Rightarrow>
             if b = 77 \<or> b = 109
             then (m\<lparr>mf_pending := [], mf_state := Ground\<rparr>, out @ mouse_translate app_cursor_keys (drop 3 (mf_pending m)))
             else if is_digit b \<or> b = 59
             then (let s' = (m\<lparr>mf_pending := mf_pending m @ [b]\<rparr>, out)
                   in if length (mf_pending (fst s')) > MAX_MOUSE_SEQ then mouse_flush s' else s')
             else ground_step b (mouse_flush s))"

definition mouse_feed :: "bool \<Rightarrow> bytes \<Rightarrow> MouseFilter \<Rightarrow> MouseFilter \<times> bytes" where
  "mouse_feed app_cursor_keys buf m = foldl (\<lambda>s b. mouse_step app_cursor_keys b s) (m, []) buf"

definition take_pending :: "MouseFilter \<Rightarrow> MouseFilter \<times> bytes" where
  "take_pending m = (\<lparr>mf_state = Ground, mf_pending = []\<rparr>, mf_pending m)"

section \<open>The quit-sequence machine\<close>

definition ESCAPE_KEY :: u8 where "ESCAPE_KEY = 0x1e"
definition ESCAPE_PASS_KEY :: u8 where "ESCAPE_PASS_KEY = 94"

datatype input_action = PushByte u8 | RequestShutdown | Suspend | Repaint

text \<open>One byte of \<open>process_user_input\<close>: the new \<open>quit_pending\<close> and what is done, in order.\<close>

definition user_byte :: "bool \<Rightarrow> u8 \<Rightarrow> bool \<times> input_action list" where
  "user_byte quit_pending b =
     (if quit_pending
      then (False,
            if b = 46 then [RequestShutdown]
            else if b = 0x1a then [Suspend]
            else if b = ESCAPE_KEY \<or> b = ESCAPE_PASS_KEY then [PushByte ESCAPE_KEY]
            else [PushByte ESCAPE_KEY, PushByte b])
      else if b = ESCAPE_KEY then (True, [])
      else (False, (if b = 0x0c then [Repaint] else []) @ [PushByte b]))"

fun user_input :: "bool \<Rightarrow> bytes \<Rightarrow> bool \<times> input_action list" where
  "user_input q [] = (q, [])"
| "user_input q (b # bs) =
     (let (q', as) = user_byte q b; (q'', as') = user_input q' bs in (q'', as @ as'))"

definition pushed :: "input_action list \<Rightarrow> bytes" where
  "pushed as = concat (map (\<lambda>a. case a of PushByte b \<Rightarrow> [b] | _ \<Rightarrow> []) as)"

section \<open>The detach key\<close>

definition KITTY_DETACH_SEQS :: "bytes list" where
  "KITTY_DETACH_SEQS = [[0x1b, 91, 57, 50, 59, 53, 117], [0x1b, 91, 57, 50, 59, 53, 58, 49, 117]]"

datatype KittyMatch = MFull | MPartial | MNo

definition match_kitty_detach :: "bytes \<Rightarrow> KittyMatch" where
  "match_kitty_detach s =
     (if list_ex (\<lambda>seq. length s \<ge> length seq \<and> take (length seq) s = seq) KITTY_DETACH_SEQS then MFull
      else if list_ex (\<lambda>seq. length s < length seq \<and> take (length s) seq = s) KITTY_DETACH_SEQS then MPartial
      else MNo)"

record DetachMatcher =
  carry :: bytes

fun detach_loop :: "bytes \<Rightarrow> bytes \<Rightarrow> bytes \<times> bytes \<times> bool" where
  "detach_loop [] forward = ([], forward, False)"
| "detach_loop (b # rest) forward =
     (if b = 0x1c then ([], forward, True)
      else if b = 0x1b
      then (case match_kitty_detach (b # rest) of
              MFull \<Rightarrow> ([], forward, True)
            | MPartial \<Rightarrow> (b # rest, forward, False)
            | MNo \<Rightarrow> detach_loop rest (forward @ [b]))
      else detach_loop rest (forward @ [b]))"

definition detach_feed :: "DetachMatcher \<Rightarrow> bytes \<Rightarrow> DetachMatcher \<times> bytes \<times> bool" where
  "detach_feed m input = (let (c, f, d) = detach_loop (carry m @ input) [] in (\<lparr>carry = c\<rparr>, f, d))"

section \<open>Alternate-screen modes in a mode sequence\<close>

fun intercalate :: "bytes \<Rightarrow> bytes list \<Rightarrow> bytes" where
  "intercalate s [] = []"
| "intercalate s [x] = x"
| "intercalate s (x # y # xs) = x @ s @ intercalate s (y # xs)"

definition is_switch_mode :: "bytes \<Rightarrow> bool" where
  "is_switch_mode p \<longleftrightarrow> (case parse_u32 p of None \<Rightarrow> False | Some n \<Rightarrow> n = 47 \<or> n = 1047 \<or> n = 1049)"

definition strip_alt_screen_params :: "bytes \<Rightarrow> bytes option" where
  "strip_alt_screen_params s =
     (if take 3 s \<noteq> [0x1b, 91, 63] then None
      else let body = drop 3 s
           in if body = [] then None
              else let final_byte = last body; parts = split_on 59 (butlast body)
                   in if final_byte \<noteq> 104 \<and> final_byte \<noteq> 108 then None
                      else if \<not> list_all (list_all is_digit) parts then None
                      else let kept = filter (\<lambda>p. \<not> is_switch_mode p) parts
                           in if kept = [] then None
                              else Some ([0x1b, 91, 63] @ intercalate [59] kept @ [final_byte]))"

section \<open>The shared size\<close>

fun min_size_loop :: "(u16 \<times> u16) list \<Rightarrow> (u16 \<times> u16) option \<Rightarrow> (u16 \<times> u16) option" where
  "min_size_loop [] acc = acc"
| "min_size_loop ((rows, cols) # cs) acc =
     (if rows = 0 \<or> cols = 0 then min_size_loop cs acc
      else min_size_loop cs (Some (case acc of None \<Rightarrow> (rows, cols) | Some (r, w) \<Rightarrow> (min r rows, min w cols))))"

definition min_client_size :: "(u16 \<times> u16) list \<Rightarrow> (u16 \<times> u16) option" where
  "min_client_size clients = min_size_loop clients None"

section \<open>The wheel filter loses only mouse sequences\<close>

lemma mouse_feed_append:
  "mouse_feed k (a @ b) m = (let (m', out) = mouse_feed k a m; (m'', out') = mouse_feed k b m' in (m'', out @ out'))"
proof -
  have step: "mouse_step k c (m', out) = (fst (mouse_step k c (m', [])), out @ snd (mouse_step k c (m', [])))" for c m' out
    by (cases "mf_state m'") (auto simp: mouse_step_def ground_step_def mouse_flush_def Let_def)
  have "foldl (\<lambda>s b. mouse_step k b s) (m', out) b
      = (fst (foldl (\<lambda>s b. mouse_step k b s) (m', []) b), out @ snd (foldl (\<lambda>s b. mouse_step k b s) (m', []) b))" for m' out
  proof (induction b arbitrary: m' out)
    case Nil
    then show ?case by simp
  next
    case (Cons c b)
    let ?s = "mouse_step k c (m', [])"
    have 1: "foldl (\<lambda>s b. mouse_step k b s) (mouse_step k c (m', out)) b
        = (fst (foldl (\<lambda>s b. mouse_step k b s) (fst ?s, []) b), (out @ snd ?s) @ snd (foldl (\<lambda>s b. mouse_step k b s) (fst ?s, []) b))"
      unfolding step [of c m' out] by (rule Cons.IH)
    have 2: "foldl (\<lambda>s b. mouse_step k b s) ?s b
        = (fst (foldl (\<lambda>s b. mouse_step k b s) (fst ?s, []) b), snd ?s @ snd (foldl (\<lambda>s b. mouse_step k b s) (fst ?s, []) b))"
      using Cons.IH [of "fst ?s" "snd ?s"] by simp
    show ?case by (simp add: 1 2)
  qed
  from this [of "fst (mouse_feed k a m)" "snd (mouse_feed k a m)"] show ?thesis
    by (simp add: mouse_feed_def case_prod_beta)
qed

text \<open>The input as the filter reads it: single bytes and complete mouse sequences.\<close>

datatype segment = Plain u8 | Mouse bytes u8

fun raw :: "segment \<Rightarrow> bytes" where
  "raw (Plain b) = [b]"
| "raw (Mouse body f) = [0x1b, 91, 60] @ body @ [f]"

fun cooked :: "bool \<Rightarrow> segment \<Rightarrow> bytes" where
  "cooked k (Plain b) = [b]"
| "cooked k (Mouse body f) = mouse_translate k body"

definition mouse_body :: "bytes \<Rightarrow> bool" where
  "mouse_body body \<longleftrightarrow> list_all (\<lambda>b. is_digit b \<or> b = 59) body \<and> length body + 3 \<le> MAX_MOUSE_SEQ"

fun wf_segment :: "segment \<Rightarrow> bool" where
  "wf_segment (Plain b) \<longleftrightarrow> True"
| "wf_segment (Mouse body f) \<longleftrightarrow> mouse_body body \<and> (f = 77 \<or> f = 109)"

definition mouse_wf :: "MouseFilter \<Rightarrow> bool" where
  "mouse_wf m \<longleftrightarrow>
     (case mf_state m of
        Ground \<Rightarrow> mf_pending m = []
      | Esc \<Rightarrow> mf_pending m = [0x1b]
      | Bracket \<Rightarrow> mf_pending m = [0x1b, 91]
      | Body \<Rightarrow> (\<exists>body. mf_pending m = [0x1b, 91, 60] @ body \<and> mouse_body body))"

definition mouse_reads :: "bool \<Rightarrow> bytes \<Rightarrow> MouseFilter \<times> bytes \<Rightarrow> bool" where
  "mouse_reads k input s \<longleftrightarrow> mouse_wf (fst s)
     \<and> (\<exists>segs. list_all wf_segment segs \<and> input = concat (map raw segs) @ mf_pending (fst s)
          \<and> snd s = concat (map (cooked k) segs))"

lemma concat_raw_plain: "concat (map raw (map Plain bs)) = bs" "concat (map (cooked k) (map Plain bs)) = bs"
  by (induction bs) auto

lemma mouse_wf_pending: "mouse_wf m \<Longrightarrow> length (mf_pending m) \<le> MAX_MOUSE_SEQ"
  by (auto simp: mouse_wf_def mouse_body_def MAX_MOUSE_SEQ_def split: MouseState.splits)

lemma mouse_reads_flush:
  assumes "mouse_reads k input s"
  shows "mouse_reads k input (mouse_flush s)"
proof -
  obtain segs where s: "list_all wf_segment segs" "input = concat (map raw segs) @ mf_pending (fst s)"
    "snd s = concat (map (cooked k) segs)" using assms by (auto simp: mouse_reads_def)
  let ?segs = "segs @ map Plain (mf_pending (fst s))"
  have "list_all wf_segment ?segs" using s(1) by (auto simp: list_all_iff)
  moreover have "input = concat (map raw ?segs)" using s(2) concat_raw_plain by simp
  moreover have "snd (mouse_flush s) = concat (map (cooked k) ?segs)"
    using s(3) concat_raw_plain by (simp add: mouse_flush_def)
  ultimately show ?thesis
    unfolding mouse_reads_def by (intro conjI exI [of _ ?segs]) (simp_all add: mouse_flush_def mouse_wf_def)
qed

lemma mouse_reads_ground:
  assumes "mouse_reads k input s" "mf_state (fst s) = Ground"
  shows "mouse_reads k (input @ [b]) (ground_step b s)"
proof -
  have p: "mf_pending (fst s) = []" using assms by (simp add: mouse_reads_def mouse_wf_def)
  obtain segs where s: "list_all wf_segment segs" "input = concat (map raw segs)" "snd s = concat (map (cooked k) segs)"
    using assms p by (auto simp: mouse_reads_def)
  show ?thesis
  proof (cases "b = 0x1b")
    case True
    then show ?thesis using s p unfolding mouse_reads_def
      by (intro conjI exI [of _ segs]) (simp_all add: ground_step_def mouse_wf_def)
  next
    case False
    then show ?thesis using s p assms(2) unfolding mouse_reads_def
      by (intro conjI exI [of _ "segs @ [Plain b]"]) (simp_all add: ground_step_def mouse_wf_def)
  qed
qed

lemma mouse_reads_push:
  assumes "mouse_reads k input s" "mouse_wf m" "mf_pending m = mf_pending (fst s) @ [b]"
  shows "mouse_reads k (input @ [b]) (m, snd s)"
  using assms by (auto simp: mouse_reads_def)

lemma flush_state: "mf_state (fst (mouse_flush s)) = Ground"
  by (simp add: mouse_flush_def)

lemma mouse_reads_step:
  assumes "mouse_reads k input s"
  shows "mouse_reads k (input @ [b]) (mouse_step k b s)"
proof -
  obtain m out where s: "s = (m, out)" by (cases s)
  have wf: "mouse_wf m" using assms by (simp add: mouse_reads_def s)
  note ground = mouse_reads_ground [OF mouse_reads_flush [OF assms] flush_state, of b]
  show ?thesis
  proof (cases "mf_state m")
    case Ground
    then show ?thesis using mouse_reads_ground [OF assms] by (simp add: mouse_step_def s)
  next
    case Esc
    have "mouse_reads k (input @ [b]) (m\<lparr>mf_pending := mf_pending m @ [b], mf_state := Bracket\<rparr>, out)" if "b = 91"
      using mouse_reads_push [OF assms, of "m\<lparr>mf_pending := mf_pending m @ [b], mf_state := Bracket\<rparr>" b] that wf Esc
      by (simp add: s mouse_wf_def)
    then show ?thesis using Esc ground by (simp add: mouse_step_def s Let_def)
  next
    case Bracket
    have "mouse_reads k (input @ [b]) (m\<lparr>mf_pending := mf_pending m @ [b], mf_state := Body\<rparr>, out)" if "b = 60"
      using mouse_reads_push [OF assms, of "m\<lparr>mf_pending := mf_pending m @ [b], mf_state := Body\<rparr>" b] that wf Bracket
      by (simp add: s mouse_wf_def mouse_body_def MAX_MOUSE_SEQ_def)
    then show ?thesis using Bracket ground by (simp add: mouse_step_def s Let_def)
  next
    case Body
    then obtain body where body: "mf_pending m = [0x1b, 91, 60] @ body" "mouse_body body"
      using wf by (auto simp: mouse_wf_def)
    consider (final) "b = 77 \<or> b = 109" | (more) "\<not> (b = 77 \<or> b = 109)" "is_digit b \<or> b = 59"
      | (other) "\<not> (b = 77 \<or> b = 109)" "\<not> (is_digit b \<or> b = 59)" by blast
    then show ?thesis
    proof cases
      case final
      obtain segs where sg: "list_all wf_segment segs" "input = concat (map raw segs) @ mf_pending m" "out = concat (map (cooked k) segs)"
        using assms by (auto simp: mouse_reads_def s)
      have "mouse_step k b s = (m\<lparr>mf_pending := [], mf_state := Ground\<rparr>, out @ mouse_translate k body)"
        using Body final body(1) by (simp add: mouse_step_def s Let_def)
      then show ?thesis using sg body final unfolding mouse_reads_def
        by (intro conjI exI [of _ "segs @ [Mouse body b]"]) (simp_all add: mouse_wf_def)
    next
      case more
      let ?m = "m\<lparr>mf_pending := mf_pending m @ [b]\<rparr>"
      have st: "mouse_step k b s = (if length (mf_pending ?m) > MAX_MOUSE_SEQ then mouse_flush (?m, out) else (?m, out))"
        using Body more by (simp add: mouse_step_def s Let_def)
      show ?thesis
      proof (cases "length (mf_pending ?m) > MAX_MOUSE_SEQ")
        case True
        obtain segs where sg: "list_all wf_segment segs" "input = concat (map raw segs) @ mf_pending m" "out = concat (map (cooked k) segs)"
          using assms by (auto simp: mouse_reads_def s)
        let ?segs = "segs @ map Plain (mf_pending m @ [b])"
        have "list_all wf_segment ?segs" using sg(1) by (auto simp: list_all_iff)
        moreover have "input @ [b] = concat (map raw ?segs)" using sg(2) concat_raw_plain(1) [of "mf_pending m"] by simp
        moreover have "snd (mouse_flush (?m, out)) = concat (map (cooked k) ?segs)"
          using sg(3) concat_raw_plain(2) [of k "mf_pending m"] by (simp add: mouse_flush_def)
        ultimately show ?thesis using True unfolding st mouse_reads_def
          by (intro conjI exI [of _ ?segs]) (simp_all add: mouse_flush_def mouse_wf_def)
      next
        case False
        have "mouse_wf ?m" using Body body more False
          by (simp add: mouse_wf_def) (simp add: mouse_body_def)
        then show ?thesis using mouse_reads_push [OF assms, of ?m b] False unfolding st by (simp add: s)
      qed
    next
      case other
      then show ?thesis using Body ground by (simp add: mouse_step_def s Let_def)
    qed
  qed
qed

lemma mouse_reads_feed:
  assumes "mouse_reads k input (m, out)"
  shows "mouse_reads k (input @ buf) (foldl (\<lambda>s b. mouse_step k b s) (m, out) buf)"
  using assms
proof (induction buf arbitrary: input m out)
  case Nil
  then show ?case by simp
next
  case (Cons b buf)
  obtain m' out' where "mouse_step k b (m, out) = (m', out')" by fastforce
  then show ?case using Cons.IH [of "input @ [b]" m' out'] mouse_reads_step [OF Cons.prems, of b] by simp
qed

lemma mouse_reads_new: "mouse_reads k [] (mouse_filter_new, [])"
  by (auto simp: mouse_reads_def mouse_wf_def mouse_filter_new_def intro: exI [of _ "[]"])

section \<open>The detach scan does not depend on the reads\<close>

lemma match_append:
  "match_kitty_detach s = MFull \<Longrightarrow> match_kitty_detach (s @ t) = MFull"
  "match_kitty_detach s = MNo \<Longrightarrow> match_kitty_detach (s @ t) = MNo"
proof -
  have iff: "match_kitty_detach u = MFull \<longleftrightarrow> (\<exists>seq \<in> set KITTY_DETACH_SEQS. length u \<ge> length seq \<and> take (length seq) u = seq)" for u
    by (simp add: match_kitty_detach_def list_ex_iff)
  have full: "length seq \<le> length s \<Longrightarrow> take (length seq) s = seq \<Longrightarrow> length seq \<le> length (s @ t) \<and> take (length seq) (s @ t) = seq" for seq
    by simp
  then show "match_kitty_detach s = MFull \<Longrightarrow> match_kitty_detach (s @ t) = MFull"
    unfolding iff by blast
  assume no: "match_kitty_detach s = MNo"
  have "\<not> (length seq \<le> length (s @ t) \<and> take (length seq) (s @ t) = seq)"
    "\<not> (length (s @ t) < length seq \<and> take (length (s @ t)) seq = s @ t)" if seq: "seq \<in> set KITTY_DETACH_SEQS" for seq
  proof -
    have n: "\<not> (length seq \<le> length s \<and> take (length seq) s = seq)" "\<not> (length s < length seq \<and> take (length s) seq = s)"
      using no seq by (auto simp: match_kitty_detach_def list_ex_iff split: if_splits)
    show "\<not> (length (s @ t) < length seq \<and> take (length (s @ t)) seq = s @ t)"
    proof
      assume a: "length (s @ t) < length seq \<and> take (length (s @ t)) seq = s @ t"
      then have "take (length s) (take (length (s @ t)) seq) = take (length s) (s @ t)" by simp
      then show False using a n(2) by simp
    qed
    show "\<not> (length seq \<le> length (s @ t) \<and> take (length seq) (s @ t) = seq)"
    proof
      assume a: "length seq \<le> length (s @ t) \<and> take (length seq) (s @ t) = seq"
      show False
      proof (cases "length seq \<le> length s")
        case True
        then show False using a n(1) by simp
      next
        case False
        then have "take (length s) seq = s" using a by (metis append_eq_conv_conj le_cases take_all_iff take_append take_take min.absorb1 nat_le_linear)
        then show False using False n(2) by simp
      qed
    qed
  qed
  then show "match_kitty_detach (s @ t) = MNo"
    unfolding match_kitty_detach_def list_ex_iff by auto
qed

lemma detach_loop_forward:
  "detach_loop data forward = (let (c, f, d) = detach_loop data [] in (c, forward @ f, d))"
proof (induction data arbitrary: forward)
  case Nil
  then show ?case by simp
next
  case (Cons b rest)
  have r: "detach_loop rest (forward @ [b]) = (let (c, f, d) = detach_loop rest [b] in (c, forward @ f, d))"
    using Cons [of "forward @ [b]"] Cons [of "[b]"] by (simp split: prod.splits)
  show ?case
  proof (cases "b = 0x1b")
    case True
    then show ?thesis using r by (cases "match_kitty_detach (0x1b # rest)") simp_all
  next
    case False
    then show ?thesis using r by simp
  qed
qed

lemma detach_loop_append:
  assumes "detach_loop a [] = (c, f, d)"
  shows "detach_loop (a @ t) [] = (if d then ([], f, True)
                                   else (let (c', f', d') = detach_loop (c @ t) [] in (c', f @ f', d')))"
  using assms
proof (induction a arbitrary: c f d)
  case Nil
  then show ?case by (simp split: prod.splits)
next
  case (Cons b a)
  obtain c1 f1 d1 where l: "detach_loop a [] = (c1, f1, d1)" using prod_cases3 by blast
  have fwd: "detach_loop xs [b] = (let (c, f, d) = detach_loop xs [] in (c, b # f, d))" for xs
    using detach_loop_forward [of xs "[b]"] by simp
  show ?case
  proof (cases "b = 0x1c")
    case True
    then show ?thesis using Cons.prems by simp
  next
    case not_raw: False
    show ?thesis
    proof (cases "b = 0x1b \<and> match_kitty_detach (b # a) \<noteq> MNo")
      case True
      then show ?thesis
        using Cons.prems match_append(1) [of "b # a" t] by (cases "match_kitty_detach (b # a)") (auto split: prod.splits)
    next
      case False
      then have m: "b = 0x1b \<Longrightarrow> match_kitty_detach (b # a @ t) = MNo" using match_append(2) [of "b # a" t] by simp
      have "(c, f, d) = (c1, b # f1, d1)" using Cons.prems False not_raw l fwd [of a] by (cases "b = 0x1b") auto
      moreover have "detach_loop ((b # a) @ t) [] = (let (c, f, d) = detach_loop (a @ t) [] in (c, b # f, d))"
        using not_raw m fwd [of "a @ t"] by (cases "b = 0x1b") auto
      ultimately show ?thesis using Cons.IH [OF l] by (auto split: prod.splits)
    qed
  qed
qed

lemma detach_loop_lossless: "detach_loop data [] = (c, f, False) \<Longrightarrow> data = f @ c"
proof (induction data arbitrary: c f)
  case Nil
  then show ?case by simp
next
  case (Cons b rest)
  obtain c1 f1 d1 where l: "detach_loop rest [] = (c1, f1, d1)" using prod_cases3 by blast
  have "detach_loop rest [b] = (c1, b # f1, d1)" using detach_loop_forward [of rest "[b]"] l by simp
  then show ?case using Cons.prems Cons.IH [of c1 f1] l by (auto split: if_splits KittyMatch.splits)
qed

text \<open>Any cut of the input into reads, none of which detaches.\<close>

fun detach_reads :: "DetachMatcher \<Rightarrow> bytes list \<Rightarrow> DetachMatcher \<times> bytes \<times> bool" where
  "detach_reads m [] = (m, [], False)"
| "detach_reads m (x # xs) =
     (let (m', f, d) = detach_feed m x
      in if d then (m', f, True) else (let (m'', g, e) = detach_reads m' xs in (m'', f @ g, e)))"

lemma detach_feed_append:
  "detach_feed m (a @ b) =
     (let (m', f, d) = detach_feed m a
      in if d then (m', f, True) else (let (m'', g, e) = detach_feed m' b in (m'', f @ g, e)))"
proof -
  obtain c f d where l: "detach_loop (carry m @ a) [] = (c, f, d)" using prod_cases3 by blast
  have "d \<Longrightarrow> c = []"
    using l
  proof -
    have "detach_loop x [] = (c, f, True) \<Longrightarrow> c = []" for x
    proof (induction x arbitrary: f)
      case Nil
      then show ?case by simp
    next
      case (Cons b x)
      obtain c1 f1 d1 where l1: "detach_loop x [] = (c1, f1, d1)" using prod_cases3 by blast
      have "detach_loop x [b] = (c1, b # f1, d1)" using detach_loop_forward [of x "[b]"] l1 by simp
      then show ?case using Cons l1 by (auto split: if_splits KittyMatch.splits)
    qed
    then show "d \<Longrightarrow> c = []" using l by auto
  qed
  then show ?thesis using detach_loop_append [OF l, of b] l by (auto simp: detach_feed_def split: prod.splits)
qed

lemma detach_reads_concat:
  "xs \<noteq> [] \<Longrightarrow> detach_reads m xs = detach_feed m (concat xs)"
proof (induction xs arbitrary: m)
  case Nil
  then show ?case by simp
next
  case (Cons x xs)
  show ?case
  proof (cases "xs = []")
    case True
    then show ?thesis by (auto split: prod.splits)
  next
    case False
    then show ?thesis using Cons.IH detach_feed_append [of m x "concat xs"] by (simp split: prod.splits)
  qed
qed

section \<open>Typed bytes reach the stream\<close>

lemma user_input_append:
  "user_input q (a @ b) = (let (q', as) = user_input q a; (q'', bs) = user_input q' b in (q'', as @ bs))"
  by (induction a arbitrary: q) (simp_all split: prod.splits)

lemma pushed_append [simp]: "pushed (as @ bs) = pushed as @ pushed bs"
  by (simp add: pushed_def)

lemma user_input_plain:
  "ESCAPE_KEY \<notin> set bs \<Longrightarrow> fst (user_input False bs) = False \<and> pushed (snd (user_input False bs)) = bs"
  by (induction bs) (auto simp: user_byte_def pushed_def split: prod.splits)

text \<open>Doubling the escape key sends any bytes literally.\<close>

definition escape_literal :: "bytes \<Rightarrow> bytes" where
  "escape_literal bs = concat (map (\<lambda>b. if b = ESCAPE_KEY then [b, b] else [b]) bs)"

lemma user_input_literal:
  "\<exists>as. user_input False (escape_literal bs) = (False, as) \<and> pushed as = bs
      \<and> RequestShutdown \<notin> set as \<and> Suspend \<notin> set as"
proof (induction bs)
  case Nil
  then show ?case by (simp add: escape_literal_def pushed_def)
next
  case (Cons b bs)
  then obtain as where "user_input False (escape_literal bs) = (False, as)" "pushed as = bs"
    "RequestShutdown \<notin> set as" "Suspend \<notin> set as" by blast
  then show ?case
    by (auto simp: escape_literal_def user_byte_def pushed_def ESCAPE_KEY_def ESCAPE_PASS_KEY_def split: prod.splits)
qed

section \<open>Switch modes are removed, nothing else\<close>

lemma split_on_nonempty [simp]: "split_on c xs \<noteq> []"
  by (cases xs) auto

lemma split_on_free: "p \<in> set (split_on c xs) \<Longrightarrow> c \<notin> set p"
proof (induction xs arbitrary: p)
  case Nil
  then show ?case by simp
next
  case (Cons x xs)
  then show ?case by (cases "split_on c xs") (auto split: if_splits)
qed

lemma split_on_append: "c \<notin> set a \<Longrightarrow> split_on c (a @ c # xs) = a # split_on c xs"
  by (induction a) auto

lemma split_on_single: "c \<notin> set a \<Longrightarrow> split_on c a = [a]"
  by (induction a) auto

lemma split_on_intercalate: "ps \<noteq> [] \<Longrightarrow> \<forall>p \<in> set ps. c \<notin> set p \<Longrightarrow> split_on c (intercalate [c] ps) = ps"
  by (induction "[c]" ps rule: intercalate.induct) (auto simp: split_on_append split_on_single)

definition mode_params :: "bytes \<Rightarrow> bytes list" where
  "mode_params s = split_on 59 (butlast (drop 3 s))"

lemma strip_alt_Some:
  assumes "strip_alt_screen_params s = Some t"
  shows "mode_params t = filter (\<lambda>p. \<not> is_switch_mode p) (mode_params s)" and "last t = last s"
    and "take 3 t = take 3 s" and "strip_alt_screen_params t = Some t"
proof -
  let ?parts = "mode_params s" and ?kept = "filter (\<lambda>p. \<not> is_switch_mode p) (mode_params s)"
  have s: "take 3 s = [0x1b, 91, 63]" "drop 3 s \<noteq> []" "last s = 104 \<or> last s = 108"
    "list_all (list_all is_digit) ?parts" "?kept \<noteq> []"
    and t: "t = [0x1b, 91, 63] @ intercalate [59] ?kept @ [last s]"
    using assms by (auto simp: strip_alt_screen_params_def mode_params_def Let_def last_drop split: if_splits)
  have free: "\<forall>p \<in> set ?kept. 59 \<notin> set p" using split_on_free by (auto simp: mode_params_def)
  have d: "drop 3 t = intercalate [59] ?kept @ [last s]" by (simp add: t)
  show mt: "mode_params t = ?kept" unfolding mode_params_def d by (simp add: split_on_intercalate [OF s(5) free, unfolded mode_params_def])
  show "last t = last s" "take 3 t = take 3 s" using s(1) by (simp_all add: t)
  have "list_all (list_all is_digit) ?kept" using s(4) by (auto simp: list_all_iff)
  then show "strip_alt_screen_params t = Some t"
    using s mt d t by (simp add: strip_alt_screen_params_def mode_params_def Let_def)
qed

section \<open>The shared size is the elementwise minimum\<close>

definition reporting :: "(u16 \<times> u16) list \<Rightarrow> (u16 \<times> u16) list" where
  "reporting clients = filter (\<lambda>(r, c). r \<noteq> 0 \<and> c \<noteq> 0) clients"

lemma min_size_loop_acc:
  "min_size_loop cs (Some (r, w)) = Some (Min (insert r (fst ` set (reporting cs))), Min (insert w (snd ` set (reporting cs))))"
proof (induction cs arbitrary: r w)
  case Nil
  then show ?case by (simp add: reporting_def)
next
  case (Cons x cs)
  obtain a b where x: "x = (a, b)" by (cases x)
  show ?case
  proof (cases "a = 0 \<or> b = 0")
    case True
    then show ?thesis using Cons by (auto simp: x reporting_def)
  next
    case False
    then have rep: "reporting (x # cs) = (a, b) # reporting cs" by (simp add: x reporting_def)
    have m: "Min (insert (min u v) S) = Min (insert u (insert v S))" if "finite S" for u v :: u16 and S
      using that by (cases "S = {}") (simp_all add: min.assoc)
    have "min_size_loop (x # cs) (Some (r, w)) = min_size_loop cs (Some (min r a, min w b))" using False by (simp add: x)
    then show ?thesis unfolding Cons rep by (simp add: m del: Min_insert)
  qed
qed

lemma min_client_size_spec:
  "min_client_size clients =
     (if reporting clients = [] then None
      else Some (Min (fst ` set (reporting clients)), Min (snd ` set (reporting clients))))"
proof (induction clients)
  case Nil
  then show ?case by (simp add: min_client_size_def reporting_def)
next
  case (Cons x cs)
  obtain a b where x: "x = (a, b)" by (cases x)
  show ?case
    using Cons by (cases "a = 0 \<or> b = 0") (auto simp: x min_client_size_def reporting_def min_size_loop_acc)
qed

section \<open>The wheel filter over any split of the input\<close>

lemma mouse_feeds_concat:
  "foldl (\<lambda>(m, out) buf. let (m', out') = mouse_feed k buf m in (m', out @ out')) (m, out) bufs
   = (fst (mouse_feed k (concat bufs) m), out @ snd (mouse_feed k (concat bufs) m))"
proof (induction bufs arbitrary: m out)
  case (Cons buf bufs)
  then show ?case by (simp add: mouse_feed_append case_prod_beta Let_def)
qed (simp add: mouse_feed_def)

lemma mouse_feeds_read:
  assumes "foldl (\<lambda>(m, out) buf. let (m', out') = mouse_feed k buf m in (m', out @ out')) (mouse_filter_new, []) bufs = (m, out)"
  shows "\<exists>segs. list_all wf_segment segs \<and> concat bufs = concat (map raw segs) @ mf_pending m
           \<and> out = concat (map (cooked k) segs) \<and> length (mf_pending m) \<le> MAX_MOUSE_SEQ"
proof -
  have "mouse_feed k (concat bufs) mouse_filter_new = (m, out)"
    using assms unfolding mouse_feeds_concat by (simp add: prod_eq_iff)
  then have "mouse_reads k (concat bufs) (m, out)"
    using mouse_reads_feed [OF mouse_reads_new, of k "concat bufs"] by (simp add: mouse_feed_def)
  then show ?thesis using mouse_wf_pending by (auto simp: mouse_reads_def)
qed

end
