(* ===== verification/Modes.thy ===== *)
theory Modes
  imports Main
begin

text \<open>
  \<open>crates/posh-term/src/modes.rs\<close>: mouse tracking, mouse encoding and the mode flags, with their
  defaults and the DECSET parameter of each mouse setting.
\<close>

datatype MouseMode = NoMouse | X10 | Normal | ButtonEvent | AnyEvent

definition mouse_decset :: "MouseMode \<Rightarrow> nat option" where
  "mouse_decset m = (case m of NoMouse \<Rightarrow> None | X10 \<Rightarrow> Some 9 | Normal \<Rightarrow> Some 1000 | ButtonEvent \<Rightarrow> Some 1002 | AnyEvent \<Rightarrow> Some 1003)"

datatype MouseProtocol = NormalProtocol | Utf8Protocol | Sgr | SgrPixel

definition protocol_decset :: "MouseProtocol \<Rightarrow> nat option" where
  "protocol_decset p = (case p of NormalProtocol \<Rightarrow> None | Utf8Protocol \<Rightarrow> Some 1005 | Sgr \<Rightarrow> Some 1006 | SgrPixel \<Rightarrow> Some 1016)"

record Modes =
  m_cursor_keys :: bool
  m_origin :: bool
  m_autowrap :: bool
  m_cursor_visible :: bool
  m_bracketed_paste :: bool
  m_focus_reporting :: bool
  m_alternate_scroll :: bool
  m_synchronized :: bool
  m_insert :: bool
  m_lnm :: bool
  m_autorepeat :: bool
  m_keypad_app :: bool
  m_reverse_video :: bool
  m_cursor_blink :: bool
  m_deccolm :: bool
  m_allow_deccolm :: bool
  m_no_clear_on_deccolm :: bool
  m_mouse_mode :: MouseMode
  m_mouse_protocol :: MouseProtocol

definition modes_default :: Modes where
  "modes_default =
     \<lparr>m_cursor_keys = False, m_origin = False, m_autowrap = True, m_cursor_visible = True, m_bracketed_paste = False,
      m_focus_reporting = False, m_alternate_scroll = False, m_synchronized = False, m_insert = False, m_lnm = False,
      m_autorepeat = True, m_keypad_app = False, m_reverse_video = False, m_cursor_blink = False, m_deccolm = False,
      m_allow_deccolm = False, m_no_clear_on_deccolm = False, m_mouse_mode = NoMouse, m_mouse_protocol = NormalProtocol\<rparr>"

end
