(* ===== verification/Parser.thy ===== *)
theory Parser
  imports Utf8
begin

text \<open>
  \<open>crates/posh-term/src/parser.rs\<close>: the VT500 escape-sequence parser with incremental UTF-8. One
  definition per state handler; \<open>advance\<close> dispatches a byte, and the second component of every
  handler is what it pushes to \<open>out\<close>. Characters are scalar values. The lemmas show that every
  buffer stays within its bound and no index or subtraction fails whatever the bytes, that every
  dispatched action respects the parameter limits, and that encoded text and rendered sequences
  come out as the actions they encode.
\<close>

definition MAX_PARAMS :: nat where "MAX_PARAMS = 32"
definition MAX_SUBPARAMS :: nat where "MAX_SUBPARAMS = 16"
definition MAX_INTERMEDIATES :: nat where "MAX_INTERMEDIATES = 2"
definition MAX_OSC :: nat where "MAX_OSC = 4 * 1024 * 1024"
definition MAX_DCS :: nat where "MAX_DCS = 64 * 1024"
definition MAX_APC :: nat where "MAX_APC = 96 * 1024 * 1024"

datatype Action =
    Print nat
  | Execute u8
  | Csi "u16 list list" bytes u8 u8
  | Esc bytes u8
  | Osc bytes bool
  | Dcs "u16 list list" bytes u8 bytes
  | Apc bytes

datatype State =
    Ground | Escape | EscapeIntermediate | CsiEntry | CsiParam | CsiIntermediate | CsiIgnore
  | OscString | DcsEntry | DcsParam | DcsIntermediate | DcsPassthrough | DcsIgnore | SosPmString | ApcString

record Parser =
  ps_state :: State
  ps_utf8 :: bytes
  ps_utf8_len :: nat
  ps_utf8_need :: nat
  ps_params :: "u16 list list"
  ps_cur_parts :: "u16 list"
  ps_cur_val :: u32
  ps_part_seen :: bool
  ps_intermediates :: bytes
  ps_private :: u8
  ps_dcs_final :: u8
  ps_string_buf :: bytes
  ps_string_overflow :: bool

definition parser_new :: Parser where
  "parser_new = \<lparr>ps_state = Ground, ps_utf8 = [0, 0, 0, 0], ps_utf8_len = 0, ps_utf8_need = 0,
     ps_params = [], ps_cur_parts = [], ps_cur_val = 0, ps_part_seen = False, ps_intermediates = [],
     ps_private = 0, ps_dcs_final = 0, ps_string_buf = [], ps_string_overflow = False\<rparr>"

definition mid_escape :: "Parser \<Rightarrow> bool" where
  "mid_escape p \<longleftrightarrow> ps_state p \<in> {Escape, EscapeIntermediate, CsiEntry, CsiParam, CsiIntermediate}"

text \<open>An inclusive byte range pattern.\<close>

definition within :: "u8 \<Rightarrow> u8 \<Rightarrow> u8 \<Rightarrow> bool" where
  "within lo hi b \<longleftrightarrow> lo \<le> b \<and> b \<le> hi"

text \<open>The C0 pattern \<open>0x00..=0x17 | 0x19 | 0x1C..=0x1F\<close>.\<close>

definition plain_c0 :: "u8 \<Rightarrow> bool" where
  "plain_c0 b \<longleftrightarrow> b \<le> 0x17 \<or> b = 0x19 \<or> within 0x1C 0x1F b"

definition goto :: "State \<Rightarrow> Parser \<Rightarrow> Parser" where
  "goto st p = p\<lparr>ps_state := st\<rparr>"

definition clear :: "Parser \<Rightarrow> Parser" where
  "clear p = p\<lparr>ps_params := [], ps_cur_parts := [], ps_cur_val := 0, ps_part_seen := False,
               ps_intermediates := [], ps_private := 0\<rparr>"

definition start_string :: "State \<Rightarrow> Parser \<Rightarrow> Parser" where
  "start_string st p = p\<lparr>ps_string_buf := [], ps_string_overflow := False, ps_state := st\<rparr>"

definition utf8_reset :: "Parser \<Rightarrow> Parser" where
  "utf8_reset p = p\<lparr>ps_utf8_len := 0, ps_utf8_need := 0\<rparr>"

definition utf8_lead :: "u8 \<Rightarrow> nat \<Rightarrow> Parser \<Rightarrow> Parser" where
  "utf8_lead b need p = p\<lparr>ps_utf8 := (ps_utf8 p)[0 := b], ps_utf8_len := 1, ps_utf8_need := need\<rparr>"

section \<open>Ground state and UTF-8\<close>

definition c1 :: "u8 \<Rightarrow> Parser \<Rightarrow> Parser \<times> Action list" where
  "c1 b p =
     (if b = 0x90 then (goto DcsEntry (clear p), [])
      else if b = 0x98 \<or> b = 0x9E then (start_string SosPmString p, [])
      else if b = 0x9B then (goto CsiEntry (clear p), [])
      else if b = 0x9C then (goto Ground p, [])
      else if b = 0x9D then (start_string OscString p, [])
      else if b = 0x9F then (start_string ApcString p, [])
      else (p, [Execute b]))"

text \<open>\<open>ground\<close> with no character under way.\<close>

definition ground_fresh :: "u8 \<Rightarrow> Parser \<Rightarrow> Parser \<times> Action list" where
  "ground_fresh b p =
     (if b = 0x1B then (goto Escape p, [])
      else if b \<le> 0x1F then (p, [Execute b])
      else if within 0x20 0x7E b then (p, [Print (unat b)])
      else if b = 0x7F then (p, [])
      else if within 0x80 0x9F b then c1 b p
      else if within 0xA0 0xBF b then (p, [Print 0xFFFD])
      else if within 0xC2 0xDF b then (utf8_lead b 1 p, [])
      else if within 0xE0 0xEF b then (utf8_lead b 2 p, [])
      else if within 0xF0 0xF4 b then (utf8_lead b 3 p, [])
      else (p, [Print 0xFFFD]))"

definition ground :: "u8 \<Rightarrow> Parser \<Rightarrow> Parser \<times> Action list" where
  "ground b p =
     (if ps_utf8_need p > 0
      then if within 0x80 0xBF b
           then (let p1 = p\<lparr>ps_utf8 := (ps_utf8 p)[ps_utf8_len p := b], ps_utf8_len := ps_utf8_len p + 1,
                            ps_utf8_need := ps_utf8_need p - 1\<rparr>
                 in if ps_utf8_need p1 = 0
                    then (utf8_reset p1,
                          [Print (case first_char (take (ps_utf8_len p1) (ps_utf8 p1)) of Some c \<Rightarrow> c | None \<Rightarrow> 0xFFFD)])
                    else (p1, []))
           else (let (p', out) = ground_fresh b (utf8_reset p) in (p', Print 0xFFFD # out))
      else ground_fresh b p)"

text \<open>The bytes every non-string, non-ground state treats alike: \<open>None\<close> when not consumed.\<close>

definition anywhere :: "u8 \<Rightarrow> Parser \<Rightarrow> (Parser \<times> Action list) option" where
  "anywhere b p =
     (if b = 0x1B then Some (goto Escape p, [])
      else if b = 0x18 \<or> b = 0x1A then Some (goto Ground p, [Execute b])
      else if within 0x80 0x9F b then Some (c1 b (goto Ground p))
      else None)"

section \<open>Escape sequences\<close>

definition push_intermediate :: "u8 \<Rightarrow> Parser \<Rightarrow> Parser" where
  "push_intermediate b p =
     (if length (ps_intermediates p) < MAX_INTERMEDIATES then p\<lparr>ps_intermediates := ps_intermediates p @ [b]\<rparr> else p)"

definition escape_fresh :: "u8 \<Rightarrow> Parser \<Rightarrow> Parser \<times> Action list" where
  "escape_fresh b p =
     (if plain_c0 b then (p, [Execute b])
      else if within 0x20 0x2F b
      then (let p' = clear p in (goto EscapeIntermediate (p'\<lparr>ps_intermediates := ps_intermediates p' @ [b]\<rparr>), []))
      else if b = 91 then (goto CsiEntry (clear p), [])
      else if b = 93 then (start_string OscString p, [])
      else if b = 80 then (goto DcsEntry (clear p), [])
      else if b = 95 then (start_string ApcString p, [])
      else if b = 88 \<or> b = 94 then (start_string SosPmString p, [])
      else if within 0x30 0x7E b then (goto Ground p, [Esc [] b])
      else (p, []))"

definition escape_intermediate_fresh :: "u8 \<Rightarrow> Parser \<Rightarrow> Parser \<times> Action list" where
  "escape_intermediate_fresh b p =
     (if plain_c0 b then (p, [Execute b])
      else if within 0x20 0x2F b then (push_intermediate b p, [])
      else if within 0x30 0x7E b
      then (goto Ground (p\<lparr>ps_intermediates := []\<rparr>), [Esc (ps_intermediates p) b])
      else (p, []))"

section \<open>Parameters\<close>

definition param_digit :: "u8 \<Rightarrow> Parser \<Rightarrow> Parser" where
  "param_digit b p = p\<lparr>ps_cur_val := min (ps_cur_val p * 10 + ucast (b - 48)) 0xFFFF, ps_part_seen := True\<rparr>"

definition param_colon :: "Parser \<Rightarrow> Parser" where
  "param_colon p =
     p\<lparr>ps_cur_parts := (if length (ps_cur_parts p) < MAX_SUBPARAMS then ps_cur_parts p @ [ucast (ps_cur_val p)]
                        else ps_cur_parts p),
       ps_cur_val := 0, ps_part_seen := True\<rparr>"

definition param_semicolon :: "Parser \<Rightarrow> Parser" where
  "param_semicolon p =
     (let parts = ps_cur_parts p @ [ucast (ps_cur_val p)]
      in p\<lparr>ps_params := (if length (ps_params p) < MAX_PARAMS then ps_params p @ [parts] else ps_params p),
           ps_cur_parts := [], ps_cur_val := 0, ps_part_seen := True\<rparr>)"

definition take_params :: "Parser \<Rightarrow> Parser \<times> u16 list list" where
  "take_params p =
     (let all = (if ps_part_seen p \<or> ps_cur_parts p \<noteq> []
                 then let parts = ps_cur_parts p @ [ucast (ps_cur_val p)]
                      in if length (ps_params p) < MAX_PARAMS then ps_params p @ [parts] else ps_params p
                 else ps_params p)
      in (p\<lparr>ps_params := [], ps_cur_parts := [], ps_cur_val := 0, ps_part_seen := False\<rparr>, all))"

section \<open>Control sequences\<close>

definition csi_dispatch :: "u8 \<Rightarrow> Parser \<Rightarrow> Parser \<times> Action list" where
  "csi_dispatch b p =
     (let (p', params) = take_params p
      in (goto Ground (p'\<lparr>ps_intermediates := []\<rparr>), [Csi params (ps_intermediates p') (ps_private p') b]))"

definition csi_entry_fresh :: "u8 \<Rightarrow> Parser \<Rightarrow> Parser \<times> Action list" where
  "csi_entry_fresh b p =
     (if plain_c0 b then (p, [Execute b])
      else if within 0x20 0x2F b
      then (goto CsiIntermediate (p\<lparr>ps_intermediates := ps_intermediates p @ [b]\<rparr>), [])
      else if within 48 57 b then (goto CsiParam (param_digit b p), [])
      else if b = 58 then (goto CsiParam (param_colon p), [])
      else if b = 59 then (goto CsiParam (param_semicolon p), [])
      else if within 0x3C 0x3F b then (goto CsiParam (p\<lparr>ps_private := b\<rparr>), [])
      else if within 0x40 0x7E b then csi_dispatch b p
      else (p, []))"

definition csi_param_fresh :: "u8 \<Rightarrow> Parser \<Rightarrow> Parser \<times> Action list" where
  "csi_param_fresh b p =
     (if plain_c0 b then (p, [Execute b])
      else if within 48 57 b then (param_digit b p, [])
      else if b = 58 then (param_colon p, [])
      else if b = 59 then (param_semicolon p, [])
      else if within 0x3C 0x3F b then (goto CsiIgnore p, [])
      else if within 0x20 0x2F b then (goto CsiIntermediate (push_intermediate b p), [])
      else if within 0x40 0x7E b then csi_dispatch b p
      else (p, []))"

definition csi_intermediate_fresh :: "u8 \<Rightarrow> Parser \<Rightarrow> Parser \<times> Action list" where
  "csi_intermediate_fresh b p =
     (if plain_c0 b then (p, [Execute b])
      else if within 0x20 0x2F b then (push_intermediate b p, [])
      else if within 0x30 0x3F b then (goto CsiIgnore p, [])
      else if within 0x40 0x7E b then csi_dispatch b p
      else (p, []))"

definition csi_ignore_fresh :: "u8 \<Rightarrow> Parser \<Rightarrow> Parser \<times> Action list" where
  "csi_ignore_fresh b p =
     (if plain_c0 b then (p, [Execute b])
      else if within 0x40 0x7E b then (goto Ground (clear p), [])
      else (p, []))"

section \<open>Strings\<close>

definition push_string_byte :: "u8 \<Rightarrow> nat \<Rightarrow> Parser \<Rightarrow> Parser" where
  "push_string_byte b cap p =
     (if length (ps_string_buf p) < cap then p\<lparr>ps_string_buf := ps_string_buf p @ [b]\<rparr>
      else p\<lparr>ps_string_overflow := True\<rparr>)"

definition finish_osc :: "bool \<Rightarrow> Parser \<Rightarrow> Parser \<times> Action list" where
  "finish_osc bel p =
     (p\<lparr>ps_string_buf := [], ps_string_overflow := False, ps_state := Ground\<rparr>,
      if ps_string_overflow p then [] else [Osc (ps_string_buf p) bel])"

definition osc_string :: "u8 \<Rightarrow> Parser \<Rightarrow> Parser \<times> Action list" where
  "osc_string b p =
     (if b = 0x07 then finish_osc True p
      else if b = 0x1B then (let (p', out) = finish_osc False p in (goto Escape p', out))
      else if b = 0x18 \<or> b = 0x1A then (goto Ground p, [])
      else if plain_c0 b then (p, [])
      else (push_string_byte b MAX_OSC p, []))"

definition apc_string :: "u8 \<Rightarrow> Parser \<Rightarrow> Parser \<times> Action list" where
  "apc_string b p =
     (if b = 0x1B
      then (p\<lparr>ps_string_buf := [], ps_string_overflow := False, ps_state := Escape\<rparr>,
            if ps_string_overflow p then [] else [Apc (ps_string_buf p)])
      else if b = 0x18 \<or> b = 0x1A then (goto Ground p, [])
      else (push_string_byte b MAX_APC p, []))"

definition sos_pm :: "u8 \<Rightarrow> Parser \<Rightarrow> Parser \<times> Action list" where
  "sos_pm b p =
     (if b = 0x1B then (goto Escape p, [])
      else if b = 0x18 \<or> b = 0x1A \<or> b = 0x9C then (goto Ground p, [])
      else (p, []))"

section \<open>Device control strings\<close>

definition dcs_hook :: "u8 \<Rightarrow> Parser \<Rightarrow> Parser" where
  "dcs_hook b p = p\<lparr>ps_dcs_final := b, ps_string_buf := [], ps_string_overflow := False, ps_state := DcsPassthrough\<rparr>"

definition dcs_entry_fresh :: "u8 \<Rightarrow> Parser \<Rightarrow> Parser \<times> Action list" where
  "dcs_entry_fresh b p =
     (if within 48 57 b then (goto DcsParam (param_digit b p), [])
      else if b = 58 \<or> b = 59 then (goto DcsParam (if b = 58 then param_colon p else param_semicolon p), [])
      else if within 0x3C 0x3F b then (goto DcsParam (p\<lparr>ps_private := b\<rparr>), [])
      else if within 0x20 0x2F b
      then (goto DcsIntermediate (p\<lparr>ps_intermediates := ps_intermediates p @ [b]\<rparr>), [])
      else if within 0x40 0x7E b then (dcs_hook b p, [])
      else (p, []))"

definition dcs_param_fresh :: "u8 \<Rightarrow> Parser \<Rightarrow> Parser \<times> Action list" where
  "dcs_param_fresh b p =
     (if within 48 57 b then (param_digit b p, [])
      else if b = 58 then (param_colon p, [])
      else if b = 59 then (param_semicolon p, [])
      else if within 0x3C 0x3F b then (goto DcsIgnore p, [])
      else if within 0x20 0x2F b then (goto DcsIntermediate (push_intermediate b p), [])
      else if within 0x40 0x7E b then (dcs_hook b p, [])
      else (p, []))"

definition dcs_intermediate_fresh :: "u8 \<Rightarrow> Parser \<Rightarrow> Parser \<times> Action list" where
  "dcs_intermediate_fresh b p =
     (if within 0x20 0x2F b then (push_intermediate b p, [])
      else if within 0x30 0x3F b then (goto DcsIgnore p, [])
      else if within 0x40 0x7E b then (dcs_hook b p, [])
      else (p, []))"

definition dcs_unhook :: "Parser \<Rightarrow> Parser \<times> Action list" where
  "dcs_unhook p =
     (let data = ps_string_buf p; p1 = p\<lparr>ps_string_buf := []\<rparr>
      in if ps_string_overflow p then (clear (p1\<lparr>ps_string_overflow := False\<rparr>), [])
         else (let (p2, params) = take_params p1
               in (clear (p2\<lparr>ps_intermediates := [], ps_string_overflow := False\<rparr>),
                   [Dcs params (ps_intermediates p2) (ps_dcs_final p2) data])))"

definition dcs_passthrough :: "u8 \<Rightarrow> Parser \<Rightarrow> Parser \<times> Action list" where
  "dcs_passthrough b p =
     (if b = 0x1B then (let (p', out) = dcs_unhook p in (goto Escape p', out))
      else if b = 0x9C then (let (p', out) = dcs_unhook p in (goto Ground p', out))
      else if b = 0x18 \<or> b = 0x1A then (goto Ground ((clear p)\<lparr>ps_string_buf := []\<rparr>), [])
      else (push_string_byte b MAX_DCS p, []))"

definition dcs_ignore :: "u8 \<Rightarrow> Parser \<Rightarrow> Parser \<times> Action list" where
  "dcs_ignore b p =
     (if b = 0x1B then (goto Escape p, [])
      else if b = 0x18 \<or> b = 0x1A \<or> b = 0x9C then (goto Ground p, [])
      else (p, []))"

section \<open>The dispatcher\<close>

text \<open>\<open>if self.anywhere(b, out) { return }\<close> in front of a handler.\<close>

definition unless_anywhere :: "(u8 \<Rightarrow> Parser \<Rightarrow> Parser \<times> Action list) \<Rightarrow> u8 \<Rightarrow> Parser \<Rightarrow> Parser \<times> Action list" where
  "unless_anywhere h b p = (case anywhere b p of Some r \<Rightarrow> r | None \<Rightarrow> h b p)"

definition advance :: "u8 \<Rightarrow> Parser \<Rightarrow> Parser \<times> Action list" where
  "advance b p =
     (case ps_state p of
        Ground \<Rightarrow> ground b p
      | Escape \<Rightarrow> unless_anywhere escape_fresh b p
      | EscapeIntermediate \<Rightarrow> unless_anywhere escape_intermediate_fresh b p
      | CsiEntry \<Rightarrow> unless_anywhere csi_entry_fresh b p
      | CsiParam \<Rightarrow> unless_anywhere csi_param_fresh b p
      | CsiIntermediate \<Rightarrow> unless_anywhere csi_intermediate_fresh b p
      | CsiIgnore \<Rightarrow> unless_anywhere csi_ignore_fresh b p
      | OscString \<Rightarrow> osc_string b p
      | DcsEntry \<Rightarrow> unless_anywhere dcs_entry_fresh b p
      | DcsParam \<Rightarrow> unless_anywhere dcs_param_fresh b p
      | DcsIntermediate \<Rightarrow> unless_anywhere dcs_intermediate_fresh b p
      | DcsPassthrough \<Rightarrow> dcs_passthrough b p
      | DcsIgnore \<Rightarrow> dcs_ignore b p
      | SosPmString \<Rightarrow> sos_pm b p
      | ApcString \<Rightarrow> apc_string b p)"

fun parse_bytes :: "bytes \<Rightarrow> Parser \<Rightarrow> Parser \<times> Action list" where
  "parse_bytes [] p = (p, [])"
| "parse_bytes (b # bs) p = (let (p', out) = advance b p; (p'', out') = parse_bytes bs p' in (p'', out @ out'))"

definition param :: "u16 list list \<Rightarrow> nat \<Rightarrow> u16 \<Rightarrow> u16" where
  "param params i d = (if i < length params \<and> params ! i \<noteq> [] then hd (params ! i) else d)"

definition param_or :: "u16 list list \<Rightarrow> nat \<Rightarrow> u16 \<Rightarrow> u16" where
  "param_or params i d = (let v = param params i 0 in if v = 0 then d else v)"

section \<open>Buffers stay bounded whatever the bytes\<close>

definition params_ok :: "u16 list list \<Rightarrow> bool" where
  "params_ok ps \<longleftrightarrow> length ps \<le> MAX_PARAMS \<and> (\<forall>q \<in> set ps. q \<noteq> [] \<and> length q \<le> MAX_SUBPARAMS + 1)"

definition utf8_ok :: "Parser \<Rightarrow> bool" where
  "utf8_ok p \<longleftrightarrow> length (ps_utf8 p) = 4 \<and> ps_utf8_len p + ps_utf8_need p \<le> 4"

text \<open>Every index, subtraction and 32-bit sum of the code is in range under \<open>base_ok\<close>.\<close>

definition base_ok :: "Parser \<Rightarrow> bool" where
  "base_ok p \<longleftrightarrow> utf8_ok p \<and> params_ok (ps_params p) \<and> length (ps_cur_parts p) \<le> MAX_SUBPARAMS
     \<and> ps_cur_val p \<le> 0xFFFF \<and> length (ps_intermediates p) \<le> MAX_INTERMEDIATES
     \<and> length (ps_string_buf p) \<le> MAX_APC"

fun state_ok :: "State \<Rightarrow> Parser \<Rightarrow> bool" where
  "state_ok CsiEntry p \<longleftrightarrow> ps_intermediates p = []"
| "state_ok DcsEntry p \<longleftrightarrow> ps_intermediates p = []"
| "state_ok OscString p \<longleftrightarrow> length (ps_string_buf p) \<le> MAX_OSC"
| "state_ok DcsPassthrough p \<longleftrightarrow> length (ps_string_buf p) \<le> MAX_DCS"
| "state_ok _ p \<longleftrightarrow> True"

definition parser_inv :: "Parser \<Rightarrow> bool" where
  "parser_inv p \<longleftrightarrow> base_ok p \<and> state_ok (ps_state p) p"

definition control :: "u8 \<Rightarrow> bool" where
  "control b \<longleftrightarrow> b < 0x20 \<or> (0x80 \<le> b \<and> b < 0xA0)"

fun action_ok :: "Action \<Rightarrow> bool" where
  "action_ok (Print c) \<longleftrightarrow> scalar c"
| "action_ok (Execute b) \<longleftrightarrow> control b"
| "action_ok (Csi ps is pv f) \<longleftrightarrow> params_ok ps \<and> length is \<le> MAX_INTERMEDIATES \<and> within 0x40 0x7E f"
| "action_ok (Esc is f) \<longleftrightarrow> length is \<le> MAX_INTERMEDIATES \<and> within 0x30 0x7E f"
| "action_ok (Osc d bel) \<longleftrightarrow> length d \<le> MAX_OSC"
| "action_ok (Dcs ps is f d) \<longleftrightarrow> params_ok ps \<and> length is \<le> MAX_INTERMEDIATES \<and> length d \<le> MAX_DCS"
| "action_ok (Apc d) \<longleftrightarrow> length d \<le> MAX_APC"

definition good :: "Parser \<times> Action list \<Rightarrow> bool" where
  "good r \<longleftrightarrow> parser_inv (fst r) \<and> list_all action_ok (snd r)"

lemma inv_new: "parser_inv parser_new"
  by (simp add: parser_inv_def base_ok_def parser_new_def utf8_ok_def params_ok_def MAX_PARAMS_def MAX_SUBPARAMS_def
      MAX_INTERMEDIATES_def MAX_APC_def)

lemma goto_simps [simp]:
  "base_ok (goto st p) = base_ok p" "ps_state (goto st p) = st" "ps_intermediates (goto st p) = ps_intermediates p"
  "ps_string_buf (goto st p) = ps_string_buf p" "utf8_ok (goto st p) = utf8_ok p"
  "ps_string_overflow (goto st p) = ps_string_overflow p"
  by (simp_all add: goto_def base_ok_def utf8_ok_def)

lemma clear_ok [simp]: "base_ok p \<Longrightarrow> base_ok (clear p)" "ps_intermediates (clear p) = []" "ps_state (clear p) = ps_state p"
  "ps_string_buf (clear p) = ps_string_buf p"
  by (simp_all add: clear_def base_ok_def utf8_ok_def params_ok_def)

lemma start_string_ok [simp]: "base_ok p \<Longrightarrow> base_ok (start_string st p)" "ps_state (start_string st p) = st"
  "ps_string_buf (start_string st p) = []"
  by (simp_all add: start_string_def base_ok_def utf8_ok_def)

lemma utf8_reset_ok [simp]: "base_ok p \<Longrightarrow> base_ok (utf8_reset p)" "ps_state (utf8_reset p) = ps_state p"
  by (simp_all add: utf8_reset_def base_ok_def utf8_ok_def)

lemma utf8_lead_ok [simp]: "base_ok p \<Longrightarrow> need \<le> 3 \<Longrightarrow> base_ok (utf8_lead b need p)" "ps_state (utf8_lead b need p) = ps_state p"
  by (simp_all add: utf8_lead_def base_ok_def utf8_ok_def)

lemma push_intermediate_ok [simp]: "base_ok p \<Longrightarrow> base_ok (push_intermediate b p)"
  "ps_state (push_intermediate b p) = ps_state p"
  by (simp_all add: push_intermediate_def base_ok_def utf8_ok_def)

lemma first_intermediate_ok [simp]: "base_ok p \<Longrightarrow> ps_intermediates p = [] \<Longrightarrow> base_ok (p\<lparr>ps_intermediates := [b]\<rparr>)"
  by (simp add: base_ok_def utf8_ok_def MAX_INTERMEDIATES_def)

lemma no_intermediates_ok [simp]: "base_ok p \<Longrightarrow> base_ok (p\<lparr>ps_intermediates := []\<rparr>)"
  by (simp add: base_ok_def utf8_ok_def)

lemma private_ok [simp]: "base_ok (p\<lparr>ps_private := b\<rparr>) = base_ok p"
  by (simp add: base_ok_def utf8_ok_def)

lemma hook_ok [simp]: "base_ok p \<Longrightarrow> base_ok (dcs_hook b p)" "ps_state (dcs_hook b p) = DcsPassthrough" "ps_string_buf (dcs_hook b p) = []"
  by (simp_all add: dcs_hook_def base_ok_def utf8_ok_def)

lemma empty_buf_ok [simp]: "base_ok p \<Longrightarrow> base_ok (p\<lparr>ps_string_buf := []\<rparr>)"
  "base_ok (p\<lparr>ps_string_overflow := o1\<rparr>) = base_ok p" "base_ok (p\<lparr>ps_state := st\<rparr>) = base_ok p"
  by (simp_all add: base_ok_def utf8_ok_def)

text \<open>The digit accumulator never overflows, and its cast to 16 bits is exact.\<close>

lemma param_digit_ok [simp]: "base_ok p \<Longrightarrow> base_ok (param_digit b p)" "ps_state (param_digit b p) = ps_state p"
  by (simp_all add: param_digit_def base_ok_def utf8_ok_def)

lemma params_ok_snoc: "params_ok ps \<Longrightarrow> length ps < MAX_PARAMS \<Longrightarrow> q \<noteq> [] \<Longrightarrow> length q \<le> MAX_SUBPARAMS + 1 \<Longrightarrow> params_ok (ps @ [q])"
  by (auto simp: params_ok_def)

lemma param_colon_ok [simp]: "base_ok p \<Longrightarrow> base_ok (param_colon p)" "ps_state (param_colon p) = ps_state p"
  by (auto simp: param_colon_def base_ok_def utf8_ok_def)

lemma param_semicolon_ok [simp]: "base_ok p \<Longrightarrow> base_ok (param_semicolon p)" "ps_state (param_semicolon p) = ps_state p"
  by (auto simp: param_semicolon_def base_ok_def utf8_ok_def Let_def intro: params_ok_snoc)

lemma take_params_ok:
  assumes "base_ok p" "take_params p = (p', ps)"
  shows "base_ok p'" "params_ok ps" "ps_intermediates p' = ps_intermediates p" "ps_state p' = ps_state p"
    "ps_string_buf p' = ps_string_buf p" "ps_private p' = ps_private p" "ps_dcs_final p' = ps_dcs_final p"
proof -
  have p': "p' = p\<lparr>ps_params := [], ps_cur_parts := [], ps_cur_val := 0, ps_part_seen := False\<rparr>"
    and ps: "ps = ps_params p \<or> (length (ps_params p) < MAX_PARAMS \<and> ps = ps_params p @ [ps_cur_parts p @ [ucast (ps_cur_val p)]])"
    using assms(2) by (auto simp: take_params_def Let_def split: if_splits)
  show "base_ok p'" using assms(1) by (simp add: p' base_ok_def utf8_ok_def params_ok_def)
  have "params_ok (ps_params p)" "length (ps_cur_parts p) \<le> MAX_SUBPARAMS" using assms(1) by (simp_all add: base_ok_def)
  then show "params_ok ps" using ps params_ok_snoc [of "ps_params p" "ps_cur_parts p @ [ucast (ps_cur_val p)]"] by auto
qed (use assms(2) in \<open>auto simp: take_params_def Let_def\<close>)

lemma scalar_sum:
  "i < 32 \<Longrightarrow> j < 64 \<Longrightarrow> scalar (i * 64 + j)"
  "i < 16 \<Longrightarrow> j < 64 \<Longrightarrow> k < 64 \<Longrightarrow> (i = 13 \<Longrightarrow> j < 32) \<Longrightarrow> scalar (i * 4096 + j * 64 + k)"
  "i < 5 \<Longrightarrow> j < 64 \<Longrightarrow> k < 64 \<Longrightarrow> l < 64 \<Longrightarrow> (i = 0 \<Longrightarrow> 16 \<le> j) \<Longrightarrow> (i = 4 \<Longrightarrow> j < 16) \<Longrightarrow>
   scalar (i * 262144 + j * 4096 + k * 64 + l)"
proof -
  show "i < 32 \<Longrightarrow> j < 64 \<Longrightarrow> scalar (i * 64 + j)" unfolding scalar_def by linarith
  show "scalar (i * 4096 + j * 64 + k)" if "i < 16" "j < 64" "k < 64" "i = 13 \<Longrightarrow> j < 32"
  proof -
    have "i < 13 \<or> i = 13 \<or> 14 \<le> i" by linarith
    then show ?thesis unfolding scalar_def by (elim disjE) (use that in linarith)+
  qed
  show "scalar (i * 262144 + j * 4096 + k * 64 + l)"
    if "i < 5" "j < 64" "k < 64" "l < 64" "i = 0 \<Longrightarrow> 16 \<le> j" "i = 4 \<Longrightarrow> j < 16"
  proof -
    have "i = 0 \<or> (1 \<le> i \<and> i < 4) \<or> i = 4" using that(1) by linarith
    then show ?thesis unfolding scalar_def by (elim disjE) (use that in linarith)+
  qed
qed

lemma char_value_scalar:
  assumes "bs \<noteq> []" "utf8_valid bs"
  shows "scalar (char_value bs)"
proof -
  obtain b rest where bs: "bs = b # rest" using assms(1) by (cases bs) auto
  obtain n where st: "utf8_step b rest = (True, n)"
    using assms(2) by (cases "utf8_step b rest") (auto simp: bs utf8_valid.simps(2))
  have cont: "unat y - 0x80 < 64" if "is_cont y" for y using that by (auto simp: is_cont_def word_le_nat_alt)
  from utf8_step_True [OF st] consider
      (one) "utf8_width b = 1"
    | (two) x r where "rest = x # r" "utf8_width b = 2" "is_cont x"
    | (three) x y r where "rest = x # y # r" "utf8_width b = 3" "second3 b x" "is_cont y"
    | (four) x y z r where "rest = x # y # z # r" "utf8_width b = 4" "second4 b x" "is_cont y" "is_cont z"
    by blast
  then show ?thesis
  proof cases
    case one
    then have "unat b < 0x80" by (auto simp: utf8_width_def word_less_nat_alt split: if_splits)
    then show ?thesis by (simp add: bs char_value_def scalar_def)
  next
    case two
    then have "0xC2 \<le> unat b" "unat b \<le> 0xDF" by (auto simp: utf8_width_def word_le_nat_alt split: if_splits)
    then show ?thesis using cont [OF two(3)] scalar_sum(1) [of "unat b - 0xC0" "unat x - 0x80"]
      by (simp add: bs two(1) char_value_def Let_def)
  next
    case three
    then have b: "0xE0 \<le> unat b" "unat b \<le> 0xEF" by (auto simp: utf8_width_def word_le_nat_alt split: if_splits)
    have x: "unat x - 0x80 < 64" "unat b = 0xED \<Longrightarrow> unat x - 0x80 < 32"
      using three(3) by (auto simp: second3_def is_cont_def word_le_nat_alt word_unat_eq_iff split: if_splits)
    have "unat b - 0xE0 < 16" "unat b - 0xE0 = 13 \<Longrightarrow> unat b = 0xED" using b by auto
    then show ?thesis using b x cont [OF three(4)] scalar_sum(2) [of "unat b - 0xE0" "unat x - 0x80" "unat y - 0x80"]
      by (simp add: bs three(1) char_value_def Let_def)
  next
    case four
    then have b: "0xF0 \<le> unat b" "unat b \<le> 0xF4" by (auto simp: utf8_width_def word_le_nat_alt split: if_splits)
    have x: "unat x - 0x80 < 64" "unat b = 0xF4 \<Longrightarrow> unat x - 0x80 < 16" "unat b = 0xF0 \<Longrightarrow> 16 \<le> unat x - 0x80"
      using four(3) by (auto simp: second4_def is_cont_def word_le_nat_alt word_unat_eq_iff split: if_splits)
    have "unat b - 0xF0 < 5" "unat b - 0xF0 = 0 \<Longrightarrow> unat b = 0xF0" "unat b - 0xF0 = 4 \<Longrightarrow> unat b = 0xF4" using b by auto
    moreover have "char_value bs = (unat b - 0xF0) * 262144 + (unat x - 0x80) * 4096 + (unat y - 0x80) * 64 + (unat z - 0x80)"
      using b by (simp add: bs four(1) char_value_def Let_def)
    ultimately show ?thesis using x cont [OF four(4)] cont [OF four(5)] scalar_sum(3) by presburger
  qed
qed

lemma first_char_scalar: "first_char bs = Some c \<Longrightarrow> scalar c"
  using char_value_scalar by (auto simp: first_char_def split: if_splits)

lemma scalar_small [simp]: "c \<le> 0xFF \<Longrightarrow> scalar c" and scalar_fffd [simp]: "scalar 0xFFFD"
  by (simp_all add: scalar_def)

lemma scalar_byte [simp]: "scalar (unat (b :: u8))"
  by (rule scalar_small) (rule unat_u8_le)

lemma control_simps [simp]: "within 0x80 0x9F b \<Longrightarrow> control b" "plain_c0 b \<Longrightarrow> control b" "b \<le> 0x1F \<Longrightarrow> control b"
  "control 0x18" "control 0x1A"
  by (auto simp: control_def within_def plain_c0_def word_le_nat_alt word_less_nat_alt)

lemma good_c1: "base_ok p \<Longrightarrow> ps_state p = Ground \<Longrightarrow> within 0x80 0x9F b \<Longrightarrow> good (c1 b p)"
  by (simp add: c1_def good_def parser_inv_def)

lemma good_ground_fresh:
  assumes "base_ok p" "ps_state p = Ground"
  shows "good (ground_fresh b p)"
  using assms good_c1 [OF assms, of b] by (simp add: ground_fresh_def) (simp add: good_def parser_inv_def)

lemma good_ground:
  assumes "base_ok p" "ps_state p = Ground"
  shows "good (ground b p)"
proof -
  let ?p1 = "p\<lparr>ps_utf8 := (ps_utf8 p)[ps_utf8_len p := b], ps_utf8_len := ps_utf8_len p + 1, ps_utf8_need := ps_utf8_need p - 1\<rparr>"
  have 1: "base_ok ?p1" if "ps_utf8_need p > 0" using assms(1) that by (simp add: base_ok_def utf8_ok_def)
  have c: "scalar (case first_char x of Some c \<Rightarrow> c | None \<Rightarrow> 0xFFFD)" for x
    using first_char_scalar scalar_fffd by (auto split: option.splits)
  have m: "good (let (p', out) = ground_fresh b (utf8_reset p) in (p', Print 0xFFFD # out))"
    using good_ground_fresh [of "utf8_reset p" b] assms scalar_fffd by (auto simp: good_def split: prod.splits)
  show ?thesis
  proof (cases "ps_utf8_need p > 0")
    case True
    show ?thesis
    proof (cases "within 0x80 0xBF b")
      case within: True
      show ?thesis
      proof (cases "ps_utf8_need ?p1 = 0")
        case need: True
        have "ground b p = (utf8_reset ?p1, [Print (case first_char (take (ps_utf8_len ?p1) (ps_utf8 ?p1)) of Some c \<Rightarrow> c | None \<Rightarrow> 0xFFFD)])"
          using True within need by (simp add: ground_def Let_def)
        then show ?thesis using 1 [OF True] c assms(2) by (simp add: good_def parser_inv_def)
      next
        case False
        have "ground b p = (?p1, [])" using True within False by (simp add: ground_def Let_def)
        then show ?thesis using 1 [OF True] assms(2) by (simp add: good_def parser_inv_def)
      qed
    next
      case False
      then show ?thesis using True m by (simp add: ground_def)
    qed
  next
    case False
    then show ?thesis using good_ground_fresh [OF assms] by (simp add: ground_def)
  qed
qed

lemma good_anywhere: "base_ok p \<Longrightarrow> anywhere b p = Some r \<Longrightarrow> good r"
  using good_c1 [of "goto Ground p" b]
  by (auto simp: anywhere_def good_def parser_inv_def split: if_splits)

lemma good_unless: "base_ok p \<Longrightarrow> (anywhere b p = None \<Longrightarrow> good (h b p)) \<Longrightarrow> good (unless_anywhere h b p)"
  using good_anywhere by (auto simp: unless_anywhere_def split: option.splits)

lemma good_csi_dispatch:
  assumes "base_ok p" "within 0x40 0x7E b"
  shows "good (csi_dispatch b p)"
proof -
  obtain p' ps where t: "take_params p = (p', ps)" by fastforce
  note ok = take_params_ok [OF assms(1) t]
  have "length (ps_intermediates p) \<le> MAX_INTERMEDIATES" using assms(1) by (simp add: base_ok_def)
  then show ?thesis using ok assms(2) by (simp add: csi_dispatch_def t good_def parser_inv_def)
qed

lemma good_escape: "base_ok p \<Longrightarrow> ps_state p = Escape \<Longrightarrow> good (escape_fresh b p)"
  by (simp add: escape_fresh_def Let_def) (simp add: good_def parser_inv_def MAX_INTERMEDIATES_def)

lemma intermediates_bound: "base_ok p \<Longrightarrow> length (ps_intermediates p) \<le> MAX_INTERMEDIATES"
  by (simp add: base_ok_def)

lemma good_escape_intermediate: "base_ok p \<Longrightarrow> ps_state p = EscapeIntermediate \<Longrightarrow> good (escape_intermediate_fresh b p)"
  by (simp add: escape_intermediate_fresh_def) (simp add: good_def parser_inv_def intermediates_bound)

lemma good_csi_entry:
  "base_ok p \<Longrightarrow> ps_state p = CsiEntry \<Longrightarrow> ps_intermediates p = [] \<Longrightarrow> good (csi_entry_fresh b p)"
  using good_csi_dispatch [of p b]
  by (simp add: csi_entry_fresh_def) (simp add: good_def parser_inv_def)

lemma good_csi_param: "base_ok p \<Longrightarrow> ps_state p = CsiParam \<Longrightarrow> good (csi_param_fresh b p)"
  using good_csi_dispatch [of p b]
  by (simp add: csi_param_fresh_def) (simp add: good_def parser_inv_def)

lemma good_csi_intermediate: "base_ok p \<Longrightarrow> ps_state p = CsiIntermediate \<Longrightarrow> good (csi_intermediate_fresh b p)"
  using good_csi_dispatch [of p b]
  by (simp add: csi_intermediate_fresh_def) (simp add: good_def parser_inv_def)

lemma good_csi_ignore: "base_ok p \<Longrightarrow> ps_state p = CsiIgnore \<Longrightarrow> good (csi_ignore_fresh b p)"
  by (simp add: csi_ignore_fresh_def good_def parser_inv_def)

lemma push_string_ok:
  "base_ok p \<Longrightarrow> cap \<le> MAX_APC \<Longrightarrow> length (ps_string_buf p) \<le> cap \<Longrightarrow>
   base_ok (push_string_byte b cap p) \<and> length (ps_string_buf (push_string_byte b cap p)) \<le> cap
   \<and> ps_state (push_string_byte b cap p) = ps_state p"
  by (auto simp: push_string_byte_def base_ok_def utf8_ok_def)

lemma caps: "MAX_OSC \<le> MAX_APC" "MAX_DCS \<le> MAX_APC"
  by (simp_all add: MAX_OSC_def MAX_APC_def MAX_DCS_def)

lemma good_osc: "base_ok p \<Longrightarrow> ps_state p = OscString \<Longrightarrow> length (ps_string_buf p) \<le> MAX_OSC \<Longrightarrow> good (osc_string b p)"
  using push_string_ok [OF _ caps(1), of p b]
  by (simp add: osc_string_def finish_osc_def) (simp add: good_def parser_inv_def)

lemma good_apc:
  assumes "base_ok p" "ps_state p = ApcString"
  shows "good (apc_string b p)"
proof -
  have "length (ps_string_buf p) \<le> MAX_APC" using assms(1) by (simp add: base_ok_def)
  then show ?thesis using assms push_string_ok [OF assms(1) order_refl, of b]
    by (simp add: apc_string_def) (simp add: good_def parser_inv_def)
qed

lemma good_sos_pm: "base_ok p \<Longrightarrow> ps_state p = SosPmString \<Longrightarrow> good (sos_pm b p)"
  by (simp add: sos_pm_def good_def parser_inv_def)

lemma good_dcs_ignore: "base_ok p \<Longrightarrow> ps_state p = DcsIgnore \<Longrightarrow> good (dcs_ignore b p)"
  by (simp add: dcs_ignore_def good_def parser_inv_def)

lemma good_dcs_entry:
  "base_ok p \<Longrightarrow> ps_state p = DcsEntry \<Longrightarrow> ps_intermediates p = [] \<Longrightarrow> good (dcs_entry_fresh b p)"
  by (simp add: dcs_entry_fresh_def good_def parser_inv_def)

lemma good_dcs_param: "base_ok p \<Longrightarrow> ps_state p = DcsParam \<Longrightarrow> good (dcs_param_fresh b p)"
  by (simp add: dcs_param_fresh_def good_def parser_inv_def)

lemma good_dcs_intermediate: "base_ok p \<Longrightarrow> ps_state p = DcsIntermediate \<Longrightarrow> good (dcs_intermediate_fresh b p)"
  by (simp add: dcs_intermediate_fresh_def good_def parser_inv_def)

lemma dcs_unhook_ok:
  assumes "base_ok p" "length (ps_string_buf p) \<le> MAX_DCS"
  shows "base_ok (fst (dcs_unhook p)) \<and> list_all action_ok (snd (dcs_unhook p))"
proof -
  obtain p' ps where t: "take_params (p\<lparr>ps_string_buf := []\<rparr>) = (p', ps)" by fastforce
  note ok = take_params_ok [OF empty_buf_ok(1) [OF assms(1)] t]
  have "length (ps_intermediates p) \<le> MAX_INTERMEDIATES" using assms(1) by (simp add: base_ok_def)
  then show ?thesis using assms ok by (simp add: dcs_unhook_def t Let_def)
qed

lemma good_dcs_passthrough:
  assumes "base_ok p" "ps_state p = DcsPassthrough" "length (ps_string_buf p) \<le> MAX_DCS"
  shows "good (dcs_passthrough b p)"
  using dcs_unhook_ok [OF assms(1,3)] push_string_ok [OF assms(1) caps(2) assms(3), of b] assms
  by (auto simp: dcs_passthrough_def good_def parser_inv_def split: prod.splits)

lemma advance_good: "parser_inv p \<Longrightarrow> good (advance b p)"
  unfolding advance_def parser_inv_def
  by (cases "ps_state p")
     (simp_all add: good_ground good_escape good_escape_intermediate good_csi_entry good_csi_param good_csi_intermediate
        good_csi_ignore good_osc good_apc good_sos_pm good_dcs_ignore good_dcs_entry good_dcs_param good_dcs_intermediate
        good_dcs_passthrough good_unless)

lemma parse_bytes_good: "parser_inv p \<Longrightarrow> good (parse_bytes bs p)"
proof (induction bs arbitrary: p)
  case Nil
  then show ?case by (simp add: good_def)
next
  case (Cons b bs)
  obtain p' out where a: "advance b p = (p', out)" by fastforce
  then have "parser_inv p'" "list_all action_ok out" using advance_good [OF Cons.prems, of b] by (simp_all add: good_def)
  then show ?case using Cons.IH [of p'] a by (auto simp: good_def split: prod.splits)
qed

section \<open>Text comes out as its characters\<close>

lemma parse_bytes_append:
  "parse_bytes (a @ b) p = (let (p', out) = parse_bytes a p; (p'', out') = parse_bytes b p' in (p'', out @ out'))"
  by (induction a arbitrary: p) (simp_all split: prod.splits)

definition at_rest :: "Parser \<Rightarrow> bool" where
  "at_rest p \<longleftrightarrow> ps_state p = Ground \<and> ps_utf8_need p = 0 \<and> length (ps_utf8 p) = 4"

definition printable :: "nat \<Rightarrow> bool" where
  "printable c \<longleftrightarrow> scalar c \<and> 0x20 \<le> c \<and> c \<noteq> 0x7F"

lemma within_as_u8:
  "k < 256 \<Longrightarrow> within lo hi (as_u8 k) \<longleftrightarrow> unat lo \<le> k \<and> k \<le> unat hi"
  by (simp add: within_def)

lemma ground_lead:
  assumes "at_rest p" "within lo hi b" "(lo, hi, need) \<in> {(0xC2, 0xDF, 1), (0xE0, 0xEF, 2), (0xF0, 0xF4, 3)}"
  shows "advance b p = (utf8_lead b need p, [])"
proof -
  have "0xC2 \<le> b" using assms(2,3) by (auto simp: within_def word_le_nat_alt)
  then have n: "b \<noteq> 0x1B" "\<not> b \<le> 0x1F" "\<not> within 0x20 0x7E b" "b \<noteq> 0x7F" "\<not> within 0x80 0x9F b" "\<not> within 0xA0 0xBF b"
    by (auto simp: within_def word_le_nat_alt)
  have "\<not> (within 0xE0 0xEF b \<and> within 0xC2 0xDF b)" "\<not> (within 0xF0 0xF4 b \<and> within 0xC2 0xDF b)"
    "\<not> (within 0xF0 0xF4 b \<and> within 0xE0 0xEF b)"
    by (auto simp: within_def word_le_nat_alt)
  then show ?thesis using assms n by (auto simp: advance_def at_rest_def ground_def ground_fresh_def)
qed

text \<open>A parser that has read \<open>bs\<close> of a character and waits for \<open>need\<close> more bytes.\<close>

definition reading :: "bytes \<Rightarrow> nat \<Rightarrow> Parser \<Rightarrow> bool" where
  "reading bs need p \<longleftrightarrow> ps_state p = Ground \<and> ps_utf8_need p = need \<and> ps_utf8_len p = length bs
     \<and> length (ps_utf8 p) = 4 \<and> take (length bs) (ps_utf8 p) = bs \<and> length bs + need \<le> 4"

lemma reading_lead: "at_rest p \<Longrightarrow> need \<le> 3 \<Longrightarrow> reading [b] need (utf8_lead b need p)"
  by (cases "ps_utf8 p") (auto simp: reading_def at_rest_def utf8_lead_def)

lemma take_update: "length bs < length xs \<Longrightarrow> take (length bs) xs = bs \<Longrightarrow> take (Suc (length bs)) (xs[length bs := b]) = bs @ [b]"
  by (simp add: take_Suc_conv_app_nth)

lemma reading_more:
  assumes "reading bs (Suc (Suc need)) p" "is_cont b"
  shows "\<exists>p'. advance b p = (p', []) \<and> reading (bs @ [b]) (Suc need) p'"
proof -
  have w: "within 0x80 0xBF b" using assms(2) by (simp add: is_cont_def within_def)
  have l: "length bs < length (ps_utf8 p)" "take (length bs) (ps_utf8 p) = bs" using assms(1) by (simp_all add: reading_def)
  show ?thesis using assms(1) w take_update [OF l, of b]
    by (auto simp: advance_def reading_def ground_def Let_def)
qed

lemma reading_last:
  assumes "reading bs (Suc 0) p" "is_cont b" "first_char (bs @ [b]) = Some c"
  shows "\<exists>p'. advance b p = (p', [Print c]) \<and> at_rest p'"
proof -
  have w: "within 0x80 0xBF b" using assms(2) by (simp add: is_cont_def within_def)
  have l: "length bs < length (ps_utf8 p)" "take (length bs) (ps_utf8 p) = bs" using assms(1) by (simp_all add: reading_def)
  show ?thesis using assms w take_update [OF l, of b]
    by (auto simp: advance_def reading_def ground_def Let_def utf8_reset_def at_rest_def)
qed

lemma print_char:
  assumes "printable c" "at_rest p"
  shows "\<exists>p'. parse_bytes (utf8_encode c) p = (p', [Print c]) \<and> at_rest p'"
proof -
  have sc: "scalar c" using assms(1) by (simp add: printable_def)
  note fc = first_char_encode [OF sc]
  have m: "c < 0x110000" using sc by (auto simp: scalar_def)
  consider "c < 0x80" | "0x80 \<le> c" "c < 0x800" | "0x800 \<le> c" "c < 0x10000" | "0x10000 \<le> c" by linarith
  then show ?thesis
  proof cases
    case 1
    have "within 0x20 0x7E (as_u8 c)" using 1 assms(1) by (simp add: within_as_u8 printable_def)
    moreover have "as_u8 c \<noteq> 0x1B" "\<not> as_u8 c \<le> 0x1F" using 1 assms(1) by (simp_all add: printable_def as_u8_eq)
    ultimately show ?thesis using 1 assms(2)
      by (simp add: utf8_encode_def advance_def at_rest_def ground_def ground_fresh_def unat_as_u8)
  next
    case 2
    let ?a = "as_u8 (0xC0 + c div 64)" and ?b = "as_u8 (0x80 + c mod 64)"
    have e: "utf8_encode c = [?a, ?b]" using 2 by (simp add: utf8_encode_def)
    have "2 \<le> c div 64" "c div 64 < 32" using 2 by auto
    then have "within 0xC2 0xDF ?a" by (simp add: within_as_u8)
    then have a: "advance ?a p = (utf8_lead ?a 1 p, [])" using ground_lead [OF assms(2)] by blast
    have "reading [?a] (Suc 0) (utf8_lead ?a 1 p)" using reading_lead [OF assms(2), of 1] by simp
    from reading_last [OF this is_cont_mod] fc obtain p2 where "advance ?b (utf8_lead ?a 1 p) = (p2, [Print c])" "at_rest p2" by (auto simp only: e append.simps)
    then show ?thesis using a by (simp add: e)
  next
    case 3
    let ?a = "as_u8 (0xE0 + c div 4096)" and ?b = "as_u8 (0x80 + c div 64 mod 64)" and ?d = "as_u8 (0x80 + c mod 64)"
    have e: "utf8_encode c = [?a, ?b, ?d]" using 3 by (simp add: utf8_encode_def)
    have "c div 4096 < 16" using 3 by auto
    then have "within 0xE0 0xEF ?a" by (simp add: within_as_u8)
    then have a: "advance ?a p = (utf8_lead ?a 2 p, [])" using ground_lead [OF assms(2)] by blast
    have "reading [?a] (Suc (Suc 0)) (utf8_lead ?a 2 p)" using reading_lead [OF assms(2), of 2] by (simp add: numeral_2_eq_2)
    from reading_more [OF this is_cont_mod] obtain p2 where p2: "advance ?b (utf8_lead ?a 2 p) = (p2, [])" "reading [?a, ?b] (Suc 0) p2"
      by (auto simp only: append.simps)
    from reading_last [OF p2(2) is_cont_mod] fc obtain p3 where "advance ?d p2 = (p3, [Print c])" "at_rest p3" by (auto simp only: e append.simps)
    then show ?thesis using a p2 by (simp add: e)
  next
    case 4
    let ?a = "as_u8 (0xF0 + c div 262144)" and ?b = "as_u8 (0x80 + c div 4096 mod 64)"
      and ?d = "as_u8 (0x80 + c div 64 mod 64)" and ?f = "as_u8 (0x80 + c mod 64)"
    have e: "utf8_encode c = [?a, ?b, ?d, ?f]" using 4 by (simp add: utf8_encode_def)
    have "c div 262144 < 5" using m by auto
    then have "within 0xF0 0xF4 ?a" by (simp add: within_as_u8)
    then have a: "advance ?a p = (utf8_lead ?a 3 p, [])" using ground_lead [OF assms(2)] by blast
    have "reading [?a] (Suc (Suc (Suc 0))) (utf8_lead ?a 3 p)" 
      by (subst numeral_3_eq_3 [symmetric], rule reading_lead [OF assms(2)]) simp
    from reading_more [OF this is_cont_mod] obtain p2 where p2: "advance ?b (utf8_lead ?a 3 p) = (p2, [])" "reading [?a, ?b] (Suc (Suc 0)) p2"
      by (auto simp only: append.simps)
    from reading_more [OF p2(2) is_cont_mod] obtain p3 where p3: "advance ?d p2 = (p3, [])" "reading [?a, ?b, ?d] (Suc 0) p3"
      by (auto simp only: append.simps)
    from reading_last [OF p3(2) is_cont_mod] fc obtain p4 where "advance ?f p3 = (p4, [Print c])" "at_rest p4" by (auto simp only: e append.simps)
    then show ?thesis using a p2 p3 by (simp add: e)
  qed
qed

lemma print_text:
  "list_all printable cs \<Longrightarrow> at_rest p \<Longrightarrow>
   \<exists>p'. parse_bytes (concat (map utf8_encode cs)) p = (p', map Print cs) \<and> at_rest p'"
proof (induction cs arbitrary: p)
  case Nil
  then show ?case by simp
next
  case (Cons c cs)
  then obtain p1 where p1: "parse_bytes (utf8_encode c) p = (p1, [Print c])" "at_rest p1" using print_char by fastforce
  then obtain p2 where "parse_bytes (concat (map utf8_encode cs)) p1 = (p2, map Print cs)" "at_rest p2" using Cons by auto
  then show ?case using p1 by (simp add: parse_bytes_append)
qed

section \<open>Escape and cancel work in every state\<close>

lemma advance_cancel: "ps_state (fst (advance 0x18 p)) = Ground" "ps_state (fst (advance 0x1A p)) = Ground"
  by (cases "ps_state p";
      simp add: advance_def unless_anywhere_def anywhere_def osc_string_def apc_string_def sos_pm_def dcs_passthrough_def
        dcs_ignore_def ground_def ground_fresh_def within_def utf8_reset_def split: prod.splits)+

lemma advance_escape: "ps_state (fst (advance 0x1B p)) = Escape"
  by (cases "ps_state p")
     (simp_all add: advance_def unless_anywhere_def anywhere_def osc_string_def finish_osc_def apc_string_def sos_pm_def
        dcs_passthrough_def dcs_ignore_def ground_def ground_fresh_def within_def split: prod.splits)

text \<open>Only the states \<open>mid_escape\<close> names dispatch a control or escape sequence.\<close>

definition is_sequence :: "Action \<Rightarrow> bool" where
  "is_sequence a \<longleftrightarrow> (case a of Csi _ _ _ _ \<Rightarrow> True | Esc _ _ \<Rightarrow> True | _ \<Rightarrow> False)"

definition no_sequence :: "Parser \<times> Action list \<Rightarrow> bool" where
  "no_sequence r \<longleftrightarrow> list_all (\<lambda>a. \<not> is_sequence a) (snd r)"

lemma no_sequence_simps [simp]:
  "no_sequence (p, [])" "no_sequence (p, [Print c])" "no_sequence (p, [Execute b])" "no_sequence (p, [Osc d bel])"
  "no_sequence (p, [Apc d])" "no_sequence (p, [Dcs ps is f d])"
  by (simp_all add: no_sequence_def is_sequence_def)

lemma no_sequence_c1 [simp]: "no_sequence (c1 b p)"
  by (simp add: c1_def)

lemma no_sequence_ground_fresh [simp]: "no_sequence (ground_fresh b p)"
  by (simp add: ground_fresh_def)

lemma no_sequence_ground: "no_sequence (ground b p)"
proof -
  have "no_sequence (let (p', out) = ground_fresh b (utf8_reset p) in (p', Print 0xFFFD # out))"
    using no_sequence_ground_fresh [of b "utf8_reset p"]
    by (auto simp: no_sequence_def is_sequence_def split: prod.splits)
  then show ?thesis by (simp add: ground_def Let_def)
qed

lemma no_sequence_unless: "(anywhere b p = None \<Longrightarrow> no_sequence (h b p)) \<Longrightarrow> no_sequence (unless_anywhere h b p)"
  by (auto simp: unless_anywhere_def anywhere_def split: if_splits)

lemma no_sequence_unhook: "no_sequence (dcs_unhook p)"
  by (simp add: dcs_unhook_def Let_def split: prod.splits)

lemma no_sequence_others:
  "no_sequence (csi_ignore_fresh b p)" "no_sequence (osc_string b p)" "no_sequence (apc_string b p)" "no_sequence (sos_pm b p)"
  "no_sequence (dcs_ignore b p)" "no_sequence (dcs_entry_fresh b p)" "no_sequence (dcs_param_fresh b p)"
  "no_sequence (dcs_intermediate_fresh b p)"
  by (simp_all add: csi_ignore_fresh_def osc_string_def finish_osc_def apc_string_def sos_pm_def dcs_ignore_def
      dcs_entry_fresh_def dcs_param_fresh_def dcs_intermediate_fresh_def)

lemma no_sequence_passthrough: "no_sequence (dcs_passthrough b p)"
  using no_sequence_unhook [of p] by (auto simp: dcs_passthrough_def no_sequence_def split: prod.splits)

lemma sequence_mid_escape:
  assumes "a \<in> set (snd (advance b p))" "is_sequence a"
  shows "mid_escape p"
proof (rule ccontr)
  assume "\<not> mid_escape p"
  then have "no_sequence (advance b p)"
    unfolding advance_def mid_escape_def
    by (cases "ps_state p")
       (simp_all add: no_sequence_ground no_sequence_unless no_sequence_others no_sequence_passthrough)
  then show False using assms by (auto simp: no_sequence_def list_all_iff)
qed

section \<open>A rendered control sequence comes back\<close>

fun decimal :: "nat \<Rightarrow> bytes" where
  "decimal n = (if n < 10 then [as_u8 (48 + n)] else decimal (n div 10) @ [as_u8 (48 + n mod 10)])"

declare decimal.simps [simp del]

fun render_part :: "u16 list \<Rightarrow> bytes" where
  "render_part [] = []"
| "render_part [v] = decimal (unat v)"
| "render_part (v # w # vs) = decimal (unat v) @ [58] @ render_part (w # vs)"

fun render_params :: "u16 list list \<Rightarrow> bytes" where
  "render_params [] = []"
| "render_params [q] = render_part q"
| "render_params (q # r # ps) = render_part q @ [59] @ render_params (r # ps)"

definition in_params :: "Parser \<Rightarrow> bool" where
  "in_params p \<longleftrightarrow> ps_state p = CsiEntry \<or> ps_state p = CsiParam"

text \<open>What the accumulator holds, apart from the state.\<close>

definition acc :: "u8 \<Rightarrow> Parser \<Rightarrow> u16 list list \<Rightarrow> u16 list \<Rightarrow> nat \<Rightarrow> bool" where
  "acc pv p ps parts v \<longleftrightarrow> in_params p \<and> ps_params p = ps \<and> ps_cur_parts p = parts \<and> unat (ps_cur_val p) = v
     \<and> ps_intermediates p = [] \<and> ps_private p = pv"

lemma in_params_advance:
  assumes "in_params p" "within 48 59 b"
  shows "advance b p = (goto CsiParam (if b = 58 then param_colon p else if b = 59 then param_semicolon p else param_digit b p), [])"
proof -
  have "anywhere b p = None" "\<not> plain_c0 b" "\<not> within 0x20 0x2F b"
    using assms(2) by (auto simp: anywhere_def plain_c0_def within_def word_le_nat_alt)
  moreover have "b = 58 \<or> b = 59 \<or> within 48 57 b"
  proof -
    have "48 \<le> unat b" "unat b \<le> 59" using assms(2) by (simp_all add: within_def word_le_nat_alt)
    then show ?thesis by (auto simp: within_def word_le_nat_alt word_unat_eq_iff)
  qed
  moreover have "\<not> within 48 57 58" "\<not> within 48 57 59" by (simp_all add: within_def)
  ultimately show ?thesis
    using assms(1) unfolding in_params_def
    by (auto simp: advance_def unless_anywhere_def csi_entry_fresh_def csi_param_fresh_def goto_def param_colon_def
        param_semicolon_def param_digit_def Let_def)
qed

lemma acc_digit:
  assumes "acc pv p ps parts v" "d < 10" "v * 10 + d \<le> 0xFFFF"
  shows "\<exists>p'. advance (as_u8 (48 + d)) p = (p', []) \<and> acc pv p' ps parts (v * 10 + d) \<and> ps_part_seen p'"
proof -
  let ?b = "as_u8 (48 + d)"
  have w: "within 48 59 ?b" "?b \<noteq> 58" "?b \<noteq> 59" using assms(2) by (auto simp: within_as_u8 as_u8_eq)
  have adv: "advance ?b p = (goto CsiParam (param_digit ?b p), [])"
    using in_params_advance [of p ?b] assms(1) w by (simp add: acc_def)
  have "?b - 48 = as_u8 d" by (simp add: as_u8_def)
  then have u: "unat (ucast (?b - 48) :: u32) = d" using assms(2) by (simp add: unat_as_u8 unsigned_ucast_eq take_bit_nat_eq_self)
  have "unat (ps_cur_val p) = v" using assms(1) by (simp add: acc_def)
  then have "unat (ps_cur_val p * 10 + ucast (?b - 48)) = v * 10 + d"
    using u assms(3) by (simp add: unat_word_ariths)
  then have "unat (min (ps_cur_val p * 10 + ucast (?b - 48)) 0xFFFF) = v * 10 + d"
    using assms(3) by (simp add: min_def word_le_nat_alt)
  then show ?thesis using adv assms(1) by (simp add: acc_def in_params_def goto_def param_digit_def)
qed

lemma acc_decimal:
  assumes "acc pv p ps parts 0" "n \<le> 0xFFFF"
  shows "\<exists>p'. parse_bytes (decimal n) p = (p', []) \<and> acc pv p' ps parts n \<and> ps_part_seen p'"
  using assms(2)
proof (induction n rule: decimal.induct)
  case (1 n)
  show ?case
  proof (cases "n < 10")
    case True
    then show ?thesis using acc_digit [OF assms(1), of n] by (subst decimal.simps) auto
  next
    case False
    then obtain p1 where p1: "parse_bytes (decimal (n div 10)) p = (p1, [])" "acc pv p1 ps parts (n div 10)"
      using "1.IH" "1.prems" by fastforce
    have "n div 10 * 10 + n mod 10 = n" by simp
    then obtain p2 where "advance (as_u8 (48 + n mod 10)) p1 = (p2, [])" "acc pv p2 ps parts n" "ps_part_seen p2"
      using acc_digit [OF p1(2), of "n mod 10"] "1.prems" by auto
    then show ?thesis using p1 False by (subst decimal.simps) (simp add: parse_bytes_append)
  qed
qed

lemma ucast_of_unat: "unat (w :: u32) = unat (v :: u16) \<Longrightarrow> (ucast w :: u16) = v"
  using unsigned_less [of v, where 'a = nat] by (simp add: word_unat_eq_iff unsigned_ucast_eq take_bit_nat_eq_self)

lemma acc_colon:
  assumes "acc pv p ps parts (unat v)" "length parts < MAX_SUBPARAMS"
  shows "\<exists>p'. advance 58 p = (p', []) \<and> acc pv p' ps (parts @ [v]) 0"
  using assms in_params_advance [of p 58] ucast_of_unat [of "ps_cur_val p" v]
  by (auto simp: acc_def in_params_def goto_def param_colon_def within_def)

lemma acc_semicolon:
  assumes "acc pv p ps parts (unat v)" "length ps < MAX_PARAMS"
  shows "\<exists>p'. advance 59 p = (p', []) \<and> acc pv p' (ps @ [parts @ [v]]) [] 0"
  using assms in_params_advance [of p 59] ucast_of_unat [of "ps_cur_val p" v]
  by (auto simp: acc_def in_params_def goto_def param_semicolon_def within_def Let_def)

lemma unat_u16_le: "unat (v :: u16) \<le> 0xFFFF"
  using unsigned_less [of v, where 'a = nat] by simp

lemma acc_part:
  assumes "acc pv p ps parts 0" "q \<noteq> []" "length parts + length q \<le> MAX_SUBPARAMS + 1"
  shows "\<exists>p'. parse_bytes (render_part q) p = (p', []) \<and> acc pv p' ps (parts @ butlast q) (unat (last q)) \<and> ps_part_seen p'"
  using assms
proof (induction q arbitrary: p parts rule: render_part.induct)
  case 1
  then show ?case by simp
next
  case (2 v)
  then show ?case using acc_decimal [OF _ unat_u16_le, of pv p ps parts v] by simp
next
  case (3 v w vs)
  obtain p1 where p1: "parse_bytes (decimal (unat v)) p = (p1, [])" "acc pv p1 ps parts (unat v)"
    using acc_decimal [OF "3.prems"(1) unat_u16_le] by blast
  obtain p2 where p2: "advance 58 p1 = (p2, [])" "acc pv p2 ps (parts @ [v]) 0"
    using acc_colon [OF p1(2)] "3.prems"(3) by auto
  obtain p3 where "parse_bytes (render_part (w # vs)) p2 = (p3, [])" "ps_part_seen p3"
    "acc pv p3 ps ((parts @ [v]) @ butlast (w # vs)) (unat (last (w # vs)))"
    using "3.IH" [OF p2(2)] "3.prems"(3) by auto
  then show ?case using p1 p2 by (simp add: parse_bytes_append)
qed

lemma acc_params:
  assumes "acc pv p ps [] 0" "qs \<noteq> []" "length ps + length qs \<le> MAX_PARAMS"
    and "\<forall>q \<in> set qs. q \<noteq> [] \<and> length q \<le> MAX_SUBPARAMS + 1"
  shows "\<exists>p'. parse_bytes (render_params qs) p = (p', [])
           \<and> acc pv p' (ps @ butlast qs) (butlast (last qs)) (unat (last (last qs))) \<and> ps_part_seen p'"
  using assms
proof (induction qs arbitrary: p ps rule: render_params.induct)
  case 1
  then show ?case by simp
next
  case (2 q)
  then show ?case using acc_part [of pv p ps "[]" q] by simp
next
  case (3 q r qs)
  obtain p1 where p1: "parse_bytes (render_part q) p = (p1, [])" "acc pv p1 ps (butlast q) (unat (last q))"
    using acc_part [OF "3.prems"(1), of q] "3.prems"(4) by auto
  obtain p2 where p2: "advance 59 p1 = (p2, [])" "acc pv p2 (ps @ [butlast q @ [last q]]) [] 0"
    using acc_semicolon [OF p1(2)] "3.prems"(3) by auto
  have "butlast q @ [last q] = q" using "3.prems"(4) by simp
  then have a: "acc pv p2 (ps @ [q]) [] 0" using p2(2) by simp
  have len: "length (ps @ [q]) + length (r # qs) \<le> MAX_PARAMS" using "3.prems"(3) by simp
  from "3.IH" [OF a _ len] "3.prems"(4) obtain p3 where "parse_bytes (render_params (r # qs)) p2 = (p3, [])" "ps_part_seen p3"
    "acc pv p3 ((ps @ [q]) @ butlast (r # qs)) (butlast (last (r # qs))) (unat (last (last (r # qs))))" by auto
  then show ?case using p1 p2 by (simp add: parse_bytes_append)
qed

lemma acc_dispatch:
  assumes "acc pv p ps parts (unat v)" "ps_part_seen p" "length ps < MAX_PARAMS" "within 0x40 0x7E f"
  shows "\<exists>p'. advance f p = (p', [Csi (ps @ [parts @ [v]]) [] pv f]) \<and> ps_state p' = Ground"
proof -
  have n: "anywhere f p = None" "\<not> plain_c0 f" "\<not> within 0x20 0x2F f" "\<not> within 48 57 f" "f \<noteq> 58" "f \<noteq> 59" "\<not> within 0x3C 0x3F f"
    using assms(4) by (auto simp: anywhere_def plain_c0_def within_def word_le_nat_alt)
  have "advance f p = csi_dispatch f p"
    using assms(1,4) n unfolding acc_def in_params_def
    by (auto simp: advance_def unless_anywhere_def csi_entry_fresh_def csi_param_fresh_def)
  moreover have "csi_dispatch f p = (goto Ground (fst (take_params p)\<lparr>ps_intermediates := []\<rparr>), [Csi (ps @ [parts @ [v]]) [] pv f])"
    using assms(1-3) ucast_of_unat [of "ps_cur_val p" v] by (auto simp: csi_dispatch_def take_params_def acc_def Let_def)
  ultimately show ?thesis by simp
qed

text \<open>
  Byte by byte: what the escape does, the silent middle, and the final byte. A private marker may
  stand before the parameters.
\<close>

definition marker :: "u8 \<Rightarrow> bytes" where
  "marker pv = (if pv = 0 then [] else [pv])"

lemma csi_marked_steps:
  assumes "qs \<noteq> []" "params_ok qs" "within 0x40 0x7E f" "pv = 0 \<or> within 0x3C 0x3F pv"
  obtains p1 p3 p4 where "advance 0x1B p = (p1, snd (advance 0x1B p))" "parse_bytes (91 # marker pv @ render_params qs) p1 = (p3, [])"
    "advance f p3 = (p4, [Csi qs [] pv f])" "ps_state p4 = Ground"
proof -
  obtain p1 out where p1: "advance 0x1B p = (p1, out)" by fastforce
  then have "ps_state p1 = Escape" using advance_escape [of p] by simp
  then have p2: "advance 91 p1 = (goto CsiEntry (clear p1), [])"
    by (simp add: advance_def unless_anywhere_def anywhere_def escape_fresh_def plain_c0_def within_def)
  obtain p2' where m: "parse_bytes (marker pv) (goto CsiEntry (clear p1)) = (p2', [])" "acc pv p2' [] [] 0"
  proof (cases "pv = 0")
    case True
    have "acc pv (goto CsiEntry (clear p1)) [] [] 0" by (simp add: acc_def in_params_def goto_def clear_def True)
    then show ?thesis by (rule that [rotated]) (simp add: marker_def True)
  next
    case False
    then have w: "within 0x3C 0x3F pv" using assms(4) by simp
    then have "anywhere pv (goto CsiEntry (clear p1)) = None" "\<not> plain_c0 pv" "\<not> within 0x20 0x2F pv" "\<not> within 48 57 pv"
        "pv \<noteq> 58" "pv \<noteq> 59"
      by (auto simp: anywhere_def plain_c0_def within_def word_le_nat_alt)
    then have "advance pv (goto CsiEntry (clear p1)) = (goto CsiParam ((goto CsiEntry (clear p1))\<lparr>ps_private := pv\<rparr>), [])"
      using w by (simp add: advance_def unless_anywhere_def csi_entry_fresh_def goto_def)
    then show ?thesis
      using False that [of "goto CsiParam ((goto CsiEntry (clear p1))\<lparr>ps_private := pv\<rparr>)"]
      by (simp add: marker_def acc_def in_params_def goto_def clear_def)
  qed
  obtain p3 where p3: "parse_bytes (render_params qs) p2' = (p3, [])"
    "acc pv p3 (butlast qs) (butlast (last qs)) (unat (last (last qs)))" "ps_part_seen p3"
    using acc_params [OF m(2), of qs] assms(1,2) by (auto simp: params_ok_def)
  have "length (butlast qs) < MAX_PARAMS" using assms(1,2) by (cases qs) (auto simp: params_ok_def)
  then obtain p4 where p4: "advance f p3 = (p4, [Csi (butlast qs @ [butlast (last qs) @ [last (last qs)]]) [] pv f])" "ps_state p4 = Ground"
    using acc_dispatch [OF p3(2,3) _ assms(3)] by blast
  have qs: "butlast qs @ [butlast (last qs) @ [last (last qs)]] = qs"
    using assms(1,2) last_in_set [OF assms(1)] by (auto simp: params_ok_def)
  have "parse_bytes (91 # marker pv @ render_params qs) p1 = (p3, [])"
    using p2 m(1) p3(1) by (simp add: parse_bytes_append)
  then show ?thesis by (rule that [of p1 p3 p4, rotated]) (use p1 p4 qs in simp_all)
qed

lemma csi_steps:
  assumes "qs \<noteq> []" "params_ok qs" "within 0x40 0x7E f"
  obtains p1 p3 p4 where "advance 0x1B p = (p1, snd (advance 0x1B p))" "parse_bytes (91 # render_params qs) p1 = (p3, [])"
    "advance f p3 = (p4, [Csi qs [] 0 f])" "ps_state p4 = Ground"
  using csi_marked_steps [OF assms, of 0 p] by (auto simp: marker_def)

text \<open>From any state, even inside a string or another sequence.\<close>

lemma csi_roundtrip:
  assumes "qs \<noteq> []" "params_ok qs" "within 0x40 0x7E f"
  shows "\<exists>p' out. parse_bytes ([0x1B, 91] @ render_params qs @ [f]) p = (p', out @ [Csi qs [] 0 f]) \<and> ps_state p' = Ground"
proof -
  obtain p1 p3 p4 where p: "advance 0x1B p = (p1, snd (advance 0x1B p))" "parse_bytes (91 # render_params qs) p1 = (p3, [])"
    "advance f p3 = (p4, [Csi qs [] 0 f])" "ps_state p4 = Ground"
    using csi_steps [OF assms] .
  have f: "parse_bytes [f] p3 = (p4, [Csi qs [] 0 f])" by (simp add: p(3))
  have "parse_bytes ((91 # render_params qs) @ [f]) p1 = (p4, [Csi qs [] 0 f])"
    unfolding parse_bytes_append p(2) by (simp add: f del: parse_bytes.simps)
  then have "parse_bytes (0x1B # (91 # render_params qs) @ [f]) p = (p4, snd (advance 0x1B p) @ [Csi qs [] 0 f])"
    by (subst parse_bytes.simps, subst p(1)) (simp del: parse_bytes.simps)
  then show ?thesis using p(4) by auto
qed

lemma at_rest_escape: "at_rest p \<Longrightarrow> snd (advance 0x1B p) = []"
  by (simp add: at_rest_def advance_def ground_def ground_fresh_def)

end
