(* ===== verification/Cell.thy ===== *)
theory Cell
  imports Prelude
begin

text \<open>
  \<open>crates/posh-term/src/cell.rs\<close>: colors, styles and grid cells. Characters are scalar values, cell
  widths are 0 (spacer), 1 or 2 (head of a double-column character). The palette is computed in
  8-bit arithmetic, which the lemmas show exact.
\<close>

type_synonym rgb = "u8 \<times> u8 \<times> u8"

datatype Color = Default | Indexed u8 | Rgb u8 u8 u8

datatype UnderlineStyle = NoUnderline | Single | Double | Curly | Dotted | Dashed

record Style =
  st_fg :: Color
  st_bg :: Color
  st_underline_color :: Color
  st_bold :: bool
  st_dim :: bool
  st_italic :: bool
  st_underline :: UnderlineStyle
  st_blink :: bool
  st_inverse :: bool
  st_invisible :: bool
  st_strikethrough :: bool
  st_protected :: bool

definition style_default :: Style where
  "style_default = \<lparr>st_fg = Default, st_bg = Default, st_underline_color = Default, st_bold = False, st_dim = False,
     st_italic = False, st_underline = NoUnderline, st_blink = False, st_inverse = False, st_invisible = False,
     st_strikethrough = False, st_protected = False\<rparr>"

record Cell =
  ch :: nat
  cell_style :: Style
  width :: nat
  extra :: "nat list"
  hyperlink :: nat

definition cell_blank :: "Style \<Rightarrow> Cell" where
  "cell_blank style = \<lparr>ch = 32, cell_style = style, width = 1, extra = [], hyperlink = 0\<rparr>"

definition is_blank :: "Cell \<Rightarrow> bool" where
  "is_blank c \<longleftrightarrow> (ch c = 32 \<or> ch c = 0) \<and> extra c = []"

definition is_dump_skippable :: "Cell \<Rightarrow> bool" where
  "is_dump_skippable c \<longleftrightarrow> is_blank c \<and> cell_style c = style_default \<and> hyperlink c = 0"

section \<open>The default palette\<close>

definition palette_base :: "rgb list" where
  "palette_base =
     [(0, 0, 0), (205, 0, 0), (0, 205, 0), (205, 205, 0), (0, 0, 238), (205, 0, 205), (0, 205, 205), (229, 229, 229),
      (127, 127, 127), (255, 0, 0), (0, 255, 0), (255, 255, 0), (92, 92, 255), (255, 0, 255), (0, 255, 255), (255, 255, 255)]"

definition palette_scale :: "u8 \<Rightarrow> u8" where
  "palette_scale x = (if x = 0 then 0 else 55 + 40 * x)"

definition default_palette_entry :: "u8 \<Rightarrow> rgb" where
  "default_palette_entry i =
     (if i \<le> 15 then palette_base ! unat i
      else if i \<le> 231
      then let v = i - 16
           in (palette_scale (v div 36), palette_scale ((v div 6) mod 6), palette_scale (v mod 6))
      else let g = 8 + 10 * (i - 232) in (g, g, g))"

definition default_palette :: "rgb list" where
  "default_palette = map (\<lambda>i. default_palette_entry (word_of_nat i)) [0..<256]"

definition to_rgb :: "Color \<Rightarrow> rgb option" where
  "to_rgb c = (case c of Default \<Rightarrow> None | Indexed i \<Rightarrow> Some (default_palette_entry i) | Rgb r g b \<Rightarrow> Some (r, g, b))"

lemma blank_skippable: "is_dump_skippable (cell_blank style_default)"
  by (simp add: is_dump_skippable_def is_blank_def cell_blank_def)

lemma blank_width [simp]: "width (cell_blank style) = 1"
  by (simp add: cell_blank_def)

text \<open>No 8-bit sum of the palette overflows: the entry is the one natural-number arithmetic gives.\<close>

definition palette_level :: "nat \<Rightarrow> nat" where
  "palette_level x = (if x = 0 then 0 else 55 + 40 * x)"

definition palette_nat :: "nat \<Rightarrow> nat \<times> nat \<times> nat" where
  "palette_nat i = (if i \<le> 231 then (palette_level ((i - 16) div 36), palette_level ((i - 16) div 6 mod 6), palette_level ((i - 16) mod 6))
                    else (8 + 10 * (i - 232), 8 + 10 * (i - 232), 8 + 10 * (i - 232)))"

lemma unat_palette_scale: "unat x \<le> 5 \<Longrightarrow> unat (palette_scale x) = palette_level (unat x)"
  by (simp add: palette_scale_def palette_level_def unat_word_ariths unat_eq_0)

lemma palette_exact:
  assumes "16 \<le> i" "default_palette_entry i = (r, g, b)"
  shows "(unat r, unat g, unat b) = palette_nat (unat i)"
proof (cases "i \<le> 231")
  case True
  let ?v = "i - 16"
  have v: "unat ?v = unat i - 16" using assms(1) by (simp add: unat_sub)
  have "unat i \<le> 231" using True by (simp add: word_le_nat_alt)
  then have "unat (?v div 36) \<le> 5" "unat (?v div 6 mod 6) \<le> 5" "unat (?v mod 6) \<le> 5"
    using mod_less_divisor [of 6 "unat ?v div 6"] mod_less_divisor [of 6 "unat ?v"]
    by (simp_all add: unat_div unat_mod v)
  moreover have "\<not> i \<le> 15" using assms(1) by (simp add: word_le_nat_alt)
  ultimately show ?thesis
    using assms(2) True \<open>unat i \<le> 231\<close> unat_palette_scale
    by (auto simp: default_palette_entry_def palette_nat_def Let_def unat_div unat_mod v)
next
  case False
  have i: "232 \<le> unat i" "unat i \<le> 255" "\<not> i \<le> 15" using False unat_u8_le [of i] by (auto simp: word_le_nat_alt)
  have w: "unat (i - 232) = unat i - 232" using i by (simp add: unat_sub word_le_nat_alt)
  have "unat (8 + 10 * g) = 8 + 10 * unat g" if "unat g \<le> 23" for g :: u8
    using that by (simp add: unat_word_ariths)
  from this [of "i - 232"] have "unat (8 + 10 * (i - 232)) = 8 + 10 * (unat i - 232)" 
    unfolding w using i(2) by linarith
  then show ?thesis using assms(2) False i by (auto simp: default_palette_entry_def palette_nat_def Let_def w)
qed

end
