(* ===== verification/Screen.thy ===== *)
theory Screen
  imports Cell
begin

text \<open>
  \<open>crates/posh-term/src/screen.rs\<close>: the grid with its scrollback ring, scrolling, clearing, and the
  kitty-style reflow of logical lines on a width change. Row and column numbers are natural numbers;
  the operations keep them within the dimensions, which are below $2^{16}$ in the code. A
  \<open>&mut Cell\<close> of the code is an update function here.
\<close>

datatype SemanticMark = PromptStart | InputStart | OutputStart | CommandEnd

record Row =
  cells :: "Cell list"
  wrapped :: bool
  row_mark :: "SemanticMark option"

definition row_blank :: "nat \<Rightarrow> Style \<Rightarrow> Row" where
  "row_blank cols style = \<lparr>cells = replicate cols (cell_blank style), wrapped = False, row_mark = None\<rparr>"

definition resize_cells :: "nat \<Rightarrow> Cell list \<Rightarrow> Cell list" where
  "resize_cells cols cs =
     (if cols < length cs
      then let cs' = take cols cs
           in if cs' \<noteq> [] \<and> width (last cs') = 2 then butlast cs' @ [cell_blank style_default] else cs'
      else cs @ replicate (cols - length cs) (cell_blank style_default))"

definition resize_width :: "nat \<Rightarrow> Row \<Rightarrow> Row" where
  "resize_width cols r = r\<lparr>cells := resize_cells cols (cells r)\<rparr>"

text \<open>\<open>char::is_whitespace\<close>, which \<open>trim_end\<close> removes.\<close>

definition is_whitespace :: "nat \<Rightarrow> bool" where
  "is_whitespace c \<longleftrightarrow>
     9 \<le> c \<and> c \<le> 13 \<or> c = 32 \<or> c = 0x85 \<or> c = 0xA0 \<or> c = 0x1680 \<or> 0x2000 \<le> c \<and> c \<le> 0x200A
     \<or> c = 0x2028 \<or> c = 0x2029 \<or> c = 0x202F \<or> c = 0x205F \<or> c = 0x3000"

definition cell_text :: "Cell \<Rightarrow> nat list" where
  "cell_text c = (if width c = 0 then [] else (if ch c = 0 then 32 else ch c) # extra c)"

definition row_text :: "bool \<Rightarrow> Row \<Rightarrow> nat list" where
  "row_text trim r =
     (let s = concat (map cell_text (cells r))
      in if trim then rev (dropWhile is_whitespace (rev s)) else s)"

record Screen =
  sc_rows :: nat
  sc_cols :: nat
  sc_grid :: "Row list"
  sc_scrollback :: "Row list"
  sc_max_scrollback :: nat

definition screen_new :: "nat \<Rightarrow> nat \<Rightarrow> nat \<Rightarrow> Screen" where
  "screen_new rows cols max_scrollback =
     \<lparr>sc_rows = max rows 1, sc_cols = max cols 1,
      sc_grid = replicate (max rows 1) (row_blank (max cols 1) style_default),
      sc_scrollback = [], sc_max_scrollback = max_scrollback\<rparr>"

definition screen_cell :: "Screen \<Rightarrow> nat \<Rightarrow> nat \<Rightarrow> Cell option" where
  "screen_cell s row col =
     (if row < length (sc_grid s) \<and> col < length (cells (sc_grid s ! row))
      then Some (cells (sc_grid s ! row) ! col) else None)"

text \<open>\<open>row_mut\<close> and \<open>cell_mut\<close> clamp their arguments.\<close>

definition row_index :: "Screen \<Rightarrow> nat \<Rightarrow> nat" where
  "row_index s row = min row (length (sc_grid s) - 1)"

definition col_index :: "Screen \<Rightarrow> nat \<Rightarrow> nat" where
  "col_index s col = min col (sc_cols s - 1)"

definition row_update :: "nat \<Rightarrow> (Row \<Rightarrow> Row) \<Rightarrow> Screen \<Rightarrow> Screen" where
  "row_update row f s = (let r = row_index s row in s\<lparr>sc_grid := (sc_grid s)[r := f (sc_grid s ! r)]\<rparr>)"

definition cell_update :: "nat \<Rightarrow> nat \<Rightarrow> (Cell \<Rightarrow> Cell) \<Rightarrow> Screen \<Rightarrow> Screen" where
  "cell_update row col f s =
     (let c = col_index s col in row_update row (\<lambda>r. r\<lparr>cells := (cells r)[c := f (cells r ! c)]\<rparr>) s)"

definition cell_at :: "nat \<Rightarrow> nat \<Rightarrow> Screen \<Rightarrow> Cell" where
  "cell_at row col s = cells (sc_grid s ! row_index s row) ! col_index s col"

section \<open>Scrolling and clearing\<close>

definition remove_at :: "nat \<Rightarrow> 'a list \<Rightarrow> 'a list" where
  "remove_at i xs = take i xs @ drop (Suc i) xs"

definition insert_at :: "nat \<Rightarrow> 'a \<Rightarrow> 'a list \<Rightarrow> 'a list" where
  "insert_at i x xs = take i xs @ x # drop i xs"

definition save_row :: "Row \<Rightarrow> Screen \<Rightarrow> Screen" where
  "save_row row s =
     (if sc_max_scrollback s > 0
      then s\<lparr>sc_scrollback := (if length (sc_scrollback s) \<ge> sc_max_scrollback s then tl (sc_scrollback s)
                              else sc_scrollback s) @ [row]\<rparr>
      else s)"

definition scroll_up_once :: "nat \<Rightarrow> nat \<Rightarrow> bool \<Rightarrow> Style \<Rightarrow> Screen \<Rightarrow> Screen" where
  "scroll_up_once upper lower save style s =
     (let row = sc_grid s ! upper;
          s1 = s\<lparr>sc_grid := remove_at upper (sc_grid s)\<rparr>;
          s2 = (if save then save_row row s1 else s1)
      in s2\<lparr>sc_grid := insert_at lower (row_blank (sc_cols s2) style) (sc_grid s2)\<rparr>)"

definition scroll_up :: "nat \<Rightarrow> nat \<Rightarrow> nat \<Rightarrow> bool \<Rightarrow> Style \<Rightarrow> Screen \<Rightarrow> Screen" where
  "scroll_up upper lower0 n0 save style s =
     (let lower = min lower0 (length (sc_grid s) - 1)
      in if upper > lower then s
         else let n = max 1 (min n0 (lower - upper + 1)) in (scroll_up_once upper lower save style ^^ n) s)"

definition scroll_down_once :: "nat \<Rightarrow> nat \<Rightarrow> Style \<Rightarrow> Screen \<Rightarrow> Screen" where
  "scroll_down_once upper lower style s =
     s\<lparr>sc_grid := insert_at upper (row_blank (sc_cols s) style) (remove_at lower (sc_grid s))\<rparr>"

definition scroll_down :: "nat \<Rightarrow> nat \<Rightarrow> nat \<Rightarrow> Style \<Rightarrow> Screen \<Rightarrow> Screen" where
  "scroll_down upper lower0 n0 style s =
     (let lower = min lower0 (length (sc_grid s) - 1)
      in if upper > lower then s
         else let n = max 1 (min n0 (lower - upper + 1)) in (scroll_down_once upper lower style ^^ n) s)"

definition clear_scrollback :: "Screen \<Rightarrow> Screen" where
  "clear_scrollback s = s\<lparr>sc_scrollback := []\<rparr>"

definition clear_grid :: "Style \<Rightarrow> Screen \<Rightarrow> Screen" where
  "clear_grid style s = s\<lparr>sc_grid := map (\<lambda>_. row_blank (sc_cols s) style) (sc_grid s)\<rparr>"

section \<open>Reflow\<close>

text \<open>A row that is blank from end to end.\<close>

definition row_skippable :: "Row \<Rightarrow> bool" where
  "row_skippable r \<longleftrightarrow> list_all is_dump_skippable (cells r)"

function drop_blank_tail :: "nat \<Rightarrow> Row list \<Rightarrow> Row list" where
  "drop_blank_tail cursor_abs old =
     (if length old > cursor_abs + 1 \<and> row_skippable (last old) \<and> \<not> wrapped (last old)
      then drop_blank_tail cursor_abs (butlast old) else old)"
  by pat_completeness auto
termination by (relation "measure (\<lambda>(_, old). length old)") auto

declare drop_blank_tail.simps [simp del]

text \<open>One logical line: the rows up to the first that does not wrap, with the line's mark and the
  cursor's offset in it.\<close>

fun take_line :: "nat \<Rightarrow> nat \<Rightarrow> nat \<Rightarrow> Row list \<Rightarrow> Cell list \<Rightarrow> SemanticMark option \<Rightarrow> nat option
    \<Rightarrow> Cell list \<times> SemanticMark option \<times> nat option \<times> nat \<times> Row list" where
  "take_line cursor_abs cursor_col i [] line mk off = (line, mk, off, i, [])"
| "take_line cursor_abs cursor_col i (row # rest) line mk off =
     (let mk' = (if mk = None then row_mark row else mk);
          off' = (if i = cursor_abs then Some (length line + cursor_col) else off);
          line' = line @ cells row
      in if \<not> wrapped row \<or> rest = [] then (line', mk', off', i + 1, rest)
         else take_line cursor_abs cursor_col (i + 1) rest line' mk' off')"

text \<open>\<open>rposition\<close> of the last cell that is not blank, plus one.\<close>

definition significant :: "Cell list \<Rightarrow> nat" where
  "significant cs = length (dropWhile is_dump_skippable (rev cs))"

definition trim_line :: "nat option \<Rightarrow> Cell list \<Rightarrow> Cell list" where
  "trim_line off line =
     (let keep = significant line
      in take (case off of None \<Rightarrow> keep | Some off \<Rightarrow> max keep (off + 1)) line)"

type_synonym rewrap = "nat \<times> Cell list \<times> Row list \<times> (nat \<times> nat) option"

definition wrapped_row :: "Cell list \<Rightarrow> Row" where
  "wrapped_row cs = \<lparr>cells = cs, wrapped = True, row_mark = None\<rparr>"

definition flush_full :: "nat \<Rightarrow> bool \<Rightarrow> Cell list \<Rightarrow> Row list \<Rightarrow> Cell list \<times> Row list" where
  "flush_full W more_cells cur rows =
     (if length cur = W \<and> more_cells then ([], rows @ [wrapped_row cur]) else (cur, rows))"

definition spacer_follows :: "Cell list \<Rightarrow> nat \<Rightarrow> bool" where
  "spacer_follows line j \<longleftrightarrow> j + 1 < length line \<and> width (line ! (j + 1)) = 0"

definition skip_of :: "Cell list \<Rightarrow> nat \<Rightarrow> nat" where
  "skip_of line j = (if spacer_follows line j then 2 else 1)"

definition spacer_of :: "Cell \<Rightarrow> Cell" where
  "spacer_of head = \<lparr>ch = 0, cell_style = cell_style head, width = 0, extra = [], hyperlink = hyperlink head\<rparr>"

text \<open>A character wider than the whole line becomes a blank.\<close>

definition rewrap_too_wide :: "nat \<Rightarrow> nat option \<Rightarrow> Cell list \<Rightarrow> rewrap \<Rightarrow> rewrap" where
  "rewrap_too_wide W off line st =
     (case st of (j, cur, rows, ncur) \<Rightarrow>
        let ncur' = (case off of
                       Some off \<Rightarrow> if off = j \<or> off = j + 1 then Some (length rows, length cur) else ncur
                     | None \<Rightarrow> ncur);
            j' = j + skip_of line j;
            (cur', rows') = flush_full W (j' < length line) (cur @ [cell_blank style_default]) rows
        in (j', cur', rows', ncur'))"

text \<open>A wide character at the edge leaves padding and moves to the next row.\<close>

definition pad_edge :: "nat \<Rightarrow> nat \<Rightarrow> Cell list \<Rightarrow> Row list \<Rightarrow> Cell list \<times> Row list" where
  "pad_edge W w cur rows =
     (if length cur + w > W
      then ([], rows @ [wrapped_row (cur @ replicate (W - length cur) (cell_blank style_default))])
      else (cur, rows))"

definition rewrap_place :: "nat \<Rightarrow> nat option \<Rightarrow> Cell list \<Rightarrow> nat \<Rightarrow> rewrap \<Rightarrow> rewrap" where
  "rewrap_place W off line w st =
     (case st of (j, cur0, rows0, ncur) \<Rightarrow>
        let (cur, rows) = pad_edge W w cur0 rows0;
            ncur' = (case off of
                       Some off \<Rightarrow> if off = j \<or> w = 2 \<and> off = j + 1
                                   then Some (length rows, length cur + (off - j)) else ncur
                     | None \<Rightarrow> ncur);
            head = line ! j;
            cur' = cur @ head # (if w = 2 then [spacer_of head] else []);
            j' = (if w = 2 then j + skip_of line j else j + 1);
            (cur'', rows') = flush_full W (j' < length line) cur' rows
        in (j', cur'', rows', ncur'))"

definition rewrap_step :: "nat \<Rightarrow> nat option \<Rightarrow> Cell list \<Rightarrow> rewrap \<Rightarrow> rewrap" where
  "rewrap_step W off line st =
     (case st of (j, cur, rows, ncur) \<Rightarrow>
        let cell = line ! j
        in if width cell = 0
           then (j + 1, cur, rows,
                 if off = Some j \<and> ncur = None then Some (length rows, min (length cur) (W - 1)) else ncur)
           else let w = max (width cell) 1
                in if w > W then rewrap_too_wide W off line st
                   else rewrap_place W off line w st)"

lemma rewrap_step_advances: "j < fst (rewrap_step W off line (j, cur, rows, ncur))"
  by (simp add: rewrap_step_def rewrap_too_wide_def rewrap_place_def skip_of_def Let_def split: prod.split)

function rewrap_loop :: "nat \<Rightarrow> nat option \<Rightarrow> Cell list \<Rightarrow> rewrap \<Rightarrow> rewrap" where
  "rewrap_loop W off line (j, cur, rows, ncur) =
     (if j < length line then rewrap_loop W off line (rewrap_step W off line (j, cur, rows, ncur))
      else (j, cur, rows, ncur))"
  by pat_completeness auto
termination
proof (relation "measure (\<lambda>(_, _, line, j, _). length line - j)")
  fix W off line j cur rows ncur
  assume "j < length (line :: Cell list)"
  then show "((W, off, line, rewrap_step W off line (j, cur, rows, ncur)), W, off, line, j, cur, rows, ncur)
      \<in> measure (\<lambda>(_, _, line, j, _). length line - j)"
    using rewrap_step_advances [of j W off line cur rows ncur] by (auto split: prod.split)
qed simp

declare rewrap_loop.simps [simp del]

text \<open>One logical line onto the new rows, with the fallback for a cursor on a vanished cell.\<close>

definition rewrap_line :: "nat \<Rightarrow> nat option \<Rightarrow> SemanticMark option \<Rightarrow> Cell list \<Rightarrow> Row list \<times> (nat \<times> nat) option
    \<Rightarrow> Row list \<times> (nat \<times> nat) option" where
  "rewrap_line W off mk line st =
     (let (rows0, ncur0) = st;
          first_new = length rows0;
          (j, cur, rows1, ncur1) = rewrap_loop W off line (0, [], rows0, ncur0);
          rows2 = rows1 @ [\<lparr>cells = take W cur @ replicate (W - length cur) (cell_blank style_default),
                             wrapped = False, row_mark = None\<rparr>];
          rows3 = rows2[first_new := (rows2 ! first_new)\<lparr>row_mark := mk\<rparr>];
          last_row = length rows3 - 1
      in (rows3,
          if off \<noteq> None \<and> ncur1 = None
          then Some (last_row, min (significant (cells (rows3 ! last_row))) (W - 1))
          else ncur1))"

lemma take_line_shorter:
  "take_line ca cc i old line mk off = (line', mk', off', i', rest) \<Longrightarrow> old \<noteq> [] \<Longrightarrow> length rest < length old"
  by (induction ca cc i old line mk off rule: take_line.induct)
    (auto simp: Let_def split: if_splits intro: less_SucI)

function reflow_lines :: "nat \<Rightarrow> nat \<Rightarrow> nat \<Rightarrow> nat \<Rightarrow> Row list \<Rightarrow> Row list \<times> (nat \<times> nat) option
    \<Rightarrow> Row list \<times> (nat \<times> nat) option" where
  "reflow_lines W cursor_abs cursor_col i old st =
     (if old = [] then st
      else (case take_line cursor_abs cursor_col i old [] None None of
              (line, mk, off, i', rest) \<Rightarrow>
                reflow_lines W cursor_abs cursor_col i' rest (rewrap_line W off mk (trim_line off line) st)))"
  by pat_completeness auto
termination
  by (relation "measure (\<lambda>(_, _, _, _, old, _). length old)") (auto dest: take_line_shorter [OF sym])

declare reflow_lines.simps [simp del]

definition reflow_width :: "nat \<Rightarrow> nat \<times> nat \<Rightarrow> Screen \<Rightarrow> Screen \<times> nat \<times> nat" where
  "reflow_width W cursor s =
     (let cursor_abs = length (sc_scrollback s) + fst cursor;
          old = drop_blank_tail cursor_abs (sc_scrollback s @ sc_grid s);
          (new_rows, new_cursor) = reflow_lines W cursor_abs (snd cursor) 0 old ([], None);
          (cur_abs, cur_col) = (case new_cursor of None \<Rightarrow> (0, 0) | Some p \<Rightarrow> p);
          start0 = length new_rows - sc_rows s;
          start = min start0 cur_abs;
          kept = (if cur_abs < start0 then take (start + sc_rows s) new_rows else new_rows);
          grid = drop start kept;
          scrollback = take start kept
      in (s\<lparr>sc_grid := grid @ replicate (sc_rows s - length grid) (row_blank W style_default),
            sc_scrollback := drop (length scrollback - sc_max_scrollback s) scrollback,
            sc_cols := W\<rparr>,
          cur_abs - start, cur_col))"

section \<open>Resizing\<close>

function shrink_loop :: "nat \<Rightarrow> bool \<Rightarrow> Screen \<Rightarrow> nat \<Rightarrow> Screen \<times> nat" where
  "shrink_loop target reflow s row =
     (if length (sc_grid s) > target
      then if row_skippable (last (sc_grid s)) \<and> \<not> row \<ge> length (sc_grid s) - 1
           then shrink_loop target reflow (s\<lparr>sc_grid := butlast (sc_grid s)\<rparr>) row
           else if reflow
           then shrink_loop target reflow (save_row (hd (sc_grid s)) (s\<lparr>sc_grid := tl (sc_grid s)\<rparr>)) (row - 1)
           else shrink_loop target reflow (s\<lparr>sc_grid := butlast (sc_grid s)\<rparr>) row
      else (s, row))"
  by pat_completeness auto
termination by (relation "measure (\<lambda>(_, _, s, _). length (sc_grid s))") (auto simp: save_row_def)

declare shrink_loop.simps [simp del]

function grow_loop :: "nat \<Rightarrow> nat \<Rightarrow> bool \<Rightarrow> Screen \<Rightarrow> nat \<Rightarrow> Screen \<times> nat" where
  "grow_loop target cols reflow s row =
     (if length (sc_grid s) < target
      then if reflow \<and> sc_scrollback s \<noteq> []
           then grow_loop target cols reflow
                  (s\<lparr>sc_grid := last (sc_scrollback s) # sc_grid s, sc_scrollback := butlast (sc_scrollback s)\<rparr>)
                  (min (row + 1) 65535)
           else grow_loop target cols reflow (s\<lparr>sc_grid := sc_grid s @ [row_blank cols style_default]\<rparr>) row
      else (s, row))"
  by pat_completeness auto
termination by (relation "measure (\<lambda>(target, _, _, s, _). target - length (sc_grid s))") auto

declare grow_loop.simps [simp del]

definition screen_resize :: "nat \<Rightarrow> nat \<Rightarrow> nat \<times> nat \<Rightarrow> bool \<Rightarrow> Screen \<Rightarrow> Screen \<times> nat \<times> nat" where
  "screen_resize rows0 cols0 cursor reflow s =
     (let rows = max rows0 1; cols = max cols0 1;
          (s1, row1, col1) =
            (if cols \<noteq> sc_cols s
             then let (s', row', col') =
                        (if reflow then reflow_width cols cursor s
                         else (s\<lparr>sc_grid := map (resize_width cols) (sc_grid s),
                                 sc_scrollback := map (resize_width cols) (sc_scrollback s), sc_cols := cols\<rparr>,
                               cursor))
                  in (s', row', min col' (cols - 1))
             else (s, cursor));
          (s2, row2) = shrink_loop rows reflow s1 row1;
          (s3, row3) = grow_loop rows cols reflow s2 row2
      in (s3\<lparr>sc_rows := rows\<rparr>, min row3 (rows - 1), col1))"

section \<open>Well-formed screens\<close>

text \<open>Every row is as wide as the screen and the scrollback stays within its bound; the grid has one
  row per screen row.\<close>

definition wf_rows :: "Screen \<Rightarrow> bool" where
  "wf_rows s \<longleftrightarrow> 1 \<le> sc_cols s \<and> (\<forall>r \<in> set (sc_grid s) \<union> set (sc_scrollback s). length (cells r) = sc_cols s)
     \<and> length (sc_scrollback s) \<le> sc_max_scrollback s"

definition wf_screen :: "Screen \<Rightarrow> bool" where
  "wf_screen s \<longleftrightarrow> wf_rows s \<and> 1 \<le> sc_rows s \<and> length (sc_grid s) = sc_rows s"

named_theorems wf_screen_intros

lemma wf_screenD:
  assumes "wf_screen s"
  shows "1 \<le> sc_rows s" "1 \<le> sc_cols s" "length (sc_grid s) = sc_rows s" "sc_grid s \<noteq> []"
    "r \<in> set (sc_grid s) \<Longrightarrow> length (cells r) = sc_cols s" "length (sc_scrollback s) \<le> sc_max_scrollback s"
  using assms by (auto simp: wf_screen_def wf_rows_def)

lemma wf_screenI:
  assumes "1 \<le> sc_rows s" "1 \<le> sc_cols s" "length (sc_grid s) = sc_rows s" "length (sc_scrollback s) \<le> sc_max_scrollback s"
    and "\<And>r. r \<in> set (sc_grid s) \<Longrightarrow> length (cells r) = sc_cols s"
    and "\<And>r. r \<in> set (sc_scrollback s) \<Longrightarrow> length (cells r) = sc_cols s"
  shows "wf_screen s"
  using assms by (auto simp: wf_screen_def wf_rows_def)

lemma cells_row_blank [simp]: "cells (row_blank cols style) = replicate cols (cell_blank style)"
  by (simp add: row_blank_def)

lemma screen_new_wf [wf_screen_intros]: "wf_screen (screen_new rows cols m)"
  by (auto simp: wf_screen_def wf_rows_def screen_new_def)

lemma length_resize_cells [simp]: "1 \<le> cols \<Longrightarrow> length (resize_cells cols cs) = cols"
  by (auto simp: resize_cells_def Let_def)

lemma row_index_less: "wf_screen s \<Longrightarrow> row_index s row < sc_rows s"
  by (auto simp: wf_screen_def row_index_def)

lemma col_index_less: "wf_screen s \<Longrightarrow> col_index s col < sc_cols s"
  by (auto simp: wf_screen_def wf_rows_def col_index_def)

lemma row_update_wf [wf_screen_intros]:
  assumes "wf_screen s" "\<And>r. length (cells (f r)) = length (cells r)"
  shows "wf_screen (row_update row f s)"
  using assms row_index_less [OF assms(1), of row] wf_screenD(3,5) [OF assms(1)]
  by (auto simp: wf_screen_def wf_rows_def row_update_def Let_def dest!: set_update_subset_insert [THEN subsetD])

lemma row_replace_wf [wf_screen_intros]:
  assumes "wf_screen s" "\<And>r. length (cells r) = sc_cols s \<Longrightarrow> length (cells (f r)) = sc_cols s"
  shows "wf_screen (row_update row f s)"
  using assms row_index_less [OF assms(1), of row] wf_screenD(3,5) [OF assms(1)]
  by (auto simp: wf_screen_def wf_rows_def row_update_def Let_def dest!: set_update_subset_insert [THEN subsetD])

lemma cell_update_wf [wf_screen_intros]: "wf_screen s \<Longrightarrow> wf_screen (cell_update row col f s)"
  by (auto simp: cell_update_def Let_def intro!: row_update_wf)

lemma clear_scrollback_wf [wf_screen_intros]: "wf_screen s \<Longrightarrow> wf_screen (clear_scrollback s)"
  by (auto simp: wf_screen_def wf_rows_def clear_scrollback_def)

lemma clear_grid_wf [wf_screen_intros]: "wf_screen s \<Longrightarrow> wf_screen (clear_grid style s)"
  by (auto simp: wf_screen_def wf_rows_def clear_grid_def)

section \<open>What scrolling does\<close>

definition push_history :: "nat \<Rightarrow> 'a list \<Rightarrow> 'a list \<Rightarrow> 'a list" where
  "push_history m old new = (let all = old @ new in drop (length all - m) all)"

lemma push_history_Nil [simp]: "length old \<le> m \<Longrightarrow> push_history m old [] = old"
  by (simp add: push_history_def Let_def)

lemma length_push_history: "length (push_history m old new) \<le> m"
  by (simp add: push_history_def Let_def)

lemma push_history_append:
  "push_history m (push_history m old a) b = push_history m old (a @ b)"
proof -
  have "drop (length (drop (length x - m) x @ b) - m) (drop (length x - m) x @ b) = drop (length (x @ b) - m) (x @ b)" for x :: "'a list"
    by (cases "length x \<le> m") (simp_all add: add.commute)
  from this [of "old @ a"] show ?thesis by (simp add: push_history_def)
qed

lemma save_row_eq:
  "length (sc_scrollback s) \<le> sc_max_scrollback s \<Longrightarrow>
   save_row row s = s\<lparr>sc_scrollback := push_history (sc_max_scrollback s) (sc_scrollback s) [row]\<rparr>"
  by (cases "sc_scrollback s") (auto simp: save_row_def push_history_def Let_def)

text \<open>Scrolling the region up or down by one, and by n, on the grid alone.\<close>

definition region_up :: "nat \<Rightarrow> nat \<Rightarrow> nat \<Rightarrow> 'a \<Rightarrow> 'a list \<Rightarrow> 'a list" where
  "region_up t b n blank g = take t g @ drop (t + n) (take (Suc b) g) @ replicate n blank @ drop (Suc b) g"

definition region_down :: "nat \<Rightarrow> nat \<Rightarrow> nat \<Rightarrow> 'a \<Rightarrow> 'a list \<Rightarrow> 'a list" where
  "region_down t b n blank g = take t g @ replicate n blank @ take (Suc b - t - n) (drop t g) @ drop (Suc b) g"

text \<open>The rows above, within and below the region.\<close>

lemma region_split:
  assumes "t \<le> b" "b < length g"
  obtains A M B where "g = A @ M @ B" "length A = t" "length M = Suc b - t"
proof
  show "g = take t g @ take (Suc b - t) (drop t g) @ drop (Suc b) g"
    using assms by (metis append_assoc append_take_drop_id drop_drop le_SucI le_add_diff_inverse2 add.commute)
qed (use assms in auto)

lemma region_up_split:
  "length A = t \<Longrightarrow> length M = Suc b - t \<Longrightarrow> t \<le> b \<Longrightarrow>
   region_up t b n x (A @ M @ B) = A @ drop n M @ replicate n x @ B"
  by (simp add: region_up_def)

lemma region_down_split:
  "length A = t \<Longrightarrow> length M = Suc b - t \<Longrightarrow> t \<le> b \<Longrightarrow>
   region_down t b n x (A @ M @ B) = A @ replicate n x @ take (length M - n) M @ B"
  by (simp add: region_down_def)

lemma region_up_one:
  assumes "t \<le> b" "b < length g"
  shows "insert_at b blank (remove_at t g) = region_up t b (Suc 0) blank g"
proof -
  obtain A M B where g: "g = A @ M @ B" "length A = t" "length M = Suc b - t" using region_split [OF assms] .
  obtain a M' where "M = a # M'" "b = t + length M'" using g(3) assms(1) by (cases M) auto
  with g show ?thesis using region_up_split [of A t M b "Suc 0" blank B] by (auto simp: insert_at_def remove_at_def)
qed

lemma region_down_one:
  assumes "t \<le> b" "b < length g"
  shows "insert_at t blank (remove_at b g) = region_down t b (Suc 0) blank g"
proof -
  obtain A M B where g: "g = A @ M @ B" "length A = t" "length M = Suc b - t" using region_split [OF assms] .
  obtain a M' where "M = M' @ [a]" "b = t + length M'" using g(3) assms(1) by (cases M rule: rev_cases) auto
  with g show ?thesis using region_down_split [of A t M b "Suc 0" blank B] by (auto simp: insert_at_def remove_at_def)
qed

lemma region_up_Suc:
  assumes "t \<le> b" "b < length g" "Suc n \<le> Suc b - t"
  shows "region_up t b (Suc 0) blank (region_up t b n blank g) = region_up t b (Suc n) blank g"
proof -
  obtain A M B where g: "g = A @ M @ B" "length A = t" "length M = Suc b - t" using region_split [OF assms(1,2)] .
  have "drop (Suc 0) (drop n M @ replicate n blank) @ [blank] = drop (Suc n) M @ replicate (Suc n) blank"
    using assms(3) g(3) by (simp add: replicate_append_same)
  then show ?thesis
    using assms g region_up_split [of A t "drop n M @ replicate n blank" b "Suc 0" blank B]
    by (simp add: region_up_split)
qed

lemma region_down_Suc:
  assumes "t \<le> b" "b < length g" "Suc n \<le> Suc b - t"
  shows "region_down t b (Suc 0) blank (region_down t b n blank g) = region_down t b (Suc n) blank g"
proof -
  obtain A M B where g: "g = A @ M @ B" "length A = t" "length M = Suc b - t" using region_split [OF assms(1,2)] .
  have "n \<le> length M - Suc 0" "length M - Suc 0 - n = length M - Suc n" using assms(3) g(3) by auto
  then have "take (length M - Suc 0) (replicate n blank @ take (length M - n) M) = replicate n blank @ take (length M - Suc n) M"
    by (simp add: min_def)
  then show ?thesis
    using assms g region_down_split [of A t "replicate n blank @ take (length M - n) M" b "Suc 0" blank B]
    by (simp add: region_down_split)
qed

lemma region_zero:
  assumes "t \<le> b" "b < length g"
  shows "region_up t b 0 blank g = g" "region_down t b 0 blank g = g"
proof -
  obtain A M B where g: "g = A @ M @ B" "length A = t" "length M = Suc b - t" using region_split [OF assms] .
  then show "region_up t b 0 blank g = g" "region_down t b 0 blank g = g"
    using assms(1) by (simp_all add: region_up_split region_down_split)
qed

lemma length_region:
  "t \<le> b \<Longrightarrow> b < length g \<Longrightarrow> n \<le> Suc b - t \<Longrightarrow> length (region_up t b n blank g) = length g"
  "t \<le> b \<Longrightarrow> b < length g \<Longrightarrow> n \<le> Suc b - t \<Longrightarrow> length (region_down t b n blank g) = length g"
  by (auto simp: region_up_def region_down_def)

lemma hd_region_up: "t + n \<le> b \<Longrightarrow> b < length g \<Longrightarrow> region_up t b n blank g ! t = g ! (t + n)"
  by (auto simp: region_up_def nth_append)

lemma scroll_up_steps:
  assumes "t \<le> b" "b < length (sc_grid s)" "n \<le> Suc b - t" "length (sc_scrollback s) \<le> sc_max_scrollback s"
  shows "(scroll_up_once t b save style ^^ n) s =
    s\<lparr>sc_grid := region_up t b n (row_blank (sc_cols s) style) (sc_grid s),
      sc_scrollback := (if save then push_history (sc_max_scrollback s) (sc_scrollback s) (take n (drop t (sc_grid s)))
                        else sc_scrollback s)\<rparr>"
  using assms(3)
proof (induction n)
  case 0
  then show ?case using assms by (simp add: region_zero)
next
  case (Suc n)
  let ?g = "region_up t b n (row_blank (sc_cols s) style) (sc_grid s)"
  have g: "length ?g = length (sc_grid s)" "?g ! t = sc_grid s ! (t + n)"
    using assms Suc.prems by (auto simp: length_region hd_region_up)
  have "take (Suc n) (drop t (sc_grid s)) = take n (drop t (sc_grid s)) @ [sc_grid s ! (t + n)]"
    using assms Suc.prems by (simp add: take_Suc_conv_app_nth)
  then have "scroll_up_once t b save style ((scroll_up_once t b save style ^^ n) s) =
    s\<lparr>sc_grid := region_up t b (Suc n) (row_blank (sc_cols s) style) (sc_grid s),
      sc_scrollback := (if save then push_history (sc_max_scrollback s) (sc_scrollback s) (take (Suc n) (drop t (sc_grid s)))
                        else sc_scrollback s)\<rparr>"
    unfolding Suc.IH [OF Suc_leD [OF Suc.prems]]
    using Suc.prems assms g region_up_Suc [of t b "sc_grid s" n "row_blank (sc_cols s) style"] region_up_one [of t b ?g]
    by (simp add: scroll_up_once_def Let_def save_row_eq length_push_history push_history_append)
  then show ?case by simp
qed

lemma scroll_up_eq:
  assumes "wf_screen s"
  shows "scroll_up t b0 n0 save style s =
    (let b = min b0 (sc_rows s - 1); n = max 1 (min n0 (b - t + 1))
     in if t > b then s
        else s\<lparr>sc_grid := region_up t b n (row_blank (sc_cols s) style) (sc_grid s),
               sc_scrollback := (if save then push_history (sc_max_scrollback s) (sc_scrollback s) (take n (drop t (sc_grid s)))
                                 else sc_scrollback s)\<rparr>)"
proof -
  let ?b = "min b0 (sc_rows s - 1)" let ?n = "max 1 (min n0 (?b - t + 1))"
  have "(scroll_up_once t ?b save style ^^ ?n) s =
    s\<lparr>sc_grid := region_up t ?b ?n (row_blank (sc_cols s) style) (sc_grid s),
      sc_scrollback := (if save then push_history (sc_max_scrollback s) (sc_scrollback s) (take ?n (drop t (sc_grid s)))
                        else sc_scrollback s)\<rparr>" if "t \<le> ?b"
    by (rule scroll_up_steps) (use that wf_screenD [OF assms] in auto)
  then show ?thesis unfolding scroll_up_def Let_def wf_screenD(3) [OF assms] by (cases "t \<le> ?b") (simp_all only: not_le if_True if_False not_less [symmetric] simp_thms)
qed

lemma scroll_down_steps:
  assumes "t \<le> b" "b < length (sc_grid s)" "n \<le> Suc b - t"
  shows "(scroll_down_once t b style ^^ n) s =
    s\<lparr>sc_grid := region_down t b n (row_blank (sc_cols s) style) (sc_grid s)\<rparr>"
  using assms(3)
proof (induction n)
  case 0
  then show ?case using assms by (simp add: region_zero)
next
  case (Suc n)
  then have "scroll_down_once t b style ((scroll_down_once t b style ^^ n) s) =
    s\<lparr>sc_grid := region_down t b (Suc n) (row_blank (sc_cols s) style) (sc_grid s)\<rparr>"
    unfolding Suc.IH [OF Suc_leD [OF Suc.prems]]
    using Suc.prems assms region_down_Suc [of t b "sc_grid s" n] region_down_one [of t b "region_down t b n (row_blank (sc_cols s) style) (sc_grid s)"]
    by (simp add: scroll_down_once_def length_region)
  then show ?case by simp
qed

lemma scroll_down_eq:
  assumes "wf_screen s"
  shows "scroll_down t b0 n0 style s =
    (let b = min b0 (sc_rows s - 1); n = max 1 (min n0 (b - t + 1))
     in if t > b then s
        else s\<lparr>sc_grid := region_down t b n (row_blank (sc_cols s) style) (sc_grid s)\<rparr>)"
proof -
  let ?b = "min b0 (sc_rows s - 1)" let ?n = "max 1 (min n0 (?b - t + 1))"
  have "(scroll_down_once t ?b style ^^ ?n) s =
    s\<lparr>sc_grid := region_down t ?b ?n (row_blank (sc_cols s) style) (sc_grid s)\<rparr>" if "t \<le> ?b"
    by (rule scroll_down_steps) (use that wf_screenD [OF assms] in auto)
  then show ?thesis unfolding scroll_down_def Let_def wf_screenD(3) [OF assms] by (cases "t \<le> ?b") (simp_all only: not_le if_True if_False not_less [symmetric] simp_thms)
qed

lemma set_region:
  "set (region_up t b n blank g) \<subseteq> insert blank (set g)" "set (region_down t b n blank g) \<subseteq> insert blank (set g)"
  by (auto simp: region_up_def region_down_def dest!: in_set_takeD in_set_dropD)

lemma set_push_history: "set (push_history m old new) \<subseteq> set old \<union> set new"
  by (auto simp: push_history_def Let_def dest!: in_set_dropD)

lemma scroll_up_wf [wf_screen_intros]:
  assumes "wf_screen s"
  shows "wf_screen (scroll_up t b n save style s)"
proof -
  define b' n' where "b' = min b (sc_rows s - 1)" and "n' = max 1 (min n (b' - t + 1))"
  let ?g = "region_up t b' n' (row_blank (sc_cols s) style) (sc_grid s)"
  let ?h = "push_history (sc_max_scrollback s) (sc_scrollback s) (take n' (drop t (sc_grid s)))"
  have rows: "length (cells r) = sc_cols s" if "r \<in> set (sc_grid s) \<union> set (sc_scrollback s)" for r
    using assms that by (auto simp: wf_screen_def wf_rows_def)
  have "set ?h \<subseteq> set (sc_scrollback s) \<union> set (sc_grid s)"
    using set_push_history [of "sc_max_scrollback s" "sc_scrollback s" "take n' (drop t (sc_grid s))"]
    by (auto dest: in_set_takeD in_set_dropD)
  then have h: "length (cells r) = sc_cols s" if "r \<in> set ?h" for r using rows that by blast
  have g: "length (cells r) = sc_cols s" if "r \<in> set ?g" for r
    using rows that set_region(1) [of t b' n' "row_blank (sc_cols s) style" "sc_grid s"] by fastforce
  have "length ?g = sc_rows s" if "t \<le> b'"
    using that wf_screenD(1,3) [OF assms] by (subst length_region) (auto simp: b'_def n'_def)
  then show ?thesis
    using assms wf_screenD [OF assms] rows g h unfolding scroll_up_eq [OF assms] Let_def b'_def [symmetric] n'_def [symmetric]
    by (auto intro!: wf_screenI simp: length_push_history)
qed

lemma scroll_down_wf [wf_screen_intros]:
  assumes "wf_screen s"
  shows "wf_screen (scroll_down t b n style s)"
proof -
  define b' n' where "b' = min b (sc_rows s - 1)" and "n' = max 1 (min n (b' - t + 1))"
  let ?g = "region_down t b' n' (row_blank (sc_cols s) style) (sc_grid s)"
  have rows: "length (cells r) = sc_cols s" if "r \<in> set (sc_grid s) \<union> set (sc_scrollback s)" for r
    using assms that by (auto simp: wf_screen_def wf_rows_def)
  have g: "length (cells r) = sc_cols s" if "r \<in> set ?g" for r
    using rows that set_region(2) [of t b' n' "row_blank (sc_cols s) style" "sc_grid s"] by fastforce
  have "length ?g = sc_rows s" if "t \<le> b'"
    using that wf_screenD(1,3) [OF assms] by (subst length_region) (auto simp: b'_def n'_def)
  then show ?thesis
    using assms wf_screenD [OF assms] rows g unfolding scroll_down_eq [OF assms] Let_def b'_def [symmetric] n'_def [symmetric]
    by (auto intro!: wf_screenI)
qed

end
