(* ===== verification/Screen_Reflow.thy ===== *)
theory Screen_Reflow
  imports Screen "HOL-Library.Sublist"
begin

text \<open>
  What a resize does to a screen: rows stay full and the cursor stays inside, the visible cells
  survive in order, and a cursor on a character follows it through the rewrapping.
\<close>

section \<open>Reflow keeps the rows full, and the cursor on the screen\<close>

definition rewrap_inv :: "nat \<Rightarrow> Cell list \<Rightarrow> rewrap \<Rightarrow> bool" where
  "rewrap_inv W line st = (case st of (j, cur, rows, ncur) \<Rightarrow>
     length cur \<le> W \<and> (j < length line \<longrightarrow> length cur < W) \<and> (\<forall>r \<in> set rows. length (cells r) = W)
     \<and> (\<forall>r c. ncur = Some (r, c) \<longrightarrow> r \<le> length rows \<and> c < W))"

lemma rewrap_loop_rule:
  assumes "P st" "\<And>j cur rows ncur. j < length line \<Longrightarrow> P (j, cur, rows, ncur) \<Longrightarrow> P (rewrap_step W off line (j, cur, rows, ncur))"
  shows "P (rewrap_loop W off line st)" "length line \<le> fst (rewrap_loop W off line st)"
proof -
  have "P (rewrap_loop W off line st) \<and> length line \<le> fst (rewrap_loop W off line st)"
    using assms
  proof (induction W off line st rule: rewrap_loop.induct)
    case (1 W off line j cur rows ncur)
    show ?case
    proof (cases "j < length line")
      case True
      then have "P (rewrap_step W off line (j, cur, rows, ncur))" using 1 by blast
      then have "P (rewrap_loop W off line (rewrap_step W off line (j, cur, rows, ncur))) \<and>
        length line \<le> fst (rewrap_loop W off line (rewrap_step W off line (j, cur, rows, ncur)))"
        by (rule 1(1) [OF True]) (rule 1(3))
      then show ?thesis using True by (simp add: rewrap_loop.simps [of _ _ _ j])
    next
      case False
      then show ?thesis using 1 by (simp add: rewrap_loop.simps [of _ _ _ j])
    qed
  qed
  then show "P (rewrap_loop W off line st)" "length line \<le> fst (rewrap_loop W off line st)" by auto
qed

lemma flush_full_inv:
  assumes "flush_full W b cur rows = (cur', rows')" "length cur \<le> W" "1 \<le> W" "\<forall>r \<in> set rows. length (cells r) = W"
  shows "length cur' \<le> W" "b \<Longrightarrow> length cur' < W" "\<forall>r \<in> set rows'. length (cells r) = W" "length rows \<le> length rows'"
  using assms by (auto simp: flush_full_def wrapped_row_def split: if_splits)

lemma pad_edge_inv:
  assumes "pad_edge W w cur rows = (cur', rows')" "length cur \<le> W" "w \<le> W" "\<forall>r \<in> set rows. length (cells r) = W"
  shows "length cur' + w \<le> W" "\<forall>r \<in> set rows'. length (cells r) = W" "length rows \<le> length rows'"
  using assms by (auto simp: pad_edge_def wrapped_row_def split: if_splits)

text \<open>The three ways a step goes.\<close>

lemma rewrap_step_cases:
  assumes "length cur \<le> W" "\<forall>r \<in> set rows. length (cells r) = W"
  obtains (spacer) "width (line ! j) = 0"
      "rewrap_step W off line (j, cur, rows, ncur) =
         (j + 1, cur, rows, if off = Some j \<and> ncur = None then Some (length rows, min (length cur) (W - 1)) else ncur)"
  | (wide) cur' rows' where "width (line ! j) \<noteq> 0" "max (width (line ! j)) 1 > W"
      "flush_full W (j + skip_of line j < length line) (cur @ [cell_blank style_default]) rows = (cur', rows')"
      "rewrap_step W off line (j, cur, rows, ncur) =
         (j + skip_of line j, cur', rows',
          if off = Some j \<or> off = Some (j + 1) then Some (length rows, length cur) else ncur)"
  | (place) w cur1 rows1 cur' rows' j' where "width (line ! j) \<noteq> 0" "w = width (line ! j)" "w \<le> W"
      "pad_edge W w cur rows = (cur1, rows1)" "j' = (if w = 2 then j + skip_of line j else j + 1)"
      "flush_full W (j' < length line) (cur1 @ line ! j # (if w = 2 then [spacer_of (line ! j)] else [])) rows1 = (cur', rows')"
      "length cur1 + w \<le> W" "\<forall>r \<in> set rows1. length (cells r) = W" "length rows \<le> length rows1"
      "rewrap_step W off line (j, cur, rows, ncur) =
         (j', cur', rows',
          if off = Some j then Some (length rows1, length cur1)
          else if w = 2 \<and> off = Some (j + 1) then Some (length rows1, length cur1 + 1) else ncur)"
proof -
  let ?w = "width (line ! j)"
  consider "?w = 0" | "?w \<noteq> 0" "max ?w 1 > W" | "?w \<noteq> 0" "max ?w 1 \<le> W" by linarith
  then show thesis
  proof cases
    case 1
    then show thesis by (intro spacer) (simp_all add: rewrap_step_def)
  next
    case 2
    obtain cur' rows' where f: "flush_full W (j + skip_of line j < length line) (cur @ [cell_blank style_default]) rows = (cur', rows')"
      by fastforce
    show thesis using 2 f
      by (intro wide [OF 2 f]) (auto simp: rewrap_step_def rewrap_too_wide_def Let_def split: option.split)
  next
    case 3
    have w: "max ?w 1 = ?w" using 3 by auto
    obtain cur1 rows1 where p: "pad_edge W ?w cur rows = (cur1, rows1)" by fastforce
    note p' = pad_edge_inv [OF p assms(1) 3(2) [unfolded w] assms(2)]
    define j' where "j' = (if ?w = 2 then j + skip_of line j else j + 1)"
    obtain cur' rows' where f: "flush_full W (j' < length line)
        (cur1 @ line ! j # (if ?w = 2 then [spacer_of (line ! j)] else [])) rows1 = (cur', rows')" by fastforce
    have "rewrap_step W off line (j, cur, rows, ncur) =
      (j', cur', rows', if off = Some j then Some (length rows1, length cur1)
          else if ?w = 2 \<and> off = Some (j + 1) then Some (length rows1, length cur1 + 1) else ncur)"
      using 3 f unfolding w
      by (auto simp: rewrap_step_def rewrap_place_def Let_def w p j'_def split: option.split)
    then show thesis using 3 p p' f by (intro place [of ?w cur1 rows1 j' cur' rows']) (simp_all add: w j'_def)
  qed
qed

lemma rewrap_step_inv:
  assumes "1 \<le> W" "j < length line" "rewrap_inv W line (j, cur, rows, ncur)"
  shows "rewrap_inv W line (rewrap_step W off line (j, cur, rows, ncur))"
proof -
  have i: "length cur < W" "\<forall>r \<in> set rows. length (cells r) = W"
    "\<And>r c. ncur = Some (r, c) \<Longrightarrow> r \<le> length rows \<and> c < W"
    using assms by (auto simp: rewrap_inv_def)
  from less_imp_le [OF i(1)] i(2) show ?thesis
  proof (cases rule: rewrap_step_cases [of cur W rows line j off ncur])
    case spacer
    then show ?thesis using i assms(1) by (auto simp: rewrap_inv_def)
  next
    case (wide cur' rows')
    then show ?thesis using i flush_full_inv [OF wide(3) _ assms(1)] by (fastforce simp: rewrap_inv_def)
  next
    case (place w cur1 rows1 cur' rows' j')
    have "length (cur1 @ line ! j # (if w = 2 then [spacer_of (line ! j)] else [])) \<le> W" using place(1,2,7) by auto
    note f' = flush_full_inv [OF place(6) this assms(1) place(8)]
    have "r \<le> length rows' \<and> c < W"
      if "(if off = Some j then Some (length rows1, length cur1)
          else if w = 2 \<and> off = Some (j + 1) then Some (length rows1, length cur1 + 1) else ncur) = Some (r, c)" for r c
      using that place(1,2,7,9) f'(4) i(3) [of r c] by (auto split: if_splits)
    then show ?thesis using f' place(10) by (auto simp: rewrap_inv_def)
  qed
qed

lemma rewrap_loop_inv:
  assumes "1 \<le> W" "rewrap_inv W line st"
  shows "rewrap_inv W line (rewrap_loop W off line st)"
  by (rule rewrap_loop_rule(1) [of "rewrap_inv W line"]) (use assms rewrap_step_inv in blast)+

section \<open>Reflow loses no visible cell and keeps the cursor on its cell\<close>

definition lines_ok :: "nat \<Rightarrow> Row list \<times> (nat \<times> nat) option \<Rightarrow> bool" where
  "lines_ok W st \<longleftrightarrow> (\<forall>r \<in> set (fst st). length (cells r) = W)
     \<and> (\<forall>r c. snd st = Some (r, c) \<longrightarrow> r < length (fst st) \<and> c < W)"

definition vis :: "Cell list \<Rightarrow> Cell list" where
  "vis cs = filter (\<lambda>c. width c \<noteq> 0 \<and> \<not> is_dump_skippable c) cs"

definition visible :: "Row list \<Rightarrow> Cell list" where
  "visible rows = vis (concat (map cells rows))"

lemma vis_append [simp]: "vis (a @ b) = vis a @ vis b" "vis [] = []"
  by (simp_all add: vis_def)

lemma visible_simps [simp]:
  "visible (a @ b) = visible a @ visible b" "visible [] = []" "visible (r # a) = vis (cells r) @ visible a"
  by (simp_all add: visible_def)

lemma vis_blanks [simp]: "vis (replicate n (cell_blank style_default)) = []"
  by (simp add: vis_def blank_skippable)

lemma vis_spacer [simp]: "vis [spacer_of c] = []"
  by (simp add: vis_def spacer_of_def)

lemma visible_blank_rows [simp]: "visible (replicate n (row_blank W style_default)) = []"
  by (induction n) simp_all

lemma flush_full_rows:
  assumes "flush_full W b cur rows = (cur', rows')"
  shows "visible rows' @ vis cur' = visible rows @ vis cur" "prefix rows rows'"
  using assms by (auto simp: flush_full_def wrapped_row_def split: if_splits)

lemma pad_edge_rows:
  assumes "pad_edge W w cur rows = (cur', rows')"
  shows "visible rows' @ vis cur' = visible rows @ vis cur" "prefix rows rows'"
  using assms by (auto simp: pad_edge_def wrapped_row_def split: if_splits)

lemma vis_take_Suc: "j < length line \<Longrightarrow> vis (take (Suc j) line) = vis (take j line) @ vis [line ! j]"
  by (simp add: take_Suc_conv_app_nth)

lemma vis_take_skip: "j < length line \<Longrightarrow> vis (take (j + skip_of line j) line) = vis (take j line) @ vis [line ! j]"
  using vis_take_Suc [of j line] vis_take_Suc [of "Suc j" line]
  by (auto simp: skip_of_def spacer_follows_def vis_def)

text \<open>Rows already written stay, and what is written reads as the cells consumed.\<close>

definition rewrap_reads :: "nat \<Rightarrow> Cell list \<Rightarrow> Row list \<Rightarrow> rewrap \<Rightarrow> bool" where
  "rewrap_reads W line rows0 st \<longleftrightarrow> rewrap_inv W line st \<and> prefix rows0 (fst (snd (snd st)))
     \<and> ((\<forall>c \<in> set line. width c \<le> W) \<longrightarrow>
         visible (fst (snd (snd st))) @ vis (fst (snd st)) = visible rows0 @ vis (take (fst st) line))"

lemma rewrap_step_reads:
  assumes "1 \<le> W" "j < length line" "rewrap_reads W line rows0 (j, cur, rows, ncur)"
  shows "rewrap_reads W line rows0 (rewrap_step W off line (j, cur, rows, ncur))"
proof -
  have inv: "rewrap_inv W line (j, cur, rows, ncur)" and pre: "prefix rows0 rows"
    and v: "(\<forall>c \<in> set line. width c \<le> W) \<Longrightarrow> visible rows @ vis cur = visible rows0 @ vis (take j line)"
    using assms(3) by (auto simp: rewrap_reads_def)
  note inv' = rewrap_step_inv [OF assms(1,2) inv]
  have i: "length cur \<le> W" "\<forall>r \<in> set rows. length (cells r) = W" using inv by (auto simp: rewrap_inv_def)
  from i show ?thesis
  proof (cases rule: rewrap_step_cases [of cur W rows line j off ncur])
    case spacer
    have "vis [line ! j] = []" using spacer(1) by (simp add: vis_def)
    then show ?thesis using spacer(2) v pre inv' [of off] vis_take_Suc [OF assms(2)] unfolding rewrap_reads_def by simp
  next
    case (wide cur' rows')
    have "\<not> (\<forall>c \<in> set line. width c \<le> W)" using wide(1,2) assms(1,2) by (auto intro!: bexI [of _ "line ! j"])
    then show ?thesis
      using pre inv' [of off] flush_full_rows(2) [OF wide(3)] wide(4) unfolding rewrap_reads_def by auto
  next
    case (place w cur1 rows1 cur' rows' j')
    have "vis (cur1 @ line ! j # (if w = 2 then [spacer_of (line ! j)] else [])) = vis cur1 @ vis [line ! j]"
      by (simp add: vis_def spacer_of_def)
    moreover have "vis (take j' line) = vis (take j line) @ vis [line ! j]"
      using place(5) vis_take_Suc [OF assms(2)] vis_take_skip [OF assms(2)] by auto
    ultimately show ?thesis
      using pre inv' [of off] v flush_full_rows [OF place(6)] pad_edge_rows [OF place(4)] place(10)
      unfolding rewrap_reads_def by (auto intro: prefix_order.trans simp flip: append_assoc)
  qed
qed

text \<open>Where the cell under the cursor went.\<close>

definition placed :: "Cell \<Rightarrow> Row list \<Rightarrow> nat \<times> nat \<Rightarrow> bool" where
  "placed t rows p \<longleftrightarrow> fst p < length rows \<and> snd p < length (cells (rows ! fst p)) \<and> cells (rows ! fst p) ! snd p = t"

definition rewrap_tracks :: "nat \<Rightarrow> Cell list \<Rightarrow> nat \<Rightarrow> rewrap \<Rightarrow> bool" where
  "rewrap_tracks W line off st \<longleftrightarrow> rewrap_inv W line st
     \<and> (off < fst st \<longrightarrow> (\<exists>p. snd (snd (snd st)) = Some p
          \<and> placed (line ! off) (fst (snd (snd st)) @ [wrapped_row (fst (snd st))]) p))"

lemma placed_flush:
  assumes "placed t (rows @ [wrapped_row cur]) p" "flush_full W b cur rows = (cur', rows')"
  shows "placed t (rows' @ [wrapped_row cur']) p"
  using assms by (auto simp: flush_full_def placed_def nth_append split: if_splits)

lemma placed_extend:
  assumes "placed t (rows @ [wrapped_row cur]) p" "pad_edge W w cur rows = (cur', rows')"
  shows "placed t (rows' @ [wrapped_row (cur' @ zs)]) p"
  using assms by (auto simp: pad_edge_def placed_def nth_append wrapped_row_def split: if_splits)

lemma rewrap_step_tracks:
  assumes "1 \<le> W" "j < length line" "\<forall>c \<in> set line. width c \<le> W" "off < length line" "width (line ! off) \<noteq> 0"
    and "rewrap_tracks W line off (j, cur, rows, ncur)"
  shows "rewrap_tracks W line off (rewrap_step W (Some off) line (j, cur, rows, ncur))"
proof -
  have inv: "rewrap_inv W line (j, cur, rows, ncur)"
    and tr: "off < j \<Longrightarrow> \<exists>p. ncur = Some p \<and> placed (line ! off) (rows @ [wrapped_row cur]) p"
    using assms(6) by (auto simp: rewrap_tracks_def)
  note inv' = rewrap_step_inv [OF assms(1,2) inv, of "Some off"]
  have i: "length cur \<le> W" "\<forall>r \<in> set rows. length (cells r) = W" using inv by (auto simp: rewrap_inv_def)
  from i show ?thesis
  proof (cases rule: rewrap_step_cases [of cur W rows line j "Some off" ncur])
    case spacer
    have "off \<noteq> j" using spacer(1) assms(5) by auto
    then show ?thesis using spacer tr inv' by (auto simp: rewrap_tracks_def)
  next
    case (wide cur' rows')
    have False using wide(1,2) assms(1,2,3) by (auto dest!: nth_mem)
    then show ?thesis ..
  next
    case (place w cur1 rows1 cur' rows' j')
    let ?tail = "line ! j # (if w = 2 then [spacer_of (line ! j)] else [])"
    have "\<not> spacer_follows line j" if "off = Suc j" using that assms(5) by (auto simp: spacer_follows_def)
    then have before: "\<not> off < j'" if "j < off"
      using that place(5) by (auto simp: skip_of_def split: if_splits)
    show ?thesis
    proof (cases "off < j")
      case True
      then show ?thesis using tr inv' place(10) placed_flush [OF placed_extend [OF _ place(4)] place(6)]
        by (auto simp: rewrap_tracks_def)
    next
      case False
      show ?thesis
      proof (cases "off = j")
        case True
        have "placed (line ! off) (rows1 @ [wrapped_row (cur1 @ ?tail)]) (length rows1, length cur1)"
          using True by (simp add: placed_def wrapped_row_def)
        then show ?thesis using True inv' place(10) placed_flush [OF _ place(6)] by (auto simp: rewrap_tracks_def)
      next
        case False
        then have "\<not> off < j'" using before \<open>\<not> off < j\<close> by simp
        then show ?thesis using inv' place(10) by (simp add: rewrap_tracks_def)
      qed
    qed
  qed
qed

lemma rewrap_loop_reads:
  assumes "1 \<le> W" "rewrap_reads W line rows0 st"
  shows "rewrap_reads W line rows0 (rewrap_loop W off line st)"
  by (rule rewrap_loop_rule(1) [of "rewrap_reads W line rows0"]) (use assms rewrap_step_reads in blast)+

lemma rewrap_loop_tracks:
  assumes "1 \<le> W" "\<forall>c \<in> set line. width c \<le> W" "off < length line" "width (line ! off) \<noteq> 0" "rewrap_tracks W line off st"
  shows "rewrap_tracks W line off (rewrap_loop W (Some off) line st)"
  by (rule rewrap_loop_rule(1) [of "rewrap_tracks W line off"]) (use assms rewrap_step_tracks in blast)+

lemma rewrap_line_ok:
  assumes "1 \<le> W" "lines_ok W st"
  shows "lines_ok W (rewrap_line W off mk line st)"
    and "\<exists>ext. fst (rewrap_line W off mk line st) = fst st @ ext \<and> ext \<noteq> []
           \<and> ((\<forall>c \<in> set line. width c \<le> W) \<longrightarrow> visible ext = vis line)"
    and "off = None \<Longrightarrow> snd (rewrap_line W off mk line st) = snd st"
proof -
  obtain rows0 ncur0 where st: "st = (rows0, ncur0)" by fastforce
  obtain j cur rows1 ncur1 where l: "rewrap_loop W off line (0, [], rows0, ncur0) = (j, cur, rows1, ncur1)"
    using prod_cases4 by blast
  have "rewrap_reads W line rows0 (0, [], rows0, ncur0)"
    using assms by (auto simp: rewrap_reads_def rewrap_inv_def lines_ok_def st less_imp_le)
  from rewrap_loop_reads [OF assms(1) this, of off] have inv: "rewrap_inv W line (j, cur, rows1, ncur1)"
    and pre: "prefix rows0 rows1"
    and v: "(\<forall>c \<in> set line. width c \<le> W) \<Longrightarrow> visible rows1 @ vis cur = visible rows0 @ vis (take j line)"
    unfolding l by (auto simp: rewrap_reads_def)
  have j: "length line \<le> j"
    using rewrap_loop_rule(2) [of "\<lambda>_. True" "(0, [], rows0, ncur0)" line W off] l by simp
  have cur: "length cur \<le> W" using inv by (simp add: rewrap_inv_def)
  define final where "final = \<lparr>cells = cur @ replicate (W - length cur) (cell_blank style_default), wrapped = False, row_mark = None\<rparr>"
  from pre obtain zs where zs: "rows1 = rows0 @ zs" by (auto elim: prefixE)
  define ext where "ext = (zs @ [final])[0 := (hd (zs @ [final]))\<lparr>row_mark := mk\<rparr>]"
  have rows3: "fst (rewrap_line W off mk line st) = rows0 @ ext"
    using cur unfolding rewrap_line_def
    by (cases zs) (simp_all add: st l Let_def ext_def zs nth_append list_update_append flip: final_def)
  have cells_ext: "map cells ext = map cells (zs @ [final])"
    by (cases zs) (simp_all add: ext_def)
  then have vis_ext: "visible ext = visible zs @ vis cur"
    by (simp add: visible_def final_def)
  have len: "length (cells r) = W" if "r \<in> set ext" for r
  proof -
    have "cells r \<in> set (map cells ext)" using that by simp
    then show ?thesis unfolding cells_ext using inv cur by (auto simp: rewrap_inv_def zs final_def)
  qed
  have lens: "length ext = length zs + 1" by (simp add: ext_def)
  have ncur: "snd (rewrap_line W off mk line st) =
      (if off \<noteq> None \<and> ncur1 = None
       then Some (length (rows0 @ ext) - 1, min (significant (cells ((rows0 @ ext) ! (length (rows0 @ ext) - 1)))) (W - 1))
       else ncur1)"
    using rows3 unfolding rewrap_line_def by (simp add: st l Let_def)
  have bounds: "r < length (rows0 @ ext) \<and> c < W" if "ncur1 = Some (r, c)" for r c
    using that inv by (auto simp: rewrap_inv_def zs lens)
  show "lines_ok W (rewrap_line W off mk line st)"
    unfolding lines_ok_def rows3 ncur
    using assms len bounds lens by (auto simp: lines_ok_def st)
  show "\<exists>ext. fst (rewrap_line W off mk line st) = fst st @ ext \<and> ext \<noteq> []
           \<and> ((\<forall>c \<in> set line. width c \<le> W) \<longrightarrow> visible ext = vis line)"
    using v j rows3 vis_ext lens by (intro exI [of _ ext]) (auto simp: st zs)
  show "snd (rewrap_line W off mk line st) = snd st" if "off = None"
  proof -
    have "snd (snd (snd (rewrap_loop W None line (0, [], rows0, ncur0)))) = ncur0"
    proof (rule rewrap_loop_rule(1) [of "\<lambda>st. snd (snd (snd st)) = ncur0"])
      fix j :: nat and cur :: "Cell list" and rows :: "Row list" and ncur
      assume "snd (snd (snd (j, cur, rows, ncur))) = ncur0"
      then show "snd (snd (snd (rewrap_step W None line (j, cur, rows, ncur)))) = ncur0"
        by (auto simp: rewrap_step_def rewrap_too_wide_def rewrap_place_def Let_def split: prod.split)
    qed simp
    then show ?thesis using that l ncur by (simp add: st)
  qed
qed

lemma rewrap_line_tracks:
  assumes "1 \<le> W" "\<forall>c \<in> set line. width c \<le> W" "off < length line" "width (line ! off) \<noteq> 0" "lines_ok W (rows0, None)"
  shows "\<exists>p. snd (rewrap_line W (Some off) mk line (rows0, None)) = Some p
           \<and> placed (line ! off) (fst (rewrap_line W (Some off) mk line (rows0, None))) p"
proof -
  obtain j cur rows1 ncur1 where l: "rewrap_loop W (Some off) line (0, [], rows0, None) = (j, cur, rows1, ncur1)"
    using prod_cases4 by blast
  have "rewrap_tracks W line off (0, [], rows0, None)"
    using assms by (auto simp: rewrap_tracks_def rewrap_inv_def lines_ok_def)
  from rewrap_loop_tracks [OF assms(1-4) this] have tr: "rewrap_tracks W line off (j, cur, rows1, ncur1)" by (simp add: l)
  have j: "length line \<le> j"
    using rewrap_loop_rule(2) [of "\<lambda>_. True" "(0, [], rows0, None)" line W "Some off"] l by simp
  obtain p where p: "ncur1 = Some p" "placed (line ! off) (rows1 @ [wrapped_row cur]) p"
    using tr assms(3) j by (auto simp: rewrap_tracks_def)
  define rows3 where "rows3 = fst (rewrap_line W (Some off) mk line (rows0, None))"
  have "length cur \<le> W" using tr by (simp add: rewrap_tracks_def rewrap_inv_def)
  define rows2 where "rows2 = rows1 @ [\<lparr>cells = cur @ replicate (W - length cur) (cell_blank style_default), wrapped = False, row_mark = None\<rparr>]"
  have rows3': "rows3 = rows2[length rows0 := (rows2 ! length rows0)\<lparr>row_mark := mk\<rparr>]"
    using \<open>length cur \<le> W\<close> by (simp add: rows3_def rows2_def rewrap_line_def l Let_def)
  have "cells (rows3 ! i) = cells (rows2 ! i)" if "i < length rows2" for i
    using that by (cases "i = length rows0") (simp_all add: rows3')
  moreover have "placed (line ! off) rows2 p" using p(2)
    by (auto simp: placed_def rows2_def nth_append wrapped_row_def split: if_splits)
  ultimately have "placed (line ! off) rows3 p" by (auto simp: placed_def rows3')
  moreover have "snd (rewrap_line W (Some off) mk line (rows0, None)) = Some p"
    by (simp add: rewrap_line_def l Let_def p(1))
  ultimately show ?thesis by (auto simp: rows3_def)
qed

lemma placed_append: "placed t rows p \<Longrightarrow> placed t (rows @ ext) p"
  by (auto simp: placed_def nth_append)

text \<open>Trimming a line, and taking one off the old rows.\<close>

lemma significant_drop: "significant cs \<le> k \<Longrightarrow> vis (drop k cs) = []"
proof -
  assume k: "significant cs \<le> k"
  have "\<forall>c \<in> set (takeWhile is_dump_skippable (rev cs)). is_dump_skippable c" by (auto dest: set_takeWhileD)
  moreover have "drop (significant cs) cs = rev (takeWhile is_dump_skippable (rev cs))"
    by (metis append_eq_conv_conj length_rev rev_append rev_rev_ident significant_def takeWhile_dropWhile_id)
  ultimately have "\<forall>c \<in> set (drop (significant cs) cs). is_dump_skippable c" by simp
  moreover have "set (drop k cs) \<subseteq> set (drop (significant cs) cs)" using k by (rule set_drop_subset_set_drop)
  ultimately show "vis (drop k cs) = []" by (auto simp: vis_def filter_empty_conv)
qed

lemma vis_take_all: "significant cs \<le> k \<Longrightarrow> vis (take k cs) = vis cs"
  using significant_drop [of cs k] vis_append(1) [of "take k cs" "drop k cs"] by simp

lemma vis_trim_line: "vis (trim_line off line) = vis line"
  by (auto simp: trim_line_def Let_def intro!: vis_take_all split: option.split)

lemma trim_line_nth:
  assumes "off < length line"
  shows "off < length (trim_line (Some off) line)" "trim_line (Some off) line ! off = line ! off"
  using assms by (auto simp: trim_line_def Let_def)

lemma set_trim_line: "set (trim_line off line) \<subseteq> set line"
  by (auto simp: trim_line_def Let_def dest: in_set_takeD split: option.splits)

lemma take_line_split:
  assumes "take_line ca cc i old line mk off = (line', mk', off', i', rest)"
  shows "\<exists>taken. old = taken @ rest \<and> line' = line @ concat (map cells taken) \<and> i' = i + length taken
    \<and> (old \<noteq> [] \<longrightarrow> taken \<noteq> [])"
  using assms
proof (induction ca cc i old line mk off rule: take_line.induct)
  case (2 ca cc i row rest0 line mk off)
  show ?case
  proof (cases "\<not> wrapped row \<or> rest0 = []")
    case True
    then show ?thesis using 2 by (intro exI [of _ "[row]"]) (auto simp: Let_def)
  next
    case False
    then obtain taken where "rest0 = taken @ rest" "line' = (line @ cells row) @ concat (map cells taken)" "i' = i + 1 + length taken"
      using 2(1) [OF refl refl refl False] 2(2) by (auto simp: Let_def)
    then show ?thesis by (intro exI [of _ "row # taken"]) auto
  qed
qed simp

lemma take_line_off_after: "take_line ca cc i old line mk off = (line', mk', off', i', rest) \<Longrightarrow> ca < i \<Longrightarrow> off' = off"
  by (induction ca cc i old line mk off rule: take_line.induct) (auto simp: Let_def split: if_splits)

lemma take_line_off:
  assumes "take_line ca cc i old line mk None = (line', mk', off', i', rest)" "i \<le> ca" "ca < i + length old"
  shows "if ca < i' then \<exists>k. off' = Some k \<and> (cc < length (cells (old ! (ca - i))) \<longrightarrow>
                              k < length line' \<and> line' ! k = cells (old ! (ca - i)) ! cc)
         else off' = None"
  using assms
proof (induction ca cc i old line mk "None :: nat option" rule: take_line.induct)
  case (2 ca cc i row rest0 line mk)
  show ?case
  proof (cases "\<not> wrapped row \<or> rest0 = []")
    case True
    then show ?thesis using 2(2-) by (auto simp: Let_def nth_append split: if_splits)
  next
    case False
    let ?mk = "if mk = None then row_mark row else mk"
    show ?thesis
    proof (cases "i = ca")
      case True
      have t: "take_line ca cc (i + 1) rest0 (line @ cells row) ?mk (Some (length line + cc)) = (line', mk', off', i', rest)"
        using 2(2) False True by (simp add: Let_def)
      obtain taken :: "Row list" where tk: "line' = (line @ cells row) @ concat (map cells taken)" "i' = i + 1 + length taken"
        using take_line_split [OF t] by metis
      then show ?thesis using take_line_off_after [OF t] True by (auto simp: nth_append)
    next
      case False': False
      have t: "take_line ca cc (i + 1) rest0 (line @ cells row) ?mk None = (line', mk', off', i', rest)"
        using 2(2) False False' by (simp add: Let_def)
      have "(row # rest0) ! (ca - i) = rest0 ! (ca - (i + 1))" using False' 2(3) by (simp add: nth_Cons')
      moreover have "None = (if i = ca then Some (length line + cc) else None)" using False' by simp
      ultimately show ?thesis using 2(1) [OF refl _ refl False t] False' 2(3,4)
        by (simp split: if_splits)
    qed
  qed
qed simp

lemma reflow_lines_ok:
  assumes "1 \<le> W" "lines_ok W st"
  shows "lines_ok W (reflow_lines W ca cc i old st)"
    and "\<exists>ext. fst (reflow_lines W ca cc i old st) = fst st @ ext \<and> (old \<noteq> [] \<longrightarrow> ext \<noteq> [])
           \<and> ((\<forall>r \<in> set old. \<forall>c \<in> set (cells r). width c \<le> W) \<longrightarrow> visible ext = visible old)"
    and "ca < i \<Longrightarrow> snd (reflow_lines W ca cc i old st) = snd st"
proof -
  have "lines_ok W (reflow_lines W ca cc i old st)
    \<and> (\<exists>ext. fst (reflow_lines W ca cc i old st) = fst st @ ext \<and> (old \<noteq> [] \<longrightarrow> ext \<noteq> [])
           \<and> ((\<forall>r \<in> set old. \<forall>c \<in> set (cells r). width c \<le> W) \<longrightarrow> visible ext = visible old))
    \<and> (ca < i \<longrightarrow> snd (reflow_lines W ca cc i old st) = snd st)"
    using assms
  proof (induction W ca cc i old st rule: reflow_lines.induct)
    case (1 W ca cc i old st)
    show ?case
    proof (cases "old = []")
      case True
      then show ?thesis using 1(3) by (simp add: reflow_lines.simps)
    next
      case False
      obtain line mk off i' rest where t: "take_line ca cc i old [] None None = (line, mk, off, i', rest)"
        by (metis prod_cases5)
      define st' where "st' = rewrap_line W off mk (trim_line off line) st"
      have r: "reflow_lines W ca cc i old st = reflow_lines W ca cc i' rest st'"
        using False t by (simp add: reflow_lines.simps [of W ca cc i old] st'_def)
      note line = rewrap_line_ok [OF 1(2,3), of off mk "trim_line off line", folded st'_def]
      obtain taken where tk: "old = taken @ rest" "line = concat (map cells taken)" "i' = i + length taken"
        using take_line_split [OF t] by auto
      have IH: "lines_ok W (reflow_lines W ca cc i' rest st')
        \<and> (\<exists>ext. fst (reflow_lines W ca cc i' rest st') = fst st' @ ext \<and> (rest \<noteq> [] \<longrightarrow> ext \<noteq> [])
           \<and> ((\<forall>r \<in> set rest. \<forall>c \<in> set (cells r). width c \<le> W) \<longrightarrow> visible ext = visible rest))
        \<and> (ca < i' \<longrightarrow> snd (reflow_lines W ca cc i' rest st') = snd st')"
        unfolding st'_def by (rule 1(1) [OF False t [symmetric] refl refl refl]) (use 1(2) line(1) in \<open>simp_all add: st'_def\<close>)
      from line(2) obtain ext1 where e1: "fst st' = fst st @ ext1" "ext1 \<noteq> []"
        "(\<forall>c \<in> set (trim_line off line). width c \<le> W) \<Longrightarrow> visible ext1 = vis line"
        unfolding vis_trim_line by auto
      from IH obtain ext2 where e2: "fst (reflow_lines W ca cc i' rest st') = fst st' @ ext2"
        "(\<forall>r \<in> set rest. \<forall>c \<in> set (cells r). width c \<le> W) \<Longrightarrow> visible ext2 = visible rest" by auto
      have "visible (ext1 @ ext2) = visible old" if w: "\<forall>r \<in> set old. \<forall>c \<in> set (cells r). width c \<le> W"
      proof -
        have "\<forall>c \<in> set line. width c \<le> W" using w tk by auto
        then have "visible ext1 = vis line" using e1(3) set_trim_line [of off line] by blast
        moreover have "visible ext2 = visible rest" using e2(2) w tk(1) by auto
        ultimately show ?thesis using tk by (simp add: visible_def)
      qed
      moreover have "off = None" if "ca < i" using take_line_off_after [OF t that] .
      moreover have "ca < i'" if "ca < i" using that tk by simp
      ultimately show ?thesis
        using IH e1 e2 line(3) unfolding r by (intro conjI exI [of _ "ext1 @ ext2"] impI) auto
    qed
  qed
  then show "lines_ok W (reflow_lines W ca cc i old st)"
    "\<exists>ext. fst (reflow_lines W ca cc i old st) = fst st @ ext \<and> (old \<noteq> [] \<longrightarrow> ext \<noteq> [])
           \<and> ((\<forall>r \<in> set old. \<forall>c \<in> set (cells r). width c \<le> W) \<longrightarrow> visible ext = visible old)"
    "ca < i \<Longrightarrow> snd (reflow_lines W ca cc i old st) = snd st"
    by blast+
qed

lemma reflow_lines_tracks:
  assumes "1 \<le> W" "lines_ok W (rows0, None)" "i \<le> ca" "ca < i + length old"
    and "cc < length (cells (old ! (ca - i)))" "cells (old ! (ca - i)) ! cc = t" "width t \<noteq> 0"
    and "\<forall>r \<in> set old. \<forall>c \<in> set (cells r). width c \<le> W"
  shows "\<exists>p. snd (reflow_lines W ca cc i old (rows0, None)) = Some p
           \<and> placed t (fst (reflow_lines W ca cc i old (rows0, None))) p"
  using assms
proof (induction "length old" arbitrary: old rows0 i rule: less_induct)
  case less
  have ne: "old \<noteq> []" using less(4,5) by auto
  obtain line mk off i' rest where t: "take_line ca cc i old [] None None = (line, mk, off, i', rest)"
    by (metis prod_cases5)
  define st' where "st' = rewrap_line W off mk (trim_line off line) (rows0, None)"
  have r: "reflow_lines W ca cc i old (rows0, None) = reflow_lines W ca cc i' rest st'"
    using ne t by (simp add: reflow_lines.simps [of W ca cc i old] st'_def)
  note line = rewrap_line_ok [OF less(2,3), of off mk "trim_line off line", folded st'_def]
  obtain taken where tk: "old = taken @ rest" "line = concat (map cells taken)" "i' = i + length taken" "taken \<noteq> []"
    using take_line_split [OF t] ne by auto
  have off: "if ca < i' then \<exists>k. off = Some k \<and> k < length line \<and> line ! k = t else off = None"
    using take_line_off [OF t less(4,5)] less(6,7) by auto
  show ?case
  proof (cases "ca < i'")
    case True
    then obtain k where k: "off = Some k" "k < length line" "line ! k = t" using off by auto
    have w: "\<forall>c \<in> set (trim_line (Some k) line). width c \<le> W" using less(9) tk set_trim_line by fastforce
    obtain p where p: "snd st' = Some p" "placed t (fst st') p"
      using rewrap_line_tracks [OF less(2) w trim_line_nth(1) [OF k(2)] _ less(3), of mk] trim_line_nth(2) [OF k(2)] k less(8)
      by (auto simp: st'_def)
    note rest = reflow_lines_ok [OF less(2) line(1), where ca = ca and cc = cc and i = i' and old = rest]
    from rest(2) obtain ext where "fst (reflow_lines W ca cc i' rest st') = fst st' @ ext" by auto
    then show ?thesis using p rest(3) [OF True] placed_append unfolding r by metis
  next
    case False
    then have "off = None" using off by simp
    then have st: "st' = (fst st', None)" using line(3) by (simp add: prod_eq_iff)
    have "ca < i' + length rest" "old ! (ca - i) = rest ! (ca - i')" "length rest < length old"
      using less(4,5) False tk by (auto simp: nth_append)
    then show ?thesis unfolding r
      by (subst st, subst (2) st, intro less(1)) (use less(2,4-) False tk line(1) st in auto)
  qed
qed

section \<open>Resizing a screen\<close>

lemma drop_blank_tail_prefix: "prefix (drop_blank_tail ca old) old"
  by (induction ca old rule: drop_blank_tail.induct)
    (subst drop_blank_tail.simps, auto intro: prefix_order.trans [OF _ prefixeq_butlast])

lemma visible_skippable_row: "row_skippable r \<Longrightarrow> vis (cells r) = []"
  by (auto simp: row_skippable_def vis_def list_all_iff filter_empty_conv)

lemma visible_drop_blank_tail: "visible (drop_blank_tail ca old) = visible old"
proof (induction ca old rule: drop_blank_tail.induct)
  case (1 ca old)
  show ?case
  proof (cases "length old > ca + 1 \<and> row_skippable (last old) \<and> \<not> wrapped (last old)")
    case True
    then have "old = butlast old @ [last old]" by (cases old rule: rev_cases) auto
    then have "visible old = visible (butlast old)"
      using True visible_simps visible_skippable_row by (metis append.right_neutral)
    then show ?thesis using 1 True by (subst drop_blank_tail.simps) simp
  next
    case False
    then show ?thesis by (subst drop_blank_tail.simps) (simp only: if_False)
  qed
qed

lemma drop_blank_tail_keeps:
  assumes "ca < length old"
  shows "ca < length (drop_blank_tail ca old)" "drop_blank_tail ca old ! ca = old ! ca"
proof -
  show len: "ca < length (drop_blank_tail ca old)"
    using assms by (induction ca old rule: drop_blank_tail.induct) (subst drop_blank_tail.simps, auto)
  obtain zs where "old = drop_blank_tail ca old @ zs" using drop_blank_tail_prefix by (blast elim: prefixE)
  then show "drop_blank_tail ca old ! ca = old ! ca" using len by (metis nth_append)
qed

text \<open>The new screen is cut out of the rewrapped rows: the grid from \<open>start\<close> on, the scrollback before.\<close>

definition narrow :: "nat \<Rightarrow> Screen \<Rightarrow> bool" where
  "narrow W s \<longleftrightarrow> (\<forall>r \<in> set (sc_scrollback s @ sc_grid s). \<forall>c \<in> set (cells r). width c \<le> W)"

definition screen_visible :: "Screen \<Rightarrow> Cell list" where
  "screen_visible s = visible (sc_scrollback s @ sc_grid s)"

lemma reflow_width_cut:
  assumes "wf_screen s" "1 \<le> W" "r < sc_rows s" "reflow_width W (r, c) s = (s', r', c')"
  shows "\<exists>rows start kept ncur. lines_ok W (rows, ncur)
    \<and> (rows, ncur) = reflow_lines W (length (sc_scrollback s) + r) c 0
         (drop_blank_tail (length (sc_scrollback s) + r) (sc_scrollback s @ sc_grid s)) ([], None)
    \<and> prefix kept rows \<and> rows \<noteq> [] \<and> length kept \<le> start + sc_rows s
    \<and> s' = s\<lparr>sc_grid := drop start kept @ replicate (sc_rows s - length (drop start kept)) (row_blank W style_default),
             sc_scrollback := drop (length (take start kept) - sc_max_scrollback s) (take start kept), sc_cols := W\<rparr>
    \<and> (r', c') = (case ncur of None \<Rightarrow> (0, 0) | Some (a, b) \<Rightarrow> (a - start, b))
    \<and> (case ncur of None \<Rightarrow> start = 0 | Some (a, b) \<Rightarrow> start \<le> a \<and> a < length kept \<and> a < start + sc_rows s)
    \<and> (0 < r' \<longrightarrow> kept = rows)"
proof -
  let ?ca = "length (sc_scrollback s) + r"
  let ?old = "drop_blank_tail ?ca (sc_scrollback s @ sc_grid s)"
  obtain rows ncur where l: "reflow_lines W ?ca c 0 ?old ([], None) = (rows, ncur)" by fastforce
  have "lines_ok W ([], None)" by (simp add: lines_ok_def)
  note ok = reflow_lines_ok [OF assms(2) this, of ?ca c 0 ?old, unfolded l]
  have "?ca < length (sc_scrollback s @ sc_grid s)" using assms(3) wf_screenD(3) [OF assms(1)] by simp
  from drop_blank_tail_keeps(1) [OF this] have "?old \<noteq> []" by auto
  then have ne: "rows \<noteq> []" using ok(2) by auto
  define ca cc where "ca = fst (case ncur of None \<Rightarrow> (0, 0) | Some p \<Rightarrow> p)" and "cc = snd (case ncur of None \<Rightarrow> (0, 0) | Some p \<Rightarrow> p)"
  have ca: "ca < length rows" using ok(1) ne by (auto simp: lines_ok_def ca_def split: option.split)
  define start0 where "start0 = length rows - sc_rows s"
  define start where "start = min start0 ca"
  define kept where "kept = (if ca < start0 then take (start + sc_rows s) rows else rows)"
  have eqs: "s' = s\<lparr>sc_grid := drop start kept @ replicate (sc_rows s - length (drop start kept)) (row_blank W style_default),
             sc_scrollback := drop (length (take start kept) - sc_max_scrollback s) (take start kept), sc_cols := W\<rparr>"
    "r' = ca - start" "c' = cc"
    using assms(4) unfolding reflow_width_def fst_conv snd_conv l Let_def split_beta
    unfolding ca_def [symmetric] cc_def [symmetric] start0_def [symmetric] start_def [symmetric] kept_def [symmetric]
    by simp_all
  have pos: "1 \<le> sc_rows s" using wf_screenD(1) [OF assms(1)] .
  have "prefix kept rows" by (simp add: kept_def take_is_prefix)
  moreover have "length kept \<le> start + sc_rows s" by (auto simp: kept_def start_def start0_def)
  moreover have "start \<le> ca" "ca < length kept" "ca < start + sc_rows s"
    using ca pos by (auto simp: kept_def start_def start0_def min_def)
  moreover have "ncur = None \<Longrightarrow> start = 0" by (simp add: start_def ca_def)
  moreover have "0 < r' \<Longrightarrow> kept = rows" using eqs(2) by (auto simp: kept_def start_def)
  moreover have "(r', c') = (case ncur of None \<Rightarrow> (0, 0) | Some (a, b) \<Rightarrow> (a - start, b))"
    using eqs(2,3) by (auto simp: ca_def cc_def split: option.split)
  moreover have "case ncur of None \<Rightarrow> start = 0 | Some (a, b) \<Rightarrow> start \<le> a \<and> a < length kept \<and> a < start + sc_rows s"
    using calculation by (auto simp: ca_def split: option.split)
  ultimately show ?thesis
    using ok(1) l [symmetric] ne eqs(1)
    by (intro exI [of _ rows] exI [of _ start] exI [of _ kept] exI [of _ ncur] conjI) simp_all
qed

lemma reflow_width_wf:
  assumes "wf_screen s" "1 \<le> W" "r < sc_rows s" "reflow_width W (r, c) s = (s', r', c')"
  shows "wf_screen s'" "sc_cols s' = W" "sc_rows s' = sc_rows s" "sc_max_scrollback s' = sc_max_scrollback s"
    "r' < sc_rows s" "c' < W"
proof -
  obtain rows start kept ncur where ok: "lines_ok W (rows, ncur)" and pre: "prefix kept rows" and len: "length kept \<le> start + sc_rows s"
    and s': "s' = s\<lparr>sc_grid := drop start kept @ replicate (sc_rows s - length (drop start kept)) (row_blank W style_default),
             sc_scrollback := drop (length (take start kept) - sc_max_scrollback s) (take start kept), sc_cols := W\<rparr>"
    and cur: "(r', c') = (case ncur of None \<Rightarrow> (0, 0) | Some (a, b) \<Rightarrow> (a - start, b))"
    and bound: "case ncur of None \<Rightarrow> start = 0 | Some (a, b) \<Rightarrow> start \<le> a \<and> a < length kept \<and> a < start + sc_rows s"
    using reflow_width_cut [OF assms] by blast
  have w: "length (cells x) = W" if "x \<in> set kept" for x
    using ok pre that by (auto simp: lines_ok_def dest: set_mono_prefix)
  show "wf_screen s'"
    using assms(2) wf_screenD(1) [OF assms(1)] w len
    by (intro wf_screenI) (auto simp: s' dest!: in_set_dropD in_set_takeD)
  show "sc_cols s' = W" "sc_rows s' = sc_rows s" "sc_max_scrollback s' = sc_max_scrollback s" by (simp_all add: s')
  show "r' < sc_rows s" "c' < W"
    using cur bound wf_screenD(1) [OF assms(1)] assms(2) ok by (auto simp: lines_ok_def split: option.splits)
qed

lemma visible_drop_take: "visible (drop k (take start kept)) @ visible (drop start kept) = visible (drop (min k (length (take start kept))) kept)"
proof -
  have "drop k a @ b = drop (min k (length a)) (a @ b)" for a b :: "Row list" by (simp add: min_def)
  from this [of "take start kept" "drop start kept"] show ?thesis unfolding append_take_drop_id by (metis visible_simps(1))
qed

lemma reflow_width_visible:
  assumes "wf_screen s" "1 \<le> W" "r < sc_rows s" "reflow_width W (r, c) s = (s', r', c')" "narrow W s"
  shows "sublist (screen_visible s') (screen_visible s)"
    and "0 < r' \<Longrightarrow> length (sc_scrollback s') < sc_max_scrollback s' \<Longrightarrow> screen_visible s' = screen_visible s"
proof -
  let ?ca = "length (sc_scrollback s) + r"
  let ?old = "drop_blank_tail ?ca (sc_scrollback s @ sc_grid s)"
  obtain rows start kept ncur where l: "(rows, ncur) = reflow_lines W ?ca c 0 ?old ([], None)" and pre: "prefix kept rows"
    and s': "s' = s\<lparr>sc_grid := drop start kept @ replicate (sc_rows s - length (drop start kept)) (row_blank W style_default),
             sc_scrollback := drop (length (take start kept) - sc_max_scrollback s) (take start kept), sc_cols := W\<rparr>"
    and all: "0 < r' \<Longrightarrow> kept = rows"
    using reflow_width_cut [OF assms(1-4)] by blast
  have "set ?old \<subseteq> set (sc_scrollback s @ sc_grid s)" using drop_blank_tail_prefix set_mono_prefix by metis
  then have "\<forall>r \<in> set ?old. \<forall>c \<in> set (cells r). width c \<le> W" using assms(5) unfolding narrow_def by blast
  moreover have "lines_ok W ([], None)" by (simp add: lines_ok_def)
  ultimately have v: "visible rows = screen_visible s"
    using reflow_lines_ok(2) [OF assms(2), of "([], None)" ?ca c 0 ?old] l [symmetric] visible_drop_blank_tail
    unfolding screen_visible_def by auto
  let ?k = "length (take start kept) - sc_max_scrollback s"
  have v': "screen_visible s' = visible (drop ?k kept)"
    using visible_drop_take [of ?k start kept] by (simp add: s' screen_visible_def min_def)
  obtain zs where zs: "rows = kept @ zs" using pre by (auto elim: prefixE)
  have "screen_visible s = visible (take ?k kept) @ screen_visible s' @ visible zs"
    unfolding v [symmetric] v' zs by (simp flip: visible_simps(1) append_assoc)
  then show "sublist (screen_visible s') (screen_visible s)" by (auto simp: sublist_def)
  show "screen_visible s' = screen_visible s" if "0 < r'" "length (sc_scrollback s') < sc_max_scrollback s'"
  proof -
    have "?k = 0" using that(2) by (auto simp: s')
    then show ?thesis using v v' all [OF that(1)] by simp
  qed
qed

text \<open>A cursor on a head cell stays on it.\<close>

lemma reflow_width_tracks:
  assumes "wf_screen s" "1 \<le> W" "r < sc_rows s" "c < sc_cols s" "reflow_width W (r, c) s = (s', r', c')" "narrow W s"
    and "width (cells (sc_grid s ! r) ! c) \<noteq> 0"
  shows "cells (sc_grid s' ! r') ! c' = cells (sc_grid s ! r) ! c"
proof -
  let ?ca = "length (sc_scrollback s) + r" let ?t = "cells (sc_grid s ! r) ! c"
  let ?old = "drop_blank_tail ?ca (sc_scrollback s @ sc_grid s)"
  obtain rows start kept ncur where l: "(rows, ncur) = reflow_lines W ?ca c 0 ?old ([], None)" and pre: "prefix kept rows"
    and s': "s' = s\<lparr>sc_grid := drop start kept @ replicate (sc_rows s - length (drop start kept)) (row_blank W style_default),
             sc_scrollback := drop (length (take start kept) - sc_max_scrollback s) (take start kept), sc_cols := W\<rparr>"
    and cur: "(r', c') = (case ncur of None \<Rightarrow> (0, 0) | Some (a, b) \<Rightarrow> (a - start, b))"
    and bound: "case ncur of None \<Rightarrow> start = 0 | Some (a, b) \<Rightarrow> start \<le> a \<and> a < length kept \<and> a < start + sc_rows s"
    using reflow_width_cut [OF assms(1,2,3,5)] by blast
  have "set ?old \<subseteq> set (sc_scrollback s @ sc_grid s)" using drop_blank_tail_prefix set_mono_prefix by metis
  then have w: "\<forall>r \<in> set ?old. \<forall>c \<in> set (cells r). width c \<le> W" using assms(6) unfolding narrow_def by blast
  have "?ca < length (sc_scrollback s @ sc_grid s)" using assms(3) wf_screenD(3) [OF assms(1)] by simp
  from drop_blank_tail_keeps [OF this] have old: "?ca < 0 + length ?old" "?old ! (?ca - 0) = sc_grid s ! r"
    by (simp_all add: nth_append)
  have "sc_grid s ! r \<in> set (sc_grid s)" using assms(3) wf_screenD(3) [OF assms(1)] by simp
  then have c: "c < length (cells (sc_grid s ! r))" using assms(4) wf_screenD(5) [OF assms(1)] by simp
  have "lines_ok W ([], None)" by (simp add: lines_ok_def)
  from reflow_lines_tracks [OF assms(2) this _ old(1), of c ?t] obtain p where p: "ncur = Some p" "placed ?t rows p"
    using old(2) c assms(7) w l [symmetric] by auto
  obtain zs where zs: "rows = kept @ zs" using pre by (auto elim: prefixE)
  have "start \<le> fst p" "fst p < length kept" "r' = fst p - start" "c' = snd p"
    using p(1) bound cur by (auto split: prod.splits)
  then show ?thesis using p(2) by (auto simp: s' zs placed_def nth_append)
qed

lemma save_row_simps [simp]:
  "sc_grid (save_row r s) = sc_grid s" "sc_cols (save_row r s) = sc_cols s" "sc_rows (save_row r s) = sc_rows s"
  "sc_max_scrollback (save_row r s) = sc_max_scrollback s"
  by (simp_all add: save_row_def)

lemma save_row_scrollback:
  "length (sc_scrollback s) \<le> sc_max_scrollback s \<Longrightarrow> length (sc_scrollback (save_row r s)) \<le> sc_max_scrollback s"
  "set (sc_scrollback (save_row r s)) \<subseteq> insert r (set (sc_scrollback s))"
  by (cases "sc_scrollback s"; auto simp: save_row_def)+

lemma wf_rows_grid:
  "wf_rows s \<Longrightarrow> set g \<subseteq> set (sc_grid s) \<Longrightarrow> wf_rows (s\<lparr>sc_grid := g\<rparr>)"
  by (auto simp: wf_rows_def)

lemma wf_rows_save:
  assumes "wf_rows s" "length (cells r) = sc_cols s"
  shows "wf_rows (save_row r s)"
  using assms save_row_scrollback [where r = r and s = s] by (fastforce simp: wf_rows_def)

lemma shrink_loop_rule:
  assumes "P s row"
    and "\<And>s row. P s row \<Longrightarrow> target < length (sc_grid s) \<Longrightarrow> P (s\<lparr>sc_grid := butlast (sc_grid s)\<rparr>) row"
    and "\<And>s row. P s row \<Longrightarrow> target < length (sc_grid s) \<Longrightarrow> reflow \<Longrightarrow>
           P (save_row (hd (sc_grid s)) (s\<lparr>sc_grid := tl (sc_grid s)\<rparr>)) (row - 1)"
  shows "case shrink_loop target reflow s row of (s', row') \<Rightarrow> P s' row' \<and> length (sc_grid s') \<le> target"
  using assms
proof (induction target reflow s row rule: shrink_loop.induct)
  case (1 target reflow s row)
  consider (stop) "\<not> target < length (sc_grid s)"
    | (pop) "target < length (sc_grid s)" "row_skippable (last (sc_grid s)) \<and> \<not> row \<ge> length (sc_grid s) - 1"
    | (save) "target < length (sc_grid s)" "\<not> (row_skippable (last (sc_grid s)) \<and> \<not> row \<ge> length (sc_grid s) - 1)" reflow
    | (cut) "target < length (sc_grid s)" "\<not> (row_skippable (last (sc_grid s)) \<and> \<not> row \<ge> length (sc_grid s) - 1)" "\<not> reflow"
    by blast
  then show ?case
  proof cases
    case stop
    then show ?thesis using 1(4) by (simp add: shrink_loop.simps)
  next
    case pop
    show ?thesis using 1(1) [OF pop 1(5) [OF 1(4) pop(1)] 1(5,6)] pop by (simp add: shrink_loop.simps [of target reflow s row])
  next
    case save
    show ?thesis using 1(2) [OF save 1(6) [OF 1(4) save(1,3)] 1(5,6)] save
      by (subst shrink_loop.simps) (simp only: if_True if_False)
  next
    case cut
    show ?thesis using 1(3) [OF cut 1(5) [OF 1(4) cut(1)] 1(5,6)] cut
      by (subst shrink_loop.simps) (simp only: if_True if_False)
  qed
qed

lemma grow_loop_rule:
  assumes "P s row"
    and "\<And>s row. P s row \<Longrightarrow> length (sc_grid s) < target \<Longrightarrow> reflow \<Longrightarrow> sc_scrollback s \<noteq> [] \<Longrightarrow>
           P (s\<lparr>sc_grid := last (sc_scrollback s) # sc_grid s, sc_scrollback := butlast (sc_scrollback s)\<rparr>) (min (row + 1) 65535)"
    and "\<And>s row. P s row \<Longrightarrow> length (sc_grid s) < target \<Longrightarrow>
           P (s\<lparr>sc_grid := sc_grid s @ [row_blank cols style_default]\<rparr>) row"
  shows "case grow_loop target cols reflow s row of (s', row') \<Rightarrow> P s' row' \<and> target \<le> length (sc_grid s')"
  using assms
proof (induction target cols reflow s row rule: grow_loop.induct)
  case (1 target cols reflow s row)
  consider (stop) "\<not> length (sc_grid s) < target"
    | (pull) "length (sc_grid s) < target" "reflow \<and> sc_scrollback s \<noteq> []"
    | (blank) "length (sc_grid s) < target" "\<not> (reflow \<and> sc_scrollback s \<noteq> [])"
    by blast
  then show ?case
  proof cases
    case stop
    then show ?thesis using 1(3) by (simp add: grow_loop.simps)
  next
    case pull
    have eq: "grow_loop target cols reflow s row = grow_loop target cols reflow
        (s\<lparr>sc_grid := last (sc_scrollback s) # sc_grid s, sc_scrollback := butlast (sc_scrollback s)\<rparr>) (min (row + 1) 65535)"
      using pull by (subst grow_loop.simps) simp
    have "P (s\<lparr>sc_grid := last (sc_scrollback s) # sc_grid s, sc_scrollback := butlast (sc_scrollback s)\<rparr>) (min (row + 1) 65535)"
      using 1(4) [OF 1(3) pull(1)] pull(2) by blast
    then show ?thesis unfolding eq by (rule 1(1) [OF pull]) (rule 1(4,5); assumption)+
  next
    case blank
    have eq: "grow_loop target cols reflow s row =
        grow_loop target cols reflow (s\<lparr>sc_grid := sc_grid s @ [row_blank cols style_default]\<rparr>) row"
      using blank by (subst grow_loop.simps) auto
    have "P (s\<lparr>sc_grid := sc_grid s @ [row_blank cols style_default]\<rparr>) row" by (rule 1(5) [OF 1(3) blank(1)])
    then show ?thesis unfolding eq by (rule 1(2) [OF blank]) (rule 1(4,5); assumption)+
  qed
qed

lemma shrink_loop_ok:
  assumes "wf_rows s" "1 \<le> target" "shrink_loop target reflow s row = (s', row')"
  shows "wf_rows s'" "length (sc_grid s') = min target (length (sc_grid s))" "sc_cols s' = sc_cols s"
    "sc_max_scrollback s' = sc_max_scrollback s"
proof -
  let ?P = "\<lambda>x (_ :: nat). wf_rows x \<and> min target (length (sc_grid x)) = min target (length (sc_grid s))
     \<and> sc_cols x = sc_cols s \<and> sc_max_scrollback x = sc_max_scrollback s"
  have "case shrink_loop target reflow s row of (s', row') \<Rightarrow> ?P s' row' \<and> length (sc_grid s') \<le> target"
  proof (rule shrink_loop_rule [where P = ?P])
    fix x :: Screen and row :: nat
    assume x: "?P x row" "target < length (sc_grid x)"
    then have ne: "sc_grid x \<noteq> []" by auto
    show "?P (x\<lparr>sc_grid := butlast (sc_grid x)\<rparr>) row"
      using x by (auto intro!: wf_rows_grid dest: in_set_butlastD simp: min_def split: if_splits)
    have "wf_rows (x\<lparr>sc_grid := tl (sc_grid x)\<rparr>)"
      using x ne by (intro wf_rows_grid) (auto dest: list.set_sel(2) [rotated])
    moreover have "length (cells (hd (sc_grid x))) = sc_cols x" using x ne by (auto simp: wf_rows_def)
    ultimately show "?P (save_row (hd (sc_grid x)) (x\<lparr>sc_grid := tl (sc_grid x)\<rparr>)) (row - 1)"
      using x by (auto intro!: wf_rows_save simp: min_def split: if_splits)
  qed (use assms in auto)
  then show "wf_rows s'" "length (sc_grid s') = min target (length (sc_grid s))" "sc_cols s' = sc_cols s"
    "sc_max_scrollback s' = sc_max_scrollback s" using assms(3) by (auto simp: min_def split: if_splits)
qed

lemma grow_loop_ok:
  assumes "wf_rows s" "grow_loop target (sc_cols s) reflow s row = (s', row')" "length (sc_grid s) \<le> target"
  shows "wf_rows s'" "length (sc_grid s') = target" "sc_cols s' = sc_cols s" "sc_max_scrollback s' = sc_max_scrollback s"
proof -
  let ?P = "\<lambda>x (_ :: nat). wf_rows x \<and> length (sc_grid x) \<le> target
     \<and> sc_cols x = sc_cols s \<and> sc_max_scrollback x = sc_max_scrollback s"
  have "case grow_loop target (sc_cols s) reflow s row of (s', row') \<Rightarrow> ?P s' row' \<and> target \<le> length (sc_grid s')"
  proof (rule grow_loop_rule [where P = ?P])
    fix x :: Screen and row :: nat
    assume x: "?P x row" "length (sc_grid x) < target"
    show "?P (x\<lparr>sc_grid := sc_grid x @ [row_blank (sc_cols s) style_default]\<rparr>) row"
      using x by (auto simp: wf_rows_def)
    assume ne: "sc_scrollback x \<noteq> []"
    have "set (butlast (sc_scrollback x)) \<subseteq> set (sc_scrollback x)" "last (sc_scrollback x) \<in> set (sc_scrollback x)"
      using ne by (auto dest: in_set_butlastD)
    then show "?P (x\<lparr>sc_grid := last (sc_scrollback x) # sc_grid x, sc_scrollback := butlast (sc_scrollback x)\<rparr>) (min (row + 1) 65535)"
      using x by (auto simp: wf_rows_def)
  qed (use assms in auto)
  then show "wf_rows s'" "length (sc_grid s') = target" "sc_cols s' = sc_cols s" "sc_max_scrollback s' = sc_max_scrollback s"
    using assms(2) by auto
qed

lemma shrink_loop_visible:
  assumes "shrink_loop target True s row = (s', row')" "length (sc_scrollback s) \<le> sc_max_scrollback s"
  shows "suffix (screen_visible s') (screen_visible s)"
proof -
  let ?P = "\<lambda>x (_ :: nat). suffix (screen_visible x) (screen_visible s) \<and> length (sc_scrollback x) \<le> sc_max_scrollback x"
  have "?P s row" using assms(2) by simp
  then have "?P s' row'" using assms(1)
  proof (induction target True s row arbitrary: s' row' rule: shrink_loop.induct)
    case (1 target x row)
    consider (stop) "\<not> target < length (sc_grid x)"
      | (pop) "target < length (sc_grid x)" "row_skippable (last (sc_grid x)) \<and> \<not> row \<ge> length (sc_grid x) - 1"
      | (save) "target < length (sc_grid x)" "\<not> (row_skippable (last (sc_grid x)) \<and> \<not> row \<ge> length (sc_grid x) - 1)"
      by blast
    then show ?case
    proof cases
      case stop
      then show ?thesis using 1(4,5) by (simp add: shrink_loop.simps)
    next
      case pop
      then have "sc_grid x = butlast (sc_grid x) @ [last (sc_grid x)]" by (cases "sc_grid x" rule: rev_cases) auto
      then have "screen_visible (x\<lparr>sc_grid := butlast (sc_grid x)\<rparr>) = screen_visible x"
        using pop visible_skippable_row [of "last (sc_grid x)"] visible_simps(1) [of "butlast (sc_grid x)" "[last (sc_grid x)]"]
        by (simp add: screen_visible_def)
      moreover have "shrink_loop target True (x\<lparr>sc_grid := butlast (sc_grid x)\<rparr>) row = (s', row')"
        using 1(5) pop by (simp add: shrink_loop.simps [of target True x row])
      ultimately show ?thesis using 1(1) [OF pop, of s' row'] 1(4) by simp
    next
      case save
      let ?x = "x\<lparr>sc_grid := tl (sc_grid x)\<rparr>"
      have g: "sc_grid x = hd (sc_grid x) # tl (sc_grid x)" using save(1) by (cases "sc_grid x") auto
      have "suffix (screen_visible (save_row (hd (sc_grid x)) ?x)) (screen_visible x)"
      proof -
        have v: "visible (sc_grid x) = vis (cells (hd (sc_grid x))) @ visible (tl (sc_grid x))"
          using arg_cong [OF g, of visible] by simp
        show ?thesis by (cases "sc_scrollback x") (use 1(4) in \<open>auto simp: save_row_def screen_visible_def suffix_def v\<close>)
      qed
      moreover have "shrink_loop target True (save_row (hd (sc_grid x)) ?x) (row - 1) = (s', row')"
        using 1(5) save by (subst (asm) shrink_loop.simps) (simp only: if_True if_False)
      moreover have "length (sc_scrollback (save_row (hd (sc_grid x)) ?x)) \<le> sc_max_scrollback (save_row (hd (sc_grid x)) ?x)"
        using save_row_scrollback(1) [of ?x] 1(4) by simp
      ultimately show ?thesis using 1(2) [OF save, of s' row'] 1(4) suffix_order.trans by blast
    qed
  qed
  then show ?thesis by simp
qed

lemma grow_loop_visible:
  assumes "grow_loop target cols reflow s row = (s', row')"
  shows "screen_visible s' = screen_visible s"
proof -
  let ?P = "\<lambda>x (_ :: nat). screen_visible x = screen_visible s"
  have "case grow_loop target cols reflow s row of (s', row') \<Rightarrow> ?P s' row' \<and> target \<le> length (sc_grid s')"
  proof (rule grow_loop_rule [where P = ?P])
    fix x :: Screen and row :: nat
    assume x: "?P x row"
    then show "?P (x\<lparr>sc_grid := sc_grid x @ [row_blank cols style_default]\<rparr>) row"
      by (simp add: screen_visible_def)
    assume "sc_scrollback x \<noteq> []"
    then have "sc_scrollback x = butlast (sc_scrollback x) @ [last (sc_scrollback x)]" by simp
    from arg_cong [OF this, of visible]
    show "?P (x\<lparr>sc_grid := last (sc_scrollback x) # sc_grid x, sc_scrollback := butlast (sc_scrollback x)\<rparr>) (min (row + 1) 65535)"
      using x by (simp add: screen_visible_def)
  qed simp
  then show ?thesis using assms by simp
qed

lemma resize_rows_wf:
  assumes "wf_rows s" "1 \<le> rows" "shrink_loop rows reflow s row = (s2, row2)"
    "grow_loop rows (sc_cols s) reflow s2 row2 = (s3, row3)"
  shows "wf_screen (s3\<lparr>sc_rows := rows\<rparr>)" "sc_cols s3 = sc_cols s" "sc_max_scrollback s3 = sc_max_scrollback s"
proof -
  note shrunk = shrink_loop_ok [OF assms(1-3)]
  have "grow_loop rows (sc_cols s2) reflow s2 row2 = (s3, row3)" using assms(4) shrunk(3) by simp
  from grow_loop_ok [OF shrunk(1) this] shrunk assms(2)
  show "wf_screen (s3\<lparr>sc_rows := rows\<rparr>)" "sc_cols s3 = sc_cols s" "sc_max_scrollback s3 = sc_max_scrollback s"
    by (auto simp: wf_screen_def wf_rows_def)
qed

lemma screen_resize_cases:
  assumes "screen_resize rows0 cols0 cursor reflow s = (s', r', c')"
  obtains s1 row1 col1 s2 row2 s3 row3 where
    "(s1, row1, col1) =
       (if max cols0 1 \<noteq> sc_cols s
        then let (s', row', col') =
                   (if reflow then reflow_width (max cols0 1) cursor s
                    else (s\<lparr>sc_grid := map (resize_width (max cols0 1)) (sc_grid s),
                            sc_scrollback := map (resize_width (max cols0 1)) (sc_scrollback s), sc_cols := max cols0 1\<rparr>,
                          cursor))
             in (s', row', min col' (max cols0 1 - 1))
        else (s, cursor))"
    "shrink_loop (max rows0 1) reflow s1 row1 = (s2, row2)"
    "grow_loop (max rows0 1) (max cols0 1) reflow s2 row2 = (s3, row3)"
    "s' = s3\<lparr>sc_rows := max rows0 1\<rparr>" "r' = min row3 (max rows0 1 - 1)" "c' = col1"
  using assms unfolding screen_resize_def Let_def by (auto split: prod.splits)

lemma screen_resize_wf:
  assumes "wf_screen s" "fst cursor < sc_rows s" "snd cursor < sc_cols s"
    and "screen_resize rows0 cols0 cursor reflow s = (s', r', c')"
  shows "wf_screen s'" "sc_rows s' = max rows0 1" "sc_cols s' = max cols0 1"
    "sc_max_scrollback s' = sc_max_scrollback s" "r' < sc_rows s'" "c' < sc_cols s'"
proof -
  let ?W = "max cols0 1"
  obtain s1 row1 col1 s2 row2 s3 row3 where s1: "(s1, row1, col1) =
       (if ?W \<noteq> sc_cols s
        then let (s', row', col') =
                   (if reflow then reflow_width ?W cursor s
                    else (s\<lparr>sc_grid := map (resize_width ?W) (sc_grid s),
                            sc_scrollback := map (resize_width ?W) (sc_scrollback s), sc_cols := ?W\<rparr>,
                          cursor))
             in (s', row', min col' (?W - 1))
        else (s, cursor))"
    and l: "shrink_loop (max rows0 1) reflow s1 row1 = (s2, row2)" "grow_loop (max rows0 1) ?W reflow s2 row2 = (s3, row3)"
    and s': "s' = s3\<lparr>sc_rows := max rows0 1\<rparr>" "r' = min row3 (max rows0 1 - 1)" "c' = col1"
    by (rule screen_resize_cases [OF assms(4)]) blast
  have "wf_rows s1 \<and> sc_cols s1 = ?W \<and> sc_max_scrollback s1 = sc_max_scrollback s \<and> col1 < ?W"
  proof (cases "?W = sc_cols s")
    case True
    then show ?thesis using s1 assms(1,3) by (auto simp: wf_screen_def)
  next
    case False
    show ?thesis
    proof (cases reflow)
      case True
      obtain x row' col' where w: "reflow_width ?W (fst cursor, snd cursor) s = (x, row', col')" by (metis prod_cases3)
      have "s1 = x" "col1 = min col' (?W - 1)" using s1 w False True by auto
      then show ?thesis using reflow_width_wf [OF assms(1) _ assms(2) w] by (auto simp: wf_screen_def)
    next
      case False': False
      have "s1 = s\<lparr>sc_grid := map (resize_width ?W) (sc_grid s), sc_scrollback := map (resize_width ?W) (sc_scrollback s), sc_cols := ?W\<rparr>"
        "col1 = min (snd cursor) (?W - 1)" using s1 False False' by (auto simp: split_beta)
      then show ?thesis using assms(1) by (auto simp: wf_screen_def wf_rows_def resize_width_def)
    qed
  qed
  then have s1': "wf_rows s1" "sc_cols s1 = ?W" "sc_max_scrollback s1 = sc_max_scrollback s" "col1 < ?W" by blast+
  have "grow_loop (max rows0 1) (sc_cols s1) reflow s2 row2 = (s3, row3)" using l(2) s1'(2) by simp
  note rest = resize_rows_wf [OF s1'(1) _ l(1) this]
  show "wf_screen s'" "sc_rows s' = max rows0 1" "sc_cols s' = ?W" "sc_max_scrollback s' = sc_max_scrollback s"
    "r' < sc_rows s'" "c' < sc_cols s'"
    using rest s1' by (auto simp: s' min_def)
qed

text \<open>With reflow, no resize invents, repeats or reorders visible cells: what the screen and its
  scrollback show afterwards is a contiguous part of what they showed before.\<close>

lemma screen_resize_visible:
  assumes "wf_screen s" "fst cursor < sc_rows s" "narrow (max cols0 1) s"
    and "screen_resize rows0 cols0 cursor True s = (s', r', c')"
  shows "sublist (screen_visible s') (screen_visible s)"
proof -
  let ?W = "max cols0 1"
  obtain s1 row1 col1 s2 row2 s3 row3 where s1: "(s1, row1, col1) =
       (if ?W \<noteq> sc_cols s
        then let (s', row', col') =
                   (if True then reflow_width ?W cursor s
                    else (s\<lparr>sc_grid := map (resize_width ?W) (sc_grid s),
                            sc_scrollback := map (resize_width ?W) (sc_scrollback s), sc_cols := ?W\<rparr>,
                          cursor))
             in (s', row', min col' (?W - 1))
        else (s, cursor))"
    and l: "shrink_loop (max rows0 1) True s1 row1 = (s2, row2)" "grow_loop (max rows0 1) ?W True s2 row2 = (s3, row3)"
    and s': "s' = s3\<lparr>sc_rows := max rows0 1\<rparr>"
    by (rule screen_resize_cases [OF assms(4)]) blast
  have "sublist (screen_visible s1) (screen_visible s) \<and> length (sc_scrollback s1) \<le> sc_max_scrollback s1"
  proof (cases "?W = sc_cols s")
    case True
    then show ?thesis using s1 wf_screenD(6) [OF assms(1)] by simp
  next
    case False
    obtain x row' col' where w: "reflow_width ?W (fst cursor, snd cursor) s = (x, row', col')" by (metis prod_cases3)
    have "s1 = x" using s1 w False by auto
    then show ?thesis using reflow_width_visible(1) [OF assms(1) _ assms(2) w assms(3)]
        wf_screenD(6) [OF reflow_width_wf(1) [OF assms(1) _ assms(2) w]] by simp
  qed
  moreover have "screen_visible s' = screen_visible s2"
    using grow_loop_visible [OF l(2)] by (simp add: s' screen_visible_def)
  ultimately show ?thesis
    using shrink_loop_visible [OF l(1)] suffix_imp_sublist sublist_order.order.trans by metis
qed

end
