(* ===== verification/Kitty_Keys.thy ===== *)
theory Kitty_Keys
  imports Prelude
begin

text \<open>
  \<open>crates/posh-term/src/kitty_keys.rs\<close>: the stack of kitty keyboard flags each screen keeps. The
  flags are the five low bits of a byte, the stack holds at most \<open>MAX_STACK\<close> of them, oldest first.
\<close>

type_synonym KittyKeyStack = bytes

definition MAX_STACK :: nat where "MAX_STACK = 128"

definition kitty_flags :: "KittyKeyStack \<Rightarrow> u8" where
  "kitty_flags stack = (if stack = [] then 0 else last stack)"

definition kitty_push :: "u8 \<Rightarrow> KittyKeyStack \<Rightarrow> KittyKeyStack" where
  "kitty_push flags stack =
     (if length stack \<ge> MAX_STACK then tl stack else stack) @ [flags AND 0x1f]"

text \<open>The loop stops at the first pop of an empty stack.\<close>

fun kitty_pop :: "nat \<Rightarrow> KittyKeyStack \<Rightarrow> KittyKeyStack" where
  "kitty_pop 0 stack = stack"
| "kitty_pop (Suc n) stack = (if stack = [] then stack else kitty_pop n (butlast stack))"

definition kitty_set :: "u8 \<Rightarrow> nat \<Rightarrow> KittyKeyStack \<Rightarrow> KittyKeyStack" where
  "kitty_set flags mode stack =
     (let cur = kitty_flags stack;
          new = (if mode = 2 then cur OR (flags AND 0x1f)
                 else if mode = 3 then cur AND NOT (flags AND 0x1f)
                 else flags AND 0x1f)
      in if stack = [] then [new] else butlast stack @ [new])"

section \<open>The stack stays bounded and holds flags only\<close>

definition kitty_ok :: "KittyKeyStack \<Rightarrow> bool" where
  "kitty_ok stack \<longleftrightarrow> length stack \<le> MAX_STACK \<and> (\<forall>f \<in> set stack. f AND 0x1f = f)"

lemma kitty_ok_Nil [simp]: "kitty_ok []"
  by (simp add: kitty_ok_def)

lemma kitty_push_ok: "kitty_ok stack \<Longrightarrow> kitty_ok (kitty_push flags stack)"
  unfolding kitty_ok_def kitty_push_def MAX_STACK_def
  by (auto simp: and.assoc dest: list.set_sel(2) [rotated])

lemma kitty_pop_eq: "kitty_pop n stack = take (length stack - n) stack"
proof (induction n stack rule: kitty_pop.induct)
  case (2 n stack)
  then show ?case by (cases stack rule: rev_cases) auto
qed simp

lemma kitty_pop_ok: "kitty_ok stack \<Longrightarrow> kitty_ok (kitty_pop n stack)"
  by (auto simp: kitty_ok_def kitty_pop_eq dest: in_set_takeD)

lemma kitty_flags_ok: "kitty_ok stack \<Longrightarrow> kitty_flags stack AND 0x1f = kitty_flags stack"
  by (cases stack rule: rev_cases) (auto simp: kitty_ok_def kitty_flags_def)

lemma kitty_set_ok:
  assumes "kitty_ok stack"
  shows "kitty_ok (kitty_set flags mode stack)"
proof -
  have "(f OR (flags AND 0x1f)) AND 0x1f = f OR (flags AND 0x1f)" if "f AND 0x1f = f" for f :: u8
    using that by (simp add: word_ao_dist and.assoc)
  moreover have "(f AND NOT (flags AND 0x1f)) AND 0x1f = f AND NOT (flags AND 0x1f)" if "f AND 0x1f = f" for f :: u8
    using that by (metis and.assoc and.commute)
  ultimately show ?thesis
    using assms kitty_flags_ok [OF assms] by (cases stack rule: rev_cases) (auto simp: kitty_ok_def kitty_set_def Let_def MAX_STACK_def)
qed

text \<open>What was pushed is popped: the flags and the stack are the ones before, below the cap.\<close>

lemma kitty_pop_push: "length stack < MAX_STACK \<Longrightarrow> kitty_pop 1 (kitty_push flags stack) = stack"
  by (simp add: kitty_pop_eq kitty_push_def)

lemma kitty_flags_push: "kitty_flags (kitty_push flags stack) = flags AND 0x1f"
  by (simp add: kitty_flags_def kitty_push_def)

end
