(* ===== verification/Terminal.thy ===== *)
theory Terminal
  imports Parser Modes Screen_Reflow Wcwidth Kitty_Keys
begin

text \<open>
  \<open>crates/posh-term/src/terminal.rs\<close>: the state of the terminal and the operations on it that the
  actions of the parser select: printing, control characters, scrolling, tabs, the cursor save and
  restore, the resets, the alternate screen and resizing. Row and column numbers are natural numbers
  below the dimensions, arguments of control sequences are at most 65535 and are added with
  saturation as in the code. Counters wrap at their width. Strings are their UTF-8 bytes. The state
  of kitty graphics is a component of its own type, of which the terminal uses two operations.
\<close>

section \<open>State\<close>

datatype Charset = Ascii | DecSpecial | Uk

record CursorState =
  c_row :: nat
  c_col :: nat
  c_pending_wrap :: bool
  c_style :: Style
  c_hyperlink :: nat
  c_g0 :: Charset
  c_g1 :: Charset
  c_shift :: nat

definition cursor_default :: CursorState where
  "cursor_default = \<lparr>c_row = 0, c_col = 0, c_pending_wrap = False, c_style = style_default, c_hyperlink = 0,
     c_g0 = Ascii, c_g1 = Ascii, c_shift = 0\<rparr>"

record ColorStackEntry =
  e_palette :: "rgb list"
  e_fg :: "rgb option"
  e_bg :: "rgb option"
  e_cursor :: "rgb option"

record SavedCursor =
  s_cursor :: CursorState
  s_origin :: bool

definition saved_default :: SavedCursor where
  "saved_default = \<lparr>s_cursor = cursor_default, s_origin = False\<rparr>"

record Hyperlink =
  h_id :: bytes
  h_uri :: bytes

datatype ScreenSwitch = SwitchAlt | SwitchReset

record 'g Terminal =
  t_parser :: Parser
  t_primary :: Screen
  t_alt :: Screen
  t_alt_active :: bool
  t_cursor :: CursorState
  t_saved_primary :: SavedCursor
  t_saved_alt :: SavedCursor
  t_modes :: Modes
  t_scroll_top :: nat
  t_scroll_bot :: nat
  t_tabs :: "bool list"
  t_title :: bytes
  t_icon_title :: bytes
  t_generation :: u64
  t_responses :: bytes
  t_bell_count :: u64
  t_pwd :: bytes
  t_palette :: "rgb list"
  t_fg_color :: "rgb option"
  t_bg_color :: "rgb option"
  t_cursor_color :: "rgb option"
  t_clipboard :: bytes
  t_clipboard_seq :: u64
  t_clipboard_kinds :: bytes
  t_primary_selection :: bytes
  t_select_selection :: bytes
  t_color_stack :: "ColorStackEntry list"
  t_last_text_size :: "bytes option"
  t_hyperlinks :: "(nat \<times> Hyperlink) list"
  t_next_hyperlink :: nat
  t_cursor_style_raw :: nat
  t_kitty_primary :: KittyKeyStack
  t_kitty_alt :: KittyKeyStack
  t_graphics :: 'g
  t_last_notification :: "bytes option"
  t_pointer_shape :: bytes
  t_last_printed :: "nat option"
  t_screen_switch :: "ScreenSwitch option"

definition default_tabs :: "nat \<Rightarrow> bool list" where
  "default_tabs cols = map (\<lambda>i. i mod 8 = 0) [0..<cols]"

text \<open>\<open>with_scrollback\<close>, given the initial graphics state.\<close>

definition with_scrollback :: "'g \<Rightarrow> nat \<Rightarrow> nat \<Rightarrow> nat \<Rightarrow> 'g Terminal" where
  "with_scrollback graphics rows0 cols0 scrollback =
     (let rows = max rows0 1; cols = max cols0 1 in
      \<lparr>t_parser = parser_new, t_primary = screen_new rows cols scrollback, t_alt = screen_new rows cols 0,
       t_alt_active = False, t_cursor = cursor_default, t_saved_primary = saved_default, t_saved_alt = saved_default,
       t_modes = modes_default, t_scroll_top = 0, t_scroll_bot = rows - 1, t_tabs = default_tabs cols,
       t_title = [], t_icon_title = [], t_generation = 0, t_responses = [], t_bell_count = 0, t_pwd = [],
       t_palette = default_palette, t_fg_color = None, t_bg_color = None, t_cursor_color = None,
       t_clipboard = [], t_clipboard_seq = 0, t_clipboard_kinds = [99], t_primary_selection = [],
       t_select_selection = [], t_color_stack = [], t_last_text_size = None, t_hyperlinks = [],
       t_next_hyperlink = 0, t_cursor_style_raw = 0, t_kitty_primary = [], t_kitty_alt = [],
       t_graphics = graphics, t_last_notification = None, t_pointer_shape = [], t_last_printed = None,
       t_screen_switch = None\<rparr>)"

definition terminal_new :: "'g \<Rightarrow> nat \<Rightarrow> nat \<Rightarrow> 'g Terminal" where
  "terminal_new graphics rows cols = with_scrollback graphics rows cols 10000"

section \<open>Plumbing\<close>

definition scr :: "'g Terminal \<Rightarrow> Screen" where
  "scr t = (if t_alt_active t then t_alt t else t_primary t)"

text \<open>\<open>scr_mut\<close>: an update of the active screen.\<close>

definition on_screen :: "(Screen \<Rightarrow> Screen) \<Rightarrow> 'g Terminal \<Rightarrow> 'g Terminal" where
  "on_screen f t = (if t_alt_active t then t\<lparr>t_alt := f (t_alt t)\<rparr> else t\<lparr>t_primary := f (t_primary t)\<rparr>)"

definition on_cursor :: "(CursorState \<Rightarrow> CursorState) \<Rightarrow> 'g Terminal \<Rightarrow> 'g Terminal" where
  "on_cursor f t = t\<lparr>t_cursor := f (t_cursor t)\<rparr>"

definition on_modes :: "(Modes \<Rightarrow> Modes) \<Rightarrow> 'g Terminal \<Rightarrow> 'g Terminal" where
  "on_modes f t = t\<lparr>t_modes := f (t_modes t)\<rparr>"

definition t_rows :: "'g Terminal \<Rightarrow> nat" where
  "t_rows t = sc_rows (t_primary t)"

definition t_cols :: "'g Terminal \<Rightarrow> nat" where
  "t_cols t = sc_cols (t_primary t)"

definition blank_style :: "'g Terminal \<Rightarrow> Style" where
  "blank_style t = style_default\<lparr>st_bg := st_bg (c_style (t_cursor t))\<rparr>"

definition touch :: "'g Terminal \<Rightarrow> 'g Terminal" where
  "touch t = t\<lparr>t_generation := t_generation t + 1\<rparr>"

definition respond :: "bytes \<Rightarrow> 'g Terminal \<Rightarrow> 'g Terminal" where
  "respond s t = t\<lparr>t_responses := t_responses t @ s\<rparr>"

definition region :: "'g Terminal \<Rightarrow> nat \<times> nat" where
  "region t = (min (t_scroll_top t) (t_rows t - 1), min (t_scroll_bot t) (t_rows t - 1))"

text \<open>\<open>u16::saturating_add\<close>, and ASCII text as bytes.\<close>

definition sat_add16 :: "nat \<Rightarrow> nat \<Rightarrow> nat" where
  "sat_add16 a b = min (a + b) 65535"

definition asc :: "string \<Rightarrow> bytes" where
  "asc s = map of_char s"

text \<open>The pieces of cursor state the operations assign.\<close>

definition no_wrap :: "'g Terminal \<Rightarrow> 'g Terminal" where
  "no_wrap = on_cursor (\<lambda>c. c\<lparr>c_pending_wrap := False\<rparr>)"

definition set_col :: "nat \<Rightarrow> 'g Terminal \<Rightarrow> 'g Terminal" where
  "set_col n = on_cursor (\<lambda>c. c\<lparr>c_col := n\<rparr>)"

definition set_row :: "nat \<Rightarrow> 'g Terminal \<Rightarrow> 'g Terminal" where
  "set_row n = on_cursor (\<lambda>c. c\<lparr>c_row := n\<rparr>)"

text \<open>The margins at the edges of the screen.\<close>

definition full_margins :: "'g Terminal \<Rightarrow> 'g Terminal" where
  "full_margins t = t\<lparr>t_scroll_top := 0, t_scroll_bot := t_rows t - 1\<rparr>"

section \<open>Scrolling, lines and tabs\<close>

definition scroll_up_n :: "nat \<Rightarrow> 'g Terminal \<Rightarrow> 'g Terminal" where
  "scroll_up_n n t =
     (let (upper, lower) = region t;
          save = (\<not> t_alt_active t \<and> upper = 0 \<and> lower = t_rows t - 1)
      in touch (on_screen (scroll_up upper lower n save (blank_style t)) t))"

definition scroll_down_n :: "nat \<Rightarrow> 'g Terminal \<Rightarrow> 'g Terminal" where
  "scroll_down_n n t =
     (let (upper, lower) = region t in touch (on_screen (scroll_down upper lower n (blank_style t)) t))"

definition index :: "'g Terminal \<Rightarrow> 'g Terminal" where
  "index t0 =
     (let t = no_wrap t0; row = c_row (t_cursor t)
      in touch (if row = snd (region t) then scroll_up_n 1 t
                else if row + 1 < t_rows t then set_row (row + 1) t else t))"

definition reverse_index :: "'g Terminal \<Rightarrow> 'g Terminal" where
  "reverse_index t0 =
     (let t = no_wrap t0; row = c_row (t_cursor t)
      in touch (if row = fst (region t) then scroll_down_n 1 t
                else if row > 0 then set_row (row - 1) t else t))"

definition linefeed :: "'g Terminal \<Rightarrow> 'g Terminal" where
  "linefeed t0 = (let t = index t0 in if m_lnm (t_modes t) then set_col 0 t else t)"

definition tab_at :: "bool list \<Rightarrow> nat \<Rightarrow> bool" where
  "tab_at tabs col \<longleftrightarrow> col < length tabs \<and> tabs ! col"

function tab_forward :: "bool list \<Rightarrow> nat \<Rightarrow> nat \<Rightarrow> nat" where
  "tab_forward tabs cols col =
     (if col + 1 < cols
      then if tab_at tabs (col + 1) then col + 1 else tab_forward tabs cols (col + 1)
      else col)"
  by pat_completeness auto
termination by (relation "measure (\<lambda>(_, cols, col). cols - col)") auto

declare tab_forward.simps [simp del]

fun tab_backward :: "bool list \<Rightarrow> nat \<Rightarrow> nat" where
  "tab_backward tabs 0 = 0"
| "tab_backward tabs (Suc col) = (if tab_at tabs col then col else tab_backward tabs col)"

definition horizontal_tab :: "'g Terminal \<Rightarrow> 'g Terminal" where
  "horizontal_tab t = touch (no_wrap (set_col (tab_forward (t_tabs t) (t_cols t) (c_col (t_cursor t))) t))"

definition back_tab :: "'g Terminal \<Rightarrow> 'g Terminal" where
  "back_tab t = touch (no_wrap (set_col (tab_backward (t_tabs t) (c_col (t_cursor t))) t))"

definition set_tab :: "bool \<Rightarrow> 'g Terminal \<Rightarrow> 'g Terminal" where
  "set_tab b t =
     (let col = c_col (t_cursor t)
      in if col < length (t_tabs t) then t\<lparr>t_tabs := (t_tabs t)[col := b]\<rparr> else t)"

section \<open>Control characters\<close>

definition execute :: "u8 \<Rightarrow> 'g Terminal \<Rightarrow> 'g Terminal" where
  "execute b t =
     (if b = 0x07 then touch (t\<lparr>t_bell_count := t_bell_count t + 1\<rparr>)
      else if b = 0x08
      then touch (no_wrap (if c_col (t_cursor t) > 0 then set_col (c_col (t_cursor t) - 1) t else t))
      else if b = 0x09 then horizontal_tab t
      else if 0x0A \<le> b \<and> b \<le> 0x0C then linefeed t
      else if b = 0x0D then touch (no_wrap (set_col 0 t))
      else if b = 0x0E then on_cursor (\<lambda>c. c\<lparr>c_shift := 1\<rparr>) t
      else if b = 0x0F then on_cursor (\<lambda>c. c\<lparr>c_shift := 0\<rparr>) t
      else if b = 0x84 then index t
      else if b = 0x85 then index (set_col 0 t)
      else if b = 0x88 then set_tab True t
      else if b = 0x8D then reverse_index t
      else t)"

section \<open>Printing\<close>

definition dec_special :: "nat \<Rightarrow> nat" where
  "dec_special c =
     (case map_of
        [(96, 0x25C6), (97, 0x2592), (98, 0x2409), (99, 0x240C), (100, 0x240D), (101, 0x240A),
         (102, 0xB0), (103, 0xB1), (104, 0x2424), (105, 0x240B), (106, 0x2518), (107, 0x2510),
         (108, 0x250C), (109, 0x2514), (110, 0x253C), (111, 0x23BA), (112, 0x23BB), (113, 0x2500),
         (114, 0x23BC), (115, 0x23BD), (116, 0x251C), (117, 0x2524), (118, 0x2534), (119, 0x252C),
         (120, 0x2502), (121, 0x2264), (122, 0x2265), (123, 0x3C0), (124, 0x2260), (125, 0xA3),
         (126, 0xB7), (95, 0x20)] c
      of Some d \<Rightarrow> d | None \<Rightarrow> c)"

definition map_charset :: "'g Terminal \<Rightarrow> nat \<Rightarrow> nat" where
  "map_charset t c =
     (let cur = t_cursor t
      in case (if c_shift cur = 1 then c_g1 cur else c_g0 cur) of
           Ascii \<Rightarrow> c
         | Uk \<Rightarrow> if c = 35 then 0xA3 else c
         | DecSpecial \<Rightarrow> dec_special c)"

text \<open>\<open>scr().cell(row, col)\<close> has width \<open>w\<close>; no cell has none.\<close>

definition width_at :: "nat \<Rightarrow> nat \<Rightarrow> nat \<Rightarrow> Screen \<Rightarrow> bool" where
  "width_at w row col s = (case screen_cell s row col of None \<Rightarrow> False | Some c \<Rightarrow> width c = w)"

definition put_blank :: "Style \<Rightarrow> nat \<Rightarrow> nat \<Rightarrow> Screen \<Rightarrow> Screen" where
  "put_blank style row col = cell_update row col (\<lambda>_. cell_blank style)"

definition clean_wide_at :: "Style \<Rightarrow> nat \<Rightarrow> nat \<Rightarrow> nat \<Rightarrow> Screen \<Rightarrow> Screen" where
  "clean_wide_at style cols row c s =
     (if c < cols \<and> width_at 2 row c s \<and> c + 1 < cols then put_blank style row (c + 1) s else s)"

definition clean_wide :: "nat \<Rightarrow> nat \<Rightarrow> nat \<Rightarrow> 'g Terminal \<Rightarrow> 'g Terminal" where
  "clean_wide row col w t =
     on_screen (\<lambda>s.
       let s1 = (if width_at 0 row col s \<and> col > 0 then put_blank (blank_style t) row (col - 1) s else s)
       in fold (\<lambda>i. clean_wide_at (blank_style t) (t_cols t) row (col + i)) [0..<w] s1) t"

definition orphaned :: "nat \<Rightarrow> nat \<Rightarrow> nat \<Rightarrow> Screen \<Rightarrow> bool" where
  "orphaned cols row c s \<longleftrightarrow>
     width_at 2 row c s \<and> (c + 1 \<ge> cols \<or> \<not> width_at 0 row (c + 1) s)
     \<or> width_at 0 row c s \<and> (c = 0 \<or> \<not> width_at 2 row (c - 1) s)"

definition repair_wide_halves :: "nat \<Rightarrow> 'g Terminal \<Rightarrow> 'g Terminal" where
  "repair_wide_halves row t =
     on_screen (fold (\<lambda>c s. if orphaned (t_cols t) row c s then put_blank (blank_style t) row c s else s) [0..<t_cols t]) t"

definition combine :: "nat \<Rightarrow> 'g Terminal \<Rightarrow> 'g Terminal" where
  "combine c t =
     (let cur = t_cursor t; row = c_row cur
      in if \<not> c_pending_wrap cur \<and> c_col cur = 0 then t
         else let col0 = (if c_pending_wrap cur then c_col cur else c_col cur - 1);
                  col = (if width_at 0 row col0 (scr t) \<and> col0 > 0 then col0 - 1 else col0)
              in touch (on_screen (cell_update row col (\<lambda>x. x\<lparr>extra := extra x @ [c]\<rparr>)) t))"

definition mark_wrapped :: "bool \<Rightarrow> nat \<Rightarrow> Screen \<Rightarrow> Screen" where
  "mark_wrapped b row = row_update row (\<lambda>r. r\<lparr>wrapped := b\<rparr>)"

text \<open>The wrap that the previous character left pending.\<close>

definition print_wrap :: "'g Terminal \<Rightarrow> 'g Terminal" where
  "print_wrap t0 =
     (if c_pending_wrap (t_cursor t0)
      then let t = no_wrap t0
           in if m_autowrap (t_modes t)
              then index (set_col 0 (on_screen (mark_wrapped True (c_row (t_cursor t))) t)) else t
      else t0)"

text \<open>A wide character at the last column; \<open>None\<close> is the early return.\<close>

definition print_edge :: "nat \<Rightarrow> 'g Terminal \<Rightarrow> 'g Terminal option" where
  "print_edge w t =
     (let row = c_row (t_cursor t); col = c_col (t_cursor t); cols = t_cols t
      in if w = 2 \<and> col + 1 \<ge> cols
         then if m_autowrap (t_modes t)
              then Some (index (set_col 0 (on_screen (mark_wrapped True row \<circ> put_blank (blank_style t) row col) t)))
              else if cols \<ge> 2 then Some (set_col (cols - 2) t)
              else None
         else Some t)"

definition insert_blank :: "nat \<Rightarrow> Style \<Rightarrow> Row \<Rightarrow> Row" where
  "insert_blank col style r = r\<lparr>cells := insert_at col (cell_blank style) (butlast (cells r))\<rparr>"

definition print_insert :: "nat \<Rightarrow> 'g Terminal \<Rightarrow> 'g Terminal" where
  "print_insert w t =
     (let row = c_row (t_cursor t); col = c_col (t_cursor t)
      in if m_insert (t_modes t)
         then repair_wide_halves row (on_screen (row_update row (insert_blank col (blank_style t) ^^ w)) t)
         else t)"

definition put_char :: "nat \<Rightarrow> nat \<Rightarrow> nat \<Rightarrow> nat \<Rightarrow> Style \<Rightarrow> nat \<Rightarrow> Screen \<Rightarrow> Screen" where
  "put_char c w row col style link s =
     (let s1 = cell_update row col
                 (\<lambda>_. \<lparr>ch = c, cell_style = style, width = w, extra = [], hyperlink = link\<rparr>) s
      in if w = 2
         then cell_update row (col + 1)
                (\<lambda>_. \<lparr>ch = 0, cell_style = style, width = 0, extra = [], hyperlink = link\<rparr>) s1
         else s1)"

definition print_advance :: "nat \<Rightarrow> 'g Terminal \<Rightarrow> 'g Terminal" where
  "print_advance w t =
     (let new_col = c_col (t_cursor t) + w; cols = t_cols t
      in if new_col \<ge> cols
         then on_cursor (\<lambda>c. c\<lparr>c_col := cols - 1,
                              c_pending_wrap := (if m_autowrap (t_modes t) then True else c_pending_wrap c)\<rparr>) t
         else set_col new_col t)"

definition print_place :: "nat \<Rightarrow> nat \<Rightarrow> 'g Terminal \<Rightarrow> 'g Terminal" where
  "print_place c w t0 =
     (let row = c_row (t_cursor t0); col = c_col (t_cursor t0);
          t = clean_wide row col w (print_insert w t0)
      in print_advance w
           (on_screen (put_char c w row col (c_style (t_cursor t)) (c_hyperlink (t_cursor t))) t))"

definition print :: "nat \<Rightarrow> 'g Terminal \<Rightarrow> 'g Terminal" where
  "print cp t0 =
     (if 0x80 \<le> cp \<and> cp < 0xA0 then execute (as_u8 cp) t0
      else let c = map_charset t0 cp; w = wcwidth c
           in if w = 0 then combine c t0
              else let t = print_wrap ((touch t0)\<lparr>t_last_printed := Some c\<rparr>)
                   in case print_edge w t of None \<Rightarrow> t | Some t' \<Rightarrow> print_place c w t')"

section \<open>Saving and restoring, resets\<close>

definition save_cursor :: "'g Terminal \<Rightarrow> 'g Terminal" where
  "save_cursor t =
     (let saved = \<lparr>s_cursor = t_cursor t, s_origin = m_origin (t_modes t)\<rparr>
      in if t_alt_active t then t\<lparr>t_saved_alt := saved\<rparr> else t\<lparr>t_saved_primary := saved\<rparr>)"

definition clamp_to_region_if_origin :: "'g Terminal \<Rightarrow> 'g Terminal" where
  "clamp_to_region_if_origin t =
     (if m_origin (t_modes t)
      then let (upper, lower) = region t in set_row (max upper (min (c_row (t_cursor t)) lower)) t
      else t)"

definition restore_cursor :: "'g Terminal \<Rightarrow> 'g Terminal" where
  "restore_cursor t0 =
     (let saved = (if t_alt_active t0 then t_saved_alt t0 else t_saved_primary t0);
          t1 = on_modes (\<lambda>m. m\<lparr>m_origin := s_origin saved\<rparr>) (t0\<lparr>t_cursor := s_cursor saved\<rparr>);
          t2 = set_row (min (c_row (t_cursor t1)) (t_rows t1 - 1)) t1;
          t3 = set_col (min (c_col (t_cursor t2)) (t_cols t2 - 1)) t2
      in touch (clamp_to_region_if_origin t3))"

definition decaln_cell :: Cell where
  "decaln_cell = \<lparr>ch = 69, cell_style = style_default, width = 1, extra = [], hyperlink = 0\<rparr>"

definition decaln :: "'g Terminal \<Rightarrow> 'g Terminal" where
  "decaln t0 =
     (let t1 = full_margins t0;
          t2 = no_wrap (set_col 0 (set_row 0 (on_modes (\<lambda>m. m\<lparr>m_origin := False\<rparr>) t1)));
          fill = fold (\<lambda>r. fold (\<lambda>c. cell_update r c (\<lambda>_. decaln_cell)) [0..<t_cols t2]) [0..<t_rows t2]
      in touch (on_screen fill t2))"

definition full_reset :: "'g \<Rightarrow> 'g Terminal \<Rightarrow> 'g Terminal" where
  "full_reset fresh_graphics t =
     touch (t\<lparr>t_screen_switch := Some SwitchReset, t_alt_active := False,
              t_primary := clear_grid style_default (t_primary t), t_alt := clear_grid style_default (t_alt t),
              t_cursor := cursor_default, t_saved_primary := saved_default, t_saved_alt := saved_default,
              t_modes := modes_default, t_scroll_top := 0, t_scroll_bot := t_rows t - 1,
              t_tabs := default_tabs (t_cols t), t_palette := default_palette, t_fg_color := None,
              t_bg_color := None, t_cursor_color := None, t_cursor_style_raw := 0, t_kitty_primary := [],
              t_kitty_alt := [], t_graphics := fresh_graphics, t_last_printed := None, t_color_stack := [],
              t_last_text_size := None\<rparr>)"

definition on_kitty_stack :: "(KittyKeyStack \<Rightarrow> KittyKeyStack) \<Rightarrow> 'g Terminal \<Rightarrow> 'g Terminal" where
  "on_kitty_stack f t =
     (if t_alt_active t then t\<lparr>t_kitty_alt := f (t_kitty_alt t)\<rparr> else t\<lparr>t_kitty_primary := f (t_kitty_primary t)\<rparr>)"

definition soft_reset :: "'g Terminal \<Rightarrow> 'g Terminal" where
  "soft_reset t0 =
     (let t1 = on_modes (\<lambda>m. m\<lparr>m_cursor_visible := True, m_origin := False, m_insert := False, m_autowrap := False,
                              m_cursor_keys := False, m_keypad_app := False\<rparr>) t0;
          t2 = full_margins t1;
          t3 = on_cursor (\<lambda>c. c\<lparr>c_style := style_default, c_hyperlink := 0, c_pending_wrap := False, c_g0 := Ascii,
                               c_g1 := Ascii, c_shift := 0\<rparr>) t2;
          t4 = t3\<lparr>t_cursor_style_raw := 0\<rparr>;
          t5 = (if t_alt_active t4 then t4\<lparr>t_saved_alt := saved_default\<rparr> else t4\<lparr>t_saved_primary := saved_default\<rparr>)
      in touch (on_kitty_stack (\<lambda>_. []) t5))"

section \<open>Resizing and the alternate screen\<close>

definition resize_tabs :: "nat \<Rightarrow> bool list \<Rightarrow> bool list" where
  "resize_tabs cols old = take cols old @ drop (length old) (default_tabs cols)"

definition terminal_resize :: "nat \<Rightarrow> nat \<Rightarrow> 'g Terminal \<Rightarrow> 'g Terminal" where
  "terminal_resize rows0 cols0 t =
     (let rows = max rows0 1; cols = max cols0 1
      in if rows = t_rows t \<and> cols = t_cols t then t
         else let here = (c_row (t_cursor t), c_col (t_cursor t));
                  (primary, primary_cur) =
                    screen_resize rows cols (if t_alt_active t then (0, 0) else here) True (t_primary t);
                  (alt, alt_cur) =
                    screen_resize rows cols (if t_alt_active t then here else (0, 0)) False (t_alt t);
                  cur = (if t_alt_active t then alt_cur else primary_cur);
                  t1 = t\<lparr>t_primary := primary, t_alt := alt\<rparr>;
                  t2 = no_wrap (set_col (min (snd cur) (cols - 1)) (set_row (min (fst cur) (rows - 1)) t1))
              in touch (t2\<lparr>t_scroll_top := 0, t_scroll_bot := rows - 1, t_tabs := resize_tabs cols (t_tabs t)\<rparr>))"

definition set_deccolm :: "bool \<Rightarrow> 'g Terminal \<Rightarrow> 'g Terminal" where
  "set_deccolm b t0 =
     (if \<not> m_allow_deccolm (t_modes t0) then t0
      else let t1 = on_modes (\<lambda>m. m\<lparr>m_deccolm := b\<rparr>) t0;
               t2 = terminal_resize (t_rows t1) (if b then 132 else 80) t1;
               t3 = full_margins t2;
               t4 = (if m_no_clear_on_deccolm (t_modes t3) then t3 else on_screen (clear_grid (blank_style t3)) t3)
           in touch (no_wrap (set_col 0 (set_row 0 t4))))"

definition clear_alt :: "'g Terminal \<Rightarrow> 'g Terminal" where
  "clear_alt t = t\<lparr>t_alt := clear_grid (blank_style t) (t_alt t)\<rparr>"

definition set_alt_screen :: "nat \<Rightarrow> bool \<Rightarrow> 'g Terminal \<Rightarrow> 'g Terminal" where
  "set_alt_screen mode on t0 =
     (let t = t0\<lparr>t_screen_switch := Some SwitchAlt\<rparr>;
          t1 = (if on \<and> \<not> t_alt_active t
                then let u = (if mode = 1049 then save_cursor t else t)\<lparr>t_alt_active := True\<rparr>
                     in if mode = 1049 then clear_alt u else u
                else if \<not> on \<and> t_alt_active t
                then let u = (if mode = 1047 then clear_alt t else t)\<lparr>t_alt_active := False\<rparr>
                     in if mode = 1049 then restore_cursor u else u
                else t);
          t2 = no_wrap t1
      in touch (set_row (min (c_row (t_cursor t2)) (t_rows t2 - 1)) t2))"

section \<open>Escape sequences\<close>

definition charset_for :: "u8 \<Rightarrow> Charset" where
  "charset_for f = (if f = 0x30 then DecSpecial else if f = 0x41 then Uk else Ascii)"

text \<open>\<open>intermediates.first()\<close>.\<close>

definition first_byte :: "bytes \<Rightarrow> u8 option" where
  "first_byte bs = (case bs of [] \<Rightarrow> None | b # _ \<Rightarrow> Some b)"

definition esc_plain :: "'g \<Rightarrow> u8 \<Rightarrow> 'g Terminal \<Rightarrow> 'g Terminal" where
  "esc_plain fresh_graphics f t =
     (if f = 0x37 then save_cursor t
      else if f = 0x38 then restore_cursor t
      else if f = 0x44 then index t
      else if f = 0x45 then index (set_col 0 t)
      else if f = 0x48 then set_tab True t
      else if f = 0x4D then reverse_index t
      else if f = 0x63 then full_reset fresh_graphics t
      else if f = 0x3D then touch (on_modes (\<lambda>m. m\<lparr>m_keypad_app := True\<rparr>) t)
      else if f = 0x3E then touch (on_modes (\<lambda>m. m\<lparr>m_keypad_app := False\<rparr>) t)
      else if f = 0x5A then respond (0x1B # asc ''[?62;22c'') t
      else t)"

definition esc_dispatch :: "'g \<Rightarrow> bytes \<Rightarrow> u8 \<Rightarrow> 'g Terminal \<Rightarrow> 'g Terminal" where
  "esc_dispatch fresh_graphics intermediates f t =
     (case first_byte intermediates of
        None \<Rightarrow> esc_plain fresh_graphics f t
      | Some i \<Rightarrow>
          if i = 0x23 \<and> f = 0x38 then decaln t
          else if i = 0x28 then on_cursor (\<lambda>c. c\<lparr>c_g0 := charset_for f\<rparr>) t
          else if i = 0x29 then on_cursor (\<lambda>c. c\<lparr>c_g1 := charset_for f\<rparr>) t
          else t)"

end
