(* ===== verification/Csi.thy ===== *)
theory Csi
  imports Terminal
begin

text \<open>
  \<open>crates/posh-term/src/csi.rs\<close>: the control sequences of the terminal, one definition per operation
  and a dispatch on prefix, intermediate and final byte. Loops over columns and rows are folds over
  the numbers the code counts through.
\<close>

section \<open>Arguments\<close>

text \<open>\<open>param\<close> and \<open>param_or\<close> of the parser, as numbers.\<close>

definition arg :: "u16 list list \<Rightarrow> nat \<Rightarrow> nat" where
  "arg params i = unat (param params i 0)"

definition arg_or :: "u16 list list \<Rightarrow> nat \<Rightarrow> nat \<Rightarrow> nat" where
  "arg_or params i d = (let v = arg params i in if v = 0 then d else v)"

section \<open>Cursor movement\<close>

definition cursor_up :: "nat \<Rightarrow> 'g Terminal \<Rightarrow> 'g Terminal" where
  "cursor_up n t =
     (let upper = fst (region t); row = c_row (t_cursor t); limit = (if row \<ge> upper then upper else 0)
      in touch (no_wrap (set_row (max (row - n) limit) t)))"

definition cursor_down :: "nat \<Rightarrow> 'g Terminal \<Rightarrow> 'g Terminal" where
  "cursor_down n t =
     (let lower = snd (region t); row = c_row (t_cursor t); limit = (if row \<le> lower then lower else t_rows t - 1)
      in touch (no_wrap (set_row (min (sat_add16 row n) limit) t)))"

definition cursor_right :: "nat \<Rightarrow> 'g Terminal \<Rightarrow> 'g Terminal" where
  "cursor_right n t = touch (no_wrap (set_col (min (sat_add16 (c_col (t_cursor t)) n) (t_cols t - 1)) t))"

definition cursor_left :: "nat \<Rightarrow> 'g Terminal \<Rightarrow> 'g Terminal" where
  "cursor_left n t = touch (no_wrap (set_col (c_col (t_cursor t) - n) t))"

definition move_to :: "nat \<Rightarrow> nat \<Rightarrow> 'g Terminal \<Rightarrow> 'g Terminal" where
  "move_to row0 col t =
     (let (upper, lower) = region t;
          row = (if m_origin (t_modes t) then min (sat_add16 upper row0) lower else min row0 (t_rows t - 1))
      in touch (no_wrap (set_col (min col (t_cols t - 1)) (set_row row t))))"

text \<open>CHA and HPA, VPA, VPR: arms of \<open>csi_dispatch\<close>.\<close>

definition move_to_col :: "nat \<Rightarrow> 'g Terminal \<Rightarrow> 'g Terminal" where
  "move_to_col n t = touch (no_wrap (set_col (min (n - 1) (t_cols t - 1)) t))"

definition move_to_row :: "nat \<Rightarrow> 'g Terminal \<Rightarrow> 'g Terminal" where
  "move_to_row n t =
     (let row0 = n - 1;
          row = (if m_origin (t_modes t) then sat_add16 (fst (region t)) row0 else row0)
      in touch (no_wrap (clamp_to_region_if_origin (set_row (min row (t_rows t - 1)) t))))"

definition move_rows :: "nat \<Rightarrow> 'g Terminal \<Rightarrow> 'g Terminal" where
  "move_rows n t = touch (no_wrap (set_row (min (sat_add16 (c_row (t_cursor t)) n) (t_rows t - 1)) t))"

text \<open>TBC.\<close>

definition clear_tabs :: "nat \<Rightarrow> 'g Terminal \<Rightarrow> 'g Terminal" where
  "clear_tabs mode t =
     (if mode = 0 then set_tab False t
      else if mode = 3 then t\<lparr>t_tabs := map (\<lambda>_. False) (t_tabs t)\<rparr>
      else t)"

text \<open>DECSTBM.\<close>

definition set_margins :: "u16 list list \<Rightarrow> 'g Terminal \<Rightarrow> 'g Terminal" where
  "set_margins params t =
     (let rows = t_rows t; upper = arg_or params 0 1 - 1; lower = min (arg_or params 1 rows - 1) (rows - 1)
      in if upper < lower then move_to 0 0 (t\<lparr>t_scroll_top := upper, t_scroll_bot := lower\<rparr>) else t)"

section \<open>Erasing and editing\<close>

definition erase_cell :: "Style \<Rightarrow> bool \<Rightarrow> nat \<Rightarrow> nat \<Rightarrow> Screen \<Rightarrow> Screen" where
  "erase_cell style selective row col =
     cell_update row col (\<lambda>c. if selective \<and> st_protected (cell_style c) then c else cell_blank style)"

definition erase_cells :: "Style \<Rightarrow> bool \<Rightarrow> nat \<Rightarrow> nat list \<Rightarrow> Screen \<Rightarrow> Screen" where
  "erase_cells style selective row cs = fold (erase_cell style selective row) cs"

definition erase_row :: "nat \<Rightarrow> Style \<Rightarrow> bool \<Rightarrow> nat \<Rightarrow> Screen \<Rightarrow> Screen" where
  "erase_row cols style selective r s =
     (if selective then mark_wrapped False r (erase_cells style True r [0..<cols] s)
      else row_update r (\<lambda>_. row_blank cols style) s)"

definition erase_display :: "nat \<Rightarrow> bool \<Rightarrow> 'g Terminal \<Rightarrow> 'g Terminal" where
  "erase_display mode selective t0 =
     (let style = blank_style t0; rows = t_rows t0; cols = t_cols t0;
          row = c_row (t_cursor t0); col = c_col (t_cursor t0); t = no_wrap t0;
          erase_rows = fold (erase_row cols style selective)
      in touch (if mode = 0
                then on_screen (\<lambda>s. erase_rows [row + 1..<rows]
                       (mark_wrapped False row (erase_cells style selective row [col..<cols] s))) t
                else if mode = 1
                then on_screen (\<lambda>s. erase_cells style selective row [0..<col + 1] (erase_rows [0..<row] s)) t
                else if mode = 2 then on_screen (erase_rows [0..<rows]) t
                else if mode = 3 then on_screen clear_scrollback t
                else t))"

definition erase_line :: "nat \<Rightarrow> bool \<Rightarrow> 'g Terminal \<Rightarrow> 'g Terminal" where
  "erase_line mode selective t0 =
     (let style = blank_style t0; cols = t_cols t0; row = c_row (t_cursor t0); col = c_col (t_cursor t0);
          t = no_wrap t0;
          erase = (\<lambda>from to. on_screen (erase_cells style selective row [from..<to + 1]));
          unwrap = on_screen (mark_wrapped False row)
      in if mode = 0 then touch (unwrap (erase col (cols - 1) t))
         else if mode = 1 then touch (erase 0 col t)
         else if mode = 2 then touch (unwrap (erase 0 (cols - 1) t))
         else t)"

definition insert_lines :: "nat \<Rightarrow> 'g Terminal \<Rightarrow> 'g Terminal" where
  "insert_lines n t =
     (let (upper, lower) = region t; row = c_row (t_cursor t)
      in if row < upper \<or> row > lower then t
         else touch (no_wrap (set_col 0 (on_screen (scroll_down row lower n (blank_style t)) t))))"

definition delete_lines :: "nat \<Rightarrow> 'g Terminal \<Rightarrow> 'g Terminal" where
  "delete_lines n t =
     (let (upper, lower) = region t; row = c_row (t_cursor t)
      in if row < upper \<or> row > lower then t
         else touch (no_wrap (set_col 0 (on_screen (scroll_up row lower n False (blank_style t)) t))))"

definition insert_chars :: "nat \<Rightarrow> 'g Terminal \<Rightarrow> 'g Terminal" where
  "insert_chars n t =
     (let style = blank_style t; row = c_row (t_cursor t); col = c_col (t_cursor t);
          edit = (\<lambda>r. (insert_blank col style ^^ min n (length (cells r))) r)
      in touch (no_wrap (repair_wide_halves row (on_screen (row_update row edit) t))))"

definition delete_char :: "nat \<Rightarrow> Style \<Rightarrow> Row \<Rightarrow> Row" where
  "delete_char col style r =
     (if col < length (cells r) then r\<lparr>cells := remove_at col (cells r) @ [cell_blank style]\<rparr> else r)"

definition delete_chars :: "nat \<Rightarrow> 'g Terminal \<Rightarrow> 'g Terminal" where
  "delete_chars n t =
     (let style = blank_style t; row = c_row (t_cursor t); col = c_col (t_cursor t);
          edit = (\<lambda>r. (delete_char col style ^^ min n (length (cells r))) r)
      in touch (no_wrap (repair_wide_halves row (on_screen (row_update row edit) t))))"

definition erase_chars :: "nat \<Rightarrow> 'g Terminal \<Rightarrow> 'g Terminal" where
  "erase_chars n t =
     (let style = blank_style t; row = c_row (t_cursor t); col = c_col (t_cursor t);
          blank = fold (put_blank style row) [col..<min (sat_add16 col n) (t_cols t)]
      in touch (no_wrap (repair_wide_halves row (on_screen blank t))))"

definition repeat :: "nat \<Rightarrow> 'g Terminal \<Rightarrow> 'g Terminal" where
  "repeat n t =
     (case t_last_printed t of
        None \<Rightarrow> t
      | Some c \<Rightarrow> (print c ^^ min n (t_cols t * t_rows t)) t)"

section \<open>Modes\<close>

definition first_arg :: "u16 list \<Rightarrow> nat" where
  "first_arg p = (if p = [] then 0 else unat (hd p))"

definition ansi_mode :: "bool \<Rightarrow> u16 list \<Rightarrow> 'g Terminal \<Rightarrow> 'g Terminal" where
  "ansi_mode b p t =
     (if first_arg p = 4 then on_modes (\<lambda>m. m\<lparr>m_insert := b\<rparr>) t
      else if first_arg p = 20 then on_modes (\<lambda>m. m\<lparr>m_lnm := b\<rparr>) t
      else t)"

definition set_ansi_mode :: "u16 list list \<Rightarrow> bool \<Rightarrow> 'g Terminal \<Rightarrow> 'g Terminal" where
  "set_ansi_mode params b t = touch (fold (ansi_mode b) params t)"

definition mouse_mode_set :: "MouseMode \<Rightarrow> bool \<Rightarrow> 'g Terminal \<Rightarrow> 'g Terminal" where
  "mouse_mode_set mode b = on_modes (\<lambda>m. m\<lparr>m_mouse_mode := (if b then mode else NoMouse)\<rparr>)"

definition mouse_protocol_set :: "MouseProtocol \<Rightarrow> bool \<Rightarrow> 'g Terminal \<Rightarrow> 'g Terminal" where
  "mouse_protocol_set protocol b = on_modes (\<lambda>m. m\<lparr>m_mouse_protocol := (if b then protocol else NormalProtocol)\<rparr>)"

definition set_dec_mode :: "nat \<Rightarrow> bool \<Rightarrow> 'g Terminal \<Rightarrow> 'g Terminal" where
  "set_dec_mode n b t =
     touch
      (if n = 1 then on_modes (\<lambda>m. m\<lparr>m_cursor_keys := b\<rparr>) t
       else if n = 3 then set_deccolm b t
       else if n = 5 then on_modes (\<lambda>m. m\<lparr>m_reverse_video := b\<rparr>) t
       else if n = 6 then move_to 0 0 (on_modes (\<lambda>m. m\<lparr>m_origin := b\<rparr>) t)
       else if n = 7
       then let t' = on_modes (\<lambda>m. m\<lparr>m_autowrap := b\<rparr>) t in if b then t' else no_wrap t'
       else if n = 8 then on_modes (\<lambda>m. m\<lparr>m_autorepeat := b\<rparr>) t
       else if n = 9 then mouse_mode_set X10 b t
       else if n = 12 then on_modes (\<lambda>m. m\<lparr>m_cursor_blink := b\<rparr>) t
       else if n = 25 then on_modes (\<lambda>m. m\<lparr>m_cursor_visible := b\<rparr>) t
       else if n = 40 then on_modes (\<lambda>m. m\<lparr>m_allow_deccolm := b\<rparr>) t
       else if n = 95 then on_modes (\<lambda>m. m\<lparr>m_no_clear_on_deccolm := b\<rparr>) t
       else if n = 47 \<or> n = 1047 \<or> n = 1049 then set_alt_screen n b t
       else if n = 66 then on_modes (\<lambda>m. m\<lparr>m_keypad_app := b\<rparr>) t
       else if n = 1000 then mouse_mode_set Normal b t
       else if n = 1002 then mouse_mode_set ButtonEvent b t
       else if n = 1003 then mouse_mode_set AnyEvent b t
       else if n = 1004 then on_modes (\<lambda>m. m\<lparr>m_focus_reporting := b\<rparr>) t
       else if n = 1007 then on_modes (\<lambda>m. m\<lparr>m_alternate_scroll := b\<rparr>) t
       else if n = 1005 then mouse_protocol_set Utf8Protocol b t
       else if n = 1006 then mouse_protocol_set Sgr b t
       else if n = 1016 then mouse_protocol_set SgrPixel b t
       else if n = 1048 then if b then save_cursor t else restore_cursor t
       else if n = 2004 then on_modes (\<lambda>m. m\<lparr>m_bracketed_paste := b\<rparr>) t
       else if n = 2026 then on_modes (\<lambda>m. m\<lparr>m_synchronized := b\<rparr>) t
       else t)"

definition set_dec_modes :: "u16 list list \<Rightarrow> bool \<Rightarrow> 'g Terminal \<Rightarrow> 'g Terminal" where
  "set_dec_modes params b = fold (\<lambda>p. set_dec_mode (first_arg p) b) params"

definition dec_mode_status :: "nat \<Rightarrow> 'g Terminal \<Rightarrow> nat" where
  "dec_mode_status n t =
     (let m = t_modes t; b = (\<lambda>v. if v then 1 else 2)
      in if n = 1 then b (m_cursor_keys m)
         else if n = 3 then b (m_deccolm m)
         else if n = 5 then b (m_reverse_video m)
         else if n = 6 then b (m_origin m)
         else if n = 7 then b (m_autowrap m)
         else if n = 8 then b (m_autorepeat m)
         else if n = 9 then b (m_mouse_mode m = X10)
         else if n = 12 then b (m_cursor_blink m)
         else if n = 25 then b (m_cursor_visible m)
         else if n = 40 then b (m_allow_deccolm m)
         else if n = 95 then b (m_no_clear_on_deccolm m)
         else if n = 47 \<or> n = 1047 \<or> n = 1049 then b (t_alt_active t)
         else if n = 66 then b (m_keypad_app m)
         else if n = 1000 then b (m_mouse_mode m = Normal)
         else if n = 1002 then b (m_mouse_mode m = ButtonEvent)
         else if n = 1003 then b (m_mouse_mode m = AnyEvent)
         else if n = 1004 then b (m_focus_reporting m)
         else if n = 1007 then b (m_alternate_scroll m)
         else if n = 1005 then b (m_mouse_protocol m = Utf8Protocol)
         else if n = 1006 then b (m_mouse_protocol m = Sgr)
         else if n = 1016 then b (m_mouse_protocol m = SgrPixel)
         else if n = 1048 then 2
         else if n = 2004 then b (m_bracketed_paste m)
         else if n = 2026 then b (m_synchronized m)
         else 0)"

definition decrqm_dec :: "nat \<Rightarrow> 'g Terminal \<Rightarrow> 'g Terminal" where
  "decrqm_dec n t = respond (0x1B # asc ''[?'' @ decimal n @ asc '';'' @ decimal (dec_mode_status n t) @ asc ''$y'') t"

definition decrqm_ansi :: "nat \<Rightarrow> 'g Terminal \<Rightarrow> 'g Terminal" where
  "decrqm_ansi n t =
     (let status = (if n = 4 then if m_insert (t_modes t) then 1 else 2
                    else if n = 20 then if m_lnm (t_modes t) then 1 else 2
                    else 0)
      in respond (0x1B # asc ''['' @ decimal n @ asc '';'' @ decimal status @ asc ''$y'') t)"

section \<open>Reports and the color stack\<close>

definition CELL_W :: nat where "CELL_W = 10"
definition CELL_H :: nat where "CELL_H = 20"

definition window_ops :: "u16 list list \<Rightarrow> 'g Terminal \<Rightarrow> 'g Terminal" where
  "window_ops params t =
     (if arg params 0 = 14
      then respond (0x1B # asc ''[4;'' @ decimal (t_rows t * CELL_H) @ asc '';'' @ decimal (t_cols t * CELL_W) @ asc ''t'') t
      else if arg params 0 = 16
      then respond (0x1B # asc ''[6;'' @ decimal CELL_H @ asc '';'' @ decimal CELL_W @ asc ''t'') t
      else if arg params 0 = 18
      then respond (0x1B # asc ''[8;'' @ decimal (t_rows t) @ asc '';'' @ decimal (t_cols t) @ asc ''t'') t
      else t)"

text \<open>DSR 5 and CPR, DECXCPR.\<close>

definition status_report :: "nat \<Rightarrow> 'g Terminal \<Rightarrow> 'g Terminal" where
  "status_report n t =
     (if n = 5 then respond (0x1B # asc ''[0n'') t
      else if n = 6
      then let upper = (if m_origin (t_modes t) then fst (region t) else 0)
           in respond (0x1B # asc ''['' @ decimal (c_row (t_cursor t) - upper + 1) @ asc '';''
                @ decimal (c_col (t_cursor t) + 1) @ asc ''R'') t
      else t)"

definition extended_cursor_report :: "'g Terminal \<Rightarrow> 'g Terminal" where
  "extended_cursor_report t =
     respond (0x1B # asc ''[?'' @ decimal (c_row (t_cursor t) + 1) @ asc '';'' @ decimal (c_col (t_cursor t) + 1) @ asc ''R'') t"

definition push_colors :: "'g Terminal \<Rightarrow> 'g Terminal" where
  "push_colors t =
     t\<lparr>t_color_stack := (if length (t_color_stack t) \<ge> 10 then tl (t_color_stack t) else t_color_stack t) @
         [\<lparr>e_palette = t_palette t, e_fg = t_fg_color t, e_bg = t_bg_color t, e_cursor = t_cursor_color t\<rparr>]\<rparr>"

definition pop_colors :: "'g Terminal \<Rightarrow> 'g Terminal" where
  "pop_colors t =
     (if t_color_stack t = [] then t
      else let e = last (t_color_stack t)
           in touch (t\<lparr>t_color_stack := butlast (t_color_stack t), t_palette := e_palette e, t_fg_color := e_fg e,
                       t_bg_color := e_bg e, t_cursor_color := e_cursor e\<rparr>))"

definition report_colors :: "'g Terminal \<Rightarrow> 'g Terminal" where
  "report_colors t =
     (let n = length (t_color_stack t)
      in respond (0x1B # asc ''[?'' @ decimal n @ asc '';'' @ decimal n @ asc ''#Q'') t)"

section \<open>Graphic rendition\<close>

definition clamp_u8 :: "u16 \<Rightarrow> u8" where
  "clamp_u8 v = word_of_nat (min (unat v) 255)"

text \<open>The parameters from the \<open>i\<close>-th on; \<open>get\<close> reads the first value of the \<open>k\<close>-th of them.\<close>

definition color_arg :: "u16 list list \<Rightarrow> nat \<Rightarrow> u16 option" where
  "color_arg ps k = (if k < length ps \<and> ps ! k \<noteq> [] then Some (hd (ps ! k)) else None)"

definition color_get :: "u16 list list \<Rightarrow> nat \<Rightarrow> u8" where
  "color_get ps k = clamp_u8 (case color_arg ps k of None \<Rightarrow> 0 | Some v \<Rightarrow> v)"

definition extended_color :: "u16 list list \<Rightarrow> Color option \<times> nat" where
  "extended_color ps =
     (let p = hd ps
      in if length p > 1
         then if p ! 1 = 5 \<and> length p \<ge> 3 then (Some (Indexed (clamp_u8 (p ! 2))), 0)
              else if p ! 1 = 2 \<and> length p \<ge> 6
              then (Some (Rgb (clamp_u8 (p ! 3)) (clamp_u8 (p ! 4)) (clamp_u8 (p ! 5))), 0)
              else if p ! 1 = 2 \<and> length p = 5
              then (Some (Rgb (clamp_u8 (p ! 2)) (clamp_u8 (p ! 3)) (clamp_u8 (p ! 4))), 0)
              else (None, 0)
         else if color_arg ps 1 = Some 5 then (Some (Indexed (color_get ps 2)), 2)
         else if color_arg ps 1 = Some 2 then (Some (Rgb (color_get ps 2) (color_get ps 3) (color_get ps 4)), 4)
         else (None, 0))"

definition underline_arg :: "u16 list \<Rightarrow> UnderlineStyle" where
  "underline_arg p =
     (if length p \<le> 1 then Single
      else if p ! 1 = 0 then NoUnderline
      else if p ! 1 = 1 then Single
      else if p ! 1 = 2 then Double
      else if p ! 1 = 3 then Curly
      else if p ! 1 = 4 then Dotted
      else if p ! 1 = 5 then Dashed
      else Single)"

text \<open>One parameter that stands for itself.\<close>

definition sgr_attr :: "u16 list \<Rightarrow> Style \<Rightarrow> Style" where
  "sgr_attr p style =
     (let v = first_arg p
      in if v = 0 then style_default
         else if v = 1 then style\<lparr>st_bold := True\<rparr>
         else if v = 2 then style\<lparr>st_dim := True\<rparr>
         else if v = 3 then style\<lparr>st_italic := True\<rparr>
         else if v = 4 then style\<lparr>st_underline := underline_arg p\<rparr>
         else if v = 5 \<or> v = 6 then style\<lparr>st_blink := True\<rparr>
         else if v = 7 then style\<lparr>st_inverse := True\<rparr>
         else if v = 8 then style\<lparr>st_invisible := True\<rparr>
         else if v = 9 then style\<lparr>st_strikethrough := True\<rparr>
         else if v = 21 then style\<lparr>st_underline := Double\<rparr>
         else if v = 22 then style\<lparr>st_bold := False, st_dim := False\<rparr>
         else if v = 23 then style\<lparr>st_italic := False\<rparr>
         else if v = 24 then style\<lparr>st_underline := NoUnderline\<rparr>
         else if v = 25 then style\<lparr>st_blink := False\<rparr>
         else if v = 27 then style\<lparr>st_inverse := False\<rparr>
         else if v = 28 then style\<lparr>st_invisible := False\<rparr>
         else if v = 29 then style\<lparr>st_strikethrough := False\<rparr>
         else if 30 \<le> v \<and> v \<le> 37 then style\<lparr>st_fg := Indexed (word_of_nat (v - 30))\<rparr>
         else if v = 39 then style\<lparr>st_fg := Default\<rparr>
         else if 40 \<le> v \<and> v \<le> 47 then style\<lparr>st_bg := Indexed (word_of_nat (v - 40))\<rparr>
         else if v = 49 then style\<lparr>st_bg := Default\<rparr>
         else if v = 59 then style\<lparr>st_underline_color := Default\<rparr>
         else if 90 \<le> v \<and> v \<le> 97 then style\<lparr>st_fg := Indexed (word_of_nat (v - 90 + 8))\<rparr>
         else if 100 \<le> v \<and> v \<le> 107 then style\<lparr>st_bg := Indexed (word_of_nat (v - 100 + 8))\<rparr>
         else style)"

text \<open>One turn of the loop: the new pen and the number of further parameters consumed.\<close>

definition sgr_step :: "u16 list list \<Rightarrow> Style \<Rightarrow> Style \<times> nat" where
  "sgr_step ps style =
     (let v = first_arg (hd ps); (color, consumed) = extended_color ps
      in if v = 38 then (case color of None \<Rightarrow> style | Some c \<Rightarrow> style\<lparr>st_fg := c\<rparr>, consumed)
         else if v = 48 then (case color of None \<Rightarrow> style | Some c \<Rightarrow> style\<lparr>st_bg := c\<rparr>, consumed)
         else if v = 58 then (case color of None \<Rightarrow> style | Some c \<Rightarrow> style\<lparr>st_underline_color := c\<rparr>, consumed)
         else (sgr_attr (hd ps) style, 0))"

function sgr_loop :: "u16 list list \<Rightarrow> Style \<Rightarrow> Style" where
  "sgr_loop [] style = style"
| "sgr_loop (p # rest) style =
     (let (style', consumed) = sgr_step (p # rest) style in sgr_loop (drop consumed rest) style')"
  by pat_completeness auto
termination by (relation "measure (\<lambda>(ps, _). length ps)") auto

definition sgr :: "u16 list list \<Rightarrow> 'g Terminal \<Rightarrow> 'g Terminal" where
  "sgr params t =
     (let style = c_style (t_cursor t); protected = st_protected style;
          set_style = (\<lambda>s. on_cursor (\<lambda>c. c\<lparr>c_style := s\<lparr>st_protected := protected\<rparr>\<rparr>))
      in if params = [] then set_style style_default t else touch (set_style (sgr_loop params style) t))"

declare sgr_loop.simps(2) [simp del]

section \<open>Dispatch\<close>

text \<open>Sequences without prefix or intermediate.\<close>

definition csi_plain :: "u16 list list \<Rightarrow> u8 \<Rightarrow> 'g Terminal \<Rightarrow> 'g Terminal" where
  "csi_plain params f t =
     (let n = arg_or params 0 1
      in if f = 0x41 then cursor_up n t
         else if f = 0x42 then cursor_down n t
         else if f = 0x43 then cursor_right n t
         else if f = 0x44 then cursor_left n t
         else if f = 0x45 then set_col 0 (cursor_down n t)
         else if f = 0x46 then set_col 0 (cursor_up n t)
         else if f = 0x47 \<or> f = 0x60 then move_to_col n t
         else if f = 0x48 \<or> f = 0x66 then move_to (n - 1) (arg_or params 1 1 - 1) t
         else if f = 0x49 then (horizontal_tab ^^ n) t
         else if f = 0x4A then erase_display (arg params 0) False t
         else if f = 0x4B then erase_line (arg params 0) False t
         else if f = 0x4C then insert_lines n t
         else if f = 0x4D then delete_lines n t
         else if f = 0x50 then delete_chars n t
         else if f = 0x53 then scroll_up_n n t
         else if f = 0x54 then scroll_down_n n t
         else if f = 0x58 then erase_chars n t
         else if f = 0x5A then (back_tab ^^ n) t
         else if f = 0x40 then insert_chars n t
         else if f = 0x61 then cursor_right n t
         else if f = 0x62 then repeat n t
         else if f = 0x63 then if arg params 0 = 0 then respond (0x1B # asc ''[?62;22c'') t else t
         else if f = 0x64 then move_to_row n t
         else if f = 0x65 then move_rows n t
         else if f = 0x67 then clear_tabs (arg params 0) t
         else if f = 0x68 then set_ansi_mode params True t
         else if f = 0x6C then set_ansi_mode params False t
         else if f = 0x6D then sgr params t
         else if f = 0x6E then status_report (arg params 0) t
         else if f = 0x72 then set_margins params t
         else if f = 0x73 then save_cursor t
         else if f = 0x75 then restore_cursor t
         else if f = 0x74 then window_ops params t
         else t)"

text \<open>The prefix \<open>?\<close>, and the prefixes \<open>>\<close>, \<open><\<close> and \<open>=\<close>.\<close>

definition csi_question :: "u16 list list \<Rightarrow> u8 \<Rightarrow> 'g Terminal \<Rightarrow> 'g Terminal" where
  "csi_question params f t =
     (if f = 0x4A then erase_display (arg params 0) True t
      else if f = 0x4B then erase_line (arg params 0) True t
      else if f = 0x68 then set_dec_modes params True t
      else if f = 0x6C then set_dec_modes params False t
      else if f = 0x6E then if arg params 0 = 6 then extended_cursor_report t else t
      else if f = 0x75
      then respond (0x1B # asc ''[?'' @ decimal (unat (kitty_flags (if t_alt_active t then t_kitty_alt t else t_kitty_primary t)))
             @ asc ''u'') t
      else t)"

definition csi_prefixed :: "u16 list list \<Rightarrow> u8 \<Rightarrow> u8 \<Rightarrow> 'g Terminal \<Rightarrow> 'g Terminal" where
  "csi_prefixed params private f t =
     (if private = 0x3E \<and> f = 0x63 then respond (0x1B # asc ''[>1;10;0c'') t
      else if private = 0x3E \<and> f = 0x71
      then respond ([0x1B] @ asc ''P>|posh-term 0.1.0'' @ [0x1B, 0x5C]) t
      else if private = 0x3E \<and> f = 0x75 then on_kitty_stack (kitty_push (ucast (param params 0 0))) t
      else if private = 0x3C \<and> f = 0x75 then on_kitty_stack (kitty_pop (arg_or params 0 1)) t
      else if private = 0x3D \<and> f = 0x75
      then on_kitty_stack (kitty_set (ucast (param params 0 0)) (arg_or params 1 1)) t
      else t)"

text \<open>Sequences with an intermediate.\<close>

definition csi_intermediate :: "u16 list list \<Rightarrow> u8 \<Rightarrow> u8 \<Rightarrow> u8 \<Rightarrow> 'g Terminal \<Rightarrow> 'g Terminal" where
  "csi_intermediate params private i f t =
     (if private = 0x3F \<and> i = 0x24 \<and> f = 0x70 then decrqm_dec (arg params 0) t
      else if private \<noteq> 0 then t
      else if i = 0x24 \<and> f = 0x70 then decrqm_ansi (arg params 0) t
      else if i = 0x21 \<and> f = 0x70 then soft_reset t
      else if i = 0x22 \<and> f = 0x71
      then on_cursor (\<lambda>c. c\<lparr>c_style := (c_style c)\<lparr>st_protected := (arg params 0 = 1)\<rparr>\<rparr>) t
      else if i = 0x23 \<and> f = 0x50 then push_colors t
      else if i = 0x23 \<and> f = 0x51 then pop_colors t
      else if i = 0x23 \<and> f = 0x52 then report_colors t
      else if i = 0x20 \<and> f = 0x71
      then if arg params 0 \<le> 6 then touch (t\<lparr>t_cursor_style_raw := arg params 0\<rparr>) else t
      else t)"

definition terminal_csi_dispatch :: "u16 list list \<Rightarrow> bytes \<Rightarrow> u8 \<Rightarrow> u8 \<Rightarrow> 'g Terminal \<Rightarrow> 'g Terminal" where
  "terminal_csi_dispatch params intermediates private f t =
     (case first_byte intermediates of
        Some i \<Rightarrow> csi_intermediate params private i f t
      | None \<Rightarrow> if private = 0 then csi_plain params f t
                else if private = 0x3F then csi_question params f t
                else csi_prefixed params private f t)"

end
