(* ===== verification/Terminal_Inv.thy ===== *)
theory Terminal_Inv
  imports Csi
begin

text \<open>
  The invariant of the terminal and its preservation by every operation of \<open>Terminal\<close> and \<open>Csi\<close>:
  both screens are well formed and of one size, the cursor and the margins are inside, there is one
  tab stop flag per column, 256 palette entries, and the color and key stacks respect their caps.
  The collection \<open>term_intros\<close> holds one introduction rule per operation, so that a dispatch is
  proved by going through its branches.
\<close>

section \<open>The invariant\<close>

definition screens_ok :: "'g Terminal \<Rightarrow> bool" where
  "screens_ok t \<longleftrightarrow> wf_screen (t_primary t) \<and> wf_screen (t_alt t)
     \<and> sc_rows (t_alt t) = sc_rows (t_primary t) \<and> sc_cols (t_alt t) = sc_cols (t_primary t)"

definition colors_ok :: "'g Terminal \<Rightarrow> bool" where
  "colors_ok t \<longleftrightarrow> length (t_palette t) = 256 \<and> length (t_color_stack t) \<le> 10
     \<and> (\<forall>e \<in> set (t_color_stack t). length (e_palette e) = 256)"

definition margins_ok :: "'g Terminal \<Rightarrow> bool" where
  "margins_ok t \<longleftrightarrow> t_scroll_top t \<le> t_scroll_bot t \<and> t_scroll_bot t < t_rows t \<and> length (t_tabs t) = t_cols t"

definition keys_ok :: "'g Terminal \<Rightarrow> bool" where
  "keys_ok t \<longleftrightarrow> kitty_ok (t_kitty_primary t) \<and> kitty_ok (t_kitty_alt t) \<and> t_cursor_style_raw t \<le> 6"

definition cursor_inside :: "'g Terminal \<Rightarrow> bool" where
  "cursor_inside t \<longleftrightarrow> c_row (t_cursor t) < t_rows t \<and> c_col (t_cursor t) < t_cols t"

definition term_inv :: "'g Terminal \<Rightarrow> bool" where
  "term_inv t \<longleftrightarrow> screens_ok t \<and> colors_ok t \<and> margins_ok t \<and> keys_ok t \<and> cursor_inside t"

lemmas term_inv_defs = term_inv_def screens_ok_def colors_ok_def margins_ok_def keys_ok_def cursor_inside_def

named_theorems term_intros "operations that keep the terminal invariant"

section \<open>What the assignments read and keep\<close>

lemmas assign_defs = touch_def respond_def on_cursor_def on_modes_def no_wrap_def set_col_def set_row_def

lemma rows_assign [simp]:
  "t_rows (touch t) = t_rows t" "t_rows (respond s t) = t_rows t" "t_rows (on_cursor f t) = t_rows t"
  "t_rows (on_modes m t) = t_rows t" "t_rows (no_wrap t) = t_rows t" "t_rows (set_col n t) = t_rows t"
  "t_rows (set_row n t) = t_rows t"
  by (simp_all add: assign_defs t_rows_def)

lemma cols_assign [simp]:
  "t_cols (touch t) = t_cols t" "t_cols (respond s t) = t_cols t" "t_cols (on_cursor f t) = t_cols t"
  "t_cols (on_modes m t) = t_cols t" "t_cols (no_wrap t) = t_cols t" "t_cols (set_col n t) = t_cols t"
  "t_cols (set_row n t) = t_cols t"
  by (simp_all add: assign_defs t_cols_def)

lemma region_assign [simp]:
  "region (touch t) = region t" "region (respond s t) = region t" "region (on_cursor f t) = region t"
  "region (on_modes m t) = region t" "region (no_wrap t) = region t" "region (set_col n t) = region t"
  "region (set_row n t) = region t"
  by (simp_all add: assign_defs region_def t_rows_def)

lemma cursor_assign [simp]:
  "t_cursor (touch t) = t_cursor t" "t_cursor (respond s t) = t_cursor t" "t_cursor (on_cursor f t) = f (t_cursor t)"
  "t_cursor (on_modes m t) = t_cursor t" "t_cursor (no_wrap t) = (t_cursor t)\<lparr>c_pending_wrap := False\<rparr>"
  "t_cursor (set_col n t) = (t_cursor t)\<lparr>c_col := n\<rparr>" "t_cursor (set_row n t) = (t_cursor t)\<lparr>c_row := n\<rparr>"
  by (simp_all add: assign_defs)

lemma modes_assign [simp]:
  "t_modes (touch t) = t_modes t" "t_modes (respond s t) = t_modes t" "t_modes (on_cursor f t) = t_modes t"
  "t_modes (on_modes m t) = m (t_modes t)" "t_modes (no_wrap t) = t_modes t" "t_modes (set_col n t) = t_modes t"
  "t_modes (set_row n t) = t_modes t"
  by (simp_all add: assign_defs)

lemma alt_assign [simp]:
  "t_alt_active (touch t) = t_alt_active t" "t_alt_active (respond s t) = t_alt_active t"
  "t_alt_active (on_cursor f t) = t_alt_active t" "t_alt_active (on_modes m t) = t_alt_active t"
  "t_alt_active (no_wrap t) = t_alt_active t" "t_alt_active (set_col n t) = t_alt_active t"
  "t_alt_active (set_row n t) = t_alt_active t"
  by (simp_all add: assign_defs)

lemma primary_assign [simp]:
  "t_primary (touch t) = t_primary t" "t_primary (respond s t) = t_primary t"
  "t_primary (on_cursor f t) = t_primary t" "t_primary (on_modes m t) = t_primary t"
  "t_primary (no_wrap t) = t_primary t" "t_primary (set_col n t) = t_primary t" "t_primary (set_row n t) = t_primary t"
  by (simp_all add: assign_defs)

lemma alt_screen_assign [simp]:
  "t_alt (touch t) = t_alt t" "t_alt (respond s t) = t_alt t" "t_alt (on_cursor f t) = t_alt t"
  "t_alt (on_modes m t) = t_alt t" "t_alt (no_wrap t) = t_alt t" "t_alt (set_col n t) = t_alt t" "t_alt (set_row n t) = t_alt t"
  by (simp_all add: assign_defs)

lemma tabs_assign [simp]:
  "t_tabs (touch t) = t_tabs t" "t_tabs (respond s t) = t_tabs t" "t_tabs (on_cursor f t) = t_tabs t"
  "t_tabs (on_modes m t) = t_tabs t" "t_tabs (no_wrap t) = t_tabs t" "t_tabs (set_col n t) = t_tabs t"
  "t_tabs (set_row n t) = t_tabs t"
  by (simp_all add: assign_defs)

lemma blank_style_assign [simp]:
  "blank_style (touch t) = blank_style t" "blank_style (respond s t) = blank_style t" "blank_style (on_modes m t) = blank_style t"
  "blank_style (no_wrap t) = blank_style t" "blank_style (set_col n t) = blank_style t" "blank_style (set_row n t) = blank_style t"
  by (simp_all add: assign_defs blank_style_def)

lemma on_screen_reads [simp]:
  "t_cursor (on_screen f t) = t_cursor t" "t_modes (on_screen f t) = t_modes t" "t_alt_active (on_screen f t) = t_alt_active t"
  "t_tabs (on_screen f t) = t_tabs t" "blank_style (on_screen f t) = blank_style t"
  "t_scroll_top (on_screen f t) = t_scroll_top t" "t_scroll_bot (on_screen f t) = t_scroll_bot t"
  by (simp_all add: on_screen_def blank_style_def)

section \<open>Screen operations keep the dimensions\<close>

named_theorems dims_simps "operations on a screen that keep its dimensions"

definition same_dims :: "(Screen \<Rightarrow> Screen) \<Rightarrow> bool" where
  "same_dims f \<longleftrightarrow> (\<forall>s. sc_rows (f s) = sc_rows s \<and> sc_cols (f s) = sc_cols s)"

lemma same_dims_fold [dims_simps]: "(\<And>x. x \<in> set xs \<Longrightarrow> same_dims (f x)) \<Longrightarrow> same_dims (fold f xs)"
  by (induction xs) (auto simp: same_dims_def)

lemma same_dims_pow: "same_dims f \<Longrightarrow> same_dims (f ^^ n)"
  by (induction n) (auto simp: same_dims_def)

lemma same_dims_comp [dims_simps]: "same_dims f \<Longrightarrow> same_dims g \<Longrightarrow> same_dims (f \<circ> g)"
  by (auto simp: same_dims_def)

lemma same_dims_compose: "same_dims f \<Longrightarrow> same_dims g \<Longrightarrow> same_dims (\<lambda>s. f (g s))"
  by (auto simp: same_dims_def)

lemma same_dims_if: "same_dims f \<Longrightarrow> same_dims g \<Longrightarrow> same_dims (\<lambda>s. if b s then f s else g s)"
  by (auto simp: same_dims_def)

lemma same_dims_basic [dims_simps]:
  "same_dims (\<lambda>s. s)" "same_dims (row_update row g)" "same_dims (cell_update row col h)" "same_dims (put_blank style row col)"
  "same_dims (mark_wrapped b row)" "same_dims (clear_grid style)" "same_dims clear_scrollback"
  by (auto simp: same_dims_def row_update_def cell_update_def put_blank_def mark_wrapped_def clear_grid_def clear_scrollback_def Let_def)

lemma same_dims_scroll [dims_simps]:
  "same_dims (scroll_up upper lower n save style)" "same_dims (scroll_down upper lower n style)"
proof -
  have "same_dims (scroll_up_once upper lower save style)" "same_dims (scroll_down_once upper lower style)" for lower
    by (auto simp: same_dims_def scroll_up_once_def scroll_down_once_def save_row_def Let_def)
  from this [THEN same_dims_pow] show "same_dims (scroll_up upper lower n save style)" "same_dims (scroll_down upper lower n style)"
    by (auto simp: same_dims_def scroll_up_def scroll_down_def Let_def)
qed

lemma on_screen_dims [simp]:
  assumes "same_dims f"
  shows "t_rows (on_screen f t) = t_rows t" "t_cols (on_screen f t) = t_cols t" "region (on_screen f t) = region t"
  using assms by (auto simp: same_dims_def on_screen_def t_rows_def t_cols_def region_def)

text \<open>And well-formedness, of a screen \<open>W\<close> columns wide.\<close>

definition screen_op :: "nat \<Rightarrow> (Screen \<Rightarrow> Screen) \<Rightarrow> bool" where
  "screen_op W f \<longleftrightarrow> (\<forall>s. wf_screen s \<and> sc_cols s = W \<longrightarrow> wf_screen (f s) \<and> sc_cols (f s) = W \<and> sc_rows (f s) = sc_rows s)"

lemma screen_opI: "same_dims f \<Longrightarrow> (\<And>s. wf_screen s \<Longrightarrow> sc_cols s = W \<Longrightarrow> wf_screen (f s)) \<Longrightarrow> screen_op W f"
  by (auto simp: screen_op_def same_dims_def)

lemma screen_op_fold [term_intros]: "(\<And>x. x \<in> set xs \<Longrightarrow> screen_op W (f x)) \<Longrightarrow> screen_op W (fold f xs)"
  by (induction xs) (auto simp: screen_op_def)

lemma screen_op_comp [term_intros]: "screen_op W f \<Longrightarrow> screen_op W g \<Longrightarrow> screen_op W (f \<circ> g)"
  by (auto simp: screen_op_def)

lemma screen_op_compose: "screen_op W f \<Longrightarrow> screen_op W g \<Longrightarrow> screen_op W (\<lambda>s. f (g s))"
  by (auto simp: screen_op_def)

lemma screen_op_if [term_intros]: "screen_op W f \<Longrightarrow> screen_op W g \<Longrightarrow> screen_op W (\<lambda>s. if b s then f s else g s)"
  by (auto simp: screen_op_def)

lemma screen_op_basic [term_intros]:
  "screen_op W (\<lambda>s. s)" "screen_op W (cell_update row col h)" "screen_op W (put_blank style row col)"
  "screen_op W (mark_wrapped b row)" "screen_op W (clear_grid style)" "screen_op W clear_scrollback"
  "screen_op W (scroll_up upper lower n save style)" "screen_op W (scroll_down upper lower n style)"
  by (rule screen_opI; auto simp: put_blank_def mark_wrapped_def intro!: dims_simps [unfolded put_blank_def mark_wrapped_def] wf_screen_intros)+

lemma screen_op_row [term_intros]:
  assumes "\<And>r. length (cells r) = W \<Longrightarrow> length (cells (f r)) = W"
  shows "screen_op W (row_update row f)"
  by (rule screen_opI) (use assms in \<open>auto intro!: dims_simps row_replace_wf\<close>)

section \<open>Assignments keep the invariant\<close>

lemma inv_if [term_intros]: "(b \<Longrightarrow> term_inv x) \<Longrightarrow> (\<not> b \<Longrightarrow> term_inv y) \<Longrightarrow> term_inv (if b then x else y)"
  by simp

lemma inv_option [term_intros]:
  "(v = None \<Longrightarrow> term_inv x) \<Longrightarrow> (\<And>a. v = Some a \<Longrightarrow> term_inv (f a)) \<Longrightarrow> term_inv (case v of None \<Rightarrow> x | Some a \<Rightarrow> f a)"
  by (cases v) auto

lemma inv_pow [term_intros]:
  fixes f :: "'g Terminal \<Rightarrow> 'g Terminal"
  shows "(\<And>t. term_inv t \<Longrightarrow> term_inv (f t)) \<Longrightarrow> term_inv t \<Longrightarrow> term_inv ((f ^^ n) t)"
  by (induction n) auto

lemma inv_fold [term_intros]: "(\<And>x t. term_inv t \<Longrightarrow> term_inv (f x t)) \<Longrightarrow> term_inv t \<Longrightarrow> term_inv (fold f xs t)"
  by (induction xs arbitrary: t) auto

lemma inv_dims: "term_inv t \<Longrightarrow> 0 < t_rows t" "term_inv t \<Longrightarrow> 0 < t_cols t"
  "term_inv t \<Longrightarrow> c_row (t_cursor t) < t_rows t" "term_inv t \<Longrightarrow> c_col (t_cursor t) < t_cols t"
  by (auto simp: term_inv_defs)

lemma inv_region:
  assumes "term_inv t"
  shows "fst (region t) \<le> snd (region t)" "snd (region t) < t_rows t" "region t = (t_scroll_top t, t_scroll_bot t)"
  using assms by (auto simp: term_inv_defs region_def)

lemma inv_touch [simp]: "term_inv (touch t) = term_inv t"
  and inv_respond [simp]: "term_inv (respond s t) = term_inv t"
  and inv_modes [simp]: "term_inv (on_modes m t) = term_inv t"
  and inv_no_wrap [simp]: "term_inv (no_wrap t) = term_inv t"
  by (simp_all add: term_inv_defs assign_defs t_rows_def t_cols_def)

lemma inv_fields [simp]:
  "term_inv (t\<lparr>t_parser := a\<rparr>) = term_inv t" "term_inv (t\<lparr>t_bell_count := b\<rparr>) = term_inv t"
  "term_inv (t\<lparr>t_last_printed := c\<rparr>) = term_inv t" "term_inv (t\<lparr>t_screen_switch := d\<rparr>) = term_inv t"
  "term_inv (t\<lparr>t_saved_primary := e\<rparr>) = term_inv t" "term_inv (t\<lparr>t_saved_alt := e\<rparr>) = term_inv t"
  "term_inv (t\<lparr>t_alt_active := g\<rparr>) = term_inv t" "term_inv (t\<lparr>t_title := h\<rparr>) = term_inv t"
  "term_inv (t\<lparr>t_icon_title := h\<rparr>) = term_inv t" "term_inv (t\<lparr>t_pwd := h\<rparr>) = term_inv t"
  "term_inv (t\<lparr>t_last_notification := i\<rparr>) = term_inv t" "term_inv (t\<lparr>t_pointer_shape := h\<rparr>) = term_inv t"
  "term_inv (t\<lparr>t_fg_color := j\<rparr>) = term_inv t" "term_inv (t\<lparr>t_bg_color := j\<rparr>) = term_inv t"
  "term_inv (t\<lparr>t_cursor_color := j\<rparr>) = term_inv t" "term_inv (t\<lparr>t_clipboard := h\<rparr>) = term_inv t"
  "term_inv (t\<lparr>t_primary_selection := h\<rparr>) = term_inv t" "term_inv (t\<lparr>t_select_selection := h\<rparr>) = term_inv t"
  "term_inv (t\<lparr>t_clipboard_seq := k\<rparr>) = term_inv t" "term_inv (t\<lparr>t_clipboard_kinds := l\<rparr>) = term_inv t"
  "term_inv (t\<lparr>t_last_text_size := i\<rparr>) = term_inv t" "term_inv (t\<lparr>t_hyperlinks := m\<rparr>) = term_inv t"
  "term_inv (t\<lparr>t_next_hyperlink := n\<rparr>) = term_inv t" "term_inv (t\<lparr>t_graphics := q\<rparr>) = term_inv t"
  by (simp_all add: term_inv_defs t_rows_def t_cols_def)

lemma inv_set_col [term_intros]: "term_inv t \<Longrightarrow> n < t_cols t \<Longrightarrow> term_inv (set_col n t)"
  and inv_set_row [term_intros]: "term_inv t \<Longrightarrow> n < t_rows t \<Longrightarrow> term_inv (set_row n t)"
  by (simp_all add: term_inv_defs assign_defs t_rows_def t_cols_def)

lemma inv_on_cursor [term_intros]:
  "term_inv t \<Longrightarrow> c_row (f (t_cursor t)) < t_rows t \<Longrightarrow> c_col (f (t_cursor t)) < t_cols t \<Longrightarrow> term_inv (on_cursor f t)"
  by (simp add: term_inv_defs assign_defs t_rows_def t_cols_def)

lemma inv_on_screen [term_intros]: "screen_op (t_cols t) f \<Longrightarrow> term_inv t \<Longrightarrow> term_inv (on_screen f t)"
  by (auto simp: term_inv_defs on_screen_def screen_op_def t_rows_def t_cols_def)

lemma inv_set_tab [term_intros]: "term_inv t \<Longrightarrow> term_inv (set_tab b t)"
  by (simp add: set_tab_def term_inv_defs t_rows_def t_cols_def Let_def)

section \<open>Every operation keeps the invariant\<close>

lemma inv_scroll_up_n [term_intros]: "term_inv t \<Longrightarrow> term_inv (scroll_up_n n t)"
  and inv_scroll_down_n [term_intros]: "term_inv t \<Longrightarrow> term_inv (scroll_down_n n t)"
  by (auto simp: scroll_up_n_def scroll_down_n_def Let_def case_prod_unfold intro!: term_intros)

lemma scroll_n_reads [simp]:
  "t_rows (scroll_up_n n t) = t_rows t" "t_cols (scroll_up_n n t) = t_cols t" "t_cursor (scroll_up_n n t) = t_cursor t"
  "t_rows (scroll_down_n n t) = t_rows t" "t_cols (scroll_down_n n t) = t_cols t" "t_cursor (scroll_down_n n t) = t_cursor t"
  "t_modes (scroll_up_n n t) = t_modes t" "t_modes (scroll_down_n n t) = t_modes t"
  by (simp_all add: scroll_up_n_def scroll_down_n_def Let_def case_prod_unfold dims_simps)

lemma inv_index [term_intros]: "term_inv t \<Longrightarrow> term_inv (index t)"
  and inv_reverse_index [term_intros]: "term_inv t \<Longrightarrow> term_inv (reverse_index t)"
  using inv_dims [of t] by (auto simp: index_def reverse_index_def Let_def intro!: term_intros)

lemma index_reads [simp]:
  "t_rows (index t) = t_rows t" "t_cols (index t) = t_cols t" "c_col (t_cursor (index t)) = c_col (t_cursor t)"
  "t_modes (index t) = t_modes t"
  by (simp_all add: index_def Let_def)

lemma inv_linefeed [term_intros]: "term_inv t \<Longrightarrow> term_inv (linefeed t)"
  using inv_dims [of t] by (auto simp: linefeed_def Let_def intro!: term_intros)

lemma tab_forward_less: "col < cols \<Longrightarrow> tab_forward tabs cols col < cols"
proof (induction tabs cols col rule: tab_forward.induct)
  case (1 tabs cols col)
  then show ?case by (subst tab_forward.simps) simp
qed

lemma tab_backward_le: "tab_backward tabs col \<le> col"
  by (induction tabs col rule: tab_backward.induct) auto

lemma inv_tabs [term_intros]:
  "term_inv t \<Longrightarrow> term_inv (horizontal_tab t)" "term_inv t \<Longrightarrow> term_inv (back_tab t)"
  using inv_dims [of t] tab_backward_le [of "t_tabs t" "c_col (t_cursor t)"]
  by (auto simp: horizontal_tab_def back_tab_def intro!: term_intros tab_forward_less)

lemma inv_execute [term_intros]: "term_inv t \<Longrightarrow> term_inv (execute b t)"
  using inv_dims [of t] unfolding execute_def by (auto intro!: term_intros)

lemma insert_blank_length: "0 < W \<Longrightarrow> length (cells r) = W \<Longrightarrow> length (cells ((insert_blank col style ^^ n) r)) = W"
  by (induction n) (auto simp: insert_blank_def insert_at_def)

lemma screen_op_clean [term_intros]: "screen_op W (clean_wide_at style cols row c)"
  by (auto simp: clean_wide_at_def [abs_def] intro!: term_intros)

lemma screen_op_repair [term_intros]:
  "screen_op W (\<lambda>s. if orphaned cols row c s then put_blank style row c s else s)"
  by (rule term_intros)+

lemma inv_clean_wide [term_intros]: "term_inv t \<Longrightarrow> term_inv (clean_wide row col w t)"
  unfolding clean_wide_def Let_def
  by (intro term_intros screen_op_compose [where f = "fold _ _"]) 

lemma inv_repair [term_intros]: "term_inv t \<Longrightarrow> term_inv (repair_wide_halves row t)"
  unfolding repair_wide_halves_def by (intro term_intros)

lemma inv_combine [term_intros]: "term_inv t \<Longrightarrow> term_inv (combine c t)"
  by (auto simp: combine_def Let_def intro!: term_intros)

lemma inv_print_wrap [term_intros]: "term_inv t \<Longrightarrow> term_inv (print_wrap t)"
  using inv_dims [of t] by (auto simp: print_wrap_def Let_def dims_simps intro!: term_intros)

lemma inv_print_edge: "term_inv t \<Longrightarrow> print_edge w t = Some t' \<Longrightarrow> term_inv t'"
  using inv_dims [of t]
  by (auto simp: print_edge_def Let_def dims_simps split: if_splits intro!: term_intros)

lemma inv_print_insert [term_intros]: "term_inv t \<Longrightarrow> term_inv (print_insert w t)"
  using inv_dims(2) [of t] by (auto simp: print_insert_def Let_def intro!: term_intros insert_blank_length)

lemma screen_op_put_char [term_intros]: "screen_op W (put_char c w row col style link)"
  using screen_op_basic(2) [of W] by (auto simp: screen_op_def put_char_def Let_def)

lemma inv_print_advance [term_intros]: "term_inv t \<Longrightarrow> term_inv (print_advance w t)"
  using inv_dims [of t] by (auto simp: print_advance_def Let_def intro!: term_intros)

lemma inv_print_place [term_intros]: "term_inv t \<Longrightarrow> term_inv (print_place c w t)"
  unfolding print_place_def Let_def by (intro term_intros)

lemma inv_print [term_intros]: "term_inv t \<Longrightarrow> term_inv (print c t)"
  unfolding print_def Let_def by (intro term_intros) (auto intro!: term_intros dest: inv_print_edge [rotated])

lemma inv_save_cursor [term_intros]: "term_inv t \<Longrightarrow> term_inv (save_cursor t)"
  by (simp add: save_cursor_def Let_def)

lemma inv_clamp [term_intros]: "term_inv t \<Longrightarrow> term_inv (clamp_to_region_if_origin t)"
  using inv_region [of t] by (auto simp: clamp_to_region_if_origin_def case_prod_unfold Let_def intro!: term_intros)

text \<open>A restored cursor is clamped on both axes, whatever was saved.\<close>

lemma inv_place_cursor:
  assumes "term_inv t" "r < t_rows t" "c < t_cols t"
  shows "term_inv (set_col c (set_row r (t\<lparr>t_cursor := cur\<rparr>)))"
  using assms by (simp add: term_inv_defs assign_defs t_rows_def t_cols_def)

lemma set_row_modes: "set_row r (on_modes f t) = on_modes f (set_row r t)" "set_col c (on_modes f t) = on_modes f (set_col c t)"
  by (simp_all add: assign_defs)

lemma dims_fields [simp]:
  "t_rows (t\<lparr>t_cursor := cur\<rparr>) = t_rows t" "t_cols (t\<lparr>t_cursor := cur\<rparr>) = t_cols t"
  "t_rows (t\<lparr>t_alt_active := a\<rparr>) = t_rows t" "t_cols (t\<lparr>t_alt_active := a\<rparr>) = t_cols t"
  "t_rows (t\<lparr>t_screen_switch := b\<rparr>) = t_rows t" "t_cols (t\<lparr>t_screen_switch := b\<rparr>) = t_cols t"
  "t_rows (t\<lparr>t_saved_primary := s\<rparr>) = t_rows t" "t_rows (t\<lparr>t_saved_alt := s\<rparr>) = t_rows t"
  "t_cols (t\<lparr>t_saved_primary := s\<rparr>) = t_cols t" "t_cols (t\<lparr>t_saved_alt := s\<rparr>) = t_cols t"
  "t_rows (t\<lparr>t_alt := w\<rparr>) = t_rows t" "t_cols (t\<lparr>t_alt := w\<rparr>) = t_cols t"
  "t_rows (t\<lparr>t_scroll_top := m, t_scroll_bot := n\<rparr>) = t_rows t" "t_cols (t\<lparr>t_scroll_top := m, t_scroll_bot := n\<rparr>) = t_cols t"
  "t_rows (t\<lparr>t_scroll_bot := n\<rparr>) = t_rows t" "t_cols (t\<lparr>t_scroll_bot := n\<rparr>) = t_cols t"
  "t_rows (t\<lparr>t_cursor_style_raw := n\<rparr>) = t_rows t" "t_cols (t\<lparr>t_cursor_style_raw := n\<rparr>) = t_cols t"
  by (simp_all add: t_rows_def t_cols_def)

lemma inv_restore_cursor [term_intros]:
  assumes "term_inv t"
  shows "term_inv (restore_cursor t)"
proof -
  define saved where "saved = (if t_alt_active t then t_saved_alt t else t_saved_primary t)"
  let ?t = "t\<lparr>t_cursor := s_cursor saved\<rparr>"
  have "term_inv (set_col (min (c_col (s_cursor saved)) (t_cols t - 1)) (set_row (min (c_row (s_cursor saved)) (t_rows t - 1)) ?t))"
    using inv_dims [OF assms] by (auto intro!: inv_place_cursor assms)
  then show ?thesis
    unfolding restore_cursor_def saved_def [symmetric] Let_def by (auto simp: set_row_modes intro!: inv_clamp)
qed

lemma inv_full_margins [term_intros]: "term_inv t \<Longrightarrow> term_inv (full_margins t)"
  using inv_dims [of t] by (simp add: full_margins_def term_inv_defs t_rows_def t_cols_def)

lemma full_margins_reads [simp]:
  "t_rows (full_margins t) = t_rows t" "t_cols (full_margins t) = t_cols t" "t_cursor (full_margins t) = t_cursor t"
  "t_modes (full_margins t) = t_modes t" "t_alt_active (full_margins t) = t_alt_active t"
  by (simp_all add: full_margins_def t_rows_def t_cols_def)

lemma inv_decaln [term_intros]: "term_inv t \<Longrightarrow> term_inv (decaln t)"
  using inv_dims [of t] unfolding decaln_def Let_def by (auto intro!: term_intros simp: t_rows_def [symmetric])

lemma length_default_tabs [simp]: "length (default_tabs cols) = cols"
  by (simp add: default_tabs_def)

lemma length_default_palette [simp]: "length default_palette = 256"
  by (simp add: default_palette_def)

lemma clear_grid_dims [simp]: "sc_rows (clear_grid style s) = sc_rows s" "sc_cols (clear_grid style s) = sc_cols s"
  by (simp_all add: clear_grid_def)

lemma inv_full_reset [term_intros]: "term_inv t \<Longrightarrow> term_inv (full_reset g t)"
  using inv_dims [of t]
  by (auto simp: full_reset_def touch_def term_inv_defs t_rows_def t_cols_def cursor_default_def clear_grid_wf)

lemma alt_fields [simp]: "t_alt_active (t\<lparr>t_cursor_style_raw := n\<rparr>) = t_alt_active t"
  by simp

lemma inv_kitty_stack [term_intros]:
  "(\<And>st. kitty_ok st \<Longrightarrow> kitty_ok (f st)) \<Longrightarrow> term_inv t \<Longrightarrow> term_inv (on_kitty_stack f t)"
  by (simp add: on_kitty_stack_def term_inv_defs t_rows_def t_cols_def)

lemma inv_style_raw [term_intros]: "term_inv t \<Longrightarrow> n \<le> 6 \<Longrightarrow> term_inv (t\<lparr>t_cursor_style_raw := n\<rparr>)"
  by (simp add: term_inv_defs t_rows_def t_cols_def)

lemma inv_soft_reset [term_intros]: "term_inv t \<Longrightarrow> term_inv (soft_reset t)"
  using inv_dims [of t] unfolding soft_reset_def Let_def by (auto intro!: term_intros)

lemma length_resize_tabs [simp]: "length (resize_tabs cols old) = cols"
  by (simp add: resize_tabs_def)

lemma inv_terminal_resize [term_intros]:
  assumes "term_inv t"
  shows "term_inv (terminal_resize rows0 cols0 t)"
proof -
  let ?rows = "max rows0 1" let ?cols = "max cols0 1" let ?here = "(c_row (t_cursor t), c_col (t_cursor t))"
  obtain p pr pc a ar ac where
    p: "screen_resize ?rows ?cols (if t_alt_active t then (0, 0) else ?here) True (t_primary t) = (p, pr, pc)" and
    a: "screen_resize ?rows ?cols (if t_alt_active t then ?here else (0, 0)) False (t_alt t) = (a, ar, ac)"
    by (metis prod_cases3)
  have wf: "wf_screen (t_primary t)" "wf_screen (t_alt t)" and here: "fst ?here < t_rows t" "snd ?here < t_cols t"
    and dims: "sc_rows (t_alt t) = t_rows t" "sc_cols (t_alt t) = t_cols t" "0 < t_rows t" "0 < t_cols t"
    using assms inv_dims [OF assms] by (auto simp: term_inv_defs t_rows_def t_cols_def)
  have P: "wf_screen p" "sc_rows p = ?rows" "sc_cols p = ?cols"
    using screen_resize_wf [OF wf(1) _ _ p] here dims by (auto simp: t_rows_def t_cols_def split: if_splits)
  have A: "wf_screen a" "sc_rows a = ?rows" "sc_cols a = ?cols"
    using screen_resize_wf [OF wf(2) _ _ a] here dims by (auto split: if_splits)
  define t' where "t' = touch ((no_wrap (set_col (min (if t_alt_active t then ac else pc) (?cols - 1))
      (set_row (min (if t_alt_active t then ar else pr) (?rows - 1)) (t\<lparr>t_primary := p, t_alt := a\<rparr>))))
      \<lparr>t_scroll_top := 0, t_scroll_bot := ?rows - 1, t_tabs := resize_tabs ?cols (t_tabs t)\<rparr>)"
  have eq: "terminal_resize rows0 cols0 t = (if ?rows = t_rows t \<and> ?cols = t_cols t then t else t')"
    unfolding terminal_resize_def Let_def p a t'_def by (simp split del: if_split cong: if_cong) (simp add: if_distrib)
  have "screens_ok t'" "colors_ok t'" "margins_ok t'" "keys_ok t'" "cursor_inside t'"
    using assms P A by (auto simp: t'_def term_inv_defs assign_defs t_rows_def t_cols_def)
  then show ?thesis using assms unfolding eq by (simp add: term_inv_def)
qed

lemma inv_home: "term_inv t \<Longrightarrow> term_inv (touch (no_wrap (set_col 0 (set_row 0 t))))"
  using inv_dims [of t] by (auto intro!: term_intros)

lemma inv_set_deccolm [term_intros]: "term_inv t \<Longrightarrow> term_inv (set_deccolm b t)"
  unfolding set_deccolm_def Let_def
  by (intro inv_if inv_home inv_full_margins inv_on_screen screen_op_basic inv_terminal_resize) simp_all

lemma inv_clear_alt [term_intros]: "term_inv t \<Longrightarrow> term_inv (clear_alt t)"
  by (simp add: clear_alt_def term_inv_defs t_rows_def t_cols_def clear_grid_wf)

lemma restore_dims [simp]: "t_rows (restore_cursor t) = t_rows t" "t_cols (restore_cursor t) = t_cols t"
  by (simp_all add: restore_cursor_def clamp_to_region_if_origin_def Let_def case_prod_unfold)

lemma save_dims [simp]: "t_rows (save_cursor t) = t_rows t" "t_cols (save_cursor t) = t_cols t"
  by (simp_all add: save_cursor_def Let_def)

lemma inv_set_alt_screen [term_intros]:
  assumes "term_inv t"
  shows "term_inv (set_alt_screen mode b t)"
proof -
  have "term_inv (set_row (min (c_row (t_cursor u)) (t_rows u - 1)) u)" if "term_inv u" for u :: "'a Terminal"
    using inv_dims [OF that] by (auto intro!: term_intros that)
  note clamp = this
  show ?thesis unfolding set_alt_screen_def Let_def inv_touch
    by (rule clamp, subst inv_no_wrap, intro inv_if) (simp_all add: assms term_intros)
qed

lemma inv_esc_dispatch [term_intros]: "term_inv t \<Longrightarrow> term_inv (esc_dispatch g is f t)"
  using inv_dims [of t] unfolding esc_dispatch_def esc_plain_def
  by (intro term_intros) (simp_all add: term_intros)

section \<open>Control sequences keep the invariant\<close>

lemma inv_moves [term_intros]:
  "term_inv t \<Longrightarrow> term_inv (cursor_up n t)" "term_inv t \<Longrightarrow> term_inv (cursor_down n t)"
  "term_inv t \<Longrightarrow> term_inv (cursor_right n t)" "term_inv t \<Longrightarrow> term_inv (cursor_left n t)"
  using inv_dims [of t] inv_region(1,2) [of t]
  by (auto simp: cursor_up_def cursor_down_def cursor_right_def cursor_left_def Let_def intro!: term_intros)

lemma inv_move_to [term_intros]: "term_inv t \<Longrightarrow> term_inv (move_to r c t)"
  using inv_dims [of t] inv_region(2) [of t]
  by (auto simp: move_to_def case_prod_unfold Let_def intro!: term_intros)

lemma inv_placements [term_intros]:
  "term_inv t \<Longrightarrow> term_inv (move_to_col n t)" "term_inv t \<Longrightarrow> term_inv (move_to_row n t)"
  "term_inv t \<Longrightarrow> term_inv (move_rows n t)" "term_inv t \<Longrightarrow> term_inv (clear_tabs n t)"
  using inv_dims [of t]
  by (auto simp: move_to_col_def move_to_row_def move_rows_def clear_tabs_def Let_def intro!: term_intros)
    (simp add: term_inv_defs t_rows_def t_cols_def)

lemma inv_margins: "term_inv t \<Longrightarrow> u \<le> l \<Longrightarrow> l < t_rows t \<Longrightarrow> term_inv (t\<lparr>t_scroll_top := u, t_scroll_bot := l\<rparr>)"
  by (simp add: term_inv_defs t_rows_def t_cols_def)

lemma inv_set_margins [term_intros]: "term_inv t \<Longrightarrow> term_inv (set_margins params t)"
  using inv_dims(1) [of t] unfolding set_margins_def Let_def by (auto intro!: inv_if inv_move_to inv_margins)

lemma screen_op_erase [term_intros]:
  "screen_op W (erase_cell style selective row col)" "screen_op W (erase_cells style selective row cs)"
  unfolding erase_cell_def [abs_def] erase_cells_def [abs_def] by (intro term_intros)+

lemma screen_op_erase_row [term_intros]: "screen_op W (erase_row W style selective r)"
proof (cases selective)
  case True
  then show ?thesis
    using screen_op_erase(2) [of W style True r "[0..<W]"] screen_op_basic(4) [of W False r]
    by (auto simp: erase_row_def [abs_def] screen_op_def)
next
  case False
  then show ?thesis by (auto simp: erase_row_def [abs_def] intro!: screen_op_row)
qed

lemma inv_erase_display [term_intros]:
  assumes "term_inv t"
  shows "term_inv (erase_display mode selective t)"
proof -
  have *: "screen_op (t_cols t) (fold (erase_row (t_cols t) style selective) rs)" for style rs
    by (intro term_intros)
  show ?thesis
    using assms unfolding erase_display_def Let_def
    by (auto intro!: inv_if inv_on_screen screen_op_compose [OF *] screen_op_compose [OF screen_op_erase(2)]
        screen_op_compose [OF screen_op_basic(4)] * screen_op_erase(2) screen_op_basic)
qed

lemma inv_erase_line [term_intros]: "term_inv t \<Longrightarrow> term_inv (erase_line mode selective t)"
  unfolding erase_line_def Let_def by (auto intro!: inv_if inv_on_screen screen_op_erase(2) screen_op_basic)

lemma inv_lines [term_intros]:
  "term_inv t \<Longrightarrow> term_inv (insert_lines n t)" "term_inv t \<Longrightarrow> term_inv (delete_lines n t)"
  using inv_dims [of t]
  by (auto simp: insert_lines_def delete_lines_def case_prod_unfold Let_def dims_simps intro!: term_intros)

lemma delete_char_length: "length (cells r) = W \<Longrightarrow> length (cells ((delete_char col style ^^ n) r)) = W"
  by (induction n) (auto simp: delete_char_def remove_at_def)

lemma inv_chars [term_intros]:
  "term_inv t \<Longrightarrow> term_inv (insert_chars n t)" "term_inv t \<Longrightarrow> term_inv (delete_chars n t)"
  "term_inv t \<Longrightarrow> term_inv (erase_chars n t)"
  using inv_dims(2) [of t]
  by (auto simp: insert_chars_def delete_chars_def erase_chars_def Let_def
      intro!: term_intros insert_blank_length delete_char_length)

lemma inv_repeat [term_intros]: "term_inv t \<Longrightarrow> term_inv (repeat n t)"
  unfolding repeat_def by (intro term_intros)

lemma inv_ansi_mode [term_intros]: "term_inv t \<Longrightarrow> term_inv (set_ansi_mode params b t)"
  unfolding set_ansi_mode_def inv_touch by (rule inv_fold) (auto simp: ansi_mode_def)

lemma inv_set_dec_mode [term_intros]: "term_inv t \<Longrightarrow> term_inv (set_dec_mode n b t)"
  unfolding set_dec_mode_def inv_touch Let_def mouse_mode_set_def mouse_protocol_set_def
  by (intro inv_if) (simp_all add: term_intros)

lemma inv_set_dec_modes [term_intros]: "term_inv t \<Longrightarrow> term_inv (set_dec_modes params b t)"
  unfolding set_dec_modes_def by (intro term_intros)

lemma inv_reports [term_intros]:
  "term_inv t \<Longrightarrow> term_inv (decrqm_dec n t)" "term_inv t \<Longrightarrow> term_inv (decrqm_ansi n t)"
  "term_inv t \<Longrightarrow> term_inv (window_ops params t)" "term_inv t \<Longrightarrow> term_inv (status_report n t)"
  "term_inv t \<Longrightarrow> term_inv (extended_cursor_report t)" "term_inv t \<Longrightarrow> term_inv (report_colors t)"
  by (simp_all add: decrqm_dec_def decrqm_ansi_def window_ops_def status_report_def extended_cursor_report_def report_colors_def Let_def)

lemma inv_color_stack [term_intros]:
  "term_inv t \<Longrightarrow> term_inv (push_colors t)" "term_inv t \<Longrightarrow> term_inv (pop_colors t)"
  by (auto simp: push_colors_def pop_colors_def term_inv_defs t_rows_def t_cols_def Let_def touch_def
      dest: in_set_butlastD list.set_sel(2) [rotated])

lemma inv_sgr [term_intros]: "term_inv t \<Longrightarrow> term_inv (sgr params t)"
  using inv_dims [of t] by (auto simp: sgr_def Let_def intro!: term_intros)

lemma inv_csi_plain [term_intros]: "term_inv t \<Longrightarrow> term_inv (csi_plain params f t)"
  using inv_dims(2) [of "cursor_up (arg_or params 0 1) t"] inv_dims(2) [of "cursor_down (arg_or params 0 1) t"]
  unfolding csi_plain_def Let_def by (intro inv_if) (simp_all add: term_intros)

lemma inv_csi_question [term_intros]: "term_inv t \<Longrightarrow> term_inv (csi_question params f t)"
  unfolding csi_question_def Let_def by (intro inv_if) (simp_all add: term_intros)

lemma inv_csi_prefixed [term_intros]: "term_inv t \<Longrightarrow> term_inv (csi_prefixed params pv f t)"
  unfolding csi_prefixed_def
  by (intro inv_if) (simp_all add: inv_kitty_stack kitty_push_ok kitty_pop_ok kitty_set_ok)

lemma inv_csi_intermediate [term_intros]: "term_inv t \<Longrightarrow> term_inv (csi_intermediate params pv i f t)"
  using inv_dims [of t] unfolding csi_intermediate_def by (intro inv_if) (simp_all add: term_intros)

lemma inv_terminal_csi_dispatch [term_intros]: "term_inv t \<Longrightarrow> term_inv (terminal_csi_dispatch params is pv f t)"
  unfolding terminal_csi_dispatch_def by (intro term_intros)

lemma inv_with_scrollback: "term_inv (with_scrollback g rows cols n)"
  by (auto simp: with_scrollback_def term_inv_defs t_rows_def t_cols_def Let_def cursor_default_def screen_new_wf)
    (simp_all add: screen_new_def)

end
