(* ===== verification/Dump.thy ===== *)
theory Dump
  imports Csi
begin

text \<open>
  \<open>crates/posh-term/src/dump.rs\<close>: the SGR parameter string that reproduces a style from a reset
  pen, which the dumps and the DECRQSS report emit. It is shown to be the rendering of a parameter
  list that sets exactly that style.
\<close>

section \<open>The parameter string\<close>

definition sgr_fg :: "Color \<Rightarrow> bytes" where
  "sgr_fg c =
     (case c of
        Default \<Rightarrow> []
      | Indexed i \<Rightarrow>
          if i < 8 then asc '';'' @ decimal (30 + unat i)
          else if i < 16 then asc '';'' @ decimal (90 + unat i - 8)
          else asc '';38;5;'' @ decimal (unat i)
      | Rgb r g b \<Rightarrow>
          asc '';38;2;'' @ decimal (unat r) @ asc '';'' @ decimal (unat g) @ asc '';'' @ decimal (unat b))"

definition sgr_bg :: "Color \<Rightarrow> bytes" where
  "sgr_bg c =
     (case c of
        Default \<Rightarrow> []
      | Indexed i \<Rightarrow>
          if i < 8 then asc '';'' @ decimal (40 + unat i)
          else if i < 16 then asc '';'' @ decimal (100 + unat i - 8)
          else asc '';48;5;'' @ decimal (unat i)
      | Rgb r g b \<Rightarrow>
          asc '';48;2;'' @ decimal (unat r) @ asc '';'' @ decimal (unat g) @ asc '';'' @ decimal (unat b))"

definition sgr_underline_color :: "Color \<Rightarrow> bytes" where
  "sgr_underline_color c =
     (case c of
        Default \<Rightarrow> []
      | Indexed i \<Rightarrow> asc '';58:5:'' @ decimal (unat i)
      | Rgb r g b \<Rightarrow>
          asc '';58:2:'' @ decimal (unat r) @ asc '':'' @ decimal (unat g) @ asc '':'' @ decimal (unat b))"

definition sgr_underline :: "UnderlineStyle \<Rightarrow> bytes" where
  "sgr_underline u =
     (case u of
        NoUnderline \<Rightarrow> [] | Single \<Rightarrow> asc '';4'' | Double \<Rightarrow> asc '';4:2'' | Curly \<Rightarrow> asc '';4:3''
      | Dotted \<Rightarrow> asc '';4:4'' | Dashed \<Rightarrow> asc '';4:5'')"

definition sgr_params :: "Style \<Rightarrow> bytes" where
  "sgr_params style =
     asc ''0''
     @ (if st_bold style then asc '';1'' else [])
     @ (if st_dim style then asc '';2'' else [])
     @ (if st_italic style then asc '';3'' else [])
     @ sgr_underline (st_underline style)
     @ (if st_blink style then asc '';5'' else [])
     @ (if st_inverse style then asc '';7'' else [])
     @ (if st_invisible style then asc '';8'' else [])
     @ (if st_strikethrough style then asc '';9'' else [])
     @ sgr_fg (st_fg style) @ sgr_bg (st_bg style) @ sgr_underline_color (st_underline_color style)"

section \<open>The string parses back to the style\<close>

text \<open>The same as parameters.\<close>

definition color_items :: "u16 \<Rightarrow> u16 \<Rightarrow> Color \<Rightarrow> u16 list list" where
  "color_items base bright c =
     (case c of
        Default \<Rightarrow> []
      | Indexed i \<Rightarrow>
          if i < 8 then [[base + ucast i]] else if i < 16 then [[bright + (ucast i - 8)]]
          else [[base + 8], [5], [ucast i]]
      | Rgb r g b \<Rightarrow> [[base + 8], [2], [ucast r], [ucast g], [ucast b]])"

definition underline_color_items :: "Color \<Rightarrow> u16 list list" where
  "underline_color_items c =
     (case c of Default \<Rightarrow> [] | Indexed i \<Rightarrow> [[58, 5, ucast i]] | Rgb r g b \<Rightarrow> [[58, 2, ucast r, ucast g, ucast b]])"

definition underline_items :: "UnderlineStyle \<Rightarrow> u16 list list" where
  "underline_items u =
     (case u of NoUnderline \<Rightarrow> [] | Single \<Rightarrow> [[4]] | Double \<Rightarrow> [[4, 2]] | Curly \<Rightarrow> [[4, 3]] | Dotted \<Rightarrow> [[4, 4]] | Dashed \<Rightarrow> [[4, 5]])"

definition flag_item :: "bool \<Rightarrow> u16 \<Rightarrow> u16 list list" where
  "flag_item b v = (if b then [[v]] else [])"

definition sgr_items :: "Style \<Rightarrow> u16 list list" where
  "sgr_items style =
     [0] # flag_item (st_bold style) 1 @ flag_item (st_dim style) 2 @ flag_item (st_italic style) 3
     @ underline_items (st_underline style) @ flag_item (st_blink style) 5 @ flag_item (st_inverse style) 7
     @ flag_item (st_invisible style) 8 @ flag_item (st_strikethrough style) 9
     @ color_items 30 90 (st_fg style) @ color_items 40 100 (st_bg style) @ underline_color_items (st_underline_color style)"

text \<open>Every parameter after the first is preceded by a semicolon.\<close>

definition tail_params :: "u16 list list \<Rightarrow> bytes" where
  "tail_params ps = concat (map (\<lambda>q. 59 # render_part q) ps)"

lemma render_params_Cons: "render_params (q # ps) = render_part q @ tail_params ps"
  by (induction ps arbitrary: q) (simp_all add: tail_params_def)

lemma tail_params_append [simp]: "tail_params (ps @ qs) = tail_params ps @ tail_params qs"
  by (simp add: tail_params_def)

lemma tail_params_Cons: "tail_params (q # ps) = 59 # render_part q @ tail_params ps" "tail_params [] = []"
  by (simp_all add: tail_params_def)

lemma decimal_digit: "n < 10 \<Longrightarrow> decimal n = [as_u8 (48 + n)]"
  by (subst decimal.simps) simp

lemma decimal_two: "10 \<le> n \<Longrightarrow> n < 100 \<Longrightarrow> decimal n = [as_u8 (48 + n div 10), as_u8 (48 + n mod 10)]"
  by (subst decimal.simps) (simp add: decimal_digit)

lemma unat_ucast_u8 [simp]: "unat (ucast (b :: u8) :: u16) = unat b"
  proof -
  have "unat b < 2 ^ 16" using unat_u8_le [of b] by simp
  then show ?thesis by (simp add: unsigned_ucast_eq take_bit_nat_eq_self)
qed

lemma unat_base_add:
  assumes "base + unat b < 65536"
  shows "unat (word_of_nat base + ucast (b :: u8) :: u16) = base + unat b"
  using assms by (simp add: unat_word_ariths unsigned_of_nat take_bit_nat_eq_self)

lemma asc_simps: "asc [] = []" "asc (c # cs) = of_char c # asc cs"
  by (simp_all add: asc_def)

lemmas render_simps = tail_params_Cons decimal_digit decimal_two asc_simps as_u8_def

lemma tail_flag: "tail_params (flag_item b v) = (if b then 59 # decimal (unat v) else [])"
  by (simp add: flag_item_def tail_params_Cons)

lemma tail_underline: "tail_params (underline_items u) = sgr_underline u"
  by (cases u) (simp_all add: underline_items_def sgr_underline_def render_simps)

lemma low_index: "(i :: u8) < 8 \<longleftrightarrow> unat i < 8" "(i :: u8) < 16 \<longleftrightarrow> unat i < 16"
  by (simp_all add: word_less_nat_alt)

lemma bright_index:
  assumes "\<not> i < 8" "(i :: u8) < 16" "base \<le> 1000"
  shows "unat (word_of_nat base + (ucast i - 8) :: u16) = base + unat i - 8"
proof -
  have i: "8 \<le> unat i" "unat i < 16" using assms by (auto simp: low_index)
  have "unat (ucast i - 8 :: u16) = unat i - 8" using i by (subst unat_sub) (auto simp: word_le_nat_alt)
  then show ?thesis using assms(3) i by (simp add: unat_word_ariths unsigned_of_nat take_bit_nat_eq_self)
qed

lemma tail_fg: "tail_params (color_items 30 90 c) = sgr_fg c"
  using bright_index [of _ 90] unat_base_add [of 30]
  by (cases c) (auto simp: color_items_def sgr_fg_def render_simps low_index)

lemma tail_bg: "tail_params (color_items 40 100 c) = sgr_bg c"
  using bright_index [of _ 100] unat_base_add [of 40]
  by (cases c) (auto simp: color_items_def sgr_bg_def render_simps low_index)

lemma tail_underline_color: "tail_params (underline_color_items c) = sgr_underline_color c"
  by (cases c) (simp_all add: underline_color_items_def sgr_underline_color_def render_simps)

lemma sgr_params_render: "sgr_params style = render_params (sgr_items style)"
  by (simp add: sgr_params_def sgr_items_def render_params_Cons tail_flag tail_fg tail_bg tail_underline
      tail_underline_color render_simps)

text \<open>What the loop makes of each group of parameters.\<close>

lemma loop_attr:
  assumes "first_arg p \<notin> {38, 48, 58}"
  shows "sgr_loop (p # rest) st = sgr_loop rest (sgr_attr p st)"
  using assms by (subst sgr_loop.simps(2)) (auto simp: sgr_step_def Let_def case_prod_unfold)

lemma clamp_ucast [simp]: "clamp_u8 (ucast b) = b"
  using unat_u8_le [of b] by (simp add: clamp_u8_def min_def)

lemma loop_flags:
  "sgr_loop (flag_item b 1 @ rest) st = sgr_loop rest (st\<lparr>st_bold := b \<or> st_bold st\<rparr>)"
  "sgr_loop (flag_item b 2 @ rest) st = sgr_loop rest (st\<lparr>st_dim := b \<or> st_dim st\<rparr>)"
  "sgr_loop (flag_item b 3 @ rest) st = sgr_loop rest (st\<lparr>st_italic := b \<or> st_italic st\<rparr>)"
  "sgr_loop (flag_item b 5 @ rest) st = sgr_loop rest (st\<lparr>st_blink := b \<or> st_blink st\<rparr>)"
  "sgr_loop (flag_item b 7 @ rest) st = sgr_loop rest (st\<lparr>st_inverse := b \<or> st_inverse st\<rparr>)"
  "sgr_loop (flag_item b 8 @ rest) st = sgr_loop rest (st\<lparr>st_invisible := b \<or> st_invisible st\<rparr>)"
  "sgr_loop (flag_item b 9 @ rest) st = sgr_loop rest (st\<lparr>st_strikethrough := b \<or> st_strikethrough st\<rparr>)"
  by (simp_all add: flag_item_def loop_attr first_arg_def sgr_attr_def)

lemma loop_underline:
  "sgr_loop (underline_items u @ rest) st = sgr_loop rest (st\<lparr>st_underline := if u = NoUnderline then st_underline st else u\<rparr>)"
  by (cases u) (simp_all add: underline_items_def loop_attr first_arg_def sgr_attr_def underline_arg_def)

lemma loop_fg:
  "sgr_loop (color_items 30 90 c @ rest) st = sgr_loop rest (st\<lparr>st_fg := if c = Default then st_fg st else c\<rparr>)"
proof (cases c)
  case (Indexed i)
  consider "i < 8" | "\<not> i < 8" "i < 16" | "\<not> i < 8" "\<not> i < 16" by blast
  then show ?thesis
    using bright_index [of i 90] unat_base_add [of 30 i]
    by cases (auto simp: Indexed color_items_def loop_attr first_arg_def sgr_attr_def low_index sgr_loop.simps(2) sgr_step_def
        extended_color_def color_arg_def color_get_def Let_def)
next
  case (Rgb r g b)
  then show ?thesis
    by (simp add: color_items_def sgr_loop.simps(2) sgr_step_def first_arg_def extended_color_def color_arg_def color_get_def Let_def)
qed (simp add: color_items_def)

lemma loop_bg:
  "sgr_loop (color_items 40 100 c @ rest) st = sgr_loop rest (st\<lparr>st_bg := if c = Default then st_bg st else c\<rparr>)"
proof (cases c)
  case (Indexed i)
  consider "i < 8" | "\<not> i < 8" "i < 16" | "\<not> i < 8" "\<not> i < 16" by blast
  then show ?thesis
    using bright_index [of i 100] unat_base_add [of 40 i]
    by cases (auto simp: Indexed color_items_def loop_attr first_arg_def sgr_attr_def low_index sgr_loop.simps(2) sgr_step_def
        extended_color_def color_arg_def color_get_def Let_def)
next
  case (Rgb r g b)
  then show ?thesis
    by (simp add: color_items_def sgr_loop.simps(2) sgr_step_def first_arg_def extended_color_def color_arg_def color_get_def Let_def)
qed (simp add: color_items_def)

lemma loop_underline_color:
  "sgr_loop (underline_color_items c @ rest) st =
   sgr_loop rest (st\<lparr>st_underline_color := if c = Default then st_underline_color st else c\<rparr>)"
  by (cases c) (simp_all add: underline_color_items_def sgr_loop.simps(2) sgr_step_def first_arg_def extended_color_def Let_def)

lemma sgr_loop_items: "sgr_loop (sgr_items style) st = style\<lparr>st_protected := False\<rparr>"
proof -
  have "sgr_loop (underline_color_items c) u = (u\<lparr>st_underline_color := if c = Default then st_underline_color u else c\<rparr>)" for c u
    using loop_underline_color [of c "[]" u] by simp
  then show ?thesis
    by (simp add: sgr_items_def loop_attr first_arg_def sgr_attr_def loop_flags loop_underline loop_fg loop_bg style_default_def)
qed

lemma sgr_items_ok: "params_ok (sgr_items style)" "sgr_items style \<noteq> []"
proof -
  have "length (flag_item b v) \<le> 1" "\<forall>q \<in> set (flag_item b v). length q = 1" for b v by (auto simp: flag_item_def)
  note f = this
  have "length (underline_items u) \<le> 1" "\<forall>q \<in> set (underline_items u). q \<noteq> [] \<and> length q \<le> 2" for u
    by (cases u; simp add: underline_items_def)+
  note u = this
  have "length (color_items x y c) \<le> 5" "\<forall>q \<in> set (color_items x y c). length q = 1" for x y c
    by (cases c; simp add: color_items_def)+
  note c = this
  have "length (underline_color_items c) \<le> 1" "\<forall>q \<in> set (underline_color_items c). q \<noteq> [] \<and> length q \<le> 5" for c
    by (cases c; simp add: underline_color_items_def)+
  note uc = this
  have "length (sgr_items style) \<le> 20"
    unfolding sgr_items_def by (simp add: algebra_simps)
      (use f(1) [of "st_bold style" 1] f(1) [of "st_dim style" 2] f(1) [of "st_italic style" 3] u(1) [of "st_underline style"]
         f(1) [of "st_blink style" 5] f(1) [of "st_inverse style" 7] f(1) [of "st_invisible style" 8]
         f(1) [of "st_strikethrough style" 9] c(1) [of 30 90 "st_fg style"] c(1) [of 40 100 "st_bg style"]
         uc(1) [of "st_underline_color style"] in linarith)
  moreover have "\<forall>q \<in> set (sgr_items style). q \<noteq> [] \<and> length q \<le> 5"
    unfolding sgr_items_def using f(2) u(2) c(2) uc(2) by (fastforce simp: le_Suc_eq)
  ultimately show "params_ok (sgr_items style)" by (auto simp: params_ok_def MAX_PARAMS_def MAX_SUBPARAMS_def)
qed (simp add: sgr_items_def)

text \<open>The pen after the sequence, on any terminal: the style, with the protection it had.\<close>

lemma sgr_of_items:
  "sgr (sgr_items style) t =
   touch (on_cursor (\<lambda>c. c\<lparr>c_style := style\<lparr>st_protected := st_protected (c_style (t_cursor t))\<rparr>\<rparr>) t)"
  using sgr_items_ok(2) [of style] by (simp add: sgr_def sgr_loop_items Let_def)

end
