(* ===== verification/Osc.thy ===== *)
theory Osc
  imports Dump Base64
begin

text \<open>
  \<open>crates/posh-term/src/osc.rs\<close> and \<open>dcs.rs\<close>: the string sequences. A string is its UTF-8 bytes.
  Slicing a string off a character boundary stops the program, so an operation that slices gives
  \<open>None\<close> in that case and \<open>Some\<close> of its result otherwise.
\<close>

section \<open>Text\<close>

text \<open>\<open>u16::from_str\<close> and \<open>from_str_radix\<close>: an optional plus sign, then digits.\<close>

definition digit_value :: "u8 \<Rightarrow> nat" where
  "digit_value b =
     (if 0x30 \<le> b \<and> b \<le> 0x39 then unat b - 48
      else if 0x61 \<le> b \<and> b \<le> 0x7A then unat b - 87
      else if 0x41 \<le> b \<and> b \<le> 0x5A then unat b - 55
      else 36)"

definition parse_radix :: "nat \<Rightarrow> nat \<Rightarrow> bytes \<Rightarrow> nat option" where
  "parse_radix radix bound s =
     (let ds = (if length s > 1 \<and> hd s = 0x2B then tl s else s);
          v = foldl (\<lambda>n b. radix * n + digit_value b) 0 ds
      in if ds \<noteq> [] \<and> list_all (\<lambda>b. digit_value b < radix) ds \<and> v < bound then Some v else None)"

definition strip_prefix :: "bytes \<Rightarrow> bytes \<Rightarrow> bytes option" where
  "strip_prefix p s = (if take (length p) s = p then Some (drop (length p) s) else None)"

definition char_boundary :: "bytes \<Rightarrow> nat \<Rightarrow> bool" where
  "char_boundary s i \<longleftrightarrow> i = length s \<or> i < length s \<and> \<not> is_cont (s ! i)"

text \<open>\<open>&s[a..b]\<close>.\<close>

definition str_slice :: "bytes \<Rightarrow> nat \<Rightarrow> nat \<Rightarrow> bytes option" where
  "str_slice s a b =
     (if a \<le> b \<and> char_boundary s a \<and> char_boundary s b then Some (take (b - a) (drop a s)) else None)"

text \<open>\<open>str::chars\<close>.\<close>

function utf8_chars :: "bytes \<Rightarrow> nat list" where
  "utf8_chars [] = []"
| "utf8_chars (b # rest) =
     (let (ok, n) = utf8_step b rest
      in (if ok then char_value (take n (b # rest)) else 0xFFFD) # utf8_chars (drop n (b # rest)))"
  by pat_completeness auto
termination
proof (relation "measure length")
  fix b rest x ok n assume "x = utf8_step b rest" "(ok, n) = x"
  then show "(drop n (b # rest), b # rest) \<in> measure length"
    using utf8_step_pos [of b rest] by (cases n) (auto dest: arg_cong [where f = snd])
qed simp

declare utf8_chars.simps(2) [simp del]

definition hex_nibble :: "bool \<Rightarrow> nat \<Rightarrow> u8" where
  "hex_nibble upper n = as_u8 (if n < 10 then 48 + n else if upper then 55 + n else 87 + n)"

text \<open>\<open>split_once(';').unwrap_or(("", rest))\<close>.\<close>

definition split_head :: "bytes \<Rightarrow> bytes \<times> bytes" where
  "split_head s = (case split_once 0x3B s of Some (a, b) \<Rightarrow> (a, b) | None \<Rightarrow> ([], s))"

section \<open>Colors\<close>

definition st_terminator :: "bool \<Rightarrow> bytes" where
  "st_terminator bel = (if bel then [0x07] else [0x1B, 0x5C])"

definition hex4 :: "nat \<Rightarrow> bytes" where
  "hex4 n = map (hex_nibble False) [n div 4096 mod 16, n div 256 mod 16, n div 16 mod 16, n mod 16]"

definition format_rgb16 :: "rgb \<Rightarrow> bytes" where
  "format_rgb16 c =
     (let (r, g, b) = c; up = (\<lambda>v :: u8. unat v * 257)
      in asc ''rgb:'' @ hex4 (up r) @ asc ''/'' @ hex4 (up g) @ asc ''/'' @ hex4 (up b))"

definition scale_channel :: "bytes \<Rightarrow> u8 option" where
  "scale_channel chan =
     (if chan = [] \<or> length chan > 4 then None
      else case parse_radix 16 (2 ^ 32) chan of
             None \<Rightarrow> None
           | Some v \<Rightarrow> let m = 16 ^ length chan - 1 in Some (as_u8 ((v * 255 + m div 2) div m)))"

definition rgb_spec :: "bytes \<Rightarrow> rgb option" where
  "rgb_spec rest =
     (case split_all 0x2F rest of
        [r, g, b] \<Rightarrow>
          (case (scale_channel r, scale_channel g, scale_channel b) of
             (Some r, Some g, Some b) \<Rightarrow> Some (r, g, b)
           | _ \<Rightarrow> None)
      | _ \<Rightarrow> None)"

text \<open>The numbers at the given offsets, each \<open>w\<close> digits wide; the outer \<open>None\<close> is the failed slice.\<close>

fun hash_numbers :: "bytes \<Rightarrow> nat \<Rightarrow> nat list \<Rightarrow> nat list option option" where
  "hash_numbers hex w [] = Some (Some [])"
| "hash_numbers hex w (i # is) =
     (case str_slice hex i (i + w) of
        None \<Rightarrow> None
      | Some digits \<Rightarrow>
          (case parse_radix 16 256 digits of
             None \<Rightarrow> Some None
           | Some v \<Rightarrow> map_option (map_option ((#) v)) (hash_numbers hex w is)))"

definition hash_spec :: "bytes \<Rightarrow> rgb option option" where
  "hash_spec hex =
     (let color = (\<lambda>k. map_option (map_option (\<lambda>vs. (as_u8 (k * vs ! 0), as_u8 (k * vs ! 1), as_u8 (k * vs ! 2)))))
      in if length hex = 3 then color 17 (hash_numbers hex 1 [0, 1, 2])
         else if length hex = 6 then color 1 (hash_numbers hex 2 [0, 2, 4])
         else Some None)"

definition parse_color_spec :: "bytes \<Rightarrow> rgb option option" where
  "parse_color_spec spec =
     (case strip_prefix (asc ''rgb:'') spec of
        Some rest \<Rightarrow> Some (rgb_spec rest)
      | None \<Rightarrow>
          (case strip_prefix (asc ''#'') spec of
             Some hex \<Rightarrow> hash_spec hex
           | None \<Rightarrow> Some None))"

fun osc_palette_loop :: "bool \<Rightarrow> bytes list \<Rightarrow> 'g Terminal \<Rightarrow> 'g Terminal option" where
  "osc_palette_loop bel (idx # spec # rest) t =
     (case parse_radix 10 65536 idx of
        None \<Rightarrow> osc_palette_loop bel rest t
      | Some i \<Rightarrow>
          if i \<ge> 256 then osc_palette_loop bel rest t
          else if spec = asc ''?''
          then osc_palette_loop bel rest
                 (respond (0x1B # asc '']4;'' @ decimal i @ asc '';'' @ format_rgb16 (t_palette t ! i) @ st_terminator bel) t)
          else case parse_color_spec spec of
                 None \<Rightarrow> None
               | Some None \<Rightarrow> osc_palette_loop bel rest t
               | Some (Some c) \<Rightarrow> osc_palette_loop bel rest (touch (t\<lparr>t_palette := (t_palette t)[i := c]\<rparr>)))"
| "osc_palette_loop bel _ t = Some t"

definition osc_palette :: "bytes \<Rightarrow> bool \<Rightarrow> 'g Terminal \<Rightarrow> 'g Terminal option" where
  "osc_palette rest bel = osc_palette_loop bel (split_all 0x3B rest)"

definition color_slot :: "nat \<Rightarrow> 'g Terminal \<Rightarrow> rgb option" where
  "color_slot code t = (if code = 10 then t_fg_color t else if code = 11 then t_bg_color t else t_cursor_color t)"

definition set_color_slot :: "nat \<Rightarrow> rgb option \<Rightarrow> 'g Terminal \<Rightarrow> 'g Terminal" where
  "set_color_slot code c t =
     (if code = 10 then t\<lparr>t_fg_color := c\<rparr> else if code = 11 then t\<lparr>t_bg_color := c\<rparr> else t\<lparr>t_cursor_color := c\<rparr>)"

definition osc_dynamic_color :: "nat \<Rightarrow> bytes \<Rightarrow> bool \<Rightarrow> 'g Terminal \<Rightarrow> 'g Terminal option" where
  "osc_dynamic_color code rest bel t =
     (if rest = asc ''?''
      then let c = (case color_slot code t of
                      Some c \<Rightarrow> c
                    | None \<Rightarrow> if code = 11 then (0, 0, 0) else (255, 255, 255))
           in Some (respond (0x1B # asc '']'' @ decimal code @ asc '';'' @ format_rgb16 c @ st_terminator bel) t)
      else case parse_color_spec rest of
             None \<Rightarrow> None
           | Some None \<Rightarrow> Some t
           | Some (Some c) \<Rightarrow> Some (touch (set_color_slot code (Some c) t)))"

definition reset_palette_entry :: "bytes \<Rightarrow> rgb list \<Rightarrow> rgb list" where
  "reset_palette_entry part palette =
     (case parse_radix 10 65536 part of
        Some i \<Rightarrow> if i < 256 then palette[i := default_palette_entry (word_of_nat i)] else palette
      | None \<Rightarrow> palette)"

definition reset_palette :: "bytes \<Rightarrow> 'g Terminal \<Rightarrow> 'g Terminal" where
  "reset_palette rest t =
     touch (t\<lparr>t_palette := (if rest = [] then default_palette
                            else fold reset_palette_entry (split_all 0x3B rest) (t_palette t))\<rparr>)"

section \<open>Working directory\<close>

function percent_loop :: "bytes \<Rightarrow> nat \<Rightarrow> bytes \<Rightarrow> bytes option" where
  "percent_loop s i out =
     (if i < length s
      then if s ! i = 0x25 \<and> i + 2 < length s
           then (case str_slice s (i + 1) (i + 3) of
                   None \<Rightarrow> None
                 | Some digits \<Rightarrow>
                     (case parse_radix 16 256 digits of
                        Some v \<Rightarrow> percent_loop s (i + 3) (out @ [as_u8 v])
                      | None \<Rightarrow> percent_loop s (i + 1) (out @ [s ! i])))
           else percent_loop s (i + 1) (out @ [s ! i])
      else Some out)"
  by pat_completeness auto
termination by (relation "measure (\<lambda>(s, i, _). length s - i)") auto

declare percent_loop.simps [simp del]

definition percent_decode :: "bytes \<Rightarrow> bytes option" where
  "percent_decode s = map_option from_utf8_lossy (percent_loop s 0 [])"

definition parse_file_uri :: "bytes \<Rightarrow> bytes option" where
  "parse_file_uri value =
     (case strip_prefix (asc ''file://'') value of
        None \<Rightarrow> Some value
      | Some rest \<Rightarrow>
          let path = dropWhile (\<lambda>b. b \<noteq> 0x2F) rest
          in percent_decode (if path = [] then asc ''/'' else path))"

section \<open>Hyperlinks, clipboard, text size and prompt marks\<close>

definition link_id :: "bytes \<Rightarrow> bytes" where
  "link_id params =
     (case List.find (\<lambda>x. x \<noteq> None) (map (strip_prefix (asc ''id='')) (split_all 0x3A params)) of
        Some (Some v) \<Rightarrow> v
      | _ \<Rightarrow> [])"

definition osc_hyperlink :: "bytes \<Rightarrow> 'g Terminal \<Rightarrow> 'g Terminal" where
  "osc_hyperlink rest t =
     (let (params, uri) = split_head rest; set_link = (\<lambda>k. on_cursor (\<lambda>c. c\<lparr>c_hyperlink := k\<rparr>))
      in if uri = [] then set_link 0 t
         else let link = \<lparr>h_id = link_id params, h_uri = uri\<rparr>
              in case List.find (\<lambda>(k, h). h = link) (t_hyperlinks t) of
                   Some (k, _) \<Rightarrow> set_link k t
                 | None \<Rightarrow>
                     let k = t_next_hyperlink t + 1
                     in set_link k (t\<lparr>t_next_hyperlink := k, t_hyperlinks := (k, link) # t_hyperlinks t\<rparr>))"

definition selection :: "u8 \<Rightarrow> 'g Terminal \<Rightarrow> bytes" where
  "selection kind t =
     (if kind = 0x70 then t_primary_selection t else if kind = 0x73 then t_select_selection t else t_clipboard t)"

definition set_selection :: "bytes \<Rightarrow> u8 \<Rightarrow> 'g Terminal \<Rightarrow> 'g Terminal" where
  "set_selection data kind t =
     (if kind = 0x70 then t\<lparr>t_primary_selection := data\<rparr>
      else if kind = 0x73 then t\<lparr>t_select_selection := data\<rparr>
      else t\<lparr>t_clipboard := data\<rparr>)"

definition osc_clipboard :: "bytes \<Rightarrow> bool \<Rightarrow> 'g Terminal \<Rightarrow> 'g Terminal" where
  "osc_clipboard rest bel t =
     (let (sel, payload) = split_head rest;
          named = filter (\<lambda>c. c = 0x63 \<or> c = 0x70 \<or> c = 0x73) sel;
          kinds = (if named = [] then [0x63] else named)
      in if payload = asc ''?''
         then respond (0x1B # asc '']52;'' @ [hd kinds] @ asc '';'' @ encode (selection (hd kinds) t) @ st_terminator bel) t
         else case decode payload of
                None \<Rightarrow> t
              | Some data \<Rightarrow>
                  touch ((fold (set_selection data) kinds t)
                           \<lparr>t_clipboard_seq := t_clipboard_seq t + 1, t_clipboard_kinds := kinds\<rparr>))"

definition size_width :: "bytes \<Rightarrow> nat option" where
  "size_width kv =
     (case split_once 0x3D kv of
        Some (k, v) \<Rightarrow> if k = asc ''w'' then parse_radix 10 65536 v else None
      | None \<Rightarrow> None)"

definition osc_text_size :: "bytes \<Rightarrow> 'g Terminal \<Rightarrow> 'g Terminal" where
  "osc_text_size rest t0 =
     (let (meta, text) = split_head rest; t = t0\<lparr>t_last_text_size := Some rest\<rparr>
      in if text = [] then t
         else let start = c_col (t_cursor t);
                  t1 = fold print (utf8_chars text) t;
                  advance_to = (\<lambda>w. no_wrap (set_col (min (sat_add16 start w) (t_cols t1 - 1)) t1))
              in touch (case List.find (\<lambda>x. x \<noteq> None) (map size_width (split_all 0x3A meta)) of
                          Some (Some w) \<Rightarrow> if w > 0 then advance_to w else t1
                        | _ \<Rightarrow> t1))"

definition prompt_mark :: "bytes \<Rightarrow> SemanticMark option" where
  "prompt_mark kind =
     (if kind = asc ''A'' then Some PromptStart
      else if kind = asc ''B'' then Some InputStart
      else if kind = asc ''C'' then Some OutputStart
      else if kind = asc ''D'' then Some CommandEnd
      else None)"

definition osc_prompt_mark :: "bytes \<Rightarrow> 'g Terminal \<Rightarrow> 'g Terminal" where
  "osc_prompt_mark rest t =
     (case prompt_mark (hd (split_all 0x3B rest)) of
        None \<Rightarrow> t
      | Some mark \<Rightarrow> touch (on_screen (row_update (c_row (t_cursor t)) (\<lambda>r. r\<lparr>row_mark := Some mark\<rparr>)) t))"

section \<open>OSC dispatch\<close>

definition osc_code :: "nat \<Rightarrow> bytes \<Rightarrow> bool \<Rightarrow> 'g Terminal \<Rightarrow> 'g Terminal option" where
  "osc_code code rest bel t =
     (if code = 0 then Some (touch (t\<lparr>t_title := rest, t_icon_title := rest\<rparr>))
      else if code = 1 then Some (touch (t\<lparr>t_icon_title := rest\<rparr>))
      else if code = 2 then Some (touch (t\<lparr>t_title := rest\<rparr>))
      else if code = 4 then osc_palette rest bel t
      else if code = 7 then map_option (\<lambda>path. touch (t\<lparr>t_pwd := path\<rparr>)) (parse_file_uri rest)
      else if code = 8 then Some (osc_hyperlink rest t)
      else if code = 9 then Some (touch (t\<lparr>t_last_notification := Some rest\<rparr>))
      else if code = 10 \<or> code = 11 \<or> code = 12 then osc_dynamic_color code rest bel t
      else if code = 22 then Some (t\<lparr>t_pointer_shape := rest\<rparr>)
      else if code = 52 then Some (osc_clipboard rest bel t)
      else if code = 66 then Some (osc_text_size rest t)
      else if code = 99
      then Some (touch (t\<lparr>t_last_notification :=
             Some (case split_once 0x3B rest of Some (_, body) \<Rightarrow> body | None \<Rightarrow> rest)\<rparr>))
      else if code = 104 then Some (reset_palette rest t)
      else if code = 110 then Some (t\<lparr>t_fg_color := None\<rparr>)
      else if code = 111 then Some (t\<lparr>t_bg_color := None\<rparr>)
      else if code = 112 then Some (t\<lparr>t_cursor_color := None\<rparr>)
      else if code = 133 then Some (osc_prompt_mark rest t)
      else Some t)"

definition osc_dispatch :: "bytes \<Rightarrow> bool \<Rightarrow> 'g Terminal \<Rightarrow> 'g Terminal option" where
  "osc_dispatch data bel t =
     (let s = from_utf8_lossy data;
          (code, rest) = (case split_once 0x3B s of Some (c, r) \<Rightarrow> (c, r) | None \<Rightarrow> (s, []))
      in case parse_radix 10 65536 code of None \<Rightarrow> Some t | Some code \<Rightarrow> osc_code code rest bel t)"

section \<open>Device control strings\<close>

definition decrqss :: "bytes \<Rightarrow> 'g Terminal \<Rightarrow> 'g Terminal" where
  "decrqss data t =
     (let resp = (if data = asc ''m'' then Some (sgr_params (c_style (t_cursor t)) @ asc ''m'')
                  else if data = asc '' q'' then Some (decimal (t_cursor_style_raw t) @ asc '' q'')
                  else if data = asc ''r''
                  then let (upper, lower) = region t
                       in Some (decimal (upper + 1) @ asc '';'' @ decimal (lower + 1) @ asc ''r'')
                  else None)
      in case resp of
           Some v \<Rightarrow> respond ([0x1B] @ asc ''P1$r'' @ v @ [0x1B, 0x5C]) t
         | None \<Rightarrow> respond ([0x1B] @ asc ''P0$r'' @ [0x1B, 0x5C]) t)"

definition hex_decode :: "bytes \<Rightarrow> bytes option option" where
  "hex_decode s =
     (if odd (length s) then Some None
      else map_option (\<lambda>r. case r of
                            Some vs \<Rightarrow> let out = map as_u8 vs in if utf8_valid out then Some out else None
                          | None \<Rightarrow> None)
             (hash_numbers s 2 (map (\<lambda>i. 2 * i) [0..<length s div 2])))"

definition hex_encode :: "bytes \<Rightarrow> bytes" where
  "hex_encode s = concat (map (\<lambda>b. [hex_nibble True (unat b div 16), hex_nibble True (unat b mod 16)]) s)"

definition capability :: "bytes \<Rightarrow> bytes option" where
  "capability name =
     (if name = asc ''colors'' \<or> name = asc ''Co'' then Some (asc ''256'')
      else if name = asc ''RGB'' \<or> name = asc ''Tc'' then Some []
      else None)"

definition gettcap_reply :: "bytes \<Rightarrow> bytes option \<Rightarrow> bytes" where
  "gettcap_reply name_hex decoded =
     (case decoded of
        None \<Rightarrow> [0x1B] @ asc ''P0+r'' @ name_hex @ [0x1B, 0x5C]
      | Some name \<Rightarrow>
          (case capability name of
             Some v \<Rightarrow>
               if v = [] then [0x1B] @ asc ''P1+r'' @ hex_encode name @ [0x1B, 0x5C]
               else [0x1B] @ asc ''P1+r'' @ hex_encode name @ asc ''='' @ hex_encode v @ [0x1B, 0x5C]
           | None \<Rightarrow> [0x1B] @ asc ''P0+r'' @ hex_encode name @ [0x1B, 0x5C]))"

fun xtgettcap_loop :: "bytes list \<Rightarrow> 'g Terminal \<Rightarrow> 'g Terminal option" where
  "xtgettcap_loop [] t = Some t"
| "xtgettcap_loop (name_hex # rest) t =
     (case hex_decode name_hex of
        None \<Rightarrow> None
      | Some decoded \<Rightarrow> xtgettcap_loop rest (respond (gettcap_reply name_hex decoded) t))"

definition xtgettcap :: "bytes \<Rightarrow> 'g Terminal \<Rightarrow> 'g Terminal option" where
  "xtgettcap data t = (if utf8_valid data then xtgettcap_loop (split_all 0x3B data) t else Some t)"

definition dcs_dispatch :: "bytes \<Rightarrow> u8 \<Rightarrow> bytes \<Rightarrow> 'g Terminal \<Rightarrow> 'g Terminal option" where
  "dcs_dispatch intermediates f data t =
     (if first_byte intermediates = Some 0x24 \<and> f = 0x71 then Some (decrqss data t)
      else if first_byte intermediates = Some 0x2B \<and> f = 0x71 then xtgettcap data t
      else Some t)"

end
