(* ===== verification/Process.thy ===== *)
theory Process
  imports Terminal_Inv Osc
begin

text \<open>
  The byte loop of \<open>crates/posh-term/src/terminal.rs\<close>: parser and dispatch composed. Kitty graphics is
  the argument \<open>gd\<close>, what its state and reply become for a command at a cursor position, and \<open>g0\<close>, its
  state after a reset. The result is \<open>None\<close> when an operation stops the program.
\<close>

section \<open>Dispatch and the byte loop\<close>

type_synonym 'g graphics_dispatch = "'g \<Rightarrow> bytes \<Rightarrow> nat \<times> nat \<Rightarrow> 'g \<times> bytes option \<times> (nat \<times> nat) option"

definition apc_dispatch :: "'g graphics_dispatch \<Rightarrow> bytes \<Rightarrow> 'g Terminal \<Rightarrow> 'g Terminal" where
  "apc_dispatch gd data t =
     (case data of
        [] \<Rightarrow> t
      | b # rest \<Rightarrow>
          if b \<noteq> 0x47 then t
          else let row = c_row (t_cursor t); col = c_col (t_cursor t);
                   (g, resp, advance) = gd (t_graphics t) rest (row, col);
                   t1 = t\<lparr>t_graphics := g\<rparr>;
                   t2 = (case resp of None \<Rightarrow> t1 | Some s \<Rightarrow> respond s t1)
               in touch (case advance of
                           None \<Rightarrow> t2
                         | Some (cols, rows) \<Rightarrow>
                             let down = min (rows - 1) 65535; right = min cols 65535
                             in no_wrap (set_col (min (sat_add16 col right) (t_cols t2 - 1))
                                   (set_row (min (sat_add16 row down) (t_rows t2 - 1)) t2))))"

fun dispatch :: "'g graphics_dispatch \<Rightarrow> 'g \<Rightarrow> Action \<Rightarrow> 'g Terminal \<Rightarrow> 'g Terminal option" where
  "dispatch gd g0 (Print c) t = Some (print c t)"
| "dispatch gd g0 (Execute b) t = Some (execute b t)"
| "dispatch gd g0 (Csi params intermediates private f) t = Some (terminal_csi_dispatch params intermediates private f t)"
| "dispatch gd g0 (Esc intermediates f) t = Some (esc_dispatch g0 intermediates f t)"
| "dispatch gd g0 (Osc data bel) t = osc_dispatch data bel t"
| "dispatch gd g0 (Dcs params intermediates f data) t = dcs_dispatch intermediates f data t"
| "dispatch gd g0 (Apc data) t = Some (apc_dispatch gd data t)"

fun dispatch_all :: "'g graphics_dispatch \<Rightarrow> 'g \<Rightarrow> Action list \<Rightarrow> 'g Terminal \<Rightarrow> 'g Terminal option" where
  "dispatch_all gd g0 [] t = Some t"
| "dispatch_all gd g0 (a # as) t = Option.bind (dispatch gd g0 a t) (dispatch_all gd g0 as)"

text \<open>The parser is taken out of the terminal for the loop and put back at its end.\<close>

fun process_loop :: "'g graphics_dispatch \<Rightarrow> 'g \<Rightarrow> bytes \<Rightarrow> Parser \<Rightarrow> 'g Terminal \<Rightarrow> 'g Terminal option" where
  "process_loop gd g0 [] p t = Some (t\<lparr>t_parser := p\<rparr>)"
| "process_loop gd g0 (b # bs) p t =
     (let (p', actions) = advance b p
      in Option.bind (dispatch_all gd g0 actions t) (process_loop gd g0 bs p'))"

definition process :: "'g graphics_dispatch \<Rightarrow> 'g \<Rightarrow> bytes \<Rightarrow> 'g Terminal \<Rightarrow> 'g Terminal option" where
  "process gd g0 bs t = process_loop gd g0 bs (t_parser t) (t\<lparr>t_parser := parser_new\<rparr>)"

section \<open>The loop in pieces\<close>

lemma dispatch_all_append: "dispatch_all gd g0 (as @ bs) t = Option.bind (dispatch_all gd g0 as t) (dispatch_all gd g0 bs)"
  by (induction "as" arbitrary: t) (auto intro!: Option.bind_cong)

lemma process_loop_parse:
  "process_loop gd g0 bs p t =
   map_option (\<lambda>t. t\<lparr>t_parser := fst (parse_bytes bs p)\<rparr>) (dispatch_all gd g0 (snd (parse_bytes bs p)) t)"
proof (induction bs arbitrary: p t)
  case (Cons b bs)
  then show ?case
    by (cases "dispatch_all gd g0 (snd (advance b p)) t") (auto simp: case_prod_unfold Let_def dispatch_all_append)
qed simp

text \<open>Parsing first and dispatching the actions after is the same.\<close>

lemma process_parse:
  assumes "parse_bytes bs (t_parser t) = (p, actions)"
  shows "process gd g0 bs t = map_option (\<lambda>t. t\<lparr>t_parser := p\<rparr>) (dispatch_all gd g0 actions (t\<lparr>t_parser := parser_new\<rparr>))"
  by (simp add: process_def process_loop_parse assms)

section \<open>String sequences keep the invariant\<close>

lemma inv_palette [term_intros]: "term_inv t \<Longrightarrow> length pal = 256 \<Longrightarrow> term_inv (t\<lparr>t_palette := pal\<rparr>)"
  by (simp add: term_inv_defs t_rows_def t_cols_def)

lemma palette_length: "term_inv t \<Longrightarrow> length (t_palette t) = 256"
  by (simp add: term_inv_defs)

lemma inv_palette_loop: "term_inv t \<Longrightarrow> osc_palette_loop bel parts t = Some t' \<Longrightarrow> term_inv t'"
  by (induction bel parts t arbitrary: t' rule: osc_palette_loop.induct)
    (auto split: option.splits if_splits simp: inv_palette palette_length)

lemma inv_dynamic_color: "term_inv t \<Longrightarrow> osc_dynamic_color code rest bel t = Some t' \<Longrightarrow> term_inv t'"
  by (auto simp: osc_dynamic_color_def set_color_slot_def Let_def split: option.splits if_splits)

lemma length_reset_entries: "length (fold reset_palette_entry parts pal) = length pal"
  by (induction parts arbitrary: pal) (auto simp: reset_palette_entry_def split: option.splits)

lemma inv_reset_palette [term_intros]: "term_inv t \<Longrightarrow> term_inv (reset_palette rest t)"
  by (auto simp: reset_palette_def length_reset_entries palette_length intro!: inv_palette)

lemma inv_set_link: "term_inv t \<Longrightarrow> term_inv (on_cursor (\<lambda>c. c\<lparr>c_hyperlink := k\<rparr>) t)"
  using inv_dims [of t] by (auto intro!: inv_on_cursor)

lemma inv_hyperlink [term_intros]: "term_inv t \<Longrightarrow> term_inv (osc_hyperlink rest t)"
  unfolding osc_hyperlink_def Let_def case_prod_unfold
  by (auto split: option.splits intro!: inv_if inv_set_link)

lemma inv_clipboard [term_intros]: "term_inv t \<Longrightarrow> term_inv (osc_clipboard rest bel t)"
proof -
  assume t: "term_inv t"
  have one: "term_inv (set_selection data k u)" if "term_inv u" for data k and u :: "'a Terminal"
    using that by (simp add: set_selection_def)
  have "term_inv (fold (set_selection data) kinds t)" for data kinds by (rule inv_fold [OF one t])
  then show ?thesis using t one by (auto simp: osc_clipboard_def Let_def case_prod_unfold split: option.splits)
qed

lemma inv_text_size [term_intros]:
  assumes "term_inv t"
  shows "term_inv (osc_text_size rest t)"
proof -
  let ?t = "fold print (utf8_chars (snd (split_head rest))) (t\<lparr>t_last_text_size := Some rest\<rparr>)"
  have t: "term_inv ?t" by (rule inv_fold [OF inv_print]) (simp_all add: assms)
  show ?thesis
    using t inv_dims(2) [OF t] assms
    by (auto simp: osc_text_size_def Let_def case_prod_unfold split: option.splits intro!: inv_set_col)
qed

lemma inv_prompt_mark [term_intros]: "term_inv t \<Longrightarrow> term_inv (osc_prompt_mark rest t)"
  by (auto simp: osc_prompt_mark_def split: option.splits intro!: term_intros)

lemma inv_osc_dispatch: "term_inv t \<Longrightarrow> osc_dispatch data bel t = Some t' \<Longrightarrow> term_inv t'"
  by (auto simp: osc_dispatch_def osc_code_def osc_palette_def Let_def term_intros
      dest: inv_palette_loop inv_dynamic_color split: option.splits prod.splits if_splits)

lemma inv_xtgettcap: "term_inv t \<Longrightarrow> xtgettcap_loop names t = Some t' \<Longrightarrow> term_inv t'"
  by (induction names t arbitrary: t' rule: xtgettcap_loop.induct) (auto split: option.splits)

lemma inv_dcs_dispatch: "term_inv t \<Longrightarrow> dcs_dispatch is f data t = Some t' \<Longrightarrow> term_inv t'"
  by (auto simp: dcs_dispatch_def xtgettcap_def decrqss_def Let_def case_prod_unfold dest: inv_xtgettcap split: if_splits option.splits)

lemma inv_apc_dispatch: "term_inv t \<Longrightarrow> term_inv (apc_dispatch gd data t)"
  using inv_dims [of t]
  by (auto simp: apc_dispatch_def Let_def case_prod_unfold t_rows_def t_cols_def split: list.splits option.splits
      intro!: inv_set_col inv_set_row)

section \<open>The invariant of the byte loop\<close>

definition session_inv :: "'g Terminal \<Rightarrow> bool" where
  "session_inv t \<longleftrightarrow> term_inv t \<and> parser_inv (t_parser t)"

lemma inv_dispatch: "term_inv t \<Longrightarrow> dispatch gd g0 a t = Some t' \<Longrightarrow> term_inv t'"
  by (cases a) (auto intro: term_intros inv_apc_dispatch inv_osc_dispatch inv_dcs_dispatch)

lemma inv_dispatch_all: "term_inv t \<Longrightarrow> dispatch_all gd g0 as t = Some t' \<Longrightarrow> term_inv t'"
  by (induction gd g0 "as" t rule: dispatch_all.induct) (auto simp: bind_eq_Some_conv dest: inv_dispatch)


lemma parse_actions_inv: "parser_inv p \<Longrightarrow> parser_inv (fst (parse_bytes bs p))"
  using parse_bytes_good [of p bs] by (simp add: good_def)

lemma inv_process:
  assumes "session_inv t" "process gd g0 bs t = Some t'"
  shows "session_inv t'"
proof -
  obtain p actions where p: "parse_bytes bs (t_parser t) = (p, actions)" by fastforce
  then obtain z where z: "dispatch_all gd g0 actions (t\<lparr>t_parser := parser_new\<rparr>) = Some z" "t' = z\<lparr>t_parser := p\<rparr>"
    using assms(2) by (auto simp: process_parse [OF p])
  have "term_inv (t\<lparr>t_parser := parser_new\<rparr>)" using assms(1) by (simp add: session_inv_def)
  from inv_dispatch_all [OF this z(1)] show ?thesis
    using assms(1) parse_actions_inv [of "t_parser t" bs] by (simp add: session_inv_def z(2) p)
qed

lemma session_inv_new: "session_inv (with_scrollback g rows cols n)"
proof -
  have "t_parser (with_scrollback g rows cols n) = parser_new" by (simp add: with_scrollback_def Let_def)
  then show ?thesis using inv_with_scrollback [of g rows cols n] inv_new by (simp add: session_inv_def)
qed

section \<open>ASCII input never stops the program\<close>

definition ascii :: "bytes \<Rightarrow> bool" where
  "ascii bs \<longleftrightarrow> (\<forall>b \<in> set bs. b < 0x80)"

fun action_ascii :: "Action \<Rightarrow> bool" where
  "action_ascii (Osc data bel) \<longleftrightarrow> ascii data"
| "action_ascii (Dcs ps is f data) \<longleftrightarrow> ascii data"
| "action_ascii _ \<longleftrightarrow> True"

text \<open>Outputs of the parser whose buffered and dispatched strings are ASCII.\<close>

definition clean :: "Parser \<times> Action list \<Rightarrow> bool" where
  "clean r \<longleftrightarrow> ascii (ps_string_buf (fst r)) \<and> list_all action_ascii (snd r)"

lemma clean_pair [simp]: "clean (p, out) \<longleftrightarrow> ascii (ps_string_buf p) \<and> list_all action_ascii out"
  by (simp add: clean_def)

lemma ascii_simps [simp]: "ascii []" "ascii (b # bs) \<longleftrightarrow> b < 0x80 \<and> ascii bs" "ascii (as @ bs) \<longleftrightarrow> ascii as \<and> ascii bs"
  by (auto simp: ascii_def)

lemma buf_simps [simp]:
  "ps_string_buf (goto x p) = ps_string_buf p" "ps_string_buf (clear p) = ps_string_buf p"
  "ps_string_buf (start_string x p) = []" "ps_string_buf (utf8_reset p) = ps_string_buf p"
  "ps_string_buf (utf8_lead b n p) = ps_string_buf p" "ps_string_buf (push_intermediate b p) = ps_string_buf p"
  "ps_string_buf (param_digit b p) = ps_string_buf p" "ps_string_buf (param_colon p) = ps_string_buf p"
  "ps_string_buf (param_semicolon p) = ps_string_buf p" "ps_string_buf (fst (take_params p)) = ps_string_buf p"
  by (simp_all add: goto_def clear_def start_string_def utf8_reset_def utf8_lead_def push_intermediate_def param_digit_def
      param_colon_def param_semicolon_def take_params_def Let_def)


lemma clean_c1 [simp]: "ascii (ps_string_buf p) \<Longrightarrow> clean (c1 b p)"
  by (auto simp: c1_def)

lemma clean_ground_fresh [simp]: "ascii (ps_string_buf p) \<Longrightarrow> clean (ground_fresh b p)"
  by (auto simp: ground_fresh_def)

lemma clean_ground: "ascii (ps_string_buf p) \<Longrightarrow> clean (ground b p)"
  using clean_ground_fresh [of "utf8_reset p" b] clean_ground_fresh [of p b] by (auto simp: ground_def Let_def case_prod_unfold clean_def)

lemma clean_unless:
  "ascii (ps_string_buf p) \<Longrightarrow> clean (h b p) \<Longrightarrow> clean (unless_anywhere h b p)"
  by (auto simp: unless_anywhere_def anywhere_def)

lemma clean_csi_dispatch [simp]: "ascii (ps_string_buf p) \<Longrightarrow> clean (csi_dispatch b p)"
  using buf_simps(10) [of p] by (auto simp: csi_dispatch_def Let_def case_prod_unfold clean_def)

lemma clean_fresh:
  assumes "ascii (ps_string_buf p)"
  shows "clean (escape_fresh b p)" "clean (escape_intermediate_fresh b p)" "clean (csi_entry_fresh b p)"
    "clean (csi_param_fresh b p)" "clean (csi_intermediate_fresh b p)" "clean (csi_ignore_fresh b p)"
    "clean (dcs_entry_fresh b p)" "clean (dcs_param_fresh b p)" "clean (dcs_intermediate_fresh b p)"
    "clean (sos_pm b p)" "clean (dcs_ignore b p)"
  using assms
  by (auto simp: escape_fresh_def escape_intermediate_fresh_def csi_entry_fresh_def csi_param_fresh_def
      csi_intermediate_fresh_def csi_ignore_fresh_def dcs_entry_fresh_def dcs_param_fresh_def
      dcs_intermediate_fresh_def sos_pm_def dcs_ignore_def dcs_hook_def)

lemma clean_strings:
  assumes "ascii (ps_string_buf p)" "b < 0x80"
  shows "clean (osc_string b p)" "clean (apc_string b p)" "clean (dcs_passthrough b p)"
  using assms buf_simps(10) [of "p\<lparr>ps_string_buf := []\<rparr>"]
  by (auto simp: osc_string_def apc_string_def dcs_passthrough_def finish_osc_def push_string_byte_def dcs_unhook_def
      Let_def case_prod_unfold)

lemma clean_advance: "ascii (ps_string_buf p) \<Longrightarrow> b < 0x80 \<Longrightarrow> clean (advance b p)"
  unfolding advance_def
  by (cases "ps_state p") (simp_all add: clean_ground clean_unless clean_fresh clean_strings)

lemma clean_parse: "ascii (ps_string_buf p) \<Longrightarrow> ascii bs \<Longrightarrow> clean (parse_bytes bs p)"
proof (induction bs arbitrary: p)
  case (Cons b bs)
  then have "clean (advance b p)" by (simp add: clean_advance)
  then show ?case using Cons by (auto simp: clean_def case_prod_unfold Let_def)
qed simp

text \<open>The string operations on ASCII text slice at boundaries only.\<close>

definition safe :: "'a option \<Rightarrow> bool" where
  "safe r \<longleftrightarrow> r \<noteq> None"

lemma safe_simps [simp]: "safe (Some x)" "\<not> safe None" "safe (map_option f r) = safe r"
  by (simp_all add: safe_def)

lemma safe_case:
  "safe r \<Longrightarrow> (\<And>x. r = Some x \<Longrightarrow> safe (f x)) \<Longrightarrow> safe (case r of None \<Rightarrow> n | Some x \<Rightarrow> f x)"
  by (cases r) auto

lemma safe_either:
  "safe n \<Longrightarrow> (\<And>x. r = Some x \<Longrightarrow> safe (f x)) \<Longrightarrow> safe (case r of None \<Rightarrow> n | Some x \<Rightarrow> f x)"
  by (cases r) auto

lemma safe_bind: "safe r \<Longrightarrow> (\<And>x. r = Some x \<Longrightarrow> safe (f x)) \<Longrightarrow> safe (Option.bind r f)"
  by (cases r) auto

lemma safe_if: "(b \<Longrightarrow> safe x) \<Longrightarrow> (\<not> b \<Longrightarrow> safe y) \<Longrightarrow> safe (if b then x else y)"
  by simp

lemma safeE: "safe r \<Longrightarrow> (\<And>x. r = Some x \<Longrightarrow> P) \<Longrightarrow> P"
  by (auto simp: safe_def)

lemma ascii_byte: "ascii s \<Longrightarrow> i < length s \<Longrightarrow> \<not> is_cont (s ! i)"
  by (auto simp: ascii_def is_cont_def dest!: bspec [OF _ nth_mem])

lemma ascii_slice: "ascii s \<Longrightarrow> a \<le> b \<Longrightarrow> b \<le> length s \<Longrightarrow> safe (str_slice s a b)"
  using ascii_byte [of s a] ascii_byte [of s b] by (auto simp: str_slice_def char_boundary_def)

lemma ascii_hash: "ascii hex \<Longrightarrow> \<forall>i \<in> set is. i + w \<le> length hex \<Longrightarrow> safe (hash_numbers hex w is)"
proof (induction "is")
  case (Cons i "is")
  then have "safe (str_slice hex i (i + w))" by (auto intro: ascii_slice)
  then show ?case using Cons by (auto elim!: safeE split: option.split)
qed simp

lemma ascii_hash_spec: "ascii hex \<Longrightarrow> safe (hash_spec hex)"
  unfolding hash_spec_def Let_def by (intro safe_if) (simp_all add: ascii_hash del: hash_numbers.simps)

lemma ascii_drop: "ascii s \<Longrightarrow> ascii (drop n s)"
  by (auto simp: ascii_def dest: in_set_dropD)

lemma ascii_dropWhile: "ascii s \<Longrightarrow> ascii (dropWhile P s)"
  by (auto simp: ascii_def dest: set_dropWhileD)

lemma ascii_strip: "ascii s \<Longrightarrow> strip_prefix p s = Some r \<Longrightarrow> ascii r"
  by (auto simp: strip_prefix_def ascii_drop split: if_splits)

lemma ascii_color: "ascii spec \<Longrightarrow> safe (parse_color_spec spec)"
  unfolding parse_color_spec_def by (intro safe_either safe_case) (auto intro: ascii_hash_spec ascii_strip)

lemma ascii_palette: "\<forall>p \<in> set parts. ascii p \<Longrightarrow> safe (osc_palette_loop bel parts t)"
proof (induction bel parts t rule: osc_palette_loop.induct)
  case (1 bel idx spec rest t)
  from "1.prems" have "safe (parse_color_spec spec)" by (auto intro: ascii_color)
  then show ?case using 1 by (auto elim!: safeE split: option.split)
qed simp_all

lemma ascii_percent: "ascii s \<Longrightarrow> safe (percent_loop s i out)"
proof (induction s i out rule: percent_loop.induct)
  case (1 s i out)
  show ?case
  proof (cases "i + 2 < length s")
    case True
    then have "safe (str_slice s (i + 1) (i + 3))" using "1.prems" by (auto intro: ascii_slice)
    then show ?thesis using 1 True by (subst percent_loop.simps) (auto elim!: safeE split: option.split)
  next
    case False
    then show ?thesis using 1 by (subst percent_loop.simps) auto
  qed
qed

lemma ascii_uri: "ascii value \<Longrightarrow> safe (parse_file_uri value)"
  unfolding parse_file_uri_def Let_def percent_decode_def
  by (rule safe_either) (auto intro!: ascii_percent intro: ascii_dropWhile ascii_strip simp: asc_def)

lemma ascii_split: "ascii s \<Longrightarrow> \<forall>p \<in> set (split_all c s). ascii p"
  using split_all_set [of _ c s] by (fastforce simp: ascii_def)

lemma ascii_xtgettcap: "\<forall>p \<in> set names. ascii p \<Longrightarrow> safe (xtgettcap_loop names t)"
proof (induction names t rule: xtgettcap_loop.induct)
  case (2 name rest t)
  have "safe (hash_numbers name 2 (map (\<lambda>i. 2 * i) [0..<length name div 2]))"
    by (rule ascii_hash) (use 2 in auto)
  then have "safe (hex_decode name)" by (simp add: hex_decode_def)
  then show ?case using 2 by (auto intro: safe_case)
qed simp

lemma ascii_osc_code: "ascii rest \<Longrightarrow> safe (osc_code code rest bel t)"
  using ascii_color [of rest]
  unfolding osc_code_def osc_palette_def osc_dynamic_color_def Let_def
  by (intro safe_if) (auto intro!: ascii_palette ascii_split ascii_uri elim!: safeE split: option.split)

lemma ascii_osc: "ascii data \<Longrightarrow> safe (osc_dispatch data bel t)"
proof -
  assume a: "ascii data"
  then have s: "from_utf8_lossy data = data" by (auto simp: ascii_def intro!: lossy_valid ascii_valid)
  have "ascii r" if "split_once 59 data = Some (c, r)" for c r
    using a split_once_set [OF that] by (auto simp: ascii_def)
  then show ?thesis
    unfolding osc_dispatch_def Let_def s by (auto intro!: safe_either ascii_osc_code split: option.splits)
qed

lemma ascii_dispatch: "action_ascii a \<Longrightarrow> safe (dispatch gd g0 a t)"
  using ascii_xtgettcap [OF ascii_split] by (cases a) (auto simp: dcs_dispatch_def xtgettcap_def intro: ascii_osc)

lemma ascii_dispatch_all: "list_all action_ascii as \<Longrightarrow> safe (dispatch_all gd g0 as t)"
  by (induction "as" arbitrary: t) (auto intro!: safe_bind ascii_dispatch)

lemma ascii_process:
  assumes "ascii (ps_string_buf (t_parser t))" "ascii bs"
  shows "process gd g0 bs t \<noteq> None"
proof -
  obtain p actions where p: "parse_bytes bs (t_parser t) = (p, actions)" by fastforce
  then have "list_all action_ascii actions" using clean_parse [OF assms] by (simp add: clean_def)
  from ascii_dispatch_all [OF this, of gd g0 "t\<lparr>t_parser := parser_new\<rparr>"]
  show ?thesis by (simp add: process_parse [OF p] safe_def)
qed

section \<open>Chunks of input\<close>

text \<open>No operation touches the parser field.\<close>

named_theorems frame "the parser field after an operation is the one before"

lemma parser_if [frame]:
  "(b \<Longrightarrow> t_parser x = p) \<Longrightarrow> (\<not> b \<Longrightarrow> t_parser y = p) \<Longrightarrow> t_parser (if b then x else y) = p"
  by simp

lemma parser_option [frame]:
  "(v = None \<Longrightarrow> t_parser x = p) \<Longrightarrow> (\<And>a. v = Some a \<Longrightarrow> t_parser (f a) = p) \<Longrightarrow>
   t_parser (case v of None \<Rightarrow> x | Some a \<Rightarrow> f a) = p"
  by (cases v) auto

lemma parser_fold [frame]:
  "(\<And>x u. t_parser u = p \<Longrightarrow> t_parser (f x u) = p) \<Longrightarrow> t_parser t = p \<Longrightarrow> t_parser (fold f xs t) = p"
  by (induction xs arbitrary: t) auto

lemma parser_pow [frame]:
  fixes f :: "'g Terminal \<Rightarrow> 'g Terminal"
  shows "(\<And>u. t_parser u = p \<Longrightarrow> t_parser (f u) = p) \<Longrightarrow> t_parser t = p \<Longrightarrow> t_parser ((f ^^ n) t) = p"
  by (induction n) auto

lemma parser_assign [THEN trans, frame]:
  "t_parser (touch t) = t_parser t" "t_parser (respond s t) = t_parser t" "t_parser (on_cursor f t) = t_parser t"
  "t_parser (on_modes m t) = t_parser t" "t_parser (no_wrap t) = t_parser t" "t_parser (set_col n t) = t_parser t"
  "t_parser (set_row n t) = t_parser t" "t_parser (on_screen g t) = t_parser t" "t_parser (full_margins t) = t_parser t"
  "t_parser (on_kitty_stack h t) = t_parser t" "t_parser (set_tab b t) = t_parser t"
  by (simp_all add: assign_defs on_screen_def full_margins_def on_kitty_stack_def set_tab_def Let_def)

lemma parser_fields [THEN trans, frame]:
  "t_parser (t\<lparr>t_primary := x1\<rparr>) = t_parser t" "t_parser (t\<lparr>t_alt := x2\<rparr>) = t_parser t"
  "t_parser (t\<lparr>t_alt_active := x3\<rparr>) = t_parser t" "t_parser (t\<lparr>t_cursor := x4\<rparr>) = t_parser t"
  "t_parser (t\<lparr>t_saved_primary := x5\<rparr>) = t_parser t" "t_parser (t\<lparr>t_saved_alt := x5\<rparr>) = t_parser t"
  "t_parser (t\<lparr>t_scroll_top := x6\<rparr>) = t_parser t" "t_parser (t\<lparr>t_scroll_bot := x6\<rparr>) = t_parser t"
  "t_parser (t\<lparr>t_tabs := x7\<rparr>) = t_parser t" "t_parser (t\<lparr>t_bell_count := x8\<rparr>) = t_parser t"
  "t_parser (t\<lparr>t_palette := x9\<rparr>) = t_parser t" "t_parser (t\<lparr>t_color_stack := y1\<rparr>) = t_parser t"
  "t_parser (t\<lparr>t_cursor_style_raw := x6\<rparr>) = t_parser t" "t_parser (t\<lparr>t_last_printed := y2\<rparr>) = t_parser t"
  "t_parser (t\<lparr>t_screen_switch := y3\<rparr>) = t_parser t" "t_parser (t\<lparr>t_fg_color := y4\<rparr>) = t_parser t"
  "t_parser (t\<lparr>t_bg_color := y4\<rparr>) = t_parser t" "t_parser (t\<lparr>t_cursor_color := y4\<rparr>) = t_parser t"
  "t_parser (t\<lparr>t_clipboard := y5\<rparr>) = t_parser t" "t_parser (t\<lparr>t_primary_selection := y5\<rparr>) = t_parser t"
  "t_parser (t\<lparr>t_select_selection := y5\<rparr>) = t_parser t" "t_parser (t\<lparr>t_clipboard_seq := x8\<rparr>) = t_parser t"
  "t_parser (t\<lparr>t_clipboard_kinds := y5\<rparr>) = t_parser t" "t_parser (t\<lparr>t_last_text_size := y6\<rparr>) = t_parser t"
  "t_parser (t\<lparr>t_hyperlinks := y7\<rparr>) = t_parser t" "t_parser (t\<lparr>t_next_hyperlink := x6\<rparr>) = t_parser t"
  "t_parser (t\<lparr>t_graphics := y8\<rparr>) = t_parser t" "t_parser (t\<lparr>t_kitty_primary := y9\<rparr>) = t_parser t"
  "t_parser (t\<lparr>t_kitty_alt := y9\<rparr>) = t_parser t" "t_parser (t\<lparr>t_modes := z1\<rparr>) = t_parser t"
  by simp_all

lemmas unfold_lets = Let_def case_prod_unfold

lemma parser_ops [THEN trans, frame]:
  "t_parser (scroll_up_n n t) = t_parser t" "t_parser (scroll_down_n n t) = t_parser t"
  "t_parser (horizontal_tab t) = t_parser t" "t_parser (back_tab t) = t_parser t"
  unfolding scroll_up_n_def scroll_down_n_def horizontal_tab_def back_tab_def unfold_lets by (intro frame refl)+

lemma parser_index [THEN trans, frame]: "t_parser (index t) = t_parser t" "t_parser (reverse_index t) = t_parser t"
  unfolding index_def reverse_index_def unfold_lets by (intro frame refl)+

lemma parser_linefeed [THEN trans, frame]: "t_parser (linefeed t) = t_parser t"
  unfolding linefeed_def unfold_lets by (intro frame refl)

lemma parser_execute [THEN trans, frame]: "t_parser (execute b t) = t_parser t"
  unfolding execute_def by (intro frame refl)

lemma parser_repair [THEN trans, frame]:
  "t_parser (repair_wide_halves row t) = t_parser t" "t_parser (clean_wide row col w t) = t_parser t" "t_parser (combine c t) = t_parser t"
  unfolding repair_wide_halves_def clean_wide_def combine_def unfold_lets by (intro frame refl)+

lemma parser_print_parts [THEN trans, frame]:
  "t_parser (print_wrap t) = t_parser t" "t_parser (print_insert w t) = t_parser t" "t_parser (print_advance w t) = t_parser t"
  unfolding print_wrap_def print_insert_def print_advance_def unfold_lets by (intro frame refl)+

lemma parser_print_place [THEN trans, frame]: "t_parser (print_place c w t) = t_parser t"
  unfolding print_place_def unfold_lets by (intro frame refl)

lemma parser_print_edge: "print_edge w t = Some t' \<Longrightarrow> t_parser t = p \<Longrightarrow> t_parser t' = p"
  by (auto simp: print_edge_def Let_def split: if_splits intro!: frame)

lemma parser_print [THEN trans, frame]: "t_parser (print c t) = t_parser t"
  unfolding print_def unfold_lets
  by (intro parser_if parser_option frame) (auto intro!: frame elim!: parser_print_edge)

lemma parser_saved [THEN trans, frame]:
  "t_parser (save_cursor t) = t_parser t" "t_parser (clamp_to_region_if_origin t) = t_parser t"
  unfolding save_cursor_def clamp_to_region_if_origin_def unfold_lets by (intro frame refl)+

lemma parser_restore [THEN trans, frame]: "t_parser (restore_cursor t) = t_parser t"
  unfolding restore_cursor_def unfold_lets by (intro frame refl)

lemma parser_resets [THEN trans, frame]:
  "t_parser (decaln t) = t_parser t" "t_parser (full_reset g t) = t_parser t" "t_parser (soft_reset t) = t_parser t"
  unfolding decaln_def full_reset_def soft_reset_def unfold_lets by (intro frame refl)+

lemma parser_resize [THEN trans, frame]:
  "t_parser (terminal_resize r c t) = t_parser t" "t_parser (clear_alt t) = t_parser t"
  unfolding terminal_resize_def clear_alt_def unfold_lets by (intro frame refl)+

lemma parser_alt [THEN trans, frame]:
  "t_parser (set_deccolm b t) = t_parser t" "t_parser (set_alt_screen n b t) = t_parser t"
  unfolding set_deccolm_def set_alt_screen_def unfold_lets by (intro frame refl)+

lemma parser_esc [THEN trans, frame]: "t_parser (esc_dispatch g is f t) = t_parser t"
  unfolding esc_dispatch_def esc_plain_def by (intro frame refl)

lemma parser_moves [THEN trans, frame]:
  "t_parser (cursor_up n t) = t_parser t" "t_parser (cursor_down n t) = t_parser t" "t_parser (cursor_right n t) = t_parser t"
  "t_parser (cursor_left n t) = t_parser t" "t_parser (move_to a b t) = t_parser t" "t_parser (move_to_col n t) = t_parser t"
  "t_parser (move_to_row n t) = t_parser t" "t_parser (move_rows n t) = t_parser t" "t_parser (clear_tabs n t) = t_parser t"
  unfolding cursor_up_def cursor_down_def cursor_right_def cursor_left_def move_to_def move_to_col_def move_to_row_def
    move_rows_def clear_tabs_def unfold_lets by (intro frame refl)+

lemma parser_edits [THEN trans, frame]:
  "t_parser (set_margins ps t) = t_parser t" "t_parser (erase_display n s t) = t_parser t" "t_parser (erase_line n s t) = t_parser t"
  "t_parser (insert_lines n t) = t_parser t" "t_parser (delete_lines n t) = t_parser t" "t_parser (insert_chars n t) = t_parser t"
  "t_parser (delete_chars n t) = t_parser t" "t_parser (erase_chars n t) = t_parser t" "t_parser (sgr ps t) = t_parser t"
  "t_parser (repeat n t) = t_parser t"
  unfolding set_margins_def erase_display_def erase_line_def insert_lines_def delete_lines_def insert_chars_def delete_chars_def
    erase_chars_def sgr_def repeat_def unfold_lets by (intro frame refl; assumption)+

lemma parser_modes [THEN trans, frame]: "t_parser (set_ansi_mode ps b t) = t_parser t" "t_parser (set_dec_modes ps b t) = t_parser t"
  unfolding set_ansi_mode_def ansi_mode_def set_dec_modes_def set_dec_mode_def mouse_mode_set_def mouse_protocol_set_def unfold_lets
  by (intro frame refl; assumption)+

lemma parser_reports [THEN trans, frame]:
  "t_parser (decrqm_dec n t) = t_parser t" "t_parser (decrqm_ansi n t) = t_parser t" "t_parser (window_ops ps t) = t_parser t"
  "t_parser (status_report n t) = t_parser t" "t_parser (extended_cursor_report t) = t_parser t"
  "t_parser (report_colors t) = t_parser t" "t_parser (push_colors t) = t_parser t" "t_parser (pop_colors t) = t_parser t"
  unfolding decrqm_dec_def decrqm_ansi_def window_ops_def status_report_def extended_cursor_report_def report_colors_def
    push_colors_def pop_colors_def unfold_lets by (intro frame refl)+

lemma parser_csi [THEN trans, frame]: "t_parser (terminal_csi_dispatch ps is pv f t) = t_parser t"
  unfolding terminal_csi_dispatch_def csi_plain_def csi_question_def csi_prefixed_def csi_intermediate_def unfold_lets
  by (intro frame refl; assumption)+

definition parsed_by :: "Parser \<Rightarrow> 'g Terminal \<Rightarrow> bool" where
  "parsed_by p t \<longleftrightarrow> t_parser t = p"

lemma parsed_by_simps [simp]:
  "parsed_by p (respond s t) = parsed_by p t" "parsed_by p (touch t) = parsed_by p t" "parsed_by p (t\<lparr>t_palette := c\<rparr>) = parsed_by p t"
  by (simp_all add: parsed_by_def respond_def touch_def)

lemma parser_palette_loop: "parsed_by p t \<Longrightarrow> osc_palette_loop bel parts t = Some t' \<Longrightarrow> parsed_by p t'"
  by (induction bel parts t arbitrary: t' rule: osc_palette_loop.induct) (auto split: option.splits if_splits)

lemma parser_palette: "osc_palette_loop bel parts t = Some t' \<Longrightarrow> t_parser t' = t_parser t"
  using parser_palette_loop [of "t_parser t" t bel parts t'] by (simp add: parsed_by_def)

lemma parser_osc_ops [THEN trans, frame]:
  "t_parser (osc_hyperlink r t) = t_parser t" "t_parser (set_selection d k t) = t_parser t"
  "t_parser (osc_prompt_mark r t) = t_parser t" "t_parser (reset_palette r t) = t_parser t" "t_parser (set_color_slot n c t) = t_parser t"
  unfolding osc_hyperlink_def set_selection_def osc_prompt_mark_def reset_palette_def set_color_slot_def unfold_lets
  by (intro frame refl)+

lemma parser_clipboard [THEN trans, frame]: "t_parser (osc_clipboard r bel t) = t_parser t"
  unfolding osc_clipboard_def unfold_lets by (intro frame refl; assumption)

lemma parser_text_size [THEN trans, frame]: "t_parser (osc_text_size r t) = t_parser t"
proof -
  have "t_parser (fold print cs (t\<lparr>t_last_text_size := x\<rparr>)) = t_parser t" for cs x by (intro frame refl; assumption)
  then show ?thesis
    unfolding osc_text_size_def unfold_lets by (auto intro!: frame split: option.split)
qed

lemma parser_osc: "osc_dispatch data bel t = Some t' \<Longrightarrow> t_parser t' = t_parser t"
  by (auto simp: osc_dispatch_def osc_code_def osc_palette_def osc_dynamic_color_def Let_def
      dest!: parser_palette split: option.splits prod.splits if_splits intro!: frame)

lemma parser_xtgettcap_loop: "parsed_by p t \<Longrightarrow> xtgettcap_loop names t = Some t' \<Longrightarrow> parsed_by p t'"
  by (induction names t arbitrary: t' rule: xtgettcap_loop.induct) (auto split: option.splits)

lemma parser_xtgettcap: "xtgettcap_loop names t = Some t' \<Longrightarrow> t_parser t' = t_parser t"
  using parser_xtgettcap_loop [of "t_parser t" t names t'] by (simp add: parsed_by_def)

lemma parser_dcs: "dcs_dispatch is f d t = Some t' \<Longrightarrow> t_parser t' = t_parser t"
proof -
  have "t_parser (decrqss d t) = t_parser t" unfolding decrqss_def unfold_lets by (intro frame refl)
  moreover assume "dcs_dispatch is f d t = Some t'"
  ultimately show ?thesis by (auto simp: dcs_dispatch_def xtgettcap_def dest: parser_xtgettcap split: if_splits)
qed

lemma parser_apc: "t_parser (apc_dispatch gd d t) = t_parser t"
  unfolding apc_dispatch_def unfold_lets by (cases d) (auto intro!: frame)

lemma parser_dispatch: "dispatch gd g0 a t = Some t' \<Longrightarrow> t_parser t' = t_parser t"
  by (cases a) (auto dest: parser_osc parser_dcs simp: parser_apc intro!: frame)

lemma parser_dispatch_all: "dispatch_all gd g0 as t = Some t' \<Longrightarrow> t_parser t' = t_parser t"
  by (induction "as" arbitrary: t) (auto simp: bind_eq_Some_conv dest: parser_dispatch)

text \<open>Input read in two chunks leaves the terminal that reading it whole leaves.\<close>

lemma process_append: "process gd g0 (a @ b) t = Option.bind (process gd g0 a t) (process gd g0 b)"
proof -
  obtain p as p' bs where a: "parse_bytes a (t_parser t) = (p, as)" and b: "parse_bytes b p = (p', bs)" by fastforce
  let ?t = "t\<lparr>t_parser := parser_new\<rparr>"
  have ab: "parse_bytes (a @ b) (t_parser t) = (p', as @ bs)" by (simp add: parse_bytes_append a b)
  show ?thesis
  proof (cases "dispatch_all gd g0 as ?t")
    case None
    then show ?thesis by (simp add: process_parse [OF a] process_parse [OF ab] dispatch_all_append)
  next
    case (Some u)
    then have "t_parser u = parser_new" by (auto dest: parser_dispatch_all)
    then have "u\<lparr>t_parser := parser_new\<rparr> = u" by simp
    then show ?thesis
      using process_parse [of b "u\<lparr>t_parser := p\<rparr>" p' bs gd g0] b
      by (simp add: process_parse [OF a] process_parse [OF ab] dispatch_all_append Some)
  qed
qed

end
