(* ===== verification/Terminal_Behaviour.thy ===== *)
theory Terminal_Behaviour
  imports Process
begin

text \<open>
  What the terminal does with a program's output, over the model of \<open>Terminal\<close>, \<open>Csi\<close>, \<open>Osc\<close> and
  \<open>Process\<close>: a dumped pen restores the style, modes read back as they were set, the primary screen
  survives whatever is drawn on the alternate one, and text lands where the cursor is.
\<close>

section \<open>The dumped pen\<close>

text \<open>A control sequence fed to a terminal at rest is dispatched once, on the terminal as it was.\<close>

lemma process_csi:
  assumes "at_rest (t_parser t)" "qs \<noteq> []" "params_ok qs" "within 0x40 0x7E f"
  obtains p where "process gd g0 ([0x1B, 91] @ render_params qs @ [f]) t =
    Some ((terminal_csi_dispatch qs [] 0 f (t\<lparr>t_parser := parser_new\<rparr>))\<lparr>t_parser := p\<rparr>)" "ps_state p = Ground"
proof -
  obtain p1 p3 p4 where p: "advance 0x1B (t_parser t) = (p1, snd (advance 0x1B (t_parser t)))"
    "parse_bytes (91 # render_params qs) p1 = (p3, [])" "advance f p3 = (p4, [Csi qs [] 0 f])" "ps_state p4 = Ground"
    using csi_steps [OF assms(2-4)] .
  have "parse_bytes [f] p3 = (p4, [Csi qs [] 0 f])" by (simp add: p(3))
  then have "parse_bytes ((91 # render_params qs) @ [f]) p1 = (p4, [Csi qs [] 0 f])"
    unfolding parse_bytes_append p(2) by (simp del: parse_bytes.simps)
  then have "parse_bytes (0x1B # (91 # render_params qs) @ [f]) (t_parser t) = (p4, [Csi qs [] 0 f])"
    using at_rest_escape [OF assms(1)] by (subst parse_bytes.simps, subst p(1)) (simp del: parse_bytes.simps)
  then have "process gd g0 ([0x1B, 91] @ render_params qs @ [f]) t =
    Some ((terminal_csi_dispatch qs [] 0 f (t\<lparr>t_parser := parser_new\<rparr>))\<lparr>t_parser := p4\<rparr>)"
    using process_parse [of "0x1B # (91 # render_params qs) @ [f]" t p4 "[Csi qs [] 0 f]" gd g0] by simp
  then show ?thesis using that p(4) by blast
qed

lemma sgr_dump_restores:
  assumes "at_rest (t_parser t)"
  shows "\<exists>t'. process gd g0 ([0x1B, 91] @ sgr_params style @ [109]) t = Some t'
    \<and> t_cursor t' = (t_cursor t)\<lparr>c_style := style\<lparr>st_protected := st_protected (c_style (t_cursor t))\<rparr>\<rparr>
    \<and> t_primary t' = t_primary t \<and> t_alt t' = t_alt t \<and> t_modes t' = t_modes t"
proof -
  have f: "within 0x40 0x7E 109" by (simp add: within_def)
  obtain p where p: "process gd g0 ([0x1B, 91] @ render_params (sgr_items style) @ [109]) t =
    Some ((terminal_csi_dispatch (sgr_items style) [] 0 109 (t\<lparr>t_parser := parser_new\<rparr>))\<lparr>t_parser := p\<rparr>)"
    using process_csi [OF assms sgr_items_ok(2,1) f] by blast
  have "terminal_csi_dispatch (sgr_items style) [] 0 109 u = sgr (sgr_items style) u" for u :: "'a Terminal"
    by (simp add: terminal_csi_dispatch_def first_byte_def csi_plain_def)
  then show ?thesis using p by (simp add: sgr_params_render sgr_of_items touch_def on_cursor_def)
qed

section \<open>Modes read back\<close>

definition queryable :: "nat \<Rightarrow> bool" where
  "queryable n \<longleftrightarrow> n \<in> {1, 5, 6, 7, 8, 9, 12, 25, 40, 47, 66, 95, 1000, 1002, 1003, 1004, 1005, 1006, 1007, 1016, 1047, 1049, 2004, 2026}"

lemma scroll_assign [simp]:
  "t_scroll_top (touch t) = t_scroll_top t" "t_scroll_top (set_row n t) = t_scroll_top t" "t_scroll_top (set_col n t) = t_scroll_top t"
  "t_scroll_top (on_modes m t) = t_scroll_top t" "t_scroll_top (no_wrap t) = t_scroll_top t"
  "t_scroll_bot (touch t) = t_scroll_bot t" "t_scroll_bot (set_row n t) = t_scroll_bot t" "t_scroll_bot (set_col n t) = t_scroll_bot t"
  "t_scroll_bot (on_modes m t) = t_scroll_bot t" "t_scroll_bot (no_wrap t) = t_scroll_bot t"
  by (simp_all add: assign_defs)

lemma clamp_keeps [simp]:
  "t_alt_active (clamp_to_region_if_origin u) = t_alt_active u" "t_primary (clamp_to_region_if_origin u) = t_primary u"
  "t_alt (clamp_to_region_if_origin u) = t_alt u" "t_scroll_top (clamp_to_region_if_origin u) = t_scroll_top u"
  "t_scroll_bot (clamp_to_region_if_origin u) = t_scroll_bot u" "t_modes (clamp_to_region_if_origin u) = t_modes u"
  by (simp_all add: clamp_to_region_if_origin_def case_prod_unfold Let_def)

lemma restore_keeps [simp]:
  "t_alt_active (restore_cursor u) = t_alt_active u" "t_primary (restore_cursor u) = t_primary u" "t_alt (restore_cursor u) = t_alt u"
  "t_scroll_top (restore_cursor u) = t_scroll_top u" "t_scroll_bot (restore_cursor u) = t_scroll_bot u"
  unfolding restore_cursor_def Let_def by simp_all

lemma set_alt_active: "t_alt_active (set_alt_screen n b t) = b"
  by (simp add: set_alt_screen_def clear_alt_def save_cursor_def Let_def)

lemma mode_reads_back:
  assumes "queryable n"
  shows "dec_mode_status n (set_dec_mode n b t) = (if b then 1 else 2)"
proof -
  have m: "t_modes (move_to r c u) = t_modes u" for r c and u :: "'a Terminal" by (simp add: move_to_def Let_def case_prod_unfold)
  have "t_alt_active (touch u) = t_alt_active u" "t_modes (touch u) = t_modes u" for u :: "'a Terminal" by simp_all
  then show ?thesis using assms unfolding queryable_def
    by (elim insertE) (simp_all add: dec_mode_status_def set_dec_mode_def mouse_mode_set_def mouse_protocol_set_def m set_alt_active)
qed


section \<open>The primary screen behind the alternate one\<close>

text \<open>The alternate screen is shown and the primary screen, with its saved cursor, is the given one.\<close>

definition behind :: "Screen \<Rightarrow> SavedCursor \<Rightarrow> 'g Terminal \<Rightarrow> bool" where
  "behind s c t \<longleftrightarrow> t_alt_active t \<and> t_primary t = s \<and> t_saved_primary t = c"

named_theorems behind_intros "operations on the alternate screen that leave the primary one alone"

lemma behind_if [behind_intros]: "(b \<Longrightarrow> behind s c x) \<Longrightarrow> (\<not> b \<Longrightarrow> behind s c y) \<Longrightarrow> behind s c (if b then x else y)"
  by simp

lemma behind_option [behind_intros]:
  "(v = None \<Longrightarrow> behind s c x) \<Longrightarrow> (\<And>a. v = Some a \<Longrightarrow> behind s c (f a)) \<Longrightarrow>
   behind s c (case v of None \<Rightarrow> x | Some a \<Rightarrow> f a)"
  by (cases v) auto

lemma behind_fold [behind_intros]:
  "(\<And>x u. behind s c u \<Longrightarrow> behind s c (f x u)) \<Longrightarrow> behind s c t \<Longrightarrow> behind s c (fold f xs t)"
  by (induction xs arbitrary: t) auto

lemma behind_pow [behind_intros]:
  fixes f :: "'g Terminal \<Rightarrow> 'g Terminal"
  shows "(\<And>u. behind s c u \<Longrightarrow> behind s c (f u)) \<Longrightarrow> behind s c t \<Longrightarrow> behind s c ((f ^^ n) t)"
  by (induction n) auto

lemma behind_assign [behind_intros]:
  "behind s c t \<Longrightarrow> behind s c (touch t)" "behind s c t \<Longrightarrow> behind s c (respond r t)" "behind s c t \<Longrightarrow> behind s c (on_cursor f t)"
  "behind s c t \<Longrightarrow> behind s c (on_modes m t)" "behind s c t \<Longrightarrow> behind s c (no_wrap t)" "behind s c t \<Longrightarrow> behind s c (set_col n t)"
  "behind s c t \<Longrightarrow> behind s c (set_row n t)" "behind s c t \<Longrightarrow> behind s c (on_screen g t)" "behind s c t \<Longrightarrow> behind s c (full_margins t)"
  "behind s c t \<Longrightarrow> behind s c (on_kitty_stack h t)" "behind s c t \<Longrightarrow> behind s c (set_tab b t)"
  by (simp_all add: behind_def assign_defs on_screen_def full_margins_def on_kitty_stack_def set_tab_def Let_def)

lemma behind_fields [behind_intros]:
  "behind s c t \<Longrightarrow> behind s c (t\<lparr>t_cursor := x4\<rparr>)" "behind s c t \<Longrightarrow> behind s c (t\<lparr>t_saved_alt := x5\<rparr>)"
  "behind s c t \<Longrightarrow> behind s c (t\<lparr>t_scroll_top := x6\<rparr>)" "behind s c t \<Longrightarrow> behind s c (t\<lparr>t_scroll_bot := x6\<rparr>)"
  "behind s c t \<Longrightarrow> behind s c (t\<lparr>t_tabs := x7\<rparr>)" "behind s c t \<Longrightarrow> behind s c (t\<lparr>t_bell_count := x8\<rparr>)"
  "behind s c t \<Longrightarrow> behind s c (t\<lparr>t_palette := x9\<rparr>)" "behind s c t \<Longrightarrow> behind s c (t\<lparr>t_color_stack := y1\<rparr>)"
  "behind s c t \<Longrightarrow> behind s c (t\<lparr>t_cursor_style_raw := x6\<rparr>)" "behind s c t \<Longrightarrow> behind s c (t\<lparr>t_last_printed := y2\<rparr>)"
  "behind s c t \<Longrightarrow> behind s c (t\<lparr>t_fg_color := y4\<rparr>)" "behind s c t \<Longrightarrow> behind s c (t\<lparr>t_bg_color := y4\<rparr>)"
  "behind s c t \<Longrightarrow> behind s c (t\<lparr>t_cursor_color := y4\<rparr>)" "behind s c t \<Longrightarrow> behind s c (t\<lparr>t_alt := y5\<rparr>)"
  by (simp_all add: behind_def)

lemma behind_ops [behind_intros]:
  "behind s c t \<Longrightarrow> behind s c (scroll_up_n n t)" "behind s c t \<Longrightarrow> behind s c (scroll_down_n n t)"
  "behind s c t \<Longrightarrow> behind s c (horizontal_tab t)" "behind s c t \<Longrightarrow> behind s c (back_tab t)"
  unfolding scroll_up_n_def scroll_down_n_def horizontal_tab_def back_tab_def unfold_lets by (intro behind_intros; assumption)+

lemma behind_index [behind_intros]: "behind s c t \<Longrightarrow> behind s c (index t)" "behind s c t \<Longrightarrow> behind s c (reverse_index t)"
  unfolding index_def reverse_index_def unfold_lets by (intro behind_intros; assumption)+

lemma behind_linefeed [behind_intros]: "behind s c t \<Longrightarrow> behind s c (linefeed t)"
  unfolding linefeed_def unfold_lets by (intro behind_intros; assumption)

lemma behind_execute [behind_intros]: "behind s c t \<Longrightarrow> behind s c (execute b t)"
  unfolding execute_def by (intro behind_intros; assumption)

lemma behind_repair [behind_intros]:
  "behind s c t \<Longrightarrow> behind s c (repair_wide_halves row t)" "behind s c t \<Longrightarrow> behind s c (clean_wide row col w t)"
  "behind s c t \<Longrightarrow> behind s c (combine x t)"
  unfolding repair_wide_halves_def clean_wide_def combine_def unfold_lets by (intro behind_intros; assumption)+

lemma behind_print_parts [behind_intros]:
  "behind s c t \<Longrightarrow> behind s c (print_wrap t)" "behind s c t \<Longrightarrow> behind s c (print_insert w t)"
  "behind s c t \<Longrightarrow> behind s c (print_advance w t)"
  unfolding print_wrap_def print_insert_def print_advance_def unfold_lets by (intro behind_intros; assumption)+

lemma behind_print_place [behind_intros]: "behind s c t \<Longrightarrow> behind s c (print_place x w t)"
  unfolding print_place_def unfold_lets by (intro behind_intros; assumption)

lemma behind_print_edge: "print_edge w t = Some t' \<Longrightarrow> behind s c t \<Longrightarrow> behind s c t'"
  by (auto simp: print_edge_def Let_def split: if_splits intro!: behind_intros)

lemma behind_print [behind_intros]: "behind s c t \<Longrightarrow> behind s c (print x t)"
  unfolding print_def unfold_lets
  by (intro behind_if behind_option behind_intros) (auto intro!: behind_intros elim!: behind_print_edge)

lemma behind_saved [behind_intros]: "behind s c t \<Longrightarrow> behind s c (save_cursor t)" "behind s c t \<Longrightarrow> behind s c (clamp_to_region_if_origin t)"
proof -
  show "behind s c t \<Longrightarrow> behind s c (save_cursor t)" by (simp add: save_cursor_def behind_def Let_def)
  show "behind s c t \<Longrightarrow> behind s c (clamp_to_region_if_origin t)"
    unfolding clamp_to_region_if_origin_def unfold_lets by (intro behind_intros; assumption)
qed

lemma behind_restore [behind_intros]: "behind s c t \<Longrightarrow> behind s c (restore_cursor t)"
  unfolding restore_cursor_def unfold_lets by (intro behind_intros; assumption)

lemma behind_decaln [behind_intros]: "behind s c t \<Longrightarrow> behind s c (decaln t)"
  unfolding decaln_def unfold_lets by (intro behind_intros; assumption)

lemma behind_saved_alt: "behind s c t \<Longrightarrow> behind s c (if t_alt_active t then t\<lparr>t_saved_alt := x\<rparr> else y)"
  by (simp add: behind_def)

lemma behind_soft_reset [behind_intros]: "behind s c t \<Longrightarrow> behind s c (soft_reset t)"
  unfolding soft_reset_def Let_def by (intro behind_saved_alt behind_intros; assumption)

lemma behind_esc [behind_intros]: "is \<noteq> [] \<or> f \<noteq> 0x63 \<Longrightarrow> behind s c t \<Longrightarrow> behind s c (esc_dispatch g is f t)"
  by (cases "is") (auto simp: esc_dispatch_def esc_plain_def first_byte_def intro!: behind_intros)

lemma behind_moves [behind_intros]:
  "behind s c t \<Longrightarrow> behind s c (cursor_up n t)" "behind s c t \<Longrightarrow> behind s c (cursor_down n t)"
  "behind s c t \<Longrightarrow> behind s c (cursor_right n t)" "behind s c t \<Longrightarrow> behind s c (cursor_left n t)"
  "behind s c t \<Longrightarrow> behind s c (move_to a b t)" "behind s c t \<Longrightarrow> behind s c (move_to_col n t)"
  "behind s c t \<Longrightarrow> behind s c (move_to_row n t)" "behind s c t \<Longrightarrow> behind s c (move_rows n t)"
  "behind s c t \<Longrightarrow> behind s c (clear_tabs n t)"
  unfolding cursor_up_def cursor_down_def cursor_right_def cursor_left_def move_to_def move_to_col_def move_to_row_def
    move_rows_def clear_tabs_def unfold_lets by (intro behind_intros; assumption)+

lemma behind_edits [behind_intros]:
  "behind s c t \<Longrightarrow> behind s c (set_margins ps t)" "behind s c t \<Longrightarrow> behind s c (erase_display n e t)"
  "behind s c t \<Longrightarrow> behind s c (erase_line n e t)" "behind s c t \<Longrightarrow> behind s c (insert_lines n t)"
  "behind s c t \<Longrightarrow> behind s c (delete_lines n t)" "behind s c t \<Longrightarrow> behind s c (insert_chars n t)"
  "behind s c t \<Longrightarrow> behind s c (delete_chars n t)" "behind s c t \<Longrightarrow> behind s c (erase_chars n t)"
  "behind s c t \<Longrightarrow> behind s c (sgr ps t)" "behind s c t \<Longrightarrow> behind s c (repeat n t)" "behind s c t \<Longrightarrow> behind s c (set_ansi_mode ps b t)"
  unfolding set_margins_def erase_display_def erase_line_def insert_lines_def delete_lines_def insert_chars_def delete_chars_def
    erase_chars_def sgr_def repeat_def set_ansi_mode_def ansi_mode_def unfold_lets by (intro behind_intros; assumption)+

lemma behind_reports [behind_intros]:
  "behind s c t \<Longrightarrow> behind s c (decrqm_dec n t)" "behind s c t \<Longrightarrow> behind s c (decrqm_ansi n t)"
  "behind s c t \<Longrightarrow> behind s c (window_ops ps t)" "behind s c t \<Longrightarrow> behind s c (status_report n t)"
  "behind s c t \<Longrightarrow> behind s c (extended_cursor_report t)" "behind s c t \<Longrightarrow> behind s c (report_colors t)"
  "behind s c t \<Longrightarrow> behind s c (push_colors t)" "behind s c t \<Longrightarrow> behind s c (pop_colors t)"
  unfolding decrqm_dec_def decrqm_ansi_def window_ops_def status_report_def extended_cursor_report_def report_colors_def
    push_colors_def pop_colors_def unfold_lets by (intro behind_intros; assumption)+

text \<open>Control sequences other than private mode settings.\<close>

lemma behind_csi [behind_intros]:
  assumes "pv \<noteq> 0x3F \<or> f \<noteq> 0x68 \<and> f \<noteq> 0x6C" "behind s c t"
  shows "behind s c (terminal_csi_dispatch ps is pv f t)"
proof -
  have "behind s c (csi_plain ps f t)"
    unfolding csi_plain_def unfold_lets by (intro behind_intros; (assumption | rule assms(2)))
  moreover have "behind s c (csi_prefixed ps pv f t)" "behind s c (Csi.csi_intermediate ps pv i f t)" for i
    unfolding csi_prefixed_def csi_intermediate_def by (intro behind_intros; (assumption | rule assms(2)))+
  moreover have "behind s c (csi_question ps f t)" if "f \<noteq> 0x68" "f \<noteq> 0x6C"
    using assms(2) that unfolding csi_question_def by (auto intro!: behind_intros)
  ultimately show ?thesis using assms(1) by (auto simp: terminal_csi_dispatch_def split: option.split)
qed


lemma behind_strings [behind_intros]:
  "behind s c t \<Longrightarrow> behind s c (t\<lparr>t_title := b1\<rparr>)" "behind s c t \<Longrightarrow> behind s c (t\<lparr>t_icon_title := b1\<rparr>)"
  "behind s c t \<Longrightarrow> behind s c (t\<lparr>t_pwd := b1\<rparr>)" "behind s c t \<Longrightarrow> behind s c (t\<lparr>t_last_notification := b2\<rparr>)"
  "behind s c t \<Longrightarrow> behind s c (t\<lparr>t_pointer_shape := b1\<rparr>)" "behind s c t \<Longrightarrow> behind s c (t\<lparr>t_clipboard := b1\<rparr>)"
  "behind s c t \<Longrightarrow> behind s c (t\<lparr>t_primary_selection := b1\<rparr>)" "behind s c t \<Longrightarrow> behind s c (t\<lparr>t_select_selection := b1\<rparr>)"
  "behind s c t \<Longrightarrow> behind s c (t\<lparr>t_clipboard_seq := b3\<rparr>)" "behind s c t \<Longrightarrow> behind s c (t\<lparr>t_clipboard_kinds := b1\<rparr>)"
  "behind s c t \<Longrightarrow> behind s c (t\<lparr>t_last_text_size := b2\<rparr>)" "behind s c t \<Longrightarrow> behind s c (t\<lparr>t_hyperlinks := b4\<rparr>)"
  "behind s c t \<Longrightarrow> behind s c (t\<lparr>t_next_hyperlink := b5\<rparr>)" "behind s c t \<Longrightarrow> behind s c (t\<lparr>t_graphics := b6\<rparr>)"
  by (simp_all add: behind_def)

lemma behind_same [simp]:
  "behind s c (respond r t) = behind s c t" "behind s c (touch t) = behind s c t" "behind s c (t\<lparr>t_palette := p\<rparr>) = behind s c t"
  by (simp_all add: behind_def respond_def touch_def)

lemma behind_palette: "behind s c t \<Longrightarrow> osc_palette_loop bel parts t = Some t' \<Longrightarrow> behind s c t'"
  by (induction bel parts t arbitrary: t' rule: osc_palette_loop.induct) (auto split: option.splits if_splits)

lemma behind_osc_ops [behind_intros]:
  "behind s c t \<Longrightarrow> behind s c (osc_hyperlink r t)" "behind s c t \<Longrightarrow> behind s c (set_selection d k t)"
  "behind s c t \<Longrightarrow> behind s c (osc_prompt_mark r t)" "behind s c t \<Longrightarrow> behind s c (reset_palette r t)"
  "behind s c t \<Longrightarrow> behind s c (set_color_slot n x t)"
  unfolding osc_hyperlink_def set_selection_def osc_prompt_mark_def reset_palette_def set_color_slot_def unfold_lets
  by (intro behind_intros; assumption)+

lemma behind_clipboard [behind_intros]: "behind s c t \<Longrightarrow> behind s c (osc_clipboard r bel t)"
  unfolding osc_clipboard_def unfold_lets by (intro behind_intros; assumption)

lemma behind_text_size [behind_intros]: "behind s c t \<Longrightarrow> behind s c (osc_text_size r t)"
proof -
  assume t: "behind s c t"
  have "behind s c (fold print cs (t\<lparr>t_last_text_size := x\<rparr>))" for cs x by (intro behind_intros; (assumption | rule t))
  then show ?thesis
    using t unfolding osc_text_size_def unfold_lets by (auto intro!: behind_intros split: option.split)
qed

lemma behind_osc: "behind s c t \<Longrightarrow> osc_dispatch data bel t = Some t' \<Longrightarrow> behind s c t'"
  by (auto simp: osc_dispatch_def osc_code_def osc_palette_def osc_dynamic_color_def Let_def
      elim!: behind_palette [rotated] split: option.splits prod.splits if_splits intro!: behind_intros)

lemma behind_xtgettcap: "behind s c t \<Longrightarrow> xtgettcap_loop names t = Some t' \<Longrightarrow> behind s c t'"
  by (induction names t arbitrary: t' rule: xtgettcap_loop.induct) (auto split: option.splits)

lemma behind_dcs: "behind s c t \<Longrightarrow> dcs_dispatch is f d t = Some t' \<Longrightarrow> behind s c t'"
proof -
  assume t: "behind s c t"
  have "behind s c (decrqss d t)" unfolding decrqss_def unfold_lets by (intro behind_intros; rule t)
  moreover assume "dcs_dispatch is f d t = Some t'"
  ultimately show ?thesis using t by (auto simp: dcs_dispatch_def xtgettcap_def dest: behind_xtgettcap split: if_splits)
qed

lemma behind_apc: "behind s c t \<Longrightarrow> behind s c (apc_dispatch gd d t)"
  unfolding apc_dispatch_def unfold_lets by (cases d) (auto intro!: behind_intros)

text \<open>What an application can send without switching screens: everything except private mode
  settings and a full reset.\<close>

fun stays_on_screen :: "Action \<Rightarrow> bool" where
  "stays_on_screen (Csi ps is pv f) \<longleftrightarrow> pv \<noteq> 0x3F \<or> f \<noteq> 0x68 \<and> f \<noteq> 0x6C"
| "stays_on_screen (Esc is f) \<longleftrightarrow> is \<noteq> [] \<or> f \<noteq> 0x63"
| "stays_on_screen _ \<longleftrightarrow> True"

lemma behind_dispatch: "behind s c t \<Longrightarrow> stays_on_screen a \<Longrightarrow> dispatch gd g0 a t = Some t' \<Longrightarrow> behind s c t'"
  by (cases a) (auto intro: behind_intros behind_apc behind_osc behind_dcs)

lemma behind_dispatch_all:
  "behind s c t \<Longrightarrow> list_all stays_on_screen as \<Longrightarrow> dispatch_all gd g0 as t = Some t' \<Longrightarrow> behind s c t'"
  by (induction "as" arbitrary: t) (auto simp: bind_eq_Some_conv dest: behind_dispatch)

lemma behind_enter:
  assumes "\<not> t_alt_active t"
  shows "behind (t_primary t) \<lparr>s_cursor = t_cursor t, s_origin = m_origin (t_modes t)\<rparr> (set_alt_screen 1049 True t)"
  unfolding set_alt_screen_def Let_def using assms
  by (simp add: behind_def clear_alt_def save_cursor_def assign_defs)

lemma alt_screen_returns:
  assumes "term_inv t" "\<not> t_alt_active t" "\<not> m_origin (t_modes t)"
    and "list_all stays_on_screen as" "dispatch_all gd g0 as (set_alt_screen 1049 True t) = Some u"
  shows "t_primary (set_alt_screen 1049 False u) = t_primary t"
    and "t_cursor (set_alt_screen 1049 False u) = (t_cursor t)\<lparr>c_pending_wrap := False\<rparr>"
    and "\<not> t_alt_active (set_alt_screen 1049 False u)"
proof -
  have b: "t_alt_active u" "t_primary u = t_primary t" "t_saved_primary u = \<lparr>s_cursor = t_cursor t, s_origin = False\<rparr>"
    using behind_dispatch_all [OF behind_enter [OF assms(2)] assms(4,5)] assms(3) by (auto simp: behind_def)
  then show "\<not> t_alt_active (set_alt_screen 1049 False u)" by (simp add: set_alt_active)
  have rows: "t_rows u = t_rows t" "t_cols u = t_cols t" using b(2) by (simp_all add: t_rows_def t_cols_def)
  let ?v = "u\<lparr>t_screen_switch := Some SwitchAlt, t_alt_active := False\<rparr>"
  have inside: "min (c_row (t_cursor t)) (t_rows t - 1) = c_row (t_cursor t)" "min (c_col (t_cursor t)) (t_cols t - 1) = c_col (t_cursor t)"
    using inv_dims [OF assms(1)] by auto
  have v: "t_rows ?v = t_rows t" "t_cols ?v = t_cols t" using b(2) by (simp_all add: t_rows_def t_cols_def)
  have r: "t_cursor (restore_cursor ?v) = t_cursor t" "t_rows (restore_cursor ?v) = t_rows t" "t_primary (restore_cursor ?v) = t_primary t"
    using b v inside by (simp_all add: restore_cursor_def clamp_to_region_if_origin_def Let_def)
  have "set_alt_screen 1049 False u = touch (set_row (min (c_row (t_cursor t)) (t_rows t - 1)) (no_wrap (restore_cursor ?v)))"
    using b(1) r by (simp add: set_alt_screen_def Let_def)
  then show "t_primary (set_alt_screen 1049 False u) = t_primary t"
    "t_cursor (set_alt_screen 1049 False u) = (t_cursor t)\<lparr>c_pending_wrap := False\<rparr>"
    using r inside by simp_all
qed

section \<open>Plain text\<close>

lemma scr_on_screen [simp]: "scr (on_screen f t) = f (scr t)"
  by (simp add: scr_def on_screen_def)

lemma scr_assign [simp]:
  "scr (touch t) = scr t" "scr (set_col n t) = scr t" "scr (t\<lparr>t_last_printed := x\<rparr>) = scr t"
  by (simp_all add: scr_def assign_defs)

text \<open>Text that is drawn one column per character: no pending wrap, replace mode, ASCII characters.\<close>

definition plain_pen :: "'g Terminal \<Rightarrow> bool" where
  "plain_pen t \<longleftrightarrow> \<not> c_pending_wrap (t_cursor t) \<and> \<not> m_insert (t_modes t)
     \<and> (if c_shift (t_cursor t) = 1 then c_g1 (t_cursor t) else c_g0 (t_cursor t)) = Ascii"

definition text_cell :: "CursorState \<Rightarrow> nat \<Rightarrow> Cell" where
  "text_cell cur c = \<lparr>ch = c, cell_style = c_style cur, width = 1, extra = [], hyperlink = c_hyperlink cur\<rparr>"

definition cursor_row :: "'g Terminal \<Rightarrow> Row" where
  "cursor_row t = sc_grid (scr t) ! c_row (t_cursor t)"

definition narrow_row :: "'g Terminal \<Rightarrow> bool" where
  "narrow_row t \<longleftrightarrow> (\<forall>x \<in> set (cells (cursor_row t)). width x = 1)"

lemma inv_scr:
  assumes "term_inv t"
  shows "wf_screen (scr t)" "sc_rows (scr t) = t_rows t" "sc_cols (scr t) = t_cols t"
  using assms by (auto simp: term_inv_defs scr_def t_rows_def t_cols_def)

lemma cursor_row_length:
  assumes "term_inv t"
  shows "length (cells (cursor_row t)) = t_cols t" "c_row (t_cursor t) < length (sc_grid (scr t))"
proof -
  show l: "c_row (t_cursor t) < length (sc_grid (scr t))"
    using inv_scr [OF assms] inv_dims [OF assms] wf_screenD(3) by fastforce
  then show "length (cells (cursor_row t)) = t_cols t"
    using wf_screenD(5) [OF inv_scr(1) [OF assms]] inv_scr(3) [OF assms] by (simp add: cursor_row_def)
qed

lemma cursor_cell_update:
  assumes "term_inv t"
  shows "cell_update (c_row (t_cursor t)) (c_col (t_cursor t)) f (scr t) =
    (scr t)\<lparr>sc_grid := (sc_grid (scr t))[c_row (t_cursor t) :=
       (cursor_row t)\<lparr>cells := (cells (cursor_row t))[c_col (t_cursor t) := f (cells (cursor_row t) ! c_col (t_cursor t))]\<rparr>]\<rparr>"
proof -
  have "row_index (scr t) (c_row (t_cursor t)) = c_row (t_cursor t)" "col_index (scr t) (c_col (t_cursor t)) = c_col (t_cursor t)"
    using cursor_row_length(2) [OF assms] inv_dims(4) [OF assms] inv_scr(3) [OF assms] by (auto simp: row_index_def col_index_def)
  then show ?thesis by (simp add: cell_update_def row_update_def cursor_row_def Let_def)
qed

lemma narrow_width_at:
  assumes "term_inv t" "narrow_row t" "w \<noteq> 1"
  shows "\<not> width_at w (c_row (t_cursor t)) col (scr t)"
  using assms by (auto simp: width_at_def screen_cell_def narrow_row_def cursor_row_def split: option.split)

lemma clean_wide_narrow:
  assumes "term_inv t" "narrow_row t"
  shows "clean_wide (c_row (t_cursor t)) (c_col (t_cursor t)) 1 t = t"
proof -
  have "\<not> width_at 0 (c_row (t_cursor t)) (c_col (t_cursor t)) (scr t)" "\<not> width_at 2 (c_row (t_cursor t)) (c_col (t_cursor t)) (scr t)"
    using narrow_width_at [OF assms] by simp_all
  moreover have "on_screen f t = t" if "f (scr t) = scr t" for f
    using that by (auto simp: on_screen_def scr_def split: if_splits)
  ultimately show ?thesis unfolding clean_wide_def by (simp add: clean_wide_at_def)
qed

lemma print_plain:
  assumes "term_inv t" "plain_pen t" "narrow_row t" "32 \<le> c" "c < 127" "c_col (t_cursor t) + 1 < t_cols t"
  shows "print c t = set_col (c_col (t_cursor t) + 1)
    (on_screen (cell_update (c_row (t_cursor t)) (c_col (t_cursor t)) (\<lambda>_. text_cell (t_cursor t) c)) ((touch t)\<lparr>t_last_printed := Some c\<rparr>))"
proof -
  let ?t = "(touch t)\<lparr>t_last_printed := Some c\<rparr>"
  have t: "term_inv ?t" "t_cursor ?t = t_cursor t" "t_modes ?t = t_modes t" "scr ?t = scr t" "t_cols ?t = t_cols t"
    using assms(1) by (simp_all add: t_cols_def)
  then have n: "narrow_row ?t" using assms(3) by (simp add: narrow_row_def cursor_row_def)
  have "map_charset t c = c" using assms(2) by (simp add: map_charset_def plain_pen_def Let_def)
  moreover have "print_wrap ?t = ?t" using assms(2) by (simp add: print_wrap_def plain_pen_def)
  moreover have "clean_wide (c_row (t_cursor t)) (c_col (t_cursor t)) 1 ?t = ?t" using clean_wide_narrow [OF t(1) n] by simp
  moreover have "m_insert (t_modes t) = False" using assms(2) by (simp add: plain_pen_def)
  ultimately show ?thesis
    using assms(4-6) t(5)
    by (simp add: print_def print_edge_def print_place_def print_insert_def print_advance_def put_char_def [abs_def] text_cell_def
        wcwidth_ascii Let_def dims_simps)
qed

lemma cursor_row_written:
  assumes "term_inv t"
  shows "cursor_row (set_col n (on_screen (cell_update (c_row (t_cursor t)) (c_col (t_cursor t)) f) ((touch t)\<lparr>t_last_printed := x\<rparr>))) =
    (cursor_row t)\<lparr>cells := (cells (cursor_row t))[c_col (t_cursor t) := f (cells (cursor_row t) ! c_col (t_cursor t))]\<rparr>"
  using cursor_row_length(2) [OF assms] by (simp add: cursor_row_def cursor_cell_update [OF assms])

text \<open>One character of it: where the cursor goes, what the row becomes, and what stays.\<close>

lemma print_step:
  assumes "term_inv t" "plain_pen t" "narrow_row t" "32 \<le> c" "c < 127" "c_col (t_cursor t) + 1 < t_cols t"
  shows "t_cursor (print c t) = (t_cursor t)\<lparr>c_col := c_col (t_cursor t) + 1\<rparr>"
    and "cursor_row (print c t) = (cursor_row t)\<lparr>cells := (cells (cursor_row t))[c_col (t_cursor t) := text_cell (t_cursor t) c]\<rparr>"
    and "sc_grid (scr (print c t)) = (sc_grid (scr t))[c_row (t_cursor t) :=
           (cursor_row t)\<lparr>cells := (cells (cursor_row t))[c_col (t_cursor t) := text_cell (t_cursor t) c]\<rparr>]"
    and "term_inv (print c t)" "plain_pen (print c t)" "narrow_row (print c t)" "t_cols (print c t) = t_cols t"
proof -
  note u = print_plain [OF assms]
  show cur: "t_cursor (print c t) = (t_cursor t)\<lparr>c_col := c_col (t_cursor t) + 1\<rparr>" unfolding u by simp
  show row: "cursor_row (print c t) = (cursor_row t)\<lparr>cells := (cells (cursor_row t))[c_col (t_cursor t) := text_cell (t_cursor t) c]\<rparr>"
    unfolding u by (rule cursor_row_written [OF assms(1)])
  show "sc_grid (scr (print c t)) = (sc_grid (scr t))[c_row (t_cursor t) :=
           (cursor_row t)\<lparr>cells := (cells (cursor_row t))[c_col (t_cursor t) := text_cell (t_cursor t) c]\<rparr>]"
    unfolding u by (simp add: cursor_cell_update [OF assms(1)])
  show "t_cols (print c t) = t_cols t" unfolding u by (simp add: dims_simps) (simp add: t_cols_def touch_def)
  show "term_inv (print c t)" by (rule inv_print [OF assms(1)])
  have "t_modes (print c t) = t_modes t" unfolding u by simp
  then show "plain_pen (print c t)" using assms(2) by (simp add: plain_pen_def cur split: if_splits)
  show "narrow_row (print c t)"
    using assms(3) set_update_subset_insert [of "cells (cursor_row t)" "c_col (t_cursor t)" "text_cell (t_cursor t) c"]
    by (auto simp: narrow_row_def row text_cell_def)
qed

text \<open>A run of text that fits on the line, cell by cell.\<close>

lemma print_text_line:
  assumes "term_inv t" "plain_pen t" "narrow_row t" "\<forall>c \<in> set cs. 32 \<le> c \<and> c < 127"
    and "c_col (t_cursor t) + length cs < t_cols t"
  shows "t_cursor (fold print cs t) = (t_cursor t)\<lparr>c_col := c_col (t_cursor t) + length cs\<rparr>
    \<and> sc_grid (scr (fold print cs t)) = (sc_grid (scr t))[c_row (t_cursor t) := (cursor_row t)\<lparr>cells :=
           take (c_col (t_cursor t)) (cells (cursor_row t)) @ map (text_cell (t_cursor t)) cs
           @ drop (c_col (t_cursor t) + length cs) (cells (cursor_row t))\<rparr>]"
  using assms
proof (induction cs arbitrary: t)
  case Nil
  then show ?case using cursor_row_length(2) [OF Nil(1)] by (simp add: cursor_row_def)
next
  case (Cons c cs)
  let ?row = "cells (cursor_row t)" and ?col = "c_col (t_cursor t)"
  have "32 \<le> c" "c < 127" "?col + 1 < t_cols t" using Cons.prems(4,5) by auto
  note step = print_step [OF Cons.prems(1-3) this]
  have len: "?col < length ?row" using cursor_row_length(1) [OF Cons.prems(1)] Cons.prems(5) by simp
  then have "take (Suc ?col) (?row[?col := text_cell (t_cursor t) c]) = take ?col ?row @ [text_cell (t_cursor t) c]"
    by (simp add: take_Suc_conv_app_nth)
  moreover have "text_cell ((t_cursor t)\<lparr>c_col := n\<rparr>) = text_cell (t_cursor t)" for n by (simp add: text_cell_def fun_eq_iff)
  moreover have "fold print (c # cs) t = fold print cs (print c t)" by simp
  ultimately show ?case
    using Cons.IH [OF step(4-6)] Cons.prems(4,5) by (simp add: step(1-3,7))
qed

section \<open>A color specification that stops the program\<close>

text \<open>\<open>OSC 11 ; #\<close> followed by a three-byte character: the slice of its first byte fails.\<close>

lemma euro_code: "from_utf8_lossy [49, 49, 59, 35, 0xE2, 0x82, 0xAC] = [49, 49, 59, 35, 0xE2, 0x82, 0xAC]"
  by (rule lossy_valid) code_simp

lemma osc_euro_stops: "osc_dispatch [49, 49, 59, 35, 0xE2, 0x82, 0xAC] bel t = None"
proof -
  have "parse_color_spec [35, 0xE2, 0x82, 0xAC] = None"
    by (simp add: parse_color_spec_def strip_prefix_def asc_def hash_spec_def str_slice_def char_boundary_def is_cont_def)
  moreover have "parse_radix 10 65536 [49, 49] = Some 11" by (simp add: parse_radix_def digit_value_def)
  ultimately show ?thesis
    by (simp add: osc_dispatch_def euro_code osc_code_def osc_dynamic_color_def asc_def)
qed

lemma remote_color_stops:
  "process gd g0 [0x1B, 0x5D, 49, 49, 59, 35, 0xE2, 0x82, 0xAC, 7] (with_scrollback g rows cols n) = None"
proof -
  have "\<exists>p. parse_bytes [0x1B, 0x5D, 49, 49, 59, 35, 0xE2, 0x82, 0xAC, 7] parser_new = (p, [Osc [49, 49, 59, 35, 0xE2, 0x82, 0xAC] True])"
    by (simp add: advance_def parser_new_def ground_def ground_fresh_def unless_anywhere_def anywhere_def escape_fresh_def
        start_string_def osc_string_def push_string_byte_def plain_c0_def within_def finish_osc_def goto_def MAX_OSC_def)
  then obtain p where "parse_bytes [0x1B, 0x5D, 49, 49, 59, 35, 0xE2, 0x82, 0xAC, 7] (t_parser (with_scrollback g rows cols n)) =
      (p, [Osc [49, 49, 59, 35, 0xE2, 0x82, 0xAC] True])"
    by (auto simp: with_scrollback_def Let_def)
  from process_parse [OF this] show ?thesis by (simp add: osc_euro_stops)
qed

end
