(* ===== verification/Snapshot.thy ===== *)
theory Snapshot
  imports Process
begin

text \<open>
  The picture of a terminal that the remote client draws (\<open>Snapshot\<close> of
  \<open>crates/posh/src/remote/display.rs\<close>): the visible grid and the modes the renderer keeps in step on
  the outer terminal. Predictions and the status banner draw onto it before it is rendered. Row and
  column numbers are natural numbers; strings are their UTF-8 bytes. The hyperlink table is a partial
  map. A snapshot is well formed when it has the grid its dimensions announce, which the snapshots
  taken of a sound terminal have.
\<close>

section \<open>Data\<close>

record Snapshot =
  sn_rows :: nat
  sn_cols :: nat
  sn_cells :: "Cell list list"
  sn_wrapped :: "bool list"
  sn_cursor_row :: nat
  sn_cursor_col :: nat
  sn_cursor_visible :: bool
  sn_title :: bytes
  sn_bell_count :: u64
  sn_clipboard_seq :: u64
  sn_clipboard_kinds :: bytes
  sn_clipboard :: bytes
  sn_reverse_video :: bool
  sn_bracketed_paste :: bool
  sn_focus_reporting :: bool
  sn_alternate_scroll :: bool
  sn_app_cursor_keys :: bool
  sn_app_keypad :: bool
  sn_mouse_mode :: nat
  sn_mouse_encoding :: nat
  sn_hyperlinks :: "nat \<rightharpoonup> bytes"

definition blank_cell :: Cell where
  "blank_cell = cell_blank style_default"

definition snapshot_blank :: "nat \<Rightarrow> nat \<Rightarrow> Snapshot" where
  "snapshot_blank rows0 cols0 =
     (let rows = max rows0 1; cols = max cols0 1 in
      \<lparr>sn_rows = rows, sn_cols = cols, sn_cells = map (\<lambda>_. replicate cols blank_cell) [0..<rows],
       sn_wrapped = replicate rows False, sn_cursor_row = 0, sn_cursor_col = 0, sn_cursor_visible = True, sn_title = [],
       sn_bell_count = 0, sn_clipboard_seq = 0, sn_clipboard_kinds = [99], sn_clipboard = [], sn_reverse_video = False,
       sn_bracketed_paste = False, sn_focus_reporting = False, sn_alternate_scroll = False, sn_app_cursor_keys = False,
       sn_app_keypad = False, sn_mouse_mode = 0, sn_mouse_encoding = 0, sn_hyperlinks = Map.empty\<rparr>)"

text \<open>\<open>Terminal::hyperlink\<close>, and the table of the links that visible cells carry.\<close>

definition terminal_hyperlink :: "'g Terminal \<Rightarrow> nat \<Rightarrow> bytes option" where
  "terminal_hyperlink t i = map_option h_uri (map_of (t_hyperlinks t) i)"

definition link_table :: "'g Terminal \<Rightarrow> Cell list \<Rightarrow> (nat \<rightharpoonup> bytes) \<Rightarrow> (nat \<rightharpoonup> bytes)" where
  "link_table t cs m0 =
     fold (\<lambda>cell m. if hyperlink cell \<noteq> 0 \<and> m (hyperlink cell) = None
                    then (case terminal_hyperlink t (hyperlink cell) of
                            None \<Rightarrow> m | Some uri \<Rightarrow> m(hyperlink cell \<mapsto> uri))
                    else m) cs m0"

definition from_term :: "'g Terminal \<Rightarrow> Snapshot" where
  "from_term t =
     (let s = scr t; rows = sc_rows s; cols = sc_cols s; grid = map (\<lambda>r. sc_grid s ! r) [0..<rows] in
      \<lparr>sn_rows = rows, sn_cols = cols, sn_cells = map cells grid, sn_wrapped = map wrapped grid,
       sn_cursor_row = min (c_row (t_cursor t)) (rows - 1), sn_cursor_col = min (c_col (t_cursor t)) (cols - 1),
       sn_cursor_visible = m_cursor_visible (t_modes t), sn_title = t_title t, sn_bell_count = t_bell_count t,
       sn_clipboard_seq = t_clipboard_seq t, sn_clipboard_kinds = t_clipboard_kinds t,
       sn_clipboard = selection (case t_clipboard_kinds t of [] \<Rightarrow> 99 | k # _ \<Rightarrow> k) t,
       sn_reverse_video = m_reverse_video (t_modes t), sn_bracketed_paste = m_bracketed_paste (t_modes t),
       sn_focus_reporting = m_focus_reporting (t_modes t), sn_alternate_scroll = m_alternate_scroll (t_modes t),
       sn_app_cursor_keys = m_cursor_keys (t_modes t), sn_app_keypad = m_keypad_app (t_modes t),
       sn_mouse_mode = (case mouse_decset (m_mouse_mode (t_modes t)) of None \<Rightarrow> 0 | Some n \<Rightarrow> n),
       sn_mouse_encoding = (case protocol_decset (m_mouse_protocol (t_modes t)) of None \<Rightarrow> 0 | Some n \<Rightarrow> n),
       sn_hyperlinks = fold (link_table t \<circ> cells) grid Map.empty\<rparr>)"

definition snap_cell :: "Snapshot \<Rightarrow> nat \<Rightarrow> nat \<Rightarrow> Cell option" where
  "snap_cell fb row col = Option.bind (get_at (sn_cells fb) row) (\<lambda>r. get_at r col)"

definition link_uri :: "Snapshot \<Rightarrow> nat \<Rightarrow> bytes" where
  "link_uri fb i = (if i = 0 then [] else case sn_hyperlinks fb i of None \<Rightarrow> [] | Some uri \<Rightarrow> uri)"

text \<open>\<open>cell_mut\<close>, with the update made through it; a position outside the grid gives no reference.\<close>

definition snap_update :: "nat \<Rightarrow> nat \<Rightarrow> (Cell \<Rightarrow> Cell) \<Rightarrow> Snapshot \<Rightarrow> Snapshot" where
  "snap_update row col f fb =
     (case snap_cell fb row col of
        None \<Rightarrow> fb
      | Some c \<Rightarrow> fb\<lparr>sn_cells := (sn_cells fb)[row := (sn_cells fb ! row)[col := f c]]\<rparr>)"

section \<open>Well-formed snapshots\<close>

definition wf_snapshot :: "Snapshot \<Rightarrow> bool" where
  "wf_snapshot fb \<longleftrightarrow>
     1 \<le> sn_rows fb \<and> 1 \<le> sn_cols fb
     \<and> length (sn_cells fb) = sn_rows fb \<and> (\<forall>r \<in> set (sn_cells fb). length r = sn_cols fb)
     \<and> length (sn_wrapped fb) = sn_rows fb
     \<and> sn_cursor_row fb < sn_rows fb \<and> sn_cursor_col fb < sn_cols fb"

lemma wf_snapshot_blank: "wf_snapshot (snapshot_blank rows cols)"
  by (simp add: wf_snapshot_def snapshot_blank_def Let_def less_max_iff_disj)

lemma snap_cell_in:
  assumes "wf_snapshot fb"
  shows "snap_cell fb row col = (if row < sn_rows fb \<and> col < sn_cols fb then Some (sn_cells fb ! row ! col) else None)"
  using assms by (auto simp: snap_cell_def get_at_def wf_snapshot_def)

lemma wf_snap_update [simp]: "wf_snapshot (snap_update row col f fb) = wf_snapshot fb"
proof (cases "snap_cell fb row col")
  case (Some c)
  then have "row < length (sn_cells fb)" "col < length (sn_cells fb ! row)"
    by (auto simp: snap_cell_def get_at_def split: if_splits)
  then have "(\<forall>r \<in> set ((sn_cells fb)[row := (sn_cells fb ! row)[col := f c]]). length r = n)
    = (\<forall>r \<in> set (sn_cells fb). length r = n)" for n
    by (auto simp: all_set_conv_all_nth nth_list_update)
  then show ?thesis using Some by (simp add: snap_update_def wf_snapshot_def)
qed (simp add: snap_update_def)

lemma snap_update_dims [simp]:
  "sn_rows (snap_update row col f fb) = sn_rows fb" "sn_cols (snap_update row col f fb) = sn_cols fb"
  "sn_cursor_row (snap_update row col f fb) = sn_cursor_row fb" "sn_cursor_col (snap_update row col f fb) = sn_cursor_col fb"
  by (simp_all add: snap_update_def split: option.split)

lemma snap_cell_update:
  "snap_cell (snap_update row col f fb) r c =
     (if r = row \<and> c = col then map_option f (snap_cell fb row col) else snap_cell fb r c)"
  by (auto simp: snap_update_def snap_cell_def get_at_def nth_list_update bind_eq_None_conv split: option.split)

lemma wf_from_term:
  assumes "term_inv t"
  shows "wf_snapshot (from_term t)"
proof -
  note d = inv_dims [OF assms]
  have "sc_rows (scr t) = t_rows t" "sc_cols (scr t) = t_cols t" "wf_screen (scr t)"
    using assms by (auto simp: term_inv_defs scr_def t_rows_def t_cols_def)
  then show ?thesis
    using d wf_screenD by (fastforce simp: wf_snapshot_def from_term_def Let_def)
qed

end
