(* ===== verification/Display.thy ===== *)
theory Display
  imports Snapshot
begin

text \<open>
  \<open>crates/posh/src/remote/display.rs\<close>: the renderer, which writes the escape stream that turns the
  outer terminal from showing one snapshot into showing another, and the status banner. The output is
  a list of bytes (a \<open>String\<close> of the code is its UTF-8 text); the tracked cursor position is an integer,
  with -1 for an unknown one. The terminfo strings that enter and leave the alternate screen are
  arguments of \<open>open_with\<close> and \<open>close_with\<close>.
\<close>

section \<open>Entering and leaving the outer terminal\<close>

definition open_with :: "(bytes \<times> bytes) option \<Rightarrow> bytes" where
  "open_with bracket = (case bracket of None \<Rightarrow> [] | Some (smcup, _) \<Rightarrow> smcup) @ 0x1B # asc ''[2J'' @ 0x1B # asc ''[H''"

definition dec_private :: "bool \<Rightarrow> nat \<Rightarrow> bytes" where
  "dec_private on n = 0x1B # asc ''[?'' @ decimal n @ (if on then asc ''h'' else asc ''l'')"

definition close_with :: "(bytes \<times> bytes) option \<Rightarrow> bytes" where
  "close_with bracket =
     0x1B # asc ''[0m'' @ dec_private True 25 @ dec_private False 1 @ 0x1B # asc ''>'' @ dec_private False 1003
     @ dec_private False 1002 @ dec_private False 1000 @ dec_private False 9 @ dec_private False 1016
     @ dec_private False 1006 @ dec_private False 1005 @ dec_private False 2004 @ dec_private False 1004
     @ dec_private False 1007 @ 0x1B # asc ''[r''
     @ (case bracket of None \<Rightarrow> [] | Some (_, rmcup) \<Rightarrow> rmcup)"

section \<open>The stream builder\<close>

record FrameState =
  fr_out :: bytes
  fr_x :: int
  fr_y :: int
  fr_style :: Style
  fr_link :: bytes
  fr_cursor_visible :: bool

definition fr_append :: "bytes \<Rightarrow> FrameState \<Rightarrow> FrameState" where
  "fr_append s fr = fr\<lparr>fr_out := fr_out fr @ s\<rparr>"

definition append_n :: "nat \<Rightarrow> u8 \<Rightarrow> FrameState \<Rightarrow> FrameState" where
  "append_n n b = fr_append (replicate n b)"

definition append_cell :: "Cell \<Rightarrow> FrameState \<Rightarrow> FrameState" where
  "append_cell cell = fr_append (concat (map utf8_encode ((if ch cell = 0 then 32 else ch cell) # extra cell)))"

definition update_style :: "Style \<Rightarrow> bool \<Rightarrow> FrameState \<Rightarrow> FrameState" where
  "update_style style force fr =
     (if force \<or> fr_style fr \<noteq> style
      then (fr_append (0x1B # asc ''['' @ sgr_params style @ asc ''m'') fr)\<lparr>fr_style := style\<rparr> else fr)"

definition update_link :: "bytes \<Rightarrow> bool \<Rightarrow> FrameState \<Rightarrow> FrameState" where
  "update_link uri force fr =
     (if force \<or> fr_link fr \<noteq> uri
      then (fr_append (0x1B # asc '']8;;'' @ uri @ [0x1B, 0x5C]) fr)\<lparr>fr_link := uri\<rparr> else fr)"

definition can_use_erase :: "FrameState \<Rightarrow> bool" where
  "can_use_erase fr \<longleftrightarrow> fr_style fr = style_default \<and> fr_link fr = []"

definition decimal_int :: "int \<Rightarrow> bytes" where
  "decimal_int i = (if i < 0 then 45 # decimal (nat (- i)) else decimal (nat i))"

definition append_move :: "int \<Rightarrow> int \<Rightarrow> FrameState \<Rightarrow> FrameState" where
  "append_move y x fr0 =
     (let last_x = fr_x fr0; last_y = fr_y fr0; fr = fr0\<lparr>fr_x := x, fr_y := y\<rparr>
      in if last_x \<noteq> -1 \<and> last_y \<noteq> -1 \<and> x = 0 \<and> y - last_y \<ge> 0 \<and> y - last_y < 5
         then append_n (nat (y - last_y)) 0x0A (if last_x \<noteq> 0 then fr_append [0x0D] fr else fr)
         else if last_x \<noteq> -1 \<and> last_y \<noteq> -1 \<and> y = last_y \<and> x - last_x < 0 \<and> x - last_x > -5
         then append_n (nat (last_x - x)) 0x08 fr
         else fr_append (0x1B # asc ''['' @ decimal_int (y + 1) @ asc '';'' @ decimal_int (x + 1) @ asc ''H'') fr)"

definition append_silent_move :: "int \<Rightarrow> int \<Rightarrow> FrameState \<Rightarrow> FrameState" where
  "append_silent_move y x fr =
     (if fr_x fr = x \<and> fr_y fr = y then fr
      else append_move y x
             (if fr_cursor_visible fr then (fr_append (dec_private False 25) fr)\<lparr>fr_cursor_visible := False\<rparr> else fr))"

definition cell_width :: "Cell \<Rightarrow> nat" where
  "cell_width cell = max (width cell) 1"

section \<open>One row\<close>

text \<open>The state of the loop of \<open>put_row\<close>.\<close>

record RowState =
  rs_frame :: FrameState
  rs_x :: nat
  rs_clear :: nat
  rs_wrote_last :: bool
  rs_style :: Style
  rs_link :: nat

definition at_blank_run :: "Snapshot \<Rightarrow> nat \<Rightarrow> RowState \<Rightarrow> FrameState" where
  "at_blank_run f y st =
     update_link (link_uri f (rs_link st)) False
       (update_style (rs_style st) False
         (append_silent_move (int y) (int (rs_x st) - int (rs_clear st)) (rs_frame st)))"

text \<open>A pending run of blanks inside the row, and one that reaches its end.\<close>

definition flush_run :: "Snapshot \<Rightarrow> nat \<Rightarrow> RowState \<Rightarrow> RowState" where
  "flush_run f y st =
     (let fr = at_blank_run f y st
      in st\<lparr>rs_frame := (if can_use_erase fr \<and> rs_clear st > 4
                         then fr_append (0x1B # asc ''['' @ decimal (rs_clear st) @ asc ''X'') fr
                         else (append_n (rs_clear st) 32 fr)\<lparr>fr_x := int (rs_x st)\<rparr>),
            rs_clear := 0\<rparr>)"

definition end_run :: "Snapshot \<Rightarrow> nat \<Rightarrow> bool \<Rightarrow> RowState \<Rightarrow> RowState" where
  "end_run f y row_wrap st =
     (let fr = at_blank_run f y st
      in if can_use_erase fr \<and> \<not> row_wrap then st\<lparr>rs_frame := fr_append (0x1B # asc ''[K'') fr\<rparr>
         else st\<lparr>rs_frame := (append_n (rs_clear st) 32 fr)\<lparr>fr_x := int (rs_x st)\<rparr>, rs_wrote_last := True\<rparr>)"

definition draw_cell :: "Snapshot \<Rightarrow> nat \<Rightarrow> bool \<Rightarrow> Cell \<Rightarrow> RowState \<Rightarrow> RowState" where
  "draw_cell f y row_wrap cell st =
     (let w = cell_width cell; x = rs_x st;
          fr0 = (if row_wrap \<and> x + w \<ge> sn_cols f then (rs_frame st)\<lparr>fr_x := -1, fr_y := -1\<rparr> else rs_frame st);
          fr = append_cell cell
                 (update_link (link_uri f (hyperlink cell)) False
                   (update_style (cell_style cell) False (append_silent_move (int y) (int x) fr0)))
      in st\<lparr>rs_frame := fr\<lparr>fr_x := fr_x fr + int w\<rparr>, rs_x := x + w,
            rs_wrote_last := (if x + w \<ge> sn_cols f then True else rs_wrote_last st)\<rparr>)"

definition start_run :: "Cell \<Rightarrow> RowState \<Rightarrow> RowState" where
  "start_run cell st = st\<lparr>rs_style := cell_style cell, rs_link := hyperlink cell\<rparr>"

definition row_step :: "bool \<Rightarrow> Snapshot \<Rightarrow> nat \<Rightarrow> Cell list \<Rightarrow> RowState \<Rightarrow> RowState" where
  "row_step init f y old_cells st =
     (let x = rs_x st; cell = sn_cells f ! y ! x
      in if init \<and> rs_clear st = 0 \<and> get_at old_cells x = Some cell then st\<lparr>rs_x := x + cell_width cell\<rparr>
         else if width cell = 0 then st\<lparr>rs_x := x + 1\<rparr>
         else
           let st1 = (if is_blank cell \<and> rs_clear st = 0 then start_run cell st else st)
           in if is_blank cell \<and> cell_style cell = rs_style st1 \<and> hyperlink cell = rs_link st1
              then st1\<lparr>rs_clear := rs_clear st1 + 1, rs_x := x + 1\<rparr>
              else if rs_clear st1 > 0 \<and> is_blank cell
              then (start_run cell (flush_run f y st1))\<lparr>rs_clear := 1, rs_x := x + 1\<rparr>
              else draw_cell f y (sn_wrapped f ! y) cell (if rs_clear st1 > 0 then flush_run f y st1 else st1))"

lemma cell_width_pos: "0 < cell_width cell"
  by (simp add: cell_width_def)

lemma flush_run_x [simp]: "rs_x (flush_run f y st) = rs_x st"
  by (simp add: flush_run_def Let_def)

lemma row_step_advances: "rs_x st < rs_x (row_step init f y old_cells st)"
  using cell_width_pos by (simp add: row_step_def Let_def draw_cell_def start_run_def)

function row_loop :: "bool \<Rightarrow> Snapshot \<Rightarrow> nat \<Rightarrow> Cell list \<Rightarrow> RowState \<Rightarrow> RowState" where
  "row_loop init f y old_cells st =
     (if rs_x st < sn_cols f then row_loop init f y old_cells (row_step init f y old_cells st) else st)"
  by pat_completeness auto
termination
  by (relation "measure (\<lambda>(_, f, _, _, st). sn_cols f - rs_x st)") (auto intro!: diff_less_mono2 row_step_advances)

declare row_loop.simps [simp del]

definition row_start :: "Snapshot \<Rightarrow> nat \<Rightarrow> bool \<Rightarrow> FrameState \<Rightarrow> RowState" where
  "row_start f y wrap fr =
     (let cell = sn_cells f ! y ! 0; w = cell_width cell;
          fr1 = append_cell cell (update_link (link_uri f (hyperlink cell)) False (update_style (cell_style cell) False fr))
      in \<lparr>rs_frame = (if wrap then fr1\<lparr>fr_x := fr_x fr1 + int w\<rparr> else fr), rs_x = (if wrap then w else 0), rs_clear = 0,
          rs_wrote_last = False, rs_style = style_default, rs_link = 0\<rparr>)"

definition put_row :: "bool \<Rightarrow> Snapshot \<Rightarrow> nat \<Rightarrow> Cell list \<Rightarrow> bool \<Rightarrow> FrameState \<Rightarrow> FrameState \<times> bool" where
  "put_row init f y old_cells wrap fr0 =
     (let row_wrap = sn_wrapped f ! y;
          st = row_loop init f y old_cells (row_start f y wrap fr0);
          st = (if rs_clear st > 0 then end_run f y row_wrap st else st);
          fr = rs_frame st
      in if \<not> (rs_wrote_last st \<and> y + 1 < sn_rows f) then (fr, False)
         else if row_wrap then (fr\<lparr>fr_x := 0, fr_y := fr_y fr + 1\<rparr>, True)
         else ((fr_append [0x0D, 0x0A] fr)\<lparr>fr_x := 0, fr_y := fr_y fr + 1\<rparr>, False))"

section \<open>The scroll shortcut\<close>

text \<open>The rows the outer terminal shows, blank where it was cleared.\<close>

definition shown_rows :: "bool \<Rightarrow> Snapshot \<Rightarrow> Snapshot \<Rightarrow> Cell list list" where
  "shown_rows init prev f =
     map (\<lambda>y. if init then (case get_at (sn_cells prev) y of None \<Rightarrow> replicate (sn_cols f) blank_cell | Some r \<Rightarrow> r)
              else replicate (sn_cols f) blank_cell) [0..<sn_rows f]"

definition same_row :: "Snapshot \<Rightarrow> Snapshot \<Rightarrow> Cell list list \<Rightarrow> nat \<Rightarrow> nat \<Rightarrow> bool" where
  "same_row prev f rows new_y old_y \<longleftrightarrow>
     sn_cells f ! new_y = rows ! old_y
     \<and> sn_wrapped f ! new_y = (case get_at (sn_wrapped prev) old_y of None \<Rightarrow> False | Some b \<Rightarrow> b)"

text \<open>How many lines the screen moved up, and how many rows it still has in common.\<close>

definition find_scroll :: "Snapshot \<Rightarrow> Snapshot \<Rightarrow> Cell list list \<Rightarrow> nat \<times> nat" where
  "find_scroll prev f rows =
     (case List.find (same_row prev f rows 0) [0..<sn_rows f] of
        None \<Rightarrow> (0, 0)
      | Some 0 \<Rightarrow> (0, 0)
      | Some lines \<Rightarrow>
          (lines, 1 + length (takeWhile (\<lambda>h. same_row prev f rows h (lines + h)) [1..<sn_rows f - lines])))"

definition scroll_frame :: "Snapshot \<Rightarrow> nat \<Rightarrow> nat \<Rightarrow> FrameState \<Rightarrow> FrameState" where
  "scroll_frame f lines_scrolled scroll_height fr0 =
     (let bottom_margin = lines_scrolled + scroll_height - 1;
          fr = update_link [] True (update_style style_default True fr0)
      in if scroll_height + lines_scrolled = sn_rows f \<and> fr_y fr + 1 = int (sn_rows f)
         then (append_n lines_scrolled 0x0A (fr_append [0x0D] fr))\<lparr>fr_x := 0\<rparr>
         else let fr1 = (fr_append (0x1B # asc ''['' @ decimal 1 @ asc '';'' @ decimal (bottom_margin + 1) @ asc ''r'') fr)
                          \<lparr>fr_x := -1, fr_y := -1\<rparr>;
                  fr2 = append_n lines_scrolled 0x0A (append_silent_move (int bottom_margin) 0 fr1)
              in (fr_append (0x1B # asc ''[r'') fr2)\<lparr>fr_x := -1, fr_y := -1\<rparr>)"

text \<open>The same move on the model of the outer terminal's rows.\<close>

definition scroll_rows :: "Snapshot \<Rightarrow> nat \<Rightarrow> nat \<Rightarrow> Cell list list \<Rightarrow> Cell list list" where
  "scroll_rows f lines_scrolled scroll_height rows =
     (let bottom_margin = lines_scrolled + scroll_height - 1
      in map (\<lambda>i. if i \<le> bottom_margin
                  then if i + lines_scrolled \<le> bottom_margin then rows ! (i + lines_scrolled)
                       else replicate (sn_cols f) blank_cell
                  else rows ! i) [0..<length rows])"

definition scroll_shortcut :: "bool \<Rightarrow> Snapshot \<Rightarrow> Snapshot \<Rightarrow> Cell list list \<Rightarrow> FrameState \<Rightarrow> FrameState \<times> Cell list list \<times> nat" where
  "scroll_shortcut init prev f rows fr =
     (if init
      then case find_scroll prev f rows of
             (lines_scrolled, scroll_height) \<Rightarrow>
               if scroll_height > 0
               then (scroll_frame f lines_scrolled scroll_height fr, scroll_rows f lines_scrolled scroll_height rows, scroll_height)
               else (fr, rows, 0)
      else (fr, rows, 0))"

fun put_rows :: "bool \<Rightarrow> Snapshot \<Rightarrow> Cell list list \<Rightarrow> nat list \<Rightarrow> bool \<Rightarrow> FrameState \<Rightarrow> FrameState" where
  "put_rows init f rows [] wrap fr = fr"
| "put_rows init f rows (y # ys) wrap fr =
     (case put_row init f y (rows ! y) wrap fr of (fr', wrap') \<Rightarrow> put_rows init f rows ys wrap' fr')"

section \<open>The whole frame\<close>

definition frame_title :: "bool \<Rightarrow> Snapshot \<Rightarrow> Snapshot \<Rightarrow> bytes" where
  "frame_title initialized prev f =
     (if \<not> initialized \<or> sn_title f \<noteq> sn_title prev then 0x1B # asc '']0;'' @ sn_title f @ [0x07] else [])"

definition frame_bell :: "Snapshot \<Rightarrow> Snapshot \<Rightarrow> bytes" where
  "frame_bell prev f = (if sn_bell_count f \<noteq> sn_bell_count prev then [0x07] else [])"

definition frame_clipboard :: "Snapshot \<Rightarrow> Snapshot \<Rightarrow> bytes" where
  "frame_clipboard prev f =
     (if sn_clipboard_seq f \<noteq> sn_clipboard_seq prev
      then 0x1B # asc '']52;'' @ sn_clipboard_kinds f @ asc '';'' @ encode (sn_clipboard f) @ [0x1B, 0x5C] else [])"

definition sync_flag :: "bool \<Rightarrow> bool \<Rightarrow> bool \<Rightarrow> bytes \<Rightarrow> bytes \<Rightarrow> bytes" where
  "sync_flag init now_on was_on on_seq off_seq =
     (if \<not> init \<or> now_on \<noteq> was_on then if now_on then on_seq else off_seq else [])"

definition mouse_mode_sync :: "bool \<Rightarrow> Snapshot \<Rightarrow> Snapshot \<Rightarrow> bool \<Rightarrow> bytes" where
  "mouse_mode_sync init prev f grab =
     (if \<not> init \<or> sn_mouse_mode f \<noteq> sn_mouse_mode prev
      then if sn_mouse_mode f = 0
           then if grab
                then dec_private False 1003 @ dec_private False 1002 @ dec_private False 9 @ dec_private True 1000
                     @ dec_private True 1006
                else dec_private False 1003 @ dec_private False 1002 @ dec_private False 1000 @ dec_private False 9
           else (if init \<and> sn_mouse_mode prev \<noteq> 0 then dec_private False (sn_mouse_mode prev) else [])
                @ dec_private True (sn_mouse_mode f)
      else [])"

definition mouse_encoding_sync :: "bool \<Rightarrow> Snapshot \<Rightarrow> Snapshot \<Rightarrow> bool \<Rightarrow> bytes" where
  "mouse_encoding_sync init prev f grab =
     (if \<not> init \<or> sn_mouse_encoding f \<noteq> sn_mouse_encoding prev
      then if sn_mouse_encoding f = 0
           then if \<not> (sn_mouse_mode f = 0 \<and> grab)
                then dec_private False 1016 @ dec_private False 1006 @ dec_private False 1005 else []
           else (if init \<and> sn_mouse_encoding prev \<noteq> 0 then dec_private False (sn_mouse_encoding prev) else [])
                @ dec_private True (sn_mouse_encoding f)
      else [])"

definition mode_sync :: "bool \<Rightarrow> Snapshot \<Rightarrow> Snapshot \<Rightarrow> bool \<Rightarrow> bytes" where
  "mode_sync init prev f grab =
     sync_flag init (sn_bracketed_paste f) (sn_bracketed_paste prev) (dec_private True 2004) (dec_private False 2004)
     @ sync_flag init (sn_app_cursor_keys f) (sn_app_cursor_keys prev) (dec_private True 1) (dec_private False 1)
     @ sync_flag init (sn_app_keypad f) (sn_app_keypad prev) (0x1B # asc ''='') (0x1B # asc ''>'')
     @ mouse_mode_sync init prev f grab
     @ sync_flag init (sn_focus_reporting f) (sn_focus_reporting prev) (dec_private True 1004) (dec_private False 1004)
     @ sync_flag init (sn_alternate_scroll f) (sn_alternate_scroll prev) (dec_private True 1007) (dec_private False 1007)
     @ mouse_encoding_sync init prev f grab"

text \<open>
  Whether the incremental path is taken, and the builder when the rows begin: a first frame and a
  size change clear the outer screen.
\<close>

definition frame_init :: "bool \<Rightarrow> Snapshot \<Rightarrow> Snapshot \<Rightarrow> bool" where
  "frame_init initialized prev f \<longleftrightarrow> initialized \<and> sn_rows f = sn_rows prev \<and> sn_cols f = sn_cols prev"

definition frame_begin :: "bool \<Rightarrow> Snapshot \<Rightarrow> Snapshot \<Rightarrow> FrameState" where
  "frame_begin initialized prev f =
     (let fr = \<lparr>fr_out = frame_title initialized prev f @ frame_bell prev f @ frame_clipboard prev f
                  @ sync_flag initialized (sn_reverse_video f) (sn_reverse_video prev) (dec_private True 5) (dec_private False 5),
                fr_x = 0, fr_y = 0, fr_style = style_default, fr_link = [], fr_cursor_visible = sn_cursor_visible prev\<rparr>
      in if frame_init initialized prev f
         then fr\<lparr>fr_x := int (sn_cursor_col prev), fr_y := int (sn_cursor_row prev)\<rparr>
         else (fr_append (0x1B # asc ''[r'' @ 0x1B # asc ''[0m'' @ 0x1B # asc ''[H'' @ 0x1B # asc ''[2J''
                 @ dec_private False 25) fr)\<lparr>fr_cursor_visible := False\<rparr>)"

definition frame_rows :: "bool \<Rightarrow> Snapshot \<Rightarrow> Snapshot \<Rightarrow> FrameState \<Rightarrow> FrameState" where
  "frame_rows init prev f fr0 =
     (case scroll_shortcut init prev f (shown_rows init prev f) fr0 of
        (fr, rows, frame_y) \<Rightarrow> put_rows init f rows [frame_y..<sn_rows f] False fr)"

definition frame_cursor :: "bool \<Rightarrow> Snapshot \<Rightarrow> FrameState \<Rightarrow> FrameState" where
  "frame_cursor init f fr0 =
     (let fr = (if \<not> init \<or> fr_y fr0 \<noteq> int (sn_cursor_row f) \<or> fr_x fr0 \<noteq> int (sn_cursor_col f)
                then append_move (int (sn_cursor_row f)) (int (sn_cursor_col f)) fr0 else fr0);
          fr1 = (if \<not> init \<or> sn_cursor_visible f \<noteq> fr_cursor_visible fr
                 then (fr_append (dec_private (sn_cursor_visible f) 25) fr)\<lparr>fr_cursor_visible := sn_cursor_visible f\<rparr> else fr)
      in update_link [] (\<not> init) (update_style style_default (\<not> init) fr1))"

definition new_frame :: "bool \<Rightarrow> Snapshot \<Rightarrow> Snapshot \<Rightarrow> bool \<Rightarrow> bytes" where
  "new_frame initialized prev f grab =
     (let init = frame_init initialized prev f
      in fr_out (frame_cursor init f (frame_rows init prev f (frame_begin initialized prev f))) @ mode_sync init prev f grab)"

section \<open>The status banner\<close>

text \<open>Messages are lists of characters here, since the banner draws them one by one.\<close>

definition SERVER_LATE_AFTER :: nat where
  "SERVER_LATE_AFTER = 6500"

record NotificationEngine =
  ne_last_word :: nat
  ne_message :: "nat list"
  ne_expiration :: "nat option"

definition chars :: "string \<Rightarrow> nat list" where
  "chars s = map of_char s"

definition number :: "nat \<Rightarrow> nat list" where
  "number n = map unat (decimal n)"

definition number2 :: "nat \<Rightarrow> nat list" where
  "number2 n = (if n < 10 then 48 # number n else number n)"

definition human_readable_duration :: "nat \<Rightarrow> nat list" where
  "human_readable_duration n =
     (if n < 60 then number n @ chars '' seconds''
      else if n < 3600 then number (n div 60) @ chars '':'' @ number2 (n mod 60)
      else number (n div 3600) @ chars '':'' @ number2 (n div 60 mod 60) @ chars '':'' @ number2 (n mod 60))"

definition notification_new :: "nat \<Rightarrow> NotificationEngine" where
  "notification_new now = \<lparr>ne_last_word = now, ne_message = [], ne_expiration = Some 0\<rparr>"

definition server_heard :: "nat \<Rightarrow> NotificationEngine \<Rightarrow> NotificationEngine" where
  "server_heard now e = e\<lparr>ne_last_word := now\<rparr>"

definition server_late :: "NotificationEngine \<Rightarrow> nat \<Rightarrow> bool" where
  "server_late e now \<longleftrightarrow> now - ne_last_word e > SERVER_LATE_AFTER"

definition set_message :: "nat list \<Rightarrow> bool \<Rightarrow> nat \<Rightarrow> NotificationEngine \<Rightarrow> NotificationEngine" where
  "set_message msg permanent now e =
     e\<lparr>ne_message := msg, ne_expiration := (if permanent then None else Some (now + 1000))\<rparr>"

definition notification_adjust :: "nat \<Rightarrow> NotificationEngine \<Rightarrow> NotificationEngine" where
  "notification_adjust now e =
     (case ne_expiration e of
        None \<Rightarrow> e
      | Some expiry \<Rightarrow> if now \<ge> expiry then e\<lparr>ne_message := []\<rparr> else e)"

text \<open>\<open>u64::MAX\<close> stands for no wait of its own; the second part always bounds it.\<close>

definition notification_wait :: "NotificationEngine \<Rightarrow> nat \<Rightarrow> nat" where
  "notification_wait e now =
     (let wait = (case ne_expiration e of
                    Some expiry \<Rightarrow> if ne_message e \<noteq> [] then min (2 ^ 64 - 1) (expiry - now) else 2 ^ 64 - 1
                  | None \<Rightarrow> 2 ^ 64 - 1)
      in if server_late e now then min wait 1000
         else min wait (max (ne_last_word e + SERVER_LATE_AFTER - now) 1))"

definition bar_style :: Style where
  "bar_style = style_default\<lparr>st_inverse := True, st_bold := True\<rparr>"

definition banner_text :: "NotificationEngine \<Rightarrow> nat \<Rightarrow> nat list" where
  "banner_text e now =
     (let since_heard = (now - ne_last_word e) div 1000; keystroke = chars '' [To quit: Ctrl-^ .]''
      in if ne_message e = [] then chars ''posh: Last contact '' @ human_readable_duration since_heard @ chars '' ago.'' @ keystroke
         else if \<not> server_late e now then chars ''posh: '' @ ne_message e @ keystroke
         else chars ''posh: '' @ ne_message e @ chars '' ('' @ human_readable_duration since_heard
              @ chars '' without contact.)'' @ keystroke)"

fun banner_draw :: "nat \<Rightarrow> nat list \<Rightarrow> nat \<Rightarrow> Cell list \<Rightarrow> Cell list" where
  "banner_draw cols [] col row = row"
| "banner_draw cols (c # cs) col row =
     (let w = wcwidth c
      in if w = 0 then banner_draw cols cs col row
         else if col + w > cols then row
         else let row1 = row[col := \<lparr>ch = c, cell_style = bar_style, width = w, extra = [], hyperlink = 0\<rparr>];
                  row2 = (if w = 2 then row1[col + 1 := \<lparr>ch = 0, cell_style = bar_style, width = 0, extra = [], hyperlink = 0\<rparr>]
                          else row1)
              in banner_draw cols cs (col + w) row2)"

definition notification_apply :: "NotificationEngine \<Rightarrow> nat \<Rightarrow> Snapshot \<Rightarrow> Snapshot" where
  "notification_apply e now fb =
     (if ne_message e = [] \<and> \<not> server_late e now then fb
      else let fb1 = (if sn_cursor_row fb = 0 then fb\<lparr>sn_cursor_visible := False\<rparr> else fb);
               bar = map (\<lambda>_. cell_blank bar_style) (sn_cells fb1 ! 0)
           in fb1\<lparr>sn_cells := (sn_cells fb1)[0 := banner_draw (sn_cols fb1) (banner_text e now) 0 bar],
                  sn_wrapped := (sn_wrapped fb1)[0 := False]\<rparr>)"

lemma banner_draw_length [simp]: "length (banner_draw cols cs col row) = length row"
  by (induction cols cs col row rule: banner_draw.induct) (simp_all add: Let_def)

lemma wf_notification_apply:
  assumes "wf_snapshot fb"
  shows "wf_snapshot (notification_apply e now fb)"
  using assms by (auto simp: wf_snapshot_def notification_apply_def Let_def all_set_conv_all_nth nth_list_update)

text \<open>The banner leaves every row but the first alone, and the cursor where it is.\<close>

lemma notification_apply_below:
  assumes "0 < row"
  shows "snap_cell (notification_apply e now fb) row col = snap_cell fb row col"
    "sn_cursor_row (notification_apply e now fb) = sn_cursor_row fb" "sn_cursor_col (notification_apply e now fb) = sn_cursor_col fb"
  using assms by (auto simp: notification_apply_def snap_cell_def get_at_def Let_def)

lemma notification_wait_pos: "ne_message e = [] \<or> ne_expiration e = None \<Longrightarrow> 0 < notification_wait e now"
  by (auto simp: notification_wait_def SERVER_LATE_AFTER_def Let_def split: option.split)

end
