(* ===== verification/Predict.thy ===== *)
theory Predict
  imports Snapshot
begin

text \<open>
  \<open>crates/posh/src/remote/predict.rs\<close>: speculative local echo. Keystrokes are drawn on the client's
  snapshot before the server echoes them, as overlay cells and cursor positions that belong to epochs;
  server frames confirm or refute them. Times, stream offsets and epochs are natural numbers (the code
  subtracts times with saturation, as truncated subtraction does, and its counters never reach
  $2^{64}$). The indexing of an overlay row and the cursor prediction that must exist are partial
  results, \<open>None\<close> standing for a panic; the lookups that \<open>get_validity\<close> makes in the snapshot follow its
  own bounds test.
\<close>

section \<open>Constants and settings\<close>

definition SRTT_TRIGGER_LOW :: nat where
  "SRTT_TRIGGER_LOW = 20"

definition SRTT_TRIGGER_HIGH :: nat where
  "SRTT_TRIGGER_HIGH = 30"

definition FLAG_TRIGGER_LOW :: nat where
  "FLAG_TRIGGER_LOW = 50"

definition FLAG_TRIGGER_HIGH :: nat where
  "FLAG_TRIGGER_HIGH = 80"

definition GLITCH_THRESHOLD :: nat where
  "GLITCH_THRESHOLD = 250"

definition GLITCH_REPAIR_COUNT :: nat where
  "GLITCH_REPAIR_COUNT = 10"

definition GLITCH_REPAIR_MININTERVAL :: nat where
  "GLITCH_REPAIR_MININTERVAL = 150"

definition GLITCH_FLAG_THRESHOLD :: nat where
  "GLITCH_FLAG_THRESHOLD = 5000"

definition U64_MAX :: nat where
  "U64_MAX = 18446744073709551615"

datatype DisplayPreference = Always | Never | Adaptive | Experimental

definition parse_preference :: "string option \<Rightarrow> string + DisplayPreference" where
  "parse_preference v =
     (case v of
        None \<Rightarrow> Inr Adaptive
      | Some s \<Rightarrow>
          if s = '''' \<or> s = ''adaptive'' then Inr Adaptive
          else if s = ''always'' then Inr Always
          else if s = ''never'' then Inr Never
          else if s = ''experimental'' then Inr Experimental
          else Inl (''unknown POSH_PREDICTION setting ('' @ s @ '')''))"

datatype Validity = Pending | Correct | CorrectNoCredit | IncorrectOrExpired | Inactive

definition contents_match :: "Cell \<Rightarrow> Cell \<Rightarrow> bool" where
  "contents_match a b \<longleftrightarrow> is_blank a \<and> is_blank b \<or> ch a = ch b \<and> extra a = extra b"

section \<open>Overlay cells\<close>

record OverlayCell =
  oc_active :: bool
  oc_tentative_until :: nat
  oc_expiration :: nat
  oc_time :: nat
  oc_col :: nat
  oc_unknown :: bool
  oc_replacement :: Cell
  oc_original :: "Cell list"

definition overlay_new :: "nat \<Rightarrow> nat \<Rightarrow> OverlayCell" where
  "overlay_new col epoch =
     \<lparr>oc_active = False, oc_tentative_until = epoch, oc_expiration = 0, oc_time = U64_MAX, oc_col = col, oc_unknown = False,
      oc_replacement = blank_cell, oc_original = []\<rparr>"

definition oc_tentative :: "nat \<Rightarrow> OverlayCell \<Rightarrow> bool" where
  "oc_tentative confirmed c \<longleftrightarrow> oc_tentative_until c > confirmed"

definition oc_reset :: "OverlayCell \<Rightarrow> OverlayCell" where
  "oc_reset c = c\<lparr>oc_active := False, oc_unknown := False, oc_tentative_until := U64_MAX, oc_expiration := U64_MAX, oc_original := []\<rparr>"

definition oc_reset_with_orig :: "OverlayCell \<Rightarrow> OverlayCell" where
  "oc_reset_with_orig c =
     (if \<not> oc_active c \<or> oc_unknown c then oc_reset c
      else (oc_reset c)\<lparr>oc_original := oc_original c @ [oc_replacement c]\<rparr>)"

definition oc_expire :: "nat \<Rightarrow> nat \<Rightarrow> OverlayCell \<Rightarrow> OverlayCell" where
  "oc_expire expiration now c = c\<lparr>oc_expiration := expiration, oc_time := now\<rparr>"

definition oc_validity :: "Snapshot \<Rightarrow> nat \<Rightarrow> nat \<Rightarrow> OverlayCell \<Rightarrow> Validity" where
  "oc_validity fb row late_ack c =
     (if \<not> oc_active c then Inactive
      else if row \<ge> sn_rows fb \<or> oc_col c \<ge> sn_cols fb then IncorrectOrExpired
      else if late_ack < oc_expiration c then Pending
      else if oc_unknown c then CorrectNoCredit
      else if is_blank (oc_replacement c) then CorrectNoCredit
      else if contents_match (sn_cells fb ! row ! oc_col c) (oc_replacement c)
      then if \<exists>x \<in> set (oc_original c). contents_match x (oc_replacement c) then CorrectNoCredit else Correct
      else IncorrectOrExpired)"

definition underlined :: "Cell \<Rightarrow> Cell" where
  "underlined x = x\<lparr>cell_style := (cell_style x)\<lparr>st_underline := Single\<rparr>\<rparr>"

definition oc_apply :: "nat \<Rightarrow> nat \<Rightarrow> bool \<Rightarrow> OverlayCell \<Rightarrow> Snapshot \<Rightarrow> Snapshot" where
  "oc_apply confirmed row flag0 c fb =
     (if \<not> oc_active c \<or> row \<ge> sn_rows fb \<or> oc_col c \<ge> sn_cols fb then fb
      else if oc_tentative confirmed c then fb
      else
        let current_blank = (case snap_cell fb row (oc_col c) of None \<Rightarrow> True | Some x \<Rightarrow> is_blank x);
            flag = (if is_blank (oc_replacement c) \<and> current_blank then False else flag0)
        in if oc_unknown c
           then if flag \<and> oc_col c \<noteq> sn_cols fb - 1 then snap_update row (oc_col c) underlined fb else fb
           else if snap_cell fb row (oc_col c) \<noteq> Some (oc_replacement c)
           then snap_update row (oc_col c) (\<lambda>_. if flag then underlined (oc_replacement c) else oc_replacement c) fb
           else fb)"

record OverlayRow =
  or_num :: nat
  or_cells :: "OverlayCell list"

section \<open>Cursor predictions\<close>

record CursorPrediction =
  cp_active :: bool
  cp_tentative_until :: nat
  cp_expiration :: nat
  cp_row :: nat
  cp_col :: nat

definition cp_tentative :: "nat \<Rightarrow> CursorPrediction \<Rightarrow> bool" where
  "cp_tentative confirmed c \<longleftrightarrow> cp_tentative_until c > confirmed"

definition cp_validity :: "Snapshot \<Rightarrow> nat \<Rightarrow> CursorPrediction \<Rightarrow> Validity" where
  "cp_validity fb late_ack c =
     (if \<not> cp_active c then Inactive
      else if cp_row c \<ge> sn_rows fb \<or> cp_col c \<ge> sn_cols fb then IncorrectOrExpired
      else if late_ack \<ge> cp_expiration c
      then if sn_cursor_row fb = cp_row c \<and> sn_cursor_col fb = cp_col c then Correct else IncorrectOrExpired
      else Pending)"

definition cp_apply :: "nat \<Rightarrow> CursorPrediction \<Rightarrow> Snapshot \<Rightarrow> Snapshot" where
  "cp_apply confirmed c fb =
     (if \<not> cp_active c \<or> cp_tentative confirmed c then fb
      else if cp_row c < sn_rows fb \<and> cp_col c < sn_cols fb
      then fb\<lparr>sn_cursor_row := cp_row c, sn_cursor_col := cp_col c\<rparr> else fb)"

section \<open>The keystroke parser\<close>

datatype ParseState = KGround | KEsc | KCsi | KUtf8 nat

datatype InputAction = KPrint nat | KExecute u8 | KEscDispatch | KCsiDispatch u8 | KNone

text \<open>The UTF-8 buffer is the list of its filled bytes.\<close>

record InputParser =
  ip_state :: ParseState
  ip_utf8 :: bytes

definition input_parser_new :: InputParser where
  "input_parser_new = \<lparr>ip_state = KGround, ip_utf8 = []\<rparr>"

definition start_utf8 :: "u8 \<Rightarrow> nat \<Rightarrow> InputParser \<Rightarrow> InputParser" where
  "start_utf8 b need p = p\<lparr>ip_utf8 := [b], ip_state := KUtf8 need\<rparr>"

definition key_ground :: "u8 \<Rightarrow> InputParser \<Rightarrow> InputParser \<times> InputAction" where
  "key_ground b p =
     (if b = 0x1B then (p\<lparr>ip_state := KEsc\<rparr>, KNone)
      else if b \<le> 0x1F then (p, KExecute b)
      else if b \<le> 0x7F then (p, KPrint (unat b))
      else if within 0xC2 0xDF b then (start_utf8 b 1 p, KNone)
      else if within 0xE0 0xEF b then (start_utf8 b 2 p, KNone)
      else if within 0xF0 0xF4 b then (start_utf8 b 3 p, KNone)
      else (p, KExecute b))"

definition key_input :: "u8 \<Rightarrow> InputParser \<Rightarrow> InputParser \<times> InputAction" where
  "key_input b p =
     (case ip_state p of
        KGround \<Rightarrow> key_ground b p
      | KEsc \<Rightarrow> if b = 0x5B \<or> b = 0x4F then (p\<lparr>ip_state := KCsi\<rparr>, KNone) else (p\<lparr>ip_state := KGround\<rparr>, KEscDispatch)
      | KCsi \<Rightarrow>
          if within 0x20 0x3F b then (p, KNone)
          else if within 0x40 0x7E b then (p\<lparr>ip_state := KGround\<rparr>, KCsiDispatch b)
          else (p\<lparr>ip_state := KGround\<rparr>, KExecute b)
      | KUtf8 need \<Rightarrow>
          if is_cont b
          then let p1 = p\<lparr>ip_utf8 := ip_utf8 p @ [b]\<rparr>
               in if need = 1
                  then (p1\<lparr>ip_state := KGround\<rparr>,
                        if utf8_valid (ip_utf8 p1)
                        then KPrint (case first_char (ip_utf8 p1) of None \<Rightarrow> 32 | Some c \<Rightarrow> c) else KExecute 0)
                  else (p1\<lparr>ip_state := KUtf8 (need - 1)\<rparr>, KNone)
          else key_ground b (p\<lparr>ip_state := KGround\<rparr>))"

section \<open>The engine\<close>

record PredictionEngine =
  pe_parser :: InputParser
  pe_overlays :: "OverlayRow list"
  pe_cursors :: "CursorPrediction list"
  pe_sent :: nat
  pe_acked :: nat
  pe_late_acked :: nat
  pe_epoch :: nat
  pe_confirmed :: nat
  pe_flagging :: bool
  pe_srtt_trigger :: bool
  pe_glitch_trigger :: nat
  pe_last_quick :: nat
  pe_send_interval :: nat
  pe_last_height :: nat
  pe_last_width :: nat
  pe_preference :: DisplayPreference
  pe_overwrite :: bool
  pe_mispredict_resets :: nat
  pe_correct :: nat
  pe_nocredit :: nat
  pe_incorrect :: nat

definition engine_new :: "DisplayPreference \<Rightarrow> bool \<Rightarrow> PredictionEngine" where
  "engine_new preference overwrite =
     \<lparr>pe_parser = input_parser_new, pe_overlays = [], pe_cursors = [], pe_sent = 0, pe_acked = 0, pe_late_acked = 0,
      pe_epoch = 1, pe_confirmed = 0, pe_flagging = False, pe_srtt_trigger = False, pe_glitch_trigger = 0,
      pe_last_quick = 0, pe_send_interval = 250, pe_last_height = 0, pe_last_width = 0, pe_preference = preference,
      pe_overwrite = overwrite, pe_mispredict_resets = 0, pe_correct = 0, pe_nocredit = 0, pe_incorrect = 0\<rparr>"

definition set_local_frame_sent :: "nat \<Rightarrow> PredictionEngine \<Rightarrow> PredictionEngine" where
  "set_local_frame_sent x e = e\<lparr>pe_sent := x\<rparr>"

definition set_local_frame_acked :: "nat \<Rightarrow> PredictionEngine \<Rightarrow> PredictionEngine" where
  "set_local_frame_acked x e = e\<lparr>pe_acked := max (pe_acked e) x\<rparr>"

definition set_local_frame_late_acked :: "nat \<Rightarrow> PredictionEngine \<Rightarrow> PredictionEngine" where
  "set_local_frame_late_acked x e = e\<lparr>pe_late_acked := max (pe_late_acked e) x\<rparr>"

definition set_send_interval :: "nat \<Rightarrow> PredictionEngine \<Rightarrow> PredictionEngine" where
  "set_send_interval x e = e\<lparr>pe_send_interval := x\<rparr>"

definition predictions_active :: "PredictionEngine \<Rightarrow> bool" where
  "predictions_active e \<longleftrightarrow> pe_cursors e \<noteq> [] \<or> (\<exists>row \<in> set (pe_overlays e). \<exists>c \<in> set (or_cells row). oc_active c)"

definition predictions_shown :: "PredictionEngine \<Rightarrow> bool" where
  "predictions_shown e =
     (case pe_preference e of
        Never \<Rightarrow> False
      | Always \<Rightarrow> True
      | Experimental \<Rightarrow> True
      | Adaptive \<Rightarrow> pe_srtt_trigger e \<or> pe_glitch_trigger e > 0)"

definition shown_cells :: "PredictionEngine \<Rightarrow> nat" where
  "shown_cells e =
     (if \<not> predictions_shown e then 0
      else length (filter (\<lambda>c. oc_active c \<and> \<not> oc_tentative (pe_confirmed e) c) (concat (map or_cells (pe_overlays e)))))"

definition epoch_lag :: "PredictionEngine \<Rightarrow> nat" where
  "epoch_lag e = pe_epoch e - pe_confirmed e"

definition needs_timer :: "PredictionEngine \<Rightarrow> bool" where
  "needs_timer e \<longleftrightarrow> predictions_active e \<and> \<not> (pe_glitch_trigger e > 0 \<and> pe_flagging e)"

definition become_tentative :: "PredictionEngine \<Rightarrow> PredictionEngine" where
  "become_tentative e = (if pe_preference e \<noteq> Experimental then e\<lparr>pe_epoch := pe_epoch e + 1\<rparr> else e)"

definition engine_reset :: "PredictionEngine \<Rightarrow> PredictionEngine" where
  "engine_reset e = become_tentative (e\<lparr>pe_cursors := [], pe_overlays := []\<rparr>)"

text \<open>\<open>self.cursor()\<close>: the last cursor prediction, which must exist, and an assignment through it.\<close>

definition last_cursor :: "PredictionEngine \<Rightarrow> CursorPrediction option" where
  "last_cursor e = (if pe_cursors e = [] then None else Some (last (pe_cursors e)))"

definition on_last_cursor :: "(CursorPrediction \<Rightarrow> CursorPrediction) \<Rightarrow> PredictionEngine \<Rightarrow> PredictionEngine option" where
  "on_last_cursor g e =
     (if pe_cursors e = [] then None
      else Some (e\<lparr>pe_cursors := butlast (pe_cursors e) @ [g (last (pe_cursors e))]\<rparr>))"

definition init_cursor :: "Snapshot \<Rightarrow> PredictionEngine \<Rightarrow> PredictionEngine" where
  "init_cursor fb e =
     (if (case last_cursor e of None \<Rightarrow> False | Some c \<Rightarrow> cp_tentative_until c = pe_epoch e) then e
      else let (row, col) = (case last_cursor e of None \<Rightarrow> (sn_cursor_row fb, sn_cursor_col fb) | Some c \<Rightarrow> (cp_row c, cp_col c))
           in e\<lparr>pe_cursors := pe_cursors e @ [\<lparr>cp_active = True, cp_tentative_until = pe_epoch e, cp_expiration = pe_sent e + 1,
                                            cp_row = row, cp_col = col\<rparr>]\<rparr>)"

text \<open>\<open>get_or_make_row\<close>: the index of the overlay row and the engine that has it.\<close>

fun row_position :: "nat \<Rightarrow> OverlayRow list \<Rightarrow> nat option" where
  "row_position n [] = None"
| "row_position n (r # rs) = (if or_num r = n then Some 0 else map_option Suc (row_position n rs))"

definition get_or_make_row :: "nat \<Rightarrow> nat \<Rightarrow> PredictionEngine \<Rightarrow> nat \<times> PredictionEngine" where
  "get_or_make_row row_num num_cols e =
     (case row_position row_num (pe_overlays e) of
        Some i \<Rightarrow> (i, e)
      | None \<Rightarrow>
          (length (pe_overlays e),
           e\<lparr>pe_overlays := pe_overlays e @ [\<lparr>or_num = row_num, or_cells = map (\<lambda>i. overlay_new i (pe_epoch e)) [0..<num_cols]\<rparr>]\<rparr>))"

definition row_cells :: "nat \<Rightarrow> PredictionEngine \<Rightarrow> OverlayCell list" where
  "row_cells i e = or_cells (pe_overlays e ! i)"

definition set_row_cells :: "nat \<Rightarrow> OverlayCell list \<Rightarrow> PredictionEngine \<Rightarrow> PredictionEngine" where
  "set_row_cells i cs e = e\<lparr>pe_overlays := (pe_overlays e)[i := (pe_overlays e ! i)\<lparr>or_cells := cs\<rparr>]\<rparr>"

definition kill_epoch :: "Snapshot \<Rightarrow> nat \<Rightarrow> PredictionEngine \<Rightarrow> PredictionEngine" where
  "kill_epoch fb epoch e =
     become_tentative
       (e\<lparr>pe_cursors := filter (\<lambda>c. \<not> cp_tentative (epoch - 1) c) (pe_cursors e)
             @ [\<lparr>cp_active = True, cp_tentative_until = pe_epoch e, cp_expiration = pe_sent e + 1,
                 cp_row = sn_cursor_row fb, cp_col = sn_cursor_col fb\<rparr>],
          pe_overlays := map (\<lambda>r. r\<lparr>or_cells := map (\<lambda>c. if oc_tentative (epoch - 1) c then oc_reset c else c) (or_cells r)\<rparr>)
                           (pe_overlays e)\<rparr>)"

definition apply_row :: "nat \<Rightarrow> bool \<Rightarrow> OverlayRow \<Rightarrow> Snapshot \<Rightarrow> Snapshot" where
  "apply_row confirmed flag r = fold (oc_apply confirmed (or_num r) flag) (or_cells r)"

definition predictions_apply :: "PredictionEngine \<Rightarrow> Snapshot \<Rightarrow> Snapshot" where
  "predictions_apply e fb =
     (if \<not> predictions_shown e then fb
      else fold (apply_row (pe_confirmed e) (pe_flagging e)) (pe_overlays e)
             (fold (cp_apply (pe_confirmed e)) (pe_cursors e) fb))"

section \<open>Validation against a server frame\<close>

text \<open>The local variables of the validation loops of \<open>cull\<close>.\<close>

record CullState =
  cu_do_reset :: bool
  cu_kill :: "nat list"
  cu_confirmed :: nat
  cu_glitch :: nat
  cu_last_quick :: nat
  cu_correct :: nat
  cu_nocredit :: nat
  cu_incorrect :: nat

definition cull_incorrect :: "bool \<Rightarrow> OverlayCell \<Rightarrow> CullState \<Rightarrow> OverlayCell \<times> CullState" where
  "cull_incorrect experimental c st0 =
     (let st = st0\<lparr>cu_incorrect := cu_incorrect st0 + 1\<rparr>
      in if experimental then (oc_reset c, st)
         else if oc_tentative (cu_confirmed st) c then (c, st\<lparr>cu_kill := cu_kill st @ [oc_tentative_until c]\<rparr>)
         else (c, st\<lparr>cu_do_reset := True\<rparr>))"

definition cull_correct :: "nat \<Rightarrow> OverlayCell \<Rightarrow> CullState \<Rightarrow> CullState" where
  "cull_correct now c st0 =
     (let st = st0\<lparr>cu_correct := cu_correct st0 + 1,
                   cu_confirmed := (if oc_tentative_until c > cu_confirmed st0 then oc_tentative_until c else cu_confirmed st0)\<rparr>
      in if now - oc_time c < GLITCH_THRESHOLD \<and> cu_glitch st > 0 \<and> now - GLITCH_REPAIR_MININTERVAL \<ge> cu_last_quick st
         then st\<lparr>cu_glitch := cu_glitch st - 1, cu_last_quick := now\<rparr> else st)"

definition cull_pending :: "nat \<Rightarrow> OverlayCell \<Rightarrow> CullState \<Rightarrow> CullState" where
  "cull_pending now c st =
     (let outstanding = now - oc_time c
      in if outstanding \<ge> GLITCH_FLAG_THRESHOLD then st\<lparr>cu_glitch := GLITCH_REPAIR_COUNT * 2\<rparr>
         else if outstanding \<ge> GLITCH_THRESHOLD \<and> cu_glitch st < GLITCH_REPAIR_COUNT
         then st\<lparr>cu_glitch := GLITCH_REPAIR_COUNT\<rparr> else st)"

definition restyle :: "Cell option \<Rightarrow> OverlayCell \<Rightarrow> OverlayCell" where
  "restyle actual k =
     (case actual of None \<Rightarrow> k | Some a \<Rightarrow> k\<lparr>oc_replacement := (oc_replacement k)\<lparr>cell_style := cell_style a\<rparr>\<rparr>)"

text \<open>The cells of a row from one on; a refuted confirmed prediction ends the loop.\<close>

function cull_cells :: "bool \<Rightarrow> Snapshot \<Rightarrow> nat \<Rightarrow> nat \<Rightarrow> nat \<Rightarrow> OverlayCell list \<Rightarrow> CullState \<Rightarrow> OverlayCell list \<times> CullState" where
  "cull_cells experimental fb row late_ack now [] st = ([], st)"
| "cull_cells experimental fb row late_ack now (c # cs) st =
     (case oc_validity fb row late_ack c of
        IncorrectOrExpired \<Rightarrow>
          let (c', st') = cull_incorrect experimental c st
          in if cu_do_reset st' then (c' # cs, st')
             else map_prod (Cons c') id (cull_cells experimental fb row late_ack now cs st')
      | Correct \<Rightarrow>
          let actual = snap_cell fb row (oc_col c)
          in map_prod (Cons (oc_reset (restyle actual c))) id
               (cull_cells experimental fb row late_ack now (map (restyle actual) cs) (cull_correct now c st))
      | CorrectNoCredit \<Rightarrow>
          map_prod (Cons (oc_reset c)) id
            (cull_cells experimental fb row late_ack now cs (st\<lparr>cu_nocredit := cu_nocredit st + 1\<rparr>))
      | Pending \<Rightarrow> map_prod (Cons c) id (cull_cells experimental fb row late_ack now cs (cull_pending now c st))
      | Inactive \<Rightarrow> map_prod (Cons c) id (cull_cells experimental fb row late_ack now cs st))"
  by pat_completeness auto
termination by (relation "measure (\<lambda>(_, _, _, _, _, cs, _). length cs)") auto

fun cull_rows :: "bool \<Rightarrow> Snapshot \<Rightarrow> nat \<Rightarrow> nat \<Rightarrow> OverlayRow list \<Rightarrow> CullState \<Rightarrow> OverlayRow list \<times> CullState" where
  "cull_rows experimental fb late_ack now [] st = ([], st)"
| "cull_rows experimental fb late_ack now (r # rs) st =
     (let (cs, st') = cull_cells experimental fb (or_num r) late_ack now (or_cells r) st; r' = r\<lparr>or_cells := cs\<rparr>
      in if cu_do_reset st' then (r' # rs, st')
         else map_prod (Cons r') id (cull_rows experimental fb late_ack now rs st'))"

definition cull_size :: "Snapshot \<Rightarrow> PredictionEngine \<Rightarrow> PredictionEngine" where
  "cull_size fb e =
     (if pe_last_height e \<noteq> sn_rows fb \<or> pe_last_width e \<noteq> sn_cols fb
      then engine_reset (e\<lparr>pe_last_height := sn_rows fb, pe_last_width := sn_cols fb\<rparr>) else e)"

definition cull_triggers :: "PredictionEngine \<Rightarrow> PredictionEngine" where
  "cull_triggers e0 =
     (let e1 = (if pe_send_interval e0 > SRTT_TRIGGER_HIGH then e0\<lparr>pe_srtt_trigger := True\<rparr>
                else if pe_srtt_trigger e0 \<and> pe_send_interval e0 \<le> SRTT_TRIGGER_LOW \<and> \<not> predictions_active e0
                then e0\<lparr>pe_srtt_trigger := False\<rparr> else e0);
          e2 = (if pe_send_interval e1 > FLAG_TRIGGER_HIGH then e1\<lparr>pe_flagging := True\<rparr>
                else if pe_send_interval e1 \<le> FLAG_TRIGGER_LOW then e1\<lparr>pe_flagging := False\<rparr> else e1)
      in if pe_glitch_trigger e2 > GLITCH_REPAIR_COUNT then e2\<lparr>pe_flagging := True\<rparr> else e2)"

text \<open>The cell loops with the assignments behind them; whether the overlay is to be reset, and the epochs to kill.\<close>

definition cull_overlays :: "Snapshot \<Rightarrow> nat \<Rightarrow> PredictionEngine \<Rightarrow> PredictionEngine \<times> bool \<times> nat list" where
  "cull_overlays fb now e =
     (let (rows, st) = cull_rows (pe_preference e = Experimental) fb (pe_late_acked e) now
            (filter (\<lambda>r. or_num r < sn_rows fb) (pe_overlays e))
            \<lparr>cu_do_reset = False, cu_kill = [], cu_confirmed = pe_confirmed e, cu_glitch = pe_glitch_trigger e,
             cu_last_quick = pe_last_quick e, cu_correct = 0, cu_nocredit = 0, cu_incorrect = 0\<rparr>
      in (e\<lparr>pe_overlays := rows, pe_confirmed := cu_confirmed st, pe_glitch_trigger := cu_glitch st,
            pe_last_quick := cu_last_quick st, pe_correct := pe_correct e + cu_correct st,
            pe_nocredit := pe_nocredit e + cu_nocredit st, pe_incorrect := pe_incorrect e + cu_incorrect st\<rparr>,
          cu_do_reset st, cu_kill st))"

definition mispredicted :: "PredictionEngine \<Rightarrow> PredictionEngine" where
  "mispredicted e = engine_reset (e\<lparr>pe_mispredict_resets := pe_mispredict_resets e + 1\<rparr>)"

definition cull_cursors :: "Snapshot \<Rightarrow> PredictionEngine \<Rightarrow> PredictionEngine" where
  "cull_cursors fb e =
     (let wrong = (case last_cursor e of None \<Rightarrow> False | Some c \<Rightarrow> cp_validity fb (pe_late_acked e) c = IncorrectOrExpired)
      in if wrong \<and> pe_preference e \<noteq> Experimental then mispredicted e
         else let e1 = (if wrong then e\<lparr>pe_cursors := []\<rparr> else e)
              in e1\<lparr>pe_cursors := filter (\<lambda>c. cp_validity fb (pe_late_acked e1) c = Pending) (pe_cursors e1)\<rparr>)"

definition cull :: "Snapshot \<Rightarrow> nat \<Rightarrow> PredictionEngine \<Rightarrow> PredictionEngine" where
  "cull fb now e =
     (if pe_preference e = Never then e
      else case cull_overlays fb now (cull_triggers (cull_size fb e)) of
             (e1, do_reset, epochs) \<Rightarrow>
               if do_reset then mispredicted e1 else cull_cursors fb (fold (kill_epoch fb) epochs e1))"

section \<open>Keystrokes\<close>

text \<open>An overlay cell that predicts something anew, over the server's cell \<open>orig\<close>.\<close>

definition predict_over :: "nat \<Rightarrow> nat \<Rightarrow> nat \<Rightarrow> Cell \<Rightarrow> OverlayCell \<Rightarrow> OverlayCell" where
  "predict_over epoch expiration now orig c =
     (let c1 = oc_expire expiration now ((oc_reset_with_orig c)\<lparr>oc_active := True, oc_tentative_until := epoch\<rparr>)
      in c1\<lparr>oc_original := oc_original c1 @ [orig]\<rparr>)"

definition snap_or_blank :: "Snapshot \<Rightarrow> nat \<Rightarrow> nat \<Rightarrow> Cell" where
  "snap_or_blank fb row col = (case snap_cell fb row col of None \<Rightarrow> blank_cell | Some c \<Rightarrow> c)"

text \<open>What a cell shows: the prediction, \<open>None\<close> when that is unknown, or the server's cell.\<close>

definition shown_state :: "Snapshot \<Rightarrow> nat \<Rightarrow> nat \<Rightarrow> OverlayCell \<Rightarrow> Cell option" where
  "shown_state fb row col c =
     (if oc_active c then if oc_unknown c then None else Some (oc_replacement c) else snap_cell fb row col)"

definition assume_state :: "Cell option \<Rightarrow> OverlayCell \<Rightarrow> OverlayCell" where
  "assume_state s c = (case s of None \<Rightarrow> c\<lparr>oc_unknown := True\<rparr> | Some x \<Rightarrow> c\<lparr>oc_unknown := False, oc_replacement := x\<rparr>)"

text \<open>The cells from \<open>i\<close> down to the one right of the cursor take what their left neighbours show.\<close>

fun shift_right :: "Snapshot \<Rightarrow> nat \<Rightarrow> nat \<Rightarrow> nat \<Rightarrow> nat \<Rightarrow> nat \<Rightarrow> nat \<Rightarrow> OverlayCell list \<Rightarrow> OverlayCell list option" where
  "shift_right fb row col epoch expiration now 0 cs = Some cs"
| "shift_right fb row col epoch expiration now (Suc i) cs =
     (if Suc i > col
      then Option.bind (get_at cs i) (\<lambda>left_cell. Option.bind (get_at cs (Suc i)) (\<lambda>c.
             let c1 = predict_over epoch expiration now (snap_or_blank fb row (Suc i)) c;
                 c2 = (if Suc i = sn_cols fb - 1 then c1\<lparr>oc_unknown := True\<rparr>
                       else assume_state (shown_state fb row i left_cell) c1)
             in shift_right fb row col epoch expiration now i (cs[Suc i := c2])))
      else Some cs)"

definition glyph_style :: "Snapshot \<Rightarrow> nat \<Rightarrow> nat \<Rightarrow> OverlayCell list \<Rightarrow> Style option" where
  "glyph_style fb row col cs =
     (if col > 0
      then map_option (\<lambda>left_cell.
             if oc_active left_cell \<and> \<not> oc_unknown left_cell then cell_style (oc_replacement left_cell)
             else case snap_cell fb row (col - 1) of None \<Rightarrow> style_default | Some c \<Rightarrow> cell_style c) (get_at cs (col - 1))
      else Some style_default)"

definition predict_glyph :: "Snapshot \<Rightarrow> nat \<Rightarrow> nat \<Rightarrow> nat \<Rightarrow> nat \<Rightarrow> nat \<Rightarrow> nat \<Rightarrow> OverlayCell list \<Rightarrow> OverlayCell list option" where
  "predict_glyph fb row col epoch expiration now c cs =
     Option.bind (glyph_style fb row col cs) (\<lambda>style. Option.bind (get_at cs col) (\<lambda>cell.
       Some (cs[col := (predict_over epoch expiration now (snap_or_blank fb row col) cell)
                         \<lparr>oc_unknown := False,
                          oc_replacement := \<lparr>ch = c, cell_style = style, width = 1, extra = [], hyperlink = 0\<rparr>\<rparr>])))"

definition newline_carriage_return :: "Snapshot \<Rightarrow> nat \<Rightarrow> PredictionEngine \<Rightarrow> PredictionEngine option" where
  "newline_carriage_return fb now e0 =
     Option.bind (on_last_cursor (\<lambda>c. c\<lparr>cp_col := 0\<rparr>) (init_cursor fb e0)) (\<lambda>e.
     Option.bind (last_cursor e) (\<lambda>cur.
       if cp_row cur = sn_rows fb - 1
       then let (i, e1) = get_or_make_row (cp_row cur) (sn_cols fb) e
            in Some (set_row_cells i
                 (map (\<lambda>c. (oc_expire (pe_sent e + 1) now (c\<lparr>oc_active := True, oc_tentative_until := pe_epoch e\<rparr>))
                            \<lparr>oc_unknown := False, oc_replacement := blank_cell\<rparr>) (row_cells i e1)) e1)
       else on_last_cursor (\<lambda>c. c\<lparr>cp_row := cp_row c + 1\<rparr>) e))"

text \<open>The cells left of a deleted one stay; from there on each takes what its right neighbour shows.\<close>

fun shift_left :: "Snapshot \<Rightarrow> nat \<Rightarrow> nat \<Rightarrow> nat \<Rightarrow> nat \<Rightarrow> nat list \<Rightarrow> OverlayCell list \<Rightarrow> OverlayCell list option" where
  "shift_left fb row epoch expiration now [] cs = Some cs"
| "shift_left fb row epoch expiration now (i # is) cs =
     Option.bind (if i + 2 < sn_cols fb then map_option (shown_state fb row (i + 1)) (get_at cs (i + 1)) else Some None)
       (\<lambda>next_state. Option.bind (get_at cs i) (\<lambda>c.
          shift_left fb row epoch expiration now is
            (cs[i := assume_state next_state (predict_over epoch expiration now (snap_or_blank fb row i) c)])))"

definition rub_out :: "Snapshot \<Rightarrow> nat \<Rightarrow> nat \<Rightarrow> nat \<Rightarrow> nat \<Rightarrow> nat \<Rightarrow> OverlayCell list \<Rightarrow> OverlayCell list option" where
  "rub_out fb row col epoch expiration now cs =
     map_option (\<lambda>c. cs[col := (predict_over epoch expiration now (snap_or_blank fb row col) c)
                                 \<lparr>oc_replacement := (snap_or_blank fb row col)\<lparr>ch := 32, extra := [], width := 1\<rparr>\<rparr>])
       (get_at cs col)"

definition handle_backspace :: "Snapshot \<Rightarrow> nat \<Rightarrow> PredictionEngine \<Rightarrow> PredictionEngine option" where
  "handle_backspace fb now e0 =
     (let e = init_cursor fb e0
      in Option.bind (last_cursor e) (\<lambda>cur.
           if cp_col cur = 0 then Some e
           else Option.bind (on_last_cursor (\<lambda>c. c\<lparr>cp_col := cp_col c - 1, cp_expiration := pe_sent e + 1\<rparr>) e) (\<lambda>e1.
             let (i, e2) = get_or_make_row (cp_row cur) (sn_cols fb) e1; cs = row_cells i e2; col = cp_col cur - 1
             in map_option (\<lambda>cs'. set_row_cells i cs' e2)
                  (if pe_overwrite e2 then rub_out fb (cp_row cur) col (pe_epoch e2) (pe_sent e2 + 1) now cs
                   else shift_left fb (cp_row cur) (pe_epoch e2) (pe_sent e2 + 1) now [col..<sn_cols fb] cs))))"

definition handle_print :: "nat \<Rightarrow> Snapshot \<Rightarrow> nat \<Rightarrow> PredictionEngine \<Rightarrow> PredictionEngine option" where
  "handle_print c fb now e0 =
     (if c = 0x7F then handle_backspace fb now e0
      else if c < 0x20 \<or> wcwidth c \<noteq> 1 then Some (become_tentative e0)
      else let e = init_cursor fb e0
           in Option.bind (last_cursor e) (\<lambda>cur.
                let row = cp_row cur; col = cp_col cur; wide = sn_cols fb; expiration = pe_sent e + 1
                in if row \<ge> sn_rows fb \<or> col \<ge> wide then Some e
                   else
                     let e1 = (if col + 1 \<ge> wide then become_tentative e else e); epoch = pe_epoch e1;
                         (i, e2) = get_or_make_row row wide e1
                     in Option.bind (shift_right fb row col epoch expiration now (if pe_overwrite e2 then col else wide - 1)
                                       (row_cells i e2)) (\<lambda>cs.
                        Option.bind (predict_glyph fb row col epoch expiration now c cs) (\<lambda>cs'.
                        Option.bind (on_last_cursor (\<lambda>c. c\<lparr>cp_expiration := expiration\<rparr>) (set_row_cells i cs' e2)) (\<lambda>e3.
                          if col + 1 < wide then on_last_cursor (\<lambda>c. c\<lparr>cp_col := col + 1\<rparr>) e3
                          else newline_carriage_return fb now (become_tentative e3))))))"

definition move_cursor :: "bool \<Rightarrow> Snapshot \<Rightarrow> PredictionEngine \<Rightarrow> PredictionEngine option" where
  "move_cursor right fb e0 =
     (let e = init_cursor fb e0
      in Option.bind (last_cursor e) (\<lambda>cur.
           if (if right then cp_col cur + 1 < sn_cols fb else cp_col cur > 0)
           then on_last_cursor (\<lambda>c. c\<lparr>cp_col := (if right then cp_col c + 1 else cp_col c - 1), cp_expiration := pe_sent e + 1\<rparr>) e
           else Some e))"

definition input_step :: "InputAction \<Rightarrow> Snapshot \<Rightarrow> nat \<Rightarrow> PredictionEngine \<Rightarrow> PredictionEngine option" where
  "input_step action fb now e =
     (case action of
        KPrint c \<Rightarrow> handle_print c fb now e
      | KExecute b \<Rightarrow>
          if b = 0x0D then newline_carriage_return fb now (become_tentative e) else Some (become_tentative e)
      | KEscDispatch \<Rightarrow> Some (become_tentative e)
      | KCsiDispatch f \<Rightarrow>
          if f = 0x43 then move_cursor True fb e
          else if f = 0x44 then move_cursor False fb e else Some (become_tentative e)
      | KNone \<Rightarrow> Some e)"

definition new_user_byte :: "u8 \<Rightarrow> Snapshot \<Rightarrow> nat \<Rightarrow> PredictionEngine \<Rightarrow> PredictionEngine option" where
  "new_user_byte byte fb now e0 =
     (if pe_preference e0 = Never then Some e0
      else let e1 = (if pe_preference e0 = Experimental then e0\<lparr>pe_epoch := pe_confirmed e0\<rparr> else e0);
               e2 = cull fb now e1;
               (p, action) = key_input byte (pe_parser e2)
           in input_step action fb now (e2\<lparr>pe_parser := p\<rparr>))"

end
