(* ===== verification/Predict_Inv.thy ===== *)
theory Predict_Inv
  imports Predict
begin

text \<open>
  What the prediction engine keeps and shows. Every overlay row has one cell per column of the last
  frame, so no keystroke makes the engine index outside a row or look for a cursor that is not there.
  After a frame has been validated every active prediction is one the server has not answered, so
  whatever the overlay changes is pending, and a frame that answers everything is shown as it is.
\<close>

section \<open>Overlay rows keep their shape\<close>

definition wf_overlay :: "nat \<Rightarrow> OverlayRow \<Rightarrow> bool" where
  "wf_overlay w r \<longleftrightarrow> map oc_col (or_cells r) = [0..<w]"

definition pred_inv :: "PredictionEngine \<Rightarrow> bool" where
  "pred_inv e \<longleftrightarrow> (\<forall>r \<in> set (pe_overlays e). wf_overlay (pe_last_width e) r)"

text \<open>An engine that has seen the dimensions of the frame and has its cursors on it.\<close>

definition fits :: "Snapshot \<Rightarrow> PredictionEngine \<Rightarrow> bool" where
  "fits fb e \<longleftrightarrow> pred_inv e \<and> pe_last_height e = sn_rows fb \<and> pe_last_width e = sn_cols fb
     \<and> (\<forall>c \<in> set (pe_cursors e). cp_row c < sn_rows fb \<and> cp_col c < sn_cols fb)"

lemma oc_col_simps [simp]:
  "oc_col (oc_reset c) = oc_col c" "oc_col (oc_reset_with_orig c) = oc_col c" "oc_col (oc_expire x t c) = oc_col c"
  "oc_col (restyle a c) = oc_col c" "oc_col (predict_over ep x t orig c) = oc_col c" "oc_col (assume_state s c) = oc_col c"
  "oc_col (overlay_new col ep) = col"
  by (simp_all add: oc_reset_def oc_reset_with_orig_def oc_expire_def restyle_def predict_over_def assume_state_def
      overlay_new_def Let_def split: option.split)

lemma oc_col_if [simp]: "oc_col (if b then oc_reset c else c) = oc_col c"
  by simp

lemma cull_incorrect_col [simp]: "oc_col (fst (cull_incorrect ex c st)) = oc_col c"
  by (simp add: cull_incorrect_def Let_def)

lemma cull_cells_cols: "map oc_col (fst (cull_cells ex fb row late now cs st)) = map oc_col cs"
proof (induction ex fb row late now cs st rule: cull_cells.induct)
  case (2 ex fb row late now c cs st)
  obtain c' st' where i: "cull_incorrect ex c st = (c', st')" by fastforce
  then have "oc_col c' = oc_col c" using cull_incorrect_col [of ex c st] by simp
  then show ?case
    using 2 i by (cases "oc_validity fb row late c") (auto simp: Let_def comp_def)
qed simp

lemma cull_rows_wf: "\<forall>r \<in> set rs. wf_overlay w r \<Longrightarrow> \<forall>r \<in> set (fst (cull_rows ex fb late now rs st)). wf_overlay w r"
proof (induction ex fb late now rs st rule: cull_rows.induct)
  case (2 ex fb late now r rs st)
  obtain cs st' where p: "cull_cells ex fb (or_num r) late now (or_cells r) st = (cs, st')" by fastforce
  have "wf_overlay w (r\<lparr>or_cells := cs\<rparr>)"
    using 2(2) cull_cells_cols [of ex fb "or_num r" late now "or_cells r" st] by (simp add: wf_overlay_def p)
  then show ?case using 2 p by (auto simp: Let_def)
qed simp

lemma become_tentative_simps [simp]:
  "pe_overlays (become_tentative e) = pe_overlays e" "pe_cursors (become_tentative e) = pe_cursors e"
  "pe_last_width (become_tentative e) = pe_last_width e" "pe_last_height (become_tentative e) = pe_last_height e"
  "pe_preference (become_tentative e) = pe_preference e" "pe_late_acked (become_tentative e) = pe_late_acked e"
  "pe_sent (become_tentative e) = pe_sent e" "pe_parser (become_tentative e) = pe_parser e"
  "pe_overwrite (become_tentative e) = pe_overwrite e"
  by (simp_all add: become_tentative_def)

lemma engine_reset_simps [simp]:
  "pe_overlays (engine_reset e) = []" "pe_cursors (engine_reset e) = []"
  "pe_last_width (engine_reset e) = pe_last_width e" "pe_last_height (engine_reset e) = pe_last_height e"
  "pe_preference (engine_reset e) = pe_preference e" "pe_late_acked (engine_reset e) = pe_late_acked e"
  by (simp_all add: engine_reset_def)

lemma mispredicted_simps [simp]:
  "pe_overlays (mispredicted e) = []" "pe_cursors (mispredicted e) = []"
  "pe_last_width (mispredicted e) = pe_last_width e" "pe_last_height (mispredicted e) = pe_last_height e"
  "pe_preference (mispredicted e) = pe_preference e" "pe_late_acked (mispredicted e) = pe_late_acked e"
  by (simp_all add: mispredicted_def)

lemma pred_inv_simps [simp]: "pred_inv (become_tentative e) = pred_inv e" "pred_inv (engine_reset e)" "pred_inv (mispredicted e)"
  by (simp_all add: pred_inv_def)

lemma kill_epoch_simps [simp]:
  "pe_last_width (kill_epoch fb k e) = pe_last_width e" "pe_last_height (kill_epoch fb k e) = pe_last_height e"
  "pe_preference (kill_epoch fb k e) = pe_preference e" "pe_late_acked (kill_epoch fb k e) = pe_late_acked e"
  by (simp_all add: kill_epoch_def)

lemma kill_epoch_inv: "pred_inv e \<Longrightarrow> pred_inv (kill_epoch fb k e)"
  by (auto simp: pred_inv_def wf_overlay_def kill_epoch_def comp_def simp del: if_split)

lemma kill_epochs_inv:
  "pred_inv e \<Longrightarrow> pred_inv (fold (kill_epoch fb) ks e)"
  "pe_last_width (fold (kill_epoch fb) ks e) = pe_last_width e" "pe_last_height (fold (kill_epoch fb) ks e) = pe_last_height e"
  "pe_preference (fold (kill_epoch fb) ks e) = pe_preference e" "pe_late_acked (fold (kill_epoch fb) ks e) = pe_late_acked e"
  by (induction ks arbitrary: e) (simp_all add: kill_epoch_inv)

lemma triggers_simps [simp]:
  "pe_overlays (cull_triggers e) = pe_overlays e" "pe_cursors (cull_triggers e) = pe_cursors e"
  "pe_last_width (cull_triggers e) = pe_last_width e" "pe_last_height (cull_triggers e) = pe_last_height e"
  "pe_preference (cull_triggers e) = pe_preference e" "pe_late_acked (cull_triggers e) = pe_late_acked e"
  by (simp_all add: cull_triggers_def Let_def)

lemma cull_size_simps:
  "pe_last_height (cull_size fb e) = sn_rows fb" "pe_last_width (cull_size fb e) = sn_cols fb"
  "pe_preference (cull_size fb e) = pe_preference e" "pe_late_acked (cull_size fb e) = pe_late_acked e"
  by (auto simp: cull_size_def)

lemma cull_size_inv: "pred_inv e \<Longrightarrow> pred_inv (cull_size fb e)"
  by (simp add: cull_size_def)

lemma cull_overlays_simps:
  assumes "cull_overlays fb now e = (e1, dr, ks)"
  shows "pe_cursors e1 = pe_cursors e" "pe_last_width e1 = pe_last_width e" "pe_last_height e1 = pe_last_height e"
    "pe_preference e1 = pe_preference e" "pe_late_acked e1 = pe_late_acked e" "pred_inv e \<Longrightarrow> pred_inv e1"
proof -
  let ?rs = "filter (\<lambda>r. or_num r < sn_rows fb) (pe_overlays e)"
  obtain rows st where r: "cull_rows (pe_preference e = Experimental) fb (pe_late_acked e) now ?rs
      \<lparr>cu_do_reset = False, cu_kill = [], cu_confirmed = pe_confirmed e, cu_glitch = pe_glitch_trigger e,
       cu_last_quick = pe_last_quick e, cu_correct = 0, cu_nocredit = 0, cu_incorrect = 0\<rparr> = (rows, st)" by fastforce
  have e1: "e1 = e\<lparr>pe_overlays := rows, pe_confirmed := cu_confirmed st, pe_glitch_trigger := cu_glitch st,
            pe_last_quick := cu_last_quick st, pe_correct := pe_correct e + cu_correct st,
            pe_nocredit := pe_nocredit e + cu_nocredit st, pe_incorrect := pe_incorrect e + cu_incorrect st\<rparr>"
    using assms by (simp add: cull_overlays_def r)
  show "pe_cursors e1 = pe_cursors e" "pe_last_width e1 = pe_last_width e" "pe_last_height e1 = pe_last_height e"
    "pe_preference e1 = pe_preference e" "pe_late_acked e1 = pe_late_acked e" by (simp_all add: e1)
  show "pred_inv e1" if "pred_inv e"
  proof -
    have "\<forall>r \<in> set ?rs. wf_overlay (pe_last_width e) r" using that by (simp add: pred_inv_def)
    from cull_rows_wf [OF this, of "pe_preference e = Experimental" fb "pe_late_acked e" now] show ?thesis
      unfolding pred_inv_def e1 using r by simp (metis fst_conv)
  qed
qed

lemma cull_cursors_simps [simp]:
  "pe_last_width (cull_cursors fb e) = pe_last_width e" "pe_last_height (cull_cursors fb e) = pe_last_height e"
  "pe_preference (cull_cursors fb e) = pe_preference e" "pe_late_acked (cull_cursors fb e) = pe_late_acked e"
  by (simp_all add: cull_cursors_def Let_def)

lemma cull_cursors_inv: "pred_inv e \<Longrightarrow> pred_inv (cull_cursors fb e)"
  by (simp add: cull_cursors_def Let_def) (simp add: pred_inv_def)

lemma cull_cursors_pending: "\<forall>c \<in> set (pe_cursors (cull_cursors fb e)). cp_validity fb (pe_late_acked e) c = Pending"
  by (simp add: cull_cursors_def Let_def)

lemma cp_pending:
  assumes "cp_validity fb late c = Pending"
  shows "cp_row c < sn_rows fb" "cp_col c < sn_cols fb" "late < cp_expiration c" "cp_active c"
  using assms by (auto simp: cp_validity_def split: if_splits)

text \<open>The three ways a validation ends.\<close>

lemma cull_cases:
  assumes "pe_preference e \<noteq> Never" "cull_overlays fb now (cull_triggers (cull_size fb e)) = (e1, dr, ks)"
  obtains "dr" "cull fb now e = mispredicted e1"
  | "\<not> dr" "cull fb now e = cull_cursors fb (fold (kill_epoch fb) ks e1)"
  using assms by (auto simp: cull_def split: if_splits)

lemma cull_fits:
  assumes "pred_inv e" "pe_preference e \<noteq> Never"
  shows "fits fb (cull fb now e)" "pe_late_acked (cull fb now e) = pe_late_acked e" "pe_preference (cull fb now e) = pe_preference e"
proof -
  obtain e1 dr ks where c: "cull_overlays fb now (cull_triggers (cull_size fb e)) = (e1, dr, ks)" by (metis prod_cases3)
  have inv: "pred_inv (cull_triggers (cull_size fb e))" using cull_size_inv [OF assms(1)] by (simp add: pred_inv_def)
  note s = cull_overlays_simps [OF c] cull_overlays_simps(6) [OF c inv] cull_size_simps
  show "fits fb (cull fb now e)" "pe_late_acked (cull fb now e) = pe_late_acked e" "pe_preference (cull fb now e) = pe_preference e"
    using cull_cases [OF assms(2) c] s cull_cursors_inv [OF kill_epochs_inv(1), of e1 fb fb ks]
      cull_cursors_pending [of fb "fold (kill_epoch fb) ks e1"]
    by (cases; auto simp: fits_def kill_epochs_inv dest: cp_pending)+
qed

lemma cull_inv: "pred_inv e \<Longrightarrow> pred_inv (cull fb now e)"
  using cull_fits(1) [of e fb now] by (cases "pe_preference e = Never") (auto simp: cull_def fits_def)

section \<open>No keystroke makes the engine panic\<close>

text \<open>A result that is there and fits the frame.\<close>

definition goes_on :: "Snapshot \<Rightarrow> PredictionEngine option \<Rightarrow> bool" where
  "goes_on fb r \<longleftrightarrow> (\<exists>e. r = Some e \<and> fits fb e)"

lemma goes_on_Some [simp]: "goes_on fb (Some e) = fits fb e"
  by (simp add: goes_on_def)

lemma fits_tentative [simp]: "fits fb (become_tentative e) = fits fb e"
  by (simp add: fits_def)

lemma init_cursor_nonempty: "pe_cursors (init_cursor fb e) \<noteq> []"
  by (auto simp: init_cursor_def last_cursor_def split: if_splits)

lemma init_cursor_simps [simp]:
  "pe_overlays (init_cursor fb e) = pe_overlays e" "pe_last_width (init_cursor fb e) = pe_last_width e"
  "pe_last_height (init_cursor fb e) = pe_last_height e" "pe_sent (init_cursor fb e) = pe_sent e"
  "pe_epoch (init_cursor fb e) = pe_epoch e" "pe_overwrite (init_cursor fb e) = pe_overwrite e"
  by (simp_all add: init_cursor_def case_prod_unfold Let_def)

lemma init_cursor_fits:
  assumes "fits fb e" "wf_snapshot fb"
  shows "fits fb (init_cursor fb e)"
proof (cases "pe_cursors e = []")
  case False
  then have "last (pe_cursors e) \<in> set (pe_cursors e)" by simp
  then show ?thesis using assms False by (auto simp: fits_def pred_inv_def init_cursor_def last_cursor_def)
qed (use assms in \<open>auto simp: fits_def pred_inv_def init_cursor_def last_cursor_def wf_snapshot_def\<close>)

lemma last_cursor_fits:
  assumes "fits fb e" "pe_cursors e \<noteq> []"
  obtains c where "last_cursor e = Some c" "cp_row c < sn_rows fb" "cp_col c < sn_cols fb"
  using assms last_in_set [of "pe_cursors e"] by (auto simp: fits_def last_cursor_def)

lemma on_last_cursor_fits:
  assumes "fits fb e" "last_cursor e = Some c" "cp_row (g c) < sn_rows fb" "cp_col (g c) < sn_cols fb"
  shows "\<exists>e'. on_last_cursor g e = Some e' \<and> fits fb e' \<and> last_cursor e' = Some (g c) \<and> pe_sent e' = pe_sent e"
  using assms by (auto simp: fits_def pred_inv_def on_last_cursor_def last_cursor_def dest!: in_set_butlastD split: if_splits)

lemma on_last_goes_on:
  "fits fb e \<Longrightarrow> last_cursor e = Some c \<Longrightarrow> cp_row (g c) < sn_rows fb \<Longrightarrow> cp_col (g c) < sn_cols fb
   \<Longrightarrow> goes_on fb (on_last_cursor g e)"
  using on_last_cursor_fits [of fb e c g] by (auto simp: goes_on_def)

lemma init_cursor_last:
  assumes "fits fb e" "wf_snapshot fb"
  obtains c where "last_cursor (init_cursor fb e) = Some c" "cp_row c < sn_rows fb" "cp_col c < sn_cols fb"
  using last_cursor_fits [OF init_cursor_fits [OF assms] init_cursor_nonempty] .

lemma row_position_Some: "row_position n rs = Some i \<Longrightarrow> i < length rs \<and> or_num (rs ! i) = n"
  by (induction rs arbitrary: i) (auto split: if_splits)

lemma get_or_make_row_fits:
  assumes "get_or_make_row n (sn_cols fb) e = (i, e')" "fits fb e"
  shows "i < length (pe_overlays e')" "fits fb e'" "map oc_col (row_cells i e') = [0..<sn_cols fb]"
    "pe_cursors e' = pe_cursors e" "pe_epoch e' = pe_epoch e" "pe_sent e' = pe_sent e" "pe_overwrite e' = pe_overwrite e"
  using assms
  by (auto simp: get_or_make_row_def fits_def pred_inv_def row_cells_def wf_overlay_def comp_def
      dest: row_position_Some split: option.splits)

lemma set_row_cells_fits:
  assumes "fits fb e" "map oc_col cs = [0..<sn_cols fb]"
  shows "fits fb (set_row_cells i cs e)"
  using assms set_update_subset_insert [of "pe_overlays e" i]
  by (fastforce simp: fits_def pred_inv_def set_row_cells_def wf_overlay_def)

lemma set_row_cells_simps [simp]:
  "pe_cursors (set_row_cells i cs e) = pe_cursors e" "pe_sent (set_row_cells i cs e) = pe_sent e"
  by (simp_all add: set_row_cells_def)

lemma map_update_same: "i < length cs \<Longrightarrow> f x = f (cs ! i) \<Longrightarrow> map f (cs[i := x]) = map f cs"
  by (simp add: map_update list_update_same_conv)

lemma shift_right_ok:
  assumes "i < length cs"
  shows "\<exists>cs'. shift_right fb row col ep x now i cs = Some cs' \<and> map oc_col cs' = map oc_col cs"
  using assms
proof (induction fb row col ep x now i cs rule: shift_right.induct)
  case (2 fb row col ep x now i cs)
  show ?case
  proof (cases "Suc i > col")
    case True
    let ?c1 = "predict_over ep x now (snap_or_blank fb row (Suc i)) (cs ! Suc i)"
    let ?c2 = "if Suc i = sn_cols fb - 1 then ?c1\<lparr>oc_unknown := True\<rparr> else assume_state (shown_state fb row i (cs ! i)) ?c1"
    have g: "get_at cs i = Some (cs ! i)" "get_at cs (Suc i) = Some (cs ! Suc i)" using 2(2) by (simp_all add: get_at_def)
    have "oc_col ?c2 = oc_col (cs ! Suc i)" by simp
    then have "map oc_col (cs[Suc i := ?c2]) = map oc_col cs" using 2(2) by (rule map_update_same [rotated])
    moreover have "\<exists>cs'. shift_right fb row col ep x now i (cs[Suc i := ?c2]) = Some cs' \<and> map oc_col cs' = map oc_col (cs[Suc i := ?c2])"
      using 2(1) [OF True g refl refl] 2(2) by simp
    ultimately show ?thesis using True g by (simp add: Let_def)
  qed simp
qed simp

lemma predict_glyph_ok:
  assumes "col < length cs"
  shows "\<exists>cs'. predict_glyph fb row col ep x now c cs = Some cs' \<and> map oc_col cs' = map oc_col cs"
  using assms by (auto simp: predict_glyph_def glyph_style_def get_at_def map_update_same)

lemma shift_left_ok:
  assumes "\<forall>i \<in> set is. i < sn_cols fb" "length cs = sn_cols fb"
  shows "\<exists>cs'. shift_left fb row ep x now is cs = Some cs' \<and> map oc_col cs' = map oc_col cs"
  using assms
proof (induction "is" arbitrary: cs)
  case (Cons i "is")
  let ?cs = "\<lambda>s. cs[i := assume_state s (predict_over ep x now (snap_or_blank fb row i) (cs ! i))]"
  have "map oc_col (?cs s) = map oc_col cs" for s using Cons.prems by (intro map_update_same) simp_all
  moreover have "\<exists>cs'. shift_left fb row ep x now is (?cs s) = Some cs' \<and> map oc_col cs' = map oc_col (?cs s)" for s
    using Cons.prems by (intro Cons.IH) simp_all
  ultimately show ?case using Cons.prems by (simp add: get_at_def)
qed simp

lemma rub_out_ok:
  assumes "col < length cs"
  shows "\<exists>cs'. rub_out fb row col ep x now cs = Some cs' \<and> map oc_col cs' = map oc_col cs"
  using assms by (auto simp: rub_out_def get_at_def map_update_same)

lemma newline_goes_on:
  assumes "fits fb e" "wf_snapshot fb"
  shows "goes_on fb (newline_carriage_return fb now e)"
proof -
  let ?e = "init_cursor fb e" and ?g = "\<lambda>c. c\<lparr>cp_col := 0\<rparr>"
  obtain c where c: "last_cursor ?e = Some c" "cp_row c < sn_rows fb" "cp_col c < sn_cols fb" using init_cursor_last [OF assms] .
  have pos: "0 < sn_cols fb" "0 < sn_rows fb" using assms(2) by (simp_all add: wf_snapshot_def)
  obtain e1 where e1: "on_last_cursor ?g ?e = Some e1" "fits fb e1" "last_cursor e1 = Some (?g c)"
    using on_last_cursor_fits [OF init_cursor_fits [OF assms] c(1), of ?g] c(2) pos by auto
  obtain i e2 where g: "get_or_make_row (cp_row c) (sn_cols fb) e1 = (i, e2)" by fastforce
  note g' = get_or_make_row_fits [OF g e1(2)]
  have "fits fb (set_row_cells i (map (\<lambda>c. (oc_expire (pe_sent e1 + 1) now (c\<lparr>oc_active := True, oc_tentative_until := pe_epoch e1\<rparr>))
                            \<lparr>oc_unknown := False, oc_replacement := blank_cell\<rparr>) (row_cells i e2)) e2)"
    using g'(3) by (intro set_row_cells_fits g'(2)) (simp add: comp_def oc_expire_def)
  moreover have "goes_on fb (on_last_cursor (\<lambda>c. c\<lparr>cp_row := cp_row c + 1\<rparr>) e1)" if "cp_row c \<noteq> sn_rows fb - 1"
    by (rule on_last_goes_on [OF e1(2,3)]) (use that c(2) pos in auto)
  ultimately show ?thesis
    by (cases "cp_row c = sn_rows fb - 1") (use g in \<open>simp_all add: newline_carriage_return_def e1(1,3)\<close>)
qed

lemma move_cursor_goes_on:
  assumes "fits fb e" "wf_snapshot fb"
  shows "goes_on fb (move_cursor right fb e)"
proof -
  let ?e = "init_cursor fb e"
  obtain c where c: "last_cursor ?e = Some c" "cp_row c < sn_rows fb" "cp_col c < sn_cols fb" using init_cursor_last [OF assms] .
  let ?g = "\<lambda>c. c\<lparr>cp_col := (if right then cp_col c + 1 else cp_col c - 1), cp_expiration := pe_sent ?e + 1\<rparr>"
  have "goes_on fb (on_last_cursor ?g ?e)" if "if right then cp_col c + 1 < sn_cols fb else cp_col c > 0"
    by (rule on_last_goes_on [OF init_cursor_fits [OF assms] c(1)]) (use that c in auto)
  then show ?thesis using init_cursor_fits [OF assms] c(1) by (auto simp: move_cursor_def Let_def)
qed

lemma backspace_goes_on:
  assumes "fits fb e" "wf_snapshot fb"
  shows "goes_on fb (handle_backspace fb now e)"
proof -
  let ?e = "init_cursor fb e"
  note f = init_cursor_fits [OF assms]
  obtain c where c: "last_cursor ?e = Some c" "cp_row c < sn_rows fb" "cp_col c < sn_cols fb" using init_cursor_last [OF assms] .
  let ?g = "\<lambda>c. c\<lparr>cp_col := cp_col c - 1, cp_expiration := pe_sent ?e + 1\<rparr>"
  have b: "cp_row (?g c) < sn_rows fb" "cp_col (?g c) < sn_cols fb" using c by simp_all
  obtain e1 where e1: "on_last_cursor ?g ?e = Some e1" "fits fb e1"
    using on_last_cursor_fits [OF f c(1), of ?g, OF b] by blast
  obtain i e2 where g: "get_or_make_row (cp_row c) (sn_cols fb) e1 = (i, e2)" by fastforce
  note g' = get_or_make_row_fits [OF g e1(2)]
  have len: "length (row_cells i e2) = sn_cols fb" using arg_cong [OF g'(3), of length] by simp
  let ?r = "if pe_overwrite e2 then rub_out fb (cp_row c) (cp_col c - 1) (pe_epoch e2) (pe_sent e2 + 1) now (row_cells i e2)
            else shift_left fb (cp_row c) (pe_epoch e2) (pe_sent e2 + 1) now [cp_col c - 1..<sn_cols fb] (row_cells i e2)"
  have b: "cp_col c - 1 < length (row_cells i e2)" "\<forall>k \<in> set [cp_col c - 1..<sn_cols fb]. k < sn_cols fb" using c(3) len by simp_all
  obtain cs where "?r = Some cs" "map oc_col cs = [0..<sn_cols fb]"
    using rub_out_ok [OF b(1), of fb "cp_row c" "pe_epoch e2" "pe_sent e2 + 1" now]
      shift_left_ok [OF b(2) len, of "cp_row c" "pe_epoch e2" "pe_sent e2 + 1" now] unfolding g'(3) by (cases "pe_overwrite e2") auto
  then have "goes_on fb (map_option (\<lambda>cs'. set_row_cells i cs' e2) ?r)" using set_row_cells_fits [OF g'(2)] by simp
  then show ?thesis using f c(1) e1(1) g by (cases "pe_overwrite e2") (simp_all add: handle_backspace_def Let_def)
qed

lemma print_goes_on:
  assumes "fits fb e" "wf_snapshot fb"
  shows "goes_on fb (handle_print k fb now e)"
proof -
  let ?e = "init_cursor fb e"
  note f = init_cursor_fits [OF assms]
  obtain c where c: "last_cursor ?e = Some c" "cp_row c < sn_rows fb" "cp_col c < sn_cols fb" using init_cursor_last [OF assms] .
  let ?row = "cp_row c" and ?col = "cp_col c" and ?x = "pe_sent ?e + 1"
  let ?e1 = "if ?col + 1 \<ge> sn_cols fb then become_tentative ?e else ?e"
  have f1: "fits fb ?e1" "last_cursor ?e1 = last_cursor ?e" using f by (simp_all add: last_cursor_def)
  obtain i e2 where g: "get_or_make_row ?row (sn_cols fb) ?e1 = (i, e2)" by fastforce
  note g' = get_or_make_row_fits [OF g f1(1)]
  have len: "length (row_cells i e2) = sn_cols fb" using arg_cong [OF g'(3), of length] by simp
  let ?i = "if pe_overwrite e2 then ?col else sn_cols fb - 1"
  have "?i < length (row_cells i e2)" using c(3) len by simp
  then obtain cs where cs: "shift_right fb ?row ?col (pe_epoch ?e1) ?x now ?i (row_cells i e2) = Some cs" "map oc_col cs = [0..<sn_cols fb]"
    using shift_right_ok [of ?i "row_cells i e2" fb ?row ?col "pe_epoch ?e1" ?x now] unfolding g'(3) by blast
  have lcs: "length cs = sn_cols fb" using arg_cong [OF cs(2), of length] by simp
  obtain cs' where cs': "predict_glyph fb ?row ?col (pe_epoch ?e1) ?x now k cs = Some cs'" "map oc_col cs' = [0..<sn_cols fb]"
    using predict_glyph_ok [of ?col cs fb ?row "pe_epoch ?e1" ?x now k] c(3) lcs cs(2) by auto
  let ?e3 = "set_row_cells i cs' e2"
  have f3: "fits fb ?e3" "last_cursor ?e3 = Some c"
  proof -
    have "last_cursor ?e3 = last_cursor ?e1" using g'(4) by (simp add: last_cursor_def)
    then show "last_cursor ?e3 = Some c" using f1(2) c(1) by simp
  qed (rule set_row_cells_fits [OF g'(2) cs'(2)])
  obtain e4 where e4: "on_last_cursor (\<lambda>c. c\<lparr>cp_expiration := ?x\<rparr>) ?e3 = Some e4" "fits fb e4"
      "last_cursor e4 = Some (c\<lparr>cp_expiration := ?x\<rparr>)"
    using on_last_cursor_fits [OF f3, of "\<lambda>c. c\<lparr>cp_expiration := ?x\<rparr>"] c by auto
  have "goes_on fb (on_last_cursor (\<lambda>c. c\<lparr>cp_col := ?col + 1\<rparr>) e4)" if "?col + 1 < sn_cols fb"
    by (rule on_last_goes_on [OF e4(2,3)]) (use that c in auto)
  moreover have "goes_on fb (newline_carriage_return fb now (become_tentative e4))"
    by (rule newline_goes_on) (simp_all add: e4(2) assms(2))
  ultimately have "goes_on fb (if ?col + 1 < sn_cols fb then on_last_cursor (\<lambda>c. c\<lparr>cp_col := ?col + 1\<rparr>) e4
      else newline_carriage_return fb now (become_tentative e4))" by simp
  then show ?thesis
    using backspace_goes_on [OF assms] assms(1) c g cs(1) cs'(1) e4(1)
    by (simp add: handle_print_def Let_def)
qed

lemma fits_parser [simp]: "fits fb (e\<lparr>pe_parser := p\<rparr>) = fits fb e"
  by (simp add: fits_def pred_inv_def)

lemma step_goes_on: "fits fb e \<Longrightarrow> wf_snapshot fb \<Longrightarrow> goes_on fb (input_step a fb now e)"
  by (cases a) (simp_all add: input_step_def print_goes_on newline_goes_on move_cursor_goes_on)

lemma user_byte_goes_on:
  assumes "pred_inv e" "wf_snapshot fb"
  shows "\<exists>e'. new_user_byte b fb now e = Some e' \<and> pred_inv e'"
proof (cases "pe_preference e = Never")
  case False
  let ?e1 = "if pe_preference e = Experimental then e\<lparr>pe_epoch := pe_confirmed e\<rparr> else e"
  have "pred_inv ?e1" "pe_preference ?e1 \<noteq> Never" using assms(1) False by (simp_all add: pred_inv_def)
  from cull_fits(1) [OF this] have "fits fb (cull fb now ?e1)" .
  then have "goes_on fb (new_user_byte b fb now e)"
    using step_goes_on [OF _ assms(2)] False by (simp add: new_user_byte_def case_prod_unfold Let_def)
  then show ?thesis by (auto simp: goes_on_def fits_def)
qed (use assms in \<open>simp add: new_user_byte_def\<close>)

end
