(* ===== verification/Predict_Shown.thy ===== *)
theory Predict_Shown
  imports Predict_Inv
begin

text \<open>
  What the overlay shows. After a frame has been validated, every active prediction is one the server
  has not answered yet; so whatever \<open>predictions_apply\<close> changes is pending, and a frame that answers
  everything is shown as it is.
\<close>

section \<open>What validation leaves\<close>

text \<open>An active cell of \<open>rs\<close> at the same place, with the same deadline.\<close>

definition stems_from :: "nat \<Rightarrow> OverlayCell \<Rightarrow> OverlayRow list \<Rightarrow> bool" where
  "stems_from n c rs \<longleftrightarrow>
     (\<exists>r \<in> set rs. or_num r = n \<and> (\<exists>c0 \<in> set (or_cells r). oc_active c0 \<and> oc_col c0 = oc_col c \<and> oc_expiration c0 = oc_expiration c))"

lemma cull_kill_mono:
  "set (cu_kill st) \<subseteq> set (cu_kill (snd (cull_cells ex fb row late now cs st)))"
proof (induction ex fb row late now cs st rule: cull_cells.induct)
  case (2 ex fb row late now c cs st)
  obtain c' st' where i: "cull_incorrect ex c st = (c', st')" by fastforce
  then have "set (cu_kill st) \<subseteq> set (cu_kill st')" by (auto simp: cull_incorrect_def Let_def split: if_splits)
  moreover have "cu_kill (cull_correct now c st) = cu_kill st" "cu_kill (cull_pending now c st) = cu_kill st"
    by (simp_all add: cull_correct_def cull_pending_def Let_def)
  ultimately show ?case using 2 i by (cases "oc_validity fb row late c") (auto simp: Let_def; blast)+
qed simp

text \<open>A cell that is still active after the loop is pending, or marked to be killed with its epoch.\<close>

definition settled :: "Snapshot \<Rightarrow> nat \<Rightarrow> nat \<Rightarrow> nat list \<Rightarrow> OverlayCell \<Rightarrow> bool" where
  "settled fb row late kill c \<longleftrightarrow>
     (oc_active c \<longrightarrow> oc_validity fb row late c = Pending \<or> oc_tentative_until c \<in> set kill \<and> 0 < oc_tentative_until c)"

lemma settled_reset [simp]: "settled fb row late kill (oc_reset c)"
  by (simp add: settled_def oc_reset_def)

lemma settled_mono: "set kill \<subseteq> set kill' \<Longrightarrow> settled fb row late kill c \<Longrightarrow> settled fb row late kill' c"
  by (auto simp: settled_def)

lemma cull_cells_settled:
  "\<not> cu_do_reset (snd (cull_cells ex fb row late now cs st)) \<Longrightarrow>
   \<forall>c \<in> set (fst (cull_cells ex fb row late now cs st)). settled fb row late (cu_kill (snd (cull_cells ex fb row late now cs st))) c"
proof (induction ex fb row late now cs st rule: cull_cells.induct)
  case (2 ex fb row late now c cs st)
  obtain c' st' where i: "cull_incorrect ex c st = (c', st')" by fastforce
  show ?case
  proof (cases "oc_validity fb row late c")
    case IncorrectOrExpired
    have "\<not> cu_do_reset st'" using 2(6) IncorrectOrExpired i by (auto simp: Let_def)
    then have "settled fb row late (cu_kill st') c'"
      using i by (auto simp: cull_incorrect_def settled_def oc_tentative_def oc_reset_def Let_def split: if_splits)
    then have "settled fb row late (cu_kill (snd (cull_cells ex fb row late now cs st'))) c'"
      by (rule settled_mono [OF cull_kill_mono])
    then show ?thesis
      using 2 IncorrectOrExpired i \<open>\<not> cu_do_reset st'\<close> by (auto simp: Let_def)
  next
    case Pending
    then have "settled fb row late k c" for k by (simp add: settled_def)
    then show ?thesis using 2 Pending by auto
  next
    case Inactive
    then have "settled fb row late k c" for k by (auto simp: settled_def oc_validity_def split: if_splits)
    then show ?thesis using 2 Inactive by auto
  qed (use 2 in \<open>auto simp: Let_def\<close>)
qed simp

lemma restyle_fields [simp]: "oc_active (restyle a c) = oc_active c" "oc_expiration (restyle a c) = oc_expiration c"
  by (simp_all add: restyle_def split: option.split)

definition has_origin :: "OverlayCell \<Rightarrow> OverlayCell list \<Rightarrow> bool" where
  "has_origin c cs \<longleftrightarrow> (oc_active c \<longrightarrow> (\<exists>c0 \<in> set cs. oc_active c0 \<and> oc_col c0 = oc_col c \<and> oc_expiration c0 = oc_expiration c))"

lemma has_origin_simps [simp]: "has_origin c (c # cs)" "has_origin (oc_reset c) cs"
  by (auto simp: has_origin_def oc_reset_def)

lemma has_origin_tl: "has_origin c cs \<Longrightarrow> has_origin c (x # cs)" "has_origin c (map (restyle a) cs) \<Longrightarrow> has_origin c (x # cs)"
  by (auto simp: has_origin_def)

lemma cull_cells_origin: "\<forall>c \<in> set (fst (cull_cells ex fb row late now cs st)). has_origin c cs"
proof (induction ex fb row late now cs st rule: cull_cells.induct)
  case (2 ex fb row late now c cs st)
  obtain c' st' where i: "cull_incorrect ex c st = (c', st')" by fastforce
  then have "has_origin c' (c # cs)" by (auto simp: cull_incorrect_def Let_def split: if_splits)
  moreover have "\<forall>x \<in> set cs. has_origin x (c # cs)" by (auto simp: has_origin_def)
  ultimately show ?case
    using 2 i by (cases "oc_validity fb row late c") (auto simp: Let_def intro: has_origin_tl)
qed simp

lemma cull_rows_kill: "set (cu_kill st) \<subseteq> set (cu_kill (snd (cull_rows ex fb late now rs st)))"
proof (induction ex fb late now rs st rule: cull_rows.induct)
  case (2 ex fb late now r rs st)
  obtain cs st' where p: "cull_cells ex fb (or_num r) late now (or_cells r) st = (cs, st')" by fastforce
  then show ?case
    using 2 [OF p [symmetric] refl refl] cull_kill_mono [of st ex fb "or_num r" late now "or_cells r"] by (auto simp: Let_def)
qed simp

lemma cull_rows_settled:
  "\<not> cu_do_reset (snd (cull_rows ex fb late now rs st)) \<Longrightarrow> \<forall>r \<in> set (fst (cull_rows ex fb late now rs st)).
     \<forall>c \<in> set (or_cells r). settled fb (or_num r) late (cu_kill (snd (cull_rows ex fb late now rs st))) c"
proof (induction ex fb late now rs st rule: cull_rows.induct)
  case (2 ex fb late now r rs st)
  obtain cs st' where p: "cull_cells ex fb (or_num r) late now (or_cells r) st = (cs, st')" by fastforce
  have d: "\<not> cu_do_reset st'" using 2(2) p by (auto simp: Let_def)
  have "settled fb (or_num r) late (cu_kill (snd (cull_rows ex fb late now rs st'))) c" if "c \<in> set cs" for c
    using that cull_cells_settled [of ex fb "or_num r" late now "or_cells r" st] p d
    by (auto intro: settled_mono [OF cull_rows_kill])
  then show ?case using 2(1) [OF refl p [symmetric] refl d] 2(2) p d by (auto simp: Let_def)
qed simp

lemma cull_rows_origin:
  "\<forall>r \<in> set (fst (cull_rows ex fb late now rs st)). \<exists>r0 \<in> set rs. or_num r0 = or_num r \<and> (\<forall>c \<in> set (or_cells r). has_origin c (or_cells r0))"
proof (induction ex fb late now rs st rule: cull_rows.induct)
  case (2 ex fb late now r rs st)
  obtain cs st' where p: "cull_cells ex fb (or_num r) late now (or_cells r) st = (cs, st')" by fastforce
  have "\<forall>c \<in> set cs. has_origin c (or_cells r)" using cull_cells_origin [of ex fb "or_num r" late now "or_cells r" st] p by simp
  moreover have "\<forall>x \<in> set rs. \<forall>c \<in> set (or_cells x). has_origin c (or_cells x)" by (auto simp: has_origin_def)
  ultimately show ?case
    using 2(1) [OF p [symmetric] refl] p by (cases "cu_do_reset st'") (auto simp: Let_def)
qed simp

lemma kill_epochs_cells:
  assumes "r \<in> set (pe_overlays (fold (kill_epoch fb) ks e))" "c \<in> set (or_cells r)" "oc_active c"
  shows "(\<exists>r0 \<in> set (pe_overlays e). or_num r0 = or_num r \<and> c \<in> set (or_cells r0)) \<and> (\<forall>k \<in> set ks. \<not> oc_tentative (k - 1) c)"
  using assms
proof (induction ks arbitrary: e)
  case (Cons k ks)
  obtain r1 where r1: "r1 \<in> set (pe_overlays (kill_epoch fb k e))" "or_num r1 = or_num r" "c \<in> set (or_cells r1)"
      "\<forall>k \<in> set ks. \<not> oc_tentative (k - 1) c"
    using Cons.IH [of "kill_epoch fb k e"] Cons.prems by auto
  then obtain r0 c0 where "r0 \<in> set (pe_overlays e)" "or_num r0 = or_num r" "c0 \<in> set (or_cells r0)"
      "c = (if oc_tentative (k - 1) c0 then oc_reset c0 else c0)"
    by (auto simp: kill_epoch_def)
  moreover from this have "\<not> oc_tentative (k - 1) c0" using Cons.prems(3) by (auto simp: oc_reset_def)
  ultimately show ?case using r1(4) by auto
qed auto

lemma kill_epochs_cursors:
  "c \<in> set (pe_cursors (fold (kill_epoch fb) ks e))
   \<Longrightarrow> c \<in> set (pe_cursors e) \<or> cp_row c = sn_cursor_row fb \<and> cp_col c = sn_cursor_col fb"
proof (induction ks arbitrary: e)
  case (Cons k ks)
  from Cons.IH [of "kill_epoch fb k e"] Cons.prems show ?case by (auto simp: kill_epoch_def)
qed simp

lemma cull_cursors_overlays: "r \<in> set (pe_overlays (cull_cursors fb e)) \<Longrightarrow> r \<in> set (pe_overlays e)"
  by (auto simp: cull_cursors_def Let_def split: if_splits)

lemma cull_cursors_cursors: "c \<in> set (pe_cursors (cull_cursors fb e)) \<Longrightarrow> c \<in> set (pe_cursors e)"
  by (auto simp: cull_cursors_def Let_def split: if_splits)

lemma cull_size_overlays:
  "r \<in> set (pe_overlays (cull_size fb e)) \<Longrightarrow> r \<in> set (pe_overlays e)"
  "c \<in> set (pe_cursors (cull_size fb e)) \<Longrightarrow> c \<in> set (pe_cursors e)"
  by (auto simp: cull_size_def split: if_splits)

lemma cull_overlays_settled:
  assumes "cull_overlays fb now e = (e1, False, ks)" "r \<in> set (pe_overlays e1)" "c \<in> set (or_cells r)" "oc_active c"
  shows "settled fb (or_num r) (pe_late_acked e) ks c" "stems_from (or_num r) c (pe_overlays e)"
proof -
  let ?rs = "filter (\<lambda>r. or_num r < sn_rows fb) (pe_overlays e)"
  let ?st = "\<lparr>cu_do_reset = False, cu_kill = [], cu_confirmed = pe_confirmed e, cu_glitch = pe_glitch_trigger e,
       cu_last_quick = pe_last_quick e, cu_correct = 0, cu_nocredit = 0, cu_incorrect = 0\<rparr>"
  let ?out = "cull_rows (pe_preference e = Experimental) fb (pe_late_acked e) now ?rs ?st"
  have o: "pe_overlays e1 = fst ?out" "\<not> cu_do_reset (snd ?out)" "ks = cu_kill (snd ?out)"
    using assms(1) by (auto simp: cull_overlays_def case_prod_unfold Let_def)
  show "settled fb (or_num r) (pe_late_acked e) ks c"
    using cull_rows_settled [OF o(2)] assms(2,3) unfolding o(1,3) by blast
  obtain r0 where "r0 \<in> set ?rs" "or_num r0 = or_num r" "has_origin c (or_cells r0)"
    using cull_rows_origin [of "pe_preference e = Experimental" fb "pe_late_acked e" now ?rs ?st] assms(2,3) unfolding o(1) by blast
  then show "stems_from (or_num r) c (pe_overlays e)" using assms(4) by (auto simp: stems_from_def has_origin_def)
qed

lemma cull_active:
  assumes "pe_preference e \<noteq> Never" "r \<in> set (pe_overlays (cull fb now e))" "c \<in> set (or_cells r)" "oc_active c"
  shows "oc_validity fb (or_num r) (pe_late_acked e) c = Pending" "stems_from (or_num r) c (pe_overlays e)"
proof -
  let ?e0 = "cull_triggers (cull_size fb e)"
  obtain e1 dr ks where o: "cull_overlays fb now ?e0 = (e1, dr, ks)" by (metis prod_cases3)
  from cull_cases [OF assms(1) o] assms(2)
  have dr: "\<not> dr" and r: "r \<in> set (pe_overlays (fold (kill_epoch fb) ks e1))"
    by (cases; auto dest: cull_cursors_overlays)+
  note k = kill_epochs_cells [OF r assms(3,4)]
  then obtain r0 where r0: "r0 \<in> set (pe_overlays e1)" "or_num r0 = or_num r" "c \<in> set (or_cells r0)" by blast
  have "cull_overlays fb now ?e0 = (e1, False, ks)" using o dr by simp
  note s = cull_overlays_settled [OF this r0(1,3) assms(4)]
  have "oc_tentative (oc_tentative_until c - 1) c" if "0 < oc_tentative_until c" using that by (simp add: oc_tentative_def)
  then show "oc_validity fb (or_num r) (pe_late_acked e) c = Pending"
    using s(1) k assms(4) by (auto simp: settled_def r0(2) cull_size_simps)
  show "stems_from (or_num r) c (pe_overlays e)"
    using s(2) by (auto simp: stems_from_def r0(2) dest: cull_size_overlays)
qed

lemma cull_cursor:
  assumes "pe_preference e \<noteq> Never" "c \<in> set (pe_cursors (cull fb now e))"
  shows "cp_validity fb (pe_late_acked e) c = Pending"
    "c \<in> set (pe_cursors e) \<or> cp_row c = sn_cursor_row fb \<and> cp_col c = sn_cursor_col fb"
proof -
  let ?e0 = "cull_triggers (cull_size fb e)"
  obtain e1 dr ks where o: "cull_overlays fb now ?e0 = (e1, dr, ks)" by (metis prod_cases3)
  note s = cull_overlays_simps [OF o]
  from cull_cases [OF assms(1) o] assms(2)
  have c: "c \<in> set (pe_cursors (cull_cursors fb (fold (kill_epoch fb) ks e1)))" by (cases; auto)
  have "pe_late_acked (fold (kill_epoch fb) ks e1) = pe_late_acked e" by (simp add: kill_epochs_inv s cull_size_simps)
  then show "cp_validity fb (pe_late_acked e) c = Pending" using cull_cursors_pending c by fastforce
  show "c \<in> set (pe_cursors e) \<or> cp_row c = sn_cursor_row fb \<and> cp_col c = sn_cursor_col fb"
    using kill_epochs_cursors [OF cull_cursors_cursors [OF c]] s(1) by (auto dest: cull_size_overlays)
qed

section \<open>What is drawn\<close>

lemma oc_apply_dims [simp]:
  "sn_rows (oc_apply cf row flag c fb) = sn_rows fb" "sn_cols (oc_apply cf row flag c fb) = sn_cols fb"
  "sn_cursor_row (oc_apply cf row flag c fb) = sn_cursor_row fb" "sn_cursor_col (oc_apply cf row flag c fb) = sn_cursor_col fb"
  by (simp_all add: oc_apply_def Let_def)

lemma wf_oc_apply [simp]: "wf_snapshot (oc_apply cf row flag c fb) = wf_snapshot fb"
  by (simp add: oc_apply_def Let_def)

lemma cp_apply_dims [simp]:
  "sn_rows (cp_apply cf c fb) = sn_rows fb" "sn_cols (cp_apply cf c fb) = sn_cols fb" "snap_cell (cp_apply cf c fb) = snap_cell fb"
  by (simp_all add: cp_apply_def snap_cell_def fun_eq_iff)

lemma wf_cp_apply [simp]: "wf_snapshot fb \<Longrightarrow> wf_snapshot (cp_apply cf c fb)"
  by (simp add: cp_apply_def wf_snapshot_def)

text \<open>The predictions that draw a cell.\<close>

definition draws :: "nat \<Rightarrow> nat \<Rightarrow> nat \<Rightarrow> nat \<Rightarrow> OverlayCell \<Rightarrow> bool" where
  "draws cf row r col c \<longleftrightarrow> row = r \<and> oc_col c = col \<and> oc_active c \<and> \<not> oc_tentative cf c"

lemma oc_apply_other: "\<not> draws cf row r col c \<Longrightarrow> snap_cell (oc_apply cf row flag c fb) r col = snap_cell fb r col"
  by (auto simp: draws_def oc_apply_def Let_def snap_cell_update)

lemma apply_cells_other:
  "\<forall>c \<in> set cs. \<not> draws cf row r col c \<Longrightarrow> snap_cell (fold (oc_apply cf row flag) cs fb) r col = snap_cell fb r col"
  by (induction cs arbitrary: fb) (simp_all add: oc_apply_other)

lemma apply_rows_other:
  "\<forall>row \<in> set rs. \<forall>c \<in> set (or_cells row). \<not> draws cf (or_num row) r col c
   \<Longrightarrow> snap_cell (fold (apply_row cf flag) rs fb) r col = snap_cell fb r col"
  by (induction rs arbitrary: fb) (simp_all add: apply_row_def apply_cells_other)

lemma apply_row_cursor [simp]:
  "sn_cursor_row (apply_row cf flag row fb) = sn_cursor_row fb" "sn_cursor_col (apply_row cf flag row fb) = sn_cursor_col fb"
proof -
  have "sn_cursor_row (fold (oc_apply cf n flag) cs fb) = sn_cursor_row fb \<and> sn_cursor_col (fold (oc_apply cf n flag) cs fb) = sn_cursor_col fb" for n cs
    by (induction cs arbitrary: fb) simp_all
  then show "sn_cursor_row (apply_row cf flag row fb) = sn_cursor_row fb" "sn_cursor_col (apply_row cf flag row fb) = sn_cursor_col fb"
    by (simp_all add: apply_row_def)
qed

lemma apply_rows_cursor [simp]:
  "sn_cursor_row (fold (apply_row cf flag) rs fb) = sn_cursor_row fb" "sn_cursor_col (fold (apply_row cf flag) rs fb) = sn_cursor_col fb"
  by (induction rs arbitrary: fb) simp_all

lemma cp_apply_cells [simp]: "snap_cell (fold (cp_apply cf) cs fb) = snap_cell fb"
  by (induction cs arbitrary: fb) simp_all

lemma cp_apply_cursor:
  "(sn_cursor_row (fold (cp_apply cf) cs fb), sn_cursor_col (fold (cp_apply cf) cs fb)) = (sn_cursor_row fb, sn_cursor_col fb)
   \<or> (\<exists>c \<in> set cs. \<not> cp_tentative cf c \<and> sn_cursor_row (fold (cp_apply cf) cs fb) = cp_row c \<and> sn_cursor_col (fold (cp_apply cf) cs fb) = cp_col c)"
proof (induction cs arbitrary: fb)
  case (Cons c cs)
  from Cons.IH [of "cp_apply cf c fb"] show ?case by (auto simp: cp_apply_def split: if_splits)
qed simp

lemma drawn_is_pending:
  assumes "pe_preference e \<noteq> Never" "snap_cell (predictions_apply (cull fb now e) fb) r col \<noteq> snap_cell fb r col"
  shows "\<exists>row \<in> set (pe_overlays (cull fb now e)). \<exists>c \<in> set (or_cells row). or_num row = r \<and> oc_col c = col
    \<and> \<not> oc_tentative (pe_confirmed (cull fb now e)) c \<and> oc_active c \<and> pe_late_acked e < oc_expiration c
    \<and> stems_from r c (pe_overlays e)"
proof -
  have "\<exists>row \<in> set (pe_overlays (cull fb now e)). \<exists>c \<in> set (or_cells row). draws (pe_confirmed (cull fb now e)) (or_num row) r col c"
  proof (rule ccontr)
    assume "\<not> ?thesis"
    then have "snap_cell (fold (apply_row (pe_confirmed (cull fb now e)) flag) (pe_overlays (cull fb now e)) x) r col = snap_cell x r col"
      for flag x by (intro apply_rows_other) blast
    then show False using assms(2) by (simp add: predictions_apply_def split: if_splits)
  qed
  then obtain row c where c: "row \<in> set (pe_overlays (cull fb now e))" "c \<in> set (or_cells row)"
      "draws (pe_confirmed (cull fb now e)) (or_num row) r col c" by blast
  then have a: "oc_active c" "or_num row = r" by (simp_all add: draws_def)
  note v = cull_active [OF assms(1) c(1,2) a(1)]
  then have "pe_late_acked e < oc_expiration c" using a by (auto simp: oc_validity_def split: if_splits)
  then show ?thesis using c v(2) by (auto simp: draws_def)
qed

lemma drawn_cursor_pending:
  assumes "pe_preference e \<noteq> Never"
    and "sn_cursor_row (predictions_apply (cull fb now e) fb) \<noteq> sn_cursor_row fb
      \<or> sn_cursor_col (predictions_apply (cull fb now e) fb) \<noteq> sn_cursor_col fb"
  shows "\<exists>c \<in> set (pe_cursors (cull fb now e)). c \<in> set (pe_cursors e) \<and> \<not> cp_tentative (pe_confirmed (cull fb now e)) c
    \<and> pe_late_acked e < cp_expiration c \<and> sn_cursor_row (predictions_apply (cull fb now e) fb) = cp_row c
    \<and> sn_cursor_col (predictions_apply (cull fb now e) fb) = cp_col c"
proof -
  let ?e = "cull fb now e"
  obtain c where c: "c \<in> set (pe_cursors ?e)" "\<not> cp_tentative (pe_confirmed ?e) c"
      "sn_cursor_row (predictions_apply ?e fb) = cp_row c" "sn_cursor_col (predictions_apply ?e fb) = cp_col c"
    using assms(2) cp_apply_cursor [of "pe_confirmed ?e" "pe_cursors ?e" fb] by (auto simp: predictions_apply_def split: if_splits)
  then show ?thesis using cull_cursor [OF assms(1) c(1)] cp_pending(3) assms(2) by auto
qed

text \<open>A frame whose acknowledgement covers every prediction is shown unchanged.\<close>

definition all_answered :: "PredictionEngine \<Rightarrow> bool" where
  "all_answered e \<longleftrightarrow>
     (\<forall>row \<in> set (pe_overlays e). \<forall>c \<in> set (or_cells row). oc_active c \<longrightarrow> oc_expiration c \<le> pe_late_acked e)
     \<and> (\<forall>c \<in> set (pe_cursors e). cp_expiration c \<le> pe_late_acked e)"

lemma answered_frame_shown:
  assumes "all_answered e"
  shows "snap_cell (predictions_apply (cull fb now e) fb) r col = snap_cell fb r col"
    "sn_cursor_row (predictions_apply (cull fb now e) fb) = sn_cursor_row fb"
    "sn_cursor_col (predictions_apply (cull fb now e) fb) = sn_cursor_col fb"
proof -
  have n: "predictions_apply (cull fb now e) fb = fb" if "pe_preference e = Never"
    using that by (simp add: cull_def predictions_apply_def predictions_shown_def)
  show "snap_cell (predictions_apply (cull fb now e) fb) r col = snap_cell fb r col"
    using drawn_is_pending [of e fb now r col] n assms by (fastforce simp: all_answered_def stems_from_def)
  show "sn_cursor_row (predictions_apply (cull fb now e) fb) = sn_cursor_row fb"
    "sn_cursor_col (predictions_apply (cull fb now e) fb) = sn_cursor_col fb"
    using drawn_cursor_pending [of e fb now] n assms by (fastforce simp: all_answered_def)+
qed

end
