(* ===== verification/Predict_Typed.thy ===== *)
theory Predict_Typed
  imports Predict_Shown
begin

text \<open>
  A typed character, end to end: with the epoch confirmed and predictions displayed, a printable ASCII
  key puts its character at the cursor of the local picture, moves the cursor on, and (unless the
  engine overwrites) moves the rest of the line one column right, before the server has seen the key.
\<close>

definition glyph :: "Cell \<Rightarrow> nat \<times> nat list \<times> nat" where
  "glyph c = (ch c, extra c, width c)"

lemma glyph_underlined [simp]: "glyph (underlined c) = glyph c"
  by (simp add: glyph_def underlined_def)

text \<open>A cell of the overlay row acts on its own column only.\<close>

lemma oc_apply_local:
  assumes "snap_cell fb row (oc_col c) = snap_cell fb' row (oc_col c)" "sn_rows fb = sn_rows fb'" "sn_cols fb = sn_cols fb'"
  shows "snap_cell (oc_apply cf row flag c fb) row (oc_col c) = snap_cell (oc_apply cf row flag c fb') row (oc_col c)"
  using assms by (simp add: oc_apply_def snap_cell_update Let_def)

lemma apply_cells_at:
  assumes "distinct (map oc_col cs)" "c \<in> set cs"
  shows "snap_cell (fold (oc_apply cf row flag) cs fb) row (oc_col c) = snap_cell (oc_apply cf row flag c fb) row (oc_col c)"
proof -
  obtain as bs where cs: "cs = as @ c # bs" using split_list [OF assms(2)] by blast
  have n: "oc_col c \<notin> oc_col ` set as" "oc_col c \<notin> oc_col ` set bs" using assms(1) by (simp_all add: cs)
  have o: "\<forall>x \<in> set as. \<not> draws cf row row (oc_col c) x" "\<forall>x \<in> set bs. \<not> draws cf row row (oc_col c) x"
    using n unfolding draws_def by (metis image_eqI)+
  have d: "sn_rows (fold (oc_apply cf row flag) as fb) = sn_rows fb \<and> sn_cols (fold (oc_apply cf row flag) as fb) = sn_cols fb"
    by (induction "as" arbitrary: fb) simp_all
  have "snap_cell (oc_apply cf row flag c (fold (oc_apply cf row flag) as fb)) row (oc_col c) = snap_cell (oc_apply cf row flag c fb) row (oc_col c)"
    by (rule oc_apply_local) (simp_all add: d apply_cells_other [OF o(1)])
  then show ?thesis by (simp add: cs apply_cells_other [OF o(2)])
qed

lemma oc_apply_inactive: "\<not> oc_active c \<Longrightarrow> oc_apply cf row flag c fb = fb"
  by (simp add: oc_apply_def)

lemma oc_apply_glyph:
  assumes "oc_active c" "\<not> oc_tentative cf c" "\<not> oc_unknown c" "row < sn_rows fb" "oc_col c < sn_cols fb" "wf_snapshot fb"
  shows "map_option glyph (snap_cell (oc_apply cf row flag c fb) row (oc_col c)) = Some (glyph (oc_replacement c))"
proof -
  obtain y where "snap_cell fb row (oc_col c) = Some y" using assms(4-6) by (simp add: snap_cell_in)
  then show ?thesis using assms(1-5) by (auto simp: oc_apply_def snap_cell_update Let_def)
qed

lemma oc_apply_unknown:
  assumes "oc_unknown c" "oc_col c = sn_cols fb - 1"
  shows "oc_apply cf row flag c fb = fb"
  using assms by (simp add: oc_apply_def Let_def)

text \<open>The shift over a row without predictions.\<close>

definition shifted :: "Snapshot \<Rightarrow> nat \<Rightarrow> nat \<Rightarrow> nat \<Rightarrow> nat \<Rightarrow> nat \<Rightarrow> OverlayCell \<Rightarrow> OverlayCell" where
  "shifted fb row ep x now k c =
     (let c1 = predict_over ep x now (snap_or_blank fb row k) c
      in if k = sn_cols fb - 1 then c1\<lparr>oc_unknown := True\<rparr> else assume_state (snap_cell fb row (k - 1)) c1)"

lemma shift_right_fresh:
  assumes "i < length cs" "\<forall>k \<le> i. \<not> oc_active (cs ! k)"
  shows "\<exists>cs'. shift_right fb row col ep x now i cs = Some cs' \<and> length cs' = length cs
    \<and> (\<forall>k. k \<le> col \<or> i < k \<longrightarrow> cs' ! k = cs ! k) \<and> (\<forall>k. col < k \<and> k \<le> i \<longrightarrow> cs' ! k = shifted fb row ep x now k (cs ! k))"
  using assms
proof (induction i arbitrary: cs)
  case (Suc i)
  show ?case
  proof (cases "Suc i > col")
    case True
    let ?cs = "cs[Suc i := shifted fb row ep x now (Suc i) (cs ! Suc i)]"
    have step: "shift_right fb row col ep x now (Suc i) cs = shift_right fb row col ep x now i ?cs"
      using True Suc.prems by (simp add: get_at_def shown_state_def shifted_def Let_def)
    have "i < length ?cs" "\<forall>k \<le> i. \<not> oc_active (?cs ! k)" using Suc.prems by simp_all
    from Suc.IH [OF this] obtain cs' where cs': "shift_right fb row col ep x now i ?cs = Some cs'" "length cs' = length cs"
        "\<forall>k. k \<le> col \<or> i < k \<longrightarrow> cs' ! k = ?cs ! k" "\<forall>k. col < k \<and> k \<le> i \<longrightarrow> cs' ! k = shifted fb row ep x now k (?cs ! k)" by auto
    have "cs' ! k = cs ! k" if "k \<le> col \<or> Suc i < k" for k using cs'(3) that True by auto
    moreover have "cs' ! k = shifted fb row ep x now k (cs ! k)" if "col < k \<and> k \<le> Suc i" for k
    proof (cases "k = Suc i")
      case False
      then show ?thesis using cs'(4) that by auto
    qed (use cs'(3) Suc.prems in simp)
    ultimately show ?thesis using step cs'(1,2) by auto
  qed (use Suc.prems in auto)
qed simp

section \<open>The engine at rest\<close>

definition at_ease :: "Snapshot \<Rightarrow> PredictionEngine \<Rightarrow> bool" where
  "at_ease fb e \<longleftrightarrow> pe_overlays e = [] \<and> pe_cursors e = [] \<and> pe_last_height e = sn_rows fb \<and> pe_last_width e = sn_cols fb
     \<and> pe_preference e = Always \<and> pe_epoch e \<le> pe_confirmed e \<and> ip_state (pe_parser e) = KGround"

lemma at_ease_cull:
  assumes "at_ease fb e"
  shows "at_ease fb (cull fb now e)" "pe_overwrite (cull fb now e) = pe_overwrite e"
proof -
  let ?t = "cull_triggers e"
  have t: "pe_overlays ?t = []" "pe_cursors ?t = []" "pe_last_height ?t = sn_rows fb" "pe_last_width ?t = sn_cols fb"
    "pe_preference ?t = Always" "pe_epoch ?t = pe_epoch e" "pe_confirmed ?t = pe_confirmed e" "pe_parser ?t = pe_parser e"
    "pe_overwrite ?t = pe_overwrite e"
    using assms by (simp_all add: at_ease_def cull_triggers_def Let_def)
  have "cull_size fb e = e" using assms by (simp add: at_ease_def cull_size_def)
  then have "cull fb now e = cull_cursors fb (fst (cull_overlays fb now ?t))"
    using assms t by (simp add: cull_def at_ease_def cull_overlays_def)
  moreover have "cull_cursors fb (fst (cull_overlays fb now ?t)) = fst (cull_overlays fb now ?t)"
    using t by (simp add: cull_cursors_def cull_overlays_def last_cursor_def)
  ultimately show "at_ease fb (cull fb now e)" "pe_overwrite (cull fb now e) = pe_overwrite e"
    using t assms by (simp_all add: at_ease_def cull_overlays_def)
qed

lemma key_printable:
  assumes "ip_state p = KGround" "32 \<le> b" "b < 127"
  shows "key_input b p = (p, KPrint (unat b))"
proof -
  have "unat b < 127" "32 \<le> unat b" using assms(2,3) by (simp_all add: word_less_nat_alt word_le_nat_alt)
  then have "b \<noteq> 0x1B" "\<not> b \<le> 0x1F" "b \<le> 0x7F" by (auto simp: word_le_nat_alt)
  then show ?thesis using assms(1) by (simp add: key_input_def key_ground_def)
qed

text \<open>The engine a typed character leaves.\<close>

definition typed_cells :: "Snapshot \<Rightarrow> nat \<Rightarrow> PredictionEngine \<Rightarrow> nat \<Rightarrow> OverlayCell list \<Rightarrow> bool" where
  "typed_cells fb now e c cs \<longleftrightarrow>
     (let row = sn_cursor_row fb; col = sn_cursor_col fb; new = (\<lambda>k. overlay_new k (pe_epoch e))
      in length cs = sn_cols fb
         \<and> (\<forall>k < col. cs ! k = new k)
         \<and> oc_active (cs ! col) \<and> oc_col (cs ! col) = col \<and> \<not> oc_unknown (cs ! col) \<and> oc_tentative_until (cs ! col) = pe_epoch e
         \<and> glyph (oc_replacement (cs ! col)) = (c, [], 1)
         \<and> (\<forall>k. col < k \<and> k < sn_cols fb \<longrightarrow>
              cs ! k = (if pe_overwrite e then new k else shifted fb row (pe_epoch e) (pe_sent e + 1) now k (new k))))"

lemma print_at_ease:
  assumes "at_ease fb e" "32 \<le> c" "c < 127" "sn_cursor_col fb + 1 < sn_cols fb" "wf_snapshot fb"
  shows "\<exists>cs. typed_cells fb now e c cs \<and> handle_print c fb now e =
    Some (e\<lparr>pe_overlays := [\<lparr>or_num = sn_cursor_row fb, or_cells = cs\<rparr>],
            pe_cursors := [\<lparr>cp_active = True, cp_tentative_until = pe_epoch e, cp_expiration = pe_sent e + 1,
                            cp_row = sn_cursor_row fb, cp_col = sn_cursor_col fb + 1\<rparr>]\<rparr>)"
proof -
  let ?row = "sn_cursor_row fb" and ?col = "sn_cursor_col fb" and ?new = "\<lambda>k. overlay_new k (pe_epoch e)"
  let ?cs0 = "map ?new [0..<sn_cols fb]" and ?i = "if pe_overwrite e then ?col else sn_cols fb - 1"
  have row: "?row < sn_rows fb" using assms(5) by (simp add: wf_snapshot_def)
  have "?i < length ?cs0" "\<forall>k \<le> ?i. \<not> oc_active (?cs0 ! k)" using assms(4) by (auto simp: overlay_new_def)
  from shift_right_fresh [OF this] obtain cs where
      cs: "shift_right fb ?row ?col (pe_epoch e) (pe_sent e + 1) now ?i ?cs0 = Some cs" "length cs = sn_cols fb"
      "\<forall>k. k \<le> ?col \<or> ?i < k \<longrightarrow> cs ! k = ?cs0 ! k"
      "\<forall>k. ?col < k \<and> k \<le> ?i \<longrightarrow> cs ! k = shifted fb ?row (pe_epoch e) (pe_sent e + 1) now k (?cs0 ! k)"
    by (metis (no_types, lifting) diff_zero length_map length_upt)
  have col: "?col < length cs" using cs(2) assms(4) by simp
  then obtain style where style: "glyph_style fb ?row ?col cs = Some style"
    by (cases "glyph_style fb ?row ?col cs") (auto simp: glyph_style_def get_at_def split: if_splits)
  let ?cs = "cs[?col := (predict_over (pe_epoch e) (pe_sent e + 1) now (snap_or_blank fb ?row ?col) (cs ! ?col))
               \<lparr>oc_unknown := False, oc_replacement := \<lparr>ch = c, cell_style = style, width = 1, extra = [], hyperlink = 0\<rparr>\<rparr>]"
  have g: "predict_glyph fb ?row ?col (pe_epoch e) (pe_sent e + 1) now c cs = Some ?cs"
    using col style by (simp add: predict_glyph_def get_at_def)
  have "cs ! ?col = ?new ?col" using cs(3) assms(4) by simp
  then have "typed_cells fb now e c ?cs"
    using cs(2-4) col by (auto simp: typed_cells_def Let_def predict_over_def oc_expire_def glyph_def split: if_splits)
  moreover have "handle_print c fb now e =
    Some (e\<lparr>pe_overlays := [\<lparr>or_num = ?row, or_cells = ?cs\<rparr>],
            pe_cursors := [\<lparr>cp_active = True, cp_tentative_until = pe_epoch e, cp_expiration = pe_sent e + 1,
                            cp_row = ?row, cp_col = ?col + 1\<rparr>]\<rparr>)"
    using assms(1-4) row cs(1) g wcwidth_ascii [of c]
    by (cases "pe_overwrite e") (simp_all add: handle_print_def at_ease_def init_cursor_def last_cursor_def get_or_make_row_def row_cells_def set_row_cells_def
        on_last_cursor_def Let_def)
  ultimately show ?thesis by blast
qed

text \<open>What the picture shows then.\<close>

lemma shifted_cols [simp]: "oc_col (shifted fb row ep x now k c) = oc_col c"
  by (simp add: shifted_def Let_def)

lemma shifted_glyph:
  assumes "wf_snapshot fb" "row < sn_rows fb" "0 < k" "k + 1 < sn_cols fb"
  shows "oc_active (shifted fb row ep x now k c)" "\<not> oc_unknown (shifted fb row ep x now k c)"
    "oc_tentative_until (shifted fb row ep x now k c) = ep"
    "Some (oc_replacement (shifted fb row ep x now k c)) = snap_cell fb row (k - 1)"
  using assms by (auto simp: shifted_def snap_cell_in assume_state_def predict_over_def oc_expire_def Let_def)

lemma typed_cells_cols: "typed_cells fb now e c cs \<Longrightarrow> map oc_col cs = [0..<sn_cols fb]"
  by (rule nth_equalityI) (auto simp: typed_cells_def Let_def, metis linorder_neqE_nat oc_col_simps(7) shifted_cols)

lemma typed_picture:
  fixes flag :: bool
  assumes t: "typed_cells fb now e c cs" and wf: "wf_snapshot fb" "pe_epoch e \<le> cf"
    and fb': "snap_cell fb' = snap_cell fb" "sn_rows fb' = sn_rows fb" "sn_cols fb' = sn_cols fb" "wf_snapshot fb'"
    and k: "k < sn_cols fb"
  defines "pic \<equiv> apply_row cf flag \<lparr>or_num = sn_cursor_row fb, or_cells = cs\<rparr> fb'"
  shows "k < sn_cursor_col fb \<or> pe_overwrite e \<and> sn_cursor_col fb < k \<Longrightarrow> snap_cell pic (sn_cursor_row fb) k = snap_cell fb (sn_cursor_row fb) k"
    and "k = sn_cursor_col fb \<Longrightarrow> map_option glyph (snap_cell pic (sn_cursor_row fb) k) = Some (c, [], 1)"
    and "\<not> pe_overwrite e \<Longrightarrow> sn_cursor_col fb < k \<Longrightarrow> k + 1 < sn_cols fb
      \<Longrightarrow> map_option glyph (snap_cell pic (sn_cursor_row fb) k) = map_option glyph (snap_cell fb (sn_cursor_row fb) (k - 1))"
proof -
  let ?row = "sn_cursor_row fb"
  have row: "?row < sn_rows fb" using wf(1) by (simp add: wf_snapshot_def)
  have cols: "map oc_col cs = [0..<sn_cols fb]" by (rule typed_cells_cols [OF t])
  then have len: "length cs = sn_cols fb" by (metis diff_zero length_map length_upt)
  have ck: "oc_col (cs ! k) = k" using arg_cong [OF cols, of "\<lambda>xs. xs ! k"] k len by simp
  have pic: "snap_cell pic ?row k = snap_cell (oc_apply cf ?row flag (cs ! k) fb') ?row k"
    using apply_cells_at [of cs "cs ! k" cf ?row flag fb'] cols k len by (simp add: pic_def apply_row_def ck)
  note d = t [unfolded typed_cells_def Let_def]
  have glyph_at: "map_option glyph (snap_cell pic ?row k) = Some (glyph (oc_replacement (cs ! k)))"
    if "oc_active (cs ! k)" "\<not> oc_unknown (cs ! k)" "oc_tentative_until (cs ! k) = pe_epoch e"
    unfolding pic using oc_apply_glyph [of "cs ! k" cf ?row fb' flag] that wf(2) row k fb' ck
    by (simp add: oc_tentative_def)
  show "snap_cell pic ?row k = snap_cell fb ?row k" if "k < sn_cursor_col fb \<or> pe_overwrite e \<and> sn_cursor_col fb < k"
  proof -
    have "cs ! k = overlay_new k (pe_epoch e)" using d that k by auto
    then show ?thesis unfolding pic by (simp add: oc_apply_inactive overlay_new_def fb')
  qed
  show "map_option glyph (snap_cell pic ?row k) = Some (c, [], 1)" if "k = sn_cursor_col fb"
    using glyph_at d that by simp
  show "map_option glyph (snap_cell pic ?row k) = map_option glyph (snap_cell fb ?row (k - 1))"
    if "\<not> pe_overwrite e" "sn_cursor_col fb < k" "k + 1 < sn_cols fb"
  proof -
    have c: "cs ! k = shifted fb ?row (pe_epoch e) (pe_sent e + 1) now k (overlay_new k (pe_epoch e))" using d that by auto
    have "0 < k" using that(2) by simp
    note s = shifted_glyph [OF wf(1) row this that(3), of "pe_epoch e" "pe_sent e + 1" now "overlay_new k (pe_epoch e)", folded c]
    show ?thesis using glyph_at [OF s(1,2,3)] s(4) [symmetric] by simp
  qed
qed

lemma key_drawn:
  assumes "wf_snapshot fb" "at_ease fb e" "32 \<le> b" "b < 127" "sn_cursor_col fb + 1 < sn_cols fb"
  shows "\<exists>e'. new_user_byte b fb now e = Some e' \<and>
    sn_cursor_row (predictions_apply e' fb) = sn_cursor_row fb \<and> sn_cursor_col (predictions_apply e' fb) = sn_cursor_col fb + 1
    \<and> map_option glyph (snap_cell (predictions_apply e' fb) (sn_cursor_row fb) (sn_cursor_col fb)) = Some (unat b, [], 1)
    \<and> (\<forall>r k. r \<noteq> sn_cursor_row fb \<or> k < sn_cursor_col fb \<or> pe_overwrite e \<and> sn_cursor_col fb < k
         \<longrightarrow> snap_cell (predictions_apply e' fb) r k = snap_cell fb r k)
    \<and> (\<forall>k. \<not> pe_overwrite e \<and> sn_cursor_col fb < k \<and> k + 1 < sn_cols fb
         \<longrightarrow> map_option glyph (snap_cell (predictions_apply e' fb) (sn_cursor_row fb) k)
             = map_option glyph (snap_cell fb (sn_cursor_row fb) (k - 1)))"
proof -
  let ?row = "sn_cursor_row fb" and ?col = "sn_cursor_col fb" and ?e2 = "cull fb now e"
  note q = at_ease_cull [OF assms(2), of now]
  have b: "32 \<le> unat b" "unat b < 127" using assms(3,4) by (simp_all add: word_less_nat_alt word_le_nat_alt)
  obtain cs where cs: "typed_cells fb now ?e2 (unat b) cs" "handle_print (unat b) fb now ?e2 =
    Some (?e2\<lparr>pe_overlays := [\<lparr>or_num = ?row, or_cells = cs\<rparr>],
            pe_cursors := [\<lparr>cp_active = True, cp_tentative_until = pe_epoch ?e2, cp_expiration = pe_sent ?e2 + 1,
                            cp_row = ?row, cp_col = ?col + 1\<rparr>]\<rparr>)"
    using print_at_ease [OF q(1) b assms(5,1)] by blast
  let ?e' = "?e2\<lparr>pe_overlays := [\<lparr>or_num = ?row, or_cells = cs\<rparr>],
            pe_cursors := [\<lparr>cp_active = True, cp_tentative_until = pe_epoch ?e2, cp_expiration = pe_sent ?e2 + 1,
                            cp_row = ?row, cp_col = ?col + 1\<rparr>]\<rparr>"
  let ?fb = "fb\<lparr>sn_cursor_col := Suc ?col\<rparr>"
  have step: "new_user_byte b fb now e = Some ?e'"
    using assms(2) q(1) key_printable [OF _ assms(3,4)] cs(2) by (simp add: new_user_byte_def at_ease_def input_step_def Let_def)
  have ep: "pe_epoch ?e2 \<le> pe_confirmed ?e2" "pe_preference ?e2 = Always" using q(1) by (simp_all add: at_ease_def)
  have row: "?row < sn_rows fb" using assms(1) by (simp add: wf_snapshot_def)
  define pic where "pic = predictions_apply ?e' fb"
  have pic: "pic = apply_row (pe_confirmed ?e2) (pe_flagging ?e2) \<lparr>or_num = ?row, or_cells = cs\<rparr> ?fb"
    using ep row assms(5) by (simp add: pic_def predictions_apply_def predictions_shown_def cp_apply_def cp_tentative_def)
  have fb': "snap_cell ?fb = snap_cell fb" "sn_rows ?fb = sn_rows fb" "sn_cols ?fb = sn_cols fb" "wf_snapshot ?fb"
    using assms(1,5) by (simp_all add: snap_cell_def fun_eq_iff wf_snapshot_def)
  note tp = typed_picture [OF cs(1) assms(1) ep(1) fb', of _ "pe_flagging ?e2", folded pic]
  have other: "snap_cell pic r k = snap_cell fb r k" if "r \<noteq> ?row" for r k
    using apply_cells_other [of cs "pe_confirmed ?e2" ?row r k "pe_flagging ?e2" ?fb] that fb'(1)
    by (simp add: pic apply_row_def draws_def)
  have beyond: "snap_cell pic r k = snap_cell fb r k" if "\<not> k < sn_cols fb" for r k
  proof -
    have "\<forall>c \<in> set cs. \<not> draws (pe_confirmed ?e2) ?row r k c"
      using arg_cong [OF typed_cells_cols [OF cs(1)], of set] that by (auto simp: draws_def)
    from apply_cells_other [OF this, of "pe_flagging ?e2" ?fb] show ?thesis by (simp add: pic apply_row_def fb'(1))
  qed
  have "sn_cursor_row pic = ?row" "sn_cursor_col pic = ?col + 1" by (simp_all add: pic)
  moreover have "map_option glyph (snap_cell pic ?row ?col) = Some (unat b, [], 1)" using tp(2) assms(5) by simp
  moreover have "snap_cell pic r k = snap_cell fb r k" if "r \<noteq> ?row \<or> k < ?col \<or> pe_overwrite e \<and> ?col < k" for r k
    using that other [of r k] beyond [of k r] tp(1) [of k] q(2) by (cases "r = ?row"; cases "k < sn_cols fb") auto
  moreover have "map_option glyph (snap_cell pic ?row k) = map_option glyph (snap_cell fb ?row (k - 1))"
    if "\<not> pe_overwrite e \<and> ?col < k \<and> k + 1 < sn_cols fb" for k
    using tp(3) [of k] that q(2) by simp
  ultimately show ?thesis using step unfolding pic_def by blast
qed

end
