(* ===== verification/Dump_Screen.thy ===== *)
theory Dump_Screen
  imports Osc
begin

text \<open>
  \<open>crates/posh-term/src/dump.rs\<close>: the plain-text dump and the escape streams that reproduce a terminal
  on a fresh one (\<open>dump_vt\<close>, \<open>dump_vt_flat\<close>) or repaint it after a screen switch. The replay of kitty
  graphics is an argument, by what it writes for the graphics state: \<open>dg\<close> for images with their
  placements, \<open>dp\<close> for placements alone. Text is bytes for the streams and a list of characters for
  the plain dump.
\<close>

section \<open>Plain text\<close>

definition trim_end :: "nat list \<Rightarrow> nat list" where
  "trim_end s = rev (dropWhile is_whitespace (rev s))"

text \<open>The rows joined over soft wraps; the unfinished line and the text so far.\<close>

fun dump_text_rows :: "Row list \<Rightarrow> nat list \<Rightarrow> nat list \<Rightarrow> nat list" where
  "dump_text_rows [] line out = (if line \<noteq> [] then out @ trim_end line @ [10] else out)"
| "dump_text_rows (row # rows) line out =
     (let line' = line @ row_text False row
      in if wrapped row then dump_text_rows rows line' out
         else dump_text_rows rows [] (out @ trim_end line' @ [10]))"

definition dump_text :: "'g Terminal \<Rightarrow> nat list" where
  "dump_text t = dump_text_rows (sc_scrollback (t_primary t) @ sc_grid (scr t)) [] []"

section \<open>Cells, with the pen of the target tracked\<close>

record EmitState =
  es_out :: bytes
  es_style :: Style
  es_link :: nat

definition emit :: "bytes \<Rightarrow> EmitState \<Rightarrow> EmitState" where
  "emit s st = st\<lparr>es_out := es_out st @ s\<rparr>"

definition protect_seq :: "bool \<Rightarrow> bytes" where
  "protect_seq b = 0x1B # asc ''['' @ (if b then asc ''1'' else asc ''0'') @ [0x22, 0x71]"

definition sgr_seq :: "Style \<Rightarrow> bytes" where
  "sgr_seq style = 0x1B # asc ''['' @ sgr_params style @ asc ''m''"

definition cell_bytes :: "Cell \<Rightarrow> bytes" where
  "cell_bytes cell = concat (map utf8_encode ((if ch cell = 0 then 32 else ch cell) # extra cell))"

definition emit_protect :: "bool \<Rightarrow> EmitState \<Rightarrow> EmitState" where
  "emit_protect b st =
     (if b \<noteq> st_protected (es_style st)
      then (emit (protect_seq b) st)\<lparr>es_style := (es_style st)\<lparr>st_protected := b\<rparr>\<rparr> else st)"

definition emit_style :: "Style \<Rightarrow> EmitState \<Rightarrow> EmitState" where
  "emit_style style st = (if style \<noteq> es_style st then (emit (sgr_seq style) st)\<lparr>es_style := style\<rparr> else st)"

definition hyperlink_seq :: "'g Terminal \<Rightarrow> nat \<Rightarrow> bytes" where
  "hyperlink_seq t i =
     (case map_of (t_hyperlinks t) i of
        Some h \<Rightarrow>
          if i \<noteq> 0
          then 0x1B # asc '']8;'' @ (if h_id h = [] then [] else asc ''id='' @ h_id h) @ asc '';'' @ h_uri h @ [0x1B, 0x5C]
          else 0x1B # asc '']8;;'' @ [0x1B, 0x5C]
      | None \<Rightarrow> 0x1B # asc '']8;;'' @ [0x1B, 0x5C])"

definition emit_link :: "'g Terminal \<Rightarrow> nat \<Rightarrow> EmitState \<Rightarrow> EmitState" where
  "emit_link t i st = (if i \<noteq> es_link st then (emit (hyperlink_seq t i) st)\<lparr>es_link := i\<rparr> else st)"

definition emit_pen :: "'g Terminal \<Rightarrow> Style \<Rightarrow> nat \<Rightarrow> EmitState \<Rightarrow> EmitState" where
  "emit_pen t style link st = emit_link t link (emit_style style (emit_protect (st_protected style) st))"

definition emit_cell :: "'g Terminal \<Rightarrow> Cell \<Rightarrow> EmitState \<Rightarrow> EmitState" where
  "emit_cell t cell st =
     (if width cell = 0 then st
      else emit (cell_bytes cell) (emit_pen t (cell_style cell) (hyperlink cell) st))"

definition mark_letter :: "SemanticMark \<Rightarrow> bytes" where
  "mark_letter m = (case m of PromptStart \<Rightarrow> asc ''A'' | InputStart \<Rightarrow> asc ''B'' | OutputStart \<Rightarrow> asc ''C'' | CommandEnd \<Rightarrow> asc ''D'')"

text \<open>How many cells of a row are printed: all of a wrapped one, else none behind the last that shows.\<close>

definition emit_end :: "Row \<Rightarrow> nat" where
  "emit_end row =
     (if wrapped row then length (cells row)
      else length (dropWhile is_dump_skippable (rev (cells row))))"

definition emit_row :: "'g Terminal \<Rightarrow> Row \<Rightarrow> EmitState \<Rightarrow> EmitState" where
  "emit_row t row st =
     fold (emit_cell t) (take (emit_end row) (cells row))
       (case row_mark row of None \<Rightarrow> st | Some m \<Rightarrow> emit (0x1B # asc '']133;'' @ mark_letter m @ [0x1B, 0x5C]) st)"

fun draw_rows :: "'g Terminal \<Rightarrow> Row list \<Rightarrow> EmitState \<Rightarrow> EmitState" where
  "draw_rows t [] st = st"
| "draw_rows t (row # rows) st =
     (let st1 = emit_row t row st
      in draw_rows t rows (if \<not> wrapped row \<and> rows \<noteq> [] then emit [0x0D, 0x0A] st1 else st1))"

definition draw_grid :: "'g Terminal \<Rightarrow> Screen \<Rightarrow> EmitState \<Rightarrow> EmitState" where
  "draw_grid t s = draw_rows t (sc_grid s)"

definition reset_pen :: "EmitState \<Rightarrow> EmitState" where
  "reset_pen st0 =
     (let st1 = (if st_protected (es_style st0)
                 then (emit (protect_seq False) st0)\<lparr>es_style := (es_style st0)\<lparr>st_protected := False\<rparr>\<rparr> else st0);
          st2 = (if es_style st1 \<noteq> style_default then (emit (0x1B # asc ''[0m'') st1)\<lparr>es_style := style_default\<rparr> else st1)
      in if es_link st2 \<noteq> 0 then (emit (0x1B # asc '']8;;'' @ [0x1B, 0x5C]) st2)\<lparr>es_link := 0\<rparr> else st2)"

text \<open>Scrollback and grid as one flow, when there is scrollback.\<close>

fun flow_rows :: "'g Terminal \<Rightarrow> Row list \<Rightarrow> bool \<Rightarrow> EmitState \<Rightarrow> EmitState" where
  "flow_rows t [] follows st = st"
| "flow_rows t (row # rows) follows st =
     (let st1 = emit_row t row st
      in flow_rows t rows follows (if \<not> wrapped row \<and> (rows \<noteq> [] \<or> follows) then emit [0x0D, 0x0A] (reset_pen st1) else st1))"

definition draw_primary :: "'g Terminal \<Rightarrow> EmitState \<Rightarrow> EmitState" where
  "draw_primary t st =
     (if sc_scrollback (t_primary t) \<noteq> []
      then flow_rows t (sc_grid (t_primary t)) False (flow_rows t (sc_scrollback (t_primary t)) True st)
      else draw_grid t (t_primary t) (emit (0x1B # asc ''[H'') st))"

section \<open>Colors, titles, modes and the cursor\<close>

definition dec_seq :: "nat \<Rightarrow> bool \<Rightarrow> bytes" where
  "dec_seq n on = 0x1B # asc ''[?'' @ decimal n @ (if on then asc ''h'' else asc ''l'')"

definition only :: "bool \<Rightarrow> bytes \<Rightarrow> bytes" where
  "only b s = (if b then s else [])"

definition hex2 :: "nat \<Rightarrow> bytes" where
  "hex2 n = map (hex_nibble False) [n div 16 mod 16, n mod 16]"

definition spec :: "rgb \<Rightarrow> bytes" where
  "spec c = (let (r, g, b) = c in asc ''rgb:'' @ hex2 (unat r) @ asc ''/'' @ hex2 (unat g) @ asc ''/'' @ hex2 (unat b))"

definition dynamic_color_seq :: "nat \<Rightarrow> rgb option \<Rightarrow> bytes" where
  "dynamic_color_seq n c = (case c of None \<Rightarrow> [] | Some v \<Rightarrow> 0x1B # asc '']'' @ decimal n @ asc '';'' @ spec v @ [0x1B, 0x5C])"

definition dump_colors :: "'g Terminal \<Rightarrow> bytes" where
  "dump_colors t =
     concat (map (\<lambda>i. if t_palette t ! i \<noteq> default_palette_entry (word_of_nat i)
                      then 0x1B # asc '']4;'' @ decimal i @ asc '';'' @ spec (t_palette t ! i) @ [0x1B, 0x5C] else [])
              [0..<length (t_palette t)])
     @ dynamic_color_seq 10 (t_fg_color t) @ dynamic_color_seq 11 (t_bg_color t) @ dynamic_color_seq 12 (t_cursor_color t)"

definition dump_titles :: "'g Terminal \<Rightarrow> bytes" where
  "dump_titles t =
     (if t_title t \<noteq> [] \<and> t_title t = t_icon_title t then 0x1B # asc '']0;'' @ t_title t @ [0x07]
      else only (t_title t \<noteq> []) (0x1B # asc '']2;'' @ t_title t @ [0x07])
           @ only (t_icon_title t \<noteq> []) (0x1B # asc '']1;'' @ t_icon_title t @ [0x07]))
     @ only (t_pwd t \<noteq> []) (0x1B # asc '']7;file://'' @ t_pwd t @ [0x1B, 0x5C])"

definition kitty_pushes :: "KittyKeyStack \<Rightarrow> bytes" where
  "kitty_pushes stack = concat (map (\<lambda>f. 0x1B # asc ''[>'' @ decimal (unat f) @ asc ''u'') stack)"

definition dump_tabs :: "'g Terminal \<Rightarrow> bytes" where
  "dump_tabs t =
     (if \<forall>i < length (t_tabs t). t_tabs t ! i = (i mod 8 = 0) then []
      else 0x1B # asc ''[3g''
           @ concat (map (\<lambda>i. if t_tabs t ! i then 0x1B # asc ''[1;'' @ decimal (i + 1) @ asc ''H'' @ [0x1B, 0x48] else [])
                      [0..<length (t_tabs t)]))"

definition charset_seq :: "u8 \<Rightarrow> Charset \<Rightarrow> bytes" where
  "charset_seq slot c = (case c of DecSpecial \<Rightarrow> [0x1B, slot, 0x30] | Uk \<Rightarrow> [0x1B, slot, 0x41] | Ascii \<Rightarrow> [])"

definition margins_seq :: "'g Terminal \<Rightarrow> bytes" where
  "margins_seq t =
     (let (upper, lower) = region t
      in only (upper \<noteq> 0 \<or> lower \<noteq> t_rows t - 1)
           (0x1B # asc ''['' @ decimal (upper + 1) @ asc '';'' @ decimal (lower + 1) @ asc ''r''))"

definition deccolm_seq :: "'g Terminal \<Rightarrow> bytes" where
  "deccolm_seq t =
     (let m = t_modes t
      in only (m_allow_deccolm m \<or> m_deccolm m) (dec_seq 40 True)
         @ (if m_deccolm m \<and> t_cols t = 132
            then dec_seq 95 True @ dec_seq 3 True @ only (\<not> m_no_clear_on_deccolm m) (dec_seq 95 False)
            else only (m_no_clear_on_deccolm m) (dec_seq 95 True))
         @ only (m_deccolm m \<and> \<not> m_allow_deccolm m) (dec_seq 40 False))"

definition dump_modes :: "'g Terminal \<Rightarrow> bytes" where
  "dump_modes t =
     (let m = t_modes t
      in deccolm_seq t @ margins_seq t @ only (m_origin m) (dec_seq 6 True) @ dump_tabs t
         @ charset_seq 0x28 (c_g0 (t_cursor t)) @ charset_seq 0x29 (c_g1 (t_cursor t)) @ only (c_shift (t_cursor t) = 1) [0x0E]
         @ only (m_cursor_keys m) (dec_seq 1 True) @ only (\<not> m_autowrap m) (dec_seq 7 False)
         @ only (m_reverse_video m) (dec_seq 5 True) @ only (\<not> m_autorepeat m) (dec_seq 8 False)
         @ only (m_cursor_blink m) (dec_seq 12 True) @ only (m_bracketed_paste m) (dec_seq 2004 True)
         @ only (m_focus_reporting m) (dec_seq 1004 True) @ only (m_alternate_scroll m) (dec_seq 1007 True)
         @ only (m_synchronized m) (dec_seq 2026 True) @ only (m_insert m) (0x1B # asc ''[4h'') @ only (m_lnm m) (0x1B # asc ''[20h'')
         @ only (m_keypad_app m) (0x1B # asc ''='')
         @ (case mouse_decset (m_mouse_mode m) of None \<Rightarrow> [] | Some n \<Rightarrow> dec_seq n True)
         @ (case protocol_decset (m_mouse_protocol m) of None \<Rightarrow> [] | Some n \<Rightarrow> dec_seq n True)
         @ kitty_pushes (if t_alt_active t then t_kitty_alt t else t_kitty_primary t))"

text \<open>The column the cursor is put to: a pending wrap behind a wide character is armed from its head.\<close>

definition dump_cursor_col :: "'g Terminal \<Rightarrow> nat" where
  "dump_cursor_col t =
     (let c = t_cursor t
      in if c_pending_wrap c \<and> c_col c > 0 \<and> width_at 0 (c_row c) (c_col c) (scr t) then c_col c - 1 else c_col c)"

text \<open>The last cell again, printed to leave the wrap pending, with the pen restored around it.\<close>

definition reprint_cell :: "Style \<Rightarrow> Cell \<Rightarrow> bytes" where
  "reprint_cell pen cell =
     (let switch = st_protected (cell_style cell) \<noteq> st_protected pen;
          differs = (cell_style cell)\<lparr>st_protected := st_protected pen\<rparr> \<noteq> pen
      in only switch (protect_seq (st_protected (cell_style cell))) @ only differs (sgr_seq (cell_style cell))
         @ cell_bytes cell @ only differs (sgr_seq pen) @ only switch (protect_seq (st_protected pen)))"

definition dump_cursor :: "'g Terminal \<Rightarrow> EmitState \<Rightarrow> bytes" where
  "dump_cursor t st0 =
     (let c = t_cursor t; st = emit_pen t (c_style c) (c_hyperlink c)
            (if t_cursor_style_raw t \<noteq> 0 then emit (0x1B # asc ''['' @ decimal (t_cursor_style_raw t) @ asc '' q'') st0 else st0);
          upper = (if m_origin (t_modes t) then fst (region t) else 0); col = dump_cursor_col t
      in es_out st
         @ 0x1B # asc ''['' @ decimal (c_row c - upper + 1) @ asc '';'' @ decimal (col + 1) @ asc ''H''
         @ (if c_pending_wrap c
            then case screen_cell (scr t) (c_row c) col of
                   None \<Rightarrow> []
                 | Some cell \<Rightarrow> if width cell = 1 \<or> width cell = 2 then reprint_cell (es_style st) cell else []
            else [])
         @ only (\<not> m_cursor_visible (t_modes t)) (dec_seq 25 False))"

section \<open>Whole dumps\<close>

definition emit_start :: "bytes \<Rightarrow> EmitState" where
  "emit_start s = \<lparr>es_out = s, es_style = style_default, es_link = 0\<rparr>"

definition seed_alt_kitty :: "'g Terminal \<Rightarrow> bytes" where
  "seed_alt_kitty t =
     only (\<not> t_alt_active t \<and> t_kitty_alt t \<noteq> []) (dec_seq 1049 True @ kitty_pushes (t_kitty_alt t) @ dec_seq 1049 False)"

definition enter_alt :: "'g Terminal \<Rightarrow> EmitState \<Rightarrow> EmitState" where
  "enter_alt t st =
     (let saved = s_cursor (t_saved_primary t)
      in draw_grid t (t_alt t)
           (emit (0x1B # asc ''['' @ decimal (c_row saved + 1) @ asc '';'' @ decimal (c_col saved + 1) @ asc ''H''
                  @ kitty_pushes (t_kitty_primary t) @ dec_seq 1049 True) (reset_pen st)))"

definition dump_vt_impl :: "('g \<Rightarrow> bytes) \<Rightarrow> bool \<Rightarrow> 'g Terminal \<Rightarrow> bytes" where
  "dump_vt_impl dg flat t =
     (let st0 = emit_start (dump_colors t @ dump_titles t);
          st = (if flat then draw_grid t (scr t) (emit (0x1B # asc ''[H'') st0)
                else let st1 = draw_primary t (emit (seed_alt_kitty t) st0)
                     in if t_alt_active t then enter_alt t st1 else st1)
      in dump_cursor t (emit (dg (t_graphics t) @ dump_modes t) st))"

definition dump_vt :: "('g \<Rightarrow> bytes) \<Rightarrow> 'g Terminal \<Rightarrow> bytes" where
  "dump_vt dg t = dump_vt_impl dg False t"

definition dump_vt_flat :: "('g \<Rightarrow> bytes) \<Rightarrow> 'g Terminal \<Rightarrow> bytes" where
  "dump_vt_flat dg t = dump_vt_impl dg True t"

definition dump_screen_switch :: "('g \<Rightarrow> bytes) \<Rightarrow> 'g Terminal \<Rightarrow> bytes" where
  "dump_screen_switch dp t =
     (let m = t_modes t;
          st = draw_grid t (scr t) (emit_start
            (dec_seq 25 False @ 0x1B # asc ''[r'' @ dec_seq 6 False @ [0x1B, 0x28, 0x42, 0x0F] @ 0x1B # asc ''[4l'' @ dec_seq 7 True
             @ 0x1B # asc ''[0m'' @ protect_seq False @ 0x1B # asc '']8;;'' @ [0x1B, 0x5C] @ 0x1B # asc ''[2J'' @ 0x1B # asc ''[H''))
      in dump_cursor t (emit
           (margins_seq t @ only (m_origin m) (dec_seq 6 True)
            @ charset_seq 0x28 (c_g0 (t_cursor t)) @ charset_seq 0x29 (c_g1 (t_cursor t)) @ only (c_shift (t_cursor t) = 1) [0x0E]
            @ only (m_insert m) (0x1B # asc ''[4h'') @ only (\<not> m_autowrap m) (dec_seq 7 False) @ dp (t_graphics t)) st)
         @ only (m_cursor_visible m) (dec_seq 25 True))"

end
