(* ===== verification/Parser_Streams.thy ===== *)
theory Parser_Streams
  imports Parser
begin

text \<open>
  What a parser at rest makes of a whole control sequence, string or escape, and that it is at rest
  again behind it: the form in which the programs that write escape streams (the renderer and the
  dumps) meet the parser.
\<close>

section \<open>No character under way\<close>

definition quiet :: "Parser \<Rightarrow> bool" where
  "quiet p \<longleftrightarrow> ps_utf8_need p = 0 \<and> length (ps_utf8 p) = 4"

lemma at_rest_quiet: "at_rest p \<longleftrightarrow> ps_state p = Ground \<and> quiet p"
  by (auto simp: at_rest_def quiet_def)

definition quietly :: "Parser \<times> Action list \<Rightarrow> bool" where
  "quietly r \<longleftrightarrow> quiet (fst r)"

lemma quietly_pair [simp]: "quietly (p, out) = quiet p"
  by (simp add: quietly_def)

lemma quiet_simps [simp]:
  "quiet (goto x p) = quiet p" "quiet (clear p) = quiet p" "quiet (start_string x p) = quiet p"
  "quiet (push_intermediate b p) = quiet p" "quiet (param_digit b p) = quiet p" "quiet (param_colon p) = quiet p"
  "quiet (param_semicolon p) = quiet p" "quiet (fst (take_params p)) = quiet p" "quiet (push_string_byte b n p) = quiet p"
  "quiet (p\<lparr>ps_state := x\<rparr>) = quiet p" "quiet (p\<lparr>ps_string_buf := s\<rparr>) = quiet p"
  "quiet (p\<lparr>ps_string_overflow := o1\<rparr>) = quiet p" "quiet (p\<lparr>ps_intermediates := is\<rparr>) = quiet p" "quiet (p\<lparr>ps_private := b\<rparr>) = quiet p"
  "quiet (p\<lparr>ps_dcs_final := b\<rparr>) = quiet p"
  by (simp_all add: quiet_def goto_def clear_def start_string_def push_intermediate_def param_digit_def
      param_colon_def param_semicolon_def take_params_def push_string_byte_def Let_def)

lemma quietly_c1 [simp]: "quiet p \<Longrightarrow> quietly (c1 b p)"
  by (simp add: c1_def)

lemma quietly_ground: "quiet p \<Longrightarrow> b < 0x80 \<Longrightarrow> quietly (ground b p)"
proof -
  assume q: "quiet p" and b: "b < 0x80"
  have "\<not> within 0xC2 0xDF b" "\<not> within 0xE0 0xEF b" "\<not> within 0xF0 0xF4 b" "\<not> within 0x80 0x9F b"
    using b by (auto simp: within_def word_le_nat_alt word_less_nat_alt)
  then show ?thesis using q by (simp add: ground_def ground_fresh_def) (simp add: quiet_def)
qed

lemma quietly_unless: "quiet p \<Longrightarrow> quietly (h b p) \<Longrightarrow> quietly (unless_anywhere h b p)"
  by (simp add: unless_anywhere_def anywhere_def)

lemma quietly_csi_dispatch [simp]: "quiet p \<Longrightarrow> quietly (csi_dispatch b p)"
  by (simp add: csi_dispatch_def Let_def case_prod_unfold)

lemma quietly_fresh:
  assumes "quiet p"
  shows "quietly (escape_fresh b p)" "quietly (escape_intermediate_fresh b p)" "quietly (csi_entry_fresh b p)"
    "quietly (csi_param_fresh b p)" "quietly (csi_intermediate_fresh b p)" "quietly (csi_ignore_fresh b p)"
    "quietly (dcs_entry_fresh b p)" "quietly (dcs_param_fresh b p)" "quietly (dcs_intermediate_fresh b p)"
    "quietly (sos_pm b p)" "quietly (dcs_ignore b p)" "quietly (osc_string b p)" "quietly (apc_string b p)"
  using assms
  by (simp_all add: escape_fresh_def escape_intermediate_fresh_def csi_entry_fresh_def csi_param_fresh_def
      csi_intermediate_fresh_def csi_ignore_fresh_def dcs_entry_fresh_def dcs_param_fresh_def
      dcs_intermediate_fresh_def sos_pm_def dcs_ignore_def dcs_hook_def osc_string_def apc_string_def finish_osc_def Let_def)

lemma quietly_passthrough: "quiet p \<Longrightarrow> quietly (dcs_passthrough b p)"
  by (simp add: dcs_passthrough_def dcs_unhook_def Let_def case_prod_unfold)

lemma quietly_advance: "quiet p \<Longrightarrow> b < 0x80 \<or> ps_state p \<noteq> Ground \<Longrightarrow> quietly (advance b p)"
  unfolding advance_def
  by (cases "ps_state p") (simp_all add: quietly_ground quietly_unless quietly_fresh quietly_passthrough)

lemma quiet_parse: "quiet p \<Longrightarrow> \<forall>b \<in> set bs. b < 0x80 \<Longrightarrow> quiet (fst (parse_bytes bs p))"
proof (induction bs arbitrary: p)
  case (Cons b bs)
  then have "quietly (advance b p)" by (simp add: quietly_advance)
  then show ?case using Cons by (simp add: quietly_def case_prod_unfold Let_def)
qed simp

section \<open>Whole sequences\<close>

lemma parse_then: "parse_bytes xs p = (q, as) \<Longrightarrow> parse_bytes ys q = (r, bs) \<Longrightarrow> parse_bytes (xs @ ys) p = (r, as @ bs)"
  by (simp add: parse_bytes_append)

lemma decimal_ascii: "b \<in> set (decimal n) \<Longrightarrow> within 48 57 b"
proof (induction n rule: decimal.induct)
  case (1 n)
  have "within 48 57 (as_u8 (48 + n mod 10))" "n < 10 \<Longrightarrow> within 48 57 (as_u8 (48 + n))"
    by (simp_all add: within_as_u8)
  then show ?case using 1 by (subst (asm) (2) decimal.simps) (auto split: if_splits)
qed

lemma render_part_ascii: "b \<in> set (render_part q) \<Longrightarrow> within 48 58 b"
  by (induction q rule: render_part.induct) (auto dest: decimal_ascii simp: within_def word_le_nat_alt)

lemma render_params_ascii: "b \<in> set (render_params qs) \<Longrightarrow> within 48 59 b"
  by (induction qs rule: render_params.induct) (auto dest: render_part_ascii simp: within_def word_le_nat_alt)

lemma within_ascii: "within lo hi b \<Longrightarrow> hi < 0x80 \<Longrightarrow> b < 0x80"
  by (simp add: within_def word_le_nat_alt word_less_nat_alt)

text \<open>A whole CSI sequence, with or without a private marker and parameters.\<close>

definition csi_seq :: "u8 \<Rightarrow> u16 list list \<Rightarrow> u8 \<Rightarrow> bytes" where
  "csi_seq pv qs f = [0x1B, 91] @ marker pv @ render_params qs @ [f]"

definition csi_ok :: "u8 \<Rightarrow> u16 list list \<Rightarrow> u8 \<Rightarrow> bool" where
  "csi_ok pv qs f \<longleftrightarrow> (pv = 0 \<or> within 0x3C 0x3F pv) \<and> (qs = [] \<and> pv = 0 \<or> qs \<noteq> [] \<and> params_ok qs) \<and> within 0x40 0x7E f"

lemma csi_seq_ascii:
  assumes "csi_ok pv qs f"
  shows "\<forall>b \<in> set (csi_seq pv qs f). b < 0x80"
  using assms by (auto simp: csi_seq_def csi_ok_def marker_def dest!: render_params_ascii intro: within_ascii)

lemma csi_seq_parses:
  assumes "csi_ok pv qs f" "at_rest p"
  shows "\<exists>p'. parse_bytes (csi_seq pv qs f) p = (p', [Csi qs [] pv f]) \<and> at_rest p'"
proof -
  have "\<exists>p'. parse_bytes (csi_seq pv qs f) p = (p', [Csi qs [] pv f]) \<and> ps_state p' = Ground"
  proof (cases "qs = []")
    case False
    obtain p1 p3 p4 where p: "advance 0x1B p = (p1, snd (advance 0x1B p))" "parse_bytes (91 # marker pv @ render_params qs) p1 = (p3, [])"
        "advance f p3 = (p4, [Csi qs [] pv f])" "ps_state p4 = Ground"
      by (rule csi_marked_steps [of qs f pv p]) (use assms False in \<open>auto simp: csi_ok_def\<close>)
    have "parse_bytes [f] p3 = (p4, [Csi qs [] pv f])" by (simp add: p(3))
    then have "parse_bytes ((91 # marker pv @ render_params qs) @ [f]) p1 = (p4, [Csi qs [] pv f])"
      unfolding parse_bytes_append p(2) by (simp del: parse_bytes.simps)
    then have "parse_bytes (0x1B # (91 # marker pv @ render_params qs) @ [f]) p = (p4, [Csi qs [] pv f])"
      using at_rest_escape [OF assms(2)] by (subst parse_bytes.simps, subst p(1)) (simp del: parse_bytes.simps)
    then show ?thesis using p(4) by (auto simp: csi_seq_def)
  next
    case True
    then have f: "pv = 0" "within 0x40 0x7E f" using assms(1) by (auto simp: csi_ok_def)
    then have n: "anywhere f q = None" "\<not> plain_c0 f" "\<not> within 0x20 0x2F f" "\<not> within 48 57 f" "f \<noteq> 58" "f \<noteq> 59" "\<not> within 0x3C 0x3F f" for q
      by (auto simp: anywhere_def plain_c0_def within_def word_le_nat_alt)
    show ?thesis
      using assms(2) f n True
      by (simp add: csi_seq_def marker_def at_rest_def advance_def ground_def ground_fresh_def goto_def unless_anywhere_def
          anywhere_def escape_fresh_def plain_c0_def within_def [of _ _ 91] clear_def csi_entry_fresh_def csi_dispatch_def take_params_def Let_def)
  qed
  then obtain p' where p': "parse_bytes (csi_seq pv qs f) p = (p', [Csi qs [] pv f])" "ps_state p' = Ground" by blast
  have "quiet (fst (parse_bytes (csi_seq pv qs f) p))"
    by (rule quiet_parse) (use assms csi_seq_ascii in \<open>auto simp: at_rest_quiet\<close>)
  then show ?thesis using p' by (auto simp: at_rest_quiet)
qed

text \<open>Controls and short escapes.\<close>

lemma control_parses:
  assumes "b < 0x20" "b \<noteq> 0x1B" "at_rest p"
  shows "parse_bytes [b] p = (p, [Execute b])"
proof -
  have "b \<le> 0x1F" using assms(1) by (simp add: word_le_nat_alt word_less_nat_alt)
  then show ?thesis using assms(2,3) by (simp add: advance_def at_rest_def ground_def ground_fresh_def)
qed

lemma escape_parses:
  assumes "within 0x30 0x7E b" "b \<notin> {91, 93, 80, 95, 88, 94}" "at_rest p"
  shows "\<exists>p'. parse_bytes [0x1B, b] p = (p', [Esc [] b]) \<and> at_rest p'"
proof -
  have "\<not> plain_c0 b" "\<not> within 0x20 0x2F b" "b \<noteq> 0x1B" "b \<noteq> 0x18" "b \<noteq> 0x1A" "\<not> within 0x80 0x9F b"
    using assms(1) by (auto simp: plain_c0_def within_def word_le_nat_alt)
  then show ?thesis
    using assms by (auto simp: at_rest_def advance_def ground_def ground_fresh_def goto_def unless_anywhere_def anywhere_def escape_fresh_def)
qed

section \<open>Operating system commands\<close>

definition osc_text :: "bytes \<Rightarrow> bool" where
  "osc_text data \<longleftrightarrow> (\<forall>b \<in> set data. 0x20 \<le> b) \<and> length data \<le> MAX_OSC"

lemma osc_collects:
  assumes "ps_state p = OscString" "\<forall>b \<in> set data. 0x20 \<le> b" "length (ps_string_buf p) + length data \<le> MAX_OSC"
  shows "parse_bytes data p = (p\<lparr>ps_string_buf := ps_string_buf p @ data\<rparr>, [])"
  using assms
proof (induction data arbitrary: p)
  case (Cons b data)
  have "b \<noteq> 0x07" "b \<noteq> 0x1B" "b \<noteq> 0x18" "b \<noteq> 0x1A" "\<not> plain_c0 b"
    using Cons.prems(2) by (auto simp: plain_c0_def within_def word_le_nat_alt)
  then have "advance b p = (p\<lparr>ps_string_buf := ps_string_buf p @ [b]\<rparr>, [])"
    using Cons.prems(1,3) by (simp add: advance_def osc_string_def push_string_byte_def)
  then show ?case using Cons by simp
qed simp

lemma osc_opens:
  assumes "at_rest p"
  shows "parse_bytes [0x1B, 93] p = (start_string OscString (goto Escape p), [])"
  using assms by (simp add: at_rest_def advance_def ground_def ground_fresh_def goto_def unless_anywhere_def anywhere_def
      escape_fresh_def plain_c0_def within_def)

lemma osc_body:
  assumes "at_rest p" "osc_text data"
  obtains p1 where "parse_bytes ([0x1B, 93] @ data) p = (p1, [])" "ps_state p1 = OscString" "ps_string_buf p1 = data"
    "\<not> ps_string_overflow p1" "quiet p1"
proof -
  let ?q = "start_string OscString (goto Escape p)"
  have "parse_bytes data ?q = (?q\<lparr>ps_string_buf := ps_string_buf ?q @ data\<rparr>, [])"
    by (rule osc_collects) (use assms(2) in \<open>simp_all add: start_string_def osc_text_def\<close>)
  then show ?thesis
    using that [of "?q\<lparr>ps_string_buf := data\<rparr>"] assms(1)
    unfolding parse_bytes_append osc_opens [OF assms(1)] by (simp add: start_string_def goto_def at_rest_quiet)
qed

lemma osc_bel_parses:
  assumes "at_rest p" "osc_text data"
  shows "\<exists>p'. parse_bytes ([0x1B, 93] @ data @ [0x07]) p = (p', [Osc data True]) \<and> at_rest p'"
proof -
  obtain p1 where p1: "parse_bytes ([0x1B, 93] @ data) p = (p1, [])" "ps_state p1 = OscString" "ps_string_buf p1 = data"
    "\<not> ps_string_overflow p1" "quiet p1" using osc_body [OF assms] .
  have "parse_bytes [0x07] p1 = (fst (finish_osc True p1), [Osc data True])"
    using p1(2-4) by (simp add: advance_def osc_string_def finish_osc_def)
  from parse_then [OF p1(1) this] have "parse_bytes (([0x1B, 93] @ data) @ [0x07]) p = (fst (finish_osc True p1), [Osc data True])" by simp
  moreover have "at_rest (fst (finish_osc True p1))" using p1(5) by (simp add: finish_osc_def at_rest_quiet)
  ultimately show ?thesis by auto
qed

lemma osc_st_parses:
  assumes "at_rest p" "osc_text data"
  shows "\<exists>p'. parse_bytes ([0x1B, 93] @ data @ [0x1B, 0x5C]) p = (p', [Osc data False, Esc [] 0x5C]) \<and> at_rest p'"
proof -
  obtain p1 where p1: "parse_bytes ([0x1B, 93] @ data) p = (p1, [])" "ps_state p1 = OscString" "ps_string_buf p1 = data"
    "\<not> ps_string_overflow p1" "quiet p1" using osc_body [OF assms] .
  have "parse_bytes [0x1B, 0x5C] p1 = (goto Ground (goto Escape (fst (finish_osc False p1))), [Osc data False, Esc [] 0x5C])"
    using p1(2-4)
    by (simp add: advance_def osc_string_def finish_osc_def goto_def unless_anywhere_def anywhere_def escape_fresh_def plain_c0_def within_def)
  from parse_then [OF p1(1) this] have "parse_bytes (([0x1B, 93] @ data) @ [0x1B, 0x5C]) p = (goto Ground (goto Escape (fst (finish_osc False p1))), [Osc data False, Esc [] 0x5C])" by simp
  moreover have "at_rest (goto Ground (goto Escape (fst (finish_osc False p1))))" using p1(5) by (simp add: finish_osc_def at_rest_quiet goto_def)
  ultimately show ?thesis by auto
qed

end
