(* ===== verification/Canvas.thy ===== *)
theory Canvas
  imports Terminal_Behaviour Parser_Streams
begin

text \<open>
  What a byte stream paints on a terminal. A \<open>View\<close> is the part of a terminal that drawing is about:
  the active grid, the cursor with its pen, the modes, the title and the margins. \<open>paints bs v w\<close> says
  that processing \<open>bs\<close> takes every sound terminal at rest that shows \<open>v\<close> to one that shows \<open>w\<close>; it
  composes along concatenation, so that a renderer is verified piece by piece on views.
\<close>

section \<open>Views\<close>

record View =
  vw_grid :: "Row list"
  vw_cursor :: CursorState
  vw_modes :: Modes
  vw_title :: bytes
  vw_region :: "nat \<times> nat"

definition view :: "'g Terminal \<Rightarrow> View" where
  "view t = \<lparr>vw_grid = sc_grid (scr t), vw_cursor = t_cursor t, vw_modes = t_modes t, vw_title = t_title t,
     vw_region = region t\<rparr>"

definition vw_rows :: "View \<Rightarrow> nat" where
  "vw_rows v = length (vw_grid v)"

definition vw_cols :: "View \<Rightarrow> nat" where
  "vw_cols v = length (cells (hd (vw_grid v)))"

abbreviation vw_row :: "View \<Rightarrow> nat" where "vw_row v \<equiv> c_row (vw_cursor v)"
abbreviation vw_col :: "View \<Rightarrow> nat" where "vw_col v \<equiv> c_col (vw_cursor v)"
abbreviation vw_pending :: "View \<Rightarrow> bool" where "vw_pending v \<equiv> c_pending_wrap (vw_cursor v)"
abbreviation vw_style :: "View \<Rightarrow> Style" where "vw_style v \<equiv> c_style (vw_cursor v)"

text \<open>The state in which a renderer works: autowrap, replace mode, absolute addresses, ASCII, one column
  per cell.\<close>

definition drawable :: "View \<Rightarrow> bool" where
  "drawable v \<longleftrightarrow> m_autowrap (vw_modes v) \<and> \<not> m_insert (vw_modes v) \<and> \<not> m_origin (vw_modes v) \<and> \<not> m_lnm (vw_modes v)
     \<and> c_g0 (vw_cursor v) = Ascii \<and> c_shift (vw_cursor v) = 0
     \<and> (\<forall>r \<in> set (vw_grid v). \<forall>c \<in> set (cells r). width c = 1)"

definition canvas :: "'g Terminal \<Rightarrow> bool" where
  "canvas t \<longleftrightarrow> term_inv t \<and> at_rest (t_parser t)"

lemma view_sel [simp]:
  "vw_grid (view t) = sc_grid (scr t)" "vw_cursor (view t) = t_cursor t" "vw_modes (view t) = t_modes t"
  "vw_title (view t) = t_title t" "vw_region (view t) = region t"
  by (simp_all add: view_def)

lemma vw_dims_cursor [simp]: "vw_rows (v\<lparr>vw_cursor := c\<rparr>) = vw_rows v" "vw_cols (v\<lparr>vw_cursor := c\<rparr>) = vw_cols v"
  "vw_rows (v\<lparr>vw_modes := m\<rparr>) = vw_rows v" "vw_cols (v\<lparr>vw_modes := m\<rparr>) = vw_cols v"
  "vw_rows (v\<lparr>vw_title := s\<rparr>) = vw_rows v" "vw_cols (v\<lparr>vw_title := s\<rparr>) = vw_cols v"
  "vw_rows (v\<lparr>vw_region := r\<rparr>) = vw_rows v" "vw_cols (v\<lparr>vw_region := r\<rparr>) = vw_cols v"
  "vw_rows (v\<lparr>vw_grid := g\<rparr>) = length g" "vw_cols (v\<lparr>vw_grid := g\<rparr>) = length (cells (hd g))"
  by (simp_all add: vw_rows_def vw_cols_def)

lemma inv_grid:
  assumes "term_inv t"
  shows "length (sc_grid (scr t)) = t_rows t" "\<forall>r \<in> set (sc_grid (scr t)). length (cells r) = t_cols t"
    "0 < t_rows t" "0 < t_cols t"
proof -
  note s = inv_scr [OF assms]
  show "length (sc_grid (scr t)) = t_rows t" using wf_screenD(3) [OF s(1)] s(2) by simp
  show "\<forall>r \<in> set (sc_grid (scr t)). length (cells r) = t_cols t"
    using wf_screenD(5) [OF s(1)] s(3) by (auto simp: in_set_conv_nth)
  show "0 < t_rows t" "0 < t_cols t" using inv_dims [OF assms] by auto
qed

lemma inv_view:
  assumes "term_inv t"
  shows "vw_rows (view t) = t_rows t" "vw_cols (view t) = t_cols t"
proof -
  note g = inv_grid [OF assms]
  show "vw_rows (view t) = t_rows t" by (simp add: vw_rows_def g)
  have "sc_grid (scr t) \<noteq> []" using g(1,3) by auto
  then show "vw_cols (view t) = t_cols t" using g(2) by (simp add: vw_cols_def)
qed

section \<open>Painting\<close>

definition paints :: "'g graphics_dispatch \<Rightarrow> 'g \<Rightarrow> bytes \<Rightarrow> View \<Rightarrow> View \<Rightarrow> bool" where
  "paints gd g0 bs v w \<longleftrightarrow>
     (\<forall>t. canvas t \<and> view t = v \<longrightarrow> (\<exists>t'. process gd g0 bs t = Some t' \<and> canvas t' \<and> view t' = w))"

lemma paints_Nil: "paints gd g0 [] v v"
  by (simp add: paints_def process_def canvas_def view_def)

lemma paints_append: "paints gd g0 a u v \<Longrightarrow> paints gd g0 b v w \<Longrightarrow> paints gd g0 (a @ b) u w"
  by (force simp: paints_def process_append)

text \<open>Bytes that parse to given actions act as those do.\<close>

definition yields :: "bytes \<Rightarrow> Action list \<Rightarrow> bool" where
  "yields bs as \<longleftrightarrow> (\<forall>p. at_rest p \<longrightarrow> (\<exists>p'. parse_bytes bs p = (p', as) \<and> at_rest p'))"

definition acts :: "'g graphics_dispatch \<Rightarrow> 'g \<Rightarrow> Action list \<Rightarrow> View \<Rightarrow> View \<Rightarrow> bool" where
  "acts gd g0 as v w \<longleftrightarrow> (\<forall>t. term_inv t \<and> view t = v \<longrightarrow> (\<exists>t'. dispatch_all gd g0 as t = Some t' \<and> view t' = w))"

lemma view_parser [simp]: "view (t\<lparr>t_parser := p\<rparr>) = view t"
  by (simp add: view_def scr_def region_def t_rows_def)

lemma paints_acts:
  assumes "yields bs as" "acts gd g0 as v w"
  shows "paints gd g0 bs v w"
  unfolding paints_def
proof (intro allI impI)
  fix t :: "'a Terminal" assume t: "canvas t \<and> view t = v"
  obtain p where p: "parse_bytes bs (t_parser t) = (p, as)" "at_rest p" using assms(1) t by (auto simp: yields_def canvas_def)
  obtain u where u: "dispatch_all gd g0 as (t\<lparr>t_parser := parser_new\<rparr>) = Some u" "view u = w"
    using assms(2) t unfolding acts_def canvas_def by (metis view_parser inv_fields(1))
  have "term_inv u" using inv_dispatch_all [OF _ u(1)] t by (simp add: canvas_def)
  then show "\<exists>t'. process gd g0 bs t = Some t' \<and> canvas t' \<and> view t' = w"
    using process_parse [OF p(1), of gd g0] u p(2) by (simp add: canvas_def)
qed

lemma acts_one: "(\<And>t. term_inv t \<Longrightarrow> view t = v \<Longrightarrow> \<exists>t'. dispatch gd g0 a t = Some t' \<and> view t' = w) \<Longrightarrow> acts gd g0 [a] v w"
  by (force simp: acts_def)

lemma yields_control: "b < 0x20 \<Longrightarrow> b \<noteq> 0x1B \<Longrightarrow> yields [b] [Execute b]"
  using control_parses by (auto simp: yields_def)

lemma yields_csi: "csi_ok pv qs f \<Longrightarrow> yields (csi_seq pv qs f) [Csi qs [] pv f]"
  using csi_seq_parses by (auto simp: yields_def)

lemma yields_escape: "within 0x30 0x7E b \<Longrightarrow> b \<notin> {91, 93, 80, 95, 88, 94} \<Longrightarrow> yields [0x1B, b] [Esc [] b]"
  using escape_parses by (auto simp: yields_def)

lemma yields_text: "list_all printable cs \<Longrightarrow> yields (concat (map utf8_encode cs)) (map Print cs)"
  using print_text by (auto simp: yields_def)

lemma yields_osc:
  "osc_text data \<Longrightarrow> yields ([0x1B, 93] @ data @ [0x07]) [Osc data True]"
  "osc_text data \<Longrightarrow> yields ([0x1B, 93] @ data @ [0x1B, 0x5C]) [Osc data False, Esc [] 0x5C]"
  using osc_bel_parses osc_st_parses by (auto simp: yields_def)

section \<open>What the operations do to a view\<close>

lemma scr_fields [simp]:
  "scr (t\<lparr>t_title := a\<rparr>) = scr t" "scr (t\<lparr>t_bell_count := b\<rparr>) = scr t" "scr (t\<lparr>t_icon_title := a\<rparr>) = scr t"
  "scr (t\<lparr>t_scroll_top := c\<rparr>) = scr t" "scr (t\<lparr>t_scroll_bot := c\<rparr>) = scr t" "scr (respond s t) = scr t"
  "scr (on_cursor f t) = scr t" "scr (on_modes m t) = scr t" "scr (no_wrap t) = scr t" "scr (set_row n t) = scr t"
  by (simp_all add: scr_def assign_defs)

lemma title_assign [simp]:
  "t_title (touch t) = t_title t" "t_title (respond s t) = t_title t" "t_title (on_cursor f t) = t_title t"
  "t_title (on_modes m t) = t_title t" "t_title (on_screen g t) = t_title t"
  by (simp_all add: assign_defs on_screen_def)

lemma view_assign [simp]:
  "view (touch t) = view t" "view (respond s t) = view t"
  "view (on_cursor f t) = (view t)\<lparr>vw_cursor := f (t_cursor t)\<rparr>"
  "view (on_modes m t) = (view t)\<lparr>vw_modes := m (t_modes t)\<rparr>"
  "view (t\<lparr>t_last_printed := a\<rparr>) = view t" "view (t\<lparr>t_bell_count := b\<rparr>) = view t" "view (t\<lparr>t_icon_title := c\<rparr>) = view t"
  "view (t\<lparr>t_title := c\<rparr>) = (view t)\<lparr>vw_title := c\<rparr>"
  by (simp_all add: view_def) (simp_all add: scr_def region_def t_rows_def)

lemma view_cursor [simp]:
  "view (no_wrap t) = (view t)\<lparr>vw_cursor := (t_cursor t)\<lparr>c_pending_wrap := False\<rparr>\<rparr>"
  "view (set_col n t) = (view t)\<lparr>vw_cursor := (t_cursor t)\<lparr>c_col := n\<rparr>\<rparr>"
  "view (set_row n t) = (view t)\<lparr>vw_cursor := (t_cursor t)\<lparr>c_row := n\<rparr>\<rparr>"
  by (simp_all add: no_wrap_def set_col_def set_row_def)

lemma view_screen: "same_dims f \<Longrightarrow> view (on_screen f t) = (view t)\<lparr>vw_grid := sc_grid (f (scr t))\<rparr>"
  by (simp add: view_def region_def t_rows_def) (auto simp: on_screen_def same_dims_def)

definition vw_at :: "nat \<Rightarrow> nat \<Rightarrow> View \<Rightarrow> View" where
  "vw_at y x v = v\<lparr>vw_cursor := (vw_cursor v)\<lparr>c_row := y, c_col := x, c_pending_wrap := False\<rparr>\<rparr>"

text \<open>Control characters.\<close>

lemma paints_bell: "paints gd g0 [0x07] v v"
  by (rule paints_acts [OF yields_control acts_one]) (auto simp: execute_def)

lemma paints_cr: "paints gd g0 [0x0D] v (vw_at (vw_row v) 0 v)"
  by (rule paints_acts [OF yields_control acts_one]) (auto simp: execute_def vw_at_def)

lemma paints_bs: "paints gd g0 [0x08] v (vw_at (vw_row v) (vw_col v - 1) v)"
  by (rule paints_acts [OF yields_control acts_one]) (auto simp: execute_def vw_at_def)

lemma paints_lf:
  assumes "\<not> m_lnm (vw_modes v)" "vw_row v \<noteq> snd (vw_region v)" "vw_row v + 1 < vw_rows v"
  shows "paints gd g0 [0x0A] v (vw_at (vw_row v + 1) (vw_col v) v)"
proof (rule paints_acts [OF yields_control acts_one])
  fix t :: "'a Terminal" assume t: "term_inv t" "view t = v"
  have "t_rows t = vw_rows v" using inv_view(1) [OF t(1)] t(2) by simp
  then have "view (linefeed t) = vw_at (vw_row v + 1) (vw_col v) v" using assms t(2) by (auto simp: linefeed_def index_def vw_at_def Let_def)
  then show "\<exists>t'. dispatch gd g0 (Execute 0x0A) t = Some t' \<and> view t' = vw_at (vw_row v + 1) (vw_col v) v" by (simp add: execute_def)
qed simp_all

text \<open>A line feed at the bottom margin scrolls the region.\<close>

definition vw_scroll :: "nat \<Rightarrow> View \<Rightarrow> View" where
  "vw_scroll n v = v\<lparr>vw_grid := region_up (fst (vw_region v)) (snd (vw_region v)) n
      (row_blank (vw_cols v) (style_default\<lparr>st_bg := st_bg (vw_style v)\<rparr>)) (vw_grid v),
    vw_cursor := (vw_cursor v)\<lparr>c_pending_wrap := False\<rparr>\<rparr>"

lemma view_scroll_up:
  assumes "term_inv t"
  shows "view (scroll_up_n 1 (no_wrap t)) = vw_scroll 1 (view t)"
proof -
  note s = inv_scr [OF assms]
  obtain a b where r: "region t = (a, b)" by fastforce
  have ab: "a \<le> b" "b < t_rows t" using assms r by (auto simp: region_def term_inv_defs)
  have "sc_grid (scroll_up a b 1 save (blank_style t) (scr t)) = region_up a b 1 (row_blank (t_cols t) (blank_style t)) (sc_grid (scr t))" for save
  proof -
    have "min b (t_rows t - 1) = b" "max 1 (min 1 (b - a + 1)) = 1" using ab by auto
    then show ?thesis unfolding scroll_up_eq [OF s(1)] s(2,3) Let_def using ab(1) by simp
  qed
  then show ?thesis using r inv_view(2) [OF assms]
    by (simp add: scroll_up_n_def view_screen dims_simps vw_scroll_def blank_style_def Let_def)
qed

lemma paints_lf_scroll:
  assumes "\<not> m_lnm (vw_modes v)" "vw_row v = snd (vw_region v)"
  shows "paints gd g0 [0x0A] v (vw_scroll 1 v)"
proof (rule paints_acts [OF yields_control acts_one])
  fix t :: "'a Terminal" assume t: "term_inv t" "view t = v"
  then have "view (linefeed t) = vw_scroll 1 v" using assms view_scroll_up [OF t(1)] by (auto simp: linefeed_def index_def Let_def)
  then show "\<exists>t'. dispatch gd g0 (Execute 0x0A) t = Some t' \<and> view t' = vw_scroll 1 v" by (simp add: execute_def)
qed simp_all

section \<open>Printing\<close>

lemma drawable_row: "drawable (view t) \<Longrightarrow> term_inv t \<Longrightarrow> narrow_row t"
  using cursor_row_length(2) [of t] by (auto simp: drawable_def narrow_row_def cursor_row_def)

lemma place_narrow:
  assumes "term_inv t" "drawable (view t)"
  shows "print_place c 1 t = print_advance 1
    (on_screen (cell_update (c_row (t_cursor t)) (c_col (t_cursor t)) (\<lambda>_. text_cell (t_cursor t) c)) t)"
proof -
  have "clean_wide (c_row (t_cursor t)) (c_col (t_cursor t)) 1 t = t"
    using clean_wide_narrow [OF assms(1)] drawable_row [OF assms(2,1)] by simp
  moreover have "m_insert (t_modes t) = False" using assms(2) by (simp add: drawable_def)
  ultimately show ?thesis
    by (simp add: print_place_def print_insert_def put_char_def [abs_def] text_cell_def Let_def)
qed

definition vw_write :: "nat \<Rightarrow> View \<Rightarrow> View" where
  "vw_write c v = v\<lparr>vw_grid := (vw_grid v)[vw_row v := (vw_grid v ! vw_row v)
        \<lparr>cells := (cells (vw_grid v ! vw_row v))[vw_col v := text_cell (vw_cursor v) c]\<rparr>],
     vw_cursor := (vw_cursor v)\<lparr>c_col := (if vw_col v + 1 < vw_cols v then vw_col v + 1 else vw_col v),
        c_pending_wrap := \<not> vw_col v + 1 < vw_cols v\<rparr>\<rparr>"

definition vw_wrap :: "View \<Rightarrow> View" where
  "vw_wrap v = v\<lparr>vw_grid := (vw_grid v)[vw_row v := (vw_grid v ! vw_row v)\<lparr>wrapped := True\<rparr>],
     vw_cursor := (vw_cursor v)\<lparr>c_row := vw_row v + 1, c_col := 0, c_pending_wrap := False\<rparr>\<rparr>"

lemma view_place:
  assumes "term_inv t" "drawable (view t)" "\<not> c_pending_wrap (t_cursor t)"
  shows "view (print_place c 1 t) = vw_write c (view t)"
proof -
  have "c_col (t_cursor t) < t_cols t" using inv_dims(4) [OF assms(1)] .
  moreover have "m_autowrap (t_modes t)" using assms(2) by (simp add: drawable_def)
  moreover have "t_cols (on_screen f u) = t_cols u" if "same_dims f" for f and u :: "'a Terminal"
    using that by (auto simp: on_screen_def t_cols_def same_dims_def)
  ultimately show ?thesis
    unfolding place_narrow [OF assms(1,2)] using assms(3) inv_view(2) [OF assms(1)]
    by (auto simp: print_advance_def view_screen dims_simps cursor_cell_update [OF assms(1)] vw_write_def cursor_row_def Let_def)
qed

text \<open>Printing is placing, behind the wrap when one is pending.\<close>

lemma print_narrow:
  assumes "drawable (view t)" "wcwidth c = 1"
  shows "print c t = print_place c 1 (print_wrap ((touch t)\<lparr>t_last_printed := Some c\<rparr>))"
proof -
  have "\<not> (0x80 \<le> c \<and> c < 0xA0)" using assms(2) by (auto simp: wcwidth_def split: if_splits)
  moreover have "map_charset t c = c" using assms(1) by (simp add: map_charset_def drawable_def Let_def)
  ultimately show ?thesis using assms(2) unfolding print_def by (simp only: if_False Let_def) (simp add: print_edge_def Let_def)
qed

lemma yields_char: "scalar c \<Longrightarrow> wcwidth c = 1 \<Longrightarrow> yields (utf8_encode c) [Print c]"
  using yields_text [of "[c]"] by (auto simp: printable_def wcwidth_def split: if_splits)

lemma paints_char:
  assumes "drawable v" "\<not> vw_pending v" "scalar c" "wcwidth c = 1"
  shows "paints gd g0 (utf8_encode c) v (vw_write c v)"
proof (rule paints_acts [OF yields_char acts_one])
  fix t :: "'a Terminal" assume t: "term_inv t" "view t = v"
  let ?t = "(touch t)\<lparr>t_last_printed := Some c\<rparr>"
  have "view ?t = v" "term_inv ?t" using t by simp_all
  then have "view (print_place c 1 ?t) = vw_write c v" using view_place [of ?t c] assms t by (auto simp: touch_def)
  then show "\<exists>t'. dispatch gd g0 (Print c) t = Some t' \<and> view t' = vw_write c v"
    using print_narrow [of t c] assms t(2) by (auto simp: print_wrap_def)
qed (use assms in simp_all)

lemma drawable_wrap [simp]: "vw_row v < vw_rows v \<Longrightarrow> drawable (vw_wrap v) = drawable v"
  by (auto simp: drawable_def vw_wrap_def vw_rows_def all_set_conv_all_nth nth_list_update)

text \<open>With a wrap pending, the character goes to the start of the next line.\<close>

lemma view_wrap:
  assumes "term_inv t" "drawable (view t)" "c_pending_wrap (t_cursor t)"
    and "c_row (t_cursor t) \<noteq> snd (region t)" "c_row (t_cursor t) + 1 < t_rows t"
  shows "view (print_wrap ((touch t)\<lparr>t_last_printed := x\<rparr>)) = vw_wrap (view t)"
proof -
  let ?t = "(touch t)\<lparr>t_last_printed := x\<rparr>"
  let ?u = "on_screen (mark_wrapped True (c_row (t_cursor t))) (no_wrap ?t)"
  have u: "print_wrap ?t = index (set_col 0 ?u)"
    using assms(2,3) by (simp add: print_wrap_def drawable_def Let_def)
  have rows: "t_rows ?u = t_rows t"
    by (auto simp: on_screen_def t_rows_def no_wrap_def on_cursor_def touch_def mark_wrapped_def row_update_def Let_def)
  have reg: "region ?u = region t"
    unfolding region_def rows by (simp add: no_wrap_def on_cursor_def touch_def)
  have "row_index (scr t) (c_row (t_cursor t)) = c_row (t_cursor t)"
    using inv_grid(1) [OF assms(1)] assms(5) by (simp add: row_index_def)
  then have m: "sc_grid (mark_wrapped True (c_row (t_cursor t)) (scr t)) =
      (sc_grid (scr t))[c_row (t_cursor t) := (sc_grid (scr t) ! c_row (t_cursor t))\<lparr>wrapped := True\<rparr>]"
    by (simp add: mark_wrapped_def row_update_def Let_def)
  show ?thesis
    unfolding u index_def Let_def using assms(4,5)
    by (simp add: rows reg view_screen dims_simps m vw_wrap_def)
qed

lemma paints_char_wrap:
  assumes "drawable v" "vw_pending v" "scalar c" "wcwidth c = 1" "vw_row v \<noteq> snd (vw_region v)" "vw_row v + 1 < vw_rows v"
  shows "paints gd g0 (utf8_encode c) v (vw_write c (vw_wrap v))"
proof (rule paints_acts [OF yields_char acts_one])
  fix t :: "'a Terminal" assume t: "term_inv t" "view t = v"
  let ?u = "print_wrap ((touch t)\<lparr>t_last_printed := Some c\<rparr>)"
  have rows: "t_rows t = vw_rows v" using inv_view(1) [OF t(1)] t(2) by simp
  have v: "view ?u = vw_wrap v" using view_wrap [OF t(1)] assms t(2) rows by auto
  have "term_inv ?u" by (intro term_intros) (simp add: t(1))
  moreover have "drawable (view ?u)" "\<not> c_pending_wrap (t_cursor ?u)"
    using assms v by (simp_all, simp add: vw_wrap_def flip: view_sel)
  ultimately have "view (print_place c 1 ?u) = vw_write c (vw_wrap v)" using view_place v by metis
  then show "\<exists>t'. dispatch gd g0 (Print c) t = Some t' \<and> view t' = vw_write c (vw_wrap v)"
    using print_narrow [of t c] assms(1,4) t(2) by simp
qed (use assms in simp_all)

section \<open>Erasing\<close>

definition fill :: "nat \<Rightarrow> nat \<Rightarrow> 'a \<Rightarrow> 'a list \<Rightarrow> 'a list" where
  "fill a b x xs = take a xs @ replicate (b - a) x @ drop b xs"

lemma fill_Suc: "a \<le> b \<Longrightarrow> b < length xs \<Longrightarrow> (fill a b x xs)[b := x] = fill a (Suc b) x xs"
proof -
  assume "a \<le> b" "b < length xs"
  then have "drop b xs = xs ! b # drop (Suc b) xs" "Suc b - a = Suc (b - a)" by (simp_all add: Cons_nth_drop_Suc)
  then show ?thesis using \<open>a \<le> b\<close> \<open>b < length xs\<close>
    by (simp add: fill_def list_update_append replicate_append_same [symmetric] del: replicate_append_same)
qed

lemma length_fill [simp]: "a \<le> b \<Longrightarrow> b \<le> length xs \<Longrightarrow> length (fill a b x xs) = length xs"
  by (simp add: fill_def)

lemma fill_same [simp]: "fill a a x xs = xs"
  by (simp add: fill_def)

lemma set_fill: "set (fill a b x xs) \<subseteq> insert x (set xs)"
  by (auto simp: fill_def dest: in_set_takeD in_set_dropD)

lemma put_blanks_grid:
  assumes "row < length (sc_grid s)" "a \<le> b" "b \<le> sc_cols s" "length (cells (sc_grid s ! row)) = sc_cols s"
  shows "sc_grid (fold (put_blank style row) [a..<b] s) = (sc_grid s)[row := (sc_grid s ! row)
      \<lparr>cells := fill a b (cell_blank style) (cells (sc_grid s ! row))\<rparr>]
    \<and> sc_cols (fold (put_blank style row) [a..<b] s) = sc_cols s"
  using assms(2,3)
proof (induction b)
  case (Suc b)
  show ?case
  proof (cases "a = Suc b")
    case False
    let ?r = "sc_grid s ! row"
    define u where "u = fold (put_blank style row) [a..<b] s"
    from Suc False have IH: "sc_grid u = (sc_grid s)[row := ?r\<lparr>cells := fill a b (cell_blank style) (cells ?r)\<rparr>]"
      "sc_cols u = sc_cols s" by (simp_all add: u_def)
    have f: "(fill a b (cell_blank style) (cells ?r))[b := cell_blank style] = fill a (Suc b) (cell_blank style) (cells ?r)"
      using fill_Suc [of a b "cells ?r" "cell_blank style"] Suc.prems False assms(4) by simp
    have m: "min row (length (sc_grid s) - Suc 0) = row" "min b (sc_cols s - Suc 0) = b" using assms(1) Suc.prems by auto
    have step: "fold (put_blank style row) [a..<Suc b] s = put_blank style row b u" using Suc.prems False by (simp add: u_def)
    show ?thesis unfolding step
      using assms(1) by (simp add: put_blank_def cell_update_def row_update_def row_index_def col_index_def IH Let_def m f)
  qed simp
qed simp

lemma erase_is_blank: "erase_cell style False = put_blank style"
  by (simp add: erase_cell_def put_blank_def fun_eq_iff)

lemma repair_narrow:
  assumes "\<forall>c \<in> set (cells (sc_grid (scr t) ! row)). width c = 1"
  shows "repair_wide_halves row t = t"
proof -
  have "\<not> width_at w row c (scr t)" if "w \<noteq> 1" for w c
    using assms that by (auto simp: width_at_def screen_cell_def split: option.split)
  then have o: "\<not> orphaned cols row c (scr t)" for cols c by (simp add: orphaned_def)
  have "fold (\<lambda>c s. if orphaned (t_cols t) row c s then put_blank (blank_style t) row c s else s) cs (scr t) = scr t" for cs
    by (induction cs) (simp_all add: o)
  moreover have "on_screen f t = t" if "f (scr t) = scr t" for f
    using that by (auto simp: on_screen_def scr_def split: if_splits)
  ultimately show ?thesis by (simp add: repair_wide_halves_def)
qed

definition vw_blank :: "View \<Rightarrow> Style" where
  "vw_blank v = style_default\<lparr>st_bg := st_bg (vw_style v)\<rparr>"

text \<open>The cells of the cursor's row from column \<open>a\<close> to \<open>b\<close> become blanks.\<close>

definition vw_erase :: "nat \<Rightarrow> nat \<Rightarrow> View \<Rightarrow> View" where
  "vw_erase a b v = v\<lparr>vw_grid := (vw_grid v)[vw_row v := (vw_grid v ! vw_row v)
       \<lparr>cells := fill a b (cell_blank (vw_blank v)) (cells (vw_grid v ! vw_row v))\<rparr>],
     vw_cursor := (vw_cursor v)\<lparr>c_pending_wrap := False\<rparr>\<rparr>"

lemma view_put_blanks:
  assumes "term_inv t" "a \<le> b" "b \<le> t_cols t" "t = no_wrap u"
  shows "view (on_screen (fold (put_blank (blank_style u) (c_row (t_cursor u))) [a..<b]) t) = vw_erase a b (view u)"
proof -
  have "term_inv u" using assms(1,4) by simp
  note g = inv_grid [OF this] and d = inv_dims [OF this] and s = inv_scr [OF this]
  have "sc_grid (fold (put_blank (blank_style u) (c_row (t_cursor u))) [a..<b] (scr u)) = (sc_grid (scr u))[c_row (t_cursor u) :=
      (sc_grid (scr u) ! c_row (t_cursor u))\<lparr>cells := fill a b (cell_blank (blank_style u)) (cells (sc_grid (scr u) ! c_row (t_cursor u)))\<rparr>]"
    using put_blanks_grid [of "c_row (t_cursor u)" "scr u" a b "blank_style u"] g d s assms(2-4) by simp
  then show ?thesis using assms(4)
    by (simp add: view_screen dims_simps vw_erase_def vw_blank_def blank_style_def)
qed

lemma param_one: "param [[w]] 0 d = w" "param [[a], [b]] 0 d = a" "param [[a], [b]] (Suc 0) d = b" "param [] i d = d"
  by (simp_all add: param_def)

lemma csi_plain_dispatch: "terminal_csi_dispatch ps [] 0 f t = csi_plain ps f t"
  by (simp add: terminal_csi_dispatch_def first_byte_def)

section \<open>Control sequences\<close>

lemma paints_csi:
  fixes gd :: "'g graphics_dispatch"
  assumes "csi_ok pv qs f" "\<And>t :: 'g Terminal. term_inv t \<Longrightarrow> view t = v \<Longrightarrow> view (terminal_csi_dispatch qs [] pv f t) = w"
  shows "paints gd g0 (csi_seq pv qs f) v w"
  using assms by (intro paints_acts [OF yields_csi acts_one]) auto

lemma asc_codes [simp]:
  "asc ''['' = [91]" "asc '';'' = [59]" "asc ''H'' = [72]" "asc ''X'' = [88]" "asc ''[K'' = [91, 75]" "asc ''r'' = [114]"
  "asc ''[r'' = [91, 114]" "asc ''[0m'' = [91, 48, 109]" "asc ''[H'' = [91, 72]" "asc ''[2J'' = [91, 50, 74]" "asc ''[?'' = [91, 63]"
  "asc ''h'' = [104]" "asc ''l'' = [108]" "asc ''m'' = [109]" "asc ''='' = [61]" "asc ''>'' = [62]" "asc '']0;'' = [93, 48, 59]"
  "asc '']8;;'' = [93, 56, 59, 59]" "asc '']52;'' = [93, 53, 50, 59]"
  by (simp_all add: asc_def)

lemma csi_seq_bytes:
  "csi_seq 0 [] f = 0x1B # 91 # [f]"
  "n < 65536 \<Longrightarrow> csi_seq 0 [[word_of_nat n]] f = 0x1B # 91 # decimal n @ [f]"
  "n < 65536 \<Longrightarrow> m < 65536 \<Longrightarrow> csi_seq 0 [[word_of_nat n], [word_of_nat m]] f = 0x1B # 91 # decimal n @ 59 # decimal m @ [f]"
  "n < 65536 \<Longrightarrow> csi_seq 0x3F [[word_of_nat n]] f = 0x1B # 91 # 63 # decimal n @ [f]"
  by (simp_all add: csi_seq_def marker_def take_bit_nat_eq_self unat_of_nat)

lemma csi_ok_few:
  "within 0x40 0x7E f \<Longrightarrow> csi_ok 0 [] f" "within 0x40 0x7E f \<Longrightarrow> csi_ok 0 [[a]] f" "within 0x40 0x7E f \<Longrightarrow> csi_ok 0 [[a], [b]] f"
  "within 0x40 0x7E f \<Longrightarrow> csi_ok 0x3F [[a]] f"
  by (simp_all add: csi_ok_def params_ok_def MAX_PARAMS_def MAX_SUBPARAMS_def within_def)

lemma unat_small: "n < 65536 \<Longrightarrow> unat (word_of_nat n :: u16) = n"
  by (simp add: unat_of_nat)

lemma small_nonzero: "0 < n \<Longrightarrow> n < 65536 \<Longrightarrow> (word_of_nat n :: u16) \<noteq> 0"
  using unat_small [of n] by auto

lemma paints_cup:
  assumes "y < vw_rows v" "x < vw_cols v" "y < 65535" "x < 65535" "\<not> m_origin (vw_modes v)"
  shows "paints gd g0 (0x1B # 91 # decimal (y + 1) @ 59 # decimal (x + 1) @ [72]) v (vw_at y x v)"
proof -
  have "paints gd g0 (csi_seq 0 [[word_of_nat (y + 1)], [word_of_nat (x + 1)]] 72) v (vw_at y x v)"
  proof (rule paints_csi [OF csi_ok_few(3)])
    fix t :: "'a Terminal" assume t: "term_inv t" "view t = v"
    note d = inv_view [OF t(1)]
    have "c_row (t_cursor t) = vw_row v" using t(2) by auto
    then show "view (terminal_csi_dispatch [[word_of_nat (y + 1)], [word_of_nat (x + 1)]] [] 0 72 t) = vw_at y x v"
      using assms d t(2) unat_small [of "y + 1"] unat_small [of "x + 1"]
      by (auto simp: csi_plain_dispatch csi_plain_def arg_or_def arg_def param_one move_to_def vw_at_def Let_def case_prod_unfold)
  qed (simp add: within_def)
  moreover have "y + 1 < 65536" "x + 1 < 65536" using assms(3,4) by simp_all
  ultimately show ?thesis unfolding csi_seq_bytes(3) [OF \<open>y + 1 < 65536\<close> \<open>x + 1 < 65536\<close>] by blast
qed

lemma paints_home:
  assumes "\<not> m_origin (vw_modes v)"
  shows "paints gd g0 [0x1B, 91, 72] v (vw_at 0 0 v)"
proof -
  have "paints gd g0 (csi_seq 0 [] 72) v (vw_at 0 0 v)"
  proof (rule paints_csi [OF csi_ok_few(1)])
    fix t :: "'a Terminal" assume t: "term_inv t" "view t = v"
    then show "view (terminal_csi_dispatch [] [] 0 72 t) = vw_at 0 0 v"
      using assms by (auto simp: csi_plain_dispatch csi_plain_def arg_or_def arg_def param_one move_to_def vw_at_def Let_def case_prod_unfold)
  qed (simp add: within_def)
  then show ?thesis by (simp add: csi_seq_bytes)
qed

lemma paints_ech:
  assumes "0 < n" "vw_col v + n \<le> vw_cols v" "vw_cols v \<le> 65535" "drawable v"
  shows "paints gd g0 (0x1B # 91 # decimal n @ [88]) v (vw_erase (vw_col v) (vw_col v + n) v)"
proof -
  have n: "n < 65536" using assms(2,3) by simp
  have "paints gd g0 (csi_seq 0 [[word_of_nat n]] 88) v (vw_erase (vw_col v) (vw_col v + n) v)"
  proof (rule paints_csi [OF csi_ok_few(2)])
    fix t :: "'a Terminal" assume t: "term_inv t" "view t = v"
    note d = inv_view [OF t(1)] and g = inv_grid [OF t(1)] and i = inv_dims [OF t(1)]
    let ?cur = "t_cursor t"
    let ?u = "on_screen (fold (put_blank (blank_style t) (c_row ?cur)) [c_col ?cur..<c_col ?cur + n]) t"
    have cur: "?cur = vw_cursor v" using t(2) by auto
    have m: "min (sat_add16 (c_col ?cur) n) (t_cols t) = c_col ?cur + n"
      using assms(2,3) d(2) t(2) cur by (simp add: sat_add16_def)
    have "term_inv ?u" by (intro term_intros) (rule t(1))
    have v0: "view (no_wrap ?u) = vw_erase (vw_col v) (vw_col v + n) v"
    proof -
      have nw: "no_wrap ?u = on_screen (fold (put_blank (blank_style t) (c_row ?cur)) [c_col ?cur..<c_col ?cur + n]) (no_wrap t)"
        by (simp add: no_wrap_def on_screen_def on_cursor_def)
      have "c_col ?cur + n \<le> t_cols (no_wrap t)" using assms(2) d(2) cur t(2) by simp
      then have "view (on_screen (fold (put_blank (blank_style t) (c_row ?cur)) [c_col ?cur..<c_col ?cur + n]) (no_wrap t)) =
          vw_erase (c_col ?cur) (c_col ?cur + n) (view t)"
        using t(1) by (intro view_put_blanks) simp_all
      then have "view (no_wrap ?u) = vw_erase (c_col ?cur) (c_col ?cur + n) (view t)" by (simp only: nw)
      then show ?thesis by (simp only: cur t(2))
    qed
    have "\<forall>c \<in> set (cells (sc_grid (scr ?u) ! c_row ?cur)). width c = 1"
    proof -
      have r: "vw_row v < length (vw_grid v)" using g(1) i(3) unfolding t(2) [symmetric] by simp
      have "sc_grid (scr ?u) = vw_grid (vw_erase (vw_col v) (vw_col v + n) v)"
        by (simp only: v0 [symmetric] view_sel scr_fields)
      then have "cells (sc_grid (scr ?u) ! c_row ?cur) = fill (vw_col v) (vw_col v + n) (cell_blank (vw_blank v)) (cells (vw_grid v ! vw_row v))"
        using r cur by (simp add: vw_erase_def)
      moreover have "\<forall>c \<in> set (cells (vw_grid v ! vw_row v)). width c = 1" using assms(4) r by (auto simp: drawable_def)
      ultimately show ?thesis using set_fill [of "vw_col v" "vw_col v + n" "cell_blank (vw_blank v)" "cells (vw_grid v ! vw_row v)"] by auto
    qed
    then have "repair_wide_halves (c_row ?cur) ?u = ?u" by (rule repair_narrow)
    then have "view (erase_chars n t) = vw_erase (vw_col v) (vw_col v + n) v"
      using v0 by (simp add: erase_chars_def m Let_def)
    then show "view (terminal_csi_dispatch [[word_of_nat n]] [] 0 88 t) = vw_erase (vw_col v) (vw_col v + n) v"
      using assms(1) n unat_small [of n] by (simp add: csi_plain_dispatch csi_plain_def arg_or_def arg_def param_one Let_def)
  qed (simp add: within_def)
  then show ?thesis using n by (simp add: csi_seq_bytes)
qed

definition vw_el :: "View \<Rightarrow> View" where
  "vw_el v = v\<lparr>vw_grid := (vw_grid v)[vw_row v := (vw_grid v ! vw_row v)
       \<lparr>cells := fill (vw_col v) (vw_cols v) (cell_blank (vw_blank v)) (cells (vw_grid v ! vw_row v)), wrapped := False\<rparr>],
     vw_cursor := (vw_cursor v)\<lparr>c_pending_wrap := False\<rparr>\<rparr>"

lemma view_erase_line:
  assumes "term_inv t"
  shows "view (erase_line 0 False t) = vw_el (view t)"
proof -
  note g = inv_grid [OF assms] and i = inv_dims [OF assms] and d = inv_view [OF assms]
  let ?f = "fold (put_blank (blank_style t) (c_row (t_cursor t))) [c_col (t_cursor t)..<t_cols t]"
  have c: "c_col (t_cursor t) \<le> t_cols t" using i(4) by simp
  have v: "view (on_screen ?f (no_wrap t)) = vw_erase (c_col (t_cursor t)) (t_cols t) (view t)"
    using c assms by (intro view_put_blanks) simp_all
  then have gr: "sc_grid (?f (scr t)) = vw_grid (vw_erase (c_col (t_cursor t)) (t_cols t) (view t))"
    by (simp only: v [symmetric] view_sel scr_on_screen scr_fields)
  have r: "c_row (t_cursor t) < length (sc_grid (scr t))" using g(1) i(3) by simp
  have s: "Suc (t_cols t - Suc 0) = t_cols t" using i(2) by simp
  have "view (erase_line 0 False t) = view (on_screen (mark_wrapped False (c_row (t_cursor t))) (on_screen ?f (no_wrap t)))"
    using s by (simp add: erase_line_def erase_cells_def erase_is_blank Let_def del: upt_Suc)
  also have "\<dots> = (vw_erase (c_col (t_cursor t)) (t_cols t) (view t))
      \<lparr>vw_grid := sc_grid (mark_wrapped False (c_row (t_cursor t)) (?f (scr t)))\<rparr>"
    by (simp only: view_screen [OF same_dims_basic(5)] v scr_on_screen scr_fields)
  also have "\<dots> = vw_el (view t)"
    using r d(2) by (simp add: mark_wrapped_def row_update_def row_index_def gr Let_def) (simp add: vw_erase_def vw_el_def vw_blank_def)
  finally show ?thesis .
qed

lemma paints_el: "paints gd g0 [0x1B, 91, 75] v (vw_el v)"
proof -
  have "paints gd g0 (csi_seq 0 [] 75) v (vw_el v)"
    using view_erase_line
    by (intro paints_csi [OF csi_ok_few(1)]) (auto simp: within_def csi_plain_dispatch csi_plain_def arg_def param_one Let_def)
  then show ?thesis by (simp add: csi_seq_bytes)
qed

definition vw_clear :: "View \<Rightarrow> View" where
  "vw_clear v = v\<lparr>vw_grid := replicate (vw_rows v) (row_blank (vw_cols v) (vw_blank v)),
     vw_cursor := (vw_cursor v)\<lparr>c_pending_wrap := False\<rparr>\<rparr>"

lemma erase_rows_grid:
  assumes "n \<le> length (sc_grid s)"
  shows "sc_grid (fold (erase_row cols style False) [0..<n] s) = replicate n (row_blank cols style) @ drop n (sc_grid s)"
  using assms
proof (induction n)
  case (Suc n)
  define u where "u = fold (erase_row cols style False) [0..<n] s"
  have IH: "sc_grid u = replicate n (row_blank cols style) @ drop n (sc_grid s)" using Suc by (simp add: u_def)
  have "drop n (sc_grid s) = sc_grid s ! n # drop (Suc n) (sc_grid s)" using Suc.prems by (simp add: Cons_nth_drop_Suc)
  then have "sc_grid (erase_row cols style False n u) = replicate n (row_blank cols style) @ row_blank cols style # drop (Suc n) (sc_grid s)"
    using Suc.prems IH by (simp add: erase_row_def row_update_def row_index_def list_update_append Let_def)
  moreover have "fold (erase_row cols style False) [0..<Suc n] s = erase_row cols style False n u" by (simp add: u_def)
  ultimately show ?case by (simp add: replicate_app_Cons_same)
qed simp

lemma same_dims_erase_rows: "same_dims (fold (erase_row cols style False) ns)"
  by (intro same_dims_fold) (simp add: erase_row_def [abs_def] same_dims_basic)

lemma paints_ed2: "paints gd g0 [0x1B, 91, 50, 74] v (vw_clear v)"
proof -
  have "paints gd g0 (csi_seq 0 [[word_of_nat 2]] 74) v (vw_clear v)"
  proof (rule paints_csi [OF csi_ok_few(2)])
    fix t :: "'a Terminal" assume t: "term_inv t" "view t = v"
    have "view (erase_display 2 False t) = vw_clear (view t)"
      using inv_view [OF t(1)] inv_grid(1) [OF t(1)]
      by (simp add: erase_display_def view_screen same_dims_erase_rows erase_rows_grid vw_clear_def vw_blank_def blank_style_def Let_def)
    then show "view (terminal_csi_dispatch [[word_of_nat 2]] [] 0 74 t) = vw_clear v"
      using t(2) by (simp add: csi_plain_dispatch csi_plain_def arg_def param_one Let_def)
  qed (simp add: within_def)
  moreover have "decimal 2 = [50]" by (subst decimal.simps) (simp add: as_u8_def)
  ultimately show ?thesis by (subst (asm) csi_seq_bytes(2)) simp_all
qed

definition vw_pen :: "Style \<Rightarrow> View \<Rightarrow> View" where
  "vw_pen style v = v\<lparr>vw_cursor := (vw_cursor v)\<lparr>c_style := style\<lparr>st_protected := st_protected (vw_style v)\<rparr>\<rparr>\<rparr>"

lemma paints_sgr: "paints gd g0 (0x1B # 91 # sgr_params style @ [109]) v (vw_pen style v)"
proof -
  have "paints gd g0 (csi_seq 0 (sgr_items style) 109) v (vw_pen style v)"
  proof (rule paints_csi)
    show "csi_ok 0 (sgr_items style) 109" using sgr_items_ok [of style] by (simp add: csi_ok_def within_def)
    fix t :: "'a Terminal" assume t: "term_inv t" "view t = v"
    then show "view (terminal_csi_dispatch (sgr_items style) [] 0 109 t) = vw_pen style v"
      by (auto simp: csi_plain_dispatch csi_plain_def sgr_of_items vw_pen_def Let_def)
  qed
  then show ?thesis by (simp add: csi_seq_def marker_def sgr_params_render)
qed

lemma paints_sgr0: "paints gd g0 [0x1B, 91, 48, 109] v (vw_pen style_default v)"
proof -
  have "sgr_params style_default = [48]" by (simp add: sgr_params_def style_default_def sgr_fg_def sgr_bg_def sgr_underline_def sgr_underline_color_def asc_def)
  then show ?thesis using paints_sgr [of gd g0 style_default v] by simp
qed

section \<open>Margins and modes\<close>

lemma view_margins:
  assumes "a < b" "b < t_rows t" "\<not> m_origin (t_modes t)"
  shows "view (move_to 0 0 (t\<lparr>t_scroll_top := a, t_scroll_bot := b\<rparr>)) = vw_at 0 0 ((view t)\<lparr>vw_region := (a, b)\<rparr>)"
proof -
  have "t_rows (t\<lparr>t_scroll_top := a, t_scroll_bot := b\<rparr>) = t_rows t" by (simp add: t_rows_def)
  then have "region (t\<lparr>t_scroll_top := a, t_scroll_bot := b\<rparr>) = (a, b)" using assms(1,2) by (simp add: region_def)
  then have "view (t\<lparr>t_scroll_top := a, t_scroll_bot := b\<rparr>) = (view t)\<lparr>vw_region := (a, b)\<rparr>" by (simp add: view_def scr_def)
  then show ?thesis using assms(3) by (simp add: move_to_def vw_at_def Let_def case_prod_unfold)
qed

lemma paints_margins:
  assumes "a < b" "b < vw_rows v" "b < 65535" "\<not> m_origin (vw_modes v)"
  shows "paints gd g0 (0x1B # 91 # decimal (a + 1) @ 59 # decimal (b + 1) @ [114]) v (vw_at 0 0 (v\<lparr>vw_region := (a, b)\<rparr>))"
proof -
  have n: "a + 1 < 65536" "b + 1 < 65536" using assms(1,3) by simp_all
  have "paints gd g0 (csi_seq 0 [[word_of_nat (a + 1)], [word_of_nat (b + 1)]] 114) v (vw_at 0 0 (v\<lparr>vw_region := (a, b)\<rparr>))"
  proof (rule paints_csi [OF csi_ok_few(3)])
    fix t :: "'a Terminal" assume t: "term_inv t" "view t = v"
    have "b < t_rows t" "\<not> m_origin (t_modes t)" using assms(2,4) inv_view(1) [OF t(1)] t(2) by auto
    note r = this
    then have "set_margins [[word_of_nat (a + 1)], [word_of_nat (b + 1)]] t = move_to 0 0 (t\<lparr>t_scroll_top := a, t_scroll_bot := b\<rparr>)"
      using unat_small [OF n(1)] unat_small [OF n(2)] assms(1) by (simp add: set_margins_def arg_or_def arg_def param_one Let_def min_def)
    then show "view (terminal_csi_dispatch [[word_of_nat (a + 1)], [word_of_nat (b + 1)]] [] 0 114 t) = vw_at 0 0 (v\<lparr>vw_region := (a, b)\<rparr>)"
      using view_margins [OF assms(1) r] t(2) by (simp add: csi_plain_dispatch csi_plain_def Let_def)
  qed (simp add: within_def)
  then show ?thesis unfolding csi_seq_bytes(3) [OF n] .
qed

definition vw_full_region :: "View \<Rightarrow> View" where
  "vw_full_region v = (if 1 < vw_rows v then vw_at 0 0 (v\<lparr>vw_region := (0, vw_rows v - 1)\<rparr>) else v)"

lemma paints_full_region:
  assumes "\<not> m_origin (vw_modes v)"
  shows "paints gd g0 [0x1B, 91, 114] v (vw_full_region v)"
proof -
  have "paints gd g0 (csi_seq 0 [] 114) v (vw_full_region v)"
  proof (rule paints_csi [OF csi_ok_few(1)])
    fix t :: "'a Terminal" assume t: "term_inv t" "view t = v"
    have r: "t_rows t = vw_rows v" "\<not> m_origin (t_modes t)" using inv_view(1) [OF t(1)] t(2) assms by auto
    then have "view (set_margins [] t) = vw_full_region v"
    proof (cases "1 < vw_rows v")
      case True
      then have "set_margins [] t = move_to 0 0 (t\<lparr>t_scroll_top := 0, t_scroll_bot := t_rows t - 1\<rparr>)"
        using r by (simp add: set_margins_def arg_or_def arg_def param_one Let_def)
      then show ?thesis using view_margins [of 0 "t_rows t - 1" t] True r t(2) by (simp add: vw_full_region_def)
    qed (use r t(2) in \<open>simp add: set_margins_def arg_or_def arg_def param_one vw_full_region_def Let_def\<close>)
    then show "view (terminal_csi_dispatch [] [] 0 114 t) = vw_full_region v" by (simp add: csi_plain_dispatch csi_plain_def Let_def)
  qed (simp add: within_def)
  then show ?thesis by (simp add: csi_seq_bytes)
qed

text \<open>Private modes that only assign a field of the mode record.\<close>

lemma paints_dec:
  fixes gd :: "'g graphics_dispatch"
  assumes "n < 65536" "\<And>t :: 'g Terminal. view (set_dec_mode n b t) = (view t)\<lparr>vw_modes := f (t_modes t)\<rparr>"
  shows "paints gd g0 (0x1B # 91 # 63 # decimal n @ (if b then [104] else [108])) v (v\<lparr>vw_modes := f (vw_modes v)\<rparr>)"
proof -
  let ?f = "if b then 104 else 108 :: u8"
  have "paints gd g0 (csi_seq 0x3F [[word_of_nat n]] ?f) v (v\<lparr>vw_modes := f (vw_modes v)\<rparr>)"
  proof (rule paints_csi [OF csi_ok_few(4)])
    fix t :: "'g Terminal" assume t: "term_inv t" "view t = v"
    then show "view (terminal_csi_dispatch [[word_of_nat n]] [] 0x3F ?f t) = v\<lparr>vw_modes := f (vw_modes v)\<rparr>"
      using assms unat_small [OF assms(1)]
      by (auto simp: terminal_csi_dispatch_def csi_question_def set_dec_modes_def first_arg_def first_byte_def)
  qed (simp add: within_def)
  then show ?thesis using assms(1) by (cases b) (simp_all add: csi_seq_bytes)
qed

lemma paints_keypad:
  "paints gd g0 [0x1B, 61] v (v\<lparr>vw_modes := (vw_modes v)\<lparr>m_keypad_app := True\<rparr>\<rparr>)"
  "paints gd g0 [0x1B, 62] v (v\<lparr>vw_modes := (vw_modes v)\<lparr>m_keypad_app := False\<rparr>\<rparr>)"
  by (rule paints_acts [OF yields_escape acts_one]; auto simp: within_def esc_dispatch_def first_byte_def esc_plain_def)+

section \<open>Strings\<close>

lemma esc_backslash: "esc_dispatch g0 [] 0x5C t = t"
  by (simp add: esc_dispatch_def first_byte_def esc_plain_def)

lemma paints_osc_st:
  fixes gd :: "'g graphics_dispatch"
  assumes "osc_text data" "\<And>t :: 'g Terminal. view t = v \<Longrightarrow> \<exists>t'. osc_dispatch data False t = Some t' \<and> view t' = w"
  shows "paints gd g0 (0x1B # 93 # data @ [0x1B, 0x5C]) v w"
proof -
  have "acts gd g0 [Osc data False, Esc [] 0x5C] v w"
    using assms(2) by (force simp: acts_def esc_backslash)
  then show ?thesis using paints_acts [OF yields_osc(2) [OF assms(1)]] by simp
qed

lemma paints_osc_bel:
  fixes gd :: "'g graphics_dispatch"
  assumes "osc_text data" "\<And>t :: 'g Terminal. view t = v \<Longrightarrow> \<exists>t'. osc_dispatch data True t = Some t' \<and> view t' = w"
  shows "paints gd g0 (0x1B # 93 # data @ [0x07]) v w"
proof -
  have "acts gd g0 [Osc data True] v w" using assms(2) by (force simp: acts_def)
  then show ?thesis using paints_acts [OF yields_osc(1) [OF assms(1)]] by simp
qed

lemma osc_numbers:
  "parse_radix 10 65536 [48] = Some 0" "parse_radix 10 65536 [56] = Some 8" "parse_radix 10 65536 [53, 50] = Some 52"
  by (simp_all add: parse_radix_def digit_value_def)

lemma utf8_valid_ascii: "b < 0x80 \<Longrightarrow> utf8_valid (b # bs) = utf8_valid bs"
  by (simp add: utf8_valid.simps(2) utf8_step_def utf8_width_def)

lemma paints_title:
  assumes "osc_text (48 # 59 # s)" "utf8_valid s"
  shows "paints gd g0 (0x1B # 93 # 48 # 59 # s @ [0x07]) v (v\<lparr>vw_title := s\<rparr>)"
proof -
  have "from_utf8_lossy (48 # 59 # s) = 48 # 59 # s" using assms(2) by (intro lossy_valid) (simp add: utf8_valid_ascii)
  then have "osc_dispatch (48 # 59 # s) True t = Some (touch (t\<lparr>t_title := s, t_icon_title := s\<rparr>))" for t :: "'a Terminal"
    by (simp add: osc_dispatch_def osc_numbers osc_code_def)
  then show ?thesis using paints_osc_bel [OF assms(1), of v "v\<lparr>vw_title := s\<rparr>" gd g0] by auto
qed

definition vw_unlink :: "View \<Rightarrow> View" where
  "vw_unlink v = v\<lparr>vw_cursor := (vw_cursor v)\<lparr>c_hyperlink := 0\<rparr>\<rparr>"

lemma paints_unlink: "paints gd g0 [0x1B, 93, 56, 59, 59, 0x1B, 0x5C] v (vw_unlink v)"
proof -
  have u: "utf8_valid [56, 59, 59]" by (simp add: utf8_valid_ascii)
  have "osc_dispatch [56, 59, 59] False t = Some (on_cursor (\<lambda>c. c\<lparr>c_hyperlink := 0\<rparr>) t)" for t :: "'a Terminal"
    by (simp add: osc_dispatch_def lossy_valid [OF u] osc_numbers osc_code_def osc_hyperlink_def split_head_def Let_def)
  note d = this
  have "paints gd g0 (0x1B # 93 # [56, 59, 59] @ [0x1B, 0x5C]) v (vw_unlink v)"
  proof (rule paints_osc_st)
    show "osc_text [56, 59, 59]" by (simp add: osc_text_def MAX_OSC_def)
    show "\<exists>t'. osc_dispatch [56, 59, 59] False t = Some t' \<and> view t' = vw_unlink v" if "view t = v" for t :: "'a Terminal"
      unfolding d that [symmetric] by (simp add: vw_unlink_def)
  qed
  then show ?thesis by simp
qed

lemma view_selection [simp]: "view (set_selection d k t) = view t" "view (t\<lparr>t_clipboard_seq := n, t_clipboard_kinds := ks\<rparr>) = view t"
  by (simp_all add: set_selection_def view_def scr_def region_def t_rows_def)

lemma view_clipboard: "view (osc_clipboard rest bel t) = view t"
proof -
  have "view (fold (set_selection d) ks u) = view u" for d ks and u :: "'a Terminal" by (induction ks arbitrary: u) simp_all
  then show ?thesis by (simp add: osc_clipboard_def Let_def case_prod_unfold split: option.split)
qed

lemma paints_clipboard:
  assumes "osc_text (53 # 50 # 59 # s)" "ascii s"
  shows "paints gd g0 (0x1B # 93 # 53 # 50 # 59 # s @ [0x1B, 0x5C]) v v"
proof -
  have "utf8_valid s" using assms(2) by (intro ascii_valid) (auto simp: ascii_def)
  then have "from_utf8_lossy (53 # 50 # 59 # s) = 53 # 50 # 59 # s" by (intro lossy_valid) (simp add: utf8_valid_ascii)
  then have "osc_dispatch (53 # 50 # 59 # s) False t = Some (osc_clipboard s False t)" for t :: "'a Terminal"
    by (simp add: osc_dispatch_def osc_numbers osc_code_def)
  then show ?thesis using paints_osc_st [OF assms(1), of v v gd g0] by (auto simp: view_clipboard)
qed

end
