(* ===== verification/Redraw.thy ===== *)
theory Redraw
  imports Canvas Display
begin

text \<open>
  The renderer of \<open>Display\<close> is right about the outer terminal: from a terminal that shows the previous
  snapshot, or any terminal before a full repaint, the frame leads to one that shows the next. The
  proof follows the builder: \<open>emits\<close> relates the bytes so far to the view they leave, \<open>tracks\<close> relates
  the builder's pen and cursor to that view. Cells are one column wide, without hyperlinks; styles and
  soft wraps are arbitrary.
\<close>

section \<open>The builder and the view it leaves\<close>

definition emits :: "'g graphics_dispatch \<Rightarrow> 'g \<Rightarrow> 'g Terminal \<Rightarrow> FrameState \<Rightarrow> View \<Rightarrow> bool" where
  "emits gd g0 t fr v \<longleftrightarrow> (\<exists>t'. process gd g0 (fr_out fr) t = Some t' \<and> canvas t' \<and> view t' = v)"

lemma fr_append_simps [simp]:
  "fr_x (fr_append s fr) = fr_x fr" "fr_y (fr_append s fr) = fr_y fr" "fr_style (fr_append s fr) = fr_style fr"
  "fr_link (fr_append s fr) = fr_link fr" "fr_cursor_visible (fr_append s fr) = fr_cursor_visible fr"
  "fr_append [] fr = fr" "fr_append b (fr_append a fr) = fr_append (a @ b) fr"
  by (simp_all add: fr_append_def)

lemma emits_fields [simp]:
  "emits gd g0 t (fr\<lparr>fr_x := x\<rparr>) v = emits gd g0 t fr v" "emits gd g0 t (fr\<lparr>fr_y := x\<rparr>) v = emits gd g0 t fr v"
  "emits gd g0 t (fr\<lparr>fr_style := s\<rparr>) v = emits gd g0 t fr v" "emits gd g0 t (fr\<lparr>fr_link := l\<rparr>) v = emits gd g0 t fr v"
  "emits gd g0 t (fr\<lparr>fr_cursor_visible := b\<rparr>) v = emits gd g0 t fr v"
  by (simp_all add: emits_def)

lemma emits_append: "emits gd g0 t fr v \<Longrightarrow> paints gd g0 s v w \<Longrightarrow> emits gd g0 t (fr_append s fr) w"
  by (force simp: emits_def paints_def fr_append_def process_append)

definition sound_view :: "View \<Rightarrow> bool" where
  "sound_view v \<longleftrightarrow> vw_row v < vw_rows v \<and> vw_col v < vw_cols v \<and> (\<forall>r \<in> set (vw_grid v). length (cells r) = vw_cols v)
     \<and> fst (vw_region v) \<le> snd (vw_region v) \<and> snd (vw_region v) < vw_rows v"

lemma canvas_sound: "canvas t \<Longrightarrow> sound_view (view t)"
  using inv_view [of t] inv_grid [of t] inv_dims [of t] inv_region [of t] by (auto simp: canvas_def sound_view_def)

lemma emits_sound: "emits gd g0 t fr v \<Longrightarrow> sound_view v"
  using canvas_sound by (auto simp: emits_def)

text \<open>The surface a frame is drawn on.\<close>

definition surface :: "View \<Rightarrow> bool" where
  "surface v \<longleftrightarrow> drawable v \<and> vw_region v = (0, vw_rows v - 1) \<and> vw_rows v \<le> 65535 \<and> vw_cols v \<le> 65535"

definition exact :: "FrameState \<Rightarrow> View \<Rightarrow> bool" where
  "exact fr v \<longleftrightarrow> fr_x fr = int (vw_col v) \<and> fr_y fr = int (vw_row v) \<and> \<not> vw_pending v"

text \<open>Behind the last column the cursor stays on it, with a wrap pending.\<close>

definition edge :: "FrameState \<Rightarrow> View \<Rightarrow> bool" where
  "edge fr v \<longleftrightarrow> fr_x fr = int (vw_cols v) \<and> fr_y fr = int (vw_row v) \<and> vw_pending v \<and> vw_col v + 1 = vw_cols v"

definition lost :: "FrameState \<Rightarrow> bool" where
  "lost fr \<longleftrightarrow> fr_x fr = -1 \<or> fr_y fr = -1"

definition pen :: "FrameState \<Rightarrow> View \<Rightarrow> bool" where
  "pen fr v \<longleftrightarrow> vw_style v = fr_style fr \<and> \<not> st_protected (fr_style fr) \<and> c_hyperlink (vw_cursor v) = 0 \<and> fr_link fr = []
     \<and> m_cursor_visible (vw_modes v) = fr_cursor_visible fr"

definition tracks :: "FrameState \<Rightarrow> View \<Rightarrow> bool" where
  "tracks fr v \<longleftrightarrow> surface v \<and> pen fr v \<and> (lost fr \<or> exact fr v \<or> edge fr v)"

text \<open>What drawing leaves alone: the title, and the modes up to the visibility of the cursor.\<close>

definition kept :: "View \<Rightarrow> View \<Rightarrow> bool" where
  "kept v w \<longleftrightarrow> vw_title w = vw_title v \<and> (vw_modes w)\<lparr>m_cursor_visible := True\<rparr> = (vw_modes v)\<lparr>m_cursor_visible := True\<rparr>
     \<and> vw_rows w = vw_rows v \<and> vw_cols w = vw_cols v"

lemma kept_refl [simp]: "kept v v"
  and kept_trans [trans]: "kept u v \<Longrightarrow> kept v w \<Longrightarrow> kept u w"
  by (auto simp: kept_def)

lemma at_simps [simp]:
  "vw_grid (vw_at y x v) = vw_grid v" "vw_row (vw_at y x v) = y" "vw_col (vw_at y x v) = x" "\<not> vw_pending (vw_at y x v)"
  "vw_modes (vw_at y x v) = vw_modes v" "vw_title (vw_at y x v) = vw_title v" "vw_region (vw_at y x v) = vw_region v"
  "vw_style (vw_at y x v) = vw_style v" "c_hyperlink (vw_cursor (vw_at y x v)) = c_hyperlink (vw_cursor v)"
  "vw_rows (vw_at y x v) = vw_rows v" "vw_cols (vw_at y x v) = vw_cols v" "drawable (vw_at y x v) = drawable v"
  "surface (vw_at y x v) = surface v" "kept u (vw_at y x v) = kept u v"
  by (simp_all add: vw_at_def drawable_def surface_def kept_def)

lemma surface_modes:
  assumes "surface v"
  shows "m_autowrap (vw_modes v)" "\<not> m_origin (vw_modes v)" "\<not> m_lnm (vw_modes v)" "snd (vw_region v) = vw_rows v - 1"
    "drawable v" "vw_rows v \<le> 65535" "vw_cols v \<le> 65535"
  using assms by (simp_all add: surface_def drawable_def)

definition vw_show :: "bool \<Rightarrow> View \<Rightarrow> View" where
  "vw_show b v = v\<lparr>vw_modes := (vw_modes v)\<lparr>m_cursor_visible := b\<rparr>\<rparr>"

lemma show_simps [simp]:
  "vw_grid (vw_show b v) = vw_grid v" "vw_cursor (vw_show b v) = vw_cursor v" "m_cursor_visible (vw_modes (vw_show b v)) = b"
  "vw_title (vw_show b v) = vw_title v" "vw_region (vw_show b v) = vw_region v" "drawable (vw_show b v) = drawable v"
  "vw_rows (vw_show b v) = vw_rows v" "vw_cols (vw_show b v) = vw_cols v" "surface (vw_show b v) = surface v" "kept u (vw_show b v) = kept u v"
  by (simp_all add: vw_show_def drawable_def surface_def kept_def)

section \<open>Moving the cursor\<close>

lemma paints_lfs:
  assumes "surface v" "vw_row v + n < vw_rows v" "\<not> vw_pending v"
  shows "paints gd g0 (replicate n 0x0A) v (vw_at (vw_row v + n) (vw_col v) v)"
  using assms
proof (induction n)
  case 0
  have "vw_at (vw_row v) (vw_col v) v = v" using 0(3) by (simp add: vw_at_def)
  then show ?case by (simp add: paints_Nil)
next
  case (Suc n)
  let ?w = "vw_at (vw_row v + n) (vw_col v) v"
  have "paints gd g0 [0x0A] ?w (vw_at (vw_row ?w + 1) (vw_col ?w) ?w)"
    using surface_modes [OF Suc.prems(1)] Suc.prems(2) by (intro paints_lf) simp_all
  moreover have "vw_at (vw_row ?w + 1) (vw_col ?w) ?w = vw_at (vw_row v + Suc n) (vw_col v) v" by (simp add: vw_at_def)
  ultimately show ?case using paints_append [OF Suc.IH] Suc.prems by (simp add: replicate_append_same [symmetric] del: replicate_append_same)
qed

lemma paints_bss:
  assumes "n \<le> vw_col v" "\<not> vw_pending v"
  shows "paints gd g0 (replicate n 0x08) v (vw_at (vw_row v) (vw_col v - n) v)"
  using assms
proof (induction n)
  case 0
  have "vw_at (vw_row v) (vw_col v) v = v" using 0(2) by (simp add: vw_at_def)
  then show ?case by (simp add: paints_Nil)
next
  case (Suc n)
  let ?w = "vw_at (vw_row v) (vw_col v - n) v"
  have "paints gd g0 [0x08] ?w (vw_at (vw_row ?w) (vw_col ?w - 1) ?w)" by (rule paints_bs)
  moreover have "vw_at (vw_row ?w) (vw_col ?w - 1) ?w = vw_at (vw_row v) (vw_col v - Suc n) v" by (simp add: vw_at_def)
  ultimately show ?case using paints_append [OF Suc.IH] Suc.prems by (simp add: replicate_append_same [symmetric] del: replicate_append_same)
qed

text \<open>Backspaces from behind the last column would end one column short.\<close>

definition reachable :: "nat \<Rightarrow> nat \<Rightarrow> FrameState \<Rightarrow> View \<Rightarrow> bool" where
  "reachable y x fr v \<longleftrightarrow> y < vw_rows v \<and> x < vw_cols v \<and> (edge fr v \<longrightarrow> vw_row v \<noteq> y \<or> x = 0 \<or> x + 4 < vw_cols v)"

lemma decimal_of_nat: "decimal_int (int n + 1) = decimal (n + 1)"
  by (simp add: decimal_int_def nat_add_distrib)

lemma move_emits:
  assumes "emits gd g0 t fr v" "tracks fr v" "reachable y x fr v"
  shows "emits gd g0 t (append_move (int y) (int x) fr) (vw_at y x v)"
proof -
  have s: "surface v" using assms(2) by (simp add: tracks_def)
  note m = surface_modes [OF s]
  have b: "y < vw_rows v" "x < vw_cols v" using assms(3) by (simp_all add: reachable_def)
  have cup: "emits gd g0 t (fr_append (0x1B # 91 # decimal (y + 1) @ 59 # decimal (x + 1) @ [72]) fr) (vw_at y x v)"
    using b m by (intro emits_append [OF assms(1)] paints_cup) simp_all
  let ?A = "fr_x fr \<noteq> -1 \<and> fr_y fr \<noteq> -1 \<and> int x = 0 \<and> int y - fr_y fr \<ge> 0 \<and> int y - fr_y fr < 5"
  let ?B = "fr_x fr \<noteq> -1 \<and> fr_y fr \<noteq> -1 \<and> int y = fr_y fr \<and> int x - fr_x fr < 0 \<and> int x - fr_x fr > -5"
  consider (lf) ?A | (bs) "\<not> ?A" ?B | (cup) "\<not> ?A" "\<not> ?B" by blast
  then show ?thesis
  proof cases
    case lf
    then have y: "fr_y fr = int (vw_row v)" and e: "exact fr v \<or> edge fr v" using assms(2) by (auto simp: tracks_def lost_def exact_def edge_def)
    define n where "n = nat (int y - fr_y fr)"
    have n: "vw_row v + n = y" using lf y by (auto simp: n_def nat_diff_distrib)
    let ?w = "vw_at (vw_row v) 0 v"
    have cr: "emits gd g0 t (if fr_x fr \<noteq> 0 then fr_append [0x0D] fr else fr) ?w"
    proof (cases "fr_x fr = 0")
      case True
      then have "\<not> edge fr v" using b(2) by (auto simp: edge_def)
      then have "?w = v" using True e by (simp add: exact_def vw_at_def)
      then show ?thesis using True assms(1) by simp
    next
      case False
      then show ?thesis using emits_append [OF assms(1) paints_cr] by simp
    qed
    have "paints gd g0 (replicate n 0x0A) ?w (vw_at (vw_row ?w + n) (vw_col ?w) ?w)"
      using s n b(1) by (intro paints_lfs) simp_all
    moreover have "vw_at (vw_row ?w + n) (vw_col ?w) ?w = vw_at y x v" using n lf by (simp add: vw_at_def)
    ultimately have "emits gd g0 t (append_n n 0x0A (if fr_x fr \<noteq> 0 then fr_append [0x0D] fr else fr)) (vw_at y x v)"
      using emits_append [OF cr] by (simp add: append_n_def)
    then show ?thesis using lf
      by (simp add: append_move_def Let_def append_n_def fr_append_def n_def [symmetric] emits_def split: if_splits)
  next
    case bs
    then have y: "fr_y fr = int (vw_row v)" "vw_row v = y" "\<not> lost fr" using assms(2) by (auto simp: tracks_def lost_def exact_def edge_def)
    have "\<not> edge fr v"
    proof
      assume e: "edge fr v"
      then have "x = 0 \<or> x + 4 < vw_cols v" using assms(3) y by (simp add: reachable_def)
      moreover have "fr_x fr = int (vw_cols v)" using e by (simp add: edge_def)
      moreover have "int y - fr_y fr = 0" "\<not> ?A" "?B" using bs by simp_all
      ultimately show False by linarith
    qed
    then have e: "exact fr v" using assms(2) y(3) by (simp add: tracks_def)
    define n where "n = nat (fr_x fr - int x)"
    have n: "n \<le> vw_col v" "vw_col v - n = x" using bs e by (auto simp: n_def exact_def)
    have "paints gd g0 (replicate n 0x08) v (vw_at y x v)" using paints_bss [of n v gd g0] n e y(2) by (simp add: exact_def)
    then have "emits gd g0 t (append_n n 0x08 fr) (vw_at y x v)" using emits_append [OF assms(1)] by (simp add: append_n_def)
    then show ?thesis using bs by (auto simp: append_move_def Let_def append_n_def fr_append_def n_def [symmetric] emits_def)
  next
    case cup
    then show ?thesis using \<open>emits gd g0 t (fr_append (0x1B # 91 # decimal (y + 1) @ 59 # decimal (x + 1) @ [72]) fr) (vw_at y x v)\<close>
      unfolding append_move_def Let_def if_not_P [OF cup(1)] if_not_P [OF cup(2)] decimal_of_nat by (simp add: emits_def fr_append_def)
  qed
qed

lemma vw_at_same: "exact fr v \<Longrightarrow> fr_y fr = int y \<Longrightarrow> fr_x fr = int x \<Longrightarrow> vw_at y x v = v"
  by (auto simp: exact_def vw_at_def)

lemma at_show: "vw_at y x (vw_show b v) = vw_show b (vw_at y x v)"
  by (simp add: vw_at_def vw_show_def)

lemma show_same [simp]: "pen fr v \<Longrightarrow> vw_show (fr_cursor_visible fr) v = v"
  by (simp add: pen_def vw_show_def)

lemma paints_visible: "paints gd g0 (dec_private b 25) v (vw_show b v)"
proof -
  have "view (set_dec_mode 25 b t) = (view t)\<lparr>vw_modes := (t_modes t)\<lparr>m_cursor_visible := b\<rparr>\<rparr>" for t :: "'a Terminal"
    by (simp add: set_dec_mode_def)
  from paints_dec [OF _ this, of gd g0 v] show ?thesis by (simp add: dec_private_def vw_show_def cong: if_cong)
qed

lemma tracks_hide: "tracks fr v \<Longrightarrow> tracks (fr\<lparr>fr_out := out, fr_cursor_visible := b\<rparr>) (vw_show b v)"
  by (simp add: tracks_def pen_def lost_def exact_def edge_def)

lemma silent_move:
  assumes "emits gd g0 t fr v" "tracks fr v" "reachable y x fr v"
  defines "fr' \<equiv> append_silent_move (int y) (int x) fr"
  defines "v' \<equiv> vw_at y x (vw_show (fr_cursor_visible fr') v)"
  shows "emits gd g0 t fr' v'" "tracks fr' v'" "exact fr' v'" "fr_style fr' = fr_style fr"
proof -
  have p: "pen fr v" "surface v" using assms(2) by (simp_all add: tracks_def)
  have "emits gd g0 t fr' v' \<and> pen fr' v' \<and> exact fr' v' \<and> fr_style fr' = fr_style fr"
  proof (cases "fr_x fr = int x \<and> fr_y fr = int y")
    case True
    have "\<not> lost fr" using True by (auto simp: lost_def)
    moreover have "\<not> edge fr v" using True assms(3) by (auto simp: edge_def reachable_def)
    ultimately have e: "exact fr v" using assms(2) by (simp add: tracks_def)
    have "fr' = fr" using True by (simp add: fr'_def append_silent_move_def)
    moreover have "v' = v" using vw_at_same [OF e] True p(1) by (simp add: v'_def calculation)
    ultimately show ?thesis using assms(1) p(1) e by simp
  next
    case False
    define fr1 where "fr1 = (if fr_cursor_visible fr then (fr_append (dec_private False 25) fr)\<lparr>fr_cursor_visible := False\<rparr> else fr)"
    have s: "fr_style fr1 = fr_style fr" "fr_x fr1 = fr_x fr" "fr_y fr1 = fr_y fr" "fr_link fr1 = fr_link fr" "\<not> fr_cursor_visible fr1"
      by (simp_all add: fr1_def)
    have e1: "emits gd g0 t fr1 (vw_show False v)"
    proof (cases "fr_cursor_visible fr")
      case True
      then show ?thesis using emits_append [OF assms(1) paints_visible [of gd g0 False v]] by (simp add: fr1_def)
    next
      case False
      then have "vw_show False v = v" using show_same [OF p(1)] by simp
      then show ?thesis using False assms(1) by (simp add: fr1_def)
    qed
    have t1: "tracks fr1 (vw_show False v)"
      using assms(2) s by (simp add: tracks_def pen_def lost_def exact_def edge_def)
    have "reachable y x fr1 (vw_show False v)" using assms(3) s by (simp add: reachable_def edge_def)
    note mv = move_emits [OF e1 t1 this]
    have fr': "fr' = append_move (int y) (int x) fr1" unfolding fr'_def append_silent_move_def fr1_def if_not_P [OF False] ..
    have f: "fr_x fr' = int x" "fr_y fr' = int y" "fr_style fr' = fr_style fr" "fr_link fr' = fr_link fr" "\<not> fr_cursor_visible fr'"
      using s by (simp_all add: fr' append_move_def append_n_def Let_def)
    then have "v' = vw_at y x (vw_show False v)" by (simp add: v'_def)
    then show ?thesis using mv fr' f p(1) by (simp add: pen_def exact_def)
  qed
  moreover have "surface v'" using p(2) by (simp add: v'_def)
  ultimately show "emits gd g0 t fr' v'" "tracks fr' v'" "exact fr' v'" "fr_style fr' = fr_style fr"
    by (simp_all add: tracks_def)
qed

section \<open>The pen\<close>

definition vw_styled :: "Style \<Rightarrow> View \<Rightarrow> View" where
  "vw_styled s v = v\<lparr>vw_cursor := (vw_cursor v)\<lparr>c_style := s\<rparr>\<rparr>"

lemma styled_simps [simp]:
  "vw_grid (vw_styled s v) = vw_grid v" "vw_row (vw_styled s v) = vw_row v" "vw_col (vw_styled s v) = vw_col v"
  "vw_pending (vw_styled s v) = vw_pending v" "vw_modes (vw_styled s v) = vw_modes v" "vw_title (vw_styled s v) = vw_title v"
  "vw_region (vw_styled s v) = vw_region v" "vw_style (vw_styled s v) = s"
  "c_hyperlink (vw_cursor (vw_styled s v)) = c_hyperlink (vw_cursor v)" "vw_rows (vw_styled s v) = vw_rows v"
  "vw_cols (vw_styled s v) = vw_cols v" "drawable (vw_styled s v) = drawable v" "surface (vw_styled s v) = surface v"
  "kept u (vw_styled s v) = kept u v" "vw_styled s (vw_styled s' v) = vw_styled s v"
  by (simp_all add: vw_styled_def drawable_def surface_def kept_def)

lemma styled_same: "vw_style v = s \<Longrightarrow> vw_styled s v = v"
  by (auto simp: vw_styled_def)

lemma style_fields [simp]:
  "fr_x (update_style s b fr) = fr_x fr" "fr_y (update_style s b fr) = fr_y fr" "fr_style (update_style s b fr) = s"
  "fr_link (update_style s b fr) = fr_link fr" "fr_cursor_visible (update_style s b fr) = fr_cursor_visible fr"
  by (simp_all add: update_style_def)

lemma paints_style: "\<not> st_protected (vw_style v) \<Longrightarrow> \<not> st_protected s \<Longrightarrow> paints gd g0 (0x1B # 91 # sgr_params s @ [109]) v (vw_styled s v)"
proof -
  assume p: "\<not> st_protected (vw_style v)" "\<not> st_protected s"
  have "s\<lparr>st_protected := False\<rparr> = s" using p(2) by (cases s) simp
  then have "vw_pen s v = vw_styled s v" using p(1) by (simp add: vw_pen_def vw_styled_def)
  then show ?thesis using paints_sgr [of gd g0 s v] by simp
qed

lemma style_emits:
  assumes "emits gd g0 t fr v" "pen fr v" "\<not> st_protected s"
  shows "emits gd g0 t (update_style s b fr) (vw_styled s v)"
proof (cases "b \<or> fr_style fr \<noteq> s")
  case True
  have "\<not> st_protected (vw_style v)" using assms(2) by (simp add: pen_def)
  then show ?thesis using True emits_append [OF assms(1) paints_style] assms(3) by (auto simp: update_style_def)
next
  case False
  then have "vw_style v = s" using assms(2) by (simp add: pen_def)
  from styled_same [OF this] show ?thesis using False assms(1) by (simp add: update_style_def)
qed

lemma style_tracks:
  assumes "\<not> st_protected s"
  shows "tracks fr v \<Longrightarrow> tracks (update_style s b fr) (vw_styled s v)" "exact (update_style s b fr) (vw_styled s v) = exact fr v"
    "edge (update_style s b fr) (vw_styled s v) = edge fr v" "pen fr v \<Longrightarrow> pen (update_style s b fr) (vw_styled s v)"
  using assms by (simp_all add: tracks_def pen_def lost_def exact_def edge_def)

lemma no_link [simp]: "fr_link fr = [] \<Longrightarrow> update_link (link_uri f 0) False fr = fr"
  by (simp add: update_link_def link_uri_def)

section \<open>Writing cells\<close>

definition plain_cell :: "Cell \<Rightarrow> bool" where
  "plain_cell c \<longleftrightarrow> width c = 1 \<and> extra c = [] \<and> hyperlink c = 0 \<and> \<not> st_protected (cell_style c)
     \<and> scalar (ch c) \<and> wcwidth (ch c) = 1"

definition picture :: "View \<Rightarrow> Cell list list" where
  "picture v = map cells (vw_grid v)"

lemma picture_simps [simp]:
  "picture (vw_at y x v) = picture v" "picture (vw_show b v) = picture v" "picture (vw_styled s v) = picture v"
  "length (picture v) = vw_rows v"
  by (simp_all add: picture_def vw_rows_def)

lemma picture_nth: "y < vw_rows v \<Longrightarrow> picture v ! y = cells (vw_grid v ! y)"
  by (simp add: picture_def vw_rows_def)

lemma picture_update: "y < length g \<Longrightarrow> map cells (g[y := (g ! y)\<lparr>cells := cs\<rparr>]) = (map cells g)[y := cs]"
  by (simp add: map_update)

lemma hd_update: "xs \<noteq> [] \<Longrightarrow> f (xs ! y) = f x \<Longrightarrow> f (hd (xs[y := x])) = f (hd xs)"
  by (cases xs; cases y) simp_all

text \<open>One plain cell at the cursor.\<close>

lemma write_view:
  assumes "surface v" "sound_view v" "\<not> vw_pending v" "plain_cell c" "vw_style v = cell_style c" "c_hyperlink (vw_cursor v) = 0"
  defines "w \<equiv> vw_write (ch c) v"
  shows "surface w" "kept v w" "picture w = (picture v)[vw_row v := (picture v ! vw_row v)[vw_col v := c]]"
    "vw_row w = vw_row v" "vw_style w = vw_style v" "c_hyperlink (vw_cursor w) = 0" "vw_modes w = vw_modes v"
    "vw_col w = (if vw_col v + 1 < vw_cols v then vw_col v + 1 else vw_col v)" "vw_pending w = (\<not> vw_col v + 1 < vw_cols v)"
    "vw_cols w = vw_cols v" "vw_rows w = vw_rows v"
proof -
  have y: "vw_row v < length (vw_grid v)" "vw_grid v \<noteq> []" using assms(2) by (auto simp: sound_view_def vw_rows_def)
  have c: "text_cell (vw_cursor v) (ch c) = c" using assms(4-6) by (simp add: text_cell_def plain_cell_def)
  show cols: "vw_cols w = vw_cols v" and rows: "vw_rows w = vw_rows v"
    using hd_update [OF y(2), of "length \<circ> cells"] by (simp_all add: w_def vw_write_def vw_cols_def vw_rows_def)
  have "\<forall>x \<in> set (cells (vw_grid v ! vw_row v)). width x = 1"
    using assms(1) nth_mem [OF y(1)] by (simp add: surface_def drawable_def)
  then have "\<forall>x \<in> insert c (set (cells (vw_grid v ! vw_row v))). width x = 1" using assms(4) by (simp add: plain_cell_def)
  then have "\<forall>x \<in> set ((cells (vw_grid v ! vw_row v))[vw_col v := c]). width x = 1"
    using set_update_subset_insert [of "cells (vw_grid v ! vw_row v)" "vw_col v" c] by (meson subsetD)
  then have "drawable w" using assms(1) y(1) set_update_subset_insert [of "vw_grid v"]
    by (force simp: surface_def drawable_def w_def vw_write_def c)
  then show "surface w" using assms(1) rows cols by (simp add: surface_def) (simp add: w_def vw_write_def)
  show "kept v w" using rows cols by (simp add: kept_def) (simp add: w_def vw_write_def)
  show "picture w = (picture v)[vw_row v := (picture v ! vw_row v)[vw_col v := c]]"
    using y(1) by (simp add: picture_def w_def vw_write_def c picture_update)
  show "vw_row w = vw_row v" "vw_style w = vw_style v" "c_hyperlink (vw_cursor w) = 0" "vw_modes w = vw_modes v"
    "vw_col w = (if vw_col v + 1 < vw_cols v then vw_col v + 1 else vw_col v)" "vw_pending w = (\<not> vw_col v + 1 < vw_cols v)"
    using assms(6) by (simp_all add: w_def vw_write_def)
qed

definition beyond :: "nat \<Rightarrow> nat \<Rightarrow> FrameState \<Rightarrow> View \<Rightarrow> bool" where
  "beyond y x fr v \<longleftrightarrow> fr_x fr = int x \<and> fr_y fr = int y \<and> vw_row v = y \<and> (if x < vw_cols v then exact fr v else edge fr v)"

lemma write_emits:
  assumes "emits gd g0 t fr v" "tracks fr v" "exact fr v" "plain_cell c" "cell_style c = fr_style fr" "utf8_encode (ch c) = s"
  defines "fr' \<equiv> (fr_append s fr)\<lparr>fr_x := fr_x fr + 1\<rparr>"
  shows "\<exists>v'. emits gd g0 t fr' v' \<and> tracks fr' v' \<and> beyond (vw_row v) (vw_col v + 1) fr' v' \<and> kept v v'
    \<and> picture v' = (picture v)[vw_row v := (picture v ! vw_row v)[vw_col v := c]]"
proof (intro exI conjI)
  let ?w = "vw_write (ch c) v"
  have p: "surface v" "pen fr v" using assms(2) by (simp_all add: tracks_def)
  have f: "vw_style v = cell_style c" "c_hyperlink (vw_cursor v) = 0" "\<not> vw_pending v" using p(2) assms(3,5) by (simp_all add: pen_def exact_def)
  note sv = emits_sound [OF assms(1)]
  note w = write_view [OF p(1) sv f(3) assms(4) f(1,2)]
  have "paints gd g0 s v ?w"
    using paints_char [of v "ch c" gd g0] p(1) f(3) assms(4,6) by (simp add: surface_def plain_cell_def)
  from emits_append [OF assms(1) this] show "emits gd g0 t fr' ?w" by (simp add: fr'_def)
  have col: "vw_col v < vw_cols v" using sv by (simp add: sound_view_def)
  show b: "beyond (vw_row v) (vw_col v + 1) fr' ?w"
    using assms(3) w(4,8,9,10) col by (auto simp: beyond_def exact_def edge_def fr'_def)
  have "pen fr' ?w" using p(2) w(5-7) by (simp add: pen_def fr'_def)
  then show "tracks fr' ?w" using w(1) b by (auto simp: tracks_def beyond_def split: if_splits)
  show "kept v ?w" "picture ?w = (picture v)[vw_row v := (picture v ! vw_row v)[vw_col v := c]]" by (rule w)+
qed

text \<open>A run of spaces.\<close>

lemma wcwidth_0: "wcwidth 0 = 0"
  by (simp add: wcwidth_def)

lemma plain_space: "\<not> st_protected s \<Longrightarrow> plain_cell (cell_blank s)"
  by (simp add: plain_cell_def cell_blank_def scalar_def wcwidth_ascii)

lemma encode_space: "utf8_encode 32 = [32]"
  by (simp add: utf8_encode_def as_u8_def)

lemma append_n_Suc: "append_n (Suc n) b fr = fr_append [b] (append_n n b fr)"
  by (simp add: append_n_def replicate_append_same)

lemma spaces_emit:
  assumes "emits gd g0 t fr v" "tracks fr v" "exact fr v" "vw_col v + n \<le> vw_cols v"
  shows "\<exists>v'. emits gd g0 t (append_n n 32 fr) v' \<and> tracks ((append_n n 32 fr)\<lparr>fr_x := fr_x fr + int n\<rparr>) v'
    \<and> beyond (vw_row v) (vw_col v + n) ((append_n n 32 fr)\<lparr>fr_x := fr_x fr + int n\<rparr>) v' \<and> kept v v'
    \<and> picture v' = (picture v)[vw_row v := fill (vw_col v) (vw_col v + n) (cell_blank (fr_style fr)) (picture v ! vw_row v)]"
  using assms(4)
proof (induction n)
  case 0
  have col: "vw_col v < vw_cols v" using emits_sound [OF assms(1)] by (simp add: sound_view_def)
  have a: "append_n 0 32 fr = fr" "(append_n 0 32 fr)\<lparr>fr_x := fr_x fr + int 0\<rparr> = fr" by (simp_all add: append_n_def)
  have "beyond (vw_row v) (vw_col v + 0) fr v" using assms(3) col by (simp add: beyond_def exact_def)
  then show ?case unfolding a using assms(1,2) by (intro exI [of _ v]) simp
next
  case (Suc n)
  let ?x = "vw_col v + n" and ?y = "vw_row v" and ?s = "fr_style fr"
  let ?fr = "(append_n n 32 fr)\<lparr>fr_x := fr_x fr + int n\<rparr>"
  obtain v1 where v1: "emits gd g0 t (append_n n 32 fr) v1" "tracks ?fr v1" "beyond ?y ?x ?fr v1" "kept v v1"
    "picture v1 = (picture v)[?y := fill (vw_col v) ?x (cell_blank ?s) (picture v ! ?y)]" using Suc by auto
  have cols: "vw_cols v1 = vw_cols v" using v1(4) by (simp add: kept_def)
  then have e: "exact ?fr v1" "vw_row v1 = ?y" "vw_col v1 = ?x" using v1(3) Suc.prems assms(3) by (auto simp: beyond_def exact_def)
  have np: "\<not> st_protected ?s" using assms(2) by (simp add: tracks_def pen_def)
  have st: "cell_style (cell_blank ?s) = fr_style ?fr" by (simp add: cell_blank_def append_n_def)
  have enc: "utf8_encode (ch (cell_blank ?s)) = [32]" by (simp add: cell_blank_def encode_space)
  from v1(1) have "emits gd g0 t ?fr v1" by simp
  from write_emits [OF this v1(2) e(1) plain_space [OF np] st enc]
  obtain v2 where v2: "emits gd g0 t (fr_append [32] ?fr) v2" "tracks ((fr_append [32] ?fr)\<lparr>fr_x := fr_x ?fr + 1\<rparr>) v2"
    "beyond ?y (?x + 1) ((fr_append [32] ?fr)\<lparr>fr_x := fr_x ?fr + 1\<rparr>) v2" "kept v1 v2"
    "picture v2 = (picture v1)[?y := (picture v1 ! ?y)[?x := cell_blank ?s]]" using e by auto
  have f: "(fr_append [32] ?fr)\<lparr>fr_x := fr_x ?fr + 1\<rparr> = (append_n (Suc n) 32 fr)\<lparr>fr_x := fr_x fr + int (Suc n)\<rparr>"
    by (simp add: append_n_Suc fr_append_def)
  have sv: "sound_view v" using assms(1) by (rule emits_sound)
  then have y: "?y < length (picture v)" by (simp add: sound_view_def)
  have "length (picture v ! ?y) = vw_cols v" using sv by (simp add: picture_nth sound_view_def vw_rows_def)
  then have "(fill (vw_col v) ?x (cell_blank ?s) (picture v ! ?y))[?x := cell_blank ?s]
      = fill (vw_col v) (Suc ?x) (cell_blank ?s) (picture v ! ?y)" using Suc.prems by (intro fill_Suc) simp_all
  then have pic: "picture v2 = (picture v)[?y := fill (vw_col v) (vw_col v + Suc n) (cell_blank ?s) (picture v ! ?y)]"
    using v2(5) v1(5) y by simp
  have "emits gd g0 t (append_n (Suc n) 32 fr) v2" using v2(1) by (simp add: emits_def append_n_Suc fr_append_def)
  then show ?case using v2(2,3) pic kept_trans [OF v1(4) v2(4)] unfolding f by auto
qed

text \<open>Erasing with the default pen leaves the same cells as spaces, and the cursor in front of them.\<close>

lemma blank_default: "vw_style v = style_default \<Longrightarrow> vw_blank v = style_default"
  by (simp add: vw_blank_def)

lemma erased_view:
  assumes "surface v" "sound_view v" "vw_style v = style_default" "b \<le> vw_cols v" "vw_col v \<le> b" "\<not> vw_pending v"
  defines "g w \<equiv> (vw_grid v)[vw_row v := (vw_grid v ! vw_row v)
       \<lparr>cells := fill (vw_col v) b (cell_blank (vw_blank v)) (cells (vw_grid v ! vw_row v)), wrapped := w\<rparr>]"
  shows "surface (v\<lparr>vw_grid := g w\<rparr>)" "kept v (v\<lparr>vw_grid := g w\<rparr>)"
    "picture (v\<lparr>vw_grid := g w\<rparr>) = (picture v)[vw_row v := fill (vw_col v) b (cell_blank style_default) (picture v ! vw_row v)]"
    "vw_cols (v\<lparr>vw_grid := g w\<rparr>) = vw_cols v"
proof -
  have y: "vw_row v < length (vw_grid v)" "vw_grid v \<noteq> []" using assms(2) by (auto simp: sound_view_def vw_rows_def)
  have l: "length (cells (vw_grid v ! vw_row v)) = vw_cols v" using assms(2) y by (simp add: sound_view_def)
  note bl = blank_default [OF assms(3)]
  show cols: "vw_cols (v\<lparr>vw_grid := g w\<rparr>) = vw_cols v"
    using hd_update [OF y(2), of "length \<circ> cells"] l assms(4,5) by (simp add: g_def) (simp add: vw_cols_def)
  have "\<forall>x \<in> set (cells (vw_grid v ! vw_row v)). width x = 1"
    using assms(1) nth_mem [OF y(1)] by (simp add: surface_def drawable_def)
  then have "\<forall>x \<in> set (fill (vw_col v) b (cell_blank style_default) (cells (vw_grid v ! vw_row v))). width x = 1"
    using set_fill [of "vw_col v" b "cell_blank style_default" "cells (vw_grid v ! vw_row v)"] by auto
  moreover have "set (g w) \<subseteq> insert ((vw_grid v ! vw_row v)
       \<lparr>cells := fill (vw_col v) b (cell_blank style_default) (cells (vw_grid v ! vw_row v)), wrapped := w\<rparr>) (set (vw_grid v))"
    unfolding g_def bl by (rule set_update_subset_insert)
  ultimately have "\<forall>r \<in> set (g w). \<forall>c \<in> set (cells r). width c = 1"
    using assms(1) by (auto simp: surface_def drawable_def)
  then have "drawable (v\<lparr>vw_grid := g w\<rparr>)" using assms(1) by (simp add: surface_def drawable_def)
  then show "surface (v\<lparr>vw_grid := g w\<rparr>)" using assms(1) cols by (simp add: surface_def) (simp add: g_def vw_rows_def)
  show "kept v (v\<lparr>vw_grid := g w\<rparr>)" using cols by (simp add: kept_def) (simp add: g_def vw_rows_def)
  show "picture (v\<lparr>vw_grid := g w\<rparr>) = (picture v)[vw_row v := fill (vw_col v) b (cell_blank style_default) (picture v ! vw_row v)]"
    using y(1) by (simp add: picture_def g_def bl map_update)
qed

lemma unpended: "\<not> vw_pending v \<Longrightarrow> (vw_cursor v)\<lparr>c_pending_wrap := False\<rparr> = vw_cursor v"
  by (cases "vw_cursor v") simp

lemma erase_emits:
  assumes "emits gd g0 t fr v" "tracks fr v" "exact fr v" "fr_style fr = style_default" "vw_col v + n \<le> vw_cols v" "0 < n"
  shows "\<exists>v'. emits gd g0 t (fr_append (0x1B # 91 # decimal n @ [88]) fr) v' \<and> tracks (fr_append (0x1B # 91 # decimal n @ [88]) fr) v'
    \<and> exact (fr_append (0x1B # 91 # decimal n @ [88]) fr) v' \<and> vw_row v' = vw_row v \<and> kept v v'
    \<and> picture v' = (picture v)[vw_row v := fill (vw_col v) (vw_col v + n) (cell_blank style_default) (picture v ! vw_row v)]"
proof (intro exI conjI)
  have p: "surface v" "pen fr v" "\<not> vw_pending v" using assms(2,3) by (simp_all add: tracks_def exact_def)
  have s: "vw_style v = style_default" using p(2) assms(4) by (simp add: pen_def)
  let ?w = "vw_erase (vw_col v) (vw_col v + n) v"
  let ?r = "vw_grid v ! vw_row v"
  have "?r\<lparr>cells := c, wrapped := wrapped ?r\<rparr> = ?r\<lparr>cells := c\<rparr>" for c by (cases ?r) simp
  then have w: "?w = v\<lparr>vw_grid := (vw_grid v)[vw_row v := ?r
       \<lparr>cells := fill (vw_col v) (vw_col v + n) (cell_blank (vw_blank v)) (cells ?r), wrapped := wrapped ?r\<rparr>]\<rparr>"
    using unpended [OF p(3)] by (simp add: vw_erase_def)
  note e = erased_view [OF p(1) emits_sound [OF assms(1)] s assms(5) _ p(3), where w = "wrapped ?r", folded w]
  have "paints gd g0 (0x1B # 91 # decimal n @ [88]) v ?w"
    using p(1) assms(5,6) by (intro paints_ech) (simp_all add: surface_def)
  from emits_append [OF assms(1) this] show "emits gd g0 t (fr_append (0x1B # 91 # decimal n @ [88]) fr) ?w" .
  have "vw_cursor ?w = vw_cursor v" "vw_modes ?w = vw_modes v" using unpended [OF p(3)] by (simp_all add: vw_erase_def)
  then show "exact (fr_append (0x1B # 91 # decimal n @ [88]) fr) ?w" "vw_row ?w = vw_row v"
    "tracks (fr_append (0x1B # 91 # decimal n @ [88]) fr) ?w"
    using assms(3) e(1) p(2) by (simp_all add: exact_def tracks_def pen_def)
  show "kept v ?w" "picture ?w = (picture v)[vw_row v := fill (vw_col v) (vw_col v + n) (cell_blank style_default) (picture v ! vw_row v)]"
    using e(2,3) by simp_all
qed

lemma el_emits:
  assumes "emits gd g0 t fr v" "tracks fr v" "exact fr v" "fr_style fr = style_default"
  shows "\<exists>v'. emits gd g0 t (fr_append [0x1B, 91, 75] fr) v' \<and> tracks (fr_append [0x1B, 91, 75] fr) v'
    \<and> exact (fr_append [0x1B, 91, 75] fr) v' \<and> vw_row v' = vw_row v \<and> kept v v'
    \<and> picture v' = (picture v)[vw_row v := fill (vw_col v) (vw_cols v) (cell_blank style_default) (picture v ! vw_row v)]"
proof (intro exI conjI)
  have p: "surface v" "pen fr v" "\<not> vw_pending v" using assms(2,3) by (simp_all add: tracks_def exact_def)
  have s: "vw_style v = style_default" using p(2) assms(4) by (simp add: pen_def)
  note sv = emits_sound [OF assms(1)]
  then have c: "vw_col v \<le> vw_cols v" by (simp add: sound_view_def)
  have w: "vw_el v = v\<lparr>vw_grid := (vw_grid v)[vw_row v := (vw_grid v ! vw_row v)
       \<lparr>cells := fill (vw_col v) (vw_cols v) (cell_blank (vw_blank v)) (cells (vw_grid v ! vw_row v)), wrapped := False\<rparr>]\<rparr>"
    using unpended [OF p(3)] by (simp add: vw_el_def)
  note e = erased_view [OF p(1) sv s order_refl c p(3), where w = False, folded w]
  from emits_append [OF assms(1) paints_el] show "emits gd g0 t (fr_append [0x1B, 91, 75] fr) (vw_el v)" .
  have "vw_cursor (vw_el v) = vw_cursor v" "vw_modes (vw_el v) = vw_modes v" using unpended [OF p(3)] by (simp_all add: vw_el_def)
  then show "exact (fr_append [0x1B, 91, 75] fr) (vw_el v)" "vw_row (vw_el v) = vw_row v" "tracks (fr_append [0x1B, 91, 75] fr) (vw_el v)"
    using assms(3) e(1) p(2) by (simp_all add: exact_def tracks_def pen_def)
  show "kept v (vw_el v)"
    "picture (vw_el v) = (picture v)[vw_row v := fill (vw_col v) (vw_cols v) (cell_blank style_default) (picture v ! vw_row v)]"
    using e(2,3) by simp_all
qed

section \<open>One row\<close>

text \<open>The loop of \<open>put_row\<close>: the first columns of row \<open>y\<close> show the new cells, except for the run of
  blanks not yet drawn; the rest of the screen is the picture \<open>G\<close>.\<close>

definition row_inv :: "'g graphics_dispatch \<Rightarrow> 'g \<Rightarrow> 'g Terminal \<Rightarrow> nat \<Rightarrow> Cell list \<Rightarrow> View \<Rightarrow> Cell list list \<Rightarrow> RowState \<Rightarrow> View \<Rightarrow> bool" where
  "row_inv gd g0 t y new v0 G st v \<longleftrightarrow>
     emits gd g0 t (rs_frame st) v \<and> tracks (rs_frame st) v \<and> kept v0 v
     \<and> rs_clear st \<le> rs_x st \<and> rs_x st \<le> vw_cols v \<and> rs_link st = 0 \<and> \<not> st_protected (rs_style st)
     \<and> picture v = G[y := take (rs_x st - rs_clear st) new @ drop (rs_x st - rs_clear st) (G ! y)]
     \<and> (\<forall>k. rs_x st - rs_clear st \<le> k \<and> k < rs_x st \<longrightarrow> new ! k = cell_blank (rs_style st))
     \<and> (edge (rs_frame st) v \<and> vw_row v = y \<longrightarrow> rs_x st = vw_cols v \<and> rs_clear st = 0)
     \<and> (rs_wrote_last st \<longrightarrow> edge (rs_frame st) v \<and> vw_row v = y)
     \<and> (edge (rs_frame st) v \<longrightarrow> vw_row v \<le> y \<and> (vw_cols v = 1 \<or> rs_wrote_last st))"

definition row_ready :: "nat \<Rightarrow> Cell list \<Rightarrow> View \<Rightarrow> Cell list list \<Rightarrow> bool" where
  "row_ready y new v0 G \<longleftrightarrow> y < vw_rows v0 \<and> length G = vw_rows v0 \<and> length (G ! y) = vw_cols v0
     \<and> length new = vw_cols v0 \<and> (\<forall>c \<in> set new. plain_cell c)"

lemma take_fill:
  assumes "a \<le> b" "b \<le> length new" "length old = length new" "\<forall>k. a \<le> k \<and> k < b \<longrightarrow> new ! k = c"
  shows "fill a b c (take a new @ drop a old) = take b new @ drop b old"
proof -
  have "take (b - a) (drop a new) = replicate (b - a) c"
  proof (intro nth_equalityI)
    fix i assume "i < length (take (b - a) (drop a new))"
    then have "i < b - a" by simp
    then show "take (b - a) (drop a new) ! i = replicate (b - a) c ! i" using assms(1,2,4) by simp
  qed (use assms(2) in simp)
  then have "take b new = take a new @ replicate (b - a) c"
    using take_add [of a "b - a" new] assms(1) by simp
  then show ?thesis using assms(1-3) by (simp add: fill_def min_def)
qed

lemma take_write: "x < length new \<Longrightarrow> length old = length new \<Longrightarrow>
  (take x new @ drop x old)[x := new ! x] = take (Suc x) new @ drop (Suc x) old"
  by (simp add: list_update_append take_Suc_conv_app_nth Cons_nth_drop_Suc [symmetric])

lemma at_run_emits:
  fixes f :: Snapshot
  assumes "row_inv gd g0 t y new v0 G st v" "row_ready y new v0 G" "0 < rs_clear st"
  defines "fr \<equiv> at_blank_run f y st"
  shows "\<exists>v'. emits gd g0 t fr v' \<and> tracks fr v' \<and> exact fr v' \<and> vw_row v' = y \<and> vw_col v' = rs_x st - rs_clear st
    \<and> kept v v' \<and> picture v' = picture v \<and> fr_style fr = rs_style st \<and> fr_link fr = []"
proof -
  let ?x = "rs_x st - rs_clear st"
  let ?fr1 = "append_silent_move (int y) (int ?x) (rs_frame st)"
  note i = assms(1) [unfolded row_inv_def]
  have k: "vw_rows v = vw_rows v0" using i by (simp add: kept_def)
  have "?x < vw_cols v" "y < vw_rows v" using i assms(2,3) k by (auto simp: row_ready_def)
  then have "reachable y ?x (rs_frame st) v" using i assms(3) by (auto simp: reachable_def)
  note mv = silent_move [OF _ _ this, of gd g0 t] and i' = i
  let ?v1 = "vw_at y ?x (vw_show (fr_cursor_visible ?fr1) v)"
  have m: "emits gd g0 t ?fr1 ?v1" "tracks ?fr1 ?v1" "exact ?fr1 ?v1" using mv i by simp_all
  have np: "\<not> st_protected (rs_style st)" using i by simp
  have p: "pen ?fr1 ?v1" "fr_link ?fr1 = []" using m(2) by (simp_all add: tracks_def pen_def)
  have fr: "fr = update_style (rs_style st) False ?fr1"
  proof -
    have "int (rs_x st) - int (rs_clear st) = int ?x" using i by simp
    then show ?thesis using i p(2) by (simp add: fr_def at_blank_run_def)
  qed
  have "emits gd g0 t fr (vw_styled (rs_style st) ?v1)" unfolding fr using style_emits [OF m(1) p(1) np] .
  moreover have "tracks fr (vw_styled (rs_style st) ?v1)" "exact fr (vw_styled (rs_style st) ?v1)"
    unfolding fr using style_tracks [OF np] m(2,3) by simp_all
  moreover have "fr_style fr = rs_style st" "fr_link fr = []" using p(2) by (simp_all add: fr)
  ultimately show ?thesis by (intro exI [of _ "vw_styled (rs_style st) ?v1"]) simp
qed

text \<open>Drawing the pending run.\<close>

lemma run_drawn:
  assumes "row_inv gd g0 t y new v0 G st v" "row_ready y new v0 G" "vw_row v' = y" "vw_col v' = rs_x st - rs_clear st"
    "picture v' = picture v" "kept v v'"
    and "picture w = (picture v')[vw_row v' := fill (vw_col v') b (cell_blank (rs_style st)) (picture v' ! vw_row v')]" "b = rs_x st"
  shows "picture w = G[y := take (rs_x st) new @ drop (rs_x st) (G ! y)]"
proof -
  note i = assms(1) [unfolded row_inv_def] and r = assms(2) [unfolded row_ready_def]
  have "vw_cols v = vw_cols v0" using i by (simp add: kept_def)
  then have "fill (rs_x st - rs_clear st) (rs_x st) (cell_blank (rs_style st)) (take (rs_x st - rs_clear st) new @ drop (rs_x st - rs_clear st) (G ! y))
      = take (rs_x st) new @ drop (rs_x st) (G ! y)"
    using i r by (intro take_fill) auto
  then show ?thesis using assms(3-8) i r by simp
qed

lemma row_inv_drawn:
  assumes "emits gd g0 t (rs_frame st) w" "tracks (rs_frame st) w" "kept v0 w" "rs_clear st = 0" "rs_x st \<le> vw_cols w" "rs_link st = 0"
    and "\<not> st_protected (rs_style st)" "picture w = G[y := take (rs_x st) new @ drop (rs_x st) (G ! y)]"
    and "edge (rs_frame st) w \<and> vw_row w = y \<longrightarrow> rs_x st = vw_cols w" "rs_wrote_last st \<longrightarrow> edge (rs_frame st) w \<and> vw_row w = y"
    and "edge (rs_frame st) w \<longrightarrow> vw_row w \<le> y \<and> (vw_cols w = 1 \<or> rs_wrote_last st)"
  shows "row_inv gd g0 t y new v0 G st w"
proof -
  have "\<forall>k. rs_x st - rs_clear st \<le> k \<and> k < rs_x st \<longrightarrow> new ! k = cell_blank (rs_style st)" using assms(4) by auto
  then show ?thesis using assms(1-3,5-11) unfolding row_inv_def assms(4) by simp
qed

lemma flush_row:
  assumes "row_inv gd g0 t y new v0 G st v" "row_ready y new v0 G" "0 < rs_clear st" "rs_x st < vw_cols v"
  shows "\<exists>w. row_inv gd g0 t y new v0 G (flush_run f y st) w"
proof -
  let ?fr = "at_blank_run f y st" and ?n = "rs_clear st"
  note i = assms(1) [unfolded row_inv_def]
  obtain v' where v': "emits gd g0 t ?fr v'" "tracks ?fr v'" "exact ?fr v'" "vw_row v' = y" "vw_col v' = rs_x st - ?n"
    "kept v v'" "picture v' = picture v" "fr_style ?fr = rs_style st" using at_run_emits [OF assms(1-3)] by blast
  note rd = run_drawn [OF assms(1,2) v'(4,5,7,6)]
  have cols: "vw_cols v' = vw_cols v" using v'(6) by (simp add: kept_def)
  have b: "vw_col v' + ?n = rs_x st" using v'(5) i by simp
  have k: "kept v0 v'" using i v'(6) kept_trans by blast
  have nw: "\<not> rs_wrote_last st" using i assms(4) by auto
  show ?thesis
  proof (cases "can_use_erase ?fr \<and> ?n > 4")
    case True
    then have s: "fr_style ?fr = style_default" by (simp add: can_use_erase_def)
    obtain w where w: "emits gd g0 t (fr_append (0x1B # 91 # decimal ?n @ [88]) ?fr) w" "tracks (fr_append (0x1B # 91 # decimal ?n @ [88]) ?fr) w"
      "exact (fr_append (0x1B # 91 # decimal ?n @ [88]) ?fr) w" "kept v' w"
      "picture w = (picture v')[vw_row v' := fill (vw_col v') (vw_col v' + ?n) (cell_blank style_default) (picture v' ! vw_row v')]"
      using erase_emits [OF v'(1-3) s _ assms(3)] b cols assms(4) by auto
    have pic: "picture w = G[y := take (rs_x st) new @ drop (rs_x st) (G ! y)]"
      using rd [of w, OF _ b] w(5) s v'(8) by simp
    have "flush_run f y st = st\<lparr>rs_frame := fr_append (0x1B # 91 # decimal ?n @ [88]) ?fr, rs_clear := 0\<rparr>"
      using True by (simp add: flush_run_def Let_def)
    moreover have "vw_cols w = vw_cols v" using w(4) cols by (simp add: kept_def)
    moreover have "\<not> edge (fr_append (0x1B # 91 # decimal ?n @ [88]) ?fr) w" using w(3) by (simp add: exact_def edge_def)
    ultimately show ?thesis using w(1,2) kept_trans [OF k w(4)] pic i assms(4) nw
      by (intro exI [of _ w] row_inv_drawn) simp_all
  next
    case False
    let ?fr' = "(append_n ?n 32 ?fr)\<lparr>fr_x := int (rs_x st)\<rparr>"
    have x: "fr_x ?fr + int ?n = int (rs_x st)" using v'(3) b by (auto simp: exact_def)
    have le: "vw_col v' + ?n \<le> vw_cols v'" using b cols assms(4) by simp
    obtain w where w: "emits gd g0 t (append_n ?n 32 ?fr) w" "tracks ?fr' w" "beyond y (rs_x st) ?fr' w" "kept v' w"
      "picture w = (picture v')[vw_row v' := fill (vw_col v') (vw_col v' + ?n) (cell_blank (fr_style ?fr)) (picture v' ! vw_row v')]"
      using spaces_emit [OF v'(1-3) le] unfolding x b v'(4) by blast
    have pic: "picture w = G[y := take (rs_x st) new @ drop (rs_x st) (G ! y)]"
      using rd [of w, OF _ b] w(5) v'(8) by simp
    have wc: "vw_cols w = vw_cols v" using w(4) cols by (simp add: kept_def)
    have "\<not> edge ?fr' w" using w(3) wc assms(4) by (auto simp: beyond_def exact_def edge_def)
    moreover have "emits gd g0 t ?fr' w" using w(1) by simp
    moreover have "flush_run f y st = st\<lparr>rs_frame := ?fr', rs_clear := 0\<rparr>" using False by (auto simp: flush_run_def Let_def)
    ultimately show ?thesis using w(2) kept_trans [OF k w(4)] pic i assms(4) nw wc
      by (intro exI [of _ w] row_inv_drawn) simp_all
  qed
qed


lemma draw_row:
  assumes "row_inv gd g0 t y new v0 G st v" "row_ready y new v0 G" "rs_clear st = 0" "rs_x st < vw_cols v" "sn_cols f = vw_cols v"
  shows "\<exists>w. row_inv gd g0 t y new v0 G (draw_cell f y row_wrap (new ! rs_x st) st) w"
proof -
  note i = assms(1) [unfolded row_inv_def] and r = assms(2) [unfolded row_ready_def]
  let ?x = "rs_x st" and ?c = "new ! rs_x st"
  have dims: "vw_rows v = vw_rows v0" "vw_cols v = vw_cols v0" using i by (simp_all add: kept_def)
  have c: "plain_cell ?c" using r assms(4) dims by simp
  then have np: "\<not> st_protected (cell_style ?c)" and h: "hyperlink ?c = 0" and cw: "cell_width ?c = 1"
    by (simp_all add: plain_cell_def cell_width_def)
  define fr0 where "fr0 = (if row_wrap \<and> ?x + 1 \<ge> sn_cols f then (rs_frame st)\<lparr>fr_x := -1, fr_y := -1\<rparr> else rs_frame st)"
  have f0: "emits gd g0 t fr0 v" "tracks fr0 v" using i by (auto simp: fr0_def tracks_def pen_def lost_def)
  have "edge fr0 v \<longrightarrow> vw_row v \<noteq> y" using i assms(4) by (auto simp: fr0_def edge_def)
  then have "reachable y ?x fr0 v" using r dims assms(4) by (simp add: reachable_def)
  from silent_move [OF f0 this]
  obtain v1 where v1: "emits gd g0 t (append_silent_move (int y) (int ?x) fr0) v1" "tracks (append_silent_move (int y) (int ?x) fr0) v1"
    "exact (append_silent_move (int y) (int ?x) fr0) v1" "vw_row v1 = y" "vw_col v1 = ?x" "kept v v1" "picture v1 = picture v"
    by (metis at_simps(2,3,14) picture_simps(1,2) show_simps(10) kept_refl)
  let ?fr1 = "append_silent_move (int y) (int ?x) fr0"
  let ?fr2 = "update_style (cell_style ?c) False ?fr1" and ?v2 = "vw_styled (cell_style ?c) v1"
  have p1: "pen ?fr1 v1" "fr_link ?fr1 = []" using v1(2) by (simp_all add: tracks_def pen_def)
  have v2: "emits gd g0 t ?fr2 ?v2" "tracks ?fr2 ?v2" "exact ?fr2 ?v2"
    using style_emits [OF v1(1) p1(1) np] style_tracks [OF np] v1(2,3) by simp_all
  obtain w where w: "emits gd g0 t ((fr_append (utf8_encode (ch ?c)) ?fr2)\<lparr>fr_x := fr_x ?fr2 + 1\<rparr>) w"
    "tracks ((fr_append (utf8_encode (ch ?c)) ?fr2)\<lparr>fr_x := fr_x ?fr2 + 1\<rparr>) w"
    "beyond y (?x + 1) ((fr_append (utf8_encode (ch ?c)) ?fr2)\<lparr>fr_x := fr_x ?fr2 + 1\<rparr>) w" "kept v1 w"
    "picture w = (picture v)[y := (picture v ! y)[?x := ?c]]"
  proof -
    have cs: "cell_style ?c = fr_style ?fr2" by simp
    obtain u where u: "emits gd g0 t ((fr_append (utf8_encode (ch ?c)) ?fr2)\<lparr>fr_x := fr_x ?fr2 + 1\<rparr>) u"
      "tracks ((fr_append (utf8_encode (ch ?c)) ?fr2)\<lparr>fr_x := fr_x ?fr2 + 1\<rparr>) u"
      "beyond y (?x + 1) ((fr_append (utf8_encode (ch ?c)) ?fr2)\<lparr>fr_x := fr_x ?fr2 + 1\<rparr>) u" "kept ?v2 u"
      "picture u = (picture v)[y := (picture v ! y)[?x := ?c]]"
      using write_emits [OF v2 c cs refl] unfolding styled_simps picture_simps v1(4,5,7) by blast
    have "kept v1 ?v2" by simp
    then show ?thesis using that u kept_trans by blast
  qed
  have "ch ?c \<noteq> 0" using c wcwidth_0 by (metis plain_cell_def zero_neq_one)
  then have ap: "append_cell ?c fr = fr_append (utf8_encode (ch ?c)) fr" for fr
    using c by (simp add: append_cell_def plain_cell_def)
  have lk: "update_link (link_uri f (hyperlink ?c)) False ?fr2 = ?fr2" using p1(2) h by simp
  let ?st = "draw_cell f y row_wrap ?c st"
  have st: "rs_frame ?st = (fr_append (utf8_encode (ch ?c)) ?fr2)\<lparr>fr_x := fr_x ?fr2 + 1\<rparr>" "rs_x ?st = ?x + 1" "rs_clear ?st = 0"
    "rs_link ?st = rs_link st" "rs_style ?st = rs_style st" "rs_wrote_last ?st = (if ?x + 1 \<ge> sn_cols f then True else rs_wrote_last st)"
    unfolding draw_cell_def Let_def cw fr0_def [symmetric] lk ap using assms(3) by simp_all
  have wc: "vw_cols w = vw_cols v" using w(4) v1(6) by (simp add: kept_def)
  have nw: "\<not> rs_wrote_last st" using i assms(4) by auto
  have pic: "picture w = G[y := take (?x + 1) new @ drop (?x + 1) (G ! y)]"
    using w(5) i r assms(3,4) dims take_write [of ?x new "G ! y"] by simp
  have bey: "beyond y (?x + 1) (rs_frame ?st) w" unfolding st(1) by (rule w(3))
  have be: "edge (rs_frame ?st) w \<and> vw_row w = y \<longrightarrow> rs_x ?st = vw_cols w" "rs_wrote_last ?st \<longrightarrow> edge (rs_frame ?st) w \<and> vw_row w = y"
  proof -
    have "?x + 1 < vw_cols w \<Longrightarrow> \<not> edge (rs_frame ?st) w" using bey by (simp add: beyond_def exact_def edge_def)
    then show "edge (rs_frame ?st) w \<and> vw_row w = y \<longrightarrow> rs_x ?st = vw_cols w" using st(2) wc assms(4) by linarith
    have "\<not> ?x + 1 < vw_cols w \<Longrightarrow> edge (rs_frame ?st) w \<and> vw_row w = y" using bey by (simp add: beyond_def)
    then show "rs_wrote_last ?st \<longrightarrow> edge (rs_frame ?st) w \<and> vw_row w = y" using st(6) nw wc assms(5) by (metis leI leD)
  qed
  have le: "edge (rs_frame ?st) w \<longrightarrow> vw_row w \<le> y \<and> (vw_cols w = 1 \<or> rs_wrote_last ?st)"
  proof
    assume e: "edge (rs_frame ?st) w"
    moreover have "vw_row w = y" using bey by (simp add: beyond_def)
    ultimately show "vw_row w \<le> y \<and> (vw_cols w = 1 \<or> rs_wrote_last ?st)" using be(1) st(2,6) wc assms(5) by simp
  qed
  have "kept v0 v" "rs_link st = 0" "\<not> st_protected (rs_style st)" using i by simp_all
  then have "kept v0 w" "rs_link ?st = 0" "\<not> st_protected (rs_style ?st)" using kept_trans [OF _ kept_trans [OF v1(6) w(4)]] st(4,5) by simp_all
  moreover have "emits gd g0 t (rs_frame ?st) w" "tracks (rs_frame ?st) w" unfolding st(1) by (rule w)+
  moreover have "rs_x ?st \<le> vw_cols w" using st(2) wc assms(4) by simp
  moreover have "picture w = G[y := take (rs_x ?st) new @ drop (rs_x ?st) (G ! y)]" unfolding st(2) by (rule pic)
  ultimately show ?thesis using st(3) be le by (intro exI [of _ w] row_inv_drawn)
qed

text \<open>One turn of the loop, and all of them.\<close>

lemma plain_blank: "plain_cell c \<Longrightarrow> is_blank c \<Longrightarrow> c = cell_blank (cell_style c)"
  by (cases c) (auto simp: plain_cell_def is_blank_def cell_blank_def wcwidth_def)


lemma blank_row:
  assumes "row_inv gd g0 t y new v0 G st v" "row_ready y new v0 G" "rs_x st < vw_cols v" "is_blank (new ! rs_x st)"
    and "rs_clear st = 0 \<or> cell_style (new ! rs_x st) = rs_style st"
    and "rs_frame st' = rs_frame st" "rs_x st' = rs_x st + 1" "rs_clear st' = rs_clear st + 1" "rs_link st' = 0"
    and "rs_style st' = cell_style (new ! rs_x st)" "rs_wrote_last st' = rs_wrote_last st"
  shows "row_inv gd g0 t y new v0 G st' v"
proof -
  note i = assms(1) [unfolded row_inv_def] and r = assms(2) [unfolded row_ready_def]
  have "vw_cols v = vw_cols v0" using i by (simp add: kept_def)
  then have c: "plain_cell (new ! rs_x st)" using r assms(3) by simp
  have ne: "\<not> (edge (rs_frame st) v \<and> vw_row v = y)" using i assms(3) by auto
  then have nw: "\<not> rs_wrote_last st" using i by blast
  have old: "\<forall>k. rs_x st - rs_clear st \<le> k \<and> k < rs_x st \<longrightarrow> new ! k = cell_blank (rs_style st)" using i by blast
  have "new ! k = cell_blank (rs_style st')" if "rs_x st' - rs_clear st' \<le> k \<and> k < rs_x st'" for k
  proof (cases "k = rs_x st")
    case True
    then show ?thesis using plain_blank [OF c assms(4)] assms(10) by simp
  next
    case False
    then have k: "rs_x st - rs_clear st \<le> k \<and> k < rs_x st" using that assms(7,8) by auto
    then have "rs_clear st \<noteq> 0" by auto
    then show ?thesis using old k assms(5,10) by simp
  qed
  moreover have "rs_x st' - rs_clear st' = rs_x st - rs_clear st" using assms(7,8) by simp
  moreover have "\<not> st_protected (rs_style st')" using c assms(10) by (simp add: plain_cell_def)
  moreover have "emits gd g0 t (rs_frame st') v" "tracks (rs_frame st') v" "kept v0 v" "rs_clear st' \<le> rs_x st'" "rs_x st' \<le> vw_cols v"
    "picture v = G[y := take (rs_x st - rs_clear st) new @ drop (rs_x st - rs_clear st) (G ! y)]" "edge (rs_frame st') v \<longrightarrow> vw_row v \<le> y \<and> (vw_cols v = 1 \<or> rs_wrote_last st')"
    using i assms(3,6-8,11) by simp_all
  ultimately show ?thesis using ne nw assms(6,9,11) unfolding row_inv_def by (simp, blast)
qed

lemma step_row:
  assumes "row_inv gd g0 t y new v0 G st v" "row_ready y new v0 G" "rs_x st < vw_cols v" "sn_cols f = vw_cols v"
    and "new = sn_cells f ! y" "init \<longrightarrow> old = G ! y"
  shows "\<exists>w. row_inv gd g0 t y new v0 G (row_step init f y old st) w"
proof -
  note i = assms(1) [unfolded row_inv_def] and r = assms(2) [unfolded row_ready_def]
  let ?x = "rs_x st" and ?c = "new ! rs_x st"
  have dims: "vw_cols v = vw_cols v0" "vw_rows v = vw_rows v0" using i by (simp_all add: kept_def)
  then have c: "plain_cell ?c" using r assms(3) by simp
  then have cw: "cell_width ?c = 1" "width ?c \<noteq> 0" "hyperlink ?c = 0" by (simp_all add: plain_cell_def cell_width_def)
  define st1 where "st1 = (if is_blank ?c \<and> rs_clear st = 0 then start_run ?c st else st)"
  have st1: "rs_frame st1 = rs_frame st" "rs_x st1 = ?x" "rs_clear st1 = rs_clear st" "rs_wrote_last st1 = rs_wrote_last st"
    by (simp_all add: st1_def start_run_def)
  let ?skip = "init \<and> rs_clear st = 0 \<and> get_at old ?x = Some ?c"
  let ?same = "is_blank ?c \<and> cell_style ?c = rs_style st1 \<and> hyperlink ?c = rs_link st1"
  have step: "row_step init f y old st =
    (if ?skip then st\<lparr>rs_x := ?x + 1\<rparr>
     else if ?same then st1\<lparr>rs_clear := rs_clear st + 1, rs_x := ?x + 1\<rparr>
     else if rs_clear st > 0 \<and> is_blank ?c then (start_run ?c (flush_run f y st1))\<lparr>rs_clear := 1, rs_x := ?x + 1\<rparr>
     else draw_cell f y (sn_wrapped f ! y) ?c (if rs_clear st > 0 then flush_run f y st1 else st1))"
    unfolding row_step_def Let_def assms(5) [symmetric] cw(1) st1_def [symmetric] st1(3) using cw(2) by simp
  have flush: "\<exists>w. row_inv gd g0 t y new v0 G (flush_run f y st) w" if "rs_clear st > 0"
    using flush_row [OF assms(1,2) that assms(3)] .
  have fl: "rs_x (flush_run f y st) = ?x" "rs_clear (flush_run f y st) = 0" "rs_wrote_last (flush_run f y st) = rs_wrote_last st"
    by (simp_all add: flush_run_def Let_def)
  have cols: "vw_cols w = vw_cols v" if "row_inv gd g0 t y new v0 G s w" for s w
    using that dims by (simp add: row_inv_def kept_def)
  show ?thesis
  proof (cases ?skip)
    case True
    then have eq: "G ! y ! ?x = ?c" "rs_clear st = 0" using assms(6) by (auto simp: get_at_def split: if_splits)
    have ne: "\<not> (edge (rs_frame st) v \<and> vw_row v = y)" "\<not> rs_wrote_last st" using i assms(3) by auto
    have "take (Suc ?x) new @ drop (Suc ?x) (G ! y) = take ?x new @ drop ?x (G ! y)"
      using take_write [of ?x new "G ! y"] r assms(3) dims eq(1) by (metis append_take_drop_id list_update_id list_update_append
          length_take min.absorb4 nat_less_le le_refl Cons_nth_drop_Suc append_Cons append_assoc append_Nil take_Suc_conv_app_nth)
    then have "row_inv gd g0 t y new v0 G (st\<lparr>rs_x := ?x + 1\<rparr>) v"
      using i eq(2) ne assms(3) by (intro row_inv_drawn) (simp_all, blast)
    then show ?thesis using True step by auto
  next
    case ns: False
    show ?thesis
    proof (cases ?same)
      case True
      have "row_inv gd g0 t y new v0 G (st1\<lparr>rs_clear := rs_clear st + 1, rs_x := ?x + 1\<rparr>) v"
      proof (rule blank_row [OF assms(1-3)])
        show "is_blank ?c" using True by blast
        show "rs_clear st = 0 \<or> cell_style ?c = rs_style st" using True by (cases "rs_clear st = 0") (simp_all add: st1_def)
      qed (use True cw(3) st1 in simp_all)
      then show ?thesis using ns True step by auto
    next
      case False
      show ?thesis
      proof (cases "rs_clear st > 0")
        case True
        then have s1: "st1 = st" by (simp add: st1_def)
        obtain w where w: "row_inv gd g0 t y new v0 G (flush_run f y st) w" using flush [OF True] ..
        show ?thesis
        proof (cases "is_blank ?c")
          case b: True
          have "row_inv gd g0 t y new v0 G ((start_run ?c (flush_run f y st))\<lparr>rs_clear := 1, rs_x := ?x + 1\<rparr>) w"
            by (rule blank_row [OF w assms(2)]) (use b fl cw(3) cols [OF w] assms(3) in \<open>simp_all add: start_run_def\<close>)
          moreover have pos: "rs_clear st > 0 \<and> is_blank ?c" using True b by blast
          have "row_step init f y old st = (start_run ?c (flush_run f y st))\<lparr>rs_clear := 1, rs_x := ?x + 1\<rparr>"
            unfolding step if_not_P [OF ns] if_not_P [OF False] if_P [OF pos] unfolding s1 ..
          ultimately show ?thesis by metis
        next
          case b: False
          have x: "rs_x (flush_run f y st) < vw_cols w" "sn_cols f = vw_cols w" using fl(1) cols [OF w] assms(3,4) by simp_all
          have "\<not> (rs_clear st > 0 \<and> is_blank ?c)" using b by blast
          then show ?thesis unfolding step if_not_P [OF ns] if_not_P [OF False] unfolding s1
            using draw_row [OF w assms(2) fl(2) x, of "sn_wrapped f ! y"] True unfolding fl(1) by (simp only: if_True if_False)
        qed
      next
        case nc: False
        have nb: "\<not> is_blank ?c"
        proof
          assume b: "is_blank ?c"
          then have "st1 = start_run ?c st" using nc by (simp add: st1_def)
          then have "?same" using b cw(3) by (simp add: start_run_def)
          then show False using False by blast
        qed
        then have s1: "st1 = st" by (simp add: st1_def)
        have "rs_clear st = 0" "\<not> (rs_clear st > 0 \<and> is_blank ?c)" using nc by simp_all
        then show ?thesis unfolding step if_not_P [OF ns] if_not_P [OF False] unfolding s1
          using draw_row [OF assms(1,2) _ assms(3,4), of "sn_wrapped f ! y"] nc by (simp only: if_False)
      qed
    qed
  qed
qed

lemma loop_row:
  assumes "row_inv gd g0 t y new v0 G st v" "row_ready y new v0 G" "sn_cols f = vw_cols v0" "new = sn_cells f ! y" "init \<longrightarrow> old = G ! y"
  shows "\<exists>w. row_inv gd g0 t y new v0 G (row_loop init f y old st) w \<and> rs_x (row_loop init f y old st) = vw_cols v0"
  using assms
proof (induction init f y old st arbitrary: v rule: row_loop.induct)
  case (1 init f y old st)
  have cols: "vw_cols v = vw_cols v0" using 1(2) by (simp add: row_inv_def kept_def)
  show ?case
  proof (cases "rs_x st < sn_cols f")
    case True
    obtain w where w: "row_inv gd g0 t y new v0 G (row_step init f y old st) w"
      using step_row [OF 1(2,3) _ _ 1(5,6)] 1(4) True cols by auto
    show ?thesis using 1(1) [OF True w 1(3-6)] True by (subst (1 2) row_loop.simps) simp
  next
    case False
    have "rs_x st \<le> vw_cols v" using 1(2) by (simp add: row_inv_def)
    then have "rs_x st = vw_cols v0" using False 1(4) cols by simp
    then show ?thesis using False 1(2) by (subst (1 2) row_loop.simps) auto
  qed
qed


text \<open>The end of the line.\<close>

lemma end_row:
  assumes "row_inv gd g0 t y new v0 G st v" "row_ready y new v0 G" "0 < rs_clear st" "rs_x st = vw_cols v0"
  shows "\<exists>w. emits gd g0 t (rs_frame (end_run f y rw st)) w \<and> tracks (rs_frame (end_run f y rw st)) w \<and> kept v0 w
    \<and> picture w = G[y := new] \<and> (rs_wrote_last (end_run f y rw st) \<longrightarrow> edge (rs_frame (end_run f y rw st)) w \<and> vw_row w = y)
    \<and> (edge (rs_frame (end_run f y rw st)) w \<longrightarrow> vw_row w \<le> y \<and> (vw_cols w = 1 \<or> rs_wrote_last (end_run f y rw st)))"
proof -
  let ?fr = "at_blank_run f y st" and ?n = "rs_clear st"
  note i = assms(1) [unfolded row_inv_def] and r = assms(2) [unfolded row_ready_def]
  obtain v' where v': "emits gd g0 t ?fr v'" "tracks ?fr v'" "exact ?fr v'" "vw_row v' = y" "vw_col v' = rs_x st - ?n"
    "kept v v'" "picture v' = picture v" "fr_style ?fr = rs_style st" using at_run_emits [OF assms(1-3)] by blast
  note rd = run_drawn [OF assms(1,2) v'(4,5,7,6)]
  have k: "kept v0 v'" using i v'(6) kept_trans by blast
  then have cols: "vw_cols v' = rs_x st" using assms(4) by (simp add: kept_def)
  have b: "vw_col v' + ?n = rs_x st" using v'(5) i by simp
  have whole: "take (rs_x st) new @ drop (rs_x st) (G ! y) = new" using r assms(4) by simp
  have nw: "\<not> rs_wrote_last st" using i assms(3) by auto
  show ?thesis
  proof (cases "can_use_erase ?fr \<and> \<not> rw")
    case True
    then have s: "fr_style ?fr = style_default" by (simp add: can_use_erase_def)
    obtain w where w: "emits gd g0 t (fr_append [0x1B, 91, 75] ?fr) w" "tracks (fr_append [0x1B, 91, 75] ?fr) w" "kept v' w"
      "picture w = (picture v')[vw_row v' := fill (vw_col v') (vw_cols v') (cell_blank style_default) (picture v' ! vw_row v')]"
      "exact (fr_append [0x1B, 91, 75] ?fr) w"
      using el_emits [OF v'(1-3) s] by blast
    have "picture w = G[y := new]" using rd [of w, OF _ cols] w(4) s v'(8) whole by simp
    moreover have "\<not> edge (fr_append [0x1B, 91, 75] ?fr) w" using w(5) by (simp add: exact_def edge_def)
    moreover have "end_run f y rw st = st\<lparr>rs_frame := fr_append [0x1B, 91, 75] ?fr\<rparr>" using True by (simp add: end_run_def Let_def)
    ultimately show ?thesis using w(1,2) kept_trans [OF k w(3)] nw by (intro exI [of _ w]) simp
  next
    case False
    let ?fr' = "(append_n ?n 32 ?fr)\<lparr>fr_x := int (rs_x st)\<rparr>"
    have x: "fr_x ?fr + int ?n = int (rs_x st)" using v'(3) b by (auto simp: exact_def)
    have le: "vw_col v' + ?n \<le> vw_cols v'" using b cols by simp
    obtain w where w: "emits gd g0 t (append_n ?n 32 ?fr) w" "tracks ?fr' w" "beyond y (rs_x st) ?fr' w" "kept v' w"
      "picture w = (picture v')[vw_row v' := fill (vw_col v') (vw_col v' + ?n) (cell_blank (fr_style ?fr)) (picture v' ! vw_row v')]"
      using spaces_emit [OF v'(1-3) le] unfolding x b v'(4) by blast
    have "picture w = G[y := new]" using rd [of w, OF _ b] w(5) v'(8) whole by simp
    moreover have "vw_cols w = rs_x st" using w(4) cols by (simp add: kept_def)
    then have "edge ?fr' w \<and> vw_row w = y" using w(3) by (simp add: beyond_def)
    moreover have "end_run f y rw st = st\<lparr>rs_frame := ?fr', rs_wrote_last := True\<rparr>" using False by (auto simp: end_run_def Let_def)
    ultimately show ?thesis using w(1,2) kept_trans [OF k w(4)] by (intro exI [of _ w]) simp
  qed
qed

text \<open>Where a row may begin: anywhere behind earlier rows, or on the wrap the previous row left pending.\<close>

definition wrapped_in :: "FrameState \<Rightarrow> View \<Rightarrow> nat \<Rightarrow> bool" where
  "wrapped_in fr v y \<longleftrightarrow> surface v \<and> pen fr v \<and> vw_pending v \<and> vw_row v + 1 = y \<and> fr_x fr = 0 \<and> fr_y fr = int y"

definition row_begin :: "bool \<Rightarrow> FrameState \<Rightarrow> View \<Rightarrow> nat \<Rightarrow> bool" where
  "row_begin wrap fr v y \<longleftrightarrow> (if wrap then wrapped_in fr v y else tracks fr v \<and> (edge fr v \<longrightarrow> vw_row v < y \<and> vw_cols v = 1))"

lemma wrap_view:
  assumes "surface v" "sound_view v" "vw_row v + 1 < vw_rows v"
  shows "surface (vw_wrap v)" "sound_view (vw_wrap v)" "picture (vw_wrap v) = picture v" "kept v (vw_wrap v)"
    "vw_rows (vw_wrap v) = vw_rows v" "vw_cols (vw_wrap v) = vw_cols v"
proof -
  have y: "vw_row v < length (vw_grid v)" "vw_grid v \<noteq> []" using assms(2) by (auto simp: sound_view_def vw_rows_def)
  show rows: "vw_rows (vw_wrap v) = vw_rows v" by (simp add: vw_wrap_def vw_rows_def)
  show cols: "vw_cols (vw_wrap v) = vw_cols v"
    using hd_update [OF y(2), of "length \<circ> cells" "vw_row v" "(vw_grid v ! vw_row v)\<lparr>wrapped := True\<rparr>"] by (simp add: vw_wrap_def) (simp add: vw_cols_def)
  show "surface (vw_wrap v)" using assms(1) rows cols y(1) by (simp add: surface_def vw_rows_def) (simp add: vw_wrap_def)
  have "map cells ((vw_grid v)[vw_row v := (vw_grid v ! vw_row v)\<lparr>wrapped := True\<rparr>]) = map cells (vw_grid v)"
    using y(1) by (simp add: map_update) (metis length_map list_update_id nth_map)
  then show pic: "picture (vw_wrap v) = picture v" by (simp add: picture_def vw_wrap_def)
  show "kept v (vw_wrap v)" using rows cols by (simp add: kept_def) (simp add: vw_wrap_def)
  have "set (vw_grid (vw_wrap v)) \<subseteq> insert ((vw_grid v ! vw_row v)\<lparr>wrapped := True\<rparr>) (set (vw_grid v))"
    using set_update_subset_insert by (simp add: vw_wrap_def)
  moreover have "length (cells (vw_grid v ! vw_row v)) = vw_cols v" using assms(2) y(1) by (simp add: sound_view_def)
  ultimately have "\<forall>r \<in> set (vw_grid (vw_wrap v)). length (cells r) = vw_cols v" using assms(2) by (auto simp: sound_view_def)
  moreover have "0 < vw_cols v" using assms(2) by (auto simp: sound_view_def)
  ultimately show "sound_view (vw_wrap v)" using assms(2,3) rows cols
    by (simp add: sound_view_def) (simp add: vw_wrap_def)
qed

lemma start_row:
  assumes "emits gd g0 t fr v" "row_begin wrap fr v y" "row_ready y new v0 (picture v)" "kept v0 v" "new = sn_cells f ! y"
  shows "\<exists>w. row_inv gd g0 t y new v0 (picture v) (row_start f y wrap fr) w"
proof (cases wrap)
  case False
  then have "row_inv gd g0 t y new v0 (picture v) (row_start f y wrap fr) v"
    using assms by (intro row_inv_drawn) (auto simp: row_start_def row_begin_def style_default_def Let_def)
  then show ?thesis ..
next
  case True
  note r = assms(3) [unfolded row_ready_def]
  have wi: "surface v" "pen fr v" "vw_pending v" "vw_row v + 1 = y" "fr_x fr = 0" "fr_y fr = int y"
    using True assms(2) by (simp_all add: row_begin_def wrapped_in_def)
  have dims: "vw_rows v = vw_rows v0" "vw_cols v = vw_cols v0" using assms(4) by (simp_all add: kept_def)
  have sv: "sound_view v" using assms(1) by (rule emits_sound)
  then have cp: "0 < vw_cols v" by (auto simp: sound_view_def)
  let ?c = "new ! 0"
  have c: "plain_cell ?c" using r dims cp by simp
  then have cf: "\<not> st_protected (cell_style ?c)" "hyperlink ?c = 0" "cell_width ?c = 1" by (simp_all add: plain_cell_def cell_width_def)
  let ?fr1 = "update_style (cell_style ?c) False fr" and ?v1 = "vw_styled (cell_style ?c) v"
  have e1: "emits gd g0 t ?fr1 ?v1" using style_emits [OF assms(1) wi(2) cf(1)] .
  have p1: "pen ?fr1 ?v1" using style_tracks(4) [OF cf(1) wi(2)] .
  let ?u = "vw_wrap ?v1" and ?w = "vw_write (ch ?c) (vw_wrap ?v1)"
  have y1: "vw_row ?v1 + 1 < vw_rows ?v1" using wi(4) r dims by simp
  note u = wrap_view [OF _ emits_sound [OF e1] y1] and s1 = wi(1)
  have us: "surface ?u" "sound_view ?u" "picture ?u = picture v" "kept v ?u" "vw_cols ?u = vw_cols v" "vw_rows ?u = vw_rows v"
    using u s1 by (simp_all, auto simp: kept_def)
  have uf: "\<not> vw_pending ?u" "vw_style ?u = cell_style ?c" "c_hyperlink (vw_cursor ?u) = 0" "vw_row ?u = y" "vw_col ?u = 0"
    "vw_modes ?u = vw_modes v" using p1 wi(4) by (simp_all add: vw_wrap_def pen_def)
  note w = write_view [OF us(1,2) uf(1) c uf(2,3)]
  have "vw_row ?v1 \<noteq> snd (vw_region ?v1)" using surface_modes(4) [OF wi(1)] y1 by simp
  then have "paints gd g0 (utf8_encode (ch ?c)) ?v1 ?w"
    using wi(1,3) y1 c by (intro paints_char_wrap) (simp_all add: surface_def plain_cell_def)
  from emits_append [OF e1 this] have e2: "emits gd g0 t (fr_append (utf8_encode (ch ?c)) ?fr1) ?w" .
  have "ch ?c \<noteq> 0" using c wcwidth_0 by (metis plain_cell_def zero_neq_one)
  then have ap: "append_cell ?c f' = fr_append (utf8_encode (ch ?c)) f'" for f' using c by (simp add: append_cell_def plain_cell_def)
  have lk: "update_link (link_uri f (hyperlink ?c)) False ?fr1 = ?fr1" using p1 cf(2) by (simp add: pen_def)
  let ?st = "row_start f y wrap fr"
  have st: "rs_frame ?st = (fr_append (utf8_encode (ch ?c)) ?fr1)\<lparr>fr_x := 1\<rparr>" "rs_x ?st = 1" "rs_clear ?st = 0" "\<not> rs_wrote_last ?st"
    "rs_link ?st = 0" "rs_style ?st = style_default"
    using True wi(5) by (simp_all add: row_start_def Let_def assms(5) [symmetric] cf(3) lk ap)
  have be: "beyond y 1 (rs_frame ?st) ?w"
    using w(4,8,9,10) us(5) uf(4,5) wi(6) cp by (auto simp: beyond_def exact_def edge_def st(1))
  have pn: "pen (rs_frame ?st) ?w" using p1 w(5-7) uf(2,6) by (simp add: pen_def st(1))
  have "tracks (rs_frame ?st) ?w" using w(1) pn be by (auto simp: tracks_def beyond_def split: if_splits)
  moreover have "kept v0 ?w" using kept_trans [OF assms(4) kept_trans [OF us(4) w(2)]] .
  moreover have "picture ?w = (picture v)[y := take 1 new @ drop 1 (picture v ! y)]"
  proof -
    have "(take 0 new @ drop 0 (picture v ! y))[0 := new ! 0] = take (Suc 0) new @ drop (Suc 0) (picture v ! y)"
      using r dims cp by (intro take_write) simp_all
    then show ?thesis using w(3) us(3) uf(4,5) by simp
  qed
  moreover have "edge (rs_frame ?st) ?w \<and> vw_row ?w = y \<longrightarrow> rs_x ?st = vw_cols ?w"
    using be st(2) by (auto simp: edge_def beyond_def)
  moreover have "edge (rs_frame ?st) ?w \<longrightarrow> vw_row ?w \<le> y \<and> (vw_cols ?w = 1 \<or> rs_wrote_last ?st)"
    using be by (auto simp: beyond_def edge_def st(1))
  ultimately have "row_inv gd g0 t y new v0 (picture v) ?st ?w"
    using e2 st us(5) w(10) cp by (intro row_inv_drawn) (simp_all add: style_default_def)
  then show ?thesis ..
qed


lemma put_row_emits:
  assumes "emits gd g0 t fr v" "row_begin wrap fr v y" "row_ready y new v0 (picture v)" "kept v0 v"
    and "new = sn_cells f ! y" "init \<longrightarrow> old = picture v ! y" "sn_rows f = vw_rows v0" "sn_cols f = vw_cols v0"
    and "put_row init f y old wrap fr = (fr', wrap')"
  shows "\<exists>w. emits gd g0 t fr' w \<and> kept v0 w \<and> picture w = (picture v)[y := new] \<and> (\<not> wrap' \<longrightarrow> tracks fr' w)
    \<and> (y + 1 < vw_rows v0 \<longrightarrow> row_begin wrap' fr' w (y + 1)) \<and> (wrap' \<longrightarrow> y + 1 < vw_rows v0)
    \<and> (y + 1 = vw_rows v0 \<and> edge fr' w \<longrightarrow> vw_cols w = 1 \<or> vw_row w = y)"
proof -
  let ?G = "picture v" and ?rw = "sn_wrapped f ! y"
  note r = assms(3) [unfolded row_ready_def]
  obtain v1 where v1: "row_inv gd g0 t y new v0 ?G (row_start f y wrap fr) v1" using start_row [OF assms(1-5)] ..
  define st where "st = row_loop init f y old (row_start f y wrap fr)"
  obtain v2 where v2: "row_inv gd g0 t y new v0 ?G st v2" "rs_x st = vw_cols v0"
    using loop_row [OF v1 assms(3,8,5,6)] unfolding st_def by blast
  define st' where "st' = (if rs_clear st > 0 then end_run f y ?rw st else st)"
  let ?fr = "rs_frame st'"
  obtain w where w: "emits gd g0 t ?fr w" "tracks ?fr w" "kept v0 w" "picture w = ?G[y := new]"
    "rs_wrote_last st' \<Longrightarrow> edge ?fr w \<and> vw_row w = y" "edge ?fr w \<Longrightarrow> vw_row w \<le> y \<and> (vw_cols w = 1 \<or> rs_wrote_last st')"
  proof (cases "rs_clear st > 0")
    case True
    then show ?thesis using end_row [OF v2(1) assms(3) True v2(2), of f ?rw] that by (auto simp: st'_def)
  next
    case False
    then have "take (rs_x st - rs_clear st) new @ drop (rs_x st - rs_clear st) (?G ! y) = new" using r v2(2) by simp
    then show ?thesis using False v2(1) that [of v2] unfolding row_inv_def st'_def by simp
  qed
  have put: "put_row init f y old wrap fr =
    (if \<not> (rs_wrote_last st' \<and> y + 1 < sn_rows f) then (?fr, False)
     else if ?rw then (?fr\<lparr>fr_x := 0, fr_y := fr_y ?fr + 1\<rparr>, True)
     else ((fr_append [0x0D, 0x0A] ?fr)\<lparr>fr_x := 0, fr_y := fr_y ?fr + 1\<rparr>, False))"
    unfolding put_row_def Let_def st_def [symmetric] st'_def [symmetric] ..
  have s: "surface w" "pen ?fr w" using w(2) by (simp_all add: tracks_def)
  have dims: "vw_rows w = vw_rows v0" "vw_cols w = vw_cols v0" using w(3) by (simp_all add: kept_def)
  show ?thesis
  proof (cases "rs_wrote_last st' \<and> y + 1 < sn_rows f")
    case False
    then have f: "fr' = ?fr" "\<not> wrap'" using assms(9) put by simp_all
    have "y + 1 < vw_rows v0 \<longrightarrow> \<not> rs_wrote_last st'" using False assms(7) by auto
    then have "edge ?fr w \<longrightarrow> y + 1 < vw_rows v0 \<longrightarrow> vw_row w < y + 1 \<and> vw_cols w = 1" using w(6) by auto
    moreover have "edge ?fr w \<longrightarrow> vw_cols w = 1 \<or> vw_row w = y" using w(5,6) by auto
    ultimately show ?thesis using w(1-4) f by (intro exI [of _ w]) (auto simp: row_begin_def)
  next
    case True
    then have e: "edge ?fr w" "vw_row w = y" "y + 1 < vw_rows w" using w(5) assms(7) dims by simp_all
    show ?thesis
    proof (cases ?rw)
      case rw: True
      then have f: "fr' = ?fr\<lparr>fr_x := 0, fr_y := fr_y ?fr + 1\<rparr>" "wrap'" using True assms(9) put by simp_all
      have "wrapped_in fr' w (y + 1)" using e(1,2) s by (simp add: wrapped_in_def f(1) edge_def pen_def)
      then show ?thesis using w(1,3,4) f e(3) dims by (intro exI [of _ w]) (simp add: row_begin_def)
    next
      case rw: False
      then have f: "fr' = (fr_append [0x0D, 0x0A] ?fr)\<lparr>fr_x := 0, fr_y := fr_y ?fr + 1\<rparr>" "\<not> wrap'" using True assms(9) put by simp_all
      let ?u = "vw_at y 0 w" and ?w = "vw_at (y + 1) 0 w"
      have "emits gd g0 t (fr_append [0x0D] ?fr) ?u" using emits_append [OF w(1) paints_cr] e(2) by simp
      moreover have "paints gd g0 [0x0A] ?u (vw_at (vw_row ?u + 1) (vw_col ?u) ?u)"
        using surface_modes [OF s(1)] e(3) by (intro paints_lf) simp_all
      moreover have "vw_at (vw_row ?u + 1) (vw_col ?u) ?u = ?w" by (simp add: vw_at_def)
      ultimately have "emits gd g0 t (fr_append [0x0A] (fr_append [0x0D] ?fr)) ?w" using emits_append by metis
      then have em: "emits gd g0 t fr' ?w" by (simp add: f(1))
      have ex: "exact fr' ?w" using e(1,2) by (simp add: f(1) exact_def edge_def)
      have tr: "tracks fr' ?w" using s ex by (simp add: tracks_def) (simp add: pen_def f(1))
      then have "row_begin wrap' fr' ?w (y + 1)" using f(2) by (simp add: row_begin_def) (simp add: edge_def)
      moreover have "\<not> edge fr' ?w" by (simp add: edge_def)
      ultimately show ?thesis using em tr w(3,4) f(2) by (intro exI [of _ ?w]) simp
    qed
  qed
qed

end
