(* ===== verification/Redraw_Frame.thy ===== *)
theory Redraw_Frame
  imports Redraw
begin

text \<open>
  The whole frame: the rows one after the other, the scroll that saves redrawing them, the prologue, the
  cursor and the modes.
\<close>

section \<open>All rows\<close>

definition plain_snapshot :: "Snapshot \<Rightarrow> bool" where
  "plain_snapshot f \<longleftrightarrow> wf_snapshot f \<and> (\<forall>r \<in> set (sn_cells f). \<forall>c \<in> set r. plain_cell c)
     \<and> sn_rows f \<le> 65535 \<and> sn_cols f \<le> 65535"

definition sized :: "Snapshot \<Rightarrow> View \<Rightarrow> bool" where
  "sized f v \<longleftrightarrow> vw_rows v = sn_rows f \<and> vw_cols v = sn_cols f"

definition drawn_upto :: "Snapshot \<Rightarrow> Cell list list \<Rightarrow> nat \<Rightarrow> View \<Rightarrow> bool" where
  "drawn_upto f old y v \<longleftrightarrow> picture v = take y (sn_cells f) @ drop y old"

text \<open>Where the drawing of the rows leaves the cursor: behind the last column only in the last row.\<close>

definition settled :: "FrameState \<Rightarrow> View \<Rightarrow> bool" where
  "settled fr v \<longleftrightarrow> tracks fr v \<and> (edge fr v \<longrightarrow> vw_cols v = 1 \<or> vw_row v + 1 = vw_rows v)"

lemma plain_snapshotD:
  assumes "plain_snapshot f"
  shows "wf_snapshot f" "0 < sn_rows f" "0 < sn_cols f" "length (sn_cells f) = sn_rows f" "sn_rows f \<le> 65535" "sn_cols f \<le> 65535"
    "y < sn_rows f \<Longrightarrow> length (sn_cells f ! y) = sn_cols f" "y < sn_rows f \<Longrightarrow> \<forall>c \<in> set (sn_cells f ! y). plain_cell c"
  using assms by (auto simp: plain_snapshot_def wf_snapshot_def)

lemma ready_at:
  assumes "plain_snapshot f" "sized f v0" "y < sn_rows f" "length old = sn_rows f" "\<forall>r \<in> set old. length r = sn_cols f"
    and "drawn_upto f old y v"
  shows "row_ready y (sn_cells f ! y) v0 (picture v)" "picture v ! y = old ! y"
    "(picture v)[y := sn_cells f ! y] = take (Suc y) (sn_cells f) @ drop (Suc y) old"
proof -
  note p = plain_snapshotD [OF assms(1)]
  have l: "length (take y (sn_cells f)) = y" using p(4) assms(3) by simp
  show nth: "picture v ! y = old ! y" using assms(3,4,6) l by (simp add: drawn_upto_def nth_append)
  have "length (picture v) = sn_rows f" using assms(3,4,6) l by (simp add: drawn_upto_def)
  then show "row_ready y (sn_cells f ! y) v0 (picture v)"
    using assms(2-5) p nth by (simp add: row_ready_def sized_def)
  show "(picture v)[y := sn_cells f ! y] = take (Suc y) (sn_cells f) @ drop (Suc y) old"
    using take_write [of y "sn_cells f" old] p(4) assms(3,4,6) by (simp add: drawn_upto_def)
qed

lemma put_rows_emits:
  assumes "plain_snapshot f" "sized f v0" "length old = sn_rows f" "\<forall>r \<in> set old. length r = sn_cols f"
    and "init \<longrightarrow> (\<forall>i < sn_rows f. rows ! i = old ! i)"
    and "emits gd g0 t fr v" "kept v0 v" "drawn_upto f old y v" "y \<le> sn_rows f"
    and "if y < sn_rows f then row_begin wrap fr v y else settled fr v"
  shows "\<exists>w. emits gd g0 t (put_rows init f rows [y..<sn_rows f] wrap fr) w \<and> kept v0 w \<and> picture w = sn_cells f
    \<and> settled (put_rows init f rows [y..<sn_rows f] wrap fr) w"
  using assms(6-10)
proof (induction "sn_rows f - y" arbitrary: y fr v wrap)
  case 0
  then have "y = sn_rows f" by simp
  then show ?case using 0 assms(3) plain_snapshotD(4) [OF assms(1)] by (intro exI [of _ v]) (simp add: drawn_upto_def)
next
  case (Suc n)
  then have y: "y < sn_rows f" by simp
  note r = ready_at [OF assms(1,2) y assms(3,4) Suc.prems(3)]
  obtain fr' wrap' where put: "put_row init f y (rows ! y) wrap fr = (fr', wrap')" by fastforce
  have "row_begin wrap fr v y" "init \<longrightarrow> rows ! y = picture v ! y" using Suc.prems(5) y assms(5) r(2) by simp_all
  from put_row_emits [OF Suc.prems(1) this(1) r(1) Suc.prems(2) refl this(2) _ _ put]
  obtain w where w: "emits gd g0 t fr' w" "kept v0 w" "picture w = (picture v)[y := sn_cells f ! y]" "\<not> wrap' \<longrightarrow> tracks fr' w"
    "y + 1 < vw_rows v0 \<longrightarrow> row_begin wrap' fr' w (y + 1)" "wrap' \<longrightarrow> y + 1 < vw_rows v0"
    "y + 1 = vw_rows v0 \<and> edge fr' w \<longrightarrow> vw_cols w = 1 \<or> vw_row w = y"
    using assms(2) by (auto simp: sized_def)
  have rows: "vw_rows v0 = sn_rows f" "vw_rows w = sn_rows f" using assms(2) w(2) by (simp_all add: sized_def kept_def)
  have d: "drawn_upto f old (Suc y) w" using w(3) r(3) by (simp add: drawn_upto_def)
  have nxt: "if Suc y < sn_rows f then row_begin wrap' fr' w (Suc y) else settled fr' w"
  proof (cases "Suc y < sn_rows f")
    case False
    then have "Suc y = sn_rows f" using y by simp
    then show ?thesis using w(4,6,7) rows by (auto simp: settled_def)
  qed (use w(5) rows in simp)
  have "n = sn_rows f - Suc y" using Suc.hyps(2) by simp
  from Suc.hyps(1) [OF this w(1,2) d _ nxt] y
  have "\<exists>w. emits gd g0 t (put_rows init f rows [Suc y..<sn_rows f] wrap' fr') w \<and> kept v0 w \<and> picture w = sn_cells f
    \<and> settled (put_rows init f rows [Suc y..<sn_rows f] wrap' fr') w" by simp
  then show ?case using put by (simp add: upt_conv_Cons [OF y])
qed


section \<open>Scrolling\<close>

lemma map_region_up: "map h (region_up a b n x g) = region_up a b n (h x) (map h g)"
  by (simp add: region_up_def take_map drop_map)

lemma set_region_up: "set (region_up a b n x g) \<subseteq> insert x (set g)"
  unfolding region_up_def by (auto dest: in_set_takeD in_set_dropD split: if_splits)

lemma scroll_simps [simp]:
  "vw_cursor (vw_scroll n v) = (vw_cursor v)\<lparr>c_pending_wrap := False\<rparr>" "vw_modes (vw_scroll n v) = vw_modes v"
  "vw_title (vw_scroll n v) = vw_title v" "vw_region (vw_scroll n v) = vw_region v"
  by (simp_all add: vw_scroll_def)

definition scrollable :: "View \<Rightarrow> bool" where
  "scrollable v \<longleftrightarrow> fst (vw_region v) = 0 \<and> vw_row v = snd (vw_region v) \<and> \<not> vw_pending v \<and> vw_style v = style_default"

lemma scroll_view:
  assumes "sound_view v" "scrollable v" "n \<le> snd (vw_region v) + 1"
  shows "vw_rows (vw_scroll n v) = vw_rows v" "vw_cols (vw_scroll n v) = vw_cols v"
    "vw_grid (vw_scroll n v) = region_up 0 (snd (vw_region v)) n (row_blank (vw_cols v) style_default) (vw_grid v)"
    "picture (vw_scroll n v) = region_up 0 (snd (vw_region v)) n (replicate (vw_cols v) blank_cell) (picture v)"
    "drawable v \<Longrightarrow> drawable (vw_scroll n v)" "sound_view (vw_scroll n v)"
proof -
  let ?b = "snd (vw_region v)" and ?row = "row_blank (vw_cols v) style_default"
  have b: "?b < length (vw_grid v)" "vw_grid v \<noteq> []" using assms(1) by (auto simp: sound_view_def vw_rows_def)
  show g: "vw_grid (vw_scroll n v) = region_up 0 ?b n ?row (vw_grid v)"
    using assms(2) by (simp add: vw_scroll_def scrollable_def style_default_def)
  have l: "length (region_up 0 ?b n ?row (vw_grid v)) = length (vw_grid v)" using b assms(3) by (intro length_region) simp_all
  then show rows: "vw_rows (vw_scroll n v) = vw_rows v" using g by (simp add: vw_rows_def)
  have s: "set (vw_grid (vw_scroll n v)) \<subseteq> insert ?row (set (vw_grid v))" unfolding g by (rule set_region_up)
  have all: "\<forall>r \<in> set (vw_grid (vw_scroll n v)). length (cells r) = vw_cols v"
    using s assms(1) by (auto simp: sound_view_def row_blank_def)
  moreover have "vw_grid (vw_scroll n v) \<noteq> []" using l b(2) g by auto
  ultimately show cols: "vw_cols (vw_scroll n v) = vw_cols v" by (simp add: vw_cols_def)
  show "picture (vw_scroll n v) = region_up 0 ?b n (replicate (vw_cols v) blank_cell) (picture v)"
    by (simp add: picture_def g map_region_up) (simp add: row_blank_def blank_cell_def)
  show "drawable (vw_scroll n v)" if "drawable v"
  proof -
    have "\<forall>c \<in> set (cells ?row). width c = 1" by (simp add: row_blank_def cell_blank_def)
    then show ?thesis using that s by (auto simp: drawable_def)
  qed
  show "sound_view (vw_scroll n v)" using assms(1) all rows cols by (simp add: sound_view_def)
qed

lemma paints_scrolls:
  assumes "sound_view v" "scrollable v" "\<not> m_lnm (vw_modes v)" "n \<le> snd (vw_region v) + 1"
  shows "paints gd g0 (replicate n 0x0A) v (vw_scroll n v)"
  using assms(4)
proof (induction n)
  case 0
  have "vw_scroll 0 v = v"
    using assms(1,2) by (cases v) (auto simp: vw_scroll_def sound_view_def scrollable_def vw_rows_def region_zero unpended)
  then show ?case by (simp add: paints_Nil)
next
  case (Suc n)
  let ?w = "vw_scroll n v"
  have n: "n \<le> snd (vw_region v) + 1" using Suc.prems by simp
  note w = scroll_view [OF assms(1,2) n]
  have b: "snd (vw_region v) < length (vw_grid v)" using assms(1) by (simp add: sound_view_def vw_rows_def)
  have "vw_scroll 1 ?w = vw_scroll (Suc n) v"
    unfolding vw_scroll_def [of 1] w(2) scroll_simps w(3) using Suc.prems b assms(2) region_up_Suc [of 0 "snd (vw_region v)" "vw_grid v" n]
    by (simp add: scrollable_def vw_scroll_def style_default_def)
  moreover have "paints gd g0 [0x0A] ?w (vw_scroll 1 ?w)"
    using assms(2,3) by (intro paints_lf_scroll) (simp_all add: scrollable_def)
  ultimately show ?case using paints_append [OF Suc.IH [OF n]] by (simp add: replicate_append_same [symmetric] del: replicate_append_same)
qed

lemma unlink_same: "c_hyperlink (vw_cursor v) = 0 \<Longrightarrow> vw_unlink v = v"
  by (auto simp: vw_unlink_def)

lemma unlink_emits:
  assumes "emits gd g0 t fr v" "c_hyperlink (vw_cursor v) = 0"
  shows "emits gd g0 t (update_link [] b fr) v"
  using emits_append [OF assms(1) paints_unlink] unlink_same [OF assms(2)] assms(1) by (auto simp: update_link_def)

lemma link_fields [simp]:
  "fr_x (update_link l b fr) = fr_x fr" "fr_y (update_link l b fr) = fr_y fr" "fr_style (update_link l b fr) = fr_style fr"
  "fr_link (update_link l b fr) = l" "fr_cursor_visible (update_link l b fr) = fr_cursor_visible fr"
  by (simp_all add: update_link_def)

lemma scroll_full:
  assumes "emits gd g0 t fr v" "tracks fr v" "exact fr v" "fr_style fr = style_default" "fr_y fr + 1 = int (vw_rows v)" "n \<le> vw_rows v"
  defines "fr' \<equiv> (append_n n 0x0A (fr_append [0x0D] fr))\<lparr>fr_x := 0\<rparr>"
  shows "\<exists>w. emits gd g0 t fr' w \<and> settled fr' w \<and> \<not> edge fr' w \<and> kept v w
    \<and> picture w = region_up 0 (vw_rows v - 1) n (replicate (vw_cols v) blank_cell) (picture v)"
proof (intro exI conjI)
  let ?u = "vw_at (vw_row v) 0 v" and ?w = "vw_scroll n (vw_at (vw_row v) 0 v)"
  have p: "surface v" "pen fr v" using assms(2) by (simp_all add: tracks_def)
  note sv = emits_sound [OF assms(1)]
  then have pos: "0 < vw_rows v" by (auto simp: sound_view_def)
  have row: "vw_row v = vw_rows v - 1" using assms(3,5) by (simp add: exact_def)
  have su: "sound_view ?u" using sv by (simp add: sound_view_def)
  have r: "vw_region v = (0, vw_rows v - 1)" using p(1) by (simp add: surface_def)
  have sc: "scrollable ?u" using p(2) assms(4) row r by (simp add: scrollable_def pen_def)
  have n: "n \<le> snd (vw_region ?u) + 1" using r assms(6) by simp
  note w = scroll_view [OF su sc n]
  have e1: "emits gd g0 t (fr_append [0x0D] fr) ?u" using emits_append [OF assms(1) paints_cr] .
  have "paints gd g0 (replicate n 0x0A) ?u ?w" using surface_modes [OF p(1)] by (intro paints_scrolls [OF su sc _ n]) simp
  from emits_append [OF e1 this] show "emits gd g0 t fr' ?w" by (simp add: fr'_def append_n_def)
  show k: "kept v ?w" using w(1,2) by (simp add: kept_def)
  show "picture ?w = region_up 0 (vw_rows v - 1) n (replicate (vw_cols v) blank_cell) (picture v)" using w(4) r by simp
  have "surface ?w" using p(1) w(1,2,5) by (simp add: surface_def)
  moreover have "exact fr' ?w" using assms(3) by (simp add: exact_def fr'_def append_n_def vw_at_def)
  moreover have "pen fr' ?w" using p(2) by (simp add: pen_def fr'_def append_n_def vw_at_def)
  ultimately show "settled fr' ?w" "\<not> edge fr' ?w" by (simp_all add: settled_def tracks_def) (auto simp: exact_def edge_def)
qed


text \<open>The builder with the cursor hidden and its place forgotten, behind a change of the margins.\<close>

lemma hide_emits:
  assumes "emits gd g0 t fr v" "pen fr v"
  defines "fr' \<equiv> if fr_cursor_visible fr then (fr_append (dec_private False 25) fr)\<lparr>fr_cursor_visible := False\<rparr> else fr"
  shows "emits gd g0 t fr' (vw_show False v)" "pen fr' (vw_show False v)" "\<not> fr_cursor_visible fr'" "fr_style fr' = fr_style fr" "fr_link fr' = fr_link fr"
proof -
  show f: "\<not> fr_cursor_visible fr'" "fr_style fr' = fr_style fr" "fr_link fr' = fr_link fr" by (simp_all add: fr'_def)
  show "pen fr' (vw_show False v)" using f assms(2) by (simp add: pen_def)
  show "emits gd g0 t fr' (vw_show False v)"
  proof (cases "fr_cursor_visible fr")
    case True
    then show ?thesis using emits_append [OF assms(1) paints_visible [of gd g0 False v]] by (simp add: fr'_def)
  next
    case False
    then have "vw_show False v = v" using show_same [OF assms(2)] by simp
    then show ?thesis using False assms(1) by (simp add: fr'_def)
  qed
qed

lemma region_view:
  assumes "sound_view v" "a \<le> b" "b < vw_rows v"
  shows "sound_view (v\<lparr>vw_region := (a, b)\<rparr>)"
  using assms by (simp add: sound_view_def)

lemma scroll_region:
  assumes "emits gd g0 t fr v" "tracks fr v" "fr_style fr = style_default" "0 < b" "b < vw_rows v" "n \<le> b + 1"
  defines "fr1 \<equiv> (fr_append (0x1B # 91 # decimal 1 @ 59 # decimal (b + 1) @ [114]) fr)\<lparr>fr_x := -1, fr_y := -1\<rparr>"
  defines "fr' \<equiv> (fr_append [0x1B, 91, 114] (append_n n 0x0A (append_silent_move (int b) 0 fr1)))\<lparr>fr_x := -1, fr_y := -1\<rparr>"
  shows "\<exists>w. emits gd g0 t fr' w \<and> settled fr' w \<and> \<not> edge fr' w \<and> kept v w
    \<and> picture w = region_up 0 b n (replicate (vw_cols v) blank_cell) (picture v)"
proof -
  have p: "surface v" "pen fr v" using assms(2) by (simp_all add: tracks_def)
  note m = surface_modes [OF p(1)] and sv = emits_sound [OF assms(1)]
  let ?r = "v\<lparr>vw_region := (0, b)\<rparr>"
  have "paints gd g0 (0x1B # 91 # decimal 1 @ 59 # decimal (b + 1) @ [114]) v (vw_at 0 0 ?r)"
    using paints_margins [of 0 b v gd g0] assms(4,5) m(2,6) by simp
  from emits_append [OF assms(1) this] have e1: "emits gd g0 t fr1 (vw_at 0 0 ?r)" by (simp add: fr1_def)
  have p1: "pen fr1 (vw_at 0 0 ?r)" using p(2) by (simp add: pen_def fr1_def)
  define fr2 where "fr2 = (if fr_cursor_visible fr1 then (fr_append (dec_private False 25) fr1)\<lparr>fr_cursor_visible := False\<rparr> else fr1)"
  note h = hide_emits [OF e1 p1, folded fr2_def]
  let ?h = "vw_show False (vw_at 0 0 ?r)"
  have cp: "0 < vw_cols v" using sv by (auto simp: sound_view_def)
  have "fr_x fr2 = -1" by (simp add: fr2_def fr1_def)
  then have mv: "append_silent_move (int b) 0 fr1 = fr_append (0x1B # 91 # decimal (b + 1) @ 59 # decimal (0 + 1) @ [72]) (fr2\<lparr>fr_x := 0, fr_y := int b\<rparr>)"
    using decimal_of_nat [of b] decimal_of_nat [of 0]
    by (simp add: append_silent_move_def append_move_def fr1_def fr2_def Let_def add.commute)
  let ?fr3 = "append_silent_move (int b) 0 fr1" and ?u = "vw_at b 0 ?h"
  have "paints gd g0 (0x1B # 91 # decimal (b + 1) @ 59 # decimal (0 + 1) @ [72]) ?h ?u"
  proof (rule paints_cup)
    show "b < vw_rows ?h" "0 < vw_cols ?h" using assms(5) cp by simp_all
    show "b < 65535" using assms(5) m(6) by simp
    show "\<not> m_origin (vw_modes ?h)" using m(2) by (simp add: vw_show_def vw_at_def)
  qed simp
  moreover have "emits gd g0 t (fr2\<lparr>fr_x := 0, fr_y := int b\<rparr>) ?h" using h(1) by simp
  ultimately have e3: "emits gd g0 t ?fr3 ?u" unfolding mv by (rule emits_append [rotated])
  have su: "sound_view ?u" using sv assms(5) cp by (simp add: sound_view_def vw_at_def vw_show_def)
  have sc: "scrollable ?u" using p(2) assms(3) by (simp add: scrollable_def pen_def)
  have n: "n \<le> snd (vw_region ?u) + 1" using assms(6) by simp
  note w = scroll_view [OF su sc n]
  let ?s = "vw_scroll n ?u"
  have "\<not> m_lnm (vw_modes ?u)" using m(3) by (simp add: vw_at_def vw_show_def)
  from emits_append [OF e3 paints_scrolls [OF su sc this n]]
  have e4: "emits gd g0 t (append_n n 0x0A ?fr3) ?s" by (simp add: append_n_def)
  let ?w = "vw_full_region ?s"
  have "\<not> m_origin (vw_modes ?s)" using m(2) by (simp add: vw_show_def vw_at_def)
  from emits_append [OF e4 paints_full_region [OF this]] have e: "emits gd g0 t fr' ?w" by (simp add: fr'_def)
  have f: "fr_style fr' = fr_style fr" "fr_link fr' = fr_link fr" "\<not> fr_cursor_visible fr'" "fr_x fr' = -1" "fr_y fr' = -1"
    using h(3,4,5) by (simp_all add: fr'_def mv append_n_def) (simp_all add: fr1_def)
  have dr: "drawable ?u" using m(5) by (simp add: drawable_def vw_at_def vw_show_def)
  have eq: "?w = vw_at 0 0 (?s\<lparr>vw_region := (0, vw_rows v - 1)\<rparr>)" using assms(4,5) w(1) by (simp add: vw_full_region_def)
  have dims: "vw_rows ?s = vw_rows v" "vw_cols ?s = vw_cols v" using w(1,2) by simp_all
  have "picture ?w = picture ?s" unfolding eq by (simp add: picture_def)
  then have pic: "picture ?w = region_up 0 b n (replicate (vw_cols v) blank_cell) (picture v)" using w(4) by (simp add: picture_def)
  have "surface ?w" unfolding eq using w(5) [OF dr] dims m(6,7) by (simp add: surface_def) (simp add: drawable_def)
  moreover have "pen fr' ?w" using p(2) f unfolding eq pen_def by (simp add: vw_at_def vw_show_def)
  moreover have "kept v ?w" using dims unfolding eq kept_def by (simp add: vw_at_def vw_show_def)
  moreover have "\<not> edge fr' ?w" by (simp add: eq edge_def)
  ultimately show ?thesis using e pic f(4) by (intro exI [of _ ?w]) (simp add: settled_def tracks_def lost_def)
qed

text \<open>The shortcut finds rows the outer terminal already shows.\<close>

lemma find_scroll_found:
  assumes "find_scroll prev f rows = (l, h)" "0 < h"
  shows "0 < l" "l + h \<le> sn_rows f" "i < h \<Longrightarrow> sn_cells f ! i = rows ! (l + i)"
proof -
  obtain l' where l: "List.find (same_row prev f rows 0) [0..<sn_rows f] = Some l'" "l' = l" "0 < l"
    "h = 1 + length (takeWhile (\<lambda>h. same_row prev f rows h (l + h)) [1..<sn_rows f - l])"
    using assms by (auto simp: find_scroll_def split: option.splits nat.splits)
  show "0 < l" by (rule l(3))
  have s: "l < sn_rows f" "same_row prev f rows 0 l" using l(1,2) by (auto simp: find_Some_iff)
  have "length (takeWhile (\<lambda>h. same_row prev f rows h (l + h)) [1..<sn_rows f - l]) \<le> sn_rows f - l - 1"
    using length_takeWhile_le [of _ "[1..<sn_rows f - l]"] by (metis length_upt)
  then show "l + h \<le> sn_rows f" using l(4) s(1) by linarith
  show "sn_cells f ! i = rows ! (l + i)" if "i < h"
  proof (cases i)
    case 0
    then show ?thesis using s(2) by (simp add: same_row_def)
  next
    case (Suc j)
    let ?P = "\<lambda>h. same_row prev f rows h (l + h)" and ?xs = "[1..<sn_rows f - l]"
    have j: "j < length (takeWhile ?P ?xs)" using that l(4) Suc by simp
    then have "?P (takeWhile ?P ?xs ! j)" using nth_mem set_takeWhileD by metis
    moreover have "takeWhile ?P ?xs ! j = i"
    proof -
      have "j < length ?xs" using j length_takeWhile_le [of ?P ?xs] by linarith
      then show ?thesis using takeWhile_nth [OF j] Suc by simp
    qed
    ultimately show ?thesis by (simp add: same_row_def)
  qed
qed

lemma scroll_rows_up:
  assumes "length rows = sn_rows f" "0 < l + h" "l + h \<le> sn_rows f"
  shows "scroll_rows f l h rows = region_up 0 (l + h - 1) l (replicate (sn_cols f) blank_cell) rows"
proof (rule nth_equalityI)
  show "length (scroll_rows f l h rows) = length (region_up 0 (l + h - 1) l (replicate (sn_cols f) blank_cell) rows)"
  proof -
    have "l + h - 1 < length rows" "l \<le> Suc (l + h - 1) - 0" using assms by arith+
    from length_region(1) [OF _ this] show ?thesis by (simp add: scroll_rows_def Let_def)
  qed
  fix i assume "i < length (scroll_rows f l h rows)"
  then have "i < sn_rows f" using assms(1) by (simp add: scroll_rows_def Let_def)
  then show "scroll_rows f l h rows ! i = region_up 0 (l + h - 1) l (replicate (sn_cols f) blank_cell) rows ! i"
    using assms by (auto simp: scroll_rows_def region_up_def nth_append add.commute Let_def)
qed


text \<open>Where the rows begin after the shortcut.\<close>

lemma shortcut_emits:
  assumes "plain_snapshot f" "sized f v" "emits gd g0 t fr v" "tracks fr v" "exact fr v" "fr_style fr = style_default"
    and "rows = picture v" "scroll_shortcut init prev f rows fr = (fr', rows', y)"
  shows "\<exists>w. emits gd g0 t fr' w \<and> settled fr' w \<and> \<not> edge fr' w \<and> kept v w \<and> picture w = rows' \<and> y \<le> sn_rows f
    \<and> drawn_upto f rows' y w"
proof (cases "init \<and> 0 < snd (find_scroll prev f rows)")
  case False
  then have "fr' = fr" "rows' = rows" "y = 0" using assms(8) by (auto simp: scroll_shortcut_def split: if_splits prod.splits)
  moreover have "\<not> edge fr v" using assms(5) by (simp add: exact_def edge_def)
  ultimately show ?thesis using assms(3,4,7) by (intro exI [of _ v]) (simp add: settled_def drawn_upto_def)
next
  case True
  obtain l h where lh: "find_scroll prev f rows = (l, h)" by fastforce
  then have h: "0 < h" using True by simp
  note found = find_scroll_found [OF lh h]
  have r: "fr' = scroll_frame f l h fr" "rows' = scroll_rows f l h rows" "y = h"
    using assms(8) True lh by (auto simp: scroll_shortcut_def)
  have len: "length rows = sn_rows f" "length (sn_cells f) = sn_rows f" using assms(2,7) plain_snapshotD(4) [OF assms(1)] by (simp_all add: sized_def)
  have up: "rows' = region_up 0 (l + h - 1) l (replicate (sn_cols f) blank_cell) rows"
    unfolding r(2) using len h found(2) by (intro scroll_rows_up) simp_all
  have np: "pen fr v" "\<not> st_protected style_default" using assms(4) by (simp_all add: tracks_def style_default_def)
  let ?fr = "update_link [] True (update_style style_default True fr)"
  have lk: "c_hyperlink (vw_cursor v) = 0" "vw_style v = style_default" "fr_link fr = []" using np(1) assms(6) by (simp_all add: pen_def)
  have st: "vw_styled style_default v = v" using styled_same [OF lk(2)] .
  have e: "emits gd g0 t ?fr v" using unlink_emits [OF style_emits [OF assms(3) np] , of True True] lk(1) st by simp
  have tr: "tracks ?fr v" "exact ?fr v" "fr_style ?fr = style_default"
    using assms(4-6) lk by (simp_all add: tracks_def pen_def lost_def exact_def edge_def)
  have size: "vw_rows v = sn_rows f" "vw_cols v = sn_cols f" using assms(2) by (simp_all add: sized_def)
  have fry: "fr_y ?fr = fr_y fr" by simp
  have "\<exists>w. emits gd g0 t fr' w \<and> settled fr' w \<and> \<not> edge fr' w \<and> kept v w
    \<and> picture w = region_up 0 (l + h - 1) l (replicate (vw_cols v) blank_cell) (picture v)"
  proof (cases "h + l = sn_rows f \<and> fr_y ?fr + 1 = int (sn_rows f)")
    case full: True
    then have "fr' = (append_n l 0x0A (fr_append [0x0D] ?fr))\<lparr>fr_x := 0\<rparr>" unfolding r(1) scroll_frame_def Let_def by simp
    moreover have "l + h - 1 = vw_rows v - 1" "l \<le> vw_rows v" using full size by auto
    ultimately show ?thesis using scroll_full [OF e tr, of l] full size by simp
  next
    case part: False
    have b: "0 < l + h - 1" "l + h - 1 < vw_rows v" "l \<le> l + h - 1 + 1" using found(1,2) h size by simp_all
    have "l + h - 1 + 1 = l + h" using h by simp
    moreover have "fr' = (fr_append [0x1B, 91, 114] (append_n l 0x0A (append_silent_move (int (l + h - 1)) 0
        ((fr_append (0x1B # 91 # decimal 1 @ 59 # decimal (l + h - 1 + 1) @ [114]) ?fr)\<lparr>fr_x := -1, fr_y := -1\<rparr>))))\<lparr>fr_x := -1, fr_y := -1\<rparr>"
      unfolding r(1) scroll_frame_def Let_def if_not_P [OF part] by simp
    ultimately show ?thesis using scroll_region [OF e tr(1,3) b] by simp
  qed
  then obtain w where w: "emits gd g0 t fr' w" "settled fr' w" "\<not> edge fr' w" "kept v w" "picture w = rows'"
    unfolding up using assms(7) size by auto
  have "take h (sn_cells f) = take h rows'"
  proof (rule nth_equalityI)
    show "length (take h (sn_cells f)) = length (take h rows')" using len by (simp add: r(2) scroll_rows_def Let_def)
    fix i assume "i < length (take h (sn_cells f))"
    then have i: "i < h" "i < sn_rows f" using len by simp_all
    then have "rows' ! i = rows ! (i + l)" using len found(2) by (auto simp: r(2) scroll_rows_def Let_def)
    then show "take h (sn_cells f) ! i = take h rows' ! i" using found(3) [OF i(1)] i by (simp add: add.commute)
  qed
  then have "drawn_upto f rows' y w" using w(5) r(3) by (simp add: drawn_upto_def)
  then show ?thesis using w r(3) found(2) by (intro exI [of _ w]) simp
qed

lemma rows_emit:
  assumes "plain_snapshot f" "sized f v" "emits gd g0 t fr v" "tracks fr v" "exact fr v" "fr_style fr = style_default"
    and "init \<longrightarrow> shown_rows init prev f = picture v"
  shows "\<exists>w. emits gd g0 t (frame_rows init prev f fr) w \<and> kept v w \<and> picture w = sn_cells f \<and> settled (frame_rows init prev f fr) w"
proof -
  obtain fr' rows' y where s: "scroll_shortcut init prev f (shown_rows init prev f) fr = (fr', rows', y)" by (metis prod_cases3)
  have "\<exists>old w. emits gd g0 t fr' w \<and> settled fr' w \<and> \<not> edge fr' w \<and> kept v w \<and> picture w = old \<and> y \<le> sn_rows f
    \<and> drawn_upto f old y w \<and> (init \<longrightarrow> rows' = old)"
  proof (cases init)
    case True
    then have "shown_rows init prev f = picture v" using assms(7) by simp
    with shortcut_emits [OF assms(1-6) this s] show ?thesis by blast
  next
    case False
    then have "fr' = fr" "y = 0" using s by (simp_all add: scroll_shortcut_def)
    moreover have "\<not> edge fr v" using assms(5) by (simp add: exact_def edge_def)
    ultimately show ?thesis using assms(3,4) False by (intro exI [of _ "picture v"] exI [of _ v]) (simp add: settled_def drawn_upto_def)
  qed
  then obtain old w where w: "emits gd g0 t fr' w" "settled fr' w" "\<not> edge fr' w" "kept v w" "picture w = old" "y \<le> sn_rows f"
    "drawn_upto f old y w" "init \<longrightarrow> rows' = old" by blast
  have size: "sized f w" using assms(2) w(4) by (simp add: sized_def kept_def)
  have len: "length old = sn_rows f" "\<forall>r \<in> set old. length r = sn_cols f"
    using w(5) emits_sound [OF w(1)] size by (auto simp: sized_def picture_def sound_view_def vw_rows_def)
  have "if y < sn_rows f then row_begin False fr' w y else settled fr' w" using w(2,3) by (simp add: row_begin_def settled_def)
  from put_rows_emits [OF assms(1) size len _ w(1) kept_refl w(7,6) this, of init rows'] w(8)
  obtain u where "emits gd g0 t (put_rows init f rows' [y..<sn_rows f] False fr') u" "kept w u" "picture u = sn_cells f"
    "settled (put_rows init f rows' [y..<sn_rows f] False fr') u" by auto
  then show ?thesis using kept_trans [OF w(4)] s by (auto simp: frame_rows_def)
qed

end
