(* ===== verification/Redraw_Outer.thy ===== *)
theory Redraw_Outer
  imports Redraw_Frame
begin

text \<open>
  The modes a frame keeps in step, its prologue and its end, and the theorem about the whole: a frame
  computed from the snapshot the outer terminal shows makes it show the next one.
\<close>

section \<open>Modes\<close>

definition on_vw :: "(Modes \<Rightarrow> Modes) \<Rightarrow> View \<Rightarrow> View" where
  "on_vw h v = v\<lparr>vw_modes := h (vw_modes v)\<rparr>"

lemma on_vw_simps [simp]:
  "vw_grid (on_vw h v) = vw_grid v" "vw_cursor (on_vw h v) = vw_cursor v" "vw_modes (on_vw h v) = h (vw_modes v)"
  "vw_title (on_vw h v) = vw_title v" "vw_region (on_vw h v) = vw_region v" "vw_rows (on_vw h v) = vw_rows v"
  "vw_cols (on_vw h v) = vw_cols v" "picture (on_vw h v) = picture v"
  by (simp_all add: on_vw_def picture_def)

lemma on_vw_same: "h (vw_modes v) = vw_modes v \<Longrightarrow> on_vw h v = v"
  by (simp add: on_vw_def)

definition mouse_of :: "nat \<Rightarrow> MouseMode" where
  "mouse_of n = (if n = 9 then X10 else if n = 1000 then Normal else if n = 1002 then ButtonEvent else if n = 1003 then AnyEvent
     else NoMouse)"

definition protocol_of :: "nat \<Rightarrow> MouseProtocol" where
  "protocol_of n = (if n = 1005 then Utf8Protocol else if n = 1006 then Sgr else if n = 1016 then SgrPixel else NormalProtocol)"

definition mouse_number :: "MouseMode \<Rightarrow> nat" where
  "mouse_number m = (case mouse_decset m of None \<Rightarrow> 0 | Some n \<Rightarrow> n)"

definition protocol_number :: "MouseProtocol \<Rightarrow> nat" where
  "protocol_number p = (case protocol_decset p of None \<Rightarrow> 0 | Some n \<Rightarrow> n)"

lemma mouse_numbers [simp]: "mouse_of (mouse_number m) = m" "mouse_number m \<in> {0, 9, 1000, 1002, 1003}"
  by (cases m; simp add: mouse_number_def mouse_decset_def mouse_of_def)+

lemma protocol_numbers [simp]: "protocol_of (protocol_number p) = p" "protocol_number p \<in> {0, 1005, 1006, 1016}"
  by (cases p; simp add: protocol_number_def protocol_decset_def protocol_of_def)+

lemma paints_mode:
  fixes gd :: "'g graphics_dispatch"
  assumes "\<And>t :: 'g Terminal. view (set_dec_mode n b t) = (view t)\<lparr>vw_modes := h (t_modes t)\<rparr>" "n < 65536"
  shows "paints gd g0 (dec_private b n) v (on_vw h v)"
  using paints_dec [OF assms(2,1), of gd g0 v] by (simp add: dec_private_def on_vw_def cong: if_cong)

lemma paints_flags:
  "paints gd g0 (dec_private b 5) v (on_vw (\<lambda>m. m\<lparr>m_reverse_video := b\<rparr>) v)"
  "paints gd g0 (dec_private b 2004) v (on_vw (\<lambda>m. m\<lparr>m_bracketed_paste := b\<rparr>) v)"
  "paints gd g0 (dec_private b 1) v (on_vw (\<lambda>m. m\<lparr>m_cursor_keys := b\<rparr>) v)"
  "paints gd g0 (dec_private b 1004) v (on_vw (\<lambda>m. m\<lparr>m_focus_reporting := b\<rparr>) v)"
  "paints gd g0 (dec_private b 1007) v (on_vw (\<lambda>m. m\<lparr>m_alternate_scroll := b\<rparr>) v)"
  by (rule paints_mode, simp add: set_dec_mode_def, simp)+

lemma paints_mouse:
  "n \<in> {9, 1000, 1002, 1003} \<Longrightarrow> paints gd g0 (dec_private b n) v (on_vw (\<lambda>m. m\<lparr>m_mouse_mode := (if b then mouse_of n else NoMouse)\<rparr>) v)"
  by (elim insertE emptyE; hypsubst; (rule paints_mode, simp add: set_dec_mode_def mouse_mode_set_def mouse_of_def, simp))

lemma paints_protocol:
  "n \<in> {1005, 1006, 1016} \<Longrightarrow>
   paints gd g0 (dec_private b n) v (on_vw (\<lambda>m. m\<lparr>m_mouse_protocol := (if b then protocol_of n else NormalProtocol)\<rparr>) v)"
  by (elim insertE emptyE; hypsubst; (rule paints_mode, simp add: set_dec_mode_def mouse_protocol_set_def protocol_of_def, simp))

lemma paints_keypads:
  "paints gd g0 [0x1B, 61] v (on_vw (\<lambda>m. m\<lparr>m_keypad_app := True\<rparr>) v)" "paints gd g0 [0x1B, 62] v (on_vw (\<lambda>m. m\<lparr>m_keypad_app := False\<rparr>) v)"
  unfolding on_vw_def by (rule paints_keypad)+

lemma paints_sync:
  assumes "paints gd g0 on v (on_vw (put True) v)" "paints gd g0 off v (on_vw (put False) v)" "init \<Longrightarrow> put was (vw_modes v) = vw_modes v"
  shows "paints gd g0 (sync_flag init now was on off) v (on_vw (put now) v)"
proof (cases "\<not> init \<or> now \<noteq> was")
  case True
  then show ?thesis using assms(1,2) by (auto simp: sync_flag_def)
next
  case False
  then have "on_vw (put now) v = v" using assms(3) by (auto intro: on_vw_same)
  then show ?thesis using False by (simp add: sync_flag_def paints_Nil)
qed


definition mouse_codes :: "Snapshot \<Rightarrow> bool" where
  "mouse_codes f \<longleftrightarrow> sn_mouse_mode f \<in> {0, 9, 1000, 1002, 1003} \<and> sn_mouse_encoding f \<in> {0, 1005, 1006, 1016}"

text \<open>What a frame keeps in step, the cursor's visibility apart.\<close>

definition modes_agree :: "Snapshot \<Rightarrow> Modes \<Rightarrow> bool" where
  "modes_agree f m \<longleftrightarrow> m_bracketed_paste m = sn_bracketed_paste f \<and> m_cursor_keys m = sn_app_cursor_keys f
     \<and> m_keypad_app m = sn_app_keypad f \<and> mouse_number (m_mouse_mode m) = sn_mouse_mode f
     \<and> m_focus_reporting m = sn_focus_reporting f \<and> m_alternate_scroll m = sn_alternate_scroll f
     \<and> protocol_number (m_mouse_protocol m) = sn_mouse_encoding f"

definition agreed :: "Snapshot \<Rightarrow> Modes \<Rightarrow> Modes" where
  "agreed f m = m\<lparr>m_bracketed_paste := sn_bracketed_paste f, m_cursor_keys := sn_app_cursor_keys f, m_keypad_app := sn_app_keypad f,
     m_mouse_mode := mouse_of (sn_mouse_mode f), m_focus_reporting := sn_focus_reporting f,
     m_alternate_scroll := sn_alternate_scroll f, m_mouse_protocol := protocol_of (sn_mouse_encoding f)\<rparr>"

lemma agreed_agree: "mouse_codes f \<Longrightarrow> modes_agree f (agreed f m)"
  by (auto simp: modes_agree_def agreed_def mouse_codes_def mouse_number_def mouse_of_def mouse_decset_def
      protocol_number_def protocol_of_def protocol_decset_def)

lemma agreed_fields [simp]:
  "m_autowrap (agreed f m) = m_autowrap m" "m_insert (agreed f m) = m_insert m" "m_origin (agreed f m) = m_origin m"
  "m_lnm (agreed f m) = m_lnm m" "m_cursor_visible (agreed f m) = m_cursor_visible m"
  "m_reverse_video (agreed f m) = m_reverse_video m"
  by (simp_all add: agreed_def)

lemma on_vw_on_vw: "on_vw h (on_vw k v) = on_vw (\<lambda>m. h (k m)) v"
  by (simp add: on_vw_def)

lemma paints_mouse_sync:
  assumes "mouse_codes f" "init \<Longrightarrow> mouse_number (m_mouse_mode (vw_modes v)) = sn_mouse_mode prev"
  shows "paints gd g0 (mouse_mode_sync init prev f False) v (on_vw (\<lambda>m. m\<lparr>m_mouse_mode := mouse_of (sn_mouse_mode f)\<rparr>) v)"
proof -
  let ?h = "\<lambda>x m. m\<lparr>m_mouse_mode := x\<rparr>"
  have twice: "on_vw (?h x) (on_vw (?h y) u) = on_vw (?h x) u" for x y u by (simp add: on_vw_on_vw)
  have off: "paints gd g0 (dec_private False n) u (on_vw (?h NoMouse) u)" if "n \<in> {9, 1000, 1002, 1003}" for n u
    using paints_mouse [OF that, of gd g0 False] by simp
  consider (same) "init" "sn_mouse_mode f = sn_mouse_mode prev" | (none) "\<not> init \<or> sn_mouse_mode f \<noteq> sn_mouse_mode prev" "sn_mouse_mode f = 0"
    | (on) "\<not> init \<or> sn_mouse_mode f \<noteq> sn_mouse_mode prev" "sn_mouse_mode f \<noteq> 0" by blast
  then show ?thesis
  proof cases
    case same
    then have "mouse_of (sn_mouse_mode f) = m_mouse_mode (vw_modes v)" using assms(2) mouse_numbers(1) by metis
    then show ?thesis using same by (simp add: mouse_mode_sync_def on_vw_same paints_Nil)
  next
    case none
    have "paints gd g0 (dec_private False 1003 @ dec_private False 1002 @ dec_private False 1000 @ dec_private False 9) v (on_vw (?h NoMouse) v)"
      using off [of 1003 v] off [of 1002 "on_vw (?h NoMouse) v"] off [of 1000 "on_vw (?h NoMouse) v"] off [of 9 "on_vw (?h NoMouse) v"]
      by (intro paints_append) (simp_all only: twice, simp_all)
    moreover have "mouse_of (sn_mouse_mode f) = NoMouse" using none(2) by (simp add: mouse_of_def)
    ultimately show ?thesis using none by (simp add: mouse_mode_sync_def)
  next
    case on
    let ?pre = "if init \<and> sn_mouse_mode prev \<noteq> 0 then dec_private False (sn_mouse_mode prev) else []"
    have f: "sn_mouse_mode f \<in> {9, 1000, 1002, 1003}" using assms(1) on(2) by (auto simp: mouse_codes_def)
    have "\<exists>x. paints gd g0 ?pre v (on_vw (?h x) v)"
    proof (cases "init \<and> sn_mouse_mode prev \<noteq> 0")
      case True
      then have "sn_mouse_mode prev \<in> {9, 1000, 1002, 1003}" using assms(2) mouse_numbers(2) by (metis insert_iff)
      then show ?thesis using off True by auto
    next
      case False
      have same: "on_vw (?h (m_mouse_mode (vw_modes v))) v = v" by (rule on_vw_same) simp
      have "paints gd g0 [] v (on_vw (?h (m_mouse_mode (vw_modes v))) v)" unfolding same by (rule paints_Nil)
      then show ?thesis unfolding if_not_P [OF False] by blast
    qed
    then obtain x where "paints gd g0 ?pre v (on_vw (?h x) v)" ..
    from paints_append [OF this paints_mouse [OF f, of gd g0 True]]
    have "paints gd g0 (?pre @ dec_private True (sn_mouse_mode f)) v (on_vw (?h (mouse_of (sn_mouse_mode f))) v)" by (simp only: if_True twice)
    then show ?thesis using on by (simp add: mouse_mode_sync_def)
  qed
qed

lemma paints_protocol_sync:
  assumes "mouse_codes f" "init \<Longrightarrow> protocol_number (m_mouse_protocol (vw_modes v)) = sn_mouse_encoding prev"
  shows "paints gd g0 (mouse_encoding_sync init prev f False) v (on_vw (\<lambda>m. m\<lparr>m_mouse_protocol := protocol_of (sn_mouse_encoding f)\<rparr>) v)"
proof -
  let ?h = "\<lambda>x m. m\<lparr>m_mouse_protocol := x\<rparr>"
  have twice: "on_vw (?h x) (on_vw (?h y) u) = on_vw (?h x) u" for x y u by (simp add: on_vw_on_vw)
  have off: "paints gd g0 (dec_private False n) u (on_vw (?h NormalProtocol) u)" if "n \<in> {1005, 1006, 1016}" for n u
    using paints_protocol [OF that, of gd g0 False] by simp
  consider (same) "init" "sn_mouse_encoding f = sn_mouse_encoding prev"
    | (none) "\<not> init \<or> sn_mouse_encoding f \<noteq> sn_mouse_encoding prev" "sn_mouse_encoding f = 0"
    | (on) "\<not> init \<or> sn_mouse_encoding f \<noteq> sn_mouse_encoding prev" "sn_mouse_encoding f \<noteq> 0" by blast
  then show ?thesis
  proof cases
    case same
    then have "protocol_of (sn_mouse_encoding f) = m_mouse_protocol (vw_modes v)" using assms(2) protocol_numbers(1) by metis
    then show ?thesis using same by (simp add: mouse_encoding_sync_def on_vw_same paints_Nil)
  next
    case none
    have "paints gd g0 (dec_private False 1016 @ dec_private False 1006 @ dec_private False 1005) v (on_vw (?h NormalProtocol) v)"
      using off [of 1016 v] off [of 1006 "on_vw (?h NormalProtocol) v"] off [of 1005 "on_vw (?h NormalProtocol) v"]
      by (intro paints_append) (simp_all only: twice, simp_all)
    moreover have "protocol_of (sn_mouse_encoding f) = NormalProtocol" using none(2) by (simp add: protocol_of_def)
    ultimately show ?thesis using none by (simp add: mouse_encoding_sync_def)
  next
    case on
    let ?pre = "if init \<and> sn_mouse_encoding prev \<noteq> 0 then dec_private False (sn_mouse_encoding prev) else []"
    have f: "sn_mouse_encoding f \<in> {1005, 1006, 1016}" using assms(1) on(2) by (auto simp: mouse_codes_def)
    have "\<exists>x. paints gd g0 ?pre v (on_vw (?h x) v)"
    proof (cases "init \<and> sn_mouse_encoding prev \<noteq> 0")
      case True
      then have "sn_mouse_encoding prev \<in> {1005, 1006, 1016}" using assms(2) protocol_numbers(2) by (metis insert_iff)
      then show ?thesis using off True by auto
    next
      case False
      have same: "on_vw (?h (m_mouse_protocol (vw_modes v))) v = v" by (rule on_vw_same) simp
      have "paints gd g0 [] v (on_vw (?h (m_mouse_protocol (vw_modes v))) v)" unfolding same by (rule paints_Nil)
      then show ?thesis unfolding if_not_P [OF False] by blast
    qed
    then obtain x where "paints gd g0 ?pre v (on_vw (?h x) v)" ..
    from paints_append [OF this paints_protocol [OF f, of gd g0 True]]
    have "paints gd g0 (?pre @ dec_private True (sn_mouse_encoding f)) v (on_vw (?h (protocol_of (sn_mouse_encoding f))) v)" by (simp only: if_True twice)
    then show ?thesis using on by (simp add: mouse_encoding_sync_def)
  qed
qed

lemma paints_mode_sync:
  assumes "mouse_codes f" "init \<Longrightarrow> modes_agree prev (vw_modes v)"
  shows "paints gd g0 (mode_sync init prev f False) v (on_vw (agreed f) v)"
proof -
  have a: "init \<Longrightarrow> m_bracketed_paste (vw_modes v) = sn_bracketed_paste prev" "init \<Longrightarrow> m_cursor_keys (vw_modes v) = sn_app_cursor_keys prev"
    "init \<Longrightarrow> m_keypad_app (vw_modes v) = sn_app_keypad prev" "init \<Longrightarrow> mouse_number (m_mouse_mode (vw_modes v)) = sn_mouse_mode prev"
    "init \<Longrightarrow> m_focus_reporting (vw_modes v) = sn_focus_reporting prev" "init \<Longrightarrow> m_alternate_scroll (vw_modes v) = sn_alternate_scroll prev"
    "init \<Longrightarrow> protocol_number (m_mouse_protocol (vw_modes v)) = sn_mouse_encoding prev"
    using assms(2) by (simp_all add: modes_agree_def)
  let ?v1 = "on_vw (\<lambda>m. m\<lparr>m_bracketed_paste := sn_bracketed_paste f\<rparr>) v"
  let ?v2 = "on_vw (\<lambda>m. m\<lparr>m_cursor_keys := sn_app_cursor_keys f\<rparr>) ?v1"
  let ?v3 = "on_vw (\<lambda>m. m\<lparr>m_keypad_app := sn_app_keypad f\<rparr>) ?v2"
  let ?v4 = "on_vw (\<lambda>m. m\<lparr>m_mouse_mode := mouse_of (sn_mouse_mode f)\<rparr>) ?v3"
  let ?v5 = "on_vw (\<lambda>m. m\<lparr>m_focus_reporting := sn_focus_reporting f\<rparr>) ?v4"
  let ?v6 = "on_vw (\<lambda>m. m\<lparr>m_alternate_scroll := sn_alternate_scroll f\<rparr>) ?v5"
  let ?v7 = "on_vw (\<lambda>m. m\<lparr>m_mouse_protocol := protocol_of (sn_mouse_encoding f)\<rparr>) ?v6"
  have "paints gd g0 (mode_sync init prev f False) v ?v7"
    unfolding mode_sync_def
  proof (intro paints_append)
    show "paints gd g0 (sync_flag init (sn_bracketed_paste f) (sn_bracketed_paste prev) (dec_private True 2004) (dec_private False 2004)) v ?v1"
      using a(1) by (intro paints_sync paints_flags) (simp add: a(1) [symmetric])
    show "paints gd g0 (sync_flag init (sn_app_cursor_keys f) (sn_app_cursor_keys prev) (dec_private True 1) (dec_private False 1)) ?v1 ?v2"
      using a(2) by (intro paints_sync paints_flags) (simp add: a(2) [symmetric])
    show "paints gd g0 (sync_flag init (sn_app_keypad f) (sn_app_keypad prev) (27 # asc ''='') (27 # asc ''>'')) ?v2 ?v3"
      using a(3) paints_keypads by (intro paints_sync) (simp_all add: a(3) [symmetric])
    show "paints gd g0 (mouse_mode_sync init prev f False) ?v3 ?v4" using a(4) by (intro paints_mouse_sync assms(1)) simp
    show "paints gd g0 (sync_flag init (sn_focus_reporting f) (sn_focus_reporting prev) (dec_private True 1004) (dec_private False 1004)) ?v4 ?v5"
      using a(5) by (intro paints_sync paints_flags) (simp add: a(5) [symmetric])
    show "paints gd g0 (sync_flag init (sn_alternate_scroll f) (sn_alternate_scroll prev) (dec_private True 1007) (dec_private False 1007)) ?v5 ?v6"
      using a(6) by (intro paints_sync paints_flags) (simp add: a(6) [symmetric])
    show "paints gd g0 (mouse_encoding_sync init prev f False) ?v6 ?v7" using a(7) by (intro paints_protocol_sync assms(1)) simp
  qed
  moreover have "?v7 = on_vw (agreed f) v" by (simp add: on_vw_on_vw agreed_def)
  ultimately show ?thesis by simp
qed


section \<open>Prologue and cursor\<close>

text \<open>Strings that go through the outer parser as one sequence.\<close>

definition sendable :: "Snapshot \<Rightarrow> bool" where
  "sendable f \<longleftrightarrow> osc_text (48 # 59 # sn_title f) \<and> utf8_valid (sn_title f)
     \<and> osc_text (53 # 50 # 59 # sn_clipboard_kinds f @ 59 # encode (sn_clipboard f))
     \<and> ascii (sn_clipboard_kinds f @ 59 # encode (sn_clipboard f)) \<and> mouse_codes f"

text \<open>Not one of the last four columns of the bottom row, where a move would go by backspaces.\<close>

definition cursor_safe :: "Snapshot \<Rightarrow> bool" where
  "cursor_safe f \<longleftrightarrow> sn_cursor_row f + 1 < sn_rows f \<or> sn_cursor_col f = 0 \<or> sn_cursor_col f + 4 < sn_cols f"

definition prologue :: "bool \<Rightarrow> Snapshot \<Rightarrow> Snapshot \<Rightarrow> bytes" where
  "prologue initialized prev f = frame_title initialized prev f @ frame_bell prev f @ frame_clipboard prev f
     @ sync_flag initialized (sn_reverse_video f) (sn_reverse_video prev) (dec_private True 5) (dec_private False 5)"

definition vw_named :: "Snapshot \<Rightarrow> View \<Rightarrow> View" where
  "vw_named f v = on_vw (\<lambda>m. m\<lparr>m_reverse_video := sn_reverse_video f\<rparr>) (v\<lparr>vw_title := sn_title f\<rparr>)"

lemma prologue_paints:
  assumes "sendable f" "initialized \<Longrightarrow> vw_title v = sn_title prev" "initialized \<Longrightarrow> m_reverse_video (vw_modes v) = sn_reverse_video prev"
  shows "paints gd g0 (prologue initialized prev f) v (vw_named f v)"
  unfolding prologue_def vw_named_def
proof (intro paints_append)
  let ?w = "v\<lparr>vw_title := sn_title f\<rparr>"
  show "paints gd g0 (frame_title initialized prev f) v ?w"
  proof (cases "\<not> initialized \<or> sn_title f \<noteq> sn_title prev")
    case True
    then show ?thesis using assms(1) paints_title [of "sn_title f" gd g0 v] by (simp add: frame_title_def sendable_def)
  next
    case False
    then have "?w = v" using assms(2) by simp
    then show ?thesis using False by (simp add: frame_title_def paints_Nil)
  qed
  show "paints gd g0 (frame_bell prev f) ?w ?w" by (simp add: frame_bell_def paints_bell paints_Nil)
  show "paints gd g0 (frame_clipboard prev f) ?w ?w"
    using assms(1) paints_clipboard [of "sn_clipboard_kinds f @ 59 # encode (sn_clipboard f)" gd g0 ?w]
    by (simp add: frame_clipboard_def paints_Nil sendable_def)
  show "paints gd g0 (sync_flag initialized (sn_reverse_video f) (sn_reverse_video prev) (dec_private True 5) (dec_private False 5))
      ?w (on_vw (\<lambda>m. m\<lparr>m_reverse_video := sn_reverse_video f\<rparr>) ?w)"
    using assms(3) by (intro paints_sync paints_flags) (simp add: assms(3) [symmetric])
qed

lemma emits_start: "canvas t \<Longrightarrow> view t = v \<Longrightarrow> paints gd g0 (fr_out fr) v w \<Longrightarrow> emits gd g0 t fr w"
  by (auto simp: emits_def paints_def)

lemma named_simps [simp]:
  "vw_grid (vw_named f v) = vw_grid v" "vw_cursor (vw_named f v) = vw_cursor v" "vw_title (vw_named f v) = sn_title f"
  "vw_region (vw_named f v) = vw_region v" "vw_rows (vw_named f v) = vw_rows v" "vw_cols (vw_named f v) = vw_cols v"
  "picture (vw_named f v) = picture v" "vw_modes (vw_named f v) = (vw_modes v)\<lparr>m_reverse_video := sn_reverse_video f\<rparr>"
  "surface (vw_named f v) = surface v"
  by (simp_all add: vw_named_def surface_def drawable_def picture_def)

lemma cursor_emits:
  assumes "plain_snapshot f" "sized f v" "emits gd g0 t fr v" "settled fr v" "cursor_safe f"
  shows "emits gd g0 t (frame_cursor init f fr)
    (vw_styled style_default (vw_show (sn_cursor_visible f) (vw_at (sn_cursor_row f) (sn_cursor_col f) v)))"
proof -
  let ?y = "sn_cursor_row f" and ?x = "sn_cursor_col f"
  let ?u = "vw_at ?y ?x v" and ?w = "vw_show (sn_cursor_visible f) (vw_at ?y ?x v)"
  have tr: "tracks fr v" using assms(4) by (simp add: settled_def)
  have b: "?y < vw_rows v" "?x < vw_cols v" using assms(1,2) by (simp_all add: plain_snapshot_def wf_snapshot_def sized_def)
  define fr1 where "fr1 = (if \<not> init \<or> fr_y fr \<noteq> int ?y \<or> fr_x fr \<noteq> int ?x then append_move (int ?y) (int ?x) fr else fr)"
  have f1: "fr_style fr1 = fr_style fr" "fr_link fr1 = fr_link fr" "fr_cursor_visible fr1 = fr_cursor_visible fr"
    by (simp_all add: fr1_def append_move_def append_n_def Let_def)
  have e1: "emits gd g0 t fr1 ?u"
  proof (cases "\<not> init \<or> fr_y fr \<noteq> int ?y \<or> fr_x fr \<noteq> int ?x")
    case True
    have "reachable ?y ?x fr v"
      using assms(2,4,5) b by (auto simp: reachable_def settled_def cursor_safe_def sized_def)
    from move_emits [OF assms(3) tr this] show ?thesis using True by (simp add: fr1_def)
  next
    case False
    then have "\<not> lost fr" "\<not> edge fr v" using b by (auto simp: lost_def edge_def)
    then have "exact fr v" using tr by (simp add: tracks_def)
    then have "?u = v" using False vw_at_same by blast
    then show ?thesis using False assms(3) by (simp add: fr1_def)
  qed
  have p1: "pen fr1 ?u" using tr f1 by (simp add: tracks_def pen_def)
  define fr2 where "fr2 = (if \<not> init \<or> sn_cursor_visible f \<noteq> fr_cursor_visible fr1
    then (fr_append (dec_private (sn_cursor_visible f) 25) fr1)\<lparr>fr_cursor_visible := sn_cursor_visible f\<rparr> else fr1)"
  have f2: "fr_style fr2 = fr_style fr1" "fr_link fr2 = fr_link fr1" "fr_cursor_visible fr2 = sn_cursor_visible f" by (simp_all add: fr2_def)
  have e2: "emits gd g0 t fr2 ?w"
  proof (cases "\<not> init \<or> sn_cursor_visible f \<noteq> fr_cursor_visible fr1")
    case True
    then show ?thesis using emits_append [OF e1 paints_visible] by (simp add: fr2_def)
  next
    case False
    then have "?w = ?u" using show_same [OF p1] by simp
    then show ?thesis using False e1 by (simp add: fr2_def)
  qed
  have "pen fr2 ?w" using p1 f2 by (simp add: pen_def)
  from style_emits [OF e2 this]
  have e3: "emits gd g0 t (update_style style_default (\<not> init) fr2) (vw_styled style_default ?w)" by (simp add: style_default_def)
  have "c_hyperlink (vw_cursor (vw_styled style_default ?w)) = 0" using p1 by (simp add: pen_def)
  moreover have "frame_cursor init f fr = update_link [] (\<not> init) (update_style style_default (\<not> init) fr2)"
    unfolding frame_cursor_def Let_def fr2_def fr1_def ..
  ultimately show ?thesis using unlink_emits [OF e3] by metis
qed

section \<open>The outer terminal\<close>

definition same_picture :: "Snapshot \<Rightarrow> Snapshot \<Rightarrow> bool" where
  "same_picture s f \<longleftrightarrow> sn_rows s = sn_rows f \<and> sn_cols s = sn_cols f \<and> sn_cells s = sn_cells f
     \<and> sn_cursor_row s = sn_cursor_row f \<and> sn_cursor_col s = sn_cursor_col f \<and> sn_cursor_visible s = sn_cursor_visible f
     \<and> sn_title s = sn_title f \<and> sn_reverse_video s = sn_reverse_video f \<and> sn_bracketed_paste s = sn_bracketed_paste f
     \<and> sn_focus_reporting s = sn_focus_reporting f \<and> sn_alternate_scroll s = sn_alternate_scroll f
     \<and> sn_app_cursor_keys s = sn_app_cursor_keys f \<and> sn_app_keypad s = sn_app_keypad f
     \<and> sn_mouse_mode s = sn_mouse_mode f \<and> sn_mouse_encoding s = sn_mouse_encoding f"

text \<open>
  \<open>outer_ready\<close>: the modes and the character set a renderer counts on, no open link, no protection.
  \<open>outer_shows\<close>: between two frames, full margins and the default pen as well, and the picture.
\<close>

definition outer_ready :: "'g Terminal \<Rightarrow> bool" where
  "outer_ready t \<longleftrightarrow> canvas t \<and> m_autowrap (t_modes t) \<and> \<not> m_insert (t_modes t) \<and> \<not> m_origin (t_modes t) \<and> \<not> m_lnm (t_modes t)
     \<and> c_g0 (t_cursor t) = Ascii \<and> c_shift (t_cursor t) = 0 \<and> c_hyperlink (t_cursor t) = 0 \<and> \<not> st_protected (c_style (t_cursor t))"

definition outer_shows :: "Snapshot \<Rightarrow> 'g Terminal \<Rightarrow> bool" where
  "outer_shows f t \<longleftrightarrow> outer_ready t \<and> region t = (0, t_rows t - 1) \<and> c_style (t_cursor t) = style_default
     \<and> \<not> c_pending_wrap (t_cursor t) \<and> same_picture (from_term t) f"

definition presents :: "Snapshot \<Rightarrow> View \<Rightarrow> bool" where
  "presents f v \<longleftrightarrow> picture v = sn_cells f \<and> sized f v \<and> vw_row v = sn_cursor_row f \<and> vw_col v = sn_cursor_col f
     \<and> m_cursor_visible (vw_modes v) = sn_cursor_visible f \<and> vw_title v = sn_title f
     \<and> m_reverse_video (vw_modes v) = sn_reverse_video f \<and> modes_agree f (vw_modes v)"

lemma presents_term:
  assumes "canvas t"
  shows "same_picture (from_term t) f = presents f (view t)"
proof -
  have i: "term_inv t" using assms by (simp add: canvas_def)
  note v = inv_view [OF i]
  have s: "sc_rows (scr t) = vw_rows (view t)" "sc_cols (scr t) = vw_cols (view t)"
    using inv_scr [OF i] v by simp_all
  have "map (\<lambda>r. sc_grid (scr t) ! r) [0..<vw_rows (view t)] = sc_grid (scr t)" by (simp add: vw_rows_def map_nth)
  then have cells: "sn_cells (from_term t) = picture (view t)" by (simp add: from_term_def Let_def s picture_def del: map_map)
  have c: "c_row (t_cursor t) < vw_rows (view t)" "c_col (t_cursor t) < vw_cols (view t)" using canvas_sound [OF assms] by (simp_all add: sound_view_def)
  show ?thesis using c cells
    by (simp add: same_picture_def presents_def sized_def modes_agree_def mouse_number_def protocol_number_def)
      (auto simp: from_term_def Let_def s)
qed


text \<open>From where the rows begin to the end of the frame.\<close>

lemma frame_ends:
  assumes "plain_snapshot f" "sendable f" "cursor_safe f" "sized f v" "emits gd g0 t fr v" "tracks fr v" "exact fr v"
    and "fr_style fr = style_default" "init \<longrightarrow> shown_rows init prev f = picture v" "init \<longrightarrow> modes_agree prev (vw_modes v)"
    and "vw_title v = sn_title f" "m_reverse_video (vw_modes v) = sn_reverse_video f"
    and out: "new_frame initialized prev f False = fr_out (frame_cursor init f (frame_rows init prev f fr)) @ mode_sync init prev f False"
  shows "\<exists>t'. process gd g0 (new_frame initialized prev f False) t = Some t' \<and> outer_shows f t'"
proof -
  let ?fr = "frame_rows init prev f fr"
  obtain w where w: "emits gd g0 t ?fr w" "kept v w" "picture w = sn_cells f" "settled ?fr w"
    using rows_emit [OF assms(1,4-9)] by blast
  have size: "sized f w" using assms(4) w(2) by (simp add: sized_def kept_def)
  let ?u = "vw_styled style_default (vw_show (sn_cursor_visible f) (vw_at (sn_cursor_row f) (sn_cursor_col f) w))"
  have e: "emits gd g0 t (frame_cursor init f ?fr) ?u" by (rule cursor_emits [OF assms(1) size w(1,4) assms(3)])
  have m: "(vw_modes ?u)\<lparr>m_cursor_visible := True\<rparr> = (vw_modes v)\<lparr>m_cursor_visible := True\<rparr>"
    using w(2) by (simp add: kept_def vw_show_def vw_at_def)
  have mf: "modes_agree x (vw_modes ?u) = modes_agree x (vw_modes v)" "m_reverse_video (vw_modes ?u) = m_reverse_video (vw_modes v)" for x
    using arg_cong [OF m, of "modes_agree x"] arg_cong [OF m, of m_reverse_video] by (simp_all add: modes_agree_def)
  let ?z = "on_vw (agreed f) ?u"
  have codes: "mouse_codes f" using assms(2) by (simp add: sendable_def)
  have "paints gd g0 (mode_sync init prev f False) ?u ?z" using assms(10) mf(1) codes by (intro paints_mode_sync) simp_all
  with e obtain t' where t': "process gd g0 (new_frame initialized prev f False) t = Some t'" "canvas t'" "view t' = ?z"
    unfolding out by (force simp: emits_def paints_def process_append)
  have s: "surface w" "pen ?fr w" using w(4) by (simp_all add: settled_def tracks_def)
  have "vw_modes ?z = agreed f (vw_modes ?u)" "vw_cursor ?z = vw_cursor ?u" "vw_region ?z = vw_region w" "vw_rows ?z = vw_rows w" by simp_all
  have sd: "surface ?u" using s(1) by simp
  have pr: "presents f ?z"
    using w(2,3) size mf(2) assms(11,12) agreed_agree [OF codes] by (simp add: presents_def sized_def kept_def)
  have "outer_ready t'"
  proof -
    have "t_modes t' = agreed f (vw_modes ?u)" "t_cursor t' = vw_cursor ?u" using t'(3) by (metis view_sel(2,3) on_vw_simps(2,3))+
    then show ?thesis using t'(2) sd s(2) by (simp add: outer_ready_def surface_def drawable_def pen_def style_default_def)
  qed
  moreover have "region t' = (0, t_rows t' - 1)"
  proof -
    have "region t' = vw_region ?u" using t'(3) by (metis view_sel(5) on_vw_simps(5))
    moreover have "t_rows t' = vw_rows ?u" using t'(2,3) inv_view(1) by (metis canvas_def on_vw_simps(6))
    ultimately show ?thesis using sd by (simp add: surface_def)
  qed
  moreover have "c_style (t_cursor t') = style_default" "\<not> c_pending_wrap (t_cursor t')"
  proof -
    have "t_cursor t' = vw_cursor ?u" using t'(3) by (metis view_sel(2) on_vw_simps(2))
    then show "c_style (t_cursor t') = style_default" "\<not> c_pending_wrap (t_cursor t')" by (simp_all add: vw_styled_def vw_show_def vw_at_def)
  qed
  moreover have "same_picture (from_term t') f" using presents_term [OF t'(2)] pr t'(3) by simp
  ultimately show ?thesis using t'(1) by (auto simp: outer_shows_def)
qed

lemma frame_updates_core:
  assumes "frame_init initialized prev f" "plain_snapshot prev" "plain_snapshot f" "sendable f" "cursor_safe f" "outer_shows prev t"
  shows "\<exists>t'. process gd g0 (new_frame initialized prev f False) t = Some t' \<and> outer_shows f t'"
proof -
  have i: "initialized" "sn_rows f = sn_rows prev" "sn_cols f = sn_cols prev" using assms(1) by (simp_all add: frame_init_def)
  have t: "canvas t" "outer_ready t" "region t = (0, t_rows t - 1)" "c_style (t_cursor t) = style_default" "\<not> c_pending_wrap (t_cursor t)"
    using assms(6) unfolding outer_shows_def outer_ready_def by blast+
  have pr: "presents prev (view t)" using assms(6) presents_term [OF t(1)] by (simp add: outer_shows_def)
  let ?v = "vw_named f (view t)"
  let ?fr = "frame_begin initialized prev f"
  have out: "fr_out ?fr = prologue initialized prev f" and fr: "fr_x ?fr = int (sn_cursor_col prev)" "fr_y ?fr = int (sn_cursor_row prev)"
    "fr_style ?fr = style_default" "fr_link ?fr = []" "fr_cursor_visible ?fr = sn_cursor_visible prev"
    using assms(1) by (simp_all add: frame_begin_def prologue_def)
  have e: "emits gd g0 t ?fr ?v"
    using pr by (intro emits_start [OF t(1) refl]) (unfold out, intro prologue_paints assms(4), simp_all add: presents_def)
  have rows: "t_rows t = vw_rows (view t)" using inv_view(1) t(1) by (metis canvas_def)
  have wd: "\<forall>r \<in> set (vw_grid (view t)). \<forall>c \<in> set (cells r). width c = 1"
  proof -
    have "picture (view t) = sn_cells prev" using pr by (simp add: presents_def)
    then have "\<forall>r \<in> set (map cells (vw_grid (view t))). \<forall>c \<in> set r. plain_cell c"
      using assms(2) unfolding picture_def plain_snapshot_def by simp
    then show ?thesis by (simp add: plain_cell_def)
  qed
  have "surface (view t)" using t rows wd pr assms(2)
    by (simp add: surface_def drawable_def outer_ready_def presents_def sized_def plain_snapshot_def)
  then have s: "surface ?v" by simp
  have "pen ?fr ?v" using t pr by (simp add: pen_def fr outer_ready_def presents_def)
  moreover have x: "exact ?fr ?v" using pr t(5) by (simp add: exact_def fr presents_def)
  ultimately have tr: "tracks ?fr ?v" using s by (simp add: tracks_def)
  have old: "shown_rows True prev f = picture ?v"
  proof -
    note p = plain_snapshotD [OF assms(2)]
    have "map (\<lambda>y. case get_at (sn_cells prev) y of None \<Rightarrow> replicate (sn_cols f) blank_cell | Some r \<Rightarrow> r) [0..<sn_rows f] = sn_cells prev"
      by (rule nth_equalityI) (simp_all add: get_at_def p(4) i(2))
    then show ?thesis using pr by (simp add: shown_rows_def presents_def)
  qed
  have "sized f ?v" using pr i by (simp add: sized_def presents_def)
  then show ?thesis
    using frame_ends [OF assms(3-5) _ e tr x fr(3), of True prev initialized] old pr assms(1)
    by (simp add: new_frame_def Let_def presents_def modes_agree_def)
qed

text \<open>A cleared screen.\<close>

lemma frame_repaints_core:
  assumes "\<not> frame_init initialized prev f" "plain_snapshot f" "sendable f" "cursor_safe f" "outer_ready t" "sized f (view t)"
    and "initialized \<Longrightarrow> t_title t = sn_title prev \<and> m_reverse_video (t_modes t) = sn_reverse_video prev"
  shows "\<exists>t'. process gd g0 (new_frame initialized prev f False) t = Some t' \<and> outer_shows f t'"
proof -
  have c: "canvas t" using assms(5) by (simp add: outer_ready_def)
  let ?n = "vw_named f (view t)"
  let ?a = "vw_full_region ?n"
  let ?b = "vw_pen style_default ?a"
  let ?c = "vw_at 0 0 ?b"
  let ?d = "vw_clear ?c"
  let ?z = "vw_show False ?d"
  let ?fr = "frame_begin initialized prev f"
  have out: "fr_out ?fr = prologue initialized prev f @ [0x1B, 91, 114] @ [0x1B, 91, 48, 109] @ [0x1B, 91, 72] @ [0x1B, 91, 50, 74] @ dec_private False 25"
    and fr: "fr_x ?fr = 0" "fr_y ?fr = 0" "fr_style ?fr = style_default" "fr_link ?fr = []" "\<not> fr_cursor_visible ?fr"
    using assms(1) by (simp_all add: frame_begin_def prologue_def) (simp add: fr_append_def)
  have o: "\<not> m_origin (vw_modes ?n)" "\<not> m_origin (vw_modes ?b)"
    using assms(5) by (simp_all add: outer_ready_def vw_pen_def vw_full_region_def vw_at_def)
  have "paints gd g0 (fr_out ?fr) (view t) ?z"
    unfolding out
  proof (intro paints_append)
    show "paints gd g0 (prologue initialized prev f) (view t) ?n" using assms(7) by (intro prologue_paints assms(3)) simp_all
    show "paints gd g0 [0x1B, 91, 114] ?n ?a" by (rule paints_full_region [OF o(1)])
    show "paints gd g0 [0x1B, 91, 48, 109] ?a ?b" by (rule paints_sgr0)
    show "paints gd g0 [0x1B, 91, 72] ?b ?c" by (rule paints_home [OF o(2)])
    show "paints gd g0 [0x1B, 91, 50, 74] ?c ?d" by (rule paints_ed2)
    show "paints gd g0 (dec_private False 25) ?d ?z" by (rule paints_visible)
  qed
  then have e: "emits gd g0 t ?fr ?z" by (rule emits_start [OF c refl])
  have sv: "sound_view (view t)" by (rule canvas_sound [OF c])
  then have rp: "0 < vw_rows (view t)" by (auto simp: sound_view_def)
  have dims3: "vw_rows ?c = vw_rows (view t)" "vw_cols ?c = vw_cols (view t)"
    by (simp_all add: vw_pen_def vw_full_region_def)
  have g: "vw_grid ?z = replicate (sn_rows f) (row_blank (sn_cols f) (vw_blank ?c))"
    using assms(6) dims3 by (simp add: vw_clear_def sized_def)
  have rows: "vw_rows ?z = sn_rows f" using g by (simp add: vw_rows_def)
  have cols: "vw_cols ?z = sn_cols f" using g plain_snapshotD(2) [OF assms(2)] unfolding vw_cols_def g by (simp add: row_blank_def)
  have cur: "vw_row ?z = 0" "vw_col ?z = 0" "\<not> vw_pending ?z" "vw_style ?z = style_default" "c_hyperlink (vw_cursor ?z) = 0"
    "c_g0 (vw_cursor ?z) = Ascii" "c_shift (vw_cursor ?z) = 0"
    using assms(5) by (simp_all add: vw_clear_def vw_pen_def vw_at_def vw_full_region_def outer_ready_def style_default_def)
  have modes: "vw_modes ?z = (vw_modes ?n)\<lparr>m_cursor_visible := False\<rparr>"
    by (simp add: vw_show_def vw_clear_def vw_pen_def vw_at_def vw_full_region_def)
  have reg: "vw_region ?z = (0, sn_rows f - 1)"
  proof (cases "1 < vw_rows (view t)")
    case True
    then show ?thesis using assms(6) by (simp add: vw_clear_def vw_pen_def vw_at_def vw_full_region_def sized_def)
  next
    case False
    then have "vw_region (view t) = (0, 0)" "sn_rows f = 1" using sv rp assms(6) by (auto simp: sound_view_def sized_def prod_eq_iff)
    then show ?thesis using False by (simp add: vw_clear_def vw_pen_def vw_at_def vw_full_region_def)
  qed
  have "drawable ?z" using assms(5) cur(6,7) modes g
    by (simp add: drawable_def outer_ready_def row_blank_def cell_blank_def)
  then have s: "surface ?z" using reg rows cols assms(2) by (simp add: surface_def plain_snapshot_def)
  have x: "exact ?fr ?z" using cur(1-3) by (simp add: exact_def fr)
  have "pen ?fr ?z" using cur(4,5) modes by (simp add: pen_def fr style_default_def)
  then have tr: "tracks ?fr ?z" using s x by (simp add: tracks_def)
  have "vw_title ?z = sn_title f" by (simp add: vw_show_def vw_clear_def vw_pen_def vw_at_def vw_full_region_def)
  then show ?thesis
    using frame_ends [OF assms(2-4) _ e tr x fr(3), of False prev initialized] rows cols modes assms(1)
    by (simp add: new_frame_def Let_def sized_def)
qed

end
