(* ===== verification/Redraw_Limits.thy ===== *)
theory Redraw_Limits
  imports Redraw_Outer
begin

text \<open>
  The renderer run frame after frame from a fresh outer terminal, and two places where what it writes
  misses the snapshot: the cursor in the bottom right corner, and the mouse encoding behind a wheel grab.
\<close>

section \<open>Frame after frame\<close>

lemma view_fresh:
  "view (with_scrollback g rows cols m) = \<lparr>vw_grid = replicate (max rows 1) (row_blank (max cols 1) style_default),
     vw_cursor = cursor_default, vw_modes = modes_default, vw_title = [], vw_region = (0, max rows 1 - 1)\<rparr>"
  by (auto simp: view_def with_scrollback_def scr_def screen_new_def region_def t_rows_def Let_def)

lemma outer_fresh:
  shows "outer_ready (with_scrollback g rows cols m)" "max rows 1 = sn_rows f \<Longrightarrow> max cols 1 = sn_cols f \<Longrightarrow> sized f (view (with_scrollback g rows cols m))"
proof -
  have "at_rest (t_parser (with_scrollback g rows cols m))" by (simp add: with_scrollback_def parser_new_def at_rest_def Let_def)
  then have "canvas (with_scrollback g rows cols m)" by (simp add: canvas_def inv_with_scrollback)
  then show "outer_ready (with_scrollback g rows cols m)"
    by (simp add: outer_ready_def) (simp add: with_scrollback_def modes_default_def cursor_default_def style_default_def Let_def)
  show "max rows 1 = sn_rows f \<Longrightarrow> max cols 1 = sn_cols f \<Longrightarrow> sized f (view (with_scrollback g rows cols m))"
    by (simp add: view_fresh sized_def vw_rows_def vw_cols_def row_blank_def)
qed

lemma fresh_shows_blank: "outer_shows (snapshot_blank rows cols) (with_scrollback g rows cols m)"
proof -
  let ?t = "with_scrollback g rows cols m"
  have r: "outer_ready ?t" by (rule outer_fresh)
  have "presents (snapshot_blank rows cols) (view ?t)"
    by (simp add: presents_def picture_def sized_def vw_rows_def vw_cols_def view_fresh modes_agree_def snapshot_blank_def
        modes_default_def cursor_default_def row_blank_def blank_cell_def mouse_number_def mouse_decset_def protocol_number_def
        protocol_decset_def map_replicate_const Let_def)
  then have "same_picture (from_term ?t) (snapshot_blank rows cols)" using presents_term r by (auto simp: outer_ready_def)
  moreover have "region ?t = (0, t_rows ?t - 1)" "c_style (t_cursor ?t) = style_default" "\<not> c_pending_wrap (t_cursor ?t)"
    by (auto simp: with_scrollback_def region_def t_rows_def screen_new_def cursor_default_def Let_def)
  ultimately show ?thesis using r by (simp add: outer_shows_def)
qed

text \<open>A new cell of text, in the default style.\<close>

definition letter :: "nat \<Rightarrow> Cell" where
  "letter c = (cell_blank style_default)\<lparr>ch := c\<rparr>"

definition renderable :: "Snapshot \<Rightarrow> bool" where
  "renderable f \<longleftrightarrow> plain_snapshot f \<and> sendable f \<and> cursor_safe f"

text \<open>What the client loop writes while the snapshots follow each other.\<close>

fun frames_from :: "Snapshot \<Rightarrow> Snapshot list \<Rightarrow> bytes" where
  "frames_from prev [] = []"
| "frames_from prev (f # fs) = new_frame True prev f False @ frames_from f fs"

lemma frames_from_shows:
  assumes "renderable prev" "outer_shows prev t" "\<forall>f \<in> set fs. renderable f \<and> sn_rows f = sn_rows prev \<and> sn_cols f = sn_cols prev"
  shows "\<exists>t'. process gd g0 (frames_from prev fs) t = Some t' \<and> outer_shows (last (prev # fs)) t'"
  using assms
proof (induction fs arbitrary: prev t)
  case Nil
  have "process gd g0 [] t = Some t" using paints_Nil [of gd g0 "view t"] by (simp add: process_def)
  then show ?case using Nil by simp
next
  case (Cons f fs)
  have i: "frame_init True prev f" using Cons.prems(3) by (simp add: frame_init_def)
  obtain u where u: "process gd g0 (new_frame True prev f False) t = Some u" "outer_shows f u"
    using frame_updates_core [OF i] Cons.prems unfolding renderable_def by (meson list.set_intros(1))
  have "\<forall>h \<in> set fs. renderable h \<and> sn_rows h = sn_rows f \<and> sn_cols h = sn_cols f" "renderable f" using Cons.prems(3) by simp_all
  then obtain t' where t': "process gd g0 (frames_from f fs) u = Some t'" "outer_shows (last (f # fs)) t'"
    using Cons.IH [OF _ u(2)] by blast
  have "process gd g0 (frames_from prev (f # fs)) t = Some t'" using u(1) t'(1) by (simp only: frames_from.simps process_append Option.bind.simps)
  moreover have "last (prev # f # fs) = last (f # fs)" by simp
  ultimately show ?case using t'(2) by metis
qed

lemma repaint_then_follow:
  assumes "outer_ready t" "sized f (view t)" "renderable f"
    and "\<forall>h \<in> set fs. renderable h \<and> sn_rows h = sn_rows f \<and> sn_cols h = sn_cols f"
  shows "\<exists>t'. process gd g0 (new_frame False prev f False @ frames_from f fs) t = Some t' \<and> outer_shows (last (f # fs)) t'"
proof -
  have r: "plain_snapshot f" "sendable f" "cursor_safe f" using assms(3) by (simp_all add: renderable_def)
  obtain u where u: "process gd g0 (new_frame False prev f False) t = Some u" "outer_shows f u"
    using frame_repaints_core [OF _ r assms(1,2), of False prev gd g0] by (auto simp: frame_init_def)
  show ?thesis using frames_from_shows [OF assms(3) u(2) assms(4), of gd g0] u(1) by (simp add: process_append)
qed

lemma outer_ready_canvas: "outer_ready t \<Longrightarrow> canvas t"
  by (simp add: outer_ready_def)

lemma blank_renderable: "renderable (snapshot_blank 2 4)"
proof -
  have "plain_snapshot (snapshot_blank 2 4)"
    using plain_space [of style_default] wf_snapshot_blank [of 2 4] unfolding plain_snapshot_def
    by (simp add: snapshot_blank_def blank_cell_def style_default_def)
  moreover have "encode [] = []" by code_simp
  then have "sendable (snapshot_blank 2 4)"
    by (simp add: sendable_def snapshot_blank_def osc_text_def MAX_OSC_def utf8_valid.simps ascii_def mouse_codes_def)
  moreover have "cursor_safe (snapshot_blank 2 4)" by (simp add: cursor_safe_def snapshot_blank_def)
  ultimately show ?thesis by (simp add: renderable_def)
qed

definition two_letters :: Snapshot where
  "two_letters = (snapshot_blank 2 4)\<lparr>sn_cells := [[letter 104, letter 105, blank_cell, blank_cell], replicate 4 blank_cell], sn_cursor_col := 2\<rparr>"

lemma letter_plain: "0x20 \<le> c \<Longrightarrow> c < 0x7F \<Longrightarrow> plain_cell (letter c) \<and> cell_style (letter c) = style_default \<and> utf8_encode (ch (letter c)) = [of_nat c]"
  by (simp add: plain_cell_def letter_def cell_blank_def scalar_def wcwidth_ascii utf8_encode_def as_u8_def style_default_def)

lemma two_letters_renderable: "renderable two_letters"
proof -
  have "plain_snapshot two_letters"
    using blank_renderable letter_plain [of 104] letter_plain [of 105]
    by (simp add: renderable_def plain_snapshot_def wf_snapshot_def two_letters_def snapshot_blank_def)
  moreover have "sendable two_letters" using blank_renderable by (simp add: renderable_def sendable_def mouse_codes_def two_letters_def)
  moreover have "cursor_safe two_letters" by (simp add: cursor_safe_def two_letters_def snapshot_blank_def)
  ultimately show ?thesis by (simp add: renderable_def)
qed

section \<open>The bottom right corner\<close>

definition corner :: Snapshot where
  "corner = (snapshot_blank 2 4)\<lparr>sn_cells := [replicate 4 blank_cell, map letter [97, 98, 99, 100]], sn_cursor_row := 1, sn_cursor_col := 3\<rparr>"

lemma corner_frame:
  "new_frame True (snapshot_blank 2 4) corner False = [27, 91, 63, 50, 53, 108, 10, 97, 98, 99, 100, 8, 27, 91, 63, 50, 53, 104]"
  by code_simp


definition corner_row :: "Cell list" where
  "corner_row = map letter [97, 98, 99, 100]"

lemma letters_emit:
  assumes "emits gd g0 t fr v" "tracks fr v" "exact fr v" "fr_style fr = style_default" "\<forall>c \<in> set cs. 0x20 \<le> c \<and> c < 0x7F"
    and "vw_col v + length cs \<le> vw_cols v" "cs \<noteq> []"
  defines "fr' \<equiv> (fr_append (map of_nat cs) fr)\<lparr>fr_x := fr_x fr + int (length cs)\<rparr>"
  shows "\<exists>w. emits gd g0 t fr' w \<and> tracks fr' w \<and> beyond (vw_row v) (vw_col v + length cs) fr' w \<and> kept v w"
  using assms(5-7) unfolding fr'_def
proof (induction cs rule: rev_induct)
  case (snoc c cs)
  let ?fr = "(fr_append (map of_nat cs) fr)\<lparr>fr_x := fr_x fr + int (length cs)\<rparr>"
  have c: "plain_cell (letter c)" "cell_style (letter c) = style_default" "utf8_encode (ch (letter c)) = [of_nat c]"
    using letter_plain [of c] snoc.prems(1) by simp_all
  obtain w where w: "emits gd g0 t ?fr w" "tracks ?fr w" "exact ?fr w" "vw_row w = vw_row v" "vw_col w = vw_col v + length cs" "kept v w"
  proof (cases "cs = []")
    case True
    then have "?fr = fr" by simp
    then show ?thesis using that [of v] assms(1-3) True by simp
  next
    case False
    then obtain w where w: "emits gd g0 t ?fr w" "tracks ?fr w" "beyond (vw_row v) (vw_col v + length cs) ?fr w" "kept v w"
      using snoc by auto
    have "vw_col v + length cs < vw_cols w" using w(4) snoc.prems(2) by (simp add: kept_def)
    then have "exact ?fr w" "vw_row w = vw_row v" using w(3) unfolding beyond_def by metis+
    moreover have "vw_col w = vw_col v + length cs" using calculation(1) assms(3) by (simp add: exact_def)
    ultimately show ?thesis using that w by blast
  qed
  have st: "cell_style (letter c) = fr_style ?fr" using c(2) assms(4) by simp
  have f: "(fr_append [of_nat c] ?fr)\<lparr>fr_x := fr_x ?fr + 1\<rparr> = (fr_append (map of_nat (cs @ [c])) fr)\<lparr>fr_x := fr_x fr + int (length (cs @ [c]))\<rparr>"
    by (simp add: fr_append_def)
  have x: "vw_col v + length cs + 1 = vw_col v + length (cs @ [c])" by simp
  obtain u where "emits gd g0 t ((fr_append [of_nat c] ?fr)\<lparr>fr_x := fr_x ?fr + 1\<rparr>) u" "tracks ((fr_append [of_nat c] ?fr)\<lparr>fr_x := fr_x ?fr + 1\<rparr>) u"
    "beyond (vw_row v) (vw_col v + length cs + 1) ((fr_append [of_nat c] ?fr)\<lparr>fr_x := fr_x ?fr + 1\<rparr>) u" "kept w u"
    using write_emits [OF w(1-3) c(1) st c(3)] w(4,5) by auto
  then show ?case unfolding f x using kept_trans [OF w(6)] by blast
qed simp

lemma corner_misses:
  assumes "outer_shows (snapshot_blank 2 4) t"
  shows "\<exists>t'. process gd g0 (new_frame True (snapshot_blank 2 4) corner False) t = Some t' \<and> sn_cursor_row (from_term t') = 1
    \<and> sn_cursor_col (from_term t') = 2"
proof -
  have t: "canvas t" "outer_ready t" "region t = (0, t_rows t - 1)" "c_style (t_cursor t) = style_default" "\<not> c_pending_wrap (t_cursor t)"
    using assms unfolding outer_shows_def outer_ready_def by blast+
  have p: "presents (snapshot_blank 2 4) (view t)" using assms presents_term [OF t(1)] by (simp add: outer_shows_def)
  have size: "vw_rows (view t) = 2" "vw_cols (view t) = 4" "vw_row (view t) = 0" "vw_col (view t) = 0" "m_cursor_visible (t_modes t)"
    using p by (simp_all add: presents_def sized_def snapshot_blank_def)
  have rows: "t_rows t = 2" using inv_view(1) t(1) size(1) by (metis canvas_def)
  have "\<forall>r \<in> set (picture (view t)). \<forall>c \<in> set r. width c = 1"
    using p by (simp add: presents_def snapshot_blank_def blank_cell_def cell_blank_def)
  then have "\<forall>r \<in> set (vw_grid (view t)). \<forall>c \<in> set (cells r). width c = 1" by (simp add: picture_def)
  then have s: "surface (view t)" using t rows size by (simp add: surface_def drawable_def outer_ready_def)
  let ?fr = "\<lparr>fr_out = dec_private False 25 @ [0x0A], fr_x = 0, fr_y = 1, fr_style = style_default, fr_link = [], fr_cursor_visible = False\<rparr>"
  let ?v = "vw_at 1 0 (vw_show False (view t))"
  have e: "emits gd g0 t ?fr ?v"
  proof (rule emits_start [OF t(1) refl])
    have "paints gd g0 (replicate 1 0x0A) (vw_show False (view t)) (vw_at (vw_row (vw_show False (view t)) + 1) (vw_col (vw_show False (view t))) (vw_show False (view t)))"
      using s size t(5) by (intro paints_lfs) simp_all
    then show "paints gd g0 (fr_out ?fr) (view t) ?v" using paints_append [OF paints_visible] size by simp
  qed
  have "pen ?fr ?v" using t by (simp add: pen_def outer_ready_def style_default_def)
  moreover have x: "exact ?fr ?v" by (simp add: exact_def)
  ultimately have tr: "tracks ?fr ?v" using s by (simp add: tracks_def)
  let ?cs = "[97, 98, 99, 100] :: nat list" let ?fr' = "(fr_append (map of_nat ?cs) ?fr)\<lparr>fr_x := fr_x ?fr + int (length ?cs)\<rparr>"
  have le: "vw_col ?v + length ?cs \<le> vw_cols ?v" and at: "vw_row ?v = 1" "vw_col ?v + length ?cs = 4" using size by simp_all
  have st: "fr_style ?fr = style_default" "\<forall>c \<in> set ?cs. 0x20 \<le> c \<and> c < 0x7F" "?cs \<noteq> []" by simp_all
  obtain w where w: "emits gd g0 t ?fr' w" "tracks ?fr' w" "beyond 1 4 ?fr' w" "kept ?v w"
    using letters_emit [OF e tr x st(1,2) le st(3)] unfolding at by blast
  have "vw_cols w = 4" using w(4) size by (simp add: kept_def)
  then have ed: "vw_row w = 1" "vw_col w = 3" using w(3) by (auto simp: beyond_def edge_def)
  have "emits gd g0 t (fr_append (dec_private True 25) (fr_append [0x08] ?fr')) (vw_show True (vw_at 1 2 w))"
    using emits_append [OF emits_append [OF w(1) paints_bs] paints_visible] ed by simp
  moreover have "fr_out (fr_append (dec_private True 25) (fr_append [0x08] ?fr')) = new_frame True (snapshot_blank 2 4) corner False"
    unfolding corner_frame by (simp add: fr_append_def dec_private_def) code_simp
  ultimately obtain t' where t': "process gd g0 (new_frame True (snapshot_blank 2 4) corner False) t = Some t'" "canvas t'"
    "view t' = vw_show True (vw_at 1 2 w)" by (auto simp: emits_def)
  have i: "term_inv t'" using t'(2) by (simp add: canvas_def)
  have "t_cursor t' = vw_cursor (vw_show True (vw_at 1 2 w))" using t'(3) by (metis view_sel(2))
  then have "c_row (t_cursor t') = 1" "c_col (t_cursor t') = 2" by (simp_all add: vw_at_def vw_show_def)
  moreover have "sc_rows (scr t') = vw_rows (view t')" "sc_cols (scr t') = vw_cols (view t')" using inv_scr [OF i] inv_view [OF i] by simp_all
  moreover have "vw_rows (view t') = 2" "vw_cols (view t') = 4" using t'(3) w(4) size by (simp_all add: kept_def)
  ultimately show ?thesis using t'(1) by (simp add: from_term_def Let_def)
qed


section \<open>Behind a wheel grab\<close>

text \<open>
  While the application wants no mouse and the client grabs the wheel, the outer terminal reports with
  SGR encoding. An application that then asks for mouse reports in the default encoding still gets SGR.
\<close>

definition with_flags :: "Snapshot \<Rightarrow> MouseMode \<Rightarrow> MouseProtocol \<Rightarrow> Modes \<Rightarrow> Modes" where
  "with_flags f mm mp m = m\<lparr>m_bracketed_paste := sn_bracketed_paste f, m_cursor_keys := sn_app_cursor_keys f, m_keypad_app := sn_app_keypad f,
     m_mouse_mode := mm, m_mouse_protocol := mp, m_focus_reporting := sn_focus_reporting f, m_alternate_scroll := sn_alternate_scroll f\<rparr>"

lemma paints_parts:
  assumes "init \<Longrightarrow> \<exists>mm mp m. vw_modes v = with_flags prev mm mp m"
    and "\<And>u. paints gd g0 (mouse_mode_sync init prev f grab) u (on_vw hm u)" "\<And>u. paints gd g0 (mouse_encoding_sync init prev f grab) u (on_vw he u)"
    and inv: "\<And>m. m_focus_reporting (hm m) = m_focus_reporting m" "\<And>m. m_alternate_scroll (hm m) = m_alternate_scroll m"
  shows "paints gd g0 (mode_sync init prev f grab) v
    (on_vw (\<lambda>m. he ((hm (m\<lparr>m_bracketed_paste := sn_bracketed_paste f, m_cursor_keys := sn_app_cursor_keys f, m_keypad_app := sn_app_keypad f\<rparr>))
       \<lparr>m_focus_reporting := sn_focus_reporting f, m_alternate_scroll := sn_alternate_scroll f\<rparr>)) v)"
proof -
  let ?a = "on_vw (\<lambda>m. m\<lparr>m_bracketed_paste := sn_bracketed_paste f\<rparr>) v"
  let ?b = "on_vw (\<lambda>m. m\<lparr>m_cursor_keys := sn_app_cursor_keys f\<rparr>) ?a"
  let ?c = "on_vw (\<lambda>m. m\<lparr>m_keypad_app := sn_app_keypad f\<rparr>) ?b"
  let ?d = "on_vw hm ?c"
  let ?e = "on_vw (\<lambda>m. m\<lparr>m_focus_reporting := sn_focus_reporting f\<rparr>) ?d"
  let ?g = "on_vw (\<lambda>m. m\<lparr>m_alternate_scroll := sn_alternate_scroll f\<rparr>) ?e"
  have ag: "m_bracketed_paste (vw_modes v) = sn_bracketed_paste prev" "m_cursor_keys (vw_modes v) = sn_app_cursor_keys prev"
    "m_keypad_app (vw_modes v) = sn_app_keypad prev" "m_focus_reporting (vw_modes v) = sn_focus_reporting prev"
    "m_alternate_scroll (vw_modes v) = sn_alternate_scroll prev" if init
    using assms(1) [OF that] by (auto simp: with_flags_def)
  have "paints gd g0 (mode_sync init prev f grab) v (on_vw he ?g)"
    unfolding mode_sync_def
  proof (intro paints_append)
    show "paints gd g0 (sync_flag init (sn_bracketed_paste f) (sn_bracketed_paste prev) (dec_private True 2004) (dec_private False 2004)) v ?a"
      by (intro paints_sync paints_flags) (simp add: ag(1) [symmetric])
    show "paints gd g0 (sync_flag init (sn_app_cursor_keys f) (sn_app_cursor_keys prev) (dec_private True 1) (dec_private False 1)) ?a ?b"
      by (intro paints_sync paints_flags) (simp add: ag(2) [symmetric])
    show "paints gd g0 (sync_flag init (sn_app_keypad f) (sn_app_keypad prev) (27 # asc ''='') (27 # asc ''>'')) ?b ?c"
      using paints_keypads by (intro paints_sync) (simp_all add: ag(3) [symmetric])
    show "paints gd g0 (mouse_mode_sync init prev f grab) ?c ?d" by (rule assms(2))
    show "paints gd g0 (sync_flag init (sn_focus_reporting f) (sn_focus_reporting prev) (dec_private True 1004) (dec_private False 1004)) ?d ?e"
    proof (intro paints_sync paints_flags)
      assume "init"
      then have "sn_focus_reporting prev = m_focus_reporting (vw_modes ?d)" using ag(4) inv by simp
      then show "(vw_modes ?d)\<lparr>m_focus_reporting := sn_focus_reporting prev\<rparr> = vw_modes ?d" by (simp del: on_vw_simps)
    qed
    show "paints gd g0 (sync_flag init (sn_alternate_scroll f) (sn_alternate_scroll prev) (dec_private True 1007) (dec_private False 1007)) ?e ?g"
    proof (intro paints_sync paints_flags)
      assume "init"
      then have "sn_alternate_scroll prev = m_alternate_scroll (vw_modes ?e)" using ag(5) inv by simp
      then show "(vw_modes ?e)\<lparr>m_alternate_scroll := sn_alternate_scroll prev\<rparr> = vw_modes ?e" by (simp del: on_vw_simps)
    qed
    show "paints gd g0 (mouse_encoding_sync init prev f grab) ?g (on_vw he ?g)" by (rule assms(3))
  qed
  then show ?thesis by (simp add: on_vw_on_vw)
qed


lemma grab_off_then_on:
  assumes "sn_mouse_mode prev = 0" "sn_mouse_encoding prev = 0"
  shows "paints gd g0 (mouse_mode_sync False p0 prev True) u (on_vw (\<lambda>m. m\<lparr>m_mouse_mode := Normal, m_mouse_protocol := Sgr\<rparr>) u)"
    "paints gd g0 (mouse_encoding_sync False p0 prev True) u (on_vw (\<lambda>m. m) u)"
proof -
  let ?h = "\<lambda>x m. m\<lparr>m_mouse_mode := x\<rparr>"
  have twice: "on_vw (?h x) (on_vw (?h y) z) = on_vw (?h x) z" for x y z by (simp add: on_vw_on_vw)
  have off: "paints gd g0 (dec_private False n) z (on_vw (?h NoMouse) z)" if "n \<in> {9, 1000, 1002, 1003}" for n z
    using paints_mouse [OF that, of gd g0 False] by simp
  let ?off = "on_vw (?h NoMouse) u" and ?on = "on_vw (?h Normal) u"
  have a: "paints gd g0 (dec_private False 1003) u ?off" "paints gd g0 (dec_private False 1002) ?off ?off" "paints gd g0 (dec_private False 9) ?off ?off"
    using off [of 1003 u] off [of 1002 ?off] off [of 9 ?off] by (simp_all only: twice, simp_all)
  have b: "paints gd g0 (dec_private True 1000) ?off ?on"
    using paints_mouse [of 1000 gd g0 True ?off] by (simp add: mouse_of_def twice)
  have c: "paints gd g0 (dec_private True 1006) ?on (on_vw (\<lambda>m. m\<lparr>m_mouse_mode := Normal, m_mouse_protocol := Sgr\<rparr>) u)"
    using paints_protocol [of 1006 gd g0 True ?on] by (simp add: protocol_of_def on_vw_on_vw)
  show "paints gd g0 (mouse_mode_sync False p0 prev True) u (on_vw (\<lambda>m. m\<lparr>m_mouse_mode := Normal, m_mouse_protocol := Sgr\<rparr>) u)"
    using paints_append [OF a(1) paints_append [OF a(2) paints_append [OF a(3) paints_append [OF b c]]]] assms(1)
    by (simp add: mouse_mode_sync_def)
  show "paints gd g0 (mouse_encoding_sync False p0 prev True) u (on_vw (\<lambda>m. m) u)"
    using assms by (simp add: mouse_encoding_sync_def paints_Nil on_vw_def)
qed

lemma asked_after_grab:
  assumes "sn_mouse_mode prev = 0" "sn_mouse_encoding prev = 0" "sn_mouse_mode f \<in> {9, 1000, 1002, 1003}" "sn_mouse_encoding f = 0"
  shows "paints gd g0 (mouse_mode_sync True prev f grab) u (on_vw (\<lambda>m. m\<lparr>m_mouse_mode := mouse_of (sn_mouse_mode f)\<rparr>) u)"
    "paints gd g0 (mouse_encoding_sync True prev f grab) u (on_vw (\<lambda>m. m) u)"
  using paints_mouse [OF assms(3), of gd g0 True u] assms by (auto simp: mouse_mode_sync_def mouse_encoding_sync_def paints_Nil on_vw_def)

lemma grab_encoding_stays:
  assumes "canvas t" "sn_mouse_mode prev = 0" "sn_mouse_encoding prev = 0" "sn_mouse_mode f \<in> {9, 1000, 1002, 1003}" "sn_mouse_encoding f = 0"
  shows "\<exists>t'. process gd g0 (mode_sync False p0 prev True @ mode_sync True prev f grab) t = Some t'
    \<and> m_mouse_mode (t_modes t') = mouse_of (sn_mouse_mode f) \<and> m_mouse_protocol (t_modes t') = Sgr"
proof -
  let ?a = "mode_sync False p0 prev True" and ?b = "mode_sync True prev f grab"
  have "\<exists>w. paints gd g0 ?a (view t) w \<and> (\<exists>m. vw_modes w = with_flags prev Normal Sgr m)"
  proof (intro exI conjI)
    show "paints gd g0 ?a (view t) (on_vw (with_flags prev Normal Sgr) (view t))"
      using paints_parts [of False "view t" p0 gd g0 prev True, OF _ grab_off_then_on [OF assms(2,3)]]
      by (simp add: with_flags_def [abs_def])
  qed simp
  then obtain w m where w: "paints gd g0 ?a (view t) w" "vw_modes w = with_flags prev Normal Sgr m" by blast
  have "\<exists>u. paints gd g0 ?b w u \<and> m_mouse_mode (vw_modes u) = mouse_of (sn_mouse_mode f) \<and> m_mouse_protocol (vw_modes u) = Sgr"
  proof (intro exI conjI)
    show "paints gd g0 ?b w (on_vw (\<lambda>m. (m\<lparr>m_bracketed_paste := sn_bracketed_paste f, m_cursor_keys := sn_app_cursor_keys f,
        m_keypad_app := sn_app_keypad f, m_mouse_mode := mouse_of (sn_mouse_mode f)\<rparr>)
        \<lparr>m_focus_reporting := sn_focus_reporting f, m_alternate_scroll := sn_alternate_scroll f\<rparr>) w)"
      using paints_parts [of True w prev gd g0 f grab, OF _ asked_after_grab [OF assms(2-5)]] w(2) by auto
  qed (simp_all add: w(2) with_flags_def)
  then obtain u where u: "paints gd g0 ?b w u" "m_mouse_mode (vw_modes u) = mouse_of (sn_mouse_mode f)" "m_mouse_protocol (vw_modes u) = Sgr" by blast
  obtain t' where t': "process gd g0 (?a @ ?b) t = Some t'" "view t' = u"
    using paints_append [OF w(1) u(1)] assms(1) by (auto simp: paints_def)
  have "t_modes t' = vw_modes u" using t'(2) by (metis view_sel(3))
  then show ?thesis using t'(1) u by auto
qed

end
