(* ===== verification/Dump_Replay.thy ===== *)
theory Dump_Replay
  imports Redraw_Limits Dump_Screen
begin

text \<open>
  The grid a dump draws (\<open>draw_grid\<close> of \<open>dump.rs\<close>) on a fresh terminal of the same size: it comes back
  with its soft wraps, for plain cells, when the row behind a soft wrap has something to print. When
  that row is blank, the wrap is lost and what follows lands one line too high.
\<close>

section \<open>What the bytes so far have drawn\<close>

definition streams :: "'g graphics_dispatch \<Rightarrow> 'g \<Rightarrow> 'g Terminal \<Rightarrow> bytes \<Rightarrow> View \<Rightarrow> bool" where
  "streams gd g0 t bs v \<longleftrightarrow> (\<exists>t'. process gd g0 bs t = Some t' \<and> canvas t' \<and> view t' = v)"

lemma streams_append: "streams gd g0 t bs v \<Longrightarrow> paints gd g0 s v w \<Longrightarrow> streams gd g0 t (bs @ s) w"
  by (force simp: streams_def paints_def process_append)

lemma streams_sound: "streams gd g0 t bs v \<Longrightarrow> sound_view v"
  using canvas_sound by (auto simp: streams_def)

definition inks :: "EmitState \<Rightarrow> View \<Rightarrow> bool" where
  "inks st v \<longleftrightarrow> surface v \<and> vw_style v = es_style st \<and> \<not> st_protected (es_style st) \<and> es_link st = 0 \<and> c_hyperlink (vw_cursor v) = 0"

definition unfilled :: "Row list \<Rightarrow> nat \<Rightarrow> nat \<Rightarrow> nat \<Rightarrow> Row" where
  "unfilled G C k j = \<lparr>cells = take j (cells (G ! k)) @ replicate (C - j) blank_cell, wrapped = False, row_mark = None\<rparr>"

text \<open>All rows before \<open>k\<close> and the first \<open>j\<close> cells of row \<open>k\<close>.\<close>

definition dumped :: "Row list \<Rightarrow> nat \<Rightarrow> nat \<Rightarrow> nat \<Rightarrow> View \<Rightarrow> bool" where
  "dumped G C k j v \<longleftrightarrow> vw_rows v = length G \<and> vw_cols v = C
     \<and> vw_grid v = take k G @ unfilled G C k j # replicate (length G - Suc k) (row_blank C style_default)
     \<and> vw_row v = k \<and> vw_col v = min j (C - 1) \<and> vw_pending v = (j = C)"

definition plain_row :: "nat \<Rightarrow> Row \<Rightarrow> bool" where
  "plain_row C r \<longleftrightarrow> length (cells r) = C \<and> row_mark r = None \<and> (\<forall>c \<in> set (cells r). plain_cell c)"

text \<open>One cell: the pen, then the character.\<close>

lemma pen_streams:
  assumes "streams gd g0 t (es_out st) v" "inks st v" "plain_cell c"
  shows "\<exists>bs. emit_cell t0 c st = st\<lparr>es_out := es_out st @ bs @ utf8_encode (ch c), es_style := cell_style c\<rparr>
    \<and> streams gd g0 t (es_out st @ bs) (vw_styled (cell_style c) v)"
proof -
  have c: "\<not> st_protected (cell_style c)" "hyperlink c = 0" "width c = 1" "extra c = []" using assms(3) by (simp_all add: plain_cell_def)
  have "ch c \<noteq> 0" using assms(3) wcwidth_0 by (metis plain_cell_def zero_neq_one)
  then have e: "emit_cell t0 c st = emit (utf8_encode (ch c)) (emit_style (cell_style c) st)"
    using assms(2) c by (simp add: emit_cell_def emit_pen_def emit_protect_def emit_link_def cell_bytes_def inks_def) (simp add: emit_style_def emit_def)
  show ?thesis
  proof (cases "cell_style c = es_style st")
    case True
    then have "vw_styled (cell_style c) v = v" using assms(2) by (intro styled_same) (simp add: inks_def)
    then show ?thesis using True e assms(1) by (intro exI [of _ "[]"]) (simp add: emit_style_def emit_def)
  next
    case False
    have "\<not> st_protected (vw_style v)" using assms(2) by (simp add: inks_def)
    from streams_append [OF assms(1) paints_style [OF this c(1)]] False
    show ?thesis unfolding e by (intro exI [of _ "sgr_seq (cell_style c)"]) (simp add: emit_style_def emit_def sgr_seq_def)
  qed
qed

lemma unfilled_Suc:
  assumes "plain_row C (G ! k)" "j < C"
  shows "(unfilled G C k j)\<lparr>cells := (cells (unfilled G C k j))[j := cells (G ! k) ! j]\<rparr> = unfilled G C k (Suc j)"
proof -
  have l: "length (cells (G ! k)) = C" using assms(1) by (simp add: plain_row_def)
  have "replicate (C - j) blank_cell = blank_cell # replicate (C - Suc j) blank_cell" using assms(2) by (simp add: Suc_diff_Suc [symmetric])
  then show ?thesis using l assms(2) by (simp add: unfilled_def list_update_append take_Suc_conv_app_nth)
qed

lemma write_cell:
  fixes t0 :: "'h Terminal"
  assumes "streams gd g0 t (es_out st) v" "inks st v" "dumped G C k j v" "k < length G" "plain_row C (G ! k)" "j < C"
  defines "st' \<equiv> emit_cell t0 (cells (G ! k) ! j) st"
  shows "\<exists>w. streams gd g0 t (es_out st') w \<and> inks st' w \<and> dumped G C k (Suc j) w"
proof -
  let ?c = "cells (G ! k) ! j"
  note d = assms(3) [unfolded dumped_def]
  have c: "plain_cell ?c" using assms(5,6) by (simp add: plain_row_def)
  obtain bs where bs: "st' = st\<lparr>es_out := es_out st @ bs @ utf8_encode (ch ?c), es_style := cell_style ?c\<rparr>"
    "streams gd g0 t (es_out st @ bs) (vw_styled (cell_style ?c) v)" using pen_streams [OF assms(1,2) c, of t0] unfolding st'_def by blast
  let ?v = "vw_styled (cell_style ?c) v" and ?w = "vw_write (ch ?c) (vw_styled (cell_style ?c) v)"
  have s: "surface ?v" "\<not> vw_pending ?v" "vw_style ?v = cell_style ?c" "c_hyperlink (vw_cursor ?v) = 0"
    using assms(2,6) d by (simp_all add: inks_def)
  note w = write_view [OF s(1) streams_sound [OF bs(2)] s(2) c s(3,4)]
  have "paints gd g0 (utf8_encode (ch ?c)) ?v ?w" using s c by (intro paints_char) (simp_all add: surface_def plain_cell_def)
  from streams_append [OF bs(2) this] have "streams gd g0 t (es_out st') ?w" by (simp add: bs(1))
  moreover have "inks st' ?w" using w(1,5,6) c s(3) assms(2) by (simp add: inks_def bs(1) plain_cell_def)
  moreover have "dumped G C k (Suc j) ?w"
  proof -
    have t: "text_cell (vw_cursor ?v) (ch ?c) = ?c" using c s(3,4) by (simp add: text_cell_def plain_cell_def)
    have col: "vw_col v = j" using d assms(6) by simp
    have "vw_grid ?w = (vw_grid v)[k := (vw_grid v ! k)\<lparr>cells := (cells (vw_grid v ! k))[j := ?c]\<rparr>]"
      using d col t by (simp add: vw_write_def)
    also have "\<dots> = take k G @ unfilled G C k (Suc j) # replicate (length G - Suc k) (row_blank C style_default)"
      using d assms(4) unfilled_Suc [OF assms(5,6)] by (simp add: nth_append list_update_append)
    finally show ?thesis using d w(4,8-11) col assms(6) by (auto simp: dumped_def)
  qed
  ultimately show ?thesis by blast
qed


text \<open>The first cell behind a soft wrap completes the row before.\<close>

lemma wrap_cell:
  fixes t0 :: "'h Terminal"
  assumes "streams gd g0 t (es_out st) v" "inks st v" "dumped G C k C v" "Suc k < length G" "plain_row C (G ! k)" "plain_row C (G ! Suc k)"
    and "0 < C" "wrapped (G ! k)"
  defines "st' \<equiv> emit_cell t0 (cells (G ! Suc k) ! 0) st"
  shows "\<exists>w. streams gd g0 t (es_out st') w \<and> inks st' w \<and> dumped G C (Suc k) (Suc 0) w"
proof -
  let ?c = "cells (G ! Suc k) ! 0"
  note d = assms(3) [unfolded dumped_def]
  have c: "plain_cell ?c" using assms(6,7) by (simp add: plain_row_def)
  obtain bs where bs: "st' = st\<lparr>es_out := es_out st @ bs @ utf8_encode (ch ?c), es_style := cell_style ?c\<rparr>"
    "streams gd g0 t (es_out st @ bs) (vw_styled (cell_style ?c) v)" using pen_streams [OF assms(1,2) c, of t0] unfolding st'_def by blast
  let ?v = "vw_styled (cell_style ?c) v"
  let ?u = "vw_wrap ?v"
  let ?w = "vw_write (ch ?c) ?u"
  have s: "surface ?v" "vw_pending ?v" "vw_row ?v + 1 < vw_rows ?v" using assms(2,4) d by (simp_all add: inks_def)
  note u = wrap_view [OF s(1) streams_sound [OF bs(2)] s(3)]
  have uf: "\<not> vw_pending ?u" "vw_style ?u = cell_style ?c" "c_hyperlink (vw_cursor ?u) = 0" "vw_row ?u = Suc k" "vw_col ?u = 0"
    using assms(2) d by (simp_all add: vw_wrap_def inks_def)
  note w = write_view [OF u(1,2) uf(1) c uf(2,3)]
  have "vw_row ?v \<noteq> snd (vw_region ?v)" using surface_modes(4) [OF s(1)] s(3) by simp
  then have "paints gd g0 (utf8_encode (ch ?c)) ?v ?w"
    using s c by (intro paints_char_wrap) (simp_all add: surface_def plain_cell_def)
  from streams_append [OF bs(2) this] have "streams gd g0 t (es_out st') ?w" by (simp add: bs(1))
  moreover have "inks st' ?w" using w(1,5,6) c uf(2) assms(2) by (simp add: inks_def bs(1) plain_cell_def)
  moreover have "dumped G C (Suc k) (Suc 0) ?w"
  proof -
    have t: "text_cell (vw_cursor ?u) (ch ?c) = ?c" using c uf(2,3) by (simp add: text_cell_def plain_cell_def)
    have full: "(unfilled G C k C)\<lparr>wrapped := True\<rparr> = G ! k"
      using assms(5,8) by (cases "G ! k") (simp add: unfilled_def plain_row_def)
    have "vw_grid ?u = (vw_grid v)[k := (vw_grid v ! k)\<lparr>wrapped := True\<rparr>]" using d by (simp add: vw_wrap_def)
    also have "\<dots> = take k G @ G ! k # replicate (length G - Suc k) (row_blank C style_default)"
      using d assms(4) full by (simp add: nth_append list_update_append)
    also have "\<dots> = take (Suc k) G @ row_blank C style_default # replicate (length G - Suc (Suc k)) (row_blank C style_default)"
    proof -
      have "replicate (length G - Suc k) x = x # replicate (length G - Suc (Suc k)) x" for x :: Row
        using assms(4) by (simp add: Suc_diff_Suc [symmetric])
      then show ?thesis using assms(4) by (simp add: take_Suc_conv_app_nth)
    qed
    also have "row_blank C style_default = unfilled G C (Suc k) 0" by (simp add: unfilled_def row_blank_def blank_cell_def)
    finally have g: "vw_grid ?u = take (Suc k) G @ unfilled G C (Suc k) 0 # replicate (length G - Suc (Suc k)) (unfilled G C (Suc k) 0)" .
    have "vw_grid ?w = (vw_grid ?u)[Suc k := (vw_grid ?u ! Suc k)\<lparr>cells := (cells (vw_grid ?u ! Suc k))[0 := ?c]\<rparr>]"
      using uf(4,5) t by (simp add: vw_write_def)
    also have "\<dots> = take (Suc k) G @ unfilled G C (Suc k) (Suc 0) # replicate (length G - Suc (Suc k)) (unfilled G C (Suc k) 0)"
      unfolding g using assms(4) unfilled_Suc [OF assms(6,7)] by (simp add: nth_append list_update_append)
    also have "unfilled G C (Suc k) 0 = row_blank C style_default" by (simp add: unfilled_def row_blank_def blank_cell_def)
    finally show ?thesis using d w(4,8-11) uf(4,5) u(5,6) assms(7) by (auto simp: dumped_def)
  qed
  ultimately show ?thesis by blast
qed

lemma write_cells:
  fixes t0 :: "'h Terminal"
  assumes "streams gd g0 t (es_out st) v" "inks st v" "dumped G C k j v" "k < length G" "plain_row C (G ! k)" "j \<le> e" "e \<le> C"
  shows "\<exists>w. streams gd g0 t (es_out (fold (emit_cell t0) (drop j (take e (cells (G ! k)))) st)) w
    \<and> inks (fold (emit_cell t0) (drop j (take e (cells (G ! k)))) st) w \<and> dumped G C k e w"
  using assms(1-3,6)
proof (induction "e - j" arbitrary: j st v)
  case 0
  then have "j = e" by simp
  then show ?case using 0 by auto
next
  case (Suc n)
  then have j: "j < e" by simp
  let ?xs = "take e (cells (G ! k))"
  have l: "length ?xs = e" using assms(5,7) by (simp add: plain_row_def)
  then have dr: "drop j ?xs = cells (G ! k) ! j # drop (Suc j) ?xs" using j by (simp add: Cons_nth_drop_Suc [symmetric])
  obtain w where w: "streams gd g0 t (es_out (emit_cell t0 (cells (G ! k) ! j) st)) w" "inks (emit_cell t0 (cells (G ! k) ! j) st) w"
    "dumped G C k (Suc j) w" using write_cell [OF Suc.prems(1-3) assms(4,5)] j assms(7) by fastforce
  have n: "n = e - Suc j" using Suc.hyps(2) by simp
  have "Suc j \<le> e" using j by simp
  from Suc.hyps(1) [OF n w this] show ?case unfolding dr by simp
qed

text \<open>A row whose remaining cells are blank is complete; the next line begins behind CR LF.\<close>

lemma skipped_blank:
  assumes "plain_row C r" "\<not> wrapped r"
  shows "take (emit_end r) (cells r) @ replicate (C - emit_end r) blank_cell = cells r" "emit_end r \<le> C"
proof -
  have l: "length (cells r) = C" and p: "\<forall>c \<in> set (cells r). plain_cell c" using assms(1) by (simp_all add: plain_row_def)
  have e: "emit_end r = length (dropWhile is_dump_skippable (rev (cells r)))" using assms(2) by (simp add: emit_end_def)
  then show "emit_end r \<le> C" using l length_dropWhile_le [of is_dump_skippable "rev (cells r)"] by simp
  have split: "cells r = rev (dropWhile is_dump_skippable (rev (cells r))) @ rev (takeWhile is_dump_skippable (rev (cells r)))"
    by (metis rev_append rev_rev_ident takeWhile_dropWhile_id)
  let ?b = "rev (takeWhile is_dump_skippable (rev (cells r)))"
  have "\<forall>c \<in> set ?b. c = blank_cell"
  proof
    fix c assume "c \<in> set ?b"
    then have "is_dump_skippable c" "c \<in> set (cells r)" by (auto dest: set_takeWhileD)
    then show "c = blank_cell" using p plain_blank [of c] by (auto simp: is_dump_skippable_def blank_cell_def)
  qed
  then have b: "?b = replicate (length ?b) blank_cell" by (rule replicate_length_same [symmetric])
  have n: "length ?b = C - emit_end r" using arg_cong [OF split, of length] l e by simp
  have "take (emit_end r) (cells r) = rev (dropWhile is_dump_skippable (rev (cells r)))" using split e by (metis append_eq_conv_conj length_rev)
  then show "take (emit_end r) (cells r) @ replicate (C - emit_end r) blank_cell = cells r" using split b n by metis
qed

lemma row_complete:
  assumes "dumped G C k (emit_end (G ! k)) v" "k < length G" "plain_row C (G ! k)" "\<not> wrapped (G ! k)"
  shows "vw_grid v = take (Suc k) G @ replicate (length G - Suc k) (row_blank C style_default)"
proof -
  have "unfilled G C k (emit_end (G ! k)) = G ! k"
    using skipped_blank(1) [OF assms(3,4)] assms(3,4) by (cases "G ! k") (simp add: unfilled_def plain_row_def)
  then show ?thesis using assms(1,2) by (simp add: dumped_def take_Suc_conv_app_nth)
qed

lemma next_line:
  assumes "streams gd g0 t (es_out st) v" "inks st v" "dumped G C k (emit_end (G ! k)) v" "Suc k < length G" "plain_row C (G ! k)" "\<not> wrapped (G ! k)" "0 < C"
  shows "\<exists>w. streams gd g0 t (es_out (emit [0x0D, 0x0A] st)) w \<and> inks (emit [0x0D, 0x0A] st) w \<and> dumped G C (Suc k) 0 w"
proof (intro exI conjI)
  note d = assms(3) [unfolded dumped_def]
  let ?u = "vw_at k 0 v" and ?w = "vw_at (Suc k) 0 v"
  have s: "surface v" using assms(2) by (simp add: inks_def)
  have "paints gd g0 [0x0D] v ?u" using paints_cr [of gd g0 v] d by simp
  moreover have "paints gd g0 [0x0A] ?u (vw_at (vw_row ?u + 1) (vw_col ?u) ?u)"
    using surface_modes [OF s] assms(4) d by (intro paints_lf) simp_all
  moreover have "vw_at (vw_row ?u + 1) (vw_col ?u) ?u = ?w" by (simp add: vw_at_def)
  ultimately have "paints gd g0 ([0x0D] @ [0x0A]) v ?w" using paints_append by metis
  from streams_append [OF assms(1) this] show "streams gd g0 t (es_out (emit [0x0D, 0x0A] st)) ?w" by (simp add: emit_def)
  show "inks (emit [0x0D, 0x0A] st) ?w" using assms(2) by (simp add: inks_def emit_def)
  have "replicate (length G - Suc k) x = x # replicate (length G - Suc (Suc k)) x" for x :: Row
    using assms(4) by (simp add: Suc_diff_Suc [symmetric])
  moreover have "row_blank C style_default = unfilled G C (Suc k) 0" by (simp add: unfilled_def row_blank_def blank_cell_def)
  ultimately show "dumped G C (Suc k) 0 ?w"
    using d row_complete [OF assms(3) _ assms(5,6)] assms(4,7) by (simp add: dumped_def)
qed


section \<open>The whole grid\<close>

text \<open>
  \<open>replayable\<close>: full rows of plain cells without marks; the row behind a soft wrap is not blank, and the
  last row does not wrap.
\<close>

definition replayable :: "nat \<Rightarrow> Row list \<Rightarrow> bool" where
  "replayable C G \<longleftrightarrow> 0 < C \<and> (\<forall>r \<in> set G. plain_row C r)
     \<and> (\<forall>k < length G. wrapped (G ! k) \<longrightarrow> Suc k < length G \<and> 0 < emit_end (G ! Suc k))"

definition at_row :: "Row list \<Rightarrow> nat \<Rightarrow> nat \<Rightarrow> View \<Rightarrow> bool" where
  "at_row G C k v \<longleftrightarrow> (if 0 < k \<and> wrapped (G ! (k - 1)) then dumped G C (k - 1) C v else dumped G C k 0 v)"

lemma draw_one:
  fixes t0 :: "'h Terminal"
  assumes "replayable C G" "k < length G" "streams gd g0 t (es_out st) v" "inks st v" "at_row G C k v"
  shows "\<exists>w. streams gd g0 t (es_out (emit_row t0 (G ! k) st)) w \<and> inks (emit_row t0 (G ! k) st) w \<and> dumped G C k (emit_end (G ! k)) w"
proof -
  have C: "0 < C" and p: "\<And>i. i < length G \<Longrightarrow> plain_row C (G ! i)" using assms(1) by (simp_all add: replayable_def)
  let ?e = "emit_end (G ! k)"
  have e: "?e \<le> C" using skipped_blank(2) [OF p [OF assms(2)]] p [OF assms(2)] by (cases "wrapped (G ! k)") (simp_all add: emit_end_def plain_row_def)
  have row: "emit_row t0 (G ! k) st = fold (emit_cell t0) (take ?e (cells (G ! k))) st"
    using p [OF assms(2)] by (simp add: emit_row_def plain_row_def)
  show ?thesis
  proof (cases "0 < k \<and> wrapped (G ! (k - 1))")
    case False
    then have "dumped G C k 0 v" using assms(5) by (simp add: at_row_def)
    from write_cells [OF assms(3,4) this assms(2) p [OF assms(2)] _ e] show ?thesis unfolding row by simp
  next
    case True
    then have d: "dumped G C (k - 1) C v" and k: "Suc (k - 1) = k" using assms(5) by (simp_all add: at_row_def)
    have pos: "0 < ?e" using assms(1,2) True k by (metis replayable_def Suc_lessD)
    let ?st = "emit_cell t0 (cells (G ! k) ! 0) st"
    obtain w where w: "streams gd g0 t (es_out ?st) w" "inks ?st w" "dumped G C k (Suc 0) w"
      using wrap_cell [OF assms(3,4) d _ p _ C, of t0] True p assms(2) unfolding k by fastforce
    have "take ?e (cells (G ! k)) = cells (G ! k) ! 0 # drop (Suc 0) (take ?e (cells (G ! k)))"
      using pos e p [OF assms(2)] by (cases "cells (G ! k)"; cases "?e") (auto simp: plain_row_def)
    then have "fold (emit_cell t0) (take ?e (cells (G ! k))) st = fold (emit_cell t0) (drop (Suc 0) (take ?e (cells (G ! k)))) ?st"
      by (metis fold_simps(2))
    then show ?thesis using write_cells [OF w assms(2) p [OF assms(2)] _ e, of t0] pos unfolding row by simp
  qed
qed

lemma draw_rows_replay:
  fixes t0 :: "'h Terminal"
  assumes "replayable C G" "k < length G" "streams gd g0 t (es_out st) v" "inks st v" "at_row G C k v"
  shows "\<exists>w. streams gd g0 t (es_out (draw_rows t0 (drop k G) st)) w \<and> inks (draw_rows t0 (drop k G) st) w \<and> vw_grid w = G"
  using assms(2-5)
proof (induction "length G - k" arbitrary: k st v)
  case (Suc n)
  have C: "0 < C" and p: "\<And>i. i < length G \<Longrightarrow> plain_row C (G ! i)" using assms(1) by (simp_all add: replayable_def)
  let ?st = "emit_row t0 (G ! k) st"
  obtain w where w: "streams gd g0 t (es_out ?st) w" "inks ?st w" "dumped G C k (emit_end (G ! k)) w"
    using draw_one [OF assms(1) Suc.prems] by blast
  have dr: "drop k G = G ! k # drop (Suc k) G" using Suc.prems(1) by (simp add: Cons_nth_drop_Suc)
  show ?case
  proof (cases "Suc k < length G")
    case False
    then have nw: "\<not> wrapped (G ! k)" using assms(1) Suc.prems(1) by (auto simp: replayable_def)
    have "vw_grid w = G" using row_complete [OF w(3) Suc.prems(1) p [OF Suc.prems(1)] nw] False Suc.prems(1) by simp
    moreover have "drop (Suc k) G = []" using False by simp
    ultimately show ?thesis using w unfolding dr by (auto simp: Let_def)
  next
    case True
    have n: "n = length G - Suc k" using Suc.hyps(2) by simp
    let ?st' = "if \<not> wrapped (G ! k) \<and> drop (Suc k) G \<noteq> [] then emit [0x0D, 0x0A] ?st else ?st"
    have "\<exists>u. streams gd g0 t (es_out ?st') u \<and> inks ?st' u \<and> at_row G C (Suc k) u"
    proof (cases "wrapped (G ! k)")
      case wr: True
      then have "emit_end (G ! k) = C" using p [OF Suc.prems(1)] by (simp add: emit_end_def plain_row_def)
      then have "at_row G C (Suc k) w" using w(3) wr by (simp add: at_row_def)
      then show ?thesis using w wr by auto
    next
      case wr: False
      have "drop (Suc k) G \<noteq> []" using True by simp
      then show ?thesis using next_line [OF w True p [OF Suc.prems(1)] wr C] wr by (simp add: at_row_def)
    qed
    then obtain u where u: "streams gd g0 t (es_out ?st') u" "inks ?st' u" "at_row G C (Suc k) u" by blast
    from Suc.hyps(1) [OF n True u] show ?thesis unfolding dr draw_rows.simps Let_def by simp
  qed
qed simp


section \<open>On a fresh terminal\<close>

lemma fresh_start:
  assumes "length G = max rows 1" "max cols 1 = C" "rows \<le> 65535" "cols \<le> 65535"
  shows "streams gd g0 (with_scrollback g rows cols m) (es_out (emit_start [])) (view (with_scrollback g rows cols m))"
    "inks (emit_start []) (view (with_scrollback g rows cols m))" "at_row G C 0 (view (with_scrollback g rows cols m))"
proof -
  let ?t = "with_scrollback g rows cols m"
  have r: "outer_ready ?t" by (rule outer_fresh)
  have c: "canvas ?t" using r by (rule outer_ready_canvas)
  show "streams gd g0 ?t (es_out (emit_start [])) (view ?t)" using c by (simp add: streams_def emit_start_def process_def)
  have dims: "vw_rows (view ?t) = max rows 1" "vw_cols (view ?t) = max cols 1" by (simp_all add: view_fresh vw_rows_def vw_cols_def row_blank_def)
  have "drawable (view ?t)" by (simp add: drawable_def view_fresh modes_default_def cursor_default_def row_blank_def)
  moreover have "vw_region (view ?t) = (0, max rows 1 - 1)" by (simp add: view_fresh)
  ultimately have "surface (view ?t)" using assms(3,4) unfolding surface_def dims by simp
  moreover have "vw_cursor (view ?t) = cursor_default" by (simp add: view_fresh)
  ultimately show "inks (emit_start []) (view ?t)" unfolding inks_def by (simp del: view_sel add: emit_start_def cursor_default_def style_default_def)
  have G: "vw_grid (view ?t) = replicate (length G) (row_blank C style_default)" using assms(1,2) by (simp add: view_fresh)
  have l: "length G = Suc (length G - Suc 0)" "0 < C" using assms(1,2) by auto
  have "row_blank C style_default = unfilled G C 0 0" by (simp add: unfilled_def row_blank_def blank_cell_def)
  moreover have "replicate (length G) x = x # replicate (length G - Suc 0) x" for x :: Row using l(1) by (metis replicate_Suc)
  ultimately have "vw_grid (view ?t) = unfilled G C 0 0 # replicate (length G - Suc 0) (row_blank C style_default)" unfolding G by metis
  moreover have "vw_cursor (view ?t) = cursor_default" by (simp add: view_fresh)
  ultimately show "at_row G C 0 (view ?t)"
    using l(2) dims assms(1,2) unfolding at_row_def dumped_def by (simp del: view_sel add: cursor_default_def)
qed

lemma grid_replays:
  assumes "replayable (max cols 1) (sc_grid s)" "length (sc_grid s) = max rows 1" "rows \<le> 65535" "cols \<le> 65535"
  shows "\<exists>u. process gd g0 (es_out (draw_grid t0 s (emit_start []))) (with_scrollback g rows cols m) = Some u \<and> sc_grid (scr u) = sc_grid s"
proof -
  note f = fresh_start(1) [where gd = gd and ?g0.0 = g0 and g = g and m = m, OF assms(2) refl assms(3,4)]
    fresh_start(2,3) [where g = g and m = m, OF assms(2) refl assms(3,4)]
  have "0 < length (sc_grid s)" using assms(2) by simp
  from draw_rows_replay [OF assms(1) this f, where ?t0.0 = t0]
  obtain w u where u: "process gd g0 (es_out (draw_grid t0 s (emit_start []))) (with_scrollback g rows cols m) = Some u" "view u = w" "vw_grid w = sc_grid s"
    by (auto simp: draw_grid_def streams_def)
  have "sc_grid (scr u) = vw_grid w" using u(2) by (metis view_sel(1))
  then show ?thesis using u(1,3) by auto
qed

text \<open>A soft wrap in front of a blank row.\<close>

definition letters_row :: "nat list \<Rightarrow> bool \<Rightarrow> Row" where
  "letters_row cs w = \<lparr>cells = map letter cs @ replicate (4 - length cs) blank_cell, wrapped = w, row_mark = None\<rparr>"

definition lost_wrap :: Screen where
  "lost_wrap = (screen_new 3 4 0)\<lparr>sc_grid := [letters_row [97, 98, 99, 100] True, letters_row [] False, letters_row [122] False]\<rparr>"

lemma wrap_lost:
  "\<exists>u. process gd g0 (es_out (draw_grid t0 lost_wrap (emit_start []))) (with_scrollback g 3 4 m) = Some u
    \<and> sc_grid (scr u) = [letters_row [97, 98, 99, 100] False, letters_row [122] False, letters_row [] False]"
proof -
  let ?G = "[letters_row [97, 98, 99, 100] False, letters_row [122] False, letters_row [] False]"
  let ?f = "\<lambda>k j e. fold (emit_cell t0) (drop j (take e (cells (?G ! k))))"
  have p: "plain_row 4 (?G ! 0)" "plain_row 4 (?G ! 1)"
    using letter_plain plain_space [of style_default] by (simp_all add: plain_row_def letters_row_def blank_cell_def style_default_def)
  have e: "emit_end (?G ! 0) = 4" "emit_end (?G ! 1) = 1" "emit_end (letters_row [] False) = 0" by code_simp+
  note f = fresh_start(1) [where G = ?G and rows = 3 and cols = 4 and C = 4 and gd = gd and ?g0.0 = g0 and g = g and m = m]
    fresh_start(2,3) [where G = ?G and rows = 3 and cols = 4 and C = 4 and g = g and m = m]
  obtain v where v: "streams gd g0 (with_scrollback g 3 4 m) (es_out (?f 0 0 4 (emit_start []))) v" "inks (?f 0 0 4 (emit_start [])) v" "dumped ?G 4 0 4 v"
    using write_cells [OF f(1,2), of ?G 4 0 0 4] f(3) p(1) by (auto simp: at_row_def)
  obtain w where w: "streams gd g0 (with_scrollback g 3 4 m) (es_out (emit [0x0D, 0x0A] (?f 0 0 4 (emit_start [])))) w"
    "inks (emit [0x0D, 0x0A] (?f 0 0 4 (emit_start []))) w" "dumped ?G 4 (Suc 0) 0 w"
    using next_line [OF v(1,2), of ?G 4 0] v(3) p(1) e(1) by (auto simp: letters_row_def)
  obtain u where u: "streams gd g0 (with_scrollback g 3 4 m) (es_out (?f 1 0 1 (emit [0x0D, 0x0A] (?f 0 0 4 (emit_start []))))) u" "dumped ?G 4 1 1 u"
    using write_cells [OF w(1,2), of ?G 4 1 0 1] w(3) p(2) by (auto simp del: nth_Cons_0)
  have "vw_grid u = ?G"
    using row_complete [of ?G 4 1 u] u(2) e(2) p(2) by (simp add: letters_row_def row_blank_def blank_cell_def)
  moreover have "draw_grid t0 lost_wrap (emit_start []) = ?f 1 0 1 (emit [0x0D, 0x0A] (?f 0 0 4 (emit_start [])))"
  proof -
    have "emit_end (letters_row [97, 98, 99, 100] True) = 4" "emit_end (letters_row [122] False) = 1" by code_simp+
    then show ?thesis using e(3) by (simp add: draw_grid_def lost_wrap_def emit_row_def Let_def) (simp add: letters_row_def)
  qed
  ultimately show ?thesis using u(1) by (auto simp: streams_def)
qed


text \<open>A soft wrap in front of a row with text.\<close>

definition kept_wrap :: Screen where
  "kept_wrap = (screen_new 2 4 0)\<lparr>sc_grid := [letters_row [97, 98, 99, 100] True, letters_row [101] False]\<rparr>"

lemma kept_wrap_replayable: "replayable 4 (sc_grid kept_wrap)" "length (sc_grid kept_wrap) = 2"
proof -
  have "plain_row 4 (letters_row [97, 98, 99, 100] True)" "plain_row 4 (letters_row [101] False)"
    using letter_plain plain_space [of style_default] by (simp_all add: plain_row_def letters_row_def blank_cell_def style_default_def)
  moreover have "emit_end (letters_row [101] False) = 1" by code_simp
  moreover have "\<not> wrapped (letters_row [101] False)" by (simp add: letters_row_def)
  ultimately show "replayable 4 (sc_grid kept_wrap)" by (auto simp: replayable_def kept_wrap_def less_Suc_eq)
  show "length (sc_grid kept_wrap) = 2" by (simp add: kept_wrap_def)
qed

end
