(* ===== verification/Inflate.thy ===== *)
theory Inflate
  imports Prelude
begin

text \<open>
  \<open>crates/posh-term/src/inflate.rs\<close>: the decompressor of kitty graphics payloads and PNG images. A
  result is a value, an \<open>InflateError\<close>, or \<open>Stops\<close> where an index of the code would be out of range;
  that it never stops is a theorem. Bit positions, code lengths, symbols and counts are natural numbers;
  the sums of the checksum are 32-bit words.
\<close>

section \<open>Results\<close>

datatype InflateError = Truncated | BadHeader | BadBlockType | BadStoredLength | BadHuffman | BadSymbol | BadDistance
  | BadChecksum | TooLarge

datatype ('e, 'a) outcome = Done 'a | Fails 'e | Stops

type_synonym 'a run = "(InflateError, 'a) outcome"

definition and_then :: "('e, 'a) outcome \<Rightarrow> ('a \<Rightarrow> ('e, 'b) outcome) \<Rightarrow> ('e, 'b) outcome" where
  "and_then m f = (case m of Done a \<Rightarrow> f a | Fails e \<Rightarrow> Fails e | Stops \<Rightarrow> Stops)"

lemma and_then_simps [simp]:
  "and_then (Done a) f = f a" "and_then (Fails e) f = Fails e" "and_then Stops f = Stops"
  by (simp_all add: and_then_def)

lemma and_then_cong [fundef_cong]: "m = m' \<Longrightarrow> (\<And>a. m' = Done a \<Longrightarrow> f a = f' a) \<Longrightarrow> and_then m f = and_then m' f'"
  by (auto simp: and_then_def split: outcome.split)

lemma and_then_Done: "and_then m f = Done b \<longleftrightarrow> (\<exists>a. m = Done a \<and> f a = Done b)"
  and and_then_Stops: "and_then m f = Stops \<longleftrightarrow> m = Stops \<or> (\<exists>a. m = Done a \<and> f a = Stops)"
  by (cases m; simp)+

text \<open>
  Indexing, assigning to an element and slicing, as the code does them: outside the list they stop the
  program, and so does a subtraction below zero.
\<close>

definition item :: "'a list \<Rightarrow> nat \<Rightarrow> ('e, 'a) outcome" where
  "item xs i = (case get_at xs i of None \<Rightarrow> Stops | Some x \<Rightarrow> Done x)"

definition set_item :: "'a list \<Rightarrow> nat \<Rightarrow> 'a \<Rightarrow> ('e, 'a list) outcome" where
  "set_item xs i x = (if i < length xs then Done (xs[i := x]) else Stops)"

definition items_to :: "'a list \<Rightarrow> nat \<Rightarrow> ('e, 'a list) outcome" where
  "items_to xs n = (if n \<le> length xs then Done (take n xs) else Stops)"

definition items_from :: "'a list \<Rightarrow> nat \<Rightarrow> ('e, 'a list) outcome" where
  "items_from xs n = (if n \<le> length xs then Done (drop n xs) else Stops)"

definition less_by :: "nat \<Rightarrow> nat \<Rightarrow> ('e, nat) outcome" where
  "less_by n k = (if k \<le> n then Done (n - k) else Stops)"

lemma item_simps [simp]:
  "i < length xs \<Longrightarrow> item xs i = Done (xs ! i)" "item xs i = Stops \<longleftrightarrow> length xs \<le> i" "item xs i \<noteq> Fails e"
  "item xs i = Done x \<longleftrightarrow> i < length xs \<and> x = xs ! i"
  by (auto simp: item_def get_at_def)

lemma set_item_simps [simp]:
  "i < length xs \<Longrightarrow> set_item xs i x = Done (xs[i := x])" "set_item xs i x = Stops \<longleftrightarrow> length xs \<le> i"
  "set_item xs i x = Done ys \<longleftrightarrow> i < length xs \<and> ys = xs[i := x]" "set_item xs i x \<noteq> Fails e"
  by (auto simp: set_item_def)

lemma items_simps [simp]:
  "n \<le> length xs \<Longrightarrow> items_to xs n = Done (take n xs)" "items_to xs n = Stops \<longleftrightarrow> length xs < n"
  "items_to xs n = Done ys \<longleftrightarrow> n \<le> length xs \<and> ys = take n xs"
  "n \<le> length xs \<Longrightarrow> items_from xs n = Done (drop n xs)" "items_from xs n = Stops \<longleftrightarrow> length xs < n"
  "items_from xs n = Done ys \<longleftrightarrow> n \<le> length xs \<and> ys = drop n xs"
  by (auto simp: items_to_def items_from_def)

lemma less_by_simps [simp]:
  "k \<le> n \<Longrightarrow> less_by n k = Done (n - k)" "less_by n k = Stops \<longleftrightarrow> n < k"
  "less_by n k = Done m \<longleftrightarrow> k \<le> n \<and> m = n - k"
  by (auto simp: less_by_def)

section \<open>Tables of the format\<close>

definition LENGTH_BASE :: "nat list" where
  "LENGTH_BASE = [3, 4, 5, 6, 7, 8, 9, 10, 11, 13, 15, 17, 19, 23, 27, 31, 35, 43, 51, 59, 67, 83, 99, 115, 131, 163, 195, 227, 258]"

definition LENGTH_EXTRA :: "nat list" where
  "LENGTH_EXTRA = [0, 0, 0, 0, 0, 0, 0, 0, 1, 1, 1, 1, 2, 2, 2, 2, 3, 3, 3, 3, 4, 4, 4, 4, 5, 5, 5, 5, 0]"

definition DIST_BASE :: "nat list" where
  "DIST_BASE = [1, 2, 3, 4, 5, 7, 9, 13, 17, 25, 33, 49, 65, 97, 129, 193, 257, 385, 513, 769, 1025, 1537, 2049, 3073, 4097,
     6145, 8193, 12289, 16385, 24577]"

definition DIST_EXTRA :: "nat list" where
  "DIST_EXTRA = [0, 0, 0, 0, 1, 1, 2, 2, 3, 3, 4, 4, 5, 5, 6, 6, 7, 7, 8, 8, 9, 9, 10, 10, 11, 11, 12, 12, 13, 13]"

definition CLEN_ORDER :: "nat list" where
  "CLEN_ORDER = [16, 17, 18, 0, 8, 7, 9, 6, 10, 5, 11, 4, 12, 3, 13, 2, 14, 1, 15]"

section \<open>Canonical Huffman tables\<close>

record Huffman =
  h_counts :: "nat list"
  h_symbols :: "nat list"

fun count_lengths :: "nat list \<Rightarrow> nat list \<Rightarrow> nat list run" where
  "count_lengths [] counts = Done counts"
| "count_lengths (l # ls) counts =
     (if l > 15 then Fails BadHuffman
      else and_then (item counts l) (\<lambda>c. and_then (set_item counts l (c + 1)) (count_lengths ls)))"

text \<open>The check for over-subscribed codes: how many code words are still free at each length.\<close>

fun code_space :: "nat \<Rightarrow> nat list \<Rightarrow> bool" where
  "code_space left [] = True"
| "code_space left (count # counts) = (count \<le> 2 * left \<and> code_space (2 * left - count) counts)"

fun first_offsets :: "nat list \<Rightarrow> nat list \<Rightarrow> nat list \<Rightarrow> nat list run" where
  "first_offsets counts [] offsets = Done offsets"
| "first_offsets counts (len # lens) offsets =
     and_then (item offsets len) (\<lambda>a. and_then (item counts len) (\<lambda>b.
       and_then (set_item offsets (len + 1) (a + b)) (first_offsets counts lens)))"

fun place_symbols :: "nat \<Rightarrow> nat list \<Rightarrow> nat list \<Rightarrow> nat list \<Rightarrow> nat list option" where
  "place_symbols k [] offsets symbols = Some symbols"
| "place_symbols k (l # ls) offsets symbols =
     (if l = 0 then place_symbols (k + 1) ls offsets symbols
      else if l < length offsets \<and> offsets ! l < length symbols
      then place_symbols (k + 1) ls (offsets[l := offsets ! l + 1]) (symbols[offsets ! l := k])
      else None)"

definition huffman_new :: "nat list \<Rightarrow> Huffman run" where
  "huffman_new lengths =
     and_then (count_lengths lengths (replicate 16 0)) (\<lambda>counts0. and_then (set_item counts0 0 0) (\<lambda>counts.
     and_then (items_from counts 1) (\<lambda>tail.
       if \<not> code_space 1 tail then Fails BadHuffman
       else and_then (first_offsets counts [1..<15] (replicate 16 0)) (\<lambda>offsets.
         case place_symbols 0 lengths offsets (replicate (length (filter (\<lambda>l. l \<noteq> 0) lengths)) 0) of
           None \<Rightarrow> Stops
         | Some symbols \<Rightarrow> Done \<lparr>h_counts = counts, h_symbols = symbols\<rparr>))))"

definition expected :: "'a run \<Rightarrow> 'a run" where
  "expected r = (case r of Done a \<Rightarrow> Done a | _ \<Rightarrow> Stops)"

definition fixed_literals :: "Huffman run" where
  "fixed_literals = expected (huffman_new (replicate 144 8 @ replicate 112 9 @ replicate 24 7 @ replicate 8 8))"

definition fixed_distances :: "Huffman run" where
  "fixed_distances = expected (huffman_new (replicate 30 5))"

section \<open>The bit reader\<close>

text \<open>A read gives the value and the next position.\<close>

fun read_bits :: "bytes \<Rightarrow> nat \<Rightarrow> nat \<Rightarrow> (nat \<times> nat) run" where
  "read_bits data pos 0 = Done (0, pos)"
| "read_bits data pos (Suc n) =
     (case get_at data (pos div 8) of
        None \<Rightarrow> Fails Truncated
      | Some byte \<Rightarrow> and_then (read_bits data (pos + 1) n) (\<lambda>(v, p). Done (of_bool (bit byte (pos mod 8)) + 2 * v, p)))"

text \<open>One step per code length, with the counts of the lengths still to come.\<close>

fun walk :: "nat list \<Rightarrow> bytes \<Rightarrow> nat list \<Rightarrow> nat \<Rightarrow> nat \<Rightarrow> nat \<Rightarrow> nat \<Rightarrow> (nat \<times> nat) run" where
  "walk symbols data [] code lo index pos = Fails BadSymbol"
| "walk symbols data (count # counts) code lo index pos =
     and_then (read_bits data pos 1) (\<lambda>(b, pos').
       let c = code + b
       in if c < lo + count
          then if index + c < lo then Stops
               else case get_at symbols (index + c - lo) of None \<Rightarrow> Stops | Some s \<Rightarrow> Done (s, pos')
          else walk symbols data counts (2 * c) (2 * (lo + count)) (index + count) pos')"

definition huffman_decode :: "bytes \<Rightarrow> Huffman \<Rightarrow> nat \<Rightarrow> (nat \<times> nat) run" where
  "huffman_decode data h pos = walk (h_symbols h) data (drop 1 (h_counts h)) 0 0 0 pos"

text \<open>A read never stops, goes forward and stays inside the data.\<close>

lemma read_bits_Done: "read_bits data pos n = Done (v, p) \<Longrightarrow> p = pos + n \<and> (n = 0 \<or> p \<le> 8 * length data)"
proof (induction n arbitrary: pos v)
  case (Suc n)
  then obtain byte w where b: "get_at data (pos div 8) = Some byte" "read_bits data (pos + 1) n = Done (w, p)"
    by (auto simp: and_then_Done split: option.splits)
  have "pos div 8 < length data" using b(1) by (auto simp: get_at_def split: if_splits)
  then have "pos < 8 * length data" by (simp add: div_less_iff_less_mult)
  then show ?case using Suc.IH [OF b(2)] by auto
qed simp

lemma read_bits_not_Stops [simp]: "read_bits data pos n \<noteq> Stops"
  by (induction n arbitrary: pos) (auto simp: and_then_Stops split: option.split)

lemma walk_Done: "walk symbols data counts code lo index pos = Done (s, p) \<Longrightarrow> pos < p \<and> p \<le> 8 * length data"
proof (induction counts arbitrary: code lo index pos)
  case (Cons count counts)
  then obtain b q where b: "read_bits data pos 1 = Done (b, q)" by (auto simp: and_then_Done simp del: read_bits.simps)
  note q = read_bits_Done [OF b]
  let ?c = "code + b"
  have w: "(if ?c < lo + count then if index + ?c < lo then Stops
       else case get_at symbols (index + ?c - lo) of None \<Rightarrow> Stops | Some s \<Rightarrow> Done (s, q)
     else walk symbols data counts (2 * ?c) (2 * (lo + count)) (index + count) q) = Done (s, p)"
    using Cons.prems b by (simp add: Let_def del: read_bits.simps)
  show ?case
  proof (cases "?c < lo + count")
    case True
    then have "p = q" using w by (auto split: if_splits option.splits)
    then show ?thesis using q by simp
  next
    case False
    then have "q < p \<and> p \<le> 8 * length data" using w by (intro Cons.IH) simp
    then show ?thesis using q by simp
  qed
qed simp

lemma huffman_decode_Done: "huffman_decode data h pos = Done (s, p) \<Longrightarrow> pos < p \<and> p \<le> 8 * length data"
  unfolding huffman_decode_def by (rule walk_Done)

section \<open>Dynamic tables\<close>

fun read_clens :: "bytes \<Rightarrow> nat list \<Rightarrow> nat \<Rightarrow> nat list \<Rightarrow> (nat list \<times> nat) run" where
  "read_clens data [] pos clens = Done (clens, pos)"
| "read_clens data (slot # slots) pos clens =
     and_then (read_bits data pos 3) (\<lambda>(v, p). and_then (set_item clens slot v) (read_clens data slots p))"

text \<open>
  The code lengths of both alphabets, run-length coded. One code sets the lengths from index \<open>i\<close> on and
  gives the next index.
\<close>

definition length_code :: "bytes \<Rightarrow> nat list \<Rightarrow> nat \<Rightarrow> nat \<Rightarrow> nat \<Rightarrow> (nat list \<times> nat \<times> nat) run" where
  "length_code data lengths i symbol pos =
     (if symbol \<le> 15 then and_then (set_item lengths i symbol) (\<lambda>lengths'. Done (lengths', i + 1, pos))
      else if symbol = 16
      then if i = 0 then Fails BadHuffman
           else and_then (less_by i 1) (\<lambda>j. and_then (item lengths j) (\<lambda>prev. and_then (read_bits data pos 2) (\<lambda>(v, p).
             if i + (3 + v) \<le> length lengths
             then Done (take i lengths @ replicate (3 + v) prev @ drop (i + (3 + v)) lengths, i + (3 + v), p)
             else Fails BadHuffman)))
      else if symbol = 17
      then and_then (read_bits data pos 3) (\<lambda>(v, p).
             if i + (3 + v) > length lengths then Fails BadHuffman else Done (lengths, i + (3 + v), p))
      else if symbol = 18
      then and_then (read_bits data pos 7) (\<lambda>(v, p).
             if i + (11 + v) > length lengths then Fails BadHuffman else Done (lengths, i + (11 + v), p))
      else Fails BadHuffman)"

lemma length_code_Done:
  assumes "length_code data lengths i symbol pos = Done (lengths', i', p)" "i < length lengths"
  shows "i < i' \<and> i' \<le> length lengths \<and> length lengths' = length lengths \<and> pos \<le> p"
  using assms by (auto simp: length_code_def and_then_Done simp del: read_bits.simps split: if_splits dest!: read_bits_Done)

function read_lengths :: "bytes \<Rightarrow> Huffman \<Rightarrow> nat list \<Rightarrow> nat \<Rightarrow> nat \<Rightarrow> (nat list \<times> nat) run" where
  "read_lengths data clen lengths i pos =
     (if i < length lengths
      then and_then (huffman_decode data clen pos) (\<lambda>(symbol, p).
           and_then (length_code data lengths i symbol p) (\<lambda>(lengths', i', p'). read_lengths data clen lengths' i' p'))
      else Done (lengths, pos))"
  by pat_completeness auto
termination
  by (relation "measure (\<lambda>(_, _, lengths, i, _). length lengths - i)") (auto dest!: length_code_Done)

declare read_lengths.simps [simp del]

definition dynamic_tables :: "bytes \<Rightarrow> nat \<Rightarrow> ((Huffman \<times> Huffman) \<times> nat) run" where
  "dynamic_tables data pos =
     and_then (read_bits data pos 5) (\<lambda>(a, p). and_then (read_bits data p 5) (\<lambda>(b, p). and_then (read_bits data p 4) (\<lambda>(c, p).
       let hlit = a + 257; hdist = b + 1; hclen = c + 4
       in and_then (read_clens data (take hclen CLEN_ORDER) p (replicate 19 0)) (\<lambda>(clens, p).
          and_then (huffman_new clens) (\<lambda>clen.
          and_then (read_lengths data clen (replicate (hlit + hdist) 0) 0 p) (\<lambda>(lengths, p).
          and_then (item lengths 256) (\<lambda>last_code.
            if last_code = 0 then Fails BadHuffman
            else and_then (items_to lengths hlit) (\<lambda>lits. and_then (huffman_new lits) (\<lambda>lit.
                 and_then (items_from lengths hlit) (\<lambda>dists. and_then (huffman_new dists) (\<lambda>dist.
                   Done ((lit, dist), p))))))))))))"

section \<open>Blocks\<close>

text \<open>A back-reference copies byte by byte: the ranges may overlap.\<close>

fun copy_back :: "nat \<Rightarrow> nat \<Rightarrow> bytes \<Rightarrow> bytes run" where
  "copy_back d 0 out = Done out"
| "copy_back d (Suc n) out =
     and_then (less_by (length out) d) (\<lambda>i. and_then (item out i) (\<lambda>b. copy_back d n (out @ [b])))"

definition copy_match :: "bytes \<Rightarrow> Huffman \<Rightarrow> nat \<Rightarrow> nat \<Rightarrow> nat \<Rightarrow> bytes \<Rightarrow> (bytes \<times> nat) run" where
  "copy_match data dist limit idx pos out =
     and_then (item LENGTH_BASE idx) (\<lambda>base_len. and_then (item LENGTH_EXTRA idx) (\<lambda>bits_len.
     and_then (read_bits data pos bits_len) (\<lambda>(extra_len, p).
       let len = base_len + extra_len
       in and_then (huffman_decode data dist p) (\<lambda>(dsym, p).
          if dsym \<ge> 30 then Fails BadSymbol
          else and_then (item DIST_BASE dsym) (\<lambda>base_dist. and_then (item DIST_EXTRA dsym) (\<lambda>bits_dist.
            and_then (read_bits data p bits_dist) (\<lambda>(extra_dist, p).
            let d = base_dist + extra_dist
            in if d > length out then Fails BadDistance
               else if length out + len > limit then Fails TooLarge
               else and_then (copy_back d len out) (\<lambda>out'. Done (out', p)))))))))"

lemma copy_match_Done: "copy_match data dist limit idx pos out = Done (out', p) \<Longrightarrow> pos < p \<and> p \<le> 8 * length data"
  by (auto simp: copy_match_def and_then_Done Let_def dest!: read_bits_Done huffman_decode_Done split: if_splits)

function inflate_compressed :: "bytes \<Rightarrow> nat \<Rightarrow> Huffman \<Rightarrow> Huffman \<Rightarrow> nat \<Rightarrow> bytes \<Rightarrow> (bytes \<times> nat) run" where
  "inflate_compressed data limit lit dist pos out =
     and_then (huffman_decode data lit pos) (\<lambda>(symbol, p).
       if symbol \<le> 255
       then if length out \<ge> limit then Fails TooLarge
            else inflate_compressed data limit lit dist p (out @ [word_of_nat symbol])
       else if symbol = 256 then Done (out, p)
       else if symbol \<le> 285
       then and_then (copy_match data dist limit (symbol - 257) p out) (\<lambda>(out', p').
              inflate_compressed data limit lit dist p' out')
       else Fails BadSymbol)"
  by pat_completeness auto
termination
  by (relation "measure (\<lambda>(data, _, _, _, pos, _). 8 * length data - pos)")
    (auto dest!: huffman_decode_Done copy_match_Done)

declare inflate_compressed.simps [simp del]

definition stored_block :: "bytes \<Rightarrow> nat \<Rightarrow> nat \<Rightarrow> bytes \<Rightarrow> (bytes \<times> nat) run" where
  "stored_block data limit pos0 out =
     (let pos = (pos0 + 7) div 8 * 8
      in and_then (read_bits data pos 16) (\<lambda>(len, p). and_then (read_bits data p 16) (\<lambda>(nlen, p).
         if len XOR nlen \<noteq> 0xFFFF then Fails BadStoredLength
         else if length out + len > limit then Fails TooLarge
         else case get_range data (p div 8) (p div 8 + len) of
                None \<Rightarrow> Fails Truncated
              | Some chunk \<Rightarrow> Done (out @ chunk, p + len * 8))))"

definition inflate_block :: "bytes \<Rightarrow> nat \<Rightarrow> nat \<Rightarrow> nat \<Rightarrow> bytes \<Rightarrow> (bytes \<times> nat) run" where
  "inflate_block data limit kind pos out =
     (if kind = 0 then stored_block data limit pos out
      else if kind = 1
      then and_then fixed_literals (\<lambda>lit. and_then fixed_distances (\<lambda>dist. inflate_compressed data limit lit dist pos out))
      else if kind = 2
      then and_then (dynamic_tables data pos) (\<lambda>((lit, dist), p). inflate_compressed data limit lit dist p out)
      else Fails BadBlockType)"

lemma stored_block_Done: "stored_block data limit pos out = Done (out', p) \<Longrightarrow> pos \<le> p \<and> p \<le> 8 * length data \<and> length out' \<le> limit"
proof -
  assume a: "stored_block data limit pos out = Done (out', p)"
  let ?q = "(pos + 7) div 8 * 8"
  obtain len p1 nlen p2 chunk where r: "read_bits data ?q 16 = Done (len, p1)" "read_bits data p1 16 = Done (nlen, p2)"
    "get_range data (p2 div 8) (p2 div 8 + len) = Some chunk" "p = p2 + len * 8" "out' = out @ chunk" "length out + len \<le> limit"
    using a by (auto simp: stored_block_def and_then_Done Let_def split: if_splits option.splits)
  have "p2 = ?q + 32" using read_bits_Done [OF r(1)] read_bits_Done [OF r(2)] by simp
  moreover have "p2 div 8 + len \<le> length data" "length chunk = len" using get_range_SomeD [OF r(3)] by simp_all
  moreover have "pos \<le> ?q" by simp
  ultimately show ?thesis using r(4-6) by simp
qed

lemma length_copy_back: "copy_back d n out = Done out' \<Longrightarrow> length out' = length out + n"
  by (induction d n out rule: copy_back.induct) (auto simp: and_then_Done)

lemma copy_match_length: "copy_match data dist limit idx pos out = Done (out', p) \<Longrightarrow> length out' \<le> limit"
  by (auto simp: copy_match_def and_then_Done Let_def dest!: length_copy_back split: if_splits)

lemma inflate_compressed_Done:
  "inflate_compressed data limit lit dist pos out = Done (out', p)
   \<Longrightarrow> pos < p \<and> p \<le> 8 * length data \<and> (length out \<le> limit \<longrightarrow> length out' \<le> limit)"
proof (induction data limit lit dist pos out rule: inflate_compressed.induct)
  case (1 data limit lit dist pos out)
  obtain symbol q where d: "huffman_decode data lit pos = Done (symbol, q)"
    using 1(3) by (subst (asm) inflate_compressed.simps) (auto simp: and_then_Done)
  note q = huffman_decode_Done [OF d]
  have eq: "inflate_compressed data limit lit dist pos out =
    (if symbol \<le> 255
       then if length out \<ge> limit then Fails TooLarge else inflate_compressed data limit lit dist q (out @ [word_of_nat symbol])
       else if symbol = 256 then Done (out, q)
       else if symbol \<le> 285
       then and_then (copy_match data dist limit (symbol - 257) q out) (\<lambda>(out', p'). inflate_compressed data limit lit dist p' out')
       else Fails BadSymbol)" using d by (subst inflate_compressed.simps) simp
  consider (lit) "symbol \<le> 255" "length out < limit" "inflate_compressed data limit lit dist q (out @ [word_of_nat symbol]) = Done (out', p)"
    | (fin) "out' = out" "p = q"
    | (copy) out2 q2 where "\<not> symbol \<le> 255" "symbol \<noteq> 256" "symbol \<le> 285" "copy_match data dist limit (symbol - 257) q out = Done (out2, q2)"
        "inflate_compressed data limit lit dist q2 out2 = Done (out', p)"
    using 1(3) unfolding eq by (auto simp: and_then_Done split: if_splits)
  then show ?case
  proof cases
    case lit
    then show ?thesis using 1(1) [OF d] q by force
  next
    case fin
    then show ?thesis using q by simp
  next
    case copy
    then show ?thesis using 1(2) [OF d] copy_match_Done [OF copy(4)] copy_match_length [OF copy(4)] q by force
  qed
qed

lemma read_clens_Done: "read_clens data slots pos clens = Done (clens', p) \<Longrightarrow> pos \<le> p \<and> length clens' = length clens"
  by (induction data slots pos clens rule: read_clens.induct) (fastforce simp: and_then_Done simp del: read_bits.simps dest: read_bits_Done)+

lemma read_lengths_Done: "read_lengths data clen lengths i pos = Done (lengths', p) \<Longrightarrow> pos \<le> p \<and> length lengths' = length lengths"
proof (induction data clen lengths i pos rule: read_lengths.induct)
  case (1 data clen lengths i pos)
  show ?case
  proof (cases "i < length lengths")
    case False
    then show ?thesis using 1(2) by (subst (asm) read_lengths.simps) simp
  next
    case True
    obtain symbol q lengths2 i2 q2 where d: "huffman_decode data clen pos = Done (symbol, q)"
      "length_code data lengths i symbol q = Done (lengths2, i2, q2)" "read_lengths data clen lengths2 i2 q2 = Done (lengths', p)"
      using True 1(2) by (subst (asm) read_lengths.simps) (auto simp: and_then_Done)
    show ?thesis using 1(1) [OF True d(1) refl d(2) refl refl d(3)] huffman_decode_Done [OF d(1)] length_code_Done [OF d(2) True] by simp
  qed
qed

lemma dynamic_tables_Done: "dynamic_tables data pos = Done (tables, p) \<Longrightarrow> pos \<le> p"
  by (auto simp: dynamic_tables_def and_then_Done Let_def simp del: read_bits.simps split: if_splits
      dest!: read_bits_Done read_clens_Done read_lengths_Done)

lemma inflate_block_Done:
  assumes "inflate_block data limit kind pos out = Done (out', p)"
  shows "pos \<le> p \<and> p \<le> 8 * length data \<and> (length out \<le> limit \<longrightarrow> length out' \<le> limit)"
proof -
  consider "stored_block data limit pos out = Done (out', p)"
    | lit dist q where "pos \<le> q" "inflate_compressed data limit lit dist q out = Done (out', p)"
    using assms by (auto simp: inflate_block_def and_then_Done split: if_splits dest!: dynamic_tables_Done)
  then show ?thesis using stored_block_Done inflate_compressed_Done by cases fastforce+
qed

section \<open>Streams\<close>

text \<open>One block after the other up to the last; the result counts the bytes read.\<close>

function inflate_loop :: "bytes \<Rightarrow> nat \<Rightarrow> nat \<Rightarrow> bytes \<Rightarrow> (bytes \<times> nat) run" where
  "inflate_loop data limit pos out =
     and_then (read_bits data pos 1) (\<lambda>(bfinal, p). and_then (read_bits data p 2) (\<lambda>(kind, p').
       and_then (inflate_block data limit kind p' out) (\<lambda>(out', q).
         if bfinal = 1 then Done (out', (q + 7) div 8) else inflate_loop data limit q out')))"
  by pat_completeness auto
termination
  by (relation "measure (\<lambda>(data, _, pos, _). 8 * length data - pos)")
    (auto simp del: read_bits.simps dest!: read_bits_Done inflate_block_Done)

declare inflate_loop.simps [simp del]

definition inflate :: "bytes \<Rightarrow> nat \<Rightarrow> (bytes \<times> nat) run" where
  "inflate data limit = inflate_loop data limit 0 []"

text \<open>The sums are reduced after each chunk of 5552 bytes.\<close>

fun adler_chunk :: "bytes \<Rightarrow> u32 \<times> u32 \<Rightarrow> u32 \<times> u32" where
  "adler_chunk [] ab = ab"
| "adler_chunk (byte # bs) ab = (let a = fst ab + ucast byte in adler_chunk bs (a, snd ab + a))"

function adler_chunks :: "bytes \<Rightarrow> u32 \<times> u32 \<Rightarrow> u32 \<times> u32" where
  "adler_chunks data ab =
     (if data = [] then ab
      else let (a, b) = adler_chunk (take 5552 data) ab in adler_chunks (drop 5552 data) (a mod 65521, b mod 65521))"
  by pat_completeness auto
termination by (relation "measure (\<lambda>(data, _). length data)") auto

declare adler_chunks.simps [simp del]

definition adler32 :: "bytes \<Rightarrow> u32" where
  "adler32 data = (let (a, b) = adler_chunks data (1, 0) in push_bit 16 b OR a)"

definition zlib_decompress :: "bytes \<Rightarrow> nat \<Rightarrow> bytes run" where
  "zlib_decompress data limit =
     (case data of
        cmf # flg # rest \<Rightarrow>
          if cmf AND 0x0F \<noteq> 8 \<or> (256 * unat cmf + unat flg) mod 31 \<noteq> 0 \<or> flg AND 0x20 \<noteq> 0 then Fails BadHeader
          else and_then (inflate rest limit) (\<lambda>(out, used).
            case get_range rest used (used + 4) of
              None \<Rightarrow> Fails Truncated
            | Some trailer \<Rightarrow> if adler32 out \<noteq> of_be trailer then Fails BadChecksum else Done out)
      | _ \<Rightarrow> Fails Truncated)"

text \<open>The output stays below the limit, and no more bytes are counted than there are.\<close>

lemma inflate_loop_bounds:
  "inflate_loop data limit pos out = Done (out', used) \<Longrightarrow> length out \<le> limit \<Longrightarrow> length out' \<le> limit \<and> used \<le> length data"
proof (induction data limit pos out rule: inflate_loop.induct)
  case (1 data limit pos out)
  obtain bfinal p kind p' out2 q where r: "read_bits data pos 1 = Done (bfinal, p)" "read_bits data p 2 = Done (kind, p')"
    "inflate_block data limit kind p' out = Done (out2, q)"
    "(if bfinal = 1 then Done (out2, (q + 7) div 8) else inflate_loop data limit q out2) = Done (out', used)"
    using 1(2) by (subst (asm) inflate_loop.simps) (auto simp: and_then_Done simp del: read_bits.simps)
  have b: "q \<le> 8 * length data" "length out2 \<le> limit" using inflate_block_Done [OF r(3)] 1(3) by simp_all
  show ?case
  proof (cases "bfinal = 1")
    case True
    then have "out' = out2" "used = (q + 7) div 8" using r(4) by simp_all
    then show ?thesis using b by auto
  next
    case False
    then show ?thesis using 1(1) [OF r(1) refl r(2) refl r(3) refl False] r(4) b(2) by simp
  qed
qed

lemma inflate_bounds: "inflate data limit = Done (out, used) \<Longrightarrow> length out \<le> limit \<and> used \<le> length data"
  unfolding inflate_def by (drule inflate_loop_bounds) simp_all

lemma zlib_bounds: "zlib_decompress data limit = Done out \<Longrightarrow> length out \<le> limit"
  by (auto simp: zlib_decompress_def and_then_Done split: list.splits if_splits option.splits dest!: inflate_bounds)

end
