(* ===== verification/Inflate_Codes.thy ===== *)
theory Inflate_Codes
  imports Inflate
begin

text \<open>
  The canonical Huffman codes of \<open>Inflate\<close>: the tables are built without an index out of range, and a
  code word of the code RFC 1951 defines for the given lengths is decoded to its symbol, whatever bits
  follow it.
\<close>

section \<open>Counting the lengths\<close>

definition bounded :: "nat list \<Rightarrow> bool" where
  "bounded lengths \<longleftrightarrow> (\<forall>l \<in> set lengths. l \<le> 15)"

definition count_of :: "nat list \<Rightarrow> nat \<Rightarrow> nat" where
  "count_of lengths l = (if l = 0 then 0 else length (filter ((=) l) lengths))"

definition counts_of :: "nat list \<Rightarrow> nat list" where
  "counts_of lengths = map (count_of lengths) [0..<16]"

lemma counts_of [simp]: "length (counts_of lengths) = 16" "k < 16 \<Longrightarrow> counts_of lengths ! k = count_of lengths k"
  by (simp_all add: counts_of_def)

text \<open>The counting loop of the code: it refuses a length above 15, and otherwise counts.\<close>

lemma count_lengths_bad: "\<not> bounded lengths \<Longrightarrow> length counts = 16 \<Longrightarrow> count_lengths lengths counts = Fails BadHuffman"
  by (induction lengths arbitrary: counts) (auto simp: bounded_def)

lemma count_lengths_loop:
  assumes "bounded lengths" "length counts = 16"
  shows "count_lengths lengths counts = Done (map (\<lambda>k. counts ! k + length (filter ((=) k) lengths)) [0..<16])"
  using assms
proof (induction lengths arbitrary: counts)
  case Nil
  then show ?case by (simp add: list_eq_iff_nth_eq)
next
  case (Cons l ls)
  have "count_lengths ls (counts[l := counts ! l + 1])
      = Done (map (\<lambda>k. counts[l := counts ! l + 1] ! k + length (filter ((=) k) ls)) [0..<16])"
    using Cons by (intro Cons.IH) (simp_all add: bounded_def)
  then show ?case using Cons.prems by (auto simp: bounded_def nth_list_update)
qed

lemma count_lengths:
  assumes "bounded lengths"
  shows "and_then (count_lengths lengths (replicate 16 0)) (\<lambda>counts. and_then (set_item counts 0 0) f) = f (counts_of lengths)"
proof -
  have "(map (\<lambda>k. replicate 16 0 ! k + length (filter ((=) k) lengths)) [0..<16])[0 := 0] = counts_of lengths"
    by (rule nth_equalityI) (auto simp: counts_of_def count_of_def nth_list_update)
  then show ?thesis by (simp add: count_lengths_loop [OF assms])
qed

text \<open>Where the symbols of a length begin, and the first code word of a length.\<close>

definition base_of :: "nat list \<Rightarrow> nat \<Rightarrow> nat" where
  "base_of lengths l = (\<Sum>k \<in> {1..<l}. count_of lengths k)"

lemma base_of_Suc: "1 \<le> l \<Longrightarrow> base_of lengths (Suc l) = base_of lengths l + count_of lengths l"
  by (simp add: base_of_def)

lemma base_of_1 [simp]: "base_of lengths (Suc 0) = 0"
  by (simp add: base_of_def)

lemma base_of_mono: "k < l \<Longrightarrow> 1 \<le> k \<Longrightarrow> base_of lengths k + count_of lengths k \<le> base_of lengths l"
proof (induction l)
  case (Suc l)
  then show ?case by (cases "k = l") (auto simp: base_of_Suc)
qed simp

lemma offsets_loop:
  assumes "1 \<le> m" "m \<le> 15" "length offsets = 16" "\<forall>l. 1 \<le> l \<and> l \<le> m \<longrightarrow> offsets ! l = base_of lengths l"
  shows "\<exists>offsets'. first_offsets (counts_of lengths) [m..<15] offsets = Done offsets' \<and> length offsets' = 16
    \<and> (\<forall>l. 1 \<le> l \<and> l \<le> 15 \<longrightarrow> offsets' ! l = base_of lengths l)"
  using assms
proof (induction "15 - m" arbitrary: m offsets)
  case 0
  then show ?case by simp
next
  case (Suc n)
  let ?os = "offsets[m + 1 := base_of lengths m + count_of lengths m]"
  have m: "m < 15" "n = 15 - Suc m" using Suc by simp_all
  have "\<forall>l. 1 \<le> l \<and> l \<le> Suc m \<longrightarrow> ?os ! l = base_of lengths l"
    using Suc.prems m(1) by (auto simp: nth_list_update base_of_Suc le_Suc_eq)
  then have "\<exists>offsets'. first_offsets (counts_of lengths) [Suc m..<15] ?os = Done offsets' \<and> length offsets' = 16
    \<and> (\<forall>l. 1 \<le> l \<and> l \<le> 15 \<longrightarrow> offsets' ! l = base_of lengths l)"
    using Suc.prems m by (intro Suc.hyps(1)) simp_all
  then show ?case using Suc.prems m(1) by (simp add: upt_conv_Cons del: upt_Suc)
qed

lemma first_offsets:
  "\<exists>offsets. first_offsets (counts_of lengths) [1..<15] (replicate 16 0) = Done offsets \<and> length offsets = 16
    \<and> (\<forall>l. 1 \<le> l \<and> l \<le> 15 \<longrightarrow> offsets ! l = base_of lengths l)"
proof (rule offsets_loop)
  have "l = 1" if "1 \<le> l \<and> l \<le> 1" for l :: nat using that by simp
  then show "\<forall>l. 1 \<le> l \<and> l \<le> 1 \<longrightarrow> replicate 16 0 ! l = base_of lengths l" by auto
qed simp_all

section \<open>The symbols in order\<close>

text \<open>The rank of a symbol among those of its length.\<close>

definition rank_of :: "nat list \<Rightarrow> nat \<Rightarrow> nat" where
  "rank_of lengths s = length (filter ((=) (lengths ! s)) (take s lengths))"

lemma filter_take_less:
  assumes "s < length xs" "P (xs ! s)"
  shows "length (filter P (take s xs)) < length (filter P xs)"
proof -
  have "xs = take s xs @ xs ! s # drop (Suc s) xs" using assms(1) by (simp add: id_take_nth_drop)
  then have "length (filter P xs) = length (filter P (take s xs)) + Suc (length (filter P (drop (Suc s) xs)))"
    using assms(2) by (metis filter.simps(2) filter_append length_Cons length_append)
  then show ?thesis by simp
qed

lemma rank_less: "s < length lengths \<Longrightarrow> lengths ! s \<noteq> 0 \<Longrightarrow> rank_of lengths s < count_of lengths (lengths ! s)"
  using filter_take_less [of s lengths "(=) (lengths ! s)"] by (simp add: rank_of_def count_of_def)

lemma rank_mono:
  assumes "s < t" "t < length lengths" "lengths ! s = lengths ! t"
  shows "rank_of lengths s < rank_of lengths t"
  using filter_take_less [of s "take t lengths" "(=) (lengths ! t)"] assms by (simp add: rank_of_def min_def)

definition place_of :: "nat list \<Rightarrow> nat \<Rightarrow> nat" where
  "place_of lengths s = base_of lengths (lengths ! s) + rank_of lengths s"

lemma place_inj:
  assumes "s < t" "t < length lengths" "lengths ! s \<noteq> 0" "lengths ! t \<noteq> 0"
  shows "place_of lengths s \<noteq> place_of lengths t"
proof -
  have s: "s < length lengths" using assms by simp
  consider "lengths ! s < lengths ! t" | "lengths ! t < lengths ! s" | "lengths ! s = lengths ! t" by linarith
  then show ?thesis
  proof cases
    case 1
    then show ?thesis using base_of_mono [OF 1, of lengths] rank_less [OF s] assms(3) by (simp add: place_of_def)
  next
    case 2
    then show ?thesis using base_of_mono [OF 2, of lengths] rank_less [OF assms(2)] assms(4) by (simp add: place_of_def)
  next
    case 3
    then show ?thesis using rank_mono [OF assms(1,2)] by (simp add: place_of_def)
  qed
qed

lemma count_total:
  assumes "bounded lengths"
  shows "base_of lengths 16 = length (filter (\<lambda>l. l \<noteq> 0) lengths)"
  using assms
proof (induction lengths)
  case Nil
  then show ?case by (simp add: base_of_def count_of_def)
next
  case (Cons x xs)
  have "base_of (x # xs) 16 = (\<Sum>k \<in> {1..<16}. (if k = x then 1 else 0) + count_of xs k)"
    unfolding base_of_def by (intro sum.cong) (auto simp: count_of_def)
  also have "\<dots> = (\<Sum>k \<in> {1..<16}. if k = x then 1 else 0) + base_of xs 16" by (simp add: sum.distrib base_of_def)
  also have "(\<Sum>k \<in> {1..<16}. if k = x then 1 else (0 :: nat)) = (if x = 0 then 0 else 1)"
    using Cons.prems by (simp add: bounded_def)
  finally show ?case using Cons by (simp add: bounded_def)
qed

lemma place_bound:
  assumes "bounded lengths" "s < length lengths" "lengths ! s \<noteq> 0"
  shows "place_of lengths s < length (filter (\<lambda>l. l \<noteq> 0) lengths)"
proof -
  have "lengths ! s < 16" using assms(1,2) by (auto simp: bounded_def dest!: nth_mem)
  then have "base_of lengths (lengths ! s) + count_of lengths (lengths ! s) \<le> base_of lengths 16"
    using base_of_mono [of "lengths ! s" 16 lengths] assms(3) by simp
  then show ?thesis using rank_less [OF assms(2,3)] count_total [OF assms(1)] by (simp add: place_of_def)
qed

text \<open>The loop over the symbols, from symbol \<open>k\<close> on.\<close>

lemma place_loop:
  assumes "bounded lengths" "k \<le> length lengths" "length offsets = 16" "length symbols = length (filter (\<lambda>l. l \<noteq> 0) lengths)"
    and "\<forall>l. 1 \<le> l \<and> l \<le> 15 \<longrightarrow> offsets ! l = base_of lengths l + length (filter ((=) l) (take k lengths))"
    and "\<forall>s < k. lengths ! s \<noteq> 0 \<longrightarrow> symbols ! place_of lengths s = s"
  shows "\<exists>symbols'. place_symbols k (drop k lengths) offsets symbols = Some symbols' \<and> length symbols' = length symbols
    \<and> (\<forall>s < length lengths. lengths ! s \<noteq> 0 \<longrightarrow> symbols' ! place_of lengths s = s)"
  using assms(2-6)
proof (induction "length lengths - k" arbitrary: k offsets symbols)
  case 0
  then show ?case by simp
next
  case (Suc n)
  then have k: "k < length lengths" by simp
  let ?l = "lengths ! k"
  have dr: "drop k lengths = ?l # drop (Suc k) lengths" using k by (simp add: Cons_nth_drop_Suc)
  have tk: "take (Suc k) lengths = take k lengths @ [?l]" using k by (simp add: take_Suc_conv_app_nth)
  have n: "n = length lengths - Suc k" "Suc k \<le> length lengths" using Suc.hyps(2) k by simp_all
  show ?case
  proof (cases "?l = 0")
    case True
    have "\<forall>s < Suc k. lengths ! s \<noteq> 0 \<longrightarrow> symbols ! place_of lengths s = s" using Suc.prems(5) True less_Suc_eq by auto
    moreover have "\<forall>l. 1 \<le> l \<and> l \<le> 15 \<longrightarrow> offsets ! l = base_of lengths l + length (filter ((=) l) (take (Suc k) lengths))"
      using Suc.prems(4) True tk by auto
    ultimately show ?thesis using Suc.hyps(1) [OF n Suc.prems(2,3)] True by (simp add: dr)
  next
    case False
    have l: "?l \<le> 15" using assms(1) k by (auto simp: bounded_def)
    have off: "offsets ! ?l = place_of lengths k" using Suc.prems(4) l False by (simp add: place_of_def rank_of_def)
    have b: "place_of lengths k < length symbols" using place_bound [OF assms(1) k False] Suc.prems(3) by simp
    let ?os = "offsets[?l := offsets ! ?l + 1]" and ?ss = "symbols[offsets ! ?l := k]"
    have "\<forall>l. 1 \<le> l \<and> l \<le> 15 \<longrightarrow> ?os ! l = base_of lengths l + length (filter ((=) l) (take (Suc k) lengths))"
      using Suc.prems(2,4) tk by (auto simp: nth_list_update)
    moreover have "\<forall>s < Suc k. lengths ! s \<noteq> 0 \<longrightarrow> ?ss ! place_of lengths s = s"
    proof (intro allI impI)
      fix s assume s: "s < Suc k" "lengths ! s \<noteq> 0"
      show "?ss ! place_of lengths s = s"
      proof (cases "s = k")
        case True
        then show ?thesis using b off by simp
      next
        case False
        then have "place_of lengths s \<noteq> place_of lengths k" using place_inj [of s k lengths] s k \<open>?l \<noteq> 0\<close> by simp
        then show ?thesis using Suc.prems(5) s False off by simp
      qed
    qed
    ultimately obtain symbols' where "place_symbols (Suc k) (drop (Suc k) lengths) ?os ?ss = Some symbols'" "length symbols' = length ?ss"
      "\<forall>s < length lengths. lengths ! s \<noteq> 0 \<longrightarrow> symbols' ! place_of lengths s = s"
      using Suc.hyps(1) [OF n, of ?os ?ss] Suc.prems(2,3) by auto
    then show ?thesis using False l b off Suc.prems(2) by (simp add: dr)
  qed
qed


lemma huffman_new:
  "(case huffman_new lengths of
      Done h \<Rightarrow> bounded lengths \<and> code_space 1 (drop 1 (counts_of lengths)) \<and> h_counts h = counts_of lengths
        \<and> length (h_symbols h) = base_of lengths 16 \<and> (\<forall>s < length lengths. lengths ! s \<noteq> 0 \<longrightarrow> h_symbols h ! place_of lengths s = s)
    | Fails e \<Rightarrow> e = BadHuffman \<and> \<not> (bounded lengths \<and> code_space 1 (drop 1 (counts_of lengths)))
    | Stops \<Rightarrow> False)"
proof (cases "bounded lengths")
  case False
  then show ?thesis by (simp add: huffman_new_def count_lengths_bad)
next
  case b: True
  show ?thesis
  proof (cases "code_space 1 (drop 1 (counts_of lengths))")
    case False
    then show ?thesis by (simp add: huffman_new_def count_lengths [OF b])
  next
    case True
    let ?n = "length (filter (\<lambda>l. l \<noteq> 0) lengths)"
    obtain os where f: "first_offsets (counts_of lengths) [1..<15] (replicate 16 0) = Done os" "length os = 16"
      and o: "\<forall>l. 1 \<le> l \<and> l \<le> 15 \<longrightarrow> os ! l = base_of lengths l + length (filter ((=) l) (take 0 lengths))"
      using first_offsets [of lengths] by auto
    obtain symbols where "place_symbols 0 lengths os (replicate ?n 0) = Some symbols" "length symbols = ?n"
      "\<forall>s < length lengths. lengths ! s \<noteq> 0 \<longrightarrow> symbols ! place_of lengths s = s"
      using place_loop [of lengths 0 os "replicate ?n 0", OF b _ f(2) _ o] by auto
    then show ?thesis using True b f(1) by (simp add: huffman_new_def count_lengths [OF b] count_total del: upt_Suc upt_rec_numeral)
  qed
qed

lemma huffman_new_not_Stops [simp]: "huffman_new lengths \<noteq> Stops"
  using huffman_new [of lengths] by auto

section \<open>Code words\<close>

text \<open>The first code word of a length, and the code word of a symbol, read as a binary number.\<close>

primrec first_code :: "nat list \<Rightarrow> nat \<Rightarrow> nat" where
  "first_code lengths 0 = 0"
| "first_code lengths (Suc l) = 2 * (first_code lengths l + count_of lengths l)"

definition code_word :: "nat list \<Rightarrow> nat \<Rightarrow> nat" where
  "code_word lengths s = first_code lengths (lengths ! s) + rank_of lengths s"

text \<open>The bits of the data from a position on start with a code word, most significant bit first.\<close>

definition data_bit :: "bytes \<Rightarrow> nat \<Rightarrow> bool option" where
  "data_bit data pos = map_option (\<lambda>byte. bit byte (pos mod 8)) (get_at data (pos div 8))"

definition starts_with_code :: "bytes \<Rightarrow> nat \<Rightarrow> nat \<Rightarrow> nat \<Rightarrow> bool" where
  "starts_with_code data pos n code \<longleftrightarrow> (\<forall>j < n. data_bit data (pos + j) = Some (bit code (n - 1 - j)))"

lemma read_bit:
  "read_bits data pos 1 = (case data_bit data pos of None \<Rightarrow> Fails Truncated | Some b \<Rightarrow> Done (of_bool b, pos + 1))"
  by (simp add: data_bit_def split: option.split)

lemma code_space_left:
  assumes "code_space left counts" "j < length counts"
  shows "counts ! j + (\<Sum>i < j. counts ! i * 2 ^ (j - i)) \<le> left * 2 ^ Suc j"
  using assms
proof (induction counts arbitrary: left j)
  case (Cons count counts)
  show ?case
  proof (cases j)
    case 0
    then show ?thesis using Cons.prems by simp
  next
    case (Suc i)
    have IH: "counts ! i + (\<Sum>k < i. counts ! k * 2 ^ (i - k)) \<le> (2 * left - count) * 2 ^ Suc i"
      using Cons Suc by simp
    have "(\<Sum>k < j. (count # counts) ! k * 2 ^ (j - k)) = count * 2 ^ j + (\<Sum>k < i. counts ! k * 2 ^ (i - k))"
      unfolding Suc by (subst sum.lessThan_Suc_shift) simp
    then have "(count # counts) ! j + (\<Sum>k < j. (count # counts) ! k * 2 ^ (j - k)) \<le> (2 * left - count) * 2 ^ Suc i + count * 2 ^ j"
      using IH Suc by simp
    also have "\<dots> = left * 2 ^ Suc j" using Cons.prems Suc by (simp add: diff_mult_distrib)
    finally show ?thesis .
  qed
qed simp

lemma first_code_sum: "first_code lengths (Suc l) = (\<Sum>i < l. count_of lengths (Suc i) * 2 ^ (l - i))"
proof (induction l)
  case 0
  then show ?case by (simp add: count_of_def)
next
  case (Suc l)
  have "(\<Sum>i < Suc l. count_of lengths (Suc i) * 2 ^ (Suc l - i)) = 2 * (\<Sum>i < l. count_of lengths (Suc i) * 2 ^ (l - i)) + 2 * count_of lengths (Suc l)"
    by (simp add: sum_distrib_left Suc_diff_le mult_ac)
  then show ?case using Suc by (simp del: first_code.simps(2) add: first_code.simps(2) [of lengths "Suc l"])
qed

lemma first_code_bound:
  assumes "bounded lengths" "code_space 1 (drop 1 (counts_of lengths))" "1 \<le> l" "l \<le> 15"
  shows "first_code lengths l + count_of lengths l \<le> 2 ^ l"
proof -
  obtain j where j: "l = Suc j" using assms(3) by (cases l) auto
  note c = counts_of
  have "drop 1 (counts_of lengths) ! i = count_of lengths (Suc i)" if "i \<le> j" for i
    using that c assms(4) j by simp
  then show ?thesis using code_space_left [OF assms(2), of j] c(1) assms(4) unfolding j first_code_sum by simp
qed

lemma first_code_later:
  assumes "j < l"
  shows "2 ^ (l - j) * (first_code lengths j + count_of lengths j) \<le> first_code lengths l"
  using assms
proof (induction l)
  case (Suc l)
  show ?case
  proof (cases "j = l")
    case False
    then have "2 ^ (l - j) * (first_code lengths j + count_of lengths j) \<le> first_code lengths l" using Suc by simp
    moreover have "Suc l - j = Suc (l - j)" using Suc.prems False by simp
    ultimately show ?thesis by simp
  qed simp
qed simp

text \<open>The walk over a code word.\<close>

lemma next_bit: "2 * (w div 2 ^ Suc m) + of_bool (bit w m) = (w div 2 ^ m :: nat)"
proof -
  have "w div 2 ^ Suc m = w div 2 ^ m div 2" by (metis div_mult2_eq power_Suc2)
  moreover have "2 * (x div 2) + of_bool (odd x) = x" for x :: nat by (cases "even x") auto
  ultimately show ?thesis by (simp add: bit_iff_odd)
qed

lemma walk_code:
  assumes "bounded lengths" "code_space 1 (drop 1 (counts_of lengths))" "s < length lengths" "lengths ! s \<noteq> 0"
    and "symbols ! place_of lengths s = s" "place_of lengths s < length symbols"
    and "starts_with_code data pos (lengths ! s) (code_word lengths s)" "j < lengths ! s"
  shows "walk symbols data (drop (Suc j) (counts_of lengths)) (2 * (code_word lengths s div 2 ^ (lengths ! s - j)))
    (first_code lengths (Suc j)) (base_of lengths (Suc j)) (pos + j) = Done (s, pos + lengths ! s)"
  using assms(8)
proof (induction "lengths ! s - j" arbitrary: j)
  case (Suc n)
  let ?l = "lengths ! s" and ?w = "code_word lengths s" and ?j = "Suc j"
  note c = counts_of
  have l: "?l \<le> 15" using assms(1,3) by (simp add: bounded_def)
  have d: "drop ?j (counts_of lengths) = count_of lengths ?j # drop (Suc ?j) (counts_of lengths)"
    using Suc.prems l c by (simp add: Cons_nth_drop_Suc [symmetric])
  have b: "read_bits data (pos + j) 1 = Done (of_bool (bit ?w (?l - ?j)), pos + ?j)"
    using assms(7) Suc.prems read_bit [of data "pos + j"] by (simp add: starts_with_code_def del: read_bits.simps)
  have "?l - j = Suc (?l - ?j)" using Suc.prems by simp
  then have w: "2 * (?w div 2 ^ (?l - j)) + of_bool (bit ?w (?l - ?j)) = ?w div 2 ^ (?l - ?j)" by (simp only: next_bit)
  show ?case
  proof (cases "?j = ?l")
    case True
    have "rank_of lengths s < count_of lengths ?l" using rank_less assms(3,4) .
    then show ?thesis using b w True assms(5,6) unfolding d
      by (simp add: Let_def code_word_def place_of_def get_at_def True del: read_bits.simps)
  next
    case False
    then have j: "?j < ?l" "n = ?l - ?j" using Suc by simp_all
    have "2 ^ (?l - ?j) * (first_code lengths ?j + count_of lengths ?j) \<le> ?w"
      using first_code_later [OF j(1), of lengths] by (simp add: code_word_def del: first_code.simps)
    then have "first_code lengths ?j + count_of lengths ?j \<le> ?w div 2 ^ (?l - ?j)"
      by (simp add: less_eq_div_iff_mult_less_eq mult.commute del: first_code.simps)
    moreover have "base_of lengths (Suc ?j) = base_of lengths ?j + count_of lengths ?j" by (simp add: base_of_Suc)
    ultimately show ?thesis using b w Suc.hyps(1) [OF j(2,1)] unfolding d
      by (simp add: Let_def not_less del: read_bits.simps)
  qed
qed simp

lemma huffman_decode_code:
  assumes "huffman_new lengths = Done h" "s < length lengths" "lengths ! s \<noteq> 0"
    and "starts_with_code data pos (lengths ! s) (code_word lengths s)"
  shows "huffman_decode data h pos = Done (s, pos + lengths ! s)"
proof -
  have h: "bounded lengths" "code_space 1 (drop 1 (counts_of lengths))" "h_counts h = counts_of lengths"
    "length (h_symbols h) = base_of lengths 16" "h_symbols h ! place_of lengths s = s"
    using huffman_new [of lengths] assms(1-3) by auto
  have p: "place_of lengths s < length (h_symbols h)" using place_bound [OF h(1) assms(2,3)] h(4) count_total [OF h(1)] by simp
  have "lengths ! s \<le> 15" using h(1) assms(2) by (simp add: bounded_def)
  then have "code_word lengths s < 2 ^ (lengths ! s)"
    using first_code_bound [OF h(1,2), of "lengths ! s"] rank_less [OF assms(2,3)] assms(3) by (simp add: code_word_def)
  then show ?thesis using walk_code [OF h(1,2) assms(2,3) h(5) p assms(4), of 0] assms(3)
    by (simp add: huffman_decode_def h(3) count_of_def)
qed

end
