(* ===== verification/Inflate_Streams.thy ===== *)
theory Inflate_Streams
  imports Inflate_Codes
begin

text \<open>
  What the decompressor of \<open>Inflate\<close> does on every input and on the streams of RFC 1951: it never indexes
  out of range, and a stream of stored blocks and of blocks in the fixed code is decompressed to the bytes its
  tokens stand for. The encoding side (\<open>token_bits\<close>, \<open>blocks_bits\<close>, \<open>expand\<close>) is the specification; the code
  has no encoder.
\<close>

section \<open>No index out of range\<close>

definition fits :: "Huffman \<Rightarrow> bool" where
  "fits h \<longleftrightarrow> sum_list (drop 1 (h_counts h)) \<le> length (h_symbols h)"

lemma sum_list_base: "length counts = 16 \<Longrightarrow> sum_list (drop 1 counts) = (\<Sum>k \<in> {1..<16}. counts ! k)"
  by (simp add: sum_list_sum_nth sum.shift_bounds_Suc_ivl [symmetric] atLeast0LessThan [symmetric] numeral_eq_Suc)

lemma huffman_new_fits: "huffman_new lengths = Done h \<Longrightarrow> fits h"
proof -
  assume "huffman_new lengths = Done h"
  then have h: "bounded lengths" "h_counts h = counts_of lengths" "length (h_symbols h) = base_of lengths 16"
    using huffman_new [of lengths] by auto
  show ?thesis unfolding fits_def h(2,3) sum_list_base [OF counts_of(1)]
    using counts_of(2) by (simp add: base_of_def)
qed

lemma walk_not_Stops:
  assumes "index + sum_list counts \<le> length symbols" "lo \<le> code"
  shows "walk symbols data counts code lo index pos \<noteq> Stops"
  using assms
proof (induction counts arbitrary: code lo index pos)
  case (Cons count counts)
  show ?case
  proof (cases "read_bits data pos 1")
    case (Done r)
    obtain b q where r: "r = (b, q)" by (cases r)
    show ?thesis
    proof (cases "code + b < lo + count")
      case True
      then have "lo \<le> index + (code + b)" "index + (code + b) - lo < length symbols" using Cons.prems by simp_all
      then show ?thesis using Done r True by (simp add: Let_def get_at_def del: read_bits.simps)
    next
      case False
      then have "walk symbols data counts (2 * (code + b)) (2 * (lo + count)) (index + count) q \<noteq> Stops"
        using Cons.prems by (intro Cons.IH) simp_all
      then show ?thesis using Done r False by (simp add: Let_def del: read_bits.simps)
    qed
  qed (simp_all del: read_bits.simps)
qed simp

lemma huffman_decode_not_Stops: "fits h \<Longrightarrow> huffman_decode data h pos \<noteq> Stops"
  unfolding huffman_decode_def by (rule walk_not_Stops) (simp_all add: fits_def)

lemma read_clens_not_Stops: "\<forall>slot \<in> set slots. slot < length clens \<Longrightarrow> read_clens data slots pos clens \<noteq> Stops"
  by (induction data slots pos clens rule: read_clens.induct) (auto simp: and_then_Stops simp del: read_bits.simps)

lemma length_code_not_Stops: "i < length lengths \<Longrightarrow> length_code data lengths i symbol pos \<noteq> Stops"
  by (simp add: length_code_def and_then_Stops split_def del: read_bits.simps)

lemma read_lengths_not_Stops: "fits clen \<Longrightarrow> read_lengths data clen lengths i pos \<noteq> Stops"
proof (induction data clen lengths i pos rule: read_lengths.induct)
  case (1 data clen lengths i pos)
  show ?case
    by (subst read_lengths.simps)
      (use 1 huffman_decode_not_Stops [OF 1(2)] length_code_not_Stops [of i lengths] in \<open>auto simp: and_then_Stops\<close>)
qed

lemma CLEN_ORDER_slots: "\<forall>slot \<in> set (take n CLEN_ORDER). slot < 19"
proof
  fix slot assume "slot \<in> set (take n CLEN_ORDER)"
  then have "slot \<in> set CLEN_ORDER" by (rule in_set_takeD)
  then show "slot < 19" by (auto simp: CLEN_ORDER_def)
qed

lemma dynamic_tables_not_Stops: "dynamic_tables data pos \<noteq> Stops"
  using read_clens_not_Stops [of _ "replicate 19 0"] CLEN_ORDER_slots read_lengths_not_Stops huffman_new_fits
  by (auto simp: dynamic_tables_def and_then_Stops Let_def simp del: read_bits.simps split: if_splits dest!: read_lengths_Done)

lemma dynamic_tables_fit: "dynamic_tables data pos = Done ((lit, dist), p) \<Longrightarrow> fits lit \<and> fits dist"
  using huffman_new_fits by (auto simp: dynamic_tables_def and_then_Done Let_def simp del: read_bits.simps split: if_splits)

lemma DIST_BASE_pos: "j < 30 \<Longrightarrow> 0 < DIST_BASE ! j"
proof -
  assume "j < 30"
  then have "DIST_BASE ! j \<in> set DIST_BASE" by (intro nth_mem) (simp add: DIST_BASE_def)
  then show ?thesis by (auto simp: DIST_BASE_def)
qed

lemma copy_back_not_Stops: "0 < d \<Longrightarrow> d \<le> length out \<Longrightarrow> copy_back d n out \<noteq> Stops"
  by (induction d n out rule: copy_back.induct) (auto simp: and_then_Stops)

lemma length_tables [simp]: "length LENGTH_BASE = 29" "length LENGTH_EXTRA = 29" "length DIST_BASE = 30" "length DIST_EXTRA = 30"
  by (simp_all add: LENGTH_BASE_def LENGTH_EXTRA_def DIST_BASE_def DIST_EXTRA_def)

text \<open>A back reference: the length and distance symbols are inside their tables, and the distance inside the output.\<close>

lemma copy_match_not_Stops: "fits dist \<Longrightarrow> idx \<le> 28 \<Longrightarrow> copy_match data dist limit idx pos out \<noteq> Stops"
  using huffman_decode_not_Stops copy_back_not_Stops DIST_BASE_pos
  by (auto simp: copy_match_def and_then_Stops Let_def not_le simp del: read_bits.simps)

lemma inflate_compressed_not_Stops: "fits lit \<Longrightarrow> fits dist \<Longrightarrow> inflate_compressed data limit lit dist pos out \<noteq> Stops"
proof (induction data limit lit dist pos out rule: inflate_compressed.induct)
  case (1 data limit lit dist pos out)
  show ?case
    by (subst inflate_compressed.simps)
      (use 1 huffman_decode_not_Stops [OF 1(3)] copy_match_not_Stops [OF 1(4)] in \<open>auto simp: and_then_Stops split: if_splits\<close>)
qed

lemma stored_block_not_Stops: "stored_block data limit pos out \<noteq> Stops"
  by (auto simp: stored_block_def and_then_Stops Let_def simp del: read_bits.simps split: option.splits if_splits)

text \<open>The fixed tables of the format are complete codes.\<close>

definition fixed_literal_lengths :: "nat list" where
  "fixed_literal_lengths = replicate 144 8 @ replicate 112 9 @ replicate 24 7 @ replicate 8 8"

lemma fixed_literals_new: "\<exists>h. fixed_literals = Done h \<and> huffman_new fixed_literal_lengths = Done h"
proof -
  have "bounded fixed_literal_lengths" by (auto simp: bounded_def fixed_literal_lengths_def)
  moreover have "code_space 1 (drop 1 (counts_of fixed_literal_lengths))" by code_simp
  ultimately obtain h where "huffman_new fixed_literal_lengths = Done h"
    using huffman_new [of fixed_literal_lengths] by (auto split: outcome.splits)
  then show ?thesis by (simp add: fixed_literals_def expected_def fixed_literal_lengths_def)
qed

lemma fixed_distances_new: "\<exists>h. fixed_distances = Done h \<and> huffman_new (replicate 30 5) = Done h"
proof -
  have "bounded (replicate 30 5)" by (auto simp: bounded_def)
  moreover have "code_space 1 (drop 1 (counts_of (replicate 30 5)))" by code_simp
  ultimately obtain h where "huffman_new (replicate 30 5) = Done h"
    using huffman_new [of "replicate 30 5"] by (auto split: outcome.splits)
  then show ?thesis by (simp add: fixed_distances_def expected_def)
qed

lemma inflate_block_not_Stops: "inflate_block data limit kind pos out \<noteq> Stops"
proof -
  obtain lit dist where f: "fixed_literals = Done lit" "fixed_distances = Done dist" "fits lit" "fits dist"
    using fixed_literals_new fixed_distances_new huffman_new_fits by blast
  have "inflate_compressed data limit lit dist pos out \<noteq> Stops" using f(3,4) by (rule inflate_compressed_not_Stops)
  moreover have "and_then (dynamic_tables data pos) (\<lambda>((lit, dist), p). inflate_compressed data limit lit dist p out) \<noteq> Stops"
    using dynamic_tables_not_Stops dynamic_tables_fit inflate_compressed_not_Stops by (fastforce simp: and_then_Stops)
  ultimately show ?thesis using stored_block_not_Stops by (simp add: inflate_block_def f(1,2))
qed

lemma inflate_loop_not_Stops: "inflate_loop data limit pos out \<noteq> Stops"
proof (induction data limit pos out rule: inflate_loop.induct)
  case (1 data limit pos out)
  show ?case
    by (subst inflate_loop.simps)
      (use 1 inflate_block_not_Stops in \<open>auto simp: and_then_Stops simp del: read_bits.simps split: if_splits\<close>)
qed

lemma inflate_not_Stops: "inflate data limit \<noteq> Stops"
  unfolding inflate_def by (rule inflate_loop_not_Stops)

lemma zlib_not_Stops: "zlib_decompress data limit \<noteq> Stops"
  using inflate_not_Stops by (auto simp: zlib_decompress_def and_then_Stops split: list.splits if_splits option.splits)

section \<open>Bits of the data\<close>

definition bits_at :: "bytes \<Rightarrow> nat \<Rightarrow> bool list \<Rightarrow> bool" where
  "bits_at data pos bs \<longleftrightarrow> (\<forall>j < length bs. data_bit data (pos + j) = Some (bs ! j))"

lemma bits_at_Nil [simp]: "bits_at data pos []"
  by (simp add: bits_at_def)

lemma bits_at_Cons [simp]: "bits_at data pos (b # bs) \<longleftrightarrow> data_bit data pos = Some b \<and> bits_at data (Suc pos) bs"
  unfolding bits_at_def by (auto simp: less_Suc_eq_0_disj)

lemma bits_at_append [simp]: "bits_at data pos (xs @ ys) \<longleftrightarrow> bits_at data pos xs \<and> bits_at data (pos + length xs) ys"
  by (induction xs arbitrary: pos) auto

text \<open>Numbers least significant bit first, code words most significant bit first.\<close>

definition low_bits :: "nat \<Rightarrow> nat \<Rightarrow> bool list" where
  "low_bits n v = map (bit v) [0..<n]"

definition code_bits :: "nat list \<Rightarrow> nat \<Rightarrow> bool list" where
  "code_bits lengths s = map (bit (code_word lengths s)) (rev [0..<lengths ! s])"

lemma length_bits [simp]: "length (low_bits n v) = n" "length (code_bits lengths s) = lengths ! s"
  by (simp_all add: low_bits_def code_bits_def)

lemma low_bits_Suc: "low_bits (Suc n) v = odd v # low_bits n (v div 2)"
  by (simp add: low_bits_def upt_conv_Cons map_Suc_upt [symmetric] bit_Suc bit_0 comp_def del: upt_Suc)

lemma read_low_bits: "bits_at data pos (low_bits n v) \<Longrightarrow> v < 2 ^ n \<Longrightarrow> read_bits data pos n = Done (v, pos + n)"
proof (induction n arbitrary: pos v)
  case (Suc n)
  have b: "data_bit data pos = Some (odd v)" "bits_at data (Suc pos) (low_bits n (v div 2))" using Suc.prems(1) by (simp_all add: low_bits_Suc)
  obtain byte where byte: "get_at data (pos div 8) = Some byte" "bit byte (pos mod 8) = odd v" using b(1) by (auto simp: data_bit_def)
  have "read_bits data (Suc pos) n = Done (v div 2, Suc pos + n)" using Suc.IH [OF b(2)] Suc.prems(2) by simp
  then show ?case using byte by simp
qed simp

lemma starts_with_code_bits: "bits_at data pos (code_bits lengths s) \<Longrightarrow> starts_with_code data pos (lengths ! s) (code_word lengths s)"
  by (simp add: bits_at_def starts_with_code_def code_bits_def rev_nth)

lemmas decode_bits = huffman_decode_code [OF _ _ _ starts_with_code_bits]

section \<open>Tokens\<close>

text \<open>
  A match carries the index of its length and distance symbols and their extra bits.
\<close>

datatype token = Literal u8 | Match nat nat nat nat

primrec token_bits :: "nat list \<Rightarrow> nat list \<Rightarrow> token \<Rightarrow> bool list" where
  "token_bits ll dl (Literal b) = code_bits ll (unat b)"
| "token_bits ll dl (Match i e j f) =
     code_bits ll (257 + i) @ low_bits (LENGTH_EXTRA ! i) e @ code_bits dl j @ low_bits (DIST_EXTRA ! j) f"

primrec valid_token :: "nat list \<Rightarrow> nat list \<Rightarrow> token \<Rightarrow> bool" where
  "valid_token ll dl (Literal b) \<longleftrightarrow> unat b < length ll \<and> ll ! unat b \<noteq> 0"
| "valid_token ll dl (Match i e j f) \<longleftrightarrow>
     i \<le> 28 \<and> 257 + i < length ll \<and> ll ! (257 + i) \<noteq> 0 \<and> e < 2 ^ (LENGTH_EXTRA ! i)
     \<and> j < 30 \<and> j < length dl \<and> dl ! j \<noteq> 0 \<and> f < 2 ^ (DIST_EXTRA ! j)"

text \<open>The bytes a match stands for repeat the last \<open>d\<close> bytes.\<close>

definition repeat_last :: "nat \<Rightarrow> nat \<Rightarrow> bytes \<Rightarrow> bytes" where
  "repeat_last d n out = out @ map (\<lambda>i. out ! (length out - d + i mod d)) [0..<n]"

lemma copy_back: "0 < d \<Longrightarrow> d \<le> length out \<Longrightarrow> copy_back d n out = Done (repeat_last d n out)"
proof (induction n arbitrary: out)
  case (Suc n)
  let ?out = "out @ [out ! (length out - d)]"
  have IH: "copy_back d n ?out = Done (repeat_last d n ?out)" using Suc by simp
  have "?out ! (Suc (length out) - d + i mod d) = out ! (length out - d + Suc i mod d)" for i
  proof (cases "Suc i mod d = 0")
    case True
    then have "Suc (i mod d) = d" using Suc.prems(1) by (metis mod_Suc nat.distinct(1))
    then have "Suc (length out) - d + i mod d = length out" using Suc.prems by simp
    then show ?thesis using True by simp
  next
    case False
    then have m: "Suc i mod d = Suc (i mod d)" by (metis mod_Suc)
    then have "Suc (i mod d) < d" using Suc.prems(1) by (metis mod_less_divisor)
    then have "Suc (length out) - d + i mod d = length out - d + Suc i mod d" "length out - d + Suc i mod d < length out"
      using Suc.prems m by simp_all
    then show ?thesis by (simp add: nth_append)
  qed
  then show ?case using Suc.prems IH
    by (simp add: repeat_last_def upt_conv_Cons map_Suc_upt [symmetric] comp_def del: upt_Suc)
qed (simp add: repeat_last_def)

definition match_length :: "nat \<Rightarrow> nat \<Rightarrow> nat" where "match_length i e = LENGTH_BASE ! i + e"
definition match_distance :: "nat \<Rightarrow> nat \<Rightarrow> nat" where "match_distance j f = DIST_BASE ! j + f"

primrec expand_token :: "token \<Rightarrow> bytes \<Rightarrow> bytes option" where
  "expand_token (Literal b) out = Some (out @ [b])"
| "expand_token (Match i e j f) out =
     (if match_distance j f \<le> length out then Some (repeat_last (match_distance j f) (match_length i e) out) else None)"

primrec expand :: "token list \<Rightarrow> bytes \<Rightarrow> bytes option" where
  "expand [] out = Some out"
| "expand (t # ts) out = Option.bind (expand_token t out) (expand ts)"

lemma expand_token_length: "expand_token t out = Some out' \<Longrightarrow> length out \<le> length out'"
  by (cases t) (auto simp: repeat_last_def split: if_splits)

lemma expand_length: "expand ts out = Some out' \<Longrightarrow> length out \<le> length out'"
proof (induction ts arbitrary: out)
  case (Cons t ts)
  then obtain out2 where "expand_token t out = Some out2" "expand ts out2 = Some out'" by (auto simp: bind_eq_Some_conv)
  then show ?case using Cons.IH expand_token_length le_trans by blast
qed simp

lemma copy_match_token:
  assumes "huffman_new dl = Done dist" "valid_token ll dl (Match i e j f)" "expand_token (Match i e j f) out = Some out'" "length out' \<le> limit"
    and "bits_at data pos (low_bits (LENGTH_EXTRA ! i) e @ code_bits dl j @ low_bits (DIST_EXTRA ! j) f)"
  shows "copy_match data dist limit i pos out = Done (out', pos + (LENGTH_EXTRA ! i + dl ! j + DIST_EXTRA ! j))"
proof -
  let ?d = "match_distance j f" and ?n = "match_length i e"
  have v: "e < 2 ^ (LENGTH_EXTRA ! i)" "j < 30" "j < length dl" "dl ! j \<noteq> 0" "f < 2 ^ (DIST_EXTRA ! j)" "i \<le> 28" using assms(2) by simp_all
  have o: "?d \<le> length out" "out' = repeat_last ?d ?n out" using assms(3) by (auto split: if_splits)
  have d: "0 < ?d" using DIST_BASE_pos [OF v(2)] by (simp add: match_distance_def)
  have n: "length out + ?n \<le> limit" using assms(4) unfolding o(2) by (simp add: repeat_last_def)
  have r1: "read_bits data pos (LENGTH_EXTRA ! i) = Done (e, pos + LENGTH_EXTRA ! i)" using assms(5) v(1) by (intro read_low_bits) simp_all
  have r2: "huffman_decode data dist (pos + LENGTH_EXTRA ! i) = Done (j, pos + LENGTH_EXTRA ! i + dl ! j)"
    using assms(5) v by (intro decode_bits [OF assms(1)]) simp_all
  have r3: "read_bits data (pos + LENGTH_EXTRA ! i + dl ! j) (DIST_EXTRA ! j) = Done (f, pos + LENGTH_EXTRA ! i + dl ! j + DIST_EXTRA ! j)"
    using assms(5) v(5) by (intro read_low_bits) (simp_all add: add.assoc)
  show ?thesis using r1 r2 r3 o(1) n copy_back [OF d o(1), of ?n] v(2,6) unfolding o(2)
    by (simp add: copy_match_def Let_def match_distance_def match_length_def not_less add.assoc)
qed

theorem inflate_compressed_tokens:
  assumes "huffman_new ll = Done lit" "huffman_new dl = Done dist" "256 < length ll" "ll ! 256 \<noteq> 0"
    and "\<forall>t \<in> set ts. valid_token ll dl t" "expand ts out = Some out'" "length out' \<le> limit"
    and "bits_at data pos (concat (map (token_bits ll dl) ts) @ code_bits ll 256)"
  shows "inflate_compressed data limit lit dist pos out = Done (out', pos + length (concat (map (token_bits ll dl) ts) @ code_bits ll 256))"
  using assms(5-8)
proof (induction ts arbitrary: out pos)
  case Nil
  have "huffman_decode data lit pos = Done (256, pos + ll ! 256)" using Nil.prems(4) assms(3,4) by (intro decode_bits [OF assms(1)]) simp_all
  then show ?case using Nil.prems(2) by (subst inflate_compressed.simps) simp
next
  case (Cons t ts)
  obtain out2 where o: "expand_token t out = Some out2" "expand ts out2 = Some out'" using Cons.prems(2) by (auto simp: bind_eq_Some_conv)
  have l2: "length out2 \<le> limit" using expand_length [OF o(2)] Cons.prems(3) by simp
  have vt: "valid_token ll dl t" "\<forall>t \<in> set ts. valid_token ll dl t" using Cons.prems(1) by simp_all
  let ?rest = "concat (map (token_bits ll dl) ts) @ code_bits ll 256"
  have b: "bits_at data pos (token_bits ll dl t)" "bits_at data (pos + length (token_bits ll dl t)) ?rest"
    using Cons.prems(4) by (simp_all add: add.assoc)
  have IH: "inflate_compressed data limit lit dist (pos + length (token_bits ll dl t)) out2
      = Done (out', pos + length (token_bits ll dl t) + length ?rest)"
    using Cons.IH [OF vt(2) o(2) Cons.prems(3) b(2)] .
  show ?case
  proof (cases t)
    case (Literal w)
    have d: "huffman_decode data lit pos = Done (unat w, pos + ll ! unat w)"
      using vt(1) b(1) unfolding Literal by (intro decode_bits [OF assms(1)]) simp_all
    have "unat w < 2 ^ LENGTH(8)" by (rule unsigned_less)
    then have w: "unat w \<le> 255" by simp
    have "out2 = out @ [w]" using o(1) Literal by simp
    moreover have "length out < limit" using l2 calculation by simp
    ultimately show ?thesis using d w IH unfolding Literal
      by (subst inflate_compressed.simps) (simp add: not_le add.assoc)
  next
    case (Match i e j f)
    have v: "i \<le> 28" "257 + i < length ll" "ll ! (257 + i) \<noteq> 0" using vt(1) unfolding Match by simp_all
    have d: "huffman_decode data lit pos = Done (257 + i, pos + ll ! (257 + i))"
      using v b(1) unfolding Match by (intro decode_bits [OF assms(1)]) simp_all
    have m: "copy_match data dist limit i (pos + ll ! (257 + i)) out
        = Done (out2, pos + ll ! (257 + i) + (LENGTH_EXTRA ! i + dl ! j + DIST_EXTRA ! j))"
      using copy_match_token [OF assms(2) vt(1) [unfolded Match] o(1) [unfolded Match] l2] b(1) unfolding Match by simp
    show ?thesis using d m IH v(1) unfolding Match
      by (subst inflate_compressed.simps) (simp add: add.assoc)
  qed
qed


section \<open>Blocks and streams\<close>

datatype stream_block = Stored bytes | Fixed "token list"

definition fixed_bits :: "token list \<Rightarrow> bool list" where
  "fixed_bits ts = concat (map (token_bits fixed_literal_lengths (replicate 30 5)) ts) @ code_bits fixed_literal_lengths 256"

text \<open>The bits of a block that begins at bit \<open>pos\<close>: a stored block is aligned to a byte.\<close>

definition byte_bits :: "bytes \<Rightarrow> bool list" where
  "byte_bits bs = concat (map (\<lambda>b. map (bit b) [0..<8]) bs)"

primrec block_bits :: "bool \<Rightarrow> nat \<Rightarrow> stream_block \<Rightarrow> bool list" where
  "block_bits final pos (Stored bs) =
     low_bits 1 (of_bool final) @ low_bits 2 0 @ replicate ((pos + 3 + 7) div 8 * 8 - (pos + 3)) False
     @ low_bits 16 (length bs) @ low_bits 16 (0xFFFF - length bs) @ byte_bits bs"
| "block_bits final pos (Fixed ts) = low_bits 1 (of_bool final) @ low_bits 2 1 @ fixed_bits ts"

fun blocks_bits :: "nat \<Rightarrow> stream_block list \<Rightarrow> bool list" where
  "blocks_bits pos [] = []"
| "blocks_bits pos [b] = block_bits True pos b"
| "blocks_bits pos (b # bs) = block_bits False pos b @ blocks_bits (pos + length (block_bits False pos b)) bs"

primrec valid_block :: "stream_block \<Rightarrow> bool" where
  "valid_block (Stored bs) \<longleftrightarrow> length bs \<le> 0xFFFF"
| "valid_block (Fixed ts) \<longleftrightarrow> (\<forall>t \<in> set ts. valid_token fixed_literal_lengths (replicate 30 5) t)"

primrec expand_block :: "stream_block \<Rightarrow> bytes \<Rightarrow> bytes option" where
  "expand_block (Stored bs) out = Some (out @ bs)"
| "expand_block (Fixed ts) out = expand ts out"

primrec expand_blocks :: "stream_block list \<Rightarrow> bytes \<Rightarrow> bytes option" where
  "expand_blocks [] out = Some out"
| "expand_blocks (b # bs) out = Option.bind (expand_block b out) (expand_blocks bs)"

lemma expand_blocks_length: "expand_blocks bs out = Some out' \<Longrightarrow> length out \<le> length out'"
proof (induction bs arbitrary: out)
  case (Cons b bs)
  then obtain out2 where o: "expand_block b out = Some out2" "expand_blocks bs out2 = Some out'" by (auto simp: bind_eq_Some_conv)
  have "length out \<le> length out2" using o(1) by (cases b) (auto dest: expand_length)
  then show ?case using Cons.IH [OF o(2)] by simp
qed simp

lemma length_byte_bits [simp]: "length (byte_bits bs) = 8 * length bs"
  by (induction bs) (simp_all add: byte_bits_def)

lemma byte_bits_Cons: "byte_bits (b # bs) = map (bit b) [0..<8] @ byte_bits bs"
  by (simp add: byte_bits_def)

lemma bits_at_byte:
  assumes "bits_at data (8 * k) (map (bit (b :: u8)) [0..<8])"
  shows "k < length data \<and> data ! k = b"
proof -
  have d: "data_bit data (8 * k + j) = Some (bit b j)" if "j < 8" for j
    using assms that unfolding bits_at_def by (auto dest: spec [of _ j])
  have k: "k < length data" using d [of 0] by (auto simp: data_bit_def get_at_def split: if_splits)
  have "bit (data ! k) j = bit b j" if "j < 8" for j
  proof -
    have "(8 * k + j) div 8 = k" "(8 * k + j) mod 8 = j" using that by simp_all
    then show ?thesis using d [OF that] k by (simp add: data_bit_def get_at_def)
  qed
  then have "data ! k = b" by (intro bit_word_eqI) simp
  then show ?thesis using k by simp
qed

lemma bits_at_bytes:
  assumes "bits_at data (8 * k) (byte_bits bs)" "k \<le> length data"
  shows "get_range data k (k + length bs) = Some bs"
proof -
  have "k + length bs \<le> length data \<and> take (length bs) (drop k data) = bs" using assms
  proof (induction bs arbitrary: k)
    case (Cons b bs)
    have b: "bits_at data (8 * k) (map (bit b) [0..<8])" "bits_at data (8 * Suc k) (byte_bits bs)"
      using Cons.prems(1) by (simp_all add: byte_bits_Cons add.commute del: upt_Suc)
    have k: "k < length data" "data ! k = b" using bits_at_byte [OF b(1)] by simp_all
    have "Suc k + length bs \<le> length data \<and> take (length bs) (drop (Suc k) data) = bs" using Cons.IH [OF b(2)] k(1) by simp
    then show ?case using k Cons_nth_drop_Suc [OF k(1), symmetric] by simp
  qed simp
  then show ?thesis by (simp add: get_range_def)
qed

lemma unat_numeral_65535: "unat (0xFFFF :: 16 word) = 0xFFFF"
  by simp

lemma xor_complement: "n \<le> 0xFFFF \<Longrightarrow> n XOR (0xFFFF - n) = (0xFFFF :: nat)"
proof -
  assume n: "n \<le> 0xFFFF"
  have "(word_of_nat n :: 16 word) XOR word_of_nat (0xFFFF - n) = 0xFFFF"
  proof -
    have "(word_of_nat (0xFFFF - n) :: 16 word) = word_of_nat 0xFFFF - word_of_nat n" using n by (simp add: of_nat_diff)
    also have "\<dots> = NOT (word_of_nat n)" by (simp add: not_eq_complement)
    finally show ?thesis by simp
  qed
  then have "unat (word_of_nat n :: 16 word) XOR unat (word_of_nat (0xFFFF - n) :: 16 word) = 0xFFFF"
    by (metis unsigned_xor_eq unat_numeral_65535)
  moreover have "unat (word_of_nat n :: 16 word) = n" "unat (word_of_nat (0xFFFF - n) :: 16 word) = 0xFFFF - n"
    using n by (simp_all only: unsigned_of_nat) (simp_all add: take_bit_nat_eq_self)
  ultimately show ?thesis by simp
qed

lemma stored_block_bits:
  assumes "length bs \<le> 0xFFFF" "length out + length bs \<le> limit"
    and "bits_at data pos (replicate ((pos + 7) div 8 * 8 - pos) False @ low_bits 16 (length bs) @ low_bits 16 (0xFFFF - length bs) @ byte_bits bs)"
  shows "stored_block data limit pos out = Done (out @ bs, (pos + 7) div 8 * 8 + 32 + 8 * length bs)"
proof -
  let ?q = "(pos + 7) div 8 * 8"
  have "pos \<le> ?q" by simp
  then have b: "bits_at data ?q (low_bits 16 (length bs))" "bits_at data (?q + 16) (low_bits 16 (0xFFFF - length bs))"
    "bits_at data (8 * ((pos + 7) div 8 + 4)) (byte_bits bs)"
    using assms(3) by (simp_all add: add.assoc add.commute mult.commute del: div_mult_self1 div_mult_self2)
  have r1: "read_bits data ?q 16 = Done (length bs, ?q + 16)" using b(1) assms(1) by (intro read_low_bits) simp_all
  have r2: "read_bits data (?q + 16) 16 = Done (0xFFFF - length bs, ?q + 16 + 16)" using b(2) by (intro read_low_bits) simp_all
  have "?q + 16 + 16 \<le> 8 * length data" using read_bits_Done [OF r2] by simp
  then have g: "get_range data ((pos + 7) div 8 + 4) ((pos + 7) div 8 + 4 + length bs) = Some bs" by (intro bits_at_bytes [OF b(3)]) simp
  have p: "(?q + 16 + 16) div 8 = (pos + 7) div 8 + 4" by simp
  show ?thesis using r1 r2 xor_complement [OF assms(1)] assms(2) g unfolding stored_block_def Let_def
    by (simp add: p add_ac del: read_bits.simps)
qed

lemma fixed_block_bits:
  assumes "\<forall>t \<in> set ts. valid_token fixed_literal_lengths (replicate 30 5) t" "expand ts out = Some out'" "length out' \<le> limit"
    and "bits_at data pos (fixed_bits ts)"
  shows "inflate_block data limit 1 pos out = Done (out', pos + length (fixed_bits ts))"
proof -
  obtain lit dist where h: "fixed_literals = Done lit" "fixed_distances = Done dist"
    "huffman_new fixed_literal_lengths = Done lit" "huffman_new (replicate 30 5) = Done dist"
    using fixed_literals_new fixed_distances_new by blast
  have "256 < length fixed_literal_lengths" "fixed_literal_lengths ! 256 \<noteq> 0"
    by (simp_all add: fixed_literal_lengths_def nth_append)
  then show ?thesis
    using inflate_compressed_tokens [OF h(3,4) _ _ assms(1-3), of data pos] assms(4)
    by (simp add: inflate_block_def h(1,2) fixed_bits_def)
qed

text \<open>One block, after its header.\<close>

definition block_body :: "nat \<Rightarrow> stream_block \<Rightarrow> bool list" where
  "block_body pos b = drop 3 (block_bits True (pos - 3) b)"

definition block_kind :: "stream_block \<Rightarrow> nat" where
  "block_kind b = (case b of Stored _ \<Rightarrow> 0 | Fixed _ \<Rightarrow> 1)"

lemma block_bits_body: "block_bits final pos b = low_bits 1 (of_bool final) @ low_bits 2 (block_kind b) @ block_body (pos + 3) b"
  by (cases b) (simp_all add: block_body_def block_kind_def)

lemma inflate_block_bits:
  assumes "valid_block b" "expand_block b out = Some out'" "length out' \<le> limit" "bits_at data (pos + 3) (block_body (pos + 3) b)"
  shows "inflate_block data limit (block_kind b) (pos + 3) out = Done (out', pos + 3 + length (block_body (pos + 3) b))"
proof (cases b)
  case (Stored bs)
  have "length out + length bs \<le> limit" using assms(2,3) Stored by auto
  then have "inflate_block data limit 0 (pos + 3) out = Done (out @ bs, (pos + 3 + 7) div 8 * 8 + 32 + 8 * length bs)"
    unfolding inflate_block_def using stored_block_bits [of bs out limit data "pos + 3"] assms Stored by (simp add: block_body_def)
  then show ?thesis using assms(2) Stored by (simp add: block_kind_def block_body_def)
next
  case (Fixed ts)
  have "bits_at data (pos + 3) (fixed_bits ts)" using assms(4) Fixed by (simp add: block_body_def)
  then show ?thesis using fixed_block_bits [of ts out out' limit data "pos + 3"] assms Fixed
    by (simp add: block_kind_def block_body_def)
qed

lemma inflate_loop_blocks:
  assumes "bs \<noteq> []" "\<forall>b \<in> set bs. valid_block b" "expand_blocks bs out = Some out'" "length out' \<le> limit"
    and "bits_at data pos (blocks_bits pos bs)"
  shows "inflate_loop data limit pos out = Done (out', (pos + length (blocks_bits pos bs) + 7) div 8)"
  using assms
proof (induction pos bs arbitrary: out rule: blocks_bits.induct)
  case (2 pos b)
  have b: "bits_at data pos (low_bits 1 1)" "bits_at data (pos + 1) (low_bits 2 (block_kind b))" "bits_at data (pos + 3) (block_body (pos + 3) b)"
    using "2.prems"(5) by (simp_all add: block_bits_body [of _ _ b] numeral_3_eq_3)
  have k: "block_kind b < 2 ^ 2" by (simp add: block_kind_def split: stream_block.split)
  have e: "expand_block b out = Some out'" using "2.prems"(3) by (auto simp: bind_eq_Some_conv)
  have r: "read_bits data pos 1 = Done (1, pos + 1)" "read_bits data (pos + 1) 2 = Done (block_kind b, pos + 3)"
    using read_low_bits [OF b(1)] read_low_bits [OF b(2) k] by simp_all
  have "inflate_block data limit (block_kind b) (pos + 3) out = Done (out', pos + 3 + length (block_body (pos + 3) b))"
    using inflate_block_bits [OF _ e "2.prems"(4) b(3)] "2.prems"(2) by simp
  then show ?case unfolding inflate_loop.simps [of data limit pos out] r and_then_simps prod.case
    by (simp add: block_bits_body [of _ _ b] add.assoc)
next
  case (3 pos b c bs)
  obtain out2 where e: "expand_block b out = Some out2" "expand_blocks (c # bs) out2 = Some out'"
    using "3.prems"(3) by (auto simp: bind_eq_Some_conv)
  have l: "length out2 \<le> limit" using expand_blocks_length [OF e(2)] "3.prems"(4) by simp
  let ?p = "pos + length (block_bits False pos b)"
  have b: "bits_at data pos (low_bits 1 0)" "bits_at data (pos + 1) (low_bits 2 (block_kind b))" "bits_at data (pos + 3) (block_body (pos + 3) b)"
    "bits_at data ?p (blocks_bits ?p (c # bs))"
    using "3.prems"(5) by (simp_all add: block_bits_body [of _ _ b] numeral_3_eq_3)
  have k: "block_kind b < 2 ^ 2" by (simp add: block_kind_def split: stream_block.split)
  have p: "pos + 3 + length (block_body (pos + 3) b) = ?p" by (simp add: block_bits_body [of _ _ b])
  have blk: "inflate_block data limit (block_kind b) (pos + 3) out = Done (out2, ?p)"
    using inflate_block_bits [OF _ e(1) l b(3)] "3.prems"(2) unfolding p by simp
  have IH: "inflate_loop data limit ?p out2 = Done (out', (?p + length (blocks_bits ?p (c # bs)) + 7) div 8)"
    using "3.IH" [OF _ _ e(2) "3.prems"(4) b(4)] "3.prems"(2) by simp
  have r: "read_bits data pos 1 = Done (0, pos + 1)" "read_bits data (pos + 1) 2 = Done (block_kind b, pos + 3)"
    using read_low_bits [OF b(1)] read_low_bits [OF b(2) k] by simp_all
  show ?case unfolding inflate_loop.simps [of data limit pos out] r and_then_simps prod.case blk using IH by (simp add: add.assoc)
qed simp


lemma inflate_stream:
  assumes "bs \<noteq> []" "\<forall>b \<in> set bs. valid_block b" "expand_blocks bs [] = Some out" "length out \<le> limit"
    and "bits_at data 0 (blocks_bits 0 bs)"
  shows "inflate data limit = Done (out, (length (blocks_bits 0 bs) + 7) div 8)"
  using inflate_loop_blocks [OF assms] by (simp add: inflate_def)

text \<open>Bytes that follow a stream change nothing.\<close>

lemma data_bit_append: "data_bit data pos = Some b \<Longrightarrow> data_bit (data @ rest) pos = Some b"
  by (auto simp: data_bit_def get_at_def nth_append split: if_splits)

lemma bits_at_more: "bits_at data pos bs \<Longrightarrow> bits_at (data @ rest) pos bs"
  by (simp add: bits_at_def data_bit_append)

section \<open>The checksum\<close>

text \<open>Adler-32 with unbounded sums, reduced once at the end.\<close>

fun adler_sums :: "bytes \<Rightarrow> nat \<times> nat \<Rightarrow> nat \<times> nat" where
  "adler_sums [] (a, b) = (a, b)"
| "adler_sums (x # xs) (a, b) = adler_sums xs (a + unat x, b + (a + unat x))"

definition adler_spec :: "bytes \<Rightarrow> nat" where
  "adler_spec data = (let (a, b) = adler_sums data (1, 0) in (b mod 65521) * 65536 + a mod 65521)"

lemma adler_chunk_sums:
  "adler_chunk bs (word_of_nat a, word_of_nat b) = (word_of_nat (fst (adler_sums bs (a, b))), word_of_nat (snd (adler_sums bs (a, b))))"
proof (induction bs arbitrary: a b)
  case (Cons x xs)
  then show ?case using Cons [of "a + unat x" "b + (a + unat x)"] by (simp add: Let_def)
qed simp

lemma adler_step:
  assumes "2 * s \<le> 2 * (b + (a + x)) + 2 * (p + q) + 255 * r" "q \<le> n * 255" "x \<le> (255 :: nat)"
  shows "2 * s \<le> 2 * b + 2 * (p + a) + 255 * (r + 2 * n + 2)"
  using assms by simp

lemma adler_sums_bound:
  "fst (adler_sums bs (a, b)) \<le> a + 255 * length bs
   \<and> 2 * snd (adler_sums bs (a, b)) \<le> 2 * b + 2 * (length bs * a) + 255 * (length bs * (length bs + 1))"
proof (induction bs arbitrary: a b)
  case (Cons x xs)
  have "unat x < 2 ^ LENGTH(8)" by (rule unsigned_less)
  then have x: "unat x \<le> 255" by simp
  let ?n = "length xs"
  have IH: "fst (adler_sums xs (a + unat x, b + (a + unat x))) \<le> a + unat x + 255 * ?n"
    "2 * snd (adler_sums xs (a + unat x, b + (a + unat x))) \<le> 2 * (b + (a + unat x)) + 2 * (?n * (a + unat x)) + 255 * (?n * (?n + 1))"
    using Cons [of "a + unat x" "b + (a + unat x)"] by simp_all
  have q: "?n * unat x \<le> ?n * 255" using x by (rule mult_left_mono) simp
  have e: "?n * (a + unat x) = ?n * a + ?n * unat x" "Suc ?n * a = ?n * a + a" "Suc ?n * (Suc ?n + 1) = ?n * (?n + 1) + 2 * ?n + 2"
    by (simp_all add: distrib_left)
  have "2 * snd (adler_sums xs (a + unat x, b + (a + unat x))) \<le> 2 * b + 2 * (Suc ?n * a) + 255 * (Suc ?n * (Suc ?n + 1))"
    using IH(2) q x unfolding e by (rule adler_step)
  then show ?case using IH(1) x by simp
qed simp

lemma adler_sums_append: "adler_sums (xs @ ys) ab = adler_sums ys (adler_sums xs ab)"
  by (induction xs arbitrary: ab) (auto simp: split_paired_all)

lemma adler_sums_mod:
  assumes "a mod m = a' mod m" "b mod m = b' mod m"
  shows "fst (adler_sums xs (a, b)) mod m = fst (adler_sums xs (a', b')) mod m
    \<and> snd (adler_sums xs (a, b)) mod m = snd (adler_sums xs (a', b')) mod (m :: nat)"
  using assms
proof (induction xs arbitrary: a b a' b')
  case (Cons x xs)
  have a: "(a + unat x) mod m = (a' + unat x) mod m" using Cons.prems(1) by (metis mod_add_left_eq)
  moreover have "(b + (a + unat x)) mod m = (b' + (a' + unat x)) mod m" using Cons.prems(2) a by (metis mod_add_eq)
  ultimately show ?case unfolding adler_sums.simps by (rule Cons.IH)
qed simp

text \<open>The 32-bit sums of a chunk do not wrap.\<close>

lemma adler_chunks_sums:
  assumes "a < 65521" "b < 65521"
  shows "\<exists>a' b'. adler_chunks data (word_of_nat a, word_of_nat b) = (word_of_nat a', word_of_nat b') \<and> a' < 65521 \<and> b' < 65521
    \<and> a' = fst (adler_sums data (a, b)) mod 65521 \<and> b' = snd (adler_sums data (a, b)) mod 65521"
  using assms
proof (induction "length data" arbitrary: data a b rule: less_induct)
  case less
  show ?case
  proof (cases "data = []")
    case True
    then show ?thesis using less.prems by (subst adler_chunks.simps) auto
  next
    case False
    let ?c = "take 5552 data" and ?d = "drop 5552 data"
    obtain a2 b2 where ab: "adler_sums ?c (a, b) = (a2, b2)" by fastforce
    define n where "n = length ?c"
    have n: "n \<le> 5552" by (simp add: n_def)
    have "n * a \<le> 5552 * 65520" using n less.prems(1) by (intro mult_mono) simp_all
    moreover have "n * (n + 1) \<le> 5552 * 5553" using n by (intro mult_mono) simp_all
    moreover have "a2 \<le> a + 255 * n" "2 * b2 \<le> 2 * b + 2 * (n * a) + 255 * (n * (n + 1))"
      using adler_sums_bound [of ?c a b, folded n_def] unfolding ab by simp_all
    ultimately have "a2 < 4294967296" "b2 < 4294967296" using less.prems n by linarith+
    then have bound: "a2 < 2 ^ 32" "b2 < 2 ^ 32" by simp_all
    have m: "(word_of_nat a2 :: u32) mod 65521 = word_of_nat (a2 mod 65521)" "(word_of_nat b2 :: u32) mod 65521 = word_of_nat (b2 mod 65521)"
      using bound by (simp_all add: word_arith_nat_mod unsigned_of_nat take_bit_nat_eq_self del: of_nat_unat)
    have "length ?d < length data" using False by simp
    then obtain a' b' where IH: "adler_chunks ?d (word_of_nat (a2 mod 65521), word_of_nat (b2 mod 65521)) = (word_of_nat a', word_of_nat b')"
      "a' < 65521" "b' < 65521" "a' = fst (adler_sums ?d (a2 mod 65521, b2 mod 65521)) mod 65521" "b' = snd (adler_sums ?d (a2 mod 65521, b2 mod 65521)) mod 65521"
      using less.hyps [of ?d "a2 mod 65521" "b2 mod 65521"] by auto
    have "adler_chunks data (word_of_nat a, word_of_nat b) = adler_chunks ?d (word_of_nat (a2 mod 65521), word_of_nat (b2 mod 65521))"
      using False m by (subst adler_chunks.simps) (simp add: adler_chunk_sums ab)
    moreover have "adler_sums data (a, b) = adler_sums ?d (a2, b2)" using adler_sums_append [of ?c ?d "(a, b)"] ab by simp
    ultimately show ?thesis using IH adler_sums_mod [of "a2 mod 65521" 65521 a2 "b2 mod 65521" b2 ?d] by simp
  qed
qed

lemma adler32_spec: "unat (adler32 data) = adler_spec data"
proof -
  obtain a b where ab: "adler_chunks data (1, 0) = (word_of_nat a, word_of_nat b)" "a < 65521" "b < 65521"
    "a = fst (adler_sums data (1, 0)) mod 65521" "b = snd (adler_sums data (1, 0)) mod 65521"
    using adler_chunks_sums [of 1 0 data] by auto
  have "push_bit 16 (word_of_nat b) AND (word_of_nat a :: u32) = 0"
  proof (rule bit_word_eqI)
    fix n assume "n < LENGTH(32)"
    have "\<not> bit a n" if "16 \<le> n"
    proof -
      have "a < 2 ^ 16" using ab(2) by simp
      also have "(2 :: nat) ^ 16 \<le> 2 ^ n" using that by (intro power_increasing) simp_all
      finally show ?thesis by (simp add: bit_iff_odd)
    qed
    then show "bit (push_bit 16 (word_of_nat b) AND (word_of_nat a :: u32)) n = bit (0 :: u32) n"
      by (auto simp: bit_simps)
  qed
  then have "adler32 data = push_bit 16 (word_of_nat b) + word_of_nat a"
    by (simp add: adler32_def ab(1) disjunctive_add_eq_or)
  also have "\<dots> = word_of_nat (b * 65536 + a)" by (simp add: push_bit_eq_mult)
  finally have "adler32 data = word_of_nat (b * 65536 + a)" .
  moreover have "b * 65536 + a < 2 ^ 32" using ab(2,3) by simp
  ultimately have "unat (adler32 data) = b * 65536 + a" by (simp only: unsigned_of_nat) (simp add: take_bit_nat_eq_self)
  then show ?thesis using ab(4,5) by (simp add: adler_spec_def split_def Let_def)
qed

section \<open>The zlib wrapper\<close>

definition zlib_header :: "u8 \<Rightarrow> u8 \<Rightarrow> bool" where
  "zlib_header cmf flg \<longleftrightarrow> cmf AND 0x0F = 8 \<and> (256 * unat cmf + unat flg) mod 31 = 0 \<and> flg AND 0x20 = 0"

text \<open>The bytes that hold a bit stream, the last one filled up with zeros.\<close>

function pack_bits :: "bool list \<Rightarrow> bytes" where
  "pack_bits bs = (if bs = [] then [] else horner_sum of_bool 2 (take 8 bs) # pack_bits (drop 8 bs))"
  by pat_completeness auto
termination by (relation "measure length") auto

declare pack_bits.simps [simp del]

lemma length_pack_bits: "length (pack_bits bs) = (length bs + 7) div 8"
proof (induction bs rule: pack_bits.induct)
  case (1 bs)
  show ?case
  proof (cases "bs = []")
    case False
    then have "length (pack_bits bs) = Suc ((length bs - 8 + 7) div 8)" using 1 by (subst pack_bits.simps) simp
    moreover have "Suc ((n - 8 + 7) div 8) = (n + 7) div 8" if "0 < n" for n :: nat
      using le_div_geq [of 8 "n + 7"] that by (cases "n < 8") simp_all
    ultimately show ?thesis using False by simp
  qed (simp add: pack_bits.simps)
qed

lemma data_bit_pack: "j < length bs \<Longrightarrow> data_bit (pack_bits bs) j = Some (bs ! j)"
proof (induction bs arbitrary: j rule: pack_bits.induct)
  case (1 bs)
  have p: "pack_bits bs = horner_sum of_bool 2 (take 8 bs) # pack_bits (drop 8 bs)" using 1(2) by (subst pack_bits.simps) auto
  show ?case
  proof (cases "j < 8")
    case True
    then show ?thesis using 1(2) unfolding p by (simp add: data_bit_def get_at_def bit_horner_sum_bit_word_iff)
  next
    case False
    then have j: "j div 8 = Suc ((j - 8) div 8)" "j mod 8 = (j - 8) mod 8" by (simp_all add: le_div_geq le_mod_geq)
    have "data_bit (pack_bits (drop 8 bs)) (j - 8) = Some (drop 8 bs ! (j - 8))" 
    proof -
      have "bs \<noteq> []" "j - 8 < length (drop 8 bs)" using 1(2) False by auto
      then show ?thesis by (rule 1(1))
    qed
    moreover have "data_bit (b # data) j = data_bit data (j - 8)" for b data unfolding data_bit_def j get_at_def by simp
    ultimately show ?thesis using 1(2) False unfolding p by simp
  qed
qed

lemma bits_at_pack: "bits_at (pack_bits bs @ rest) 0 bs"
  by (rule bits_at_more) (simp add: bits_at_def data_bit_pack)

lemma zlib_stream:
  assumes "zlib_header cmf flg" "bs \<noteq> []" "\<forall>b \<in> set bs. valid_block b" "expand_blocks bs [] = Some out" "length out \<le> limit"
    and "bits_at data 0 (blocks_bits 0 bs)" "length data = (length (blocks_bits 0 bs) + 7) div 8"
  shows "zlib_decompress (cmf # flg # data @ trailer) limit
    = (if length trailer < 4 then Fails Truncated else if take 4 trailer = be_bytes 4 (adler32 out) then Done out else Fails BadChecksum)"
proof -
  have i: "inflate (data @ trailer) limit = Done (out, length data)"
    using inflate_stream [OF assms(2-5) bits_at_more [OF assms(6)]] assms(7) by simp
  have g: "get_range (data @ trailer) (length data) (length data + 4) = (if length trailer < 4 then None else Some (take 4 trailer))"
    by (simp add: get_range_def)
  have t: "adler32 out = of_be (take 4 trailer) \<longleftrightarrow> take 4 trailer = be_bytes 4 (adler32 out)" if "4 \<le> length trailer"
  proof
    assume "adler32 out = of_be (take 4 trailer)"
    then show "take 4 trailer = be_bytes 4 (adler32 out)" using be_bytes_of_be [of "take 4 trailer", where 'a = 32] that by simp
  next
    assume "take 4 trailer = be_bytes 4 (adler32 out)"
    then show "adler32 out = of_be (take 4 trailer)" by (simp add: of_be_be_bytes)
  qed
  show ?thesis using assms(1) i g t by (auto simp: zlib_decompress_def zlib_header_def)
qed


text \<open>A zlib stream of blocks.\<close>

definition zlib_bytes :: "u8 \<Rightarrow> u8 \<Rightarrow> stream_block list \<Rightarrow> bytes" where
  "zlib_bytes cmf flg bs =
     cmf # flg # pack_bits (blocks_bits 0 bs) @ be_bytes 4 (adler32 (case expand_blocks bs [] of Some out \<Rightarrow> out | None \<Rightarrow> []))"

lemma zlib_bytes:
  assumes "zlib_header cmf flg" "bs \<noteq> []" "\<forall>b \<in> set bs. valid_block b" "expand_blocks bs [] = Some out" "length out \<le> limit"
  shows "zlib_decompress (zlib_bytes cmf flg bs @ trailing) limit = Done out"
proof -
  have "bits_at (pack_bits (blocks_bits 0 bs)) 0 (blocks_bits 0 bs)" using bits_at_pack [of _ "[]"] by simp
  then show ?thesis using zlib_stream [OF assms(1-5), of "pack_bits (blocks_bits 0 bs)" "be_bytes 4 (adler32 out) @ trailing"]
    by (simp add: zlib_bytes_def assms(4) length_pack_bits)
qed

text \<open>A stream that is cut off inside the checksum, or whose checksum is another one, is refused.\<close>

lemma zlib_bytes_refused:
  assumes "zlib_header cmf flg" "bs \<noteq> []" "\<forall>b \<in> set bs. valid_block b" "expand_blocks bs [] = Some out" "length out \<le> limit"
    and "length trailer \<le> 4" "trailer \<noteq> be_bytes 4 (adler32 out)"
  shows "zlib_decompress (cmf # flg # pack_bits (blocks_bits 0 bs) @ trailer) limit = Fails (if length trailer < 4 then Truncated else BadChecksum)"
  using zlib_stream [OF assms(1-5), of "pack_bits (blocks_bits 0 bs)" trailer] bits_at_pack [of _ "[]"] assms(6,7)
  by (simp add: length_pack_bits)

end
