(* ===== verification/Png.thy ===== *)
theory Png
  imports Inflate_Streams
begin

text \<open>
  \<open>crates/posh-term/src/png.rs\<close>: the PNG decoder of kitty graphics. Sizes are computed in 64-bit words, as
  \<open>u64\<close> and \<open>usize\<close> do in a release build; positions in a list are natural numbers. \<open>Stops\<close> is an index out
  of range.
\<close>

datatype PngError = BadSignature | PngTruncated | BadCrc | PngBadHeader | Unsupported | BadData

record DecodedPng =
  png_width :: u32
  png_height :: u32
  png_rgba :: bytes

record Header =
  hdr_width :: u32
  hdr_height :: u32
  hdr_color :: u8

definition MAX_RGBA_BYTES :: u64 where "MAX_RGBA_BYTES = 320 * 1024 * 1024"

definition channels :: "Header \<Rightarrow> nat" where
  "channels hdr =
     (if hdr_color hdr = 0 then 1 else if hdr_color hdr = 2 then 3 else if hdr_color hdr = 3 then 1
      else if hdr_color hdr = 4 then 2 else 4)"

section \<open>Chunks\<close>

definition crc_step :: "u32 \<Rightarrow> u32" where
  "crc_step crc = drop_bit 1 crc XOR ((crc AND 1) * 0xEDB88320)"

definition crc32 :: "bytes \<Rightarrow> u32" where
  "crc32 data = NOT (fold (\<lambda>b crc. (crc_step ^^ 8) (crc XOR ucast b)) data (NOT 0))"

definition be_word_at :: "bytes \<Rightarrow> nat \<Rightarrow> (PngError, u32) outcome" where
  "be_word_at data i =
     and_then (item data i) (\<lambda>a. and_then (item data (i + 1)) (\<lambda>b. and_then (item data (i + 2)) (\<lambda>c.
     and_then (item data (i + 3)) (\<lambda>d. Done (of_be [a, b, c, d])))))"

definition parse_ihdr :: "bytes \<Rightarrow> (PngError, Header) outcome" where
  "parse_ihdr data =
     (if length data \<noteq> 13 then Fails PngBadHeader
      else and_then (be_word_at data 0) (\<lambda>width. and_then (be_word_at data 4) (\<lambda>height.
           and_then (item data 8) (\<lambda>depth. and_then (item data 9) (\<lambda>color. and_then (item data 10) (\<lambda>compression.
           and_then (item data 11) (\<lambda>fltr. and_then (item data 12) (\<lambda>interlace.
              if width = 0 \<or> height = 0 \<or> (ucast width :: u64) * ucast height * 4 > MAX_RGBA_BYTES then Fails PngBadHeader
              else if compression \<noteq> 0 \<or> fltr \<noteq> 0 then Fails PngBadHeader
              else if depth \<noteq> 8 \<or> interlace \<noteq> 0 \<or> \<not> (color = 0 \<or> color = 2 \<or> color = 3 \<or> color = 4 \<or> color = 6)
              then Fails Unsupported
              else Done \<lparr>hdr_width = width, hdr_height = height, hdr_color = color\<rparr>))))))))"

text \<open>What the loop over the chunks has collected.\<close>

record Chunks =
  c_hdr :: "Header option"
  c_idat :: bytes
  c_plte :: bytes
  c_trns :: bytes

definition IHDR :: bytes where "IHDR = [0x49, 0x48, 0x44, 0x52]"
definition IDAT :: bytes where "IDAT = [0x49, 0x44, 0x41, 0x54]"
definition PLTE :: bytes where "PLTE = [0x50, 0x4C, 0x54, 0x45]"
definition tRNS :: bytes where "tRNS = [0x74, 0x52, 0x4E, 0x53]"
definition IEND :: bytes where "IEND = [0x49, 0x45, 0x4E, 0x44]"

text \<open>One chunk: the header must be the first one. \<open>Inr\<close> is the end of the image.\<close>

definition on_chunk :: "bytes \<Rightarrow> bytes \<Rightarrow> Chunks \<Rightarrow> (PngError, Chunks + Chunks) outcome" where
  "on_chunk kind body c =
     (if kind = IEND then Done (Inr c)
      else and_then
        (if kind = IHDR then and_then (parse_ihdr body) (\<lambda>hdr. Done (c\<lparr>c_hdr := Some hdr\<rparr>))
         else if kind = IDAT then Done (c\<lparr>c_idat := c_idat c @ body\<rparr>)
         else if kind = PLTE then Done (c\<lparr>c_plte := body\<rparr>)
         else if kind = tRNS then Done (c\<lparr>c_trns := body\<rparr>)
         else Done c)
        (\<lambda>c. if c_hdr c = None then Fails PngBadHeader else Done (Inl c)))"

text \<open>The kind and the body of the chunk at a position, its checksum verified.\<close>

definition chunk_at :: "bytes \<Rightarrow> nat \<Rightarrow> (PngError, bytes \<times> bytes) outcome" where
  "chunk_at rest i =
     (case get_range rest i (i + 8) of None \<Rightarrow> Fails PngTruncated
      | Some head \<Rightarrow>
          let len = unat (of_be (take 4 head) :: u32)
          in case get_range rest (i + 8) (i + 8 + len) of None \<Rightarrow> Fails PngTruncated
             | Some body \<Rightarrow>
                 (case get_range rest (i + 8 + len) (i + 12 + len) of None \<Rightarrow> Fails PngTruncated
                  | Some crc \<Rightarrow>
                      case get_range rest (i + 4) (i + 8 + len) of None \<Rightarrow> Stops
                      | Some covered \<Rightarrow>
                          if be_bytes 4 (crc32 covered) \<noteq> crc then Fails BadCrc else Done (drop 4 head, body)))"

lemma chunk_at_Done: "chunk_at rest i = Done (kind, body) \<Longrightarrow> i + 12 + length body \<le> length rest"
  by (auto simp: chunk_at_def Let_def split: option.splits if_splits dest!: get_range_SomeD)

function chunk_loop :: "bytes \<Rightarrow> nat \<Rightarrow> Chunks \<Rightarrow> (PngError, Chunks) outcome" where
  "chunk_loop rest i c =
     and_then (chunk_at rest i) (\<lambda>(kind, body). and_then (on_chunk kind body c) (\<lambda>r.
       case r of Inl c' \<Rightarrow> chunk_loop rest (i + 12 + length body) c' | Inr c' \<Rightarrow> Done c'))"
  by pat_completeness auto
termination
  by (relation "measure (\<lambda>(rest, i, _). length rest - i)") (auto dest!: chunk_at_Done)

declare chunk_loop.simps [simp del]

section \<open>Scanline filters\<close>

definition paeth :: "u8 \<Rightarrow> u8 \<Rightarrow> u8 \<Rightarrow> u8" where
  "paeth a b c =
     (let p = uint a + uint b - uint c; pa = \<bar>p - uint a\<bar>; pb = \<bar>p - uint b\<bar>; pc = \<bar>p - uint c\<bar>
      in if pa \<le> pb \<and> pa \<le> pc then a else if pb \<le> pc then b else c)"

definition unfilter_byte :: "u8 \<Rightarrow> u8 \<Rightarrow> u8 \<Rightarrow> u8 \<Rightarrow> u8 \<Rightarrow> u8 option" where
  "unfilter_byte fltr x left up up_left =
     (if fltr = 0 then Some x
      else if fltr = 1 then Some (x + left)
      else if fltr = 2 then Some (x + up)
      else if fltr = 3 then Some (x + ucast ((ucast left + ucast up :: u16) div 2))
      else if fltr = 4 then Some (x + paeth left up up_left)
      else None)"

text \<open>The columns of one row, in place: the row is at \<open>cur\<close>, the one before at \<open>out_at\<close>.\<close>

primrec unfilter_cols :: "u8 \<Rightarrow> nat \<Rightarrow> nat \<Rightarrow> nat \<Rightarrow> nat \<Rightarrow> nat list \<Rightarrow> bytes \<Rightarrow> (PngError, bytes) outcome" where
  "unfilter_cols fltr bpp row cur out_at [] raw = Done raw"
| "unfilter_cols fltr bpp row cur out_at (i # is) raw =
     and_then (if i \<ge> bpp then and_then (less_by (cur + i) bpp) (item raw) else Done 0) (\<lambda>left.
     and_then (if row > 0 then item raw (out_at + i) else Done 0) (\<lambda>up.
     and_then (if row > 0 \<and> i \<ge> bpp then and_then (less_by (out_at + i) bpp) (item raw) else Done 0) (\<lambda>up_left.
     and_then (item raw (cur + i)) (\<lambda>x.
       case unfilter_byte fltr x left up up_left of
         None \<Rightarrow> Fails BadData
       | Some y \<Rightarrow> and_then (set_item raw (cur + i) y) (unfilter_cols fltr bpp row cur out_at is)))))"

text \<open>\<open>copy_within(a..a + n, dest)\<close>.\<close>

definition copy_within :: "bytes \<Rightarrow> nat \<Rightarrow> nat \<Rightarrow> nat \<Rightarrow> (PngError, bytes) outcome" where
  "copy_within raw a n dest =
     (if a + n > length raw \<or> dest + n > length raw then Stops
      else Done (take dest raw @ take n (drop a raw) @ drop (dest + n) raw))"

primrec unfilter_rows :: "nat \<Rightarrow> nat \<Rightarrow> nat \<Rightarrow> nat list \<Rightarrow> bytes \<Rightarrow> (PngError, bytes) outcome" where
  "unfilter_rows stride bpp out_at [] raw = Done raw"
| "unfilter_rows stride bpp out_at (row # rows) raw =
     (let line_at = row * (stride + 1); cur = row * stride
      in and_then (item raw line_at) (\<lambda>fltr. and_then (copy_within raw (line_at + 1) stride cur) (\<lambda>raw.
         and_then (unfilter_cols fltr bpp row cur out_at [0..<stride] raw) (unfilter_rows stride bpp cur rows))))"

definition unfilter :: "bytes \<Rightarrow> nat \<Rightarrow> nat \<Rightarrow> nat \<Rightarrow> (PngError, bytes) outcome" where
  "unfilter raw width height bpp =
     and_then (unfilter_rows (width * bpp) bpp 0 [0..<height] raw) (\<lambda>raw. Done (take (height * (width * bpp)) raw))"

section \<open>Pixels\<close>

fun gray_pixels :: "u8 option \<Rightarrow> bytes \<Rightarrow> bytes" where
  "gray_pixels key [] = []"
| "gray_pixels key (g # gs) = [g, g, g, if key = Some g then 0 else 255] @ gray_pixels key gs"

fun rgb_pixels :: "bytes option \<Rightarrow> bytes \<Rightarrow> bytes" where
  "rgb_pixels key (r # g # b # px) = [r, g, b, if key = Some [r, g, b] then 0 else 255] @ rgb_pixels key px"
| "rgb_pixels key _ = []"

fun indexed_pixels :: "bytes \<Rightarrow> bytes \<Rightarrow> bytes \<Rightarrow> (PngError, bytes) outcome" where
  "indexed_pixels plte trns [] = Done []"
| "indexed_pixels plte trns (idx # ids) =
     (case get_range plte (unat idx * 3) (unat idx * 3 + 3) of
        None \<Rightarrow> Fails BadData
      | Some rgb \<Rightarrow> and_then (indexed_pixels plte trns ids) (\<lambda>px.
          Done (rgb @ [case get_at trns (unat idx) of Some a \<Rightarrow> a | None \<Rightarrow> 255] @ px)))"

fun gray_alpha_pixels :: "bytes \<Rightarrow> bytes" where
  "gray_alpha_pixels (g # a # px) = [g, g, g, a] @ gray_alpha_pixels px"
| "gray_alpha_pixels _ = []"

definition to_rgba :: "Header \<Rightarrow> bytes \<Rightarrow> bytes \<Rightarrow> bytes \<Rightarrow> (PngError, bytes) outcome" where
  "to_rgba hdr samples plte trns =
     (if hdr_color hdr = 0
      then and_then (if length trns = 2 then and_then (item trns 1) (\<lambda>g. Done (Some g)) else Done None) (\<lambda>key.
        Done (gray_pixels key samples))
      else if hdr_color hdr = 2
      then and_then (if length trns = 6
                     then and_then (item trns 1) (\<lambda>r. and_then (item trns 3) (\<lambda>g. and_then (item trns 5) (\<lambda>b.
                       Done (Some [r, g, b]))))
                     else Done None) (\<lambda>key. Done (rgb_pixels key samples))
      else if hdr_color hdr = 3
      then if plte = [] \<or> length plte mod 3 \<noteq> 0 then Fails BadData else indexed_pixels plte trns samples
      else if hdr_color hdr = 4 then Done (gray_alpha_pixels samples)
      else Done samples)"

section \<open>The decoder\<close>

definition SIGNATURE :: bytes where "SIGNATURE = [0x89, 0x50, 0x4E, 0x47, 0x0D, 0x0A, 0x1A, 0x0A]"

definition decode_image :: "Chunks \<Rightarrow> (PngError, DecodedPng) outcome" where
  "decode_image c =
     (case c_hdr c of None \<Rightarrow> Fails PngBadHeader
      | Some hdr \<Rightarrow>
          let w = unat (hdr_width hdr); h = unat (hdr_height hdr); bpp = channels hdr;
              expect = unat (word_of_nat h * (1 + word_of_nat w * word_of_nat bpp) :: u64)
          in case zlib_decompress (c_idat c) expect of
               Fails e \<Rightarrow> Fails BadData
             | Stops \<Rightarrow> Stops
             | Done raw \<Rightarrow>
                 if length raw \<noteq> expect then Fails BadData
                 else and_then (unfilter raw w h bpp) (\<lambda>raw. and_then (to_rgba hdr raw (c_plte c) (c_trns c)) (\<lambda>rgba.
                   Done \<lparr>png_width = hdr_width hdr, png_height = hdr_height hdr, png_rgba = rgba\<rparr>)))"

definition decode_png :: "bytes \<Rightarrow> (PngError, DecodedPng) outcome" where
  "decode_png data =
     (if take 8 data \<noteq> SIGNATURE then Fails BadSignature
      else and_then (chunk_loop (drop 8 data) 0 \<lparr>c_hdr = None, c_idat = [], c_plte = [], c_trns = []\<rparr>) decode_image)"

end
