(* ===== verification/Png_Images.thy ===== *)
theory Png_Images
  imports Png
begin

text \<open>
  What the PNG decoder of \<open>Png\<close> promises: reversing the filters gives back the rows they were applied to,
  a decoded image has four bytes for each pixel, the decoder indexes out of range only for sizes that wrap in
  64 bits, and an RGBA image survives the format: filtered row by row, compressed, cut into chunks and decoded.
\<close>

section \<open>Filters\<close>

definition predict :: "u8 \<Rightarrow> u8 \<Rightarrow> u8 \<Rightarrow> u8 \<Rightarrow> u8" where
  "predict f left up up_left =
     (if f = 0 then 0 else if f = 1 then left else if f = 2 then up
      else if f = 3 then ucast ((ucast left + ucast up :: u16) div 2) else paeth left up up_left)"

text \<open>The encoder's side: a row filtered against the one before, and all the scanlines.\<close>

definition filter_row :: "u8 \<Rightarrow> nat \<Rightarrow> bytes \<Rightarrow> bytes \<Rightarrow> bytes" where
  "filter_row f bpp prev row =
     map (\<lambda>i. row ! i - predict f (if i \<ge> bpp then row ! (i - bpp) else 0) (prev ! i) (if i \<ge> bpp then prev ! (i - bpp) else 0)) [0..<length row]"

fun scanlines :: "nat \<Rightarrow> bytes \<Rightarrow> (u8 \<times> bytes) list \<Rightarrow> bytes" where
  "scanlines bpp prev [] = []"
| "scanlines bpp prev ((f, row) # rows) = f # filter_row f bpp prev row @ scanlines bpp row rows"

lemma length_filter_row [simp]: "length (filter_row f bpp prev row) = length row"
  by (simp add: filter_row_def)

lemma unfilter_predict: "f \<le> 4 \<Longrightarrow> unfilter_byte f (x - predict f l u ul) l u ul = Some x"
proof -
  assume "f \<le> 4"
  then have "unat f \<le> 4" by (simp add: word_le_nat_alt)
  then have "unat f = 0 \<or> unat f = 1 \<or> unat f = 2 \<or> unat f = 3 \<or> unat f = 4" by linarith
  then have "f = 0 \<or> f = 1 \<or> f = 2 \<or> f = 3 \<or> f = 4" by (auto simp: word_unat_eq_iff)
  then show ?thesis by (auto simp: unfilter_byte_def predict_def)
qed

text \<open>One column of a row that lies inside the data.\<close>

lemma unfilter_cols_step:
  assumes "cur + i < length raw" "out_at \<le> cur"
  shows "unfilter_cols fltr bpp row cur out_at (i # is) raw =
     (case unfilter_byte fltr (raw ! (cur + i)) (if i \<ge> bpp then raw ! (cur + i - bpp) else 0) (if row > 0 then raw ! (out_at + i) else 0)
             (if row > 0 \<and> i \<ge> bpp then raw ! (out_at + i - bpp) else 0) of
        None \<Rightarrow> Fails BadData
      | Some x \<Rightarrow> unfilter_cols fltr bpp row cur out_at is (raw[cur + i := x]))"
  using assms by (simp split: option.split)

lemma unfilter_cols_filtered:
  assumes "f \<le> 4" "0 < bpp" "length prev = length row" "i \<le> length row"
    and "if r > 0 then pre = pp @ prev \<and> out_at = length pp else prev = replicate (length row) 0"
    and "out_at \<le> length pre"
  shows "unfilter_cols f bpp r (length pre) out_at [i..<length row] (pre @ take i row @ drop i (filter_row f bpp prev row) @ suf)
    = Done (pre @ row @ suf)"
  using assms(4)
proof (induction "length row - i" arbitrary: i)
  case 0
  then show ?case by simp
next
  case (Suc n)
  then have i: "i < length row" by simp
  let ?F = "filter_row f bpp prev row"
  let ?raw = "pre @ take i row @ drop i ?F @ suf"
  let ?l = "if i \<ge> bpp then row ! (i - bpp) else 0" and ?u = "prev ! i" and ?ul = "if i \<ge> bpp then prev ! (i - bpp) else 0"
  have d: "drop i ?F = ?F ! i # drop (Suc i) ?F" using i by (simp add: Cons_nth_drop_Suc)
  have x: "?raw ! (length pre + i) = row ! i - predict f ?l ?u ?ul" using i by (simp add: nth_append filter_row_def)
  have l: "(if i \<ge> bpp then ?raw ! (length pre + i - bpp) else 0) = ?l"
  proof (cases "bpp \<le> i")
    case True
    then have e: "length pre + i - bpp = length pre + (i - bpp)" "i - bpp < i" using assms(2) i by simp_all
    show ?thesis unfolding e nth_append_length_plus using e(2) i True by (simp add: nth_append)
  qed simp
  have u: "(if r > 0 then ?raw ! (out_at + i) else 0) = ?u" using i assms(3,5) by (auto simp: nth_append split: if_splits)
  have ul: "(if r > 0 \<and> i \<ge> bpp then ?raw ! (out_at + i - bpp) else 0) = ?ul" using i assms(3,5) by (auto simp: nth_append split: if_splits)
  have upd: "?raw[length pre + i := row ! i] = pre @ take (Suc i) row @ drop (Suc i) ?F @ suf"
    using i by (simp add: d list_update_append take_Suc_conv_app_nth)
  have IH: "unfilter_cols f bpp r (length pre) out_at [Suc i..<length row] (pre @ take (Suc i) row @ drop (Suc i) ?F @ suf) = Done (pre @ row @ suf)"
    using Suc i by simp
  have within: "length pre + i < length ?raw" using i by simp
  show ?case unfolding upt_conv_Cons [OF i] unfilter_cols_step [OF within assms(6)] l u ul x unfilter_predict [OF assms(1)] option.case upd IH ..
qed

lemma unfilter_rows_scanlines:
  assumes "0 < bpp" "\<forall>(f, row) \<in> set rows. f \<le> 4 \<and> length row = stride" "length prev = stride"
    and "length pre = r * stride" "length junk = r"
    and "if r > 0 then pre = pp @ prev \<and> out_at = length pp else prev = replicate stride 0 \<and> out_at = 0"
  shows "\<exists>junk'. unfilter_rows stride bpp out_at [r..<r + length rows] (pre @ junk @ scanlines bpp prev rows) = Done (pre @ concat (map snd rows) @ junk')"
  using assms(2-6)
proof (induction rows arbitrary: r prev pre junk pp out_at)
  case Nil
  then show ?case by simp
next
  case (Cons fr rows)
  obtain f row where fr: "fr = (f, row)" by (cases fr)
  have f: "f \<le> 4" "length row = stride" using Cons.prems(1) fr by auto
  let ?F = "filter_row f bpp prev row" and ?rest = "scanlines bpp row rows"
  let ?raw = "pre @ junk @ f # ?F @ ?rest" and ?line = "r * (stride + 1)"
  have at: "?line = length (pre @ junk)" using Cons.prems(3,4) by simp
  have ft: "?raw ! ?line = f" unfolding at by (simp add: nth_append)
  define junk2 where "junk2 = drop stride (junk @ f # ?F)"
  have "drop (r * stride + stride) ?raw = drop stride ((junk @ f # ?F) @ ?rest)" using Cons.prems(3) by simp
  also have "\<dots> = junk2 @ ?rest" unfolding junk2_def drop_append using Cons.prems(4) f(2) by simp
  finally have junk2: "length junk2 = Suc r" "drop (r * stride + stride) ?raw = junk2 @ ?rest"
    using Cons.prems(4) f(2) by (simp_all add: junk2_def)
  have tk: "take stride (drop (?line + 1) ?raw) = ?F"
  proof -
    have "?raw = (pre @ junk @ [f]) @ ?F @ ?rest" "?line + 1 = length (pre @ junk @ [f])" using at by simp_all
    then show ?thesis using f(2) by (metis append_eq_conv_conj length_filter_row append_assoc)
  qed
  have len: "?line + 1 + stride \<le> length ?raw" using at f(2) by simp
  have cw: "copy_within ?raw (?line + 1) stride (r * stride) = Done (pre @ ?F @ junk2 @ ?rest)"
    unfolding copy_within_def tk junk2(2) using Cons.prems(3) len by simp
  have cols: "unfilter_cols f bpp r (r * stride) out_at [0..<stride] (pre @ ?F @ junk2 @ ?rest) = Done (pre @ row @ junk2 @ ?rest)"
  proof -
    have "if 0 < r then pre = pp @ prev \<and> out_at = length pp else prev = replicate (length row) 0" "out_at \<le> length pre"
      using Cons.prems(5) f(2) by (auto split: if_splits)
    then show ?thesis using unfilter_cols_filtered [of f bpp prev row 0 r pre pp out_at "junk2 @ ?rest"] f assms(1) Cons.prems(2,3) by simp
  qed
  have IH: "\<exists>junk'. unfilter_rows stride bpp (r * stride) [Suc r..<Suc r + length rows] ((pre @ row) @ junk2 @ ?rest) = Done ((pre @ row) @ concat (map snd rows) @ junk')"
    using Cons.prems f(2) junk2(1) by (intro Cons.IH [where pp = pre]) auto
  have "[r..<r + length (fr # rows)] = r # [Suc r..<Suc r + length rows]" by (simp add: upt_conv_Cons del: upt_Suc)
  moreover have "unfilter_rows stride bpp out_at (r # [Suc r..<Suc r + length rows]) ?raw = unfilter_rows stride bpp (r * stride) [Suc r..<Suc r + length rows] (pre @ row @ junk2 @ ?rest)"
    unfolding unfilter_rows.simps Let_def cw using len by (simp only: item_simps(1) ft and_then_simps(1) cols)
  ultimately show ?case using IH unfolding fr scanlines.simps by simp
qed

lemma unfilter_scanlines:
  assumes "0 < bpp" "\<forall>(f, row) \<in> set rows. f \<le> 4 \<and> length row = width * bpp"
  shows "unfilter (scanlines bpp (replicate (width * bpp) 0) rows) width (length rows) bpp = Done (concat (map snd rows))"
proof -
  let ?s = "width * bpp"
  obtain junk where j: "unfilter_rows ?s bpp 0 [0..<length rows] (scanlines bpp (replicate ?s 0) rows) = Done (concat (map snd rows) @ junk)"
    using unfilter_rows_scanlines [OF assms, of "replicate ?s 0" "[]" 0 "[]"] by auto
  have "\<forall>row \<in> set (map snd rows). length row = ?s" using assms(2) by auto
  then have "length (concat (map snd rows)) = length rows * ?s" by (induction rows) auto
  then show ?thesis by (simp add: unfilter_def j)
qed

section \<open>Sizes\<close>

lemma unfilter_cols_length: "unfilter_cols f bpp row cur out_at is raw = Done raw' \<Longrightarrow> length raw' = length raw"
  by (induction "is" arbitrary: raw) (fastforce simp: and_then_Done split: option.splits)+

lemma unfilter_cols_not_Stops:
  "\<forall>i \<in> set is. cur + i < length raw \<Longrightarrow> out_at \<le> cur \<Longrightarrow> unfilter_cols f bpp row cur out_at is raw \<noteq> Stops"
proof (induction "is" arbitrary: raw)
  case (Cons i "is")
  have i: "cur + i < length raw" using Cons.prems(1) by simp
  show ?case unfolding unfilter_cols_step [OF i Cons.prems(2)]
    using Cons by (simp split: option.split split del: if_split)
qed simp

lemma copy_within_Done: "copy_within raw a n dest = Done raw' \<Longrightarrow> length raw' = length raw"
  by (auto simp: copy_within_def split: if_splits)

lemma unfilter_rows_outcome:
  "out_at \<le> r * stride \<Longrightarrow>
   (case unfilter_rows stride bpp out_at [r..<h] raw of
      Done raw' \<Rightarrow> length raw' = length raw \<and> (r < h \<longrightarrow> h * (stride + 1) \<le> length raw)
    | Fails e \<Rightarrow> True
    | Stops \<Rightarrow> length raw < h * (stride + 1))"
proof (induction "h - r" arbitrary: r out_at raw)
  case 0
  then show ?case by simp
next
  case (Suc n)
  then have r: "r < h" by simp
  let ?line = "r * (stride + 1)"
  have up: "[r..<h] = r # [Suc r..<h]" using r by (rule upt_conv_Cons)
  have le: "Suc r * (stride + 1) \<le> h * (stride + 1)" using r by (intro mult_right_mono) simp_all
  show ?case
  proof (cases "?line + 1 + stride > length raw")
    case True
    then have "unfilter_rows stride bpp out_at [r..<h] raw = Stops" unfolding up by (simp add: item_def get_at_def copy_within_def Let_def)
    then show ?thesis using le True by simp
  next
    case False
    let ?f = "raw ! ?line"
    obtain raw1 where cw: "copy_within raw (?line + 1) stride (r * stride) = Done raw1" using False by (simp add: copy_within_def)
    have len: "length raw1 = length raw" using copy_within_Done [OF cw] .
    have eq: "unfilter_rows stride bpp out_at [r..<h] raw
        = and_then (unfilter_cols ?f bpp r (r * stride) out_at [0..<stride] raw1) (unfilter_rows stride bpp (r * stride) [Suc r..<h])"
      using False cw unfolding up by (simp add: Let_def)
    have "\<forall>i \<in> set [0..<stride]. r * stride + i < length raw1" using False len by auto
    then have ns: "unfilter_cols ?f bpp r (r * stride) out_at [0..<stride] raw1 \<noteq> Stops" using Suc.prems by (rule unfilter_cols_not_Stops)
    show ?thesis
    proof (cases "unfilter_cols ?f bpp r (r * stride) out_at [0..<stride] raw1")
      case (Done raw2)
      have n: "n = h - Suc r" using Suc.hyps(2) by simp
      have l2: "length raw2 = length raw" using unfilter_cols_length [OF Done] len by simp
      have "unfilter_rows stride bpp out_at [r..<h] raw = unfilter_rows stride bpp (r * stride) [Suc r..<h] raw2"
        using Done eq by simp
      moreover have "Suc r < h \<or> Suc r = h" using r by auto
      ultimately show ?thesis using Suc.hyps(1) [OF n, where out_at = "r * stride" and raw = raw2] False l2 by (auto split: outcome.splits)
    next
      case Stops
      then show ?thesis using ns by blast
    next
      case (Fails e)
      then show ?thesis using eq by simp
    qed
  qed
qed

lemma unfilter_outcome:
  assumes "0 < h"
  shows "(case unfilter raw w h bpp of
      Done raw' \<Rightarrow> length raw' = h * (w * bpp) \<and> h * (w * bpp + 1) \<le> length raw
    | Fails e \<Rightarrow> True
    | Stops \<Rightarrow> length raw < h * (w * bpp + 1))"
  using unfilter_rows_outcome [where stride = "w * bpp" and bpp = bpp and out_at = 0 and r = 0 and h = h and raw = raw] assms
  by (auto simp: unfilter_def split: outcome.splits)

lemma length_gray_pixels: "length (gray_pixels key gs) = 4 * length gs"
  by (induction key gs rule: gray_pixels.induct) simp_all

lemma length_rgb_pixels: "length px = 3 * n \<Longrightarrow> length (rgb_pixels key px) = 4 * n"
proof (induction key px arbitrary: n rule: rgb_pixels.induct)
  case (1 key r g b px)
  then have "length px = 3 * (n - 1)" "0 < n" by simp_all
  then show ?case using "1.IH" [of "n - 1"] by simp
qed simp_all

lemma length_gray_alpha_pixels: "length px = 2 * n \<Longrightarrow> length (gray_alpha_pixels px) = 4 * n"
proof (induction px arbitrary: n rule: gray_alpha_pixels.induct)
  case (1 g a px)
  then have "length px = 2 * (n - 1)" "0 < n" by simp_all
  then show ?case using "1.IH" [of "n - 1"] by simp
qed simp_all

lemma length_indexed_pixels: "indexed_pixels plte trns ids = Done px \<Longrightarrow> length px = 4 * length ids"
  by (induction plte trns ids arbitrary: px rule: indexed_pixels.induct)
    (auto simp: and_then_Done split: option.splits dest!: get_range_SomeD)

lemma indexed_pixels_not_Stops: "indexed_pixels plte trns ids \<noteq> Stops"
  by (induction plte trns ids rule: indexed_pixels.induct) (auto simp: and_then_Stops split: option.splits)

lemma to_rgba_length: "to_rgba hdr samples plte trns = Done rgba \<Longrightarrow> length samples = n * channels hdr \<Longrightarrow> length rgba = 4 * n"
  by (auto simp: to_rgba_def channels_def length_gray_pixels length_rgb_pixels length_gray_alpha_pixels length_indexed_pixels mult.commute split: if_splits)

lemma to_rgba_not_Stops: "to_rgba hdr samples plte trns \<noteq> Stops"
  using indexed_pixels_not_Stops by (simp add: to_rgba_def)

lemma chunk_at_not_Stops: "chunk_at rest i \<noteq> Stops"
  by (auto simp: chunk_at_def Let_def get_range_def split: option.splits if_splits)

lemma be_word_at: "i + 4 \<le> length data \<Longrightarrow> be_word_at data i = Done (of_be (take 4 (drop i data)))"
proof -
  assume i: "i + 4 \<le> length data"
  then have "take 4 (drop i data) = [data ! i, data ! (i + 1), data ! (i + 2), data ! (i + 3)]"
    by (intro nth_equalityI) (auto simp: less_Suc_eq numeral_eq_Suc)
  then show ?thesis using i by (simp add: be_word_at_def)
qed

lemma parse_ihdr_13:
  "length data = 13 \<Longrightarrow> parse_ihdr data =
    (let width = of_be (take 4 data) :: u32; height = of_be (take 4 (drop 4 data)) :: u32;
         depth = data ! 8; color = data ! 9; compression = data ! 10; fltr = data ! 11; interlace = data ! 12
     in if width = 0 \<or> height = 0 \<or> (ucast width :: u64) * ucast height * 4 > MAX_RGBA_BYTES then Fails PngBadHeader
        else if compression \<noteq> 0 \<or> fltr \<noteq> 0 then Fails PngBadHeader
        else if depth \<noteq> 8 \<or> interlace \<noteq> 0 \<or> \<not> (color = 0 \<or> color = 2 \<or> color = 3 \<or> color = 4 \<or> color = 6)
        then Fails Unsupported
        else Done \<lparr>hdr_width = width, hdr_height = height, hdr_color = color\<rparr>)"
  unfolding Let_def by (simp add: parse_ihdr_def be_word_at)

lemma parse_ihdr_not_Stops: "parse_ihdr body \<noteq> Stops"
proof (cases "length body = 13")
  case True
  show ?thesis unfolding parse_ihdr_13 [OF True] Let_def by simp
qed (simp add: parse_ihdr_def)

lemma parse_ihdr_Done:
  "parse_ihdr body = Done hdr \<Longrightarrow> hdr_width hdr \<noteq> 0 \<and> hdr_height hdr \<noteq> 0
    \<and> (ucast (hdr_width hdr) :: u64) * ucast (hdr_height hdr) * 4 \<le> MAX_RGBA_BYTES"
proof (cases "length body = 13")
  case True
  then show "parse_ihdr body = Done hdr \<Longrightarrow> ?thesis"
    unfolding parse_ihdr_13 [OF True] Let_def by (auto simp: not_less split: if_splits)
qed (simp add: parse_ihdr_def)

lemma on_chunk_not_Stops: "on_chunk kind body c \<noteq> Stops"
  using parse_ihdr_not_Stops by (auto simp: on_chunk_def and_then_Stops split: if_splits)

lemma chunk_loop_not_Stops: "chunk_loop rest i c \<noteq> Stops"
proof (induction rest i c rule: chunk_loop.induct)
  case (1 rest i c)
  show ?case
    by (subst chunk_loop.simps)
      (use 1 chunk_at_not_Stops on_chunk_not_Stops in \<open>auto simp: and_then_Stops split: sum.splits\<close>)
qed

text \<open>A header is what \<open>parse_ihdr\<close> accepted.\<close>

definition accepted :: "Header \<Rightarrow> bool" where
  "accepted hdr \<longleftrightarrow> (\<exists>body. parse_ihdr body = Done hdr)"

lemma on_chunk_accepted:
  assumes "on_chunk kind body c = Done r" "\<forall>hdr. c_hdr c = Some hdr \<longrightarrow> accepted hdr"
  shows "\<forall>hdr. c_hdr (case r of Inl c' \<Rightarrow> c' | Inr c' \<Rightarrow> c') = Some hdr \<longrightarrow> accepted hdr"
  using assms by (auto simp: on_chunk_def and_then_Done accepted_def split: if_splits)

lemma chunk_loop_accepted:
  "chunk_loop rest i c = Done c' \<Longrightarrow> \<forall>hdr. c_hdr c = Some hdr \<longrightarrow> accepted hdr \<Longrightarrow> \<forall>hdr. c_hdr c' = Some hdr \<longrightarrow> accepted hdr"
proof (induction rest i c rule: chunk_loop.induct)
  case (1 rest i c)
  obtain kind body r where k: "chunk_at rest i = Done (kind, body)" "on_chunk kind body c = Done r"
    "(case r of Inl c' \<Rightarrow> chunk_loop rest (i + 12 + length body) c' | Inr c' \<Rightarrow> Done c') = Done c'"
    using 1(2) by (subst (asm) chunk_loop.simps) (auto simp: and_then_Done)
  note a = on_chunk_accepted [OF k(2) 1(3)]
  show ?case
  proof (cases r)
    case (Inl c2)
    then show ?thesis using 1(1) [OF k(1) refl k(2)] k(3) a by simp
  next
    case (Inr c2)
    then show ?thesis using k(3) a by simp
  qed
qed

lemma accepted_size: "accepted hdr \<Longrightarrow> 0 < unat (hdr_width hdr) \<and> 0 < unat (hdr_height hdr)"
  by (auto simp: accepted_def unat_gt_0 dest!: parse_ihdr_Done)

lemma expect_nat:
  "unat (word_of_nat h * (1 + word_of_nat w * word_of_nat bpp) :: u64) = h * (w * bpp + 1) mod 2 ^ 64"
proof -
  have "(word_of_nat h * (1 + word_of_nat w * word_of_nat bpp) :: u64) = word_of_nat (h * (w * bpp + 1))" by (simp add: distrib_left)
  then show ?thesis by (simp only: unsigned_of_nat take_bit_eq_mod) simp
qed

lemma decode_image_Done:
  assumes "decode_image c = Done png" "\<forall>hdr. c_hdr c = Some hdr \<longrightarrow> accepted hdr"
  shows "length (png_rgba png) = unat (png_width png) * unat (png_height png) * 4"
proof -
  obtain hdr where hdr: "c_hdr c = Some hdr" using assms(1) by (auto simp: decode_image_def split: option.splits)
  let ?w = "unat (hdr_width hdr)" and ?h = "unat (hdr_height hdr)" and ?bpp = "channels hdr"
  obtain raw samples rgba where r: "length raw = ?h * (?w * ?bpp + 1) mod 2 ^ 64" "unfilter raw ?w ?h ?bpp = Done samples"
    "to_rgba hdr samples (c_plte c) (c_trns c) = Done rgba"
    "png = \<lparr>png_width = hdr_width hdr, png_height = hdr_height hdr, png_rgba = rgba\<rparr>"
    using assms(1) hdr unfolding decode_image_def Let_def expect_nat by (auto simp: and_then_Done split: outcome.splits if_splits)
  have h: "0 < ?h" using accepted_size assms(2) hdr by blast
  have "length samples = (?h * ?w) * ?bpp" using unfilter_outcome [OF h, where raw = raw and w = ?w and bpp = ?bpp] r(2) by (simp add: mult.assoc)
  then have "length rgba = 4 * (?h * ?w)" by (rule to_rgba_length [OF r(3)])
  then show ?thesis by (simp add: r(4))
qed

lemma decode_image_Stops:
  assumes "decode_image c = Stops" "\<forall>hdr. c_hdr c = Some hdr \<longrightarrow> accepted hdr"
  shows "\<exists>hdr. c_hdr c = Some hdr \<and> 2 ^ 64 \<le> unat (hdr_height hdr) * (unat (hdr_width hdr) * channels hdr + 1)"
proof -
  obtain hdr where hdr: "c_hdr c = Some hdr" using assms(1) by (auto simp: decode_image_def split: option.splits)
  let ?w = "unat (hdr_width hdr)" and ?h = "unat (hdr_height hdr)" and ?bpp = "channels hdr"
  obtain raw where r: "length raw = ?h * (?w * ?bpp + 1) mod 2 ^ 64" "unfilter raw ?w ?h ?bpp = Stops"
    using assms(1) hdr zlib_not_Stops to_rgba_not_Stops unfolding decode_image_def Let_def expect_nat
    by (auto simp: and_then_Stops split: outcome.splits if_splits)
  have h: "0 < ?h" using accepted_size assms(2) hdr by blast
  have "?h * (?w * ?bpp + 1) mod 2 ^ 64 < ?h * (?w * ?bpp + 1)" using unfilter_outcome [OF h, where raw = raw and w = ?w and bpp = ?bpp] r by simp
  then have "2 ^ 64 \<le> ?h * (?w * ?bpp + 1)" by (metis linorder_not_less mod_less nat_neq_iff)
  then show ?thesis using hdr by blast
qed


lemma decode_png_size:
  "decode_png data = Done png \<Longrightarrow> length (png_rgba png) = unat (png_width png) * unat (png_height png) * 4"
  by (auto simp: decode_png_def and_then_Done split: if_splits dest!: chunk_loop_accepted intro!: decode_image_Done)

text \<open>Sizes whose byte count does not wrap.\<close>

definition png_size :: "Header \<Rightarrow> nat" where
  "png_size hdr = unat (hdr_width hdr) * unat (hdr_height hdr) * 4"

lemma channels_bounds: "1 \<le> channels hdr \<and> channels hdr \<le> 4"
  by (simp add: channels_def)

lemma expect_le: "unat (hdr_height hdr) * (unat (hdr_width hdr) * channels hdr + 1) \<le> png_size hdr + unat (hdr_height hdr)"
proof -
  let ?w = "unat (hdr_width hdr)" and ?h = "unat (hdr_height hdr)"
  have "?w * ?h * channels hdr \<le> ?w * ?h * 4" using channels_bounds [of hdr] by (intro mult_left_mono) simp_all
  then show ?thesis by (simp add: png_size_def distrib_left mult_ac)
qed

lemma accepted_quota: "accepted hdr \<Longrightarrow> png_size hdr mod 2 ^ 64 \<le> 320 * 1024 * 1024"
proof -
  assume "accepted hdr"
  then have "(ucast (hdr_width hdr) :: u64) * ucast (hdr_height hdr) * 4 \<le> MAX_RGBA_BYTES"
    by (auto simp: accepted_def dest!: parse_ihdr_Done)
  moreover have "(ucast (hdr_width hdr) :: u64) * ucast (hdr_height hdr) * 4 = word_of_nat (png_size hdr)" by (simp add: png_size_def)
  ultimately have "unat (word_of_nat (png_size hdr) :: u64) \<le> unat MAX_RGBA_BYTES" by (simp add: word_le_nat_alt)
  then show ?thesis by (simp add: unsigned_of_nat take_bit_eq_mod MAX_RGBA_BYTES_def)
qed

text \<open>The header a file announces: the one its chunks, read to the end, leave.\<close>

definition header_of :: "bytes \<Rightarrow> Header option" where
  "header_of data =
     (if take 8 data \<noteq> SIGNATURE then None
      else case chunk_loop (drop 8 data) 0 \<lparr>c_hdr = None, c_idat = [], c_plte = [], c_trns = []\<rparr> of
             Done c \<Rightarrow> c_hdr c
           | _ \<Rightarrow> None)"

lemma decode_png_Stops:
  assumes "decode_png data = Stops"
  shows "\<exists>hdr. header_of data = Some hdr \<and> 2 ^ 64 \<le> png_size hdr"
proof -
  have sig: "take 8 data = SIGNATURE" using assms by (simp add: decode_png_def split: if_splits)
  obtain c where c: "chunk_loop (drop 8 data) 0 \<lparr>c_hdr = None, c_idat = [], c_plte = [], c_trns = []\<rparr> = Done c" "decode_image c = Stops"
    using assms chunk_loop_not_Stops by (auto simp: decode_png_def and_then_Stops split: if_splits)
  have a: "\<forall>hdr. c_hdr c = Some hdr \<longrightarrow> accepted hdr" by (rule chunk_loop_accepted [OF c(1)]) simp
  obtain hdr where hdr: "c_hdr c = Some hdr" "2 ^ 64 \<le> unat (hdr_height hdr) * (unat (hdr_width hdr) * channels hdr + 1)"
    using decode_image_Stops [OF c(2) a] by blast
  let ?w = "unat (hdr_width hdr)" and ?h = "unat (hdr_height hdr)"
  have acc: "accepted hdr" using a hdr(1) by blast
  have "?h < 2 ^ LENGTH(32)" by (rule unsigned_less)
  moreover have "?h * (?w * channels hdr + 1) \<le> png_size hdr + ?h" by (rule expect_le)
  ultimately have big: "2 ^ 64 - 2 ^ 32 \<le> png_size hdr" using hdr(2) by simp
  have "2 ^ 64 \<le> png_size hdr"
  proof (rule ccontr)
    assume "\<not> 2 ^ 64 \<le> png_size hdr"
    then have "png_size hdr \<le> 320 * 1024 * 1024" using accepted_quota [OF acc] by simp
    then show False using big by simp
  qed
  moreover have "header_of data = Some hdr" using sig c(1) hdr(1) by (simp add: header_of_def)
  ultimately show ?thesis by blast
qed

lemma decode_png_header:
  assumes "decode_png data = Done png"
  shows "\<exists>hdr. header_of data = Some hdr \<and> png_width png = hdr_width hdr \<and> png_height png = hdr_height hdr"
proof -
  obtain c where c: "take 8 data = SIGNATURE" "chunk_loop (drop 8 data) 0 \<lparr>c_hdr = None, c_idat = [], c_plte = [], c_trns = []\<rparr> = Done c"
    "decode_image c = Done png" using assms by (auto simp: decode_png_def and_then_Done split: if_splits)
  obtain hdr where h: "c_hdr c = Some hdr" using c(3) by (auto simp: decode_image_def split: option.splits)
  then have "png_width png = hdr_width hdr \<and> png_height png = hdr_height hdr"
    using c(3) by (auto simp: decode_image_def and_then_Done Let_def split: outcome.splits if_splits)
  then show ?thesis using c(1,2) h by (simp add: header_of_def)
qed

section \<open>Files\<close>

text \<open>The encoder's side of a chunk.\<close>

definition chunk :: "bytes \<Rightarrow> bytes \<Rightarrow> bytes" where
  "chunk kind body = be_bytes 4 (word_of_nat (length body) :: u32) @ kind @ body @ be_bytes 4 (crc32 (kind @ body))"

lemma length_chunk: "length kind = 4 \<Longrightarrow> length (chunk kind body) = 12 + length body"
  by (simp add: chunk_def)

lemma get_range_within: "i = length pre \<Longrightarrow> j = i + length ys \<Longrightarrow> get_range (pre @ ys @ post) i j = Some ys"
  by (simp add: get_range_append)

lemma chunk_at_chunk:
  assumes "length kind = 4" "length body < 2 ^ 32"
  shows "chunk_at (pre @ chunk kind body @ post) (length pre) = Done (kind, body)"
proof -
  let ?n = "be_bytes 4 (word_of_nat (length body) :: u32)" and ?c = "be_bytes 4 (crc32 (kind @ body))"
  let ?rest = "pre @ chunk kind body @ post" and ?i = "length pre"
  have head: "get_range ?rest ?i (?i + 8) = Some (?n @ kind)"
    using get_range_within [of ?i pre "?i + 8" "?n @ kind" "body @ ?c @ post"] assms(1) by (simp add: chunk_def)
  have len: "unat (of_be (take 4 (?n @ kind)) :: u32) = length body"
    using assms(2) by (simp add: of_be_be_bytes unsigned_of_nat take_bit_nat_eq_self)
  have body: "get_range ?rest (?i + 8) (?i + 8 + length body) = Some body"
    using get_range_within [of "?i + 8" "pre @ ?n @ kind" "?i + 8 + length body" body "?c @ post"] assms(1) by (simp add: chunk_def)
  have crc: "get_range ?rest (?i + 8 + length body) (?i + 12 + length body) = Some ?c"
    using get_range_within [of "?i + 8 + length body" "pre @ ?n @ kind @ body" "?i + 12 + length body" ?c post] assms(1) by (simp add: chunk_def)
  have covered: "get_range ?rest (?i + 4) (?i + 8 + length body) = Some (kind @ body)"
    using get_range_within [of "?i + 4" "pre @ ?n" "?i + 8 + length body" "kind @ body" "?c @ post"] assms(1) by (simp add: chunk_def)
  show ?thesis unfolding chunk_at_def head option.case Let_def len body crc covered by simp
qed

text \<open>A sequence of chunks is handled one by one, up to the end chunk; what follows it is not read.\<close>

primrec run_chunks :: "(bytes \<times> bytes) list \<Rightarrow> Chunks \<Rightarrow> (PngError, Chunks) outcome" where
  "run_chunks [] c = Done c"
| "run_chunks (kb # kbs) c = and_then (on_chunk (fst kb) (snd kb) c) (\<lambda>r. case r of Inl c' \<Rightarrow> run_chunks kbs c' | Inr c' \<Rightarrow> Done c')"

definition chunks_file :: "(bytes \<times> bytes) list \<Rightarrow> bytes \<Rightarrow> bytes" where
  "chunks_file kbs trailing = concat (map (\<lambda>(kind, body). chunk kind body) kbs) @ chunk IEND [] @ trailing"

lemma chunk_loop_file:
  assumes "\<forall>(kind, body) \<in> set kbs. length kind = 4 \<and> length body < 2 ^ 32"
  shows "chunk_loop (pre @ chunks_file kbs trailing) (length pre) c = run_chunks kbs c"
  using assms
proof (induction kbs arbitrary: pre c)
  case Nil
  have "chunk_at (pre @ chunk IEND [] @ trailing) (length pre) = Done (IEND, [])" by (rule chunk_at_chunk) (simp_all add: IEND_def)
  then show ?case by (subst chunk_loop.simps) (simp add: chunks_file_def on_chunk_def)
next
  case (Cons kb kbs)
  obtain kind body where kb: "kb = (kind, body)" by (cases kb)
  have k: "length kind = 4" "length body < 2 ^ 32" using Cons.prems kb by auto
  have fl: "pre @ chunks_file (kb # kbs) trailing = pre @ chunk kind body @ chunks_file kbs trailing" by (simp add: chunks_file_def kb)
  have IH: "chunk_loop (pre @ chunk kind body @ chunks_file kbs trailing) (length pre + 12 + length body) c' = run_chunks kbs c'" for c'
    using Cons.IH [of "pre @ chunk kind body" c'] Cons.prems k(1) by (simp add: length_chunk add.assoc)
  then have "chunk_loop (pre @ chunk kind body @ chunks_file kbs trailing) (length pre + 12 + length body) = run_chunks kbs" by (rule ext)
  then show ?case unfolding fl
    by (subst chunk_loop.simps) (simp add: chunk_at_chunk [OF k] kb)
qed

definition ihdr_body :: "Header \<Rightarrow> bytes" where
  "ihdr_body hdr = be_bytes 4 (hdr_width hdr) @ be_bytes 4 (hdr_height hdr) @ [8, hdr_color hdr, 0, 0, 0]"

definition good_header :: "Header \<Rightarrow> bool" where
  "good_header hdr \<longleftrightarrow> hdr_width hdr \<noteq> 0 \<and> hdr_height hdr \<noteq> 0 \<and> png_size hdr \<le> 320 * 1024 * 1024 \<and> hdr_color hdr \<in> {0, 2, 3, 4, 6}"

lemma parse_ihdr_body:
  assumes "good_header hdr"
  shows "parse_ihdr (ihdr_body hdr) = Done hdr"
proof -
  let ?d = "ihdr_body hdr"
  have l: "length (be_bytes 4 w) = 4" for w :: u32 by simp
  have n: "length ?d = 13" by (simp add: ihdr_body_def)
  have t: "take 4 ?d = be_bytes 4 (hdr_width hdr)" "take 4 (drop 4 ?d) = be_bytes 4 (hdr_height hdr)" by (simp_all add: ihdr_body_def)
  have i: "?d ! 8 = 8" "?d ! 9 = hdr_color hdr" "?d ! 10 = 0" "?d ! 11 = 0" "?d ! 12 = 0" by (simp_all add: ihdr_body_def nth_append)
  have "(ucast (hdr_width hdr) :: u64) * ucast (hdr_height hdr) * 4 = word_of_nat (png_size hdr)" by (simp add: png_size_def)
  moreover have "unat (word_of_nat (png_size hdr) :: u64) \<le> unat MAX_RGBA_BYTES"
    using assms by (simp add: good_header_def unsigned_of_nat take_bit_nat_eq_self MAX_RGBA_BYTES_def)
  ultimately have q: "\<not> (ucast (hdr_width hdr) :: u64) * ucast (hdr_height hdr) * 4 > MAX_RGBA_BYTES" by (simp add: word_le_nat_alt not_less)
  show ?thesis using assms q unfolding parse_ihdr_13 [OF n] Let_def t i of_be_be_bytes [of 4, where 'a = 32, simplified]
    by (auto simp: good_header_def)
qed

lemma run_idat: "c_hdr c \<noteq> None \<Longrightarrow> run_chunks (map (Pair IDAT) parts) c = Done (c\<lparr>c_idat := c_idat c @ concat parts\<rparr>)"
  by (induction parts arbitrary: c) (simp_all add: on_chunk_def IDAT_def IEND_def IHDR_def)

text \<open>
  A file: header, palette and transparency where there are any, the compressed scanlines in any number of chunks.
\<close>

definition png_file :: "Header \<Rightarrow> bytes option \<Rightarrow> bytes option \<Rightarrow> bytes list \<Rightarrow> bytes \<Rightarrow> bytes" where
  "png_file hdr plte trns parts trailing =
     SIGNATURE @ chunks_file ((IHDR, ihdr_body hdr) # map (Pair PLTE) (case plte of None \<Rightarrow> [] | Some p \<Rightarrow> [p])
       @ map (Pair tRNS) (case trns of None \<Rightarrow> [] | Some t \<Rightarrow> [t]) @ map (Pair IDAT) parts) trailing"

lemma run_chunks_append:
  "run_chunks kbs c = Done c' \<Longrightarrow> \<forall>kb \<in> set kbs. fst kb \<noteq> IEND \<Longrightarrow> run_chunks (kbs @ kbs') c = run_chunks kbs' c'"
proof (induction kbs arbitrary: c)
  case (Cons kb kbs)
  obtain r where r: "on_chunk (fst kb) (snd kb) c = Done r" "(case r of Inl c2 \<Rightarrow> run_chunks kbs c2 | Inr c2 \<Rightarrow> Done c2) = Done c'"
    using Cons.prems(1) by (auto simp: and_then_Done)
  obtain c2 where "r = Inl c2" using r(1) Cons.prems(2) by (auto simp: on_chunk_def and_then_Done split: if_splits)
  then show ?case using Cons.IH [of c2] Cons.prems(2) r by simp
qed simp

lemma decode_png_file:
  assumes "parse_ihdr (ihdr_body hdr) = Done hdr" "\<forall>p \<in> set parts. length p < 2 ^ 32"
    and "\<forall>p. plte = Some p \<longrightarrow> length p < 2 ^ 32" "\<forall>t. trns = Some t \<longrightarrow> length t < 2 ^ 32"
  shows "decode_png (png_file hdr plte trns parts trailing)
    = decode_image \<lparr>c_hdr = Some hdr, c_idat = concat parts, c_plte = (case plte of None \<Rightarrow> [] | Some p \<Rightarrow> p), c_trns = (case trns of None \<Rightarrow> [] | Some t \<Rightarrow> t)\<rparr>"
    and "header_of (png_file hdr plte trns parts trailing) = Some hdr"
proof -
  note kinds = IHDR_def IDAT_def PLTE_def tRNS_def IEND_def
  let ?c0 = "\<lparr>c_hdr = None, c_idat = [], c_plte = [], c_trns = []\<rparr>"
  let ?kbs = "(IHDR, ihdr_body hdr) # map (Pair PLTE) (case plte of None \<Rightarrow> [] | Some p \<Rightarrow> [p]) @ map (Pair tRNS) (case trns of None \<Rightarrow> [] | Some t \<Rightarrow> [t])"
  let ?c1 = "\<lparr>c_hdr = Some hdr, c_idat = [], c_plte = (case plte of None \<Rightarrow> [] | Some p \<Rightarrow> p), c_trns = (case trns of None \<Rightarrow> [] | Some t \<Rightarrow> t)\<rparr>"
  have "run_chunks ?kbs ?c0 = Done ?c1"
    using assms(1) by (cases plte; cases trns) (simp_all add: on_chunk_def kinds)
  moreover have "\<forall>kb \<in> set ?kbs. fst kb \<noteq> IEND" by (auto simp: kinds split: option.splits)
  ultimately have run: "run_chunks (?kbs @ map (Pair IDAT) parts) ?c0 = Done (?c1\<lparr>c_idat := concat parts\<rparr>)"
    using run_chunks_append [of ?kbs ?c0 ?c1 "map (Pair IDAT) parts"] run_idat [of ?c1 parts] by simp
  have ok: "\<forall>(kind, body) \<in> set (?kbs @ map (Pair IDAT) parts). length kind = 4 \<and> length body < 2 ^ 32"
    using assms(2-4) by (auto simp: kinds ihdr_body_def split: option.splits)
  have "chunk_loop (chunks_file (?kbs @ map (Pair IDAT) parts) trailing) 0 ?c0 = Done (?c1\<lparr>c_idat := concat parts\<rparr>)"
    using chunk_loop_file [OF ok, of "[]" trailing ?c0] run by simp
  then have "decode_png (png_file hdr plte trns parts trailing) = decode_image (?c1\<lparr>c_idat := concat parts\<rparr>)"
    and h: "header_of (png_file hdr plte trns parts trailing) = Some hdr"
    by (simp_all add: decode_png_def header_of_def png_file_def SIGNATURE_def)
  then show "decode_png (png_file hdr plte trns parts trailing)
    = decode_image \<lparr>c_hdr = Some hdr, c_idat = concat parts, c_plte = (case plte of None \<Rightarrow> [] | Some p \<Rightarrow> p), c_trns = (case trns of None \<Rightarrow> [] | Some t \<Rightarrow> t)\<rparr>"
    by simp
  show "header_of (png_file hdr plte trns parts trailing) = Some hdr" by (rule h)
qed

text \<open>An image whose compressed data expands to its scanlines.\<close>

lemma decode_image_rows:
  assumes "good_header hdr" "c_hdr c = Some hdr"
    and "\<forall>(f, row) \<in> set rows. f \<le> 4 \<and> length row = unat (hdr_width hdr) * channels hdr" "length rows = unat (hdr_height hdr)"
    and "\<forall>limit. length (scanlines (channels hdr) (replicate (unat (hdr_width hdr) * channels hdr) 0) rows) \<le> limit \<longrightarrow>
      zlib_decompress (c_idat c) limit = Done (scanlines (channels hdr) (replicate (unat (hdr_width hdr) * channels hdr) 0) rows)"
  shows "decode_image c = and_then (to_rgba hdr (concat (map snd rows)) (c_plte c) (c_trns c))
    (\<lambda>rgba. Done \<lparr>png_width = hdr_width hdr, png_height = hdr_height hdr, png_rgba = rgba\<rparr>)"
proof -
  let ?w = "unat (hdr_width hdr)" and ?h = "unat (hdr_height hdr)" and ?bpp = "channels hdr"
  let ?raw = "scanlines ?bpp (replicate (?w * ?bpp) 0) rows"
  have sl: "length (scanlines b prev rs) = length rs * (n + 1)" if "\<forall>(f, row) \<in> set rs. f \<le> 4 \<and> length row = n" for b prev rs n
    using that by (induction b prev rs rule: scanlines.induct) auto
  have len: "length ?raw = ?h * (?w * ?bpp + 1)" using sl [OF assms(3)] assms(4) by simp
  have "?h * (?w * ?bpp + 1) \<le> png_size hdr + ?h" by (rule expect_le)
  also have "\<dots> < 2 ^ 64"
  proof -
    have "?h < 2 ^ LENGTH(32)" by (rule unsigned_less)
    moreover have "png_size hdr \<le> 320 * 1024 * 1024" using assms(1) by (simp add: good_header_def)
    ultimately show ?thesis by simp
  qed
  finally have e: "?h * (?w * ?bpp + 1) mod 2 ^ 64 = ?h * (?w * ?bpp + 1)" by (rule mod_less)
  have z: "zlib_decompress (c_idat c) (?h * (?w * ?bpp + 1)) = Done ?raw" using assms(5) len by simp
  have u: "unfilter ?raw ?w ?h ?bpp = Done (concat (map snd rows))"
    using unfilter_scanlines [OF _ assms(3)] channels_bounds [of hdr] assms(4) by simp
  show ?thesis unfolding decode_image_def assms(2) option.case Let_def expect_nat e z outcome.case len u by simp
qed


lemma png_file_image:
  assumes "good_header hdr" "length rows = unat (hdr_height hdr)"
    and "\<forall>(f, row) \<in> set rows. f \<le> 4 \<and> length row = unat (hdr_width hdr) * channels hdr"
    and "zlib_header cmf flg" "bs \<noteq> []" "\<forall>b \<in> set bs. valid_block b"
    and "expand_blocks bs [] = Some (scanlines (channels hdr) (replicate (unat (hdr_width hdr) * channels hdr) 0) rows)"
    and "concat parts = zlib_bytes cmf flg bs" "\<forall>p \<in> set parts. length p < 2 ^ 32"
    and "\<forall>p. plte = Some p \<longrightarrow> length p < 2 ^ 32" "\<forall>t. trns = Some t \<longrightarrow> length t < 2 ^ 32"
  shows "decode_png (png_file hdr plte trns parts trailing)
    = and_then (to_rgba hdr (concat (map snd rows)) (case plte of None \<Rightarrow> [] | Some p \<Rightarrow> p) (case trns of None \<Rightarrow> [] | Some t \<Rightarrow> t))
      (\<lambda>rgba. Done \<lparr>png_width = hdr_width hdr, png_height = hdr_height hdr, png_rgba = rgba\<rparr>)"
proof -
  let ?c = "\<lparr>c_hdr = Some hdr, c_idat = concat parts, c_plte = (case plte of None \<Rightarrow> [] | Some p \<Rightarrow> p), c_trns = (case trns of None \<Rightarrow> [] | Some t \<Rightarrow> t)\<rparr>"
  let ?raw = "scanlines (channels hdr) (replicate (unat (hdr_width hdr) * channels hdr) 0) rows"
  have "zlib_decompress (concat parts) limit = Done ?raw" if "length ?raw \<le> limit" for limit
    using zlib_bytes [OF assms(4-7) that, of "[]"] assms(8) by simp
  then have "decode_image ?c = and_then (to_rgba hdr (concat (map snd rows)) (c_plte ?c) (c_trns ?c))
    (\<lambda>rgba. Done \<lparr>png_width = hdr_width hdr, png_height = hdr_height hdr, png_rgba = rgba\<rparr>)"
    using assms(1-3) by (intro decode_image_rows) simp_all
  then show ?thesis using decode_png_file(1) [OF parse_ihdr_body [OF assms(1)] assms(9,10,11)] by simp
qed

section \<open>A header whose byte count wraps\<close>

text \<open>
  An RGBA header of two to the power of 31 pixels in both directions is accepted. Its scanlines take
  \<open>2 ^ 31 * (1 + 2 ^ 33)\<close> bytes, which is \<open>2 ^ 31\<close> in 64 bits; data of that length is taken for the whole image,
  and reversing the filter of the first row stops the program.
\<close>

definition wrapped_header :: Header where
  "wrapped_header = \<lparr>hdr_width = 2147483648, hdr_height = 2147483648, hdr_color = 6\<rparr>"

definition zeros :: stream_block where
  "zeros = Stored (replicate 32768 0)"

definition wrapped_png :: bytes where
  "wrapped_png = png_file wrapped_header None None (map (\<lambda>b. [b]) (zlib_bytes 0x78 1 (replicate 65536 zeros))) []"

lemma expand_zeros: "expand_blocks (replicate n zeros) out = Some (out @ replicate (n * 32768) 0)"
  by (induction n arbitrary: out) (simp_all add: zeros_def replicate_add [symmetric])

lemma concat_singles [simp]: "concat (map (\<lambda>b. [b]) xs) = xs"
  by (induction xs) simp_all

lemma wrapped_header_read: "parse_ihdr (ihdr_body wrapped_header) = Done wrapped_header"
proof -
  have d: "ihdr_body wrapped_header = [128, 0, 0, 0, 128, 0, 0, 0, 8, 6, 0, 0, 0]" by code_simp
  show ?thesis unfolding d by (simp add: parse_ihdr_def be_word_at_def of_be_def MAX_RGBA_BYTES_def wrapped_header_def)
qed

lemma wrapped_png_chunks:
  "decode_png wrapped_png = decode_image \<lparr>c_hdr = Some wrapped_header, c_idat = zlib_bytes 0x78 1 (replicate 65536 zeros), c_plte = [], c_trns = []\<rparr>"
  unfolding wrapped_png_def by (subst decode_png_file(1) [OF wrapped_header_read]) simp_all

lemma wrapped_png_stops: "decode_png wrapped_png = Stops"
proof -
  let ?z = "zlib_bytes 0x78 1 (replicate 65536 zeros)" and ?raw = "replicate 2147483648 (0 :: u8)"
  have "expand_blocks (replicate 65536 zeros) [] = Some ?raw" using expand_zeros [of 65536 "[]"] by simp
  moreover have "zlib_header 0x78 1" by (simp add: zlib_header_def)
  ultimately have z: "zlib_decompress ?z 2147483648 = Done ?raw"
    using zlib_bytes [of "0x78" 1 "replicate 65536 zeros" ?raw 2147483648 "[]"] by (simp add: zeros_def)
  have "unfilter_rows (2147483648 * 4) 4 0 (0 # [1..<2147483648]) ?raw = Stops"
    by (simp add: Let_def copy_within_def)
  moreover have "[0..<2147483648] = 0 # [1..<2147483648 :: nat]" by (intro upt_conv_Cons [of 0, unfolded One_nat_def [symmetric]]) simp
  ultimately have "unfilter ?raw 2147483648 2147483648 4 = Stops" unfolding unfilter_def by simp
  then show ?thesis unfolding wrapped_png_chunks decode_image_def wrapped_header_def
    by (simp add: channels_def z)
qed

lemma wrapped_png_header: "header_of wrapped_png = Some wrapped_header"
  unfolding wrapped_png_def by (rule decode_png_file(2) [OF wrapped_header_read]) simp_all

end
