(* ===== verification/Graphics.thy ===== *)
theory Graphics
  imports Base64 Utf8 Terminal Png_Images
begin

text \<open>
  \<open>crates/posh-term/src/graphics.rs\<close>: kitty graphics, the APC commands that store images, frames and
  placements. The maps of the code, keyed by image id, are lists without repeated keys: images carry their id,
  frames and animations are paired with it. An operation that indexes out of range has the result \<open>None\<close>.
  Byte counts are natural numbers, the products of dimensions 64-bit words; identifiers, dimensions and offsets
  are words of their width, signed ones read with \<open>sint\<close>. The files a transmission can name are a map from
  paths to contents.
\<close>

section \<open>State\<close>

datatype ImageFormat = Rgb | Rgba | PngData

record Image =
  im_id :: u32
  im_number :: u32
  im_format :: ImageFormat
  im_width :: u32
  im_height :: u32
  im_data :: bytes
  im_seq :: nat

record Frame =
  af_number :: u32
  af_gap_ms :: u32
  af_base_frame :: u32
  af_x :: u32
  af_y :: u32
  af_format :: ImageFormat
  af_width :: u32
  af_height :: u32
  af_data :: bytes
  af_replace :: bool

record AnimationState =
  an_state :: u8
  an_loops :: u32
  an_current_frame :: u32

record Placement =
  pl_image_id :: u32
  pl_placement_id :: u32
  pl_row :: u16
  pl_col :: u16
  pl_src_x :: u32
  pl_src_y :: u32
  pl_src_w :: u32
  pl_src_h :: u32
  pl_cols :: u32
  pl_rows :: u32
  pl_z :: u32
  pl_parent_image :: u32
  pl_parent_placement :: u32
  pl_h_off :: u32
  pl_v_off :: u32
  pl_cell_x :: u32
  pl_cell_y :: u32
  pl_unicode :: bool

record Command =
  k_action :: u8
  k_quiet :: u8
  k_format :: u32
  k_transmission :: u8
  k_width :: u32
  k_height :: u32
  k_id :: u32
  k_number :: u32
  k_placement_id :: u32
  k_more :: u8
  k_src_x :: u32
  k_src_y :: u32
  k_src_w :: u32
  k_src_h :: u32
  k_cols :: u32
  k_rows :: u32
  k_z :: u32
  k_delete :: u8
  k_no_cursor_move :: bool
  k_unicode :: bool
  k_parent_image :: u32
  k_parent_placement :: u32
  k_h_off :: u32
  k_v_off :: u32
  k_cell_x :: u32
  k_cell_y :: u32
  k_file_offset :: u64
  k_file_size :: u64
  k_compression :: u8

record Pending =
  pn_cmd :: Command
  pn_payload :: bytes

record GraphicsState =
  gs_images :: "Image list"
  gs_placements :: "Placement list"
  gs_frames :: "(u32 \<times> Frame list) list"
  gs_animations :: "(u32 \<times> AnimationState) list"
  gs_pending :: "Pending option"
  gs_total_bytes :: nat
  gs_next_seq :: nat
  gs_next_id :: u32

definition QUOTA_BYTES :: nat where "QUOTA_BYTES = 335544320"
definition MAX_PENDING_PAYLOAD :: nat where "MAX_PENDING_PAYLOAD = 430000000"
definition CELL_W :: u32 where "CELL_W = 10"
definition CELL_H :: u32 where "CELL_H = 20"

definition graphics_default :: GraphicsState where
  "graphics_default = \<lparr>gs_images = [], gs_placements = [], gs_frames = [], gs_animations = [], gs_pending = None,
     gs_total_bytes = 0, gs_next_seq = 0, gs_next_id = 0\<rparr>"

definition command_default :: Command where
  "command_default = \<lparr>k_action = 0, k_quiet = 0, k_format = 0, k_transmission = 0, k_width = 0, k_height = 0, k_id = 0,
     k_number = 0, k_placement_id = 0, k_more = 0, k_src_x = 0, k_src_y = 0, k_src_w = 0, k_src_h = 0, k_cols = 0,
     k_rows = 0, k_z = 0, k_delete = 0, k_no_cursor_move = False, k_unicode = False, k_parent_image = 0,
     k_parent_placement = 0, k_h_off = 0, k_v_off = 0, k_cell_x = 0, k_cell_y = 0, k_file_offset = 0, k_file_size = 0,
     k_compression = 0\<rparr>"

definition find_image :: "u32 \<Rightarrow> GraphicsState \<Rightarrow> Image option" where
  "find_image i g = List.find (\<lambda>img. im_id img = i) (gs_images g)"

definition frames_of :: "u32 \<Rightarrow> GraphicsState \<Rightarrow> Frame list" where
  "frames_of i g = (case map_of (gs_frames g) i of None \<Rightarrow> [] | Some fs \<Rightarrow> fs)"

definition forget :: "u32 \<Rightarrow> (u32 \<times> 'a) list \<Rightarrow> (u32 \<times> 'a) list" where
  "forget i xs = filter (\<lambda>x. fst x \<noteq> i) xs"

section \<open>Commands\<close>

text \<open>\<open>i64\<close> as \<open>str::parse\<close> reads it; anything else, and bytes that are not UTF-8, are zero.\<close>

definition ascii_digit :: "u8 \<Rightarrow> bool" where
  "ascii_digit b \<longleftrightarrow> 0x30 \<le> b \<and> b \<le> 0x39"

definition digits_value :: "bytes \<Rightarrow> nat option" where
  "digits_value ds = (if ds \<noteq> [] \<and> list_all ascii_digit ds then Some (fold (\<lambda>d n. 10 * n + unat (d - 0x30)) ds 0) else None)"

definition parse_i64 :: "bytes \<Rightarrow> int" where
  "parse_i64 bs =
     (case bs of
        [] \<Rightarrow> 0
      | b # ds \<Rightarrow>
          if b = 0x2D then (case digits_value ds of None \<Rightarrow> 0 | Some n \<Rightarrow> if n \<le> 2 ^ 63 then - int n else 0)
          else (case digits_value (if b = 0x2B then ds else bs) of None \<Rightarrow> 0 | Some n \<Rightarrow> if n < 2 ^ 63 then int n else 0))"

definition split_control :: "bytes \<Rightarrow> bytes \<times> bytes" where
  "split_control data = (case split_once 0x3B data of None \<Rightarrow> (data, []) | Some (a, b) \<Rightarrow> (a, b))"

definition set_key :: "bytes \<Rightarrow> bytes \<Rightarrow> Command \<Rightarrow> Command" where
  "set_key key val k =
     (let n = parse_i64 val; w = word_of_int n :: u32; c = (case val of [] \<Rightarrow> 0 | b # _ \<Rightarrow> b)
      in if key = asc ''a'' then k\<lparr>k_action := c\<rparr>
         else if key = asc ''q'' then k\<lparr>k_quiet := word_of_int n\<rparr>
         else if key = asc ''f'' then k\<lparr>k_format := w\<rparr>
         else if key = asc ''t'' then k\<lparr>k_transmission := c\<rparr>
         else if key = asc ''s'' then k\<lparr>k_width := w\<rparr>
         else if key = asc ''v'' then k\<lparr>k_height := w\<rparr>
         else if key = asc ''i'' then k\<lparr>k_id := w\<rparr>
         else if key = asc ''I'' then k\<lparr>k_number := w\<rparr>
         else if key = asc ''p'' then k\<lparr>k_placement_id := w\<rparr>
         else if key = asc ''m'' then k\<lparr>k_more := word_of_int n\<rparr>
         else if key = asc ''x'' then k\<lparr>k_src_x := w\<rparr>
         else if key = asc ''y'' then k\<lparr>k_src_y := w\<rparr>
         else if key = asc ''w'' then k\<lparr>k_src_w := w\<rparr>
         else if key = asc ''h'' then k\<lparr>k_src_h := w\<rparr>
         else if key = asc ''c'' then k\<lparr>k_cols := w\<rparr>
         else if key = asc ''r'' then k\<lparr>k_rows := w\<rparr>
         else if key = asc ''z'' then k\<lparr>k_z := w\<rparr>
         else if key = asc ''d'' then k\<lparr>k_delete := c\<rparr>
         else if key = asc ''C'' then k\<lparr>k_no_cursor_move := n = 1\<rparr>
         else if key = asc ''U'' then k\<lparr>k_unicode := n = 1\<rparr>
         else if key = asc ''P'' then k\<lparr>k_parent_image := w\<rparr>
         else if key = asc ''Q'' then k\<lparr>k_parent_placement := w\<rparr>
         else if key = asc ''H'' then k\<lparr>k_h_off := w\<rparr>
         else if key = asc ''V'' then k\<lparr>k_v_off := w\<rparr>
         else if key = asc ''X'' then k\<lparr>k_cell_x := w\<rparr>
         else if key = asc ''Y'' then k\<lparr>k_cell_y := w\<rparr>
         else if key = asc ''O'' then k\<lparr>k_file_offset := word_of_int n\<rparr>
         else if key = asc ''S'' then k\<lparr>k_file_size := word_of_int n\<rparr>
         else if key = asc ''o'' then k\<lparr>k_compression := c\<rparr>
         else k)"

fun parse_pairs :: "bytes list \<Rightarrow> Command \<Rightarrow> Command option" where
  "parse_pairs [] k = Some k"
| "parse_pairs (pair # pairs) k =
     (if pair = [] then parse_pairs pairs k
      else case split_once 0x3D pair of
             None \<Rightarrow> None
           | Some (key, val) \<Rightarrow> parse_pairs pairs (set_key key val k))"

definition parse_command :: "bytes \<Rightarrow> Command option" where
  "parse_command ctl = parse_pairs (split_all 0x2C ctl) command_default"

text \<open>The acknowledgement: suppressed without an address, or by the quiet key.\<close>

definition graphics_respond :: "Command \<Rightarrow> string \<Rightarrow> bytes option" where
  "graphics_respond k message =
     (if k_id k = 0 \<and> k_number k = 0 then None
      else if k_quiet k \<ge> 2 \<or> (message = ''OK'' \<and> k_quiet k = 1) then None
      else let keys = (if k_id k \<noteq> 0 then asc ''i='' @ decimal (unat (k_id k)) else []);
               keys' = (if k_number k \<noteq> 0
                        then keys @ (if keys \<noteq> [] then [0x2C] else []) @ asc ''I='' @ decimal (unat (k_number k)) else keys)
           in Some ([0x1B, 0x5F, 0x47] @ keys' @ [0x3B] @ asc message @ [0x1B, 0x5C]))"

section \<open>Pixels\<close>

definition bpp_of :: "ImageFormat \<Rightarrow> nat" where
  "bpp_of f = (case f of Rgb \<Rightarrow> 3 | _ \<Rightarrow> 4)"

fun opaque :: "bytes \<Rightarrow> bytes" where
  "opaque (r # g # b # px) = [r, g, b, 255] @ opaque px"
| "opaque _ = []"

definition as_rgba :: "ImageFormat \<Rightarrow> bytes \<Rightarrow> bytes" where
  "as_rgba format data = (case format of Rgb \<Rightarrow> opaque data | _ \<Rightarrow> data)"

text \<open>Both arguments are four bytes; the sums stay below 32 bits.\<close>

definition blend_px :: "bytes \<Rightarrow> bytes \<Rightarrow> bytes" where
  "blend_px d s =
     (let sa = unat (s ! 3)
      in if sa = 255 then take 4 s
         else let da = unat (d ! 3); oa = sa * 255 + da * (255 - sa)
              in if oa = 0 then [0, 0, 0, 0]
                 else map (\<lambda>c. word_of_nat ((unat (s ! c) * sa * 255 + unat (d ! c) * da * (255 - sa)) div oa)) [0, 1, 2]
                      @ [word_of_nat (oa div 255)])"

text \<open>Pixel \<open>(row, col)\<close> of the rectangle; a slice out of range stops the program.\<close>

definition compose_pixel ::
  "nat \<Rightarrow> bytes \<Rightarrow> nat \<Rightarrow> nat \<times> nat \<Rightarrow> nat \<times> nat \<Rightarrow> bool \<Rightarrow> nat \<times> nat \<Rightarrow> bytes \<Rightarrow> bytes option" where
  "compose_pixel dw src sw spos dpos replace rc dst =
     (let s_at = ((snd spos + fst rc) * sw + fst spos) * 4 + snd rc * 4;
          d_at = ((snd dpos + fst rc) * dw + fst dpos) * 4 + snd rc * 4
      in case get_range src s_at (s_at + 4) of None \<Rightarrow> None
         | Some s \<Rightarrow> (case get_range dst d_at (d_at + 4) of None \<Rightarrow> None
                      | Some d \<Rightarrow> Some (take d_at dst @ (if replace then s else blend_px d s) @ drop (d_at + 4) dst)))"

fun compose_pixels ::
  "nat \<Rightarrow> bytes \<Rightarrow> nat \<Rightarrow> nat \<times> nat \<Rightarrow> nat \<times> nat \<Rightarrow> bool \<Rightarrow> (nat \<times> nat) list \<Rightarrow> bytes \<Rightarrow> bytes option" where
  "compose_pixels dw src sw spos dpos replace [] dst = Some dst"
| "compose_pixels dw src sw spos dpos replace (rc # rcs) dst =
     Option.bind (compose_pixel dw src sw spos dpos replace rc dst) (compose_pixels dw src sw spos dpos replace rcs)"

text \<open>Dimensions are (width, height), positions (x, y).\<close>

definition compose_rect ::
  "bytes \<Rightarrow> nat \<times> nat \<Rightarrow> bytes \<Rightarrow> nat \<times> nat \<Rightarrow> nat \<times> nat \<Rightarrow> nat \<times> nat \<Rightarrow> nat \<times> nat \<Rightarrow> bool \<Rightarrow> bytes option" where
  "compose_rect dst ddim src sdim spos dpos dim replace =
     (let w = min (min (fst dim) (fst sdim - fst spos)) (fst ddim - fst dpos);
          h = min (min (snd dim) (snd sdim - snd spos)) (snd ddim - snd dpos)
      in compose_pixels (fst ddim) src (fst sdim) spos dpos replace (List.product [0..<h] [0..<w]) dst)"

definition img_dim :: "Image \<Rightarrow> nat \<times> nat" where
  "img_dim img = (unat (im_width img), unat (im_height img))"

section \<open>Storage\<close>

definition remove_image_data :: "u32 \<Rightarrow> GraphicsState \<Rightarrow> GraphicsState" where
  "remove_image_data i g =
     g\<lparr>gs_images := filter (\<lambda>img. im_id img \<noteq> i) (gs_images g),
       gs_frames := forget i (gs_frames g),
       gs_animations := forget i (gs_animations g),
       gs_total_bytes := gs_total_bytes g - (case find_image i g of None \<Rightarrow> 0 | Some img \<Rightarrow> length (im_data img))
         - sum_list (map (\<lambda>f. length (af_data f)) (frames_of i g))\<rparr>"

text \<open>\<open>min_by_key\<close> and \<open>max_by_key\<close> on the sequence numbers, which are distinct.\<close>

definition best_by :: "(Image \<Rightarrow> Image \<Rightarrow> bool) \<Rightarrow> Image list \<Rightarrow> Image option" where
  "best_by better imgs =
     fold (\<lambda>img best. case best of None \<Rightarrow> Some img | Some b \<Rightarrow> if better img b then Some img else Some b) imgs None"

definition oldest :: "Image list \<Rightarrow> Image option" where
  "oldest = best_by (\<lambda>a b. im_seq a < im_seq b)"

definition newest :: "Image list \<Rightarrow> Image option" where
  "newest = best_by (\<lambda>a b. im_seq a \<ge> im_seq b)"

definition evict :: "u32 \<Rightarrow> GraphicsState \<Rightarrow> GraphicsState" where
  "evict i g = (let g' = remove_image_data i g in g'\<lparr>gs_placements := filter (\<lambda>p. pl_image_id p \<noteq> i) (gs_placements g')\<rparr>)"

lemma best_by_member: "best_by better imgs = Some img \<Longrightarrow> img \<in> set imgs"
proof -
  let ?f = "\<lambda>img best. case best of None \<Rightarrow> Some img | Some b \<Rightarrow> if better img b then Some img else Some b"
  have "fold ?f imgs best = Some img \<Longrightarrow> img \<in> set imgs \<or> best = Some img" for best
    by (induction imgs arbitrary: best) (fastforce split: option.splits if_splits)+
  then show "best_by better imgs = Some img \<Longrightarrow> img \<in> set imgs" by (fastforce simp: best_by_def)
qed

lemma evict_images: "gs_images (evict i g) = filter (\<lambda>img. im_id img \<noteq> i) (gs_images g)"
  by (simp add: evict_def remove_image_data_def Let_def)

function enforce_quota :: "GraphicsState \<Rightarrow> GraphicsState" where
  "enforce_quota g =
     (if gs_total_bytes g > QUOTA_BYTES
      then case oldest (gs_images g) of None \<Rightarrow> g | Some img \<Rightarrow> enforce_quota (evict (im_id img) g)
      else g)"
  by pat_completeness auto
termination
proof (relation "measure (\<lambda>g. length (gs_images g))")
  fix g :: GraphicsState and img
  assume "oldest (gs_images g) = Some img"
  then have "img \<in> set (gs_images g)" unfolding oldest_def by (rule best_by_member)
  then have "length (filter (\<lambda>i. im_id i \<noteq> im_id img) (gs_images g)) < length (gs_images g)" by (intro length_filter_less) auto
  then show "(evict (im_id img) g, g) \<in> measure (\<lambda>g. length (gs_images g))" by (simp add: evict_images)
qed simp

declare enforce_quota.simps [simp del]

definition resolve_id :: "Command \<Rightarrow> GraphicsState \<Rightarrow> u32 option" where
  "resolve_id k g =
     (if k_id k \<noteq> 0 then (if find_image (k_id k) g \<noteq> None then Some (k_id k) else None)
      else if k_number k \<noteq> 0
      then map_option im_id (newest (filter (\<lambda>img. im_number img = k_number k) (gs_images g)))
      else None)"

section \<open>Placements\<close>

definition div_ceil :: "u32 \<Rightarrow> u32 \<Rightarrow> u32" where
  "div_ceil a b = a div b + (if a mod b = 0 then 0 else 1)"

definition extent :: "GraphicsState \<Rightarrow> Placement \<Rightarrow> u32 \<times> u32" where
  "extent g p =
     (let (w, h) = (case find_image (pl_image_id p) g of
            None \<Rightarrow> (pl_src_w p, pl_src_h p)
          | Some img \<Rightarrow> (if pl_src_w p = 0 then im_width img else pl_src_w p, if pl_src_h p = 0 then im_height img else pl_src_h p))
      in (if pl_cols p \<noteq> 0 then pl_cols p else max (div_ceil w CELL_W) 1,
          if pl_rows p \<noteq> 0 then pl_rows p else max (div_ceil h CELL_H) 1))"

definition find_placement :: "GraphicsState \<Rightarrow> u32 \<times> u32 \<Rightarrow> Placement option" where
  "find_placement g at = List.find (\<lambda>p. pl_image_id p = fst at \<and> (snd at = 0 \<or> pl_placement_id p = snd at)) (gs_placements g)"

fun parent_cycle :: "GraphicsState \<Rightarrow> u32 \<times> u32 \<Rightarrow> nat \<Rightarrow> u32 \<times> u32 \<Rightarrow> bool" where
  "parent_cycle g self 0 at = False"
| "parent_cycle g self (Suc n) at =
     (if at = self then True
      else case find_placement g at of
             None \<Rightarrow> False
           | Some p \<Rightarrow> if pl_parent_image p = 0 then False else parent_cycle g self n (pl_parent_image p, pl_parent_placement p))"

text \<open>\<open>(i32::from(cell) + off).max(0) as u16\<close>.\<close>

definition offset_cell :: "u16 \<Rightarrow> u32 \<Rightarrow> u16" where
  "offset_cell cell off = (let v = sint ((ucast cell :: u32) + off) in word_of_int (max v 0))"

definition resolve_cell :: "Command \<Rightarrow> u16 \<times> u16 \<Rightarrow> GraphicsState \<Rightarrow> string + u16 \<times> u16" where
  "resolve_cell k cursor g =
     (if k_parent_image k \<noteq> 0
      then if parent_cycle g (k_id k, k_placement_id k) (length (gs_placements g) + 1) (k_parent_image k, k_parent_placement k)
           then Inl ''ECYCLE:relative placement cycle''
           else case find_placement g (k_parent_image k, k_parent_placement k) of
                  None \<Rightarrow> Inl ''ENOPARENT:no such parent placement''
                | Some parent \<Rightarrow> Inr (offset_cell (pl_row parent) (k_v_off k), offset_cell (pl_col parent) (k_h_off k))
      else Inr cursor)"

definition new_placement :: "Command \<Rightarrow> u16 \<times> u16 \<Rightarrow> Placement" where
  "new_placement k at =
     \<lparr>pl_image_id = k_id k, pl_placement_id = k_placement_id k, pl_row = fst at, pl_col = snd at,
      pl_src_x = k_src_x k, pl_src_y = k_src_y k, pl_src_w = k_src_w k, pl_src_h = k_src_h k,
      pl_cols = k_cols k, pl_rows = k_rows k, pl_z = k_z k,
      pl_parent_image = k_parent_image k, pl_parent_placement = k_parent_placement k,
      pl_h_off = k_h_off k, pl_v_off = k_v_off k, pl_cell_x = k_cell_x k, pl_cell_y = k_cell_y k,
      pl_unicode = k_unicode k\<rparr>"

type_synonym advance = "(u32 \<times> u32) option"

definition add_placement :: "Command \<Rightarrow> u16 \<times> u16 \<Rightarrow> GraphicsState \<Rightarrow> string + GraphicsState \<times> advance" where
  "add_placement k cursor g =
     (case resolve_cell k cursor g of
        Inl e \<Rightarrow> Inl e
      | Inr at \<Rightarrow>
          let p = new_placement k at;
              g1 = g\<lparr>gs_placements := filter (\<lambda>q. \<not> (pl_image_id q = k_id k \<and> pl_placement_id q = k_placement_id k)) (gs_placements g)\<rparr>;
              adv = (if \<not> k_no_cursor_move k \<and> \<not> k_unicode k \<and> k_parent_image k = 0 then Some (extent g1 p) else None)
          in Inr (g1\<lparr>gs_placements := gs_placements g1 @ [p]\<rparr>, adv))"

type_synonym reply = "bytes option \<times> advance"

definition graphics_place :: "Command \<Rightarrow> u16 \<times> u16 \<Rightarrow> GraphicsState \<Rightarrow> GraphicsState \<times> reply" where
  "graphics_place k cursor g =
     (case resolve_id k g of
        None \<Rightarrow> (g, graphics_respond k ''ENOENT:no such image'', None)
      | Some i \<Rightarrow>
          let k' = k\<lparr>k_id := i\<rparr>
          in case add_placement k' cursor g of
               Inr (g', adv) \<Rightarrow> (g', graphics_respond k' ''OK'', adv)
             | Inl e \<Rightarrow> (g, graphics_respond k' e, None))"

section \<open>Deleting\<close>

definition clamp_cell :: "u32 \<Rightarrow> u16" where
  "clamp_cell v = ucast (min v 65535)"

definition intersects :: "GraphicsState \<Rightarrow> Placement \<Rightarrow> u16 \<Rightarrow> u16 \<Rightarrow> bool" where
  "intersects g p row col =
     (\<not> pl_unicode p \<and>
      (let (cols, rows) = extent g p; r = ucast row :: u32; c = ucast col :: u32; pr = ucast (pl_row p); pc = ucast (pl_col p)
       in r \<ge> pr \<and> r < pr + rows \<and> c \<ge> pc \<and> c < pc + cols))"

text \<open>The images that lost a placement, in order, and with \<open>free\<close> the data of those that have none left.\<close>

definition delete_placements :: "bool \<Rightarrow> (GraphicsState \<Rightarrow> Placement \<Rightarrow> bool) \<Rightarrow> GraphicsState \<Rightarrow> GraphicsState" where
  "delete_placements free pred g =
     (let hit = pred (g\<lparr>gs_placements := []\<rparr>);
          touched = map pl_image_id (filter hit (gs_placements g));
          g1 = g\<lparr>gs_placements := filter (\<lambda>p. \<not> hit p) (gs_placements g)\<rparr>
      in if free
         then fold (\<lambda>i g. if \<exists>p \<in> set (gs_placements g). pl_image_id p = i then g else remove_image_data i g) touched g1
         else g1)"

definition delete_by_id :: "bool \<Rightarrow> (Placement \<Rightarrow> bool) \<Rightarrow> u32 option \<Rightarrow> GraphicsState \<Rightarrow> GraphicsState" where
  "delete_by_id free keep found g =
     (case found of
        None \<Rightarrow> g
      | Some i \<Rightarrow>
          let g1 = g\<lparr>gs_placements := filter (\<lambda>p. pl_image_id p \<noteq> i \<or> keep p) (gs_placements g)\<rparr>
          in if free then remove_image_data i g1 else g1)"

definition at_point :: "u32 \<Rightarrow> u32 \<Rightarrow> GraphicsState \<Rightarrow> Placement \<Rightarrow> bool" where
  "at_point x y g p \<longleftrightarrow> x \<ge> 1 \<and> y \<ge> 1 \<and> intersects g p (clamp_cell (y - 1)) (clamp_cell (x - 1))"

definition graphics_delete :: "Command \<Rightarrow> u16 \<times> u16 \<Rightarrow> GraphicsState \<Rightarrow> GraphicsState" where
  "graphics_delete k cursor g =
     (let free = 0x41 \<le> k_delete k \<and> k_delete k \<le> 0x5A;
          d = (if free then k_delete k + 32 else k_delete k)
      in if d = 0 \<or> d = 0x61
         then let g1 = g\<lparr>gs_placements := []\<rparr>
              in if free then g1\<lparr>gs_images := [], gs_frames := [], gs_animations := [], gs_total_bytes := 0\<rparr> else g1
         else if d = 0x69
         then delete_by_id free (\<lambda>p. k_placement_id k \<noteq> 0 \<and> pl_placement_id p \<noteq> k_placement_id k) (resolve_id k g) g
         else if d = 0x6E then delete_by_id free (\<lambda>p. False) (resolve_id (k\<lparr>k_id := 0\<rparr>) g) g
         else if d = 0x63 then delete_placements free (\<lambda>g p. intersects g p (fst cursor) (snd cursor)) g
         else if d = 0x70 then delete_placements free (at_point (k_src_x k) (k_src_y k)) g
         else if d = 0x71 then delete_placements free (\<lambda>g p. pl_z p = k_z k \<and> at_point (k_src_x k) (k_src_y k) g p) g
         else if d = 0x78
         then delete_placements free (\<lambda>g p. k_src_x k \<ge> 1 \<and> \<not> pl_unicode p
                \<and> (let col = k_src_x k - 1; pc = ucast (pl_col p) in col \<ge> pc \<and> col < pc + fst (extent g p))) g
         else if d = 0x79
         then delete_placements free (\<lambda>g p. k_src_y k \<ge> 1 \<and> \<not> pl_unicode p
                \<and> (let row = k_src_y k - 1; pr = ucast (pl_row p) in row \<ge> pr \<and> row < pr + snd (extent g p))) g
         else if d = 0x7A then delete_placements free (\<lambda>g p. pl_z p = k_z k) g
         else g)"


section \<open>Animation frames\<close>

definition with_frames :: "u32 \<Rightarrow> Frame list \<Rightarrow> GraphicsState \<Rightarrow> GraphicsState" where
  "with_frames i fs g = g\<lparr>gs_frames := (i, fs) # forget i (gs_frames g)\<rparr>"

definition find_frame :: "u32 \<Rightarrow> Frame list \<Rightarrow> Frame option" where
  "find_frame n fs = List.find (\<lambda>f. af_number f = n) fs"

text \<open>The first frame with the number of the new one is overwritten.\<close>

fun put_frame :: "Frame \<Rightarrow> Frame list \<Rightarrow> Frame list" where
  "put_frame new [] = []"
| "put_frame new (f # fs) = (if af_number f = af_number new then new # fs else f # put_frame new fs)"

definition new_frame_number :: "Frame list \<Rightarrow> u32" where
  "new_frame_number fs = (if fs = [] then 0 else Max (set (map af_number fs))) + 1"

definition store_frame :: "Command \<Rightarrow> ImageFormat \<Rightarrow> bytes \<Rightarrow> GraphicsState \<Rightarrow> GraphicsState \<times> bytes option" where
  "store_frame k format data g =
     (case resolve_id k g of
        None \<Rightarrow> (g, graphics_respond k ''ENOENT:no such image'')
      | Some i \<Rightarrow>
          let fs = frames_of i g;
              number = (if k_rows k \<noteq> 0 then k_rows k else new_frame_number fs);
              new = \<lparr>af_number = number, af_gap_ms = k_z k, af_base_frame = k_cols k, af_x = k_src_x k, af_y = k_src_y k,
                     af_format = format, af_width = k_width k, af_height = k_height k, af_data = data,
                     af_replace = k_cell_x k = 1\<rparr>;
              total = gs_total_bytes g + length data;
              g1 = (case find_frame number fs of
                      Some old \<Rightarrow> (with_frames i (put_frame new fs) g)\<lparr>gs_total_bytes := total - length (af_data old)\<rparr>
                    | None \<Rightarrow> (with_frames i (fs @ [new]) g)\<lparr>gs_total_bytes := total\<rparr>)
          in (enforce_quota g1, graphics_respond k ''OK''))"

definition animation_default :: AnimationState where
  "animation_default = \<lparr>an_state = 0, an_loops = 0, an_current_frame = 0\<rparr>"

definition animate :: "Command \<Rightarrow> GraphicsState \<Rightarrow> GraphicsState \<times> bytes option" where
  "animate k g =
     (case resolve_id k g of
        None \<Rightarrow> (g, graphics_respond k ''ENOENT:no such image'')
      | Some i \<Rightarrow>
          let st = (case map_of (gs_animations g) i of None \<Rightarrow> animation_default | Some st \<Rightarrow> st);
              st1 = (if k_width k \<noteq> 0 then st\<lparr>an_state := ucast (k_width k)\<rparr> else st);
              st2 = (if k_height k \<noteq> 0 then st1\<lparr>an_loops := k_height k\<rparr> else st1);
              st3 = (if k_cols k \<noteq> 0 then st2\<lparr>an_current_frame := k_cols k\<rparr> else st2)
          in (g\<lparr>gs_animations := (i, st3) # forget i (gs_animations g)\<rparr>, graphics_respond k ''OK''))"

text \<open>
  A frame composed onto its base chain: \<open>Fails\<close> is a missing frame or a cycle, \<open>Stops\<close> an index out of range.
  A frame is used once, so the frames not yet seen bound the recursion.
\<close>

function compose_chain :: "Image \<Rightarrow> Frame list \<Rightarrow> u32 \<Rightarrow> u32 list \<Rightarrow> (unit, bytes) outcome" where
  "compose_chain img fs n seen =
     (if n = 0 then Done (as_rgba (im_format img) (im_data img))
      else if n \<in> set seen then Fails ()
      else case find_frame n fs of
             None \<Rightarrow> Fails ()
           | Some f \<Rightarrow> and_then (compose_chain img fs (af_base_frame f) (n # seen)) (\<lambda>canvas.
               case compose_rect canvas (img_dim img) (as_rgba (af_format f) (af_data f)) (unat (af_width f), unat (af_height f))
                      (0, 0) (unat (af_x f), unat (af_y f)) (unat (af_width f), unat (af_height f)) (af_replace f) of
                 None \<Rightarrow> Stops
               | Some canvas' \<Rightarrow> Done canvas'))"
  by pat_completeness auto
termination
proof (relation "measure (\<lambda>(img, fs, n, seen). length (filter (\<lambda>f. af_number f \<notin> set seen) fs))")
  fix img :: Image and fs n seen f
  assume n: "n \<notin> set seen" "find_frame n fs = Some f"
  then have f: "f \<in> set fs" "af_number f = n" by (auto simp: find_frame_def find_Some_iff)
  let ?left = "filter (\<lambda>f. af_number f \<notin> set seen) fs"
  have e: "filter (\<lambda>f. af_number f \<notin> set (n # seen)) fs = filter (\<lambda>f. af_number f \<noteq> n) ?left"
    unfolding filter_filter by (rule filter_cong) auto
  have "f \<in> set ?left" using f n(1) by simp
  then have "length (filter (\<lambda>f. af_number f \<notin> set (n # seen)) fs) < length ?left"
    unfolding e by (rule length_filter_less) (simp add: f(2))
  then show "((img, fs, af_base_frame f, n # seen), img, fs, n, seen)
    \<in> measure (\<lambda>(img, fs, n, seen). length (filter (\<lambda>f. af_number f \<notin> set seen) fs))" by simp
qed simp

declare compose_chain.simps [simp del]

definition composed_frame :: "u32 \<Rightarrow> u32 \<Rightarrow> GraphicsState \<Rightarrow> (unit, bytes) outcome" where
  "composed_frame i n g =
     (case find_image i g of
        None \<Rightarrow> Fails ()
      | Some img \<Rightarrow> if im_width img = 0 \<or> im_height img = 0 then Fails () else compose_chain img (frames_of i g) n [])"

definition graphics_compose :: "Command \<Rightarrow> GraphicsState \<Rightarrow> (GraphicsState \<times> bytes option) option" where
  "graphics_compose k g =
     (case resolve_id k g of
        None \<Rightarrow> Some (g, graphics_respond k ''ENOENT:no such image'')
      | Some i \<Rightarrow>
          (case find_image i g of
             None \<Rightarrow> None
           | Some img \<Rightarrow>
               let there = (\<lambda>n. n \<noteq> 0 \<and> find_frame n (frames_of i g) \<noteq> None);
                   w = (if k_src_w k \<noteq> 0 then k_src_w k else im_width img);
                   h = (if k_src_h k \<noteq> 0 then k_src_h k else im_height img)
               in if \<not> there (k_rows k) \<or> \<not> there (k_cols k) then Some (g, graphics_respond k ''ENOENT:no such frame'')
                  else (case (composed_frame i (k_cols k) g, composed_frame i (k_rows k) g) of
                     (Done src, Done dst) \<Rightarrow>
                       map_option (\<lambda>dst'.
                         let fs = frames_of i g;
                             old = the (find_frame (k_rows k) fs);
                             new = old\<lparr>af_base_frame := 0, af_x := 0, af_y := 0, af_format := Rgba, af_width := im_width img,
                                       af_height := im_height img, af_data := dst', af_replace := True\<rparr>;
                             g1 = (with_frames i (put_frame new fs) g)\<lparr>gs_total_bytes :=
                                    gs_total_bytes g - length (af_data old) + length dst'\<rparr>
                         in (enforce_quota g1, graphics_respond k ''OK''))
                       (compose_rect dst (img_dim img) src (img_dim img) (unat (k_cell_x k), unat (k_cell_y k))
                         (unat (k_src_x k), unat (k_src_y k)) (unat w, unat h) (k_no_cursor_move k))
                   | (Stops, _) \<Rightarrow> None
                   | (_, Stops) \<Rightarrow> None
                   | _ \<Rightarrow> Some (g, graphics_respond k ''EINVAL:could not compose frame''))))"

section \<open>Transmissions\<close>

type_synonym files = "bytes \<Rightarrow> bytes option"

definition contains :: "bytes \<Rightarrow> bytes \<Rightarrow> bool" where
  "contains needle hay \<longleftrightarrow> (\<exists>i < length hay + 1. take (length needle) (drop i hay) = needle)"

definition load_file :: "Command \<Rightarrow> bytes \<Rightarrow> files \<Rightarrow> files \<times> (string, bytes) outcome" where
  "load_file k payload fl =
     (case decode payload of
        None \<Rightarrow> (fl, Fails ''EINVAL:invalid base64 payload'')
      | Some path \<Rightarrow>
          if \<not> utf8_valid path then (fl, Fails ''EINVAL:invalid file path'')
          else case fl path of
                 None \<Rightarrow> (fl, Fails ''ENOENT:could not read file'')
               | Some whole \<Rightarrow>
                   let fl' = (if k_transmission k = 0x74 \<and> contains (asc ''tty-graphics-protocol'') path then fl(path := None) else fl);
                       data = drop (unat (k_file_offset k)) whole;
                       data' = (if k_file_size k \<noteq> 0 then take (unat (k_file_size k)) data else data)
                   in (fl', if length data' > QUOTA_BYTES then Fails ''EFBIG:file exceeds storage quota'' else Done data'))"

definition received :: "Command \<Rightarrow> bytes \<Rightarrow> files \<Rightarrow> files \<times> (string, bytes) outcome" where
  "received k payload fl =
     (if k_transmission k = 0 \<or> k_transmission k = 0x64
      then (fl, case decode payload of None \<Rightarrow> Fails ''EINVAL:invalid base64 payload'' | Some d \<Rightarrow> Done d)
      else if k_transmission k = 0x66 \<or> k_transmission k = 0x74 then load_file k payload fl
      else if k_transmission k = 0x73 then (fl, Fails ''EUNSUPPORTED:shared memory unavailable'')
      else (fl, Fails ''EINVAL:unsupported transmission medium''))"

definition decompressed :: "Command \<Rightarrow> bytes \<Rightarrow> (string, bytes) outcome" where
  "decompressed k data =
     (if k_compression k = 0 then Done data
      else if k_compression k \<noteq> 0x7A then Fails ''EINVAL:unknown compression''
      else case zlib_decompress data QUOTA_BYTES of
             Done d \<Rightarrow> Done d
           | Fails TooLarge \<Rightarrow> Fails ''EFBIG:decompressed data exceeds storage quota''
           | Fails _ \<Rightarrow> Fails ''EINVAL:invalid zlib stream''
           | Stops \<Rightarrow> Stops)"

definition image_format :: "Command \<Rightarrow> (string, ImageFormat) outcome" where
  "image_format k =
     (if k_format k = 24 then Done Rgb
      else if k_format k = 0 \<or> k_format k = 32 then Done Rgba
      else if k_format k = 100 then Done PngData
      else Fails ''EINVAL:unknown format'')"

text \<open>The command with the dimensions of the image, and the pixels. The product wraps in 64 bits.\<close>

definition pixels_of :: "Command \<Rightarrow> ImageFormat \<Rightarrow> bytes \<Rightarrow> (string, Command \<times> bytes) outcome" where
  "pixels_of k format data =
     (if format = PngData
      then case decode_png data of
             Done png \<Rightarrow> Done (k\<lparr>k_width := png_width png, k_height := png_height png\<rparr>, png_rgba png)
           | Fails _ \<Rightarrow> Fails ''EBADPNG:failed to decode PNG''
           | Stops \<Rightarrow> Stops
      else if k_width k = 0 \<or> k_height k = 0
              \<or> length data \<noteq> unat ((ucast (k_width k) :: u64) * ucast (k_height k) * word_of_nat (bpp_of format))
      then Fails ''EINVAL:payload size does not match dimensions''
      else Done (k, data))"

definition store_image :: "Command \<Rightarrow> ImageFormat \<Rightarrow> bytes \<Rightarrow> GraphicsState \<Rightarrow> GraphicsState" where
  "store_image k format data g =
     (let g1 = remove_image_data (k_id k) g;
          seq = gs_next_seq g1 + 1;
          img = \<lparr>im_id = k_id k, im_number = k_number k, im_format = format, im_width = k_width k, im_height = k_height k,
                 im_data = data, im_seq = seq\<rparr>
      in enforce_quota (g1\<lparr>gs_images := img # gs_images g1, gs_total_bytes := gs_total_bytes g1 + length data, gs_next_seq := seq\<rparr>))"

definition assign_id :: "Command \<Rightarrow> GraphicsState \<Rightarrow> Command \<times> GraphicsState" where
  "assign_id k g =
     (if k_id k = 0 then (k\<lparr>k_id := gs_next_id g + 1\<rparr>, g\<lparr>gs_next_id := gs_next_id g + 1\<rparr>)
      else (k, g\<lparr>gs_next_id := max (gs_next_id g) (k_id k)\<rparr>))"

definition keep_image :: "Command \<Rightarrow> ImageFormat \<Rightarrow> bytes \<Rightarrow> u16 \<times> u16 \<Rightarrow> GraphicsState \<Rightarrow> GraphicsState \<times> reply" where
  "keep_image k format data cursor g =
     (if k_action k = 0x66 then (let (g', resp) = store_frame k format data g in (g', resp, None))
      else let (k', g1) = assign_id k g; resp = graphics_respond k' ''OK''
           in if k_action k' = 0x71 then (g1, resp, None)
              else let g2 = store_image k' format data g1
                   in if k_action k' = 0x54
                      then case add_placement k' cursor g2 of
                             Inr (g3, adv) \<Rightarrow> (g3, resp, adv)
                           | Inl e \<Rightarrow> (g2, graphics_respond k' e, None)
                      else (g2, resp, None))"

definition finish_transmission ::
  "Command \<Rightarrow> bytes \<Rightarrow> u16 \<times> u16 \<Rightarrow> files \<times> GraphicsState \<Rightarrow> ((files \<times> GraphicsState) \<times> reply) option" where
  "finish_transmission k payload cursor s =
     (let (fl, r) = received k payload (fst s); g = snd s
      in case and_then r (\<lambda>data. and_then (decompressed k data) (\<lambda>data. and_then (image_format k) (\<lambda>format.
                and_then (pixels_of k format data) (\<lambda>(k', pixels). Done (k', format, pixels))))) of
           Stops \<Rightarrow> None
         | Fails e \<Rightarrow> Some ((fl, g), graphics_respond k e, None)
         | Done (k', format, pixels) \<Rightarrow> (let (g', rep) = keep_image k' format pixels cursor g in Some ((fl, g'), rep)))"

section \<open>Dispatch\<close>

definition continue_transmission ::
  "Command \<Rightarrow> bytes \<Rightarrow> Pending \<Rightarrow> u16 \<times> u16 \<Rightarrow> files \<times> GraphicsState \<Rightarrow> ((files \<times> GraphicsState) \<times> reply) option" where
  "continue_transmission k payload pending cursor s =
     (let pending' = (if length (pn_payload pending) + length payload \<le> MAX_PENDING_PAYLOAD
                      then pending\<lparr>pn_payload := pn_payload pending @ payload\<rparr> else pending);
          s' = (fst s, (snd s)\<lparr>gs_pending := None\<rparr>)
      in if k_more k = 1 then Some ((fst s, (snd s)\<lparr>gs_pending := Some pending'\<rparr>), None, None)
         else finish_transmission (pn_cmd pending') (pn_payload pending') cursor s')"

definition run_command :: "Command \<Rightarrow> bytes \<Rightarrow> u16 \<times> u16 \<Rightarrow> files \<times> GraphicsState \<Rightarrow> ((files \<times> GraphicsState) \<times> reply) option" where
  "run_command k payload cursor s =
     (let g = snd s; act = k_action k
      in if act = 0x74 \<or> act = 0x54 \<or> act = 0x71 \<or> act = 0x66 \<or> act = 0
         then if k_more k = 1 then Some ((fst s, g\<lparr>gs_pending := Some \<lparr>pn_cmd = k, pn_payload = payload\<rparr>\<rparr>), None, None)
              else finish_transmission k payload cursor s
         else if act = 0x70 then (let (g', rep) = graphics_place k cursor g in Some ((fst s, g'), rep))
         else if act = 0x64 then Some ((fst s, graphics_delete k cursor g), None, None)
         else if act = 0x61 then (let (g', resp) = animate k g in Some ((fst s, g'), resp, None))
         else if act = 0x63 then map_option (\<lambda>(g', resp). ((fst s, g'), resp, None)) (graphics_compose k g)
         else Some (s, graphics_respond k ''EINVAL:unknown action'', None))"

definition graphics_dispatch :: "bytes \<Rightarrow> u16 \<times> u16 \<Rightarrow> files \<times> GraphicsState \<Rightarrow> ((files \<times> GraphicsState) \<times> reply) option" where
  "graphics_dispatch data cursor s =
     (let (ctl, payload) = split_control data
      in case parse_command ctl of
           None \<Rightarrow> Some (s, None, None)
         | Some k \<Rightarrow>
             (case gs_pending (snd s) of
                Some pending \<Rightarrow> continue_transmission k payload pending cursor s
              | None \<Rightarrow> run_command k payload cursor s))"

end
