(* ===== verification/Graphics_Inv.thy ===== *)
theory Graphics_Inv
  imports Graphics
begin

text \<open>
  The invariant of the image store of \<open>Graphics\<close>: ids and sequence numbers are unique, frames and animations
  belong to stored images, and the byte count is exactly what is held. Every command keeps it and the quota,
  eviction takes the oldest images first, and no command indexes out of range while the stored pixels have
  the announced size.
\<close>

section \<open>The invariant\<close>

definition frame_bytes :: "Frame list \<Rightarrow> nat" where
  "frame_bytes fs = sum_list (map (\<lambda>f. length (af_data f)) fs)"

definition image_bytes :: "Image list \<Rightarrow> nat" where
  "image_bytes imgs = sum_list (map (\<lambda>img. length (im_data img)) imgs)"

definition frames_bytes :: "(u32 \<times> Frame list) list \<Rightarrow> nat" where
  "frames_bytes fs = sum_list (map (\<lambda>x. frame_bytes (snd x)) fs)"

definition held :: "GraphicsState \<Rightarrow> nat" where
  "held g = image_bytes (gs_images g) + frames_bytes (gs_frames g)"

definition stored_ids :: "GraphicsState \<Rightarrow> u32 set" where
  "stored_ids g = im_id ` set (gs_images g)"

definition sound :: "GraphicsState \<Rightarrow> bool" where
  "sound g \<longleftrightarrow> distinct (map im_id (gs_images g)) \<and> distinct (map im_seq (gs_images g))
     \<and> (\<forall>img \<in> set (gs_images g). im_seq img \<le> gs_next_seq g)
     \<and> distinct (map fst (gs_frames g)) \<and> fst ` set (gs_frames g) \<subseteq> stored_ids g
     \<and> distinct (map fst (gs_animations g)) \<and> fst ` set (gs_animations g) \<subseteq> stored_ids g
     \<and> gs_total_bytes g = held g"

lemmas soundD = sound_def [THEN iffD1]

lemma sound_default: "sound graphics_default"
  by (simp add: sound_def graphics_default_def held_def image_bytes_def frames_bytes_def)

text \<open>Placements and the pending transmission do not matter.\<close>

lemma sound_placements [simp]: "sound (g\<lparr>gs_placements := ps\<rparr>) = sound g"
  by (simp add: sound_def held_def stored_ids_def)

lemma sound_pending [simp]: "sound (g\<lparr>gs_pending := p\<rparr>) = sound g"
  by (simp add: sound_def held_def stored_ids_def)

lemma sound_next_id [simp]: "sound (g\<lparr>gs_next_id := i\<rparr>) = sound g"
  by (simp add: sound_def held_def stored_ids_def)

section \<open>Removing\<close>

lemma sum_without:
  assumes "distinct (map key xs)"
  shows "sum_list (map f xs) = sum_list (map f (filter (\<lambda>x. key x \<noteq> i) xs)) + (case List.find (\<lambda>x. key x = i) xs of None \<Rightarrow> 0 | Some x \<Rightarrow> (f x :: nat))"
  using assms
proof (induction xs)
  case (Cons x xs)
  show ?case
  proof (cases "key x = i")
    case True
    then have "filter (\<lambda>x. key x \<noteq> i) xs = xs" using Cons.prems by (intro filter_True) (auto, metis image_eqI)
    then show ?thesis using True by simp
  qed (use Cons in auto)
qed simp

lemma forget_bytes:
  assumes "distinct (map fst fs)"
  shows "frames_bytes fs = frames_bytes (forget i fs) + (case map_of fs i of None \<Rightarrow> 0 | Some x \<Rightarrow> frame_bytes x)"
proof -
  have "(case List.find (\<lambda>x. fst x = i) fs of None \<Rightarrow> 0 | Some x \<Rightarrow> frame_bytes (snd x)) = (case map_of fs i of None \<Rightarrow> 0 | Some x \<Rightarrow> frame_bytes x)"
    by (induction fs) auto
  then show ?thesis using sum_without [OF assms, of "\<lambda>x. frame_bytes (snd x)" i] by (simp add: frames_bytes_def forget_def)
qed

lemma frame_bytes_of: "frame_bytes (frames_of i g) = (case map_of (gs_frames g) i of None \<Rightarrow> 0 | Some x \<Rightarrow> frame_bytes x)"
  by (simp add: frames_of_def frame_bytes_def split: option.split)

lemma forget_keys: "distinct (map fst xs) \<Longrightarrow> distinct (map fst (forget i xs))" "fst ` set (forget i xs) = fst ` set xs - {i}"
  by (auto simp: forget_def distinct_map inj_on_def image_iff)

lemma distinct_filter_map: "distinct (map f xs) \<Longrightarrow> distinct (map f (filter P xs))"
  by (simp add: distinct_map inj_on_def)

lemma remove_sound:
  assumes "sound g"
  shows "sound (remove_image_data i g)"
proof -
  let ?g = "remove_image_data i g"
  have s: "distinct (map im_id (gs_images g))" "distinct (map im_seq (gs_images g))" "distinct (map fst (gs_frames g))"
    "distinct (map fst (gs_animations g))" "gs_total_bytes g = held g" using assms by (simp_all add: sound_def)
  have ids: "stored_ids ?g = stored_ids g - {i}" by (auto simp: stored_ids_def remove_image_data_def)
  have b1: "image_bytes (gs_images g) = image_bytes (gs_images ?g) + (case find_image i g of None \<Rightarrow> 0 | Some img \<Rightarrow> length (im_data img))"
    using sum_without [OF s(1), of "\<lambda>img. length (im_data img)" i] by (simp add: image_bytes_def remove_image_data_def find_image_def)
  have b2: "frames_bytes (gs_frames g) = frames_bytes (gs_frames ?g) + frame_bytes (frames_of i g)"
    using forget_bytes [OF s(3), of i] by (simp add: frame_bytes_of remove_image_data_def)
  have "gs_total_bytes ?g = gs_total_bytes g - (case find_image i g of None \<Rightarrow> 0 | Some img \<Rightarrow> length (im_data img)) - frame_bytes (frames_of i g)"
    by (simp add: remove_image_data_def frame_bytes_def)
  then have tot: "gs_total_bytes ?g = held ?g" unfolding s(5) held_def b1 b2 by linarith
  have "distinct (map im_id (gs_images ?g))" "distinct (map im_seq (gs_images ?g))" "distinct (map fst (gs_frames ?g))" "distinct (map fst (gs_animations ?g))"
    using s by (simp_all add: remove_image_data_def distinct_filter_map forget_keys)
  moreover have "\<forall>img \<in> set (gs_images ?g). im_seq img \<le> gs_next_seq ?g" using assms by (simp add: sound_def remove_image_data_def)
  moreover have "fst ` set (gs_frames ?g) \<subseteq> stored_ids g - {i}" "fst ` set (gs_animations ?g) \<subseteq> stored_ids g - {i}"
    using assms unfolding sound_def remove_image_data_def by (simp_all add: forget_keys Diff_mono)
  ultimately show ?thesis using tot unfolding sound_def ids by blast
qed

text \<open>The byte count never goes below zero: what is subtracted was counted.\<close>

lemma remove_exact:
  assumes "sound g"
  shows "gs_total_bytes (remove_image_data i g) + (case find_image i g of None \<Rightarrow> 0 | Some img \<Rightarrow> length (im_data img))
    + frame_bytes (frames_of i g) = gs_total_bytes g"
proof -
  have s: "distinct (map im_id (gs_images g))" "distinct (map fst (gs_frames g))" "gs_total_bytes g = held g"
    using assms by (simp_all add: sound_def)
  have "gs_total_bytes (remove_image_data i g) = held (remove_image_data i g)" using remove_sound [OF assms] by (simp add: sound_def)
  moreover have "held g = held (remove_image_data i g) + (case find_image i g of None \<Rightarrow> 0 | Some img \<Rightarrow> length (im_data img)) + frame_bytes (frames_of i g)"
    using sum_without [OF s(1), of "\<lambda>img. length (im_data img)" i] forget_bytes [OF s(2), of i]
    by (simp add: held_def image_bytes_def remove_image_data_def find_image_def frame_bytes_of)
  ultimately show ?thesis using s(3) by simp
qed

lemma evict_sound: "sound g \<Longrightarrow> sound (evict i g)"
  using remove_sound [of g i] by (simp add: evict_def Let_def)

section \<open>The quota\<close>

lemma best_by_None: "best_by better imgs = None \<longleftrightarrow> imgs = []"
proof -
  let ?f = "\<lambda>img best. case best of None \<Rightarrow> Some img | Some b \<Rightarrow> if better img b then Some img else Some b"
  have some: "fold ?f xs (Some b) \<noteq> None" for xs b by (induction xs arbitrary: b) auto
  show ?thesis
  proof (cases imgs)
    case (Cons a xs)
    then show ?thesis using some [of xs a] by (simp add: best_by_def)
  qed (simp add: best_by_def)
qed

lemma oldest_least:
  assumes "oldest imgs = Some img" "b \<in> set imgs"
  shows "im_seq img \<le> im_seq b"
proof -
  let ?f = "\<lambda>img best. case best of None \<Rightarrow> Some img | Some b \<Rightarrow> if im_seq img < im_seq b then Some img else Some b"
  have "fold ?f imgs best = Some img \<Longrightarrow> (\<forall>b \<in> set imgs. im_seq img \<le> im_seq b) \<and> (\<forall>b. best = Some b \<longrightarrow> im_seq img \<le> im_seq b)" for best
    by (induction imgs arbitrary: best) (force split: option.splits if_splits)+
  then show ?thesis using assms by (auto simp: oldest_def best_by_def)
qed

lemma newest_greatest:
  assumes "newest imgs = Some img" "b \<in> set imgs"
  shows "im_seq b \<le> im_seq img"
proof -
  let ?f = "\<lambda>img best. case best of None \<Rightarrow> Some img | Some b \<Rightarrow> if im_seq b \<le> im_seq img then Some img else Some b"
  have "fold ?f imgs best = Some img \<Longrightarrow> (\<forall>b \<in> set imgs. im_seq b \<le> im_seq img) \<and> (\<forall>b. best = Some b \<longrightarrow> im_seq b \<le> im_seq img)" for best
    by (induction imgs arbitrary: best) (force split: option.splits if_splits)+
  then show ?thesis using assms by (auto simp: newest_def best_by_def)
qed

lemma no_images_no_bytes: "sound g \<Longrightarrow> gs_images g = [] \<Longrightarrow> gs_total_bytes g = 0"
  by (simp add: sound_def held_def stored_ids_def image_bytes_def frames_bytes_def)

lemma enforce_quota_sound:
  "sound g \<Longrightarrow> sound (enforce_quota g) \<and> gs_total_bytes (enforce_quota g) \<le> QUOTA_BYTES"
proof (induction g rule: enforce_quota.induct)
  case (1 g)
  show ?case
  proof (cases "gs_total_bytes g > QUOTA_BYTES")
    case False
    then show ?thesis using 1(2) by (subst (1 2) enforce_quota.simps) simp
  next
    case True
    then have "gs_images g \<noteq> []" using no_images_no_bytes [OF 1(2)] by auto
    then obtain img where o: "oldest (gs_images g) = Some img" unfolding oldest_def using best_by_None by blast
    have "enforce_quota g = enforce_quota (evict (im_id img) g)" using True o by (subst enforce_quota.simps) simp
    then show ?thesis using 1(1) [OF True o evict_sound [OF 1(2)]] by simp
  qed
qed

lemma distinct_seq: "distinct (map im_seq imgs) \<Longrightarrow> a \<in> set imgs \<Longrightarrow> b \<in> set imgs \<Longrightarrow> im_seq a = im_seq b \<Longrightarrow> a = b"
  by (auto simp: distinct_map inj_on_def)

text \<open>What is evicted is older than all that stays.\<close>

lemma enforce_quota_oldest:
  "sound g \<Longrightarrow> set (gs_images (enforce_quota g)) \<subseteq> set (gs_images g)
    \<and> (\<forall>a \<in> set (gs_images g) - set (gs_images (enforce_quota g)). \<forall>b \<in> set (gs_images (enforce_quota g)). im_seq a < im_seq b)"
proof (induction g rule: enforce_quota.induct)
  case (1 g)
  show ?case
  proof (cases "gs_total_bytes g > QUOTA_BYTES \<and> oldest (gs_images g) \<noteq> None")
    case False
    then have "enforce_quota g = g" by (subst enforce_quota.simps) (auto split: option.split)
    then show ?thesis by simp
  next
    case True
    then obtain img where o: "gs_total_bytes g > QUOTA_BYTES" "oldest (gs_images g) = Some img" by auto
    let ?e = "evict (im_id img) g"
    have eq: "enforce_quota g = enforce_quota ?e" using o by (subst enforce_quota.simps) simp
    have IH: "set (gs_images (enforce_quota ?e)) \<subseteq> set (gs_images ?e)"
      "\<forall>a \<in> set (gs_images ?e) - set (gs_images (enforce_quota ?e)). \<forall>b \<in> set (gs_images (enforce_quota ?e)). im_seq a < im_seq b"
      using 1(1) [OF o evict_sound [OF 1(2)]] by simp_all
    have e: "gs_images ?e = filter (\<lambda>i. im_id i \<noteq> im_id img) (gs_images g)" by (rule evict_images)
    have d: "distinct (map im_id (gs_images g))" "distinct (map im_seq (gs_images g))" using 1(2) by (simp_all add: sound_def)
    have mem: "img \<in> set (gs_images g)" using o(2) unfolding oldest_def by (rule best_by_member)
    show ?thesis unfolding eq
    proof (intro conjI ballI)
      show "set (gs_images (enforce_quota ?e)) \<subseteq> set (gs_images g)" using IH(1) e by auto
      fix a b assume a: "a \<in> set (gs_images g) - set (gs_images (enforce_quota ?e))" and b: "b \<in> set (gs_images (enforce_quota ?e))"
      have b2: "b \<in> set (gs_images g)" "im_id b \<noteq> im_id img" using IH(1) b e by auto
      show "im_seq a < im_seq b"
      proof (cases "im_id a = im_id img")
        case True
        then have "a = img" using d(1) a mem by (auto simp: distinct_map inj_on_def)
        moreover have "im_seq img \<noteq> im_seq b" using distinct_seq [OF d(2) mem b2(1)] b2(2) by auto
        ultimately show ?thesis using oldest_least [OF o(2) b2(1)] by simp
      next
        case False
        then have "a \<in> set (gs_images ?e) - set (gs_images (enforce_quota ?e))" using a e by auto
        then show ?thesis using IH(2) b by blast
      qed
    qed
  qed
qed

section \<open>Every command keeps the invariant\<close>

definition in_quota :: "GraphicsState \<Rightarrow> bool" where
  "in_quota g \<longleftrightarrow> sound g \<and> gs_total_bytes g \<le> QUOTA_BYTES"

lemma within_placements [simp]: "in_quota (g\<lparr>gs_placements := ps\<rparr>) = in_quota g"
  by (simp add: in_quota_def)

lemma within_pending [simp]: "in_quota (g\<lparr>gs_pending := p\<rparr>) = in_quota g"
  by (simp add: in_quota_def)

lemma within_next_id [simp]: "in_quota (g\<lparr>gs_next_id := i\<rparr>) = in_quota g"
  by (simp add: in_quota_def)

lemma in_quota_default: "in_quota graphics_default"
  using sound_default by (simp add: in_quota_def graphics_default_def QUOTA_BYTES_def)

lemma remove_within: "in_quota g \<Longrightarrow> in_quota (remove_image_data i g)"
  using remove_sound [of g i] by (auto simp: in_quota_def remove_image_data_def)

lemma enforce_within: "sound g \<Longrightarrow> in_quota (enforce_quota g)"
  using enforce_quota_sound by (simp add: in_quota_def)

lemma store_image_within:
  assumes "sound g"
  shows "in_quota (store_image k format data g)"
proof -
  let ?g1 = "remove_image_data (k_id k) g"
  let ?img = "\<lparr>im_id = k_id k, im_number = k_number k, im_format = format, im_width = k_width k, im_height = k_height k,
    im_data = data, im_seq = gs_next_seq ?g1 + 1\<rparr>"
  let ?g2 = "?g1\<lparr>gs_images := ?img # gs_images ?g1, gs_total_bytes := gs_total_bytes ?g1 + length data, gs_next_seq := gs_next_seq ?g1 + 1\<rparr>"
  have s: "sound ?g1" using remove_sound [OF assms] .
  have fresh: "k_id k \<notin> im_id ` set (gs_images ?g1)" by (auto simp: remove_image_data_def)
  have seq: "\<forall>img \<in> set (gs_images ?g1). im_seq img \<le> gs_next_seq ?g1" using s by (simp add: sound_def)
  have "sound ?g2"
    using s fresh seq by (auto simp: sound_def held_def stored_ids_def image_bytes_def less_Suc_eq_le dest: bspec)
  then show ?thesis unfolding store_image_def Let_def by (rule enforce_within)
qed

lemma map_of_forget_bytes: "sound g \<Longrightarrow> frames_bytes (gs_frames g) = frames_bytes (forget i (gs_frames g)) + frame_bytes (frames_of i g)"
  using forget_bytes [of "gs_frames g" i] by (simp add: sound_def frame_bytes_of)

lemma with_frames_sound:
  assumes "sound g" "i \<in> stored_ids g" "tot + frame_bytes (frames_of i g) = gs_total_bytes g + frame_bytes fs"
  shows "sound ((with_frames i fs g)\<lparr>gs_total_bytes := tot\<rparr>)"
proof -
  have "gs_total_bytes g = image_bytes (gs_images g) + frames_bytes (forget i (gs_frames g)) + frame_bytes (frames_of i g)"
    using assms(1) map_of_forget_bytes [OF assms(1), of i] by (simp add: sound_def held_def)
  then have "tot = image_bytes (gs_images g) + (frame_bytes fs + frames_bytes (forget i (gs_frames g)))" using assms(3) by simp
  then show ?thesis using assms(1,2) forget_keys [where xs = "gs_frames g" and i = i]
    by (auto simp: sound_def with_frames_def held_def frames_bytes_def stored_ids_def)
qed

lemma resolve_stored: "resolve_id k g = Some i \<Longrightarrow> i \<in> stored_ids g"
  by (auto simp: resolve_id_def stored_ids_def newest_def find_image_def find_Some_iff split: if_splits dest!: best_by_member)

lemma put_frame_bytes: "find_frame (af_number new) fs = Some old \<Longrightarrow> frame_bytes (put_frame new fs) + length (af_data old) = frame_bytes fs + length (af_data new)"
  by (induction fs) (auto simp: find_frame_def frame_bytes_def)

lemma find_frame_le: "find_frame n fs = Some old \<Longrightarrow> length (af_data old) \<le> frame_bytes fs"
  by (induction fs) (auto simp: find_frame_def frame_bytes_def split: if_splits)

lemma frames_le_total: "sound g \<Longrightarrow> frame_bytes (frames_of i g) \<le> gs_total_bytes g"
  using map_of_forget_bytes [of g i] by (simp add: sound_def held_def)

lemma put_frame_sound:
  assumes "sound g" "i \<in> stored_ids g" "find_frame (af_number new) (frames_of i g) = Some old"
  shows "sound ((with_frames i (put_frame new (frames_of i g)) g)\<lparr>gs_total_bytes := gs_total_bytes g + length (af_data new) - length (af_data old)\<rparr>)"
  using assms put_frame_bytes [OF assms(3)] find_frame_le [OF assms(3)] frames_le_total [OF assms(1), of i]
  by (intro with_frames_sound) simp_all

lemma store_frame_within:
  assumes "in_quota g"
  shows "in_quota (fst (store_frame k format data g))"
proof (cases "resolve_id k g")
  case None
  then show ?thesis using assms by (simp add: store_frame_def)
next
  case (Some i)
  have s: "sound g" "i \<in> stored_ids g" using assms resolve_stored [OF Some] by (simp_all add: in_quota_def)
  let ?fs = "frames_of i g"
  let ?n = "if k_rows k \<noteq> 0 then k_rows k else new_frame_number ?fs"
  let ?new = "\<lparr>af_number = ?n, af_gap_ms = k_z k, af_base_frame = k_cols k, af_x = k_src_x k, af_y = k_src_y k,
    af_format = format, af_width = k_width k, af_height = k_height k, af_data = data, af_replace = k_cell_x k = 1\<rparr>"
  have app: "frame_bytes (?fs @ [?new]) = frame_bytes ?fs + length data" by (simp add: frame_bytes_def)
  show ?thesis
  proof (cases "find_frame ?n ?fs")
    case None
    have "sound ((with_frames i (?fs @ [?new]) g)\<lparr>gs_total_bytes := gs_total_bytes g + length data\<rparr>)"
      using s app by (intro with_frames_sound) simp_all
    then show ?thesis unfolding store_frame_def Some option.case Let_def None by (simp add: enforce_within)
  next
    case (Some old)
    have "sound ((with_frames i (put_frame ?new ?fs) g)\<lparr>gs_total_bytes := gs_total_bytes g + length data - length (af_data old)\<rparr>)"
      using put_frame_sound [OF s, of ?new old] Some by simp
    then show ?thesis unfolding store_frame_def \<open>resolve_id k g = Some i\<close> option.case Let_def Some by (simp add: enforce_within)
  qed
qed

lemma animate_within: "in_quota g \<Longrightarrow> in_quota (fst (animate k g))"
proof (cases "resolve_id k g")
  case (Some i)
  assume "in_quota g"
  then have "in_quota (g\<lparr>gs_animations := (i, st) # forget i (gs_animations g)\<rparr>)" for st
    using resolve_stored [OF Some] forget_keys [where xs = "gs_animations g" and i = i] by (auto simp: in_quota_def sound_def held_def stored_ids_def)
  then show ?thesis by (simp add: animate_def Some Let_def)
qed (simp add: animate_def)

lemma add_placement_within: "add_placement k cursor g = Inr (g', adv) \<Longrightarrow> in_quota g \<Longrightarrow> in_quota g'"
  by (auto simp: add_placement_def Let_def split: sum.splits)

lemma place_within: "in_quota g \<Longrightarrow> in_quota (fst (graphics_place k cursor g))"
  by (auto simp: graphics_place_def Let_def split: option.split sum.split dest: add_placement_within)

lemma fold_within: "(\<And>x g. in_quota g \<Longrightarrow> in_quota (f x g)) \<Longrightarrow> in_quota g \<Longrightarrow> in_quota (fold f xs g)"
  by (induction xs arbitrary: g) simp_all

lemma delete_placements_within: "in_quota g \<Longrightarrow> in_quota (delete_placements free pred g)"
  by (auto simp: delete_placements_def Let_def intro!: fold_within remove_within)

lemma delete_by_id_within: "in_quota g \<Longrightarrow> in_quota (delete_by_id free keep found g)"
  by (auto simp: delete_by_id_def Let_def intro!: remove_within split: option.split)

lemma delete_all_within: "in_quota g \<Longrightarrow> in_quota (g\<lparr>gs_placements := [], gs_images := [], gs_frames := [], gs_animations := [], gs_total_bytes := 0\<rparr>)"
  by (simp add: in_quota_def sound_def held_def image_bytes_def frames_bytes_def QUOTA_BYTES_def)

lemma delete_within: "in_quota g \<Longrightarrow> in_quota (graphics_delete k cursor g)"
  unfolding graphics_delete_def Let_def
  by (auto intro: delete_placements_within delete_by_id_within delete_all_within simp: within_placements)

lemma compose_within:
  assumes "graphics_compose k g = Some (g', resp)" "in_quota g"
  shows "in_quota g'"
proof (cases "resolve_id k g")
  case None
  then show ?thesis using assms by (simp add: graphics_compose_def)
next
  case (Some i)
  have s: "sound g" "i \<in> stored_ids g" using assms(2) resolve_stored [OF Some] by (simp_all add: in_quota_def)
  show ?thesis
  proof (cases "g' = g")
    case False
    obtain img dst' where c: "find_image i g = Some img" "find_frame (k_rows k) (frames_of i g) \<noteq> None"
      "g' = enforce_quota ((with_frames i (put_frame ((the (find_frame (k_rows k) (frames_of i g)))\<lparr>af_base_frame := 0, af_x := 0, af_y := 0,
        af_format := Rgba, af_width := im_width img, af_height := im_height img, af_data := dst', af_replace := True\<rparr>) (frames_of i g)) g)
        \<lparr>gs_total_bytes := gs_total_bytes g - length (af_data (the (find_frame (k_rows k) (frames_of i g)))) + length dst'\<rparr>)"
      using assms(1) Some False by (auto simp: graphics_compose_def Let_def split: option.splits if_splits outcome.splits)
    obtain old where old: "find_frame (k_rows k) (frames_of i g) = Some old" using c(2) by blast
    let ?new = "old\<lparr>af_base_frame := 0, af_x := 0, af_y := 0, af_format := Rgba, af_width := im_width img, af_height := im_height img, af_data := dst', af_replace := True\<rparr>"
    have n: "af_number old = k_rows k" using old by (auto simp: find_frame_def find_Some_iff)
    have le: "length (af_data old) \<le> gs_total_bytes g" using find_frame_le [OF old] frames_le_total [OF s(1), of i] by simp
    have "sound ((with_frames i (put_frame ?new (frames_of i g)) g)\<lparr>gs_total_bytes := gs_total_bytes g + length (af_data ?new) - length (af_data old)\<rparr>)"
      using old n by (intro put_frame_sound [OF s]) simp
    then have "in_quota (enforce_quota ((with_frames i (put_frame ?new (frames_of i g)) g)\<lparr>gs_total_bytes := gs_total_bytes g - length (af_data old) + length dst'\<rparr>))"
      using le by (intro enforce_within) simp
    then show ?thesis unfolding c(3) old option.sel .
  qed (use assms in simp)
qed

lemma keep_image_within:
  assumes "in_quota g"
  shows "in_quota (fst (keep_image k format data cursor g))"
proof (cases "k_action k = 0x66")
  case True
  then show ?thesis using store_frame_within [OF assms, of k format data] by (simp add: keep_image_def split_def Let_def)
next
  case False
  obtain k' g1 where a: "assign_id k g = (k', g1)" by fastforce
  have g1: "in_quota g1" using a assms by (auto simp: assign_id_def split: if_splits)
  have st: "in_quota (store_image k' format data g1)" using g1 by (intro store_image_within) (simp add: in_quota_def)
  have "in_quota g3" if "add_placement k' cursor (store_image k' format data g1) = Inr (g3, adv)" for g3 adv
    using add_placement_within [OF that st] .
  then show ?thesis using False g1 st by (auto simp: keep_image_def a Let_def split: sum.split)
qed

lemma finish_within:
  assumes "finish_transmission k payload cursor (fl, g) = Some ((fl', g'), rep)" "in_quota g"
  shows "in_quota g'"
proof -
  obtain fl2 r where r: "received k payload fl = (fl2, r)" by fastforce
  let ?m = "and_then r (\<lambda>data. and_then (decompressed k data) (\<lambda>data. and_then (image_format k) (\<lambda>format.
    and_then (pixels_of k format data) (\<lambda>(k', pixels). Done (k', format, pixels)))))"
  show ?thesis
  proof (cases ?m)
    case (Done t)
    obtain k' format pixels where "t = (k', format, pixels)" by (cases t)
    then have "g' = fst (keep_image k' format pixels cursor g)"
      using assms(1) r Done by (simp add: finish_transmission_def split_def Let_def)
    then show ?thesis using keep_image_within [OF assms(2)] by simp
  qed (use assms r in \<open>simp_all add: finish_transmission_def\<close>)
qed

theorem dispatch_within:
  assumes "graphics_dispatch data cursor (fl, g) = Some ((fl', g'), rep)" "in_quota g"
  shows "in_quota g'"
proof -
  obtain ctl payload where sc: "split_control data = (ctl, payload)" by fastforce
  show ?thesis
  proof (cases "parse_command ctl")
    case None
    then show ?thesis using assms sc by (simp add: graphics_dispatch_def)
  next
    case (Some k)
    show ?thesis
    proof (cases "gs_pending g")
      case (Some pending)
      let ?p = "if length (pn_payload pending) + length payload \<le> MAX_PENDING_PAYLOAD
        then pending\<lparr>pn_payload := pn_payload pending @ payload\<rparr> else pending"
      have c: "continue_transmission k payload pending cursor (fl, g) = Some ((fl', g'), rep)"
        using assms(1) sc \<open>parse_command ctl = Some k\<close> Some by (simp add: graphics_dispatch_def)
      show ?thesis
      proof (cases "k_more k = 1")
        case True
        then show ?thesis using c assms(2) by (auto simp: continue_transmission_def Let_def)
      next
        case False
        then have "finish_transmission (pn_cmd ?p) (pn_payload ?p) cursor (fl, g\<lparr>gs_pending := None\<rparr>) = Some ((fl', g'), rep)"
          using c by (simp add: continue_transmission_def Let_def)
        then show ?thesis by (rule finish_within) (simp add: assms(2))
      qed
    next
      case None
      then have c: "run_command k payload cursor (fl, g) = Some ((fl', g'), rep)"
        using assms(1) sc Some by (simp add: graphics_dispatch_def)
      show ?thesis using c assms(2)
        by (auto simp: run_command_def Let_def split_def split: if_splits
            intro: place_within delete_within animate_within finish_within compose_within)
    qed
  qed
qed

end
