(* ===== verification/Graphics_Safe.thy ===== *)
theory Graphics_Safe
  imports Graphics_Inv
begin

text \<open>
  No command of \<open>Graphics\<close> indexes out of range as long as stored pixels have the size their dimensions
  announce, which every transmission keeps, of raw pixels or of a PNG, whose byte count does not wrap in
  64 bits.
\<close>

section \<open>Compositing stays in range\<close>

lemma length_opaque: "length px = 3 * n \<Longrightarrow> length (opaque px) = 4 * n"
proof (induction px arbitrary: n rule: opaque.induct)
  case (1 r g b px)
  then have "length px = 3 * (n - 1)" "0 < n" by simp_all
  then show ?case using "1.IH" [of "n - 1"] by simp
qed simp_all

lemma length_as_rgba: "length data = n * bpp_of f \<Longrightarrow> length (as_rgba f data) = n * 4"
  using length_opaque [of data n] by (cases f) (simp_all add: as_rgba_def bpp_of_def mult.commute)

lemma length_blend_px: "length s = 4 \<Longrightarrow> length (blend_px d s) = 4"
  by (simp add: blend_px_def Let_def)

lemma pixel_range:
  assumes "y < h" "x < w" "length data = w * h * 4"
  shows "\<exists>px. get_range data ((y * w + x) * 4) ((y * w + x) * 4 + 4) = Some px \<and> length px = 4"
proof -
  have "y * w + x < h * w"
  proof -
    have "y * w + x < Suc y * w" using assms(2) by simp
    also have "\<dots> \<le> h * w" using assms(1) by (intro mult_right_mono) simp_all
    finally show ?thesis .
  qed
  then have "(y * w + x) * 4 + 4 \<le> length data" using assms(3) by (simp add: mult.commute)
  then show ?thesis by (simp add: get_range_def)
qed

lemma compose_pixel_ok:
  assumes "length src = sw * sh * 4" "length dst = dw * dh * 4"
    and "snd spos + fst rc < sh" "fst spos + snd rc < sw" "snd dpos + fst rc < dh" "fst dpos + snd rc < dw"
  shows "\<exists>dst'. compose_pixel dw src sw spos dpos replace rc dst = Some dst' \<and> length dst' = length dst"
proof -
  let ?sat = "((snd spos + fst rc) * sw + fst spos) * 4 + snd rc * 4" and ?dat = "((snd dpos + fst rc) * dw + fst dpos) * 4 + snd rc * 4"
  have at: "?sat = ((snd spos + fst rc) * sw + (fst spos + snd rc)) * 4" "?dat = ((snd dpos + fst rc) * dw + (fst dpos + snd rc)) * 4" by simp_all
  obtain s d where px: "get_range src ?sat (?sat + 4) = Some s" "length s = 4" "get_range dst ?dat (?dat + 4) = Some d" "length d = 4"
    using pixel_range [OF assms(3,4,1)] pixel_range [OF assms(5,6,2)] unfolding at by auto
  have b: "?dat + 4 \<le> length dst" using get_range_SomeD [OF px(3)] by simp
  have l: "length (if replace then s else blend_px d s) = 4" using px(2) length_blend_px by simp
  have "length (take ?dat dst @ (if replace then s else blend_px d s) @ drop (?dat + 4) dst) = length dst"
    unfolding length_append l using b by simp
  then show ?thesis unfolding compose_pixel_def Let_def px(1,3) option.case by blast
qed

lemma compose_pixels_ok:
  assumes "length src = sw * sh * 4" "length dst = dw * dh * 4"
    and "\<forall>rc \<in> set rcs. snd spos + fst rc < sh \<and> fst spos + snd rc < sw \<and> snd dpos + fst rc < dh \<and> fst dpos + snd rc < dw"
  shows "\<exists>dst'. compose_pixels dw src sw spos dpos replace rcs dst = Some dst' \<and> length dst' = length dst"
  using assms(2,3)
proof (induction rcs arbitrary: dst)
  case (Cons rc rcs)
  then obtain dst2 where d: "compose_pixel dw src sw spos dpos replace rc dst = Some dst2" "length dst2 = length dst"
    using compose_pixel_ok [OF assms(1), of dst dw dh spos rc dpos replace] by auto
  then show ?case using Cons.IH [of dst2] Cons.prems by simp
qed simp

lemma compose_rect_ok:
  assumes "length src = fst sdim * snd sdim * 4" "length dst = fst ddim * snd ddim * 4"
  shows "\<exists>dst'. compose_rect dst ddim src sdim spos dpos dim replace = Some dst' \<and> length dst' = length dst"
  unfolding compose_rect_def Let_def by (rule compose_pixels_ok [OF assms]) auto

section \<open>Stored pixels have the announced size\<close>

definition sized :: "u32 \<Rightarrow> u32 \<Rightarrow> ImageFormat \<Rightarrow> bytes \<Rightarrow> bool" where
  "sized w h f data \<longleftrightarrow> length data = unat w * unat h * bpp_of f"

definition frames_sized :: "Frame list \<Rightarrow> bool" where
  "frames_sized fs \<longleftrightarrow> (\<forall>f \<in> set fs. sized (af_width f) (af_height f) (af_format f) (af_data f))"

definition exact :: "GraphicsState \<Rightarrow> bool" where
  "exact g \<longleftrightarrow> (\<forall>img \<in> set (gs_images g). sized (im_width img) (im_height img) (im_format img) (im_data img))
     \<and> (\<forall>x \<in> set (gs_frames g). frames_sized (snd x))"

lemma exact_default: "exact graphics_default"
  by (simp add: exact_def graphics_default_def)

lemma exact_frames_of: "exact g \<Longrightarrow> frames_sized (frames_of i g)"
proof (cases "map_of (gs_frames g) i")
  case (Some fs)
  assume "exact g"
  then show ?thesis using map_of_SomeD [OF Some] by (auto simp: exact_def frames_of_def Some)
qed (simp add: frames_of_def frames_sized_def)

lemma compose_chain_ok:
  assumes "sized (im_width img) (im_height img) (im_format img) (im_data img)" "frames_sized fs"
  shows "compose_chain img fs n seen \<noteq> Stops
    \<and> (\<forall>canvas. compose_chain img fs n seen = Done canvas \<longrightarrow> length canvas = unat (im_width img) * unat (im_height img) * 4)"
  using assms
proof (induction img fs n seen rule: compose_chain.induct)
  case (1 img fs n seen)
  consider "n = 0" | "n \<noteq> 0" "n \<in> set seen \<or> find_frame n fs = None" | f where "n \<noteq> 0" "n \<notin> set seen" "find_frame n fs = Some f" by fastforce
  then show ?case
  proof cases
    case 1
    then show ?thesis using length_as_rgba "1.prems"(1) by (subst (1 2) compose_chain.simps) (simp add: sized_def)
  next
    case 2
    then show ?thesis by (subst (1 2) compose_chain.simps) auto
  next
    case 3
    have f: "f \<in> set fs" using 3(3) by (auto simp: find_frame_def find_Some_iff)
    note IH = "1.IH" [OF 3 "1.prems"]
    have step: "compose_chain img fs n seen = and_then (compose_chain img fs (af_base_frame f) (n # seen)) (\<lambda>canvas.
        case compose_rect canvas (img_dim img) (as_rgba (af_format f) (af_data f)) (unat (af_width f), unat (af_height f))
               (0, 0) (unat (af_x f), unat (af_y f)) (unat (af_width f), unat (af_height f)) (af_replace f) of
          None \<Rightarrow> Stops | Some canvas' \<Rightarrow> Done canvas')" using 3 by (subst compose_chain.simps) simp
    have src: "length (as_rgba (af_format f) (af_data f)) = fst (unat (af_width f), unat (af_height f)) * snd (unat (af_width f), unat (af_height f)) * 4"
      using "1.prems"(2) f length_as_rgba by (simp add: frames_sized_def sized_def)
    show ?thesis
    proof (cases "compose_chain img fs (af_base_frame f) (n # seen)")
      case (Done canvas)
      then have "length canvas = fst (img_dim img) * snd (img_dim img) * 4" using IH by (simp add: img_dim_def)
      then show ?thesis using compose_rect_ok [OF src, of canvas "img_dim img" "(0, 0)" "(unat (af_x f), unat (af_y f))"
          "(unat (af_width f), unat (af_height f))" "af_replace f"] Done unfolding step by (auto simp: img_dim_def)
    qed (use IH step in auto)
  qed
qed

lemma composed_frame_ok:
  assumes "exact g"
  shows "composed_frame i n g \<noteq> Stops"
    "composed_frame i n g = Done canvas \<Longrightarrow> find_image i g = Some img \<Longrightarrow> length canvas = unat (im_width img) * unat (im_height img) * 4"
proof -
  have s: "sized (im_width img) (im_height img) (im_format img) (im_data img)" if "find_image i g = Some img" for img
    using assms that by (auto simp: exact_def find_image_def find_Some_iff)
  show "composed_frame i n g \<noteq> Stops"
    using compose_chain_ok [OF s exact_frames_of [OF assms]] by (auto simp: composed_frame_def split: option.split)
  show "length canvas = unat (im_width img) * unat (im_height img) * 4" if "composed_frame i n g = Done canvas" "find_image i g = Some img"
    using compose_chain_ok [OF s [OF that(2)] exact_frames_of [OF assms]] that by (auto simp: composed_frame_def split: if_splits)
qed

lemma exact_subset:
  "exact g \<Longrightarrow> set (gs_images g') \<subseteq> set (gs_images g) \<Longrightarrow> set (gs_frames g') \<subseteq> set (gs_frames g) \<Longrightarrow> exact g'"
  by (auto simp: exact_def)

lemma exact_same [simp]: "exact (g\<lparr>gs_placements := ps\<rparr>) = exact g" "exact (g\<lparr>gs_pending := p\<rparr>) = exact g"
  "exact (g\<lparr>gs_next_id := n\<rparr>) = exact g" "exact (g\<lparr>gs_total_bytes := m\<rparr>) = exact g" "exact (g\<lparr>gs_animations := st\<rparr>) = exact g"
  by (simp_all add: exact_def)

lemma exact_remove: "exact g \<Longrightarrow> exact (remove_image_data i g)"
  by (rule exact_subset) (auto simp: remove_image_data_def forget_def)

lemma exact_evict: "exact g \<Longrightarrow> exact (evict i g)"
  using exact_remove by (simp add: evict_def Let_def)

lemma exact_enforce: "exact g \<Longrightarrow> exact (enforce_quota g)"
proof (induction g rule: enforce_quota.induct)
  case (1 g)
  show ?case using 1 exact_evict by (subst enforce_quota.simps) (simp split: option.split)
qed

lemma exact_with_frames: "exact g \<Longrightarrow> frames_sized fs \<Longrightarrow> exact (with_frames i fs g)"
  by (auto simp: exact_def with_frames_def forget_def)

lemma put_frame_set: "set (put_frame new fs) \<subseteq> insert new (set fs)"
  by (induction fs) auto

lemma exact_store_frame:
  assumes "exact g" "sized (k_width k) (k_height k) format data"
  shows "exact (fst (store_frame k format data g))"
proof (cases "resolve_id k g")
  case (Some i)
  have fs: "frames_sized (frames_of i g)" using exact_frames_of [OF assms(1)] .
  have app: "frames_sized (frames_of i g @ [new])" if "sized (af_width new) (af_height new) (af_format new) (af_data new)" for new
    using fs that by (simp add: frames_sized_def)
  have put: "frames_sized (put_frame new (frames_of i g))" if "sized (af_width new) (af_height new) (af_format new) (af_data new)" for new
    using fs that put_frame_set [of new "frames_of i g"] by (auto simp: frames_sized_def)
  show ?thesis using assms(2)
    by (auto simp: store_frame_def Some Let_def intro!: exact_enforce exact_with_frames assms(1) app put split: option.split)
qed (simp add: store_frame_def assms(1))

lemma exact_store_image: "exact g \<Longrightarrow> sized (k_width k) (k_height k) format data \<Longrightarrow> exact (store_image k format data g)"
  unfolding store_image_def Let_def
proof (rule exact_enforce)
  assume "exact g" "sized (k_width k) (k_height k) format data"
  then show "exact ((remove_image_data (k_id k) g)\<lparr>gs_images := \<lparr>im_id = k_id k, im_number = k_number k, im_format = format, im_width = k_width k,
      im_height = k_height k, im_data = data, im_seq = gs_next_seq (remove_image_data (k_id k) g) + 1\<rparr> # gs_images (remove_image_data (k_id k) g),
      gs_total_bytes := gs_total_bytes (remove_image_data (k_id k) g) + length data, gs_next_seq := gs_next_seq (remove_image_data (k_id k) g) + 1\<rparr>)"
    using exact_remove [of g "k_id k"] by (simp add: exact_def)
qed

lemma exact_add_placement: "add_placement k cursor g = Inr (g', adv) \<Longrightarrow> exact g \<Longrightarrow> exact g'"
  by (auto simp: add_placement_def Let_def split: sum.splits)

lemma exact_place: "exact g \<Longrightarrow> exact (fst (graphics_place k cursor g))"
  by (auto simp: graphics_place_def Let_def split: option.split sum.split dest: exact_add_placement)

lemma exact_fold: "(\<And>x g. exact g \<Longrightarrow> exact (f x g)) \<Longrightarrow> exact g \<Longrightarrow> exact (fold f xs g)"
  by (induction xs arbitrary: g) simp_all

lemma exact_delete_placements: "exact g \<Longrightarrow> exact (delete_placements free pred g)"
  by (auto simp: delete_placements_def Let_def intro!: exact_fold exact_remove)

lemma exact_delete_by_id: "exact g \<Longrightarrow> exact (delete_by_id free keep found g)"
  by (auto simp: delete_by_id_def Let_def intro!: exact_remove split: option.split)

lemma exact_clear: "exact (g\<lparr>gs_placements := ps, gs_images := [], gs_frames := []\<rparr>)"
  by (simp add: exact_def)

lemma exact_delete: "exact g \<Longrightarrow> exact (graphics_delete k cursor g)"
  unfolding graphics_delete_def Let_def
  by (auto intro: exact_delete_placements exact_delete_by_id exact_clear)

lemma exact_animate: "exact g \<Longrightarrow> exact (fst (animate k g))"
  by (simp add: animate_def Let_def split: option.split)

lemma resolve_found: "resolve_id k g = Some i \<Longrightarrow> find_image i g \<noteq> None"
  using resolve_stored [of k g i] by (auto simp: stored_ids_def find_image_def find_None_iff)

lemma compose_ok:
  assumes "exact g"
  shows "\<exists>g' resp. graphics_compose k g = Some (g', resp) \<and> exact g'"
proof (cases "resolve_id k g")
  case None
  then show ?thesis using assms by (simp add: graphics_compose_def)
next
  case (Some i)
  obtain img where img: "find_image i g = Some img" using resolve_found [OF Some] by blast
  let ?fs = "frames_of i g"
  let ?w = "if k_src_w k \<noteq> 0 then k_src_w k else im_width img" and ?h = "if k_src_h k \<noteq> 0 then k_src_h k else im_height img"
  show ?thesis
  proof (cases "k_rows k \<noteq> 0 \<and> find_frame (k_rows k) ?fs \<noteq> None \<and> k_cols k \<noteq> 0 \<and> find_frame (k_cols k) ?fs \<noteq> None")
    case False
    then have "graphics_compose k g = Some (g, graphics_respond k ''ENOENT:no such frame'')"
      by (auto simp: graphics_compose_def Some img Let_def)
    then show ?thesis using assms by blast
  next
    case True
    obtain old where old: "find_frame (k_rows k) ?fs = Some old" using True by blast
    show ?thesis
    proof (cases "\<exists>src dst. composed_frame i (k_cols k) g = Done src \<and> composed_frame i (k_rows k) g = Done dst")
      case False
      then have "graphics_compose k g = Some (g, graphics_respond k ''EINVAL:could not compose frame'')"
        using True composed_frame_ok(1) [OF assms] by (auto simp: graphics_compose_def Some img Let_def split: outcome.split)
      then show ?thesis using assms by blast
    next
      case both: True
      then obtain src dst where c: "composed_frame i (k_cols k) g = Done src" "composed_frame i (k_rows k) g = Done dst" by blast
      have l: "length src = fst (img_dim img) * snd (img_dim img) * 4" "length dst = fst (img_dim img) * snd (img_dim img) * 4"
        using composed_frame_ok(2) [OF assms c(1) img] composed_frame_ok(2) [OF assms c(2) img] by (simp_all add: img_dim_def)
      obtain dst' where d: "compose_rect dst (img_dim img) src (img_dim img) (unat (k_cell_x k), unat (k_cell_y k))
          (unat (k_src_x k), unat (k_src_y k)) (unat ?w, unat ?h) (k_no_cursor_move k) = Some dst'" "length dst' = length dst"
        using compose_rect_ok [OF l] by blast
      let ?new = "old\<lparr>af_base_frame := 0, af_x := 0, af_y := 0, af_format := Rgba, af_width := im_width img, af_height := im_height img, af_data := dst', af_replace := True\<rparr>"
      have "frames_sized (put_frame ?new ?fs)"
        using exact_frames_of [OF assms, of i] put_frame_set [of ?new ?fs] d(2) l(2)
        by (auto simp: frames_sized_def sized_def bpp_of_def img_dim_def)
      then have "exact (enforce_quota ((with_frames i (put_frame ?new ?fs) g)\<lparr>gs_total_bytes := m\<rparr>))" for m
        using exact_with_frames [OF assms] by (intro exact_enforce) simp
      moreover have "graphics_compose k g = Some (enforce_quota ((with_frames i (put_frame ?new ?fs) g)
          \<lparr>gs_total_bytes := gs_total_bytes g - length (af_data old) + length dst'\<rparr>), graphics_respond k ''OK'')"
        unfolding graphics_compose_def Some option.case img Let_def c using True old d(1) by simp
      ultimately show ?thesis by blast
    qed
  qed
qed

section \<open>Transmissions and dispatch\<close>

text \<open>
  A transmission whose byte count does not wrap: that of the dimensions a command gives for raw pixels, or that
  of the header of the PNG which its payload is once received and decompressed.
\<close>

definition header_fits :: "bytes \<Rightarrow> bool" where
  "header_fits data = (case header_of data of None \<Rightarrow> True | Some hdr \<Rightarrow> png_size hdr < 2 ^ 64)"

definition fits_in_u64 :: "Command \<Rightarrow> bytes \<Rightarrow> files \<Rightarrow> bool" where
  "fits_in_u64 k payload fl =
     (if k_format k = 100
      then case and_then (snd (received k payload fl)) (decompressed k) of Done data \<Rightarrow> header_fits data | _ \<Rightarrow> True
      else unat (k_width k) * unat (k_height k) * 4 < 2 ^ 64)"

lemma pixels_of_png:
  assumes "header_fits data"
  shows "pixels_of k PngData data \<noteq> Stops"
    "pixels_of k PngData data = Done (k', px) \<Longrightarrow> sized (k_width k') (k_height k') PngData px"
proof -
  have "decode_png data \<noteq> Stops"
    using assms decode_png_Stops [of data] by (auto simp: header_fits_def)
  then show "pixels_of k PngData data \<noteq> Stops" by (simp add: pixels_of_def split: outcome.split)
  show "sized (k_width k') (k_height k') PngData px" if "pixels_of k PngData data = Done (k', px)"
    using that by (auto simp: pixels_of_def sized_def bpp_of_def dest!: decode_png_size split: outcome.splits)
qed

lemma pixels_of_raw:
  assumes "format \<noteq> PngData" "unat (k_width k) * unat (k_height k) * 4 < 2 ^ 64"
  shows "pixels_of k format data \<noteq> Stops"
    "pixels_of k format data = Done (k', px) \<Longrightarrow> sized (k_width k') (k_height k') format px"
proof -
  have b: "bpp_of format \<le> 4" by (simp add: bpp_of_def split: ImageFormat.split)
  have "unat (k_width k) * unat (k_height k) * bpp_of format \<le> unat (k_width k) * unat (k_height k) * 4" using b by (rule mult_left_mono) simp
  then have lt: "unat (k_width k) * unat (k_height k) * bpp_of format < 2 ^ 64" using assms(2) by (rule le_less_trans)
  have "(ucast (k_width k) :: u64) * ucast (k_height k) * word_of_nat (bpp_of format)
      = word_of_nat (unat (k_width k) * unat (k_height k) * bpp_of format)" by simp
  then have "unat ((ucast (k_width k) :: u64) * ucast (k_height k) * word_of_nat (bpp_of format))
      = unat (k_width k) * unat (k_height k) * bpp_of format"
    using lt by (simp only: unsigned_of_nat) (simp add: take_bit_nat_eq_self)
  then show "pixels_of k format data \<noteq> Stops"
    "pixels_of k format data = Done (k', px) \<Longrightarrow> sized (k_width k') (k_height k') format px"
    using assms(1) by (auto simp: pixels_of_def sized_def split: if_splits)
qed

lemma received_not_Stops: "snd (received k payload fl) \<noteq> Stops"
  by (simp add: received_def load_file_def Let_def split: option.split)

lemma decompressed_not_Stops: "decompressed k data \<noteq> Stops"
  using zlib_not_Stops [of data QUOTA_BYTES] by (auto simp: decompressed_def split: outcome.split InflateError.split)

lemma exact_keep_image:
  assumes "exact g" "sized (k_width k) (k_height k) format px"
  shows "exact (fst (keep_image k format px cursor g))"
proof (cases "k_action k = 0x66")
  case True
  then show ?thesis using exact_store_frame [OF assms] by (simp add: keep_image_def split_def Let_def)
next
  case False
  obtain k' g1 where a: "assign_id k g = (k', g1)" by fastforce
  have g1: "exact g1" "k_width k' = k_width k" "k_height k' = k_height k" using a assms(1) by (auto simp: assign_id_def split: if_splits)
  have st: "exact (store_image k' format px g1)" using g1 assms(2) by (intro exact_store_image) simp_all
  have "exact g3" if "add_placement k' cursor (store_image k' format px g1) = Inr (g3, adv)" for g3 adv
    using exact_add_placement [OF that st] .
  then show ?thesis using False g1 st by (auto simp: keep_image_def a Let_def split: sum.split)
qed

lemma pixels_ok:
  assumes "fits_in_u64 k payload fl" "snd (received k payload fl) = Done data0" "decompressed k data0 = Done data" "image_format k = Done format"
  shows "pixels_of k format data \<noteq> Stops"
    "pixels_of k format data = Done (k', px) \<Longrightarrow> sized (k_width k') (k_height k') format px"
proof -
  have f: "format = PngData \<longleftrightarrow> k_format k = 100" using assms(4) by (auto simp: image_format_def split: if_splits)
  have "pixels_of k format data \<noteq> Stops \<and> (pixels_of k format data = Done (k', px) \<longrightarrow> sized (k_width k') (k_height k') format px)"
  proof (cases "format = PngData")
    case True
    then have "header_fits data" using assms(1-3) f by (simp add: fits_in_u64_def)
    then show ?thesis using pixels_of_png True by blast
  next
    case False
    then have "unat (k_width k) * unat (k_height k) * 4 < 2 ^ 64" using assms(1) f by (simp add: fits_in_u64_def)
    then show ?thesis using pixels_of_raw [OF False] by blast
  qed
  then show "pixels_of k format data \<noteq> Stops"
    "pixels_of k format data = Done (k', px) \<Longrightarrow> sized (k_width k') (k_height k') format px" by blast+
qed

lemma finish_ok:
  assumes "exact g" "fits_in_u64 k payload fl"
  shows "\<exists>fl' g' rep. finish_transmission k payload cursor (fl, g) = Some ((fl', g'), rep) \<and> exact g'"
proof -
  obtain fl2 r where r: "received k payload fl = (fl2, r)" by fastforce
  let ?m = "and_then r (\<lambda>data. and_then (decompressed k data) (\<lambda>data. and_then (image_format k) (\<lambda>format.
    and_then (pixels_of k format data) (\<lambda>(k', pixels). Done (k', format, pixels)))))"
  note px = pixels_ok [OF assms(2), unfolded r, simplified]
  have "r \<noteq> Stops" using received_not_Stops [of k payload fl] r by simp
  moreover have "image_format k \<noteq> Stops" by (simp add: image_format_def)
  ultimately have ns: "?m \<noteq> Stops" using decompressed_not_Stops px(1) by (auto simp: and_then_Stops)
  show ?thesis
  proof (cases ?m)
    case (Done t)
    obtain k' format px where t: "t = (k', format, px)" by (cases t)
    have "sized (k_width k') (k_height k') format px" using Done px(2) unfolding t by (auto simp: and_then_Done)
    moreover have "finish_transmission k payload cursor (fl, g) = Some ((fl2, fst (keep_image k' format px cursor g)), snd (keep_image k' format px cursor g))"
      using Done t by (simp add: finish_transmission_def r split_def Let_def)
    ultimately show ?thesis using exact_keep_image [OF assms(1)] by blast
  next
    case (Fails e)
    then show ?thesis using assms by (simp add: finish_transmission_def r)
  qed (use ns in simp)
qed

text \<open>The transmission that a command completes, if any, with its whole payload.\<close>

definition completed :: "bytes \<Rightarrow> GraphicsState \<Rightarrow> (Command \<times> bytes) option" where
  "completed data g =
     (let (ctl, payload) = split_control data
      in case parse_command ctl of None \<Rightarrow> None
         | Some k \<Rightarrow>
             if k_more k = 1 then None
             else (case gs_pending g of
                     Some p \<Rightarrow> Some (pn_cmd p, if length (pn_payload p) + length payload \<le> MAX_PENDING_PAYLOAD
                                               then pn_payload p @ payload else pn_payload p)
                   | None \<Rightarrow> if k_action k \<in> {0x74, 0x54, 0x71, 0x66, 0} then Some (k, payload) else None))"

theorem dispatch_safe:
  assumes "exact g" "case completed data g of None \<Rightarrow> True | Some (k, payload) \<Rightarrow> fits_in_u64 k payload fl"
  shows "\<exists>fl' g' rep. graphics_dispatch data cursor (fl, g) = Some ((fl', g'), rep) \<and> exact g'"
proof -
  obtain ctl payload where sc: "split_control data = (ctl, payload)" by fastforce
  show ?thesis
  proof (cases "parse_command ctl")
    case None
    then show ?thesis using assms(1) by (simp add: graphics_dispatch_def sc)
  next
    case (Some k)
    show ?thesis
    proof (cases "gs_pending g")
      case None
      have fin: "\<exists>fl' g' rep. finish_transmission k payload cursor (fl, g) = Some ((fl', g'), rep) \<and> exact g'"
        if "k_action k \<in> {0x74, 0x54, 0x71, 0x66, 0}" "k_more k \<noteq> 1"
        using finish_ok [OF assms(1), of k payload fl cursor] assms(2) that by (simp add: completed_def sc Some None)
      obtain gc rc where c: "graphics_compose k g = Some (gc, rc)" "exact gc" using compose_ok [OF assms(1)] by blast
      have "graphics_dispatch data cursor (fl, g) = run_command k payload cursor (fl, g)" by (simp add: graphics_dispatch_def sc Some None)
      then show ?thesis
        using fin exact_place [OF assms(1)] exact_delete [OF assms(1)] exact_animate [OF assms(1)] c(2) assms(1)
        by (simp add: run_command_def Let_def split_def c(1))
    next
      case pending: (Some pending)
      let ?p = "if length (pn_payload pending) + length payload \<le> MAX_PENDING_PAYLOAD
        then pending\<lparr>pn_payload := pn_payload pending @ payload\<rparr> else pending"
      have "\<exists>fl' g' rep. finish_transmission (pn_cmd ?p) (pn_payload ?p) cursor (fl, g\<lparr>gs_pending := None\<rparr>) = Some ((fl', g'), rep) \<and> exact g'"
        if "k_more k \<noteq> 1"
        using assms that by (intro finish_ok) (auto simp: completed_def sc Some pending split: if_splits)
      moreover have "graphics_dispatch data cursor (fl, g) = continue_transmission k payload pending cursor (fl, g)"
        by (simp add: graphics_dispatch_def sc Some pending)
      ultimately show ?thesis using assms(1) unfolding continue_transmission_def Let_def by (cases "k_more k = 1") simp_all
    qed
  qed
qed

end
