(* ===== verification/Graphics_Keys.thy ===== *)
theory Graphics_Keys
  imports Graphics_Safe
begin

text \<open>
  How \<open>Graphics\<close> reads the key lists that \<open>dump.rs\<close> and other clients write: pairs of a one-letter key and
  a value, separated by commas; and what single commands do on small states, among them those that do not
  do what they are meant to.
\<close>

section \<open>Key lists\<close>

definition key_pair :: "char \<times> bytes \<Rightarrow> bytes" where
  "key_pair kv = of_char (fst kv) # 0x3D # snd kv"

fun render_keys :: "(char \<times> bytes) list \<Rightarrow> bytes" where
  "render_keys [] = []"
| "render_keys [kv] = key_pair kv"
| "render_keys (kv # kvs) = key_pair kv @ 0x2C # render_keys kvs"

definition plain_keys :: "(char \<times> bytes) list \<Rightarrow> bool" where
  "plain_keys kvs \<longleftrightarrow> (\<forall>(c, v) \<in> set kvs. of_char c \<noteq> (0x2C :: u8) \<and> of_char c \<noteq> (0x3D :: u8) \<and> of_char c \<noteq> (0x3B :: u8)
     \<and> 0x2C \<notin> set v \<and> 0x3B \<notin> set v)"

lemma split_all_none: "c \<notin> set xs \<Longrightarrow> split_all c xs = [xs]"
  by (induction xs) (auto simp: Let_def)

lemma split_all_sep: "c \<notin> set xs \<Longrightarrow> split_all c (xs @ c # ys) = xs # split_all c ys"
  by (induction xs) (auto simp: Let_def)

lemma split_render: "plain_keys kvs \<Longrightarrow> kvs \<noteq> [] \<Longrightarrow> split_all 0x2C (render_keys kvs) = map key_pair kvs"
proof (induction kvs rule: render_keys.induct)
  case (2 kv)
  then have "0x2C \<notin> set (key_pair kv)" by (auto simp: plain_keys_def key_pair_def)
  then show ?case using split_all_none by simp
next
  case (3 kv kv2 kvs)
  have "plain_keys (kv2 # kvs)" using 3(2) by (simp add: plain_keys_def)
  moreover have "0x2C \<notin> set (key_pair kv)" using 3(2) by (auto simp: plain_keys_def key_pair_def)
  ultimately show ?case using 3(1) split_all_sep [of "0x2C" "key_pair kv" "render_keys (kv2 # kvs)"] by simp
qed simp

definition set_keys :: "(char \<times> bytes) list \<Rightarrow> Command \<Rightarrow> Command" where
  "set_keys = fold (\<lambda>(c, v). set_key [of_char c] v)"

lemma set_keys_simps [simp]: "set_keys [] k = k" "set_keys ((c, v) # kvs) k = set_keys kvs (set_key [of_char c] v k)"
  by (simp_all add: set_keys_def)

lemma parse_key_pairs: "plain_keys kvs \<Longrightarrow> parse_pairs (map key_pair kvs) k = Some (set_keys kvs k)"
proof (induction kvs arbitrary: k)
  case (Cons kv kvs)
  obtain c v where kv: "kv = (c, v)" by (cases kv)
  have "of_char c \<noteq> (0x3D :: u8)" "plain_keys kvs" using Cons.prems kv by (auto simp: plain_keys_def)
  then show ?case using Cons.IH by (simp add: kv key_pair_def)
qed simp

lemma render_no_semicolon: "plain_keys kvs \<Longrightarrow> 0x3B \<notin> set (render_keys kvs)"
  by (induction kvs rule: render_keys.induct) (auto simp: plain_keys_def key_pair_def)

lemma command_of_keys:
  assumes "plain_keys kvs" "kvs \<noteq> []"
  shows "split_control (render_keys kvs @ 0x3B # payload) = (render_keys kvs, payload)"
    "parse_command (render_keys kvs) = Some (set_keys kvs command_default)"
  using split_once_append [OF render_no_semicolon [OF assms(1)], of payload] split_render [OF assms] parse_key_pairs [OF assms(1)]
  by (simp_all add: split_control_def parse_command_def)

text \<open>A list of keys without a payload.\<close>

lemma command_of_bare_keys: "plain_keys kvs \<Longrightarrow> split_control (render_keys kvs) = (render_keys kvs, [])"
  using render_no_semicolon [of kvs] by (simp add: split_control_def split_once_None [THEN iffD2])

lemma dispatch_keys:
  assumes "plain_keys kvs" "kvs \<noteq> []" "gs_pending g = None"
  shows "graphics_dispatch (render_keys kvs @ 0x3B # payload) cursor (fl, g) = run_command (set_keys kvs command_default) payload cursor (fl, g)"
    "graphics_dispatch (render_keys kvs) cursor (fl, g) = run_command (set_keys kvs command_default) [] cursor (fl, g)"
  using command_of_keys [OF assms(1,2)] command_of_bare_keys [OF assms(1)] assms(3) by (simp_all add: graphics_dispatch_def)

text \<open>What each key sets.\<close>

definition first_byte :: "bytes \<Rightarrow> u8" where
  "first_byte v = (case v of [] \<Rightarrow> 0 | b # _ \<Rightarrow> b)"

lemma first_byte_asc: "first_byte (asc (c # cs)) = of_char c"
  by (simp add: first_byte_def asc_def)

lemma set_key_simps:
  "set_key [of_char (CHR ''a'')] v k = k\<lparr>k_action := first_byte v\<rparr>"
  "set_key [of_char (CHR ''q'')] v k = k\<lparr>k_quiet := word_of_int (parse_i64 v)\<rparr>"
  "set_key [of_char (CHR ''f'')] v k = k\<lparr>k_format := word_of_int (parse_i64 v)\<rparr>"
  "set_key [of_char (CHR ''s'')] v k = k\<lparr>k_width := word_of_int (parse_i64 v)\<rparr>"
  "set_key [of_char (CHR ''v'')] v k = k\<lparr>k_height := word_of_int (parse_i64 v)\<rparr>"
  "set_key [of_char (CHR ''i'')] v k = k\<lparr>k_id := word_of_int (parse_i64 v)\<rparr>"
  "set_key [of_char (CHR ''I'')] v k = k\<lparr>k_number := word_of_int (parse_i64 v)\<rparr>"
  "set_key [of_char (CHR ''p'')] v k = k\<lparr>k_placement_id := word_of_int (parse_i64 v)\<rparr>"
  "set_key [of_char (CHR ''m'')] v k = k\<lparr>k_more := word_of_int (parse_i64 v)\<rparr>"
  "set_key [of_char (CHR ''x'')] v k = k\<lparr>k_src_x := word_of_int (parse_i64 v)\<rparr>"
  "set_key [of_char (CHR ''y'')] v k = k\<lparr>k_src_y := word_of_int (parse_i64 v)\<rparr>"
  "set_key [of_char (CHR ''w'')] v k = k\<lparr>k_src_w := word_of_int (parse_i64 v)\<rparr>"
  "set_key [of_char (CHR ''h'')] v k = k\<lparr>k_src_h := word_of_int (parse_i64 v)\<rparr>"
  "set_key [of_char (CHR ''c'')] v k = k\<lparr>k_cols := word_of_int (parse_i64 v)\<rparr>"
  "set_key [of_char (CHR ''r'')] v k = k\<lparr>k_rows := word_of_int (parse_i64 v)\<rparr>"
  "set_key [of_char (CHR ''z'')] v k = k\<lparr>k_z := word_of_int (parse_i64 v)\<rparr>"
  "set_key [of_char (CHR ''d'')] v k = k\<lparr>k_delete := first_byte v\<rparr>"
  "set_key [of_char (CHR ''U'')] v k = k\<lparr>k_unicode := parse_i64 v = 1\<rparr>"
  "set_key [of_char (CHR ''P'')] v k = k\<lparr>k_parent_image := word_of_int (parse_i64 v)\<rparr>"
  "set_key [of_char (CHR ''Q'')] v k = k\<lparr>k_parent_placement := word_of_int (parse_i64 v)\<rparr>"
  "set_key [of_char (CHR ''H'')] v k = k\<lparr>k_h_off := word_of_int (parse_i64 v)\<rparr>"
  "set_key [of_char (CHR ''V'')] v k = k\<lparr>k_v_off := word_of_int (parse_i64 v)\<rparr>"
  "set_key [of_char (CHR ''X'')] v k = k\<lparr>k_cell_x := word_of_int (parse_i64 v)\<rparr>"
  "set_key [of_char (CHR ''Y'')] v k = k\<lparr>k_cell_y := word_of_int (parse_i64 v)\<rparr>"
  by (simp_all add: set_key_def Let_def asc_def of_char_def first_byte_def)

section \<open>Numbers\<close>

lemma digits_fold: "fold (\<lambda>d n. 10 * n + unat (d - 0x30)) (xs @ [d]) n = 10 * fold (\<lambda>d n. 10 * n + unat (d - 0x30)) xs n + unat (d - (0x30 :: u8))"
  by simp

lemma digit_char: "n < 10 \<Longrightarrow> ascii_digit (as_u8 (48 + n)) \<and> unat (as_u8 (48 + n) - 0x30) = n"
proof -
  assume n: "n < 10"
  have "as_u8 (48 + n) = 0x30 + word_of_nat n" by (simp add: as_u8_def)
  then have "as_u8 (48 + n) - 0x30 = word_of_nat n" by simp
  then have "unat (as_u8 (48 + n) - 0x30) = n" using n by (simp add: unsigned_of_nat take_bit_nat_eq_self)
  moreover have "unat (as_u8 (48 + n)) = 48 + n" using n by (simp only: as_u8_def unsigned_of_nat) (simp add: take_bit_nat_eq_self)
  ultimately show ?thesis using n by (simp add: ascii_digit_def word_le_nat_alt)
qed

lemma decimal_digits: "decimal n \<noteq> [] \<and> list_all ascii_digit (decimal n) \<and> fold (\<lambda>d n. 10 * n + unat (d - 0x30)) (decimal n) 0 = n"
proof (induction n rule: decimal.induct)
  case (1 n)
  show ?case
  proof (cases "n < 10")
    case True
    then have "decimal n = [as_u8 (48 + n)]" by (subst decimal.simps) simp
    then show ?thesis using digit_char [OF True] by simp
  next
    case False
    then have d: "decimal n = decimal (n div 10) @ [as_u8 (48 + n mod 10)]" by (subst decimal.simps) simp
    show ?thesis unfolding d digits_fold using 1 [OF False] digit_char [of "n mod 10"] by simp
  qed
qed

lemma digits_value_decimal: "digits_value (decimal n) = Some n"
  using decimal_digits [of n] by (simp add: digits_value_def)

lemma decimal_plain: "b \<in> set (decimal n) \<Longrightarrow> 0x30 \<le> b \<and> b \<le> 0x39"
  using decimal_digits [of n] by (auto simp: list_all_iff ascii_digit_def)

lemma parse_decimal: "n < 2 ^ 63 \<Longrightarrow> parse_i64 (decimal n) = int n"
proof -
  assume n: "n < 2 ^ 63"
  obtain b ds where d: "decimal n = b # ds" using decimal_digits [of n] by (cases "decimal n") auto
  have "0x30 \<le> b" using decimal_plain [of b n] d by simp
  then have "b \<noteq> 0x2D" "b \<noteq> 0x2B" by auto
  then show ?thesis using digits_value_decimal [of n] n by (simp add: parse_i64_def d)
qed

lemma parse_decimal32: "word_of_int (parse_i64 (decimal (unat (w :: u32)))) = w"
proof -
  have "unat w < 2 ^ LENGTH(32)" by (rule unsigned_less)
  then show ?thesis by (simp add: parse_decimal)
qed

text \<open>A signed 32-bit number as \<open>{}\<close> prints it.\<close>

definition signed_decimal :: "u32 \<Rightarrow> bytes" where
  "signed_decimal w = (if sint w < 0 then 0x2D # decimal (nat (- sint w)) else decimal (nat (sint w)))"

lemma parse_signed: "word_of_int (parse_i64 (signed_decimal w)) = w"
proof -
  have r: "- (2 ^ 31) \<le> sint w" "sint w < 2 ^ 31" using sint_range_size [of w] by (simp_all add: word_size)
  show ?thesis
  proof (cases "sint w < 0")
    case True
    have "parse_i64 (signed_decimal w) = sint w"
      using True r(1) digits_value_decimal [of "nat (- sint w)"] by (simp add: parse_i64_def signed_decimal_def nat_le_iff)
    then show ?thesis by simp
  next
    case False
    have "parse_i64 (signed_decimal w) = sint w" using False r(2) parse_decimal [of "nat (sint w)"] by (simp add: signed_decimal_def nat_less_iff)
    then show ?thesis by simp
  qed
qed


section \<open>Where the commands fall short\<close>

text \<open>
  A transmission of no pixels whose announced byte count is \<open>2 ^ 64\<close> is accepted; composing a frame of that
  image then indexes out of range.
\<close>

definition wrapping_transmission :: bytes where
  "wrapping_transmission = asc ''a=t,f=32,s=2147483648,v=2147483648,i=1;''"

definition small_frame :: bytes where
  "small_frame = asc ''a=f,f=32,s=1,v=1,i=1;AQIDBA==''"

definition compose_frame :: bytes where
  "compose_frame = asc ''a=c,i=1,c=1,r=1''"

lemma wrapping_keys:
  "wrapping_transmission = render_keys [(CHR ''a'', asc ''t''), (CHR ''f'', decimal 32), (CHR ''s'', decimal 2147483648), (CHR ''v'', decimal 2147483648), (CHR ''i'', decimal 1)] @ 0x3B # []"
  "small_frame = render_keys [(CHR ''a'', asc ''f''), (CHR ''f'', decimal 32), (CHR ''s'', decimal 1), (CHR ''v'', decimal 1), (CHR ''i'', decimal 1)] @ 0x3B # asc ''AQIDBA==''"
  "compose_frame = render_keys [(CHR ''a'', asc ''c''), (CHR ''i'', decimal 1), (CHR ''c'', decimal 1), (CHR ''r'', decimal 1)]"
  by (simp_all add: wrapping_transmission_def small_frame_def compose_frame_def key_pair_def asc_def of_char_def decimal.simps as_u8_def)

lemma decimal_plain_keys [simp]: "0x2C \<notin> set (decimal n)" "0x3B \<notin> set (decimal n)" "0x3D \<notin> set (decimal n)"
  using decimal_plain [of _ n] by fastforce+


definition wrapping_image :: Image where
  "wrapping_image = \<lparr>im_id = 1, im_number = 0, im_format = Rgba, im_width = 2147483648, im_height = 2147483648, im_data = [], im_seq = 1\<rparr>"

definition pixel_frame :: Frame where
  "pixel_frame = \<lparr>af_number = 1, af_gap_ms = 0, af_base_frame = 0, af_x = 0, af_y = 0, af_format = Rgba, af_width = 1, af_height = 1,
     af_data = [1, 2, 3, 4], af_replace = False\<rparr>"

definition after_wrapping :: GraphicsState where
  "after_wrapping = graphics_default\<lparr>gs_images := [wrapping_image], gs_next_seq := 1, gs_next_id := 1\<rparr>"

definition after_frame :: GraphicsState where
  "after_frame = after_wrapping\<lparr>gs_frames := [(1, [pixel_frame])], gs_total_bytes := 4\<rparr>"

lemma pixel_frame_sel: "af_base_frame pixel_frame = 0" "af_x pixel_frame = 0" "af_y pixel_frame = 0" "af_format pixel_frame = Rgba"
  "af_width pixel_frame = 1" "af_height pixel_frame = 1" "af_data pixel_frame = [1, 2, 3, 4]" "\<not> af_replace pixel_frame"
  by (simp_all add: pixel_frame_def)

lemma no_eviction: "gs_total_bytes g \<le> QUOTA_BYTES \<Longrightarrow> enforce_quota g = g"
  by (subst enforce_quota.simps) simp

lemma wrapping_accepted:
  "graphics_dispatch wrapping_transmission cursor (fl, graphics_default) = Some ((fl, after_wrapping), Some (asc [CHR 0x1B, CHR ''_'', CHR ''G''] @ asc ''i=1;OK'' @ [0x1B, 0x5C]), None)"
proof -
  let ?kvs = "[(CHR ''a'', asc ''t''), (CHR ''f'', decimal 32), (CHR ''s'', decimal 2147483648), (CHR ''v'', decimal 2147483648), (CHR ''i'', decimal 1)]"
  let ?k = "command_default\<lparr>k_action := 0x74, k_format := 32, k_width := 2147483648, k_height := 2147483648, k_id := 1\<rparr>"
  have pk: "plain_keys ?kvs" by (simp add: plain_keys_def of_char_def asc_def)
  have k: "set_keys ?kvs command_default = ?k" by (simp only: set_keys_simps set_key_simps first_byte_asc) (simp add: parse_decimal of_char_def)
  have d: "decode [] = Some []" by code_simp
  have z: "(0x8000000000000000 :: u64) * 0x80000000 = 0" by simp
  have "received ?k [] fl = (fl, Done [])" by (simp add: received_def command_default_def d)
  moreover have "decompressed ?k [] = Done []" by (simp add: decompressed_def command_default_def)
  moreover have "image_format ?k = Done Rgba" by (simp add: image_format_def)
  moreover have "pixels_of ?k Rgba [] = Done (?k, [])" by (simp add: pixels_of_def bpp_of_def)
  moreover have "keep_image ?k Rgba [] cursor graphics_default = (after_wrapping, Some (asc [CHR 0x1B, CHR ''_'', CHR ''G''] @ asc ''i=1;OK'' @ [0x1B, 0x5C]), None)"
    by (simp add: keep_image_def assign_id_def store_image_def remove_image_data_def Let_def no_eviction graphics_default_def QUOTA_BYTES_def
        command_default_def graphics_respond_def after_wrapping_def wrapping_image_def forget_def find_image_def frames_of_def asc_def of_char_def decimal.simps as_u8_def)
  ultimately have "run_command ?k [] cursor (fl, graphics_default) = Some ((fl, after_wrapping), Some (asc [CHR 0x1B, CHR ''_'', CHR ''G''] @ asc ''i=1;OK'' @ [0x1B, 0x5C]), None)"
    by (simp add: run_command_def finish_transmission_def command_default_def)
  then show ?thesis unfolding wrapping_keys(1) using dispatch_keys(1) [OF pk] k by (simp add: graphics_default_def)
qed

lemma wrapping_frame_stored:
  "graphics_dispatch small_frame cursor (fl, after_wrapping) = Some ((fl, after_frame), Some (asc [CHR 0x1B, CHR ''_'', CHR ''G''] @ asc ''i=1;OK'' @ [0x1B, 0x5C]), None)"
proof -
  let ?kvs = "[(CHR ''a'', asc ''f''), (CHR ''f'', decimal 32), (CHR ''s'', decimal 1), (CHR ''v'', decimal 1), (CHR ''i'', decimal 1)]"
  let ?k = "command_default\<lparr>k_action := 0x66, k_format := 32, k_width := 1, k_height := 1, k_id := 1\<rparr>"
  have pk: "plain_keys ?kvs" by (simp add: plain_keys_def of_char_def asc_def)
  have k: "set_keys ?kvs command_default = ?k" by (simp only: set_keys_simps set_key_simps first_byte_asc) (simp add: parse_decimal of_char_def)
  have d: "decode (asc ''AQIDBA=='') = Some [1, 2, 3, 4]" by code_simp
  have "received ?k (asc ''AQIDBA=='') fl = (fl, Done [1, 2, 3, 4])" by (simp add: received_def command_default_def d)
  moreover have "decompressed ?k [1, 2, 3, 4] = Done [1, 2, 3, 4]" by (simp add: decompressed_def command_default_def)
  moreover have "image_format ?k = Done Rgba" by (simp add: image_format_def)
  moreover have "pixels_of ?k Rgba [1, 2, 3, 4] = Done (?k, [1, 2, 3, 4])" by (simp add: pixels_of_def bpp_of_def)
  moreover have "keep_image ?k Rgba [1, 2, 3, 4] cursor after_wrapping = (after_frame, Some (asc [CHR 0x1B, CHR ''_'', CHR ''G''] @ asc ''i=1;OK'' @ [0x1B, 0x5C]), None)"
    by (simp add: keep_image_def store_frame_def resolve_id_def Let_def no_eviction graphics_default_def QUOTA_BYTES_def new_frame_number_def with_frames_def find_frame_def
        command_default_def graphics_respond_def after_wrapping_def wrapping_image_def after_frame_def pixel_frame_def forget_def find_image_def frames_of_def asc_def of_char_def decimal.simps as_u8_def)
  ultimately have "run_command ?k (asc ''AQIDBA=='') cursor (fl, after_wrapping) = Some ((fl, after_frame), Some (asc [CHR 0x1B, CHR ''_'', CHR ''G''] @ asc ''i=1;OK'' @ [0x1B, 0x5C]), None)"
    by (simp add: run_command_def finish_transmission_def command_default_def)
  then show ?thesis unfolding wrapping_keys(2) using dispatch_keys(1) [OF pk] k by (simp add: after_wrapping_def graphics_default_def)
qed

lemma wrapping_compose_stops: "graphics_dispatch compose_frame cursor (fl, after_frame) = None"
proof -
  let ?kvs = "[(CHR ''a'', asc ''c''), (CHR ''i'', decimal 1), (CHR ''c'', decimal 1), (CHR ''r'', decimal 1)]"
  let ?k = "command_default\<lparr>k_action := 0x63, k_id := 1, k_cols := 1, k_rows := 1\<rparr>"
  have pk: "plain_keys ?kvs" by (simp add: plain_keys_def of_char_def asc_def)
  have k: "set_keys ?kvs command_default = ?k" by (simp only: set_keys_simps set_key_simps first_byte_asc) (simp add: parse_decimal of_char_def)
  have fi: "find_image 1 after_frame = Some wrapping_image" by (simp add: after_frame_def after_wrapping_def find_image_def wrapping_image_def)
  have fr: "frames_of 1 after_frame = [pixel_frame]" by (simp add: after_frame_def frames_of_def)
  have ff: "find_frame 1 [pixel_frame] = Some pixel_frame" by (simp add: find_frame_def pixel_frame_def)
  have base: "compose_chain wrapping_image [pixel_frame] 0 [1] = Done []"
    by (subst compose_chain.simps) (simp add: as_rgba_def wrapping_image_def)
  have rect: "compose_rect [] (img_dim wrapping_image) (as_rgba Rgba [1, 2, 3, 4]) (1, 1) (0, 0) (0, 0) (1, 1) False = None"
    by (simp add: compose_rect_def img_dim_def wrapping_image_def compose_pixel_def as_rgba_def get_range_def)
  have "compose_chain wrapping_image [pixel_frame] 1 [] = Stops"
    using base rect by (subst compose_chain.simps) (simp add: ff pixel_frame_sel)
  then have "composed_frame 1 1 after_frame = Stops" by (simp add: composed_frame_def fi fr) (simp add: wrapping_image_def)
  then have "graphics_compose ?k after_frame = None"
    by (simp add: graphics_compose_def resolve_id_def fi fr ff command_default_def)
  then have "run_command ?k [] cursor (fl, after_frame) = None" by (simp add: run_command_def)
  then show ?thesis unfolding wrapping_keys(3) using dispatch_keys(2) [OF pk] k by (simp add: after_frame_def after_wrapping_def graphics_default_def)
qed

text \<open>
  Deleting one of two placements with the uppercase form frees the data of the image although the other
  placement still shows it.
\<close>

definition delete_one :: Command where
  "delete_one = command_default\<lparr>k_action := 0x64, k_delete := 0x49, k_id := 1, k_placement_id := 1\<rparr>"

lemma delete_leaves_dangling:
  assumes "find_image 1 g \<noteq> None" "p \<in> set (gs_placements g)" "pl_image_id p = 1" "pl_placement_id p \<noteq> 1"
  shows "p \<in> set (gs_placements (graphics_delete delete_one cursor g)) \<and> find_image 1 (graphics_delete delete_one cursor g) = None"
proof -
  have "graphics_delete delete_one cursor g = delete_by_id True (\<lambda>p. pl_placement_id p \<noteq> 1) (Some 1) g"
    using assms(1) by (simp add: graphics_delete_def delete_one_def command_default_def resolve_id_def)
  then show ?thesis using assms(2-4) by (simp add: delete_by_id_def remove_image_data_def find_image_def find_None_iff Let_def)
qed

text \<open>
  Two placements that are each other's parent: the walk compares the placement id literally, while a parent
  without a placement id stands for any placement of its image.
\<close>

lemma parent_cycle_missed:
  assumes "gs_placements g = [a, b]" "pl_image_id a = 1" "pl_placement_id a = 1" "pl_parent_image a = 0"
    and "pl_image_id b = 2" "pl_placement_id b = 1" "pl_parent_image b = 1" "pl_parent_placement b = 0"
    and "k_id k = 1" "k_placement_id k = 1" "k_parent_image k = 2" "k_parent_placement k = 1"
  shows "\<exists>g' adv a'. add_placement k cursor g = Inr (g', adv) \<and> gs_placements g' = [b, a']
    \<and> find_placement g' (pl_parent_image a', pl_parent_placement a') = Some b
    \<and> find_placement g' (pl_parent_image b, pl_parent_placement b) = Some a'"
proof -
  have "resolve_cell k cursor g = Inr (offset_cell (pl_row b) (k_v_off k), offset_cell (pl_col b) (k_h_off k))"
    using assms by (simp add: resolve_cell_def find_placement_def numeral_eq_Suc)
  then show ?thesis using assms by (simp add: add_placement_def Let_def find_placement_def new_placement_def)
qed


text \<open>The byte counts of the commands above fit but for the first.\<close>

lemma small_frame_fits:
  "case completed small_frame graphics_default of None \<Rightarrow> True | Some (k, payload) \<Rightarrow> fits_in_u64 k payload fl"
proof -
  let ?kvs = "[(CHR ''a'', asc ''f''), (CHR ''f'', decimal 32), (CHR ''s'', decimal 1), (CHR ''v'', decimal 1), (CHR ''i'', decimal 1)]"
  have pk: "plain_keys ?kvs" by (simp add: plain_keys_def of_char_def asc_def)
  have k: "set_keys ?kvs command_default = command_default\<lparr>k_action := 0x66, k_format := 32, k_width := 1, k_height := 1, k_id := 1\<rparr>"
    by (simp only: set_keys_simps set_key_simps first_byte_asc) (simp add: parse_decimal of_char_def)
  show ?thesis unfolding completed_def wrapping_keys(2)
    using command_of_keys(1) [OF pk, where payload = "asc ''AQIDBA==''"] command_of_keys(2) [OF pk] k
    by (simp add: fits_in_u64_def command_default_def graphics_default_def)
qed

text \<open>A store that is over the quota by one byte.\<close>

definition stored_pixels :: "u32 \<Rightarrow> nat \<Rightarrow> bytes \<Rightarrow> Image" where
  "stored_pixels i n data = \<lparr>im_id = i, im_number = 0, im_format = Rgba, im_width = 1, im_height = 1, im_data = data, im_seq = n\<rparr>"

definition over_quota :: GraphicsState where
  "over_quota = graphics_default\<lparr>gs_images := [stored_pixels 2 2 [0], stored_pixels 1 1 (replicate 335544320 0)], gs_next_seq := 2, gs_total_bytes := 335544321\<rparr>"

lemma over_quota_sound: "sound over_quota"
  by (simp add: sound_def over_quota_def stored_pixels_def graphics_default_def held_def image_bytes_def frames_bytes_def)

end
