(* ===== verification/Graphics_Dump.thy ===== *)
theory Graphics_Dump
  imports Fragment Graphics_Keys
begin

text \<open>
  \<open>dump_graphics\<close>, \<open>dump_placements\<close> and \<open>emit_apc_chunks\<close> of \<open>crates/posh-term/src/dump.rs\<close>: the kitty graphics
  of a terminal as APC commands, and what the graphics component makes of them. Key lists are written by
  \<open>render_keys\<close>; a string is the list of its commands, each put between \<open>ESC _ G\<close> and \<open>ESC \\<close>.
\<close>

section \<open>Chunked transmissions\<close>

definition number :: "u32 \<Rightarrow> bytes" where
  "number w = decimal (unat w)"

definition apc :: "bytes \<Rightarrow> bytes" where
  "apc body = [0x1B, 0x5F, 0x47] @ body @ [0x1B, 0x5C]"

definition APC_CHUNK :: nat where "APC_CHUNK = 4096"

text \<open>The continuation chunks: \<open>m=1\<close> on every one but the last.\<close>

fun more_chunks :: "bytes list \<Rightarrow> bytes list" where
  "more_chunks [] = []"
| "more_chunks (c # cs) = (render_keys [(CHR ''m'', if cs = [] then asc ''0'' else asc ''1'')] @ 0x3B # c) # more_chunks cs"

definition apc_chunks :: "(char \<times> bytes) list \<Rightarrow> bytes \<Rightarrow> bytes list" where
  "apc_chunks keys data =
     (let payload = encode data
      in if length payload \<le> APC_CHUNK then [render_keys keys @ 0x3B # payload]
         else case chunks APC_CHUNK payload of
                [] \<Rightarrow> []
              | c # cs \<Rightarrow> (render_keys (keys @ [(CHR ''m'', asc ''1'')]) @ 0x3B # c) # more_chunks cs)"

definition emit_apc_chunks :: "bytes \<Rightarrow> (char \<times> bytes) list \<Rightarrow> bytes \<Rightarrow> bytes" where
  "emit_apc_chunks out keys data = out @ concat (map apc (apc_chunks keys data))"

section \<open>Images, frames, animations\<close>

definition fmt_key :: "ImageFormat \<Rightarrow> bytes" where
  "fmt_key f = (if f = Rgb then decimal 24 else decimal 32)"

definition image_keys :: "Image \<Rightarrow> (char \<times> bytes) list" where
  "image_keys img =
     [(CHR ''a'', asc ''t''), (CHR ''q'', decimal 2), (CHR ''f'', fmt_key (im_format img)), (CHR ''s'', number (im_width img)),
      (CHR ''v'', number (im_height img)), (CHR ''i'', number (im_id img))]
     @ (if im_number img \<noteq> 0 then [(CHR ''I'', number (im_number img))] else [])"

definition frame_keys :: "u32 \<Rightarrow> Frame \<Rightarrow> (char \<times> bytes) list" where
  "frame_keys i fr =
     [(CHR ''a'', asc ''f''), (CHR ''q'', decimal 2), (CHR ''i'', number i), (CHR ''r'', number (af_number fr)),
      (CHR ''f'', fmt_key (af_format fr)), (CHR ''s'', number (af_width fr)), (CHR ''v'', number (af_height fr)),
      (CHR ''x'', number (af_x fr)), (CHR ''y'', number (af_y fr)), (CHR ''z'', signed_decimal (af_gap_ms fr)),
      (CHR ''c'', number (af_base_frame fr))]
     @ (if af_replace fr then [(CHR ''X'', asc ''1'')] else [])"

definition animation_keys :: "u32 \<Rightarrow> AnimationState \<Rightarrow> (char \<times> bytes) list" where
  "animation_keys i anim =
     [(CHR ''a'', asc ''a''), (CHR ''q'', decimal 2), (CHR ''i'', number i), (CHR ''s'', decimal (unat (an_state anim))),
      (CHR ''v'', number (an_loops anim)), (CHR ''c'', number (an_current_frame anim))]"

definition image_chunks :: "GraphicsState \<Rightarrow> Image \<Rightarrow> bytes list" where
  "image_chunks g img =
     (let i = im_id img
      in apc_chunks (image_keys img) (im_data img)
         @ concat (map (\<lambda>fr. apc_chunks (frame_keys i fr) (af_data fr)) (frames_of i g))
         @ (case map_of (gs_animations g) i of None \<Rightarrow> [] | Some anim \<Rightarrow> [render_keys (animation_keys i anim)]))"

definition sorted_images :: "GraphicsState \<Rightarrow> Image list" where
  "sorted_images g = sort_key im_id (gs_images g)"

definition dump_images :: "GraphicsState \<Rightarrow> bytes" where
  "dump_images g = concat (map apc (concat (map (image_chunks g) (sorted_images g))))"

section \<open>Placements\<close>

definition placement_keys :: "bool \<Rightarrow> Placement \<Rightarrow> (char \<times> bytes) list" where
  "placement_keys parent_alive p =
     [(CHR ''a'', asc ''p''), (CHR ''q'', decimal 2), (CHR ''i'', number (pl_image_id p)), (CHR ''p'', number (pl_placement_id p)),
      (CHR ''x'', number (pl_src_x p)), (CHR ''y'', number (pl_src_y p)), (CHR ''w'', number (pl_src_w p)),
      (CHR ''h'', number (pl_src_h p)), (CHR ''c'', number (pl_cols p)), (CHR ''r'', number (pl_rows p)),
      (CHR ''z'', signed_decimal (pl_z p)), (CHR ''X'', number (pl_cell_x p)), (CHR ''Y'', number (pl_cell_y p))]
     @ (if parent_alive
        then [(CHR ''P'', number (pl_parent_image p)), (CHR ''Q'', number (pl_parent_placement p)),
              (CHR ''H'', signed_decimal (pl_h_off p)), (CHR ''V'', signed_decimal (pl_v_off p))]
        else [])
     @ (if pl_unicode p then [(CHR ''U'', asc ''1'')] else [])"

definition has_parent :: "GraphicsState \<Rightarrow> Placement \<Rightarrow> bool" where
  "has_parent g p \<longleftrightarrow> pl_parent_image p \<noteq> 0
     \<and> list_ex (\<lambda>q. pl_image_id q = pl_parent_image p \<and> (pl_parent_placement p = 0 \<or> pl_placement_id q = pl_parent_placement p)) (gs_placements g)"

text \<open>The position is a 16-bit sum, which wraps.\<close>

definition dump_placement :: "GraphicsState \<Rightarrow> Placement \<Rightarrow> bytes" where
  "dump_placement g p =
     (if \<not> has_parent g p \<and> \<not> pl_unicode p
      then 0x1B # asc ''['' @ decimal (unat (pl_row p + 1)) @ asc '';'' @ decimal (unat (pl_col p + 1)) @ asc ''H'' else [])
     @ apc (render_keys (placement_keys (has_parent g p) p))"

definition dump_placements :: "GraphicsState \<Rightarrow> bytes" where
  "dump_placements g = concat (map (dump_placement g) (gs_placements g))"

definition dump_graphics :: "GraphicsState \<Rightarrow> bytes" where
  "dump_graphics g = dump_images g @ dump_placements g"

section \<open>What the commands say\<close>

lemma plain_of_char:
  "plain_keys (kv # kvs) \<longleftrightarrow> plain_keys [kv] \<and> plain_keys kvs"
  "plain_keys (kvs @ kvs') \<longleftrightarrow> plain_keys kvs \<and> plain_keys kvs'" "plain_keys []"
  by (auto simp: plain_keys_def)

lemma plain_number [simp]: "0x2C \<notin> set (number w)" "0x3B \<notin> set (number w)"
  by (simp_all add: number_def)

lemma plain_signed [simp]: "0x2C \<notin> set (signed_decimal w)" "0x3B \<notin> set (signed_decimal w)"
  by (simp_all add: signed_decimal_def)

lemma plain_fmt [simp]: "0x2C \<notin> set (fmt_key f)" "0x3B \<notin> set (fmt_key f)"
  by (simp_all add: fmt_key_def)

lemma plain_dump_keys: "plain_keys (image_keys img)" "plain_keys (frame_keys i fr)" "plain_keys (animation_keys i anim)"
  "plain_keys [(CHR ''m'', asc ''0'')]" "plain_keys [(CHR ''m'', asc ''1'')]"
  by (simp_all add: plain_keys_def image_keys_def frame_keys_def animation_keys_def of_char_def asc_def)

lemma plain_placement_keys: "plain_keys (placement_keys alive p)"
  by (cases alive; cases "pl_unicode p") (simp_all add: plain_keys_def placement_keys_def of_char_def asc_def)

lemma parse_number [simp]: "word_of_int (parse_i64 (number w)) = w"
  by (simp add: number_def parse_decimal32)

lemma parse_digits: "parse_i64 (asc ''0'') = 0" "parse_i64 (asc ''1'') = 1" "parse_i64 (decimal 2) = 2"
  by (simp_all add: parse_decimal) (simp_all add: asc_def of_char_def parse_i64_def digits_value_def ascii_digit_def)

lemma parse_fmt: "word_of_int (parse_i64 (fmt_key f)) = (if f = Rgb then 24 else 32 :: u32)"
  by (simp add: fmt_key_def parse_decimal)

lemma parse_state: "word_of_int (parse_i64 (decimal (unat (w :: u8)))) = (ucast w :: u32)"
proof -
  have "unat w < 2 ^ LENGTH(8)" by (rule unsigned_less)
  then show ?thesis by (simp add: parse_decimal)
qed

definition image_command :: "Image \<Rightarrow> Command" where
  "image_command img = command_default\<lparr>k_action := 0x74, k_quiet := 2, k_format := if im_format img = Rgb then 24 else 32,
     k_width := im_width img, k_height := im_height img, k_id := im_id img, k_number := im_number img\<rparr>"

definition frame_command :: "u32 \<Rightarrow> Frame \<Rightarrow> Command" where
  "frame_command i fr = command_default\<lparr>k_action := 0x66, k_quiet := 2, k_id := i, k_rows := af_number fr,
     k_format := if af_format fr = Rgb then 24 else 32, k_width := af_width fr, k_height := af_height fr,
     k_src_x := af_x fr, k_src_y := af_y fr, k_z := af_gap_ms fr, k_cols := af_base_frame fr,
     k_cell_x := if af_replace fr then 1 else 0\<rparr>"

definition animation_command :: "u32 \<Rightarrow> AnimationState \<Rightarrow> Command" where
  "animation_command i anim = command_default\<lparr>k_action := 0x61, k_quiet := 2, k_id := i, k_width := ucast (an_state anim),
     k_height := an_loops anim, k_cols := an_current_frame anim\<rparr>"

definition placement_command :: "bool \<Rightarrow> Placement \<Rightarrow> Command" where
  "placement_command alive p = (command_default\<lparr>k_action := 0x70, k_quiet := 2, k_id := pl_image_id p, k_placement_id := pl_placement_id p,
     k_src_x := pl_src_x p, k_src_y := pl_src_y p, k_src_w := pl_src_w p, k_src_h := pl_src_h p, k_cols := pl_cols p,
     k_rows := pl_rows p, k_z := pl_z p, k_cell_x := pl_cell_x p, k_cell_y := pl_cell_y p, k_unicode := pl_unicode p\<rparr>)
     \<lparr>k_parent_image := if alive then pl_parent_image p else 0, k_parent_placement := if alive then pl_parent_placement p else 0,
      k_h_off := if alive then pl_h_off p else 0, k_v_off := if alive then pl_v_off p else 0\<rparr>"

lemma set_keys_append: "set_keys (kvs @ kvs') k = set_keys kvs' (set_keys kvs k)"
  by (simp add: set_keys_def)

lemma image_keys_command: "set_keys (image_keys img) command_default = image_command img"
  unfolding image_keys_def
  by (simp only: set_keys_append set_keys_simps set_key_simps first_byte_asc if_distrib [of "\<lambda>kvs. set_keys kvs k" for k] parse_number parse_fmt parse_digits)
    (simp add: image_command_def command_default_def of_char_def)

lemma frame_keys_command: "set_keys (frame_keys i fr) command_default = frame_command i fr"
  unfolding frame_keys_def
  by (simp only: set_keys_append set_keys_simps set_key_simps first_byte_asc if_distrib [of "\<lambda>kvs. set_keys kvs k" for k] parse_number parse_fmt parse_signed parse_digits)
    (simp add: frame_command_def command_default_def of_char_def)

lemma animation_keys_command: "set_keys (animation_keys i anim) command_default = animation_command i anim"
  unfolding animation_keys_def
  by (simp only: set_keys_simps set_key_simps first_byte_asc parse_number parse_digits parse_state)
    (simp add: animation_command_def command_default_def of_char_def)

lemma placement_keys_command: "set_keys (placement_keys alive p) command_default = placement_command alive p"
  unfolding placement_keys_def
  by (simp only: set_keys_append set_keys_simps set_key_simps first_byte_asc if_distrib [of "\<lambda>kvs. set_keys kvs k" for k] parse_number parse_signed parse_digits)
    (simp add: placement_command_def command_default_def of_char_def)

end
