(* ===== verification/Graphics_Replay.thy ===== *)
theory Graphics_Replay
  imports Graphics_Dump
begin

text \<open>
  What the commands of \<open>Graphics_Dump\<close> restore: a chunked transmission is one transmission of the whole payload,
  and the commands for the images of a store rebuild its images, frames and animations.
\<close>

section \<open>Running commands without an answer\<close>

fun replays :: "bytes list \<Rightarrow> u16 \<times> u16 \<Rightarrow> files \<times> GraphicsState \<Rightarrow> (files \<times> GraphicsState) option" where
  "replays [] cursor s = Some s"
| "replays (c # cs) cursor s =
     (case graphics_dispatch c cursor s of Some (s', None, None) \<Rightarrow> replays cs cursor s' | _ \<Rightarrow> None)"

lemma replays_append: "replays (xs @ ys) cursor s = Option.bind (replays xs cursor s) (replays ys cursor)"
  by (induction xs arbitrary: s) (auto split: option.split prod.split)

text \<open>The state of a transmission that answers nothing.\<close>

definition silent :: "((files \<times> GraphicsState) \<times> reply) option \<Rightarrow> (files \<times> GraphicsState) option" where
  "silent r = (case r of Some (s', None, None) \<Rightarrow> Some s' | _ \<Rightarrow> None)"

lemma no_pending: "gs_pending g = None \<Longrightarrow> g\<lparr>gs_pending := None\<rparr> = g"
  by (cases g) simp

lemma continue_chunk:
  assumes "plain_keys kvs" "kvs \<noteq> []" "gs_pending g = Some p"
  shows "graphics_dispatch (render_keys kvs @ 0x3B # payload) cursor (fl, g)
    = continue_transmission (set_keys kvs command_default) payload p cursor (fl, g)"
  using command_of_keys [OF assms(1,2)] assms(3) by (simp add: graphics_dispatch_def)

lemma not_more: "k_more command_default = 0"
  by (simp add: command_default_def)

lemma more_keys: "set_keys [(CHR ''m'', asc ''0'')] command_default = command_default"
  "set_keys [(CHR ''m'', asc ''1'')] command_default = command_default\<lparr>k_more := 1\<rparr>"
  by (simp_all only: set_keys_simps set_key_simps parse_digits) (simp_all add: command_default_def)

lemma more_replay:
  assumes "cs \<noteq> []" "length (got @ concat cs) \<le> MAX_PENDING_PAYLOAD" "gs_pending g = None"
  shows "replays (more_chunks cs) cursor (fl, g\<lparr>gs_pending := Some \<lparr>pn_cmd = k, pn_payload = got\<rparr>\<rparr>)
    = silent (finish_transmission k (got @ concat cs) cursor (fl, g))"
  using assms
proof (induction cs arbitrary: got)
  case (Cons c cs)
  show ?case
  proof (cases "cs = []")
    case True
    have "graphics_dispatch (render_keys [(CHR ''m'', asc ''0'')] @ 0x3B # c) cursor (fl, g\<lparr>gs_pending := Some \<lparr>pn_cmd = k, pn_payload = got\<rparr>\<rparr>)
        = finish_transmission k (got @ c) cursor (fl, g)"
      using Cons.prems True
      by (subst continue_chunk [OF plain_dump_keys(4), where p = "\<lparr>pn_cmd = k, pn_payload = got\<rparr>"])
        (simp_all add: more_keys continue_transmission_def not_more no_pending del: set_keys_simps)
    then show ?thesis using True by (simp add: silent_def split: option.split prod.split)
  next
    case False
    have "graphics_dispatch (render_keys [(CHR ''m'', asc ''1'')] @ 0x3B # c) cursor (fl, g\<lparr>gs_pending := Some \<lparr>pn_cmd = k, pn_payload = got\<rparr>\<rparr>)
        = Some ((fl, g\<lparr>gs_pending := Some \<lparr>pn_cmd = k, pn_payload = got @ c\<rparr>\<rparr>), None, None)"
      using Cons.prems
      by (subst continue_chunk [OF plain_dump_keys(5), where p = "\<lparr>pn_cmd = k, pn_payload = got\<rparr>"])
        (simp_all add: more_keys continue_transmission_def del: set_keys_simps)
    then show ?thesis using False Cons.IH [of "got @ c"] Cons.prems by simp
  qed
qed simp

text \<open>The whole payload arrives in one piece.\<close>

lemma chunk_replay:
  assumes "plain_keys kvs" "kvs \<noteq> []" "k = set_keys kvs command_default" "k_more k = 0" "k_action k = 0x74 \<or> k_action k = 0x66"
    and "gs_pending g = None" "length (encode data) \<le> MAX_PENDING_PAYLOAD"
    and fin: "\<And>m. finish_transmission (k\<lparr>k_more := m\<rparr>) (encode data) cursor (fl, g) = Some (s', None, None)"
  shows "replays (apc_chunks kvs data) cursor (fl, g) = Some s'"
proof (cases "length (encode data) \<le> APC_CHUNK")
  case True
  have "k\<lparr>k_more := 0\<rparr> = k" using assms(4) by (cases k) simp
  then have "finish_transmission k (encode data) cursor (fl, g) = Some (s', None, None)" using fin [of 0] by metis
  then have "run_command k (encode data) cursor (fl, g) = Some (s', None, None)"
    using assms(4,5) by (auto simp: run_command_def)
  then show ?thesis using dispatch_keys(1) [OF assms(1,2,6)] True assms(3) by (simp add: apc_chunks_def)
next
  case False
  obtain c cs where c: "chunks APC_CHUNK (encode data) = c # cs" using chunks_nonempty by (cases "chunks APC_CHUNK (encode data)") auto
  have all: "c @ concat cs = encode data" using concat_chunks [of APC_CHUNK "encode data"] c by simp
  have cs: "cs \<noteq> []" using c False chunk_bound [of APC_CHUNK c "encode data"] all by (auto simp: APC_CHUNK_def)
  let ?kvs = "kvs @ [(CHR ''m'', asc ''1'')]"
  have pk: "plain_keys ?kvs" using assms(1) plain_dump_keys(5) by (simp add: plain_of_char(2))
  have k1: "set_keys ?kvs command_default = k\<lparr>k_more := 1\<rparr>"
    unfolding set_keys_append assms(3) by (simp only: set_keys_simps set_key_simps parse_digits) simp
  have "graphics_dispatch (render_keys ?kvs @ 0x3B # c) cursor (fl, g)
      = Some ((fl, g\<lparr>gs_pending := Some \<lparr>pn_cmd = k\<lparr>k_more := 1\<rparr>, pn_payload = c\<rparr>\<rparr>), None, None)"
    using assms(5) by (subst dispatch_keys(1) [OF pk _ assms(6)]) (auto simp: k1 run_command_def)
  moreover have "replays (more_chunks cs) cursor (fl, g\<lparr>gs_pending := Some \<lparr>pn_cmd = k\<lparr>k_more := 1\<rparr>, pn_payload = c\<rparr>\<rparr>) = Some s'"
    using assms(7) all by (subst more_replay [OF cs _ assms(6)]) (simp_all add: fin silent_def)
  ultimately show ?thesis using False c by (simp add: apc_chunks_def Let_def)
qed

section \<open>One transmission\<close>

definition plain_format :: "ImageFormat \<Rightarrow> ImageFormat" where
  "plain_format f = (if f = Rgb then Rgb else Rgba)"

lemma announced_size:
  assumes "length data = unat w * unat h * bpp_of f" "length data < 2 ^ 64"
  shows "length data = unat ((ucast (w :: u32) :: u64) * ucast (h :: u32) * word_of_nat (bpp_of f))"
proof -
  have "(ucast w :: u64) * ucast h * word_of_nat (bpp_of f) = word_of_nat (unat w * unat h * bpp_of f)" by simp
  then show ?thesis using assms by (simp only: unat_of_nat) simp
qed

lemma finish_pixels:
  assumes "k_transmission k = 0" "k_compression k = 0" "k_format k = (if f = Rgb then 24 else 32)" "k_width k \<noteq> 0" "k_height k \<noteq> 0"
    and "length data = unat (k_width k) * unat (k_height k) * bpp_of f" "length data \<le> QUOTA_BYTES"
  shows "finish_transmission k (encode data) cursor (fl, g)
    = (let (g', rep) = keep_image k (plain_format f) data cursor g in Some ((fl, g'), rep))"
proof -
  have "length data < 2 ^ 64" using assms(7) by (simp add: QUOTA_BYTES_def)
  then have len: "length data = unat ((ucast (k_width k) :: u64) * ucast (k_height k) * word_of_nat (bpp_of f))"
    using announced_size assms(6) by blast
  have "bpp_of (plain_format f) = bpp_of f" by (cases f) (simp_all add: plain_format_def bpp_of_def)
  then have "pixels_of k (plain_format f) data = Done (k, data)"
    using len assms(4,5) by (simp add: pixels_of_def plain_format_def)
  moreover have "image_format k = Done (plain_format f)" using assms(3) by (simp add: image_format_def plain_format_def)
  moreover have "decompressed k data = Done data" using assms(2) by (simp add: decompressed_def)
  moreover have "received k (encode data) fl = (fl, Done data)" using assms(1) by (simp add: received_def decode_encode)
  ultimately show ?thesis by (simp add: finish_transmission_def)
qed

lemma quiet_respond: "k_quiet k = 2 \<Longrightarrow> graphics_respond k msg = None"
  by (simp add: graphics_respond_def)

section \<open>One image with its frames\<close>

definition restored :: "Image \<Rightarrow> nat \<Rightarrow> Image" where
  "restored img n = img\<lparr>im_format := plain_format (im_format img), im_seq := n\<rparr>"

definition plain_frame :: "Frame \<Rightarrow> Frame" where
  "plain_frame fr = fr\<lparr>af_format := plain_format (af_format fr)\<rparr>"

text \<open>What a payload needs to be accepted: pixels, the announced size, and room for its base64 form.\<close>

definition transmittable :: "u32 \<Rightarrow> u32 \<Rightarrow> ImageFormat \<Rightarrow> bytes \<Rightarrow> bool" where
  "transmittable w h f data \<longleftrightarrow> w \<noteq> 0 \<and> h \<noteq> 0 \<and> length data = unat w * unat h * bpp_of f
     \<and> length data \<le> QUOTA_BYTES \<and> length (encode data) \<le> MAX_PENDING_PAYLOAD"

definition restorable_frames :: "Frame list \<Rightarrow> bool" where
  "restorable_frames frs \<longleftrightarrow> distinct (map af_number frs)
     \<and> (\<forall>fr \<in> set frs. af_number fr \<noteq> 0 \<and> transmittable (af_width fr) (af_height fr) (af_format fr) (af_data fr))"

definition restorable :: "GraphicsState \<Rightarrow> Image \<Rightarrow> bool" where
  "restorable g img \<longleftrightarrow> im_id img \<noteq> 0 \<and> transmittable (im_width img) (im_height img) (im_format img) (im_data img)
     \<and> restorable_frames (frames_of (im_id img) g)"

definition fresh_in :: "u32 \<Rightarrow> GraphicsState \<Rightarrow> bool" where
  "fresh_in i g \<longleftrightarrow> i \<notin> stored_ids g \<and> i \<notin> fst ` set (gs_frames g) \<and> i \<notin> fst ` set (gs_animations g)"

definition with_image :: "Image \<Rightarrow> GraphicsState \<Rightarrow> GraphicsState" where
  "with_image img g = g\<lparr>gs_images := restored img (gs_next_seq g + 1) # gs_images g,
     gs_total_bytes := gs_total_bytes g + length (im_data img), gs_next_seq := gs_next_seq g + 1,
     gs_next_id := max (gs_next_id g) (im_id img)\<rparr>"

lemma forget_fresh: "i \<notin> fst ` set xs \<Longrightarrow> forget i xs = xs"
  by (induction xs) (auto simp: forget_def)

lemma remove_fresh:
  assumes "fresh_in i g"
  shows "remove_image_data i g = g"
proof -
  have "filter (\<lambda>img. im_id img \<noteq> i) (gs_images g) = gs_images g" "find_image i g = None"
    using assms by (force simp: fresh_in_def stored_ids_def filter_id_conv find_image_def find_None_iff)+
  moreover have "frames_of i g = []"
    using assms map_of_eq_None_iff [of "gs_frames g" i] by (simp add: fresh_in_def frames_of_def)
  ultimately show ?thesis using assms by (cases g) (simp add: remove_image_data_def forget_fresh fresh_in_def)
qed

lemma keep_new_image:
  assumes "fresh_in (im_id img) g" "im_id img \<noteq> 0" "gs_total_bytes g + length (im_data img) \<le> QUOTA_BYTES"
  shows "keep_image ((image_command img)\<lparr>k_more := m\<rparr>) (plain_format (im_format img)) (im_data img) cursor g = (with_image img g, None, None)"
proof -
  let ?k = "(image_command img)\<lparr>k_more := m\<rparr>"
  let ?g = "g\<lparr>gs_next_id := max (gs_next_id g) (im_id img)\<rparr>"
  have sel: "k_action ?k = 0x74" "k_id ?k = im_id img" "k_number ?k = im_number img" "k_width ?k = im_width img"
    "k_height ?k = im_height img" "k_quiet ?k = 2" by (simp_all add: image_command_def)
  have img: "\<lparr>im_id = im_id img, im_number = im_number img, im_format = plain_format (im_format img), im_width = im_width img,
      im_height = im_height img, im_data = im_data img, im_seq = n\<rparr> = restored img n" for n
    by (cases img) (simp add: restored_def)
  have "fresh_in (im_id img) ?g" using assms(1) by (simp add: fresh_in_def stored_ids_def)
  then have "store_image ?k (plain_format (im_format img)) (im_data img) ?g = with_image img g"
    using assms(3) by (simp add: store_image_def sel remove_fresh no_eviction with_image_def img Let_def)
  then show ?thesis using assms(2) by (simp add: keep_image_def assign_id_def sel quiet_respond)
qed

lemma image_replay:
  assumes "fresh_in (im_id img) g" "im_id img \<noteq> 0" "gs_total_bytes g + length (im_data img) \<le> QUOTA_BYTES" "gs_pending g = None"
    and "transmittable (im_width img) (im_height img) (im_format img) (im_data img)"
  shows "replays (apc_chunks (image_keys img) (im_data img)) cursor (fl, g) = Some (fl, with_image img g)"
proof (rule chunk_replay [OF plain_dump_keys(1) _ image_keys_command [symmetric] _ _ assms(4)])
  fix m
  let ?k = "(image_command img)\<lparr>k_more := m\<rparr>"
  have "k_transmission ?k = 0" "k_compression ?k = 0" "k_format ?k = (if im_format img = Rgb then 24 else 32)"
    "k_width ?k = im_width img" "k_height ?k = im_height img"
    by (simp_all add: image_command_def command_default_def)
  then show "finish_transmission ?k (encode (im_data img)) cursor (fl, g) = Some ((fl, with_image img g), None, None)"
    using assms(5) finish_pixels [of ?k "im_format img" "im_data img" cursor fl g] keep_new_image [OF assms(1-3), of m cursor]
    by (simp add: transmittable_def)
qed (use assms(5) in \<open>simp_all add: image_keys_def image_command_def command_default_def transmittable_def\<close>)

text \<open>Frames are appended in order.\<close>

definition with_frame :: "u32 \<Rightarrow> Frame \<Rightarrow> GraphicsState \<Rightarrow> GraphicsState" where
  "with_frame i fr g = (with_frames i (frames_of i g @ [plain_frame fr]) g)\<lparr>gs_total_bytes := gs_total_bytes g + length (af_data fr)\<rparr>"

lemma keep_new_frame:
  assumes "find_image i g \<noteq> None" "i \<noteq> 0" "af_number fr \<noteq> 0" "find_frame (af_number fr) (frames_of i g) = None"
    and "gs_total_bytes g + length (af_data fr) \<le> QUOTA_BYTES"
  shows "keep_image ((frame_command i fr)\<lparr>k_more := m\<rparr>) (plain_format (af_format fr)) (af_data fr) cursor g = (with_frame i fr g, None, None)"
proof -
  let ?k = "(frame_command i fr)\<lparr>k_more := m\<rparr>"
  have sel: "k_action ?k = 0x66" "k_id ?k = i" "k_rows ?k = af_number fr" "k_width ?k = af_width fr" "k_height ?k = af_height fr"
    "k_quiet ?k = 2" "k_z ?k = af_gap_ms fr" "k_cols ?k = af_base_frame fr" "k_src_x ?k = af_x fr" "k_src_y ?k = af_y fr"
    "(k_cell_x (frame_command i fr) = 1) = af_replace fr" by (simp_all add: frame_command_def)
  have fr: "\<lparr>af_number = af_number fr, af_gap_ms = af_gap_ms fr, af_base_frame = af_base_frame fr, af_x = af_x fr, af_y = af_y fr,
      af_format = plain_format (af_format fr), af_width = af_width fr, af_height = af_height fr, af_data = af_data fr,
      af_replace = af_replace fr\<rparr> = plain_frame fr"
    by (cases fr) (simp add: plain_frame_def)
  have "store_frame ?k (plain_format (af_format fr)) (af_data fr) g = (with_frame i fr g, None)"
    using assms(1-3,5) by (simp add: store_frame_def resolve_id_def sel assms(4) with_frame_def with_frames_def no_eviction quiet_respond fr Let_def)
  then show ?thesis by (simp add: keep_image_def sel)
qed

lemma frame_replay:
  assumes "find_image i g \<noteq> None" "i \<noteq> 0" "af_number fr \<noteq> 0" "find_frame (af_number fr) (frames_of i g) = None"
    and "gs_total_bytes g + length (af_data fr) \<le> QUOTA_BYTES" "gs_pending g = None"
    and "transmittable (af_width fr) (af_height fr) (af_format fr) (af_data fr)"
  shows "replays (apc_chunks (frame_keys i fr) (af_data fr)) cursor (fl, g) = Some (fl, with_frame i fr g)"
proof (rule chunk_replay [OF plain_dump_keys(2) _ frame_keys_command [symmetric] _ _ assms(6)])
  fix m
  let ?k = "(frame_command i fr)\<lparr>k_more := m\<rparr>"
  have "k_transmission ?k = 0" "k_compression ?k = 0" "k_format ?k = (if af_format fr = Rgb then 24 else 32)"
    "k_width ?k = af_width fr" "k_height ?k = af_height fr"
    by (simp_all add: frame_command_def command_default_def)
  then show "finish_transmission ?k (encode (af_data fr)) cursor (fl, g) = Some ((fl, with_frame i fr g), None, None)"
    using assms(7) finish_pixels [of ?k "af_format fr" "af_data fr" cursor fl g] keep_new_frame [OF assms(1-5), of m cursor]
    by (simp add: transmittable_def)
qed (use assms(7) in \<open>simp_all add: frame_keys_def frame_command_def command_default_def transmittable_def\<close>)

text \<open>The play state, of an image without one.\<close>

definition with_animation :: "u32 \<Rightarrow> AnimationState option \<Rightarrow> GraphicsState \<Rightarrow> GraphicsState" where
  "with_animation i anim g = (case anim of None \<Rightarrow> g | Some a \<Rightarrow> g\<lparr>gs_animations := (i, a) # gs_animations g\<rparr>)"

lemma animation_replay:
  assumes "find_image i g \<noteq> None" "i \<noteq> 0" "i \<notin> fst ` set (gs_animations g)" "gs_pending g = None"
  shows "replays [render_keys (animation_keys i anim)] cursor (fl, g) = Some (fl, with_animation i (Some anim) g)"
proof -
  let ?k = "animation_command i anim"
  have m: "map_of (gs_animations g) i = None" using assms(3) map_of_eq_None_iff by metis
  have sel: "k_action ?k = 0x61" "k_id ?k = i" "k_width ?k = ucast (an_state anim)" "k_height ?k = an_loops anim"
    "k_cols ?k = an_current_frame anim" "k_quiet ?k = 2" by (simp_all add: animation_command_def)
  have u: "ucast (ucast (an_state anim) :: u32) = an_state anim" by (rule bit_word_eqI) (simp add: bit_unsigned_iff)
  then have z: "(ucast (an_state anim) = (0 :: u32)) = (an_state anim = 0)" by (metis unsigned_0)
  have anim: "\<lparr>an_state = an_state anim, an_loops = an_loops anim, an_current_frame = an_current_frame anim\<rparr> = anim" by simp
  have "animate ?k g = (with_animation i (Some anim) g, None)"
    using assms(1,2) by (auto simp: animate_def resolve_id_def sel m with_animation_def animation_default_def forget_fresh [OF assms(3)] quiet_respond z u Let_def)
  then have "run_command ?k [] cursor (fl, g) = Some ((fl, with_animation i (Some anim) g), None, None)"
    by (simp add: run_command_def sel)
  then show ?thesis using dispatch_keys(2) [OF plain_dump_keys(3) _ assms(4), of i anim cursor fl]
    by (simp add: animation_keys_command) (simp add: animation_keys_def)
qed

section \<open>Whole stores\<close>

lemma frames_of_with_frame: "frames_of j (with_frame i fr g) = (if j = i then frames_of i g @ [plain_frame fr] else frames_of j g)"
proof -
  have "map_of (forget i xs) j = (if j = i then None else map_of xs j)" for xs :: "(u32 \<times> Frame list) list"
    by (induction xs) (auto simp: forget_def)
  then show ?thesis by (simp add: with_frame_def with_frames_def frames_of_def)
qed

lemma with_frame_keeps [simp]:
  "find_image j (with_frame i fr g) = find_image j g" "gs_pending (with_frame i fr g) = gs_pending g"
  "gs_animations (with_frame i fr g) = gs_animations g" "stored_ids (with_frame i fr g) = stored_ids g"
  "gs_total_bytes (with_frame i fr g) = gs_total_bytes g + length (af_data fr)" "gs_placements (with_frame i fr g) = gs_placements g"
  by (simp_all add: with_frame_def with_frames_def find_image_def stored_ids_def)

lemma frame_keys_of: "fst ` set (gs_frames (with_frame i fr g)) \<subseteq> insert i (fst ` set (gs_frames g))"
  by (auto simp: with_frame_def with_frames_def forget_def)

lemma find_frame_None: "find_frame n frs = None \<longleftrightarrow> n \<notin> af_number ` set frs"
  by (auto simp: find_frame_def find_None_iff)

lemma plain_frame_number [simp]: "af_number (plain_frame fr) = af_number fr"
  by (simp add: plain_frame_def)

lemma frames_replay:
  assumes "find_image i g \<noteq> None" "i \<noteq> 0" "gs_pending g = None" "gs_total_bytes g + frame_bytes frs \<le> QUOTA_BYTES"
    and "restorable_frames frs" "\<forall>fr \<in> set frs. find_frame (af_number fr) (frames_of i g) = None"
  shows "replays (concat (map (\<lambda>fr. apc_chunks (frame_keys i fr) (af_data fr)) frs)) cursor (fl, g) = Some (fl, fold (with_frame i) frs g)"
  using assms
proof (induction frs arbitrary: g)
  case (Cons fr frs)
  have "replays (apc_chunks (frame_keys i fr) (af_data fr)) cursor (fl, g) = Some (fl, with_frame i fr g)"
    using Cons.prems by (intro frame_replay) (simp_all add: frame_bytes_def restorable_frames_def)
  moreover have "\<forall>f \<in> set frs. find_frame (af_number f) (frames_of i (with_frame i fr g)) = None"
  proof
    fix f
    assume f: "f \<in> set frs"
    then have "af_number f \<in> af_number ` set frs" by simp
    then have "af_number f \<noteq> af_number fr" using Cons.prems(5) by (auto simp: restorable_frames_def)
    then show "find_frame (af_number f) (frames_of i (with_frame i fr g)) = None"
      using Cons.prems(6) f by (simp add: frames_of_with_frame find_frame_None)
  qed
  then have "replays (concat (map (\<lambda>fr. apc_chunks (frame_keys i fr) (af_data fr)) frs)) cursor (fl, with_frame i fr g)
      = Some (fl, fold (with_frame i) frs (with_frame i fr g))"
    using Cons.prems by (intro Cons.IH) (simp_all add: frame_bytes_def restorable_frames_def)
  ultimately show ?case by (simp add: replays_append)
qed simp

lemma fold_frames:
  "frames_of j (fold (with_frame i) frs g) = (if j = i then frames_of i g @ map plain_frame frs else frames_of j g)"
  "find_image j (fold (with_frame i) frs g) = find_image j g" "gs_pending (fold (with_frame i) frs g) = gs_pending g"
  "gs_animations (fold (with_frame i) frs g) = gs_animations g" "stored_ids (fold (with_frame i) frs g) = stored_ids g"
  "gs_total_bytes (fold (with_frame i) frs g) = gs_total_bytes g + frame_bytes frs"
  "gs_placements (fold (with_frame i) frs g) = gs_placements g"
  by (induction frs arbitrary: g) (simp_all add: frames_of_with_frame frame_bytes_def)

lemma fold_frame_keys: "fst ` set (gs_frames (fold (with_frame i) frs g)) \<subseteq> insert i (fst ` set (gs_frames g))"
proof (induction frs arbitrary: g)
  case (Cons fr frs)
  show ?case using Cons.IH [of "with_frame i fr g"] frame_keys_of [of i fr g] by auto
qed auto

definition with_whole :: "GraphicsState \<Rightarrow> Image \<Rightarrow> GraphicsState \<Rightarrow> GraphicsState" where
  "with_whole g img g' =
     (let i = im_id img
      in with_animation i (map_of (gs_animations g) i) (fold (with_frame i) (frames_of i g) (with_image img g')))"

lemma with_image_keeps:
  "gs_pending (with_image img g) = gs_pending g" "gs_animations (with_image img g) = gs_animations g"
  "stored_ids (with_image img g) = insert (im_id img) (stored_ids g)" "frames_of j (with_image img g) = frames_of j g"
  "gs_frames (with_image img g) = gs_frames g" "gs_total_bytes (with_image img g) = gs_total_bytes g + length (im_data img)"
  "find_image j (with_image img g) = (if j = im_id img then Some (restored img (gs_next_seq g + 1)) else find_image j g)"
  "gs_placements (with_image img g) = gs_placements g"
  by (auto simp: with_image_def stored_ids_def frames_of_def find_image_def restored_def)

lemma with_animation_keeps:
  "gs_pending (with_animation i a g) = gs_pending g" "stored_ids (with_animation i a g) = stored_ids g"
  "frames_of j (with_animation i a g) = frames_of j g" "gs_frames (with_animation i a g) = gs_frames g"
  "gs_total_bytes (with_animation i a g) = gs_total_bytes g" "find_image j (with_animation i a g) = find_image j g"
  "fst ` set (gs_animations (with_animation i a g)) \<subseteq> insert i (fst ` set (gs_animations g))"
  "gs_placements (with_animation i a g) = gs_placements g"
  by (auto simp: with_animation_def stored_ids_def frames_of_def find_image_def split: option.split)

definition whole_bytes :: "GraphicsState \<Rightarrow> Image \<Rightarrow> nat" where
  "whole_bytes g img = length (im_data img) + frame_bytes (frames_of (im_id img) g)"

lemma with_whole_keeps:
  "gs_pending (with_whole g img g') = gs_pending g'" "gs_total_bytes (with_whole g img g') = gs_total_bytes g' + whole_bytes g img"
  "gs_placements (with_whole g img g') = gs_placements g'"
  by (simp_all add: with_whole_def Let_def with_animation_keeps with_image_keeps fold_frames whole_bytes_def)

lemma with_whole_fresh:
  assumes "fresh_in j g'" "j \<noteq> im_id img"
  shows "fresh_in j (with_whole g img g')"
  using assms fold_frame_keys [of "im_id img" "frames_of (im_id img) g" "with_image img g'"]
    with_animation_keeps(7) [of "im_id img" "map_of (gs_animations g) (im_id img)" "fold (with_frame (im_id img)) (frames_of (im_id img) g) (with_image img g')"]
  by (auto simp: fresh_in_def with_whole_def Let_def with_animation_keeps(2,4) fold_frames with_image_keeps)

lemma fresh_lookups: "fresh_in i g \<Longrightarrow> frames_of i g = [] \<and> map_of (gs_animations g) i = None"
  using map_of_eq_None_iff [of "gs_frames g" i] map_of_eq_None_iff [of "gs_animations g" i] by (simp add: fresh_in_def frames_of_def)

lemma with_whole_lookups:
  assumes "fresh_in (im_id img) g'"
  shows "find_image j (with_whole g img g') = (if j = im_id img then Some (restored img (gs_next_seq g' + 1)) else find_image j g')"
    and "frames_of j (with_whole g img g') = (if j = im_id img then map plain_frame (frames_of j g) else frames_of j g')"
    and "map_of (gs_animations (with_whole g img g')) j = (if j = im_id img then map_of (gs_animations g) j else map_of (gs_animations g') j)"
  using fresh_lookups [OF assms]
  by (simp_all add: with_whole_def Let_def with_animation_keeps(3,6) fold_frames with_image_keeps)
    (auto simp: with_animation_def fold_frames with_image_keeps split: option.split)

lemma whole_replay:
  assumes "restorable g img" "fresh_in (im_id img) g'" "gs_pending g' = None" "gs_total_bytes g' + whole_bytes g img \<le> QUOTA_BYTES"
  shows "replays (image_chunks g img) cursor (fl, g') = Some (fl, with_whole g img g')"
proof -
  let ?i = "im_id img" and ?g1 = "with_image img g'"
  let ?g2 = "fold (with_frame ?i) (frames_of ?i g) ?g1"
  have i: "?i \<noteq> 0" using assms(1) by (simp add: restorable_def)
  have 1: "replays (apc_chunks (image_keys img) (im_data img)) cursor (fl, g') = Some (fl, ?g1)"
    using assms by (intro image_replay) (simp_all add: restorable_def whole_bytes_def)
  have 2: "replays (concat (map (\<lambda>fr. apc_chunks (frame_keys ?i fr) (af_data fr)) (frames_of ?i g))) cursor (fl, ?g1) = Some (fl, ?g2)"
    using assms fresh_lookups [OF assms(2)]
    by (intro frames_replay) (auto simp: with_image_keeps restorable_def whole_bytes_def find_frame_None)
  have 3: "replays (case map_of (gs_animations g) ?i of None \<Rightarrow> [] | Some anim \<Rightarrow> [render_keys (animation_keys ?i anim)]) cursor (fl, ?g2)
      = Some (fl, with_animation ?i (map_of (gs_animations g) ?i) ?g2)"
    using animation_replay [of ?i ?g2] assms(2,3) i
    by (auto simp: with_animation_def fold_frames with_image_keeps fresh_in_def split: option.split simp del: replays.simps(2))
  show ?thesis using 1 2 3 by (simp add: image_chunks_def with_whole_def replays_append Let_def)
qed

lemma rest_fresh:
  assumes "\<forall>x \<in> set (img # imgs). fresh_in (im_id x) g'" "distinct (map im_id (img # imgs))"
  shows "\<forall>x \<in> set imgs. fresh_in (im_id x) (with_whole g img g')"
proof
  fix x
  assume x: "x \<in> set imgs"
  then have "im_id x \<in> im_id ` set imgs" by simp
  then have "im_id x \<noteq> im_id img" using assms(2) by auto
  then show "fresh_in (im_id x) (with_whole g img g')" using assms(1) x by (intro with_whole_fresh) simp_all
qed

lemma store_replay:
  assumes "\<forall>img \<in> set imgs. restorable g img \<and> fresh_in (im_id img) g'" "distinct (map im_id imgs)" "gs_pending g' = None"
    and "gs_total_bytes g' + sum_list (map (whole_bytes g) imgs) \<le> QUOTA_BYTES"
  shows "replays (concat (map (image_chunks g) imgs)) cursor (fl, g') = Some (fl, fold (with_whole g) imgs g')"
  using assms
proof (induction imgs arbitrary: g')
  case (Cons img imgs)
  have "replays (image_chunks g img) cursor (fl, g') = Some (fl, with_whole g img g')"
    using Cons.prems by (intro whole_replay) simp_all
  moreover have "replays (concat (map (image_chunks g) imgs)) cursor (fl, with_whole g img g') = Some (fl, fold (with_whole g) imgs (with_whole g img g'))"
    using Cons.prems rest_fresh [of img imgs g' g] by (intro Cons.IH) (simp_all add: with_whole_keeps)
  ultimately show ?case by (simp add: replays_append)
qed simp

text \<open>What the rebuilt store holds under an id.\<close>

definition entry :: "u32 \<Rightarrow> GraphicsState \<Rightarrow> Image option \<times> Frame list \<times> AnimationState option" where
  "entry i g = (find_image i g, frames_of i g, map_of (gs_animations g) i)"

lemma store_entries:
  assumes "\<forall>img \<in> set imgs. fresh_in (im_id img) g'" "distinct (map im_id imgs)"
  shows "(j \<notin> im_id ` set imgs \<longrightarrow> entry j (fold (with_whole g) imgs g') = entry j g')
    \<and> (\<forall>img \<in> set imgs. \<exists>n. entry (im_id img) (fold (with_whole g) imgs g')
          = (Some (restored img n), map plain_frame (frames_of (im_id img) g), map_of (gs_animations g) (im_id img)))"
  using assms
proof (induction imgs arbitrary: g' j)
  case (Cons img imgs)
  let ?g = "with_whole g img g'"
  have fresh: "\<forall>x \<in> set imgs. fresh_in (im_id x) ?g" using Cons.prems by (rule rest_fresh)
  have e: "entry j ?g = (if j = im_id img then (Some (restored img (gs_next_seq g' + 1)), map plain_frame (frames_of j g), map_of (gs_animations g) j)
      else entry j g')" for j
    using with_whole_lookups [where img = img and g' = g' and j = j and g = g] Cons.prems(1) by (simp add: entry_def)
  have d: "distinct (map im_id imgs)" "im_id img \<notin> im_id ` set imgs" using Cons.prems(2) by auto
  have here: "entry (im_id img) (fold (with_whole g) imgs ?g) = entry (im_id img) ?g" using Cons.IH [OF fresh d(1)] d(2) by blast
  show ?case using Cons.IH [OF fresh d(1)] here e by auto
qed simp

section \<open>The images of a store\<close>

definition plain_entry :: "u32 \<Rightarrow> GraphicsState \<Rightarrow> Image option \<times> Frame list \<times> AnimationState option" where
  "plain_entry i g = (map_option (\<lambda>img. restored img 0) (find_image i g), map plain_frame (frames_of i g), map_of (gs_animations g) i)"

lemma plain_idem: "restored (restored img n) m = restored img m" "plain_frame (plain_frame fr) = plain_frame fr"
  by (simp_all add: restored_def plain_frame_def plain_format_def)

lemma frames_within:
  assumes "distinct (map fst frs)" "distinct is"
  shows "sum_list (map (\<lambda>i. frame_bytes (case map_of frs i of None \<Rightarrow> [] | Some fs \<Rightarrow> fs)) is) \<le> frames_bytes frs"
proof -
  let ?f = "\<lambda>i. frame_bytes (case map_of frs i of None \<Rightarrow> [] | Some fs \<Rightarrow> fs)"
  have "sum_list (map ?f is) = sum ?f (set is)" using assms(2) by (simp add: sum_list_distinct_conv_sum_set)
  also have "\<dots> = sum ?f (set is \<inter> fst ` set frs)"
    by (intro sum.mono_neutral_right) (auto simp: frame_bytes_def map_of_eq_None_iff [THEN iffD2])
  also have "\<dots> \<le> sum ?f (fst ` set frs)" by (rule sum_mono2) auto
  also have "\<dots> = sum_list (map ?f (map fst frs))" using sum_list_distinct_conv_sum_set [OF assms(1), of ?f] by (simp only: set_map)
  also have "\<dots> = frames_bytes frs"
    unfolding frames_bytes_def map_map by (rule arg_cong [of _ _ sum_list], rule map_cong) (use assms(1) in auto)
  finally show ?thesis .
qed

lemma whole_bytes_within:
  assumes "sound g" "mset imgs = mset (gs_images g)"
  shows "sum_list (map (whole_bytes g) imgs) \<le> gs_total_bytes g"
proof -
  have "sum_list (map (whole_bytes g) imgs) = sum_list (map (whole_bytes g) (gs_images g))"
    by (metis assms(2) mset_map sum_mset_sum_list)
  also have "\<dots> = image_bytes (gs_images g) + sum_list (map (\<lambda>i. frame_bytes (frames_of i g)) (map im_id (gs_images g)))"
    unfolding whole_bytes_def image_bytes_def sum_list_addf map_map comp_def ..
  also have "\<dots> \<le> gs_total_bytes g"
    using frames_within [of "gs_frames g" "map im_id (gs_images g)"] assms(1) unfolding frames_of_def by (simp add: sound_def held_def)
  finally show ?thesis .
qed

theorem images_replayed:
  assumes "in_quota g" "\<forall>img \<in> set (gs_images g). restorable g img"
  shows "\<exists>g'. replays (concat (map (image_chunks g) (sorted_images g))) cursor (fl, graphics_default) = Some (fl, g')
    \<and> (\<forall>i. plain_entry i g' = plain_entry i g)"
proof -
  let ?imgs = "sorted_images g" and ?g' = "fold (with_whole g) (sorted_images g) graphics_default"
  have s: "sound g" "gs_total_bytes g \<le> QUOTA_BYTES" using assms(1) by (simp_all add: in_quota_def)
  have set: "set ?imgs = set (gs_images g)" and ms: "mset ?imgs = mset (gs_images g)" by (simp_all add: sorted_images_def)
  have d: "distinct (map im_id ?imgs)"
    using s(1) by (simp add: sorted_images_def sound_def distinct_map)
  have fresh: "\<forall>img \<in> set ?imgs. fresh_in (im_id img) graphics_default" by (simp add: fresh_in_def stored_ids_def graphics_default_def)
  have "replays (concat (map (image_chunks g) ?imgs)) cursor (fl, graphics_default) = Some (fl, ?g')"
    using whole_bytes_within [OF s(1) ms] s(2) fresh assms(2) set by (intro store_replay [OF _ d]) (auto simp: graphics_default_def)
  moreover have "plain_entry i ?g' = plain_entry i g" for i
  proof (cases "i \<in> im_id ` set ?imgs")
    case True
    then obtain img where img: "img \<in> set ?imgs" "im_id img = i" by auto
    then obtain n where "entry i ?g' = (Some (restored img n), map plain_frame (frames_of i g), map_of (gs_animations g) i)"
      using store_entries [OF fresh d] by blast
    moreover have "find_image i g = Some img"
      using img set s(1) by (auto simp: sound_def find_image_def find_Some_iff in_set_conv_nth distinct_conv_nth)
    ultimately show ?thesis by (simp add: plain_entry_def entry_def plain_idem)
  next
    case False
    then have "entry i ?g' = entry i graphics_default" using store_entries [OF fresh d] by blast
    moreover have "i \<notin> stored_ids g" using False set by (simp add: stored_ids_def)
    then have "fresh_in i g" "find_image i g = None" using s(1) by (auto simp: fresh_in_def sound_def stored_ids_def find_image_def find_None_iff)
    then have "entry i g = (None, [], None)" using fresh_lookups [of i g] by (simp add: entry_def)
    ultimately show ?thesis by (simp add: plain_entry_def entry_def graphics_default_def find_image_def frames_of_def)
  qed
  ultimately show ?thesis by blast
qed

end
