(* ===== verification/Graphics_Places.thy ===== *)
theory Graphics_Places
  imports Graphics_Replay
begin

text \<open>
  What a replay of \<open>Graphics_Dump\<close> loses: the order in which images are evicted, images whose base64 form
  exceeds the payload limit, and placements on a parent that was placed again.
\<close>

section \<open>The order of the images\<close>

lemma next_seq_whole: "gs_next_seq (with_whole g img g') = gs_next_seq g' + 1"
proof -
  have "gs_next_seq (fold (with_frame i) frs s) = gs_next_seq s" for i frs s
    by (induction frs arbitrary: s) (simp_all add: with_frame_def with_frames_def)
  then show ?thesis by (simp add: with_whole_def with_animation_def with_image_def Let_def split: option.split)
qed

lemma replay_order:
  assumes "sorted_images g = [a, b]" "im_id a \<noteq> im_id b"
  shows "find_image (im_id a) (fold (with_whole g) (sorted_images g) graphics_default) = Some (restored a 1)
    \<and> find_image (im_id b) (fold (with_whole g) (sorted_images g) graphics_default) = Some (restored b 2)"
proof -
  have fresh: "fresh_in i graphics_default" for i by (simp add: fresh_in_def stored_ids_def graphics_default_def)
  have "fresh_in (im_id b) (with_whole g a graphics_default)" using assms(2) by (intro with_whole_fresh [OF fresh]) simp
  then show ?thesis using assms by (simp add: with_whole_lookups(1) fresh next_seq_whole) (simp add: graphics_default_def numeral_2_eq_2)
qed

section \<open>Payloads over the limit\<close>

lemma more_bounded:
  assumes "cs \<noteq> []" "length got \<le> MAX_PENDING_PAYLOAD" "gs_pending g = None"
  shows "\<exists>got'. length got' \<le> MAX_PENDING_PAYLOAD
    \<and> replays (more_chunks cs) cursor (fl, g\<lparr>gs_pending := Some \<lparr>pn_cmd = k, pn_payload = got\<rparr>\<rparr>) = silent (finish_transmission k got' cursor (fl, g))"
  using assms
proof (induction cs arbitrary: got)
  case (Cons c cs)
  let ?got = "if length got + length c \<le> MAX_PENDING_PAYLOAD then got @ c else got"
  have len: "length ?got \<le> MAX_PENDING_PAYLOAD" using Cons.prems by simp
  show ?case
  proof (cases "cs = []")
    case True
    have "graphics_dispatch (render_keys [(CHR ''m'', asc ''0'')] @ 0x3B # c) cursor (fl, g\<lparr>gs_pending := Some \<lparr>pn_cmd = k, pn_payload = got\<rparr>\<rparr>)
        = finish_transmission k ?got cursor (fl, g)"
      using Cons.prems
      by (subst continue_chunk [OF plain_dump_keys(4), where p = "\<lparr>pn_cmd = k, pn_payload = got\<rparr>"])
        (simp_all add: more_keys continue_transmission_def not_more no_pending del: set_keys_simps)
    then have "replays (more_chunks (c # cs)) cursor (fl, g\<lparr>gs_pending := Some \<lparr>pn_cmd = k, pn_payload = got\<rparr>\<rparr>)
        = silent (finish_transmission k ?got cursor (fl, g))"
      using True by (simp add: silent_def split: option.split prod.split)
    then show ?thesis using len by blast
  next
    case False
    have "graphics_dispatch (render_keys [(CHR ''m'', asc ''1'')] @ 0x3B # c) cursor (fl, g\<lparr>gs_pending := Some \<lparr>pn_cmd = k, pn_payload = got\<rparr>\<rparr>)
        = Some ((fl, g\<lparr>gs_pending := Some \<lparr>pn_cmd = k, pn_payload = ?got\<rparr>\<rparr>), None, None)"
      using Cons.prems
      by (subst continue_chunk [OF plain_dump_keys(5), where p = "\<lparr>pn_cmd = k, pn_payload = got\<rparr>"])
        (simp_all add: more_keys continue_transmission_def del: set_keys_simps)
    then show ?thesis using False Cons.IH [OF False len Cons.prems(3)] by simp
  qed
qed simp

text \<open>The payload is cut, what arrives is too short, and the refusal is quiet.\<close>

lemma short_payload:
  assumes "k_transmission k = 0" "k_compression k = 0" "k_quiet k = 2" "k_format k = 24 \<or> k_format k = 32"
    and "length got \<le> MAX_PENDING_PAYLOAD"
    and "322500000 < unat ((ucast (k_width k) :: u64) * ucast (k_height k) * word_of_nat (if k_format k = 24 then 3 else 4))"
  shows "finish_transmission k got cursor (fl, g) = Some ((fl, g), None, None)"
proof (cases "decode got")
  case None
  then show ?thesis using assms(1,3) by (simp add: finish_transmission_def received_def quiet_respond)
next
  case (Some d)
  then have "length d \<le> 322500000" using decode_length [of got d] assms(5) by (simp add: MAX_PENDING_PAYLOAD_def)
  then show ?thesis using assms Some
    by (auto simp: finish_transmission_def received_def quiet_respond decompressed_def image_format_def pixels_of_def bpp_of_def)
qed

theorem large_image_lost:
  assumes "length (im_data img) = unat (im_width img) * unat (im_height img) * bpp_of (im_format img)"
    and "322500000 < length (im_data img)" "length (im_data img) \<le> QUOTA_BYTES" "gs_pending g = None"
  shows "replays (apc_chunks (image_keys img) (im_data img)) cursor (fl, g) = Some (fl, g)"
proof -
  let ?k = "image_command img" and ?kvs = "image_keys img @ [(CHR ''m'', asc ''1'')]" and ?p = "encode (im_data img)"
  have big: "APC_CHUNK < length ?p" using assms(2) by (simp add: length_encode APC_CHUNK_def)
  obtain c cs where c: "chunks APC_CHUNK ?p = c # cs" using chunks_nonempty by (cases "chunks APC_CHUNK ?p") auto
  have all: "c @ concat cs = ?p" using concat_chunks [of APC_CHUNK ?p] c by simp
  have short: "length c \<le> APC_CHUNK" using c chunk_bound [of APC_CHUNK c ?p] by (simp add: APC_CHUNK_def)
  then have cs: "cs \<noteq> []" using all big by auto
  have pk: "plain_keys ?kvs" using plain_dump_keys(1,5) by (simp add: plain_of_char(2))
  have k1: "set_keys ?kvs command_default = ?k\<lparr>k_more := 1\<rparr>"
    unfolding set_keys_append image_keys_command by (simp only: set_keys_simps set_key_simps parse_digits) simp
  have first: "graphics_dispatch (render_keys ?kvs @ 0x3B # c) cursor (fl, g)
      = Some ((fl, g\<lparr>gs_pending := Some \<lparr>pn_cmd = ?k\<lparr>k_more := 1\<rparr>, pn_payload = c\<rparr>\<rparr>), None, None)"
    by (subst dispatch_keys(1) [OF pk _ assms(4)]) (simp_all add: k1 run_command_def, simp add: image_command_def)
  have "length c \<le> MAX_PENDING_PAYLOAD" using short by (simp add: APC_CHUNK_def MAX_PENDING_PAYLOAD_def)
  from more_bounded [OF cs this assms(4)] obtain got where got: "length got \<le> MAX_PENDING_PAYLOAD"
    "replays (more_chunks cs) cursor (fl, g\<lparr>gs_pending := Some \<lparr>pn_cmd = ?k\<lparr>k_more := 1\<rparr>, pn_payload = c\<rparr>\<rparr>)
      = silent (finish_transmission (?k\<lparr>k_more := 1\<rparr>) got cursor (fl, g))" by blast
  have "length (im_data img) < 2 ^ 64" using assms(3) by (simp add: QUOTA_BYTES_def)
  then have size: "length (im_data img) = unat ((ucast (im_width img) :: u64) * ucast (im_height img) * word_of_nat (bpp_of (im_format img)))"
    using announced_size assms(1) by blast
  have b: "bpp_of (im_format img) = (if im_format img = Rgb then 3 else 4)" by (cases "im_format img") (simp_all add: bpp_of_def)
  have "finish_transmission (?k\<lparr>k_more := 1\<rparr>) got cursor (fl, g) = Some ((fl, g), None, None)"
    using got(1) assms(2) size b by (intro short_payload) (auto simp: image_command_def command_default_def)
  then show ?thesis using first got(2) big c by (simp add: apc_chunks_def Let_def silent_def)
qed

section \<open>Placements\<close>

lemma place_replay:
  assumes "gs_pending g = None" "pl_image_id p \<noteq> 0" "find_image (pl_image_id p) g \<noteq> None"
  shows "graphics_dispatch (render_keys (placement_keys alive p)) cursor (fl, g)
    = (case add_placement (placement_command alive p) cursor g of
         Inr (g', adv) \<Rightarrow> Some ((fl, g'), None, adv) | Inl e \<Rightarrow> Some ((fl, g), None, None))"
proof -
  let ?k = "placement_command alive p"
  have sel: "k_action ?k = 0x70" "k_quiet ?k = 2" "k_id ?k = pl_image_id p" by (simp_all add: placement_command_def)
  have k: "?k\<lparr>k_id := pl_image_id p\<rparr> = ?k" by (simp add: placement_command_def)
  have "graphics_place ?k cursor g = (case add_placement (?k\<lparr>k_id := pl_image_id p\<rparr>) cursor g of
      Inr (g', adv) \<Rightarrow> (g', None, adv) | Inl e \<Rightarrow> (g, None, None))"
    using assms(2,3) by (auto simp: graphics_place_def resolve_id_def sel quiet_respond Let_def split: sum.split)
  note this [unfolded k]
  moreover have ne: "placement_keys alive p \<noteq> []" by (simp add: placement_keys_def)
  ultimately show ?thesis
    using dispatch_keys(2) [OF plain_placement_keys ne assms(1), of cursor fl]
    by (simp add: placement_keys_command run_command_def sel split: sum.split)
qed

text \<open>A placement at its cell, without the parent; the placements of a list, one after the other.\<close>

definition place_key :: "Placement \<Rightarrow> u32 \<times> u32" where
  "place_key p = (pl_image_id p, pl_placement_id p)"

definition anchored :: "Placement \<Rightarrow> Placement" where
  "anchored p = p\<lparr>pl_parent_image := 0, pl_parent_placement := 0, pl_h_off := 0, pl_v_off := 0\<rparr>"

fun place_all :: "GraphicsState \<Rightarrow> Placement list \<Rightarrow> files \<times> GraphicsState \<Rightarrow> (files \<times> GraphicsState) option" where
  "place_all g [] s = Some s"
| "place_all g (p # ps) s =
     Option.bind (graphics_dispatch (render_keys (placement_keys (has_parent g p) p)) (pl_row p, pl_col p) s) (\<lambda>(s', rep). place_all g ps s')"

lemma anchored_replay:
  assumes "gs_pending g' = None" "pl_image_id p \<noteq> 0" "find_image (pl_image_id p) g' \<noteq> None" "\<not> has_parent g p"
    and "\<forall>q \<in> set (gs_placements g'). place_key q \<noteq> place_key p"
  shows "\<exists>rep. graphics_dispatch (render_keys (placement_keys (has_parent g p) p)) (pl_row p, pl_col p) (fl, g')
    = Some ((fl, g'\<lparr>gs_placements := gs_placements g' @ [anchored p]\<rparr>), rep)"
proof -
  let ?k = "placement_command False p"
  have new: "new_placement ?k (pl_row p, pl_col p) = anchored p"
    by (cases p) (simp add: new_placement_def placement_command_def anchored_def)
  have sel: "k_id ?k = pl_image_id p" "k_placement_id ?k = pl_placement_id p" "k_parent_image ?k = 0" by (simp_all add: placement_command_def)
  have "filter (\<lambda>q. \<not> (pl_image_id q = pl_image_id p \<and> pl_placement_id q = pl_placement_id p)) (gs_placements g') = gs_placements g'"
    using assms(5) by (auto simp: filter_id_conv place_key_def)
  then have "\<exists>adv. add_placement ?k (pl_row p, pl_col p) g' = Inr (g'\<lparr>gs_placements := gs_placements g' @ [anchored p]\<rparr>, adv)"
    by (simp add: add_placement_def resolve_cell_def sel new Let_def)
  then show ?thesis using place_replay [OF assms(1-3), of False "(pl_row p, pl_col p)" fl] assms(4) by auto
qed

lemma anchored_sel [simp]: "place_key (anchored p) = place_key p"
  by (simp add: anchored_def place_key_def)

lemma places_replayed:
  assumes "\<forall>p \<in> set ps. pl_image_id p \<noteq> 0 \<and> find_image (pl_image_id p) g' \<noteq> None \<and> \<not> has_parent g p"
    and "distinct (map place_key (gs_placements g' @ ps))" "gs_pending g' = None"
  shows "place_all g ps (fl, g') = Some (fl, g'\<lparr>gs_placements := gs_placements g' @ map anchored ps\<rparr>)"
  using assms
proof (induction ps arbitrary: g')
  case (Cons p ps)
  let ?g = "g'\<lparr>gs_placements := gs_placements g' @ [anchored p]\<rparr>"
  have "\<forall>q \<in> set (gs_placements g'). place_key q \<noteq> place_key p"
    using Cons.prems(2) by (simp add: image_iff) metis
  then obtain rep where "graphics_dispatch (render_keys (placement_keys (has_parent g p) p)) (pl_row p, pl_col p) (fl, g') = Some ((fl, ?g), rep)"
    using anchored_replay [of g' p g fl] Cons.prems(1,3) by auto
  moreover have "place_all g ps (fl, ?g) = Some (fl, ?g\<lparr>gs_placements := gs_placements ?g @ map anchored ps\<rparr>)"
    using Cons.prems by (intro Cons.IH) (simp_all add: find_image_def)
  ultimately show ?case by simp
qed simp

theorem placements_replayed:
  assumes "\<forall>p \<in> set (gs_placements g). pl_image_id p \<noteq> 0 \<and> find_image (pl_image_id p) g' \<noteq> None \<and> \<not> has_parent g p"
    and "distinct (map place_key (gs_placements g))" "gs_pending g' = None" "gs_placements g' = []"
  shows "place_all g (gs_placements g) (fl, g') = Some (fl, g'\<lparr>gs_placements := map anchored (gs_placements g)\<rparr>)"
  using places_replayed [of "gs_placements g" g' g fl] assms by simp

text \<open>A parent placed again comes after its child, whose command is then refused without an answer.\<close>

theorem replaced_parent_drops_child:
  assumes "gs_placements g = [parent, child]" "place_key child \<noteq> place_key parent"
    and "pl_parent_image child = pl_image_id parent" "pl_parent_placement child = pl_placement_id parent" "pl_image_id parent \<noteq> 0" "pl_image_id child \<noteq> 0"
    and "k_id k = pl_image_id parent" "k_placement_id k = pl_placement_id parent" "k_parent_image k = 0"
    and "find_image (pl_image_id parent) g' \<noteq> None" "find_image (pl_image_id child) g' \<noteq> None" "gs_pending g' = None" "gs_placements g' = []"
  shows "\<exists>g1 adv again. add_placement k cursor g = Inr (g1, adv) \<and> gs_placements g1 = [child, again] \<and> pl_image_id again = pl_image_id parent
    \<and> place_all g1 (gs_placements g1) (fl, g') = Some (fl, g'\<lparr>gs_placements := [anchored again]\<rparr>)"
proof -
  let ?again = "new_placement k cursor"
  let ?g1 = "g\<lparr>gs_placements := [child, ?again]\<rparr>"
  have again: "pl_image_id ?again = pl_image_id parent" "pl_placement_id ?again = pl_placement_id parent" "pl_parent_image ?again = 0"
    using assms(7-9) by (simp_all add: new_placement_def)
  have "\<exists>adv. add_placement k cursor g = Inr (?g1, adv)"
    using assms(1,2,7-9) by (auto simp: place_key_def add_placement_def resolve_cell_def Let_def)
  moreover have "has_parent ?g1 child" using assms(3-5) again by (simp add: has_parent_def)
  then have "graphics_dispatch (render_keys (placement_keys (has_parent ?g1 child) child)) at (fl, g') = Some ((fl, g'), None, None)" for at
    using assms(3,5) place_replay [OF assms(12,6,11), of True at fl]
    by (simp add: add_placement_def resolve_cell_def placement_command_def find_placement_def assms(13))
  moreover have "\<not> has_parent ?g1 ?again" by (simp add: has_parent_def again)
  then have "place_all ?g1 [?again] (fl, g') = Some (fl, g'\<lparr>gs_placements := [anchored ?again]\<rparr>)"
    using places_replayed [of "[?again]" g' ?g1 fl] assms(5,10,12,13) again by simp
  ultimately show ?thesis using again by (intro exI [of _ ?g1] exI [of _ ?again]) auto
qed

section \<open>An example store\<close>

text \<open>One image of one pixel with one frame and a play state, and two placements of it, the second
  relative to the first.\<close>

definition picture :: Image where
  "picture = \<lparr>im_id = 7, im_number = 0, im_format = Rgb, im_width = 1, im_height = 1, im_data = [1, 2, 3], im_seq = 4\<rparr>"

definition picture_frame :: Frame where
  "picture_frame = \<lparr>af_number = 2, af_gap_ms = 40, af_base_frame = 1, af_x = 0, af_y = 0, af_format = PngData, af_width = 1, af_height = 1,
     af_data = [9, 8, 7, 255], af_replace = True\<rparr>"

definition pictures :: GraphicsState where
  "pictures = graphics_default\<lparr>gs_images := [picture], gs_frames := [(7, [picture_frame])],
     gs_animations := [(7, \<lparr>an_state = 3, an_loops = 1, an_current_frame = 2\<rparr>)], gs_total_bytes := 7, gs_next_seq := 4\<rparr>"

definition place_seven :: Command where
  "place_seven = command_default\<lparr>k_id := 7, k_placement_id := 1\<rparr>"

definition placed_seven :: Placement where
  "placed_seven = new_placement place_seven (2, 3)"

definition placed_eight :: Placement where
  "placed_eight = new_placement (place_seven\<lparr>k_placement_id := 2, k_parent_image := 7, k_parent_placement := 1\<rparr>) (4, 5)"

lemma pictures_in_quota: "in_quota pictures"
  by (simp add: in_quota_def sound_def pictures_def graphics_default_def stored_ids_def picture_def picture_frame_def held_def
      image_bytes_def frames_bytes_def frame_bytes_def QUOTA_BYTES_def)

lemma pictures_restorable: "\<forall>img \<in> set (gs_images pictures). restorable pictures img"
  by (simp add: pictures_def graphics_default_def picture_def picture_frame_def restorable_def restorable_frames_def transmittable_def
      frames_of_def bpp_of_def Let_def QUOTA_BYTES_def MAX_PENDING_PAYLOAD_def)

lemmas placed_simps = placed_seven_def placed_eight_def place_seven_def new_placement_def place_key_def command_default_def
  pictures_def graphics_default_def picture_def find_image_def

end
