(* ===== verification/Key_Encoder.thy ===== *)
theory Key_Encoder
  imports Kitty_Keys Graphics_Keys Client_Input
begin

text \<open>
  The encoder of key events of \<open>crates/posh-term/src/kitty_keys.rs\<close>: the bytes a terminal sends to the
  application for a key, in the legacy form and in the forms of the kitty keyboard protocol. Characters are
  scalar values; the lowercase mapping of Unicode, of which the code takes the first character, is the
  argument \<open>lower\<close>.
\<close>

section \<open>Events\<close>

definition DISAMBIGUATE :: u8 where "DISAMBIGUATE = 1"
definition REPORT_EVENTS :: u8 where "REPORT_EVENTS = 2"
definition REPORT_ALTERNATE :: u8 where "REPORT_ALTERNATE = 4"
definition REPORT_ALL :: u8 where "REPORT_ALL = 8"
definition REPORT_TEXT :: u8 where "REPORT_TEXT = 16"

definition SHIFT :: u8 where "SHIFT = 1"
definition ALT :: u8 where "ALT = 2"
definition CTRL :: u8 where "CTRL = 4"
definition CAPS_LOCK :: u8 where "CAPS_LOCK = 64"

lemmas key_bits = DISAMBIGUATE_def REPORT_EVENTS_def REPORT_ALTERNATE_def REPORT_ALL_def REPORT_TEXT_def SHIFT_def ALT_def CTRL_def CAPS_LOCK_def

definition has_bits :: "u8 \<Rightarrow> u8 \<Rightarrow> bool" where
  "has_bits a b \<longleftrightarrow> a AND b = b"

datatype KeyCode = CharKey nat | Escape | Enter | Tab | Backspace | Insert | Delete | Home | End | PageUp | PageDown
  | Up | Down | Left | Right | F u8

datatype KeyEventType = Press | Repeat | Release

record KeyEvent =
  ev_key :: KeyCode
  ev_mods :: u8
  ev_type :: KeyEventType

section \<open>Encoding\<close>

definition mod_value :: "u8 \<Rightarrow> u16" where
  "mod_value mods = ucast mods + 1"

definition event_num :: "KeyEventType \<Rightarrow> nat" where
  "event_num t = (case t of Press \<Rightarrow> 1 | Repeat \<Rightarrow> 2 | Release \<Rightarrow> 3)"

definition ctrl_byte :: "nat \<Rightarrow> u8 option" where
  "ctrl_byte c =
     (if c \<in> {0x20, 0x40, 0x32} then Some 0
      else if 0x61 \<le> c \<and> c \<le> 0x7A then Some (as_u8 (c - 0x61 + 1))
      else if 0x41 \<le> c \<and> c \<le> 0x5A then Some (as_u8 (c - 0x41 + 1))
      else if c \<in> {0x5B, 0x33} then Some 27
      else if c \<in> {0x5C, 0x34} then Some 28
      else if c \<in> {0x5D, 0x35} then Some 29
      else if c \<in> {0x5E, 0x36} then Some 30
      else if c \<in> {0x5F, 0x37, 0x2F} then Some 31
      else if c \<in> {0x3F, 0x38} then Some 127
      else None)"

definition letter_key :: "KeyCode \<Rightarrow> (u8 \<times> bool) option" where
  "letter_key key =
     (case key of
        Up \<Rightarrow> Some (0x41, True) | Down \<Rightarrow> Some (0x42, True) | Right \<Rightarrow> Some (0x43, True) | Left \<Rightarrow> Some (0x44, True)
      | Home \<Rightarrow> Some (0x48, True) | End \<Rightarrow> Some (0x46, True)
      | F n \<Rightarrow> (if n = 1 then Some (0x50, False) else if n = 2 then Some (0x51, False)
                else if n = 3 then Some (0x52, False) else if n = 4 then Some (0x53, False) else None)
      | _ \<Rightarrow> None)"

definition tilde_key :: "KeyCode \<Rightarrow> nat option" where
  "tilde_key key =
     (case key of
        Insert \<Rightarrow> Some 2 | Delete \<Rightarrow> Some 3 | PageUp \<Rightarrow> Some 5 | PageDown \<Rightarrow> Some 6
      | F n \<Rightarrow> (if n = 5 then Some 15 else if n = 6 then Some 17 else if n = 7 then Some 18 else if n = 8 then Some 19
                else if n = 9 then Some 20 else if n = 10 then Some 21 else if n = 11 then Some 23 else if n = 12 then Some 24
                else None)
      | _ \<Rightarrow> None)"

definition shifted_char :: "nat \<Rightarrow> nat" where
  "shifted_char c = (if 0x61 \<le> c \<and> c \<le> 0x7A then c - 32 else c)"

definition encode_legacy :: "KeyEvent \<Rightarrow> bool \<Rightarrow> bytes" where
  "encode_legacy e app_cursor =
     (if ev_type e = Release then []
      else let mods = ev_mods e; alt = has_bits mods ALT; ctrl = has_bits mods CTRL; m = mods AND 7;
               esc = (if alt then [0x1B] else [])
           in case letter_key (ev_key e) of
                Some (letter, ss3_ok) \<Rightarrow>
                  if m = 0 then (if app_cursor \<and> ss3_ok \<or> \<not> ss3_ok then [0x1B, 0x4F, letter] else [0x1B, 0x5B, letter])
                  else [0x1B, 0x5B, 0x31, 0x3B] @ decimal (unat (mod_value m)) @ [letter]
              | None \<Rightarrow>
                  (case tilde_key (ev_key e) of
                     Some n \<Rightarrow>
                       if m = 0 then [0x1B, 0x5B] @ decimal n @ [0x7E]
                       else [0x1B, 0x5B] @ decimal n @ [0x3B] @ decimal (unat (mod_value m)) @ [0x7E]
                   | None \<Rightarrow>
                       (case ev_key e of
                          Escape \<Rightarrow> esc @ [0x1B]
                        | Enter \<Rightarrow> esc @ [0x0D]
                        | Tab \<Rightarrow> if has_bits mods SHIFT then [0x1B, 0x5B, 0x5A] else esc @ [0x09]
                        | Backspace \<Rightarrow> esc @ [if ctrl then 0x08 else 0x7F]
                        | CharKey c \<Rightarrow>
                            (case (if ctrl then ctrl_byte c else None) of
                               Some b \<Rightarrow> esc @ [b]
                             | None \<Rightarrow> esc @ utf8_encode (if has_bits mods SHIFT then shifted_char c else c))
                        | _ \<Rightarrow> [])))"

definition csi_form :: "bytes \<Rightarrow> u8 \<Rightarrow> KeyEventType \<Rightarrow> u8 \<Rightarrow> u8 \<Rightarrow> bytes option" where
  "csi_form n mods t flags final =
     (let ev_suffix = has_bits flags REPORT_EVENTS \<and> t \<noteq> Press
      in if mods = 0 \<and> \<not> ev_suffix then None
         else Some ([0x1B, 0x5B] @ n @ [0x3B] @ decimal (unat (mod_value mods))
                    @ (if ev_suffix then 0x3A # decimal (event_num t) else []) @ [final]))"

definition key_number :: "(nat \<Rightarrow> nat) \<Rightarrow> KeyCode \<Rightarrow> nat option" where
  "key_number lower key =
     (case key of Escape \<Rightarrow> Some 27 | Enter \<Rightarrow> Some 13 | Tab \<Rightarrow> Some 9 | Backspace \<Rightarrow> Some 127 | CharKey c \<Rightarrow> Some (lower c) | _ \<Rightarrow> None)"

definition csi_u :: "nat \<Rightarrow> KeyEvent \<Rightarrow> u8 \<Rightarrow> bytes" where
  "csi_u code e flags =
     (let mods = ev_mods e; report_events = has_bits flags REPORT_EVENTS;
          alternate = (case ev_key e of
              CharKey c \<Rightarrow> if has_bits flags REPORT_ALTERNATE \<and> has_bits mods SHIFT \<and> shifted_char c \<noteq> code then Some (shifted_char c) else None
            | _ \<Rightarrow> None);
          ev_suffix = report_events \<and> ev_type e \<noteq> Press;
          text = (case ev_key e of
              CharKey c \<Rightarrow>
                if has_bits flags REPORT_TEXT \<and> ev_type e \<noteq> Release \<and> \<not> has_bits mods CTRL \<and> \<not> has_bits mods ALT
                then Some (if has_bits mods SHIFT then shifted_char c else c) else None
            | _ \<Rightarrow> None)
      in [0x1B, 0x5B] @ decimal code
         @ (case alternate of None \<Rightarrow> [] | Some a \<Rightarrow> 0x3A # decimal a)
         @ (if mods \<noteq> 0 \<or> ev_suffix \<or> text \<noteq> None
            then 0x3B # decimal (unat (mod_value mods)) @ (if ev_suffix then 0x3A # decimal (event_num (ev_type e)) else [])
            else [])
         @ (case text of None \<Rightarrow> [] | Some t \<Rightarrow> 0x3B # decimal t)
         @ [0x75])"

definition encode_kitty :: "(nat \<Rightarrow> nat) \<Rightarrow> KeyEvent \<Rightarrow> u8 \<Rightarrow> bool \<Rightarrow> bytes" where
  "encode_kitty lower e flags app_cursor =
     (let report_events = has_bits flags REPORT_EVENTS; mods = ev_mods e; silent = (ev_type e = Release \<and> \<not> report_events)
      in case letter_key (ev_key e) of
           Some (letter, ss3_ok) \<Rightarrow>
             if silent then []
             else (case csi_form [0x31] mods (ev_type e) flags letter of
                     Some bs \<Rightarrow> bs
                   | None \<Rightarrow> if ss3_ok then [0x1B, 0x5B, letter] else [0x1B, 0x4F, letter])
         | None \<Rightarrow>
             (case tilde_key (ev_key e) of
                Some n \<Rightarrow>
                  if silent then []
                  else (case csi_form (decimal n) mods (ev_type e) flags 0x7E of
                          Some bs \<Rightarrow> bs
                        | None \<Rightarrow> [0x1B, 0x5B] @ decimal n @ [0x7E])
              | None \<Rightarrow>
                  (case key_number lower (ev_key e) of
                     None \<Rightarrow> []
                   | Some code \<Rightarrow>
                       if has_bits flags REPORT_ALL \<or> ev_key e = Escape \<or> mods AND 0x3E \<noteq> 0
                          \<or> (report_events \<and> ev_type e \<noteq> Press)
                       then (if silent then [] else csi_u code e flags)
                       else encode_legacy e app_cursor)))"

definition encode_key :: "(nat \<Rightarrow> nat) \<Rightarrow> KeyEvent \<Rightarrow> u8 \<Rightarrow> bool \<Rightarrow> bytes" where
  "encode_key lower e flags app_cursor =
     (if flags = 0 then encode_legacy e app_cursor else encode_kitty lower e flags app_cursor)"

section \<open>Reading a report\<close>

lemma decimal_eq_iff: "decimal m = decimal n \<longleftrightarrow> m = n"
  by (metis digits_value_decimal option.inject)

lemma split_intercalate: "\<forall>p \<in> set ps. c \<notin> set p \<Longrightarrow> ps \<noteq> [] \<Longrightarrow> split_all c (intercalate [c] ps) = ps"
proof (induction ps)
  case (Cons p ps)
  then show ?case by (cases ps) (simp_all add: split_all_none split_all_sep)
qed simp

text \<open>The final byte, the number where the final byte does not name the key, modifiers and event type.\<close>

definition report_fields :: "bytes \<Rightarrow> bytes list list" where
  "report_fields bs = map (split_all 0x3A) (split_all 0x3B (butlast (drop 2 bs)))"

definition report_key :: "bytes \<Rightarrow> u8 \<times> bytes" where
  "report_key bs = (last bs, if last bs = 0x75 \<or> last bs = 0x7E then hd (hd (report_fields bs)) else [])"

definition report_mods :: "bytes \<Rightarrow> bytes" where
  "report_mods bs = (let fs = report_fields bs in if length fs > 1 then hd (fs ! 1) else decimal 1)"

definition report_event :: "bytes \<Rightarrow> bytes" where
  "report_event bs = (let fs = report_fields bs in if length fs > 1 \<and> length (fs ! 1) > 1 then fs ! 1 ! 1 else decimal 1)"

definition event_part :: "KeyEventType \<Rightarrow> bytes" where
  "event_part t = (if t \<noteq> Press then 0x3A # decimal (event_num t) else [])"

definition mods_part :: "KeyEvent \<Rightarrow> bytes" where
  "mods_part e = decimal (unat (mod_value (ev_mods e))) @ event_part (ev_type e)"

lemma split_mods_part: "split_all 0x3A (mods_part e) =
    decimal (unat (mod_value (ev_mods e))) # (if ev_type e \<noteq> Press then [decimal (event_num (ev_type e))] else [])"
proof -
  have "0x3A \<notin> set (decimal n)" for n using decimal_plain [of "0x3A" n] by auto
  then show ?thesis by (simp add: mods_part_def event_part_def split_all_sep split_all_none)
qed

text \<open>Reports with one field, or with the modifiers in the second one.\<close>

lemma read_report:
  assumes "0x3B \<notin> set p" "\<forall>q \<in> set ps. 0x3B \<notin> set q" "bs = [0x1B, lead] @ intercalate [0x3B] (p # ps) @ [final]"
  shows "last bs = final" "report_fields bs = map (split_all 0x3A) (p # ps)"
  using split_intercalate [of "p # ps" "0x3B"] assms by (simp_all add: report_fields_def butlast_append)

lemma mods_part_plain: "0x3B \<notin> set (mods_part e)"
  by (auto simp: mods_part_def event_part_def)

lemma read_modified:
  assumes "0x3B \<notin> set p" "\<forall>q \<in> set ps. 0x3B \<notin> set q" "bs = [0x1B, lead] @ intercalate [0x3B] (p # mods_part e # ps) @ [final]"
  shows "report_key bs = (final, if final = 0x75 \<or> final = 0x7E then hd (split_all 0x3A p) else [])"
    "report_mods bs = decimal (unat (mod_value (ev_mods e)))" "report_event bs = decimal (event_num (ev_type e))"
proof -
  have f: "last bs = final" "report_fields bs = map (split_all 0x3A) (p # mods_part e # ps)"
    using read_report [OF assms(1) _ assms(3)] assms(2) mods_part_plain by auto
  show "report_key bs = (final, if final = 0x75 \<or> final = 0x7E then hd (split_all 0x3A p) else [])" by (simp add: report_key_def f)
  show "report_mods bs = decimal (unat (mod_value (ev_mods e)))" by (simp add: report_mods_def f split_mods_part)
  show "report_event bs = decimal (event_num (ev_type e))" by (simp add: report_event_def f split_mods_part event_num_def)
qed

lemma read_bare:
  assumes "0x3B \<notin> set p" "bs = [0x1B, lead] @ p @ [final]"
  shows "report_key bs = (final, if final = 0x75 \<or> final = 0x7E then hd (split_all 0x3A p) else [])"
    "report_mods bs = decimal 1" "report_event bs = decimal 1"
proof -
  have f: "last bs = final" "report_fields bs = map (split_all 0x3A) [p]"
    using read_report [of p "[]" bs lead final] assms by auto
  show "report_key bs = (final, if final = 0x75 \<or> final = 0x7E then hd (split_all 0x3A p) else [])" by (simp add: report_key_def f)
  show "report_mods bs = decimal 1" "report_event bs = decimal 1" by (simp_all add: report_mods_def report_event_def f)
qed

section \<open>Full reports are unambiguous\<close>

definition key_name :: "(nat \<Rightarrow> nat) \<Rightarrow> KeyCode \<Rightarrow> u8 \<times> bytes" where
  "key_name lower key =
     (case letter_key key of
        Some (letter, _) \<Rightarrow> (letter, [])
      | None \<Rightarrow> (case tilde_key key of Some n \<Rightarrow> (0x7E, decimal n) | None \<Rightarrow> (0x75, decimal (the (key_number lower key)))))"

definition reportable :: "(nat \<Rightarrow> nat) \<Rightarrow> KeyCode \<Rightarrow> bool" where
  "reportable lower key \<longleftrightarrow>
     (case key of CharKey c \<Rightarrow> lower c = c \<and> c \<notin> {9, 13, 27, 127} | F n \<Rightarrow> n \<in> {1, 2, 3, 4, 5, 6, 7, 8, 9, 10, 11, 12} | _ \<Rightarrow> True)"

definition named_key :: "u8 \<times> bytes \<Rightarrow> KeyCode" where
  "named_key r =
     (let (final, ds) = r
      in if final = 0x41 then Up else if final = 0x42 then Down else if final = 0x43 then Right else if final = 0x44 then Left
         else if final = 0x48 then Home else if final = 0x46 then End else if final = 0x50 then F 1 else if final = 0x51 then F 2
         else if final = 0x52 then F 3 else if final = 0x53 then F 4
         else if final = 0x7E
         then (if ds = decimal 2 then Insert else if ds = decimal 3 then Delete else if ds = decimal 5 then PageUp
               else if ds = decimal 6 then PageDown else if ds = decimal 15 then F 5 else if ds = decimal 17 then F 6
               else if ds = decimal 18 then F 7 else if ds = decimal 19 then F 8 else if ds = decimal 20 then F 9
               else if ds = decimal 21 then F 10 else if ds = decimal 23 then F 11 else F 12)
         else if ds = decimal 27 then Escape else if ds = decimal 13 then Enter else if ds = decimal 9 then Tab
         else if ds = decimal 127 then Backspace else CharKey (the (Graphics.digits_value ds)))"

lemma named_key_name: "reportable lower key \<Longrightarrow> named_key (key_name lower key) = key"
proof (cases key)
  case (F n)
  assume "reportable lower key"
  then have "n \<in> {1, 2, 3, 4, 5, 6, 7, 8, 9, 10, 11, 12}" by (simp add: reportable_def F)
  then show ?thesis by (auto simp: F named_key_def key_name_def letter_key_def tilde_key_def decimal_eq_iff)
qed (simp_all add: named_key_def key_name_def letter_key_def tilde_key_def key_number_def decimal_eq_iff digits_value_decimal reportable_def)

lemma mod_value_eq: "unat (mod_value m) = unat m + 1"
proof -
  have "unat m < 256" using unsigned_less [of m, where 'a = nat] by simp
  then show ?thesis by (simp add: mod_value_def unat_add_lem [THEN iffD1] unsigned_ucast_eq take_bit_nat_eq_self)
qed

lemma csi_form_events:
  assumes "has_bits flags REPORT_EVENTS"
  shows "csi_form n (ev_mods e) (ev_type e) flags final
    = (if ev_mods e = 0 \<and> ev_type e = Press then None else Some ([0x1B, 0x5B] @ intercalate [0x3B] [n, mods_part e] @ [final]))"
  using assms by (auto simp: csi_form_def mods_part_def event_part_def Let_def)

lemma bare_defaults:
  assumes "ev_mods e = 0 \<and> ev_type e = Press"
  shows "decimal 1 = decimal (unat (mod_value (ev_mods e)))" "decimal 1 = decimal (event_num (ev_type e))"
  using assms by (simp_all add: mod_value_eq event_num_def)

lemma decimal_single: "hd (split_all 0x3A (decimal n)) = decimal n"
proof -
  have "0x3A \<notin> set (decimal n)" using decimal_plain [of "0x3A" n] by auto
  then show ?thesis by (simp add: split_all_none)
qed

lemma read_form:
  fixes e :: KeyEvent
  assumes "has_bits flags REPORT_EVENTS" "0x3B \<notin> set n" "final \<noteq> 0x75"
    and "bs = (case csi_form n (ev_mods e) (ev_type e) flags final of Some bs \<Rightarrow> bs | None \<Rightarrow> [0x1B, lead] @ n' @ [final])"
    and "n' = (if final = 0x7E then n else [])"
  shows "report_key bs = (final, if final = 0x7E then hd (split_all 0x3A n) else [])"
    "report_mods bs = decimal (unat (mod_value (ev_mods e)))" "report_event bs = decimal (event_num (ev_type e))"
proof (atomize (full), cases "ev_mods e = 0 \<and> ev_type e = Press")
  case True
  have "csi_form n (ev_mods e) (ev_type e) flags final = None" unfolding csi_form_events [OF assms(1)] using True by (rule if_P)
  from assms(4) [unfolded this] have "bs = [0x1B, lead] @ n' @ [final]" by simp
  moreover have "0x3B \<notin> set n'" using assms(2,5) by simp
  ultimately show "report_key bs = (final, if final = 0x7E then hd (split_all 0x3A n) else [])
      \<and> report_mods bs = decimal (unat (mod_value (ev_mods e))) \<and> report_event bs = decimal (event_num (ev_type e))"
    using read_bare [of n' bs lead final] bare_defaults [OF True] assms(3,5) by simp
next
  case False
  then have "bs = [0x1B, 0x5B] @ intercalate [0x3B] (n # mods_part e # []) @ [final]" using assms(4) by (auto simp: csi_form_events [OF assms(1)])
  from read_modified [OF assms(2) _ this] show "report_key bs = (final, if final = 0x7E then hd (split_all 0x3A n) else [])
      \<and> report_mods bs = decimal (unat (mod_value (ev_mods e))) \<and> report_event bs = decimal (event_num (ev_type e))"
    using assms(3) by simp
qed

lemma read_csi_u:
  assumes "has_bits flags REPORT_EVENTS"
  shows "report_key (csi_u code e flags) = (0x75, decimal code)"
    "report_mods (csi_u code e flags) = decimal (unat (mod_value (ev_mods e)))" "report_event (csi_u code e flags) = decimal (event_num (ev_type e))"
proof (atomize (full))
  obtain alternate where a: "alternate = (case ev_key e of
              CharKey c \<Rightarrow> if has_bits flags REPORT_ALTERNATE \<and> has_bits (ev_mods e) SHIFT \<and> shifted_char c \<noteq> code then Some (shifted_char c) else None
            | _ \<Rightarrow> None)" by simp
  obtain tx where t: "tx = (case ev_key e of
              CharKey c \<Rightarrow>
                if has_bits flags REPORT_TEXT \<and> ev_type e \<noteq> Release \<and> \<not> has_bits (ev_mods e) CTRL \<and> \<not> has_bits (ev_mods e) ALT
                then Some (if has_bits (ev_mods e) SHIFT then shifted_char c else c) else None
            | _ \<Rightarrow> None)" by simp
  let ?p = "decimal code @ (case alternate of None \<Rightarrow> [] | Some a \<Rightarrow> 0x3A # decimal a)"
  let ?ps = "case tx of None \<Rightarrow> [] | Some t \<Rightarrow> [decimal t]"
  have p: "0x3B \<notin> set ?p" "\<forall>q \<in> set ?ps. 0x3B \<notin> set q" by (auto split: option.split)
  have d: "0x3A \<notin> set (decimal n)" for n using decimal_plain [of "0x3A" n] by auto
  have hd: "hd (split_all 0x3A ?p) = decimal code" by (auto simp: split_all_sep split_all_none d split: option.split)
  have u: "csi_u code e flags = (if ev_mods e = 0 \<and> ev_type e = Press \<and> tx = None then [0x1B, 0x5B] @ ?p @ [0x75]
      else [0x1B, 0x5B] @ intercalate [0x3B] (?p # mods_part e # ?ps) @ [0x75])"
    using assms unfolding csi_u_def Let_def a [symmetric] t [symmetric]
    by (auto simp: mods_part_def event_part_def split: option.split)
  show "report_key (csi_u code e flags) = (0x75, decimal code) \<and> report_mods (csi_u code e flags) = decimal (unat (mod_value (ev_mods e)))
      \<and> report_event (csi_u code e flags) = decimal (event_num (ev_type e))"
  proof (cases "ev_mods e = 0 \<and> ev_type e = Press \<and> tx = None")
    case True
    then have "csi_u code e flags = [0x1B, 0x5B] @ ?p @ [0x75]" unfolding u by simp
    from read_bare [OF p(1) this] show ?thesis using bare_defaults [of e] True hd by simp
  next
    case False
    then have "csi_u code e flags = [0x1B, 0x5B] @ intercalate [0x3B] (?p # mods_part e # ?ps) @ [0x75]" unfolding u by (rule if_not_P)
    from read_modified [OF p this] show ?thesis using hd by simp
  qed
qed

lemma letter_finals: "letter_key key = Some (letter, ss3) \<Longrightarrow> letter \<noteq> 0x75 \<and> letter \<noteq> 0x7E"
  by (auto simp: letter_key_def split: KeyCode.splits if_splits)

lemma full_report:
  assumes "has_bits flags REPORT_ALL" "has_bits flags REPORT_EVENTS" "reportable lower (ev_key e)" "bs = encode_key lower e flags app"
  shows "report_key bs = key_name lower (ev_key e) \<and> report_mods bs = decimal (unat (mod_value (ev_mods e)))
    \<and> report_event bs = decimal (event_num (ev_type e))"
proof -
  have "flags \<noteq> 0" using assms(1) by (auto simp: has_bits_def key_bits)
  then have bs: "bs = encode_kitty lower e flags app" using assms(4) by (simp add: encode_key_def)
  show ?thesis
  proof (cases "letter_key (ev_key e)")
    case (Some l)
    obtain letter ss3 where l: "l = (letter, ss3)" by (cases l)
    have "bs = (case csi_form [0x31] (ev_mods e) (ev_type e) flags letter of Some bs \<Rightarrow> bs
        | None \<Rightarrow> [0x1B, if ss3 then 0x5B else 0x4F] @ [] @ [letter])"
      using assms(2) by (simp add: bs encode_kitty_def Some l split: option.split)
    from read_form [OF assms(2) _ _ this] letter_finals [of "ev_key e" letter ss3] show ?thesis by (simp add: Some l key_name_def)
  next
    case L: None
    show ?thesis
    proof (cases "tilde_key (ev_key e)")
      case (Some n)
      have "bs = (case csi_form (decimal n) (ev_mods e) (ev_type e) flags 0x7E of Some bs \<Rightarrow> bs | None \<Rightarrow> [0x1B, 0x5B] @ decimal n @ [0x7E])"
        using assms(2) by (simp add: bs encode_kitty_def L Some)
      from read_form [OF assms(2) _ _ this] show ?thesis by (simp add: L Some key_name_def decimal_single)
    next
      case None
      have "key_number lower (ev_key e) \<noteq> None"
        using L None assms(3) by (cases "ev_key e") (auto simp: key_number_def letter_key_def tilde_key_def reportable_def)
      then obtain code where c: "key_number lower (ev_key e) = Some code" by blast
      have "bs = csi_u code e flags" using assms(1,2) by (simp add: bs encode_kitty_def L None c)
      then show ?thesis using read_csi_u [OF assms(2), of code e] by (simp add: L None c key_name_def)
    qed
  qed
qed

theorem full_reports_distinct:
  assumes "has_bits flags REPORT_ALL" "has_bits flags REPORT_EVENTS" "reportable lower (ev_key e1)" "reportable lower (ev_key e2)"
    and "encode_key lower e1 flags app1 = encode_key lower e2 flags app2"
  shows "e1 = e2"
proof -
  note r = full_report [OF assms(1,2,3) refl, of app1] full_report [OF assms(1,2,4) refl, of app2]
  have "key_name lower (ev_key e1) = key_name lower (ev_key e2)" using r assms(5) by metis
  then have "ev_key e1 = ev_key e2" using named_key_name assms(3,4) by metis
  moreover have "unat (ev_mods e1) + 1 = unat (ev_mods e2) + 1" using r assms(5) by (metis decimal_eq_iff mod_value_eq)
  then have "ev_mods e1 = ev_mods e2" by (simp add: word_unat_eq_iff)
  moreover have "event_num (ev_type e1) = event_num (ev_type e2)" using r assms(5) by (metis decimal_eq_iff)
  then have "ev_type e1 = ev_type e2" by (simp add: event_num_def split: KeyEventType.splits)
  ultimately show ?thesis by (cases e1, cases e2) simp
qed

section \<open>The detach key\<close>

definition ctrl_backslash :: "u8 \<Rightarrow> KeyEvent" where
  "ctrl_backslash locks = \<lparr>ev_key = CharKey 0x5C, ev_mods = CTRL OR locks, ev_type = Press\<rparr>"

text \<open>Without the event reports.\<close>

theorem detach_key_recognised:
  assumes "lower 0x5C = 0x5C"
  shows "detach_feed \<lparr>carry = []\<rparr> (encode_key lower (ctrl_backslash 0) flags app) = (\<lparr>carry = []\<rparr>, [], True)"
proof (cases "flags = 0")
  case True
  then show ?thesis
    by (simp add: encode_key_def encode_legacy_def ctrl_backslash_def letter_key_def tilde_key_def ctrl_byte_def has_bits_def key_bits detach_feed_def)
next
  case False
  have "encode_key lower (ctrl_backslash 0) flags app = [0x1B, 0x5B] @ decimal 92 @ [0x3B] @ decimal 5 @ [0x75]"
    using False assms by (simp add: encode_key_def encode_kitty_def ctrl_backslash_def letter_key_def tilde_key_def key_number_def csi_u_def mod_value_def
        has_bits_def key_bits Let_def)
  moreover have "decimal 92 = [57, 50]" "decimal 5 = [53]" by (simp_all add: decimal.simps as_u8_def)
  ultimately show ?thesis by (simp add: detach_feed_def match_kitty_detach_def KITTY_DETACH_SEQS_def)
qed

text \<open>With caps lock on the report is not one of the two the matcher knows.\<close>

theorem caps_lock_hides_detach:
  assumes "lower 0x5C = 0x5C" "flags \<noteq> 0"
  shows "detach_feed \<lparr>carry = []\<rparr> (encode_key lower (ctrl_backslash CAPS_LOCK) flags app)
    = (\<lparr>carry = []\<rparr>, [0x1B, 0x5B, 57, 50, 0x3B, 54, 57, 0x75], False)"
proof -
  have "encode_key lower (ctrl_backslash CAPS_LOCK) flags app = [0x1B, 0x5B] @ decimal 92 @ [0x3B] @ decimal 69 @ [0x75]"
    using assms by (simp add: encode_key_def encode_kitty_def ctrl_backslash_def letter_key_def tilde_key_def key_number_def csi_u_def mod_value_def
        has_bits_def key_bits Let_def)
  moreover have "decimal 92 = [57, 50]" "decimal 69 = [54, 57]" by (simp_all add: decimal.simps as_u8_def)
  ultimately show ?thesis by (simp add: detach_feed_def match_kitty_detach_def KITTY_DETACH_SEQS_def)
qed

end
