(* ===== verification/Mouse_Encoder.thy ===== *)
theory Mouse_Encoder
  imports Key_Encoder
begin

text \<open>
  \<open>crates/posh-term/src/mouse.rs\<close>: the bytes a terminal sends to the application for a mouse event under a
  tracking mode and an encoding. Reports of different events differ in the SGR encoding, and the wheel filter
  of the client (\<open>Client_Input\<close>) reads its own wheel reports back.
\<close>

section \<open>Events\<close>

datatype MouseButton = LeftButton | MiddleButton | RightButton | NoButton | WheelUp | WheelDown | WheelLeft | WheelRight

datatype MouseEventKind = ButtonPress | ButtonRelease | Motion

record MouseEvent =
  me_button :: MouseButton
  me_kind :: MouseEventKind
  me_row :: u16
  me_col :: u16
  me_mods :: u8
  me_pixel :: "(u16 \<times> u16) option"

section \<open>Encoding\<close>

definition is_wheel :: "MouseButton \<Rightarrow> bool" where
  "is_wheel b \<longleftrightarrow> b = WheelUp \<or> b = WheelDown \<or> b = WheelLeft \<or> b = WheelRight"

definition reported :: "MouseEvent \<Rightarrow> MouseMode \<Rightarrow> bool" where
  "reported e mode \<longleftrightarrow>
     (case mode of
        NoMouse \<Rightarrow> False
      | X10 \<Rightarrow> me_kind e = ButtonPress
      | Normal \<Rightarrow> me_kind e \<noteq> Motion
      | ButtonEvent \<Rightarrow> \<not> (me_kind e = Motion \<and> me_button e = NoButton)
      | AnyEvent \<Rightarrow> True)
     \<and> \<not> (is_wheel (me_button e) \<and> me_kind e = ButtonRelease)"

definition button_code :: "MouseButton \<Rightarrow> u8" where
  "button_code b =
     (case b of LeftButton \<Rightarrow> 0 | MiddleButton \<Rightarrow> 1 | RightButton \<Rightarrow> 2 | NoButton \<Rightarrow> 3 | WheelUp \<Rightarrow> 64 | WheelDown \<Rightarrow> 65
        | WheelLeft \<Rightarrow> 66 | WheelRight \<Rightarrow> 67)"

definition event_code :: "MouseEvent \<Rightarrow> MouseMode \<Rightarrow> u8" where
  "event_code e mode =
     (let cb = button_code (me_button e) + (if me_kind e = Motion then 32 else 0)
      in if mode = X10 then cb
         else cb + (if has_bits (me_mods e) SHIFT then 4 else 0) + (if has_bits (me_mods e) ALT then 8 else 0)
              + (if has_bits (me_mods e) CTRL then 16 else 0))"

definition sgr_report :: "u8 \<Rightarrow> nat \<Rightarrow> nat \<Rightarrow> MouseEventKind \<Rightarrow> bytes" where
  "sgr_report cb x y kind =
     [0x1B, 0x5B, 0x3C] @ decimal (unat cb) @ [0x3B] @ decimal x @ [0x3B] @ decimal y @ [if kind = ButtonRelease then 0x6D else 0x4D]"

definition legacy_coord :: "MouseProtocol \<Rightarrow> u16 \<Rightarrow> bytes" where
  "legacy_coord protocol v =
     (let coord = 33 + min (unat v) (if protocol = Utf8Protocol then 2014 else 222)
      in if protocol = Utf8Protocol \<and> coord > 127 then utf8_encode coord else [word_of_nat coord])"

definition legacy_report :: "MouseProtocol \<Rightarrow> u8 \<Rightarrow> MouseEvent \<Rightarrow> bytes" where
  "legacy_report protocol cb e =
     (let cb' = (if me_kind e = ButtonRelease then (cb AND NOT 3) OR 3 else cb)
      in [0x1B, 0x5B, 0x4D, 32 + cb'] @ legacy_coord protocol (me_col e) @ legacy_coord protocol (me_row e))"

definition encode_mouse :: "MouseEvent \<Rightarrow> MouseMode \<Rightarrow> MouseProtocol \<Rightarrow> bytes option" where
  "encode_mouse e mode protocol =
     (if \<not> reported e mode then None
      else let cb = event_code e mode
           in Some (case protocol of
                Sgr \<Rightarrow> sgr_report cb (unat (me_col e) + 1) (unat (me_row e) + 1) (me_kind e)
              | SgrPixel \<Rightarrow>
                  let (px, py) = (case me_pixel e of Some (x, y) \<Rightarrow> (unat x, unat y) | None \<Rightarrow> (unat (me_col e) * 10, unat (me_row e) * 20))
                  in sgr_report cb (px + 1) (py + 1) (me_kind e)
              | _ \<Rightarrow> legacy_report protocol cb e))"

section \<open>The sums stay in a byte\<close>

lemma event_code_bound: "unat (event_code e mode) \<le> 127"
  by (cases "me_button e") (simp_all add: event_code_def button_code_def Let_def)

lemma legacy_coord_bytes: "length (legacy_coord protocol v) \<le> 2"
proof -
  have "33 + min (unat v) 2014 < 2048" by simp
  then have "length (utf8_encode (33 + min (unat v) 2014)) \<le> 2" unfolding utf8_encode_def by (simp only: if_True split: if_split) simp
  then show ?thesis by (simp add: legacy_coord_def Let_def)
qed

text \<open>The bytes of the single-byte encoding are printable, and the button byte does not wrap.\<close>

lemma coord_byte: "unat (word_of_nat (33 + min n 222) :: u8) = 33 + min n 222"
proof -
  have "33 + min n 222 < 2 ^ LENGTH(8)" by simp
  then show ?thesis by (simp only: unat_of_nat) simp
qed

lemma legacy_bytes:
  "legacy_report NormalProtocol cb e = [0x1B, 0x5B, 0x4D, 32 + (if me_kind e = ButtonRelease then (cb AND NOT 3) OR 3 else cb),
     word_of_nat (33 + min (unat (me_col e)) 222), word_of_nat (33 + min (unat (me_row e)) 222)]"
  by (simp add: legacy_report_def legacy_coord_def Let_def)

section \<open>SGR reports are unambiguous\<close>

lemma sgr_fields:
  "split_all 0x3B (butlast (drop 3 (sgr_report cb x y kind))) = [decimal (unat cb), decimal x, decimal y]"
  "last (sgr_report cb x y kind) = (if kind = ButtonRelease then 0x6D else 0x4D)"
  using split_intercalate [of "[decimal (unat cb), decimal x, decimal y]" "0x3B"]
  by (simp_all add: sgr_report_def butlast_append)

lemma sgr_report_eq:
  assumes "sgr_report cb x y kind = sgr_report cb' x' y' kind'"
  shows "cb = cb' \<and> x = x' \<and> y = y' \<and> (kind = ButtonRelease \<longleftrightarrow> kind' = ButtonRelease)"
proof -
  have "[decimal (unat cb), decimal x, decimal y] = [decimal (unat cb'), decimal x', decimal y']" using assms sgr_fields(1) by metis
  moreover have "(if kind = ButtonRelease then 0x6D else 0x4D :: u8) = (if kind' = ButtonRelease then 0x6D else 0x4D)" using assms sgr_fields(2) by metis
  ultimately show ?thesis by (simp add: decimal_eq_iff word_unat_eq_iff split: if_splits)
qed

definition bit_of :: "bool \<Rightarrow> nat" where
  "bit_of b = (if b then 1 else 0)"

definition button_low :: "MouseButton \<Rightarrow> nat" where
  "button_low b = (case b of LeftButton \<Rightarrow> 0 | MiddleButton \<Rightarrow> 1 | RightButton \<Rightarrow> 2 | NoButton \<Rightarrow> 3 | WheelUp \<Rightarrow> 0 | WheelDown \<Rightarrow> 1
     | WheelLeft \<Rightarrow> 2 | WheelRight \<Rightarrow> 3)"

lemma event_code_sum:
  assumes "mode \<noteq> X10"
  shows "unat (event_code e mode) = button_low (me_button e) + 4 * (bit_of (has_bits (me_mods e) SHIFT) + 2 * (bit_of (has_bits (me_mods e) ALT)
    + 2 * (bit_of (has_bits (me_mods e) CTRL) + 2 * (bit_of (me_kind e = Motion) + 2 * bit_of (is_wheel (me_button e))))))"
  using assms by (cases "me_button e") (simp_all add: event_code_def button_code_def Let_def bit_of_def button_low_def is_wheel_def)

lemma low_digit:
  fixes x y d :: nat
  assumes "x + d * y = x' + d * y'" "x < d" "x' < d"
  shows "x = x' \<and> y = y'"
proof -
  have x: "x = x'" using arg_cong [OF assms(1), of "\<lambda>n. n mod d"] assms(2,3) by simp
  then have "d * y = d * y'" using assms(1) by simp
  then show ?thesis using x assms(2) by auto
qed

lemma bit_of_eq:
  assumes "bit_of a + 2 * y = bit_of b + 2 * y'"
  shows "(a \<longleftrightarrow> b) \<and> y = y'"
proof -
  have "bit_of a = bit_of b \<and> y = y'" by (rule low_digit [OF assms]) (simp_all add: bit_of_def)
  then show ?thesis by (cases a; cases b) (simp_all add: bit_of_def)
qed

lemma button_split: "button_low b = button_low b' \<Longrightarrow> (is_wheel b \<longleftrightarrow> is_wheel b') \<Longrightarrow> b = b'"
  by (cases b; cases b') (simp_all add: button_low_def is_wheel_def)

lemma event_code_eq:
  assumes "event_code e mode = event_code e' mode" "mode \<noteq> X10"
  shows "me_button e = me_button e' \<and> (me_kind e = Motion \<longleftrightarrow> me_kind e' = Motion)
    \<and> (\<forall>m \<in> {SHIFT, ALT, CTRL}. has_bits (me_mods e) m \<longleftrightarrow> has_bits (me_mods e') m)"
proof -
  have low: "button_low b < 4" for b by (cases b) (simp_all add: button_low_def)
  note s = event_code_sum [OF assms(2), of e, symmetric] event_code_sum [OF assms(2), of e', folded assms(1)]
  note 1 = low_digit [OF trans [OF s] low low]
  note 2 = bit_of_eq [OF conjunct2 [OF 1]]
  note 3 = bit_of_eq [OF conjunct2 [OF 2]]
  note 4 = bit_of_eq [OF conjunct2 [OF 3]]
  note 5 = bit_of_eq [OF conjunct2 [OF 4]]
  have "is_wheel (me_button e) \<longleftrightarrow> is_wheel (me_button e')" using 5 by (simp add: bit_of_def split: if_splits)
  then have "me_button e = me_button e'" using 1 by (intro button_split) simp_all
  then show ?thesis using 2 3 4 5 by simp
qed

theorem sgr_reports_distinct:
  assumes "encode_mouse e mode Sgr = Some bs" "encode_mouse e' mode Sgr = Some bs" "mode \<noteq> X10"
  shows "me_button e = me_button e' \<and> me_kind e = me_kind e' \<and> me_row e = me_row e' \<and> me_col e = me_col e'
    \<and> (\<forall>m \<in> {SHIFT, ALT, CTRL}. has_bits (me_mods e) m \<longleftrightarrow> has_bits (me_mods e') m)"
proof -
  have "sgr_report (event_code e mode) (unat (me_col e) + 1) (unat (me_row e) + 1) (me_kind e)
      = sgr_report (event_code e' mode) (unat (me_col e') + 1) (unat (me_row e') + 1) (me_kind e')"
    using assms by (auto simp: encode_mouse_def Let_def split: if_splits)
  from sgr_report_eq [OF this] have r: "event_code e mode = event_code e' mode" "me_col e = me_col e'" "me_row e = me_row e'"
    "me_kind e = ButtonRelease \<longleftrightarrow> me_kind e' = ButtonRelease" by (auto simp: word_unat_eq_iff)
  moreover have "me_kind e = me_kind e'" using event_code_eq [OF r(1) assms(3)] r(4) by (cases "me_kind e"; cases "me_kind e'") auto
  ultimately show ?thesis using event_code_eq [OF r(1) assms(3)] by blast
qed

section \<open>The wheel filter of the client\<close>

lemma digits_are_digits: "b \<in> set (decimal n) \<Longrightarrow> is_digit b"
  using decimal_plain [of b n] by (simp add: is_digit_def)

lemma body_step:
  assumes "\<forall>b \<in> set body. is_digit b \<or> b = 59" "length pre + length body \<le> MAX_MOUSE_SEQ"
  shows "foldl (\<lambda>s b. mouse_step k b s) (\<lparr>mf_state = Body, mf_pending = pre\<rparr>, out) body = (\<lparr>mf_state = Body, mf_pending = pre @ body\<rparr>, out)"
  using assms
proof (induction body arbitrary: pre)
  case (Cons b body)
  have b: "is_digit b \<or> b = 59" "b \<noteq> 77" "b \<noteq> 109" using Cons.prems(1) by (auto simp: is_digit_def)
  then have "mouse_step k b (\<lparr>mf_state = Body, mf_pending = pre\<rparr>, out) = (\<lparr>mf_state = Body, mf_pending = pre @ [b]\<rparr>, out)"
    using Cons.prems(2) by (auto simp: mouse_step_def Let_def)
  then show ?case using Cons.IH [of "pre @ [b]"] Cons.prems by simp
qed simp

lemma decimal_length: "n < 10 ^ Suc m \<Longrightarrow> length (decimal n) \<le> Suc m"
proof (induction m arbitrary: n)
  case 0
  then show ?case by (subst decimal.simps) simp
next
  case (Suc m)
  have "n div 10 < 10 ^ Suc m" using Suc.prems by (simp add: div_less_iff_less_mult mult.commute)
  then show ?case using Suc.IH [of "n div 10"] by (subst decimal.simps) simp
qed

lemma filter_reads_report:
  assumes "x < 100000" "y < 100000"
  shows "mouse_feed k (sgr_report cb x y kind) mouse_filter_new
    = (mouse_filter_new, mouse_translate k (decimal (unat cb) @ [0x3B] @ decimal x @ [0x3B] @ decimal y))"
proof -
  let ?body = "decimal (unat cb) @ [0x3B] @ decimal x @ [0x3B] @ decimal y"
  have "unat cb < 10 ^ Suc 2" using unsigned_less [of cb, where 'a = nat] by simp
  then have "length (decimal (unat cb)) \<le> 3" using decimal_length [of "unat cb" 2] by simp
  moreover have "length (decimal x) \<le> 5" "length (decimal y) \<le> 5" using decimal_length [of _ 4] assms by simp_all
  ultimately have len: "length [0x1B, 0x5B, 0x3C :: u8] + length ?body \<le> MAX_MOUSE_SEQ" by (simp add: MAX_MOUSE_SEQ_def)
  have start: "foldl (\<lambda>s b. mouse_step k b s) (mouse_filter_new, []) [0x1B, 0x5B, 0x3C] = (\<lparr>mf_state = Body, mf_pending = [0x1B, 0x5B, 0x3C]\<rparr>, [])"
    by (simp add: mouse_filter_new_def mouse_step_def ground_step_def)
  have body: "foldl (\<lambda>s b. mouse_step k b s) (\<lparr>mf_state = Body, mf_pending = [0x1B, 0x5B, 0x3C]\<rparr>, []) ?body
      = (\<lparr>mf_state = Body, mf_pending = [0x1B, 0x5B, 0x3C] @ ?body\<rparr>, [])"
    by (rule body_step [OF _ len]) (auto simp: digits_are_digits)
  have "mouse_feed k (sgr_report cb x y kind) mouse_filter_new
      = foldl (\<lambda>s b. mouse_step k b s) (foldl (\<lambda>s b. mouse_step k b s) (foldl (\<lambda>s b. mouse_step k b s) (mouse_filter_new, []) [0x1B, 0x5B, 0x3C]) ?body)
          [if kind = ButtonRelease then 0x6D else 0x4D]"
    unfolding mouse_feed_def sgr_report_def by simp
  also have "\<dots> = (mouse_filter_new, mouse_translate k ?body)"
    unfolding start body by (simp add: mouse_step_def mouse_filter_new_def Let_def)
  finally show ?thesis .
qed

lemma parse_decimal_u32: "n < 2 ^ 32 \<Longrightarrow> parse_u32 (decimal n) = Some n"
proof -
  assume n: "n < 2 ^ 32"
  have digit: "unat (as_u8 (48 + d)) - 48 = d" if "d < 10" for d
  proof -
    show ?thesis using that by (simp add: unat_as_u8)
  qed
  have "Client_Input.digits_value (decimal n) = n" for n
  proof (induction n rule: decimal.induct)
    case (1 n)
    show ?case using 1 by (subst decimal.simps) (auto simp: Client_Input.digits_value_def digit)
  qed
  then show ?thesis using n decimal_digits [of n] digits_are_digits [of _ n] by (auto simp: parse_u32_def list_all_iff)
qed

text \<open>A wheel report without modifiers becomes an arrow key; with one it is dropped.\<close>

theorem wheel_becomes_arrow:
  assumes "mode \<in> {Normal, ButtonEvent, AnyEvent}" "me_kind e = ButtonPress" "me_button e = WheelUp \<or> me_button e = WheelDown"
    and "me_mods e AND 7 = 0"
  shows "\<exists>bs. encode_mouse e mode Sgr = Some bs
    \<and> mouse_feed k bs mouse_filter_new = (mouse_filter_new, if me_button e = WheelUp then arrow_up k else arrow_down k)"
proof -
  have sub: "me_mods e AND b = (me_mods e AND 7) AND b" if "7 AND b = b" for b using that by (simp add: and.assoc)
  have m: "\<not> has_bits (me_mods e) SHIFT" "\<not> has_bits (me_mods e) ALT" "\<not> has_bits (me_mods e) CTRL"
    using sub [of 1] sub [of 2] sub [of 4] assms(4) by (auto simp: has_bits_def key_bits)
  have code: "event_code e mode = (if me_button e = WheelUp then 64 else 65)"
    using assms(1-3) m by (auto simp: event_code_def button_code_def Let_def)
  have "encode_mouse e mode Sgr = Some (sgr_report (event_code e mode) (unat (me_col e) + 1) (unat (me_row e) + 1) (me_kind e))"
    using assms(1-3) by (auto simp: encode_mouse_def reported_def Let_def)
  moreover have "unat (me_col e) + 1 < 100000" "unat (me_row e) + 1 < 100000"
    using unsigned_less [of "me_col e", where 'a = nat] unsigned_less [of "me_row e", where 'a = nat] by simp_all
  note filter_reads_report [OF this, of k "event_code e mode" "me_kind e"]
  moreover have "hd (split_on 59 (decimal n @ [0x3B] @ rest)) = decimal n" for n rest
    by (simp add: split_on_append)
  ultimately show ?thesis using assms(3) by (auto simp: mouse_translate_def parse_decimal_u32 code)
qed

end
