(* ===== verification/Json.thy ===== *)
theory Json
  imports Inflate Utf8
begin

text \<open>
  \<open>crates/posh-rec/src/json.rs\<close>: the JSON reader of recordings. The cursor of the code is the rest of the
  input; error messages are constructors, without the byte positions some of them print. Floating point
  numbers are a type argument with their reader \<open>f64\<close> and the projection to 16 bits \<open>int16\<close> as function
  arguments. The recursion descends with a fuel, \<open>Stops\<close> where it runs out; that the fuel of \<open>parse\<close> never
  does is a theorem.
\<close>

section \<open>Values\<close>

datatype 'n Value = Null | Bool bool | Num 'n | Str bytes | Arr "'n Value list" | Obj "(bytes \<times> 'n Value) list"

definition as_str :: "'n Value \<Rightarrow> bytes option" where
  "as_str v = (case v of Str s \<Rightarrow> Some s | _ \<Rightarrow> None)"

definition as_f64 :: "'n Value \<Rightarrow> 'n option" where
  "as_f64 v = (case v of Num n \<Rightarrow> Some n | _ \<Rightarrow> None)"

definition as_u16 :: "('n \<Rightarrow> u16 option) \<Rightarrow> 'n Value \<Rightarrow> u16 option" where
  "as_u16 int16 v = (case v of Num n \<Rightarrow> int16 n | _ \<Rightarrow> None)"

definition as_array :: "'n Value \<Rightarrow> 'n Value list option" where
  "as_array v = (case v of Arr vs \<Rightarrow> Some vs | _ \<Rightarrow> None)"

definition get_field :: "'n Value \<Rightarrow> bytes \<Rightarrow> 'n Value option" where
  "get_field v key = (case v of Obj kvs \<Rightarrow> map_of kvs key | _ \<Rightarrow> None)"

section \<open>Strings\<close>

datatype JsonError = TrailingData | UnexpectedByte u8 | UnexpectedEnd | ExpectedKey | ExpectedColon bytes
  | ObjectSeparator "u8 option" | ArraySeparator "u8 option" | UnterminatedString | UnterminatedEscape | InvalidEscape u8
  | TruncatedU | InvalidHex u8 | InvalidUtf8 | InvalidNumber bytes | InvalidLiteral

type_synonym 'a parsed = "(JsonError, 'a \<times> bytes) outcome"

definition hex_digit :: "u8 \<Rightarrow> nat option" where
  "hex_digit b =
     (if 0x30 \<le> b \<and> b \<le> 0x39 then Some (unat b - 0x30)
      else if 0x61 \<le> b \<and> b \<le> 0x66 then Some (unat b - 0x61 + 10)
      else if 0x41 \<le> b \<and> b \<le> 0x46 then Some (unat b - 0x41 + 10)
      else None)"

fun hex_loop :: "nat \<Rightarrow> nat \<Rightarrow> bytes \<Rightarrow> nat parsed" where
  "hex_loop 0 v bs = Done (v, bs)"
| "hex_loop (Suc n) v [] = Fails TruncatedU"
| "hex_loop (Suc n) v (b # bs) = (case hex_digit b of None \<Rightarrow> Fails (InvalidHex b) | Some d \<Rightarrow> hex_loop n (v * 16 + d) bs)"

definition parse_hex4 :: "bytes \<Rightarrow> nat parsed" where
  "parse_hex4 bs = hex_loop 4 0 bs"

definition parse_unicode_escape :: "bytes \<Rightarrow> nat parsed" where
  "parse_unicode_escape bs =
     and_then (parse_hex4 bs) (\<lambda>(hi, bs1).
       if 0xD800 \<le> hi \<and> hi \<le> 0xDBFF
       then (if take 2 bs1 = [0x5C, 0x75]
             then and_then (parse_hex4 (drop 2 bs1)) (\<lambda>(lo, bs2).
                    if 0xDC00 \<le> lo \<and> lo \<le> 0xDFFF then Done (0x10000 + (hi - 0xD800) * 1024 + (lo - 0xDC00), bs2)
                    else Done (0xFFFD, bs2))
             else Done (0xFFFD, bs1))
       else if 0xDC00 \<le> hi \<and> hi \<le> 0xDFFF then Done (0xFFFD, bs1)
       else Done (hi, bs1))"

definition plain_escape :: "u8 \<Rightarrow> u8 option" where
  "plain_escape e =
     (if e = 0x22 \<or> e = 0x5C \<or> e = 0x2F then Some e
      else if e = 0x62 then Some 0x08 else if e = 0x66 then Some 0x0C else if e = 0x6E then Some 0x0A
      else if e = 0x72 then Some 0x0D else if e = 0x74 then Some 0x09 else None)"

lemma hex_loop_length: "hex_loop n v bs = Done (w, rest) \<Longrightarrow> length rest + n = length bs"
  by (induction n v bs rule: hex_loop.induct) (auto split: option.splits)

lemma unicode_escape_length: "parse_unicode_escape bs = Done (c, rest) \<Longrightarrow> length rest < length bs"
  by (auto simp: parse_unicode_escape_def parse_hex4_def and_then_Done split: if_splits dest!: hex_loop_length)

text \<open>From behind the opening quote; the characters so far.\<close>

function string_loop :: "bytes \<Rightarrow> bytes \<Rightarrow> bytes parsed" where
  "string_loop [] out = Fails UnterminatedString"
| "string_loop (b # bs) out =
     (if b = 0x22 then (if utf8_valid out then Done (out, bs) else Fails InvalidUtf8)
      else if b = 0x5C
      then (case bs of
              [] \<Rightarrow> Fails UnterminatedEscape
            | e # bs' \<Rightarrow>
                if e = 0x75 then and_then (parse_unicode_escape bs') (\<lambda>(c, rest). string_loop rest (out @ utf8_encode c))
                else (case plain_escape e of None \<Rightarrow> Fails (InvalidEscape e) | Some x \<Rightarrow> string_loop bs' (out @ [x])))
      else string_loop bs (out @ [b]))"
  by pat_completeness auto
termination
  by (relation "measure (\<lambda>(bs, out). length bs)") (auto dest!: unicode_escape_length)

definition parse_string :: "bytes \<Rightarrow> bytes parsed" where
  "parse_string bs = string_loop (drop 1 bs) []"

section \<open>The other values\<close>

definition is_ws :: "u8 \<Rightarrow> bool" where
  "is_ws b \<longleftrightarrow> b = 0x20 \<or> b = 0x09 \<or> b = 0x0A \<or> b = 0x0D"

definition skip_ws :: "bytes \<Rightarrow> bytes" where
  "skip_ws bs = dropWhile is_ws bs"

definition number_byte :: "u8 \<Rightarrow> bool" where
  "number_byte b \<longleftrightarrow> 0x30 \<le> b \<and> b \<le> 0x39 \<or> b = 0x2E \<or> b = 0x65 \<or> b = 0x45 \<or> b = 0x2B \<or> b = 0x2D"

definition parse_number :: "(bytes \<Rightarrow> 'n option) \<Rightarrow> bytes \<Rightarrow> 'n Value parsed" where
  "parse_number f64 bs =
     (let s = takeWhile number_byte bs
      in case f64 s of None \<Rightarrow> Fails (InvalidNumber s) | Some n \<Rightarrow> Done (Num n, dropWhile number_byte bs))"

definition starts :: "bytes \<Rightarrow> bytes \<Rightarrow> bool" where
  "starts bs lit \<longleftrightarrow> take (length lit) bs = lit"

definition parse_bool :: "bytes \<Rightarrow> 'n Value parsed" where
  "parse_bool bs =
     (if starts bs [0x74, 0x72, 0x75, 0x65] then Done (Bool True, drop 4 bs)
      else if starts bs [0x66, 0x61, 0x6C, 0x73, 0x65] then Done (Bool False, drop 5 bs)
      else Fails InvalidLiteral)"

definition parse_null :: "bytes \<Rightarrow> 'n Value parsed" where
  "parse_null bs = (if starts bs [0x6E, 0x75, 0x6C, 0x6C] then Done (Null, drop 4 bs) else Fails InvalidLiteral)"

definition peek :: "bytes \<Rightarrow> u8 option" where
  "peek bs = (case bs of [] \<Rightarrow> None | b # _ \<Rightarrow> Some b)"

fun parse_value :: "(bytes \<Rightarrow> 'n option) \<Rightarrow> nat \<Rightarrow> bytes \<Rightarrow> 'n Value parsed"
  and object_loop :: "(bytes \<Rightarrow> 'n option) \<Rightarrow> nat \<Rightarrow> bytes \<Rightarrow> (bytes \<times> 'n Value) list \<Rightarrow> 'n Value parsed"
  and array_loop :: "(bytes \<Rightarrow> 'n option) \<Rightarrow> nat \<Rightarrow> bytes \<Rightarrow> 'n Value list \<Rightarrow> 'n Value parsed" where
  "parse_value f64 0 bs = Stops"
| "parse_value f64 (Suc fuel) bs =
     (case bs of
        [] \<Rightarrow> Fails UnexpectedEnd
      | b # rest \<Rightarrow>
          if b = 0x7B then (if peek (skip_ws rest) = Some 0x7D then Done (Obj [], drop 1 (skip_ws rest)) else object_loop f64 fuel rest [])
          else if b = 0x5B then (if peek (skip_ws rest) = Some 0x5D then Done (Arr [], drop 1 (skip_ws rest)) else array_loop f64 fuel rest [])
          else if b = 0x22 then and_then (parse_string bs) (\<lambda>(s, rest). Done (Str s, rest))
          else if b = 0x74 \<or> b = 0x66 then parse_bool bs
          else if b = 0x6E then parse_null bs
          else if b = 0x2D \<or> 0x30 \<le> b \<and> b \<le> 0x39 then parse_number f64 bs
          else Fails (UnexpectedByte b))"
| "object_loop f64 0 bs out = Stops"
| "object_loop f64 (Suc fuel) bs out =
     (if peek (skip_ws bs) \<noteq> Some 0x22 then Fails ExpectedKey
      else and_then (parse_string (skip_ws bs)) (\<lambda>(key, bs1).
        if peek (skip_ws bs1) \<noteq> Some 0x3A then Fails (ExpectedColon key)
        else and_then (parse_value f64 fuel (skip_ws (drop 1 (skip_ws bs1)))) (\<lambda>(val, bs2).
          let out' = out @ [(key, val)]; sep = peek (skip_ws bs2); bs3 = drop 1 (skip_ws bs2)
          in if sep = Some 0x2C then object_loop f64 fuel bs3 out'
             else if sep = Some 0x7D then Done (Obj out', bs3)
             else Fails (ObjectSeparator sep))))"
| "array_loop f64 0 bs out = Stops"
| "array_loop f64 (Suc fuel) bs out =
     and_then (parse_value f64 fuel (skip_ws bs)) (\<lambda>(val, bs1).
       let out' = out @ [val]; sep = peek (skip_ws bs1); bs2 = drop 1 (skip_ws bs1)
       in if sep = Some 0x2C then array_loop f64 fuel bs2 out'
          else if sep = Some 0x5D then Done (Arr out', bs2)
          else Fails (ArraySeparator sep))"

definition json_parse :: "(bytes \<Rightarrow> 'n option) \<Rightarrow> bytes \<Rightarrow> (JsonError, 'n Value) outcome" where
  "json_parse f64 input =
     and_then (parse_value f64 (2 * length input + 1) (skip_ws input)) (\<lambda>(v, rest).
       if skip_ws rest \<noteq> [] then Fails TrailingData else Done v)"

section \<open>Reading ends\<close>

declare string_loop.simps(2) [simp del]

lemma string_loop_cases:
  obtains "string_loop (b # bs) out = (if utf8_valid out then Done (out, bs) else Fails InvalidUtf8)"
  | e where "string_loop (b # bs) out = Fails e"
  | bs' where "bs = 0x75 # bs'" "b = 0x5C"
      "string_loop (b # bs) out = and_then (parse_unicode_escape bs') (\<lambda>(c, rest). string_loop rest (out @ utf8_encode c))"
  | e bs' x where "bs = e # bs'" "b = 0x5C" "e \<noteq> 0x75" "plain_escape e = Some x" "string_loop (b # bs) out = string_loop bs' (out @ [x])"
  | "b \<noteq> 0x22" "b \<noteq> 0x5C" "string_loop (b # bs) out = string_loop bs (out @ [b])"
proof (cases "b = 0x22 \<or> b \<noteq> 0x5C")
  case True
  then show thesis using that(1,5) string_loop.simps(2) [of b bs out] by (cases "b = 0x22") auto
next
  case False
  show thesis
  proof (cases bs)
    case Nil
    then show thesis using that(2) False by (simp add: string_loop.simps(2))
  next
    case (Cons e bs')
    show thesis
    proof (cases "e = 0x75")
      case True
      then show thesis using that(3) False Cons by (simp add: string_loop.simps(2))
    next
      case e: False
      then show thesis using that(2,4) False Cons by (cases "plain_escape e") (simp_all add: string_loop.simps(2))
    qed
  qed
qed

lemma string_loop_shorter: "string_loop bs out = Done (s, rest) \<Longrightarrow> length rest < length bs"
proof (induction bs out rule: string_loop.induct)
  case (2 b bs out)
  show ?case
  proof (rule string_loop_cases [of b bs out])
    assume "string_loop (b # bs) out = (if utf8_valid out then Done (out, bs) else Fails InvalidUtf8)"
    then show ?thesis using 2(4) by (auto split: if_splits)
  next
    fix bs'
    assume a: "bs = 0x75 # bs'" "b = 0x5C"
      "string_loop (b # bs) out = and_then (parse_unicode_escape bs') (\<lambda>(c, rest). string_loop rest (out @ utf8_encode c))"
    then obtain c mid where c: "parse_unicode_escape bs' = Done (c, mid)" "string_loop mid (out @ utf8_encode c) = Done (s, rest)"
      using 2(4) by (auto simp: and_then_Done)
    have "length rest < length mid" using 2(1) [OF _ _ a(1) _ c(1)] c a by simp
    then show ?thesis using unicode_escape_length [OF c(1)] a(1) by simp
  next
    fix e bs' x
    assume "bs = e # bs'" "b = 0x5C" "e \<noteq> 0x75" "plain_escape e = Some x" "string_loop (b # bs) out = string_loop bs' (out @ [x])"
    then show ?thesis using 2(2) [of e bs' x] 2(4) by simp
  next
    assume "b \<noteq> 0x22" "b \<noteq> 0x5C" "string_loop (b # bs) out = string_loop bs (out @ [b])"
    then show ?thesis using 2(3,4) by simp
  qed (use 2(4) in simp)
qed simp

lemma string_loop_not_Stops: "string_loop bs out \<noteq> Stops"
proof -
  have h: "hex_loop n v bs \<noteq> Stops" for n v bs by (induction n v bs rule: hex_loop.induct) (auto split: option.splits)
  then have u: "parse_unicode_escape bs \<noteq> Stops" for bs
    by (auto simp: parse_unicode_escape_def parse_hex4_def and_then_Stops split: if_splits)
  show ?thesis
  proof (induction bs out rule: string_loop.induct)
    case (2 b bs out)
    show ?case
    proof (rule string_loop_cases [of b bs out])
      fix bs'
      assume a: "bs = 0x75 # bs'" "b = 0x5C"
        "string_loop (b # bs) out = and_then (parse_unicode_escape bs') (\<lambda>(c, rest). string_loop rest (out @ utf8_encode c))"
      then show ?thesis using u [of bs'] 2(1) [OF _ _ a(1)] by (auto simp: and_then_Stops)
    next
      fix e bs' x
      assume "bs = e # bs'" "b = 0x5C" "e \<noteq> 0x75" "plain_escape e = Some x" "string_loop (b # bs) out = string_loop bs' (out @ [x])"
      then show ?thesis using 2(2) [of e bs' x] by simp
    next
      assume "b \<noteq> 0x22" "b \<noteq> 0x5C" "string_loop (b # bs) out = string_loop bs (out @ [b])"
      then show ?thesis using 2(3) by simp
    qed simp_all
  qed simp
qed

lemma skip_ws_length: "length (skip_ws bs) \<le> length bs"
  by (simp add: skip_ws_def length_dropWhile_le)

lemma peek_Some: "peek bs = Some b \<longleftrightarrow> (\<exists>rest. bs = b # rest)"
  by (auto simp: peek_def split: list.split)

lemma parse_string_shorter: "parse_string bs = Done (s, rest) \<Longrightarrow> length rest < length bs"
  by (cases bs) (auto simp: parse_string_def dest: string_loop_shorter)

lemma starts_length: "starts bs lit \<Longrightarrow> length lit \<le> length bs"
  by (metis starts_def length_take min.cobounded1)

lemma leaves_shorter:
  "parse_bool bs = Done (v, rest) \<Longrightarrow> length rest < length bs" "parse_null bs = Done (v, rest) \<Longrightarrow> length rest < length bs"
  "parse_bool bs \<noteq> Stops" "parse_null bs \<noteq> Stops" "parse_number f64 bs \<noteq> Stops"
  by (auto simp: parse_bool_def parse_null_def parse_number_def Let_def split: if_splits option.splits dest!: starts_length)

lemma number_shorter:
  "parse_number f64 (b # bs) = Done (v, rest) \<Longrightarrow> b = 0x2D \<or> 0x30 \<le> b \<and> b \<le> 0x39 \<Longrightarrow> length rest < length (b # bs)"
  using length_dropWhile_le [of number_byte bs] by (auto simp: parse_number_def number_byte_def Let_def split: option.splits)

declare parse_value.simps [simp del] object_loop.simps [simp del] array_loop.simps [simp del]

text \<open>Every value and every tail of a list takes at least one byte.\<close>

definition shortens :: "bytes \<Rightarrow> 'a parsed \<Rightarrow> bool" where
  "shortens bs r \<longleftrightarrow> (case r of Done (v, rest) \<Rightarrow> length rest < length bs | _ \<Rightarrow> True)"

lemma shortens_Done: "shortens bs r \<Longrightarrow> r = Done (v, rest) \<Longrightarrow> length rest < length bs"
  by (simp add: shortens_def)

lemma after_sep: "peek (skip_ws bs) = Some c \<Longrightarrow> length (drop 1 (skip_ws bs)) < length bs"
  using skip_ws_length [of bs] by (auto simp: peek_Some)

lemma value_shortens:
  fixes f64 :: "bytes \<Rightarrow> 'n option"
  assumes "\<And>bs out. shortens bs (object_loop f64 fuel bs out)" "\<And>bs out. shortens bs (array_loop f64 fuel bs out)"
  shows "shortens bs (parse_value f64 (Suc fuel) bs)"
proof (cases bs)
  case (Cons b rest)
  have "shortens bs (object_loop f64 fuel rest [])" "shortens bs (array_loop f64 fuel rest [])"
    using assms(1) [of rest "[]"] assms(2) [of rest "[]"] by (auto simp: Cons shortens_def split: outcome.splits)
  moreover have "shortens bs (and_then (parse_string bs) (\<lambda>(s, rest). Done (Str s :: 'n Value, rest)))"
    using parse_string_shorter by (auto simp: shortens_def and_then_Done split: outcome.splits)
  moreover have "shortens bs (parse_bool bs :: 'n Value parsed)" "shortens bs (parse_null bs :: 'n Value parsed)"
    using leaves_shorter(1,2) by (auto simp: shortens_def split: outcome.splits)
  moreover have "b = 0x2D \<or> 0x30 \<le> b \<and> b \<le> 0x39 \<Longrightarrow> shortens bs (parse_number f64 bs)"
    using number_shorter [of f64 b rest] by (auto simp: Cons shortens_def split: outcome.splits)
  moreover have "peek (skip_ws rest) = Some c \<Longrightarrow> shortens bs (Done (v, drop 1 (skip_ws rest)))" for c and v :: "'n Value"
    using after_sep [of rest c] by (simp add: shortens_def Cons)
  ultimately show ?thesis by (auto simp: Cons parse_value.simps(2) shortens_def)
qed (simp add: parse_value.simps shortens_def)

lemma object_shortens:
  assumes "\<And>bs. shortens bs (parse_value f64 fuel bs)" "\<And>bs out. shortens bs (object_loop f64 fuel bs out)"
  shows "shortens bs (object_loop f64 (Suc fuel) bs out)"
  unfolding shortens_def
proof (split outcome.split, intro conjI allI impI, clarify)
  fix v rest
  assume "object_loop f64 (Suc fuel) bs out = Done (v, rest)"
  then obtain key bs1 val bs2 where p: "parse_string (skip_ws bs) = Done (key, bs1)"
    and v: "parse_value f64 fuel (skip_ws (drop 1 (skip_ws bs1))) = Done (val, bs2)"
    and r: "peek (skip_ws bs2) = Some 0x2C \<and> object_loop f64 fuel (drop 1 (skip_ws bs2)) (out @ [(key, val)]) = Done (v, rest)
      \<or> peek (skip_ws bs2) = Some 0x7D \<and> rest = drop 1 (skip_ws bs2)"
    by (auto simp: object_loop.simps(2) and_then_Done Let_def split: if_splits)
  have "length rest < length bs2"
    using r after_sep [of bs2] shortens_Done [OF assms(2)] by (meson less_trans)
  moreover have "length bs2 < length (skip_ws (drop 1 (skip_ws bs1)))" using shortens_Done [OF assms(1) v] .
  moreover have "length (skip_ws (drop 1 (skip_ws bs1))) \<le> length bs1"
    using skip_ws_length [of "drop 1 (skip_ws bs1)"] skip_ws_length [of bs1] by simp
  moreover have "length bs1 < length bs" using parse_string_shorter [OF p] skip_ws_length [of bs] by simp
  ultimately show "length rest < length bs" by simp
qed simp_all

lemma array_shortens:
  assumes "\<And>bs. shortens bs (parse_value f64 fuel bs)" "\<And>bs out. shortens bs (array_loop f64 fuel bs out)"
  shows "shortens bs (array_loop f64 (Suc fuel) bs out)"
  unfolding shortens_def
proof (split outcome.split, intro conjI allI impI, clarify)
  fix v rest
  assume "array_loop f64 (Suc fuel) bs out = Done (v, rest)"
  then obtain val bs1 where v: "parse_value f64 fuel (skip_ws bs) = Done (val, bs1)"
    and r: "peek (skip_ws bs1) = Some 0x2C \<and> array_loop f64 fuel (drop 1 (skip_ws bs1)) (out @ [val]) = Done (v, rest)
      \<or> peek (skip_ws bs1) = Some 0x5D \<and> rest = drop 1 (skip_ws bs1)"
    by (auto simp: array_loop.simps(2) and_then_Done Let_def split: if_splits)
  have "length rest < length bs1"
    using r after_sep [of bs1] shortens_Done [OF assms(2)] by (meson less_trans)
  moreover have "length bs1 < length bs" using shortens_Done [OF assms(1) v] skip_ws_length [of bs] by simp
  ultimately show "length rest < length bs" by simp
qed simp_all

lemma all_shorten_at:
  "(\<forall>bs. shortens bs (parse_value f64 fuel bs)) \<and> (\<forall>bs out. shortens bs (object_loop f64 fuel bs out))
    \<and> (\<forall>bs out. shortens bs (array_loop f64 fuel bs out))"
proof (induction fuel)
  case 0
  show ?case by (simp add: shortens_def parse_value.simps object_loop.simps array_loop.simps)
next
  case (Suc fuel)
  then show ?case by (intro conjI allI value_shortens object_shortens array_shortens) blast+
qed

lemmas all_shorten = all_shorten_at [THEN conjunct1, THEN spec] all_shorten_at [THEN conjunct2, THEN conjunct1, THEN spec, THEN spec]
  all_shorten_at [THEN conjunct2, THEN conjunct2, THEN spec, THEN spec]

lemma parse_string_not_Stops: "parse_string bs \<noteq> Stops"
  by (simp add: parse_string_def string_loop_not_Stops)

lemma value_enough:
  fixes f64 :: "bytes \<Rightarrow> 'n option"
  assumes "\<And>bs out. 2 * length bs + 2 \<le> fuel \<Longrightarrow> object_loop f64 fuel bs out \<noteq> Stops"
    and "\<And>bs out. 2 * length bs + 2 \<le> fuel \<Longrightarrow> array_loop f64 fuel bs out \<noteq> Stops" "2 * length bs + 1 \<le> Suc fuel"
  shows "parse_value f64 (Suc fuel) bs \<noteq> Stops"
proof (cases bs)
  case (Cons b rest)
  have "parse_bool bs \<noteq> (Stops :: 'n Value parsed)" "parse_null bs \<noteq> (Stops :: 'n Value parsed)" "parse_number f64 bs \<noteq> Stops"
    by (rule leaves_shorter)+
  moreover have "object_loop f64 fuel rest [] \<noteq> Stops" "array_loop f64 fuel rest [] \<noteq> Stops" using assms(3) by (intro assms(1,2); simp add: Cons)+
  moreover have "and_then (parse_string bs) (\<lambda>(s, rest). Done (Str s :: 'n Value, rest)) \<noteq> Stops"
    using parse_string_not_Stops [of bs] by (auto simp: and_then_Stops)
  ultimately show ?thesis by (auto simp: Cons parse_value.simps(2))
qed (simp add: parse_value.simps)

lemma array_enough:
  assumes "\<And>bs. 2 * length bs + 1 \<le> fuel \<Longrightarrow> parse_value f64 fuel bs \<noteq> Stops"
    and "\<And>bs out. 2 * length bs + 2 \<le> fuel \<Longrightarrow> array_loop f64 fuel bs out \<noteq> Stops" "2 * length bs + 2 \<le> Suc fuel"
  shows "array_loop f64 (Suc fuel) bs out \<noteq> Stops"
proof -
  have "parse_value f64 fuel (skip_ws bs) \<noteq> Stops" using assms(3) skip_ws_length [of bs] by (intro assms(1)) simp
  moreover have "array_loop f64 fuel (drop 1 (skip_ws bs1)) o' \<noteq> Stops"
    if "parse_value f64 fuel (skip_ws bs) = Done (val, bs1)" "peek (skip_ws bs1) = Some c" for val bs1 c o'
    using assms(3) after_sep [OF that(2)] shortens_Done [OF all_shorten(1) that(1)] skip_ws_length [of bs] by (intro assms(2)) simp
  ultimately show ?thesis by (auto simp: array_loop.simps(2) and_then_Stops Let_def split: if_splits)
qed

lemma object_enough:
  assumes "\<And>bs. 2 * length bs + 1 \<le> fuel \<Longrightarrow> parse_value f64 fuel bs \<noteq> Stops"
    and "\<And>bs out. 2 * length bs + 2 \<le> fuel \<Longrightarrow> object_loop f64 fuel bs out \<noteq> Stops" "2 * length bs + 2 \<le> Suc fuel"
  shows "object_loop f64 (Suc fuel) bs out \<noteq> Stops"
proof -
  have short: "length (skip_ws (drop 1 (skip_ws bs1))) < length bs" if "parse_string (skip_ws bs) = Done (key, bs1)" for key bs1
    using parse_string_shorter [OF that] skip_ws_length [of bs] skip_ws_length [of bs1] skip_ws_length [of "drop 1 (skip_ws bs1)"] by simp
  have "parse_value f64 fuel (skip_ws (drop 1 (skip_ws bs1))) \<noteq> Stops" if "parse_string (skip_ws bs) = Done (key, bs1)" for key bs1
    using assms(3) short [OF that] by (intro assms(1)) simp
  moreover have "object_loop f64 fuel (drop 1 (skip_ws bs2)) o' \<noteq> Stops"
    if "parse_string (skip_ws bs) = Done (key, bs1)" "parse_value f64 fuel (skip_ws (drop 1 (skip_ws bs1))) = Done (val, bs2)"
      "peek (skip_ws bs2) = Some c" for key bs1 val bs2 c o'
    using assms(3) short [OF that(1)] after_sep [OF that(3)] shortens_Done [OF all_shorten(1) that(2)] by (intro assms(2)) simp
  ultimately show ?thesis using parse_string_not_Stops [of "skip_ws bs"]
    by (auto simp: object_loop.simps(2) and_then_Stops Let_def split: if_splits)
qed

lemma enough_fuel:
  "(\<forall>bs. 2 * length bs + 1 \<le> fuel \<longrightarrow> parse_value f64 fuel bs \<noteq> Stops)
    \<and> (\<forall>bs out. 2 * length bs + 2 \<le> fuel \<longrightarrow> object_loop f64 fuel bs out \<noteq> Stops)
    \<and> (\<forall>bs out. 2 * length bs + 2 \<le> fuel \<longrightarrow> array_loop f64 fuel bs out \<noteq> Stops)"
proof (induction fuel)
  case (Suc fuel)
  then show ?case by (intro conjI allI impI value_enough object_enough array_enough) blast+
qed simp

theorem json_parse_ends: "json_parse f64 input \<noteq> Stops"
proof -
  have "parse_value f64 (2 * length input + 1) (skip_ws input) \<noteq> Stops"
    using skip_ws_length [of input] by (intro enough_fuel [THEN conjunct1, rule_format]) simp
  then show ?thesis by (auto simp: json_parse_def and_then_Stops split: if_splits)
qed

section \<open>Strings come back\<close>

text \<open>The writer's escapes, byte by byte: all characters they concern are ASCII.\<close>

definition hex_char :: "nat \<Rightarrow> u8" where
  "hex_char d = (if d < 10 then word_of_nat (0x30 + d) else word_of_nat (0x61 + (d - 10)))"

definition escape_byte :: "u8 \<Rightarrow> bytes" where
  "escape_byte b =
     (if b = 0x22 then [0x5C, 0x22] else if b = 0x5C then [0x5C, 0x5C] else if b = 0x0A then [0x5C, 0x6E]
      else if b = 0x0D then [0x5C, 0x72] else if b = 0x09 then [0x5C, 0x74] else if b = 0x08 then [0x5C, 0x62]
      else if b = 0x0C then [0x5C, 0x66]
      else if b < 0x20 then [0x5C, 0x75, 0x30, 0x30, hex_char (unat b div 16), hex_char (unat b mod 16)]
      else [b])"

definition json_string :: "bytes \<Rightarrow> bytes" where
  "json_string s = [0x22] @ concat (map escape_byte s) @ [0x22]"

lemma string_loop_steps:
  "b \<noteq> 0x22 \<Longrightarrow> b \<noteq> 0x5C \<Longrightarrow> string_loop (b # bs) out = string_loop bs (out @ [b])"
  "e \<noteq> 0x75 \<Longrightarrow> plain_escape e = Some x \<Longrightarrow> string_loop (0x5C # e # bs) out = string_loop bs (out @ [x])"
  "string_loop (0x5C # 0x75 # bs) out = and_then (parse_unicode_escape bs) (\<lambda>(c, rest). string_loop rest (out @ utf8_encode c))"
  "string_loop (0x22 # bs) out = (if utf8_valid out then Done (out, bs) else Fails InvalidUtf8)"
  by (simp_all add: string_loop.simps(2))

lemma hex_digit_char: "d < 16 \<Longrightarrow> hex_digit (hex_char d) = Some d"
proof -
  have "\<forall>d < 16. hex_digit (hex_char d) = Some d" by code_simp
  then show "d < 16 \<Longrightarrow> hex_digit (hex_char d) = Some d" by blast
qed

lemma hex_loop_step: "0 < n \<Longrightarrow> hex_digit b = Some d \<Longrightarrow> hex_loop n v (b # bs) = hex_loop (n - 1) (v * 16 + d) bs"
  by (cases n) simp_all

lemma hex4:
  assumes "hex_digit a = Some w" "hex_digit b = Some x" "hex_digit c = Some y" "hex_digit d = Some z"
  shows "parse_hex4 (a # b # c # d # rest) = Done (((w * 16 + x) * 16 + y) * 16 + z, rest)"
  by (simp add: parse_hex4_def assms hex_loop_step)

lemma escape_read: "string_loop (escape_byte b @ rest) out = string_loop rest (out @ [b])"
proof (cases "b < 0x20")
  case True
  have n: "unat b < 32" using True by (simp add: word_less_nat_alt)
  have "unat b div 16 < 16" "unat b mod 16 < 16" using n by simp_all
  then have "parse_unicode_escape (0x30 # 0x30 # hex_char (unat b div 16) # hex_char (unat b mod 16) # rest) = Done (unat b, rest)"
    using n hex4 [of "0x30" 0 "0x30" 0 "hex_char (unat b div 16)" "unat b div 16" "hex_char (unat b mod 16)" "unat b mod 16" rest]
    by (simp add: parse_unicode_escape_def hex_digit_char hex_digit_def [of "0x30"])
  moreover have "utf8_encode (unat b) = [b]" using n by (simp add: utf8_encode_def as_u8_def)
  ultimately show ?thesis using True by (simp add: escape_byte_def string_loop_steps plain_escape_def)
next
  case False
  then show ?thesis by (auto simp: escape_byte_def string_loop_steps plain_escape_def)
qed

theorem json_string_read:
  assumes "utf8_valid s"
  shows "parse_string (json_string s @ rest) = Done (s, rest)"
proof -
  have "string_loop (concat (map escape_byte s) @ 0x22 # rest) out = string_loop (0x22 # rest) (out @ s)" for out
    by (induction s arbitrary: out) (simp_all add: escape_read)
  then show ?thesis using assms by (simp add: parse_string_def json_string_def string_loop_steps(4))
qed

text \<open>The escape behind a high surrogate that is not a low one is swallowed with it.\<close>

lemma string_value:
  assumes "0 < fuel" "peek bs = Some 0x22"
  shows "parse_value f64 fuel bs = and_then (parse_string bs) (\<lambda>(s, rest). Done (Str s, rest))"
  using assms by (cases fuel) (auto simp: parse_value.simps(2) peek_Some)

theorem escape_swallowed:
  "json_parse f64 [0x22, 0x5C, 0x75, 0x64, 0x38, 0x30, 0x30, 0x5C, 0x75, 0x30, 0x30, 0x34, 0x31, 0x22] = Done (Str [0xEF, 0xBF, 0xBD])"
proof -
  have h: "parse_hex4 (0x64 # 0x38 # 0x30 # 0x30 # rest) = Done (0xD800, rest)" "parse_hex4 (0x30 # 0x30 # 0x34 # 0x31 # rest) = Done (0x41, rest)" for rest
    using hex4 [of "0x64" 13 "0x38" 8 "0x30" 0 "0x30" 0 rest] hex4 [of "0x30" 0 "0x30" 0 "0x34" 4 "0x31" 1 rest] by (simp_all add: hex_digit_def)
  have "utf8_valid (utf8_encode 0xFFFD)" using utf8_valid_encode [of "0xFFFD" "[]"] by (simp add: scalar_def)
  moreover have "utf8_encode 0xFFFD = [0xEF, 0xBF, 0xBD]" by (simp add: utf8_encode_def as_u8_def)
  ultimately have "string_loop (0x5C # 0x75 # 0x64 # 0x38 # 0x30 # 0x30 # 0x5C # 0x75 # 0x30 # 0x30 # 0x34 # 0x31 # [0x22]) [] = Done ([0xEF, 0xBF, 0xBD], [])"
    by (subst string_loop_steps(3)) (simp add: parse_unicode_escape_def h string_loop_steps(4))
  then show ?thesis by (simp add: json_parse_def skip_ws_def is_ws_def string_value peek_def parse_string_def)
qed

end
