(* ===== verification/Castx.thy ===== *)
theory Castx
  imports Json Osc Graphics_Keys
begin

text \<open>
  \<open>crates/posh-rec/src/castx.rs\<close>: recordings of terminal sessions, one JSON value per line. The recorder
  writes to a buffer; times are of an abstract number type with their reader, printer and 16-bit projection as
  arguments. What the recorder writes is read back, and the output events together are the bytes of the
  program, whatever reads they arrived in.
\<close>

section \<open>Header and events\<close>

record PoshRec =
  pr_v :: u16
  pr_emu_rev :: bytes

record CastHeader =
  ch_version :: u16
  ch_width :: u16
  ch_height :: u16
  ch_posh_rec :: "PoshRec option"

datatype EventCode = EvOutput | EvInput | EvResize | EvMarker | EvUnknown nat

definition from_letter :: "bytes \<Rightarrow> EventCode" where
  "from_letter s =
     (case utf8_chars s of
        [] \<Rightarrow> EvUnknown 0
      | c # _ \<Rightarrow> if c = 0x6F then EvOutput else if c = 0x69 then EvInput else if c = 0x72 then EvResize
                else if c = 0x6D then EvMarker else EvUnknown c)"

definition letter :: "EventCode \<Rightarrow> nat" where
  "letter code = (case code of EvOutput \<Rightarrow> 0x6F | EvInput \<Rightarrow> 0x69 | EvResize \<Rightarrow> 0x72 | EvMarker \<Rightarrow> 0x6D | EvUnknown c \<Rightarrow> c)"

record 'n CastEvent =
  ce_time :: 'n
  ce_code :: EventCode
  ce_data :: bytes

section \<open>Reading\<close>

datatype LineError = BadJson JsonError | VersionNotInteger | UnsupportedVersion u16 | NotAnArray | TooFewFields | TimeNotNumber
  | CodeNotString

datatype CastError = NoHeaderLine | AtLine nat LineError

definition parse_posh_rec :: "('n \<Rightarrow> u16 option) \<Rightarrow> 'n Value \<Rightarrow> PoshRec option" where
  "parse_posh_rec int16 v =
     Option.bind (Option.bind (get_field v (asc ''v'')) (as_u16 int16)) (\<lambda>n.
     Option.bind (Option.bind (get_field v (asc ''emu_rev'')) as_str) (\<lambda>rev. Some \<lparr>pr_v = n, pr_emu_rev = rev\<rparr>))"

definition parse_header :: "('n \<Rightarrow> u16 option) \<Rightarrow> 'n Value \<Rightarrow> (LineError, CastHeader) outcome" where
  "parse_header int16 v =
     (let or_default = (\<lambda>r d. case r of None \<Rightarrow> d | Some n \<Rightarrow> n)
      in case (case get_field v (asc ''version'') of None \<Rightarrow> Some 2 | Some val \<Rightarrow> as_u16 int16 val) of
           None \<Rightarrow> Fails VersionNotInteger
         | Some version \<Rightarrow>
             if version \<noteq> 2 then Fails (UnsupportedVersion version)
             else Done \<lparr>ch_version = version,
               ch_width = or_default (Option.bind (get_field v (asc ''width'')) (as_u16 int16)) 80,
               ch_height = or_default (Option.bind (get_field v (asc ''height'')) (as_u16 int16)) 24,
               ch_posh_rec = Option.bind (get_field v (asc ''posh_rec'')) (parse_posh_rec int16)\<rparr>)"

definition parse_event :: "'n Value \<Rightarrow> (LineError, 'n CastEvent) outcome" where
  "parse_event v =
     (case as_array v of
        None \<Rightarrow> Fails NotAnArray
      | Some arr \<Rightarrow>
          if length arr < 2 then Fails TooFewFields
          else case as_f64 (arr ! 0) of
                 None \<Rightarrow> Fails TimeNotNumber
               | Some time \<Rightarrow>
                   (case as_str (arr ! 1) of
                      None \<Rightarrow> Fails CodeNotString
                    | Some s \<Rightarrow>
                        let data = (if length arr > 2 then (case as_str (arr ! 2) of None \<Rightarrow> [] | Some d \<Rightarrow> d) else [])
                        in Done \<lparr>ce_time = time, ce_code = from_letter s, ce_data = data\<rparr>))"

text \<open>The lines left and the number of the last one read; blank lines are skipped.\<close>

type_synonym reader = "bytes list \<times> nat"

definition reader_new :: "bytes \<Rightarrow> reader" where
  "reader_new src = (split_all 0x0A src, 0)"

definition strip_cr :: "bytes \<Rightarrow> bytes" where
  "strip_cr raw = (if raw \<noteq> [] \<and> last raw = 0x0D then butlast raw else raw)"

fun next_line :: "bytes list \<Rightarrow> nat \<Rightarrow> (bytes \<times> reader) option" where
  "next_line [] n = None"
| "next_line (raw # raws) n =
     (if list_all is_whitespace (utf8_chars (strip_cr raw)) then next_line raws (n + 1) else Some (strip_cr raw, raws, n + 1))"

definition at_line :: "nat \<Rightarrow> (LineError, 'a) outcome \<Rightarrow> (CastError, 'a) outcome" where
  "at_line n r = (case r of Done a \<Rightarrow> Done a | Fails e \<Rightarrow> Fails (AtLine n e) | Stops \<Rightarrow> Stops)"

definition read_line :: "(bytes \<Rightarrow> 'n option) \<Rightarrow> ('n Value \<Rightarrow> (LineError, 'a) outcome) \<Rightarrow> nat \<Rightarrow> bytes \<Rightarrow> (CastError, 'a) outcome" where
  "read_line f64 project n line =
     at_line n (case json_parse f64 line of Done v \<Rightarrow> project v | Fails e \<Rightarrow> Fails (BadJson e) | Stops \<Rightarrow> Stops)"

definition read_header :: "(bytes \<Rightarrow> 'n option) \<Rightarrow> ('n \<Rightarrow> u16 option) \<Rightarrow> reader \<Rightarrow> (CastError, CastHeader) outcome \<times> reader" where
  "read_header f64 int16 r =
     (case next_line (fst r) (snd r) of
        None \<Rightarrow> (Fails NoHeaderLine, [], snd r + length (fst r))
      | Some (line, r') \<Rightarrow> (read_line f64 (parse_header int16) (snd r') line, r'))"

definition next_event :: "(bytes \<Rightarrow> 'n option) \<Rightarrow> reader \<Rightarrow> (CastError, 'n CastEvent) outcome option \<times> reader" where
  "next_event f64 r =
     (case next_line (fst r) (snd r) of
        None \<Rightarrow> (None, [], snd r + length (fst r))
      | Some (line, r') \<Rightarrow> (Some (read_line f64 parse_event (snd r') line), r'))"

section \<open>Writing\<close>

definition write_header :: "CastHeader \<Rightarrow> bytes" where
  "write_header h =
     asc ''{'' @ json_string (asc ''version'') @ asc '':'' @ decimal (unat (ch_version h)) @ asc '','' @ json_string (asc ''width'') @ asc '':''
     @ decimal (unat (ch_width h)) @ asc '','' @ json_string (asc ''height'') @ asc '':'' @ decimal (unat (ch_height h))
     @ (case ch_posh_rec h of
          None \<Rightarrow> []
        | Some pr \<Rightarrow> asc '','' @ json_string (asc ''posh_rec'') @ asc '':{'' @ json_string (asc ''v'') @ asc '':'' @ decimal (unat (pr_v pr))
            @ asc '','' @ json_string (asc ''emu_rev'') @ asc '':'' @ json_string (pr_emu_rev pr) @ asc ''}'')
     @ asc ''}''"

definition write_event :: "('n \<Rightarrow> bytes) \<Rightarrow> 'n CastEvent \<Rightarrow> bytes" where
  "write_event fmt e =
     asc ''['' @ fmt (ce_time e) @ asc '','' @ json_string (utf8_encode (letter (ce_code e))) @ asc '','' @ json_string (ce_data e) @ asc '']''"

section \<open>Recording\<close>

text \<open>\<open>str::from_utf8\<close>: valid up to a position, and there a tail cut off by the end or an ill-formed part.\<close>

datatype Utf8Check = AllValid | CutAt nat | BadAt nat nat

definition shift_check :: "nat \<Rightarrow> Utf8Check \<Rightarrow> Utf8Check" where
  "shift_check n r = (case r of AllValid \<Rightarrow> AllValid | CutAt v \<Rightarrow> CutAt (n + v) | BadAt v bad \<Rightarrow> BadAt (n + v) bad)"

function utf8_check :: "bytes \<Rightarrow> Utf8Check" where
  "utf8_check [] = AllValid"
| "utf8_check (b # rest) =
     (let (ok, n) = utf8_step b rest
      in if ok then shift_check n (utf8_check (drop n (b # rest)))
         else if n = length (b # rest) \<and> n < utf8_width b then CutAt 0 else BadAt 0 n)"
  by pat_completeness auto
termination
proof (relation "measure length")
  fix b rest x ok n assume "x = utf8_step b rest" "(ok, n) = x"
  then show "(drop n (b # rest), b # rest) \<in> measure length"
    using utf8_step_pos [of b rest] by (cases n) (auto dest: arg_cong [where f = snd])
qed simp

declare utf8_check.simps(2) [simp del]

record 'n Recorder =
  rc_out :: bytes
  rc_pending :: bytes
  rc_last_time :: 'n

definition rec_new :: "'n \<Rightarrow> 'n Recorder" where
  "rec_new zero = \<lparr>rc_out = [], rc_pending = [], rc_last_time = zero\<rparr>"

definition rec_header :: "CastHeader \<Rightarrow> 'n Recorder \<Rightarrow> 'n Recorder" where
  "rec_header h r = r\<lparr>rc_out := rc_out r @ write_header h @ [0x0A]\<rparr>"

definition write_record :: "('n \<Rightarrow> bytes) \<Rightarrow> 'n \<Rightarrow> EventCode \<Rightarrow> bytes \<Rightarrow> 'n Recorder \<Rightarrow> 'n Recorder" where
  "write_record fmt time code data r =
     r\<lparr>rc_out := rc_out r @ write_event fmt \<lparr>ce_time = time, ce_code = code, ce_data = data\<rparr> @ [0x0A]\<rparr>"

lemma write_record_pending [simp]: "rc_pending (write_record fmt time code data r) = rc_pending r"
  by (simp add: write_record_def)

lemma bad_positive: "utf8_check bs = BadAt v bad \<Longrightarrow> 0 < bad \<and> bs \<noteq> []"
proof (induction bs arbitrary: v rule: utf8_check.induct)
  case (2 b rest)
  obtain ok n where s: "utf8_step b rest = (ok, n)" by fastforce
  show ?case
  proof (cases ok)
    case True
    then have "shift_check n (utf8_check (drop n (b # rest))) = BadAt v bad" using 2(2) by (simp add: utf8_check.simps(2) s)
    then obtain v' where "utf8_check (drop n (b # rest)) = BadAt v' bad" by (auto simp: shift_check_def split: Utf8Check.splits)
    then show ?thesis using 2(1) [OF s [symmetric] refl True] by simp
  next
    case False
    then show ?thesis using 2(2) utf8_step_pos [of b rest] by (auto simp: utf8_check.simps(2) s split: if_splits)
  qed
qed simp

function flush_complete :: "('n \<Rightarrow> bytes) \<Rightarrow> 'n \<Rightarrow> 'n Recorder \<Rightarrow> 'n Recorder" where
  "flush_complete fmt time r =
     (let p = rc_pending r
      in case utf8_check p of
           AllValid \<Rightarrow> if p = [] then r else (write_record fmt time EvOutput p r)\<lparr>rc_pending := []\<rparr>
         | CutAt v \<Rightarrow> if v > 0 then (write_record fmt time EvOutput (take v p) r)\<lparr>rc_pending := drop v p\<rparr> else r
         | BadAt v bad \<Rightarrow>
             flush_complete fmt time
               ((write_record fmt time EvOutput (take v p @ utf8_encode 0xFFFD) r)\<lparr>rc_pending := drop (v + bad) p\<rparr>))"
  by pat_completeness auto
termination
  by (relation "measure (\<lambda>(fmt, time, r). length (rc_pending r))") (auto intro!: diff_less dest: bad_positive)

definition flush_held :: "('n \<Rightarrow> bytes) \<Rightarrow> 'n \<Rightarrow> 'n Recorder \<Rightarrow> 'n Recorder" where
  "flush_held fmt time r =
     (if rc_pending r = [] then r
      else write_record fmt time EvOutput (from_utf8_lossy (rc_pending r)) (r\<lparr>rc_pending := []\<rparr>))"

definition rec_output :: "('n \<Rightarrow> bytes) \<Rightarrow> 'n \<Rightarrow> bytes \<Rightarrow> 'n Recorder \<Rightarrow> 'n Recorder" where
  "rec_output fmt time bs r = flush_complete fmt time (r\<lparr>rc_last_time := time, rc_pending := rc_pending r @ bs\<rparr>)"

definition rec_resize :: "('n \<Rightarrow> bytes) \<Rightarrow> 'n \<Rightarrow> u16 \<Rightarrow> u16 \<Rightarrow> 'n Recorder \<Rightarrow> 'n Recorder" where
  "rec_resize fmt time cols rows r =
     write_record fmt time EvResize (decimal (unat cols) @ asc ''x'' @ decimal (unat rows)) (flush_held fmt time (r\<lparr>rc_last_time := time\<rparr>))"

definition rec_input :: "('n \<Rightarrow> bytes) \<Rightarrow> 'n \<Rightarrow> bytes \<Rightarrow> 'n Recorder \<Rightarrow> 'n Recorder" where
  "rec_input fmt time bs r =
     write_record fmt time EvInput (from_utf8_lossy bs) (flush_held fmt time (r\<lparr>rc_last_time := time\<rparr>))"

definition rec_finish :: "('n \<Rightarrow> bytes) \<Rightarrow> 'n Recorder \<Rightarrow> 'n Recorder" where
  "rec_finish fmt r = flush_held fmt (rc_last_time r) r"

declare flush_complete.simps [simp del]

section \<open>Output comes together again\<close>

lemma lossy_append: "utf8_valid p \<Longrightarrow> from_utf8_lossy (p @ later) = p @ from_utf8_lossy later"
proof (induction p rule: utf8_valid.induct)
  case (2 b rest)
  obtain ok n where s: "utf8_step b rest = (ok, n)" by fastforce
  with 2(2) have ok: "ok" "utf8_valid (drop n (b # rest))" by (simp_all add: utf8_valid.simps(2))
  with s have l: "utf8_step b rest = (True, n)" by simp
  have n: "0 < n" "n \<le> length (b # rest)" using utf8_step_pos [of b rest] utf8_step_local(1) [OF l] s by simp_all
  have "utf8_step b (rest @ later) = (True, n)"
    using utf8_step_local(2) [OF l, of "drop (n - 1) rest @ later"] by (metis append.assoc append_take_drop_id)
  moreover have "take n (b # rest @ later) = take n (b # rest)" "drop n (b # rest @ later) = drop n (b # rest) @ later"
    using n(2) by (cases n; simp)+
  ultimately show ?case using 2(1) [OF s [symmetric] refl] ok n by (simp add: from_utf8_lossy.simps(2) del: drop_Cons')
qed simp

text \<open>An ill-formed part that does not end with the input is the same with more input.\<close>

lemma utf8_step_bad:
  assumes "utf8_step b rest = (False, n)" "\<not> (n = length (b # rest) \<and> n < utf8_width b)"
  shows "utf8_step b (rest @ later) = (False, n) \<and> n \<le> length (b # rest)"
proof -
  have z: "\<not> is_cont 0" "\<not> second3 b 0" "\<not> second4 b 0" by (simp_all add: is_cont_def second3_def second4_def)
  consider "rest = []" | x where "rest = [x]" | x y where "rest = [x, y]" | x y w r where "rest = x # y # w # r"
    by (metis list.exhaust)
  then show ?thesis
    by cases (use assms z in \<open>auto simp: utf8_step_def Let_def split: if_split_asm\<close>)
qed

lemma check_AllValid: "utf8_check p = AllValid \<Longrightarrow> utf8_valid p"
proof (induction p rule: utf8_check.induct)
  case (2 b rest)
  obtain ok n where s: "utf8_step b rest = (ok, n)" by fastforce
  then show ?case using 2 by (auto simp: utf8_check.simps(2) utf8_valid.simps(2) shift_check_def split: if_splits Utf8Check.splits)
qed simp

lemma valid_front:
  assumes "utf8_step b rest = (True, n)" "utf8_valid (take v (drop n (b # rest)))"
  shows "utf8_valid (take (n + v) (b # rest))"
proof -
  have n: "0 < n" "n \<le> length (b # rest)" using utf8_step_pos [of b rest] utf8_step_local(1) [OF assms(1)] assms(1) by simp_all
  have "take (n + v) (b # rest) = b # take (n - 1) rest @ take v (drop n (b # rest))"
    using n(1) by (cases n) (simp_all add: take_add)
  moreover have "drop n (b # take (n - 1) rest @ take v (drop n (b # rest))) = take v (drop n (b # rest))"
    using n by (cases n) (auto simp: min_absorb2)
  ultimately show ?thesis using utf8_step_local(2) [OF assms(1), of "take v (drop n (b # rest))"] assms(2)
    by (simp add: utf8_valid.simps(2) del: drop_Cons' take_Cons')
qed

lemma check_Cut: "utf8_check p = CutAt v \<Longrightarrow> utf8_valid (take v p)"
proof (induction p arbitrary: v rule: utf8_check.induct)
  case (2 b rest)
  obtain ok n where s: "utf8_step b rest = (ok, n)" by fastforce
  show ?case
  proof (cases ok)
    case True
    then obtain w where "utf8_check (drop n (b # rest)) = CutAt w" "v = n + w"
      using 2(2) by (auto simp: utf8_check.simps(2) s shift_check_def split: Utf8Check.splits)
    then show ?thesis using 2(1) [OF s [symmetric] refl True] valid_front s True by auto
  qed (use 2(2) in \<open>auto simp: utf8_check.simps(2) s split: if_splits\<close>)
qed simp

lemma check_Bad:
  "utf8_check p = BadAt v bad \<Longrightarrow> utf8_valid (take v p) \<and> (\<exists>b rest. drop v p = b # rest \<and> utf8_step b rest = (False, bad)
     \<and> \<not> (bad = length (b # rest) \<and> bad < utf8_width b))"
proof (induction p arbitrary: v rule: utf8_check.induct)
  case (2 b rest)
  obtain ok n where s: "utf8_step b rest = (ok, n)" by fastforce
  show ?case
  proof (cases ok)
    case True
    then obtain w where w: "utf8_check (drop n (b # rest)) = BadAt w bad" "v = n + w"
      using 2(2) by (auto simp: utf8_check.simps(2) s shift_check_def split: Utf8Check.splits)
    have "drop v (b # rest) = drop w (drop n (b # rest))" using w(2) by (simp only: drop_drop add.commute)
    then show ?thesis using 2(1) [OF s [symmetric] refl True w(1)] valid_front s True w(2) by auto
  next
    case False
    then show ?thesis using 2(2) by (auto simp: utf8_check.simps(2) s split: if_splits)
  qed
qed simp

definition output_event :: "'n \<Rightarrow> bytes \<Rightarrow> 'n CastEvent" where
  "output_event time d = \<lparr>ce_time = time, ce_code = EvOutput, ce_data = d\<rparr>"

definition records :: "('n \<Rightarrow> bytes) \<Rightarrow> 'n CastEvent list \<Rightarrow> bytes" where
  "records fmt evs = concat (map (\<lambda>e. write_event fmt e @ [0x0A]) evs)"

text \<open>What a step of the recorder adds: valid output events, and what is held stands for the rest.\<close>

definition records_output :: "('n \<Rightarrow> bytes) \<Rightarrow> 'n Recorder \<Rightarrow> 'n Recorder \<Rightarrow> ('n \<times> bytes) list \<Rightarrow> bytes \<Rightarrow> bool" where
  "records_output fmt r r' evs bs \<longleftrightarrow>
     rc_out r' = rc_out r @ records fmt (map (\<lambda>(t, d). output_event t d) evs) \<and> (\<forall>(t, d) \<in> set evs. utf8_valid d)
     \<and> (\<forall>later. from_utf8_lossy (rc_pending r @ bs @ later) = concat (map snd evs) @ from_utf8_lossy (rc_pending r' @ later))"

lemma records_output_text:
  "records_output fmt r r' evs bs \<Longrightarrow> from_utf8_lossy (rc_pending r @ bs @ later) = concat (map snd evs) @ from_utf8_lossy (rc_pending r' @ later)"
  unfolding records_output_def by blast

lemma fffd: "utf8_encode 0xFFFD = [0xEF, 0xBF, 0xBD]" "utf8_valid (utf8_encode 0xFFFD)"
  using utf8_valid_encode [of "0xFFFD" "[]"] by (simp_all add: scalar_def utf8_encode_def as_u8_def)

lemma valid_append: "utf8_valid p \<Longrightarrow> utf8_valid q \<Longrightarrow> utf8_valid (p @ q)"
  using lossy_append [of p q] lossy_valid [of q] lossy_is_valid [of "p @ q"] by simp

lemma flush_complete_records: "\<exists>evs. records_output fmt r (flush_complete fmt time r) evs [] \<and> fst ` set evs \<subseteq> {time}"
proof (induction fmt time r rule: flush_complete.induct)
  case (1 fmt time r)
  let ?p = "rc_pending r"
  show ?case
  proof (cases "utf8_check ?p")
    case AllValid
    note valid = check_AllValid [OF AllValid]
    show ?thesis
    proof (cases "?p = []")
      case True
      then show ?thesis using AllValid by (subst flush_complete.simps) (auto simp: records_output_def records_def intro!: exI [of _ "[]"])
    next
      case False
      then show ?thesis using AllValid valid lossy_append [OF valid]
        by (subst flush_complete.simps) (auto simp: records_output_def records_def write_record_def output_event_def Let_def intro!: exI [of _ "[(time, ?p)]"])
    qed
  next
    case (CutAt v)
    note valid = check_Cut [OF CutAt]
    have law: "from_utf8_lossy (?p @ later) = take v ?p @ from_utf8_lossy (drop v ?p @ later)" for later
      using lossy_append [OF valid, of "drop v ?p @ later"] by (metis append.assoc append_take_drop_id)
    show ?thesis
    proof (cases "v = 0")
      case True
      then show ?thesis using CutAt by (subst flush_complete.simps) (auto simp: records_output_def records_def intro!: exI [of _ "[]"])
    next
      case False
      then show ?thesis using CutAt valid law
        by (subst flush_complete.simps) (auto simp: records_output_def records_def write_record_def output_event_def Let_def intro!: exI [of _ "[(time, take v ?p)]"])
    qed
  next
    case (BadAt v bad)
    let ?d = "take v ?p @ utf8_encode 0xFFFD"
    let ?r = "(write_record fmt time EvOutput ?d r)\<lparr>rc_pending := drop (v + bad) ?p\<rparr>"
    obtain b rest where b: "drop v ?p = b # rest" "utf8_step b rest = (False, bad)" "\<not> (bad = length (b # rest) \<and> bad < utf8_width b)"
      using check_Bad [OF BadAt] by auto
    have valid: "utf8_valid (take v ?p)" using check_Bad [OF BadAt] by simp
    have tail: "from_utf8_lossy (drop v ?p @ later) = utf8_encode 0xFFFD @ from_utf8_lossy (drop (v + bad) ?p @ later)" for later
    proof -
      have st: "utf8_step b (rest @ later) = (False, bad)" "bad \<le> length (b # rest)" using utf8_step_bad [OF b(2,3)] by auto
      have "drop bad (b # rest @ later) = drop bad (b # rest) @ later" using st(2) by (metis append_Cons drop_append diff_is_0_eq drop0)
      moreover have "drop bad (b # rest) = drop (v + bad) ?p" using b(1) by (metis drop_drop add.commute)
      ultimately show ?thesis using st(1) by (simp add: b(1) from_utf8_lossy.simps(2) fffd(1) del: drop_Cons')
    qed
    have law: "from_utf8_lossy (?p @ later) = ?d @ from_utf8_lossy (drop (v + bad) ?p @ later)" for later
      using lossy_append [OF valid, of "drop v ?p @ later"] tail [of later] by (metis append.assoc append_take_drop_id)
    obtain evs where IH: "records_output fmt ?r (flush_complete fmt time ?r) evs []" "fst ` set evs \<subseteq> {time}"
      using 1 [OF refl BadAt] by blast
    have step: "flush_complete fmt time r = flush_complete fmt time ?r" using BadAt by (subst flush_complete.simps) (simp add: Let_def)
    have "records_output fmt r (flush_complete fmt time r) ((time, ?d) # evs) []"
      using IH(1) valid_append [OF valid fffd(2)] law unfolding step
      by (auto simp: records_output_def records_def write_record_def output_event_def)
    then show ?thesis using IH(2) by (intro exI [of _ "(time, ?d) # evs"]) auto
  qed
qed

lemma rec_output_records: "\<exists>evs. records_output fmt r (rec_output fmt time bs r) evs bs"
  using flush_complete_records [of fmt "r\<lparr>rc_last_time := time, rc_pending := rc_pending r @ bs\<rparr>" time]
  by (auto simp: rec_output_def records_output_def)

lemma rec_finish_records:
  "\<exists>evs. rc_out (rec_finish fmt r) = rc_out r @ records fmt (map (\<lambda>(t, d). output_event t d) evs) \<and> (\<forall>(t, d) \<in> set evs. utf8_valid d)
    \<and> concat (map snd evs) = from_utf8_lossy (rc_pending r)"
proof (cases "rc_pending r = []")
  case False
  then show ?thesis
    by (intro exI [of _ "[(rc_last_time r, from_utf8_lossy (rc_pending r))]"])
      (simp add: rec_finish_def flush_held_def records_def write_record_def output_event_def lossy_is_valid)
qed (auto simp: rec_finish_def flush_held_def records_def intro!: exI [of _ "[]"])

lemma outputs_records: "\<exists>evs. records_output fmt r (fold (\<lambda>(t, bs). rec_output fmt t bs) chunks r) evs (concat (map snd chunks))"
proof (induction chunks arbitrary: r)
  case (Cons chunk chunks)
  obtain t bs where c: "chunk = (t, bs)" by (cases chunk)
  let ?r = "rec_output fmt t bs r"
  obtain evs where 1: "records_output fmt r ?r evs bs" using rec_output_records [of fmt r t bs] by blast
  obtain evs' where 2: "records_output fmt ?r (fold (\<lambda>(t, bs). rec_output fmt t bs) chunks ?r) evs' (concat (map snd chunks))" using Cons by blast
  have "records_output fmt r (fold (\<lambda>(t, bs). rec_output fmt t bs) chunks ?r) (evs @ evs') (bs @ concat (map snd chunks))"
    using 1 2 by (auto simp: records_output_def records_def)
  then show ?case by (auto simp: c)
qed (auto simp: records_output_def records_def intro!: exI [of _ "[]"])

theorem recorded_output:
  "\<exists>evs. rc_out (rec_finish fmt (fold (\<lambda>(t, bs). rec_output fmt t bs) chunks (rec_header h (rec_new zero))))
      = write_header h @ [0x0A] @ records fmt (map (\<lambda>(t, d). output_event t d) evs)
    \<and> (\<forall>(t, d) \<in> set evs. utf8_valid d) \<and> concat (map snd evs) = from_utf8_lossy (concat (map snd chunks))"
proof -
  let ?r0 = "rec_header h (rec_new zero)"
  let ?r1 = "fold (\<lambda>(t, bs). rec_output fmt t bs) chunks ?r0"
  obtain evs where 1: "records_output fmt ?r0 ?r1 evs (concat (map snd chunks))" using outputs_records by blast
  obtain evs' where 2: "rc_out (rec_finish fmt ?r1) = rc_out ?r1 @ records fmt (map (\<lambda>(t, d). output_event t d) evs')"
    "\<forall>(t, d) \<in> set evs'. utf8_valid d" "concat (map snd evs') = from_utf8_lossy (rc_pending ?r1)"
    using rec_finish_records [of fmt ?r1] by (elim exE conjE) (rule that)
  have none: "rc_pending ?r0 = []" by (simp add: rec_header_def rec_new_def)
  have "from_utf8_lossy (concat (map snd chunks)) = concat (map snd evs) @ from_utf8_lossy (rc_pending ?r1)"
    using records_output_text [OF 1, of "[]"] unfolding none append_Nil append_Nil2 .
  then have told: "concat (map snd (evs @ evs')) = from_utf8_lossy (concat (map snd chunks))"
    using 2(3) by (simp only: map_append concat_append)
  have "rc_out ?r0 = write_header h @ [0x0A]" by (simp add: rec_header_def rec_new_def)
  moreover have "rc_out ?r1 = rc_out ?r0 @ records fmt (map (\<lambda>(t, d). output_event t d) evs)" "\<forall>(t, d) \<in> set evs. utf8_valid d"
    using 1 [unfolded records_output_def, THEN conjunct1] 1 [unfolded records_output_def, THEN conjunct2, THEN conjunct1] .
  moreover have "records fmt (map (\<lambda>(t, d). output_event t d) (evs @ evs'))
      = records fmt (map (\<lambda>(t, d). output_event t d) evs) @ records fmt (map (\<lambda>(t, d). output_event t d) evs')" by (simp add: records_def)
  ultimately have "rc_out (rec_finish fmt ?r1) = write_header h @ [0x0A] @ records fmt (map (\<lambda>(t, d). output_event t d) (evs @ evs'))"
    "\<forall>(t, d) \<in> set (evs @ evs'). utf8_valid d" using 2(1,2) by (simp_all only: append.assoc set_append ball_Un)
  then show ?thesis using told by (intro exI [of _ "evs @ evs'"] conjI)
qed

end
