(* ===== verification/Castx_Replay.thy ===== *)
theory Castx_Replay
  imports Castx
begin

text \<open>
  A recording is read back: the header and the events come out of the reader as the recorder was given them.
\<close>

section \<open>What was written is read back\<close>

text \<open>What the number type has to provide.\<close>

definition prints_time :: "(bytes \<Rightarrow> 'n option) \<Rightarrow> ('n \<Rightarrow> bytes) \<Rightarrow> 'n \<Rightarrow> bool" where
  "prints_time f64 fmt t \<longleftrightarrow> f64 (fmt t) = Some t \<and> list_all number_byte (fmt t) \<and> fmt t \<noteq> []
     \<and> (hd (fmt t) = 0x2D \<or> 0x30 \<le> hd (fmt t) \<and> hd (fmt t) \<le> 0x39)"

definition reads_u16 :: "(bytes \<Rightarrow> 'n option) \<Rightarrow> ('n \<Rightarrow> u16 option) \<Rightarrow> bool" where
  "reads_u16 f64 int16 \<longleftrightarrow> (\<forall>w. \<exists>n. f64 (decimal (unat w)) = Some n \<and> int16 n = Some w)"

lemma number_value:
  assumes "0 < fuel" "f64 s = Some n" "list_all number_byte s" "s \<noteq> []" "hd s = 0x2D \<or> 0x30 \<le> hd s \<and> hd s \<le> 0x39" "\<not> number_byte c"
  shows "parse_value f64 fuel (s @ c # rest) = Done (Num n, c # rest)"
proof -
  obtain b s' where s: "s = b # s'" using assms(4) by (cases s) auto
  have t: "takeWhile number_byte (s @ c # rest) = s" "dropWhile number_byte (s @ c # rest) = c # rest"
    using assms(3,6) by (simp_all add: takeWhile_append2 dropWhile_append2 list_all_iff)
  have b: "b \<noteq> 0x7B" "b \<noteq> 0x5B" "b \<noteq> 0x22" "b \<noteq> 0x74" "b \<noteq> 0x66" "b \<noteq> 0x6E" using assms(5) by (auto simp: s)
  have "parse_number f64 (s @ c # rest) = Done (Num n, c # rest)" using t assms(2) by (simp add: parse_number_def)
  then show ?thesis using assms(1,5) b by (cases fuel) (auto simp: s parse_value.simps(2))
qed

lemma string_json:
  assumes "0 < fuel" "utf8_valid s"
  shows "parse_value f64 fuel (json_string s @ rest) = Done (Str s, rest)"
  using string_value [of fuel "json_string s @ rest" f64] json_string_read [OF assms(2), of rest] assms(1)
  by (simp add: json_string_def peek_def)

lemma no_ws [simp]: "skip_ws (json_string s @ rest) = json_string s @ rest"
  by (simp add: skip_ws_def json_string_def is_ws_def)

lemma number_no_ws: "s \<noteq> [] \<Longrightarrow> list_all number_byte s \<Longrightarrow> skip_ws (s @ rest) = s @ rest"
  by (cases s) (auto simp: skip_ws_def is_ws_def number_byte_def)

lemma array_step:
  assumes "parse_value f64 n (skip_ws bs) = Done (val, c # rest)" "\<not> is_ws c"
  shows "array_loop f64 (Suc n) bs out
    = (if c = 0x2C then array_loop f64 n rest (out @ [val]) else if c = 0x5D then Done (Arr (out @ [val]), rest) else Fails (ArraySeparator (Some c)))"
proof -
  have sep: "peek (skip_ws (c # rest)) = Some c" "drop 1 (skip_ws (c # rest)) = rest" using assms(2) by (simp_all add: skip_ws_def peek_def)
  show ?thesis unfolding array_loop.simps(2) Let_def by (simp only: assms(1) and_then_simps split_conv sep) simp
qed

lemma event_json:
  assumes "prints_time f64 fmt (ce_time e)" "utf8_valid (ce_data e)" "scalar (letter (ce_code e))"
  shows "json_parse f64 (write_event fmt e)
    = Done (Arr [Num (ce_time e), Str (utf8_encode (letter (ce_code e))), Str (ce_data e)])"
proof -
  let ?t = "fmt (ce_time e)" and ?c = "utf8_encode (letter (ce_code e))"
  define fuel where "fuel = 2 * length (write_event fmt e) + 1"
  have "4 < fuel" by (simp add: fuel_def write_event_def json_string_def asc_def)
  then obtain n where fuel: "fuel = Suc (Suc (Suc (Suc (Suc n))))" by (auto dest!: less_imp_Suc_add)
  have t: "f64 ?t = Some (ce_time e)" "list_all number_byte ?t" "?t \<noteq> []" "hd ?t = 0x2D \<or> 0x30 \<le> hd ?t \<and> hd ?t \<le> 0x39"
    using assms(1) by (simp_all add: prints_time_def)
  have valid: "utf8_valid ?c" using utf8_valid_encode [OF assms(3), of "[]"] by simp
  let ?r1 = "json_string ?c @ 0x2C # json_string (ce_data e) @ [0x5D]"
  have w: "write_event fmt e = 0x5B # ?t @ 0x2C # ?r1" by (simp add: write_event_def asc_def of_char_def)
  have s1: "array_loop f64 (Suc (Suc (Suc (Suc n)))) (?t @ 0x2C # ?r1) [] = array_loop f64 (Suc (Suc (Suc n))) ?r1 [Num (ce_time e)]"
    using t number_value [of "Suc (Suc (Suc n))" f64 ?t "ce_time e" "0x2C" ?r1] number_no_ws [OF t(3,2), of "0x2C # ?r1"]
    by (subst array_step [where val = "Num (ce_time e)" and c = "0x2C" and rest = ?r1]) (simp_all add: number_byte_def is_ws_def)
  have s2: "array_loop f64 (Suc (Suc (Suc n))) ?r1 [Num (ce_time e)] = array_loop f64 (Suc (Suc n)) (json_string (ce_data e) @ [0x5D]) [Num (ce_time e), Str ?c]"
    using string_json [OF _ valid, of "Suc (Suc n)"]
    by (subst array_step [where val = "Str ?c" and c = "0x2C" and rest = "json_string (ce_data e) @ [0x5D]"]) (simp_all add: is_ws_def)
  have s3: "array_loop f64 (Suc (Suc n)) (json_string (ce_data e) @ [0x5D]) [Num (ce_time e), Str ?c] = Done (Arr [Num (ce_time e), Str ?c, Str (ce_data e)], [])"
    using string_json [OF _ assms(2), of "Suc n"]
    by (subst array_step [where val = "Str (ce_data e)" and c = "0x5D" and rest = "[]"]) (simp_all add: is_ws_def)
  have first: "peek (skip_ws (?t @ 0x2C # ?r1)) \<noteq> Some 0x5D"
    using t(3,4) number_no_ws [OF t(3,2), of "0x2C # ?r1"] by (cases ?t) (auto simp: peek_def)
  have "parse_value f64 fuel (0x5B # ?t @ 0x2C # ?r1) = array_loop f64 (Suc (Suc (Suc (Suc n)))) (?t @ 0x2C # ?r1) []"
    using first by (simp add: fuel parse_value.simps(2))
  then have "parse_value f64 fuel (write_event fmt e) = Done (Arr [Num (ce_time e), Str ?c, Str (ce_data e)], [])" unfolding w s1 s2 s3 .
  moreover have "skip_ws (write_event fmt e) = write_event fmt e" by (simp add: w skip_ws_def is_ws_def)
  moreover have "skip_ws [] = []" by (simp add: skip_ws_def)
  ultimately show ?thesis unfolding json_parse_def fuel_def [symmetric] by simp
qed

section \<open>The header\<close>

lemma decimal_number:
  "decimal n \<noteq> []" "list_all number_byte (decimal n)" "hd (decimal n) = 0x2D \<or> 0x30 \<le> hd (decimal n) \<and> hd (decimal n) \<le> 0x39"
  using decimal_digits [of n] decimal_plain [of _ n] by (auto simp: list_all_iff number_byte_def hd_in_set)

lemma object_step:
  assumes "utf8_valid key" "parse_value f64 n (skip_ws bs) = Done (val, c # rest)" "\<not> is_ws c"
  shows "object_loop f64 (Suc n) (json_string key @ 0x3A # bs) out
    = (if c = 0x2C then object_loop f64 n rest (out @ [(key, val)])
       else if c = 0x7D then Done (Obj (out @ [(key, val)]), rest) else Fails (ObjectSeparator (Some c)))"
proof -
  have q: "peek (json_string key @ bs') = Some 0x22" for bs' by (simp add: json_string_def peek_def)
  have colon: "peek (skip_ws (0x3A # bs)) = Some 0x3A" "drop 1 (skip_ws (0x3A # bs)) = bs" by (simp_all add: skip_ws_def peek_def is_ws_def)
  have sep: "peek (skip_ws (c # rest)) = Some c" "drop 1 (skip_ws (c # rest)) = rest" using assms(3) by (simp_all add: skip_ws_def peek_def)
  show ?thesis unfolding object_loop.simps(2) Let_def
    by (simp only: no_ws q json_string_read [OF assms(1)] and_then_simps split_conv colon assms(2) sep) simp
qed

lemma object_number:
  assumes "utf8_valid key" "f64 (decimal m) = Some a" "0 < n" "c = 0x2C \<or> c = 0x7D"
  shows "object_loop f64 (Suc n) (json_string key @ 0x3A # decimal m @ c # rest) out
    = (if c = 0x2C then object_loop f64 n rest (out @ [(key, Num a)]) else Done (Obj (out @ [(key, Num a)]), rest))"
proof -
  have c: "\<not> is_ws c" "\<not> number_byte c" using assms(4) by (auto simp: is_ws_def number_byte_def)
  have "parse_value f64 n (skip_ws (decimal m @ c # rest)) = Done (Num a, c # rest)"
    using number_value [of n f64 "decimal m" a c rest] number_no_ws [of "decimal m" "c # rest"] decimal_number [of m] assms(2,3) c(2) by simp
  from object_step [OF assms(1) this c(1), of out] assms(4) show ?thesis by auto
qed

lemma object_value: "parse_value f64 (Suc n) (0x7B # json_string key @ rest) = object_loop f64 n (json_string key @ rest) []"
proof -
  have "peek (json_string key @ rest) = Some 0x22" by (simp add: json_string_def peek_def)
  then show ?thesis by (simp add: parse_value.simps(2))
qed

lemma names_valid:
  "utf8_valid (asc ''version'')" "utf8_valid (asc ''width'')" "utf8_valid (asc ''height'')" "utf8_valid (asc ''posh_rec'')"
  "utf8_valid (asc ''v'')" "utf8_valid (asc ''emu_rev'')"
  by code_simp+

definition posh_rec_value :: "'n \<Rightarrow> PoshRec \<Rightarrow> 'n Value" where
  "posh_rec_value np pr = Obj [(asc ''v'', Num np), (asc ''emu_rev'', Str (pr_emu_rev pr))]"

definition header_value :: "'n \<Rightarrow> 'n \<Rightarrow> 'n \<Rightarrow> 'n \<Rightarrow> CastHeader \<Rightarrow> 'n Value" where
  "header_value nv nw nh np h =
     Obj ([(asc ''version'', Num nv), (asc ''width'', Num nw), (asc ''height'', Num nh)]
          @ (case ch_posh_rec h of None \<Rightarrow> [] | Some pr \<Rightarrow> [(asc ''posh_rec'', posh_rec_value np pr)]))"

lemma posh_rec_read:
  assumes "f64 (decimal (unat (pr_v pr))) = Some np" "utf8_valid (pr_emu_rev pr)"
  shows "parse_value f64 (Suc (Suc (Suc (Suc n)))) (0x7B # json_string (asc ''v'') @ 0x3A # decimal (unat (pr_v pr)) @ 0x2C
      # json_string (asc ''emu_rev'') @ 0x3A # json_string (pr_emu_rev pr) @ 0x7D # rest) = Done (posh_rec_value np pr, rest)"
  unfolding object_value posh_rec_value_def
  by (simp add: object_number [of _ f64 _ np, OF names_valid(5) assms(1)] object_step [OF names_valid(6)] string_json [OF _ assms(2)] is_ws_def)

lemma header_json:
  assumes "f64 (decimal (unat (ch_version h))) = Some nv" "f64 (decimal (unat (ch_width h))) = Some nw"
    and "f64 (decimal (unat (ch_height h))) = Some nh"
    and "\<And>pr. ch_posh_rec h = Some pr \<Longrightarrow> f64 (decimal (unat (pr_v pr))) = Some np \<and> utf8_valid (pr_emu_rev pr)"
  shows "json_parse f64 (write_header h) = Done (header_value nv nw nh np h)"
proof -
  define tail where "tail = (case ch_posh_rec h of None \<Rightarrow> [0x7D] | Some pr \<Rightarrow>
      0x2C # json_string (asc ''posh_rec'') @ 0x3A # 0x7B # json_string (asc ''v'') @ 0x3A # decimal (unat (pr_v pr)) @ 0x2C
      # json_string (asc ''emu_rev'') @ 0x3A # json_string (pr_emu_rev pr) @ [0x7D, 0x7D])"
  have w: "write_header h = 0x7B # json_string (asc ''version'') @ 0x3A # decimal (unat (ch_version h)) @ 0x2C
      # json_string (asc ''width'') @ 0x3A # decimal (unat (ch_width h)) @ 0x2C # json_string (asc ''height'') @ 0x3A # decimal (unat (ch_height h)) @ tail"
    by (simp add: write_header_def tail_def asc_def of_char_def split: option.split)
  define fuel where "fuel = 2 * length (write_header h) + 1"
  have "10 < fuel" by (simp add: fuel_def w json_string_def)
  then obtain n where fuel: "fuel = Suc (Suc (Suc (Suc (Suc (Suc (Suc (Suc (Suc (Suc n)))))))))" by (auto dest!: less_imp_Suc_add)
  have "parse_value f64 fuel (write_header h) = Done (header_value nv nw nh np h, [])"
  proof (cases "ch_posh_rec h")
    case None
    then show ?thesis unfolding w fuel object_value header_value_def tail_def
      by (simp add: object_number [of _ f64 _ nv, OF names_valid(1) assms(1)] object_number [of _ f64 _ nw, OF names_valid(2) assms(2)] object_number [of _ f64 _ nh, OF names_valid(3) assms(3)])
  next
    case (Some pr)
    have skip: "skip_ws (0x7B # bs) = 0x7B # bs" for bs by (simp add: skip_ws_def is_ws_def)
    have inner: "object_loop f64 (Suc (Suc (Suc (Suc (Suc k))))) (json_string (asc ''posh_rec'') @ 0x3A # 0x7B # json_string (asc ''v'') @ 0x3A
        # decimal (unat (pr_v pr)) @ 0x2C # json_string (asc ''emu_rev'') @ 0x3A # json_string (pr_emu_rev pr) @ [0x7D, 0x7D]) out
      = Done (Obj (out @ [(asc ''posh_rec'', posh_rec_value np pr)]), [])" for k out
      using posh_rec_read [of f64 pr np k "[0x7D]"] assms(4) [OF Some] skip
      by (subst object_step [OF names_valid(4), where val = "posh_rec_value np pr" and c = "0x7D" and rest = "[]"]) (simp_all add: is_ws_def)
    show ?thesis using Some unfolding w fuel object_value header_value_def tail_def
      by (simp add: object_number [of _ f64 _ nv, OF names_valid(1) assms(1)] object_number [of _ f64 _ nw, OF names_valid(2) assms(2)]
          object_number [of _ f64 _ nh, OF names_valid(3) assms(3)] inner)
  qed
  moreover have "skip_ws (write_header h) = write_header h" by (simp add: w skip_ws_def is_ws_def)
  moreover have "skip_ws [] = []" by (simp add: skip_ws_def)
  ultimately show ?thesis unfolding json_parse_def fuel_def [symmetric] by simp
qed

lemma header_project:
  assumes "ch_version h = 2" "int16 nv = Some (ch_version h)" "int16 nw = Some (ch_width h)" "int16 nh = Some (ch_height h)"
    and "\<And>pr. ch_posh_rec h = Some pr \<Longrightarrow> int16 np = Some (pr_v pr)"
  shows "parse_header int16 (header_value nv nw nh np h) = Done h"
proof -
  have k: "asc ''version'' \<noteq> asc ''width''" "asc ''version'' \<noteq> asc ''height''" "asc ''width'' \<noteq> asc ''height''" "asc ''version'' \<noteq> asc ''posh_rec''"
    "asc ''width'' \<noteq> asc ''posh_rec''" "asc ''height'' \<noteq> asc ''posh_rec''" "asc ''v'' \<noteq> asc ''emu_rev''"
    by (simp_all add: asc_def)
  show ?thesis using assms k k [symmetric]
    by (cases h) (auto simp: parse_header_def header_value_def posh_rec_value_def parse_posh_rec_def get_field_def as_u16_def as_str_def split: option.split)
qed

section \<open>Lines\<close>

lemma json_string_line: "0x0A \<notin> set (json_string s)"
proof -
  have "\<forall>d < 16. hex_char d \<noteq> 0x0A" by code_simp
  moreover have "unat (b :: u8) div 16 < 16" for b using unsigned_less [of b, where 'a = nat] by simp
  ultimately have "0x0A \<notin> set (escape_byte b)" for b by (auto simp: escape_byte_def dest: sym)
  then show ?thesis by (simp add: json_string_def)
qed

lemma decimal_line: "0x0A \<notin> set (decimal n)"
  using decimal_plain [of "0x0A" n] by auto

lemma header_line: "0x0A \<notin> set (write_header h) \<and> hd (write_header h) = 0x7B \<and> write_header h \<noteq> [] \<and> last (write_header h) = 0x7D"
  using json_string_line decimal_line by (auto simp: write_header_def asc_def of_char_def split: option.split)

lemma event_line:
  assumes "prints_time f64 fmt (ce_time e)"
  shows "0x0A \<notin> set (write_event fmt e) \<and> hd (write_event fmt e) = 0x5B \<and> write_event fmt e \<noteq> [] \<and> last (write_event fmt e) = 0x5D"
proof -
  have "0x0A \<notin> set (fmt (ce_time e))" using assms by (auto simp: prints_time_def list_all_iff number_byte_def)
  then show ?thesis using json_string_line by (auto simp: write_event_def asc_def of_char_def)
qed

lemma chars_ascii: "b < 0x80 \<Longrightarrow> utf8_chars (b # rest) = unat b # utf8_chars rest"
proof -
  assume b: "b < 0x80"
  then have "utf8_step b rest = (True, 1)" by (intro utf8_step_ok) (simp add: utf8_width_def)
  then show ?thesis using b by (simp add: utf8_chars.simps(2) char_value_def word_less_nat_alt)
qed

lemma utf8_chars_encode: "scalar c \<Longrightarrow> utf8_chars (utf8_encode c @ rest) = c # utf8_chars rest"
  using utf8_step_encode [of c rest] char_value_encode [of c] by (auto simp: utf8_chars.simps(2))

lemma next_line_text:
  assumes "line \<noteq> []" "hd line = 0x7B \<or> hd line = 0x5B" "last line \<noteq> 0x0D"
  shows "next_line (line # raws) n = Some (line, raws, n + 1)"
proof -
  obtain b rest where "line = b # rest" using assms(1) by (cases line) auto
  moreover have "strip_cr line = line" using assms(3) by (simp add: strip_cr_def)
  ultimately show ?thesis using assms(2) chars_ascii [of b rest] by (auto simp: is_whitespace_def)
qed

lemma next_line_shorter: "next_line raws n = Some (line, raws', n') \<Longrightarrow> length raws' < length raws"
  by (induction raws n rule: next_line.induct) (auto split: if_splits)

function read_events :: "(bytes \<Rightarrow> 'n option) \<Rightarrow> reader \<Rightarrow> (CastError, 'n CastEvent) outcome list" where
  "read_events f64 r = (case next_event f64 r of (None, _) \<Rightarrow> [] | (Some e, r') \<Rightarrow> e # read_events f64 r')"
  by pat_completeness auto
termination
  by (relation "measure (\<lambda>(f64, r). length (fst r))")
    (auto simp: next_event_def dest: next_line_shorter split: option.splits prod.splits)

declare read_events.simps [simp del]

definition known_code :: "EventCode \<Rightarrow> bool" where
  "known_code code \<longleftrightarrow> (case code of EvUnknown c \<Rightarrow> scalar c \<and> c \<notin> {0x6F, 0x69, 0x72, 0x6D} | _ \<Rightarrow> True)"

definition writable :: "(bytes \<Rightarrow> 'n option) \<Rightarrow> ('n \<Rightarrow> bytes) \<Rightarrow> 'n CastEvent \<Rightarrow> bool" where
  "writable f64 fmt e \<longleftrightarrow> prints_time f64 fmt (ce_time e) \<and> utf8_valid (ce_data e) \<and> known_code (ce_code e)"

lemma known_letter:
  assumes "known_code code"
  shows "scalar (letter code)" "from_letter (utf8_encode (letter code)) = code"
proof -
  show s: "scalar (letter code)" using assms by (cases code) (simp_all add: known_code_def letter_def scalar_def)
  have "utf8_chars (utf8_encode (letter code)) = [letter code]" using utf8_chars_encode [OF s, of "[]"] by simp
  then show "from_letter (utf8_encode (letter code)) = code"
    using assms by (cases code) (simp_all add: known_code_def letter_def from_letter_def)
qed

lemma event_read:
  fixes e :: "'n CastEvent"
  assumes "writable f64 fmt e"
  shows "read_line f64 parse_event n (write_event fmt e) = Done e"
proof -
  have w: "prints_time f64 fmt (ce_time e)" "utf8_valid (ce_data e)" "known_code (ce_code e)" using assms by (simp_all add: writable_def)
  have "parse_event (Arr [Num (ce_time e), Str (utf8_encode (letter (ce_code e))), Str (ce_data e)]) = Done e"
    using known_letter(2) [OF w(3)] by (cases e) (simp add: parse_event_def as_array_def as_f64_def as_str_def numeral_2_eq_2)
  then show ?thesis using event_json [OF w(1,2) known_letter(1) [OF w(3)]] by (simp add: read_line_def at_line_def)
qed

lemma records_lines:
  assumes "\<forall>e \<in> set evs. writable f64 fmt e"
  shows "split_all 0x0A (records fmt evs) = map (write_event fmt) evs @ [[]]"
  using assms
proof (induction evs)
  case (Cons e evs)
  then show ?case using event_line [of f64 fmt e] split_all_sep [of "0x0A" "write_event fmt e" "records fmt evs"]
    by (simp add: records_def writable_def)
qed (simp add: records_def split_all_none)

lemma events_read:
  fixes evs :: "'n CastEvent list"
  assumes "\<forall>e \<in> set evs. writable f64 fmt e"
  shows "read_events f64 (map (write_event fmt) evs @ [[]], n) = map Done evs"
  using assms
proof (induction evs arbitrary: n)
  case Nil
  show ?case by (simp add: read_events.simps [of f64 "([[]], n)"] next_event_def strip_cr_def)
next
  case (Cons e evs)
  let ?r = "(map (write_event fmt) (e # evs) @ [[]], n)"
  have e: "writable f64 fmt e" using Cons.prems by simp
  then have "next_line (write_event fmt e # map (write_event fmt) evs @ [[]]) n = Some (write_event fmt e, map (write_event fmt) evs @ [[]], n + 1)"
    using event_line [of f64 fmt e] by (intro next_line_text) (simp_all add: writable_def)
  then have "next_event f64 ?r = (Some (Done e), map (write_event fmt) evs @ [[]], n + 1)"
    using event_read [OF e] by (simp add: next_event_def)
  then have "read_events f64 ?r = Done e # read_events f64 (map (write_event fmt) evs @ [[]], n + 1)"
    by (subst read_events.simps) simp
  then show ?case using Cons by simp
qed

text \<open>A recording comes back as it was written.\<close>

theorem recording_read:
  fixes evs :: "'n CastEvent list"
  assumes "reads_u16 f64 int16" "ch_version h = 2" "\<And>pr. ch_posh_rec h = Some pr \<Longrightarrow> utf8_valid (pr_emu_rev pr)"
    and "\<forall>e \<in> set evs. writable f64 fmt e"
  shows "read_header f64 int16 (reader_new (write_header h @ [0x0A] @ records fmt evs)) = (Done h, map (write_event fmt) evs @ [[]], 1)"
    and "read_events f64 (map (write_event fmt) evs @ [[]], 1) = map Done evs"
proof -
  have u: "\<exists>n. f64 (decimal (unat w)) = Some n \<and> int16 n = Some w" for w using assms(1) by (simp add: reads_u16_def)
  obtain nv nw nh where n: "f64 (decimal (unat (ch_version h))) = Some nv" "int16 nv = Some (ch_version h)"
    "f64 (decimal (unat (ch_width h))) = Some nw" "int16 nw = Some (ch_width h)"
    "f64 (decimal (unat (ch_height h))) = Some nh" "int16 nh = Some (ch_height h)" using u by metis
  obtain np where np: "f64 (decimal (unat (pr_v (the (ch_posh_rec h))))) = Some np" "int16 np = Some (pr_v (the (ch_posh_rec h)))" using u by metis
  have "read_line f64 (parse_header int16) 1 (write_header h) = Done h"
  proof -
    have np': "f64 (decimal (unat (pr_v pr))) = Some np" "int16 np = Some (pr_v pr)" if "ch_posh_rec h = Some pr" for pr using np that by simp_all
    have "json_parse f64 (write_header h) = Done (header_value nv nw nh np h)" using n(1,3,5) np'(1) assms(3) by (intro header_json) auto
    moreover have "parse_header int16 (header_value nv nw nh np h) = Done h" using n(2,4,6) np'(2) assms(2) by (intro header_project) auto
    ultimately show ?thesis by (simp add: read_line_def at_line_def)
  qed
  moreover have "split_all 0x0A (write_header h @ [0x0A] @ records fmt evs) = write_header h # map (write_event fmt) evs @ [[]]"
    using header_line [of h] split_all_sep [of "0x0A" "write_header h" "records fmt evs"] records_lines [OF assms(4)] by simp
  moreover have "next_line (write_header h # map (write_event fmt) evs @ [[]]) 0 = Some (write_header h, map (write_event fmt) evs @ [[]], 0 + 1)"
    using header_line [of h] by (intro next_line_text) simp_all
  ultimately show "read_header f64 int16 (reader_new (write_header h @ [0x0A] @ records fmt evs)) = (Done h, map (write_event fmt) evs @ [[]], 1)"
    by (simp add: read_header_def reader_new_def)
qed (rule events_read [OF assms(4)])

end
