(* ===== verification/Player.thy ===== *)
theory Player
  imports Castx_Replay Process
begin

text \<open>
  \<open>crates/posh-rec/src/player.rs\<close>: a recording is flattened into one byte stream with annotations at offsets, and
  a cursor walks over it in steps of several kinds. A step is nested twice in an option: the outer \<open>None\<close> is a step that
  does not return, the inner one a terminal that stops the program. Times are of an abstract type, and
  \<open>in_gap next cur gap\<close> stands for \<open>next - cur <= gap\<close>. Whatever the steps, the same screen is reached.
\<close>

section \<open>Flattening\<close>

datatype Granularity = ByByte | ByEscape | ByWrite | ByChange | ByFrame | ByMarker

definition parse_granularity :: "bytes \<Rightarrow> Granularity option" where
  "parse_granularity s =
     (if s = asc ''byte'' then Some ByByte else if s = asc ''escape'' then Some ByEscape else if s = asc ''write'' then Some ByWrite
      else if s = asc ''change'' then Some ByChange else if s = asc ''frame'' then Some ByFrame
      else if s = asc ''marker'' then Some ByMarker else None)"

record ('g, 'n) Player =
  py_term :: "'g Terminal"
  py_flat :: bytes
  py_cursor :: nat
  py_writes :: "nat list"
  py_resizes :: "(nat \<times> u16 \<times> u16) list"
  py_marks :: "(nat \<times> bytes) list"
  py_times :: "(nat \<times> 'n) list"
  py_next_resize :: nat
  py_frame_gap :: 'n
  py_emu_rev :: "bytes option"

definition trim_text :: "bytes \<Rightarrow> bytes" where
  "trim_text s = concat (map utf8_encode (rev (dropWhile is_whitespace (rev (dropWhile is_whitespace (utf8_chars s))))))"

text \<open>\<open>str::parse::<u16>()\<close>: digits behind an optional plus sign.\<close>

definition parse_u16 :: "bytes \<Rightarrow> u16 option" where
  "parse_u16 s =
     (let digits = (case s of [] \<Rightarrow> [] | b # rest \<Rightarrow> if b = 0x2B then rest else s)
      in Option.bind (digits_value digits) (\<lambda>n. if n < 2 ^ 16 then Some (word_of_nat n) else None))"

definition parse_resize :: "bytes \<Rightarrow> (u16 \<times> u16) option" where
  "parse_resize data =
     Option.bind (split_once 0x78 data) (\<lambda>(w, h).
     Option.bind (parse_u16 (trim_text w)) (\<lambda>cols. Option.bind (parse_u16 (trim_text h)) (\<lambda>rows. Some (cols, rows))))"

text \<open>One event added to the player that is being built.\<close>

definition add_event :: "'n CastEvent \<Rightarrow> ('g, 'n) Player \<Rightarrow> ('g, 'n) Player" where
  "add_event e p =
     (let here = length (py_flat p)
      in case ce_code e of
           EvOutput \<Rightarrow> p\<lparr>py_writes := py_writes p @ [here], py_times := py_times p @ [(here, ce_time e)], py_flat := py_flat p @ ce_data e\<rparr>
         | EvResize \<Rightarrow> (case parse_resize (ce_data e) of None \<Rightarrow> p | Some (cols, rows) \<Rightarrow> p\<lparr>py_resizes := py_resizes p @ [(here, cols, rows)]\<rparr>)
         | EvMarker \<Rightarrow> p\<lparr>py_marks := py_marks p @ [(here, ce_data e)]\<rparr>
         | _ \<Rightarrow> p)"

function add_events :: "(bytes \<Rightarrow> 'n option) \<Rightarrow> reader \<Rightarrow> ('g, 'n) Player \<Rightarrow> (CastError, ('g, 'n) Player) outcome" where
  "add_events f64 r p =
     (case next_event f64 r of
        (None, _) \<Rightarrow> Done p
      | (Some (Done e), r') \<Rightarrow> add_events f64 r' (add_event e p)
      | (Some (Fails e), _) \<Rightarrow> Fails e
      | (Some Stops, _) \<Rightarrow> Stops)"
  by pat_completeness auto
termination
  by (relation "measure (\<lambda>(f64, r, p). length (fst r))")
    (auto simp: next_event_def dest: next_line_shorter split: option.splits prod.splits)

declare add_events.simps [simp del]

definition from_source :: "(bytes \<Rightarrow> 'n option) \<Rightarrow> ('n \<Rightarrow> u16 option) \<Rightarrow> 'n \<Rightarrow> 'g \<Rightarrow> bytes \<Rightarrow> (CastError, ('g, 'n) Player) outcome" where
  "from_source f64 int16 default_gap g src =
     (let (header, r) = read_header f64 int16 (reader_new src)
      in and_then header (\<lambda>h.
        add_events f64 r
          \<lparr>py_term = terminal_new g (unat (ch_height h)) (unat (ch_width h)), py_flat = [], py_cursor = 0, py_writes = [],
           py_resizes = [], py_marks = [], py_times = [], py_next_resize = 0, py_frame_gap = default_gap,
           py_emu_rev = map_option pr_emu_rev (ch_posh_rec h)\<rparr>))"

definition with_frame_gap :: "'n \<Rightarrow> ('g, 'n) Player \<Rightarrow> ('g, 'n) Player" where
  "with_frame_gap secs p = p\<lparr>py_frame_gap := secs\<rparr>"

section \<open>Position\<close>

definition at_end :: "('g, 'n) Player \<Rightarrow> bool" where
  "at_end p \<longleftrightarrow> length (py_flat p) \<le> py_cursor p"

fun time_at :: "(nat \<times> 'n) list \<Rightarrow> nat \<Rightarrow> 'n \<Rightarrow> 'n" where
  "time_at [] offset t = t"
| "time_at ((at, et) # ts) offset t = (if at \<le> offset then time_at ts offset et else t)"

definition event_time_at :: "'n \<Rightarrow> nat \<Rightarrow> ('g, 'n) Player \<Rightarrow> 'n" where
  "event_time_at zero offset p = time_at (py_times p) offset zero"

record 'n StepPos =
  sp_byte_offset :: nat
  sp_generation :: u64
  sp_marker :: "bytes option"
  sp_time :: 'n

definition position :: "'n \<Rightarrow> ('g, 'n) Player \<Rightarrow> 'n StepPos" where
  "position zero p =
     \<lparr>sp_byte_offset = py_cursor p, sp_generation = t_generation (py_term p),
      sp_marker = map_option snd (find (\<lambda>(at, _). at \<le> py_cursor p) (rev (py_marks p))), sp_time = event_time_at zero (py_cursor p) p\<rparr>"

section \<open>Feeding\<close>

definition apply_resize :: "('g, 'n) Player \<Rightarrow> ('g, 'n) Player" where
  "apply_resize p =
     (let (_, cols, rows) = py_resizes p ! py_next_resize p
      in p\<lparr>py_term := terminal_resize (unat rows) (unat cols) (py_term p), py_next_resize := py_next_resize p + 1\<rparr>)"

function apply_resizes_through :: "nat \<Rightarrow> ('g, 'n) Player \<Rightarrow> ('g, 'n) Player" where
  "apply_resizes_through offset p =
     (if py_next_resize p < length (py_resizes p) \<and> fst (py_resizes p ! py_next_resize p) \<le> offset
      then apply_resizes_through offset (apply_resize p) else p)"
  by pat_completeness auto
termination
  by (relation "measure (\<lambda>(offset, p). length (py_resizes p) - py_next_resize p)") (auto simp: apply_resize_def case_prod_unfold Let_def)

declare apply_resizes_through.simps [simp del]

definition flush_trailing_resizes :: "('g, 'n) Player \<Rightarrow> ('g, 'n) Player" where
  "flush_trailing_resizes p = (if at_end p then apply_resizes_through (length (py_flat p)) p else p)"

text \<open>Whether a byte was fed, and the player after it; the replies of the terminal are dropped.\<close>

definition feed_byte :: "'g graphics_dispatch \<Rightarrow> 'g \<Rightarrow> ('g, 'n) Player \<Rightarrow> (bool \<times> ('g, 'n) Player) option" where
  "feed_byte gd g0 p =
     (if at_end p then Some (False, p)
      else let q = apply_resizes_through (py_cursor p) p
           in Option.bind (process gd g0 [py_flat q ! py_cursor q] (py_term q)) (\<lambda>t.
              Some (True, q\<lparr>py_term := t\<lparr>t_responses := []\<rparr>, py_cursor := py_cursor q + 1\<rparr>)))"

definition remaining :: "('g, 'n) Player \<Rightarrow> nat" where
  "remaining p = length (py_flat p) - py_cursor p"

lemma resizes_form: "\<exists>t n. apply_resizes_through offset p = p\<lparr>py_term := t, py_next_resize := n\<rparr>"
proof (induction offset p rule: apply_resizes_through.induct)
  case (1 offset p)
  show ?case
  proof (cases "py_next_resize p < length (py_resizes p) \<and> fst (py_resizes p ! py_next_resize p) \<le> offset")
    case True
    obtain t n where "apply_resizes_through offset (apply_resize p) = (apply_resize p)\<lparr>py_term := t, py_next_resize := n\<rparr>" using 1 [OF True] by blast
    moreover have "apply_resizes_through offset p = apply_resizes_through offset (apply_resize p)" using True by (subst apply_resizes_through.simps) simp
    ultimately show ?thesis by (intro exI [of _ t] exI [of _ n]) (simp add: apply_resize_def case_prod_unfold Let_def)
  next
    case False
    then have "apply_resizes_through offset p = p" by (subst apply_resizes_through.simps) auto
    then show ?thesis by (intro exI [of _ "py_term p"] exI [of _ "py_next_resize p"]) simp
  qed
qed

lemma resizes_keep [simp]:
  "py_flat (apply_resizes_through offset p) = py_flat p" "py_cursor (apply_resizes_through offset p) = py_cursor p"
  "py_times (apply_resizes_through offset p) = py_times p" "py_writes (apply_resizes_through offset p) = py_writes p"
  "py_marks (apply_resizes_through offset p) = py_marks p" "py_resizes (apply_resizes_through offset p) = py_resizes p"
  "at_end (apply_resizes_through offset p) = at_end p"
  using resizes_form [of offset p] by (auto simp: at_end_def)

lemma resizes_done:
  "\<not> (py_next_resize (apply_resizes_through offset p) < length (py_resizes p) \<and> fst (py_resizes p ! py_next_resize (apply_resizes_through offset p)) \<le> offset)"
proof (induction offset p rule: apply_resizes_through.induct)
  case (1 offset p)
  show ?case
  proof (cases "py_next_resize p < length (py_resizes p) \<and> fst (py_resizes p ! py_next_resize p) \<le> offset")
    case True
    moreover have "apply_resizes_through offset p = apply_resizes_through offset (apply_resize p)" using True by (subst apply_resizes_through.simps) simp
    moreover have "py_resizes (apply_resize p) = py_resizes p" by (simp add: apply_resize_def case_prod_unfold Let_def)
    ultimately show ?thesis using 1 [OF True] by simp
  next
    case False
    then have "apply_resizes_through offset p = p" by (subst apply_resizes_through.simps) auto
    then show ?thesis using False by simp
  qed
qed

lemma resizes_twice [simp]: "apply_resizes_through offset (apply_resizes_through offset p) = apply_resizes_through offset p"
  using resizes_done [of offset p] by (subst apply_resizes_through.simps) auto

lemma flush_twice [simp]: "flush_trailing_resizes (flush_trailing_resizes p) = flush_trailing_resizes p"
  and flush_end [simp]: "at_end (flush_trailing_resizes p) = at_end p"
  and flush_cursor [simp]: "py_cursor (flush_trailing_resizes p) = py_cursor p" "py_flat (flush_trailing_resizes p) = py_flat p"
  by (simp_all add: flush_trailing_resizes_def)

lemma fed_byte:
  assumes "feed_byte gd g0 p = Some (fed, q)"
  shows "fed \<longleftrightarrow> \<not> at_end p" "\<not> fed \<Longrightarrow> q = p" "fed \<Longrightarrow> py_cursor q = py_cursor p + 1 \<and> py_flat q = py_flat p"
  using assms by (auto simp: feed_byte_def Let_def bind_eq_Some_conv split: if_splits)

lemma fed_remaining: "feed_byte gd g0 p = Some (True, q) \<Longrightarrow> remaining q < remaining p"
  using fed_byte [of gd g0 p True q] by (auto simp: remaining_def at_end_def)

function feed_loop :: "'g graphics_dispatch \<Rightarrow> 'g \<Rightarrow> nat \<Rightarrow> ('g, 'n) Player \<Rightarrow> ('g, 'n) Player option" where
  "feed_loop gd g0 target p =
     (if py_cursor p < target
      then (case feed_byte gd g0 p of None \<Rightarrow> None | Some (fed, q) \<Rightarrow> if fed then feed_loop gd g0 target q else Some q)
      else Some p)"
  by pat_completeness auto
termination
  by (relation "measure (\<lambda>(gd, g0, target, p). remaining p)") (auto dest: fed_remaining)

declare feed_loop.simps [simp del]

definition feed_until :: "'g graphics_dispatch \<Rightarrow> 'g \<Rightarrow> nat \<Rightarrow> ('g, 'n) Player \<Rightarrow> ('g, 'n) Player option" where
  "feed_until gd g0 target p = map_option flush_trailing_resizes (feed_loop gd g0 target p)"

section \<open>Steps\<close>

text \<open>The rest of an escape sequence, and of a run without an introducer.\<close>

function escape_rest :: "'g graphics_dispatch \<Rightarrow> 'g \<Rightarrow> ('g, 'n) Player \<Rightarrow> ('g, 'n) Player option" where
  "escape_rest gd g0 p =
     (if \<not> at_end p \<and> mid_escape (t_parser (py_term p))
      then (case feed_byte gd g0 p of None \<Rightarrow> None | Some (fed, q) \<Rightarrow> if fed then escape_rest gd g0 q else Some q)
      else Some p)"
  by pat_completeness auto
termination
  by (relation "measure (\<lambda>(gd, g0, p). remaining p)") (auto dest: fed_remaining)

definition introducer :: "u8 \<Rightarrow> bool" where
  "introducer b \<longleftrightarrow> b = 0x1B \<or> b = 0x9B"

function run_rest :: "'g graphics_dispatch \<Rightarrow> 'g \<Rightarrow> ('g, 'n) Player \<Rightarrow> ('g, 'n) Player option" where
  "run_rest gd g0 p =
     (if \<not> at_end p \<and> \<not> introducer (py_flat p ! py_cursor p)
      then (case feed_byte gd g0 p of None \<Rightarrow> None | Some (fed, q) \<Rightarrow> if fed then run_rest gd g0 q else Some q)
      else Some p)"
  by pat_completeness auto
termination
  by (relation "measure (\<lambda>(gd, g0, p). remaining p)") (auto dest: fed_remaining)

declare escape_rest.simps [simp del] run_rest.simps [simp del]

definition step_escape :: "'g graphics_dispatch \<Rightarrow> 'g \<Rightarrow> ('g, 'n) Player \<Rightarrow> (bool \<times> ('g, 'n) Player) option" where
  "step_escape gd g0 p =
     (if at_end p then Some (False, p)
      else map_option (Pair True)
        (if introducer (py_flat p ! py_cursor p) then Option.bind (feed_byte gd g0 p) (\<lambda>(_, q). escape_rest gd g0 q)
         else run_rest gd g0 p))"

definition step_write :: "'g graphics_dispatch \<Rightarrow> 'g \<Rightarrow> ('g, 'n) Player \<Rightarrow> (bool \<times> ('g, 'n) Player) option" where
  "step_write gd g0 p =
     (if at_end p then Some (False, p)
      else let target = (case find (\<lambda>w. w > py_cursor p) (py_writes p) of None \<Rightarrow> length (py_flat p) | Some w \<Rightarrow> w)
           in map_option (Pair True) (feed_until gd g0 target p))"

function change_loop :: "'g graphics_dispatch \<Rightarrow> 'g \<Rightarrow> u64 \<Rightarrow> ('g, 'n) Player \<Rightarrow> ('g, 'n) Player option" where
  "change_loop gd g0 gen p =
     (if at_end p then Some p
      else case feed_byte gd g0 p of
             None \<Rightarrow> None
           | Some (fed, q) \<Rightarrow> if t_generation (py_term q) \<noteq> gen \<or> \<not> fed then Some q else change_loop gd g0 gen q)"
  by pat_completeness auto
termination
  by (relation "measure (\<lambda>(gd, g0, gen, p). remaining p)") (auto dest: fed_remaining)

declare change_loop.simps [simp del]

definition step_to_change :: "'g graphics_dispatch \<Rightarrow> 'g \<Rightarrow> ('g, 'n) Player \<Rightarrow> (bool \<times> ('g, 'n) Player) option" where
  "step_to_change gd g0 p =
     (if at_end p then Some (False, p)
      else map_option (\<lambda>q. (True, flush_trailing_resizes q)) (change_loop gd g0 (t_generation (py_term p)) p))"

definition step_marker :: "'g graphics_dispatch \<Rightarrow> 'g \<Rightarrow> ('g, 'n) Player \<Rightarrow> (bool \<times> ('g, 'n) Player) option" where
  "step_marker gd g0 p =
     (if at_end p then Some (False, p)
      else case find (\<lambda>at. at > py_cursor p) (map fst (py_marks p)) of
             None \<Rightarrow> Some (False, p)
           | Some target \<Rightarrow> map_option (Pair True) (feed_until gd g0 target p))"

definition step_to_marker :: "'g graphics_dispatch \<Rightarrow> 'g \<Rightarrow> bytes \<Rightarrow> ('g, 'n) Player \<Rightarrow> (bool \<times> ('g, 'n) Player) option" where
  "step_to_marker gd g0 name p =
     (case find (\<lambda>(at, n). at \<ge> py_cursor p \<and> n = name) (py_marks p) of
        None \<Rightarrow> Some (False, p)
      | Some (target, _) \<Rightarrow> map_option (Pair True) (feed_until gd g0 target p))"

text \<open>The loop over a burst of writes need not end.\<close>

partial_function (option) frame_loop ::
  "'g graphics_dispatch \<Rightarrow> 'g \<Rightarrow> ('n \<Rightarrow> 'n \<Rightarrow> 'n \<Rightarrow> bool) \<Rightarrow> 'n \<Rightarrow> ('g, 'n) Player \<Rightarrow> ('g, 'n) Player option option" where
  "frame_loop gd g0 in_gap cur p =
     (case find (\<lambda>(at, _). at = py_cursor p) (py_times p) of
        None \<Rightarrow> Some (Some p)
      | Some (_, next_t) \<Rightarrow>
          if in_gap next_t cur (py_frame_gap p)
          then (case step_write gd g0 p of None \<Rightarrow> Some None | Some (_, q) \<Rightarrow> frame_loop gd g0 in_gap next_t q)
          else Some (Some p))"

definition step_frame ::
  "'g graphics_dispatch \<Rightarrow> 'g \<Rightarrow> ('n \<Rightarrow> 'n \<Rightarrow> 'n \<Rightarrow> bool) \<Rightarrow> 'n \<Rightarrow> ('g, 'n) Player \<Rightarrow> (bool \<times> ('g, 'n) Player) option option" where
  "step_frame gd g0 in_gap zero p =
     (if at_end p then Some (Some (False, p))
      else case step_write gd g0 p of
             None \<Rightarrow> Some None
           | Some (_, q) \<Rightarrow> map_option (map_option (Pair True)) (frame_loop gd g0 in_gap (event_time_at zero (py_cursor p) p) q))"

definition advance_by ::
  "'g graphics_dispatch \<Rightarrow> 'g \<Rightarrow> ('n \<Rightarrow> 'n \<Rightarrow> 'n \<Rightarrow> bool) \<Rightarrow> 'n \<Rightarrow> Granularity \<Rightarrow> ('g, 'n) Player
     \<Rightarrow> (bool \<times> ('g, 'n) Player) option option" where
  "advance_by gd g0 in_gap zero kind p =
     (case kind of
        ByByte \<Rightarrow> Some (feed_byte gd g0 p) | ByEscape \<Rightarrow> Some (step_escape gd g0 p) | ByWrite \<Rightarrow> Some (step_write gd g0 p)
      | ByChange \<Rightarrow> Some (step_to_change gd g0 p) | ByFrame \<Rightarrow> step_frame gd g0 in_gap zero p | ByMarker \<Rightarrow> Some (step_marker gd g0 p))"

fun step_loop ::
  "'g graphics_dispatch \<Rightarrow> 'g \<Rightarrow> ('n \<Rightarrow> 'n \<Rightarrow> 'n \<Rightarrow> bool) \<Rightarrow> 'n \<Rightarrow> Granularity \<Rightarrow> nat \<Rightarrow> nat \<Rightarrow> ('g, 'n) Player
     \<Rightarrow> (nat \<times> ('g, 'n) Player) option option" where
  "step_loop gd g0 in_gap zero kind 0 taken p = Some (Some (taken, p))"
| "step_loop gd g0 in_gap zero kind (Suc n) taken p =
     (case advance_by gd g0 in_gap zero kind p of
        None \<Rightarrow> None
      | Some None \<Rightarrow> Some None
      | Some (Some (advanced, q)) \<Rightarrow>
          if advanced then step_loop gd g0 in_gap zero kind n (taken + 1) q else Some (Some (taken, q)))"

definition player_step ::
  "'g graphics_dispatch \<Rightarrow> 'g \<Rightarrow> ('n \<Rightarrow> 'n \<Rightarrow> 'n \<Rightarrow> bool) \<Rightarrow> 'n \<Rightarrow> Granularity \<Rightarrow> nat \<Rightarrow> ('g, 'n) Player
     \<Rightarrow> (nat \<times> ('g, 'n) Player) option option" where
  "player_step gd g0 in_gap zero kind n p =
     map_option (map_option (apsnd flush_trailing_resizes)) (step_loop gd g0 in_gap zero kind n 0 p)"

definition step_to_end ::
  "'g graphics_dispatch \<Rightarrow> 'g \<Rightarrow> ('n \<Rightarrow> 'n \<Rightarrow> 'n \<Rightarrow> bool) \<Rightarrow> 'n \<Rightarrow> ('g, 'n) Player \<Rightarrow> ('g, 'n) Player option option" where
  "step_to_end gd g0 in_gap zero p = map_option (map_option snd) (player_step gd g0 in_gap zero ByWrite (2 ^ 64 - 1) p)"

section \<open>Every step plays on\<close>

text \<open>Feeding all that is left, a byte at a time, and the resizes behind it.\<close>

function play_on :: "'g graphics_dispatch \<Rightarrow> 'g \<Rightarrow> ('g, 'n) Player \<Rightarrow> ('g, 'n) Player option" where
  "play_on gd g0 p =
     (case feed_byte gd g0 p of None \<Rightarrow> None | Some (fed, q) \<Rightarrow> if fed then play_on gd g0 q else Some (flush_trailing_resizes q))"
  by pat_completeness auto
termination
  by (relation "measure (\<lambda>(gd, g0, p). remaining p)") (auto dest: fed_remaining)

declare play_on.simps [simp del]

lemma play_on_end: "at_end p \<Longrightarrow> play_on gd g0 p = Some (flush_trailing_resizes p)"
  by (subst play_on.simps) (simp add: feed_byte_def)

lemma play_on_flush [simp]: "play_on gd g0 (flush_trailing_resizes p) = play_on gd g0 p"
  by (cases "at_end p") (simp_all add: play_on_end flush_trailing_resizes_def)

text \<open>A step that leaves the rest to be played.\<close>

definition plays :: "'g graphics_dispatch \<Rightarrow> 'g \<Rightarrow> ('g, 'n) Player \<Rightarrow> ('g, 'n) Player option \<Rightarrow> bool" where
  "plays gd g0 p r \<longleftrightarrow> play_on gd g0 p = Option.bind r (play_on gd g0)"

lemma plays_Some [simp]: "plays gd g0 p (Some q) \<longleftrightarrow> play_on gd g0 p = play_on gd g0 q"
  by (simp add: plays_def)

lemma plays_None [simp]: "plays gd g0 p None \<longleftrightarrow> play_on gd g0 p = None"
  by (simp add: plays_def)

lemma plays_feed: "plays gd g0 p (map_option snd (feed_byte gd g0 p))"
proof (cases "feed_byte gd g0 p")
  case (Some r)
  obtain fed q where r: "r = (fed, q)" by (cases r)
  show ?thesis
  proof (cases fed)
    case False
    then show ?thesis using Some fed_byte(2) [of gd g0 p fed q] by (simp add: r)
  next
    case True
    then have "play_on gd g0 p = play_on gd g0 q" using Some by (subst play_on.simps) (simp add: r)
    then show ?thesis using Some by (simp add: r)
  qed
qed (simp add: play_on.simps [of gd g0 p])

lemma plays_feedD: "feed_byte gd g0 p = Some (fed, q) \<Longrightarrow> play_on gd g0 p = play_on gd g0 q"
  "feed_byte gd g0 p = None \<Longrightarrow> play_on gd g0 p = None"
  using plays_feed [of gd g0 p] by simp_all

lemma plays_flush: "plays gd g0 p r \<Longrightarrow> plays gd g0 p (map_option flush_trailing_resizes r)"
  by (cases r) simp_all

lemma plays_loop: "plays gd g0 p (feed_loop gd g0 target p)"
proof (induction gd g0 target p rule: feed_loop.induct)
  case (1 gd g0 target p)
  then show ?case
    by (subst feed_loop.simps) (auto simp: plays_feedD plays_def split: option.split prod.split)
qed

lemma plays_until: "plays gd g0 p (feed_until gd g0 target p)"
  unfolding feed_until_def by (intro plays_flush plays_loop)

lemma plays_escape: "plays gd g0 p (escape_rest gd g0 p)"
proof (induction gd g0 p rule: escape_rest.induct)
  case (1 gd g0 p)
  then show ?case
    by (subst escape_rest.simps) (auto simp: plays_feedD plays_def split: option.split prod.split)
qed

lemma plays_run: "plays gd g0 p (run_rest gd g0 p)"
proof (induction gd g0 p rule: run_rest.induct)
  case (1 gd g0 p)
  then show ?case
    by (subst run_rest.simps) (auto simp: plays_feedD plays_def split: option.split prod.split)
qed

lemma plays_change: "plays gd g0 p (change_loop gd g0 gen p)"
proof (induction gd g0 gen p rule: change_loop.induct)
  case (1 gd g0 gen p)
  then show ?case
    by (subst change_loop.simps) (auto simp: plays_feedD plays_def split: option.split prod.split)
qed

lemma snd_pair [simp]: "map_option snd (map_option (Pair b) r) = r"
  by (cases r) simp_all

lemma plays_step_escape: "plays gd g0 p (map_option snd (step_escape gd g0 p))"
proof (cases "feed_byte gd g0 p")
  case None
  then show ?thesis using plays_run [of gd g0 p] plays_feedD(2) [OF None] by (simp add: step_escape_def)
next
  case (Some r)
  then show ?thesis using plays_run [of gd g0 p] plays_feedD(1) [of gd g0 p "fst r" "snd r"] plays_escape [of gd g0 "snd r"]
    by (simp add: step_escape_def plays_def case_prod_unfold)
qed

lemma plays_step_write: "plays gd g0 p (map_option snd (step_write gd g0 p))"
  by (simp add: step_write_def Let_def plays_until)

lemma plays_step_marker: "plays gd g0 p (map_option snd (step_marker gd g0 p))"
  by (simp add: step_marker_def plays_until split: option.split)

lemma plays_to_marker: "plays gd g0 p (map_option snd (step_to_marker gd g0 name p))"
  by (auto simp: step_to_marker_def plays_until split: option.split)

lemma plays_to_change: "plays gd g0 p (map_option snd (step_to_change gd g0 p))"
  using plays_flush [OF plays_change [of gd g0 p "t_generation (py_term p)"]] by (simp add: step_to_change_def option.map_comp comp_def)

lemma plays_frame_loop:
  assumes "frame_loop gd g0 in_gap cur p = Some r"
  shows "plays gd g0 p r"
proof (rule frame_loop.raw_induct [of "\<lambda>gd g0 in_gap cur p r. plays gd g0 p r", OF _ assms])
  fix loop gd g0 in_gap cur r and p :: "('a, 'b) Player"
  assume IH: "\<And>gd g0 in_gap cur (p :: ('a, 'b) Player) r. loop gd g0 in_gap cur p = Some r \<Longrightarrow> plays gd g0 p r"
    and body: "(case find (\<lambda>(at, _). at = py_cursor p) (py_times p) of None \<Rightarrow> Some (Some p)
      | Some (_, next_t) \<Rightarrow>
          if in_gap next_t cur (py_frame_gap p)
          then (case step_write gd g0 p of None \<Rightarrow> Some None | Some (_, q) \<Rightarrow> loop gd g0 in_gap next_t q)
          else Some (Some p)) = Some r"
  have w: "step_write gd g0 p = Some (b, q) \<Longrightarrow> play_on gd g0 p = play_on gd g0 q" "step_write gd g0 p = None \<Longrightarrow> play_on gd g0 p = None" for b q
    using plays_step_write [of gd g0 p] by auto
  show "plays gd g0 p r" using body by (auto simp: plays_def w split: option.splits if_splits prod.splits dest!: IH)
qed

lemma plays_step_frame: "step_frame gd g0 in_gap zero p = Some r \<Longrightarrow> plays gd g0 p (map_option snd r)"
  using plays_step_write [of gd g0 p] by (auto simp: step_frame_def plays_def split: option.splits if_splits dest!: plays_frame_loop)

lemma plays_advance: "advance_by gd g0 in_gap zero kind p = Some r \<Longrightarrow> plays gd g0 p (map_option snd r)"
  by (cases kind) (auto simp: advance_by_def plays_feed plays_step_escape plays_step_write plays_to_change plays_step_marker dest: plays_step_frame)

lemma plays_step_loop: "step_loop gd g0 in_gap zero kind n taken p = Some r \<Longrightarrow> plays gd g0 p (map_option snd r)"
proof (induction gd g0 in_gap zero kind n taken p rule: step_loop.induct)
  case (2 gd g0 in_gap zero kind n taken p)
  show ?case using 2 plays_advance [of gd g0 in_gap zero kind p]
    by (auto simp: plays_def split: option.splits if_splits prod.splits)
qed auto

theorem step_plays: "player_step gd g0 in_gap zero kind n p = Some r \<Longrightarrow> plays gd g0 p (map_option snd r)"
  using plays_step_loop [of gd g0 in_gap zero kind n 0 p]
  by (auto simp: player_step_def plays_def option.map_comp comp_def map_option_case split: option.splits)

section \<open>The end is reached\<close>

lemma loop_moves:
  assumes "feed_loop gd g0 target p = Some q"
  shows "py_flat q = py_flat p \<and> py_cursor p \<le> py_cursor q \<and> (\<not> at_end p \<and> py_cursor p < target \<longrightarrow> py_cursor p < py_cursor q)"
  using assms
proof (induction gd g0 target p arbitrary: q rule: feed_loop.induct)
  case (1 gd g0 target p)
  show ?case
  proof (cases "py_cursor p < target")
    case True
    then obtain fed r where r: "feed_byte gd g0 p = Some (fed, r)" and q: "(if fed then feed_loop gd g0 target r else Some r) = Some q"
      using 1(2) by (subst (asm) feed_loop.simps) (auto split: option.splits)
    show ?thesis
    proof (cases fed)
      case True': True
      then show ?thesis using 1(1) [OF True r refl True', of q] q fed_byte(3) [OF r True'] by auto
    next
      case False
      then show ?thesis using q fed_byte(1,2) [OF r] by simp
    qed
  next
    case False
    then show ?thesis using 1(2) by (subst (asm) feed_loop.simps) auto
  qed
qed

lemma write_moves:
  assumes "step_write gd g0 p = Some (advanced, q)"
  shows "advanced \<longleftrightarrow> \<not> at_end p" "\<not> advanced \<Longrightarrow> q = p" "advanced \<Longrightarrow> remaining q < remaining p"
proof -
  show "advanced \<longleftrightarrow> \<not> at_end p" "\<not> advanced \<Longrightarrow> q = p" using assms by (auto simp: step_write_def Let_def split: if_splits)
  define target where "target = (case find (\<lambda>w. w > py_cursor p) (py_writes p) of None \<Rightarrow> length (py_flat p) | Some w \<Rightarrow> w)"
  assume "advanced"
  with assms have e: "\<not> at_end p" "feed_until gd g0 target p = Some q" by (auto simp: step_write_def Let_def target_def split: if_splits)
  then obtain r where r: "feed_loop gd g0 target p = Some r" "q = flush_trailing_resizes r" by (auto simp: feed_until_def)
  have "py_cursor p < target" using e(1) by (auto simp: target_def at_end_def find_Some_iff split: option.split)
  then show "remaining q < remaining p" using loop_moves [OF r(1)] e(1) by (auto simp: r(2) remaining_def at_end_def)
qed

lemma writes_reach:
  "remaining p \<le> n \<Longrightarrow> \<exists>r. step_loop gd g0 in_gap zero ByWrite n taken p = Some r \<and> (\<forall>k q. r = Some (k, q) \<longrightarrow> at_end q)"
proof (induction n arbitrary: p taken)
  case 0
  then show ?case by (simp add: remaining_def at_end_def)
next
  case (Suc n)
  show ?case
  proof (cases "step_write gd g0 p")
    case None
    then show ?thesis by (simp add: advance_by_def)
  next
    case (Some r)
    obtain advanced q where r: "r = (advanced, q)" by (cases r)
    note m = write_moves [OF Some [unfolded r]]
    show ?thesis
    proof (cases advanced)
      case True
      then have "remaining q \<le> n" using m(3) Suc.prems by simp
      from Suc.IH [OF this, of "taken + 1"] show ?thesis using Some True by (simp add: advance_by_def r)
    qed (use Some m in \<open>simp add: advance_by_def r\<close>)
  qed
qed

theorem end_is_reached:
  assumes "length (py_flat p) < 2 ^ 64"
  shows "step_to_end gd g0 in_gap zero p = Some (play_on gd g0 p)"
proof -
  have "remaining p \<le> 2 ^ 64 - 1" using assms by (simp add: remaining_def)
  from writes_reach [OF this, of gd g0 in_gap zero 0] obtain r where r: "step_loop gd g0 in_gap zero ByWrite (2 ^ 64 - 1) 0 p = Some r"
    "\<forall>k q. r = Some (k, q) \<longrightarrow> at_end q" by blast
  have "plays gd g0 p (map_option snd r)" by (rule plays_step_loop [OF r(1)])
  moreover have "step_to_end gd g0 in_gap zero p = Some (map_option (\<lambda>(k, q). flush_trailing_resizes q) r)"
    unfolding step_to_end_def player_step_def r(1) by (simp add: option.map_comp comp_def apsnd_def case_prod_unfold)
  ultimately show ?thesis using r(2) by (cases r) (auto simp: play_on_end)
qed

text \<open>Steps of any kinds, one after the other.\<close>

fun steps ::
  "'g graphics_dispatch \<Rightarrow> 'g \<Rightarrow> ('n \<Rightarrow> 'n \<Rightarrow> 'n \<Rightarrow> bool) \<Rightarrow> 'n \<Rightarrow> (Granularity \<times> nat) list \<Rightarrow> ('g, 'n) Player
     \<Rightarrow> ('g, 'n) Player option option" where
  "steps gd g0 in_gap zero [] p = Some (Some p)"
| "steps gd g0 in_gap zero ((kind, n) # ks) p =
     (case player_step gd g0 in_gap zero kind n p of
        None \<Rightarrow> None | Some None \<Rightarrow> Some None | Some (Some (_, q)) \<Rightarrow> steps gd g0 in_gap zero ks q)"

lemma steps_play: "steps gd g0 in_gap zero ks p = Some r \<Longrightarrow> plays gd g0 p r"
proof (induction gd g0 in_gap zero ks p rule: steps.induct)
  case (2 gd g0 in_gap zero kind n ks p)
  then show ?case using step_plays [of gd g0 in_gap zero kind n p] by (auto simp: plays_def split: option.splits prod.splits)
qed auto

text \<open>However the end is reached, it is the same.\<close>

theorem steps_agree:
  assumes "steps gd g0 in_gap zero ks p = Some (Some q)" "at_end q" "length (py_flat p) < 2 ^ 64"
  shows "step_to_end gd g0 in_gap zero p = Some (Some (flush_trailing_resizes q))"
  using steps_play [OF assms(1)] play_on_end [OF assms(2), of gd g0] end_is_reached [OF assms(3), of gd g0 in_gap zero] by simp

text \<open>Behind an empty output event that ends the recording a step by frames does not return: the event is found again and
  again, and it is within the gap of itself.\<close>

definition stuck :: "('n \<Rightarrow> 'n \<Rightarrow> 'n \<Rightarrow> bool) \<Rightarrow> 'n \<Rightarrow> ('g, 'n) Player \<Rightarrow> bool" where
  "stuck in_gap cur p \<longleftrightarrow> at_end p \<and> map_option snd (find (\<lambda>(at, _). at = py_cursor p) (py_times p)) = Some cur
     \<and> in_gap cur cur (py_frame_gap p)"

lemma stuck_stays:
  fixes p :: "('g, 'n) Player"
  assumes "stuck in_gap cur p"
  shows "frame_loop gd g0 in_gap cur p = None"
proof (rule ccontr)
  assume "\<not> ?thesis"
  then obtain r where r: "frame_loop gd g0 in_gap cur p = Some r" by blast
  have "\<not> stuck in_gap cur p"
  proof (rule frame_loop.raw_induct [of "\<lambda>(gd :: 'g graphics_dispatch) (g0 :: 'g) in_gap cur (p :: ('g, 'n) Player) r. \<not> stuck in_gap cur p", OF _ r])
    fix loop gd g0 in_gap cur r and p :: "('g, 'n) Player"
    assume IH: "\<And>gd g0 in_gap cur (p :: ('g, 'n) Player) r. loop gd g0 in_gap cur p = Some r \<Longrightarrow> \<not> stuck in_gap cur p"
      and body: "(case find (\<lambda>(at, _). at = py_cursor p) (py_times p) of None \<Rightarrow> Some (Some p)
        | Some (_, next_t) \<Rightarrow>
            if in_gap next_t cur (py_frame_gap p)
            then (case step_write gd g0 p of None \<Rightarrow> Some None | Some (_, q) \<Rightarrow> loop gd g0 in_gap next_t q)
            else Some (Some p)) = Some r"
    show "\<not> stuck in_gap cur p"
    proof
      assume s: "stuck in_gap cur p"
      then have "step_write gd g0 p = Some (False, p)" by (simp add: stuck_def step_write_def)
      then have "loop gd g0 in_gap cur p = Some r" using body s by (auto simp: stuck_def split: option.splits)
      then show False using IH s by blast
    qed
  qed
  then show False using assms by blast
qed

theorem frame_step_hangs:
  assumes "at_end p" "find (\<lambda>(at, _). at = py_cursor p) (py_times p) = Some (at, next_t)"
    and "in_gap next_t cur (py_frame_gap p)" "in_gap next_t next_t (py_frame_gap p)"
  shows "frame_loop gd g0 in_gap cur p = None"
proof -
  have "step_write gd g0 p = Some (False, p)" using assms(1) by (simp add: step_write_def)
  moreover have "frame_loop gd g0 in_gap next_t p = None" using assms by (intro stuck_stays) (simp add: stuck_def)
  ultimately show ?thesis using assms(2,3) by (subst frame_loop.simps) simp
qed

section \<open>A recording that is played\<close>

lemma add_events_read: "read_events f64 r = map Done evs \<Longrightarrow> add_events f64 r p = Done (fold add_event evs p)"
proof (induction evs arbitrary: r p)
  case Nil
  then have "fst (next_event f64 r) = None" by (subst (asm) read_events.simps) (auto split: option.splits prod.splits)
  then show ?case by (cases "next_event f64 r") (subst add_events.simps, simp)
next
  case (Cons ev evs)
  then have "\<exists>r'. next_event f64 r = (Some (Done ev), r') \<and> read_events f64 r' = map Done evs"
    by (subst (asm) (2) read_events.simps) (auto split: option.splits prod.splits)
  then obtain r' where r: "next_event f64 r = (Some (Done ev), r')" "read_events f64 r' = map Done evs" by blast
  then show ?case using Cons.IH [OF r(2)] by (subst add_events.simps) simp
qed

lemma outputs_flat:
  "py_flat (fold add_event (map (\<lambda>(t, d). output_event t d) evs) p) = py_flat p @ concat (map snd evs)
   \<and> py_resizes (fold add_event (map (\<lambda>(t, d). output_event t d) evs) p) = py_resizes p
   \<and> py_cursor (fold add_event (map (\<lambda>(t, d). output_event t d) evs) p) = py_cursor p
   \<and> py_term (fold add_event (map (\<lambda>(t, d). output_event t d) evs) p) = py_term p
   \<and> py_next_resize (fold add_event (map (\<lambda>(t, d). output_event t d) evs) p) = py_next_resize p"
  by (induction evs arbitrary: p) (auto simp: output_event_def add_event_def Let_def)

text \<open>Without resizes the bytes go to the terminal one by one, with the replies dropped between them.\<close>

fun feed_each :: "'g graphics_dispatch \<Rightarrow> 'g \<Rightarrow> bytes \<Rightarrow> 'g Terminal \<Rightarrow> 'g Terminal option" where
  "feed_each gd g0 [] t = Some t"
| "feed_each gd g0 (b # bs) t = Option.bind (process gd g0 [b] t) (\<lambda>t. feed_each gd g0 bs (t\<lparr>t_responses := []\<rparr>))"

lemma no_resizes: "py_resizes p = [] \<Longrightarrow> apply_resizes_through offset p = p"
  by (subst apply_resizes_through.simps) simp

lemma play_feeds:
  "py_resizes p = [] \<Longrightarrow> map_option py_term (play_on gd g0 p) = feed_each gd g0 (drop (py_cursor p) (py_flat p)) (py_term p)"
proof (induction gd g0 p rule: play_on.induct)
  case (1 gd g0 p)
  show ?case
  proof (cases "at_end p")
    case True
    then show ?thesis using 1(2) by (simp add: play_on_end flush_trailing_resizes_def no_resizes) (simp add: at_end_def)
  next
    case False
    then have d: "drop (py_cursor p) (py_flat p) = py_flat p ! py_cursor p # drop (py_cursor p + 1) (py_flat p)"
      by (simp add: at_end_def Cons_nth_drop_Suc)
    show ?thesis
    proof (cases "process gd g0 [py_flat p ! py_cursor p] (py_term p)")
      case None
      then show ?thesis using False 1(2) d by (subst play_on.simps) (simp add: feed_byte_def no_resizes Let_def)
    next
      case (Some t)
      let ?q = "p\<lparr>py_term := t\<lparr>t_responses := []\<rparr>, py_cursor := py_cursor p + 1\<rparr>"
      have f: "feed_byte gd g0 p = Some (True, ?q)" using Some False 1(2) by (simp add: feed_byte_def no_resizes Let_def)
      have "map_option py_term (play_on gd g0 ?q) = feed_each gd g0 (drop (py_cursor ?q) (py_flat ?q)) (py_term ?q)"
        using 1(1) [OF f refl TrueI] 1(2) by simp
      then show ?thesis using f Some d by (subst play_on.simps) simp
    qed
  qed
qed

theorem recording_plays:
  fixes zero :: "'n"
  assumes "reads_u16 f64 int16" "ch_version h = 2" "\<And>pr. ch_posh_rec h = Some pr \<Longrightarrow> utf8_valid (pr_emu_rev pr)"
    and "\<And>t. prints_time f64 fmt t" "length (from_utf8_lossy (concat (map snd chunks))) < 2 ^ 64"
  shows "\<exists>p. from_source f64 int16 gap g (rc_out (rec_finish fmt (fold (\<lambda>(t, bs). rec_output fmt t bs) chunks (rec_header h (rec_new zero))))) = Done p
    \<and> map_option (map_option py_term) (step_to_end gd g0 in_gap zero p)
      = Some (feed_each gd g0 (from_utf8_lossy (concat (map snd chunks))) (terminal_new g (unat (ch_height h)) (unat (ch_width h))))"
proof -
  let ?text = "from_utf8_lossy (concat (map snd chunks))"
  obtain evs where evs: "rc_out (rec_finish fmt (fold (\<lambda>(t, bs). rec_output fmt t bs) chunks (rec_header h (rec_new zero))))
      = write_header h @ [0x0A] @ records fmt (map (\<lambda>(t, d). output_event t d) evs)"
    "\<forall>(t, d) \<in> set evs. utf8_valid d" "concat (map snd evs) = ?text"
    using recorded_output [of fmt chunks h zero] by (elim exE conjE) (rule that)
  let ?es = "map (\<lambda>(t, d). output_event t d) evs"
  have "\<forall>e \<in> set ?es. writable f64 fmt e"
    using evs(2) assms(4) by (auto simp: writable_def output_event_def known_code_def)
  note r = recording_read [OF assms(1-3) this]
  let ?p = "\<lparr>py_term = terminal_new g (unat (ch_height h)) (unat (ch_width h)), py_flat = [], py_cursor = 0, py_writes = [],
    py_resizes = [], py_marks = [], py_times = [], py_next_resize = 0, py_frame_gap = gap,
    py_emu_rev = map_option pr_emu_rev (ch_posh_rec h)\<rparr>"
  let ?q = "fold add_event ?es ?p"
  have q: "py_flat ?q = ?text" "py_resizes ?q = []" "py_cursor ?q = 0" "py_term ?q = py_term ?p"
    using outputs_flat [of evs ?p] evs(3) by simp_all
  have "from_source f64 int16 gap g (write_header h @ [0x0A] @ records fmt ?es) = Done ?q"
    by (simp only: from_source_def r(1) Let_def split_conv and_then_simps add_events_read [OF r(2)])
  moreover have "step_to_end gd g0 in_gap zero ?q = Some (play_on gd g0 ?q)" using assms(5) q(1) by (intro end_is_reached) simp
  moreover have "map_option py_term (play_on gd g0 ?q) = feed_each gd g0 ?text (py_term ?p)"
    using play_feeds [OF q(2), of gd g0] unfolding q(1,3,4) by simp
  ultimately show ?thesis unfolding evs(1) by (intro exI [of _ ?q]) simp
qed

text \<open>Natural numbers as times.\<close>

definition nat_u16 :: "nat \<Rightarrow> u16 option" where
  "nat_u16 n = (if n < 2 ^ 16 then Some (word_of_nat n) else None)"

lemma nat_times: "prints_time digits_value decimal t" "reads_u16 digits_value nat_u16"
proof -
  show "prints_time digits_value decimal t" using decimal_number [of t] by (simp add: prints_time_def digits_value_decimal)
  have "unat (w :: u16) < 2 ^ 16" for w using unsigned_less [of w, where 'a = nat] by simp
  then show "reads_u16 digits_value nat_u16" by (simp add: reads_u16_def digits_value_decimal nat_u16_def)
qed

text \<open>Three letters in two writes, with a resize between them.\<close>

definition typed_letters :: "(unit, nat) Player" where
  "typed_letters = \<lparr>py_term = terminal_new () 2 4, py_flat = [97, 98, 99], py_cursor = 0, py_writes = [0, 2], py_resizes = [(2, 6, 3)],
     py_marks = [], py_times = [(0, 1), (2, 5)], py_next_resize = 0, py_frame_gap = 100, py_emu_rev = None\<rparr>"

lemma resizes_parser: "t_parser (py_term (apply_resizes_through offset p)) = t_parser (py_term p)"
proof (induction offset p rule: apply_resizes_through.induct)
  case (1 offset p)
  show ?case
  proof (cases "py_next_resize p < length (py_resizes p) \<and> fst (py_resizes p ! py_next_resize p) \<le> offset")
    case True
    then have "apply_resizes_through offset p = apply_resizes_through offset (apply_resize p)" by (subst apply_resizes_through.simps) simp
    moreover have "t_parser (py_term (apply_resize p)) = t_parser (py_term p)"
      by (simp add: apply_resize_def case_prod_unfold Let_def parser_resize(1) [OF refl])
    ultimately show ?thesis using 1 [OF True] by simp
  next
    case False
    then have "apply_resizes_through offset p = p" by (subst apply_resizes_through.simps) auto
    then show ?thesis by simp
  qed
qed

lemma ascii_plays: "ascii (ps_string_buf (t_parser (py_term p))) \<Longrightarrow> ascii (py_flat p) \<Longrightarrow> play_on gd g0 p \<noteq> None"
proof (induction gd g0 p rule: play_on.induct)
  case (1 gd g0 p)
  show ?case
  proof (cases "at_end p")
    case True
    then show ?thesis by (simp add: play_on_end)
  next
    case False
    let ?q = "apply_resizes_through (py_cursor p) p" and ?b = "[py_flat p ! py_cursor p]"
    have b: "ascii ?b" using False 1(3) by (auto simp: ascii_def at_end_def)
    have buf: "ascii (ps_string_buf (t_parser (py_term ?q)))" using 1(2) by (simp add: resizes_parser)
    obtain ps actions where ps: "parse_bytes ?b (t_parser (py_term ?q)) = (ps, actions)" by fastforce
    obtain t where t: "process gd g0 ?b (py_term ?q) = Some t" using ascii_process [OF buf b, of gd g0] by auto
    have "ascii (ps_string_buf (t_parser t))" using clean_parse [OF buf b] ps t by (auto simp: process_parse [OF ps] clean_def)
    moreover have f: "feed_byte gd g0 p = Some (True, ?q\<lparr>py_term := t\<lparr>t_responses := []\<rparr>, py_cursor := py_cursor p + 1\<rparr>)"
      using False t by (simp add: feed_byte_def Let_def)
    ultimately show ?thesis using 1(1) [OF f refl TrueI] 1(3) by (subst play_on.simps) simp
  qed
qed

lemma bytes_reach:
  "remaining p \<le> n \<Longrightarrow> play_on gd g0 p \<noteq> None \<Longrightarrow> \<exists>k q. step_loop gd g0 in_gap zero ByByte n taken p = Some (Some (k, q)) \<and> at_end q"
proof (induction n arbitrary: p taken)
  case 0
  then show ?case by (simp add: remaining_def at_end_def)
next
  case (Suc n)
  obtain fed q where f: "feed_byte gd g0 p = Some (fed, q)" using Suc.prems(2) plays_feedD(2) [of gd g0 p] by fastforce
  show ?case
  proof (cases fed)
    case True
    then have "remaining q \<le> n" "play_on gd g0 q \<noteq> None" using f fed_remaining [of gd g0 p q] Suc.prems plays_feedD(1) [OF f] by simp_all
    from Suc.IH [OF this, of "taken + 1"] show ?thesis using f True by (simp add: advance_by_def)
  next
    case False
    then show ?thesis using fed_byte(1,2) [OF f] f by (simp add: advance_by_def)
  qed
qed

lemma typed_letters_play:
  "\<exists>q. steps gd g0 in_gap zero [(ByByte, 3)] typed_letters = Some (Some q) \<and> at_end q"
proof -
  have "t_parser (py_term typed_letters) = parser_new" by (simp add: typed_letters_def terminal_new_def with_scrollback_def Let_def)
  then have "play_on gd g0 typed_letters \<noteq> None"
    by (intro ascii_plays) (simp_all add: typed_letters_def parser_new_def ascii_def)
  moreover have "remaining typed_letters \<le> 3" by (simp add: remaining_def typed_letters_def)
  ultimately obtain k q where "step_loop gd g0 in_gap zero ByByte 3 0 typed_letters = Some (Some (k, q))" "at_end q"
    using bytes_reach [of typed_letters 3 gd g0 in_gap zero 0] by blast
  then show ?thesis by (simp add: player_step_def)
qed

end
