(* ===== verification/Golden.thy ===== *)
theory Golden
  imports Player Dump_Screen Client_Input
begin

text \<open>
  \<open>crates/posh-rec/src/golden.rs\<close> and \<open>assert.rs\<close>: a screen as a text with the runs of its styles, and assertions
  on the style of cells. The runs tell the style of every cell as far as their description goes, and what the
  expected view of a failed assertion shows is what was asserted. The message of a failed assertion, built with
  Rust's debug format, is not modelled.
\<close>

section \<open>Style runs\<close>

datatype GoldenKind = GoldenGrid | GoldenVt | GoldenFlat

definition parse_golden_kind :: "bytes \<Rightarrow> GoldenKind option" where
  "parse_golden_kind s =
     (if s = asc ''grid'' then Some GoldenGrid else if s = asc ''vt'' then Some GoldenVt
      else if s = asc ''flat'' then Some GoldenFlat else None)"

definition color_str :: "Color \<Rightarrow> bytes" where
  "color_str c =
     (case c of Default \<Rightarrow> asc ''def'' | Indexed n \<Rightarrow> asc ''i'' @ decimal (unat n) | Color.Rgb r g b \<Rightarrow> asc ''#'' @ hex2 (unat r) @ hex2 (unat g) @ hex2 (unat b))"

definition style_flags :: "Style \<Rightarrow> bytes list" where
  "style_flags s =
     (if st_bold s then [asc ''bold''] else []) @ (if st_dim s then [asc ''dim''] else []) @ (if st_italic s then [asc ''italic''] else [])
     @ (if st_underline s \<noteq> NoUnderline then [asc ''underline''] else []) @ (if st_blink s then [asc ''blink''] else [])
     @ (if st_inverse s then [asc ''inverse''] else []) @ (if st_strikethrough s then [asc ''strike''] else [])"

definition style_desc :: "Style \<Rightarrow> bytes" where
  "style_desc s =
     intercalate (asc '' '')
       ([asc ''fg='' @ color_str (st_fg s), asc ''bg='' @ color_str (st_bg s)]
        @ (if style_flags s \<noteq> [] then [intercalate (asc '','') (style_flags s)] else []))"

type_synonym style_run = "nat \<times> nat \<times> bytes"

function style_runs_from :: "Cell list \<Rightarrow> nat \<Rightarrow> style_run list" where
  "style_runs_from row i =
     (if i < length row
      then let style = cell_style (row ! i) in
           if style = style_default then style_runs_from row (i + 1)
           else let n = length (takeWhile (\<lambda>c. cell_style c = style) (drop i row))
                in (i, n, style_desc style) # style_runs_from row (i + n)
      else [])"
  by pat_completeness auto
termination
  by (relation "measure (\<lambda>(row, i). length row - i)") (auto simp: Cons_nth_drop_Suc [symmetric])

declare style_runs_from.simps [simp del]

definition style_runs :: "Cell list \<Rightarrow> style_run list" where
  "style_runs row = style_runs_from row 0"

section \<open>Goldens\<close>

definition text_line :: "Row \<Rightarrow> bytes" where
  "text_line row = concat (map utf8_encode (row_text False row)) @ [0x0A]"

definition run_line :: "nat \<Rightarrow> style_run \<Rightarrow> bytes" where
  "run_line r run =
     (let (start, len, desc) = run in decimal r @ asc '' '' @ decimal start @ asc '':'' @ decimal len @ asc '' '' @ desc @ [0x0A])"

definition render_grid :: "'g Terminal \<Rightarrow> bytes \<Rightarrow> bytes" where
  "render_grid t emu_rev =
     (let s = scr t; rows = [0..<sc_rows s]
      in asc ''# posh-rec grid golden v1'' @ [0x0A] @ asc ''# emu_rev: '' @ emu_rev @ [0x0A]
         @ asc ''# size: '' @ decimal (sc_cols s) @ asc ''x'' @ decimal (sc_rows s) @ [0x0A]
         @ asc ''--- text ---'' @ [0x0A]
         @ concat (map (\<lambda>r. case get_at (sc_grid s) r of None \<Rightarrow> [0x0A] | Some row \<Rightarrow> text_line row) rows)
         @ asc ''--- style ---'' @ [0x0A]
         @ concat (map (\<lambda>r. case get_at (sc_grid s) r of None \<Rightarrow> [] | Some row \<Rightarrow> concat (map (run_line r) (style_runs (cells row)))) rows))"

definition render_golden :: "('g \<Rightarrow> bytes) \<Rightarrow> 'g Terminal \<Rightarrow> GoldenKind \<Rightarrow> bytes \<Rightarrow> bytes" where
  "render_golden dump_graphics t kind emu_rev =
     (case kind of
        GoldenGrid \<Rightarrow> render_grid t emu_rev
      | GoldenVt \<Rightarrow> from_utf8_lossy (dump_vt dump_graphics t)
      | GoldenFlat \<Rightarrow> from_utf8_lossy (dump_vt_flat dump_graphics t))"

text \<open>\<open>str::lines\<close>: a line feed ends a line, and a carriage return before it goes with it.\<close>

definition str_lines :: "bytes \<Rightarrow> bytes list" where
  "str_lines s =
     (let parts = split_all 0x0A s
      in map strip_cr (butlast parts) @ (if last parts = [] then [] else [last parts]))"

definition strip_prefix :: "bytes \<Rightarrow> bytes \<Rightarrow> bytes option" where
  "strip_prefix pre s = (if take (length pre) s = pre then Some (drop (length pre) s) else None)"

definition golden_emu_rev :: "bytes \<Rightarrow> bytes option" where
  "golden_emu_rev golden =
     (case List.map_filter (strip_prefix (asc ''# emu_rev: '')) (str_lines golden) of [] \<Rightarrow> None | found # _ \<Rightarrow> Some (trim_text found))"

section \<open>Rows in color\<close>

definition color_sgr :: "nat \<Rightarrow> rgb \<Rightarrow> bytes" where
  "color_sgr kind c =
     (let (r, g, b) = c in [0x1B, 0x5B] @ decimal kind @ asc '';2;'' @ decimal (unat r) @ asc '';'' @ decimal (unat g) @ asc '';''
        @ decimal (unat b) @ asc ''m'')"

definition assert_sgr :: "Style \<Rightarrow> bytes" where
  "assert_sgr s =
     [0x1B, 0x5B, 0x30, 0x6D]
     @ (case to_rgb (st_fg s) of None \<Rightarrow> [] | Some c \<Rightarrow> color_sgr 38 c)
     @ (case to_rgb (st_bg s) of None \<Rightarrow> [] | Some c \<Rightarrow> color_sgr 48 c)
     @ (if st_bold s then [0x1B, 0x5B, 0x31, 0x6D] else []) @ (if st_dim s then [0x1B, 0x5B, 0x32, 0x6D] else [])
     @ (if st_italic s then [0x1B, 0x5B, 0x33, 0x6D] else [])
     @ (if st_underline s \<noteq> NoUnderline then [0x1B, 0x5B, 0x34, 0x6D] else [])
     @ (if st_blink s then [0x1B, 0x5B, 0x35, 0x6D] else []) @ (if st_inverse s then [0x1B, 0x5B, 0x37, 0x6D] else [])"

datatype Want = WantFg Color | WantBg Color | WantBold bool | WantDim bool | WantInverse bool | WantUnderline bool

definition want_matches :: "Want \<Rightarrow> Cell \<Rightarrow> bool" where
  "want_matches w cell =
     (let s = cell_style cell in
      case w of
        WantFg c \<Rightarrow> st_fg s = c | WantBg c \<Rightarrow> st_bg s = c | WantBold b \<Rightarrow> st_bold s = b | WantDim b \<Rightarrow> st_dim s = b
      | WantInverse b \<Rightarrow> st_inverse s = b | WantUnderline b \<Rightarrow> (st_underline s \<noteq> NoUnderline) = b)"

definition want_apply :: "Want \<Rightarrow> Style \<Rightarrow> Style" where
  "want_apply w s =
     (case w of
        WantFg c \<Rightarrow> s\<lparr>st_fg := c\<rparr> | WantBg c \<Rightarrow> s\<lparr>st_bg := c\<rparr> | WantBold b \<Rightarrow> s\<lparr>st_bold := b\<rparr> | WantDim b \<Rightarrow> s\<lparr>st_dim := b\<rparr>
      | WantInverse b \<Rightarrow> s\<lparr>st_inverse := b\<rparr>
      | WantUnderline b \<Rightarrow> s\<lparr>st_underline := (if b then Single else NoUnderline)\<rparr>)"

definition shown_style :: "(u16 list \<times> Want) option \<Rightarrow> nat \<Rightarrow> Cell \<Rightarrow> Style" where
  "shown_style over i cell =
     (case over of
        None \<Rightarrow> cell_style cell
      | Some (cols, w) \<Rightarrow> if (word_of_nat i :: u16) \<in> set cols then want_apply w (cell_style cell) else cell_style cell)"

fun render_cells_from :: "(u16 list \<times> Want) option \<Rightarrow> nat \<Rightarrow> Style option \<Rightarrow> Cell list \<Rightarrow> bytes" where
  "render_cells_from over i pen [] = [0x1B, 0x5B, 0x30, 0x6D]"
| "render_cells_from over i pen (cell # row) =
     (if width cell = 0 then render_cells_from over (i + 1) pen row
      else let style = shown_style over i cell
           in (if pen \<noteq> Some style then assert_sgr style else []) @ utf8_encode (if ch cell = 0 then 32 else ch cell)
              @ render_cells_from over (i + 1) (Some style) row)"

definition render_row :: "Cell list \<Rightarrow> (u16 list \<times> Want) option \<Rightarrow> bytes" where
  "render_row row over = render_cells_from over 0 None row"

text \<open>A positional diff, with the screen in color behind it for grids.\<close>

definition line_at :: "bytes list \<Rightarrow> nat \<Rightarrow> bytes" where
  "line_at lines i = (if i < length lines then lines ! i else [])"

definition golden_diff :: "bytes \<Rightarrow> bytes \<Rightarrow> 'g Terminal \<Rightarrow> GoldenKind \<Rightarrow> bytes" where
  "golden_diff golden fresh t kind =
     (let g = str_lines golden; f = str_lines fresh
      in concat (map (\<lambda>i. if line_at g i \<noteq> line_at f i
             then asc ''- '' @ line_at g i @ [0x0A] @ asc ''+ '' @ line_at f i @ [0x0A] else []) [0..<max (length g) (length f)])
         @ (if kind = GoldenGrid
            then [0x0A] @ asc ''actual screen:'' @ [0x0A]
              @ concat (map (\<lambda>r. case get_at (sc_grid (scr t)) r of None \<Rightarrow> [] | Some row \<Rightarrow> render_row (cells row) None @ [0x0A]) [0..<sc_rows (scr t)])
            else []))"

section \<open>Assertions\<close>

fun contains_at :: "nat list \<Rightarrow> nat list \<Rightarrow> bool" where
  "contains_at pat [] = (pat = [])"
| "contains_at pat (c # cs) = (take (length pat) (c # cs) = pat \<or> contains_at pat cs)"

definition find_line :: "Screen \<Rightarrow> nat list \<Rightarrow> nat option" where
  "find_line s substr =
     find (\<lambda>r. case get_at (sc_grid s) r of None \<Rightarrow> False | Some row \<Rightarrow> contains_at substr (row_text True row)) [0..<sc_rows s]"

datatype Mismatch = NoRow | BadCells "u16 list"

definition check_cells :: "Screen \<Rightarrow> u16 \<Rightarrow> u16 list \<Rightarrow> Want \<Rightarrow> Mismatch option" where
  "check_cells s row cols w =
     (case get_at (sc_grid s) (unat row) of
        None \<Rightarrow> Some NoRow
      | Some r \<Rightarrow>
          let bad = filter (\<lambda>c. case get_at (cells r) (unat c) of None \<Rightarrow> True | Some cell \<Rightarrow> \<not> want_matches w cell) cols
          in if bad = [] then None else Some (BadCells bad))"

definition cells_have_fg :: "Screen \<Rightarrow> u16 \<Rightarrow> u16 list \<Rightarrow> Color \<Rightarrow> Mismatch option" where
  "cells_have_fg s row cols c = check_cells s row cols (WantFg c)"

definition cells_have_bg :: "Screen \<Rightarrow> u16 \<Rightarrow> u16 list \<Rightarrow> Color \<Rightarrow> Mismatch option" where
  "cells_have_bg s row cols c = check_cells s row cols (WantBg c)"

definition cells_are_bold :: "Screen \<Rightarrow> u16 \<Rightarrow> u16 list \<Rightarrow> bool \<Rightarrow> Mismatch option" where
  "cells_are_bold s row cols b = check_cells s row cols (WantBold b)"

definition cells_are_dim :: "Screen \<Rightarrow> u16 \<Rightarrow> u16 list \<Rightarrow> bool \<Rightarrow> Mismatch option" where
  "cells_are_dim s row cols b = check_cells s row cols (WantDim b)"

definition cells_are_inverse :: "Screen \<Rightarrow> u16 \<Rightarrow> u16 list \<Rightarrow> bool \<Rightarrow> Mismatch option" where
  "cells_are_inverse s row cols b = check_cells s row cols (WantInverse b)"

definition cells_are_underline :: "Screen \<Rightarrow> u16 \<Rightarrow> u16 list \<Rightarrow> bool \<Rightarrow> Mismatch option" where
  "cells_are_underline s row cols b = check_cells s row cols (WantUnderline b)"

section \<open>What a golden and an assertion say\<close>

definition run_at :: "style_run list \<Rightarrow> nat \<Rightarrow> style_run option" where
  "run_at runs i = find (\<lambda>(start, len, _). start \<le> i \<and> i < start + len) runs"

lemma run_length:
  assumes "i < length row" "cell_style (row ! i) = style"
  shows "0 < length (takeWhile (\<lambda>c. cell_style c = style) (drop i row))"
    "i + length (takeWhile (\<lambda>c. cell_style c = style) (drop i row)) \<le> length row"
    "j < length (takeWhile (\<lambda>c. cell_style c = style) (drop i row)) \<Longrightarrow> cell_style (row ! (i + j)) = style"
proof -
  let ?n = "length (takeWhile (\<lambda>c. cell_style c = style) (drop i row))"
  show "0 < ?n" using assms by (simp add: Cons_nth_drop_Suc [symmetric])
  have "?n \<le> length (drop i row)" by (rule length_takeWhile_le)
  then show le: "i + ?n \<le> length row" using assms(1) by simp
  assume "j < ?n"
  then have "takeWhile (\<lambda>c. cell_style c = style) (drop i row) ! j \<in> set (takeWhile (\<lambda>c. cell_style c = style) (drop i row))" by simp
  then have "cell_style (takeWhile (\<lambda>c. cell_style c = style) (drop i row) ! j) = style" by (rule set_takeWhileD [THEN conjunct2])
  then show "cell_style (row ! (i + j)) = style" using \<open>j < ?n\<close> le by (simp add: takeWhile_nth)
qed

lemma runs_start: "run \<in> set (style_runs_from row i) \<Longrightarrow> i \<le> fst run"
proof (induction row i rule: style_runs_from.induct)
  case (1 row i)
  have i: "i < length row" using 1(3) by (subst (asm) style_runs_from.simps) (auto split: if_splits)
  show ?case
  proof (cases "cell_style (row ! i) = style_default")
    case True
    then have "style_runs_from row i = style_runs_from row (i + 1)" using i by (subst style_runs_from.simps) simp
    then show ?thesis using 1(1) [OF i refl True] 1(3) by simp
  next
    case False
    define n where "n = length (takeWhile (\<lambda>c. cell_style c = cell_style (row ! i)) (drop i row))"
    have "style_runs_from row i = (i, n, style_desc (cell_style (row ! i))) # style_runs_from row (i + n)"
      using i False by (subst style_runs_from.simps) (simp add: Let_def n_def)
    then show ?thesis using 1(2) [OF i refl False n_def] 1(3) by auto
  qed
qed

lemma run_at_none: "(\<And>run. run \<in> set runs \<Longrightarrow> k < fst run) \<Longrightarrow> run_at runs k = None"
  by (force simp: run_at_def find_None_iff)

lemma runs_from_describe:
  "i \<le> k \<Longrightarrow> k < length row \<Longrightarrow> map_option (snd \<circ> snd) (run_at (style_runs_from row i) k)
    = (if cell_style (row ! k) = style_default then None else Some (style_desc (cell_style (row ! k))))"
proof (induction row i rule: style_runs_from.induct)
  case (1 row i)
  have i: "i < length row" using 1(3,4) by simp
  show ?case
  proof (cases "cell_style (row ! i) = style_default")
    case True
    then have r: "style_runs_from row i = style_runs_from row (i + 1)" using i by (subst style_runs_from.simps) simp
    show ?thesis
    proof (cases "k = i")
      case True': True
      have "run_at (style_runs_from row (i + 1)) k = None" using runs_start [of _ row "i + 1"] True' by (intro run_at_none) force
      then show ?thesis using r True True' by simp
    next
      case False
      then show ?thesis using 1(1) [OF i refl True] 1(3,4) r by simp
    qed
  next
    case False
    define n where "n = length (takeWhile (\<lambda>c. cell_style c = cell_style (row ! i)) (drop i row))"
    have r: "style_runs_from row i = (i, n, style_desc (cell_style (row ! i))) # style_runs_from row (i + n)"
      using i False by (subst style_runs_from.simps) (simp add: Let_def n_def)
    note run = run_length [OF i refl, folded n_def]
    show ?thesis
    proof (cases "k < i + n")
      case True
      then have "cell_style (row ! k) = cell_style (row ! i)" using run(3) [of "k - i"] 1(3) by simp
      then show ?thesis using True 1(3) False by (simp add: r run_at_def)
    next
      case False': False
      then have "run_at (style_runs_from row i) k = run_at (style_runs_from row (i + n)) k" by (simp add: r run_at_def)
      then show ?thesis using 1(2) [OF i refl False n_def] 1(4) False' by simp
    qed
  qed
qed

text \<open>The runs tell of each cell whether its style is the default, and otherwise what it is described as.\<close>

theorem runs_describe:
  "k < length row \<Longrightarrow> map_option (snd \<circ> snd) (run_at (style_runs row) k)
    = (if cell_style (row ! k) = style_default then None else Some (style_desc (cell_style (row ! k))))"
  using runs_from_describe [of 0 k row] by (simp add: style_runs_def)

text \<open>The kind of an underline and its color are not part of the description.\<close>

theorem underline_kind_unseen:
  "style_desc (s\<lparr>st_underline := Curly, st_underline_color := c\<rparr>) = style_desc (s\<lparr>st_underline := Single\<rparr>)"
  by (simp add: style_desc_def style_flags_def)

lemma wanted_matches: "want_matches w (cell\<lparr>cell_style := want_apply w (cell_style cell)\<rparr>)"
  by (cases w) (simp_all add: want_matches_def want_apply_def)

lemma wanted_stays: "want_matches w cell \<Longrightarrow> (\<And>b. w \<noteq> WantUnderline b) \<Longrightarrow> want_apply w (cell_style cell) = cell_style cell"
  by (cases w) (auto simp: want_matches_def want_apply_def)

lemma check_passes:
  "check_cells s row cols w = None \<longleftrightarrow>
     unat row < length (sc_grid s)
     \<and> (\<forall>c \<in> set cols. unat c < length (cells (sc_grid s ! unat row)) \<and> want_matches w (cells (sc_grid s ! unat row) ! unat c))"
  by (auto simp: check_cells_def get_at_def Let_def filter_empty_conv split: option.splits)

end
