(* ===== verification/Spec2Isabelle.thy ===== *)
theory Spec2Isabelle
  imports Crypto Caps Fragment Server_Loop Util Ipc Target Client_Input Modes Terminal_Behaviour Display Predict_Typed Dump_Screen Parser_Streams Redraw_Limits Dump_Replay Png_Images Graphics_Keys Graphics_Places Mouse_Encoder Golden
begin

text \<open>
  A model of posh, a mosh-like remote shell with persistent local sessions, in Rust. The remote side
  runs a program under a pty, feeds its output to a terminal model, serialises that model and sends
  the differences to the client in encrypted datagrams; the client sends keystrokes back over a
  reliable stream. A local session daemon does the same over framed sockets. All paths below are
  under \<open>src/crates/\<close>: \<open>posh/src\<close> is the program, \<open>posh-term/src\<close> its terminal library.

  The network half.
  \<^item> \<open>Crypto\<close>, \<open>Base64\<close>: \<open>remote/crypto.rs\<close> (keys as text, nonces, the replay window, seal and open)
    and \<open>base64.rs\<close>. AES-GCM is an argument; \<open>aead_ok\<close> states that opening inverts sealing.
  \<^item> \<open>Fragment\<close>, \<open>Frames\<close>, \<open>Caps\<close>: \<open>remote/sync.rs\<close> up to the message types, and \<open>remote/caps.rs\<close>.
    A message is diffed against an acknowledged base, encoded, cut into fragments and reassembled.
  \<^item> \<open>Input_Stream\<close>: the outbox, inbox and echo-ack tracker of \<open>remote/sync.rs\<close>, with a network that
    loses, repeats and reorders as an inductive step relation.
  \<^item> \<open>State_Sync\<close>: the session state of \<open>server_loop\<close> (\<open>remote/server.rs\<close>) and the frame handling of
    the client loop (\<open>remote/client.rs\<close>), with what each handler does on every branch. \<open>Server_Loop\<close>
    composes the handlers to whole passes of the server's loop, with every exit, and runs them beside a client.
  \<^item> \<open>Ipc\<close>, \<open>Target\<close>, \<open>Util\<close>, \<open>Client_Input\<close>: \<open>session/ipc.rs\<close>, \<open>target.rs\<close>, \<open>util.rs\<close>, and the byte
    filters of \<open>remote/client.rs\<close>, \<open>session/client.rs\<close> and \<open>session/daemon.rs\<close>.

  The terminal half.
  \<^item> \<open>Parser\<close>, \<open>Utf8\<close>: \<open>parser.rs\<close>, one definition per parser state; actions are a datatype.
  \<^item> \<open>Cell\<close>, \<open>Modes\<close>, \<open>Wcwidth\<close>, \<open>Screen\<close>, \<open>Screen_Reflow\<close>: \<open>cell.rs\<close>, \<open>modes.rs\<close>, \<open>wcwidth.rs\<close> and
    \<open>screen.rs\<close>, the grid with its scrollback and the reflow on a width change.
  \<^item> \<open>Terminal\<close>, \<open>Csi\<close>, \<open>Kitty_Keys\<close>, \<open>Dump\<close>, \<open>Osc\<close>, \<open>Process\<close>: \<open>terminal.rs\<close>, \<open>csi.rs\<close>, the flag stack
    of \<open>kitty_keys.rs\<close>, \<open>sgr_params\<close> of \<open>dump.rs\<close>, \<open>osc.rs\<close> and \<open>dcs.rs\<close>, and the byte loop that
    composes parser and dispatch. The record \<open>Terminal\<close> has the fields of the struct; every operation
    is a function on it, with \<open>touch\<close> for the generation counter.
  \<^item> \<open>Key_Encoder\<close>, \<open>Mouse_Encoder\<close>: the encoders of \<open>kitty_keys.rs\<close> and \<open>mouse.rs\<close>, that distinct
    events are reported as distinct bytes, and what the client's filters make of the reports. The
    lowercase mapping of the Rust library is the argument \<open>lower\<close>.
  \<^item> \<open>Terminal_Inv\<close>, \<open>Terminal_Behaviour\<close>: the invariant of that state and what it does with output.

  The client's half.
  \<^item> \<open>Snapshot\<close>, \<open>Display\<close>: \<open>remote/display.rs\<close>, the snapshot of a terminal, the renderer that turns one
    snapshot into the next as an escape stream, and the status banner.
  \<^item> \<open>Predict\<close>: \<open>remote/predict.rs\<close>, the local echo: predicted cells and cursors, their validation against
    the server's frames and the overlay. \<open>Predict_Inv\<close>, \<open>Predict_Shown\<close> and \<open>Predict_Typed\<close> show that it
    never stops the program, draws only what is unanswered, and shows a typed key.
  \<^item> \<open>Canvas\<close>, \<open>Redraw\<close>, \<open>Redraw_Frame\<close>, \<open>Redraw_Outer\<close>, \<open>Redraw_Limits\<close>: the renderer against the terminal
    model. \<open>Canvas\<close> says what each sequence a renderer uses does to the visible state (\<open>View\<close>) of a
    terminal; the others follow the builder row by row and prove that a frame leads from the picture of
    one snapshot to that of the next, for cells of one column without hyperlinks (\<open>renderable\<close>), and show
    two inputs on which it does not.
  \<^item> \<open>Dump_Screen\<close>: the rest of \<open>dump.rs\<close>, a terminal as text and as an escape stream (\<open>Dump_Replay\<close>: the
    grid it draws, read back by a fresh terminal).
    \<open>Parser_Streams\<close> shows what the parser makes of the sequences these streams are made of.

  Kitty graphics.
  \<^item> \<open>Inflate\<close>: \<open>inflate.rs\<close>, the zlib decompressor, one definition per function and per loop. \<open>Inflate_Codes\<close>
    shows that a table decodes the canonical code it was built from, \<open>Inflate_Streams\<close> that no input makes
    it index out of range (indexes, slices and subtractions on its tables and its output are ones that can stop) and that streams of stored and fixed-code blocks come back; the tokens, blocks
    and their bits are specification.
  \<^item> \<open>Png\<close>: \<open>png.rs\<close>. \<open>Png_Images\<close> reverses filters, bounds sizes, decodes whole files and has one that stops it.
  \<^item> \<open>Graphics\<close>: \<open>graphics.rs\<close>, the store of images, frames and placements as a record and every command as
    a function on it and on a map of files. \<open>Graphics_Inv\<close> and \<open>Graphics_Safe\<close> hold its invariants,
    \<open>Graphics_Keys\<close> the reading of key lists and the commands that fall short.
  \<^item> \<open>Graphics_Dump\<close>: the graphics half of \<open>dump.rs\<close> (\<open>dump_graphics\<close>, \<open>dump_placements\<close>,
    \<open>emit_apc_chunks\<close>). \<open>Graphics_Replay\<close> shows that the commands of a dump rebuild images, frames and play
    states in an empty store, \<open>Graphics_Places\<close> what they rebuild of the placements and what a replay
    loses: the order of eviction, payloads over the limit, parents placed again.

  The recorder, \<open>posh-rec/src\<close>.
  \<^item> \<open>Json\<close>, \<open>Castx\<close>: \<open>json.rs\<close> and \<open>castx.rs\<close>, the reader and writer of recordings and the recorder that
    puts output together from reads. \<open>Castx_Replay\<close> shows that a recording is read back as it was written.
  \<^item> \<open>Player\<close>: \<open>player.rs\<close>, a recording flattened and walked in steps of six kinds; whatever the steps, the
    end is the same. \<open>Golden\<close>: \<open>golden.rs\<close> and \<open>assert.rs\<close>, screens as text with runs of styles.

  \<open>Prelude\<close> holds the machine integers, byte codecs, checked slices, string splitting and the locales
  \<open>codec\<close> and \<open>prefix_codec\<close> that the wire formats interpret.

  What is shown. For the protocol: the client's screen is always the numbered one, two exchanges
  synchronise, the server leaves for one of six reasons, input is delivered exactly once and in order, a
  payload survives fragmentation in any order, datagrams open at most once, the nonces given to the cipher
  never repeat. For the filters and formats: nothing is
  lost, nothing depends on how the input was cut into reads, encodings come back. For the terminal:
  every buffer is bounded and every byte string leaves a well-formed state; the split of the input
  is irrelevant; a drawn grid is read back by a fresh
  terminal; the primary screen survives what is drawn on the alternate one; a resize keeps
  the text. Where a property does not hold, the failing run is a theorem: a server that polls without
  pause, an end-of-session flag on the wrong frame, a PNG and a transmission whose sizes wrap, a color specification that stops the program.

  Conventions. Sequence numbers, frame numbers, flags and bytes are words of their width and wrap.
  Row and column numbers, counts and lengths are natural numbers; the invariants keep them within
  the dimensions, and saturating or truncating 16-bit arithmetic is written out. A Rust error is
  \<open>Inl\<close> or \<open>None\<close>; where an operation can stop the program (an index, an unwrap, a slice off a
  character boundary) its result is an option whose \<open>None\<close> is the stop, or the outcome \<open>Stops\<close> of \<open>Inflate\<close>. Loops are recursive functions
  with a measure; the fragmentation loop and the loop over a burst of recorded writes, which need not
  end, are partial functions. The only fuel is that of \<open>json_parse\<close>, whose recursion it bounds by twice the
  length of the input and one: \<open>json_parse_ends\<close> shows that this is never used up. Floating-point numbers
  are an abstract type with their reader and printer as arguments; \<open>prints_time\<close> and \<open>reads_u16\<close> state what
  is used of them, and natural numbers are an instance.

  The byte loop takes graphics as an argument, so its theorems hold for any such store.

  Not modelled: sockets, the delivery of signals, ptys, process spawning, and the poll loops of the client and of
  local sessions; the
  round-trip estimate of \<open>remote/datagram.rs\<close>; the
  command line, the SSH bootstrap, and the pty, the
  options and the messages of the recorder tool.
\<close>

text \<open>C1: Over a network that loses, repeats and reorders datagrams, the client always shows one of the screen states the server numbered, between the last state the server knows acknowledged and its current one.\<close>

theorem client_screen_is_numbered:
  assumes "sync_reach s" "hist_fits (sy_hist s)"
  shows "sv_acked_num (sy_server s) \<le> cl_applied_num (sy_client s)
    \<and> cl_applied_num (sy_client s) \<le> fs_num (sv_current (sy_server s))
    \<and> cl_applied_data (sy_client s) = sy_hist s ! unat (cl_applied_num (sy_client s))
    \<and> (cl_applied_num (sy_client s) = fs_num (sv_current (sy_server s)) \<longrightarrow>
         cl_applied_data (sy_client s) = fs_data (sv_current (sy_server s)))"
  using sync_reach_inv [OF assms] sync_inv_bounds [OF sync_reach_inv [OF assms]] by (simp add: sync_inv_def)

theorem client_screen_is_numbered_witness:
  "sv_acked_num (sy_server (exchange (sample_env 1000 1 [36]) 1000 (sys_new 0 990 24 80)))
     \<le> cl_applied_num (sy_client (exchange (sample_env 1000 1 [36]) 1000 (sys_new 0 990 24 80)))
   \<and> cl_applied_data (sy_client (exchange (sample_env 1000 1 [36]) 1000 (sys_new 0 990 24 80))) = [36]"
proof -
  let ?s = "exchange (sample_env 1000 1 [36]) 1000 (sys_new 0 990 24 80)"
  have r: "sync_reach ?s" by (intro exchange_reach sync_reach.init)
  have h: "sy_hist ?s = [[], [36]]" by code_simp
  then have fits: "hist_fits (sy_hist ?s)" by (simp add: hist_fits_def)
  have "cl_applied_num (sy_client ?s) = 1" by code_simp
  then show ?thesis using client_screen_is_numbered [OF r fits] h by simp
qed

text \<open>C2: From any reachable state, however much was lost before, two retransmissions that get through bring the client to the server's current screen, and the server knows it.\<close>

theorem two_exchanges_synchronise:
  assumes "sync_reach s" "hist_fits (sy_hist s)"
    and "resends e (sy_server s)" "resends e' (sy_server (exchange e now s))"
  shows "synced (exchange e' now' (exchange e now s))
    \<and> sv_current (sy_server (exchange e' now' (exchange e now s))) = sv_current (sy_server s)"
  using two_exchanges_sync [OF assms] by blast

theorem two_exchanges_synchronise_witness:
  "synced (exchange (sample_env 5000 1 [36]) 5000 (exchange (sample_env 3000 1 [36]) 3000
     (sys_produce (sample_env 1000 1 [36]) (sys_new 0 990 24 80))))"
proof -
  let ?s = "sys_produce (sample_env 1000 1 [36]) (sys_new 0 990 24 80)"
  have "sync_reach ?s" by (rule sync_reach.step [OF sync_reach.init sync_step.produce])
  moreover have "sy_hist ?s = [[], [36]]" by code_simp
  then have "hist_fits (sy_hist ?s)" by (simp add: hist_fits_def)
  moreover have "resends (sample_env 3000 1 [36]) (sy_server ?s)" by code_simp
  moreover have "resends (sample_env 5000 1 [36]) (sy_server (exchange (sample_env 3000 1 [36]) 3000 ?s))" by code_simp
  ultimately show ?thesis using two_exchanges_synchronise by blast
qed

text \<open>C3: Every way out of the server's loop has one of six reasons: the network timeout or a signal after the client was silent for that long, a failed poll, a closed shell without a reachable client, the end of the grace period, or the final confirmation; and when a pass leaves with the last of these, the client holds the last screen the server numbered, taken at the terminal's current generation. The other five exits do not promise that. The network may lose, repeat and reorder what either side sent.\<close>

theorem server_leaves_after_confirmation:
  assumes "sync_reach s" "from_client p s" "hist_fits (sy_hist (sys_pass tm p s))"
    and "server_pass tm p (sy_server s) = (outcome, Some reason)"
  shows "case reason of
      NetworkTimeout \<Rightarrow> silent_for (network_tmout tm) (en_now (pa_top p)) (sy_server s)
    | SignalTimeout \<Rightarrow> pa_usr1 p \<and> silent_for (signal_tmout tm) (en_now (pa_top p)) (sy_server s)
    | PollFailure \<Rightarrow> pa_poll p = PollFailed
    | NoClient \<Rightarrow> sv_shutdown (sy_server s) \<and> \<not> peer_active (pa_top p) (sy_server s)
    | GraceOver \<Rightarrow> sv_shutdown (fst outcome) \<and> since (pa_end p) (sv_shutdown_at (fst outcome)) \<ge> SHUTDOWN_GRACE
    | FinalConfirmed \<Rightarrow> sv_shutdown (fst outcome) \<and> en_gen (pa_send p) = sv_last_gen (fst outcome)
        \<and> cl_applied_num (sy_client s) = fs_num (sv_current (fst outcome))
        \<and> cl_applied_data (sy_client s) = fs_data (sv_current (fst outcome))"
  using pass_leaves [OF assms(1-3), of reason] sys_pass_server [of tm p s] assms(4)
  by (auto simp: leave_because_def sys_pass_client split: leave_reason.splits)

theorem server_leaves_after_confirmation_witness:
  "cl_applied_data (sy_client final_shown) = fs_data (sv_current (fst (fst (server_pass never final_pass (sy_server final_shown)))))
   \<and> sv_shutdown (fst (fst (server_pass never final_pass (sy_server final_shown))))"
proof -
  have "hist_fits (sy_hist (sys_pass never final_pass final_shown))" by (simp add: final_pass_leaves(2) hist_fits_def)
  moreover obtain outcome where o: "server_pass never final_pass (sy_server final_shown) = (outcome, Some FinalConfirmed)"
    using final_pass_leaves(3) by (metis prod.collapse)
  ultimately show ?thesis
    using server_leaves_after_confirmation [OF loop_reach_sync [OF final_shown_reach] final_pass_leaves(1), of never outcome FinalConfirmed] by simp
qed

text \<open>C4: The renderer is right about the outer terminal, for snapshots of one size with only single-width characters, without combining marks, hyperlinks and protected cells, with a title and clipboard that fit in an OSC string, known mouse modes, and with the cursor outside the last four columns of the bottom row (but for the first): when the terminal shows one snapshot, the frame computed from it to the next, fed to the terminal model, makes it show the next in every cell, its cursor, title and modes, by scrolling, erasing, skipping and wrapping; whether a row is marked as soft-wrapped is not compared. For a cursor in one of those four columns it is false (Redraw_Limits.corner_misses).\<close>

theorem frame_updates_outer:
  assumes "outer_shows prev t" "renderable prev" "renderable f" "sn_rows f = sn_rows prev" "sn_cols f = sn_cols prev"
  shows "\<exists>t'. process gd g0 (new_frame True prev f False) t = Some t' \<and> outer_shows f t'"
  using frame_updates_core [of True prev f t gd g0] assms by (simp add: frame_init_def renderable_def)

theorem frame_updates_outer_witness:
  "\<exists>t'. process (\<lambda>g d c. (g, None, None)) () (new_frame True (snapshot_blank 2 4) two_letters False) (with_scrollback () 2 4 0) = Some t'
    \<and> outer_shows two_letters t'"
  by (rule frame_updates_outer [OF fresh_shows_blank blank_renderable two_letters_renderable]) (simp_all add: two_letters_def)

text \<open>C5: From any outer terminal of the right size with the usual modes, whatever it shows, the first frame and the updates after it leave it showing the last snapshot, in cells, cursor, title and modes, soft-wrap marks not compared; all snapshots have that size, only single-width characters without combining marks, hyperlinks and protection, strings that fit in an OSC, and the cursor outside the last four columns of the bottom row (but for the first).\<close>

theorem first_frames_follow:
  assumes "outer_ready t" "Redraw_Frame.sized f (view t)" "renderable f"
    and "\<forall>h \<in> set fs. renderable h \<and> sn_rows h = sn_rows f \<and> sn_cols h = sn_cols f"
  shows "\<exists>t'. process gd g0 (new_frame False prev f False @ frames_from f fs) t = Some t' \<and> outer_shows (last (f # fs)) t'"
  using assms by (rule repaint_then_follow)

theorem first_frames_follow_witness:
  "\<exists>t'. process (\<lambda>g d c. (g, None, None)) () (new_frame False two_letters (snapshot_blank 2 4) False @ frames_from (snapshot_blank 2 4) [two_letters])
      (with_scrollback () 2 4 0) = Some t' \<and> outer_shows (last [snapshot_blank 2 4, two_letters]) t'"
proof (rule first_frames_follow [OF outer_fresh blank_renderable])
  have "sn_rows two_letters = sn_rows (snapshot_blank 2 4)" "sn_cols two_letters = sn_cols (snapshot_blank 2 4)" by (simp_all add: two_letters_def)
  then show "\<forall>h \<in> set [two_letters]. renderable h \<and> sn_rows h = sn_rows (snapshot_blank 2 4) \<and> sn_cols h = sn_cols (snapshot_blank 2 4)"
    using two_letters_renderable by simp
qed (simp_all add: snapshot_blank_def)

text \<open>C6: Keystrokes reach the application in order, none lost in the middle and none twice: what was accepted is a prefix of what was typed, however datagrams are lost, repeated or reordered.\<close>

theorem input_exactly_once:
  assumes "link_reach s" "Input_Stream.no_wrap (lk_pushed s)"
  shows "\<exists>rest. lk_pushed s = lk_applied s @ rest \<and> length (lk_applied s) = unat (ib_next (lk_inbox s))"
  using link_reach_inv [OF assms] by (auto simp: link_inv_def min_def intro!: exI [of _ "drop (unat (ib_next (lk_inbox s))) (lk_pushed s)"])

theorem input_exactly_once_witness:
  "\<exists>rest. lk_pushed (link_push [7, 8] link_new) = lk_applied (link_push [7, 8] link_new) @ rest"
proof -
  have "link_reach (link_push [7, 8] link_new)" by (rule link_reach.step [OF link_reach.init link_step.push])
  moreover have "Input_Stream.no_wrap (lk_pushed (link_push [7, 8] link_new))"
    by (simp add: Input_Stream.no_wrap_def link_push_def link_new_def)
  ultimately show ?thesis using input_exactly_once by blast
qed

text \<open>C7: One message and one acknowledgement that get through deliver all typed input and empty the client's outbox.\<close>

theorem input_round_completes:
  assumes "link_reach s" "Input_Stream.no_wrap (lk_pushed s)"
  shows "lk_applied (link_round s) = lk_pushed s \<and> outbox_is_empty (lk_box (link_round s)) \<and> link_reach (link_round s)"
  using link_round_syncs [OF link_reach_inv [OF assms] assms(2)] link_round_reach [OF assms(1)] by simp

theorem input_round_completes_witness:
  "lk_applied (link_round (link_push [7, 8] link_new)) = [7, 8]"
proof -
  have "link_reach (link_push [7, 8] link_new)" by (rule link_reach.step [OF link_reach.init link_step.push])
  moreover have "Input_Stream.no_wrap (lk_pushed (link_push [7, 8] link_new))"
    by (simp add: Input_Stream.no_wrap_def link_push_def link_new_def)
  moreover have "lk_pushed (link_push [7, 8] link_new) = [7, 8]" by code_simp
  ultimately show ?thesis using input_round_completes by metis
qed

text \<open>C8: Whatever bytes arrive and however the terminal is resized, its state stays sound: both screens have full rows and one common size, cursor and margins lie inside, there is a tab flag per column and a full palette, and the parser's buffers and the stacks stay within their caps.\<close>

theorem terminal_stays_sound:
  assumes "session_inv t"
  shows "session_inv (terminal_resize rows cols t) \<and> (case process gd g0 bs t of None \<Rightarrow> True | Some t' \<Rightarrow> session_inv t')"
  using assms inv_terminal_resize [of t] parser_resize(1) [OF refl, of rows cols t]
  by (auto simp: session_inv_def split: option.split dest: inv_process [unfolded session_inv_def, rotated])

theorem terminal_stays_sound_witness:
  "session_inv (terminal_resize 30 90 (with_scrollback () 24 80 100)) \<and>
   (case process (\<lambda>g d c. (g, None, None)) () [0x41, 0x1B, 91, 72] (with_scrollback () 24 80 100) of
      None \<Rightarrow> True | Some t' \<Rightarrow> session_inv t')"
  by (rule terminal_stays_sound) (rule session_inv_new)

text \<open>C9: Whatever an application draws between entering the alternate screen with mode 1049 and leaving it, short of switching modes or a full reset, leaving gives back the primary screen with its scrollback unchanged, and the cursor with its position, style and character sets, but without a pending wrap: the next character overwrites the last column instead of wrapping. Origin mode is off on entry.\<close>

theorem primary_survives_alt:
  assumes "term_inv t" "\<not> t_alt_active t" "\<not> m_origin (t_modes t)"
    and "list_all stays_on_screen actions" "dispatch_all gd g0 actions (set_alt_screen 1049 True t) = Some u"
  shows "t_primary (set_alt_screen 1049 False u) = t_primary t
    \<and> t_cursor (set_alt_screen 1049 False u) = (t_cursor t)\<lparr>c_pending_wrap := False\<rparr>
    \<and> \<not> t_alt_active (set_alt_screen 1049 False u)"
  using alt_screen_returns [OF assms] by blast

theorem primary_survives_alt_witness:
  "t_primary (set_alt_screen 1049 False (linefeed (print 65 (set_alt_screen 1049 True (with_scrollback () 24 80 100)))))
     = t_primary (with_scrollback () 24 80 100)
   \<and> t_cursor (set_alt_screen 1049 False (linefeed (print 65 (set_alt_screen 1049 True (with_scrollback () 24 80 100)))))
     = (t_cursor (with_scrollback () 24 80 100))\<lparr>c_pending_wrap := False\<rparr>
   \<and> \<not> t_alt_active (set_alt_screen 1049 False (linefeed (print 65 (set_alt_screen 1049 True (with_scrollback () 24 80 100)))))"
  by (rule primary_survives_alt [where actions = "[Print 65, Execute 10]" and gd = "\<lambda>g d c. (g, None, None)" and ?g0.0 = "()", OF inv_with_scrollback])
    (simp_all add: execute_def, simp_all add: with_scrollback_def modes_default_def Let_def)

text \<open>C10: Reading the program's output in two chunks, cut anywhere, even inside a character or a sequence, leaves the terminal that reading it in one piece leaves.\<close>

theorem input_split_irrelevant:
  shows "process gd g0 (a @ b) t = Option.bind (process gd g0 a t) (process gd g0 b)"
  by (rule process_append)

text \<open>C11: The grid a dump draws, read by a fresh terminal of the same size, comes back cell for cell with its styles and its soft wraps, for a grid of single-width characters without combining marks, hyperlinks, protected cells and semantic row marks, of at most 65535 rows and columns, in which every row behind a soft wrap has something to print and the last row is not soft-wrapped.\<close>

theorem grid_dump_replays:
  assumes "replayable (max cols 1) (sc_grid s)" "length (sc_grid s) = max rows 1" "rows \<le> 65535" "cols \<le> 65535"
  shows "\<exists>u. process gd g0 (es_out (draw_grid t0 s (emit_start []))) (with_scrollback g rows cols m) = Some u \<and> sc_grid (scr u) = sc_grid s"
  using assms by (rule grid_replays)

theorem grid_dump_replays_witness:
  "\<exists>u. process (\<lambda>g d c. (g, None, None)) () (es_out (draw_grid (with_scrollback () 2 4 0) kept_wrap (emit_start []))) (with_scrollback () 2 4 0) = Some u
    \<and> sc_grid (scr u) = sc_grid kept_wrap"
  using grid_dump_replays [of 4 kept_wrap 2 "\<lambda>g d c. (g, None, None)" "()" "with_scrollback () 2 4 0" "()" 0] kept_wrap_replayable by simp

text \<open>C12: Whatever is typed over whatever frame, the prediction engine does not stop the program and keeps its overlay rows well-formed: every index into an overlay row is inside it, every cursor access finds a cursor.\<close>

theorem typed_byte_never_stops:
  assumes "pred_inv e" "wf_snapshot fb"
  shows "\<exists>e'. new_user_byte b fb now e = Some e' \<and> pred_inv e'"
  using assms by (rule user_byte_goes_on)

theorem typed_byte_never_stops_witness:
  "\<exists>e'. new_user_byte 0x7F (snapshot_blank 24 80) 5 (engine_new Always False) = Some e' \<and> pred_inv e'"
  by (rule typed_byte_never_stops) (simp_all add: pred_inv_def engine_new_def wf_snapshot_blank)

text \<open>C13: After predictions are checked against a frame, every cell shown differently from the server's comes from an active prediction there, made before, of a confirmed epoch, that the server has not yet answered.\<close>

theorem drawn_predictions_unanswered:
  assumes "pe_preference e \<noteq> Never" "snap_cell (predictions_apply (cull fb now e) fb) r col \<noteq> snap_cell fb r col"
  shows "\<exists>row \<in> set (pe_overlays (cull fb now e)). \<exists>c \<in> set (or_cells row). or_num row = r \<and> oc_col c = col
    \<and> \<not> oc_tentative (pe_confirmed (cull fb now e)) c \<and> oc_active c \<and> pe_late_acked e < oc_expiration c
    \<and> stems_from r c (pe_overlays e)"
  using assms by (rule drawn_is_pending)

theorem drawn_predictions_unanswered_witness:
  "\<exists>row \<in> set (pe_overlays (cull (snapshot_blank 1 1) 5 ((engine_new Always True)\<lparr>pe_last_height := 1, pe_last_width := 1,
        pe_overlays := [\<lparr>or_num = 0, or_cells = [(overlay_new 0 0)\<lparr>oc_active := True, oc_expiration := 7, oc_time := 5,
          oc_replacement := blank_cell\<lparr>ch := 65\<rparr>\<rparr>]\<rparr>]\<rparr>))). \<exists>c \<in> set (or_cells row). oc_active c \<and> 0 < oc_expiration c"
proof -
  let ?fb = "snapshot_blank 1 1"
  let ?e = "(engine_new Always True)\<lparr>pe_last_height := 1, pe_last_width := 1,
        pe_overlays := [\<lparr>or_num = 0, or_cells = [(overlay_new 0 0)\<lparr>oc_active := True, oc_expiration := 7, oc_time := 5,
          oc_replacement := blank_cell\<lparr>ch := 65\<rparr>\<rparr>]\<rparr>]\<rparr>"
  have "pe_preference ?e \<noteq> Never" by (simp add: engine_new_def)
  moreover have "snap_cell (predictions_apply (cull ?fb 5 ?e) ?fb) 0 0 \<noteq> snap_cell ?fb 0 0"
    by (simp add: cull_def cull_size_def engine_new_def snapshot_blank_def cull_triggers_def cull_overlays_def overlay_new_def oc_validity_def cull_pending_def predictions_apply_def predictions_shown_def cull_cursors_def apply_row_def oc_apply_def Let_def SRTT_TRIGGER_HIGH_def SRTT_TRIGGER_LOW_def FLAG_TRIGGER_HIGH_def FLAG_TRIGGER_LOW_def GLITCH_REPAIR_COUNT_def GLITCH_THRESHOLD_def GLITCH_FLAG_THRESHOLD_def cull_rows.simps oc_tentative_def snap_cell_def is_blank_def blank_cell_def cell_blank_def get_at_def last_cursor_def snap_update_def underlined_def)
  ultimately show ?thesis using drawn_predictions_unanswered [of ?e ?fb 5 0 0] by (fastforce simp: engine_new_def)
qed

text \<open>C14: Once the server's late acknowledgement covers every prediction made, right or wrong, the user sees exactly the server's frame and cursor.\<close>

theorem answered_predictions_vanish:
  assumes "all_answered e"
  shows "snap_cell (predictions_apply (cull fb now e) fb) r col = snap_cell fb r col
    \<and> sn_cursor_row (predictions_apply (cull fb now e) fb) = sn_cursor_row fb
    \<and> sn_cursor_col (predictions_apply (cull fb now e) fb) = sn_cursor_col fb"
  using answered_frame_shown [OF assms] by blast

theorem answered_predictions_vanish_witness:
  "snap_cell (predictions_apply (cull (snapshot_blank 2 4) 9 ((engine_new Always True)\<lparr>pe_late_acked := 7,
      pe_cursors := [\<lparr>cp_active = True, cp_tentative_until = 0, cp_expiration = 7, cp_row = 1, cp_col = 3\<rparr>]\<rparr>)) (snapshot_blank 2 4)) 1 2
     = snap_cell (snapshot_blank 2 4) 1 2
   \<and> sn_cursor_row (predictions_apply (cull (snapshot_blank 2 4) 9 ((engine_new Always True)\<lparr>pe_late_acked := 7,
      pe_cursors := [\<lparr>cp_active = True, cp_tentative_until = 0, cp_expiration = 7, cp_row = 1, cp_col = 3\<rparr>]\<rparr>)) (snapshot_blank 2 4))
     = sn_cursor_row (snapshot_blank 2 4)
   \<and> sn_cursor_col (predictions_apply (cull (snapshot_blank 2 4) 9 ((engine_new Always True)\<lparr>pe_late_acked := 7,
      pe_cursors := [\<lparr>cp_active = True, cp_tentative_until = 0, cp_expiration = 7, cp_row = 1, cp_col = 3\<rparr>]\<rparr>)) (snapshot_blank 2 4))
     = sn_cursor_col (snapshot_blank 2 4)"
  by (rule answered_predictions_vanish) (simp add: all_answered_def engine_new_def)

text \<open>C15: With the display preference Always (not with the default Adaptive), no outstanding prediction, the input parser at rest and a frame of the engine's size and epoch, a printable ASCII key typed with the cursor before the last column shows at once: its character at the cursor, the cursor one column on, and no cell outside the rest of the row touched. The rest of the row is unchanged when overwriting; in insert mode its characters (styles not compared) move right by one, the last column aside, whose new content is not stated.\<close>

theorem typed_key_is_shown:
  assumes "wf_snapshot fb" "at_ease fb e" "32 \<le> b" "b < 127" "sn_cursor_col fb + 1 < sn_cols fb"
  shows "\<exists>e'. new_user_byte b fb now e = Some e' \<and>
    sn_cursor_row (predictions_apply e' fb) = sn_cursor_row fb \<and> sn_cursor_col (predictions_apply e' fb) = sn_cursor_col fb + 1
    \<and> map_option glyph (snap_cell (predictions_apply e' fb) (sn_cursor_row fb) (sn_cursor_col fb)) = Some (unat b, [], 1)
    \<and> (\<forall>r k. r \<noteq> sn_cursor_row fb \<or> k < sn_cursor_col fb \<or> pe_overwrite e \<and> sn_cursor_col fb < k
         \<longrightarrow> snap_cell (predictions_apply e' fb) r k = snap_cell fb r k)
    \<and> (\<forall>k. \<not> pe_overwrite e \<and> sn_cursor_col fb < k \<and> k + 1 < sn_cols fb
         \<longrightarrow> map_option glyph (snap_cell (predictions_apply e' fb) (sn_cursor_row fb) k)
             = map_option glyph (snap_cell fb (sn_cursor_row fb) (k - 1)))"
  using assms by (rule key_drawn)

theorem typed_key_is_shown_witness:
  "\<exists>e'. new_user_byte 72 (snapshot_blank 2 4) 5 ((engine_new Always False)\<lparr>pe_last_height := 2, pe_last_width := 4, pe_confirmed := 1\<rparr>) = Some e'
     \<and> sn_cursor_col (predictions_apply e' (snapshot_blank 2 4)) = 1"
proof -
  let ?e = "(engine_new Always False)\<lparr>pe_last_height := 2, pe_last_width := 4, pe_confirmed := 1\<rparr>"
  have "wf_snapshot (snapshot_blank 2 4)" "at_ease (snapshot_blank 2 4) ?e" "sn_cursor_col (snapshot_blank 2 4) = 0"
    "sn_cols (snapshot_blank 2 4) = 4"
    by (simp_all only: wf_snapshot_blank, simp_all add: at_ease_def engine_new_def snapshot_blank_def input_parser_new_def)
  then show ?thesis using typed_key_is_shown [of "snapshot_blank 2 4" ?e 72 5] by auto
qed

text \<open>C16: The fragmentation loop ends exactly when fragments may carry at least one byte or there is nothing to send; with no room for contents it never returns.\<close>

theorem fragmenting_ends:
  shows "(make_fragments fr bs m \<noteq> None) = (bs = [] \<or> 0 < m)"
  by (rule make_fragments_ends)

text \<open>C17: The fragments of a payload of at most 8192 fragments, the limit of an assembly, arriving in any order at an assembly that is not already busy with the same id, deliver exactly that payload once.\<close>

theorem fragments_reassemble:
  assumes "make_fragments fr data m = Some (fr', fs)" "0 < m" "length data \<le> m * MAX_FRAGMENTS"
    and "current_id a \<noteq> Some (next_id fr + 1)" "mset gs = mset fs"
  shows "\<exists>a'. assembly_run a gs = Some (a', [data]) \<and> current_id a' = None"
  using assms by (rule fragments_any_order)

theorem fragments_reassemble_witness:
  "\<exists>a'. assembly_run assembly_new
     [\<lparr>frag_id = 1, frag_num = 2, is_final = True, contents = [5]\<rparr>,
      \<lparr>frag_id = 1, frag_num = 0, is_final = False, contents = [1, 2]\<rparr>,
      \<lparr>frag_id = 1, frag_num = 1, is_final = False, contents = [3, 4]\<rparr>] = Some (a', [[1, 2, 3, 4, 5]]) \<and> current_id a' = None"
proof -
  have "make_fragments fragmenter_new [1, 2, 3, 4, 5] 2 = Some (\<lparr>next_id = 1\<rparr>,
     [\<lparr>frag_id = 1, frag_num = 0, is_final = False, contents = [1, 2]\<rparr>,
      \<lparr>frag_id = 1, frag_num = 1, is_final = False, contents = [3, 4]\<rparr>,
      \<lparr>frag_id = 1, frag_num = 2, is_final = True, contents = [5]\<rparr>])"
    by (simp add: make_fragments_chunks frags_from_def chunks.simps fragmenter_new_def upt_rec)
  then show ?thesis
    by (rule fragments_reassemble) (simp_all add: MAX_FRAGMENTS_def assembly_new_def add.commute)
qed

text \<open>C18: Applying the diff between two screen states to the old one gives the new one.\<close>

theorem diff_applies:
  assumes "min (length old) (length new) < 2 ^ 32"
  shows "apply_diff old (make_diff old new) = Some new"
  using assms by (rule apply_make_diff)

theorem diff_applies_witness:
  "apply_diff [1, 2, 3, 4] (make_diff [1, 2, 3, 4] [1, 9, 4]) = Some [1, 9, 4]"
  using diff_applies [of "[1, 2, 3, 4]" "[1, 9, 4]"] by simp

text \<open>C19: Every frame the server makes decodes at the client to itself, capabilities included.\<close>

theorem server_frames_decode:
  assumes "produce e st = (st', Some f)"
  shows "Frames.decode_frame (Frames.encode_frame f) = Inr f"
  by (rule decode_encode_frame) (rule produce_frame_fields(5) [OF assms])

theorem server_frames_decode_witness:
  "Frames.decode_frame (Frames.encode_frame (the (snd (produce (sample_env 1000 1 [36]) (server_new 0 990 24 80)))))
     = Inr (the (snd (produce (sample_env 1000 1 [36]) (server_new 0 990 24 80))))"
proof -
  obtain st' out where p: "produce (sample_env 1000 1 [36]) (server_new 0 990 24 80) = (st', out)" by fastforce
  have "snd (produce (sample_env 1000 1 [36]) (server_new 0 990 24 80)) \<noteq> None" by code_simp
  then obtain f where "out = Some f" using p by auto
  then show ?thesis using server_frames_decode [of "sample_env 1000 1 [36]" "server_new 0 990 24 80" st' f] p by simp
qed

text \<open>C20: Whatever the two endpoints of a session seal and open, in any order: the datagrams of both are the encryptions of their plaintexts under nonces that are all different, client's and server's together, up to 2^63 datagrams in each direction. The nonces are those given to the cipher: the equation holds for every encryption function, failing calls included.\<close>

theorem nonces_never_repeat:
  assumes "length (sealed_texts ops) \<le> 2 ^ 63" "length (sealed_texts ops') \<le> 2 ^ 63"
  shows "\<exists>ns ns'. distinct (ns @ ns') \<and> length ns = length (sealed_texts ops) \<and> length ns' = length (sealed_texts ops')
    \<and> (\<forall>encrypt decrypt.
         snd (session_run encrypt decrypt (session_new ToServer) ops) = map2 (datagram_under encrypt) ns (sealed_texts ops)
       \<and> snd (session_run encrypt decrypt (session_new ToClient) ops') = map2 (datagram_under encrypt) ns' (sealed_texts ops'))"
  using assms by (rule session_nonces)

theorem nonces_never_repeat_witness:
  "\<exists>ns ns'. distinct (ns @ ns') \<and> length ns = 2 \<and> length ns' = 1
    \<and> (\<forall>encrypt decrypt.
         snd (session_run encrypt decrypt (session_new ToServer) [SealOp [1], OpenOp [9], SealOp [1]]) = map2 (datagram_under encrypt) ns [[1], [1]]
       \<and> snd (session_run encrypt decrypt (session_new ToClient) [SealOp [1]]) = map2 (datagram_under encrypt) ns' [[1]])"
proof -
  have texts: "sealed_texts [SealOp [1], OpenOp [9], SealOp [1]] = [[1], [1]]" "sealed_texts [SealOp [1]] = [[1]]" by simp_all
  have n: "length [[1], [1] :: bytes] \<le> 2 ^ 63" "length [[1] :: bytes] \<le> 2 ^ 63" "length [[1], [1] :: bytes] = 2" "length [[1] :: bytes] = 1" by simp_all
  show ?thesis
    using nonces_never_repeat [of "[SealOp [1], OpenOp [9], SealOp [1]]" "[SealOp [1]]", unfolded texts, OF n(1,2)] unfolding n(3,4) .
qed

text \<open>C21: Whatever datagrams arrive, replayed or forged, each nonce is accepted at most once.\<close>

theorem datagrams_open_at_most_once:
  "distinct (map dgram_val (snd (open_run decrypt (session_new dir) ds)))"
  by (rule open_at_most_once)

text \<open>C22: The 64-bit replay window decides as the set of all numbers accepted so far would: newer than every one of them, or within the last 64 and not yet seen.\<close>

theorem replay_window_refines:
  assumes "window_abs w A"
  shows "(\<exists>w'. check w n = Inr w' \<and> window_abs w' (insert (unat n) A)) \<longleftrightarrow> spec_accepts A (unat n)"
  using check_Inr [OF assms] check_Inl [OF assms] by (cases "check w n") auto

theorem replay_window_refines_witness:
  "(\<exists>w'. check window_new 7 = Inr w' \<and> window_abs w' {7}) \<longleftrightarrow> spec_accepts {} 7"
  using replay_window_refines [OF window_abs_new, of 7] by simp

text \<open>C23: The detach key is found, and the bytes before it forwarded, the same way however reads split the input.\<close>

theorem detach_key_any_split:
  assumes "xs \<noteq> []"
  shows "detach_reads m xs = detach_feed m (concat xs)"
  using assms by (rule detach_reads_concat)

theorem detach_key_any_split_witness:
  "detach_reads \<lparr>carry = []\<rparr> [[97, 0x1b, 91, 57], [50, 59, 53, 117]] = (\<lparr>carry = []\<rparr>, [97], True)"
  using detach_key_any_split [of "[[97, 0x1b, 91, 57], [50, 59, 53, 117]]" "\<lparr>carry = []\<rparr>"] by (simp, code_simp)

text \<open>C24: However the socket splits or merges the bytes of well-formed frames, the frame buffer returns exactly those frames in order and keeps nothing.\<close>

theorem ipc_frames_any_split:
  assumes "\<forall>f \<in> set fs. wf_frame f" "concat ds = concat (map Ipc.frame_bytes fs)"
  shows "\<exists>fb. read_all buffer_new ds = ((None, fs), fb) \<and> avail fb = []"
  using assms by (rule read_all_frames)

theorem ipc_frames_any_split_witness:
  "\<exists>fb. read_all buffer_new [[0, 2, 0], [0, 0, 65], [66, 3, 0, 0, 0, 0]]
     = ((None, [\<lparr>tag = Input, payload = [65, 66]\<rparr>, \<lparr>tag = Detach, payload = []\<rparr>]), fb) \<and> avail fb = []"
proof (rule ipc_frames_any_split)
  show "\<forall>f \<in> set [\<lparr>tag = Input, payload = [65, 66]\<rparr>, \<lparr>tag = Detach, payload = []\<rparr>]. wf_frame f"
    by (simp add: wf_frame_def MAX_FRAME_LEN_def)
qed code_simp

text \<open>C25: Whatever bytes a program writes, the parser keeps its buffers within their bounds and emits only well-formed actions: valid characters, control bytes, sequences within the parameter limits.\<close>

theorem parser_stays_bounded:
  assumes "parser_inv p"
  shows "good (parse_bytes bs p)"
  using assms by (rule parse_bytes_good)

theorem parser_stays_bounded_witness:
  "good (parse_bytes [0x1b, 91, 49, 59, 72, 0xC3, 0xA9] parser_new)"
  by (rule parser_stays_bounded) (rule inv_new)

text \<open>C26: A resize with reflow of a well-formed screen, with the cursor's row on it, neither invents, repeats nor reorders visible cells: what screen and scrollback show afterwards is a contiguous part of what they showed before. No character may be wider than the new width, which excludes only double-width characters on a screen of one column: those are replaced by blanks.\<close>

theorem resize_keeps_text:
  assumes "wf_screen s" "fst cursor < sc_rows s" "narrow (max cols 1) s"
    and "screen_resize rows cols cursor True s = (s', r', c')"
  shows "sublist (screen_visible s') (screen_visible s)"
  using assms by (rule screen_resize_visible)

theorem resize_keeps_text_witness:
  "sublist (screen_visible (fst (screen_resize 1 3 (1, 0) True (cell_update 0 1 (\<lambda>c. c\<lparr>ch := 65\<rparr>) (screen_new 2 2 10)))))
     (screen_visible (cell_update 0 1 (\<lambda>c. c\<lparr>ch := 65\<rparr>) (screen_new 2 2 10)))"
proof -
  let ?s = "cell_update 0 1 (\<lambda>c. c\<lparr>ch := 65\<rparr>) (screen_new 2 2 10)"
  obtain s' r' c' where r: "screen_resize 1 3 (1, 0) True ?s = (s', r', c')" by (metis prod_cases3)
  have "wf_screen ?s" by (intro cell_update_wf screen_new_wf)
  moreover have "fst (1 :: nat, 0 :: nat) < sc_rows ?s" "narrow (max 3 1) ?s" by code_simp+
  ultimately show ?thesis using resize_keeps_text [OF _ _ _ r] r by simp
qed

text \<open>C27: A zlib stream of stored blocks and blocks in the fixed code, with any literals and back references, is decompressed to the bytes its tokens stand for, whatever follows it; cut off before the checksum it is refused.\<close>

theorem zlib_round_trip:
  assumes "zlib_header cmf flg" "bs \<noteq> []" "\<forall>b \<in> set bs. valid_block b" "expand_blocks bs [] = Some out" "length out \<le> limit"
  shows "zlib_decompress (zlib_bytes cmf flg bs @ trailing) limit = Done out
    \<and> zlib_decompress (cmf # flg # pack_bits (blocks_bits 0 bs)) limit = Fails Truncated"
proof -
  have "[] \<noteq> be_bytes 4 (adler32 out)" by (metis length_be_bytes list.size(3) zero_neq_numeral)
  then show ?thesis using zlib_bytes [OF assms, of trailing] zlib_bytes_refused [OF assms, of "[]"] by simp
qed

theorem zlib_round_trip_witness:
  "zlib_decompress (zlib_bytes 0x78 1 [Stored [1, 2], Fixed [Literal 97, Match 0 0 0 0]] @ [7]) 100 = Done [1, 2, 97, 97, 97, 97]
    \<and> zlib_decompress (0x78 # 1 # pack_bits (blocks_bits 0 [Stored [1, 2], Fixed [Literal 97, Match 0 0 0 0]])) 100 = Fails Truncated"
  by (rule zlib_round_trip)
    (simp_all add: zlib_header_def fixed_literal_lengths_def nth_append LENGTH_EXTRA_def DIST_EXTRA_def match_distance_def match_length_def
      LENGTH_BASE_def DIST_BASE_def repeat_last_def upt_rec)

text \<open>C28: Whatever bytes it is given, the decompressor never indexes or slices out of range and never subtracts below zero, neither in its tables nor in the output a back reference copies from; its output stays below the limit, and its 32-bit checksum sums never wrap.\<close>

theorem zlib_stays_in_bounds:
  "(case zlib_decompress data limit of Done out \<Rightarrow> length out \<le> limit | Fails e \<Rightarrow> True | Stops \<Rightarrow> False)
    \<and> unat (adler32 data) = adler_spec data"
  using zlib_not_Stops [of data limit] zlib_bounds [of data limit] adler32_spec [of data]
  by (cases "zlib_decompress data limit") simp_all

text \<open>C29: An RGBA image of any size within the quota, its rows filtered with any filters, compressed as any blocks and cut into any data chunks, is decoded to exactly its pixels.\<close>

theorem png_round_trip:
  assumes "good_header hdr" "hdr_color hdr = 6" "length rows = unat (hdr_height hdr)"
    and "\<forall>(f, row) \<in> set rows. f \<le> 4 \<and> length row = unat (hdr_width hdr) * 4"
    and "zlib_header cmf flg" "bs \<noteq> []" "\<forall>b \<in> set bs. valid_block b"
    and "expand_blocks bs [] = Some (scanlines 4 (replicate (unat (hdr_width hdr) * 4) 0) rows)"
    and "concat parts = zlib_bytes cmf flg bs" "\<forall>p \<in> set parts. length p < 2 ^ 32"
  shows "decode_png (png_file hdr None None parts trailing)
    = Done \<lparr>png_width = hdr_width hdr, png_height = hdr_height hdr, png_rgba = concat (map snd rows)\<rparr>"
proof -
  have "channels hdr = 4" using assms(2) by (simp add: channels_def)
  then show ?thesis using png_file_image [OF assms(1,3) _ assms(5-7) _ assms(9,10), of None None trailing] assms(2,4,8)
    by (simp add: to_rgba_def)
qed

theorem png_round_trip_witness:
  "decode_png (png_file \<lparr>hdr_width = 1, hdr_height = 2, hdr_color = 6\<rparr> None None
      [zlib_bytes 0x78 1 [Stored [0, 10, 20, 30, 255, 2, 1, 1, 1, 255]]] [9])
    = Done \<lparr>png_width = 1, png_height = 2, png_rgba = [10, 20, 30, 255, 11, 21, 31, 254]\<rparr>"
proof -
  let ?rows = "[(0, [10, 20, 30, 255]), (2, [11, 21, 31, 254])] :: (u8 \<times> bytes) list"
  have sl: "scanlines 4 (replicate 4 0) ?rows = [0, 10, 20, 30, 255, 2, 1, 1, 1, 255]"
    by code_simp
  have len: "length (zlib_bytes 0x78 1 [Stored [0, 10, 20, 30, 255, 2, 1, 1, 1, 255]]) < 2 ^ 32"
    by (simp add: zlib_bytes_def length_pack_bits)
  show ?thesis
    using png_round_trip [of "\<lparr>hdr_width = 1, hdr_height = 2, hdr_color = 6\<rparr>" ?rows "0x78" 1 "[Stored [0, 10, 20, 30, 255, 2, 1, 1, 1, 255]]"
        "[zlib_bytes 0x78 1 [Stored [0, 10, 20, 30, 255, 2, 1, 1, 1, 255]]]" "[9]"] sl len
    by (simp add: good_header_def png_size_def zlib_header_def)
qed

text \<open>C30: A decoded PNG has the dimensions of its header and exactly four bytes for each pixel, and the decoder indexes out of range only on a file whose own header announces pixels of 2^64 bytes or more. There are such files: one whose header says two to the power of 31 in both directions passes the size test and stops the program.\<close>

theorem png_size_bounds:
  "(case decode_png data of
      Done png \<Rightarrow> length (png_rgba png) = unat (png_width png) * unat (png_height png) * 4
        \<and> (\<exists>hdr. header_of data = Some hdr \<and> png_width png = hdr_width hdr \<and> png_height png = hdr_height hdr)
    | Fails e \<Rightarrow> True
    | Stops \<Rightarrow> \<exists>hdr. header_of data = Some hdr \<and> 2 ^ 64 \<le> png_size hdr)
    \<and> (\<exists>file hdr. decode_png file = Stops \<and> header_of file = Some hdr \<and> unat (hdr_width hdr) = 2 ^ 31 \<and> unat (hdr_height hdr) = 2 ^ 31)"
proof
  show "case decode_png data of
      Done png \<Rightarrow> length (png_rgba png) = unat (png_width png) * unat (png_height png) * 4
        \<and> (\<exists>hdr. header_of data = Some hdr \<and> png_width png = hdr_width hdr \<and> png_height png = hdr_height hdr)
    | Fails e \<Rightarrow> True
    | Stops \<Rightarrow> \<exists>hdr. header_of data = Some hdr \<and> 2 ^ 64 \<le> png_size hdr"
    using decode_png_size [of data] decode_png_header [of data] decode_png_Stops [of data] by (cases "decode_png data") simp_all
  show "\<exists>file hdr. decode_png file = Stops \<and> header_of file = Some hdr \<and> unat (hdr_width hdr) = 2 ^ 31 \<and> unat (hdr_height hdr) = 2 ^ 31"
    using wrapped_png_stops wrapped_png_header by (intro exI [of _ wrapped_png] exI [of _ wrapped_header]) (simp add: wrapped_header_def)
qed

text \<open>C31: Every graphics command keeps the store sound: ids and sequence numbers are unique, frames and animations belong to stored images, the byte count is exactly the bytes held, and it stays within the quota.\<close>

theorem graphics_store_accounted:
  assumes "graphics_dispatch data cursor (fl, g) = Some ((fl', g'), rep)" "in_quota g"
  shows "in_quota g' \<and> gs_total_bytes g' = held g'"
  using dispatch_within [OF assms] by (simp add: in_quota_def sound_def)

theorem graphics_store_accounted_witness:
  "in_quota after_wrapping \<and> gs_total_bytes after_wrapping = held after_wrapping"
  by (rule graphics_store_accounted [OF wrapping_accepted in_quota_default])

text \<open>C32: From a store whose pixels have the size their dimensions announce, no graphics command indexes out of range, and it leaves such a store, provided that the transmission it completes, if it completes one, announces a byte count that fits in 64 bits: by its width and height for raw pixels, by the header of the file for a PNG, whether sent directly, in pieces, compressed or by file name.\<close>

theorem graphics_never_stops:
  assumes "Graphics_Safe.exact g" "case completed data g of None \<Rightarrow> True | Some (k, data') \<Rightarrow> fits_in_u64 k data' fl"
  shows "\<exists>fl' g' rep. graphics_dispatch data cursor (fl, g) = Some ((fl', g'), rep) \<and> Graphics_Safe.exact g'"
  using assms by (rule dispatch_safe)

theorem graphics_never_stops_witness:
  "\<exists>fl' g' rep. graphics_dispatch small_frame (0, 0) (\<lambda>_. None, graphics_default) = Some ((fl', g'), rep) \<and> Graphics_Safe.exact g'"
  by (rule graphics_never_stops [OF exact_default small_frame_fits])

text \<open>C33: Enforcing the quota of the image store ends below it, and every image it drops was transmitted before every image it keeps.\<close>

theorem oldest_images_go_first:
  assumes "sound g"
  shows "gs_total_bytes (enforce_quota g) \<le> QUOTA_BYTES \<and> set (gs_images (enforce_quota g)) \<subseteq> set (gs_images g)
    \<and> (\<forall>a \<in> set (gs_images g) - set (gs_images (enforce_quota g)). \<forall>b \<in> set (gs_images (enforce_quota g)). im_seq a < im_seq b)"
  using enforce_quota_sound [OF assms] enforce_quota_oldest [OF assms] by blast

theorem oldest_images_go_first_witness:
  "gs_images (enforce_quota over_quota) = [stored_pixels 2 2 [0]] \<and> gs_total_bytes (enforce_quota over_quota) \<le> QUOTA_BYTES
    \<and> im_seq (stored_pixels 1 1 (replicate 335544320 0)) < im_seq (stored_pixels 2 2 [0])"
proof -
  have images: "gs_images (enforce_quota over_quota) = [stored_pixels 2 2 [0]]"
    by (simp add: enforce_quota.simps over_quota_def QUOTA_BYTES_def oldest_def best_by_def stored_pixels_def evict_def
        remove_image_data_def graphics_default_def find_image_def frames_of_def)
  have old: "stored_pixels 1 1 (replicate 335544320 0) \<in> set (gs_images over_quota) - set (gs_images (enforce_quota over_quota))"
    unfolding images by (simp add: over_quota_def stored_pixels_def)
  show ?thesis using oldest_images_go_first [OF over_quota_sound] images old by simp
qed

text \<open>C34: The image part of a terminal dump, its placements apart, is a sequence of graphics commands; run one after the other on an empty store, none is answered and none refused, and they rebuild every image with its pixels, its frames and its play state, the format of a PNG becoming RGBA. The store is sound and within its quota; ids and frame numbers are not zero, frame numbers differ, images and frames have pixels of the announced size, and their base64 form fits in a pending transmission; a larger image, which only a file can bring, is lost (Graphics_Places.large_image_lost).\<close>

theorem store_rebuilt_by_dump:
  assumes "in_quota g" "\<forall>img \<in> set (gs_images g). restorable g img"
  shows "\<exists>cmds g'. dump_images g = concat (map apc cmds)
    \<and> replays cmds cursor (fl, graphics_default) = Some (fl, g')
    \<and> (\<forall>i. plain_entry i g' = plain_entry i g)"
  using images_replayed [OF assms] by (fastforce simp: dump_images_def)

theorem store_rebuilt_by_dump_witness:
  "\<exists>cmds g'. dump_images pictures = concat (map apc cmds)
    \<and> replays cmds (0, 0) (Map.empty, graphics_default) = Some (Map.empty, g')
    \<and> (\<forall>i. plain_entry i g' = plain_entry i pictures)"
  by (rule store_rebuilt_by_dump) (simp_all add: pictures_in_quota pictures_restorable)

text \<open>C35: A program's output that is recorded, in whatever reads it arrived, is read back from the recording, and the player leads a terminal of the recorded size through exactly these bytes, with ill-formed UTF-8 replaced; numbers are those of any type whose printed values are read back.\<close>

theorem recording_replays:
  fixes zero :: "'n"
  assumes "reads_u16 f64 int16" "ch_version h = 2" "\<And>pr. ch_posh_rec h = Some pr \<Longrightarrow> utf8_valid (pr_emu_rev pr)"
    and "\<And>t. prints_time f64 fmt t" "length (from_utf8_lossy (concat (map snd pieces))) < 2 ^ 64"
  shows "\<exists>p. from_source f64 int16 gap g (rc_out (rec_finish fmt (fold (\<lambda>(t, bs). rec_output fmt t bs) pieces (rec_header h (rec_new zero))))) = Done p
    \<and> map_option (map_option py_term) (step_to_end gd g0 in_gap zero p)
      = Some (feed_each gd g0 (from_utf8_lossy (concat (map snd pieces))) (terminal_new g (unat (ch_height h)) (unat (ch_width h))))"
  using assms by (rule recording_plays)

theorem recording_replays_witness:
  "\<exists>p. from_source Graphics.digits_value nat_u16 100 () (rc_out (rec_finish decimal (fold (\<lambda>(t, bs). rec_output decimal t bs) [(3 :: nat, [104, 0xC3]), (7, [0xA9])]
        (rec_header \<lparr>ch_version = 2, ch_width = 4, ch_height = 2, ch_posh_rec = None\<rparr> (rec_new 0))))) = Done p
    \<and> map_option (map_option py_term) (step_to_end (\<lambda>g d c. (g, None, None)) () (\<lambda>a b c. a - b \<le> c) 0 p)
      = Some (feed_each (\<lambda>g d c. (g, None, None)) () (from_utf8_lossy (concat (map snd [(3 :: nat, [104, 0xC3]), (7, [0xA9])])))
          (terminal_new () (unat (ch_height \<lparr>ch_version = 2, ch_width = 4, ch_height = 2, ch_posh_rec = None\<rparr>))
            (unat (ch_width \<lparr>ch_version = 2, ch_width = 4, ch_height = 2, ch_posh_rec = None\<rparr>))))"
proof (rule recording_replays [OF nat_times(2)])
  have "from_utf8_lossy [104, 0xC3, 0xA9] = [104, 0xC3, 0xA9]" by code_simp
  then show "length (from_utf8_lossy (concat (map snd [(3 :: nat, [104, 0xC3]), (7, [0xA9])]))) < 2 ^ 64" by simp
qed (simp_all add: nat_times(1))

text \<open>C36: Stepping through a recording by bytes, escape sequences, writes, changes, frames and markers in any mixture: when the end is reached, the player is the one that a single run to the end leaves, with the same screen and every resize applied.\<close>

theorem stepping_agrees:
  assumes "steps gd g0 in_gap zero ks p = Some (Some q)" "at_end q" "length (py_flat p) < 2 ^ 64"
  shows "step_to_end gd g0 in_gap zero p = Some (Some (flush_trailing_resizes q))"
  using assms by (rule steps_agree)

theorem stepping_agrees_witness:
  "\<exists>q. steps (\<lambda>g d c. (g, None, None)) () (\<lambda>a b c. a - b \<le> c) 0 [(ByByte, 3)] typed_letters = Some (Some q)
    \<and> step_to_end (\<lambda>g d c. (g, None, None)) () (\<lambda>a b c. a - b \<le> c) 0 typed_letters = Some (Some (flush_trailing_resizes q))"
proof -
  obtain q where q: "steps (\<lambda>g d c. (g, None, None)) () (\<lambda>a b c. a - b \<le> c) 0 [(ByByte, 3)] typed_letters = Some (Some q)" "at_end q"
    using typed_letters_play by blast
  have "length (py_flat typed_letters) < 2 ^ 64" by (simp add: typed_letters_def)
  from stepping_agrees [OF q this] q(1) show ?thesis by blast
qed

text \<open>C37: Three commands from a program in the terminal stop it: an image of two to the power of 31 pixels in both directions and no data passes the size check, because the byte count wraps to zero, and composing a frame of it indexes out of range.\<close>

theorem wrapped_size_stops:
  shows "\<exists>g1 g2 r1 r2. graphics_dispatch wrapping_transmission cursor (fl, graphics_default) = Some ((fl, g1), r1)
    \<and> graphics_dispatch small_frame cursor (fl, g1) = Some ((fl, g2), r2) \<and> graphics_dispatch compose_frame cursor (fl, g2) = None"
  using wrapping_accepted wrapping_frame_stored wrapping_compose_stops by blast

text \<open>C38: With all keys and event types reported, two key events that differ in the key, a modifier or the kind of event are never sent as the same bytes, whatever the other flags and the cursor key mode, so a program can tell Tab from Ctrl+I. The keys are the named ones, F1 to F12, and characters that are their own lowercase and none of the codes 9, 13, 27 and 127, which are sent as those of Tab, Enter, Escape and Backspace; an uppercase character is sent as its lowercase one.\<close>

theorem key_reports_distinct:
  assumes "has_bits flags REPORT_ALL" "has_bits flags REPORT_EVENTS" "reportable lower (ev_key e1)" "reportable lower (ev_key e2)"
    and "e1 \<noteq> e2"
  shows "encode_key lower e1 flags app1 \<noteq> encode_key lower e2 flags app2"
  using full_reports_distinct [OF assms(1-4)] assms(5) by blast

theorem key_reports_distinct_witness:
  "encode_key (\<lambda>c. c) \<lparr>ev_key = CharKey 105, ev_mods = CTRL, ev_type = Press\<rparr> 10 False
   \<noteq> encode_key (\<lambda>c. c) \<lparr>ev_key = Tab, ev_mods = 0, ev_type = Press\<rparr> 10 True"
  by (rule key_reports_distinct) (simp_all add: has_bits_def key_bits reportable_def)



text \<open>C40: A background color request whose specification is a hash sign and one three-byte character stops the program, on a terminal of any size.\<close>

theorem color_spec_stops_program:
  shows "process gd g0 [0x1B, 0x5D, 49, 49, 59, 35, 0xE2, 0x82, 0xAC, 7] (with_scrollback g rows cols n) = None"
  by (rule remote_color_stops)

end
